(* ===== verification/Prelude.thy ===== *)
theory Prelude
  imports Main "HOL-Library.Word"
begin

text \<open>
  Shared vocabulary of the development: the machine integer types of the C++ sources, the
  result type in which an operation can stop with a fault, the vector idioms the sources use
  (\<^verbatim>\<open>push_back\<close>, \<^verbatim>\<open>back\<close>, \<^verbatim>\<open>pop_back\<close>, \<^verbatim>\<open>erase(find)\<close>), and the list lemmas that
  the components share. A C++ vector is a list in the vector's own order: \<^verbatim>\<open>push_back x\<close> is
  \<open>xs @ [x]\<close>, \<^verbatim>\<open>back()\<close> is \<open>last xs\<close>, \<^verbatim>\<open>pop_back()\<close> is \<open>butlast xs\<close>, and erasing the first
  occurrence found by \<^verbatim>\<open>std::find\<close> is \<open>remove1 x xs\<close>.
\<close>

named_theorems vec_simps \<open>rewrite rules for the vector idioms of the sources\<close>
named_theorems res_simps \<open>rewrite rules for results that may be faults\<close>

type_synonym u8 = "8 word"
type_synonym u16 = "16 word"
type_synonym u32 = "32 word"
type_synonym u64 = "64 word"

section \<open>Results that may be faults\<close>

text \<open>
  \<open>AssertFailed\<close> is a failing \<^verbatim>\<open>assert\<close>, \<open>UndefinedBehaviour\<close> an execution that C++ gives no meaning to (the use
  of an invalidated iterator), the other faults are the exception classes the sources throw. \<open>'a res\<close> is the outcome of an operation: \<open>Inl\<close> of the fault or \<open>Inr\<close> of the
  result.
\<close>

datatype fault = AssertFailed | LogicError | RuntimeError | InvalidArgument | OutOfRange | UndefinedBehaviour

type_synonym 'a res = "fault + 'a"

definition assert_then :: "bool \<Rightarrow> 'a res \<Rightarrow> 'a res" where
  "assert_then b k = (if b then k else Inl AssertFailed)"

definition rbind :: "'a res \<Rightarrow> ('a \<Rightarrow> 'b res) \<Rightarrow> 'b res" where
  "rbind m f = (case m of Inl e \<Rightarrow> Inl e | Inr x \<Rightarrow> f x)"

lemma assert_then_True [simp, res_simps]: "assert_then True k = k"
  by (simp add: assert_then_def)

lemma assert_then_False [simp, res_simps]: "assert_then False k = Inl AssertFailed"
  by (simp add: assert_then_def)

lemma assert_then_Inr [res_simps]: "assert_then b k = Inr x \<longleftrightarrow> b \<and> k = Inr x"
  by (simp add: assert_then_def)

lemma rbind_Inr [simp, res_simps]: "rbind (Inr x) f = f x"
  by (simp add: rbind_def)

lemma rbind_Inl [simp, res_simps]: "rbind (Inl e) f = Inl e"
  by (simp add: rbind_def)

lemma rbind_eq_Inr [res_simps]: "rbind m f = Inr y \<longleftrightarrow> (\<exists>x. m = Inr x \<and> f x = Inr y)"
  by (cases m) simp_all

lemma rbindE:
  assumes "rbind m f = Inr y"
  obtains x where "m = Inr x" "f x = Inr y"
  using assms by (cases m) simp_all

lemma assert_thenE:
  assumes "assert_then b k = Inr y"
  obtains "b" "k = Inr y"
  using assms by (cases b) simp_all

text \<open>A loop whose body may fault, over the elements of a list in order.\<close>

fun rfold :: "('b \<Rightarrow> 's \<Rightarrow> 's res) \<Rightarrow> 'b list \<Rightarrow> 's \<Rightarrow> 's res" where
  "rfold f [] s = Inr s"
| "rfold f (x # xs) s = rbind (f x s) (rfold f xs)"

lemma rfold_append: "rfold f (xs @ ys) s = rbind (rfold f xs s) (rfold f ys)"
proof (induction xs arbitrary: s)
  case Nil
  then show ?case by simp
next
  case (Cons x xs)
  then show ?case by (cases "f x s") simp_all
qed

text \<open>
  The rule for such loops: an invariant indexed by the elements still to be processed, under
  which the body never faults.
\<close>

lemma rfold_rule:
  assumes "I xs s"
    and step: "\<And>x ys s. I (x # ys) s \<Longrightarrow> \<exists>s'. f x s = Inr s' \<and> I ys s'"
  shows "\<exists>s'. rfold f xs s = Inr s' \<and> I [] s'"
  using assms(1)
proof (induction xs arbitrary: s)
  case Nil
  then show ?case by simp
next
  case (Cons x xs)
  from step [OF Cons.prems] obtain s' where "f x s = Inr s'" and "I xs s'" by blast
  with Cons.IH [of s'] show ?case by simp
qed

section \<open>Vectors\<close>

lemma set_butlast_distinct [vec_simps]:
  "distinct xs \<Longrightarrow> xs \<noteq> [] \<Longrightarrow> set (butlast xs) = set xs - {last xs}"
  by (cases xs rule: rev_cases) simp_all

lemma length_butlast_int: "xs \<noteq> [] \<Longrightarrow> int (length (butlast xs)) = int (length xs) - 1"
  by (cases xs) simp_all

lemma length_remove1_int:
  "x \<in> set xs \<Longrightarrow> int (length (remove1 x xs)) = int (length xs) - 1"
  using length_pos_if_in_set [of x xs] by (simp add: length_remove1 of_nat_diff Suc_le_eq)

lemma sum_list_update_int:
  fixes xs :: "int list"
  shows "i < length xs \<Longrightarrow> sum_list (xs[i := x]) = sum_list xs - xs ! i + x"
  by (induction xs arbitrary: i) (auto split: nat.splits)

lemma sum_list_map_update:
  fixes f :: "'a \<Rightarrow> int"
  shows "i < length xs \<Longrightarrow> sum_list (map f (xs[i := x])) = sum_list (map f xs) - f (xs ! i) + f x"
  by (simp add: map_update sum_list_update_int)

lemma nth_list_update_if:
  "j < length xs \<Longrightarrow> (xs[i := x]) ! j = (if i = j then x else xs ! j)"
  by (simp add: nth_list_update)

lemma last_in_set_ne [intro]: "xs \<noteq> [] \<Longrightarrow> last xs \<in> set xs"
  by simp

lemma set_list_updateE:
  "y \<in> set (xs[i := x]) \<Longrightarrow> y = x \<or> y \<in> set xs"
  using set_update_subset_insert by fastforce

section \<open>Page numbers\<close>

text \<open>A flat page index splits into a block number and an offset inside the block.\<close>

lemma div_less_blocks:
  fixes p b n :: nat
  shows "0 < b \<Longrightarrow> p < n * b \<Longrightarrow> p div b < n"
  by (simp add: less_mult_imp_div_less)

lemma block_index_less:
  fixes i j b n :: nat
  assumes "i < n" and "j < b"
  shows "i * b + j < n * b"
proof -
  have "i * b + j < Suc i * b" using assms(2) by simp
  also have "\<dots> \<le> n * b" using assms(1) by (intro mult_right_mono) simp_all
  finally show ?thesis .
qed

lemma block_index_div [simp]: "(j::nat) < b \<Longrightarrow> (i * b + j) div b = i"
  by simp

lemma div_eq_iff_block:
  fixes m c r :: nat
  assumes "0 < c"
  shows "m div c = r \<longleftrightarrow> r * c \<le> m \<and> m < r * c + c"
proof
  assume "m div c = r"
  then show "r * c \<le> m \<and> m < r * c + c"
    using div_times_less_eq_dividend [of m c] dividend_less_div_times [OF assms, of m] by simp
next
  assume "r * c \<le> m \<and> m < r * c + c"
  then show "m div c = r"
    by (intro div_nat_eqI) (simp_all add: mult.commute)
qed

lemma block_index_mod [simp]: "(j::nat) < b \<Longrightarrow> (i * b + j) mod b = j"
  by simp

section \<open>Words\<close>

lemma sint_u32_small:
  assumes "unat (w :: u32) < 2 ^ 31"
  shows "sint w = int (unat w)"
proof -
  have "- (2 ^ 31) \<le> uint w" by (rule order_trans [OF _ uint_ge_0]) simp
  moreover have "uint w < 2 ^ 31" 
  proof -
    have "int (unat w) < int (2 ^ 31)" using assms by (simp only: of_nat_less_iff)
    then show ?thesis by simp
  qed
  ultimately have "signed_take_bit 31 (uint w) = uint w" by (rule signed_take_bit_int_eq_self)
  then show ?thesis by (simp add: sint_uint)
qed

lemma unat_u32_of_nat: "n < 2 ^ 32 \<Longrightarrow> unat (word_of_nat n :: u32) = n"
  by (simp add: unsigned_of_nat take_bit_nat_eq_self)

section \<open>Finite maps\<close>

lemma sum_map_upd:
  fixes f :: "'v \<Rightarrow> int"
  assumes "finite (dom m)" "m k = None"
  shows "(\<Sum>x \<in> dom (m(k \<mapsto> v)). f (the ((m(k \<mapsto> v)) x))) = (\<Sum>x \<in> dom m. f (the (m x))) + f v"
proof -
  have k: "k \<notin> dom m" using assms(2) by (simp add: domIff)
  have "(\<Sum>x \<in> dom m. f (the ((m(k \<mapsto> v)) x))) = (\<Sum>x \<in> dom m. f (the (m x)))"
    using k by (intro sum.cong) auto
  with assms(1) k show ?thesis by simp
qed

lemma sum_map_del:
  fixes f :: "'v \<Rightarrow> int"
  assumes "finite (dom m)" "m k = Some v"
  shows "(\<Sum>x \<in> dom (m(k := None)). f (the ((m(k := None)) x))) = (\<Sum>x \<in> dom m. f (the (m x))) - f v"
proof -
  have k: "k \<in> dom m" using assms(2) by auto
  have "(\<Sum>x \<in> dom m - {k}. f (the ((m(k := None)) x))) = (\<Sum>x \<in> dom m - {k}. f (the (m x)))"
    by (intro sum.cong) auto
  with assms k show ?thesis by (simp add: sum_diff1)
qed

lemma unat_next: "unat (s :: u64) + 1 < 2 ^ 64 \<Longrightarrow> unat (s + 1) = unat s + 1"
  using unat_add_lem [of s 1] by simp

end
