(* ===== verification/Kv_Shard.thy ===== *)
theory Kv_Shard
  imports Prelude "HOL-Library.Signed_Division"
begin

text \<open>
  The token-to-rank sharding arithmetic of \<^verbatim>\<open>src/src/daemon/kv_shard_math.h\<close> and the routing
  functions of \<^verbatim>\<open>PageAllocator\<close> that it mirrors. Positions are 32-bit words; the casts of
  the source between \<^verbatim>\<open>int\<close> and \<^verbatim>\<open>uint32_t\<close> are \<open>word_of_int\<close> and \<open>sint\<close>; the \<^verbatim>\<open>int\<close> divisions
  of the page functions truncate (\<open>sdiv\<close>, \<open>smod\<close>). The lemmas say that the partition is
  disjoint and complete, that the closed form of the local length counts the owned
  positions, and that local and global page numbers are inverse to each other.
\<close>

section \<open>Definitions\<close>

definition owner_rank :: "u32 \<Rightarrow> int \<Rightarrow> int \<Rightarrow> int" where
  "owner_rank pos chunk_tokens dcp_size =
     (if dcp_size \<le> 1 then 0
      else sint ((pos div word_of_int chunk_tokens) mod word_of_int dcp_size))"

definition owned_len :: "int \<Rightarrow> u32 \<Rightarrow> int \<Rightarrow> int \<Rightarrow> int" where
  "owned_len rank n_tokens chunk_tokens dcp_size =
     (if dcp_size \<le> 1 then sint n_tokens
      else
        let chunk = (word_of_int chunk_tokens :: u32);
            cycle = chunk * word_of_int dcp_size;
            full_cycles = n_tokens div cycle;
            rem = n_tokens mod cycle;
            r_start = word_of_int rank * chunk;
            rem_owned = (if r_start < rem
                         then (if rem - r_start < chunk then rem - r_start else chunk)
                         else 0)
        in sint (full_cycles * chunk + rem_owned))"

definition page_owner_rank :: "int \<Rightarrow> int \<Rightarrow> int \<Rightarrow> int" where
  "page_owner_rank global_page pages_per_chunk dcp_size =
     (if dcp_size \<le> 1 then 0 else (global_page sdiv pages_per_chunk) smod dcp_size)"

definition local_page_index :: "int \<Rightarrow> int \<Rightarrow> int \<Rightarrow> int" where
  "local_page_index global_page pages_per_chunk dcp_size =
     (if dcp_size \<le> 1 then global_page
      else
        let cycle_pages = pages_per_chunk * dcp_size;
            cycles = global_page sdiv cycle_pages;
            within = global_page smod pages_per_chunk
        in cycles * pages_per_chunk + within)"

definition global_page_of_local :: "int \<Rightarrow> int \<Rightarrow> int \<Rightarrow> int \<Rightarrow> int" where
  "global_page_of_local rank local_page pages_per_chunk dcp_size =
     (if dcp_size \<le> 1 then local_page
      else
        let cycles = local_page sdiv pages_per_chunk;
            within = local_page smod pages_per_chunk
        in (cycles * dcp_size + rank) * pages_per_chunk + within)"

section \<open>Counting the owned positions\<close>

text \<open>
  The arithmetic core, on natural numbers: the positions below \<open>n\<close> whose chunk number is
  \<open>r\<close> modulo \<open>d\<close>.
\<close>

definition owned_below :: "nat \<Rightarrow> nat \<Rightarrow> nat \<Rightarrow> nat \<Rightarrow> nat set" where
  "owned_below r n c d = {p. p < n \<and> p div c mod d = r}"

definition owned_count :: "nat \<Rightarrow> nat \<Rightarrow> nat \<Rightarrow> nat \<Rightarrow> nat" where
  "owned_count r n c d = n div (c * d) * c + min (n mod (c * d) - r * c) c"

lemma owned_below_finite [simp]: "finite (owned_below r n c d)"
  by (simp add: owned_below_def)

lemma owned_below_Suc:
  "owned_below r (Suc n) c d =
     (if n div c mod d = r then insert n (owned_below r n c d) else owned_below r n c d)"
  by (auto simp: owned_below_def less_Suc_eq)

lemma chunk_number_mod:
  fixes n c d :: nat
  assumes "0 < c"
  shows "n div c mod d = n mod (c * d) div c"
proof -
  have "n = n div (c * d) * d * c + n mod (c * d)"
    by (metis div_mult_mod_eq mult.assoc mult.commute)
  then have "n div c = n div (c * d) * d + n mod (c * d) div c"
    by (metis assms div_mult_self3 less_numeral_extra(3))
  moreover have "n mod (c * d) div c < d" if "0 < d"
    using that assms by (metis less_mult_imp_div_less mod_less_divisor mult.commute nat_0_less_mult_iff)
  ultimately show ?thesis
    by (cases "d = 0") simp_all
qed

lemma owned_count_Suc:
  assumes "0 < c" and "r < d"
  shows "owned_count r (Suc n) c d =
    (if n div c mod d = r then Suc (owned_count r n c d) else owned_count r n c d)"
proof -
  define m where "m = n mod (c * d)"
  have cd: "0 < c * d" using assms by simp
  have m: "m < c * d" using cd by (simp add: m_def)
  have own: "n div c mod d = r \<longleftrightarrow> r * c \<le> m \<and> m < r * c + c"
    by (simp add: chunk_number_mod [OF assms(1)] div_eq_iff_block [OF assms(1)] m_def)
  have rc: "r * c + c \<le> c * d"
  proof -
    have "Suc r * c \<le> d * c" using assms(2) by (intro mult_right_mono) simp_all
    then show ?thesis by (simp add: algebra_simps)
  qed
  show ?thesis
  proof (cases "Suc m = c * d")
    case True
    then have "Suc n mod (c * d) = 0" and "Suc n div (c * d) = Suc (n div (c * d))"
      using cd by (simp_all add: m_def mod_Suc div_Suc)
    with True own rc show ?thesis
      unfolding owned_count_def m_def [symmetric] by (auto simp: min_def)
  next
    case False
    then have "Suc n mod (c * d) = Suc m" and "Suc n div (c * d) = n div (c * d)"
      by (simp_all add: m_def mod_Suc div_Suc)
    with own show ?thesis
      unfolding owned_count_def m_def [symmetric] by (auto simp: min_def)
  qed
qed

lemma owned_count_card:
  assumes "0 < c" and "r < d"
  shows "owned_count r n c d = card (owned_below r n c d)"
proof (induction n)
  case 0
  then show ?case by (simp add: owned_count_def owned_below_def)
next
  case (Suc n)
  have "n \<notin> owned_below r n c d" by (simp add: owned_below_def)
  with Suc show ?case
    by (simp add: owned_count_Suc [OF assms] owned_below_Suc)
qed

lemma owned_below_partition:
  assumes "0 < d"
  shows "(\<Sum>r<d. card (owned_below r n c d)) = n"
proof -
  have "(\<Sum>r<d. card (owned_below r n c d)) = card (\<Union>r\<in>{..<d}. owned_below r n c d)"
    by (subst card_UN_disjoint) (auto simp: owned_below_def)
  also have "(\<Union>r\<in>{..<d}. owned_below r n c d) = {..<n}"
    using assms by (auto simp: owned_below_def)
  finally show ?thesis by simp
qed

section \<open>The word arithmetic of the source\<close>

lemma owner_rank_nat:
  assumes "0 < c" and "1 < d" and "c < 2 ^ 31" and "d < 2 ^ 31"
  shows "owner_rank pos (int c) (int d) = int (unat pos div c mod d)"
proof -
  let ?w = "(pos div word_of_nat c) mod (word_of_nat d :: u32)"
  have u: "unat ?w = unat pos div c mod d"
    using assms by (simp add: unat_div unat_mod unat_u32_of_nat)
  also have "\<dots> < d" using assms by simp
  finally have "unat ?w < 2 ^ 31" using assms by linarith
  then have "sint ?w = int (unat ?w)" by (rule sint_u32_small)
  with u assms show ?thesis by (simp add: owner_rank_def)
qed

lemma owned_count_le: "0 < c \<Longrightarrow> r < d \<Longrightarrow> owned_count r n c d \<le> n"
  using card_mono [of "{..<n}" "owned_below r n c d"]
  by (auto simp: owned_count_card owned_below_def)

lemma owned_len_nat:
  assumes "0 < c" and "1 < d" and "c * d < 2 ^ 32" and "r < d" and "unat n < 2 ^ 31"
  shows "owned_len (int r) n (int c) (int d) = int (owned_count r (unat n) c d)"
proof -
  define C D R where "C = (word_of_nat c :: u32)" and "D = (word_of_nat d :: u32)"
    and "R = (word_of_nat r :: u32)"
  have "c \<le> c * d" and "d \<le> c * d" and rc: "r * c < c * d"
    using assms by (simp_all add: mult.commute)
  then have "c < 2 ^ 32" and "d < 2 ^ 32" and "r < 2 ^ 32"
    using assms by linarith+
  then have C: "unat C = c" and D: "unat D = d" and R: "unat R = r"
    by (simp_all only: C_def D_def R_def unat_u32_of_nat)
  have CD: "unat (C * D) = c * d" and RC: "unat (R * C) = r * c"
    using assms(3) order_less_trans [OF rc assms(3)]
    by (simp_all add: unat_word_ariths C D R)
  define m where "m = n mod (C * D)"
  have m: "unat m = unat n mod (c * d)" by (simp add: m_def unat_mod CD)
  define own where "own = (if R * C < m then if m - R * C < C then m - R * C else C else 0)"
  have own: "unat own = min (unat m - r * c) c"
    by (auto simp: own_def word_less_nat_alt RC C unat_sub word_le_nat_alt min_def)
  define full where "full = n div (C * D)"
  have full: "unat full = unat n div (c * d)" by (simp add: full_def unat_div CD)
  have total: "unat full * c + unat own = owned_count r (unat n) c d"
    by (simp add: owned_count_def full own m)
  also have "\<dots> < 2 ^ 31"
    using owned_count_le [OF assms(1,4), of "unat n"] assms(5) by linarith
  finally have lt: "unat full * c + unat own < 2 ^ 31" .
  then have "unat (full * C + own) = unat full * c + unat own"
    by (simp add: unat_word_ariths C)
  with lt total have "sint (full * C + own) = int (owned_count r (unat n) c d)"
    by (simp add: sint_u32_small)
  moreover have "owned_len (int r) n (int c) (int d) = sint (full * C + own)"
    using assms(2)
    unfolding owned_len_def Let_def full_def own_def m_def C_def D_def R_def by simp
  ultimately show ?thesis by simp
qed

section \<open>Pages\<close>

lemma sdiv_nonneg: "0 \<le> (a::int) \<Longrightarrow> 0 < b \<Longrightarrow> a sdiv b = a div b"
  by (cases "a = 0") (simp_all add: signed_divide_int_def)

lemma smod_nonneg: "0 \<le> (a::int) \<Longrightarrow> 0 < b \<Longrightarrow> a smod b = a mod b"
  by (cases "a = 0") (simp_all add: signed_modulo_int_def signed_divide_int_def minus_div_mult_eq_mod)

lemmas page_arith = sdiv_nonneg smod_nonneg

lemma page_owner_rank_nat:
  assumes "0 < c" and "1 < d"
  shows "page_owner_rank (int g) (int c) (int d) = int (g div c mod d)"
  using assms by (simp add: page_owner_rank_def page_arith zdiv_int zmod_int pos_imp_zdiv_nonneg_iff)

lemma local_page_index_nat:
  assumes "0 < c" and "1 < d"
  shows "local_page_index (int g) (int c) (int d) = int (g div (c * d) * c + g mod c)"
  using assms by (simp add: local_page_index_def Let_def page_arith zdiv_int zmod_int)

lemma global_page_of_local_nat:
  assumes "0 < c" and "1 < d"
  shows "global_page_of_local (int r) (int l) (int c) (int d) =
    int ((l div c * d + r) * c + l mod c)"
  using assms by (simp add: global_page_of_local_def Let_def page_arith zdiv_int zmod_int)

text \<open>The local index of a page counts the pages of the same owner before it.\<close>

lemma local_index_counts:
  assumes "0 < c" and "0 < d"
  shows "card (owned_below (g div c mod d) g c d) = g div (c * d) * c + g mod c"
proof -
  let ?m = "g mod (c * d)"
  have "g div c mod d = ?m div c" by (rule chunk_number_mod [OF assms(1)])
  moreover have "?m - ?m div c * c = ?m mod c" by (simp add: minus_div_mult_eq_mod)
  moreover have "?m mod c = g mod c" by (simp add: mod_mod_cancel)
  moreover have "g mod c < c" using assms by simp
  ultimately have "owned_count (g div c mod d) g c d = g div (c * d) * c + g mod c"
    by (simp add: owned_count_def)
  then show ?thesis using assms by (simp add: owned_count_card)
qed

section \<open>Properties\<close>

lemma owner_rank_of_nat:
  assumes "0 < c" "1 < d" "c < 2 ^ 31" "d < 2 ^ 31" "p < 2 ^ 32"
  shows "owner_rank (word_of_nat p) (int c) (int d) = int (p div c mod d)"
  using owner_rank_nat [OF assms(1-4), of "word_of_nat p"] assms(5) by (simp add: unat_u32_of_nat)

text \<open>
  C33: The closed form \<open>owned_len\<close> equals the number of positions below \<open>n\<close> whose \<open>owner_rank\<close> is the rank:
  the 32-bit arithmetic neither wraps nor rounds as long as a cycle of chunks fits in 32 bits and the
  length in a signed 32-bit integer.
\<close>

theorem owned_len_counts_owned_positions:
  assumes "0 < c" "1 < d" "c < 2 ^ 31" "d < 2 ^ 31" "c * d < 2 ^ 32" "r < d" "unat n < 2 ^ 31"
  shows "owned_len (int r) n (int c) (int d) =
    int (card {p. p < unat n \<and> owner_rank (word_of_nat p) (int c) (int d) = int r})"
proof -
  have "{p. p < unat n \<and> owner_rank (word_of_nat p) (int c) (int d) = int r} = owned_below r (unat n) c d"
    using owner_rank_of_nat [OF assms(1-4)] assms(7) by (auto simp: owned_below_def)
  then show ?thesis using owned_len_nat [OF assms(1,2,5-7)] owned_count_card [OF assms(1,6)] by simp
qed

theorem owned_len_counts_owned_positions_witness:
  "owned_len 1 10 2 3 = int (card {p. p < unat (10 :: u32) \<and> owner_rank (word_of_nat p) 2 3 = 1})"
  using owned_len_counts_owned_positions [of 2 3 1 10] by simp

text \<open>The ranks partition the sequence: the local lengths of all ranks add up to its length.\<close>

theorem owned_lens_partition:
  assumes "0 < c" "1 < d" "c * d < 2 ^ 32" "unat n < 2 ^ 31"
  shows "(\<Sum>r < d. owned_len (int r) n (int c) (int d)) = int (unat n)"
proof -
  have "(\<Sum>r < d. owned_len (int r) n (int c) (int d)) = (\<Sum>r < d. int (card (owned_below r (unat n) c d)))"
    using assms by (intro sum.cong) (simp_all add: owned_len_nat owned_count_card)
  also have "\<dots> = int (\<Sum>r < d. card (owned_below r (unat n) c d))" by simp
  finally show ?thesis using owned_below_partition [of d "unat n" c] assms(2) by simp
qed

theorem owned_lens_partition_witness: "(\<Sum>r < 3. owned_len (int r) 10 2 3) = 10"
  using owned_lens_partition [of 2 3 10] by simp

text \<open>
  Global and local page numbers are inverse: a page is the page its owner stores at its local index, and
  the page stored by rank \<open>r\<close> at local index \<open>l\<close> is owned by \<open>r\<close> at \<open>l\<close>; the local index of a page counts the
  pages of the same owner before it, so local pages are dense.
\<close>

theorem page_numbering_roundtrip:
  assumes "0 < c" "1 < d"
  shows "global_page_of_local (page_owner_rank (int g) (int c) (int d)) (local_page_index (int g) (int c) (int d)) (int c) (int d)
      = int g
    \<and> (\<forall>r < d. page_owner_rank (global_page_of_local (int r) (int l) (int c) (int d)) (int c) (int d) = int r
         \<and> local_page_index (global_page_of_local (int r) (int l) (int c) (int d)) (int c) (int d) = int l)
    \<and> local_page_index (int g) (int c) (int d) =
        int (card {g'. g' < g \<and> page_owner_rank (int g') (int c) (int d) = page_owner_rank (int g) (int c) (int d)})"
proof -
  let ?r = "g div c mod d" and ?l = "g div (c * d) * c + g mod c"
  have mod: "g mod c < c" using assms by simp
  then have ldiv: "?l div c = g div (c * d)" and lmod: "?l mod c = g mod c" by simp_all
  have "(?l div c * d + ?r) * c + ?l mod c = g"
  proof -
    have "g div c = g div c div d * d + g div c mod d" by (rule div_mult_mod_eq [symmetric])
    then have "g div c = g div (c * d) * d + ?r" by (simp add: div_mult2_eq)
    then have "(g div (c * d) * d + ?r) * c + g mod c = g div c * c + g mod c" by simp
    then show ?thesis using ldiv lmod by (simp add: div_mult_mod_eq)
  qed
  then have 1: "global_page_of_local (page_owner_rank (int g) (int c) (int d)) (local_page_index (int g) (int c) (int d)) (int c) (int d)
      = int g"
    using page_owner_rank_nat [OF assms] local_page_index_nat [OF assms] global_page_of_local_nat [OF assms, of ?r ?l]
    by simp
  have 2: "page_owner_rank (global_page_of_local (int r) (int l) (int c) (int d)) (int c) (int d) = int r
      \<and> local_page_index (global_page_of_local (int r) (int l) (int c) (int d)) (int c) (int d) = int l" if "r < d" for r
  proof -
    let ?g = "(l div c * d + r) * c + l mod c"
    have "l mod c < c" using assms by simp
    then have g: "?g div c = l div c * d + r" "?g mod c = l mod c" by simp_all
    then have "?g div (c * d) = l div c" using that by (simp add: div_mult2_eq)
    with g that show ?thesis
      by (simp only: global_page_of_local_nat [OF assms] page_owner_rank_nat [OF assms] local_page_index_nat [OF assms])
         simp
  qed
  have "{g'. g' < g \<and> page_owner_rank (int g') (int c) (int d) = page_owner_rank (int g) (int c) (int d)}
      = owned_below ?r g c d"
    by (auto simp: owned_below_def page_owner_rank_nat [OF assms])
  then have 3: "local_page_index (int g) (int c) (int d) =
      int (card {g'. g' < g \<and> page_owner_rank (int g') (int c) (int d) = page_owner_rank (int g) (int c) (int d)})"
    using local_index_counts [of c d g] assms by (simp add: local_page_index_nat [OF assms])
  show ?thesis using 1 2 3 by blast
qed

theorem page_numbering_roundtrip_witness:
  "global_page_of_local (page_owner_rank 11 2 3) (local_page_index 11 2 3) 2 3 = 11"
  using page_numbering_roundtrip [of 2 3 11 0, THEN conjunct1] by simp

end
