(* ===== verification/Kv_Slabs.thy ===== *)
theory Kv_Slabs
  imports Prelude
begin

text \<open>
  The slab-managed kMain region of one GPU, from \<^verbatim>\<open>src/src/core/memory/page_allocator.{h,cpp}\<close>:
  the slab array, the shared free-slab list, the loose pages, the per-sequence bump runs and
  the \<open>O(1)\<close> free-page counter. The record \<open>kv_region\<close> holds those fields of the source's
  \<^verbatim>\<open>GpuPool\<close>; theory \<open>Page_Pool\<close> extends it to the whole \<^verbatim>\<open>GpuPool\<close>. The \<open>-1\<close> that the
  source's searches return for \<^emph>\<open>not found\<close> is \<open>None\<close>. \<open>pps\<close> is \<^verbatim>\<open>pages_per_slab_\<close>.
\<close>

section \<open>State\<close>

record kv_slab =
  owner_seq :: u64
  claimed :: bool
  used :: nat
  bump :: nat
  holes :: "nat list"
  tok_lo :: u32
  tok_hi :: u32

abbreviation UINT32_MAX :: u32 where
  "UINT32_MAX \<equiv> - 1"

definition fresh_slab :: kv_slab where
  "fresh_slab = \<lparr>owner_seq = 0, claimed = False, used = 0, bump = 0, holes = [],
     tok_lo = UINT32_MAX, tok_hi = 0\<rparr>"

record kv_region =
  initial_main_pages :: nat
  main_reserved :: int
  kv_slabs :: "kv_slab list"
  kv_free_slabs :: "nat list"
  kv_loose_free :: "nat list"
  kv_free_pages :: int
  kv_runs :: "u64 \<rightharpoonup> nat list"

section \<open>Operations\<close>

definition slab_pristine :: "kv_slab \<Rightarrow> bool" where
  "slab_pristine s \<longleftrightarrow> \<not> claimed s \<and> used s = 0 \<and> bump s = 0 \<and> holes s = []"

definition run_ids :: "'a kv_region_scheme \<Rightarrow> u64 \<Rightarrow> nat list" where
  "run_ids r s = (case kv_runs r s of None \<Rightarrow> [] | Some ids \<Rightarrow> ids)"

definition kv_claim_slab :: "nat \<Rightarrow> u64 \<Rightarrow> 'a kv_region_scheme \<Rightarrow> 'a kv_region_scheme res" where
  "kv_claim_slab slab_id seq_id r =
     (let slab = kv_slabs r ! slab_id in
      assert_then (slab_pristine slab)
       (assert_then (slab_id \<in> set (kv_free_slabs r))
         (Inr (r\<lparr>kv_slabs := (kv_slabs r)[slab_id := slab\<lparr>claimed := True, owner_seq := seq_id,
                                                    tok_lo := UINT32_MAX, tok_hi := 0\<rparr>],
                 kv_free_slabs := remove1 slab_id (kv_free_slabs r),
                 kv_runs := (kv_runs r)(seq_id \<mapsto> run_ids r seq_id @ [slab_id])\<rparr>))))"

text \<open>
  The side-tenant stamp and its inverse, which the source repeats in every claim and
  release of a whole slab.
\<close>

definition side_stamp :: "nat \<Rightarrow> kv_slab \<Rightarrow> kv_slab" where
  "side_stamp pps s = s\<lparr>claimed := True, owner_seq := 0, used := pps, bump := pps,
                        tok_lo := UINT32_MAX, tok_hi := 0\<rparr>"

definition side_reset :: "kv_slab \<Rightarrow> kv_slab" where
  "side_reset s = s\<lparr>claimed := False, owner_seq := 0, used := 0, bump := 0, holes := [],
                    tok_lo := UINT32_MAX, tok_hi := 0\<rparr>"

definition kv_claim_side_slab ::
    "nat \<Rightarrow> bool \<Rightarrow> 'a kv_region_scheme \<Rightarrow> (nat option \<times> 'a kv_region_scheme) res" where
  "kv_claim_side_slab pps honor_reserved r =
     (if kv_free_slabs r = [] then Inr (None, r)
      else if honor_reserved \<and> kv_free_pages r - int pps < main_reserved r then Inr (None, r)
      else
        let slab_id = last (kv_free_slabs r); slab = kv_slabs r ! slab_id in
        assert_then (slab_pristine slab)
          (Inr (Some slab_id,
                r\<lparr>kv_free_slabs := butlast (kv_free_slabs r),
                  kv_slabs := (kv_slabs r)[slab_id := side_stamp pps slab],
                  kv_free_pages := kv_free_pages r - int pps\<rparr>)))"

definition kv_claim_side_slab_at ::
    "nat \<Rightarrow> nat \<Rightarrow> 'a kv_region_scheme \<Rightarrow> 'a kv_region_scheme res" where
  "kv_claim_side_slab_at pps slab_id r =
     assert_then (slab_id \<in> set (kv_free_slabs r))
       (let slab = kv_slabs r ! slab_id in
        assert_then (\<not> claimed slab \<and> used slab = 0)
          (Inr (r\<lparr>kv_free_slabs := remove1 slab_id (kv_free_slabs r),
                  kv_slabs := (kv_slabs r)[slab_id := side_stamp pps slab],
                  kv_free_pages := kv_free_pages r - int pps\<rparr>)))"

definition kv_release_side_slab ::
    "nat \<Rightarrow> nat \<Rightarrow> 'a kv_region_scheme \<Rightarrow> 'a kv_region_scheme res" where
  "kv_release_side_slab pps slab_id r =
     (let slab = kv_slabs r ! slab_id in
      assert_then (claimed slab \<and> used slab = pps)
        (Inr (r\<lparr>kv_slabs := (kv_slabs r)[slab_id := side_reset slab],
                kv_free_slabs := kv_free_slabs r @ [slab_id],
                kv_free_pages := kv_free_pages r + int pps\<rparr>)))"

definition kv_take_specific ::
    "nat \<Rightarrow> nat \<Rightarrow> u32 \<Rightarrow> 'a kv_region_scheme \<Rightarrow> 'a kv_region_scheme res" where
  "kv_take_specific pps page_idx token_start r =
     assert_then (page_idx < initial_main_pages r)
      (let sid = page_idx div pps; slab = kv_slabs r ! sid; off = page_idx mod pps in
       assert_then (claimed slab)
        (let taken = (\<lambda>s. Inr (r\<lparr>kv_slabs := (kv_slabs r)[sid :=
                               s\<lparr>used := used s + 1,
                                 tok_lo := min (tok_lo s) token_start,
                                 tok_hi := max (tok_hi s) token_start\<rparr>],
                             kv_free_pages := kv_free_pages r - 1\<rparr>)) in
         if off \<in> set (holes slab) then taken (slab\<lparr>holes := remove1 off (holes slab)\<rparr>)
         else assert_then (off = bump slab) (taken (slab\<lparr>bump := bump slab + 1\<rparr>))))"

definition drop_from_run :: "nat \<Rightarrow> u64 \<Rightarrow> (u64 \<rightharpoonup> nat list) \<Rightarrow> (u64 \<rightharpoonup> nat list)" where
  "drop_from_run slab_id s runs =
     (case runs s of
        None \<Rightarrow> runs
      | Some ids \<Rightarrow>
          let ids' = removeAll slab_id ids in
          if ids' = [] then runs(s := None) else runs(s \<mapsto> ids'))"

definition kv_return_page :: "nat \<Rightarrow> nat \<Rightarrow> 'a kv_region_scheme \<Rightarrow> 'a kv_region_scheme res" where
  "kv_return_page pps page_idx r =
     (if initial_main_pages r \<le> page_idx then
        Inr (r\<lparr>kv_loose_free := kv_loose_free r @ [page_idx],
               kv_free_pages := kv_free_pages r + 1\<rparr>)
      else
        let slab_id = page_idx div pps; slab = kv_slabs r ! slab_id in
        assert_then (claimed slab \<and> 0 < used slab)
         (if 0 < used slab - 1 then
            Inr (r\<lparr>kv_slabs := (kv_slabs r)[slab_id :=
                       slab\<lparr>used := used slab - 1, holes := holes slab @ [page_idx mod pps]\<rparr>],
                   kv_free_pages := kv_free_pages r + 1\<rparr>)
          else
            Inr (r\<lparr>kv_slabs := (kv_slabs r)[slab_id :=
                       slab\<lparr>used := 0, holes := [], bump := 0, claimed := False,
                            tok_lo := UINT32_MAX, tok_hi := 0, owner_seq := 0\<rparr>],
                   kv_runs := drop_from_run slab_id (owner_seq slab) (kv_runs r),
                   kv_free_slabs := kv_free_slabs r @ [slab_id],
                   kv_free_pages := kv_free_pages r + 1\<rparr>)))"

definition from_slab :: "nat \<Rightarrow> 'a kv_region_scheme \<Rightarrow> nat \<Rightarrow> nat option" where
  "from_slab pps r sid =
     (let slab = kv_slabs r ! sid in
      if \<not> claimed slab then None
      else if holes slab \<noteq> [] then Some (sid * pps + last (holes slab))
      else if bump slab < pps then Some (sid * pps + bump slab)
      else None)"

fun first_some :: "('b \<Rightarrow> 'c option) \<Rightarrow> 'b list \<Rightarrow> 'c option" where
  "first_some f [] = None"
| "first_some f (x # xs) = (case f x of Some y \<Rightarrow> Some y | None \<Rightarrow> first_some f xs)"

definition matched_hole :: "nat \<Rightarrow> u32 \<Rightarrow> 'a kv_region_scheme \<Rightarrow> nat \<Rightarrow> nat option" where
  "matched_hole pps token_start r sid =
     (let slab = kv_slabs r ! sid in
      if claimed slab \<and> holes slab \<noteq> [] \<and> tok_lo slab \<le> token_start \<and> token_start \<le> tok_hi slab
      then Some (sid * pps + last (holes slab)) else None)"

definition kv_find_in_run ::
    "nat \<Rightarrow> u64 \<Rightarrow> u32 \<Rightarrow> nat option \<Rightarrow> 'a kv_region_scheme \<Rightarrow> nat option" where
  "kv_find_in_run pps seq_id token_start prefer_slab r =
     (let run_search =
            (case kv_runs r seq_id of
               None \<Rightarrow> None
             | Some ids \<Rightarrow>
                 (case first_some (matched_hole pps token_start r) (rev ids) of
                    Some idx \<Rightarrow> Some idx
                  | None \<Rightarrow> if ids \<noteq> [] then from_slab pps r (last ids) else None))
      in case prefer_slab of
           Some ps \<Rightarrow>
             if ps < length (kv_slabs r) then
               (case from_slab pps r ps of Some idx \<Rightarrow> Some idx | None \<Rightarrow> run_search)
             else run_search
         | None \<Rightarrow> run_search)"

definition kv_find_in_run_pressure :: "nat \<Rightarrow> u64 \<Rightarrow> 'a kv_region_scheme \<Rightarrow> nat option" where
  "kv_find_in_run_pressure pps seq_id r =
     (case kv_runs r seq_id of
        None \<Rightarrow> None
      | Some ids \<Rightarrow> first_some (from_slab pps r) (rev ids))"

definition kv_alloc_page ::
    "nat \<Rightarrow> u64 \<Rightarrow> u32 \<Rightarrow> bool \<Rightarrow> nat option \<Rightarrow> 'a kv_region_scheme
       \<Rightarrow> (nat option \<times> 'a kv_region_scheme) res" where
  "kv_alloc_page pps seq_id token_start unreserved prefer_slab r =
     (if \<not> unreserved \<and> kv_free_pages r \<le> main_reserved r then Inr (None, r)
      else
        let take_idx = (\<lambda>idx r'. rbind (kv_take_specific pps idx token_start r')
                                      (\<lambda>r''. Inr (Some idx, r''))) in
        (case kv_find_in_run pps seq_id token_start prefer_slab r of
           Some idx \<Rightarrow> take_idx idx r
         | None \<Rightarrow>
             if kv_free_slabs r \<noteq> [] then
               let slab_id = last (kv_free_slabs r) in
               rbind (kv_claim_slab slab_id seq_id r) (take_idx (slab_id * pps))
             else if kv_loose_free r \<noteq> [] then
               Inr (Some (last (kv_loose_free r)),
                    r\<lparr>kv_loose_free := butlast (kv_loose_free r),
                      kv_free_pages := kv_free_pages r - 1\<rparr>)
             else
               (case kv_find_in_run_pressure pps seq_id r of
                  Some idx \<Rightarrow> take_idx idx r
                | None \<Rightarrow> Inr (None, r))))"

text \<open>Runs of consecutive slabs, scanned from the top of the region downwards.\<close>

fun top_run :: "(nat \<Rightarrow> bool) \<Rightarrow> nat \<Rightarrow> nat \<Rightarrow> nat \<Rightarrow> nat option" where
  "top_run is_claimed n 0 run = None"
| "top_run is_claimed n (Suc sid) run =
     (if \<not> is_claimed sid then
        (if Suc run = n then Some sid else top_run is_claimed n sid (Suc run))
      else top_run is_claimed n sid 0)"

fun top_runs :: "(nat \<Rightarrow> bool) \<Rightarrow> nat \<Rightarrow> nat \<Rightarrow> nat \<Rightarrow> nat \<Rightarrow> nat list \<Rightarrow> nat list" where
  "top_runs is_claimed n units 0 run starts = starts"
| "top_runs is_claimed n units (Suc sid) run starts =
     (if units \<le> length starts then starts
      else if \<not> is_claimed sid then
        (if Suc run = n then top_runs is_claimed n units sid 0 (starts @ [sid])
         else top_runs is_claimed n units sid (Suc run) starts)
      else top_runs is_claimed n units sid 0 starts)"

fun longest_run :: "(nat \<Rightarrow> bool) \<Rightarrow> nat \<Rightarrow> nat \<Rightarrow> nat \<Rightarrow> nat" where
  "longest_run is_claimed 0 run best = best"
| "longest_run is_claimed (Suc sid) run best =
     (if \<not> is_claimed sid then longest_run is_claimed sid (Suc run) (max best (Suc run))
      else longest_run is_claimed sid 0 best)"

definition slab_claimed :: "'a kv_region_scheme \<Rightarrow> nat \<Rightarrow> bool" where
  "slab_claimed r sid = claimed (kv_slabs r ! sid)"

text \<open>Stamp the slabs of a run one by one, then sweep the free-slab list once.\<close>

definition stamp_side_slab :: "nat \<Rightarrow> nat \<Rightarrow> 'a kv_region_scheme \<Rightarrow> 'a kv_region_scheme res" where
  "stamp_side_slab pps sid r =
     assert_then (slab_pristine (kv_slabs r ! sid))
       (Inr (r\<lparr>kv_slabs := (kv_slabs r)[sid := side_stamp pps (kv_slabs r ! sid)],
               kv_free_pages := kv_free_pages r - int pps\<rparr>))"

definition sweep_free_slabs :: "'a kv_region_scheme \<Rightarrow> 'a kv_region_scheme" where
  "sweep_free_slabs r =
     r\<lparr>kv_free_slabs := filter (\<lambda>id. \<not> slab_claimed r id) (kv_free_slabs r)\<rparr>"

definition claim_side_slabs :: "nat \<Rightarrow> nat list \<Rightarrow> 'a kv_region_scheme \<Rightarrow> 'a kv_region_scheme res" where
  "claim_side_slabs pps sids r =
     rbind (rfold (stamp_side_slab pps) sids r) (\<lambda>r'. Inr (sweep_free_slabs r'))"

definition reset_side_slab :: "nat \<Rightarrow> nat \<Rightarrow> 'a kv_region_scheme \<Rightarrow> 'a kv_region_scheme res" where
  "reset_side_slab pps sid r =
     assert_then (claimed (kv_slabs r ! sid) \<and> used (kv_slabs r ! sid) = pps)
       (Inr (r\<lparr>kv_slabs := (kv_slabs r)[sid := side_reset (kv_slabs r ! sid)],
               kv_free_pages := kv_free_pages r + int pps\<rparr>))"

definition release_side_slabs :: "nat \<Rightarrow> nat list \<Rightarrow> 'a kv_region_scheme \<Rightarrow> 'a kv_region_scheme res" where
  "release_side_slabs pps sids r =
     rbind (rfold (reset_side_slab pps) sids r)
       (\<lambda>r'. Inr (r'\<lparr>kv_free_slabs := sids @ kv_free_slabs r'\<rparr>))"

end
