(* ===== verification/Page_Pool.thy ===== *)
theory Page_Pool
  imports Kv_Slabs
begin

text \<open>
  One GPU of the page allocator, from \<^verbatim>\<open>src/src/core/memory/page_allocator.{h,cpp}\<close>: the page
  metadata, the handles, the side pools (indexer-K, HCA, SWA, KDA state) and the whole
  \<^verbatim>\<open>GpuPool\<close>, which extends the slab-managed region of theory \<open>Kv_Slabs\<close>. The operations here
  are the ones the source runs on a single \<^verbatim>\<open>GpuPool&\<close>; theory \<open>Page_Allocator\<close> adds those that
  range over all GPUs. A device pointer is an integer address. \<open>pps\<close> is
  \<^verbatim>\<open>pages_per_slab_\<close>, \<open>gi\<close> the index of the GPU.
\<close>

section \<open>State\<close>

datatype pool = KMain | KSpeculation | KIndexerK | KHca | KSwa | KKdaState

record page_meta =
  layer_index :: u32
  sequence_id :: u64
  token_start :: u32
  token_end :: u32
  refcount :: u32
  pool_tag :: pool
  replicated :: bool

definition fresh_meta :: page_meta where
  "fresh_meta = \<lparr>layer_index = 0, sequence_id = 0, token_start = 0, token_end = 0, refcount = 0,
                 pool_tag = KMain, replicated = False\<rparr>"

record page_handle =
  gpu_idx :: int
  page_idx :: int
  gpu_ptr :: int
  handle_pool :: pool

record side_pool =
  sp_base :: int
  sp_bytes_per_page :: int
  stride_bytes :: int
  sp_total :: nat
  sp_free :: "nat list"
  sp_pages :: "page_meta list"
  elastic :: bool
  run_slabs :: nat

record kda_mapped_stats =
  claims :: u64
  refusals_capacity :: u64
  refusals_contiguity :: u64
  last_found_runs :: int
  last_needed_runs :: int
  last_free_slabs :: int
  last_was_contiguity :: bool

record expert_zone_stats =
  grants :: int
  releases :: int
  refusals :: int
  granted_slabs :: int

record gpu_pool = kv_region +
  base :: int
  spec_base :: int
  bytes_per_page :: int
  initial_spec_pages :: nat
  total :: nat
  main_free :: "nat list"
  spec_free :: "nat list"
  pages :: "page_meta list"
  spec_reserved :: int
  indexer_k :: side_pool
  hca :: side_pool
  swa :: side_pool
  kda_state :: side_pool
  kda_stats :: kda_mapped_stats
  expert_zone_runs :: "nat \<rightharpoonup> nat"
  ez_stats :: expert_zone_stats

record expert_zone_run =
  ez_gpu_idx :: nat
  ez_start_slab :: nat
  ez_num_slabs :: nat
  ez_base :: int

definition kAnonymousRunSeq :: u64 where
  "kAnonymousRunSeq = - 1"

definition kv_slabbed :: "nat \<Rightarrow> gpu_pool \<Rightarrow> bool" where
  "kv_slabbed pps g \<longleftrightarrow> 0 < pps \<and> kv_slabs g \<noteq> []"

section \<open>Side pools\<close>

definition side_pool_of :: "gpu_pool \<Rightarrow> pool \<Rightarrow> side_pool option" where
  "side_pool_of g p =
     (case p of
        KIndexerK \<Rightarrow> Some (indexer_k g)
      | KHca \<Rightarrow> Some (hca g)
      | KSwa \<Rightarrow> Some (swa g)
      | KKdaState \<Rightarrow> Some (kda_state g)
      | KMain \<Rightarrow> None
      | KSpeculation \<Rightarrow> None)"

text \<open>Writing through the \<^verbatim>\<open>SidePool*\<close> that \<^verbatim>\<open>side_pool\<close> returns.\<close>

definition put_side :: "pool \<Rightarrow> side_pool \<Rightarrow> gpu_pool \<Rightarrow> gpu_pool" where
  "put_side p sp g =
     (case p of
        KIndexerK \<Rightarrow> g\<lparr>indexer_k := sp\<rparr>
      | KHca \<Rightarrow> g\<lparr>hca := sp\<rparr>
      | KSwa \<Rightarrow> g\<lparr>swa := sp\<rparr>
      | KKdaState \<Rightarrow> g\<lparr>kda_state := sp\<rparr>
      | KMain \<Rightarrow> g
      | KSpeculation \<Rightarrow> g)"

definition upd_side :: "pool \<Rightarrow> (side_pool \<Rightarrow> side_pool) \<Rightarrow> gpu_pool \<Rightarrow> gpu_pool" where
  "upd_side p f g = (case side_pool_of g p of None \<Rightarrow> g | Some sp \<Rightarrow> put_side p (f sp) g)"

definition upd_side_page :: "nat \<Rightarrow> (page_meta \<Rightarrow> page_meta) \<Rightarrow> side_pool \<Rightarrow> side_pool" where
  "upd_side_page idx f sp = sp\<lparr>sp_pages := (sp_pages sp)[idx := f (sp_pages sp ! idx)]\<rparr>"

definition upd_page :: "nat \<Rightarrow> (page_meta \<Rightarrow> page_meta) \<Rightarrow> gpu_pool \<Rightarrow> gpu_pool" where
  "upd_page idx f g = g\<lparr>pages := (pages g)[idx := f (pages g ! idx)]\<rparr>"

text \<open>
  The metadata writes the source repeats: a fresh claim, a relabelling with a position, and the
  reset at reference count zero. A side page keeps its \<^verbatim>\<open>replicated\<close> flag.
\<close>

definition claim_meta :: "pool \<Rightarrow> page_meta \<Rightarrow> page_meta" where
  "claim_meta p m = m\<lparr>refcount := 1, pool_tag := p, layer_index := 0, sequence_id := 0,
                      token_start := 0, token_end := 0\<rparr>"

definition clear_meta :: "page_meta \<Rightarrow> page_meta" where
  "clear_meta m = m\<lparr>layer_index := 0, sequence_id := 0, token_start := 0, token_end := 0\<rparr>"

definition label_meta :: "u64 \<Rightarrow> u32 \<Rightarrow> u32 \<Rightarrow> u32 \<Rightarrow> page_meta \<Rightarrow> page_meta" where
  "label_meta s l t t' m = m\<lparr>sequence_id := s, layer_index := l, token_start := t, token_end := t'\<rparr>"

definition side_release :: "nat \<Rightarrow> pool \<Rightarrow> nat \<Rightarrow> gpu_pool \<Rightarrow> gpu_pool res" where
  "side_release pps p idx g =
     (case side_pool_of g p of
        None \<Rightarrow> Inl AssertFailed
      | Some sp \<Rightarrow>
          let g1 = upd_side p (upd_side_page idx clear_meta) g in
          if elastic sp then
            (if p = KKdaState then release_side_slabs pps [idx..<idx + run_slabs sp] g1
             else rfold (kv_release_side_slab pps) [idx..<idx + run_slabs sp] g1)
          else Inr (upd_side p (\<lambda>sp. sp\<lparr>sp_free := sp_free sp @ [idx]\<rparr>) g1))"

definition side_ptr :: "side_pool \<Rightarrow> nat \<Rightarrow> int" where
  "side_ptr sp idx = sp_base sp + int idx * stride_bytes sp"

section \<open>Free lists and pointers\<close>

definition free_list :: "gpu_pool \<Rightarrow> pool \<Rightarrow> nat list" where
  "free_list g p = (if p = KMain then main_free g else spec_free g)"

definition put_free_list :: "pool \<Rightarrow> nat list \<Rightarrow> gpu_pool \<Rightarrow> gpu_pool" where
  "put_free_list p xs g = (if p = KMain then g\<lparr>main_free := xs\<rparr> else g\<lparr>spec_free := xs\<rparr>)"

definition page_ptr :: "gpu_pool \<Rightarrow> nat \<Rightarrow> int" where
  "page_ptr g idx =
     (if idx < initial_main_pages g then base g + int idx * bytes_per_page g
      else spec_base g + int (idx - initial_main_pages g) * bytes_per_page g)"

definition return_to_free_list :: "nat \<Rightarrow> nat \<Rightarrow> gpu_pool \<Rightarrow> gpu_pool res" where
  "return_to_free_list pps idx g =
     (let g1 = upd_page idx (\<lambda>m. (clear_meta m)\<lparr>replicated := False\<rparr>) g;
          p = pool_tag (pages g ! idx) in
      if p = KMain \<and> kv_slabbed pps g then kv_return_page pps idx g1
      else Inr (put_free_list p (free_list g1 p @ [idx]) g1))"

text \<open>Decrement a page's reference count and return the page when the count reaches zero.\<close>

definition drop_ref :: "nat \<Rightarrow> nat \<Rightarrow> gpu_pool \<Rightarrow> gpu_pool res" where
  "drop_ref pps idx g =
     (let g1 = upd_page idx (\<lambda>m. m\<lparr>refcount := refcount m - 1\<rparr>) g in
      if refcount (pages g1 ! idx) = 0 then return_to_free_list pps idx g1 else Inr g1)"

definition drop_side_ref :: "nat \<Rightarrow> pool \<Rightarrow> nat \<Rightarrow> gpu_pool \<Rightarrow> gpu_pool res" where
  "drop_side_ref pps p idx g =
     (let g1 = upd_side p (upd_side_page idx (\<lambda>m. m\<lparr>refcount := refcount m - 1\<rparr>)) g in
      case side_pool_of g1 p of
        None \<Rightarrow> Inl AssertFailed
      | Some sp \<Rightarrow>
          if refcount (sp_pages sp ! idx) = 0 then side_release pps p idx g1 else Inr g1)"

section \<open>Allocation on one GPU\<close>

definition mk_handle :: "nat \<Rightarrow> nat \<Rightarrow> int \<Rightarrow> pool \<Rightarrow> page_handle" where
  "mk_handle gi idx ptr p = \<lparr>gpu_idx = int gi, page_idx = int idx, gpu_ptr = ptr, handle_pool = p\<rparr>"

definition allocate_from_pool ::
    "nat \<Rightarrow> pool \<Rightarrow> int \<Rightarrow> gpu_pool \<Rightarrow> page_handle option \<times> gpu_pool" where
  "allocate_from_pool gi p min_free g =
     (let fl = free_list g p in
      if int (length fl) \<le> min_free then (None, g)
      else
        let idx = last fl;
            g1 = upd_page idx (claim_meta p) (put_free_list p (butlast fl) g)
        in (Some (mk_handle gi idx (page_ptr g idx) p), g1))"

definition gpu_allocate_side ::
    "nat \<Rightarrow> nat \<Rightarrow> pool \<Rightarrow> gpu_pool \<Rightarrow> (page_handle option \<times> gpu_pool) res" where
  "gpu_allocate_side pps gi p g =
     (case side_pool_of g p of
        None \<Rightarrow> Inl AssertFailed
      | Some sp \<Rightarrow>
          let claimed_at = (\<lambda>idx g1.
                (Some (mk_handle gi idx (side_ptr sp idx) p),
                 upd_side p (upd_side_page idx (claim_meta p)) g1)) in
          if elastic sp then
            assert_then (run_slabs sp = 1)
              (rbind (kv_claim_side_slab pps True g)
                (\<lambda>(sid, g1). case sid of
                    None \<Rightarrow> Inr (None, g1)
                  | Some idx \<Rightarrow> Inr (claimed_at idx g1)))
          else if sp_free sp = [] then Inr (None, g)
          else Inr (claimed_at (last (sp_free sp))
                     (upd_side p (\<lambda>sp. sp\<lparr>sp_free := butlast (sp_free sp)\<rparr>) g)))"

text \<open>The anonymous-run claim that \<^verbatim>\<open>allocate\<close> and \<^verbatim>\<open>allocate_unreserved\<close> share.\<close>

definition allocate_anonymous ::
    "nat \<Rightarrow> nat \<Rightarrow> bool \<Rightarrow> gpu_pool \<Rightarrow> (page_handle option \<times> gpu_pool) res" where
  "allocate_anonymous pps gi unreserved g =
     rbind (kv_alloc_page pps kAnonymousRunSeq 0 unreserved None g)
       (\<lambda>(res, g1). case res of
           None \<Rightarrow> Inr (None, g1)
         | Some idx \<Rightarrow> Inr (Some (mk_handle gi idx (page_ptr g1 idx) KMain),
                           upd_page idx (claim_meta KMain) g1))"

definition gpu_allocate ::
    "nat \<Rightarrow> nat \<Rightarrow> pool \<Rightarrow> gpu_pool \<Rightarrow> (page_handle option \<times> gpu_pool) res" where
  "gpu_allocate pps gi p g =
     (if side_pool_of g p \<noteq> None then gpu_allocate_side pps gi p g
      else if p = KMain \<and> kv_slabbed pps g then allocate_anonymous pps gi False g
      else
        let reserved = (if p = KMain then main_reserved g
                        else if p = KSpeculation then spec_reserved g else 0)
        in Inr (allocate_from_pool gi p reserved g))"

definition gpu_allocate_unreserved ::
    "nat \<Rightarrow> nat \<Rightarrow> pool \<Rightarrow> gpu_pool \<Rightarrow> (page_handle option \<times> gpu_pool) res" where
  "gpu_allocate_unreserved pps gi p g =
     (if side_pool_of g p \<noteq> None then gpu_allocate_side pps gi p g
      else if p = KMain \<and> kv_slabbed pps g then allocate_anonymous pps gi True g
      else Inr (allocate_from_pool gi p 0 g))"

definition gpu_allocate_for_sequence ::
    "nat \<Rightarrow> nat \<Rightarrow> pool \<Rightarrow> u64 \<Rightarrow> u32 \<Rightarrow> u32 \<Rightarrow> u32 \<Rightarrow> bool \<Rightarrow> gpu_pool
       \<Rightarrow> (page_handle option \<times> gpu_pool) res" where
  "gpu_allocate_for_sequence pps gi p seq layer tok_start tok_end unreserved g =
     assert_then (side_pool_of g p = None)
      (rbind
        (if p = KMain \<and> kv_slabbed pps g then
           rbind (kv_alloc_page pps seq tok_start unreserved None g)
             (\<lambda>(res, g1). case res of
                 None \<Rightarrow> Inr (None, g1)
               | Some idx \<Rightarrow>
                   Inr (Some (mk_handle gi idx (page_ptr g1 idx) p),
                        upd_page idx (\<lambda>m. m\<lparr>refcount := 1, pool_tag := p\<rparr>) g1))
         else if unreserved then gpu_allocate_unreserved pps gi p g
         else gpu_allocate pps gi p g)
        (\<lambda>(h, g1). case h of
            None \<Rightarrow> Inr (None, g1)
          | Some h' \<Rightarrow>
              Inr (Some h', upd_page (nat (page_idx h')) (label_meta seq layer tok_start tok_end) g1)))"

section \<open>Whole-slab tenants: KDA state runs and expert-zone grants\<close>

definition claim_one_slab_for_test ::
    "nat \<Rightarrow> nat \<Rightarrow> int \<Rightarrow> gpu_pool \<Rightarrow> (page_handle option \<times> gpu_pool) res" where
  "claim_one_slab_for_test pps gi slab_id g =
     (let sp = indexer_k g; sid = nat slab_id in
      if \<not> elastic sp \<or> slab_id < 0 \<or> int (length (kv_slabs g)) \<le> slab_id
         \<or> claimed (kv_slabs g ! sid)
      then Inr (None, g)
      else rbind (kv_claim_side_slab_at pps sid g)
        (\<lambda>g1. Inr (Some (mk_handle gi sid (side_ptr sp sid) KIndexerK),
                    upd_side KIndexerK (upd_side_page sid (claim_meta KIndexerK)) g1)))"

definition slab_run :: "nat \<Rightarrow> nat \<Rightarrow> nat list" where
  "slab_run n st = [st..<st + n]"

definition claim_state_meta :: "u64 \<Rightarrow> nat \<Rightarrow> gpu_pool \<Rightarrow> gpu_pool res" where
  "claim_state_meta seq st g =
     assert_then (refcount (sp_pages (kda_state g) ! st) = 0)
       (Inr (upd_side KKdaState
         (upd_side_page st (\<lambda>m. (claim_meta KKdaState m)\<lparr>sequence_id := seq\<rparr>)) g))"

definition gpu_allocate_kda_mapped ::
    "nat \<Rightarrow> nat \<Rightarrow> nat \<Rightarrow> nat \<Rightarrow> u64 \<Rightarrow> gpu_pool \<Rightarrow> (page_handle list \<times> gpu_pool) res" where
  "gpu_allocate_kda_mapped pps gi units n seq g =
     assert_then (0 < units \<and> 0 < n)
      (let stats = kda_stats g; need_pages = int units * int n * int pps;
           free_slabs = int (length (kv_free_slabs g)) in
       if kv_free_pages g - need_pages < main_reserved g then
         Inr ([], g\<lparr>kda_stats := stats\<lparr>refusals_capacity := refusals_capacity stats + 1,
                      last_found_runs := -1, last_needed_runs := int units,
                      last_free_slabs := free_slabs, last_was_contiguity := False\<rparr>\<rparr>)
       else
         let starts = top_runs (slab_claimed g) n units (length (kv_slabs g)) 0 [] in
         if length starts < units then
           let contiguity = (int units * int n \<le> free_slabs);
               stats1 = stats\<lparr>last_found_runs := int (length starts), last_needed_runs := int units,
                              last_free_slabs := free_slabs, last_was_contiguity := contiguity\<rparr>
           in Inr ([], g\<lparr>kda_stats :=
                 (if contiguity then stats1\<lparr>refusals_contiguity := refusals_contiguity stats + 1\<rparr>
                  else stats1\<lparr>refusals_capacity := refusals_capacity stats + 1\<rparr>)\<rparr>)
         else
           rbind (claim_side_slabs pps (concat (map (slab_run n) starts))
                    (g\<lparr>kda_stats := stats\<lparr>claims := claims stats + 1\<rparr>\<rparr>))
             (\<lambda>g1. rbind (rfold (claim_state_meta seq) starts g1)
               (\<lambda>g2. Inr (map (\<lambda>st. mk_handle gi st (side_ptr (kda_state g) st) KKdaState) starts, g2))))"

definition count_refusal :: "gpu_pool \<Rightarrow> gpu_pool" where
  "count_refusal g = g\<lparr>ez_stats := (ez_stats g)\<lparr>refusals := refusals (ez_stats g) + 1\<rparr>\<rparr>"

definition record_grant :: "nat \<Rightarrow> nat \<Rightarrow> gpu_pool \<Rightarrow> gpu_pool" where
  "record_grant start n g =
     g\<lparr>expert_zone_runs := (expert_zone_runs g)(start \<mapsto> n),
       ez_stats := (ez_stats g)\<lparr>grants := grants (ez_stats g) + 1,
                              granted_slabs := granted_slabs (ez_stats g) + int n\<rparr>\<rparr>"

definition gpu_claim_expert_zone ::
    "nat \<Rightarrow> int \<Rightarrow> nat \<Rightarrow> int \<Rightarrow> int \<Rightarrow> gpu_pool \<Rightarrow> (expert_zone_run option \<times> gpu_pool) res" where
  "gpu_claim_expert_zone pps sbytes gi num_slabs extra g =
     (if \<not> kv_slabbed pps g \<or> num_slabs \<le> 0 then Inr (None, g)
      else if kv_free_pages g - num_slabs * int pps < main_reserved g + extra then
        Inr (None, count_refusal g)
      else
        let n = nat num_slabs in
        (case top_run (slab_claimed g) n (length (kv_slabs g)) 0 of
           None \<Rightarrow> Inr (None, count_refusal g)
         | Some start \<Rightarrow>
             rbind (claim_side_slabs pps (slab_run n start) g)
               (\<lambda>g1. Inr (Some \<lparr>ez_gpu_idx = gi, ez_start_slab = start, ez_num_slabs = n,
                                ez_base = base g + int start * sbytes\<rparr>,
                           record_grant start n g1))))"

definition gpu_claim_expert_zone_at ::
    "nat \<Rightarrow> int \<Rightarrow> int \<Rightarrow> int \<Rightarrow> gpu_pool \<Rightarrow> (bool \<times> gpu_pool) res" where
  "gpu_claim_expert_zone_at pps start_slab num_slabs extra g =
     (if \<not> kv_slabbed pps g \<or> num_slabs \<le> 0 then Inr (False, g)
      else if start_slab < 0 \<or> int (length (kv_slabs g)) < start_slab + num_slabs then
        Inr (False, count_refusal g)
      else if kv_free_pages g - num_slabs * int pps < main_reserved g + extra then
        Inr (False, count_refusal g)
      else
        let n = nat num_slabs; start = nat start_slab in
        if list_ex (slab_claimed g) (slab_run n start) then Inr (False, count_refusal g)
        else rbind (claim_side_slabs pps (slab_run n start) g)
               (\<lambda>g1. Inr (True, record_grant start n g1)))"

definition gpu_release_expert_zone ::
    "nat \<Rightarrow> nat \<Rightarrow> nat \<Rightarrow> gpu_pool \<Rightarrow> gpu_pool res" where
  "gpu_release_expert_zone pps start num_slabs g =
     assert_then (expert_zone_runs g start = Some num_slabs)
      (rbind (release_side_slabs pps (slab_run num_slabs start) g)
        (\<lambda>g1.
          let g2 = g1\<lparr>expert_zone_runs := (expert_zone_runs g1)(start := None),
                      ez_stats := (ez_stats g1)\<lparr>releases := releases (ez_stats g1) + 1,
                        granted_slabs := granted_slabs (ez_stats g1) - int num_slabs\<rparr>\<rparr>
          in assert_then (0 \<le> granted_slabs (ez_stats g2)) (Inr g2)))"

definition gpu_largest_free_run :: "nat \<Rightarrow> gpu_pool \<Rightarrow> nat" where
  "gpu_largest_free_run pps g =
     (if kv_slabbed pps g then longest_run (slab_claimed g) (length (kv_slabs g)) 0 0 else 0)"

section \<open>Queries on one GPU\<close>

record kv_fragmentation_t =
  total_slabs :: nat
  free_slabs :: nat
  live_slabs :: nat
  frag_used_pages :: nat
  fragmented_free_pages :: int
  loose_free_pages :: nat
  frag_granted_slabs :: int

definition gpu_kv_fragmentation :: "nat \<Rightarrow> gpu_pool \<Rightarrow> kv_fragmentation_t" where
  "gpu_kv_fragmentation pps g =
     (if kv_slabbed pps g then
        let live = filter claimed (kv_slabs g) in
        \<lparr>total_slabs = length (kv_slabs g), free_slabs = length (kv_free_slabs g),
         live_slabs = length live, frag_used_pages = sum_list (map used live),
         fragmented_free_pages = sum_list (map (\<lambda>s. int pps - int (used s)) live),
         loose_free_pages = length (kv_loose_free g),
         frag_granted_slabs = granted_slabs (ez_stats g)\<rparr>
      else \<lparr>total_slabs = 0, free_slabs = 0, live_slabs = 0, frag_used_pages = 0,
            fragmented_free_pages = 0, loose_free_pages = 0, frag_granted_slabs = 0\<rparr>)"

definition gpu_free_pages :: "nat \<Rightarrow> pool \<Rightarrow> gpu_pool \<Rightarrow> int" where
  "gpu_free_pages pps p g =
     (case side_pool_of g p of
        Some sp \<Rightarrow>
          if elastic sp then int (length (kv_free_slabs g) div max (run_slabs sp) 1)
          else int (length (sp_free sp))
      | None \<Rightarrow>
          if p = KMain \<and> kv_slabbed pps g then kv_free_pages g
          else int (length (free_list g p)))"

definition gpu_total_pages :: "pool \<Rightarrow> gpu_pool \<Rightarrow> nat" where
  "gpu_total_pages p g =
     (case side_pool_of g p of
        Some sp \<Rightarrow> sp_total sp
      | None \<Rightarrow> if p = KMain then initial_main_pages g else initial_spec_pages g)"

definition gpu_used_pages :: "pool \<Rightarrow> gpu_pool \<Rightarrow> nat" where
  "gpu_used_pages p g =
     (case side_pool_of g p of
        Some sp \<Rightarrow> length (filter (\<lambda>m. 0 < refcount m) (sp_pages sp))
      | None \<Rightarrow> length (filter (\<lambda>m. pool_tag m = p \<and> 0 < refcount m) (pages g)))"

definition gpu_reserved_pages :: "pool \<Rightarrow> gpu_pool \<Rightarrow> int" where
  "gpu_reserved_pages p g =
     (if p = KMain then main_reserved g else if p = KSpeculation then spec_reserved g else 0)"

definition gpu_available_pages :: "nat \<Rightarrow> pool \<Rightarrow> gpu_pool \<Rightarrow> int" where
  "gpu_available_pages pps p g = max 0 (gpu_free_pages pps p g - gpu_reserved_pages p g)"

end
