(* ===== verification/Page_Allocator.thy ===== *)
theory Page_Allocator
  imports Page_Pool
begin

text \<open>
  The whole \<^verbatim>\<open>PageAllocator\<close> of \<^verbatim>\<open>src/src/core/memory/page_allocator.{h,cpp}\<close>: the GPUs, the
  DCP routing configuration, and every public operation, including those that act on all
  tensor-parallel GPUs in lockstep (replicated KV). The copies that \<^verbatim>\<open>cow_copy\<close> asks of the
  device backend are returned as a list of (destination, source, bytes).
\<close>

section \<open>State\<close>

record dcp_config =
  dcp_size :: int
  dcp_chunk_size :: int
  page_size_tokens :: int
  tp_gpu_indices :: "nat list"
  indexer_k_sharded :: bool
  indexer_k_page_size_tokens :: int
  kv_sharded :: bool

definition default_dcp :: dcp_config where
  "default_dcp = \<lparr>dcp_size = 1, dcp_chunk_size = 16, page_size_tokens = 16, tp_gpu_indices = [],
                  indexer_k_sharded = False, indexer_k_page_size_tokens = 0, kv_sharded = False\<rparr>"

definition dcp_enabled :: "dcp_config \<Rightarrow> bool" where
  "dcp_enabled d \<longleftrightarrow> 2 \<le> dcp_size d"

record allocator =
  gpus :: "gpu_pool list"
  dcp :: dcp_config
  slab_bytes :: int
  pages_per_slab :: nat
  kda_num_layers :: nat
  kda_mapped :: bool
  kda_unit_slabs :: nat
  admissible_ctx_tokens :: int

record copy_op =
  copy_dst :: int
  copy_src :: int
  copy_bytes :: int

definition valid_gpu :: "allocator \<Rightarrow> int \<Rightarrow> bool" where
  "valid_gpu a i \<longleftrightarrow> 0 \<le> i \<and> i < int (length (gpus a))"

text \<open>Running a single-GPU operation inside the allocator.\<close>

definition put_gpu :: "nat \<Rightarrow> gpu_pool \<Rightarrow> allocator \<Rightarrow> allocator" where
  "put_gpu gi g a = a\<lparr>gpus := (gpus a)[gi := g]\<rparr>"

definition on_gpu :: "nat \<Rightarrow> (gpu_pool \<Rightarrow> gpu_pool res) \<Rightarrow> allocator \<Rightarrow> allocator res" where
  "on_gpu gi f a = rbind (f (gpus a ! gi)) (\<lambda>g. Inr (put_gpu gi g a))"

definition on_gpu' ::
    "nat \<Rightarrow> (gpu_pool \<Rightarrow> ('b \<times> gpu_pool) res) \<Rightarrow> allocator \<Rightarrow> ('b \<times> allocator) res" where
  "on_gpu' gi f a = rbind (f (gpus a ! gi)) (\<lambda>(x, g). Inr (x, put_gpu gi g a))"

definition on_gpus :: "nat list \<Rightarrow> (gpu_pool \<Rightarrow> gpu_pool res) \<Rightarrow> allocator \<Rightarrow> allocator res" where
  "on_gpus gis f a = rfold (\<lambda>gi. on_gpu gi f) gis a"

section \<open>Allocation\<close>

definition allocate :: "int \<Rightarrow> pool \<Rightarrow> allocator \<Rightarrow> (page_handle option \<times> allocator) res" where
  "allocate gpu p a =
     assert_then (valid_gpu a gpu)
       (on_gpu' (nat gpu) (gpu_allocate (pages_per_slab a) (nat gpu) p) a)"

definition allocate_unreserved ::
    "int \<Rightarrow> pool \<Rightarrow> allocator \<Rightarrow> (page_handle option \<times> allocator) res" where
  "allocate_unreserved gpu p a =
     assert_then (valid_gpu a gpu)
       (on_gpu' (nat gpu) (gpu_allocate_unreserved (pages_per_slab a) (nat gpu) p) a)"

definition allocate_for_sequence ::
    "int \<Rightarrow> pool \<Rightarrow> u64 \<Rightarrow> u32 \<Rightarrow> u32 \<Rightarrow> u32 \<Rightarrow> bool \<Rightarrow> allocator
       \<Rightarrow> (page_handle option \<times> allocator) res" where
  "allocate_for_sequence gpu p seq layer tok_start tok_end unreserved a =
     assert_then (valid_gpu a gpu)
       (on_gpu' (nat gpu)
         (gpu_allocate_for_sequence (pages_per_slab a) (nat gpu) p seq layer tok_start tok_end
            unreserved) a)"

section \<open>Free, promote, add\_ref\<close>

definition mirrored :: "allocator \<Rightarrow> page_meta \<Rightarrow> bool" where
  "mirrored a m \<longleftrightarrow> replicated m \<and> dcp_enabled (dcp a)"

definition drop_live_ref :: "nat \<Rightarrow> nat \<Rightarrow> gpu_pool \<Rightarrow> gpu_pool res" where
  "drop_live_ref pps idx g = assert_then (0 < refcount (pages g ! idx)) (drop_ref pps idx g)"

definition free :: "page_handle \<Rightarrow> allocator \<Rightarrow> allocator res" where
  "free h a =
     assert_then (valid_gpu a (gpu_idx h))
      (let gi = nat (gpu_idx h); g = gpus a ! gi; idx = nat (page_idx h); pps = pages_per_slab a in
       case side_pool_of g (handle_pool h) of
         Some sp \<Rightarrow>
           assert_then (0 \<le> page_idx h \<and> page_idx h < int (sp_total sp))
            (assert_then (0 < refcount (sp_pages sp ! idx))
              (on_gpu gi (drop_side_ref pps (handle_pool h) idx) a))
       | None \<Rightarrow>
           assert_then (0 \<le> page_idx h \<and> page_idx h < int (total g))
            (assert_then (0 < refcount (pages g ! idx))
              (if mirrored a (pages g ! idx)
               then on_gpus (tp_gpu_indices (dcp a)) (drop_live_ref pps idx) a
               else on_gpu gi (drop_ref pps idx) a)))"

definition promote_page :: "nat \<Rightarrow> gpu_pool \<Rightarrow> gpu_pool res" where
  "promote_page idx g =
     assert_then (0 < refcount (pages g ! idx))
      (assert_then (pool_tag (pages g ! idx) = KSpeculation)
        (Inr (upd_page idx (\<lambda>m. m\<lparr>pool_tag := KMain\<rparr>) g)))"

definition promote :: "page_handle \<Rightarrow> allocator \<Rightarrow> allocator res" where
  "promote h a =
     assert_then (valid_gpu a (gpu_idx h))
      (let gi = nat (gpu_idx h); g = gpus a ! gi; idx = nat (page_idx h) in
       assert_then (side_pool_of g (handle_pool h) = None)
        (assert_then (0 \<le> page_idx h \<and> page_idx h < int (total g))
          (assert_then (0 < refcount (pages g ! idx) \<and> pool_tag (pages g ! idx) = KSpeculation)
            (if mirrored a (pages g ! idx)
             then on_gpus (tp_gpu_indices (dcp a)) (promote_page idx) a
             else on_gpu gi (\<lambda>g. Inr (upd_page idx (\<lambda>m. m\<lparr>pool_tag := KMain\<rparr>) g)) a))))"

definition inc_ref :: "page_meta \<Rightarrow> page_meta" where
  "inc_ref m = m\<lparr>refcount := refcount m + 1\<rparr>"

definition add_ref :: "page_handle \<Rightarrow> allocator \<Rightarrow> allocator res" where
  "add_ref h a =
     assert_then (valid_gpu a (gpu_idx h))
      (let gi = nat (gpu_idx h); g = gpus a ! gi; idx = nat (page_idx h) in
       case side_pool_of g (handle_pool h) of
         Some sp \<Rightarrow>
           assert_then (0 \<le> page_idx h \<and> page_idx h < int (sp_total sp))
            (assert_then (0 < refcount (sp_pages sp ! idx))
              (Inr (put_gpu gi (upd_side (handle_pool h) (upd_side_page idx inc_ref) g) a)))
       | None \<Rightarrow>
           assert_then (0 \<le> page_idx h \<and> page_idx h < int (total g))
            (assert_then (0 < refcount (pages g ! idx))
              (if mirrored a (pages g ! idx)
               then on_gpus (tp_gpu_indices (dcp a)) (\<lambda>g. Inr (upd_page idx inc_ref g)) a
               else Inr (put_gpu gi (upd_page idx inc_ref g) a))))"

definition meta :: "page_handle \<Rightarrow> allocator \<Rightarrow> page_meta res" where
  "meta h a =
     assert_then (valid_gpu a (gpu_idx h))
      (let g = gpus a ! nat (gpu_idx h); idx = nat (page_idx h) in
       case side_pool_of g (handle_pool h) of
         Some sp \<Rightarrow> assert_then (0 \<le> page_idx h \<and> page_idx h < int (sp_total sp))
                     (Inr (sp_pages sp ! idx))
       | None \<Rightarrow> assert_then (0 \<le> page_idx h \<and> page_idx h < int (total g)) (Inr (pages g ! idx)))"

text \<open>Writing through the reference that \<^verbatim>\<open>meta(handle)\<close> returns.\<close>

definition write_meta ::
    "page_handle \<Rightarrow> (page_meta \<Rightarrow> page_meta) \<Rightarrow> allocator \<Rightarrow> allocator res" where
  "write_meta h f a =
     rbind (meta h a) (\<lambda>_.
       let gi = nat (gpu_idx h); g = gpus a ! gi; idx = nat (page_idx h) in
       Inr (put_gpu gi
             (case side_pool_of g (handle_pool h) of
                Some sp \<Rightarrow> upd_side (handle_pool h) (upd_side_page idx f) g
              | None \<Rightarrow> upd_page idx f g) a))"

section \<open>Replicated KV: the same page index on every tensor-parallel GPU\<close>

definition tp_mirrors :: "allocator \<Rightarrow> gpu_pool list" where
  "tp_mirrors a = map (\<lambda>gi. gpus a ! gi) (tl (tp_gpu_indices (dcp a)))"

definition slab_free_on :: "nat \<Rightarrow> nat \<Rightarrow> gpu_pool \<Rightarrow> bool" where
  "slab_free_on pps sid g \<longleftrightarrow>
     kv_slabbed pps g \<and> sid < length (kv_slabs g) \<and> \<not> claimed (kv_slabs g ! sid)"

definition take_loose :: "nat \<Rightarrow> gpu_pool \<Rightarrow> gpu_pool res" where
  "take_loose idx g =
     assert_then (idx \<in> set (kv_loose_free g))
       (Inr (g\<lparr>kv_loose_free := remove1 idx (kv_loose_free g), kv_free_pages := kv_free_pages g - 1\<rparr>))"

definition kv_alloc_page_replicated ::
    "u64 \<Rightarrow> u32 \<Rightarrow> bool \<Rightarrow> nat option \<Rightarrow> allocator \<Rightarrow> (nat option \<times> allocator) res" where
  "kv_alloc_page_replicated seq tok unreserved prefer_slab a =
     assert_then (dcp_enabled (dcp a) \<and> tp_gpu_indices (dcp a) \<noteq> [])
      (let tps = tp_gpu_indices (dcp a); pps = pages_per_slab a;
           cgpu = gpus a ! hd tps;
           take_on_all = (\<lambda>idx a'. rbind (on_gpus tps (kv_take_specific pps idx tok) a')
                                       (\<lambda>a''. Inr (Some idx, a''))) in
       if \<not> unreserved \<and> kv_free_pages cgpu \<le> main_reserved cgpu then Inr (None, a)
       else
         case kv_find_in_run pps seq tok prefer_slab cgpu of
           Some idx \<Rightarrow> take_on_all idx a
         | None \<Rightarrow>
             (case find (\<lambda>sid. list_all (slab_free_on pps sid) (tp_mirrors a))
                     (rev (kv_free_slabs cgpu)) of
                Some chosen \<Rightarrow>
                  rbind (on_gpus tps (kv_claim_slab chosen seq) a) (take_on_all (chosen * pps))
              | None \<Rightarrow>
                  (case find (\<lambda>idx. list_all (\<lambda>mg. idx \<in> set (kv_loose_free mg)) (tp_mirrors a))
                          (rev (kv_loose_free cgpu)) of
                     Some loose \<Rightarrow>
                       rbind (on_gpus tps (take_loose loose) a) (\<lambda>a'. Inr (Some loose, a'))
                   | None \<Rightarrow>
                       (case kv_find_in_run_pressure pps seq cgpu of
                          Some idx \<Rightarrow> take_on_all idx a
                        | None \<Rightarrow> Inr (None, a)))))"

definition claim_replicated_meta ::
    "pool \<Rightarrow> u64 \<Rightarrow> u32 \<Rightarrow> u32 \<Rightarrow> u32 \<Rightarrow> page_meta \<Rightarrow> page_meta" where
  "claim_replicated_meta p seq layer t t' m =
     (label_meta seq layer t t' m)\<lparr>refcount := 1, pool_tag := p, replicated := True\<rparr>"

definition mirror_claimable :: "pool \<Rightarrow> nat \<Rightarrow> gpu_pool \<Rightarrow> bool" where
  "mirror_claimable p idx mg \<longleftrightarrow>
     (if p = KMain then idx < initial_main_pages mg
      else initial_main_pages mg \<le> idx \<and> idx < total mg)
     \<and> refcount (pages mg ! idx) = 0"

definition erase_at :: "nat \<Rightarrow> 'b list \<Rightarrow> 'b list" where
  "erase_at i xs = take i xs @ drop (Suc i) xs"

definition last_pos :: "('b \<Rightarrow> bool) \<Rightarrow> 'b list \<Rightarrow> nat option" where
  "last_pos P xs = find (\<lambda>i. P (xs ! i)) (rev [0..<length xs])"

definition claim_mirror :: "pool \<Rightarrow> nat \<Rightarrow> gpu_pool \<Rightarrow> gpu_pool res" where
  "claim_mirror p idx g =
     assert_then (idx \<in> set (free_list g p))
       (Inr (put_free_list p (remove1 idx (free_list g p)) g))"

definition allocate_replicated ::
    "u64 \<Rightarrow> u32 \<Rightarrow> u32 \<Rightarrow> pool \<Rightarrow> bool \<Rightarrow> allocator \<Rightarrow> (page_handle option \<times> allocator) res" where
  "allocate_replicated seq tok layer p unreserved a =
     (let tps = tp_gpu_indices (dcp a); pps = pages_per_slab a; canonical = hd tps;
          cgpu = gpus a ! canonical;
          tok_end = tok + word_of_int (page_size_tokens (dcp a));
          publish = (\<lambda>idx a'.
            rbind (on_gpus tps
                    (\<lambda>g. Inr (upd_page idx (claim_replicated_meta p seq layer tok tok_end) g)) a')
              (\<lambda>a''. Inr (Some (mk_handle canonical idx (page_ptr cgpu idx) p), a''))) in
      assert_then (dcp_enabled (dcp a) \<and> tps \<noteq> [] \<and> (p = KMain \<or> p = KSpeculation)
                   \<and> canonical < length (gpus a))
       (if p = KMain \<and> kv_slabbed pps cgpu then
          rbind (kv_alloc_page_replicated seq tok unreserved None a)
            (\<lambda>(res, a'). case res of None \<Rightarrow> Inr (None, a') | Some idx \<Rightarrow> publish idx a')
        else
          let cfl = free_list cgpu p;
              min_free = (if unreserved then 0
                          else if p = KMain then main_reserved cgpu else spec_reserved cgpu) in
          if int (length cfl) \<le> min_free then Inr (None, a)
          else
            (case last_pos (\<lambda>idx. list_all (mirror_claimable p idx) (tp_mirrors a)) cfl of
               None \<Rightarrow> Inr (None, a)
             | Some i \<Rightarrow>
                 let idx = cfl ! i;
                     a1 = put_gpu canonical (put_free_list p (erase_at i cfl) cgpu) a in
                 rbind (on_gpus (tl tps) (claim_mirror p idx) a1) (publish idx))))"

definition allocate_main_replicated ::
    "u64 \<Rightarrow> u32 \<Rightarrow> u32 \<Rightarrow> bool \<Rightarrow> allocator \<Rightarrow> (page_handle option \<times> allocator) res" where
  "allocate_main_replicated seq tok layer unreserved a =
     allocate_replicated seq tok layer KMain unreserved a"

section \<open>Copy-on-write\<close>

definition copy_meta :: "page_meta \<Rightarrow> page_meta \<Rightarrow> page_meta" where
  "copy_meta old m = label_meta (sequence_id old) (layer_index old) (token_start old) (token_end old) m"

definition prefer_slab_of :: "nat \<Rightarrow> gpu_pool \<Rightarrow> nat \<Rightarrow> nat option" where
  "prefer_slab_of pps g idx = (if idx < initial_main_pages g then Some (idx div pps) else None)"

definition cow_side ::
    "page_handle \<Rightarrow> allocator \<Rightarrow> (page_handle \<times> copy_op list \<times> allocator) res" where
  "cow_side h a =
     (let gi = nat (gpu_idx h); p = handle_pool h; idx = nat (page_idx h) in
      case side_pool_of (gpus a ! gi) p of
        None \<Rightarrow> Inl AssertFailed
      | Some sp \<Rightarrow>
          assert_then (0 \<le> page_idx h \<and> page_idx h < int (sp_total sp))
           (assert_then (0 < refcount (sp_pages sp ! idx))
             (if refcount (sp_pages sp ! idx) = 1 then Inr (h, [], a)
              else rbind (allocate (gpu_idx h) p a)
                (\<lambda>(nh, a1). case nh of
                   None \<Rightarrow> Inl RuntimeError
                 | Some h' \<Rightarrow>
                     let g1 = gpus a1 ! gi;
                         old = (case side_pool_of g1 p of None \<Rightarrow> fresh_meta | Some sp \<Rightarrow> sp_pages sp ! idx);
                         g2 = upd_side p (upd_side_page (nat (page_idx h')) (copy_meta old)) g1 in
                     rbind (drop_side_ref (pages_per_slab a) p idx g2)
                       (\<lambda>g3. Inr (h', [\<lparr>copy_dst = gpu_ptr h', copy_src = gpu_ptr h,
                                        copy_bytes = sp_bytes_per_page sp\<rparr>],
                                  put_gpu gi g3 a1))))))"

definition cow_replicated ::
    "page_handle \<Rightarrow> u64 \<Rightarrow> allocator \<Rightarrow> (page_handle \<times> copy_op list \<times> allocator) res" where
  "cow_replicated h dst_seq a =
     (let gi = nat (gpu_idx h); g = gpus a ! gi; idx = nat (page_idx h); old = pages g ! idx;
          pps = pages_per_slab a; tps = tp_gpu_indices (dcp a); canonical = hd tps in
      rbind
       (if pool_tag old = KMain \<and> kv_slabbed pps g then
          rbind (kv_alloc_page_replicated (if dst_seq \<noteq> 0 then dst_seq else sequence_id old)
                   (token_start old) True (prefer_slab_of pps g idx) a)
            (\<lambda>(res, a1). case res of
               None \<Rightarrow> Inr (None, a1)
             | Some n \<Rightarrow>
                 rbind (on_gpus tps (\<lambda>g. Inr (upd_page n
                          (claim_replicated_meta (pool_tag old) (sequence_id old) (layer_index old)
                             (token_start old) (token_end old)) g)) a1)
                   (\<lambda>a2. Inr (Some (mk_handle canonical n (page_ptr (gpus a2 ! canonical) n)
                                     (pool_tag old)), a2)))
        else allocate_replicated (sequence_id old) (token_start old) (layer_index old)
               (pool_tag old) True a)
       (\<lambda>(nh, a1). case nh of
          None \<Rightarrow> Inl RuntimeError
        | Some h' \<Rightarrow>
            let n = nat (page_idx h');
                ops = map (\<lambda>r. let g = gpus a1 ! r in
                             \<lparr>copy_dst = page_ptr g n, copy_src = page_ptr g idx,
                              copy_bytes = bytes_per_page g\<rparr>) tps in
            rbind (on_gpus tps
                    (\<lambda>g. Inr (upd_page n (\<lambda>m. m\<lparr>token_end := token_end old\<rparr>) g)) a1)
              (\<lambda>a2. rbind (on_gpus tps (drop_live_ref pps idx) a2)
                (\<lambda>a3. Inr (h', ops, a3)))))"

definition cow_local ::
    "page_handle \<Rightarrow> u64 \<Rightarrow> allocator \<Rightarrow> (page_handle \<times> copy_op list \<times> allocator) res" where
  "cow_local h dst_seq a =
     (let gi = nat (gpu_idx h); g = gpus a ! gi; idx = nat (page_idx h); old = pages g ! idx;
          pps = pages_per_slab a in
      rbind
       (if pool_tag old = KMain \<and> kv_slabbed pps g then
          rbind (kv_alloc_page pps (if dst_seq \<noteq> 0 then dst_seq else sequence_id old)
                   (token_start old) True (prefer_slab_of pps g idx) g)
            (\<lambda>(res, g1). case res of
               None \<Rightarrow> Inr (None, g1)
             | Some n \<Rightarrow>
                 Inr (Some (mk_handle gi n (page_ptr g1 n) (pool_tag old)),
                      upd_page n (\<lambda>m. m\<lparr>refcount := 1, pool_tag := pool_tag old\<rparr>) g1))
        else gpu_allocate_unreserved pps gi (pool_tag old) g)
       (\<lambda>(nh, g1). case nh of
          None \<Rightarrow> Inl RuntimeError
        | Some h' \<Rightarrow>
            let g2 = upd_page (nat (page_idx h')) (copy_meta (pages g1 ! idx)) g1 in
            rbind (drop_ref pps idx g2)
              (\<lambda>g3. Inr (h', [\<lparr>copy_dst = gpu_ptr h', copy_src = gpu_ptr h,
                               copy_bytes = bytes_per_page g\<rparr>], put_gpu gi g3 a))))"

definition cow_copy ::
    "page_handle \<Rightarrow> u64 \<Rightarrow> allocator \<Rightarrow> (page_handle \<times> copy_op list \<times> allocator) res" where
  "cow_copy h dst_seq a =
     assert_then (valid_gpu a (gpu_idx h))
      (let g = gpus a ! nat (gpu_idx h); idx = nat (page_idx h) in
       if side_pool_of g (handle_pool h) \<noteq> None then cow_side h a
       else
         assert_then (0 \<le> page_idx h \<and> page_idx h < int (total g))
          (assert_then (0 < refcount (pages g ! idx))
            (if refcount (pages g ! idx) = 1 then Inr (h, [], a)
             else if mirrored a (pages g ! idx) then cow_replicated h dst_seq a
             else cow_local h dst_seq a)))"

section \<open>KDA state and expert zones\<close>

definition allocate_kda_state ::
    "int \<Rightarrow> u64 \<Rightarrow> allocator \<Rightarrow> (page_handle list \<times> allocator) res" where
  "allocate_kda_state gpu seq a =
     assert_then (valid_gpu a gpu)
      (if \<not> kda_mapped a then
         rbind (allocate gpu KKdaState a)
           (\<lambda>(h, a1). case h of
              None \<Rightarrow> Inr ([], a1)
            | Some h' \<Rightarrow>
                if gpu_ptr h' = 0 then Inr ([], a1)
                else rbind (write_meta h' (\<lambda>m. m\<lparr>sequence_id := seq\<rparr>) a1)
                       (\<lambda>a2. Inr ([h'], a2)))
       else on_gpu' (nat gpu)
              (gpu_allocate_kda_mapped (pages_per_slab a) (nat gpu) (kda_num_layers a)
                 (kda_unit_slabs a) seq) a)"

definition claim_expert_zone ::
    "int \<Rightarrow> int \<Rightarrow> int \<Rightarrow> allocator \<Rightarrow> (expert_zone_run option \<times> allocator) res" where
  "claim_expert_zone gpu num_slabs extra a =
     assert_then (valid_gpu a gpu)
       (on_gpu' (nat gpu)
         (gpu_claim_expert_zone (pages_per_slab a) (slab_bytes a) (nat gpu) num_slabs extra) a)"

definition claim_expert_zone_at ::
    "int \<Rightarrow> int \<Rightarrow> int \<Rightarrow> int \<Rightarrow> allocator \<Rightarrow> (bool \<times> allocator) res" where
  "claim_expert_zone_at gpu start num_slabs extra a =
     assert_then (valid_gpu a gpu)
       (on_gpu' (nat gpu) (gpu_claim_expert_zone_at (pages_per_slab a) start num_slabs extra) a)"

definition release_expert_zone :: "int \<Rightarrow> int \<Rightarrow> int \<Rightarrow> allocator \<Rightarrow> allocator res" where
  "release_expert_zone gpu start num_slabs a =
     assert_then (valid_gpu a gpu)
      (assert_then (0 \<le> start \<and> 0 \<le> num_slabs)
        (on_gpu (nat gpu)
          (gpu_release_expert_zone (pages_per_slab a) (nat start) (nat num_slabs)) a))"

definition largest_free_run :: "int \<Rightarrow> allocator \<Rightarrow> nat" where
  "largest_free_run gpu a =
     (if valid_gpu a gpu then gpu_largest_free_run (pages_per_slab a) (gpus a ! nat gpu) else 0)"

section \<open>Queries and headroom\<close>

definition free_pages :: "int \<Rightarrow> pool \<Rightarrow> allocator \<Rightarrow> int res" where
  "free_pages gpu p a =
     assert_then (valid_gpu a gpu) (Inr (gpu_free_pages (pages_per_slab a) p (gpus a ! nat gpu)))"

definition total_pages :: "int \<Rightarrow> pool \<Rightarrow> allocator \<Rightarrow> nat res" where
  "total_pages gpu p a =
     assert_then (valid_gpu a gpu) (Inr (gpu_total_pages p (gpus a ! nat gpu)))"

definition used_pages :: "int \<Rightarrow> pool \<Rightarrow> allocator \<Rightarrow> nat res" where
  "used_pages gpu p a =
     assert_then (valid_gpu a gpu) (Inr (gpu_used_pages p (gpus a ! nat gpu)))"

record headroom_config =
  max_concurrent_forks :: int
  max_concurrent_sequences :: int
  page_growth_chunk_pages :: int

definition configure_headroom :: "headroom_config \<Rightarrow> allocator \<Rightarrow> allocator" where
  "configure_headroom c a =
     (let cow_pages = max_concurrent_forks c;
          growth_pages = max_concurrent_sequences c * page_growth_chunk_pages c in
      a\<lparr>gpus := map (\<lambda>g. g\<lparr>main_reserved := cow_pages + growth_pages, spec_reserved := cow_pages\<rparr>)
                  (gpus a)\<rparr>)"

definition reserved_pages :: "int \<Rightarrow> pool \<Rightarrow> allocator \<Rightarrow> int" where
  "reserved_pages gpu p a =
     (if valid_gpu a gpu then gpu_reserved_pages p (gpus a ! nat gpu) else 0)"

definition available_pages :: "int \<Rightarrow> pool \<Rightarrow> allocator \<Rightarrow> int res" where
  "available_pages gpu p a =
     rbind (free_pages gpu p a) (\<lambda>n. Inr (max 0 (n - reserved_pages gpu p a)))"

section \<open>Freeing a sequence\<close>

definition free_sequence_page :: "nat \<Rightarrow> u64 \<Rightarrow> nat \<Rightarrow> allocator \<Rightarrow> allocator res" where
  "free_sequence_page gi seq i a =
     (let m = pages (gpus a ! gi) ! i; pps = pages_per_slab a; tps = tp_gpu_indices (dcp a) in
      if sequence_id m = seq \<and> 0 < refcount m then
        (if mirrored a m then
           (if gi \<noteq> hd tps then Inr a else on_gpus tps (drop_live_ref pps i) a)
         else on_gpu gi (drop_ref pps i) a)
      else Inr a)"

definition free_sequence_side_page :: "nat \<Rightarrow> u64 \<Rightarrow> pool \<Rightarrow> nat \<Rightarrow> gpu_pool \<Rightarrow> gpu_pool res" where
  "free_sequence_side_page pps seq p i g =
     (case side_pool_of g p of
        None \<Rightarrow> Inl AssertFailed
      | Some sp \<Rightarrow>
          let m = sp_pages sp ! i in
          if sequence_id m = seq \<and> 0 < refcount m then drop_side_ref pps p i g else Inr g)"

definition side_total :: "gpu_pool \<Rightarrow> pool \<Rightarrow> nat" where
  "side_total g p = (case side_pool_of g p of None \<Rightarrow> 0 | Some sp \<Rightarrow> sp_total sp)"

definition free_sequence_side :: "nat \<Rightarrow> u64 \<Rightarrow> gpu_pool \<Rightarrow> gpu_pool res" where
  "free_sequence_side pps seq g =
     rfold (\<lambda>p g. rfold (free_sequence_side_page pps seq p) [0..<side_total g p] g)
       [KIndexerK, KHca, KSwa, KKdaState] g"

definition free_sequence :: "int \<Rightarrow> u64 \<Rightarrow> allocator \<Rightarrow> allocator res" where
  "free_sequence gpu seq a =
     assert_then (valid_gpu a gpu)
      (let gi = nat gpu in
       rbind (rfold (free_sequence_page gi seq) [0..<total (gpus a ! gi)] a)
         (on_gpu gi (free_sequence_side (pages_per_slab a) seq)))"

section \<open>DCP routing\<close>

definition set_dcp_config :: "dcp_config \<Rightarrow> allocator \<Rightarrow> allocator res" where
  "set_dcp_config c a =
     assert_then
       (dcp_enabled c \<longrightarrow>
          1 \<le> dcp_chunk_size c \<and> 1 \<le> page_size_tokens c
          \<and> dcp_chunk_size c mod page_size_tokens c = 0
          \<and> int (length (tp_gpu_indices c)) = dcp_size c)
       (Inr (a\<lparr>dcp := c\<rparr>))"

definition dcp_rank_for_token :: "u32 \<Rightarrow> dcp_config \<Rightarrow> int" where
  "dcp_rank_for_token tok d =
     (if dcp_size d \<le> 1 then 0
      else sint ((tok div word_of_int (dcp_chunk_size d)) mod word_of_int (dcp_size d)))"

definition first_tp_gpu :: "dcp_config \<Rightarrow> nat" where
  "first_tp_gpu d = (if tp_gpu_indices d = [] then 0 else hd (tp_gpu_indices d))"

definition dcp_gpu_for_token :: "u32 \<Rightarrow> allocator \<Rightarrow> nat" where
  "dcp_gpu_for_token tok a =
     (if \<not> dcp_enabled (dcp a) then first_tp_gpu (dcp a)
      else tp_gpu_indices (dcp a) ! nat (dcp_rank_for_token tok (dcp a)))"

fun assign_dcp_pages ::
    "int \<Rightarrow> u64 \<Rightarrow> u32 \<Rightarrow> page_handle list \<Rightarrow> u32 \<Rightarrow> allocator \<Rightarrow> allocator res" where
  "assign_dcp_pages gpu seq end_tok [] pos a = Inr a"
| "assign_dcp_pages gpu seq end_tok (h # hs) pos a =
     assert_then (gpu_idx h = gpu)
      (let tok_end = min (pos + word_of_int (page_size_tokens (dcp a))) end_tok in
       rbind (write_meta h (\<lambda>m. m\<lparr>sequence_id := seq, token_start := pos, token_end := tok_end\<rparr>) a)
         (assign_dcp_pages gpu seq end_tok hs tok_end))"

definition assign_dcp_range ::
    "int \<Rightarrow> u64 \<Rightarrow> page_handle list \<Rightarrow> u32 \<Rightarrow> u32 \<Rightarrow> allocator \<Rightarrow> allocator res" where
  "assign_dcp_range gpu seq hs start_tok end_tok a =
     assert_then (start_tok < end_tok) (assign_dcp_pages gpu seq end_tok hs start_tok a)"

definition allocate_for_dcp_append ::
    "u64 \<Rightarrow> u32 \<Rightarrow> u32 \<Rightarrow> int \<Rightarrow> allocator \<Rightarrow> (page_handle option \<times> allocator) res" where
  "allocate_for_dcp_append seq tok layer default_gpu a =
     (if dcp_enabled (dcp a) \<and> \<not> kv_sharded (dcp a) then
        allocate_main_replicated seq tok layer False a
      else
        let gpu = (if dcp_enabled (dcp a) then int (dcp_gpu_for_token tok a) else default_gpu) in
        allocate_for_sequence gpu KMain seq layer tok
          (tok + word_of_int (page_size_tokens (dcp a))) False a)"

definition index_label :: "u64 \<Rightarrow> u32 \<Rightarrow> u32 \<Rightarrow> page_meta \<Rightarrow> page_meta" where
  "index_label seq tok layer m = m\<lparr>sequence_id := seq, token_start := tok, layer_index := layer\<rparr>"

definition allocate_one_indexer ::
    "nat \<Rightarrow> u64 \<Rightarrow> u32 \<Rightarrow> u32 \<Rightarrow> allocator \<Rightarrow> (page_handle list \<times> allocator) res" where
  "allocate_one_indexer gpu seq tok layer a =
     rbind (allocate (int gpu) KIndexerK a)
       (\<lambda>(h, a1). case h of
          None \<Rightarrow> Inr ([], a1)
        | Some h' \<Rightarrow> rbind (write_meta h' (index_label seq tok layer) a1) (\<lambda>a2. Inr ([h'], a2)))"

definition publish_indexer ::
    "u64 \<Rightarrow> u32 \<Rightarrow> u32 \<Rightarrow> nat \<Rightarrow> nat \<Rightarrow> allocator \<Rightarrow> (page_handle \<times> allocator) res" where
  "publish_indexer seq tok layer gpu idx a =
     (let g = gpus a ! gpu; h = mk_handle gpu idx (side_ptr (indexer_k g) idx) KIndexerK;
          a1 = put_gpu gpu (upd_side KIndexerK (upd_side_page idx (claim_meta KIndexerK)) g) a in
      rbind (write_meta h (index_label seq tok layer) a1) (\<lambda>a2. Inr (h, a2)))"

fun claim_indexer_elastic ::
    "u64 \<Rightarrow> u32 \<Rightarrow> u32 \<Rightarrow> nat list \<Rightarrow> page_handle list \<Rightarrow> allocator
       \<Rightarrow> (page_handle list \<times> allocator) res" where
  "claim_indexer_elastic seq tok layer [] results a = Inr (results, a)"
| "claim_indexer_elastic seq tok layer (gpu # rest) results a =
     rbind (on_gpu' gpu (kv_claim_side_slab (pages_per_slab a) True) a)
       (\<lambda>(sid, a1). case sid of
          None \<Rightarrow> rbind (rfold free results a1) (\<lambda>a2. Inr ([], a2))
        | Some idx \<Rightarrow>
            rbind (publish_indexer seq tok layer gpu idx a1)
              (\<lambda>(h, a2). claim_indexer_elastic seq tok layer rest (results @ [h]) a2))"

fun claim_indexer_lockstep ::
    "u64 \<Rightarrow> u32 \<Rightarrow> u32 \<Rightarrow> nat \<Rightarrow> nat list \<Rightarrow> page_handle list \<Rightarrow> allocator
       \<Rightarrow> (page_handle list \<times> allocator) res" where
  "claim_indexer_lockstep seq tok layer idx [] results a = Inr (results, a)"
| "claim_indexer_lockstep seq tok layer idx (gpu # rest) results a =
     (let g = gpus a ! gpu; sp = indexer_k g in
      assert_then (idx \<in> set (sp_free sp))
       (let a1 = put_gpu gpu (g\<lparr>indexer_k := sp\<lparr>sp_free := remove1 idx (sp_free sp)\<rparr>\<rparr>) a in
        rbind (publish_indexer seq tok layer gpu idx a1)
          (\<lambda>(h, a2). claim_indexer_lockstep seq tok layer idx rest (results @ [h]) a2)))"

definition allocate_indexer_k_for_dcp ::
    "u64 \<Rightarrow> u32 \<Rightarrow> u32 \<Rightarrow> allocator \<Rightarrow> (page_handle list \<times> allocator) res" where
  "allocate_indexer_k_for_dcp seq tok layer a =
     (let d = dcp a; tps = tp_gpu_indices d in
      if \<not> dcp_enabled d then allocate_one_indexer (first_tp_gpu d) seq tok layer a
      else if indexer_k_sharded d then
        (let gpu = (if 0 < indexer_k_page_size_tokens d
                    then tps ! nat (sint ((tok div word_of_int (indexer_k_page_size_tokens d))
                                          mod word_of_int (dcp_size d)))
                    else dcp_gpu_for_token tok a)
         in allocate_one_indexer gpu seq tok layer a)
      else
        let csp = indexer_k (gpus a ! hd tps) in
        if elastic csp then claim_indexer_elastic seq tok layer tps [] a
        else
          (case last_pos (\<lambda>cand. list_all
                   (\<lambda>mg. cand < sp_total (indexer_k mg)
                         \<and> refcount (sp_pages (indexer_k mg) ! cand) = 0) (tp_mirrors a))
                 (sp_free csp) of
             None \<Rightarrow> Inr ([], a)
           | Some i \<Rightarrow> claim_indexer_lockstep seq tok layer (sp_free csp ! i) tps [] a))"

end
