(* ===== verification/Page_Source.thy ===== *)
theory Page_Source
  imports Prelude
begin

text \<open>
  The contract that every supplier of pages keeps, as a locale: a request takes a page whose
  count is zero and sets it to one (or changes nothing), giving back a counted page decrements
  its count, and neither faults. The client lemma is proved once: however requests and returns are
  interleaved, no page is ever handed out twice at the same time. The slab region, the page pools
  of a GPU and its side pools are three suppliers.
\<close>

datatype 'k request = Take 'k | Give nat

text \<open>A client that serves requests and hands back the \<open>j\<close>-th page it holds.\<close>

fun serve ::
    "('k \<Rightarrow> 's \<Rightarrow> (nat option \<times> 's) res) \<Rightarrow> (nat \<Rightarrow> 's \<Rightarrow> 's res) \<Rightarrow> 'k request list \<Rightarrow> nat list \<Rightarrow> 's
       \<Rightarrow> (nat list \<times> 's) res" where
  "serve acquire release [] held s = Inr (held, s)"
| "serve acquire release (Take k # rs) held s =
     rbind (acquire k s)
       (\<lambda>(res, s'). case res of
          None \<Rightarrow> serve acquire release rs held s'
        | Some p \<Rightarrow> serve acquire release rs (held @ [p]) s')"
| "serve acquire release (Give j # rs) held s =
     (if j < length held then
        rbind (release (held ! j) s) (\<lambda>s'. serve acquire release rs (take j held @ drop (Suc j) held) s')
      else serve acquire release rs held s)"

locale page_source =
  fixes invar :: "'s \<Rightarrow> bool"
    and count :: "'s \<Rightarrow> nat \<Rightarrow> nat"
    and acquire :: "'k \<Rightarrow> 's \<Rightarrow> (nat option \<times> 's) res"
    and release :: "nat \<Rightarrow> 's \<Rightarrow> 's res"
  assumes take_ok: "invar s \<Longrightarrow> \<exists>res s'. acquire k s = Inr (res, s') \<and> invar s'
      \<and> (case res of None \<Rightarrow> count s' = count s
         | Some p \<Rightarrow> count s p = 0 \<and> count s' = (count s)(p := 1))"
    and give_ok: "invar s \<Longrightarrow> 0 < count s p \<Longrightarrow> \<exists>s'. release p s = Inr s' \<and> invar s'
      \<and> count s' = (count s)(p := count s p - 1)"
begin

lemma take_fresh:
  assumes "invar s" "acquire k s = Inr (Some p, s')"
  shows "count s p = 0" "count s' = (count s)(p := 1)" "invar s'"
  using take_ok [OF assms(1), of k] assms(2) by auto

lemma take_give:
  assumes "invar s" "acquire k s = Inr (Some p, s')"
  shows "\<exists>s''. release p s' = Inr s'' \<and> invar s'' \<and> count s'' = count s"
  using take_fresh [OF assms] give_ok [of s' p] by (auto simp: fun_eq_iff)

lemma serve_safe:
  assumes "invar s" "distinct held" "\<forall>p \<in> set held. 0 < count s p"
  shows "\<exists>held' s'. serve acquire release rs held s = Inr (held', s') \<and> invar s' \<and> distinct held'
    \<and> (\<forall>p \<in> set held'. 0 < count s' p)"
  using assms
proof (induction rs arbitrary: held s)
  case Nil
  then show ?case by simp
next
  case (Cons r rs)
  show ?case
  proof (cases r)
    case (Take k)
    obtain res s' where t: "acquire k s = Inr (res, s')" "invar s'"
      and c: "case res of None \<Rightarrow> count s' = count s
        | Some p \<Rightarrow> count s p = 0 \<and> count s' = (count s)(p := 1)"
      using take_ok [OF Cons.prems(1), of k] by blast
    show ?thesis
    proof (cases res)
      case None
      then show ?thesis using Take t c Cons.IH [OF t(2), of held] Cons.prems by simp
    next
      case (Some p)
      with c Cons.prems(3) have "p \<notin> set held" by auto
      then show ?thesis using Take Some t c Cons.IH [OF t(2), of "held @ [p]"] Cons.prems by simp
    qed
  next
    case (Give j)
    show ?thesis
    proof (cases "j < length held")
      case False
      then show ?thesis using Give Cons.IH [OF Cons.prems] by simp
    next
      case True
      let ?p = "held ! j" and ?rest = "take j held @ drop (Suc j) held"
      have "distinct (take j held @ ?p # drop (Suc j) held)" "set (take j held @ ?p # drop (Suc j) held) = set held"
        using Cons.prems(2) id_take_nth_drop [OF True] by simp_all
      then have d: "distinct ?rest" "?p \<notin> set ?rest" "set ?rest \<subseteq> set held" by auto
      obtain s' where g: "release ?p s = Inr s'" "invar s'" "count s' = (count s)(?p := count s ?p - 1)"
        using give_ok [OF Cons.prems(1), of ?p] Cons.prems(3) True by auto
      have "\<forall>p \<in> set ?rest. 0 < count s' p" using d Cons.prems(3) g(3) by auto
      then show ?thesis using Give True g Cons.IH [OF g(2) d(1)] by simp
    qed
  qed
qed

end

end
