(* ===== verification/Kv_Slabs_Inv.thy ===== *)
theory Kv_Slabs_Inv
  imports Kv_Slabs Page_Source
begin

text \<open>
  The invariant of the slab region, the abstract view of it (which pages are live KV pages,
  which slabs belong to side tenants, how many pages are free) and the effect of every slab
  operation on that view. Each \<open>_ok\<close> lemma says three things: no assertion of the source
  fails, the invariant is kept, and the abstract view changes as specified.
\<close>

section \<open>The invariant\<close>

definition slab_wf :: "nat \<Rightarrow> kv_slab \<Rightarrow> bool" where
  "slab_wf pps s \<longleftrightarrow>
     (if claimed s
      then used s + length (holes s) = bump s \<and> bump s \<le> pps \<and> distinct (holes s)
           \<and> (\<forall>h \<in> set (holes s). h < bump s)
      else used s = 0 \<and> bump s = 0 \<and> holes s = [])"

definition in_run :: "'a kv_region_scheme \<Rightarrow> nat \<Rightarrow> bool" where
  "in_run r i \<longleftrightarrow> i \<in> set (run_ids r (owner_seq (kv_slabs r ! i)))"

definition slabs_wf :: "nat \<Rightarrow> 'a kv_region_scheme \<Rightarrow> bool" where
  "slabs_wf pps r \<longleftrightarrow>
     0 < pps \<and> length (kv_slabs r) * pps = initial_main_pages r
     \<and> (\<forall>i < length (kv_slabs r). slab_wf pps (kv_slabs r ! i))"

definition free_wf :: "'a kv_region_scheme \<Rightarrow> bool" where
  "free_wf r \<longleftrightarrow>
     distinct (kv_free_slabs r)
     \<and> set (kv_free_slabs r) = {i. i < length (kv_slabs r) \<and> \<not> claimed (kv_slabs r ! i)}"

definition slab_room :: "nat \<Rightarrow> 'a kv_region_scheme \<Rightarrow> int" where
  "slab_room pps r = sum_list (map (\<lambda>s. int pps - int (used s)) (kv_slabs r))"

definition count_wf :: "nat \<Rightarrow> 'a kv_region_scheme \<Rightarrow> bool" where
  "count_wf pps r \<longleftrightarrow> kv_free_pages r = slab_room pps r + int (length (kv_loose_free r))"

definition loose_wf :: "'a kv_region_scheme \<Rightarrow> bool" where
  "loose_wf r \<longleftrightarrow>
     distinct (kv_loose_free r) \<and> (\<forall>p \<in> set (kv_loose_free r). initial_main_pages r \<le> p)"

definition runs_wf :: "'a kv_region_scheme \<Rightarrow> bool" where
  "runs_wf r \<longleftrightarrow>
     (\<forall>s. kv_runs r s \<noteq> Some [] \<and> distinct (run_ids r s)
        \<and> (\<forall>i \<in> set (run_ids r s). i < length (kv_slabs r) \<and> claimed (kv_slabs r ! i)
                                  \<and> owner_seq (kv_slabs r ! i) = s))"

definition side_wf :: "nat \<Rightarrow> 'a kv_region_scheme \<Rightarrow> bool" where
  "side_wf pps r \<longleftrightarrow>
     (\<forall>i < length (kv_slabs r). claimed (kv_slabs r ! i) \<and> \<not> in_run r i \<longrightarrow>
        used (kv_slabs r ! i) = pps)"

definition region_wf :: "nat \<Rightarrow> 'a kv_region_scheme \<Rightarrow> bool" where
  "region_wf pps r \<longleftrightarrow>
     slabs_wf pps r \<and> free_wf r \<and> count_wf pps r \<and> loose_wf r \<and> runs_wf r \<and> side_wf pps r"

definition no_idle_slab :: "'a kv_region_scheme \<Rightarrow> bool" where
  "no_idle_slab r \<longleftrightarrow>
     (\<forall>i < length (kv_slabs r). claimed (kv_slabs r ! i) \<longrightarrow> 0 < used (kv_slabs r ! i))"

definition region_ok :: "nat \<Rightarrow> 'a kv_region_scheme \<Rightarrow> bool" where
  "region_ok pps r \<longleftrightarrow> region_wf pps r \<and> no_idle_slab r"

section \<open>The abstract view\<close>

definition slab_taken :: "kv_slab \<Rightarrow> nat set" where
  "slab_taken s = {off. off < bump s \<and> off \<notin> set (holes s)}"

definition kv_pages :: "nat \<Rightarrow> 'a kv_region_scheme \<Rightarrow> nat set" where
  "kv_pages pps r =
     {p. p < initial_main_pages r \<and> in_run r (p div pps)
         \<and> p mod pps \<in> slab_taken (kv_slabs r ! (p div pps))}"

definition side_slabs :: "'a kv_region_scheme \<Rightarrow> nat set" where
  "side_slabs r = {i. i < length (kv_slabs r) \<and> claimed (kv_slabs r ! i) \<and> \<not> in_run r i}"

lemmas region_defs = region_wf_def slabs_wf_def free_wf_def count_wf_def loose_wf_def
  runs_wf_def side_wf_def

lemma region_wf_pps: "region_wf pps r \<Longrightarrow> 0 < pps"
  by (simp add: region_defs)

lemma region_wf_len: "region_wf pps r \<Longrightarrow> length (kv_slabs r) * pps = initial_main_pages r"
  by (simp add: region_defs)

lemma region_wf_slab: "region_wf pps r \<Longrightarrow> i < length (kv_slabs r) \<Longrightarrow> slab_wf pps (kv_slabs r ! i)"
  by (simp add: region_defs)

lemma page_slab_less:
  "region_wf pps r \<Longrightarrow> p < initial_main_pages r \<Longrightarrow> p div pps < length (kv_slabs r)"
  by (metis div_less_blocks region_wf_len region_wf_pps)

lemma run_idsD:
  assumes "runs_wf r" and "i \<in> set (run_ids r s)"
  shows "i < length (kv_slabs r)" and "claimed (kv_slabs r ! i)"
    and "owner_seq (kv_slabs r ! i) = s" and "in_run r i"
  using assms by (auto simp: runs_wf_def in_run_def)

lemma in_runD:
  assumes "runs_wf r" and "in_run r i"
  shows "i < length (kv_slabs r)" and "claimed (kv_slabs r ! i)"
  using run_idsD [OF assms(1)] assms(2) by (auto simp: in_run_def)

lemma pristine_iff: "slab_wf pps s \<Longrightarrow> slab_pristine s \<longleftrightarrow> \<not> claimed s"
  by (auto simp: slab_wf_def slab_pristine_def)

lemma free_slab_pristine:
  assumes "region_wf pps r" and "i \<in> set (kv_free_slabs r)"
  shows "i < length (kv_slabs r)" and "slab_pristine (kv_slabs r ! i)"
  using assms by (auto simp: region_defs pristine_iff)

lemma side_slab_full:
  assumes "region_wf pps r" and "i \<in> side_slabs r"
  shows "used (kv_slabs r ! i) = pps" and "bump (kv_slabs r ! i) = pps"
    and "holes (kv_slabs r ! i) = []"
proof -
  from assms show u: "used (kv_slabs r ! i) = pps"
    by (auto simp: side_slabs_def region_defs)
  from assms have "slab_wf pps (kv_slabs r ! i)" and "claimed (kv_slabs r ! i)"
    by (auto simp: side_slabs_def intro: region_wf_slab)
  then have "pps + length (holes (kv_slabs r ! i)) = bump (kv_slabs r ! i)"
    and "bump (kv_slabs r ! i) \<le> pps"
    using u by (simp_all add: slab_wf_def)
  then have "bump (kv_slabs r ! i) = pps" and "length (holes (kv_slabs r ! i)) = 0"
    by linarith+
  then show "bump (kv_slabs r ! i) = pps" and "holes (kv_slabs r ! i) = []"
    by simp_all
qed

section \<open>Updating one slab\<close>

lemma in_run_slab_update:
  assumes "owner_seq s' = owner_seq (kv_slabs r ! sid)"
  shows "in_run (r\<lparr>kv_slabs := (kv_slabs r)[sid := s'], kv_free_pages := n\<rparr>) i = in_run r i"
  using assms
  by (cases "sid < length (kv_slabs r)")
     (auto simp: in_run_def run_ids_def nth_list_update list_update_beyond split: option.splits)

lemma slab_room_update:
  "sid < length (kv_slabs r) \<Longrightarrow>
   slab_room pps (r\<lparr>kv_slabs := (kv_slabs r)[sid := s'], kv_free_pages := n\<rparr>) =
   slab_room pps r + int (used (kv_slabs r ! sid)) - int (used s')"
  by (simp add: slab_room_def sum_list_map_update)

text \<open>
  A claimed slab of a run may change its page accounting as long as it stays well-formed:
  everything else of the invariant is untouched.
\<close>

lemma region_wf_slab_update:
  assumes wf: "region_wf pps r" and sid: "in_run r sid"
    and s': "slab_wf pps s'" "claimed s'" "owner_seq s' = owner_seq (kv_slabs r ! sid)"
    and n: "n = kv_free_pages r + int (used (kv_slabs r ! sid)) - int (used s')"
  defines "r' \<equiv> r\<lparr>kv_slabs := (kv_slabs r)[sid := s'], kv_free_pages := n\<rparr>"
  shows "region_wf pps r'"
proof -
  from wf have runs: "runs_wf r" by (simp add: region_wf_def)
  note sidD = in_runD [OF runs sid]
  have run: "in_run r' i = in_run r i" for i
    unfolding r'_def by (rule in_run_slab_update [OF s'(3)])
  have cl: "claimed (kv_slabs r' ! i) = claimed (kv_slabs r ! i)" if "i < length (kv_slabs r)" for i
    using that s' sidD by (auto simp: r'_def nth_list_update_if)
  have ow: "owner_seq (kv_slabs r' ! i) = owner_seq (kv_slabs r ! i)" if "i < length (kv_slabs r)" for i
    using that s' by (auto simp: r'_def nth_list_update_if)
  have len: "length (kv_slabs r') = length (kv_slabs r)" by (simp add: r'_def)
  have "slabs_wf pps r'" and "loose_wf r'"
    using wf s' by (auto simp: r'_def region_defs nth_list_update_if)
  moreover have "free_wf r'"
    using wf cl len by (auto simp: region_defs r'_def)
  moreover have "count_wf pps r'"
    using wf sidD n by (simp add: region_wf_def count_wf_def r'_def slab_room_update)
  moreover have "runs_wf r'"
    using runs cl ow len by (auto simp: runs_wf_def r'_def run_ids_def)
  moreover have "side_wf pps r'"
    unfolding side_wf_def len run
    using wf sid cl by (auto simp: region_wf_def side_wf_def r'_def nth_list_update_if)
  ultimately show ?thesis by (simp add: region_wf_def)
qed

lemma side_slabs_slab_update:
  assumes "claimed s' = claimed (kv_slabs r ! sid)"
    and "owner_seq s' = owner_seq (kv_slabs r ! sid)"
  shows "side_slabs (r\<lparr>kv_slabs := (kv_slabs r)[sid := s'], kv_free_pages := n\<rparr>) = side_slabs r"
  unfolding side_slabs_def in_run_slab_update [OF assms(2)]
  using assms(1) by (auto simp: nth_list_update_if split: if_splits)

lemma kv_pages_slab_update:
  assumes wf: "region_wf pps r" and sid: "in_run r sid"
    and "owner_seq s' = owner_seq (kv_slabs r ! sid)"
  shows "kv_pages pps (r\<lparr>kv_slabs := (kv_slabs r)[sid := s'], kv_free_pages := n\<rparr>) =
    {p \<in> kv_pages pps r. p div pps \<noteq> sid}
    \<union> {p. p < initial_main_pages r \<and> p div pps = sid \<and> p mod pps \<in> slab_taken s'}"
proof -
  have "sid < length (kv_slabs r)" using wf sid in_runD by (auto simp: region_wf_def)
  then show ?thesis
    unfolding kv_pages_def in_run_slab_update [OF assms(3)]
    using sid page_slab_less [OF wf] by (auto simp: nth_list_update_if split: if_splits)
qed

lemma kv_pages_slab_delta:
  fixes n :: int
  assumes wf: "region_wf pps r" and sid: "in_run r (p div pps)" and p: "p < initial_main_pages r"
    and ow: "owner_seq s' = owner_seq (kv_slabs r ! (p div pps))"
  defines "r' \<equiv> r\<lparr>kv_slabs := (kv_slabs r)[p div pps := s'], kv_free_pages := n\<rparr>"
  shows "slab_taken s' = insert (p mod pps) (slab_taken (kv_slabs r ! (p div pps))) \<Longrightarrow>
      kv_pages pps r' = insert p (kv_pages pps r)"
    and "slab_taken s' = slab_taken (kv_slabs r ! (p div pps)) - {p mod pps} \<Longrightarrow>
      kv_pages pps r' = kv_pages pps r - {p}"
proof -
  have eq: "q mod pps = p mod pps \<longleftrightarrow> q = p" if "q div pps = p div pps" for q
    using that by (metis div_mult_mod_eq)
  have other: "q \<in> kv_pages pps r' \<longleftrightarrow> q \<in> kv_pages pps r" if "q div pps \<noteq> p div pps" for q
    using that by (simp add: r'_def kv_pages_slab_update [OF wf sid ow])
  have same: "q \<in> kv_pages pps r' \<longleftrightarrow> q < initial_main_pages r \<and> q mod pps \<in> slab_taken s'"
    and same_old: "q \<in> kv_pages pps r \<longleftrightarrow> q < initial_main_pages r
      \<and> q mod pps \<in> slab_taken (kv_slabs r ! (p div pps))" if "q div pps = p div pps" for q
    using that sid by (simp_all add: r'_def kv_pages_slab_update [OF wf sid ow])
      (simp add: kv_pages_def)
  show "kv_pages pps r' = insert p (kv_pages pps r)"
    if "slab_taken s' = insert (p mod pps) (slab_taken (kv_slabs r ! (p div pps)))"
  proof (rule set_eqI)
    fix q
    show "q \<in> kv_pages pps r' \<longleftrightarrow> q \<in> insert p (kv_pages pps r)"
      using that other [of q] same [of q] same_old [of q] eq [of q] p
      by (cases "q div pps = p div pps") auto
  qed
  show "kv_pages pps r' = kv_pages pps r - {p}"
    if "slab_taken s' = slab_taken (kv_slabs r ! (p div pps)) - {p mod pps}"
  proof (rule set_eqI)
    fix q
    show "q \<in> kv_pages pps r' \<longleftrightarrow> q \<in> kv_pages pps r - {p}"
      using that other [of q] same [of q] same_old [of q] eq [of q]
      by (cases "q div pps = p div pps") auto
  qed
qed

section \<open>Taking a page\<close>

text \<open>
  A page can be taken when its slab belongs to a run and its offset is a hole or the bump
  frontier. The placement searches of the source return such pages only.
\<close>

definition placeable :: "nat \<Rightarrow> 'a kv_region_scheme \<Rightarrow> nat \<Rightarrow> bool" where
  "placeable pps r p \<longleftrightarrow>
     p < initial_main_pages r \<and> in_run r (p div pps)
     \<and> (p mod pps \<in> set (holes (kv_slabs r ! (p div pps)))
        \<or> p mod pps = bump (kv_slabs r ! (p div pps)))"

definition take_page :: "nat \<Rightarrow> u32 \<Rightarrow> kv_slab \<Rightarrow> kv_slab" where
  "take_page off token_start s =
     (let s1 = (if off \<in> set (holes s) then s\<lparr>holes := remove1 off (holes s)\<rparr>
                else s\<lparr>bump := bump s + 1\<rparr>)
      in s1\<lparr>used := used s1 + 1, tok_lo := min (tok_lo s1) token_start,
            tok_hi := max (tok_hi s1) token_start\<rparr>)"

lemma take_page_simps [simp]:
  "claimed (take_page off t s) = claimed s" "owner_seq (take_page off t s) = owner_seq s"
  "used (take_page off t s) = Suc (used s)"
  by (simp_all add: take_page_def Let_def)

lemma take_page_wf:
  assumes "slab_wf pps s" and "claimed s" and "off < pps"
    and "off \<in> set (holes s) \<or> off = bump s"
  shows "slab_wf pps (take_page off t s)"
    and "slab_taken (take_page off t s) = insert off (slab_taken s)"
    and "off \<notin> slab_taken s"
proof -
  have len: "length (holes s) = Suc (length (remove1 off (holes s)))" if "off \<in> set (holes s)"
    using that length_pos_if_in_set [OF that] by (simp add: length_remove1)
  show "slab_wf pps (take_page off t s)"
    using assms len by (auto simp: slab_wf_def take_page_def Let_def)
  show "slab_taken (take_page off t s) = insert off (slab_taken s)"
    using assms by (auto simp: slab_wf_def take_page_def Let_def slab_taken_def)
  show "off \<notin> slab_taken s"
    using assms by (auto simp: slab_taken_def)
qed

lemma kv_take_specific_eq:
  assumes "region_wf pps r" and "placeable pps r p"
  shows "kv_take_specific pps p t r =
    Inr (r\<lparr>kv_slabs := (kv_slabs r)[p div pps := take_page (p mod pps) t (kv_slabs r ! (p div pps))],
           kv_free_pages := kv_free_pages r - 1\<rparr>)"
proof -
  have "claimed (kv_slabs r ! (p div pps))"
    using assms in_runD by (auto simp: placeable_def region_wf_def)
  then show ?thesis
    using assms by (auto simp: placeable_def kv_take_specific_def take_page_def Let_def)
qed

lemma kv_take_specific_ok:
  assumes wf: "region_wf pps r" and pl: "placeable pps r p"
  shows "\<exists>r'. kv_take_specific pps p t r = Inr r' \<and> region_wf pps r'
    \<and> kv_pages pps r' = insert p (kv_pages pps r) \<and> p \<notin> kv_pages pps r
    \<and> side_slabs r' = side_slabs r \<and> kv_free_pages r' = kv_free_pages r - 1
    \<and> kv_loose_free r' = kv_loose_free r \<and> kv_runs r' = kv_runs r
    \<and> kv_free_slabs r' = kv_free_slabs r
    \<and> kv_slabs r' = (kv_slabs r)[p div pps := take_page (p mod pps) t (kv_slabs r ! (p div pps))]
    \<and> r' = r\<lparr>kv_slabs := kv_slabs r', kv_free_pages := kv_free_pages r'\<rparr>"
proof -
  let ?sid = "p div pps" and ?off = "p mod pps"
  let ?s = "kv_slabs r ! ?sid"
  let ?s' = "take_page ?off t ?s"
  let ?r' = "r\<lparr>kv_slabs := (kv_slabs r)[?sid := ?s'], kv_free_pages := kv_free_pages r - 1\<rparr>"
  from wf have runs: "runs_wf r" by (simp add: region_wf_def)
  from pl have run: "in_run r ?sid" by (simp add: placeable_def)
  note sid = in_runD [OF runs run]
  have off: "?off < pps" using region_wf_pps [OF wf] by simp
  have "?off \<in> set (holes ?s) \<or> ?off = bump ?s" using pl by (simp add: placeable_def)
  note s' = take_page_wf [OF region_wf_slab [OF wf sid(1)] sid(2) off this]
  have "region_wf pps ?r'"
    by (rule region_wf_slab_update [OF wf run s'(1)]) (simp_all add: sid)
  moreover have "kv_pages pps ?r' = insert p (kv_pages pps r)"
    using pl s'(2) by (intro kv_pages_slab_delta [OF wf run]) (simp_all add: placeable_def)
  moreover have "p \<notin> kv_pages pps r"
    using s'(3) by (simp add: kv_pages_def)
  moreover have "side_slabs ?r' = side_slabs r"
    by (rule side_slabs_slab_update) simp_all
  ultimately show ?thesis
    unfolding kv_take_specific_eq [OF wf pl] by simp
qed

section \<open>Claiming a slab for a run\<close>

lemma run_ids_upd [simp]:
  "run_ids (r\<lparr>kv_runs := (kv_runs r)(s \<mapsto> ids)\<rparr>) t = (if t = s then ids else run_ids r t)"
  by (simp add: run_ids_def)

lemma kv_claim_slab_ok:
  assumes wf: "region_wf pps r" and free: "sid \<in> set (kv_free_slabs r)"
  shows "\<exists>r'. kv_claim_slab sid seq r = Inr r' \<and> region_wf pps r'
    \<and> placeable pps r' (sid * pps)
    \<and> kv_pages pps r' = kv_pages pps r \<and> side_slabs r' = side_slabs r
    \<and> kv_free_pages r' = kv_free_pages r \<and> kv_loose_free r' = kv_loose_free r
    \<and> set (kv_free_slabs r') = set (kv_free_slabs r) - {sid}
    \<and> length (kv_slabs r') = length (kv_slabs r)
    \<and> (\<forall>i. i \<noteq> sid \<longrightarrow> kv_slabs r' ! i = kv_slabs r ! i)
    \<and> (\<forall>s. run_ids r' s = (if s = seq then run_ids r seq @ [sid] else run_ids r s))
    \<and> r' = r\<lparr>kv_slabs := kv_slabs r', kv_free_slabs := kv_free_slabs r', kv_runs := kv_runs r'\<rparr>"
proof -
  note sid = free_slab_pristine [OF wf free]
  define s where "s = kv_slabs r ! sid"
  define s' where "s' = s\<lparr>claimed := True, owner_seq := seq, tok_lo := UINT32_MAX, tok_hi := 0\<rparr>"
  define r' where "r' = r\<lparr>kv_slabs := (kv_slabs r)[sid := s'],
    kv_free_slabs := remove1 sid (kv_free_slabs r),
    kv_runs := (kv_runs r)(seq \<mapsto> run_ids r seq @ [sid])\<rparr>"
  have eq: "kv_claim_slab sid seq r = Inr r'"
    using sid free by (simp add: kv_claim_slab_def r'_def s'_def s_def)
  from sid(2) have s: "\<not> claimed s" "used s = 0" "bump s = 0" "holes s = []"
    by (simp_all add: slab_pristine_def s_def)
  have fresh: "sid \<notin> set (run_ids r t)" for t
    using run_idsD(2) wf s(1) by (auto simp: region_wf_def s_def)
  have ids: "run_ids r' t = (if t = seq then run_ids r seq @ [sid] else run_ids r t)" for t
    by (simp add: r'_def run_ids_def)
  have sl: "kv_slabs r' ! i = (if i = sid then s' else kv_slabs r ! i)" for i
    using sid(1) by (simp add: r'_def)
  have run: "in_run r' i = (i = sid \<or> in_run r i)" for i
    using fresh by (auto simp: in_run_def sl ids s'_def)
  have len: "length (kv_slabs r') = length (kv_slabs r)" by (simp add: r'_def)
  have frame: "initial_main_pages r' = initial_main_pages r" "kv_loose_free r' = kv_loose_free r"
    "kv_free_pages r' = kv_free_pages r" "kv_runs r' t = Some [] \<longleftrightarrow> t \<noteq> seq \<and> kv_runs r t = Some []" for t
    by (simp_all add: r'_def)
  have fs: "distinct (kv_free_slabs r')" "set (kv_free_slabs r') = set (kv_free_slabs r) - {sid}"
    using wf by (simp_all add: r'_def region_wf_def free_wf_def)
  have "slab_wf pps s'" using s by (simp add: s'_def slab_wf_def)
  then have "slabs_wf pps r'" and "loose_wf r'"
    using wf by (simp_all add: region_wf_def slabs_wf_def loose_wf_def sl len frame)
  moreover have "free_wf r'"
    unfolding free_wf_def fs(2) len sl using fs(1) wf
    by (auto simp: region_wf_def free_wf_def s'_def)
  moreover have "count_wf pps r'"
  proof -
    have "slab_room pps r' = slab_room pps r"
      using sid(1) s by (simp add: slab_room_def r'_def sum_list_map_update s'_def flip: s_def)
    then show ?thesis using wf by (simp add: region_wf_def count_wf_def frame)
  qed
  moreover have "runs_wf r'"
    using wf sid(1) fresh
    by (auto simp: region_wf_def runs_wf_def sl len ids s'_def frame)
  moreover have "side_wf pps r'"
    using wf by (auto simp: region_wf_def side_wf_def sl len run)
  ultimately have wf': "region_wf pps r'" by (simp add: region_wf_def)
  moreover have "placeable pps r' (sid * pps)"
    using region_wf_pps [OF wf] region_wf_len [OF wf] sid(1) s
      block_index_less [OF sid(1) region_wf_pps [OF wf]]
    by (simp add: placeable_def run sl s'_def frame)
  moreover have "kv_pages pps r' = kv_pages pps r"
  proof -
    have "slab_taken s' = {}" using s by (simp add: slab_taken_def s'_def)
    moreover have "\<not> in_run r sid" using fresh by (simp add: in_run_def)
    ultimately show ?thesis by (auto simp: kv_pages_def run sl frame split: if_splits)
  qed
  moreover have "side_slabs r' = side_slabs r"
    using s by (auto simp: side_slabs_def run sl len s_def split: if_splits)
  moreover have "r' = r\<lparr>kv_slabs := kv_slabs r', kv_free_slabs := kv_free_slabs r', kv_runs := kv_runs r'\<rparr>"
    by (simp add: r'_def)
  ultimately show ?thesis
    using fs by (intro exI [of _ r']) (simp add: eq len sl ids frame)
qed

section \<open>The placement searches\<close>

lemma first_some_SomeD: "first_some f xs = Some y \<Longrightarrow> \<exists>x \<in> set xs. f x = Some y"
  by (induction xs) (auto split: option.splits)

lemma first_some_None_iff: "first_some f xs = None \<longleftrightarrow> (\<forall>x \<in> set xs. f x = None)"
  by (induction xs) (auto split: option.splits)

lemma placeableI:
  assumes wf: "region_wf pps r" and i: "i < length (kv_slabs r)" "claimed (kv_slabs r ! i)"
    and off: "off \<in> set (holes (kv_slabs r ! i)) \<or> off = bump (kv_slabs r ! i) \<and> off < pps"
  shows "placeable pps r (i * pps + off)" and "(i * pps + off) div pps = i"
proof -
  have sw: "slab_wf pps (kv_slabs r ! i)" by (rule region_wf_slab [OF wf i(1)])
  with off i(2) have lt: "off < pps" by (auto simp: slab_wf_def)
  have "in_run r i"
  proof (rule ccontr)
    assume "\<not> in_run r i"
    with i have "i \<in> side_slabs r" by (simp add: side_slabs_def)
    with off show False using side_slab_full [OF wf] by auto
  qed
  moreover have "i * pps + off < initial_main_pages r"
    using block_index_less [OF i(1) lt] region_wf_len [OF wf] by simp
  ultimately show "placeable pps r (i * pps + off)"
    using off lt by (auto simp: placeable_def)
  show "(i * pps + off) div pps = i" using lt by simp
qed

lemma from_slab_SomeD:
  assumes "region_wf pps r" and "i < length (kv_slabs r)" and "from_slab pps r i = Some p"
  shows "placeable pps r p" and "p div pps = i"
  using assms placeableI [OF assms(1,2)]
  by (auto simp: from_slab_def Let_def split: if_splits)

lemma from_slab_None_iff:
  assumes "region_wf pps r" and "i < length (kv_slabs r)"
  shows "from_slab pps r i = None \<longleftrightarrow> \<not> claimed (kv_slabs r ! i) \<or> used (kv_slabs r ! i) = pps"
  using region_wf_slab [OF assms]
  by (auto simp: from_slab_def Let_def slab_wf_def split: if_splits)

lemma matched_hole_SomeD:
  assumes "region_wf pps r" and "i < length (kv_slabs r)" and "matched_hole pps t r i = Some p"
  shows "placeable pps r p" and "p div pps = i"
  using assms placeableI [OF assms(1,2)]
  by (auto simp: matched_hole_def Let_def split: if_splits)

lemma run_ids_Some: "kv_runs r s = Some ids \<Longrightarrow> run_ids r s = ids"
  by (simp add: run_ids_def)

lemma kv_find_in_run_SomeD:
  assumes wf: "region_wf pps r" and eq: "kv_find_in_run pps seq t pref r = Some p"
  shows "placeable pps r p"
    and "p div pps \<in> set (run_ids r seq) \<or> pref = Some (p div pps)"
proof -
  have runs: "runs_wf r" using wf by (simp add: region_wf_def)
  consider (pref) ps where "pref = Some ps" "ps < length (kv_slabs r)" "from_slab pps r ps = Some p"
    | (hole) i where "i \<in> set (run_ids r seq)" "matched_hole pps t r i = Some p"
    | (front) i where "i \<in> set (run_ids r seq)" "from_slab pps r i = Some p"
    using eq
    by (auto simp: kv_find_in_run_def Let_def run_ids_Some split: option.splits if_splits
        dest!: first_some_SomeD)
  then have "placeable pps r p \<and> (p div pps \<in> set (run_ids r seq) \<or> pref = Some (p div pps))"
    using from_slab_SomeD [OF wf] matched_hole_SomeD [OF wf] run_idsD(1) [OF runs]
    by cases blast+
  then show "placeable pps r p"
    and "p div pps \<in> set (run_ids r seq) \<or> pref = Some (p div pps)" by blast+
qed

lemma kv_find_in_run_pressure_SomeD:
  assumes wf: "region_wf pps r" and eq: "kv_find_in_run_pressure pps seq r = Some p"
  shows "placeable pps r p" and "p div pps \<in> set (run_ids r seq)"
proof -
  have runs: "runs_wf r" using wf by (simp add: region_wf_def)
  from eq obtain i where "i \<in> set (run_ids r seq)" and "from_slab pps r i = Some p"
    by (auto simp: kv_find_in_run_pressure_def run_ids_Some split: option.splits
        dest!: first_some_SomeD)
  with from_slab_SomeD [OF wf] run_idsD(1) [OF runs]
  show "placeable pps r p" and "p div pps \<in> set (run_ids r seq)" by blast+
qed

lemma kv_find_in_run_pressure_None:
  assumes wf: "region_wf pps r" and "kv_find_in_run_pressure pps seq r = None"
    and i: "i \<in> set (run_ids r seq)"
  shows "used (kv_slabs r ! i) = pps"
proof -
  have runs: "runs_wf r" using wf by (simp add: region_wf_def)
  have "from_slab pps r i = None"
    using assms(2) i
    by (auto simp: kv_find_in_run_pressure_def run_ids_def first_some_None_iff
        split: option.splits)
  then show ?thesis
    using from_slab_None_iff [OF wf run_idsD(1) [OF runs i]] run_idsD(2) [OF runs i] by simp
qed

section \<open>Allocating a page\<close>

definition same_frame :: "'a kv_region_scheme \<Rightarrow> 'a kv_region_scheme \<Rightarrow> bool" where
  "same_frame r r' \<longleftrightarrow>
     initial_main_pages r' = initial_main_pages r \<and> main_reserved r' = main_reserved r
     \<and> kv_region.more r' = kv_region.more r"

lemma same_frame_refl [simp]: "same_frame r r"
  by (simp add: same_frame_def)

lemma same_frame_trans: "same_frame r s \<Longrightarrow> same_frame s t \<Longrightarrow> same_frame r t"
  by (simp add: same_frame_def)

text \<open>
  What a successful allocation does to the abstract view: the page was free, exactly that
  page becomes live, it lies in a slab of the requesting sequence's run (or in the preferred
  slab of a copy-on-write split, or is a loose page), and no side tenant is touched.
\<close>

definition alloc_effect ::
    "nat \<Rightarrow> u64 \<Rightarrow> nat option \<Rightarrow> nat \<Rightarrow> 'a kv_region_scheme \<Rightarrow> 'a kv_region_scheme \<Rightarrow> bool" where
  "alloc_effect pps seq pref p r r' \<longleftrightarrow>
     side_slabs r' = side_slabs r \<and> kv_free_pages r' = kv_free_pages r - 1 \<and> same_frame r r'
     \<and> (if p < initial_main_pages r
        then p \<notin> kv_pages pps r \<and> kv_pages pps r' = insert p (kv_pages pps r)
             \<and> kv_loose_free r' = kv_loose_free r
             \<and> (p div pps \<in> set (run_ids r' seq) \<or> pref = Some (p div pps))
        else p \<in> set (kv_loose_free r) \<and> kv_pages pps r' = kv_pages pps r
             \<and> set (kv_loose_free r') = set (kv_loose_free r) - {p})"

lemma take_alloc_ok:
  assumes wf: "region_wf pps r" and pl: "placeable pps r p"
    and idle: "\<And>i. i < length (kv_slabs r) \<Longrightarrow> claimed (kv_slabs r ! i) \<Longrightarrow>
        0 < used (kv_slabs r ! i) \<or> i = p div pps"
    and run: "p div pps \<in> set (run_ids r seq) \<or> pref = Some (p div pps)"
  shows "\<exists>r'. kv_take_specific pps p t r = Inr r' \<and> region_ok pps r' \<and> alloc_effect pps seq pref p r r'"
proof -
  from kv_take_specific_ok [OF wf pl, of t] obtain r' where
    r': "kv_take_specific pps p t r = Inr r'" "region_wf pps r'"
      "kv_pages pps r' = insert p (kv_pages pps r)" "p \<notin> kv_pages pps r"
      "side_slabs r' = side_slabs r" "kv_free_pages r' = kv_free_pages r - 1"
      "kv_loose_free r' = kv_loose_free r" "kv_runs r' = kv_runs r"
      "kv_slabs r' = (kv_slabs r)[p div pps := take_page (p mod pps) t (kv_slabs r ! (p div pps))]"
      "r' = r\<lparr>kv_slabs := kv_slabs r', kv_free_pages := kv_free_pages r'\<rparr>"
    by blast
  have "no_idle_slab r'"
    unfolding no_idle_slab_def r'(9) using idle by (auto simp: nth_list_update_if split: if_splits)
  moreover have "same_frame r r'"
    by (subst r'(10)) (simp add: same_frame_def)
  moreover have "p < initial_main_pages r" using pl by (simp add: placeable_def)
  ultimately show ?thesis
    using r' run by (auto simp: region_ok_def alloc_effect_def run_ids_def)
qed

lemma fresh_alloc_ok:
  assumes ok: "region_ok pps r" and sid: "sid \<in> set (kv_free_slabs r)"
  shows "\<exists>r'. rbind (kv_claim_slab sid seq r) (kv_take_specific pps (sid * pps) t) = Inr r'
    \<and> region_ok pps r' \<and> alloc_effect pps seq pref (sid * pps) r r'"
proof -
  from ok have wf: "region_wf pps r" by (simp add: region_ok_def)
  note pps = region_wf_pps [OF wf]
  from kv_claim_slab_ok [OF wf sid, of seq] obtain r1 where
    r1: "kv_claim_slab sid seq r = Inr r1" "region_wf pps r1" "placeable pps r1 (sid * pps)"
      "kv_pages pps r1 = kv_pages pps r" "side_slabs r1 = side_slabs r"
      "kv_free_pages r1 = kv_free_pages r" "kv_loose_free r1 = kv_loose_free r"
      "length (kv_slabs r1) = length (kv_slabs r)"
      "\<And>i. i \<noteq> sid \<Longrightarrow> kv_slabs r1 ! i = kv_slabs r ! i"
      "run_ids r1 seq = run_ids r seq @ [sid]"
      "r1 = r\<lparr>kv_slabs := kv_slabs r1, kv_free_slabs := kv_free_slabs r1, kv_runs := kv_runs r1\<rparr>"
    by (metis (no_types, lifting))
  have fr: "same_frame r r1" by (subst r1(11)) (simp add: same_frame_def)
  have idle: "0 < used (kv_slabs r1 ! i) \<or> i = sid * pps div pps"
    if "i < length (kv_slabs r1)" "claimed (kv_slabs r1 ! i)" for i
    using that ok r1(8,9) pps by (cases "i = sid") (auto simp: region_ok_def no_idle_slab_def)
  have mem: "sid * pps div pps \<in> set (run_ids r1 seq) \<or> pref = Some (sid * pps div pps)"
    using r1(10) pps by simp
  from take_alloc_ok [OF r1(2,3) idle mem, of t] obtain r' where
    r': "kv_take_specific pps (sid * pps) t r1 = Inr r'" "region_ok pps r'"
      "alloc_effect pps seq pref (sid * pps) r1 r'" by blast
  have "alloc_effect pps seq pref (sid * pps) r r'"
    using r'(3) r1 fr by (auto simp: alloc_effect_def same_frame_def)
  with r' r1(1) show ?thesis by simp
qed

lemma loose_take_ok:
  assumes ok: "region_ok pps r" and p: "p \<in> set (kv_loose_free r)"
    and xs: "distinct xs" "set xs = set (kv_loose_free r) - {p}"
      "int (length xs) = int (length (kv_loose_free r)) - 1"
  defines "r' \<equiv> r\<lparr>kv_loose_free := xs, kv_free_pages := kv_free_pages r - 1\<rparr>"
  shows "region_ok pps r' \<and> alloc_effect pps seq pref p r r'"
proof -
  have [simp]: "in_run r' i = in_run r i" for i by (simp add: in_run_def r'_def run_ids_def)
  have [simp]: "slab_room pps r' = slab_room pps r" by (simp add: slab_room_def r'_def)
  have [simp]: "run_ids r' s = run_ids r s" for s by (simp add: r'_def run_ids_def)
  have loose: "distinct (kv_loose_free r)" "\<forall>p \<in> set (kv_loose_free r). initial_main_pages r \<le> p"
    using ok by (simp_all add: region_ok_def region_wf_def loose_wf_def)
  have "loose_wf r'" using loose xs by (auto simp: loose_wf_def r'_def)
  moreover have "count_wf pps r'"
    using ok xs(3) by (simp add: region_ok_def region_wf_def count_wf_def) (simp add: r'_def)
  moreover have "slabs_wf pps r'" "free_wf r'" "runs_wf r'" "side_wf pps r'" "no_idle_slab r'"
    using ok
    by (simp_all add: region_ok_def region_wf_def slabs_wf_def free_wf_def runs_wf_def side_wf_def
        no_idle_slab_def) (simp_all add: r'_def)
  moreover have "alloc_effect pps seq pref p r r'"
    using p xs(2) loose(2)
    by (auto simp: alloc_effect_def side_slabs_def kv_pages_def) (auto simp: r'_def same_frame_def)
  ultimately show ?thesis by (simp add: region_ok_def region_wf_def)
qed

lemma loose_alloc_ok:
  assumes ok: "region_ok pps r" and ne: "kv_loose_free r \<noteq> []"
  defines "r' \<equiv> r\<lparr>kv_loose_free := butlast (kv_loose_free r), kv_free_pages := kv_free_pages r - 1\<rparr>"
  shows "region_ok pps r' \<and> alloc_effect pps seq pref (last (kv_loose_free r)) r r'"
proof -
  have "distinct (kv_loose_free r)" using ok by (simp add: region_ok_def region_wf_def loose_wf_def)
  then show ?thesis
    unfolding r'_def using ne length_butlast_int [OF ne]
    by (intro loose_take_ok [OF ok]) (simp_all add: distinct_butlast set_butlast_distinct)
qed

theorem kv_alloc_page_ok:
  assumes ok: "region_ok pps r"
  shows "\<exists>res r'. kv_alloc_page pps seq t unres pref r = Inr (res, r')
    \<and> (case res of
         None \<Rightarrow> r' = r
       | Some p \<Rightarrow> region_ok pps r' \<and> alloc_effect pps seq pref p r r')"
proof -
  from ok have wf: "region_wf pps r" by (simp add: region_ok_def)
  have idle: "0 < used (kv_slabs r ! i) \<or> i = p div pps"
    if "i < length (kv_slabs r)" "claimed (kv_slabs r ! i)" for i p
    using that ok by (simp add: region_ok_def no_idle_slab_def)
  have take: "\<exists>r'. rbind (kv_take_specific pps p t r) (\<lambda>r''. Inr (Some p, r'')) = Inr (Some p, r')
      \<and> region_ok pps r' \<and> alloc_effect pps seq pref p r r'"
    if "placeable pps r p" "p div pps \<in> set (run_ids r seq) \<or> pref = Some (p div pps)" for p
    using take_alloc_ok [OF wf that(1) idle that(2), of t] by auto
  consider (refused) "\<not> unres \<and> kv_free_pages r \<le> main_reserved r"
    | (found) p where "\<not> (\<not> unres \<and> kv_free_pages r \<le> main_reserved r)"
        "kv_find_in_run pps seq t pref r = Some p"
    | (slow) "\<not> (\<not> unres \<and> kv_free_pages r \<le> main_reserved r)"
        "kv_find_in_run pps seq t pref r = None"
    by (cases "kv_find_in_run pps seq t pref r") blast+
  then show ?thesis
  proof cases
    case refused
    then show ?thesis by (simp add: kv_alloc_page_def)
  next
    case found
    with take [OF kv_find_in_run_SomeD [OF wf found(2)]] show ?thesis
      by (fastforce simp: kv_alloc_page_def)
  next
    case slow
    show ?thesis
    proof (cases "kv_free_slabs r = []")
      case False
      then have "last (kv_free_slabs r) \<in> set (kv_free_slabs r)" by simp
      from fresh_alloc_ok [OF ok this, of seq t pref] slow False show ?thesis
        by (fastforce simp: kv_alloc_page_def Let_def res_simps)
    next
      case nofree: True
      show ?thesis
      proof (cases "kv_loose_free r = []")
        case False
        with loose_alloc_ok [OF ok False, of seq pref] slow nofree show ?thesis
          by (simp add: kv_alloc_page_def)
      next
        case True
        show ?thesis
        proof (cases "kv_find_in_run_pressure pps seq r")
          case None
          with slow nofree True show ?thesis by (simp add: kv_alloc_page_def)
        next
          case (Some p)
          note P = kv_find_in_run_pressure_SomeD [OF wf Some]
          from take [OF P(1)] P(2) slow nofree True Some show ?thesis
            by (fastforce simp: kv_alloc_page_def)
        qed
      qed
    qed
  qed
qed

text \<open>
  Allocation fails only when it must: either the headroom reservation refuses it, or no slab
  and no loose page is free and every slab of the sequence's own run is full.
\<close>

lemma kv_alloc_page_None:
  assumes ok: "region_ok pps r" and none: "kv_alloc_page pps seq t unres pref r = Inr (None, r')"
  shows "\<not> unres \<and> kv_free_pages r \<le> main_reserved r
    \<or> kv_free_slabs r = [] \<and> kv_loose_free r = []
      \<and> (\<forall>i \<in> set (run_ids r seq). used (kv_slabs r ! i) = pps)"
proof (rule disjCI)
  assume "\<not> (kv_free_slabs r = [] \<and> kv_loose_free r = []
    \<and> (\<forall>i \<in> set (run_ids r seq). used (kv_slabs r ! i) = pps))"
  moreover have "kv_find_in_run_pressure pps seq r = None \<Longrightarrow>
      \<forall>i \<in> set (run_ids r seq). used (kv_slabs r ! i) = pps"
    using kv_find_in_run_pressure_None ok by (auto simp: region_ok_def)
  ultimately show "\<not> unres \<and> kv_free_pages r \<le> main_reserved r"
    using none
    by (auto simp: kv_alloc_page_def Let_def res_simps split: if_splits option.splits)
qed

section \<open>Returning a page\<close>

lemma kv_pages_slab:
  assumes "region_wf pps r" and "p \<in> kv_pages pps r"
  shows "in_run r (p div pps)" and "claimed (kv_slabs r ! (p div pps))"
    and "p div pps < length (kv_slabs r)" and "0 < used (kv_slabs r ! (p div pps))"
    and "p mod pps \<in> slab_taken (kv_slabs r ! (p div pps))" and "p < initial_main_pages r"
proof -
  let ?s = "kv_slabs r ! (p div pps)"
  from assms show run: "in_run r (p div pps)" and off: "p mod pps \<in> slab_taken ?s"
    and "p < initial_main_pages r" by (simp_all add: kv_pages_def)
  from assms(1) have runs: "runs_wf r" by (simp add: region_wf_def)
  from in_runD [OF runs run] show cl: "claimed ?s" and len: "p div pps < length (kv_slabs r)" by simp_all
  show "0 < used ?s"
  proof (rule ccontr)
    assume "\<not> 0 < used ?s"
    with region_wf_slab [OF assms(1) len] cl
    have h: "length (holes ?s) = bump ?s" "distinct (holes ?s)" "set (holes ?s) \<subseteq> {..<bump ?s}"
      by (auto simp: slab_wf_def)
    then have "card (set (holes ?s)) = card {..<bump ?s}" by (simp add: distinct_card)
    then have "set (holes ?s) = {..<bump ?s}" using h(3) by (intro card_subset_eq) simp_all
    with off show False by (auto simp: slab_taken_def)
  qed
qed

definition return_page :: "nat \<Rightarrow> kv_slab \<Rightarrow> kv_slab" where
  "return_page off s = s\<lparr>used := used s - 1, holes := holes s @ [off]\<rparr>"

lemma return_page_wf:
  assumes "slab_wf pps s" and "claimed s" and "off \<in> slab_taken s" and "0 < used s"
  shows "slab_wf pps (return_page off s)"
    and "slab_taken (return_page off s) = slab_taken s - {off}"
  using assms by (auto simp: slab_wf_def return_page_def slab_taken_def)

lemma last_page_of_slab:
  assumes "slab_wf pps s" and "claimed s" and "used s = 1"
    and "off \<in> slab_taken s" and "off' \<in> slab_taken s"
  shows "off' = off"
proof -
  have "card (slab_taken s) = 1"
  proof -
    have "slab_taken s = {..<bump s} - set (holes s)" by (auto simp: slab_taken_def)
    moreover have "set (holes s) \<subseteq> {..<bump s}" "card (set (holes s)) = length (holes s)"
      "used s + length (holes s) = bump s"
      using assms(1,2) by (auto simp: slab_wf_def distinct_card)
    ultimately show ?thesis using assms(3) by (simp add: card_Diff_subset)
  qed
  with assms(4,5) show ?thesis by (metis card_1_singletonE singletonD)
qed

definition return_effect :: "nat \<Rightarrow> nat \<Rightarrow> 'a kv_region_scheme \<Rightarrow> 'a kv_region_scheme \<Rightarrow> bool" where
  "return_effect pps p r r' \<longleftrightarrow>
     side_slabs r' = side_slabs r \<and> kv_free_pages r' = kv_free_pages r + 1 \<and> same_frame r r'
     \<and> kv_pages pps r' = kv_pages pps r - {p}
     \<and> set (kv_loose_free r') =
         (if p < initial_main_pages r then set (kv_loose_free r) else insert p (set (kv_loose_free r)))"

lemma return_hole_ok:
  assumes ok: "region_ok pps r" and p: "p \<in> kv_pages pps r"
    and many: "1 < used (kv_slabs r ! (p div pps))"
  shows "\<exists>r'. kv_return_page pps p r = Inr r' \<and> region_ok pps r' \<and> return_effect pps p r r'"
proof -
  let ?sid = "p div pps" and ?off = "p mod pps"
  let ?s = "kv_slabs r ! ?sid"
  let ?s' = "return_page ?off ?s"
  let ?r' = "r\<lparr>kv_slabs := (kv_slabs r)[?sid := ?s'], kv_free_pages := kv_free_pages r + 1\<rparr>"
  from ok have wf: "region_wf pps r" by (simp add: region_ok_def)
  note P = kv_pages_slab [OF wf p]
  note S = return_page_wf [OF region_wf_slab [OF wf P(3)] P(2,5,4)]
  have eq: "kv_return_page pps p r = Inr ?r'"
    using P(2,6) many by (simp add: kv_return_page_def Let_def return_page_def)
  have "region_wf pps ?r'"
    using P(4) many
    by (intro region_wf_slab_update [OF wf P(1) S(1)])
       (simp_all add: return_page_def P(2) of_nat_diff Suc_le_eq)
  moreover have "no_idle_slab ?r'"
    using ok many
    by (auto simp: region_ok_def no_idle_slab_def nth_list_update_if return_page_def split: if_splits)
  moreover have "side_slabs ?r' = side_slabs r"
    by (rule side_slabs_slab_update) (simp_all add: return_page_def)
  moreover have "kv_pages pps ?r' = kv_pages pps r - {p}"
    using S(2) by (intro kv_pages_slab_delta [OF wf P(1,6)]) (simp_all add: return_page_def)
  ultimately show ?thesis
    using P(6) by (simp add: eq region_ok_def return_effect_def same_frame_def)
qed

lemma run_ids_drop:
  "run_ids (r\<lparr>kv_runs := drop_from_run sid s (kv_runs r)\<rparr>) t =
     (if t = s then removeAll sid (run_ids r t) else run_ids r t)"
  by (auto simp: run_ids_def drop_from_run_def Let_def split: option.splits)

lemma drop_from_run_nonempty:
  "runs t \<noteq> Some [] \<Longrightarrow> drop_from_run sid s runs t \<noteq> Some []"
  by (auto simp: drop_from_run_def Let_def split: option.splits)

lemma return_last_ok:
  assumes ok: "region_ok pps r" and p: "p \<in> kv_pages pps r"
    and one: "used (kv_slabs r ! (p div pps)) = 1"
  shows "\<exists>r'. kv_return_page pps p r = Inr r' \<and> region_ok pps r' \<and> return_effect pps p r r'"
proof -
  define sid where "sid = p div pps"
  define s where "s = kv_slabs r ! sid"
  define s' where "s' = s\<lparr>used := 0, holes := [], bump := 0, claimed := False,
    tok_lo := UINT32_MAX, tok_hi := 0, owner_seq := 0\<rparr>"
  define r' where "r' = r\<lparr>kv_slabs := (kv_slabs r)[sid := s'],
    kv_runs := drop_from_run sid (owner_seq s) (kv_runs r),
    kv_free_slabs := kv_free_slabs r @ [sid], kv_free_pages := kv_free_pages r + 1\<rparr>"
  from ok have wf: "region_wf pps r" by (simp add: region_ok_def)
  then have runs: "runs_wf r" and free: "free_wf r" by (simp_all add: region_wf_def)
  note P = kv_pages_slab [OF wf p, folded sid_def, folded s_def]
  have eq: "kv_return_page pps p r = Inr r'"
    using P(2,6) one by (simp add: kv_return_page_def Let_def r'_def s'_def s_def sid_def)
  have sl: "kv_slabs r' ! i = (if i = sid then s' else kv_slabs r ! i)" for i
    using P(3) by (simp add: r'_def)
  have len: "length (kv_slabs r') = length (kv_slabs r)" by (simp add: r'_def)
  have ids: "run_ids r' t = (if t = owner_seq s then removeAll sid (run_ids r t) else run_ids r t)" for t
    using run_ids_drop [of sid "owner_seq s" r t] by (simp add: r'_def run_ids_def)
  have run: "in_run r' i \<longleftrightarrow> i \<noteq> sid \<and> in_run r i" for i
    using run_idsD(3) [OF runs, of sid] by (auto simp: in_run_def sl ids s'_def s_def)
  have frame: "initial_main_pages r' = initial_main_pages r" "kv_loose_free r' = kv_loose_free r"
    "kv_free_pages r' = kv_free_pages r + 1" "kv_free_slabs r' = kv_free_slabs r @ [sid]"
    by (simp_all add: r'_def)
  have nofree: "sid \<notin> set (kv_free_slabs r)" using free P(2) by (simp add: free_wf_def s_def)
  have "slab_wf pps s'" by (simp add: s'_def slab_wf_def)
  then have "slabs_wf pps r'" and "loose_wf r'"
    using wf by (simp_all add: region_wf_def slabs_wf_def loose_wf_def sl len frame)
  moreover have "free_wf r'"
    using free nofree P(3) by (auto simp: free_wf_def frame len sl s'_def split: if_splits)
  moreover have "count_wf pps r'"
  proof -
    have "slab_room pps r' = slab_room pps r + 1"
      using P(3) one by (simp add: slab_room_def r'_def sum_list_map_update s'_def flip: sid_def)
    then show ?thesis using wf by (simp add: region_wf_def count_wf_def frame)
  qed
  moreover have "runs_wf r'"
    unfolding runs_wf_def
  proof (intro allI conjI)
    fix t
    show "kv_runs r' t \<noteq> Some []"
      using runs by (simp add: r'_def runs_wf_def drop_from_run_nonempty)
    show "distinct (run_ids r' t)"
      using runs by (simp add: ids runs_wf_def distinct_removeAll)
    show "\<forall>i\<in>set (run_ids r' t). i < length (kv_slabs r') \<and> claimed (kv_slabs r' ! i)
        \<and> owner_seq (kv_slabs r' ! i) = t"
      using run_idsD [OF runs, of _ t] by (auto simp: ids sl len s_def)
  qed
  moreover have "side_wf pps r'" and "no_idle_slab r'"
    using wf ok by (auto simp: region_wf_def side_wf_def region_ok_def no_idle_slab_def sl len run s'_def
        split: if_splits)
  moreover have "side_slabs r' = side_slabs r"
    using P(1) by (auto simp: side_slabs_def len sl run s'_def split: if_splits)
  moreover have "kv_pages pps r' = kv_pages pps r - {p}"
  proof -
    have "q = p" if "q \<in> kv_pages pps r" "q div pps = sid" for q
      using that last_page_of_slab [OF region_wf_slab [OF wf P(3)] _ _ P(5) [unfolded s_def]] P(2) one
      by (metis div_mult_mod_eq kv_pages_slab(5) [OF wf] s_def sid_def)
    then show ?thesis
      by (auto simp: kv_pages_def frame run sl sid_def split: if_splits)
  qed
  moreover have "same_frame r r'" by (simp add: r'_def same_frame_def)
  ultimately show ?thesis
    using P(6) by (simp add: eq region_ok_def region_wf_def return_effect_def frame)
qed

lemma return_loose_ok:
  assumes ok: "region_ok pps r" and p: "initial_main_pages r \<le> p" "p \<notin> set (kv_loose_free r)"
  shows "\<exists>r'. kv_return_page pps p r = Inr r' \<and> region_ok pps r' \<and> return_effect pps p r r'"
proof -
  define r' where "r' = r\<lparr>kv_loose_free := kv_loose_free r @ [p], kv_free_pages := kv_free_pages r + 1\<rparr>"
  have eq: "kv_return_page pps p r = Inr r'" using p by (simp add: kv_return_page_def r'_def)
  have [simp]: "in_run r' i = in_run r i" for i by (simp add: in_run_def r'_def run_ids_def)
  have [simp]: "slab_room pps r' = slab_room pps r" by (simp add: slab_room_def r'_def)
  have [simp]: "run_ids r' t = run_ids r t" for t by (simp add: r'_def run_ids_def)
  have "loose_wf r'" "count_wf pps r'"
    using ok p by (auto simp: region_ok_def region_wf_def loose_wf_def count_wf_def)
      (auto simp: r'_def)
  moreover have "slabs_wf pps r'" "free_wf r'" "runs_wf r'" "side_wf pps r'" "no_idle_slab r'"
    using ok
    by (simp_all add: region_ok_def region_wf_def slabs_wf_def free_wf_def runs_wf_def side_wf_def
        no_idle_slab_def) (simp_all add: r'_def)
  moreover have "return_effect pps p r r'"
    using p by (auto simp: return_effect_def side_slabs_def kv_pages_def)
      (auto simp: r'_def same_frame_def)
  ultimately show ?thesis by (simp add: eq region_ok_def region_wf_def)
qed

theorem kv_return_page_ok:
  assumes ok: "region_ok pps r"
    and p: "p \<in> kv_pages pps r \<or> initial_main_pages r \<le> p \<and> p \<notin> set (kv_loose_free r)"
  shows "\<exists>r'. kv_return_page pps p r = Inr r' \<and> region_ok pps r' \<and> return_effect pps p r r'"
proof (cases "p \<in> kv_pages pps r")
  case True
  have "0 < used (kv_slabs r ! (p div pps))"
    using ok True by (intro kv_pages_slab) (simp_all add: region_ok_def)
  then consider "used (kv_slabs r ! (p div pps)) = 1" | "1 < used (kv_slabs r ! (p div pps))"
    by linarith
  then show ?thesis
    using return_last_ok [OF ok True] return_hole_ok [OF ok True] by cases blast+
next
  case False
  with p return_loose_ok [OF ok] show ?thesis by blast
qed

section \<open>Side tenants\<close>

text \<open>
  A side tenant (an indexer page, a mapped KDA unit or an expert-zone grant) takes whole
  slabs. The two lemmas below describe the effect of any claim or release of a set of slabs,
  however the source moves the free-slab list around.
\<close>

lemma slab_room_shift:
  fixes r r' :: "'a kv_region_scheme"
  assumes len: "length (kv_slabs r') = length (kv_slabs r)" and S: "S \<subseteq> {..<length (kv_slabs r)}"
    and used: "\<And>i. i < length (kv_slabs r) \<Longrightarrow>
      int (used (kv_slabs r' ! i)) = int (used (kv_slabs r ! i)) + (if i \<in> S then d else 0)"
  shows "slab_room pps r' = slab_room pps r - int (card S) * d"
proof -
  let ?n = "length (kv_slabs r)"
  have room: "slab_room pps x = (\<Sum>i<?n. int pps - int (used (kv_slabs x ! i)))"
    if "length (kv_slabs x) = ?n" for x :: "'a kv_region_scheme"
    using that by (simp add: slab_room_def sum_list_sum_nth atLeast0LessThan)
  have "(\<Sum>i<?n. int pps - int (used (kv_slabs r' ! i)))
      = (\<Sum>i<?n. int pps - int (used (kv_slabs r ! i))) - (\<Sum>i<?n. if i \<in> S then d else 0)"
    by (simp add: used sum_subtractf [symmetric] algebra_simps)
  also have "(\<Sum>i<?n. if i \<in> S then d else 0) = int (card S) * d"
    using S by (simp add: sum.If_cases Int_absorb1)
  finally show ?thesis using room [of r] room [OF len] by simp
qed

definition side_claim_effect ::
    "nat \<Rightarrow> nat set \<Rightarrow> 'a kv_region_scheme \<Rightarrow> 'a kv_region_scheme \<Rightarrow> bool" where
  "side_claim_effect pps S r r' \<longleftrightarrow>
     side_slabs r' = side_slabs r \<union> S \<and> side_slabs r \<inter> S = {}
     \<and> kv_pages pps r' = kv_pages pps r \<and> kv_loose_free r' = kv_loose_free r
     \<and> kv_runs r' = kv_runs r \<and> same_frame r r'
     \<and> kv_free_pages r' = kv_free_pages r - int (card S) * int pps
     \<and> set (kv_free_slabs r') = set (kv_free_slabs r) - S"

lemma side_claim_ok:
  assumes ok: "region_ok pps r" and S: "S \<subseteq> set (kv_free_slabs r)"
    and fr: "same_frame r r'" "kv_loose_free r' = kv_loose_free r" "kv_runs r' = kv_runs r"
    and len: "length (kv_slabs r') = length (kv_slabs r)"
    and sl: "\<And>i. i < length (kv_slabs r) \<Longrightarrow> kv_slabs r' ! i =
      (if i \<in> S then side_stamp pps (kv_slabs r ! i) else kv_slabs r ! i)"
    and fs: "distinct (kv_free_slabs r')" "set (kv_free_slabs r') = set (kv_free_slabs r) - S"
    and n: "kv_free_pages r' = kv_free_pages r - int (card S) * int pps"
  shows "region_ok pps r' \<and> side_claim_effect pps S r r'"
proof -
  from ok have wf: "region_wf pps r" by (simp add: region_ok_def)
  then have free: "free_wf r" and runs: "runs_wf r" by (simp_all add: region_wf_def)
  have SD: "i < length (kv_slabs r)" "slab_pristine (kv_slabs r ! i)" if "i \<in> S" for i
    using that S free_slab_pristine [OF wf] by auto
  have ids: "run_ids r' t = run_ids r t" for t using fr(3) by (simp add: run_ids_def)
  have norun: "i \<notin> S" if "i \<in> set (run_ids r t)" for i t
    using that SD(2) run_idsD(2) [OF runs that] by (auto simp: slab_pristine_def)
  have run: "in_run r' i = in_run r i" if "i < length (kv_slabs r)" for i
    using that norun SD(2) run_idsD(2) [OF runs]
    by (auto simp: in_run_def ids sl side_stamp_def slab_pristine_def)
  have norun': "i \<notin> S" if "in_run r i" for i using that norun by (auto simp: in_run_def)
  have cl: "claimed (kv_slabs r' ! i) \<longleftrightarrow> i \<in> S \<or> claimed (kv_slabs r ! i)"
    if "i < length (kv_slabs r)" for i using that by (simp add: sl side_stamp_def)
  have "slab_wf pps (side_stamp pps (kv_slabs r ! i))" if "i \<in> S" for i
    using SD(2) [OF that] by (simp add: slab_wf_def side_stamp_def slab_pristine_def)
  then have "slabs_wf pps r'" and "loose_wf r'"
    using wf fr by (simp_all add: region_wf_def slabs_wf_def loose_wf_def sl len same_frame_def)
  moreover have "free_wf r'"
    unfolding free_wf_def fs(2) len using fs(1) free cl by (auto simp: free_wf_def)
  moreover have "count_wf pps r'"
  proof -
    have "slab_room pps r' = slab_room pps r - int (card S) * int pps"
      using SD by (intro slab_room_shift [OF len])
        (auto simp: sl side_stamp_def slab_pristine_def)
    then show ?thesis using wf n fr by (simp add: region_wf_def count_wf_def)
  qed
  moreover have "runs_wf r'"
    using runs norun by (auto simp: runs_wf_def ids len fr(3) sl)
  moreover have "side_wf pps r'" and "no_idle_slab r'"
    using ok region_wf_pps [OF wf]
    by (auto simp: region_ok_def region_wf_def side_wf_def no_idle_slab_def len sl run side_stamp_def
        split: if_splits)
  moreover have "side_slabs r' = side_slabs r \<union> S"
    using SD(1) norun' by (auto simp: side_slabs_def len cl run)
  moreover have "side_slabs r \<inter> S = {}"
    using SD by (auto simp: side_slabs_def slab_pristine_def)
  moreover have "kv_pages pps r' = kv_pages pps r"
  proof -
    have "in_run r' i \<and> off \<in> slab_taken (kv_slabs r' ! i) \<longleftrightarrow>
        in_run r i \<and> off \<in> slab_taken (kv_slabs r ! i)" if "i < length (kv_slabs r)" for i off
      using that norun' by (auto simp: run sl)
    then show ?thesis
      using fr page_slab_less [OF wf] by (auto simp: kv_pages_def same_frame_def)
  qed
  ultimately show ?thesis
    using fr fs n by (simp add: region_ok_def region_wf_def side_claim_effect_def)
qed

definition side_release_effect ::
    "nat \<Rightarrow> nat set \<Rightarrow> 'a kv_region_scheme \<Rightarrow> 'a kv_region_scheme \<Rightarrow> bool" where
  "side_release_effect pps S r r' \<longleftrightarrow>
     side_slabs r' = side_slabs r - S
     \<and> kv_pages pps r' = kv_pages pps r \<and> kv_loose_free r' = kv_loose_free r
     \<and> kv_runs r' = kv_runs r \<and> same_frame r r'
     \<and> kv_free_pages r' = kv_free_pages r + int (card S) * int pps
     \<and> set (kv_free_slabs r') = set (kv_free_slabs r) \<union> S"

lemma side_release_ok:
  assumes ok: "region_ok pps r" and S: "S \<subseteq> side_slabs r"
    and fr: "same_frame r r'" "kv_loose_free r' = kv_loose_free r" "kv_runs r' = kv_runs r"
    and len: "length (kv_slabs r') = length (kv_slabs r)"
    and sl: "\<And>i. i < length (kv_slabs r) \<Longrightarrow> kv_slabs r' ! i =
      (if i \<in> S then side_reset (kv_slabs r ! i) else kv_slabs r ! i)"
    and fs: "distinct (kv_free_slabs r')" "set (kv_free_slabs r') = set (kv_free_slabs r) \<union> S"
    and n: "kv_free_pages r' = kv_free_pages r + int (card S) * int pps"
  shows "region_ok pps r' \<and> side_release_effect pps S r r'"
proof -
  from ok have wf: "region_wf pps r" by (simp add: region_ok_def)
  then have free: "free_wf r" and runs: "runs_wf r" by (simp_all add: region_wf_def)
  have SD: "i < length (kv_slabs r)" "\<not> in_run r i" "used (kv_slabs r ! i) = pps" if "i \<in> S" for i
    using that S side_slab_full [OF wf] by (auto simp: side_slabs_def)
  have ids: "run_ids r' t = run_ids r t" for t using fr(3) by (simp add: run_ids_def)
  have norun: "i \<notin> S" if "i \<in> set (run_ids r t)" for i t
    using that SD(2) run_idsD(4) [OF runs that] by auto
  have run: "in_run r' i = in_run r i" if "i < length (kv_slabs r)" for i
    using that norun SD(2) by (auto simp: in_run_def ids sl side_reset_def)
  have norun': "i \<notin> S" if "in_run r i" for i using that norun by (auto simp: in_run_def)
  have cl: "claimed (kv_slabs r' ! i) \<longleftrightarrow> i \<notin> S \<and> claimed (kv_slabs r ! i)"
    if "i < length (kv_slabs r)" for i using that by (simp add: sl side_reset_def)
  have "slab_wf pps (side_reset s)" for s by (simp add: slab_wf_def side_reset_def)
  then have "slabs_wf pps r'" and "loose_wf r'"
    using wf fr by (simp_all add: region_wf_def slabs_wf_def loose_wf_def sl len same_frame_def)
  moreover have "free_wf r'"
    unfolding free_wf_def fs(2) len using fs(1) free cl SD(1) by (auto simp: free_wf_def)
  moreover have "count_wf pps r'"
  proof -
    have "slab_room pps r' = slab_room pps r - int (card S) * (- int pps)"
      using SD by (intro slab_room_shift [OF len]) (auto simp: sl side_reset_def)
    then show ?thesis using wf n fr by (simp add: region_wf_def count_wf_def)
  qed
  moreover have "runs_wf r'"
    using runs norun by (auto simp: runs_wf_def ids len fr(3) sl)
  moreover have "side_wf pps r'" and "no_idle_slab r'"
    using ok
    by (auto simp: region_ok_def region_wf_def side_wf_def no_idle_slab_def len sl run side_reset_def
        split: if_splits)
  moreover have "side_slabs r' = side_slabs r - S"
    by (auto simp: side_slabs_def len cl run)
  moreover have "kv_pages pps r' = kv_pages pps r"
  proof -
    have "in_run r' i \<and> off \<in> slab_taken (kv_slabs r' ! i) \<longleftrightarrow>
        in_run r i \<and> off \<in> slab_taken (kv_slabs r ! i)" if "i < length (kv_slabs r)" for i off
      using that norun' by (auto simp: run sl)
    then show ?thesis
      using fr page_slab_less [OF wf] by (auto simp: kv_pages_def same_frame_def)
  qed
  ultimately show ?thesis
    using fr fs n by (simp add: region_ok_def region_wf_def side_release_effect_def)
qed

subsection \<open>Single slabs\<close>

lemma kv_claim_side_slab_ok:
  assumes ok: "region_ok pps r"
  shows "\<exists>res r'. kv_claim_side_slab pps honor r = Inr (res, r')
    \<and> (case res of
         None \<Rightarrow> r' = r \<and> (kv_free_slabs r = [] \<or> honor \<and> kv_free_pages r - int pps < main_reserved r)
       | Some sid \<Rightarrow> sid \<in> set (kv_free_slabs r) \<and> region_ok pps r' \<and> side_claim_effect pps {sid} r r'
           \<and> (honor \<longrightarrow> main_reserved r' \<le> kv_free_pages r'))"
proof (cases "kv_free_slabs r = [] \<or> honor \<and> kv_free_pages r - int pps < main_reserved r")
  case True
  then show ?thesis by (auto simp: kv_claim_side_slab_def)
next
  case False
  let ?sid = "last (kv_free_slabs r)"
  let ?r' = "r\<lparr>kv_free_slabs := butlast (kv_free_slabs r),
    kv_slabs := (kv_slabs r)[?sid := side_stamp pps (kv_slabs r ! ?sid)],
    kv_free_pages := kv_free_pages r - int pps\<rparr>"
  have wf: "region_wf pps r" using ok by (simp add: region_ok_def)
  have mem: "?sid \<in> set (kv_free_slabs r)" using False by simp
  note sid = free_slab_pristine [OF wf mem]
  have d: "distinct (kv_free_slabs r)" using wf by (simp add: region_wf_def free_wf_def)
  have "region_ok pps ?r' \<and> side_claim_effect pps {?sid} r ?r'"
    using mem d False sid(1)
    by (intro side_claim_ok [OF ok])
       (auto simp: same_frame_def nth_list_update_if distinct_butlast set_butlast_distinct
          simp flip: in_set_conv_decomp)
  then show ?thesis using False sid mem by (auto simp: kv_claim_side_slab_def Let_def)
qed

lemma kv_claim_side_slab_at_ok:
  assumes ok: "region_ok pps r" and mem: "sid \<in> set (kv_free_slabs r)"
  shows "\<exists>r'. kv_claim_side_slab_at pps sid r = Inr r' \<and> region_ok pps r'
    \<and> side_claim_effect pps {sid} r r'"
proof -
  let ?r' = "r\<lparr>kv_free_slabs := remove1 sid (kv_free_slabs r),
    kv_slabs := (kv_slabs r)[sid := side_stamp pps (kv_slabs r ! sid)],
    kv_free_pages := kv_free_pages r - int pps\<rparr>"
  have wf: "region_wf pps r" using ok by (simp add: region_ok_def)
  note sid = free_slab_pristine [OF wf mem]
  have d: "distinct (kv_free_slabs r)" using wf by (simp add: region_wf_def free_wf_def)
  have "region_ok pps ?r' \<and> side_claim_effect pps {sid} r ?r'"
    using mem d sid(1)
    by (intro side_claim_ok [OF ok]) (auto simp: same_frame_def nth_list_update_if)
  then show ?thesis
    using sid mem by (auto simp: kv_claim_side_slab_at_def Let_def slab_pristine_def)
qed

lemma kv_release_side_slab_ok:
  assumes ok: "region_ok pps r" and sid: "sid \<in> side_slabs r"
  shows "\<exists>r'. kv_release_side_slab pps sid r = Inr r' \<and> region_ok pps r'
    \<and> side_release_effect pps {sid} r r'"
proof -
  let ?r' = "r\<lparr>kv_slabs := (kv_slabs r)[sid := side_reset (kv_slabs r ! sid)],
    kv_free_slabs := kv_free_slabs r @ [sid], kv_free_pages := kv_free_pages r + int pps\<rparr>"
  have wf: "region_wf pps r" using ok by (simp add: region_ok_def)
  have "distinct (kv_free_slabs r)" and "sid \<notin> set (kv_free_slabs r)"
    using wf sid by (auto simp: region_wf_def free_wf_def side_slabs_def)
  then have "region_ok pps ?r' \<and> side_release_effect pps {sid} r ?r'"
    using sid
    by (intro side_release_ok [OF ok]) (auto simp: same_frame_def nth_list_update_if)
  then show ?thesis
    using side_slab_full(1) [OF wf sid] sid
    by (auto simp: kv_release_side_slab_def Let_def side_slabs_def)
qed

subsection \<open>Runs of slabs\<close>

lemma rfold_slabs:
  assumes step: "\<And>i x. i < length (kv_slabs x) \<Longrightarrow> P (kv_slabs x ! i) \<Longrightarrow>
      f i x = Inr (x\<lparr>kv_slabs := (kv_slabs x)[i := g (kv_slabs x ! i)],
                    kv_free_pages := kv_free_pages x + d\<rparr>)"
    and "distinct sids" and "\<forall>i \<in> set sids. i < length (kv_slabs r) \<and> P (kv_slabs r ! i)"
  shows "\<exists>r'. rfold f sids r = Inr r' \<and> length (kv_slabs r') = length (kv_slabs r)
    \<and> (\<forall>i < length (kv_slabs r). kv_slabs r' ! i =
         (if i \<in> set sids then g (kv_slabs r ! i) else kv_slabs r ! i))
    \<and> kv_free_pages r' = kv_free_pages r + int (length sids) * d
    \<and> kv_free_slabs r' = kv_free_slabs r \<and> kv_loose_free r' = kv_loose_free r
    \<and> kv_runs r' = kv_runs r \<and> same_frame r r'"
  using assms(2,3)
proof (induction sids arbitrary: r)
  case Nil
  then show ?case by simp
next
  case (Cons i sids)
  let ?r1 = "r\<lparr>kv_slabs := (kv_slabs r)[i := g (kv_slabs r ! i)], kv_free_pages := kv_free_pages r + d\<rparr>"
  have "f i r = Inr ?r1" using Cons.prems by (intro step) simp_all
  moreover have "distinct sids" and "\<forall>j \<in> set sids. j < length (kv_slabs ?r1) \<and> P (kv_slabs ?r1 ! j)"
    using Cons.prems by (auto simp: nth_list_update_if)
  from Cons.IH [OF this] obtain r' where
    "rfold f sids ?r1 = Inr r'" "length (kv_slabs r') = length (kv_slabs r)"
    "\<forall>j < length (kv_slabs r). kv_slabs r' ! j =
       (if j \<in> set sids then g (kv_slabs ?r1 ! j) else kv_slabs ?r1 ! j)"
    "kv_free_pages r' = kv_free_pages r + d + int (length sids) * d"
    "kv_free_slabs r' = kv_free_slabs r" "kv_loose_free r' = kv_loose_free r"
    "kv_runs r' = kv_runs r" "same_frame ?r1 r'"
    by auto
  ultimately show ?case
    using Cons.prems by (auto simp: same_frame_def nth_list_update_if algebra_simps)
qed

lemma claim_side_slabs_ok:
  assumes ok: "region_ok pps r" and sids: "distinct sids" "set sids \<subseteq> set (kv_free_slabs r)"
  shows "\<exists>r'. claim_side_slabs pps sids r = Inr r' \<and> region_ok pps r'
    \<and> side_claim_effect pps (set sids) r r'"
proof -
  have wf: "region_wf pps r" using ok by (simp add: region_ok_def)
  have mem: "\<forall>i \<in> set sids. i < length (kv_slabs r) \<and> slab_pristine (kv_slabs r ! i)"
    using sids(2) free_slab_pristine [OF wf] by blast
  obtain r1 where r1: "rfold (stamp_side_slab pps) sids r = Inr r1"
    "length (kv_slabs r1) = length (kv_slabs r)"
    "\<forall>i < length (kv_slabs r). kv_slabs r1 ! i =
       (if i \<in> set sids then side_stamp pps (kv_slabs r ! i) else kv_slabs r ! i)"
    "kv_free_pages r1 = kv_free_pages r + int (length sids) * (- int pps)"
    "kv_free_slabs r1 = kv_free_slabs r" "kv_loose_free r1 = kv_loose_free r"
    "kv_runs r1 = kv_runs r" "same_frame r r1"
    using rfold_slabs [where P = slab_pristine and f = "stamp_side_slab pps" and g = "side_stamp pps"
          and d = "- int pps", OF _ sids(1) mem]
    by (auto simp: stamp_side_slab_def)
  let ?r' = "sweep_free_slabs r1"
  have free: "distinct (kv_free_slabs r)"
    "set (kv_free_slabs r) = {i. i < length (kv_slabs r) \<and> \<not> claimed (kv_slabs r ! i)}"
    using wf by (simp_all add: region_wf_def free_wf_def)
  have keep: "set (kv_free_slabs ?r') = set (kv_free_slabs r) - set sids"
    using r1(3,5) free(2) by (auto simp: sweep_free_slabs_def slab_claimed_def side_stamp_def)
  have "region_ok pps ?r' \<and> side_claim_effect pps (set sids) r ?r'"
    using r1 sids free(1) keep
    by (intro side_claim_ok [OF ok])
       (auto simp: sweep_free_slabs_def same_frame_def distinct_card)
  then show ?thesis using r1(1) by (simp add: claim_side_slabs_def)
qed

lemma release_side_slabs_ok:
  assumes ok: "region_ok pps r" and sids: "distinct sids" "set sids \<subseteq> side_slabs r"
  shows "\<exists>r'. release_side_slabs pps sids r = Inr r' \<and> region_ok pps r'
    \<and> side_release_effect pps (set sids) r r'"
proof -
  have wf: "region_wf pps r" using ok by (simp add: region_ok_def)
  have mem: "\<forall>i \<in> set sids. i < length (kv_slabs r) \<and> claimed (kv_slabs r ! i) \<and> used (kv_slabs r ! i) = pps"
    using sids(2) side_slab_full(1) [OF wf] by (auto simp: side_slabs_def)
  obtain r1 where r1: "rfold (reset_side_slab pps) sids r = Inr r1"
    "length (kv_slabs r1) = length (kv_slabs r)"
    "\<forall>i < length (kv_slabs r). kv_slabs r1 ! i =
       (if i \<in> set sids then side_reset (kv_slabs r ! i) else kv_slabs r ! i)"
    "kv_free_pages r1 = kv_free_pages r + int (length sids) * int pps"
    "kv_free_slabs r1 = kv_free_slabs r" "kv_loose_free r1 = kv_loose_free r"
    "kv_runs r1 = kv_runs r" "same_frame r r1"
    using rfold_slabs [where P = "\<lambda>s. claimed s \<and> used s = pps" and f = "reset_side_slab pps"
          and g = side_reset and d = "int pps", OF _ sids(1) mem]
    by (auto simp: reset_side_slab_def)
  let ?r' = "r1\<lparr>kv_free_slabs := sids @ kv_free_slabs r1\<rparr>"
  have free: "distinct (kv_free_slabs r)" "set sids \<inter> set (kv_free_slabs r) = {}"
    using wf sids(2) by (auto simp: region_wf_def free_wf_def side_slabs_def)
  have "region_ok pps ?r' \<and> side_release_effect pps (set sids) r ?r'"
    using r1 sids free
    by (intro side_release_ok [OF ok]) (auto simp: same_frame_def distinct_card)
  then show ?thesis using r1(1) by (simp add: release_side_slabs_def)
qed

section \<open>The slab region as a page source\<close>

text \<open>
  A page counts as held when it is a live page of a run, or a page outside the slabbed range
  (a promoted speculation page) that is not in the loose list.
\<close>

definition region_count :: "nat \<Rightarrow> 'a kv_region_scheme \<Rightarrow> nat \<Rightarrow> nat" where
  "region_count pps r p =
     (if p \<in> kv_pages pps r \<or> initial_main_pages r \<le> p \<and> p \<notin> set (kv_loose_free r) then 1 else 0)"

definition region_take ::
    "nat \<Rightarrow> u64 \<times> u32 \<times> bool \<times> nat option \<Rightarrow> 'a kv_region_scheme
       \<Rightarrow> (nat option \<times> 'a kv_region_scheme) res" where
  "region_take pps k r =
     (case k of (seq, t, unres, pref) \<Rightarrow> kv_alloc_page pps seq t unres pref r)"

lemma kv_pages_less: "p \<in> kv_pages pps r \<Longrightarrow> p < initial_main_pages r"
  by (simp add: kv_pages_def)

lemma alloc_effect_count:
  assumes "alloc_effect pps seq pref p r r'"
  shows "region_count pps r p = 0" "region_count pps r' = (region_count pps r)(p := 1)"
  using assms kv_pages_less [of _ pps r]
  by (auto simp: alloc_effect_def same_frame_def region_count_def fun_eq_iff split: if_splits)

lemma return_effect_count:
  assumes "return_effect pps p r r'" "0 < region_count pps r p"
  shows "region_count pps r' = (region_count pps r)(p := region_count pps r p - 1)"
  using assms kv_pages_less [of _ pps r]
  by (auto simp: return_effect_def same_frame_def region_count_def fun_eq_iff split: if_splits)

interpretation region_source:
  page_source "region_ok pps" "region_count pps" "region_take pps" "kv_return_page pps" for pps
proof
  fix r :: "'a kv_region_scheme" and k :: "u64 \<times> u32 \<times> bool \<times> nat option"
  assume ok: "region_ok pps r"
  obtain seq t unres pref where k: "k = (seq, t, unres, pref)" by (cases k)
  obtain res r' where "kv_alloc_page pps seq t unres pref r = Inr (res, r')"
    "case res of None \<Rightarrow> r' = r | Some p \<Rightarrow> region_ok pps r' \<and> alloc_effect pps seq pref p r r'"
    using kv_alloc_page_ok [OF ok] by blast
  with ok show "\<exists>res r'. region_take pps k r = Inr (res, r') \<and> region_ok pps r'
      \<and> (case res of None \<Rightarrow> region_count pps r' = region_count pps r
         | Some p \<Rightarrow> region_count pps r p = 0 \<and> region_count pps r' = (region_count pps r)(p := 1))"
    by (cases res) (auto simp: region_take_def k dest: alloc_effect_count)
next
  fix r :: "'a kv_region_scheme" and p
  assume ok: "region_ok pps r" and p: "0 < region_count pps r p"
  then obtain r' where "kv_return_page pps p r = Inr r'" "region_ok pps r'" "return_effect pps p r r'"
    using kv_return_page_ok [OF ok, of p] by (auto simp: region_count_def split: if_splits)
  with return_effect_count [OF _ p] show "\<exists>r'. kv_return_page pps p r = Inr r' \<and> region_ok pps r'
      \<and> region_count pps r' = (region_count pps r)(p := region_count pps r p - 1)" by blast
qed

end
