(* ===== verification/Slab_Runs.thy ===== *)
theory Slab_Runs
  imports Kv_Slabs
begin

text \<open>
  The top-down scans for runs of consecutive unclaimed slabs: the single run of
  \<^verbatim>\<open>claim_expert_zone\<close>, the several runs of \<^verbatim>\<open>allocate_kda_state\<close> and the longest run of
  \<^verbatim>\<open>largest_free_run\<close>. The scans are sound (every slab of a run they return is unclaimed),
  complete (they fail only when there is no such run) and return the topmost run.
\<close>

definition free_run :: "(nat \<Rightarrow> bool) \<Rightarrow> nat \<Rightarrow> nat \<Rightarrow> bool" where
  "free_run cl st n \<longleftrightarrow> (\<forall>i. st \<le> i \<and> i < st + n \<longrightarrow> \<not> cl i)"

lemma free_run_Suc: "\<not> cl N \<Longrightarrow> free_run cl (Suc N) run \<Longrightarrow> free_run cl N (Suc run)"
  unfolding free_run_def by (metis Suc_leI add_Suc_shift le_neq_implies_less)

lemma free_run_0 [simp]: "free_run cl N 0"
  by (auto simp: free_run_def)

lemma free_run_mono: "free_run cl st n \<Longrightarrow> m \<le> n \<Longrightarrow> free_run cl st m"
  by (simp add: free_run_def)

lemma claimed_breaks_run: "cl i \<Longrightarrow> st \<le> i \<Longrightarrow> i < st + n \<Longrightarrow> \<not> free_run cl st n"
  by (auto simp: free_run_def)

section \<open>One run\<close>

lemma top_run_Some:
  assumes "top_run cl n N run = Some st" and "run < n" and "free_run cl N run"
  shows "st + n \<le> N + run \<and> free_run cl st n"
  using assms
proof (induction N arbitrary: run)
  case 0
  then show ?case by simp
next
  case (Suc N)
  show ?case
  proof (cases "cl N")
    case True
    with Suc.prems Suc.IH [of 0] show ?thesis by simp
  next
    case False
    with Suc.prems have run: "free_run cl N (Suc run)" by (simp add: free_run_Suc)
    show ?thesis
    proof (cases "Suc run = n")
      case True
      with Suc.prems False run show ?thesis by simp
    next
      case neq: False
      with Suc.prems False Suc.IH [of "Suc run"] run show ?thesis by simp
    qed
  qed
qed

lemma top_run_None:
  assumes "top_run cl n N run = None" and "run < n" and "st + n \<le> N + run"
  shows "\<not> free_run cl st n"
  using assms
proof (induction N arbitrary: run)
  case 0
  then show ?case by simp
next
  case (Suc N)
  show ?case
  proof (cases "cl N")
    case True
    with Suc.prems have "top_run cl n N 0 = None" by simp
    moreover have "st + n \<le> N \<or> st \<le> N \<and> N < st + n" using Suc.prems by linarith
    ultimately show ?thesis
      using Suc.IH [of 0] Suc.prems True claimed_breaks_run [of cl N st n] by auto
  next
    case False
    with Suc.prems show ?thesis
      using Suc.IH [of "Suc run"] by (simp split: if_splits)
  qed
qed

lemma top_run_topmost:
  assumes "top_run cl n N run = Some st" and "run < n" and "st < st'" and "st' + n \<le> N + run"
  shows "\<not> free_run cl st' n"
  using assms
proof (induction N arbitrary: run)
  case 0
  then show ?case by simp
next
  case (Suc N)
  show ?case
  proof (cases "cl N")
    case True
    with Suc.prems have "top_run cl n N 0 = Some st" by simp
    moreover have "st' + n \<le> N \<or> st' \<le> N \<and> N < st' + n" using Suc.prems by linarith
    ultimately show ?thesis
      using Suc.IH [of 0] Suc.prems True claimed_breaks_run [of cl N st' n] by auto
  next
    case False
    with Suc.prems show ?thesis
      using Suc.IH [of "Suc run"] by (auto split: if_splits)
  qed
qed

section \<open>Several runs\<close>

definition run_slabs_of :: "nat \<Rightarrow> nat list \<Rightarrow> nat list" where
  "run_slabs_of n starts = concat (map (\<lambda>s. [s..<s + n]) starts)"

lemma run_slabs_of_simps [simp]:
  "run_slabs_of n [] = []"
  "run_slabs_of n (s # ss) = [s..<s + n] @ run_slabs_of n ss"
  by (simp_all add: run_slabs_of_def)

lemma top_runs_ok:
  assumes "run < n" and "free_run cl N run"
  shows "\<exists>new. top_runs cl n units N run starts = starts @ new
    \<and> distinct (run_slabs_of n new) \<and> (\<forall>i \<in> set (run_slabs_of n new). i < N + run \<and> \<not> cl i)
    \<and> (length starts \<le> units \<longrightarrow> length starts + length new \<le> units)"
  using assms
proof (induction N arbitrary: run starts)
  case 0
  then show ?case by simp
next
  case (Suc N)
  consider (enough) "units \<le> length starts" | (claimed) "length starts < units" "cl N"
    | (last) "length starts < units" "\<not> cl N" "Suc run = n"
    | (more) "length starts < units" "\<not> cl N" "Suc run \<noteq> n"
    by linarith
  then show ?case
  proof cases
    case enough
    then show ?thesis by simp
  next
    case claimed
    with Suc.prems Suc.IH [of 0 starts] show ?thesis by fastforce
  next
    case last
    have run: "free_run cl N n" using last Suc.prems free_run_Suc by blast
    have "0 < n" using last by simp
    from Suc.IH [OF this free_run_0, of "starts @ [N]"] obtain new where
      new: "top_runs cl n units N 0 (starts @ [N]) = (starts @ [N]) @ new"
        "distinct (run_slabs_of n new)" "\<forall>i \<in> set (run_slabs_of n new). i < N \<and> \<not> cl i"
        "length starts < units \<longrightarrow> Suc (length starts + length new) \<le> units" by auto
    have "distinct (run_slabs_of n (N # new))" using new(2,3) by fastforce
    moreover have "\<forall>i \<in> set (run_slabs_of n (N # new)). i < Suc N + run \<and> \<not> cl i"
      using new(3) run last(3) by (fastforce simp: free_run_def)
    ultimately show ?thesis
      using last new(1,4) by (intro exI [of _ "N # new"]) simp
  next
    case more
    from more Suc.prems have "free_run cl N (Suc run)" by (simp add: free_run_Suc)
    moreover have "Suc run < n" using more Suc.prems by simp
    ultimately show ?thesis using more Suc.IH [of "Suc run" starts] by simp
  qed
qed

lemma top_runs_starts:
  assumes "0 < n"
  shows "distinct (run_slabs_of n (top_runs cl n units N 0 []))"
    and "\<forall>i \<in> set (run_slabs_of n (top_runs cl n units N 0 [])). i < N \<and> \<not> cl i"
    and "length (top_runs cl n units N 0 []) \<le> units"
  using top_runs_ok [OF assms free_run_0, of cl units N "[]"] by auto

text \<open>
  The scan is optimal: it finds as many runs as any choice of disjoint free runs has, up to the
  number asked for.
\<close>

definition disjoint_runs :: "(nat \<Rightarrow> bool) \<Rightarrow> nat \<Rightarrow> nat \<Rightarrow> nat set \<Rightarrow> bool" where
  "disjoint_runs cl N n A \<longleftrightarrow>
     finite A \<and> (\<forall>s \<in> A. s + n \<le> N \<and> free_run cl s n) \<and> (\<forall>s \<in> A. \<forall>t \<in> A. s < t \<longrightarrow> s + n \<le> t)"

lemma disjoint_runs_subset: "disjoint_runs cl N n A \<Longrightarrow> B \<subseteq> A \<Longrightarrow> \<forall>s \<in> B. s + n \<le> M \<Longrightarrow> disjoint_runs cl M n B"
  unfolding disjoint_runs_def by (meson finite_subset subsetD)

lemma disjoint_runs_cross:
  assumes "disjoint_runs cl M n A" "0 < n"
  shows "card {s \<in> A. s \<le> N \<and> N < s + n} \<le> 1"
proof -
  have "s = t" if "s \<in> A" "t \<in> A" "s \<le> N" "N < s + n" "t \<le> N" "N < t + n" for s t
    using assms(1) that unfolding disjoint_runs_def by (meson leD le_trans linorder_neqE_nat)
  moreover have "finite {s \<in> A. s \<le> N \<and> N < s + n}" using assms(1) by (simp add: disjoint_runs_def)
  ultimately show ?thesis using card_le_Suc0_iff_eq [of "{s \<in> A. s \<le> N \<and> N < s + n}"] by simp
qed

lemma top_runs_max:
  assumes "0 < n" "run < n" "disjoint_runs cl (N + run) n A"
  shows "min units (length starts + card A) \<le> length (top_runs cl n units N run starts)"
  using assms(2,3)
proof (induction N arbitrary: run starts A)
  case 0
  have "A = {}"
  proof (rule ccontr)
    assume "A \<noteq> {}"
    then obtain s where "s \<in> A" by blast
    then have "s + n \<le> 0 + run" using 0(2) unfolding disjoint_runs_def by blast
    with 0(1) show False by simp
  qed
  then show ?case by simp
next
  case (Suc N)
  have A: "finite A" "\<And>s. s \<in> A \<Longrightarrow> s + n \<le> Suc N + run" "\<And>s. s \<in> A \<Longrightarrow> free_run cl s n"
    using Suc.prems(2) by (auto simp: disjoint_runs_def)
  show ?case
  proof (cases "units \<le> length starts")
    case False
    show ?thesis
    proof (cases "cl N")
      case True
      have "s + n \<le> N" if "s \<in> A" for s
        using A(2,3) [OF that] claimed_breaks_run [of cl N s n] True Suc.prems(1) by linarith
      then have "disjoint_runs cl (N + 0) n A" using disjoint_runs_subset [OF Suc.prems(2), of A N] by simp
      with Suc.IH [OF assms(1), of A starts] True False show ?thesis by simp
    next
      case free: False
      show ?thesis
      proof (cases "Suc run = n")
        case False
        then have "Suc run < n" using Suc.prems(1) by simp
        from Suc.IH [OF this, of A starts] Suc.prems(2) free False \<open>\<not> units \<le> length starts\<close> show ?thesis by simp
      next
        case True
        let ?X = "{s \<in> A. s \<le> N \<and> N < s + n}" and ?B = "{s \<in> A. s + n \<le> N}"
        have "A = ?X \<union> ?B" using A(2) True by fastforce
        then have "card A \<le> card ?X + card ?B" using card_Un_le [of ?X ?B] by simp
        then have k: "card A \<le> Suc (card ?B)" using disjoint_runs_cross [OF Suc.prems(2) assms(1), of N] by linarith
        have "disjoint_runs cl (N + 0) n ?B" by (rule disjoint_runs_subset [OF Suc.prems(2)]) auto
        from Suc.IH [OF assms(1) this, of "starts @ [N]"] k free True \<open>\<not> units \<le> length starts\<close> show ?thesis
          by (auto simp: min_def split: if_splits)
      qed
    qed
  qed (simp add: min.coboundedI1)
qed

lemma run_slabs_of_disjoint:
  assumes "distinct (run_slabs_of n sts)" "0 < n"
  shows "distinct sts" "s \<in> set sts \<Longrightarrow> t \<in> set sts \<Longrightarrow> s < t \<Longrightarrow> s + n \<le> t"
proof -
  have mem: "x \<in> set xs \<Longrightarrow> {x..<x + n} \<subseteq> set (run_slabs_of n xs)" for x xs by (induction xs) auto
  have "distinct sts \<and> (\<forall>s \<in> set sts. \<forall>t \<in> set sts. s < t \<longrightarrow> s + n \<le> t)"
    using assms(1)
  proof (induction sts)
    case (Cons x xs)
    have d: "{x..<x + n} \<inter> set (run_slabs_of n xs) = {}" using Cons.prems by (auto simp: disjoint_iff)
    have far: "x + n \<le> y \<or> y + n \<le> x" if "y \<in> set xs" for y
    proof (rule ccontr)
      assume "\<not> (x + n \<le> y \<or> y + n \<le> x)"
      then have "max x y \<in> {x..<x + n}" "max x y \<in> {y..<y + n}" by auto
      with d mem [OF that] show False by blast
    qed
    then have "x \<notin> set xs" using assms(2) by fastforce
    moreover have "distinct xs \<and> (\<forall>s \<in> set xs. \<forall>t \<in> set xs. s < t \<longrightarrow> s + n \<le> t)" using Cons by simp
    ultimately show ?case using far by fastforce
  qed simp
  then show "distinct sts" "s \<in> set sts \<Longrightarrow> t \<in> set sts \<Longrightarrow> s < t \<Longrightarrow> s + n \<le> t" by auto
qed

lemma top_runs_iff:
  assumes "0 < n"
  shows "units \<le> length (top_runs cl n units N 0 []) \<longleftrightarrow> (\<exists>A. disjoint_runs cl N n A \<and> card A = units)"
proof
  assume "\<exists>A. disjoint_runs cl N n A \<and> card A = units"
  then obtain A where "disjoint_runs cl N n A" "card A = units" by blast
  then show "units \<le> length (top_runs cl n units N 0 [])"
    using top_runs_max [OF assms assms, of cl N A units "[]"] by simp
next
  let ?sts = "top_runs cl n units N 0 []"
  assume u: "units \<le> length ?sts"
  note S = top_runs_starts [OF assms, of cl units N]
  note D = run_slabs_of_disjoint [OF S(1) assms]
  have mem: "x \<in> set xs \<Longrightarrow> {x..<x + n} \<subseteq> set (run_slabs_of n xs)" for x xs by (induction xs) auto
  have fr: "\<forall>i \<in> {s..<s + n}. i < N \<and> \<not> cl i" if "s \<in> set ?sts" for s using mem [OF that] S(2) by blast
  have "s + n \<le> N \<and> free_run cl s n" if "s \<in> set ?sts" for s
  proof -
    have "s + n - 1 \<in> {s..<s + n}" using assms by auto
    then have "s + n - 1 < N" using fr [OF that] by blast
    then have "s + n \<le> N" using assms by linarith
    then show ?thesis using fr [OF that] by (simp add: free_run_def)
  qed
  then have "disjoint_runs cl N n (set ?sts)" using D by (auto simp: disjoint_runs_def)
  moreover have "card (set ?sts) = units" using u S(3) D(1) by (simp add: distinct_card)
  ultimately show "\<exists>A. disjoint_runs cl N n A \<and> card A = units" by blast
qed

section \<open>The longest run\<close>

lemma longest_run_attained:
  assumes "free_run cl N run"
  shows "longest_run cl N run best = best
    \<or> (\<exists>st. st + longest_run cl N run best \<le> N + run \<and> free_run cl st (longest_run cl N run best))"
  using assms
proof (induction N arbitrary: run best)
  case 0
  then show ?case by simp
next
  case (Suc N)
  show ?case
  proof (cases "cl N")
    case True
    with Suc.IH [of 0 best] show ?thesis by (auto intro: le_trans)
  next
    case False
    with Suc.prems have run: "free_run cl N (Suc run)" by (simp add: free_run_Suc)
    let ?L = "longest_run cl N (Suc run) (max best (Suc run))"
    consider "?L = best" | "?L = Suc run"
      | "\<exists>st. st + ?L \<le> N + Suc run \<and> free_run cl st ?L"
      using Suc.IH [OF run, of "max best (Suc run)"] by (auto simp: max_def split: if_splits)
    then show ?thesis
      using False run by cases (auto intro: exI [of _ N])
  qed
qed

lemma longest_run_ge: "best \<le> longest_run cl N run best"
proof (induction N arbitrary: run best)
  case (Suc N)
  show ?case
    using Suc [of best 0] Suc [of "max best (Suc run)" "Suc run"] by simp
qed simp

lemma longest_run_max:
  assumes "st + m \<le> N + run" and "free_run cl st m" and "run \<le> best"
  shows "m \<le> longest_run cl N run best"
  using assms
proof (induction N arbitrary: run best)
  case 0
  then show ?case by simp
next
  case (Suc N)
  show ?case
  proof (cases "cl N")
    case True
    then have "st + m \<le> N \<or> N < st \<or> m = 0"
      using Suc.prems(2) claimed_breaks_run [of cl N st m] by linarith
    moreover have "m \<le> best" if "N < st" using that Suc.prems by linarith
    ultimately show ?thesis
      using True Suc.IH [of 0 best] Suc.prems(2) longest_run_ge [of best cl N 0] by auto
  next
    case False
    then show ?thesis
      using Suc.IH [of "Suc run" "max best (Suc run)"] Suc.prems by simp
  qed
qed

end
