(* ===== verification/Page_Pool_Inv.thy ===== *)
theory Page_Pool_Inv
  imports Page_Pool Kv_Slabs_Inv Slab_Runs
begin

text \<open>
  The invariant of one GPU's \<^verbatim>\<open>GpuPool\<close> and its preservation by every single-GPU operation:
  the free structures hold exactly the pages whose reference count is zero, and the whole slabs
  lent to side tenants (indexer pages, KDA state runs, expert-zone grants) are disjoint and
  account for every claimed slab that no sequence run owns.
\<close>

section \<open>The invariant\<close>

definition live :: "gpu_pool \<Rightarrow> nat \<Rightarrow> bool" where
  "live g p \<longleftrightarrow> refcount (pages g ! p) \<noteq> 0"

definition side_live :: "side_pool \<Rightarrow> nat \<Rightarrow> bool" where
  "side_live sp i \<longleftrightarrow> i < length (sp_pages sp) \<and> refcount (sp_pages sp ! i) \<noteq> 0"

text \<open>The pages that the structures behind the main pool hold back as not handed out.\<close>

definition main_idle :: "nat \<Rightarrow> gpu_pool \<Rightarrow> nat set" where
  "main_idle pps g =
     (if kv_slabbed pps g
      then {p. p < initial_main_pages g \<and> p \<notin> kv_pages pps g} \<union> set (kv_loose_free g)
      else set (main_free g))"

definition main_ok :: "nat \<Rightarrow> gpu_pool \<Rightarrow> bool" where
  "main_ok pps g \<longleftrightarrow>
     (if kv_slabbed pps g then region_ok pps g \<and> main_free g = []
      else distinct (main_free g) \<and> kv_slabs g = [] \<and> kv_free_slabs g = [])"

definition pages_ok :: "nat \<Rightarrow> gpu_pool \<Rightarrow> bool" where
  "pages_ok pps g \<longleftrightarrow>
     length (pages g) = total g \<and> total g = initial_main_pages g + initial_spec_pages g
     \<and> distinct (spec_free g) \<and> (\<forall>p \<in> set (spec_free g). initial_main_pages g \<le> p)
     \<and> main_idle pps g \<inter> set (spec_free g) = {}
     \<and> main_idle pps g \<union> set (spec_free g) = {p. p < total g \<and> \<not> live g p}
     \<and> (\<forall>p < total g. live g p \<longrightarrow>
          pool_tag (pages g ! p) = KMain
          \<or> pool_tag (pages g ! p) = KSpeculation \<and> initial_main_pages g \<le> p)"

definition side_pool_ok :: "nat \<Rightarrow> side_pool \<Rightarrow> bool" where
  "side_pool_ok slabs sp \<longleftrightarrow>
     length (sp_pages sp) = sp_total sp
     \<and> (if elastic sp then sp_free sp = [] \<and> sp_total sp = slabs \<and> 0 < run_slabs sp
        else distinct (sp_free sp) \<and> set (sp_free sp) = {i. i < sp_total sp \<and> \<not> side_live sp i})"

definition sides_ok :: "gpu_pool \<Rightarrow> bool" where
  "sides_ok g \<longleftrightarrow>
     (\<forall>p sp. side_pool_of g p = Some sp \<longrightarrow>
        side_pool_ok (length (kv_slabs g)) sp
        \<and> (p = KHca \<or> p = KSwa \<longrightarrow> \<not> elastic sp)
        \<and> (p = KIndexerK \<and> elastic sp \<longrightarrow> run_slabs sp = 1))"

text \<open>The tenants of whole slabs: who holds the run, where it starts, how long it is.\<close>

datatype tenant = PageTenant pool | ZoneTenant

type_synonym slab_lease = "tenant \<times> nat \<times> nat"

definition lease_slabs :: "slab_lease \<Rightarrow> nat set" where
  "lease_slabs l = (case l of (t, st, n) \<Rightarrow> {st..<st + n})"

definition leases :: "gpu_pool \<Rightarrow> slab_lease set" where
  "leases g =
     {(PageTenant p, i, run_slabs sp) | p sp i.
        side_pool_of g p = Some sp \<and> elastic sp \<and> side_live sp i}
     \<union> {(ZoneTenant, st, n) | st n. expert_zone_runs g st = Some n}"

definition leases_ok :: "gpu_pool \<Rightarrow> bool" where
  "leases_ok g \<longleftrightarrow>
     (\<forall>l \<in> leases g. \<forall>l' \<in> leases g. l \<noteq> l' \<longrightarrow> lease_slabs l \<inter> lease_slabs l' = {})
     \<and> (\<forall>l \<in> leases g. lease_slabs l \<noteq> {})
     \<and> (\<Union>l \<in> leases g. lease_slabs l) = side_slabs g"

definition grants_ok :: "gpu_pool \<Rightarrow> bool" where
  "grants_ok g \<longleftrightarrow>
     finite (dom (expert_zone_runs g))
     \<and> granted_slabs (ez_stats g) = (\<Sum>st \<in> dom (expert_zone_runs g). int (the (expert_zone_runs g st)))"

definition reserve_ok :: "gpu_pool \<Rightarrow> bool" where
  "reserve_ok g \<longleftrightarrow> 0 \<le> main_reserved g \<and> 0 \<le> spec_reserved g"

definition gpu_ok :: "nat \<Rightarrow> gpu_pool \<Rightarrow> bool" where
  "gpu_ok pps g \<longleftrightarrow>
     main_ok pps g \<and> pages_ok pps g \<and> sides_ok g \<and> leases_ok g \<and> grants_ok g \<and> reserve_ok g"

section \<open>Frames\<close>

text \<open>An operation on the slab region leaves every other field of the GPU alone.\<close>

lemma same_frame_gpu:
  fixes g g' :: gpu_pool
  assumes "same_frame g g'"
  shows "base g' = base g" "spec_base g' = spec_base g" "bytes_per_page g' = bytes_per_page g"
    "initial_spec_pages g' = initial_spec_pages g" "total g' = total g"
    "main_free g' = main_free g" "spec_free g' = spec_free g" "pages g' = pages g"
    "spec_reserved g' = spec_reserved g" "indexer_k g' = indexer_k g" "hca g' = hca g"
    "swa g' = swa g" "kda_state g' = kda_state g" "kda_stats g' = kda_stats g"
    "expert_zone_runs g' = expert_zone_runs g" "ez_stats g' = ez_stats g"
    "initial_main_pages g' = initial_main_pages g" "main_reserved g' = main_reserved g"
  using assms by (cases g; cases g'; simp add: same_frame_def)+

lemma same_frame_side:
  "same_frame g g' \<Longrightarrow> side_pool_of g' p = side_pool_of g p"
  using same_frame_gpu [of g g'] by (simp add: side_pool_of_def split: pool.splits)

lemma same_frame_leases: "same_frame g g' \<Longrightarrow> leases g' = leases g"
  using same_frame_gpu [of g g'] same_frame_side [of g g'] by (simp add: leases_def)

lemma same_frame_live: "same_frame g g' \<Longrightarrow> live g' = live g"
  using same_frame_gpu(8) [of g g'] by (simp add: live_def fun_eq_iff)

text \<open>Conversely, the region invariant does not see the page metadata or the side pools.\<close>

lemma region_cong:
  fixes g g' :: "'a kv_region_scheme"
  assumes "initial_main_pages g' = initial_main_pages g" "kv_slabs g' = kv_slabs g"
    "kv_free_slabs g' = kv_free_slabs g" "kv_loose_free g' = kv_loose_free g"
    "kv_free_pages g' = kv_free_pages g" "kv_runs g' = kv_runs g"
  shows "region_ok pps g' = region_ok pps g" "kv_pages pps g' = kv_pages pps g"
    "side_slabs g' = side_slabs g"
  using assms
  by (simp_all add: region_ok_def region_defs no_idle_slab_def kv_pages_def side_slabs_def
      in_run_def run_ids_def slab_room_def)

lemma upd_page_simps [simp]:
  "kv_slabs (upd_page i f g) = kv_slabs g" "kv_free_slabs (upd_page i f g) = kv_free_slabs g"
  "kv_loose_free (upd_page i f g) = kv_loose_free g" "kv_free_pages (upd_page i f g) = kv_free_pages g"
  "kv_runs (upd_page i f g) = kv_runs g" "initial_main_pages (upd_page i f g) = initial_main_pages g"
  "main_reserved (upd_page i f g) = main_reserved g"
  "main_free (upd_page i f g) = main_free g" "spec_free (upd_page i f g) = spec_free g"
  "total (upd_page i f g) = total g" "initial_spec_pages (upd_page i f g) = initial_spec_pages g"
  "pages (upd_page i f g) = (pages g)[i := f (pages g ! i)]"
  "indexer_k (upd_page i f g) = indexer_k g" "hca (upd_page i f g) = hca g"
  "swa (upd_page i f g) = swa g" "kda_state (upd_page i f g) = kda_state g"
  "kda_stats (upd_page i f g) = kda_stats g"
  "expert_zone_runs (upd_page i f g) = expert_zone_runs g" "ez_stats (upd_page i f g) = ez_stats g"
  "base (upd_page i f g) = base g" "spec_base (upd_page i f g) = spec_base g"
  "bytes_per_page (upd_page i f g) = bytes_per_page g"
  "spec_reserved (upd_page i f g) = spec_reserved g"
  by (simp_all add: upd_page_def)

lemma upd_page_region [simp]:
  "region_ok pps (upd_page i f g) = region_ok pps g"
  "kv_pages pps (upd_page i f g) = kv_pages pps g" "side_slabs (upd_page i f g) = side_slabs g"
  "kv_slabbed pps (upd_page i f g) = kv_slabbed pps g"
  "side_pool_of (upd_page i f g) p = side_pool_of g p"
  "main_idle pps (upd_page i f g) = main_idle pps g" "main_ok pps (upd_page i f g) = main_ok pps g"
proof -
  note R = region_cong [of "upd_page i f g" g]
  show "region_ok pps (upd_page i f g) = region_ok pps g" "side_slabs (upd_page i f g) = side_slabs g"
    and k: "kv_pages pps (upd_page i f g) = kv_pages pps g"
    by (rule R; simp)+
  show s: "kv_slabbed pps (upd_page i f g) = kv_slabbed pps g"
    by (simp add: kv_slabbed_def)
  show "side_pool_of (upd_page i f g) p = side_pool_of g p"
    by (simp add: side_pool_of_def split: pool.splits)
  show "main_idle pps (upd_page i f g) = main_idle pps g"
    by (simp add: main_idle_def s k)
  show "main_ok pps (upd_page i f g) = main_ok pps g"
    using R(1) by (simp add: main_ok_def s)
qed

section \<open>Changing one page of the main and speculation pools\<close>

definition page_frame :: "gpu_pool \<Rightarrow> gpu_pool \<Rightarrow> bool" where
  "page_frame g g' \<longleftrightarrow>
     total g' = total g \<and> initial_main_pages g' = initial_main_pages g
     \<and> initial_spec_pages g' = initial_spec_pages g \<and> side_pool_of g' = side_pool_of g
     \<and> expert_zone_runs g' = expert_zone_runs g \<and> ez_stats g' = ez_stats g
     \<and> length (kv_slabs g') = length (kv_slabs g) \<and> side_slabs g' = side_slabs g
     \<and> main_reserved g' = main_reserved g \<and> spec_reserved g' = spec_reserved g
     \<and> base g' = base g \<and> spec_base g' = spec_base g \<and> bytes_per_page g' = bytes_per_page g"

lemma page_frame_refl [simp]: "page_frame g g"
  by (simp add: page_frame_def)

lemma page_frame_trans: "page_frame g g1 \<Longrightarrow> page_frame g1 g2 \<Longrightarrow> page_frame g g2"
  by (simp add: page_frame_def)

lemma page_frame_upd [simp]:
  "page_frame g (upd_page i f g1) = page_frame g g1" "page_frame (upd_page i f g) g1 = page_frame g g1"
  by (simp_all add: page_frame_def fun_eq_iff)

lemma page_frame_slabbed: "page_frame g g' \<Longrightarrow> kv_slabbed pps g' = kv_slabbed pps g"
  by (auto simp: page_frame_def kv_slabbed_def)

lemma page_frame_ptr: "page_frame g g' \<Longrightarrow> page_ptr g' = page_ptr g"
  by (auto simp: page_frame_def page_ptr_def fun_eq_iff)

lemma page_frame_rest:
  assumes "page_frame g g'"
  shows "sides_ok g' = sides_ok g" "leases_ok g' = leases_ok g" "grants_ok g' = grants_ok g"
    "reserve_ok g' = reserve_ok g" "leases g' = leases g"
proof -
  show l: "leases g' = leases g" using assms by (simp add: page_frame_def leases_def)
  show "sides_ok g' = sides_ok g" "leases_ok g' = leases_ok g" "grants_ok g' = grants_ok g"
    "reserve_ok g' = reserve_ok g"
    using assms
    by (simp_all add: page_frame_def sides_ok_def leases_ok_def l grants_ok_def reserve_ok_def)
qed

lemma region_step_frame:
  fixes g g' :: gpu_pool
  assumes "region_ok pps g" "region_ok pps g'" "same_frame g g'" "side_slabs g' = side_slabs g"
  shows "page_frame g g'"
proof -
  have "length (kv_slabs g') * pps = length (kv_slabs g) * pps" "0 < pps"
    using assms(1,2) same_frame_gpu(17) [OF assms(3)]
    by (simp_all add: region_ok_def region_wf_def slabs_wf_def)
  then show ?thesis
    using assms(4) same_frame_gpu [OF assms(3)] same_frame_side [OF assms(3)]
    by (simp add: page_frame_def fun_eq_iff)
qed

text \<open>
  The one preservation lemma for pages: a page changes between handed out and held back, in step
  with its metadata, and nothing else moves.
\<close>

lemma page_step_ok:
  assumes ok: "gpu_ok pps g" and fr: "page_frame g g'" and main: "main_ok pps g'"
    and pg: "pages g' = (pages g)[p := m]" "p < total g"
    and sp: "distinct (spec_free g')" "\<forall>q \<in> set (spec_free g'). initial_main_pages g \<le> q"
    and disj: "main_idle pps g' \<inter> set (spec_free g') = {}"
    and un: "main_idle pps g' \<union> set (spec_free g') =
      (if refcount m = 0 then insert p (main_idle pps g \<union> set (spec_free g))
       else main_idle pps g \<union> set (spec_free g) - {p})"
    and tag: "refcount m \<noteq> 0 \<Longrightarrow>
      pool_tag m = KMain \<or> pool_tag m = KSpeculation \<and> initial_main_pages g \<le> p"
  shows "gpu_ok pps g'"
proof -
  have P: "pages_ok pps g" using ok by (simp add: gpu_ok_def)
  have len: "length (pages g) = total g" using P by (simp add: pages_ok_def)
  have lv: "live g' q \<longleftrightarrow> (if q = p then refcount m \<noteq> 0 else live g q)" if "q < total g" for q
    using that pg len by (simp add: live_def nth_list_update_if)
  have "main_idle pps g \<union> set (spec_free g) = {q. q < total g \<and> \<not> live g q}"
    using P by (simp add: pages_ok_def)
  then have "main_idle pps g' \<union> set (spec_free g') =
      (if refcount m = 0 then insert p {q. q < total g \<and> \<not> live g q}
       else {q. q < total g \<and> \<not> live g q} - {p})"
    using un by simp
  also have "\<dots> = {q. q < total g \<and> \<not> live g' q}"
  proof (rule set_eqI)
    fix q
    show "q \<in> (if refcount m = 0 then insert p {q. q < total g \<and> \<not> live g q}
        else {q. q < total g \<and> \<not> live g q} - {p}) \<longleftrightarrow> q \<in> {q. q < total g \<and> \<not> live g' q}"
      using pg(2) lv [of q] by (cases "q < total g") auto
  qed
  finally have "main_idle pps g' \<union> set (spec_free g') = {q. q < total g \<and> \<not> live g' q}" .
  moreover have "\<forall>q < total g. live g' q \<longrightarrow>
      pool_tag (pages g' ! q) = KMain \<or> pool_tag (pages g' ! q) = KSpeculation \<and> initial_main_pages g \<le> q"
  proof (intro allI impI)
    fix q assume q: "q < total g" "live g' q"
    show "pool_tag (pages g' ! q) = KMain
        \<or> pool_tag (pages g' ! q) = KSpeculation \<and> initial_main_pages g \<le> q"
    proof (cases "q = p")
      case True
      with q lv [OF q(1)] tag pg len show ?thesis by simp
    next
      case False
      with q lv [OF q(1)] have "live g q" by simp
      with False q(1) P pg(1) show ?thesis by (simp add: pages_ok_def)
    qed
  qed
  ultimately have "pages_ok pps g'"
    using P fr sp disj pg by (simp add: pages_ok_def page_frame_def)
  then show ?thesis
    using ok main page_frame_rest [OF fr] by (simp add: gpu_ok_def)
qed

lemma live_upd: "p < total g \<Longrightarrow> length (pages g) = total g \<Longrightarrow>
  live (upd_page q f g) p = (if p = q then refcount (f (pages g ! q)) \<noteq> 0 else live g p)"
  by (simp add: live_def nth_list_update_if)

text \<open>What each operation shows of the pages: the set of live pages.\<close>

definition live_pages :: "gpu_pool \<Rightarrow> nat set" where
  "live_pages g = {p. p < total g \<and> live g p}"

lemma idle_not_live:
  assumes "gpu_ok pps g"
  shows "main_idle pps g \<union> set (spec_free g) = {..<total g} - live_pages g"
  using assms by (auto simp: gpu_ok_def pages_ok_def live_pages_def)

lemma live_pages_upd:
  assumes "gpu_ok pps g" "p < total g" "pages g' = (pages g)[p := m]" "total g' = total g"
  shows "live_pages g' = (if refcount m = 0 then live_pages g - {p} else insert p (live_pages g))"
proof -
  have "length (pages g) = total g" using assms(1) by (simp add: gpu_ok_def pages_ok_def)
  then show ?thesis using assms(2-4) by (auto simp: live_pages_def live_def nth_list_update_if split: if_splits)
qed

section \<open>Taking and returning a page of the slabbed main pool\<close>

lemma main_idle_alloc:
  fixes g g' :: gpu_pool
  assumes eff: "alloc_effect pps seq pref p g g'" and ok: "region_ok pps g" "region_ok pps g'"
    and s: "kv_slabbed pps g"
  shows "page_frame g g'" "p \<in> main_idle pps g" "main_idle pps g' = main_idle pps g - {p}"
proof -
  from eff have sf: "same_frame g g'" and ss: "side_slabs g' = side_slabs g"
    by (simp_all add: alloc_effect_def)
  show fr: "page_frame g g'" by (rule region_step_frame [OF ok sf ss])
  have s': "kv_slabbed pps g'" using page_frame_slabbed [OF fr] s by simp
  have loose: "q \<in> set (kv_loose_free x) \<Longrightarrow> initial_main_pages x \<le> q"
    if "region_ok pps x" for x :: gpu_pool and q
    using that by (simp add: region_ok_def region_wf_def loose_wf_def)
  have im: "initial_main_pages g' = initial_main_pages g" by (rule same_frame_gpu(17) [OF sf])
  show "p \<in> main_idle pps g" "main_idle pps g' = main_idle pps g - {p}"
    using eff s s' loose [OF ok(1), of p] im
    by (auto simp: alloc_effect_def main_idle_def split: if_splits dest!: loose [OF ok(1)])
qed

lemma main_idle_return:
  fixes g g' :: gpu_pool
  assumes eff: "return_effect pps p g g'" and ok: "region_ok pps g" "region_ok pps g'"
    and s: "kv_slabbed pps g" and p: "p \<in> kv_pages pps g \<or> initial_main_pages g \<le> p"
  shows "page_frame g g'" "main_idle pps g' = insert p (main_idle pps g)"
proof -
  from eff have sf: "same_frame g g'" and ss: "side_slabs g' = side_slabs g"
    by (simp_all add: return_effect_def)
  show fr: "page_frame g g'" by (rule region_step_frame [OF ok sf ss])
  have s': "kv_slabbed pps g'" using page_frame_slabbed [OF fr] s by simp
  have im: "initial_main_pages g' = initial_main_pages g" by (rule same_frame_gpu(17) [OF sf])
  show "main_idle pps g' = insert p (main_idle pps g)"
    using eff s s' p im kv_pages_less [of p pps g]
    by (auto simp: return_effect_def main_idle_def split: if_splits)
qed

section \<open>Allocation from the main and speculation pools\<close>

text \<open>
  A page is handed out: it was idle, its metadata becomes \<open>m\<close> with a non-zero count, the
  invariant holds again and no other page, side pool or grant changes.
\<close>

definition page_claimed :: "nat \<Rightarrow> nat \<Rightarrow> page_meta \<Rightarrow> gpu_pool \<Rightarrow> gpu_pool \<Rightarrow> bool" where
  "page_claimed pps p m g g' \<longleftrightarrow>
     gpu_ok pps g' \<and> page_frame g g' \<and> p < total g \<and> \<not> live g p
     \<and> pages g' = (pages g)[p := m] \<and> refcount m = 1"

lemma page_claimed_live:
  assumes "gpu_ok pps g" "page_claimed pps p m g g'"
  shows "p \<notin> live_pages g" "live_pages g' = insert p (live_pages g)"
proof -
  show "p \<notin> live_pages g" using assms(2) by (simp add: page_claimed_def live_pages_def)
  show "live_pages g' = insert p (live_pages g)"
    using assms live_pages_upd [OF assms(1), of p g' m] by (simp add: page_claimed_def page_frame_def)
qed

lemma gpu_okD:
  assumes "gpu_ok pps g"
  shows "kv_slabbed pps g \<Longrightarrow> region_ok pps g" "kv_slabbed pps g \<Longrightarrow> main_free g = []"
    "\<not> kv_slabbed pps g \<Longrightarrow> distinct (main_free g)" "\<not> kv_slabbed pps g \<Longrightarrow> kv_slabs g = []"
    "length (pages g) = total g" "distinct (spec_free g)"
    "q \<in> set (spec_free g) \<Longrightarrow> initial_main_pages g \<le> q"
    "main_idle pps g \<inter> set (spec_free g) = {}" "p \<in> main_idle pps g \<Longrightarrow> p < total g \<and> \<not> live g p"
    "q \<in> set (spec_free g) \<Longrightarrow> q < total g \<and> \<not> live g q"
    "\<not> kv_slabbed pps g \<Longrightarrow> main_idle pps g = set (main_free g)"
    "0 \<le> main_reserved g" "0 \<le> spec_reserved g" "\<not> kv_slabbed pps g \<Longrightarrow> kv_free_slabs g = []"
  using assms
  by (auto simp: gpu_ok_def main_ok_def pages_ok_def main_idle_def reserve_ok_def split: if_splits)

lemma slabbed_claim_ok:
  assumes ok: "gpu_ok pps g" and s: "kv_slabbed pps g"
    and g1: "region_ok pps g1" "alloc_effect pps seq pref p g g1"
    and f: "\<And>m. refcount (f m) = 1" "\<And>m. pool_tag (f m) = KMain"
  shows "page_claimed pps p (f (pages g ! p)) g (upd_page p f g1)"
proof -
  note D = gpu_okD [OF ok]
  note E = main_idle_alloc [OF g1(2) D(1) [OF s] g1(1) s]
  have sf: "same_frame g g1" using g1(2) by (simp add: alloc_effect_def)
  note F = same_frame_gpu [OF sf]
  have "main_ok pps g1" using g1(1) s D(2) F page_frame_slabbed [OF E(1)] by (simp add: main_ok_def)
  then have "gpu_ok pps (upd_page p f g1)"
    using D(6,7,8,9) E F f
    by (intro page_step_ok [OF ok, where p = p and m = "f (pages g ! p)"]) auto
  then show ?thesis using D(9) [OF E(2)] E(1) F f by (simp add: page_claimed_def)
qed

lemma slabbed_alloc_ok:
  assumes ok: "gpu_ok pps g" and s: "kv_slabbed pps g"
    and f: "\<And>m. refcount (f m) = 1" "\<And>m. pool_tag (f m) = KMain"
  shows "\<exists>res g1. kv_alloc_page pps seq t unres pref g = Inr (res, g1)
    \<and> (case res of None \<Rightarrow> g1 = g
       | Some p \<Rightarrow> page_claimed pps p (f (pages g ! p)) g (upd_page p f g1)
                   \<and> page_ptr g1 = page_ptr g
                   \<and> (p < initial_main_pages g \<longrightarrow>
                        p div pps \<in> set (run_ids g1 seq) \<or> pref = Some (p div pps)))"
proof -
  obtain res g1 where r: "kv_alloc_page pps seq t unres pref g = Inr (res, g1)"
    and c: "case res of None \<Rightarrow> g1 = g
      | Some p \<Rightarrow> region_ok pps g1 \<and> alloc_effect pps seq pref p g g1"
    using kv_alloc_page_ok [OF gpu_okD(1) [OF ok s]] by blast
  show ?thesis
  proof (cases res)
    case None
    with r c show ?thesis by simp
  next
    case (Some p)
    with c have e: "region_ok pps g1" "alloc_effect pps seq pref p g g1" by simp_all
    from main_idle_alloc(1) [OF e(2) gpu_okD(1) [OF ok s] e(1) s]
    have "page_ptr g1 = page_ptr g" by (rule page_frame_ptr)
    with r Some slabbed_claim_ok [OF ok s e f] e(2) show ?thesis
      by (auto simp: alloc_effect_def split: if_splits)
  qed
qed

lemma put_free_list_frame:
  "page_frame g (put_free_list p xs g)" "pages (put_free_list p xs g) = pages g"
  "spec_free (put_free_list p xs g) = (if p = KMain then spec_free g else xs)"
  "main_free (put_free_list p xs g) = (if p = KMain then xs else main_free g)"
  "total (put_free_list p xs g) = total g"
  "kv_slabbed pps (put_free_list p xs g) = kv_slabbed pps g"
  "region_ok pps (put_free_list p xs g) = region_ok pps g"
  "kv_slabs (put_free_list p xs g) = kv_slabs g"
  "kv_free_slabs (put_free_list p xs g) = kv_free_slabs g"
  "main_idle pps (put_free_list p xs g) =
     (if p = KMain \<and> \<not> kv_slabbed pps g then set xs else main_idle pps g)"
proof -
  have side: "side_slabs (put_free_list p xs g) = side_slabs g"
    and kv: "kv_pages pps (put_free_list p xs g) = kv_pages pps g"
    and reg: "region_ok pps (put_free_list p xs g) = region_ok pps g"
    by (rule region_cong; simp add: put_free_list_def)+
  show "page_frame g (put_free_list p xs g)"
    by (simp add: page_frame_def side) (simp add: put_free_list_def side_pool_of_def fun_eq_iff split: pool.splits)
  show sl: "kv_slabbed pps (put_free_list p xs g) = kv_slabbed pps g"
    by (simp add: put_free_list_def kv_slabbed_def)
  show "region_ok pps (put_free_list p xs g) = region_ok pps g" by (rule reg)
  show "main_idle pps (put_free_list p xs g) =
     (if p = KMain \<and> \<not> kv_slabbed pps g then set xs else main_idle pps g)"
    by (simp add: main_idle_def sl kv) (simp add: put_free_list_def)
qed (simp_all add: put_free_list_def)

lemma side_pool_of_None: "side_pool_of g p = None \<longleftrightarrow> p = KMain \<or> p = KSpeculation"
  by (cases p) (simp_all add: side_pool_of_def)

text \<open>Popping the stack of a page pool: the legacy main pool and the speculation pool.\<close>

lemma stack_claim_ok:
  assumes ok: "gpu_ok pps g" and p: "p = KSpeculation \<or> p = KMain \<and> \<not> kv_slabbed pps g"
    and q: "q \<in> set (free_list g p)"
    and xs: "distinct xs" "set xs = set (free_list g p) - {q}"
    and f: "\<And>m. refcount (f m) = 1" "\<And>m. pool_tag (f m) = p"
  shows "page_claimed pps q (f (pages g ! q)) g (upd_page q f (put_free_list p xs g))"
proof -
  note D = gpu_okD [OF ok] and F = put_free_list_frame [where g = g and p = p and xs = xs]
  have main: "main_ok pps (put_free_list p xs g)"
    using p D(1-4,14) xs by (auto simp: main_ok_def F)
  have q': "q < total g" "\<not> live g q"
    using q p D(9) [of q] D(10) [of q] D(11) by (auto simp: free_list_def split: if_splits)
  have "gpu_ok pps (upd_page q f (put_free_list p xs g))"
    using main p q q' D xs f F(1)
    by (intro page_step_ok [OF ok, where p = q and m = "f (pages g ! q)"])
       (auto simp: F free_list_def split: if_splits)
  then show ?thesis using q' f by (simp add: page_claimed_def F)
qed

text \<open>
  The outcome of an allocation request to a page pool: nothing changes, or one idle page is
  handed out with the metadata \<open>f\<close> makes and a handle that points at it.
\<close>

definition alloc_result ::
    "nat \<Rightarrow> nat \<Rightarrow> pool \<Rightarrow> (page_meta \<Rightarrow> page_meta) \<Rightarrow> gpu_pool \<Rightarrow> page_handle option \<Rightarrow> gpu_pool \<Rightarrow> bool" where
  "alloc_result pps gi p f g h g' \<longleftrightarrow>
     (case h of None \<Rightarrow> g' = g
      | Some h' \<Rightarrow> \<exists>q. h' = mk_handle gi q (page_ptr g q) p
                    \<and> page_claimed pps q (f (pages g ! q)) g g')"

lemma alloc_result_None [simp]: "alloc_result pps gi p f g None g' \<longleftrightarrow> g' = g"
  by (simp add: alloc_result_def)

lemma alloc_result_Some [intro]:
  "page_claimed pps q (f (pages g ! q)) g g' \<Longrightarrow>
   alloc_result pps gi p f g (Some (mk_handle gi q (page_ptr g q) p)) g'"
  by (auto simp: alloc_result_def)

lemma allocate_from_pool_ok:
  assumes ok: "gpu_ok pps g" and p: "p = KSpeculation \<or> p = KMain \<and> \<not> kv_slabbed pps g"
    and n: "0 \<le> n"
  shows "\<exists>h g'. allocate_from_pool gi p n g = (h, g') \<and> alloc_result pps gi p (claim_meta p) g h g'
    \<and> (h = None \<longleftrightarrow> int (length (free_list g p)) \<le> n)"
proof (cases "int (length (free_list g p)) \<le> n")
  case True
  then show ?thesis by (simp add: allocate_from_pool_def)
next
  case False
  with n have ne: "free_list g p \<noteq> []" by auto
  have d: "distinct (free_list g p)" using p gpu_okD(3,6) [OF ok] by (auto simp: free_list_def)
  let ?xs = "butlast (free_list g p)" and ?q = "last (free_list g p)"
  have "page_claimed pps ?q (claim_meta p (pages g ! ?q)) g
      (upd_page ?q (claim_meta p) (put_free_list p ?xs g))"
    using ne d set_butlast_distinct [OF d ne]
    by (intro stack_claim_ok [OF ok p]) (simp_all add: claim_meta_def distinct_butlast)
  then have "alloc_result pps gi p (claim_meta p) g (Some (mk_handle gi ?q (page_ptr g ?q) p))
      (upd_page ?q (claim_meta p) (put_free_list p ?xs g))" ..
  with False show ?thesis by (simp add: allocate_from_pool_def Let_def)
qed

lemma allocate_anonymous_ok:
  assumes "gpu_ok pps g" "kv_slabbed pps g"
  shows "\<exists>h g'. allocate_anonymous pps gi unres g = Inr (h, g')
    \<and> alloc_result pps gi KMain (claim_meta KMain) g h g'"
proof -
  obtain res g1 where "kv_alloc_page pps kAnonymousRunSeq 0 unres None g = Inr (res, g1)"
    "case res of None \<Rightarrow> g1 = g
       | Some p \<Rightarrow> page_claimed pps p (claim_meta KMain (pages g ! p)) g (upd_page p (claim_meta KMain) g1)
                   \<and> page_ptr g1 = page_ptr g"
    using slabbed_alloc_ok [OF assms, where f = "claim_meta KMain" and seq = kAnonymousRunSeq and t = 0
        and unres = unres and pref = None]
    by (fastforce simp: claim_meta_def split: option.splits)
  then show ?thesis by (cases res) (auto simp: allocate_anonymous_def alloc_result_def)
qed

lemma gpu_allocate_ok:
  assumes ok: "gpu_ok pps g" and p: "p = KMain \<or> p = KSpeculation"
  shows "\<exists>h g'. gpu_allocate pps gi p g = Inr (h, g') \<and> alloc_result pps gi p (claim_meta p) g h g'"
proof (cases "p = KMain \<and> kv_slabbed pps g")
  case True
  with allocate_anonymous_ok [OF ok, of gi False] show ?thesis
    by (simp add: gpu_allocate_def side_pool_of_None)
next
  case False
  define n where "n = (if p = KMain then main_reserved g else spec_reserved g)"
  have "0 \<le> n" using gpu_okD(12,13) [OF ok] by (simp add: n_def)
  then obtain h g' where "allocate_from_pool gi p n g = (h, g')"
    "alloc_result pps gi p (claim_meta p) g h g'"
    using allocate_from_pool_ok [OF ok, of p n gi] False p by auto
  with False p show ?thesis
    by (auto simp: gpu_allocate_def side_pool_of_None n_def split: if_splits)
qed

lemma gpu_allocate_unreserved_ok:
  assumes ok: "gpu_ok pps g" and p: "p = KMain \<or> p = KSpeculation"
  shows "\<exists>h g'. gpu_allocate_unreserved pps gi p g = Inr (h, g')
    \<and> alloc_result pps gi p (claim_meta p) g h g'"
proof (cases "p = KMain \<and> kv_slabbed pps g")
  case True
  with allocate_anonymous_ok [OF ok, of gi True] show ?thesis
    by (simp add: gpu_allocate_unreserved_def side_pool_of_None)
next
  case False
  then obtain h g' where "allocate_from_pool gi p 0 g = (h, g')"
    "alloc_result pps gi p (claim_meta p) g h g'"
    using allocate_from_pool_ok [OF ok, of p 0 gi] p by auto
  with False p show ?thesis
    by (auto simp: gpu_allocate_unreserved_def side_pool_of_None split: if_splits)
qed

lemma upd_page_twice: "upd_page i f (upd_page i h g) = upd_page i (\<lambda>m. f (h m)) g"
  by (cases "i < length (pages g)") (simp_all add: upd_page_def list_update_beyond)

lemma clear_meta_refcount:
  "clear_meta (m\<lparr>refcount := n\<rparr>) = (clear_meta m)\<lparr>refcount := n\<rparr>"
  by (cases m) (simp add: clear_meta_def)

text \<open>Changing the metadata of a live page keeps the invariant as long as the page stays live.\<close>

lemma relabel_ok:
  assumes ok: "gpu_ok pps g" and p: "p < total g" "live g p"
    and f: "refcount (f (pages g ! p)) \<noteq> 0"
      "pool_tag (f (pages g ! p)) = pool_tag (pages g ! p)
       \<or> pool_tag (f (pages g ! p)) = KMain"
  shows "gpu_ok pps (upd_page p f g)"
proof -
  note D = gpu_okD [OF ok]
  have "pool_tag (pages g ! p) = KMain \<or> pool_tag (pages g ! p) = KSpeculation \<and> initial_main_pages g \<le> p"
    using ok p by (auto simp: gpu_ok_def pages_ok_def)
  moreover have "p \<notin> main_idle pps g \<union> set (spec_free g)" using p D(9,10) by blast
  ultimately show ?thesis
    using D(6,7,8) f p ok
    by (intro page_step_ok [OF ok, where p = p and m = "f (pages g ! p)"]) (auto simp: gpu_ok_def)
qed

lemma page_claimed_relabel:
  assumes "page_claimed pps p m g g1" and len: "length (pages g) = total g"
    and f: "refcount (f m) = 1" "pool_tag (f m) = pool_tag m"
  shows "page_claimed pps p (f m) g (upd_page p f g1)"
proof -
  have g1: "gpu_ok pps g1" "page_frame g g1" "p < total g" "pages g1 = (pages g)[p := m]"
    "refcount m = 1"
    using assms(1) by (simp_all add: page_claimed_def)
  then have m: "pages g1 ! p = m" "p < total g1" using len by (simp_all add: page_frame_def)
  have "gpu_ok pps (upd_page p f g1)"
    using m g1(5) f by (intro relabel_ok [OF g1(1)]) (simp_all add: live_def)
  with assms m show ?thesis by (simp add: page_claimed_def)
qed

lemma alloc_result_relabel:
  assumes ok: "gpu_ok pps g" and r: "alloc_result pps gi p (claim_meta p) g (Some h) g1"
  shows "alloc_result pps gi p (\<lambda>m. label_meta s l t t' (claim_meta p m)) g (Some h)
    (upd_page (nat (page_idx h)) (label_meta s l t t') g1)"
proof -
  from r obtain q where h: "h = mk_handle gi q (page_ptr g q) p"
    and c: "page_claimed pps q (claim_meta p (pages g ! q)) g g1"
    by (auto simp: alloc_result_def)
  have "page_claimed pps q (label_meta s l t t' (claim_meta p (pages g ! q))) g
      (upd_page q (label_meta s l t t') g1)"
    by (rule page_claimed_relabel [OF c gpu_okD(5) [OF ok]]) (simp_all add: label_meta_def claim_meta_def)
  with h show ?thesis by (auto simp: alloc_result_def mk_handle_def)
qed

lemma gpu_allocate_for_sequence_ok:
  assumes ok: "gpu_ok pps g" and p: "p = KMain \<or> p = KSpeculation"
  shows "\<exists>h g'. gpu_allocate_for_sequence pps gi p seq l t t' unres g = Inr (h, g')
    \<and> alloc_result pps gi p (\<lambda>m. label_meta seq l t t' (claim_meta p m)) g h g'"
proof (cases "p = KMain \<and> kv_slabbed pps g")
  case True
  let ?F = "\<lambda>m. label_meta seq l t t' (claim_meta p m)"
  have f: "(\<lambda>m. label_meta seq l t t' (m\<lparr>refcount := 1, pool_tag := KMain\<rparr>)) =
      (\<lambda>m. label_meta seq l t t' (claim_meta KMain m))"
    by (simp add: fun_eq_iff label_meta_def claim_meta_def)
  obtain res g1 where r: "kv_alloc_page pps seq t unres None g = Inr (res, g1)"
    and c: "case res of None \<Rightarrow> g1 = g
       | Some q \<Rightarrow> page_claimed pps q (?F (pages g ! q)) g (upd_page q ?F g1) \<and> page_ptr g1 = page_ptr g"
    using slabbed_alloc_ok [OF ok, where f = ?F and seq = seq and t = t and unres = unres and pref = None]
      True
    by (fastforce simp: label_meta_def claim_meta_def split: option.splits)
  show ?thesis
  proof (cases res)
    case None
    with r c p show ?thesis
      unfolding gpu_allocate_for_sequence_def using True by (simp add: side_pool_of_None)
  next
    case (Some q)
    with c have "alloc_result pps gi p ?F g (Some (mk_handle gi q (page_ptr g q) p)) (upd_page q ?F g1)"
      by auto
    with Some r c p True show ?thesis
      unfolding gpu_allocate_for_sequence_def
      by (simp add: side_pool_of_None upd_page_twice f mk_handle_def)
  qed
next
  case False
  let ?alloc = "if unres then gpu_allocate_unreserved pps gi p g else gpu_allocate pps gi p g"
  obtain h g1 where a: "?alloc = Inr (h, g1)" "alloc_result pps gi p (claim_meta p) g h g1"
    using gpu_allocate_ok [OF ok p, of gi] gpu_allocate_unreserved_ok [OF ok p, of gi]
    by (cases unres) auto
  have eq: "gpu_allocate_for_sequence pps gi p seq l t t' unres g =
      rbind ?alloc (\<lambda>(h, g1). case h of None \<Rightarrow> Inr (None, g1)
        | Some h' \<Rightarrow> Inr (Some h', upd_page (nat (page_idx h')) (label_meta seq l t t') g1))"
    using False p by (auto simp: gpu_allocate_for_sequence_def side_pool_of_None)
  show ?thesis
    using a alloc_result_relabel [OF ok, of gi p] unfolding eq by (cases h) auto
qed

section \<open>Dropping a reference\<close>

definition page_released :: "nat \<Rightarrow> nat \<Rightarrow> gpu_pool \<Rightarrow> gpu_pool \<Rightarrow> bool" where
  "page_released pps p g g' \<longleftrightarrow>
     gpu_ok pps g' \<and> page_frame g g' \<and>
     (let m = pages g ! p in
      if refcount m = 1
      then pages g' = (pages g)[p := (clear_meta m)\<lparr>refcount := 0, replicated := False\<rparr>]
      else pages g' = (pages g)[p := m\<lparr>refcount := refcount m - 1\<rparr>])"

lemma main_idle_live:
  assumes "gpu_ok pps g" "p < total g" "live g p"
  shows "p \<notin> main_idle pps g" "p \<notin> set (spec_free g)"
  using assms gpu_okD(9,10) by blast+

lemma return_main_slabbed_ok:
  assumes ok: "gpu_ok pps g" and p: "p < total g" "live g p" and s: "kv_slabbed pps g"
    and m: "refcount m = 0"
  defines "g1 \<equiv> upd_page p (\<lambda>_. m) g"
  shows "\<exists>g'. kv_return_page pps p g1 = Inr g' \<and> gpu_ok pps g' \<and> page_frame g g'
    \<and> pages g' = (pages g)[p := m]"
proof -
  note D = gpu_okD [OF ok] and N = main_idle_live [OF ok p]
  have r1: "region_ok pps g1" and s1: "kv_slabbed pps g1" using D(1) s by (simp_all add: g1_def)
  have p1: "p \<in> kv_pages pps g1 \<or> initial_main_pages g1 \<le> p \<and> p \<notin> set (kv_loose_free g1)"
    using N(1) s by (auto simp: main_idle_def g1_def)
  from kv_return_page_ok [OF r1 p1] obtain g' where g': "kv_return_page pps p g1 = Inr g'"
    "region_ok pps g'" "return_effect pps p g1 g'" by blast
  note E = main_idle_return [OF g'(3) r1 g'(2) s1]
  have fr: "page_frame g g'" and idle: "main_idle pps g' = insert p (main_idle pps g)"
    using E p1 by (auto simp: g1_def)
  have sf: "same_frame g1 g'" using g'(3) by (simp add: return_effect_def)
  note F = same_frame_gpu [OF sf]
  have pg: "pages g' = (pages g)[p := m]" using F by (simp add: g1_def)
  have "main_ok pps g'" using g'(2) F page_frame_slabbed [OF fr, of pps] s D(2) by (simp add: main_ok_def g1_def)
  then have "gpu_ok pps g'"
    using fr pg p D(6,7,8) F(7) idle m N
    by (intro page_step_ok [OF ok, where p = p and m = m]) (auto simp: g1_def)
  with g'(1) fr pg show ?thesis by blast
qed

lemma return_stack_ok:
  assumes ok: "gpu_ok pps g" and p: "p < total g" "live g p" and m: "refcount m = 0"
    and pool: "q = pool_tag (pages g ! p)" "\<not> (q = KMain \<and> kv_slabbed pps g)"
  defines "g1 \<equiv> upd_page p (\<lambda>_. m) g"
  defines "g' \<equiv> put_free_list q (free_list g1 q @ [p]) g1"
  shows "gpu_ok pps g' \<and> page_frame g g' \<and> pages g' = (pages g)[p := m]"
proof -
  note D = gpu_okD [OF ok] and N = main_idle_live [OF ok p]
  note F = put_free_list_frame [where g = g1 and p = q and xs = "free_list g1 q @ [p]", folded g'_def]
  have q: "q = KMain \<or> q = KSpeculation \<and> initial_main_pages g \<le> p"
    using ok p pool(1) by (auto simp: gpu_ok_def pages_ok_def)
  have fl: "free_list g1 q = free_list g q" by (simp add: free_list_def g1_def)
  have fr: "page_frame g g'" using F(1) by (simp add: g1_def)
  have idle: "main_idle pps g' = (if q = KMain then insert p (main_idle pps g) else main_idle pps g)"
    using F(10) [of pps] pool(2) D(11) by (auto simp: g1_def fl free_list_def split: if_splits)
  have main: "main_ok pps g'"
    using pool(2) D(1-4) D(14) N(1) D(11) F(6,7) [of pps] F(4,8,9)
    by (auto simp: main_ok_def g1_def free_list_def)
  have "gpu_ok pps g'"
    using main fr q p D(6,7,8) F(2,3) idle m N
    by (intro page_step_ok [OF ok, where p = p and m = m]) (auto simp: g1_def free_list_def)
  with fr F(2) show ?thesis by (simp add: g1_def)
qed

lemma drop_ref_ok:
  assumes ok: "gpu_ok pps g" and p: "p < total g" "live g p"
  shows "\<exists>g'. drop_ref pps p g = Inr g' \<and> page_released pps p g g'"
proof -
  let ?m = "pages g ! p"
  have len: "p < length (pages g)" using gpu_okD(5) [OF ok] p by simp
  show ?thesis
  proof (cases "refcount ?m = 1")
    case False
    then have "refcount ?m - 1 \<noteq> 0" by simp
    moreover have "gpu_ok pps (upd_page p (\<lambda>m. m\<lparr>refcount := refcount m - 1\<rparr>) g)"
      using calculation by (intro relabel_ok [OF ok p]) simp_all
    ultimately show ?thesis using len False
      by (simp add: drop_ref_def page_released_def Let_def)
  next
    case True
    let ?m' = "(clear_meta ?m)\<lparr>refcount := 0, replicated := False\<rparr>"
    have e: "upd_page p (\<lambda>m. (clear_meta m)\<lparr>replicated := False\<rparr>) (upd_page p (\<lambda>m. m\<lparr>refcount := refcount m - 1\<rparr>) g)
        = upd_page p (\<lambda>_. ?m') g"
      using True len by (simp add: clear_meta_refcount upd_page_def)
    have "\<exists>g'. drop_ref pps p g = Inr g' \<and> gpu_ok pps g' \<and> page_frame g g' \<and> pages g' = (pages g)[p := ?m']"
    proof (cases "pool_tag ?m = KMain \<and> kv_slabbed pps g")
      case s: True
      then show ?thesis
        using return_main_slabbed_ok [OF ok p, of ?m'] len True
        by (simp add: drop_ref_def return_to_free_list_def Let_def e)
    next
      case s: False
      then show ?thesis
        using return_stack_ok [OF ok p, of ?m' "pool_tag ?m"] len True
        by (auto simp add: drop_ref_def return_to_free_list_def Let_def e)
    qed
    with True show ?thesis by (auto simp: page_released_def Let_def)
  qed
qed

section \<open>Side pools\<close>

lemma upd_side_simps [simp]:
  "kv_slabs (upd_side p f g) = kv_slabs g" "kv_free_slabs (upd_side p f g) = kv_free_slabs g"
  "kv_loose_free (upd_side p f g) = kv_loose_free g" "kv_free_pages (upd_side p f g) = kv_free_pages g"
  "kv_runs (upd_side p f g) = kv_runs g" "initial_main_pages (upd_side p f g) = initial_main_pages g"
  "main_reserved (upd_side p f g) = main_reserved g"
  "main_free (upd_side p f g) = main_free g" "spec_free (upd_side p f g) = spec_free g"
  "total (upd_side p f g) = total g" "initial_spec_pages (upd_side p f g) = initial_spec_pages g"
  "pages (upd_side p f g) = pages g" "spec_reserved (upd_side p f g) = spec_reserved g"
  "expert_zone_runs (upd_side p f g) = expert_zone_runs g" "ez_stats (upd_side p f g) = ez_stats g"
  "kda_stats (upd_side p f g) = kda_stats g"
  "base (upd_side p f g) = base g" "spec_base (upd_side p f g) = spec_base g"
  "bytes_per_page (upd_side p f g) = bytes_per_page g"
  by (cases p; simp add: upd_side_def side_pool_of_def put_side_def)+

lemma side_pool_of_upd [simp]:
  "side_pool_of (upd_side p f g) q = (if q = p then map_option f (side_pool_of g p) else side_pool_of g q)"
  by (cases p; cases q; simp add: upd_side_def side_pool_of_def put_side_def)

lemma upd_side_region [simp]:
  "region_ok pps (upd_side p f g) = region_ok pps g"
  "kv_pages pps (upd_side p f g) = kv_pages pps g" "side_slabs (upd_side p f g) = side_slabs g"
  "kv_slabbed pps (upd_side p f g) = kv_slabbed pps g"
  "main_idle pps (upd_side p f g) = main_idle pps g" "main_ok pps (upd_side p f g) = main_ok pps g"
  "live (upd_side p f g) = live g"
proof -
  note R = region_cong [of "upd_side p f g" g]
  show "side_slabs (upd_side p f g) = side_slabs g"
    and r: "region_ok pps (upd_side p f g) = region_ok pps g"
    and k: "kv_pages pps (upd_side p f g) = kv_pages pps g"
    by (rule R; simp)+
  show s: "kv_slabbed pps (upd_side p f g) = kv_slabbed pps g"
    by (simp add: kv_slabbed_def)
  show "main_idle pps (upd_side p f g) = main_idle pps g"
    by (simp add: main_idle_def s k)
  show "main_ok pps (upd_side p f g) = main_ok pps g"
    by (simp add: main_ok_def s r)
  show "live (upd_side p f g) = live g" by (simp add: live_def fun_eq_iff)
qed

text \<open>Everything of the invariant that concerns the main and speculation pools.\<close>

definition pages_frame :: "nat \<Rightarrow> gpu_pool \<Rightarrow> gpu_pool \<Rightarrow> bool" where
  "pages_frame pps g g' \<longleftrightarrow>
     pages g' = pages g \<and> total g' = total g \<and> initial_main_pages g' = initial_main_pages g
     \<and> initial_spec_pages g' = initial_spec_pages g \<and> spec_free g' = spec_free g
     \<and> main_idle pps g' = main_idle pps g \<and> length (kv_slabs g') = length (kv_slabs g)
     \<and> main_reserved g' = main_reserved g \<and> spec_reserved g' = spec_reserved g
     \<and> base g' = base g \<and> spec_base g' = spec_base g \<and> bytes_per_page g' = bytes_per_page g"

lemma pages_frame_refl [simp]: "pages_frame pps g g"
  by (simp add: pages_frame_def)

lemma pages_frame_upd_side [simp]:
  "pages_frame pps g (upd_side p f g1) = pages_frame pps g g1"
  "pages_frame pps (upd_side p f g) g1 = pages_frame pps g g1"
  by (simp_all add: pages_frame_def)

lemma pages_frame_trans: "pages_frame pps g g1 \<Longrightarrow> pages_frame pps g1 g2 \<Longrightarrow> pages_frame pps g g2"
  by (simp add: pages_frame_def)

lemma pages_frame_live: "pages_frame pps g g' \<Longrightarrow> live_pages g' = live_pages g"
  by (simp add: pages_frame_def live_pages_def live_def)

lemma side_step_ok:
  assumes "gpu_ok pps g" "pages_frame pps g g'" "main_ok pps g'" "sides_ok g'" "leases_ok g'"
    "grants_ok g'"
  shows "gpu_ok pps g'"
proof -
  have "live g' = live g" using assms(2) by (simp add: pages_frame_def live_def fun_eq_iff)
  then show ?thesis using assms by (simp add: gpu_ok_def pages_ok_def pages_frame_def reserve_ok_def)
qed

text \<open>The slab region under a side claim or a side release.\<close>

lemma side_region_frame:
  fixes g g' :: gpu_pool
  assumes ok: "main_ok pps g" "kv_slabbed pps g" and r: "region_ok pps g'"
    and fr: "same_frame g g'" "kv_pages pps g' = kv_pages pps g" "kv_loose_free g' = kv_loose_free g"
  shows "pages_frame pps g g'" "main_ok pps g'"
proof -
  note F = same_frame_gpu [OF fr(1)]
  have D: "region_ok pps g" "main_free g = []" using ok by (simp_all add: main_ok_def)
  have "length (kv_slabs g') * pps = length (kv_slabs g) * pps" "0 < pps"
    using D(1) r F(17) by (simp_all add: region_ok_def region_wf_def slabs_wf_def)
  then have len: "length (kv_slabs g') = length (kv_slabs g)" by simp
  with ok(2) have s: "kv_slabbed pps g'" by (auto simp: kv_slabbed_def)
  show "main_ok pps g'" using s r D(2) F by (simp add: main_ok_def)
  show "pages_frame pps g g'" using len s ok(2) F fr by (simp add: pages_frame_def main_idle_def)
qed

section \<open>Leases of whole slabs\<close>

lemma leases_add:
  assumes ok: "leases_ok g" and l: "leases g' = leases g \<union> N"
    and N: "\<And>l l'. l \<in> N \<Longrightarrow> l' \<in> N \<Longrightarrow> l \<noteq> l' \<Longrightarrow> lease_slabs l \<inter> lease_slabs l' = {}"
      "\<And>l. l \<in> N \<Longrightarrow> lease_slabs l \<noteq> {}"
    and S: "side_slabs g' = side_slabs g \<union> (\<Union>l \<in> N. lease_slabs l)"
      "side_slabs g \<inter> (\<Union>l \<in> N. lease_slabs l) = {}"
  shows "leases_ok g'"
proof -
  have u: "(\<Union>l \<in> leases g. lease_slabs l) = side_slabs g" using ok by (simp add: leases_ok_def)
  have "lease_slabs l \<inter> lease_slabs l' = {}" if "l \<in> leases g" "l' \<in> N" for l l'
    using that S(2) u by blast
  then have x: "lease_slabs l \<inter> lease_slabs l' = {}" "lease_slabs l' \<inter> lease_slabs l = {}"
    if "l \<in> leases g" "l' \<in> N" for l l'
    using that by (blast, blast)
  have o: "lease_slabs l \<inter> lease_slabs l' = {}" if "l \<in> leases g" "l' \<in> leases g" "l \<noteq> l'" for l l'
    using that ok by (simp add: leases_ok_def)
  have "lease_slabs l \<inter> lease_slabs l' = {}" if "l \<in> leases g'" "l' \<in> leases g'" "l \<noteq> l'" for l l'
    using that(1,2) unfolding l Un_iff
    by (elim disjE; intro x o N(1) that(3)) assumption+
  moreover have "lease_slabs l \<noteq> {}" if "l \<in> leases g'" for l
    using that ok N(2) unfolding l Un_iff leases_ok_def by (elim disjE conjE) simp_all
  moreover have "(\<Union>l \<in> leases g'. lease_slabs l) = side_slabs g'" by (simp only: l UN_Un u S(1))
  ultimately show ?thesis unfolding leases_ok_def by blast
qed

lemma leases_del:
  assumes ok: "leases_ok g" and l: "l \<in> leases g" "leases g' = leases g - {l}"
    and S: "side_slabs g' = side_slabs g - lease_slabs l"
  shows "leases_ok g'"
proof -
  have u: "(\<Union>l \<in> leases g. lease_slabs l) = side_slabs g"
    and d: "\<And>l'. l' \<in> leases g - {l} \<Longrightarrow> lease_slabs l' \<inter> lease_slabs l = {}"
    using ok l(1) by (auto simp: leases_ok_def)
  have "(\<Union>l' \<in> leases g - {l}. lease_slabs l') = side_slabs g - lease_slabs l"
    unfolding u [symmetric] using d by blast
  with ok l(2) S show ?thesis by (auto simp: leases_ok_def)
qed

lemma lease_slabs_side:
  assumes "leases_ok g" "l \<in> leases g"
  shows "lease_slabs l \<subseteq> side_slabs g"
  using assms by (auto simp: leases_ok_def)

definition page_lease :: "pool \<Rightarrow> side_pool \<Rightarrow> nat \<Rightarrow> slab_lease" where
  "page_lease p sp i = (PageTenant p, i, run_slabs sp)"

lemma leases_iff:
  "(PageTenant p, i, n) \<in> leases g \<longleftrightarrow>
     (\<exists>sp. side_pool_of g p = Some sp \<and> elastic sp \<and> side_live sp i \<and> n = run_slabs sp)"
  "(ZoneTenant, i, n) \<in> leases g \<longleftrightarrow> expert_zone_runs g i = Some n"
  by (auto simp: leases_def)

lemma leases_eqI:
  assumes "\<And>p i n. (PageTenant p, i, n) \<in> A \<longleftrightarrow> (PageTenant p, i, n) \<in> B"
    and "\<And>i n. (ZoneTenant, i, n) \<in> A \<longleftrightarrow> (ZoneTenant, i, n) \<in> B"
  shows "A = (B :: slab_lease set)"
  using assms by (metis prod.exhaust set_eqI tenant.exhaust)

lemma leases_upd_side_page:
  assumes "side_pool_of g p = Some sp" "elastic sp" "i < length (sp_pages sp)"
  shows "leases (upd_side p (upd_side_page i f) g) =
    (if refcount (f (sp_pages sp ! i)) \<noteq> 0 then insert (page_lease p sp i) (leases g)
     else leases g - {page_lease p sp i})"
  using assms
  by (intro leases_eqI)
     (auto simp: leases_iff page_lease_def side_live_def upd_side_page_def nth_list_update)

lemma leases_upd_fixed:
  assumes "side_pool_of g p = Some sp" "\<not> elastic sp" "\<not> elastic (f sp)"
  shows "leases (upd_side p f g) = leases g"
  using assms by (intro leases_eqI) (auto simp: leases_iff)

section \<open>The page pools of a GPU as a page source\<close>

definition page_count :: "gpu_pool \<Rightarrow> nat \<Rightarrow> nat" where
  "page_count g p = (if p < total g then unat (refcount (pages g ! p)) else 0)"

text \<open>A request names the pool, the sequence, the labels and whether the reserve may be used.\<close>

type_synonym page_request = "bool \<times> u64 \<times> u32 \<times> u32 \<times> u32 \<times> bool"

definition pool_take :: "nat \<Rightarrow> nat \<Rightarrow> page_request \<Rightarrow> gpu_pool \<Rightarrow> (nat option \<times> gpu_pool) res" where
  "pool_take pps gi k g =
     (case k of (spec, seq, l, t, t', unres) \<Rightarrow>
        rbind (gpu_allocate_for_sequence pps gi (if spec then KSpeculation else KMain) seq l t t' unres g)
          (\<lambda>(h, g'). Inr (map_option (\<lambda>h'. nat (page_idx h')) h, g')))"

lemma page_claimed_count:
  assumes "gpu_ok pps g" "page_claimed pps p m g g'"
  shows "page_count g p = 0" "page_count g' = (page_count g)(p := 1)"
  using assms gpu_okD(5) [OF assms(1)]
  by (auto simp: page_claimed_def page_frame_def page_count_def live_def fun_eq_iff nth_list_update_if)

lemma unat_pred: "0 < unat (w :: u32) \<Longrightarrow> unat (w - 1) = unat w - 1"
  by (simp add: unat_minus_one unat_gt_0)

lemma page_released_count:
  assumes "gpu_ok pps g" "page_released pps p g g'" "0 < page_count g p"
  shows "page_count g' = (page_count g)(p := page_count g p - 1)"
proof -
  have p: "p < total g" "0 < unat (refcount (pages g ! p))" using assms(3) by (auto simp: page_count_def split: if_splits)
  have "total g' = total g" and len: "length (pages g) = total g"
    using assms(2) gpu_okD(5) [OF assms(1)] by (simp_all add: page_released_def page_frame_def)
  moreover obtain m where "pages g' = (pages g)[p := m]" "refcount m = refcount (pages g ! p) - 1"
    using assms(2) by (cases "refcount (pages g ! p) = 1") (auto simp: page_released_def Let_def)
  ultimately show ?thesis using p unat_pred by (auto simp: page_count_def fun_eq_iff nth_list_update_if)
qed

interpretation pool_source:
  page_source "gpu_ok pps" page_count "pool_take pps gi" "drop_ref pps" for pps gi
proof
  fix g :: gpu_pool and k :: page_request
  assume ok: "gpu_ok pps g"
  obtain spec seq l t t' unres where k: "k = (spec, seq, l, t, t', unres)" by (cases k)
  let ?p = "if spec then KSpeculation else KMain"
  obtain h g' where "gpu_allocate_for_sequence pps gi ?p seq l t t' unres g = Inr (h, g')"
    and r: "alloc_result pps gi ?p (\<lambda>m. label_meta seq l t t' (claim_meta ?p m)) g h g'"
    using gpu_allocate_for_sequence_ok [OF ok, of ?p] by fastforce
  then have take_eq: "pool_take pps gi k g = Inr (map_option (\<lambda>h'. nat (page_idx h')) h, g')"
    by (simp add: pool_take_def k)
  show "\<exists>res g'. pool_take pps gi k g = Inr (res, g') \<and> gpu_ok pps g'
      \<and> (case res of None \<Rightarrow> page_count g' = page_count g
         | Some p \<Rightarrow> page_count g p = 0 \<and> page_count g' = (page_count g)(p := 1))"
  proof (cases h)
    case None
    with take_eq r ok show ?thesis by simp
  next
    case (Some h')
    with r obtain q where "nat (page_idx h') = q" and
      c: "page_claimed pps q (label_meta seq l t t' (claim_meta ?p (pages g ! q))) g g'"
      by (auto simp: alloc_result_def mk_handle_def)
    with Some take_eq page_claimed_count [OF ok c] show ?thesis by (simp add: page_claimed_def)
  qed
next
  fix g :: gpu_pool and p
  assume ok: "gpu_ok pps g" and p: "0 < page_count g p"
  then have "p < total g" "live g p" by (auto simp: page_count_def live_def unat_gt_0 split: if_splits)
  then obtain g' where "drop_ref pps p g = Inr g'" "page_released pps p g g'"
    using drop_ref_ok [OF ok] by blast
  with page_released_count [OF ok _ p] show "\<exists>g'. drop_ref pps p g = Inr g' \<and> gpu_ok pps g'
      \<and> page_count g' = (page_count g)(p := page_count g p - 1)" by (auto simp: page_released_def)
qed

end
