(* ===== verification/Side_Pools_Inv.thy ===== *)
theory Side_Pools_Inv
  imports Page_Pool_Inv
begin

text \<open>
  The side pools of one GPU under the allocator's operations: fixed-span pools with their own
  free stack, elastic pools whose pages are whole slabs (indexer-K) or runs of slabs (KDA state)
  of the shared region, and the expert-zone grants.
\<close>

section \<open>One side pool\<close>

lemma upd_side_page_simps [simp]:
  "sp_base (upd_side_page i f sp) = sp_base sp" "sp_total (upd_side_page i f sp) = sp_total sp"
  "sp_free (upd_side_page i f sp) = sp_free sp" "elastic (upd_side_page i f sp) = elastic sp"
  "run_slabs (upd_side_page i f sp) = run_slabs sp" "stride_bytes (upd_side_page i f sp) = stride_bytes sp"
  "sp_bytes_per_page (upd_side_page i f sp) = sp_bytes_per_page sp"
  "sp_pages (upd_side_page i f sp) = (sp_pages sp)[i := f (sp_pages sp ! i)]"
  by (simp_all add: upd_side_page_def)

lemma side_live_upd:
  "i < length (sp_pages sp) \<Longrightarrow> side_live (upd_side_page i f sp) j =
     (if j = i then refcount (f (sp_pages sp ! i)) \<noteq> 0 else side_live sp j)"
  by (auto simp: side_live_def nth_list_update_if)

lemma side_live_free [simp]: "side_live (sp\<lparr>sp_free := xs\<rparr>) = side_live sp"
  by (simp add: side_live_def fun_eq_iff)

lemma side_pool_elastic_upd:
  assumes "side_pool_ok n sp" "elastic sp"
  shows "side_pool_ok n (upd_side_page i f sp)"
  using assms by (simp add: side_pool_ok_def)

lemma side_pool_fixed_upd:
  assumes ok: "side_pool_ok n sp" "\<not> elastic sp" "i < sp_total sp" and xs: "distinct xs"
    "set xs = (if refcount (f (sp_pages sp ! i)) \<noteq> 0 then set (sp_free sp) - {i}
               else insert i (set (sp_free sp)))"
  shows "side_pool_ok n ((upd_side_page i f sp)\<lparr>sp_free := xs\<rparr>)"
proof -
  have i: "i < length (sp_pages sp)" using ok by (simp add: side_pool_ok_def)
  show ?thesis
    using assms side_live_upd [OF i, of f] by (auto simp: side_pool_ok_def split: if_splits)
qed

lemma sides_okD:
  assumes "sides_ok g" "side_pool_of g p = Some sp"
  shows "side_pool_ok (length (kv_slabs g)) sp" "p = KHca \<or> p = KSwa \<Longrightarrow> \<not> elastic sp"
    "p = KIndexerK \<Longrightarrow> elastic sp \<Longrightarrow> run_slabs sp = 1"
  using assms by (auto simp: sides_ok_def)

lemma sides_ok_upd:
  assumes "sides_ok g" "side_pool_of g p = Some sp" "side_pool_ok (length (kv_slabs g)) (f sp)"
    "elastic (f sp) = elastic sp" "run_slabs (f sp) = run_slabs sp"
  shows "sides_ok (upd_side p f g)"
  using assms by (auto simp: sides_ok_def split: if_splits)

lemma sides_ok_frame:
  assumes "sides_ok g" "\<And>p. side_pool_of g' p = side_pool_of g p"
    "length (kv_slabs g') = length (kv_slabs g)"
  shows "sides_ok g'"
  using assms by (simp add: sides_ok_def)

lemma upd_side_twice: "upd_side p f (upd_side p h g) = upd_side p (\<lambda>sp. f (h sp)) g"
  by (cases p) (simp_all add: upd_side_def side_pool_of_def put_side_def)

lemma grants_ok_upd_side [simp]: "grants_ok (upd_side p f g) = grants_ok g"
  by (simp add: grants_ok_def)

text \<open>
  A side page is handed out or given back: its metadata becomes \<open>m\<close>, the slabs of an elastic
  page are claimed or released with it, and everything else is untouched.
\<close>

definition side_written :: "nat \<Rightarrow> pool \<Rightarrow> nat \<Rightarrow> page_meta \<Rightarrow> gpu_pool \<Rightarrow> gpu_pool \<Rightarrow> bool" where
  "side_written pps p i m g g' \<longleftrightarrow>
     gpu_ok pps g' \<and> pages_frame pps g g'
     \<and> (\<exists>sp sp'. side_pool_of g p = Some sp \<and> side_pool_of g' p = Some sp' \<and> i < sp_total sp
          \<and> sp_pages sp' = (sp_pages sp)[i := m] \<and> elastic sp' = elastic sp
          \<and> run_slabs sp' = run_slabs sp \<and> sp_total sp' = sp_total sp \<and> sp_base sp' = sp_base sp
          \<and> stride_bytes sp' = stride_bytes sp
          \<and> sp_bytes_per_page sp' = sp_bytes_per_page sp)
     \<and> (\<forall>q. q \<noteq> p \<longrightarrow> side_pool_of g' q = side_pool_of g q)
     \<and> expert_zone_runs g' = expert_zone_runs g \<and> ez_stats g' = ez_stats g"

lemma fixed_side_ok:
  assumes ok: "gpu_ok pps g" and sp: "side_pool_of g p = Some sp" "\<not> elastic sp" "i < sp_total sp"
    and xs: "distinct xs"
      "set xs = (if refcount (f (sp_pages sp ! i)) \<noteq> 0 then set (sp_free sp) - {i}
                 else insert i (set (sp_free sp)))"
  shows "side_written pps p i (f (sp_pages sp ! i)) g
    (upd_side p (\<lambda>sp. (upd_side_page i f sp)\<lparr>sp_free := xs\<rparr>) g)"
proof -
  let ?F = "\<lambda>sp. (upd_side_page i f sp)\<lparr>sp_free := xs\<rparr>"
  have S: "sides_ok g" "leases_ok g" "grants_ok g" "main_ok pps g" using ok by (simp_all add: gpu_ok_def)
  have "sides_ok (upd_side p ?F g)"
    using side_pool_fixed_upd [where f = f, OF sides_okD(1) [OF S(1) sp(1)] sp(2,3) xs] sp
    by (intro sides_ok_upd [OF S(1) sp(1)]) simp_all
  moreover have "leases (upd_side p ?F g) = leases g"
    using sp by (intro leases_upd_fixed) simp_all
  ultimately have "gpu_ok pps (upd_side p ?F g)"
    using S by (intro side_step_ok [OF ok]) (simp_all add: leases_ok_def)
  then show ?thesis using sp by (simp add: side_written_def)
qed

text \<open>
  An elastic page: the region has claimed (or released) exactly the slabs of the page's lease,
  and the page's metadata follows.
\<close>

lemma same_frame_upd_side:
  assumes "same_frame g g1"
  shows "same_frame (upd_side p f g) (upd_side p f g1)"
  using assms
  by (cases g; cases g1; cases p; simp add: same_frame_def upd_side_def put_side_def side_pool_of_def)

lemma elastic_side_ok:
  assumes ok: "gpu_ok pps g" and s: "kv_slabbed pps g"
    and sp: "side_pool_of g p = Some sp" "elastic sp" "i < sp_total sp"
    and g': "region_ok pps g'" "same_frame (upd_side p (upd_side_page i f) g) g'"
      "kv_pages pps g' = kv_pages pps g" "kv_loose_free g' = kv_loose_free g"
    and ss: "if refcount (f (sp_pages sp ! i)) \<noteq> 0
      then side_slabs g' = side_slabs g \<union> {i..<i + run_slabs sp}
           \<and> side_slabs g \<inter> {i..<i + run_slabs sp} = {}
      else side_live sp i \<and> side_slabs g' = side_slabs g - {i..<i + run_slabs sp}"
  shows "side_written pps p i (f (sp_pages sp ! i)) g g'"
proof -
  let ?u = "upd_side p (upd_side_page i f) g"
  have S: "sides_ok g" "leases_ok g" "grants_ok g" "main_ok pps g" using ok by (simp_all add: gpu_ok_def)
  have u: "main_ok pps ?u" "kv_slabbed pps ?u" "kv_pages pps g' = kv_pages pps ?u"
    "kv_loose_free g' = kv_loose_free ?u" using S(4) s g' by simp_all
  note P = side_region_frame [OF u(1,2) g'(1,2) u(3,4)] and Q = same_frame_side [OF g'(2)]
    and F = same_frame_gpu [OF g'(2)] and pool = sides_okD(1) [OF S(1) sp(1)]
  have len: "length (kv_slabs g') = length (kv_slabs g)" using P(1) by (simp add: pages_frame_def)
  have i: "i < length (sp_pages sp)" "0 < run_slabs sp"
    using pool sp by (simp_all add: side_pool_ok_def)
  have "sides_ok ?u"
    using side_pool_elastic_upd [OF pool sp(2)] by (intro sides_ok_upd [OF S(1) sp(1)]) simp_all
  then have "sides_ok g'" by (rule sides_ok_frame) (simp_all only: Q len upd_side_simps)
  moreover have L: "leases g' = leases ?u" using same_frame_leases [OF g'(2)] by simp
  have "leases_ok g'"
  proof (cases "refcount (f (sp_pages sp ! i)) \<noteq> 0")
    case True
    then have "leases g' = leases g \<union> {page_lease p sp i}"
      using L leases_upd_side_page [OF sp(1,2) i(1), of f] by simp
    with True ss i(2) show ?thesis
      by (intro leases_add [OF S(2)]) (auto simp: page_lease_def lease_slabs_def)
  next
    case False
    then have "leases g' = leases g - {page_lease p sp i}" "page_lease p sp i \<in> leases g"
      using L leases_upd_side_page [OF sp(1,2) i(1), of f] sp ss
      by (simp_all add: page_lease_def leases_iff)
    with False ss show ?thesis
      by (intro leases_del [OF S(2)]) (auto simp: page_lease_def lease_slabs_def)
  qed
  moreover have "grants_ok g'" using S(3) F by (simp add: grants_ok_def)
  ultimately have "gpu_ok pps g'" using P by (intro side_step_ok [OF ok]) simp_all
  then show ?thesis using P(1) sp Q F by (simp add: side_written_def)
qed

section \<open>Allocating a side page\<close>

definition side_result ::
    "nat \<Rightarrow> nat \<Rightarrow> pool \<Rightarrow> gpu_pool \<Rightarrow> page_handle option \<Rightarrow> gpu_pool \<Rightarrow> bool" where
  "side_result pps gi p g h g' \<longleftrightarrow>
     (case h of None \<Rightarrow> g' = g
      | Some h' \<Rightarrow> \<exists>sp i. side_pool_of g p = Some sp \<and> \<not> side_live sp i
                    \<and> h' = mk_handle gi i (side_ptr sp i) p
                    \<and> side_written pps p i (claim_meta p (sp_pages sp ! i)) g g')"

lemma not_live_if_free:
  assumes ok: "gpu_ok pps g" and sp: "side_pool_of g p = Some sp" "elastic sp"
    and i: "i \<notin> side_slabs g"
  shows "\<not> side_live sp i"
proof
  assume "side_live sp i"
  then have "page_lease p sp i \<in> leases g" using sp by (simp add: page_lease_def leases_iff)
  then have "lease_slabs (page_lease p sp i) \<subseteq> side_slabs g"
    using ok by (intro lease_slabs_side) (simp_all add: gpu_ok_def)
  moreover have "0 < run_slabs sp"
    using ok sp sides_okD(1) by (fastforce simp: gpu_ok_def side_pool_ok_def)
  ultimately have "i \<in> side_slabs g" by (simp add: page_lease_def lease_slabs_def subset_iff)
  with i show False ..
qed

lemma claim_meta_simps [simp]:
  "refcount (claim_meta p m) = 1" "pool_tag (claim_meta p m) = p"
  by (simp_all add: claim_meta_def)

lemma gpu_allocate_side_ok:
  assumes ok: "gpu_ok pps g" and sp: "side_pool_of g p = Some sp" "elastic sp \<Longrightarrow> run_slabs sp = 1"
  shows "\<exists>h g'. gpu_allocate_side pps gi p g = Inr (h, g') \<and> side_result pps gi p g h g'"
proof (cases "elastic sp")
  case False
  have pool: "side_pool_ok (length (kv_slabs g)) sp"
    using ok sp(1) sides_okD(1) by (simp add: gpu_ok_def)
  show ?thesis
  proof (cases "sp_free sp = []")
    case True
    with False sp show ?thesis by (simp add: gpu_allocate_side_def side_result_def)
  next
    case ne: False
    let ?i = "last (sp_free sp)"
    have d: "distinct (sp_free sp)" and i: "?i < sp_total sp" "\<not> side_live sp ?i"
      using pool False ne last_in_set [OF ne] by (auto simp: side_pool_ok_def)
    have e: "upd_side p (upd_side_page ?i (claim_meta p)) (upd_side p (\<lambda>sp. sp\<lparr>sp_free := butlast (sp_free sp)\<rparr>) g)
        = upd_side p (\<lambda>sp'. (upd_side_page ?i (claim_meta p) sp')\<lparr>sp_free := butlast (sp_free sp)\<rparr>) g"
      using sp(1) by (simp add: upd_side_def upd_side_page_def) (cases p; simp add: side_pool_of_def put_side_def)
    have "side_written pps p ?i (claim_meta p (sp_pages sp ! ?i)) g
        (upd_side p (\<lambda>sp'. (upd_side_page ?i (claim_meta p) sp')\<lparr>sp_free := butlast (sp_free sp)\<rparr>) g)"
      using d ne i by (intro fixed_side_ok [OF ok sp(1) False]) (simp_all add: distinct_butlast set_butlast_distinct)
    with False ne sp i show ?thesis by (auto simp: gpu_allocate_side_def side_result_def e Let_def)
  qed
next
  case el: True
  show ?thesis
  proof (cases "kv_slabbed pps g")
    case False
    then have "kv_free_slabs g = []" by (rule gpu_okD(14) [OF ok])
    with el sp show ?thesis by (simp add: gpu_allocate_side_def kv_claim_side_slab_def side_result_def)
  next
    case s: True
    obtain res g1 where r: "kv_claim_side_slab pps True g = Inr (res, g1)"
      and c: "case res of None \<Rightarrow> g1 = g
        | Some sid \<Rightarrow> sid \<in> set (kv_free_slabs g) \<and> region_ok pps g1 \<and> side_claim_effect pps {sid} g g1"
      using kv_claim_side_slab_ok [OF gpu_okD(1) [OF ok s], of True] by (fastforce split: option.splits)
    show ?thesis
    proof (cases res)
      case None
      with r c el sp show ?thesis by (simp add: gpu_allocate_side_def side_result_def)
    next
      case (Some i)
      with c have e: "i \<in> set (kv_free_slabs g)" "region_ok pps g1" "side_claim_effect pps {i} g g1" by simp_all
      have n: "i < length (kv_slabs g)"
        using e(1) gpu_okD(1) [OF ok s] by (simp add: region_ok_def region_wf_def free_wf_def)
      have i: "i < sp_total sp" "i \<notin> side_slabs g"
        using n e(3) el sp(1) ok sides_okD(1) [of g p sp]
        by (auto simp: gpu_ok_def side_pool_ok_def side_claim_effect_def)
      have "side_written pps p i (claim_meta p (sp_pages sp ! i)) g
          (upd_side p (upd_side_page i (claim_meta p)) g1)"
        using e(2,3) el sp(2) i(2) same_frame_upd_side [of g g1]
        by (intro elastic_side_ok [OF ok s sp(1) el i(1)]) (simp_all add: side_claim_effect_def)
      with r Some el sp not_live_if_free [OF ok sp(1) el i(2)] show ?thesis
        by (auto simp: gpu_allocate_side_def side_result_def)
    qed
  qed
qed

section \<open>Releasing a side page\<close>

lemma side_relabel_ok:
  assumes ok: "gpu_ok pps g" and sp: "side_pool_of g p = Some sp" "side_live sp i"
    and f: "refcount (f (sp_pages sp ! i)) \<noteq> 0"
  shows "side_written pps p i (f (sp_pages sp ! i)) g (upd_side p (upd_side_page i f) g)"
proof -
  let ?g = "upd_side p (upd_side_page i f) g"
  have S: "sides_ok g" "leases_ok g" "grants_ok g" "main_ok pps g" using ok by (simp_all add: gpu_ok_def)
  note pool = sides_okD(1) [OF S(1) sp(1)]
  have i: "i < length (sp_pages sp)" "i < sp_total sp"
    using sp(2) pool by (simp_all add: side_live_def side_pool_ok_def)
  have live: "side_live (upd_side_page i f sp) = side_live sp"
    using side_live_upd [OF i(1), of f] f sp(2) by (auto simp: fun_eq_iff)
  have "side_pool_ok (length (kv_slabs g)) (upd_side_page i f sp)"
    using pool by (simp add: side_pool_ok_def live)
  then have "sides_ok ?g" by (intro sides_ok_upd [OF S(1) sp(1)]) simp_all
  moreover have "leases ?g = leases g"
  proof (cases "elastic sp")
    case True
    then have "page_lease p sp i \<in> leases g" using sp by (simp add: page_lease_def leases_iff)
    then show ?thesis using leases_upd_side_page [OF sp(1) True i(1), of f] f by auto
  next
    case False
    then show ?thesis using sp by (intro leases_upd_fixed) simp_all
  qed
  ultimately have "gpu_ok pps ?g" using S by (intro side_step_ok [OF ok]) (simp_all add: leases_ok_def)
  then show ?thesis using sp i by (simp add: side_written_def)
qed

definition dropped_meta :: "page_meta \<Rightarrow> page_meta" where
  "dropped_meta m =
     (if refcount m = 1 then (clear_meta m)\<lparr>refcount := 0\<rparr> else m\<lparr>refcount := refcount m - 1\<rparr>)"

lemma upd_side_page_twice:
  "upd_side_page i f (upd_side_page i h sp) = upd_side_page i (\<lambda>m. f (h m)) sp"
  by (cases "i < length (sp_pages sp)") (simp_all add: upd_side_page_def list_update_beyond)

lemma upd_side_cong:
  assumes "side_pool_of g p = Some sp" "f sp = h sp"
  shows "upd_side p f g = upd_side p h g"
  using assms by (simp add: upd_side_def)

lemma upd_side_page_cong:
  "f (sp_pages sp ! i) = h (sp_pages sp ! i) \<Longrightarrow> upd_side_page i f sp = upd_side_page i h sp"
  by (simp add: upd_side_page_def)

lemma release_lease_ok:
  assumes ok: "gpu_ok pps g" and sp: "side_pool_of g p = Some sp" "elastic sp" "side_live sp i"
    and u: "u = upd_side p f g"
  shows "kv_slabbed pps g" "region_ok pps u" "{i..<i + run_slabs sp} \<subseteq> side_slabs u"
proof -
  have "page_lease p sp i \<in> leases g" using sp by (simp add: page_lease_def leases_iff)
  then have sub: "{i..<i + run_slabs sp} \<subseteq> side_slabs g"
    using ok lease_slabs_side [of g "page_lease p sp i"]
    by (simp add: gpu_ok_def page_lease_def lease_slabs_def)
  moreover have "0 < run_slabs sp"
    using ok sp sides_okD(1) by (fastforce simp: gpu_ok_def side_pool_ok_def)
  ultimately have "i \<in> side_slabs g" by (simp add: subset_iff)
  then have "kv_slabs g \<noteq> []" by (auto simp: side_slabs_def)
  then show s: "kv_slabbed pps g" using gpu_okD(4) [OF ok] by blast
  show "region_ok pps u" "{i..<i + run_slabs sp} \<subseteq> side_slabs u"
    using gpu_okD(1) [OF ok s] sub by (simp_all add: u)
qed

lemma drop_side_ref_ok:
  assumes ok: "gpu_ok pps g" and sp: "side_pool_of g p = Some sp" "side_live sp i"
  shows "\<exists>g'. drop_side_ref pps p i g = Inr g'
    \<and> side_written pps p i (dropped_meta (sp_pages sp ! i)) g g'"
proof -
  let ?dec = "\<lambda>m. m\<lparr>refcount := refcount m - 1\<rparr>" and ?m = "sp_pages sp ! i"
  have pool: "side_pool_ok (length (kv_slabs g)) sp" and spec: "p = KHca \<or> p = KSwa \<Longrightarrow> \<not> elastic sp"
    "p = KIndexerK \<Longrightarrow> elastic sp \<Longrightarrow> run_slabs sp = 1"
    using ok sp(1) sides_okD by (auto simp: gpu_ok_def)
  have i: "i < length (sp_pages sp)" "i < sp_total sp"
    using sp(2) pool by (simp_all add: side_live_def side_pool_ok_def)
  show ?thesis
  proof (cases "refcount ?m = 1")
    case False
    have "side_written pps p i (?dec ?m) g (upd_side p (upd_side_page i ?dec) g)"
      using False by (intro side_relabel_ok [OF ok sp]) simp
    with False sp i show ?thesis by (simp add: drop_side_ref_def dropped_meta_def)
  next
    case one: True
    let ?f = "\<lambda>_. dropped_meta ?m"
    have m: "clear_meta (?dec ?m) = dropped_meta ?m" "refcount (dropped_meta ?m) = 0"
      using one by (simp_all add: dropped_meta_def clear_meta_refcount)
    define u where "u = upd_side p (upd_side_page i ?f) g"
    have u: "upd_side p (upd_side_page i clear_meta) (upd_side p (upd_side_page i ?dec) g) = u"
      unfolding u_def upd_side_twice upd_side_page_twice
      using m(1) by (intro upd_side_cong [OF sp(1)] upd_side_page_cong) simp
    have red: "drop_side_ref pps p i g =
        (if elastic sp then
           (if p = KKdaState then release_side_slabs pps [i..<i + run_slabs sp] u
            else rfold (kv_release_side_slab pps) [i..<i + run_slabs sp] u)
         else Inr (upd_side p (\<lambda>sp. sp\<lparr>sp_free := sp_free sp @ [i]\<rparr>) u))"
      using sp one i by (simp add: drop_side_ref_def side_release_def u Let_def)
    show ?thesis
    proof (cases "elastic sp")
      case False
      have e: "upd_side p (\<lambda>sp. sp\<lparr>sp_free := sp_free sp @ [i]\<rparr>) u =
          upd_side p (\<lambda>sp'. (upd_side_page i ?f sp')\<lparr>sp_free := sp_free sp @ [i]\<rparr>) g"
        unfolding u_def upd_side_twice by (intro upd_side_cong [OF sp(1)]) simp
      have "side_written pps p i (dropped_meta ?m) g
          (upd_side p (\<lambda>sp'. (upd_side_page i ?f sp')\<lparr>sp_free := sp_free sp @ [i]\<rparr>) g)"
        using pool False sp(2) m(2)
        by (intro fixed_side_ok [where f = ?f, OF ok sp(1) False i(2)]) (auto simp: side_pool_ok_def)
      with False show ?thesis unfolding red e by simp
    next
      case el: True
      note R = release_lease_ok [OF ok sp(1) el sp(2) u_def]
      have "\<exists>g'. drop_side_ref pps p i g = Inr g' \<and> region_ok pps g'
          \<and> side_release_effect pps {i..<i + run_slabs sp} u g'"
      proof (cases "p = KKdaState")
        case True
        then show ?thesis
          unfolding red using release_side_slabs_ok [OF R(2), of "[i..<i + run_slabs sp]"] R(3) el
          by simp
      next
        case False
        with el spec sp(1) have "p = KIndexerK" by (cases p) (auto simp: side_pool_of_def)
        with spec(2) el have "run_slabs sp = 1" by simp
        moreover from this R(3) have "i \<in> side_slabs u" by (simp add: subset_iff)
        from kv_release_side_slab_ok [OF R(2) this] obtain g'
          where "kv_release_side_slab pps i u = Inr g'" "region_ok pps g'" "side_release_effect pps {i} u g'"
          by blast
        ultimately show ?thesis using False el by (simp add: red)
      qed
      then obtain g' where g': "drop_side_ref pps p i g = Inr g'" "region_ok pps g'"
        "side_release_effect pps {i..<i + run_slabs sp} u g'" by blast
      have "side_written pps p i (dropped_meta ?m) g g'"
        using g'(2,3) m(2) sp(2)
        by (intro elastic_side_ok [where f = ?f, OF ok R(1) sp(1) el i(2)])
           (simp_all add: side_release_effect_def u_def)
      with g'(1) show ?thesis by blast
    qed
  qed
qed

section \<open>The side pools as page sources\<close>

definition side_count :: "pool \<Rightarrow> gpu_pool \<Rightarrow> nat \<Rightarrow> nat" where
  "side_count p g i =
     (case side_pool_of g p of
        None \<Rightarrow> 0
      | Some sp \<Rightarrow> if i < sp_total sp then unat (refcount (sp_pages sp ! i)) else 0)"

definition side_take :: "nat \<Rightarrow> nat \<Rightarrow> pool \<Rightarrow> unit \<Rightarrow> gpu_pool \<Rightarrow> (nat option \<times> gpu_pool) res" where
  "side_take pps gi p k g =
     rbind (gpu_allocate_side pps gi p g)
       (\<lambda>(h, g'). Inr (map_option (\<lambda>h'. nat (page_idx h')) h, g'))"

lemma side_written_count:
  assumes "gpu_ok pps g" "side_written pps p i m g g'"
  shows "side_count p g' = (side_count p g)(i := unat (refcount m))"
proof -
  obtain sp sp' where sp: "side_pool_of g p = Some sp" "side_pool_of g' p = Some sp'" "i < sp_total sp"
    "sp_pages sp' = (sp_pages sp)[i := m]" "sp_total sp' = sp_total sp"
    using assms(2) by (auto simp: side_written_def)
  moreover have "length (sp_pages sp) = sp_total sp"
    using sides_okD(1) [of g p sp] assms(1) sp(1) by (simp add: gpu_ok_def side_pool_ok_def)
  ultimately show ?thesis by (auto simp: side_count_def fun_eq_iff nth_list_update_if)
qed

lemma side_source:
  assumes p: "p = KIndexerK \<or> p = KHca \<or> p = KSwa"
  shows "page_source (gpu_ok pps) (side_count p) (side_take pps gi p) (drop_side_ref pps p)"
proof
  fix g :: gpu_pool and k :: unit
  assume ok: "gpu_ok pps g"
  obtain sp where sp: "side_pool_of g p = Some sp" using p by (auto simp: side_pool_of_def)
  have "elastic sp \<Longrightarrow> run_slabs sp = 1" using ok sp sides_okD(2,3) [OF _ sp] p by (auto simp: gpu_ok_def)
  then obtain h g' where h: "gpu_allocate_side pps gi p g = Inr (h, g')" "side_result pps gi p g h g'"
    using gpu_allocate_side_ok [OF ok sp] by blast
  show "\<exists>res g'. side_take pps gi p k g = Inr (res, g') \<and> gpu_ok pps g'
      \<and> (case res of None \<Rightarrow> side_count p g' = side_count p g
         | Some i \<Rightarrow> side_count p g i = 0 \<and> side_count p g' = (side_count p g)(i := 1))"
  proof (cases h)
    case None
    with h ok show ?thesis by (simp add: side_take_def side_result_def)
  next
    case (Some h')
    with h(2) sp obtain i where i: "\<not> side_live sp i" "nat (page_idx h') = i"
      and w: "side_written pps p i (claim_meta p (sp_pages sp ! i)) g g'"
      by (auto simp: side_result_def mk_handle_def)
    have "length (sp_pages sp) = sp_total sp"
      using sides_okD(1) [of g p sp] ok sp by (simp add: gpu_ok_def side_pool_ok_def)
    then have "side_count p g i = 0" using i sp by (auto simp: side_count_def side_live_def)
    with h Some i w side_written_count [OF ok w] show ?thesis
      by (simp add: side_take_def side_written_def claim_meta_def)
  qed
next
  fix g :: gpu_pool and i
  assume ok: "gpu_ok pps g" and i: "0 < side_count p g i"
  then obtain sp where sp: "side_pool_of g p = Some sp" "i < sp_total sp" "0 < unat (refcount (sp_pages sp ! i))"
    by (auto simp: side_count_def split: option.splits if_splits)
  have "length (sp_pages sp) = sp_total sp"
    using sides_okD(1) [of g p sp] ok sp by (simp add: gpu_ok_def side_pool_ok_def)
  with sp have live: "side_live sp i" by (simp add: side_live_def unat_gt_0)
  obtain g' where g': "drop_side_ref pps p i g = Inr g'"
    "side_written pps p i (dropped_meta (sp_pages sp ! i)) g g'"
    using drop_side_ref_ok [OF ok sp(1) live] by blast
  have "refcount (dropped_meta m) = refcount m - 1" for m by (simp add: dropped_meta_def)
  then have "unat (refcount (dropped_meta (sp_pages sp ! i))) = side_count p g i - 1"
    using sp unat_pred by (simp add: side_count_def)
  with g' side_written_count [OF ok g'(2)] show "\<exists>g'. drop_side_ref pps p i g = Inr g' \<and> gpu_ok pps g'
      \<and> side_count p g' = (side_count p g)(i := side_count p g i - 1)"
    by (simp add: side_written_def)
qed

interpretation indexer_source:
  page_source "gpu_ok pps" "side_count KIndexerK" "side_take pps gi KIndexerK" "drop_side_ref pps KIndexerK" for pps gi
  by (rule side_source) simp

interpretation hca_source:
  page_source "gpu_ok pps" "side_count KHca" "side_take pps gi KHca" "drop_side_ref pps KHca" for pps gi
  by (rule side_source) simp

interpretation swa_source:
  page_source "gpu_ok pps" "side_count KSwa" "side_take pps gi KSwa" "drop_side_ref pps KSwa" for pps gi
  by (rule side_source) simp

end
