(* ===== verification/Slab_Tenants_Inv.thy ===== *)
theory Slab_Tenants_Inv
  imports Side_Pools_Inv
begin

text \<open>
  The tenants that take runs of whole slabs: expert-zone grants (claimed from the top of the
  region, or at a given position) and the mapped KDA state of a sequence.
\<close>

section \<open>Expert-zone grants\<close>

lemma record_grant_simps [simp]:
  "kv_slabs (record_grant st n g) = kv_slabs g" "kv_free_slabs (record_grant st n g) = kv_free_slabs g"
  "kv_loose_free (record_grant st n g) = kv_loose_free g"
  "kv_free_pages (record_grant st n g) = kv_free_pages g" "kv_runs (record_grant st n g) = kv_runs g"
  "initial_main_pages (record_grant st n g) = initial_main_pages g"
  "expert_zone_runs (record_grant st n g) = (expert_zone_runs g)(st \<mapsto> n)"
  "granted_slabs (ez_stats (record_grant st n g)) = granted_slabs (ez_stats g) + int n"
  "side_pool_of (record_grant st n g) p = side_pool_of g p"
  by (simp_all add: record_grant_def side_pool_of_def split: pool.splits)

lemma region_only_frame:
  fixes g g' :: gpu_pool
  assumes "kv_slabs g' = kv_slabs g" "kv_free_slabs g' = kv_free_slabs g"
    "kv_loose_free g' = kv_loose_free g" "kv_free_pages g' = kv_free_pages g" "kv_runs g' = kv_runs g"
    "initial_main_pages g' = initial_main_pages g" "main_free g' = main_free g"
    "spec_free g' = spec_free g" "pages g' = pages g" "total g' = total g"
    "initial_spec_pages g' = initial_spec_pages g" "main_reserved g' = main_reserved g"
    "spec_reserved g' = spec_reserved g" "base g' = base g" "spec_base g' = spec_base g"
    "bytes_per_page g' = bytes_per_page g"
  shows "pages_frame pps g g'" "main_ok pps g' = main_ok pps g" "side_slabs g' = side_slabs g"
    "kv_slabbed pps g' = kv_slabbed pps g" "region_ok pps g' = region_ok pps g"
proof -
  note R = region_cong [OF assms(6,1-5)]
  show s: "kv_slabbed pps g' = kv_slabbed pps g" by (simp add: kv_slabbed_def assms)
  show "side_slabs g' = side_slabs g" "region_ok pps g' = region_ok pps g" by (rule R)+
  show "main_ok pps g' = main_ok pps g" by (simp add: main_ok_def s R assms)
  show "pages_frame pps g g'" by (simp add: pages_frame_def main_idle_def s R assms)
qed

lemma record_grant_frame:
  "pages_frame pps g (record_grant st n g)" "main_ok pps (record_grant st n g) = main_ok pps g"
  "side_slabs (record_grant st n g) = side_slabs g"
  by (rule region_only_frame; simp add: record_grant_def)+

lemma count_refusal_ok:
  assumes "gpu_ok pps g"
  shows "gpu_ok pps (count_refusal g)"
proof -
  note F = region_only_frame [of "count_refusal g" g]
  have "pages_frame pps g (count_refusal g)" "main_ok pps (count_refusal g) = main_ok pps g"
    "side_slabs (count_refusal g) = side_slabs g"
    by (rule F; simp add: count_refusal_def)+
  moreover have "side_pool_of (count_refusal g) = side_pool_of g" "kv_slabs (count_refusal g) = kv_slabs g"
    "expert_zone_runs (count_refusal g) = expert_zone_runs g"
    "granted_slabs (ez_stats (count_refusal g)) = granted_slabs (ez_stats g)"
    by (simp_all add: count_refusal_def side_pool_of_def fun_eq_iff split: pool.splits)
  ultimately show ?thesis
    using assms
    by (intro side_step_ok [OF assms])
       (simp_all add: gpu_ok_def sides_ok_def leases_ok_def leases_def grants_ok_def)
qed

definition zone_effect :: "nat \<Rightarrow> gpu_pool \<Rightarrow> gpu_pool \<Rightarrow> bool" where
  "zone_effect pps g g' \<longleftrightarrow>
     gpu_ok pps g' \<and> pages_frame pps g g' \<and> (\<forall>p. side_pool_of g' p = side_pool_of g p)
     \<and> kv_pages pps g' = kv_pages pps g"

lemma leases_grant:
  assumes "expert_zone_runs g st = None"
  shows "leases (record_grant st n g) = insert (ZoneTenant, st, n) (leases g)"
  using assms by (intro leases_eqI) (auto simp: leases_iff split: if_splits)

lemma zone_start_fresh:
  assumes "leases_ok g" "st \<notin> side_slabs g"
  shows "expert_zone_runs g st = None"
proof (rule ccontr)
  assume "expert_zone_runs g st \<noteq> None"
  then obtain n where l: "(ZoneTenant, st, n) \<in> leases g" by (auto simp: leases_iff)
  with assms(1) have "lease_slabs (ZoneTenant, st, n) \<noteq> {}" "lease_slabs (ZoneTenant, st, n) \<subseteq> side_slabs g"
    by (simp add: leases_ok_def, intro lease_slabs_side)
  then show False using assms(2) by (simp add: lease_slabs_def subset_iff)
qed

lemma set_slab_run [simp]: "set (slab_run n st) = {st..<st + n}" "distinct (slab_run n st)"
  by (simp_all add: slab_run_def)

lemma grant_ok:
  assumes ok: "gpu_ok pps g" and s: "kv_slabbed pps g" and n: "0 < n"
    and S: "{st..<st + n} \<subseteq> set (kv_free_slabs g)"
  shows "\<exists>g1. claim_side_slabs pps (slab_run n st) g = Inr g1
    \<and> zone_effect pps g (record_grant st n g1)
    \<and> expert_zone_runs (record_grant st n g1) = (expert_zone_runs g)(st \<mapsto> n)
    \<and> expert_zone_runs g st = None
    \<and> kv_free_pages (record_grant st n g1) = kv_free_pages g - int n * int pps
    \<and> side_slabs (record_grant st n g1) = side_slabs g \<union> {st..<st + n}
    \<and> side_slabs g \<inter> {st..<st + n} = {}
    \<and> granted_slabs (ez_stats (record_grant st n g1)) = granted_slabs (ez_stats g) + int n"
proof -
  have R: "region_ok pps g" by (rule gpu_okD(1) [OF ok s])
  obtain g1 where g1: "claim_side_slabs pps (slab_run n st) g = Inr g1" "region_ok pps g1"
    "side_claim_effect pps {st..<st + n} g g1"
    using claim_side_slabs_ok [OF R, of "slab_run n st"] S by auto
  have E: "side_slabs g1 = side_slabs g \<union> {st..<st + n}" "side_slabs g \<inter> {st..<st + n} = {}"
    "kv_pages pps g1 = kv_pages pps g" "kv_loose_free g1 = kv_loose_free g" "same_frame g g1"
    "kv_free_pages g1 = kv_free_pages g - int n * int pps"
    using g1(3) by (simp_all add: side_claim_effect_def)
  have G: "sides_ok g" "leases_ok g" "grants_ok g" "main_ok pps g" using ok by (simp_all add: gpu_ok_def)
  note F = same_frame_gpu [OF E(5)] and P = side_region_frame [OF G(4) s g1(2) E(5,3,4)]
  let ?g = "record_grant st n g1"
  have fresh: "expert_zone_runs g st = None" using E(2) n by (intro zone_start_fresh [OF G(2)]) auto
  have L: "leases ?g = leases g \<union> {(ZoneTenant, st, n)}"
    using leases_grant [of g1 st n] fresh F same_frame_leases [OF E(5)] by simp
  have "leases_ok ?g"
    using L E(1,2) n by (intro leases_add [OF G(2)]) (auto simp: lease_slabs_def record_grant_frame)
  moreover have "sides_ok ?g"
    using P(1) same_frame_side [OF E(5)] by (intro sides_ok_frame [OF G(1)]) (simp_all add: pages_frame_def)
  moreover have "grants_ok ?g"
    using G(3) F sum_map_upd [of "expert_zone_runs g" st int n, OF _ fresh]
    by (simp add: grants_ok_def del: dom_fun_upd) (simp add: grants_ok_def)
  ultimately have "gpu_ok pps ?g"
    using P(2) pages_frame_trans [OF P(1) record_grant_frame(1)]
    by (intro side_step_ok [OF ok]) (simp_all add: record_grant_frame)
  moreover have "pages_frame pps g ?g" using P(1) record_grant_frame(1) by (rule pages_frame_trans)
  moreover have "kv_pages pps ?g = kv_pages pps g1" by (rule region_cong; simp)
  ultimately show ?thesis
    using g1(1) E F fresh same_frame_side [OF E(5)] by (simp add: zone_effect_def record_grant_frame)
qed


lemma free_slabs_unclaimed:
  assumes "region_ok pps r" "\<And>i. i \<in> S \<Longrightarrow> i < length (kv_slabs r) \<and> \<not> slab_claimed r i"
  shows "S \<subseteq> set (kv_free_slabs r)"
  using assms by (auto simp: region_ok_def region_wf_def free_wf_def slab_claimed_def)

text \<open>What a claim of a grant of \<open>n\<close> slabs at \<open>st\<close> achieves.\<close>

definition zone_granted :: "nat \<Rightarrow> nat \<Rightarrow> nat \<Rightarrow> int \<Rightarrow> gpu_pool \<Rightarrow> gpu_pool \<Rightarrow> bool" where
  "zone_granted pps st n extra g g' \<longleftrightarrow>
     zone_effect pps g g' \<and> expert_zone_runs g st = None
     \<and> expert_zone_runs g' = (expert_zone_runs g)(st \<mapsto> n) \<and> 0 < n
     \<and> kv_free_pages g' = kv_free_pages g - int n * int pps
     \<and> main_reserved g + extra \<le> kv_free_pages g'
     \<and> st + n \<le> length (kv_slabs g) \<and> side_slabs g \<inter> {st..<st + n} = {}
     \<and> side_slabs g' = side_slabs g \<union> {st..<st + n}
     \<and> granted_slabs (ez_stats g') = granted_slabs (ez_stats g) + int n"

lemma grant_claim_ok:
  assumes ok: "gpu_ok pps g" and s: "kv_slabbed pps g" and n: "0 < n"
    and fr: "free_run (slab_claimed g) st n" "st + n \<le> length (kv_slabs g)"
    and room: "main_reserved g + extra \<le> kv_free_pages g - int n * int pps"
  shows "\<exists>g1. claim_side_slabs pps (slab_run n st) g = Inr g1
    \<and> zone_granted pps st n extra g (record_grant st n g1)"
proof -
  have "{st..<st + n} \<subseteq> set (kv_free_slabs g)"
    using fr by (intro free_slabs_unclaimed [OF gpu_okD(1) [OF ok s]]) (auto simp: free_run_def)
  from grant_ok [OF ok s n this] fr(2) room n show ?thesis by (auto simp: zone_granted_def)
qed

theorem gpu_claim_expert_zone_ok:
  assumes ok: "gpu_ok pps g"
  shows "\<exists>res g'. gpu_claim_expert_zone pps sb gi num extra g = Inr (res, g')
    \<and> (case res of
         None \<Rightarrow> g' = g \<and> (\<not> kv_slabbed pps g \<or> num \<le> 0)
           \<or> g' = count_refusal g
             \<and> (kv_free_pages g - num * int pps < main_reserved g + extra
                \<or> (\<forall>st. st + nat num \<le> length (kv_slabs g) \<longrightarrow>
                      \<not> free_run (slab_claimed g) st (nat num)))
       | Some z \<Rightarrow> \<exists>st. z = \<lparr>ez_gpu_idx = gi, ez_start_slab = st, ez_num_slabs = nat num,
                             ez_base = base g + int st * sb\<rparr>
           \<and> zone_granted pps st (nat num) extra g g'
           \<and> (\<forall>st'. st < st' \<and> st' + nat num \<le> length (kv_slabs g) \<longrightarrow>
                 \<not> free_run (slab_claimed g) st' (nat num)))"
proof -
  consider (inert) "\<not> kv_slabbed pps g \<or> num \<le> 0"
    | (floor) "kv_slabbed pps g" "0 < num" "kv_free_pages g - num * int pps < main_reserved g + extra"
    | (scan) "kv_slabbed pps g" "0 < num" "main_reserved g + extra \<le> kv_free_pages g - num * int pps"
    by linarith
  then show ?thesis
  proof cases
    case inert
    then have "gpu_claim_expert_zone pps sb gi num extra g = Inr (None, g)"
      by (simp add: gpu_claim_expert_zone_def)
    with inert show ?thesis by simp
  next
    case floor
    then show ?thesis by (simp add: gpu_claim_expert_zone_def)
  next
    case scan
    define n where "n = nat num"
    have n: "0 < n" "num = int n" and nn: "nat num = n" using scan(2) by (simp_all add: n_def)
    have red: "gpu_claim_expert_zone pps sb gi num extra g =
      (case top_run (slab_claimed g) n (length (kv_slabs g)) 0 of
         None \<Rightarrow> Inr (None, count_refusal g)
       | Some start \<Rightarrow>
           rbind (claim_side_slabs pps (slab_run n start) g)
             (\<lambda>g1. Inr (Some \<lparr>ez_gpu_idx = gi, ez_start_slab = start, ez_num_slabs = n,
                                ez_base = base g + int start * sb\<rparr>, record_grant start n g1)))"
      unfolding n_def using scan by (simp add: gpu_claim_expert_zone_def Let_def)
    show ?thesis
    proof (cases "top_run (slab_claimed g) n (length (kv_slabs g)) 0")
      case None
      with top_run_None [OF None n(1)] show ?thesis unfolding red nn by simp
    next
      case (Some st)
      note T = top_run_Some [OF Some n(1)] top_run_topmost [OF Some n(1)]
      obtain g1 where "claim_side_slabs pps (slab_run n st) g = Inr g1"
        "zone_granted pps st n extra g (record_grant st n g1)"
        using grant_claim_ok [OF ok scan(1) n(1), of st extra] T(1) scan(3) n(2) by auto
      with Some T(2) show ?thesis unfolding red nn by auto
    qed
  qed
qed

theorem gpu_claim_expert_zone_at_ok:
  assumes ok: "gpu_ok pps g"
  shows "\<exists>res g'. gpu_claim_expert_zone_at pps st num extra g = Inr (res, g')
    \<and> (if res then 0 \<le> st \<and> zone_granted pps (nat st) (nat num) extra g g'
       else g' = g \<or> g' = count_refusal g)
    \<and> (res \<longleftrightarrow> kv_slabbed pps g \<and> 0 < num \<and> 0 \<le> st \<and> st + num \<le> int (length (kv_slabs g))
            \<and> main_reserved g + extra \<le> kv_free_pages g - num * int pps
            \<and> free_run (slab_claimed g) (nat st) (nat num))"
proof (cases "kv_slabbed pps g \<and> 0 < num \<and> 0 \<le> st \<and> st + num \<le> int (length (kv_slabs g))
    \<and> main_reserved g + extra \<le> kv_free_pages g - num * int pps")
  case False
  then show ?thesis by (auto simp: gpu_claim_expert_zone_at_def)
next
  case True
  define n s where "n = nat num" and "s = nat st"
  have n: "0 < n" "nat num = n" "nat st = s" "num = int n" "s + n \<le> length (kv_slabs g)"
    using True by (auto simp: n_def s_def)
  have ex: "list_ex (slab_claimed g) (slab_run n s) \<longleftrightarrow> \<not> free_run (slab_claimed g) s n"
    by (auto simp: list_ex_iff free_run_def)
  have red: "gpu_claim_expert_zone_at pps st num extra g =
      (if list_ex (slab_claimed g) (slab_run n s) then Inr (False, count_refusal g)
       else rbind (claim_side_slabs pps (slab_run n s) g)
              (\<lambda>g1. Inr (True, record_grant s n g1)))"
    using True by (simp add: gpu_claim_expert_zone_at_def n(2,3) Let_def)
  show ?thesis
  proof (cases "free_run (slab_claimed g) s n")
    case False
    then show ?thesis unfolding red ex n(2,3) by (intro exI [of _ False]) simp
  next
    case fr: True
    obtain g1 where "claim_side_slabs pps (slab_run n s) g = Inr g1"
      "zone_granted pps s n extra g (record_grant s n g1)"
      using grant_claim_ok [OF ok _ n(1) fr n(5), of extra] True n(4) by auto
    with fr True show ?thesis unfolding red ex n(2,3) by (intro exI [of _ True]) simp
  qed
qed

text \<open>Handing a grant back.\<close>

definition drop_grant :: "nat \<Rightarrow> nat \<Rightarrow> gpu_pool \<Rightarrow> gpu_pool" where
  "drop_grant st n g =
     g\<lparr>expert_zone_runs := (expert_zone_runs g)(st := None),
       ez_stats := (ez_stats g)\<lparr>releases := releases (ez_stats g) + 1,
                              granted_slabs := granted_slabs (ez_stats g) - int n\<rparr>\<rparr>"

lemma drop_grant_frame:
  "pages_frame pps g (drop_grant st n g)" "main_ok pps (drop_grant st n g) = main_ok pps g"
  "side_slabs (drop_grant st n g) = side_slabs g" "kv_slabs (drop_grant st n g) = kv_slabs g"
  "kv_pages pps (drop_grant st n g) = kv_pages pps g"
  "side_pool_of (drop_grant st n g) p = side_pool_of g p"
  "expert_zone_runs (drop_grant st n g) = (expert_zone_runs g)(st := None)"
  "granted_slabs (ez_stats (drop_grant st n g)) = granted_slabs (ez_stats g) - int n"
  "kv_free_pages (drop_grant st n g) = kv_free_pages g"
  "kv_free_slabs (drop_grant st n g) = kv_free_slabs g"
  by (rule region_only_frame; simp add: drop_grant_def)
     (rule region_only_frame region_cong; simp add: drop_grant_def
      | simp add: drop_grant_def side_pool_of_def split: pool.splits)+

definition zone_returned :: "nat \<Rightarrow> nat \<Rightarrow> nat \<Rightarrow> gpu_pool \<Rightarrow> gpu_pool \<Rightarrow> bool" where
  "zone_returned pps st n g g' \<longleftrightarrow>
     zone_effect pps g g' \<and> expert_zone_runs g' = (expert_zone_runs g)(st := None)
     \<and> kv_free_pages g' = kv_free_pages g + int n * int pps
     \<and> {st..<st + n} \<subseteq> side_slabs g \<and> side_slabs g' = side_slabs g - {st..<st + n}
     \<and> set (kv_free_slabs g') = set (kv_free_slabs g) \<union> {st..<st + n}
     \<and> granted_slabs (ez_stats g') = granted_slabs (ez_stats g) - int n"

theorem gpu_release_expert_zone_ok:
  assumes ok: "gpu_ok pps g" and z: "expert_zone_runs g st = Some n"
  shows "\<exists>g'. gpu_release_expert_zone pps st n g = Inr g' \<and> zone_returned pps st n g g'"
proof -
  have G: "sides_ok g" "leases_ok g" "grants_ok g" "main_ok pps g" using ok by (simp_all add: gpu_ok_def)
  have l: "(ZoneTenant, st, n) \<in> leases g" using z by (simp add: leases_iff)
  then have sub: "{st..<st + n} \<subseteq> side_slabs g" and ne: "{st..<st + n} \<noteq> {}"
    using lease_slabs_side [OF G(2), of "(ZoneTenant, st, n)"] G(2)
    by (auto simp: lease_slabs_def leases_ok_def)
  then have "kv_slabs g \<noteq> []" by (auto simp: side_slabs_def)
  then have s: "kv_slabbed pps g" using gpu_okD(4) [OF ok] by blast
  obtain g1 where g1: "release_side_slabs pps (slab_run n st) g = Inr g1" "region_ok pps g1"
    "side_release_effect pps {st..<st + n} g g1"
    using release_side_slabs_ok [OF gpu_okD(1) [OF ok s], of "slab_run n st"] sub by auto
  have E: "side_slabs g1 = side_slabs g - {st..<st + n}" "kv_pages pps g1 = kv_pages pps g"
    "kv_loose_free g1 = kv_loose_free g" "same_frame g g1"
    "kv_free_pages g1 = kv_free_pages g + int n * int pps"
    "set (kv_free_slabs g1) = set (kv_free_slabs g) \<union> {st..<st + n}"
    using g1(3) by (simp_all add: side_release_effect_def)
  note F = same_frame_gpu [OF E(4)] and P = side_region_frame [OF G(4) s g1(2) E(4,2,3)]
    and D = drop_grant_frame [where g = g1 and st = st and n = n]
  let ?g = "drop_grant st n g1"
  have "leases ?g = leases g - {(ZoneTenant, st, n)}"
    using z F same_frame_side [OF E(4)]
    by (intro leases_eqI) (auto simp: leases_iff D split: if_splits)
  then have "leases_ok ?g" using E(1) by (intro leases_del [OF G(2) l]) (simp_all add: D lease_slabs_def)
  moreover have "sides_ok ?g"
    using P(1) same_frame_side [OF E(4)] by (intro sides_ok_frame [OF G(1)]) (simp_all add: D pages_frame_def)
  moreover have "grants_ok ?g"
    using G(3) F sum_map_del [of "expert_zone_runs g" st n int, OF _ z]
    by (simp add: grants_ok_def D del: dom_fun_upd) (simp add: grants_ok_def)
  ultimately have gok: "gpu_ok pps ?g"
    using P(2) pages_frame_trans [OF P(1) D(1)] by (intro side_step_ok [OF ok]) (simp_all add: D)
  then have "0 \<le> granted_slabs (ez_stats ?g)"
    unfolding gpu_ok_def grants_ok_def by (simp add: sum_nonneg)
  then have "gpu_release_expert_zone pps st n g = Inr ?g"
    using z g1(1) by (simp add: gpu_release_expert_zone_def drop_grant_def Let_def)
  moreover have "zone_returned pps st n g ?g"
    using gok pages_frame_trans [OF P(1) D(1)] E F same_frame_side [OF E(4)] sub
    by (simp add: zone_returned_def zone_effect_def D)
  ultimately show ?thesis by blast
qed

section \<open>Mapped KDA state\<close>

definition state_meta :: "u64 \<Rightarrow> page_meta \<Rightarrow> page_meta" where
  "state_meta seq m = (claim_meta KKdaState m)\<lparr>sequence_id := seq\<rparr>"

definition claim_states :: "u64 \<Rightarrow> nat list \<Rightarrow> side_pool \<Rightarrow> side_pool" where
  "claim_states seq starts sp = fold (\<lambda>st. upd_side_page st (state_meta seq)) starts sp"

lemma claim_states_simps [simp]:
  "elastic (claim_states seq sts sp) = elastic sp" "run_slabs (claim_states seq sts sp) = run_slabs sp"
  "sp_free (claim_states seq sts sp) = sp_free sp" "sp_total (claim_states seq sts sp) = sp_total sp"
  "length (sp_pages (claim_states seq sts sp)) = length (sp_pages sp)"
  by (induction sts arbitrary: sp) (simp_all add: claim_states_def)

lemma claim_states_pages:
  assumes "distinct sts" "i < length (sp_pages sp)"
  shows "sp_pages (claim_states seq sts sp) ! i =
    (if i \<in> set sts then state_meta seq (sp_pages sp ! i) else sp_pages sp ! i)"
  using assms
proof (induction sts arbitrary: sp)
  case Nil
  then show ?case by (simp add: claim_states_def)
next
  case (Cons st sts)
  then show ?case
    using Cons.IH [of "upd_side_page st (state_meta seq) sp"]
    by (auto simp: claim_states_def nth_list_update_if)
qed

lemma claim_state_metas:
  assumes "distinct sts" "\<forall>st \<in> set sts. st < length (sp_pages (kda_state g))
      \<and> refcount (sp_pages (kda_state g) ! st) = 0"
  shows "rfold (claim_state_meta seq) sts g = Inr (upd_side KKdaState (claim_states seq sts) g)"
  using assms
proof (induction sts arbitrary: g)
  case Nil
  then show ?case
    by (simp add: claim_states_def upd_side_def side_pool_of_def put_side_def)
next
  case (Cons st sts)
  let ?g = "upd_side KKdaState (upd_side_page st (state_meta seq)) g"
  have k: "kda_state ?g = upd_side_page st (state_meta seq) (kda_state g)"
    by (simp add: upd_side_def side_pool_of_def put_side_def)
  have step: "claim_state_meta seq st g = Inr ?g"
    using Cons.prems by (simp add: claim_state_meta_def state_meta_def [abs_def])
  have "rfold (claim_state_meta seq) sts ?g = Inr (upd_side KKdaState (claim_states seq sts) ?g)"
    using Cons.prems by (intro Cons.IH) (auto simp: k nth_list_update)
  then show ?case
    using step by (simp add: upd_side_twice claim_states_def)
qed

definition kda_stats_only :: "nat \<Rightarrow> gpu_pool \<Rightarrow> gpu_pool \<Rightarrow> bool" where
  "kda_stats_only pps g g' \<longleftrightarrow> gpu_ok pps g' \<and> (\<exists>k. g' = g\<lparr>kda_stats := k\<rparr>)"

lemma kda_stats_frame:
  "pages_frame pps g (g\<lparr>kda_stats := k\<rparr>)" "main_ok pps (g\<lparr>kda_stats := k\<rparr>) = main_ok pps g"
  "side_slabs (g\<lparr>kda_stats := k\<rparr>) = side_slabs g"
  "kv_slabbed pps (g\<lparr>kda_stats := k\<rparr>) = kv_slabbed pps g"
  "region_ok pps (g\<lparr>kda_stats := k\<rparr>) = region_ok pps g"
  "side_pool_of (g\<lparr>kda_stats := k\<rparr>) p = side_pool_of g p"
  "kv_pages pps (g\<lparr>kda_stats := k\<rparr>) = kv_pages pps g"
  by (rule region_only_frame region_cong; simp
      | simp add: side_pool_of_def split: pool.splits)+

lemma kda_stats_ok: "gpu_ok pps g \<Longrightarrow> gpu_ok pps (g\<lparr>kda_stats := k\<rparr>)"
  by (rule side_step_ok [of pps g])
     (simp_all add: kda_stats_frame gpu_ok_def sides_ok_def leases_ok_def leases_def grants_ok_def)

lemma kda_stats_onlyI: "gpu_ok pps g \<Longrightarrow> kda_stats_only pps g (g\<lparr>kda_stats := k\<rparr>)"
  by (auto simp: kda_stats_only_def kda_stats_ok)

lemma concat_slab_run: "concat (map (slab_run n) sts) = run_slabs_of n sts"
  by (simp add: run_slabs_of_def slab_run_def [abs_def])

lemma set_run_slabs_of: "set (run_slabs_of n sts) = (\<Union>st \<in> set sts. {st..<st + n})"
  by (induction sts) simp_all

lemma distinct_run_slabs_ofD:
  assumes "distinct (run_slabs_of n sts)" "0 < n"
  shows "distinct sts" "st \<in> set sts \<Longrightarrow> st' \<in> set sts \<Longrightarrow> st \<noteq> st' \<Longrightarrow> {st..<st + n} \<inter> {st'..<st' + n} = {}"
  using assms
proof (induction sts)
  case (Cons a sts)
  case 1
  from 1 Cons have "distinct sts" by simp
  moreover have "a \<notin> set sts"
  proof
    assume "a \<in> set sts"
    with 1(2) have "a \<in> {a..<a + n} \<inter> set (run_slabs_of n sts)" by (auto simp: set_run_slabs_of)
    with 1(1) show False by auto
  qed
  ultimately show ?case by simp
next
  case (Cons a sts)
  case 2
  have "{a..<a + n} \<inter> {x..<x + n} = {}" if "x \<in> set sts" for x
    using 2(4) that by (fastforce simp: set_run_slabs_of)
  with 2 Cons.IH(2) show ?case by (auto simp: Int_commute)
qed simp_all

text \<open>A sequence's mapped state: \<open>units\<close> disjoint runs of \<open>n\<close> slabs, one page each.\<close>

definition state_claimed :: "nat \<Rightarrow> nat \<Rightarrow> u64 \<Rightarrow> nat list \<Rightarrow> gpu_pool \<Rightarrow> gpu_pool \<Rightarrow> bool" where
  "state_claimed pps n seq sts g g' \<longleftrightarrow>
     gpu_ok pps g' \<and> pages_frame pps g g' \<and> kv_pages pps g' = kv_pages pps g
     \<and> distinct (run_slabs_of n sts)
     \<and> set (run_slabs_of n sts) \<inter> side_slabs g = {}
     \<and> side_slabs g' = side_slabs g \<union> set (run_slabs_of n sts)
     \<and> kv_free_pages g' = kv_free_pages g - int (length sts) * int n * int pps
     \<and> main_reserved g' \<le> kv_free_pages g'
     \<and> kda_state g' = claim_states seq sts (kda_state g)
     \<and> (\<forall>st \<in> set sts. st < length (sp_pages (kda_state g)) \<and> \<not> side_live (kda_state g) st)
     \<and> (\<forall>p. p \<noteq> KKdaState \<longrightarrow> side_pool_of g' p = side_pool_of g p)
     \<and> expert_zone_runs g' = expert_zone_runs g"

lemma length_run_slabs_of: "length (run_slabs_of n sts) = length sts * n"
  by (induction sts) simp_all

lemma state_claim_ok:
  assumes ok: "gpu_ok pps g" and s: "kv_slabbed pps g" and n: "0 < n"
    and sp: "elastic (kda_state g)" "run_slabs (kda_state g) = n"
    and sts: "distinct (run_slabs_of n sts)"
      "\<forall>i \<in> set (run_slabs_of n sts). i < length (kv_slabs g) \<and> \<not> slab_claimed g i"
    and room: "main_reserved g \<le> kv_free_pages g - int (length sts) * int n * int pps"
  shows "\<exists>g1. claim_side_slabs pps (run_slabs_of n sts) g = Inr g1
    \<and> rfold (claim_state_meta seq) sts g1 = Inr (upd_side KKdaState (claim_states seq sts) g1)
    \<and> state_claimed pps n seq sts g (upd_side KKdaState (claim_states seq sts) g1)"
proof -
  let ?S = "set (run_slabs_of n sts)" and ?sp = "kda_state g"
  have R: "region_ok pps g" by (rule gpu_okD(1) [OF ok s])
  have G: "sides_ok g" "leases_ok g" "grants_ok g" "main_ok pps g" using ok by (simp_all add: gpu_ok_def)
  have kda: "side_pool_of g KKdaState = Some ?sp" by (simp add: side_pool_of_def)
  have pool: "side_pool_ok (length (kv_slabs g)) ?sp" by (rule sides_okD(1) [OF G(1) kda])
  obtain g1 where g1: "claim_side_slabs pps (run_slabs_of n sts) g = Inr g1" "region_ok pps g1"
    "side_claim_effect pps ?S g g1"
    using claim_side_slabs_ok [OF R sts(1)] free_slabs_unclaimed [OF R, of ?S] sts(2) by blast
  have E: "side_slabs g1 = side_slabs g \<union> ?S" "side_slabs g \<inter> ?S = {}"
    "kv_pages pps g1 = kv_pages pps g" "kv_loose_free g1 = kv_loose_free g" "same_frame g g1"
    "kv_free_pages g1 = kv_free_pages g - int (length sts) * int n * int pps"
    using g1(3) distinct_card [OF sts(1)] by (simp_all add: side_claim_effect_def length_run_slabs_of)
  note F = same_frame_gpu [OF E(5)] and Q = same_frame_side [OF E(5)]
    and P = side_region_frame [OF G(4) s g1(2) E(5,3,4)]
    and D = distinct_run_slabs_ofD [OF sts(1) n]
  have mem: "st \<in> ?S" if "st \<in> set sts" for st using that n by (auto simp: set_run_slabs_of)
  have fresh: "st < length (sp_pages ?sp)" "\<not> side_live ?sp st" if "st \<in> set sts" for st
    using mem [OF that] sts(2) pool sp(1) E(2) not_live_if_free [OF ok kda sp(1), of st]
    by (auto simp: side_pool_ok_def)
  have metas: "rfold (claim_state_meta seq) sts g1 = Inr (upd_side KKdaState (claim_states seq sts) g1)"
    using fresh D(1) by (intro claim_state_metas) (auto simp: F side_live_def)
  let ?g = "upd_side KKdaState (claim_states seq sts) g1" and ?sp' = "claim_states seq sts ?sp"
  have kda1: "side_pool_of g1 KKdaState = Some ?sp" using Q kda by simp
  have live: "side_live ?sp' i \<longleftrightarrow> side_live ?sp i \<or> i \<in> set sts" for i
    using fresh claim_states_pages [OF D(1), of i ?sp seq]
    by (auto simp: side_live_def state_meta_def split: if_splits)
  have "side_pool_ok (length (kv_slabs g1)) ?sp'"
    using pool sp(1) P(1) by (simp add: side_pool_ok_def pages_frame_def)
  moreover have "sides_ok g1"
    using P(1) Q by (intro sides_ok_frame [OF G(1)]) (simp_all add: pages_frame_def)
  ultimately have "sides_ok ?g" by (intro sides_ok_upd [OF _ kda1]) simp_all
  moreover have "leases_ok ?g"
  proof (rule leases_add [OF G(2), where N = "page_lease KKdaState ?sp ` set sts"])
    show "leases ?g = leases g \<union> page_lease KKdaState ?sp ` set sts"
      using kda Q F sp
      by (intro leases_eqI) (auto simp: leases_iff page_lease_def live)
    show "lease_slabs l \<inter> lease_slabs l' = {}"
      if lN: "l \<in> page_lease KKdaState ?sp ` set sts" "l' \<in> page_lease KKdaState ?sp ` set sts" "l \<noteq> l'" for l l'
    proof -
      obtain x y where "l = page_lease KKdaState ?sp x" "l' = page_lease KKdaState ?sp y"
        "x \<in> set sts" "y \<in> set sts" "x \<noteq> y"
        using lN by blast
      with D(2) [of x y] sp show ?thesis by (simp add: page_lease_def lease_slabs_def)
    qed
    show "lease_slabs l \<noteq> {}" if "l \<in> page_lease KKdaState ?sp ` set sts" for l
      using that n sp by (auto simp: page_lease_def lease_slabs_def)
    show "side_slabs ?g = side_slabs g \<union> (\<Union>l\<in>page_lease KKdaState ?sp ` set sts. lease_slabs l)"
      and "side_slabs g \<inter> (\<Union>l\<in>page_lease KKdaState ?sp ` set sts. lease_slabs l) = {}"
      using E(1,2) sp by (simp_all add: page_lease_def lease_slabs_def set_run_slabs_of)
  qed
  moreover have "grants_ok ?g" using G(3) F by (simp add: grants_ok_def)
  ultimately have "gpu_ok pps ?g" using P by (intro side_step_ok [OF ok]) simp_all
  moreover have "kda_state ?g = ?sp'"
    using F by (simp add: upd_side_def side_pool_of_def put_side_def)
  ultimately have "state_claimed pps n seq sts g ?g"
    using P(1) E F Q fresh sts(1) room by (auto simp: state_claimed_def)
  with g1(1) metas show ?thesis by blast
qed

theorem gpu_allocate_kda_mapped_ok:
  assumes ok: "gpu_ok pps g" and s: "kv_slabbed pps g" and un: "0 < units" "0 < n"
    and sp: "elastic (kda_state g)" "run_slabs (kda_state g) = n"
  shows "\<exists>hs g'. gpu_allocate_kda_mapped pps gi units n seq g = Inr (hs, g')
    \<and> (if hs = [] then kda_stats_only pps g g'
       else \<exists>sts. length sts = units \<and> state_claimed pps n seq sts g g'
            \<and> hs = map (\<lambda>st. mk_handle gi st (side_ptr (kda_state g) st) KKdaState) sts)"
proof -
  let ?starts = "top_runs (slab_claimed g) n units (length (kv_slabs g)) 0 []"
  let ?need = "int units * int n * int pps"
  show ?thesis
  proof (cases "kv_free_pages g - ?need < main_reserved g \<or> length ?starts < units")
    case True
    then show ?thesis
      using kda_stats_onlyI [OF ok] un
      by (cases "kv_free_pages g - ?need < main_reserved g") (simp_all add: gpu_allocate_kda_mapped_def Let_def)
  next
    case False
    from top_runs_ok [OF un(2), of "slab_claimed g" "length (kv_slabs g)" units "[]"]
    have T: "distinct (run_slabs_of n ?starts)" "length ?starts \<le> units"
      "\<forall>i \<in> set (run_slabs_of n ?starts). i < length (kv_slabs g) \<and> \<not> slab_claimed g i"
      by auto
    with False have len: "length ?starts = units" by simp
    define k where "k = (kda_stats g)\<lparr>claims := claims (kda_stats g) + 1\<rparr>"
    let ?g0 = "g\<lparr>kda_stats := k\<rparr>"
    obtain g1 where "claim_side_slabs pps (run_slabs_of n ?starts) ?g0 = Inr g1"
      "rfold (claim_state_meta seq) ?starts g1 = Inr (upd_side KKdaState (claim_states seq ?starts) g1)"
      "state_claimed pps n seq ?starts ?g0 (upd_side KKdaState (claim_states seq ?starts) g1)"
      using state_claim_ok [OF kda_stats_ok [OF ok], of k n ?starts seq] s un sp T False len
      by (auto simp: kda_stats_frame slab_claimed_def)
    moreover have "state_claimed pps n seq ?starts g g'" if "state_claimed pps n seq ?starts ?g0 g'" for g'
      using that by (simp add: state_claimed_def kda_stats_frame pages_frame_def main_idle_def)
    ultimately show ?thesis
      using False un len
      by (auto simp: gpu_allocate_kda_mapped_def Let_def concat_slab_run k_def)
  qed
qed

lemma gpu_allocate_kda_mapped_iff:
  assumes r: "gpu_allocate_kda_mapped pps gi units n seq g = Inr (hs, g')" and pos: "0 < units" "0 < n"
  shows "hs \<noteq> [] \<longleftrightarrow>
    main_reserved g \<le> kv_free_pages g - int units * int n * int pps
    \<and> (\<exists>A. disjoint_runs (slab_claimed g) (length (kv_slabs g)) n A \<and> card A = units)"
proof -
  let ?starts = "top_runs (slab_claimed g) n units (length (kv_slabs g)) 0 []"
  have "hs \<noteq> [] \<longleftrightarrow> main_reserved g \<le> kv_free_pages g - int units * int n * int pps \<and> units \<le> length ?starts"
    using r pos by (auto simp: gpu_allocate_kda_mapped_def Let_def res_simps split: if_splits)
  then show ?thesis by (simp only: top_runs_iff [OF pos(2)])
qed

end
