(* ===== verification/Page_Allocator_Inv.thy ===== *)
theory Page_Allocator_Inv
  imports Page_Allocator Slab_Tenants_Inv
begin

text \<open>
  The allocator as a store of reference counts. \<open>refs a\<close> is the abstract state: the count of
  every page of every GPU, keyed by GPU, side pool (or none for the shared main/speculation index
  space) and page index. Each operation on a page that is not replicated is shown to run without
  a fault from a well-formed allocator, to keep it well-formed and to change \<open>refs\<close> only where
  its contract says.
\<close>

section \<open>The abstract state\<close>

type_synonym page_key = "nat \<times> pool option \<times> nat"

definition gpu_refs :: "gpu_pool \<Rightarrow> pool option \<Rightarrow> nat \<Rightarrow> u32" where
  "gpu_refs g q i =
     (case q of
        None \<Rightarrow> if i < length (pages g) then refcount (pages g ! i) else 0
      | Some p \<Rightarrow>
          (case side_pool_of g p of
             None \<Rightarrow> 0
           | Some sp \<Rightarrow> if i < length (sp_pages sp) then refcount (sp_pages sp ! i) else 0))"

definition refs :: "allocator \<Rightarrow> page_key \<Rightarrow> u32" where
  "refs a k = (case k of (gi, q, i) \<Rightarrow> if gi < length (gpus a) then gpu_refs (gpus a ! gi) q i else 0)"

definition key_pool :: "pool \<Rightarrow> pool option" where
  "key_pool p = (if p = KMain \<or> p = KSpeculation then None else Some p)"

definition key_of :: "page_handle \<Rightarrow> page_key" where
  "key_of h = (nat (gpu_idx h), key_pool (handle_pool h), nat (page_idx h))"

text \<open>A handle names a page that exists and has references.\<close>

definition live_handle :: "allocator \<Rightarrow> page_handle \<Rightarrow> bool" where
  "live_handle a h \<longleftrightarrow> valid_gpu a (gpu_idx h) \<and> 0 \<le> page_idx h \<and> refs a (key_of h) \<noteq> 0"

section \<open>The invariant\<close>

definition gpu_inv :: "allocator \<Rightarrow> gpu_pool \<Rightarrow> bool" where
  "gpu_inv a g \<longleftrightarrow>
     gpu_ok (pages_per_slab a) g
     \<and> (elastic (kda_state g) \<longrightarrow> kda_mapped a \<and> run_slabs (kda_state g) = kda_unit_slabs a)"

definition alloc_ok :: "allocator \<Rightarrow> bool" where
  "alloc_ok a \<longleftrightarrow> (\<forall>g \<in> set (gpus a). gpu_inv a g)"

lemma alloc_okD:
  "alloc_ok a \<Longrightarrow> gi < length (gpus a) \<Longrightarrow> gpu_ok (pages_per_slab a) (gpus a ! gi)"
  by (simp add: alloc_ok_def gpu_inv_def)

lemma put_gpu_simps [simp]:
  "dcp (put_gpu gi g a) = dcp a" "pages_per_slab (put_gpu gi g a) = pages_per_slab a"
  "slab_bytes (put_gpu gi g a) = slab_bytes a" "kda_mapped (put_gpu gi g a) = kda_mapped a"
  "kda_unit_slabs (put_gpu gi g a) = kda_unit_slabs a" "kda_num_layers (put_gpu gi g a) = kda_num_layers a"
  "gpus (put_gpu gi g a) = (gpus a)[gi := g]"
  "admissible_ctx_tokens (put_gpu gi g a) = admissible_ctx_tokens a"
  by (simp_all add: put_gpu_def)

lemma put_gpu_ok:
  assumes "alloc_ok a" "gi < length (gpus a)" "gpu_ok (pages_per_slab a) g'"
    "elastic (kda_state g') = elastic (kda_state (gpus a ! gi))"
    "run_slabs (kda_state g') = run_slabs (kda_state (gpus a ! gi))"
  shows "alloc_ok (put_gpu gi g' a)"
proof -
  have "gpu_inv a (gpus a ! gi)" using assms(1,2) by (simp add: alloc_ok_def)
  then have "gpu_inv a g'" using assms by (simp add: gpu_inv_def)
  then show ?thesis using assms(1)
    by (auto simp: alloc_ok_def gpu_inv_def dest!: set_list_updateE)
qed

lemma refs_put_gpu:
  "gi < length (gpus a) \<Longrightarrow> refs (put_gpu gi g a) (gj, q, i) =
     (if gj = gi then gpu_refs g q i else refs a (gj, q, i))"
  by (simp add: refs_def)

lemma refs_put_gpu_eq:
  assumes "gi < length (gpus a)"
    and "\<And>q i. gpu_refs g' q i = (if (q, i) = k then v else gpu_refs (gpus a ! gi) q i)"
  shows "refs (put_gpu gi g' a) = (refs a)(((gi, k) :: page_key) := v)"
proof
  fix x :: page_key
  obtain gj q i where x: "x = (gj, q, i)" by (cases x)
  show "refs (put_gpu gi g' a) x = ((refs a)((gi, k) := v)) x"
    using assms by (auto simp: x refs_put_gpu) (auto simp: refs_def)
qed

text \<open>How the single-GPU effects show in the abstract state.\<close>

lemma page_frame_kda: "page_frame g g' \<Longrightarrow> kda_state g' = kda_state g"
  unfolding page_frame_def side_pool_of_def by (metis option.inject pool.simps(36))

lemma gpu_refs_page_upd:
  assumes "side_pool_of g' = side_pool_of g" "pages g' = (pages g)[p := m]" "p < length (pages g)"
  shows "gpu_refs g' q i = (if (q, i) = (None, p) then refcount m else gpu_refs g q i)"
  using assms by (auto simp: gpu_refs_def nth_list_update_if split: option.splits)

lemma gpu_refs_side_upd:
  assumes "side_written pps p j m g g'" "gpu_ok pps g"
  shows "gpu_refs g' q i = (if (q, i) = (Some p, j) then refcount m else gpu_refs g q i)"
proof -
  from assms(1) obtain sp sp' where sp: "side_pool_of g p = Some sp" "side_pool_of g' p = Some sp'"
    "j < sp_total sp" "sp_pages sp' = (sp_pages sp)[j := m]"
    and rest: "\<And>r. r \<noteq> p \<Longrightarrow> side_pool_of g' r = side_pool_of g r" "pages g' = pages g"
    by (auto simp: side_written_def pages_frame_def)
  have "j < length (sp_pages sp)"
    using sp assms(2) sides_okD(1) [of g p sp] by (simp add: gpu_ok_def side_pool_ok_def)
  with sp rest show ?thesis
    by (cases "q = Some p"; cases q) (auto simp: gpu_refs_def nth_list_update_if)
qed

lemma side_written_kda:
  assumes "side_written pps p j m g g'"
  shows "elastic (kda_state g') = elastic (kda_state g)" "run_slabs (kda_state g') = run_slabs (kda_state g)"
proof -
  have "side_pool_of x KKdaState = Some (kda_state x)" for x by (simp add: side_pool_of_def)
  then show "elastic (kda_state g') = elastic (kda_state g)"
    "run_slabs (kda_state g') = run_slabs (kda_state g)"
    using assms by (cases "p = KKdaState"; fastforce simp: side_written_def)+
qed

section \<open>Allocation\<close>

definition handed_out :: "nat \<Rightarrow> pool \<Rightarrow> allocator \<Rightarrow> page_handle option \<Rightarrow> allocator \<Rightarrow> bool" where
  "handed_out gi p a h a' \<longleftrightarrow>
     (case h of
        None \<Rightarrow> a' = a
      | Some h' \<Rightarrow> alloc_ok a' \<and> gpu_idx h' = int gi \<and> handle_pool h' = p \<and> 0 \<le> page_idx h'
                   \<and> refs a (key_of h') = 0 \<and> refs a' = (refs a)(key_of h' := 1))"

lemma put_gpu_same: "gi < length (gpus a) \<Longrightarrow> put_gpu gi (gpus a ! gi) a = a"
  by (simp add: put_gpu_def)

lemma mk_handle_simps [simp]:
  "gpu_idx (mk_handle gi i ptr p) = int gi" "page_idx (mk_handle gi i ptr p) = int i"
  "gpu_ptr (mk_handle gi i ptr p) = ptr" "handle_pool (mk_handle gi i ptr p) = p"
  by (simp_all add: mk_handle_def)

lemma key_of_mk [simp]: "key_of (mk_handle gi i ptr p) = (gi, key_pool p, i)"
  by (simp add: key_of_def)

lemma key_pool_side: "side_pool_of g p = Some sp \<Longrightarrow> key_pool p = Some p"
  by (cases p) (simp_all add: side_pool_of_def key_pool_def)

lemma page_claimed_refs:
  assumes ok: "alloc_ok a" "gi < length (gpus a)"
    and c: "page_claimed (pages_per_slab a) i m (gpus a ! gi) g'"
  shows "alloc_ok (put_gpu gi g' a)" "refs a (gi, None, i) = 0"
    "refs (put_gpu gi g' a) = (refs a)((gi, None, i) := 1)"
proof -
  let ?g = "gpus a ! gi"
  have fr: "page_frame ?g g'" and pg: "pages g' = (pages ?g)[i := m]" "refcount m = 1" "gpu_ok (pages_per_slab a) g'"
    "i < length (pages ?g)" "\<not> live ?g i"
    using c gpu_okD(5) [OF alloc_okD [OF ok]] by (simp_all add: page_claimed_def)
  show "alloc_ok (put_gpu gi g' a)"
    using pg(3) page_frame_kda [OF fr] by (intro put_gpu_ok [OF ok]) simp_all
  show "refs a (gi, None, i) = 0" using pg(5) ok(2) by (simp add: refs_def gpu_refs_def live_def)
  have sp: "side_pool_of g' = side_pool_of ?g" using fr by (simp add: page_frame_def)
  show "refs (put_gpu gi g' a) = (refs a)((gi, None, i) := 1)"
    using gpu_refs_page_upd [OF sp pg(1,4)] pg(2) by (intro refs_put_gpu_eq [OF ok(2)]) simp
qed

lemma handed_out_page:
  assumes ok: "alloc_ok a" "gi < length (gpus a)" and p: "p = KMain \<or> p = KSpeculation"
    and r: "alloc_result (pages_per_slab a) gi p f (gpus a ! gi) h g'"
  shows "handed_out gi p a h (put_gpu gi g' a)"
proof (cases h)
  case None
  with r show ?thesis by (simp add: handed_out_def put_gpu_same ok)
next
  case (Some h')
  with r obtain i where "h' = mk_handle gi i (page_ptr (gpus a ! gi) i) p"
    and c: "page_claimed (pages_per_slab a) i (f (pages (gpus a ! gi) ! i)) (gpus a ! gi) g'"
    by (auto simp: alloc_result_def)
  with Some p page_claimed_refs [OF ok c] show ?thesis by (auto simp: handed_out_def key_pool_def)
qed

lemma side_written_refs:
  assumes ok: "alloc_ok a" "gi < length (gpus a)"
    and w: "side_written (pages_per_slab a) p i m (gpus a ! gi) g'"
  shows "alloc_ok (put_gpu gi g' a)" "refs (put_gpu gi g' a) = (refs a)((gi, Some p, i) := refcount m)"
proof -
  show "alloc_ok (put_gpu gi g' a)"
    using w side_written_kda [OF w] by (intro put_gpu_ok [OF ok]) (simp_all add: side_written_def)
  show "refs (put_gpu gi g' a) = (refs a)((gi, Some p, i) := refcount m)"
    using gpu_refs_side_upd [OF w alloc_okD [OF ok]] by (intro refs_put_gpu_eq [OF ok(2)]) simp
qed

lemma handed_out_side:
  assumes ok: "alloc_ok a" "gi < length (gpus a)"
    and r: "side_result (pages_per_slab a) gi p (gpus a ! gi) h g'"
  shows "handed_out gi p a h (put_gpu gi g' a)"
proof (cases h)
  case None
  with r show ?thesis by (simp add: side_result_def handed_out_def put_gpu_same ok)
next
  case (Some h')
  with r obtain sp i where sp: "side_pool_of (gpus a ! gi) p = Some sp" "\<not> side_live sp i"
    and h: "h' = mk_handle gi i (side_ptr sp i) p"
    and w: "side_written (pages_per_slab a) p i (claim_meta p (sp_pages sp ! i)) (gpus a ! gi) g'"
    by (auto simp: side_result_def)
  have "refs a (gi, Some p, i) = 0" using sp ok(2) by (auto simp: refs_def gpu_refs_def side_live_def)
  with Some h side_written_refs [OF ok w] key_pool_side [OF sp(1)] show ?thesis
    by (simp add: handed_out_def)
qed

lemma side_alloc_allowed:
  assumes "alloc_ok a" "gi < length (gpus a)" "p = KKdaState \<Longrightarrow> \<not> kda_mapped a"
    "side_pool_of (gpus a ! gi) p = Some sp" "elastic sp"
  shows "run_slabs sp = 1"
proof -
  have "gpu_inv a (gpus a ! gi)" using assms(1,2) by (simp add: alloc_ok_def)
  then have S: "sides_ok (gpus a ! gi)" "elastic (kda_state (gpus a ! gi)) \<Longrightarrow> kda_mapped a"
    by (simp_all add: gpu_inv_def gpu_ok_def)
  show ?thesis
    using sides_okD(2,3) [OF S(1) assms(4)] S(2) assms(3-5)
    by (cases p) (auto simp: side_pool_of_def)
qed

theorem allocate_handed_out:
  assumes ok: "alloc_ok a" and gpu: "valid_gpu a gpu" and kda: "p = KKdaState \<Longrightarrow> \<not> kda_mapped a"
  shows "\<exists>h a'. allocate gpu p a = Inr (h, a') \<and> handed_out (nat gpu) p a h a'"
    "\<exists>h a'. allocate_unreserved gpu p a = Inr (h, a') \<and> handed_out (nat gpu) p a h a'"
proof -
  let ?gi = "nat gpu" and ?pps = "pages_per_slab a"
  have gi: "?gi < length (gpus a)" using gpu by (auto simp: valid_gpu_def)
  note G = alloc_okD [OF ok gi]
  have "(\<exists>h a'. allocate gpu p a = Inr (h, a') \<and> handed_out ?gi p a h a')
    \<and> (\<exists>h a'. allocate_unreserved gpu p a = Inr (h, a') \<and> handed_out ?gi p a h a')"
  proof (cases "side_pool_of (gpus a ! ?gi) p")
    case None
    then have p: "p = KMain \<or> p = KSpeculation" by (simp add: side_pool_of_None)
    obtain h g' h2 g2 where "gpu_allocate ?pps ?gi p (gpus a ! ?gi) = Inr (h, g')"
      "alloc_result ?pps ?gi p (claim_meta p) (gpus a ! ?gi) h g'"
      "gpu_allocate_unreserved ?pps ?gi p (gpus a ! ?gi) = Inr (h2, g2)"
      "alloc_result ?pps ?gi p (claim_meta p) (gpus a ! ?gi) h2 g2"
      using gpu_allocate_ok [OF G p, of ?gi] gpu_allocate_unreserved_ok [OF G p, of ?gi] by blast
    with handed_out_page [OF ok gi p] gpu show ?thesis
      by (simp add: allocate_def allocate_unreserved_def on_gpu'_def)
  next
    case (Some sp)
    obtain h g' where "gpu_allocate_side ?pps ?gi p (gpus a ! ?gi) = Inr (h, g')"
      "side_result ?pps ?gi p (gpus a ! ?gi) h g'"
      using gpu_allocate_side_ok [OF G Some side_alloc_allowed [OF ok gi kda Some]] by blast
    with handed_out_side [OF ok gi] gpu Some show ?thesis
      by (simp add: allocate_def allocate_unreserved_def on_gpu'_def gpu_allocate_def gpu_allocate_unreserved_def)
  qed
  then show "\<exists>h a'. allocate gpu p a = Inr (h, a') \<and> handed_out ?gi p a h a'"
    "\<exists>h a'. allocate_unreserved gpu p a = Inr (h, a') \<and> handed_out ?gi p a h a'" by blast+
qed

theorem allocate_for_sequence_handed_out:
  assumes ok: "alloc_ok a" and gpu: "valid_gpu a gpu" and p: "p = KMain \<or> p = KSpeculation"
  shows "\<exists>h a'. allocate_for_sequence gpu p seq l t t' unres a = Inr (h, a')
    \<and> handed_out (nat gpu) p a h a'
    \<and> (case h of None \<Rightarrow> True | Some h' \<Rightarrow>
         (\<exists>m. meta h' a' = Inr m \<and> sequence_id m = seq \<and> layer_index m = l \<and> token_start m = t
              \<and> token_end m = t' \<and> pool_tag m = p)
         \<and> gpu_ptr h' = page_ptr (gpus a ! nat gpu) (nat (page_idx h')))"
proof -
  let ?gi = "nat gpu" and ?pps = "pages_per_slab a"
  have gi: "?gi < length (gpus a)" using gpu by (auto simp: valid_gpu_def)
  note G = alloc_okD [OF ok gi]
  let ?F = "\<lambda>m. label_meta seq l t t' (claim_meta p m)"
  obtain h g' where r: "gpu_allocate_for_sequence ?pps ?gi p seq l t t' unres (gpus a ! ?gi) = Inr (h, g')"
    "alloc_result ?pps ?gi p ?F (gpus a ! ?gi) h g'"
    using gpu_allocate_for_sequence_ok [OF G p] by blast
  have run: "allocate_for_sequence gpu p seq l t t' unres a = Inr (h, put_gpu ?gi g' a)"
    using gpu r by (simp add: allocate_for_sequence_def on_gpu'_def)
  have ho: "handed_out ?gi p a h (put_gpu ?gi g' a)" by (rule handed_out_page [OF ok gi p r(2)])
  show ?thesis
  proof (cases h)
    case None
    with run ho show ?thesis by simp
  next
    case (Some h')
    with r(2) obtain i where h: "h' = mk_handle ?gi i (page_ptr (gpus a ! ?gi) i) p"
      and c: "page_claimed ?pps i (?F (pages (gpus a ! ?gi) ! i)) (gpus a ! ?gi) g'"
      by (auto simp: alloc_result_def)
    have "side_pool_of g' p = None" using p by (simp add: side_pool_of_None)
    then have "meta h' (put_gpu ?gi g' a) = Inr (?F (pages (gpus a ! ?gi) ! i))"
      using c h gpu gi gpu_okD(5) [OF G]
      by (auto simp: meta_def valid_gpu_def page_claimed_def page_frame_def)
    with run ho Some h show ?thesis by (simp add: label_meta_def)
  qed
qed

section \<open>Reference counts\<close>

text \<open>The page behind a handle is not one of a replicated group.\<close>

definition local_handle :: "allocator \<Rightarrow> page_handle \<Rightarrow> bool" where
  "local_handle a h \<longleftrightarrow>
     key_pool (handle_pool h) \<noteq> None
     \<or> \<not> mirrored a (pages (gpus a ! nat (gpu_idx h)) ! nat (page_idx h))"

lemma live_handleD:
  assumes ok: "alloc_ok a" and h: "live_handle a h"
  defines "gi \<equiv> nat (gpu_idx h)" and "i \<equiv> nat (page_idx h)"
  shows "gi < length (gpus a)" "gpu_ok (pages_per_slab a) (gpus a ! gi)"
    "side_pool_of (gpus a ! gi) (handle_pool h) = None \<Longrightarrow>
       i < total (gpus a ! gi) \<and> live (gpus a ! gi) i \<and> key_of h = (gi, None, i)
       \<and> refs a (gi, None, i) = refcount (pages (gpus a ! gi) ! i)"
    "side_pool_of (gpus a ! gi) (handle_pool h) = Some sp \<Longrightarrow>
       i < sp_total sp \<and> side_live sp i \<and> key_of h = (gi, Some (handle_pool h), i)
       \<and> refs a (gi, Some (handle_pool h), i) = refcount (sp_pages sp ! i)"
proof -
  show gi: "gi < length (gpus a)" using h by (auto simp: live_handle_def valid_gpu_def gi_def)
  show G: "gpu_ok (pages_per_slab a) (gpus a ! gi)" by (rule alloc_okD [OF ok gi])
  have nz: "refs a (key_of h) \<noteq> 0" using h by (simp add: live_handle_def)
  {
    assume n: "side_pool_of (gpus a ! gi) (handle_pool h) = None"
    then have k: "key_of h = (gi, None, i)"
      by (auto simp: key_of_def key_pool_def side_pool_of_None gi_def i_def)
    with nz gi have "i < length (pages (gpus a ! gi))" "refs a (key_of h) = refcount (pages (gpus a ! gi) ! i)"
      by (auto simp: refs_def gpu_refs_def split: if_splits)
    with nz k gpu_okD(5) [OF G] show "i < total (gpus a ! gi) \<and> live (gpus a ! gi) i \<and> key_of h = (gi, None, i)
       \<and> refs a (gi, None, i) = refcount (pages (gpus a ! gi) ! i)"
      by (simp add: live_def)
  }
  {
    assume s: "side_pool_of (gpus a ! gi) (handle_pool h) = Some sp"
    then have k: "key_of h = (gi, Some (handle_pool h), i)"
      using key_pool_side [OF s] by (simp add: key_of_def gi_def i_def)
    with nz gi s have "i < length (sp_pages sp)" "refs a (key_of h) = refcount (sp_pages sp ! i)"
      by (auto simp: refs_def gpu_refs_def split: if_splits)
    moreover have "length (sp_pages sp) = sp_total sp"
      using sides_okD(1) [OF _ s] G by (simp add: gpu_ok_def side_pool_ok_def)
    ultimately show "i < sp_total sp \<and> side_live sp i \<and> key_of h = (gi, Some (handle_pool h), i)
       \<and> refs a (gi, Some (handle_pool h), i) = refcount (sp_pages sp ! i)"
      using nz k by (simp add: side_live_def)
  }
qed

lemma page_released_refs:
  assumes ok: "alloc_ok a" "gi < length (gpus a)" and i: "i < total (gpus a ! gi)"
    and c: "page_released (pages_per_slab a) i (gpus a ! gi) g'"
  shows "alloc_ok (put_gpu gi g' a)"
    "refs (put_gpu gi g' a) = (refs a)((gi, None, i) := refs a (gi, None, i) - 1)"
proof -
  let ?g = "gpus a ! gi"
  have len: "i < length (pages ?g)" using i gpu_okD(5) [OF alloc_okD [OF ok]] by simp
  have fr: "page_frame ?g g'" and g': "gpu_ok (pages_per_slab a) g'" using c by (simp_all add: page_released_def)
  obtain m where m: "pages g' = (pages ?g)[i := m]" "refcount m = refcount (pages ?g ! i) - 1"
    using c by (cases "refcount (pages ?g ! i) = 1") (auto simp: page_released_def Let_def)
  show "alloc_ok (put_gpu gi g' a)"
    using g' page_frame_kda [OF fr] by (intro put_gpu_ok [OF ok]) simp_all
  have sp: "side_pool_of g' = side_pool_of ?g" using fr by (simp add: page_frame_def)
  show "refs (put_gpu gi g' a) = (refs a)((gi, None, i) := refs a (gi, None, i) - 1)"
    using gpu_refs_page_upd [OF sp m(1) len] m(2) len ok(2)
    by (intro refs_put_gpu_eq [OF ok(2)]) (simp add: refs_def gpu_refs_def)
qed

lemma refcount_dropped [simp]: "refcount (dropped_meta m) = refcount m - 1"
  by (simp add: dropped_meta_def)

lemma word_pos_iff: "(0 < (w :: u32)) = (w \<noteq> 0)"
  by (simp add: word_neq_0_conv)

theorem free_releases:
  assumes ok: "alloc_ok a" and h: "live_handle a h" and loc: "local_handle a h"
  shows "\<exists>a'. free h a = Inr a' \<and> alloc_ok a'
    \<and> refs a' = (refs a)(key_of h := refs a (key_of h) - 1)"
proof -
  note D = live_handleD [OF ok h]
  let ?gi = "nat (gpu_idx h)" and ?i = "nat (page_idx h)"
  have v: "valid_gpu a (gpu_idx h)" "0 \<le> page_idx h" using h by (simp_all add: live_handle_def)
  show ?thesis
  proof (cases "side_pool_of (gpus a ! ?gi) (handle_pool h)")
    case None
    note N = D(3) [OF None]
    then obtain g' where "drop_ref (pages_per_slab a) ?i (gpus a ! ?gi) = Inr g'"
      and r: "page_released (pages_per_slab a) ?i (gpus a ! ?gi) g'"
      using drop_ref_ok [OF D(2)] by blast
    moreover have "\<not> mirrored a (pages (gpus a ! ?gi) ! ?i)"
      using loc None by (auto simp: local_handle_def key_pool_def side_pool_of_None)
    ultimately have "free h a = Inr (put_gpu ?gi g' a)"
      using v None N by (simp add: free_def Let_def on_gpu_def live_def word_pos_iff nat_less_iff)
    with page_released_refs [OF ok D(1) _ r] N show ?thesis by simp
  next
    case (Some sp)
    note S = D(4) [OF Some]
    then obtain g' where "drop_side_ref (pages_per_slab a) (handle_pool h) ?i (gpus a ! ?gi) = Inr g'"
      and w: "side_written (pages_per_slab a) (handle_pool h) ?i (dropped_meta (sp_pages sp ! ?i)) (gpus a ! ?gi) g'"
      using drop_side_ref_ok [OF D(2) Some] by blast
    then have "free h a = Inr (put_gpu ?gi g' a)"
      using v Some S by (simp add: free_def Let_def on_gpu_def side_live_def word_pos_iff nat_less_iff)
    with side_written_refs [OF ok D(1) w] S show ?thesis by simp
  qed
qed

theorem add_ref_increments:
  assumes ok: "alloc_ok a" and h: "live_handle a h" and loc: "local_handle a h"
    and max: "refs a (key_of h) \<noteq> - 1"
  shows "\<exists>a'. add_ref h a = Inr a' \<and> alloc_ok a'
    \<and> refs a' = (refs a)(key_of h := refs a (key_of h) + 1)"
proof -
  note D = live_handleD [OF ok h]
  let ?gi = "nat (gpu_idx h)" and ?i = "nat (page_idx h)"
  have v: "valid_gpu a (gpu_idx h)" "0 \<le> page_idx h" using h by (simp_all add: live_handle_def)
  have nz: "w + 1 \<noteq> 0" if "w \<noteq> - 1" for w :: u32
    using that by (metis add_diff_cancel_right' diff_0)
  show ?thesis
  proof (cases "side_pool_of (gpus a ! ?gi) (handle_pool h)")
    case None
    note N = D(3) [OF None]
    let ?g = "gpus a ! ?gi" and ?g' = "upd_page ?i inc_ref (gpus a ! ?gi)"
    have len: "?i < length (pages ?g)" using N gpu_okD(5) [OF D(2)] by simp
    have "\<not> mirrored a (pages ?g ! ?i)"
      using loc None by (auto simp: local_handle_def key_pool_def side_pool_of_None)
    then have run: "add_ref h a = Inr (put_gpu ?gi ?g' a)"
      using v None N by (simp add: add_ref_def Let_def live_def word_pos_iff nat_less_iff)
    have "gpu_ok (pages_per_slab a) ?g'"
      using N nz max by (intro relabel_ok [OF D(2)]) (simp_all add: inc_ref_def)
    then have "alloc_ok (put_gpu ?gi ?g' a)" by (intro put_gpu_ok [OF ok D(1)]) simp_all
    moreover have "refs (put_gpu ?gi ?g' a) = (refs a)((?gi, None, ?i) := refs a (?gi, None, ?i) + 1)"
      using N len D(1)
      by (intro refs_put_gpu_eq [OF D(1)])
         (auto simp: gpu_refs_def refs_def inc_ref_def nth_list_update_if fun_eq_iff split: option.splits)
    ultimately show ?thesis using run N by simp
  next
    case (Some sp)
    note S = D(4) [OF Some]
    have w: "side_written (pages_per_slab a) (handle_pool h) ?i (inc_ref (sp_pages sp ! ?i)) (gpus a ! ?gi)
        (upd_side (handle_pool h) (upd_side_page ?i inc_ref) (gpus a ! ?gi))"
      using S nz max by (intro side_relabel_ok [OF D(2) Some]) (simp_all add: inc_ref_def)
    then show ?thesis
      using side_written_refs [OF ok D(1) w] S v Some
      by (simp add: add_ref_def Let_def side_live_def word_pos_iff nat_less_iff inc_ref_def)
  qed
qed

theorem promote_keeps_refs:
  assumes ok: "alloc_ok a" and h: "live_handle a h" and loc: "local_handle a h"
    and p: "side_pool_of (gpus a ! nat (gpu_idx h)) (handle_pool h) = None"
    and spec: "pool_tag (pages (gpus a ! nat (gpu_idx h)) ! nat (page_idx h)) = KSpeculation"
  shows "\<exists>a'. promote h a = Inr a' \<and> alloc_ok a' \<and> refs a' = refs a
    \<and> (\<exists>m. meta h a = Inr m \<and> meta h a' = Inr (m\<lparr>pool_tag := KMain\<rparr>))"
proof -
  note D = live_handleD [OF ok h]
  note N = D(3) [OF p]
  let ?gi = "nat (gpu_idx h)" and ?i = "nat (page_idx h)"
  let ?g = "gpus a ! ?gi" and ?f = "\<lambda>m. m\<lparr>pool_tag := KMain\<rparr>"
  have v: "valid_gpu a (gpu_idx h)" "0 \<le> page_idx h" using h by (simp_all add: live_handle_def)
  have len: "?i < length (pages ?g)" using N gpu_okD(5) [OF D(2)] by simp
  have "\<not> mirrored a (pages ?g ! ?i)"
    using loc p by (auto simp: local_handle_def key_pool_def side_pool_of_None)
  then have run: "promote h a = Inr (put_gpu ?gi (upd_page ?i ?f ?g) a)"
    using v p N spec by (simp add: promote_def Let_def on_gpu_def live_def word_pos_iff nat_less_iff)
  have "gpu_ok (pages_per_slab a) (upd_page ?i ?f ?g)"
    using N by (intro relabel_ok [OF D(2)]) (simp_all add: live_def)
  then have "alloc_ok (put_gpu ?gi (upd_page ?i ?f ?g) a)" by (intro put_gpu_ok [OF ok D(1)]) simp_all
  moreover have "refs (put_gpu ?gi (upd_page ?i ?f ?g) a) = (refs a)((?gi, None, ?i) := refs a (?gi, None, ?i))"
    using N len D(1)
    by (intro refs_put_gpu_eq [OF D(1)])
       (auto simp: gpu_refs_def refs_def nth_list_update_if split: option.splits)
  moreover have "meta h a = Inr (pages ?g ! ?i)"
    "meta h (put_gpu ?gi (upd_page ?i ?f ?g) a) = Inr (?f (pages ?g ! ?i))"
    using v p N len D(1) by (simp_all add: meta_def valid_gpu_def nat_less_iff)
  ultimately show ?thesis using run by simp
qed

section \<open>Copy-on-write\<close>

definition same_label :: "page_meta \<Rightarrow> page_meta \<Rightarrow> bool" where
  "same_label m m' \<longleftrightarrow>
     layer_index m' = layer_index m \<and> sequence_id m' = sequence_id m
     \<and> token_start m' = token_start m \<and> token_end m' = token_end m"

text \<open>
  A split: a page that had no references becomes the private copy, the shared page loses one
  reference, one device copy from the old page to the new one is issued, and the copy carries
  the old page's labels.
\<close>

definition cow_split ::
    "allocator \<Rightarrow> page_handle \<Rightarrow> page_handle \<Rightarrow> copy_op list \<Rightarrow> allocator \<Rightarrow> bool" where
  "cow_split a h h' ops a' \<longleftrightarrow>
     alloc_ok a' \<and> gpu_idx h' = gpu_idx h \<and> 0 \<le> page_idx h'
     \<and> key_of h' \<noteq> key_of h \<and> refs a (key_of h') = 0
     \<and> refs a' = (refs a)(key_of h' := 1, key_of h := refs a (key_of h) - 1)
     \<and> map copy_dst ops = [gpu_ptr h'] \<and> map copy_src ops = [gpu_ptr h]
     \<and> (\<exists>m m'. meta h a = Inr m \<and> meta h' a' = Inr m' \<and> same_label m m' \<and> refcount m' = 1)"

lemma copy_meta_simps [simp]:
  "refcount (copy_meta o' m) = refcount m" "pool_tag (copy_meta o' m) = pool_tag m"
  "same_label o' (copy_meta o' m)"
  by (simp_all add: copy_meta_def label_meta_def same_label_def)

lemma put_gpu_twice [simp]: "put_gpu gi g' (put_gpu gi g a) = put_gpu gi g' a"
  by (simp add: put_gpu_def)

lemma cow_alloc:
  assumes ok: "gpu_ok pps g" and p: "p = KMain \<or> p = KSpeculation"
  shows "\<exists>nh g1.
    (if p = KMain \<and> kv_slabbed pps g then
       rbind (kv_alloc_page pps seq t True pref g)
         (\<lambda>(res, g1). case res of
            None \<Rightarrow> Inr (None, g1)
          | Some n \<Rightarrow> Inr (Some (mk_handle gi n (page_ptr g1 n) p),
                          upd_page n (\<lambda>m. m\<lparr>refcount := 1, pool_tag := p\<rparr>) g1))
     else gpu_allocate_unreserved pps gi p g) = Inr (nh, g1)
    \<and> (case nh of None \<Rightarrow> g1 = g
       | Some h' \<Rightarrow> \<exists>q m. h' = mk_handle gi q (page_ptr g q) p \<and> page_claimed pps q m g g1
                      \<and> pool_tag m = p)"
proof (cases "p = KMain \<and> kv_slabbed pps g")
  case True
  obtain res g1 where r: "kv_alloc_page pps seq t True pref g = Inr (res, g1)"
    "case res of None \<Rightarrow> g1 = g
     | Some q \<Rightarrow> page_claimed pps q ((pages g ! q)\<lparr>refcount := 1, pool_tag := KMain\<rparr>) g
                   (upd_page q (\<lambda>m. m\<lparr>refcount := 1, pool_tag := KMain\<rparr>) g1)
                 \<and> page_ptr g1 = page_ptr g"
    using slabbed_alloc_ok [OF ok, where f = "\<lambda>m. m\<lparr>refcount := 1, pool_tag := KMain\<rparr>"
        and seq = seq and t = t and unres = True and pref = pref] True
    by (fastforce split: option.splits)
  show ?thesis
  proof (cases res)
    case None
    with r True show ?thesis by simp
  next
    case (Some q)
    let ?m = "(pages g ! q)\<lparr>refcount := 1, pool_tag := KMain\<rparr>"
    from Some r have "page_claimed pps q ?m g (upd_page q (\<lambda>m. m\<lparr>refcount := 1, pool_tag := KMain\<rparr>) g1)"
      "page_ptr g1 = page_ptr g" by simp_all
    moreover have "pool_tag ?m = KMain" by simp
    ultimately show ?thesis using r Some True by (simp, blast)
  qed
next
  case False
  obtain h g1 where a: "gpu_allocate_unreserved pps gi p g = Inr (h, g1)"
    "alloc_result pps gi p (claim_meta p) g h g1"
    using gpu_allocate_unreserved_ok [OF ok p] by blast
  with False show ?thesis
    by (cases h) (auto simp: alloc_result_def intro: claim_meta_simps(2))
qed

lemma meta_page:
  assumes "valid_gpu a (gpu_idx h)" "0 \<le> page_idx h" "g = gpus a ! nat (gpu_idx h)"
    "nat (page_idx h) < total g" "side_pool_of g (handle_pool h) = None"
  shows "meta h a = Inr (pages g ! nat (page_idx h))"
  using assms by (simp add: meta_def Let_def nat_less_iff)

lemma meta_side:
  assumes "valid_gpu a (gpu_idx h)" "0 \<le> page_idx h"
    "side_pool_of (gpus a ! nat (gpu_idx h)) (handle_pool h) = Some sp"
    "nat (page_idx h) < sp_total sp"
  shows "meta h a = Inr (sp_pages sp ! nat (page_idx h))"
  using assms by (simp add: meta_def Let_def nat_less_iff)

lemma valid_gpu_put [simp]: "valid_gpu (put_gpu gi g a) = valid_gpu a"
  by (simp add: valid_gpu_def fun_eq_iff)

lemma cow_local_ok:
  assumes ok: "alloc_ok a" and h: "live_handle a h"
    and n: "side_pool_of (gpus a ! nat (gpu_idx h)) (handle_pool h) = None"
    and many: "refs a (key_of h) \<noteq> 1"
  shows "cow_local h dst a = Inl RuntimeError
    \<or> (\<exists>h' ops a'. cow_local h dst a = Inr (h', ops, a') \<and> cow_split a h h' ops a'
         \<and> map copy_bytes ops = [bytes_per_page (gpus a ! nat (gpu_idx h))])"
proof -
  note D = live_handleD [OF ok h]
  define gi i pps where "gi = nat (gpu_idx h)" and "i = nat (page_idx h)" and "pps = pages_per_slab a"
  define g where "g = gpus a ! gi"
  define old where "old = pages g ! i"
  have gi: "gi < length (gpus a)" and G: "gpu_ok pps g" and key: "key_of h = (gi, None, i)"
    and i: "i < total g" "live g i" "refs a (gi, None, i) = refcount old"
    using D(1,2) D(3) [OF n] by (simp_all add: gi_def i_def g_def pps_def old_def)
  have p: "pool_tag old = KMain \<or> pool_tag old = KSpeculation"
    using G i by (auto simp: gpu_ok_def pages_ok_def old_def)
  have v: "valid_gpu a (gpu_idx h)" "0 \<le> page_idx h" and gi': "gpu_idx h = int gi"
    using h by (simp_all add: live_handle_def gi_def valid_gpu_def)
  let ?A = "if pool_tag old = KMain \<and> kv_slabbed pps g then
       rbind (kv_alloc_page pps (if dst \<noteq> 0 then dst else sequence_id old) (token_start old) True
                (prefer_slab_of pps g i) g)
         (\<lambda>(res, g1). case res of
            None \<Rightarrow> Inr (None, g1)
          | Some n \<Rightarrow> Inr (Some (mk_handle gi n (page_ptr g1 n) (pool_tag old)),
                          upd_page n (\<lambda>m. m\<lparr>refcount := 1, pool_tag := pool_tag old\<rparr>) g1))
     else gpu_allocate_unreserved pps gi (pool_tag old) g"
  obtain nh g1 where alloc: "?A = Inr (nh, g1)"
    and nh: "case nh of None \<Rightarrow> g1 = g
       | Some h' \<Rightarrow> \<exists>q m. h' = mk_handle gi q (page_ptr g q) (pool_tag old) \<and> page_claimed pps q m g g1
                      \<and> pool_tag m = pool_tag old"
    using cow_alloc [OF G p] by blast
  have "cow_local h dst a = rbind ?A (\<lambda>(nh, g1). case nh of
      None \<Rightarrow> Inl RuntimeError
    | Some h' \<Rightarrow>
        rbind (drop_ref pps i (upd_page (nat (page_idx h')) (copy_meta (pages g1 ! i)) g1))
          (\<lambda>g3. Inr (h', [\<lparr>copy_dst = gpu_ptr h', copy_src = gpu_ptr h,
                            copy_bytes = bytes_per_page g\<rparr>], put_gpu gi g3 a)))"
    by (simp only: cow_local_def Let_def gi_def i_def pps_def g_def old_def)
  then have red: "cow_local h dst a = (case nh of
      None \<Rightarrow> Inl RuntimeError
    | Some h' \<Rightarrow>
        rbind (drop_ref pps i (upd_page (nat (page_idx h')) (copy_meta (pages g1 ! i)) g1))
          (\<lambda>g3. Inr (h', [\<lparr>copy_dst = gpu_ptr h', copy_src = gpu_ptr h,
                            copy_bytes = bytes_per_page g\<rparr>], put_gpu gi g3 a)))"
    unfolding alloc by simp
  show ?thesis
  proof (cases nh)
    case None
    then show ?thesis by (simp add: red)
  next
    case (Some h')
    with nh obtain q m where h': "h' = mk_handle gi q (page_ptr g q) (pool_tag old)"
      and c: "page_claimed pps q m g g1" by auto
    have m1: "refcount m = 1" and q: "q < total g" "\<not> live g q" and pg1: "pages g1 = (pages g)[q := m]"
      using c by (simp_all add: page_claimed_def)
    have qi: "q \<noteq> i" using q(2) i(2) by auto
    have len: "length (pages g) = total g" by (rule gpu_okD(5) [OF G])
    let ?g2 = "upd_page q (copy_meta old) g1"
    have c2: "page_claimed pps q (copy_meta old m) g ?g2"
      using m1 by (intro page_claimed_relabel [OF c len]) simp_all
    have g2: "gpu_ok pps ?g2" "total ?g2 = total g" "pages ?g2 = (pages g)[q := copy_meta old m]"
      using c2 by (simp_all add: page_claimed_def page_frame_def)
    have old2: "pages ?g2 ! i = old" unfolding g2(3) using qi by (simp add: old_def)
    have "live ?g2 i" using i(2) old2 by (simp add: live_def old_def)
    then obtain g3 where g3: "drop_ref pps i ?g2 = Inr g3" "page_released pps i ?g2 g3"
      using drop_ref_ok [OF g2(1), of i] i(1) g2(2) by auto
    let ?op = "\<lparr>copy_dst = gpu_ptr h', copy_src = gpu_ptr h, copy_bytes = bytes_per_page g\<rparr>"
    have old1: "pages g1 ! i = old" unfolding pg1 using qi by (simp add: old_def)
    have run: "cow_local h dst a = Inr (h', [?op], put_gpu gi g3 a)"
      using Some g3(1) old1 h' by (simp add: red)
    let ?a2 = "put_gpu gi ?g2 a"
    note R2 = page_claimed_refs [OF ok gi, of q "copy_meta old m" ?g2, folded g_def pps_def, OF c2]
    have a2: "gi < length (gpus ?a2)" "gpus ?a2 ! gi = ?g2" "pages_per_slab ?a2 = pps" "i < total ?g2"
      using gi i(1) g2(2) by (simp_all add: pps_def)
    note R3 = page_released_refs [OF R2(1) a2(1), unfolded a2(2,3), OF a2(4) g3(2), unfolded put_gpu_twice]
    have refs: "refs (put_gpu gi g3 a) = (refs a)((gi, None, q) := 1, (gi, None, i) := refs a (gi, None, i) - 1)"
      using R3(2) R2(3) qi by simp
    have keys: "key_of h' = (gi, None, q)" using p by (auto simp: h' key_pool_def)
    have "refcount old \<noteq> 1" using many key i(3) by simp
    then have pg3: "pages g3 = (pages ?g2)[i := old\<lparr>refcount := refcount old - 1\<rparr>]" and fr3: "page_frame ?g2 g3"
      using g3(2) old2 by (simp_all add: page_released_def Let_def)
    have "meta h a = Inr old"
      using v n i(1) by (simp add: meta_page g_def old_def gi_def i_def)
    moreover have "meta h' (put_gpu gi g3 a) = Inr (copy_meta old m)"
    proof -
      have "total g3 = total g" using fr3 g2(2) by (simp add: page_frame_def)
      moreover have "pages g3 ! q = copy_meta old m"
        using qi q(1) len by (simp add: pg3 g2(3) del: upd_page_simps)
      moreover have "side_pool_of g3 (pool_tag old) = None" using p by (simp add: side_pool_of_None)
      ultimately show ?thesis
        using q(1) v(1) gi gi' by (simp add: meta_def h' valid_gpu_def)
    qed
    ultimately have "cow_split a h h' [?op] (put_gpu gi g3 a)"
      using R3(1) R2(2) refs keys key qi m1 gi'
      by (auto simp: cow_split_def h')
    with run show ?thesis by (auto simp: g_def gi_def)
  qed
qed

lemma side_writtenD:
  assumes "side_written pps p i m g g'" "side_pool_of g p = Some sp" "gpu_ok pps g"
  obtains sp' where "side_pool_of g' p = Some sp'" "sp_pages sp' = (sp_pages sp)[i := m]"
    "i < length (sp_pages sp)" "sp_total sp' = sp_total sp" "gpu_ok pps g'"
    "sp_bytes_per_page sp' = sp_bytes_per_page sp" "length (sp_pages sp) = sp_total sp"
proof -
  have len: "length (sp_pages sp) = sp_total sp"
    using assms(2,3) sides_okD(1) [of g p sp] by (simp add: gpu_ok_def side_pool_ok_def)
  with assms show ?thesis by (auto simp: side_written_def intro: that)
qed

lemma cow_side_ok:
  assumes ok: "alloc_ok a" and h: "live_handle a h"
    and s: "side_pool_of (gpus a ! nat (gpu_idx h)) (handle_pool h) = Some sp"
    and kda: "handle_pool h = KKdaState \<Longrightarrow> \<not> kda_mapped a"
    and many: "refs a (key_of h) \<noteq> 1"
  shows "cow_side h a = Inl RuntimeError
    \<or> (\<exists>h' ops a'. cow_side h a = Inr (h', ops, a') \<and> cow_split a h h' ops a'
         \<and> map copy_bytes ops = [sp_bytes_per_page sp])"
proof -
  note D = live_handleD [OF ok h]
  define gi i pps p where "gi = nat (gpu_idx h)" and "i = nat (page_idx h)"
    and "pps = pages_per_slab a" and "p = handle_pool h"
  define g where "g = gpus a ! gi"
  define old where "old = sp_pages sp ! i"
  have sp: "side_pool_of g p = Some sp" using s by (simp add: g_def gi_def p_def)
  have gi: "gi < length (gpus a)" and G: "gpu_ok pps g" and key: "key_of h = (gi, Some p, i)"
    and i: "i < sp_total sp" "side_live sp i" "refs a (gi, Some p, i) = refcount old"
    using D(1,2) D(4) [OF s] by (simp_all add: gi_def i_def g_def pps_def old_def p_def)
  have v: "valid_gpu a (gpu_idx h)" "0 \<le> page_idx h" and gi': "gpu_idx h = int gi"
    using h by (simp_all add: live_handle_def gi_def valid_gpu_def)
  have nz: "0 < refcount old" and n1: "refcount old \<noteq> 1"
    using i(2,3) many key by (simp_all add: side_live_def old_def word_pos_iff)
  obtain nh g1 where alloc: "gpu_allocate_side pps gi p g = Inr (nh, g1)"
    and nh: "side_result pps gi p g nh g1"
    using gpu_allocate_side_ok [OF G sp side_alloc_allowed [OF ok gi, of p sp], of gi] kda sp
    unfolding g_def p_def by blast
  have "allocate (gpu_idx h) p a = Inr (nh, put_gpu gi g1 a)"
    using alloc v(1) sp by (simp add: allocate_def on_gpu'_def gpu_allocate_def gi_def g_def pps_def)
  moreover have "page_idx h < int (sp_total sp)" using i(1) by (simp add: i_def)
  ultimately have red: "cow_side h a = (case nh of None \<Rightarrow> Inl RuntimeError | Some h' \<Rightarrow>
      let old' = (case side_pool_of g1 p of None \<Rightarrow> fresh_meta | Some sp \<Rightarrow> sp_pages sp ! i);
          g2 = upd_side p (upd_side_page (nat (page_idx h')) (copy_meta old')) g1 in
      rbind (drop_side_ref pps p i g2)
        (\<lambda>g3. Inr (h', [\<lparr>copy_dst = gpu_ptr h', copy_src = gpu_ptr h, copy_bytes = sp_bytes_per_page sp\<rparr>],
                   put_gpu gi g3 a)))"
    using s v(2) nz n1 gi
    by (simp add: cow_side_def Let_def gi_def [symmetric] i_def [symmetric] pps_def [symmetric]
        p_def [symmetric] old_def split: option.split)
  show ?thesis
  proof (cases nh)
    case None
    then show ?thesis by (simp add: red)
  next
    case (Some h')
    with nh sp obtain q where h': "h' = mk_handle gi q (side_ptr sp q) p" and q: "\<not> side_live sp q"
      and w1: "side_written pps p q (claim_meta p (sp_pages sp ! q)) g g1"
      by (auto simp: side_result_def)
    have qi: "q \<noteq> i" using q i(2) by auto
    from w1 sp G obtain sp1 where sp1: "side_pool_of g1 p = Some sp1"
      "sp_pages sp1 = (sp_pages sp)[q := claim_meta p (sp_pages sp ! q)]" "q < length (sp_pages sp)"
      "sp_total sp1 = sp_total sp" "gpu_ok pps g1" by (rule side_writtenD)
    have old1: "sp_pages sp1 ! i = old" using qi by (simp add: sp1(2) old_def)
    let ?m = "copy_meta old (claim_meta p (sp_pages sp ! q))" and ?g2 = "upd_side p (upd_side_page q (copy_meta old)) g1"
    have q1: "sp_pages sp1 ! q = claim_meta p (sp_pages sp ! q)" "side_live sp1 q"
      using sp1(3) by (simp_all add: sp1(2) side_live_def)
    have w2: "side_written pps p q ?m g1 ?g2"
      using side_relabel_ok [OF sp1(5,1) q1(2), of "copy_meta old"] q1(1) by simp
    from w2 sp1(1,5) obtain sp2 where sp2: "side_pool_of ?g2 p = Some sp2" "sp_pages sp2 = (sp_pages sp1)[q := ?m]"
      "sp_total sp2 = sp_total sp1" "gpu_ok pps ?g2" by (rule side_writtenD)
    have old2: "sp_pages sp2 ! i = old" using qi old1 by (simp add: sp2(2))
    have "side_live sp2 i" using i(2) old2 by (simp add: side_live_def sp2(2) sp1(2) old_def)
    then obtain g3 where g3: "drop_side_ref pps p i ?g2 = Inr g3" and w3: "side_written pps p i (dropped_meta old) ?g2 g3"
      using drop_side_ref_ok [OF sp2(4,1), of i] old2 by auto
    from w3 sp2(1,4) obtain sp3 where sp3: "side_pool_of g3 p = Some sp3"
      "sp_pages sp3 = (sp_pages sp2)[i := dropped_meta old]" "sp_total sp3 = sp_total sp2"
      by (rule side_writtenD)
    let ?op = "\<lparr>copy_dst = gpu_ptr h', copy_src = gpu_ptr h, copy_bytes = sp_bytes_per_page sp\<rparr>"
    have run: "cow_side h a = Inr (h', [?op], put_gpu gi g3 a)"
      using Some g3 sp1(1) old1 by (simp add: red h')
    note A1 = side_written_refs [OF ok gi, of p q _ g1, folded g_def pps_def, OF w1]
    have l1: "gi < length (gpus (put_gpu gi g1 a))" "gpus (put_gpu gi g1 a) ! gi = g1"
      "pages_per_slab (put_gpu gi g1 a) = pps" using gi by (simp_all add: pps_def)
    note A2 = side_written_refs [OF A1(1) l1(1), unfolded l1(2,3), OF w2, unfolded put_gpu_twice]
    have l2: "gi < length (gpus (put_gpu gi ?g2 a))" "gpus (put_gpu gi ?g2 a) ! gi = ?g2"
      "pages_per_slab (put_gpu gi ?g2 a) = pps" using gi by (simp_all add: pps_def)
    note A3 = side_written_refs [OF A2(1) l2(1), unfolded l2(2,3), OF w3, unfolded put_gpu_twice]
    have refs: "refs (put_gpu gi g3 a) = (refs a)((gi, Some p, q) := 1, (gi, Some p, i) := refcount old - 1)"
      using A1(2) A2(2) A3(2) by simp
    have keys: "key_of h' = (gi, Some p, q)" using key_pool_side [OF sp] by (simp add: h')
    have r0: "refs a (gi, Some p, q) = 0"
      using q sp gi by (auto simp: refs_def gpu_refs_def side_live_def g_def)
    have "meta h a = Inr old"
      using meta_side [OF v s] i(1) by (simp add: i_def old_def)
    moreover have "meta h' (put_gpu gi g3 a) = Inr ?m"
      using sp3 sp2 sp1 qi gi v(1) gi' G sp sides_okD(1) [of g p sp]
      by (simp add: meta_def h' valid_gpu_def gpu_ok_def side_pool_ok_def)
    ultimately have "cow_split a h h' [?op] (put_gpu gi g3 a)"
      using A3(1) refs keys key qi gi' r0 i(3) by (auto simp: cow_split_def h')
    with run show ?thesis by auto
  qed
qed

text \<open>
  \<^verbatim>\<open>cow_copy\<close> on a page of one GPU: an unshared page is returned as it is, a shared one is
  split, and the only failure is the exception for an exhausted pool.
\<close>

theorem cow_copy_splits:
  assumes ok: "alloc_ok a" and h: "live_handle a h" and loc: "local_handle a h"
    and kda: "handle_pool h = KKdaState \<Longrightarrow> \<not> kda_mapped a"
  shows "if refs a (key_of h) = 1 then cow_copy h dst a = Inr (h, [], a)
    else cow_copy h dst a = Inl RuntimeError
      \<or> (\<exists>h' ops a'. cow_copy h dst a = Inr (h', ops, a') \<and> cow_split a h h' ops a')"
proof -
  note D = live_handleD [OF ok h]
  have v: "valid_gpu a (gpu_idx h)" "0 \<le> page_idx h" using h by (simp_all add: live_handle_def)
  show ?thesis
  proof (cases "side_pool_of (gpus a ! nat (gpu_idx h)) (handle_pool h)")
    case None
    note N = D(3) [OF None]
    have "\<not> mirrored a (pages (gpus a ! nat (gpu_idx h)) ! nat (page_idx h))"
      using loc None by (auto simp: local_handle_def key_pool_def side_pool_of_None)
    then have "cow_copy h dst a = (if refs a (key_of h) = 1 then Inr (h, [], a) else cow_local h dst a)"
      using v None N by (simp add: cow_copy_def Let_def live_def word_pos_iff nat_less_iff)
    with cow_local_ok [OF ok h None, of dst] show ?thesis by auto
  next
    case (Some sp)
    note S = D(4) [OF Some]
    have "cow_copy h dst a = cow_side h a" using v Some by (simp add: cow_copy_def)
    moreover have "cow_side h a = Inr (h, [], a)" if "refs a (key_of h) = 1"
      using that v Some S by (simp add: cow_side_def Let_def nat_less_iff)
    ultimately show ?thesis using cow_side_ok [OF ok h Some kda] by auto
  qed
qed

end
