(* ===== verification/Free_Sequence_Inv.thy ===== *)
theory Free_Sequence_Inv
  imports Page_Allocator_Inv
begin

text \<open>
  Freeing a whole sequence on a GPU: one reference is dropped from every live page labelled with
  the sequence, in the main/speculation index space and in all four side pools, and from no other.
\<close>

definition seq_refs :: "u64 \<Rightarrow> page_meta \<Rightarrow> u32" where
  "seq_refs seq m = (if sequence_id m = seq \<and> refcount m \<noteq> 0 then refcount m - 1 else refcount m)"

definition free_seq_local :: "nat \<Rightarrow> u64 \<Rightarrow> nat \<Rightarrow> gpu_pool \<Rightarrow> gpu_pool res" where
  "free_seq_local pps seq i g =
     (if sequence_id (pages g ! i) = seq \<and> 0 < refcount (pages g ! i) then drop_ref pps i g else Inr g)"

lemma page_released_pages:
  assumes "page_released pps i g g'"
  obtains m where "pages g' = (pages g)[i := m]" "refcount m = refcount (pages g ! i) - 1"
  using assms by (cases "refcount (pages g ! i) = 1") (auto simp: page_released_def Let_def)

lemma free_seq_local_loop:
  assumes "gpu_ok pps g" "distinct xs" "set xs \<subseteq> {..<total g}"
  shows "\<exists>g'. rfold (free_seq_local pps seq) xs g = Inr g' \<and> gpu_ok pps g' \<and> page_frame g g'
    \<and> (\<forall>j < total g. refcount (pages g' ! j) =
         (if j \<in> set xs then seq_refs seq (pages g ! j) else refcount (pages g ! j)))"
  using assms
proof (induction xs arbitrary: g)
  case Nil
  then show ?case by simp
next
  case (Cons x xs)
  have x: "x < total g" and len: "length (pages g) = total g"
    using Cons.prems gpu_okD(5) by auto
  have "\<exists>g1. free_seq_local pps seq x g = Inr g1 \<and> gpu_ok pps g1 \<and> page_frame g g1
      \<and> (\<forall>j. j \<noteq> x \<longrightarrow> pages g1 ! j = pages g ! j) \<and> refcount (pages g1 ! x) = seq_refs seq (pages g ! x)"
  proof (cases "sequence_id (pages g ! x) = seq \<and> refcount (pages g ! x) \<noteq> 0")
    case True
    then obtain g1 where g1: "drop_ref pps x g = Inr g1" "page_released pps x g g1"
      using drop_ref_ok [OF Cons.prems(1) x] by (auto simp: live_def)
    obtain m where "pages g1 = (pages g)[x := m]" "refcount m = refcount (pages g ! x) - 1"
      using g1(2) by (rule page_released_pages)
    with True g1 x len show ?thesis
      by (simp add: free_seq_local_def page_released_def seq_refs_def word_pos_iff)
  next
    case False
    with Cons.prems(1) show ?thesis by (auto simp: free_seq_local_def seq_refs_def word_pos_iff)
  qed
  then obtain g1 where g1: "free_seq_local pps seq x g = Inr g1" "gpu_ok pps g1" "page_frame g g1"
    "\<And>j. j \<noteq> x \<Longrightarrow> pages g1 ! j = pages g ! j" "refcount (pages g1 ! x) = seq_refs seq (pages g ! x)" by blast
  have "total g1 = total g" using g1(3) by (simp add: page_frame_def)
  then obtain g' where "rfold (free_seq_local pps seq) xs g1 = Inr g'" "gpu_ok pps g'" "page_frame g1 g'"
    "\<forall>j < total g. refcount (pages g' ! j) =
       (if j \<in> set xs then seq_refs seq (pages g1 ! j) else refcount (pages g1 ! j))"
    using Cons.IH [OF g1(2)] Cons.prems by auto
  moreover have "pages g1 ! j = pages g ! j" if "j \<in> set xs" for j
    using that g1(4) Cons.prems(2) by (cases "j = x") simp_all
  ultimately show ?case
    using g1 Cons.prems(2) page_frame_trans [OF g1(3)] by (auto split: if_splits)
qed

definition other_pools_kept :: "pool \<Rightarrow> gpu_pool \<Rightarrow> gpu_pool \<Rightarrow> bool" where
  "other_pools_kept p g g' \<longleftrightarrow> pages g' = pages g \<and> (\<forall>q. q \<noteq> p \<longrightarrow> side_pool_of g' q = side_pool_of g q)"

lemma free_seq_side_loop:
  assumes "gpu_ok pps g" "side_pool_of g p = Some sp" "distinct xs" "set xs \<subseteq> {..<sp_total sp}"
  shows "\<exists>g' sp'. rfold (free_sequence_side_page pps seq p) xs g = Inr g' \<and> gpu_ok pps g'
    \<and> other_pools_kept p g g' \<and> side_pool_of g' p = Some sp'
    \<and> sp_total sp' = sp_total sp \<and> elastic sp' = elastic sp \<and> run_slabs sp' = run_slabs sp
    \<and> (\<forall>j < sp_total sp. refcount (sp_pages sp' ! j) =
         (if j \<in> set xs then seq_refs seq (sp_pages sp ! j) else refcount (sp_pages sp ! j)))"
  using assms
proof (induction xs arbitrary: g sp)
  case Nil
  then show ?case by (simp add: other_pools_kept_def)
next
  case (Cons x xs)
  have x: "x < sp_total sp" and len: "length (sp_pages sp) = sp_total sp"
    using Cons.prems sides_okD(1) [of g p sp] by (auto simp: gpu_ok_def side_pool_ok_def)
  have "\<exists>g1 sp1. free_sequence_side_page pps seq p x g = Inr g1 \<and> gpu_ok pps g1 \<and> other_pools_kept p g g1
      \<and> side_pool_of g1 p = Some sp1 \<and> sp_total sp1 = sp_total sp
      \<and> elastic sp1 = elastic sp \<and> run_slabs sp1 = run_slabs sp
      \<and> (\<forall>j. j \<noteq> x \<longrightarrow> sp_pages sp1 ! j = sp_pages sp ! j)
      \<and> refcount (sp_pages sp1 ! x) = seq_refs seq (sp_pages sp ! x)"
  proof (cases "sequence_id (sp_pages sp ! x) = seq \<and> refcount (sp_pages sp ! x) \<noteq> 0")
    case True
    then obtain g1 where g1: "drop_side_ref pps p x g = Inr g1"
      "side_written pps p x (dropped_meta (sp_pages sp ! x)) g g1"
      using drop_side_ref_ok [OF Cons.prems(1,2), of x] x len by (auto simp: side_live_def)
    with True Cons.prems x len show ?thesis
      by (auto simp: free_sequence_side_page_def side_written_def other_pools_kept_def pages_frame_def
          seq_refs_def word_pos_iff Let_def)
  next
    case False
    with Cons.prems show ?thesis
      by (auto simp: free_sequence_side_page_def seq_refs_def word_pos_iff Let_def other_pools_kept_def)
  qed
  then obtain g1 sp1 where g1: "free_sequence_side_page pps seq p x g = Inr g1" "gpu_ok pps g1"
    "other_pools_kept p g g1" "side_pool_of g1 p = Some sp1" "sp_total sp1 = sp_total sp"
    "elastic sp1 = elastic sp" "run_slabs sp1 = run_slabs sp"
    "\<And>j. j \<noteq> x \<Longrightarrow> sp_pages sp1 ! j = sp_pages sp ! j"
    "refcount (sp_pages sp1 ! x) = seq_refs seq (sp_pages sp ! x)" by blast
  obtain g' sp' where "rfold (free_sequence_side_page pps seq p) xs g1 = Inr g'" "gpu_ok pps g'"
    "other_pools_kept p g1 g'" "side_pool_of g' p = Some sp'" "sp_total sp' = sp_total sp1"
    "elastic sp' = elastic sp1" "run_slabs sp' = run_slabs sp1"
    "\<forall>j < sp_total sp1. refcount (sp_pages sp' ! j) =
       (if j \<in> set xs then seq_refs seq (sp_pages sp1 ! j) else refcount (sp_pages sp1 ! j))"
    using Cons.IH [OF g1(2,4)] Cons.prems g1(5) by auto
  moreover have "sp_pages sp1 ! j = sp_pages sp ! j" if "j \<in> set xs" for j
    using that g1(8) Cons.prems(3) by (cases "j = x") simp_all
  ultimately show ?case
    using g1 Cons.prems(3) by (auto simp: other_pools_kept_def split: if_splits)
qed

section \<open>The whole operation\<close>

definition gpu_page :: "gpu_pool \<Rightarrow> pool option \<Rightarrow> nat \<Rightarrow> page_meta option" where
  "gpu_page g q i =
     (case q of
        None \<Rightarrow> if i < length (pages g) then Some (pages g ! i) else None
      | Some p \<Rightarrow>
          (case side_pool_of g p of
             None \<Rightarrow> None
           | Some sp \<Rightarrow> if i < length (sp_pages sp) then Some (sp_pages sp ! i) else None))"

definition seq_gpu_refs :: "u64 \<Rightarrow> gpu_pool \<Rightarrow> pool option \<Rightarrow> nat \<Rightarrow> u32" where
  "seq_gpu_refs seq g q i = (case gpu_page g q i of None \<Rightarrow> 0 | Some m \<Rightarrow> seq_refs seq m)"

definition kda_shape :: "gpu_pool \<Rightarrow> bool \<times> nat" where
  "kda_shape g = (elastic (kda_state g), run_slabs (kda_state g))"

lemma side_pool_pass:
  assumes ok: "gpu_ok pps g" and p: "side_pool_of g p \<noteq> None"
  shows "\<exists>g'. rfold (free_sequence_side_page pps seq p) [0..<side_total g p] g = Inr g' \<and> gpu_ok pps g'
    \<and> other_pools_kept p g g' \<and> kda_shape g' = kda_shape g
    \<and> (\<forall>i. gpu_refs g' (Some p) i = seq_gpu_refs seq g (Some p) i)"
proof -
  obtain sp where sp: "side_pool_of g p = Some sp" using p by auto
  have n: "side_total g p = sp_total sp" by (simp add: side_total_def sp)
  obtain g' sp' where g': "rfold (free_sequence_side_page pps seq p) [0..<side_total g p] g = Inr g'"
    "gpu_ok pps g'" "other_pools_kept p g g'" "side_pool_of g' p = Some sp'" "sp_total sp' = sp_total sp"
    "elastic sp' = elastic sp" "run_slabs sp' = run_slabs sp"
    "\<forall>j < sp_total sp. refcount (sp_pages sp' ! j) = seq_refs seq (sp_pages sp ! j)"
    using free_seq_side_loop [OF ok sp, of "[0..<side_total g p]" seq] n by (auto simp: atLeast0LessThan)
  have len: "length (sp_pages sp) = sp_total sp" "length (sp_pages sp') = sp_total sp"
    using ok g'(2,4,5) sp sides_okD(1) [of g p sp] sides_okD(1) [of g' p sp']
    by (simp_all add: gpu_ok_def side_pool_ok_def)
  have k: "side_pool_of x KKdaState = Some (kda_state x)" for x by (simp add: side_pool_of_def)
  have "kda_shape g' = kda_shape g"
    using g'(3,4,6,7) sp k [of g] k [of g']
    by (cases "p = KKdaState") (auto simp: other_pools_kept_def kda_shape_def)
  moreover have "gpu_refs g' (Some p) i = seq_gpu_refs seq g (Some p) i" for i
    using g'(4,8) sp len by (simp add: gpu_refs_def seq_gpu_refs_def gpu_page_def)
  ultimately show ?thesis using g'(1-3) by blast
qed

lemma side_pools_pass:
  assumes "gpu_ok pps g" "distinct ps" "\<forall>p \<in> set ps. side_pool_of g p \<noteq> None"
  shows "\<exists>g'. rfold (\<lambda>p g. rfold (free_sequence_side_page pps seq p) [0..<side_total g p] g) ps g = Inr g'
    \<and> gpu_ok pps g' \<and> pages g' = pages g \<and> kda_shape g' = kda_shape g
    \<and> (\<forall>q i. gpu_refs g' (Some q) i =
         (if q \<in> set ps then seq_gpu_refs seq g (Some q) i else gpu_refs g (Some q) i))"
  using assms
proof (induction ps arbitrary: g)
  case Nil
  then show ?case by simp
next
  case (Cons p ps)
  obtain g1 where g1: "rfold (free_sequence_side_page pps seq p) [0..<side_total g p] g = Inr g1"
    "gpu_ok pps g1" "other_pools_kept p g g1" "kda_shape g1 = kda_shape g"
    "\<forall>i. gpu_refs g1 (Some p) i = seq_gpu_refs seq g (Some p) i"
    using side_pool_pass [OF Cons.prems(1), of p seq] Cons.prems(3) by auto
  have keep: "side_pool_of g1 q = side_pool_of g q" if "q \<noteq> p" for q
    using g1(3) that by (simp add: other_pools_kept_def)
  have side: "side_pool_of g1 q \<noteq> None \<longleftrightarrow> side_pool_of g q \<noteq> None" for q
    by (cases q) (simp_all add: side_pool_of_def)
  obtain g' where "rfold (\<lambda>p g. rfold (free_sequence_side_page pps seq p) [0..<side_total g p] g) ps g1 = Inr g'"
    "gpu_ok pps g'" "pages g' = pages g1" "kda_shape g' = kda_shape g1"
    "\<forall>q i. gpu_refs g' (Some q) i =
       (if q \<in> set ps then seq_gpu_refs seq g1 (Some q) i else gpu_refs g1 (Some q) i)"
    using Cons.IH [OF g1(2)] Cons.prems(2,3) side by auto
  moreover have "seq_gpu_refs seq g1 (Some q) i = seq_gpu_refs seq g (Some q) i"
    "gpu_refs g1 (Some q) i = gpu_refs g (Some q) i" if "q \<noteq> p" for q i
    using keep [OF that] by (simp_all add: seq_gpu_refs_def gpu_page_def gpu_refs_def)
  moreover have "p \<notin> set ps" using Cons.prems(2) by simp
  moreover have "seq_gpu_refs seq g1 (Some q) i = seq_gpu_refs seq g (Some q) i" if "q \<in> set ps" for q i
    using that calculation by (cases "q = p") simp_all
  ultimately show ?case
    using g1 by (auto simp: other_pools_kept_def split: if_splits)
qed

lemma on_gpu_rfold:
  assumes "gi < length (gpus a)"
  shows "rfold (\<lambda>x. on_gpu gi (f x)) xs a = on_gpu gi (rfold f xs) a"
  using assms
proof (induction xs arbitrary: a)
  case Nil
  then show ?case by (simp add: on_gpu_def put_gpu_same)
next
  case (Cons x xs)
  show ?case
  proof (cases "f x (gpus a ! gi)")
    case (Inl e)
    then show ?thesis by (simp add: on_gpu_def)
  next
    case (Inr g)
    have "rfold (\<lambda>x. on_gpu gi (f x)) xs (put_gpu gi g a) = on_gpu gi (rfold f xs) (put_gpu gi g a)"
      using Cons by simp
    moreover have "on_gpu gi (rfold f xs) (put_gpu gi g a) = rbind (rfold f xs g) (\<lambda>g'. Inr (put_gpu gi g' a))"
      using Cons.prems by (simp add: on_gpu_def)
    moreover have "on_gpu gi (f x) a = Inr (put_gpu gi g a)" using Inr by (simp add: on_gpu_def)
    moreover have "on_gpu gi (rfold f (x # xs)) a = rbind (rfold f xs g) (\<lambda>g'. Inr (put_gpu gi g' a))"
      using Inr by (simp add: on_gpu_def)
    ultimately show ?thesis by (simp del: rfold.simps add: rfold.simps(2) [of "\<lambda>x. on_gpu gi (f x)"])
  qed
qed

lemma rfold_cong_inv:
  assumes "P s" "\<And>x s s'. P s \<Longrightarrow> f x s = Inr s' \<Longrightarrow> P s'" "\<And>x s. P s \<Longrightarrow> f x s = h x s"
  shows "rfold f xs s = rfold h xs s"
  using assms(1)
proof (induction xs arbitrary: s)
  case Nil
  then show ?case by simp
next
  case (Cons x xs)
  have "f x s = h x s" by (rule assms(3) [OF Cons.prems])
  with assms(2) [OF Cons.prems, of x] Cons.IH show ?case by (cases "h x s") simp_all
qed

lemma free_sequence_main_pass:
  assumes ok: "alloc_ok a" and gi: "gi < length (gpus a)" and d: "\<not> dcp_enabled (dcp a)"
  shows "rfold (free_sequence_page gi seq) xs a = on_gpu gi (rfold (free_seq_local (pages_per_slab a) seq) xs) a"
proof -
  let ?pps = "pages_per_slab a"
  let ?P = "\<lambda>b. dcp b = dcp a \<and> pages_per_slab b = ?pps \<and> length (gpus b) = length (gpus a)"
  have eq: "free_sequence_page gi seq x b = on_gpu gi (free_seq_local ?pps seq x) b" if "?P b" for x b
    using that d gi
    by (auto simp: free_sequence_page_def free_seq_local_def mirrored_def on_gpu_def Let_def put_gpu_same)
  have "rfold (free_sequence_page gi seq) xs a = rfold (\<lambda>x. on_gpu gi (free_seq_local ?pps seq x)) xs a"
  proof (rule rfold_cong_inv [where P = ?P])
    show "?P b'" if "?P b" "free_sequence_page gi seq x b = Inr b'" for x b b'
      using that(2) unfolding eq [OF that(1)] using that(1)
      by (auto simp: on_gpu_def res_simps)
  qed (simp_all add: eq)
  also have "\<dots> = on_gpu gi (rfold (free_seq_local ?pps seq) xs) a" by (rule on_gpu_rfold [OF gi])
  finally show ?thesis .
qed

text \<open>The abstract effect on the whole allocator.\<close>

definition page_of :: "allocator \<Rightarrow> page_key \<Rightarrow> page_meta option" where
  "page_of a k = (case k of (gi, q, i) \<Rightarrow> if gi < length (gpus a) then gpu_page (gpus a ! gi) q i else None)"

lemma seq_gpu_refs_page:
  assumes "gpu_ok pps g" "pages g' = pages g" "\<And>p. side_pool_of g' p = side_pool_of g p"
  shows "seq_gpu_refs seq g' q i = seq_gpu_refs seq g q i"
  using assms by (simp add: seq_gpu_refs_def gpu_page_def split: option.splits)

theorem free_sequence_drops:
  assumes ok: "alloc_ok a" and gpu: "valid_gpu a gpu" and d: "\<not> dcp_enabled (dcp a)"
  shows "\<exists>a'. free_sequence gpu seq a = Inr a' \<and> alloc_ok a'
    \<and> (\<forall>k. refs a' k =
         (if fst k = nat gpu then case page_of a k of None \<Rightarrow> 0 | Some m \<Rightarrow> seq_refs seq m else refs a k))"
proof -
  define gi pps where "gi = nat gpu" and "pps = pages_per_slab a"
  define g where "g = gpus a ! gi"
  have gi: "gi < length (gpus a)" using gpu by (auto simp: valid_gpu_def gi_def)
  have G: "gpu_ok pps g" using alloc_okD [OF ok gi] by (simp add: pps_def g_def)
  obtain g1 where g1: "rfold (free_seq_local pps seq) [0..<total g] g = Inr g1" "gpu_ok pps g1"
    "page_frame g g1" "\<forall>j < total g. refcount (pages g1 ! j) = seq_refs seq (pages g ! j)"
    using free_seq_local_loop [OF G, of "[0..<total g]" seq] by (auto simp: atLeast0LessThan)
  have sp: "side_pool_of g1 p = side_pool_of g p" for p using g1(3) by (simp add: page_frame_def)
  obtain g2 where g2: "free_sequence_side pps seq g1 = Inr g2" "gpu_ok pps g2" "pages g2 = pages g1"
    "kda_shape g2 = kda_shape g1"
    "\<forall>q i. gpu_refs g2 (Some q) i =
       (if q \<in> set [KIndexerK, KHca, KSwa, KKdaState] then seq_gpu_refs seq g1 (Some q) i
        else gpu_refs g1 (Some q) i)"
    using side_pools_pass [OF g1(2), of "[KIndexerK, KHca, KSwa, KKdaState]" seq]
    unfolding free_sequence_side_def by (auto simp: side_pool_of_def)
  have run: "free_sequence gpu seq a = Inr (put_gpu gi g2 a)"
    using gpu gi g1(1) g2(1) free_sequence_main_pass [OF ok gi d, of seq "[0..<total g]"]
    by (simp add: free_sequence_def on_gpu_def gi_def [symmetric] g_def [symmetric] pps_def [symmetric])
  have ok2: "alloc_ok (put_gpu gi g2 a)"
    using g2(2,4) page_frame_kda [OF g1(3)]
    by (intro put_gpu_ok [OF ok gi]) (simp_all add: pps_def kda_shape_def g_def)
  have none: "gpu_refs g2 None i = seq_gpu_refs seq g None i" for i
    using g1(3,4) g2(3) gpu_okD(5) [OF G] gpu_okD(5) [OF g1(2)]
    by (simp add: gpu_refs_def seq_gpu_refs_def gpu_page_def page_frame_def)
  have some: "gpu_refs g2 (Some q) i = seq_gpu_refs seq g (Some q) i" for q i
  proof (cases "q = KMain \<or> q = KSpeculation")
    case True
    then have "side_pool_of x q = None" for x by (simp add: side_pool_of_None)
    then show ?thesis by (simp add: seq_gpu_refs_def gpu_page_def gpu_refs_def)
  next
    case False
    then have "q \<in> set [KIndexerK, KHca, KSwa, KKdaState]" by (cases q) simp_all
    with g2(5) show ?thesis by (simp add: seq_gpu_refs_def gpu_page_def sp)
  qed
  have "gpu_refs g2 q i = seq_gpu_refs seq g q i" for q i
    by (cases q) (simp_all add: none some)
  then have "refs (put_gpu gi g2 a) k =
      (if fst k = gi then case page_of a k of None \<Rightarrow> 0 | Some m \<Rightarrow> seq_refs seq m else refs a k)" for k
    using gi by (cases k) (auto simp: refs_put_gpu page_of_def seq_gpu_refs_def g_def)
  with run ok2 show ?thesis by (auto simp: gi_def)
qed

end
