(* ===== verification/Page_Boot.thy ===== *)
theory Page_Boot
  imports Page_Allocator
begin

text \<open>
  Construction of the page allocator from the VRAM layout
  (\<^verbatim>\<open>PageAllocator::PageAllocator\<close> in \<^verbatim>\<open>src/src/core/memory/page_allocator.cpp\<close>). The
  records hold the fields of \<^verbatim>\<open>VramLayout\<close>, \<^verbatim>\<open>GpuVramLayout\<close>, \<^verbatim>\<open>KdaStateLayout\<close> and
  \<^verbatim>\<open>VramRegion\<close> (\<^verbatim>\<open>vram_allocator.h\<close>) that the constructor reads; page counts are
  natural numbers.
\<close>

record kda_state_layout =
  kda_layout_enabled :: bool
  kda_layout_mapped :: bool
  num_layers :: nat
  per_layer_bytes :: int
  slot_bytes :: int

record gpu_vram_layout =
  kv_main_pages :: nat
  kv_speculation_pages :: nat
  indexer_k_pages :: nat
  kv_hca_pages :: nat
  kv_swa_pages :: nat
  kda_state_slots :: nat
  attention_host :: bool
  gpu_admissible_ctx_tokens :: int

record vram_region =
  reg_kv_main :: int
  reg_kv_speculation :: int
  reg_indexer_k :: int
  reg_kv_hca :: int
  reg_kv_swa :: int
  reg_kda_state :: int

record vram_layout =
  layout_slab_bytes :: int
  layout_pages_per_slab :: nat
  kv_bytes_per_page :: int
  indexer_k_bytes_per_page :: int
  hca_bytes_per_page :: int
  swa_bytes_per_page :: int
  kda_layout :: kda_state_layout
  layout_gpus :: "(gpu_vram_layout \<times> vram_region) list"

definition geometry_ok :: "vram_layout \<Rightarrow> bool" where
  "geometry_ok L \<longleftrightarrow>
     layout_slab_bytes L \<le> 0
     \<or> 0 < kv_bytes_per_page L \<and> layout_slab_bytes L mod kv_bytes_per_page L = 0
       \<and> indexer_k_bytes_per_page L \<le> layout_slab_bytes L"

definition init_side :: "int \<Rightarrow> int \<Rightarrow> int \<Rightarrow> nat \<Rightarrow> side_pool" where
  "init_side b bpp stride n =
     \<lparr>sp_base = b, sp_bytes_per_page = bpp, stride_bytes = (if 0 < stride then stride else bpp),
      sp_total = n, sp_free = rev [0..<n], sp_pages = replicate n fresh_meta,
      elastic = False, run_slabs = 1\<rparr>"

definition elastic_side :: "int \<Rightarrow> int \<Rightarrow> int \<Rightarrow> nat \<Rightarrow> nat \<Rightarrow> side_pool" where
  "elastic_side b bpp stride n rs =
     \<lparr>sp_base = b, sp_bytes_per_page = bpp, stride_bytes = stride, sp_total = n, sp_free = [],
      sp_pages = replicate n fresh_meta, elastic = True, run_slabs = rs\<rparr>"

definition kv_slab_managed :: "vram_layout \<Rightarrow> gpu_vram_layout \<Rightarrow> bool" where
  "kv_slab_managed L gl \<longleftrightarrow> 0 < layout_pages_per_slab L \<and> 0 < kv_main_pages gl"

definition init_indexer :: "vram_layout \<Rightarrow> gpu_vram_layout \<Rightarrow> vram_region \<Rightarrow> side_pool res" where
  "init_indexer L gl rg =
     (if kv_slab_managed L gl \<and> 0 < indexer_k_bytes_per_page L then
        (if 0 < indexer_k_pages gl then Inl LogicError
         else Inr (elastic_side (reg_kv_main rg) (indexer_k_bytes_per_page L) (layout_slab_bytes L)
                     (kv_main_pages gl div layout_pages_per_slab L) 1))
      else Inr (init_side (reg_indexer_k rg) (indexer_k_bytes_per_page L) (layout_slab_bytes L)
                  (indexer_k_pages gl)))"

definition kda_on_gpu :: "vram_layout \<Rightarrow> gpu_vram_layout \<Rightarrow> bool" where
  "kda_on_gpu L gl \<longleftrightarrow>
     kda_layout_enabled (kda_layout L) \<and> kda_layout_mapped (kda_layout L) \<and> attention_host gl"

definition unit_slabs_of :: "vram_layout \<Rightarrow> nat" where
  "unit_slabs_of L =
     nat ((per_layer_bytes (kda_layout L) + layout_slab_bytes L - 1) div layout_slab_bytes L)"

definition init_kda :: "vram_layout \<Rightarrow> gpu_vram_layout \<Rightarrow> vram_region \<Rightarrow> side_pool res" where
  "init_kda L gl rg =
     (if kda_on_gpu L gl then
        (if \<not> kv_slab_managed L gl then Inl LogicError
         else if 0 < kda_state_slots gl then Inl LogicError
         else
           let n = kv_main_pages gl div layout_pages_per_slab L in
           if n < num_layers (kda_layout L) * unit_slabs_of L then Inl RuntimeError
           else Inr (elastic_side (reg_kv_main rg) (per_layer_bytes (kda_layout L))
                       (layout_slab_bytes L) n (unit_slabs_of L)))
      else if kda_layout_enabled (kda_layout L) \<and> kda_layout_mapped (kda_layout L)
              \<and> 0 < kda_state_slots gl then Inl LogicError
      else Inr (init_side (reg_kda_state rg) (slot_bytes (kda_layout L)) 0 (kda_state_slots gl)))"

definition shared_region_ok :: "vram_layout \<Rightarrow> gpu_vram_layout \<Rightarrow> vram_region \<Rightarrow> bool" where
  "shared_region_ok L gl rg \<longleftrightarrow>
     (0 < layout_slab_bytes L \<and> 0 < indexer_k_pages gl \<longrightarrow>
        reg_kv_main rg - reg_indexer_k rg = int (indexer_k_pages gl) * layout_slab_bytes L
        \<and> (0 < layout_pages_per_slab L \<longrightarrow> kv_main_pages gl mod layout_pages_per_slab L = 0))"

definition zero_kda_stats :: kda_mapped_stats where
  "zero_kda_stats = \<lparr>claims = 0, refusals_capacity = 0, refusals_contiguity = 0,
     last_found_runs = -1, last_needed_runs = 0, last_free_slabs = 0, last_was_contiguity = False\<rparr>"

definition zero_ez_stats :: expert_zone_stats where
  "zero_ez_stats = \<lparr>grants = 0, releases = 0, refusals = 0, granted_slabs = 0\<rparr>"

definition boot_pool ::
    "vram_layout \<Rightarrow> gpu_vram_layout \<Rightarrow> vram_region \<Rightarrow> side_pool \<Rightarrow> side_pool \<Rightarrow> gpu_pool" where
  "boot_pool L gl rg ik kda =
     (let im = kv_main_pages gl; sp = kv_speculation_pages gl;
          managed = kv_slab_managed L gl; n_slabs = im div layout_pages_per_slab L in
      \<lparr>initial_main_pages = im, main_reserved = 0,
       kv_slabs = (if managed then replicate n_slabs fresh_slab else []),
       kv_free_slabs = (if managed then rev [0..<n_slabs] else []),
       kv_loose_free = [], kv_free_pages = (if managed then int im else 0), kv_runs = Map.empty,
       base = reg_kv_main rg, spec_base = reg_kv_speculation rg,
       bytes_per_page = kv_bytes_per_page L, initial_spec_pages = sp, total = im + sp,
       main_free = (if managed then [] else rev [0..<im]), spec_free = rev [im..<im + sp],
       pages = replicate (im + sp) fresh_meta, spec_reserved = 0,
       indexer_k = ik,
       hca = init_side (reg_kv_hca rg) (hca_bytes_per_page L) 0 (kv_hca_pages gl),
       swa = init_side (reg_kv_swa rg) (swa_bytes_per_page L) 0 (kv_swa_pages gl),
       kda_state = kda, kda_stats = zero_kda_stats, expert_zone_runs = Map.empty,
       ez_stats = zero_ez_stats\<rparr>)"

definition init_gpu :: "vram_layout \<Rightarrow> gpu_vram_layout \<Rightarrow> vram_region \<Rightarrow> gpu_pool res" where
  "init_gpu L gl rg =
     (if kv_slab_managed L gl \<and> kv_main_pages gl mod layout_pages_per_slab L \<noteq> 0 then Inl LogicError
      else rbind (init_indexer L gl rg)
        (\<lambda>ik. rbind (init_kda L gl rg)
          (\<lambda>kda. if shared_region_ok L gl rg then Inr (boot_pool L gl rg ik kda)
                  else Inl LogicError)))"

definition boot_gpu ::
    "vram_layout \<Rightarrow> gpu_vram_layout \<times> vram_region \<Rightarrow> allocator \<Rightarrow> allocator res" where
  "boot_gpu L lr a =
     (let gl = fst lr; adm = gpu_admissible_ctx_tokens gl;
          a1 = (if attention_host gl \<and> 0 < adm
                then a\<lparr>admissible_ctx_tokens :=
                        (if 0 < admissible_ctx_tokens a then min (admissible_ctx_tokens a) adm
                         else adm)\<rparr>
                else a) in
      rbind (init_gpu L gl (snd lr))
        (\<lambda>g. let a2 = a1\<lparr>gpus := gpus a1 @ [g]\<rparr> in
             Inr (if kda_on_gpu L gl
                  then a2\<lparr>kda_mapped := True, kda_unit_slabs := unit_slabs_of L\<rparr> else a2)))"

definition empty_allocator :: "vram_layout \<Rightarrow> allocator" where
  "empty_allocator L =
     \<lparr>gpus = [], dcp = default_dcp, slab_bytes = layout_slab_bytes L,
      pages_per_slab = layout_pages_per_slab L, kda_num_layers = num_layers (kda_layout L),
      kda_mapped = False, kda_unit_slabs = 0, admissible_ctx_tokens = 0\<rparr>"

definition page_allocator :: "vram_layout \<Rightarrow> bool \<Rightarrow> allocator res" where
  "page_allocator L has_backend =
     (if \<not> has_backend then Inl InvalidArgument
      else if \<not> geometry_ok L then Inl LogicError
      else rfold (boot_gpu L) (layout_gpus L) (empty_allocator L))"

end
