(* ===== verification/Page_Boot_Inv.thy ===== *)
theory Page_Boot_Inv
  imports Page_Boot Slab_Tenants_Inv
begin

text \<open>
  The constructor establishes the invariant: every GPU of a freshly constructed allocator is
  well-formed, all pages are idle, and a layout that violates one of the boot gates is refused
  with the exception the source throws.
\<close>

definition layout_sane :: "vram_layout \<Rightarrow> bool" where
  "layout_sane L \<longleftrightarrow>
     (0 < layout_pages_per_slab L \<longrightarrow> 0 < layout_slab_bytes L)
     \<and> (kda_layout_enabled (kda_layout L) \<longrightarrow> 0 < per_layer_bytes (kda_layout L))"

lemma fresh_slab_simps [simp]:
  "claimed fresh_slab = False" "used fresh_slab = 0" "bump fresh_slab = 0" "holes fresh_slab = []"
  by (simp_all add: fresh_slab_def)

lemma fresh_meta_simps [simp]: "refcount fresh_meta = 0"
  by (simp add: fresh_meta_def)

lemma sum_list_replicate_int: "sum_list (replicate n (c :: int)) = int n * c"
  by (induction n) (simp_all add: algebra_simps)

lemma init_side_ok: "side_pool_ok slabs (init_side b bpp stride n)"
  by (auto simp: side_pool_ok_def init_side_def side_live_def)

lemma elastic_side_boot_ok: "0 < rs \<Longrightarrow> side_pool_ok n (elastic_side b bpp stride n rs)"
  by (simp add: side_pool_ok_def elastic_side_def)

lemma boot_side_not_live [simp]:
  "\<not> side_live (init_side b bpp stride n) i" "\<not> side_live (elastic_side b bpp stride n rs) i"
  by (simp_all add: side_live_def init_side_def elastic_side_def)

lemma boot_side_fields [simp]:
  "elastic (init_side b bpp stride n) = False" "elastic (elastic_side b bpp stride n rs)"
  "run_slabs (elastic_side b bpp stride n rs) = rs"
  by (simp_all add: init_side_def elastic_side_def)

lemma boot_pool_fields [simp]:
  "initial_main_pages (boot_pool L gl rg ik kda) = kv_main_pages gl"
  "main_reserved (boot_pool L gl rg ik kda) = 0" "spec_reserved (boot_pool L gl rg ik kda) = 0"
  "kv_slabs (boot_pool L gl rg ik kda) =
     (if kv_slab_managed L gl then replicate (kv_main_pages gl div layout_pages_per_slab L) fresh_slab else [])"
  "kv_free_slabs (boot_pool L gl rg ik kda) =
     (if kv_slab_managed L gl then rev [0..<kv_main_pages gl div layout_pages_per_slab L] else [])"
  "kv_loose_free (boot_pool L gl rg ik kda) = []" "kv_runs (boot_pool L gl rg ik kda) = Map.empty"
  "kv_free_pages (boot_pool L gl rg ik kda) = (if kv_slab_managed L gl then int (kv_main_pages gl) else 0)"
  "pages (boot_pool L gl rg ik kda) = replicate (kv_main_pages gl + kv_speculation_pages gl) fresh_meta"
  "total (boot_pool L gl rg ik kda) = kv_main_pages gl + kv_speculation_pages gl"
  "initial_spec_pages (boot_pool L gl rg ik kda) = kv_speculation_pages gl"
  "main_free (boot_pool L gl rg ik kda) = (if kv_slab_managed L gl then [] else rev [0..<kv_main_pages gl])"
  "spec_free (boot_pool L gl rg ik kda) = rev [kv_main_pages gl..<kv_main_pages gl + kv_speculation_pages gl]"
  "expert_zone_runs (boot_pool L gl rg ik kda) = Map.empty"
  "granted_slabs (ez_stats (boot_pool L gl rg ik kda)) = 0"
  "indexer_k (boot_pool L gl rg ik kda) = ik" "kda_state (boot_pool L gl rg ik kda) = kda"
  by (simp_all add: boot_pool_def Let_def zero_ez_stats_def)

lemma boot_pool_sides:
  "side_pool_of (boot_pool L gl rg ik kda) p =
     (case p of KIndexerK \<Rightarrow> Some ik | KKdaState \<Rightarrow> Some kda
      | KHca \<Rightarrow> Some (init_side (reg_kv_hca rg) (hca_bytes_per_page L) 0 (kv_hca_pages gl))
      | KSwa \<Rightarrow> Some (init_side (reg_kv_swa rg) (swa_bytes_per_page L) 0 (kv_swa_pages gl))
      | _ \<Rightarrow> None)"
  by (simp add: side_pool_of_def boot_pool_def Let_def split: pool.splits)

lemma boot_region:
  assumes "kv_slab_managed L gl" "kv_main_pages gl mod layout_pages_per_slab L = 0"
  shows "region_ok (layout_pages_per_slab L) (boot_pool L gl rg ik kda)"
    "kv_pages (layout_pages_per_slab L) (boot_pool L gl rg ik kda) = {}"
    "kv_slabbed (layout_pages_per_slab L) (boot_pool L gl rg ik kda)"
proof -
  let ?g = "boot_pool L gl rg ik kda" and ?pps = "layout_pages_per_slab L"
  have pps: "0 < ?pps" and im: "0 < kv_main_pages gl" using assms(1) by (simp_all add: kv_slab_managed_def)
  have len: "kv_main_pages gl div ?pps * ?pps = kv_main_pages gl"
    using assms(2) by (metis add_0_right div_mult_mod_eq)
  have nr: "\<not> in_run ?g i" for i by (simp add: in_run_def run_ids_def)
  show "region_ok ?pps ?g"
    using assms(1) pps len
    by (auto simp: region_ok_def region_defs no_idle_slab_def slab_wf_def slab_room_def run_ids_def
        map_replicate sum_list_replicate_int simp flip: of_nat_mult)
  show "kv_pages ?pps ?g = {}" by (simp add: kv_pages_def nr)
  have "kv_main_pages gl div ?pps \<noteq> 0" using len im by (metis mult_0 not_less_zero)
  then show "kv_slabbed ?pps ?g"
    using assms(1) pps by (simp add: kv_slabbed_def)
qed

lemma boot_pool_ok:
  assumes mod: "kv_slab_managed L gl \<Longrightarrow> kv_main_pages gl mod layout_pages_per_slab L = 0"
    and ik: "side_pool_ok (length (kv_slabs (boot_pool L gl rg ik kda))) ik" "\<And>i. \<not> side_live ik i"
      "elastic ik \<Longrightarrow> run_slabs ik = 1"
    and kda: "side_pool_ok (length (kv_slabs (boot_pool L gl rg ik kda))) kda" "\<And>i. \<not> side_live kda i"
  shows "gpu_ok (layout_pages_per_slab L) (boot_pool L gl rg ik kda)"
proof -
  let ?g = "boot_pool L gl rg ik kda" and ?pps = "layout_pages_per_slab L"
  have slabbed: "kv_slabbed ?pps ?g = kv_slab_managed L gl"
    using boot_region(3) [OF _ mod] by (auto simp: kv_slabbed_def)
  have idle: "main_idle ?pps ?g = {p. p < kv_main_pages gl}"
    using boot_region(2) [OF _ mod] by (auto simp: main_idle_def slabbed)
  have "main_ok ?pps ?g"
    using boot_region(1) [OF _ mod] by (simp add: main_ok_def slabbed)
  moreover have "pages_ok ?pps ?g"
    by (auto simp: pages_ok_def idle live_def)
  moreover have "sides_ok ?g"
    using ik kda init_side_ok by (auto simp: sides_ok_def boot_pool_sides split: pool.splits)
  moreover have "leases ?g = {}"
    using ik(2) kda(2) by (intro leases_eqI) (auto simp: leases_iff boot_pool_sides split: pool.splits)
  then have "leases_ok ?g" by (auto simp: leases_ok_def side_slabs_def nth_append)
  ultimately show ?thesis by (simp add: gpu_ok_def grants_ok_def reserve_ok_def)
qed

lemma unit_slabs_pos:
  assumes "layout_sane L" "kda_on_gpu L gl" "kv_slab_managed L gl"
  shows "0 < unit_slabs_of L"
proof -
  have "0 < layout_slab_bytes L" "0 < per_layer_bytes (kda_layout L)"
    using assms by (simp_all add: layout_sane_def kda_on_gpu_def kv_slab_managed_def)
  then have "1 * layout_slab_bytes L \<le> per_layer_bytes (kda_layout L) + layout_slab_bytes L - 1"
    and b: "0 < layout_slab_bytes L" by simp_all
  then have "1 \<le> (per_layer_bytes (kda_layout L) + layout_slab_bytes L - 1) div layout_slab_bytes L"
    using zdiv_mono1 [of "1 * layout_slab_bytes L" _ "layout_slab_bytes L"] by fastforce
  then show ?thesis by (simp add: unit_slabs_of_def)
qed

lemma init_gpu_ok:
  assumes sane: "layout_sane L" and g: "init_gpu L gl rg = Inr g"
  shows "gpu_ok (layout_pages_per_slab L) g" "live_pages g = {}"
    "elastic (kda_state g) \<longleftrightarrow> kda_on_gpu L gl"
    "elastic (kda_state g) \<Longrightarrow> run_slabs (kda_state g) = unit_slabs_of L"
proof -
  from g obtain ik kda where ik: "init_indexer L gl rg = Inr ik" and kda: "init_kda L gl rg = Inr kda"
    and mod: "kv_slab_managed L gl \<Longrightarrow> kv_main_pages gl mod layout_pages_per_slab L = 0"
    and eq: "g = boot_pool L gl rg ik kda"
    by (auto simp: init_gpu_def res_simps split: if_splits)
  have ik_ok: "side_pool_ok (length (kv_slabs (boot_pool L gl rg ik kda))) ik" "\<And>i. \<not> side_live ik i"
    "elastic ik \<Longrightarrow> run_slabs ik = 1"
    using ik init_side_ok elastic_side_boot_ok by (auto simp: init_indexer_def split: if_splits)
  have kda_ok: "side_pool_ok (length (kv_slabs (boot_pool L gl rg ik kda))) kda"
    "\<And>i. \<not> side_live kda i" "elastic kda \<longleftrightarrow> kda_on_gpu L gl"
    "elastic kda \<Longrightarrow> run_slabs kda = unit_slabs_of L"
    using kda init_side_ok elastic_side_boot_ok unit_slabs_pos [OF sane]
    by (auto simp: init_kda_def Let_def split: if_splits)
  show "gpu_ok (layout_pages_per_slab L) g"
    unfolding eq by (rule boot_pool_ok [OF mod ik_ok kda_ok(1,2)])
  show "live_pages g = {}" by (auto simp: eq live_pages_def live_def)
  show "elastic (kda_state g) \<longleftrightarrow> kda_on_gpu L gl"
    "elastic (kda_state g) \<Longrightarrow> run_slabs (kda_state g) = unit_slabs_of L"
    using kda_ok by (simp_all add: eq)
qed

end
