(* ===== verification/Allocator_Machine.thy ===== *)
theory Allocator_Machine
  imports Free_Sequence_Inv Page_Boot_Inv
begin

text \<open>
  The allocator of one tensor-parallel rank as a state machine: the states reachable from a
  constructed allocator by any sequence of its operations, each called with arguments that satisfy
  its contract, and the invariant that all of them satisfy. Replicated KV (DCP enabled) is in theory
  \<open>Replicated_Inv\<close>.
\<close>

section \<open>Whole-slab tenants at the allocator\<close>

lemma zone_effect_refs:
  assumes ok: "alloc_ok a" "gi < length (gpus a)" and z: "zone_effect (pages_per_slab a) (gpus a ! gi) g'"
  shows "alloc_ok (put_gpu gi g' a)" "refs (put_gpu gi g' a) = refs a"
proof -
  let ?g = "gpus a ! gi"
  have sp: "side_pool_of g' = side_pool_of ?g" and g': "gpu_ok (pages_per_slab a) g'" and pg: "pages g' = pages ?g"
    using z by (simp_all add: zone_effect_def pages_frame_def fun_eq_iff)
  have "kda_state g' = kda_state ?g"
    using fun_cong [OF sp, of KKdaState] by (simp add: side_pool_of_def)
  with g' show "alloc_ok (put_gpu gi g' a)" by (intro put_gpu_ok [OF ok]) simp_all
  show "refs (put_gpu gi g' a) = refs a"
  proof
    fix k
    have "gpu_refs g' q i = gpu_refs ?g q i" for q i by (cases q) (simp_all add: gpu_refs_def sp pg)
    with ok(2) show "refs (put_gpu gi g' a) k = refs a k"
      by (cases k) (simp add: refs_put_gpu, simp add: refs_def)
  qed
qed

lemma count_refusal_zone:
  assumes "gpu_ok pps g"
  shows "zone_effect pps g (count_refusal g)"
proof -
  have "pages_frame pps g (count_refusal g)"
    by (rule region_only_frame; simp add: count_refusal_def)
  moreover have "kv_pages pps (count_refusal g) = kv_pages pps g"
    by (rule region_cong; simp add: count_refusal_def)
  moreover have "side_pool_of (count_refusal g) p = side_pool_of g p" for p
    by (simp add: count_refusal_def side_pool_of_def split: pool.splits)
  ultimately show ?thesis using count_refusal_ok [OF assms] by (simp add: zone_effect_def)
qed

lemma zone_effect_refl: "gpu_ok pps g \<Longrightarrow> zone_effect pps g g"
  by (simp add: zone_effect_def)

theorem claim_expert_zone_grants:
  assumes ok: "alloc_ok a" and gpu: "valid_gpu a gpu"
  shows "\<exists>z a'. claim_expert_zone gpu n extra a = Inr (z, a') \<and> alloc_ok a' \<and> refs a' = refs a
    \<and> (case z of None \<Rightarrow> True
       | Some run \<Rightarrow>
           ez_gpu_idx run = nat gpu \<and> ez_num_slabs run = nat n
           \<and> ez_base run = base (gpus a ! nat gpu) + int (ez_start_slab run) * slab_bytes a
           \<and> zone_granted (pages_per_slab a) (ez_start_slab run) (nat n) extra
               (gpus a ! nat gpu) (gpus a' ! nat gpu))"
proof -
  have gi: "nat gpu < length (gpus a)" using gpu by (auto simp: valid_gpu_def)
  note G = alloc_okD [OF ok gi]
  obtain res g' where r: "gpu_claim_expert_zone (pages_per_slab a) (slab_bytes a) (nat gpu) n extra (gpus a ! nat gpu)
      = Inr (res, g')"
    and c: "case res of
         None \<Rightarrow> g' = gpus a ! nat gpu \<or> g' = count_refusal (gpus a ! nat gpu)
       | Some z \<Rightarrow> \<exists>st. z = \<lparr>ez_gpu_idx = nat gpu, ez_start_slab = st, ez_num_slabs = nat n,
                             ez_base = base (gpus a ! nat gpu) + int st * slab_bytes a\<rparr>
           \<and> zone_granted (pages_per_slab a) st (nat n) extra (gpus a ! nat gpu) g'"
    using gpu_claim_expert_zone_ok [OF G, of "slab_bytes a" "nat gpu" n extra]
    by (fastforce split: option.splits)
  have run: "claim_expert_zone gpu n extra a = Inr (res, put_gpu (nat gpu) g' a)"
    using gpu r by (simp add: claim_expert_zone_def on_gpu'_def)
  have "zone_effect (pages_per_slab a) (gpus a ! nat gpu) g'"
    using c count_refusal_zone [OF G] zone_effect_refl [OF G]
    by (cases res) (auto simp: zone_granted_def)
  from zone_effect_refs [OF ok gi this] run c gi show ?thesis by (cases res) auto
qed

theorem release_expert_zone_returns:
  assumes ok: "alloc_ok a" and gpu: "valid_gpu a gpu"
    and z: "expert_zone_runs (gpus a ! nat gpu) st = Some n"
  shows "\<exists>a'. release_expert_zone gpu (int st) (int n) a = Inr a' \<and> alloc_ok a' \<and> refs a' = refs a
    \<and> zone_returned (pages_per_slab a) st n (gpus a ! nat gpu) (gpus a' ! nat gpu)"
proof -
  have gi: "nat gpu < length (gpus a)" using gpu by (auto simp: valid_gpu_def)
  obtain g' where g': "gpu_release_expert_zone (pages_per_slab a) st n (gpus a ! nat gpu) = Inr g'"
    "zone_returned (pages_per_slab a) st n (gpus a ! nat gpu) g'"
    using gpu_release_expert_zone_ok [OF alloc_okD [OF ok gi] z] by blast
  then have "release_expert_zone gpu (int st) (int n) a = Inr (put_gpu (nat gpu) g' a)"
    using gpu by (simp add: release_expert_zone_def on_gpu_def)
  with zone_effect_refs [OF ok gi] g'(2) gi show ?thesis by (auto simp: zone_returned_def)
qed

lemma claim_expert_zone_at_ok:
  assumes ok: "alloc_ok a" and gpu: "valid_gpu a gpu"
  shows "\<exists>r a'. claim_expert_zone_at gpu st n extra a = Inr (r, a') \<and> alloc_ok a' \<and> refs a' = refs a"
proof -
  have gi: "nat gpu < length (gpus a)" using gpu by (auto simp: valid_gpu_def)
  note G = alloc_okD [OF ok gi]
  obtain r g' where g': "gpu_claim_expert_zone_at (pages_per_slab a) st n extra (gpus a ! nat gpu) = Inr (r, g')"
    and c: "if r then zone_granted (pages_per_slab a) (nat st) (nat n) extra (gpus a ! nat gpu) g'
      else g' = gpus a ! nat gpu \<or> g' = count_refusal (gpus a ! nat gpu)"
    using gpu_claim_expert_zone_at_ok [OF G, of st n extra] by (auto split: if_splits)
  have "zone_effect (pages_per_slab a) (gpus a ! nat gpu) g'"
    using c count_refusal_zone [OF G] zone_effect_refl [OF G] by (auto simp: zone_granted_def split: if_splits)
  from zone_effect_refs [OF ok gi this] g' gpu show ?thesis
    by (simp add: claim_expert_zone_at_def on_gpu'_def)
qed

text \<open>A sequence's KDA state, carved or mapped.\<close>

lemma state_claimed_alloc:
  assumes ok: "alloc_ok a" "gi < length (gpus a)"
    and c: "state_claimed (pages_per_slab a) n seq sts (gpus a ! gi) g'"
  shows "alloc_ok (put_gpu gi g' a)"
  using c by (intro put_gpu_ok [OF ok]) (simp_all add: state_claimed_def)

lemma kda_stats_only_alloc:
  assumes ok: "alloc_ok a" "gi < length (gpus a)" and c: "kda_stats_only (pages_per_slab a) (gpus a ! gi) g'"
  shows "alloc_ok (put_gpu gi g' a)"
  using c by (intro put_gpu_ok [OF ok]) (auto simp: kda_stats_only_def)

lemma write_seq_ok:
  assumes ok: "alloc_ok a" and h: "live_handle a h" and p: "key_pool (handle_pool h) \<noteq> None"
  shows "\<exists>a'. write_meta h (\<lambda>m. m\<lparr>sequence_id := seq\<rparr>) a = Inr a' \<and> alloc_ok a' \<and> refs a' = refs a"
proof -
  note D = live_handleD [OF ok h]
  have v: "valid_gpu a (gpu_idx h)" "0 \<le> page_idx h" using h by (simp_all add: live_handle_def)
  obtain sp where sp: "side_pool_of (gpus a ! nat (gpu_idx h)) (handle_pool h) = Some sp"
    using p by (cases "handle_pool h") (simp_all add: key_pool_def side_pool_of_def)
  note S = D(4) [OF sp]
  let ?f = "\<lambda>m :: page_meta. m\<lparr>sequence_id := seq\<rparr>"
  have w: "side_written (pages_per_slab a) (handle_pool h) (nat (page_idx h)) (?f (sp_pages sp ! nat (page_idx h)))
      (gpus a ! nat (gpu_idx h))
      (upd_side (handle_pool h) (upd_side_page (nat (page_idx h)) ?f) (gpus a ! nat (gpu_idx h)))"
    using S by (intro side_relabel_ok [OF D(2) sp]) (simp_all add: side_live_def)
  have "meta h a = Inr (sp_pages sp ! nat (page_idx h))" using meta_side [OF v sp] S by simp
  then show ?thesis
    using side_written_refs [OF ok D(1) w] S sp by (simp add: write_meta_def Let_def fun_upd_idem)
qed

theorem allocate_kda_state_ok:
  assumes ok: "alloc_ok a" and gpu: "valid_gpu a gpu"
    and mapped: "kda_mapped a \<Longrightarrow> 0 < kda_num_layers a \<and> elastic (kda_state (gpus a ! nat gpu))
      \<and> kv_slabbed (pages_per_slab a) (gpus a ! nat gpu)"
  shows "\<exists>hs a'. allocate_kda_state gpu seq a = Inr (hs, a') \<and> alloc_ok a'
    \<and> (kda_mapped a \<longrightarrow> hs = [] \<or> length hs = kda_num_layers a)"
proof (cases "kda_mapped a")
  case False
  obtain h a1 where h: "allocate gpu KKdaState a = Inr (h, a1)" "handed_out (nat gpu) KKdaState a h a1"
    using allocate_handed_out(1) [OF ok gpu, of KKdaState] False by auto
  show ?thesis
  proof (cases h)
    case None
    with h False gpu ok show ?thesis by (simp add: allocate_kda_state_def handed_out_def)
  next
    case (Some h')
    with h(2) have H: "alloc_ok a1" "gpu_idx h' = int (nat gpu)" "handle_pool h' = KKdaState" "0 \<le> page_idx h'"
      "refs a1 (key_of h') = 1" by (simp_all add: handed_out_def)
    have len: "length (gpus a1) = length (gpus a)"
      using h(1) gpu by (auto simp: allocate_def on_gpu'_def res_simps split: prod.splits)
    then have "live_handle a1 h'" using H gpu by (simp add: live_handle_def valid_gpu_def)
    then obtain a2 where "write_meta h' (\<lambda>m. m\<lparr>sequence_id := seq\<rparr>) a1 = Inr a2" "alloc_ok a2"
      using write_seq_ok [OF H(1), of h' seq] H(3) by (auto simp: key_pool_def)
    with h Some False gpu H(1) show ?thesis by (simp add: allocate_kda_state_def)
  qed
next
  case True
  have gi: "nat gpu < length (gpus a)" using gpu by (auto simp: valid_gpu_def)
  let ?g = "gpus a ! nat gpu"
  have inv: "gpu_inv a ?g" using ok gi by (simp add: alloc_ok_def)
  have rs: "run_slabs (kda_state ?g) = kda_unit_slabs a" using inv mapped [OF True] by (simp add: gpu_inv_def)
  have "side_pool_of ?g KKdaState = Some (kda_state ?g)" by (simp add: side_pool_of_def)
  then have pos: "0 < kda_unit_slabs a"
    using sides_okD(1) inv mapped [OF True] rs by (fastforce simp: gpu_inv_def gpu_ok_def side_pool_ok_def)
  have m: "kv_slabbed (pages_per_slab a) ?g" "0 < kda_num_layers a" "elastic (kda_state ?g)"
    using mapped [OF True] by simp_all
  obtain hs g' where r: "gpu_allocate_kda_mapped (pages_per_slab a) (nat gpu) (kda_num_layers a) (kda_unit_slabs a) seq ?g
      = Inr (hs, g')"
    and c: "if hs = [] then kda_stats_only (pages_per_slab a) ?g g'
       else \<exists>sts. length sts = kda_num_layers a \<and> state_claimed (pages_per_slab a) (kda_unit_slabs a) seq sts ?g g'
            \<and> hs = map (\<lambda>st. mk_handle (nat gpu) st (side_ptr (kda_state ?g) st) KKdaState) sts"
    using gpu_allocate_kda_mapped_ok [OF alloc_okD [OF ok gi] m(1,2) pos m(3) rs, of "nat gpu" seq]
    by (elim exE conjE) (rule that)
  have "alloc_ok (put_gpu (nat gpu) g' a)" "hs = [] \<or> length hs = kda_num_layers a"
    using c kda_stats_only_alloc [OF ok gi] state_claimed_alloc [OF ok gi] by (auto split: if_splits)
  with r True gpu show ?thesis by (simp add: allocate_kda_state_def on_gpu'_def)
qed

section \<open>The guards of the handle operations\<close>

text \<open>The assertions at the head of free, add\_ref, promote and cow\_copy admit only handles of
  live pages: a stale or double use stops there.\<close>

lemma guard_live:
  assumes "alloc_ok a" "valid_gpu a (gpu_idx h)" "0 \<le> page_idx h"
  shows "\<lbrakk>side_pool_of (gpus a ! nat (gpu_idx h)) (handle_pool h) = None;
      page_idx h < int (total (gpus a ! nat (gpu_idx h)));
      0 < refcount (pages (gpus a ! nat (gpu_idx h)) ! nat (page_idx h))\<rbrakk> \<Longrightarrow> live_handle a h"
    and "\<lbrakk>side_pool_of (gpus a ! nat (gpu_idx h)) (handle_pool h) = Some sp; page_idx h < int (sp_total sp);
      0 < refcount (sp_pages sp ! nat (page_idx h))\<rbrakk> \<Longrightarrow> live_handle a h"
proof -
  have gi: "nat (gpu_idx h) < length (gpus a)" using assms(2) by (auto simp: valid_gpu_def)
  note G = alloc_okD [OF assms(1) gi]
  show "live_handle a h" if n: "side_pool_of (gpus a ! nat (gpu_idx h)) (handle_pool h) = None"
      "page_idx h < int (total (gpus a ! nat (gpu_idx h)))"
      "0 < refcount (pages (gpus a ! nat (gpu_idx h)) ! nat (page_idx h))"
  proof -
    have "key_pool (handle_pool h) = None" using n(1) by (auto simp: key_pool_def side_pool_of_None)
    then show ?thesis using assms(2,3) n gi gpu_okD(5) [OF G]
      by (simp add: live_handle_def key_of_def refs_def gpu_refs_def nat_less_iff)
  qed
  show "live_handle a h" if s: "side_pool_of (gpus a ! nat (gpu_idx h)) (handle_pool h) = Some sp"
      "page_idx h < int (sp_total sp)" "0 < refcount (sp_pages sp ! nat (page_idx h))"
  proof -
    have "length (sp_pages sp) = sp_total sp"
      using sides_okD(1) [OF _ s(1)] G by (simp add: gpu_ok_def side_pool_ok_def)
    then show ?thesis using assms(2,3) s gi key_pool_side [OF s(1)]
      by (simp add: live_handle_def key_of_def refs_def gpu_refs_def nat_less_iff)
  qed
qed

lemma free_guarded: "alloc_ok a \<Longrightarrow> free h a = Inr a' \<Longrightarrow> live_handle a h"
  by (auto simp: free_def Let_def res_simps split: option.splits intro: guard_live)

lemma add_ref_guarded: "alloc_ok a \<Longrightarrow> add_ref h a = Inr a' \<Longrightarrow> live_handle a h"
  by (auto simp: add_ref_def Let_def res_simps split: option.splits intro: guard_live)

lemma promote_guarded:
  "alloc_ok a \<Longrightarrow> promote h a = Inr a' \<Longrightarrow> \<not> dcp_enabled (dcp a) \<Longrightarrow>
     live_handle a h \<and> side_pool_of (gpus a ! nat (gpu_idx h)) (handle_pool h) = None
     \<and> pool_tag (pages (gpus a ! nat (gpu_idx h)) ! nat (page_idx h)) = KSpeculation"
  by (auto simp: promote_def promote_page_def on_gpu_def mirrored_def Let_def res_simps intro: guard_live)

lemma cow_copy_guarded: "alloc_ok a \<Longrightarrow> cow_copy h dst a = Inr (h', ops, a') \<Longrightarrow> live_handle a h"
  by (auto simp: cow_copy_def cow_side_def Let_def res_simps split: option.splits if_splits intro: guard_live)

section \<open>The state machine\<close>

definition kda_ready :: "allocator \<Rightarrow> int \<Rightarrow> bool" where
  "kda_ready a gpu \<longleftrightarrow>
     (kda_mapped a \<longrightarrow> 0 < kda_num_layers a \<and> elastic (kda_state (gpus a ! nat gpu))
        \<and> kv_slabbed (pages_per_slab a) (gpus a ! nat gpu))"

definition headroom_ok :: "headroom_config \<Rightarrow> bool" where
  "headroom_ok c \<longleftrightarrow> 0 \<le> max_concurrent_forks c \<and> 0 \<le> max_concurrent_sequences c
     \<and> 0 \<le> page_growth_chunk_pages c"

inductive alloc_step :: "allocator \<Rightarrow> allocator \<Rightarrow> bool" where
  step_allocate: "\<lbrakk>valid_gpu a gpu; p = KKdaState \<longrightarrow> \<not> kda_mapped a; allocate gpu p a = Inr (h, a')\<rbrakk>
    \<Longrightarrow> alloc_step a a'"
| step_unreserved: "\<lbrakk>valid_gpu a gpu; p = KKdaState \<longrightarrow> \<not> kda_mapped a;
     allocate_unreserved gpu p a = Inr (h, a')\<rbrakk> \<Longrightarrow> alloc_step a a'"
| step_for_sequence: "\<lbrakk>valid_gpu a gpu; p = KMain \<or> p = KSpeculation;
     allocate_for_sequence gpu p seq l t t' unres a = Inr (h, a')\<rbrakk> \<Longrightarrow> alloc_step a a'"
| step_free: "free pg a = Inr a' \<Longrightarrow> alloc_step a a'"
| step_add_ref: "\<lbrakk>refs a (key_of pg) \<noteq> - 1; add_ref pg a = Inr a'\<rbrakk> \<Longrightarrow> alloc_step a a'"
| step_promote: "promote pg a = Inr a' \<Longrightarrow> alloc_step a a'"
| step_cow: "\<lbrakk>handle_pool pg = KKdaState \<longrightarrow> \<not> kda_mapped a;
     cow_copy pg dst a = Inr (h', ops, a')\<rbrakk> \<Longrightarrow> alloc_step a a'"
| step_free_sequence: "\<lbrakk>valid_gpu a gpu; free_sequence gpu seq a = Inr a'\<rbrakk> \<Longrightarrow> alloc_step a a'"
| step_kda: "\<lbrakk>valid_gpu a gpu; kda_ready a gpu; allocate_kda_state gpu seq a = Inr (hs, a')\<rbrakk>
    \<Longrightarrow> alloc_step a a'"
| step_zone: "\<lbrakk>valid_gpu a gpu; claim_expert_zone gpu n extra a = Inr (z, a')\<rbrakk> \<Longrightarrow> alloc_step a a'"
| step_zone_at: "\<lbrakk>valid_gpu a gpu; claim_expert_zone_at gpu st n extra a = Inr (r, a')\<rbrakk> \<Longrightarrow> alloc_step a a'"
| step_zone_release: "\<lbrakk>valid_gpu a gpu; expert_zone_runs (gpus a ! nat gpu) st = Some n;
     release_expert_zone gpu (int st) (int n) a = Inr a'\<rbrakk> \<Longrightarrow> alloc_step a a'"
| step_headroom: "headroom_ok c \<Longrightarrow> alloc_step a (configure_headroom c a)"

inductive alloc_reachable :: "vram_layout \<Rightarrow> allocator \<Rightarrow> bool" for L where
  reach_boot: "page_allocator L True = Inr a \<Longrightarrow> alloc_reachable L a"
| reach_step: "\<lbrakk>alloc_reachable L a; alloc_step a a'\<rbrakk> \<Longrightarrow> alloc_reachable L a'"

inductive_cases alloc_stepE: "alloc_step a a'"

lemma boot_gpus_ok:
  assumes "layout_sane L" "rfold (boot_gpu L) lrs a = Inr a'" "alloc_ok a"
    "pages_per_slab a = layout_pages_per_slab L" "dcp a = default_dcp"
    "kda_mapped a \<longrightarrow> kda_unit_slabs a = unit_slabs_of L"
  shows "alloc_ok a' \<and> pages_per_slab a' = layout_pages_per_slab L \<and> dcp a' = default_dcp"
  using assms(2-6)
proof (induction lrs arbitrary: a)
  case Nil
  then show ?case by simp
next
  case (Cons lr lrs)
  then obtain a1 where a1: "boot_gpu L lr a = Inr a1" "rfold (boot_gpu L) lrs a1 = Inr a'"
    by (auto simp: res_simps)
  then obtain g where g: "init_gpu L (fst lr) (snd lr) = Inr g"
    by (auto simp: boot_gpu_def res_simps Let_def)
  note G = init_gpu_ok [OF assms(1) g]
  have f: "gpus a1 = gpus a @ [g]" "pages_per_slab a1 = pages_per_slab a" "dcp a1 = dcp a"
    "kda_mapped a1 \<longleftrightarrow> kda_mapped a \<or> kda_on_gpu L (fst lr)"
    "kda_unit_slabs a1 = (if kda_on_gpu L (fst lr) then unit_slabs_of L else kda_unit_slabs a)"
    using a1(1) g by (auto simp: boot_gpu_def Let_def split: if_splits)
  have "gpu_inv a1 g" using G f Cons.prems(3) by (simp add: gpu_inv_def)
  moreover have "gpu_inv a1 g'" if "g' \<in> set (gpus a)" for g'
    using that Cons.prems(2,5) f by (auto simp: alloc_ok_def gpu_inv_def)
  ultimately have "alloc_ok a1" by (auto simp: alloc_ok_def f)
  with Cons.IH [OF a1(2)] f Cons.prems show ?case by auto
qed

lemma boot_ok:
  assumes "layout_sane L" "page_allocator L has = Inr a"
  shows "alloc_ok a" "dcp a = default_dcp" "pages_per_slab a = layout_pages_per_slab L"
  using boot_gpus_ok [OF assms(1), of "layout_gpus L" "empty_allocator L" a] assms(2)
  by (auto simp: page_allocator_def empty_allocator_def alloc_ok_def split: if_splits)

lemma headroom_step_ok:
  assumes "alloc_ok a" "headroom_ok c"
  shows "alloc_ok (configure_headroom c a)"
proof -
  have "gpu_ok pps (g\<lparr>main_reserved := m, spec_reserved := s\<rparr>)"
    if "gpu_ok pps g" "0 \<le> m" "0 \<le> s" for pps g m s
  proof -
    let ?g = "g\<lparr>main_reserved := m, spec_reserved := s\<rparr>"
    note R = region_cong [of ?g g]
    have k: "kv_pages pps ?g = kv_pages pps g" "side_slabs ?g = side_slabs g" "region_ok pps ?g = region_ok pps g"
      by (rule R; simp)+
    have sp: "side_pool_of ?g = side_pool_of g" by (simp add: side_pool_of_def fun_eq_iff split: pool.splits)
    have s: "kv_slabbed pps ?g = kv_slabbed pps g" by (simp add: kv_slabbed_def)
    have "main_idle pps ?g = main_idle pps g" "main_ok pps ?g = main_ok pps g" "live ?g = live g"
      by (simp_all add: main_idle_def main_ok_def s k live_def fun_eq_iff)
    then show ?thesis
      using that sp k
      by (simp add: gpu_ok_def pages_ok_def sides_ok_def leases_ok_def leases_def grants_ok_def reserve_ok_def)
  qed
  with assms show ?thesis
    by (auto simp: alloc_ok_def gpu_inv_def configure_headroom_def headroom_ok_def Let_def)
qed

lemma alloc_step_ok: "alloc_step a a' \<Longrightarrow> \<not> dcp_enabled (dcp a) \<Longrightarrow> alloc_ok a \<Longrightarrow> alloc_ok a'"
proof (induction rule: alloc_step.induct)
  case (step_allocate a gpu p h a')
  with allocate_handed_out(1) [of a gpu p] show ?case
    by (auto simp: handed_out_def split: option.splits)
next
  case (step_unreserved a gpu p h a')
  with allocate_handed_out(2) [of a gpu p] show ?case
    by (auto simp: handed_out_def split: option.splits)
next
  case (step_for_sequence a gpu p seq l t t' unres h a')
  with allocate_for_sequence_handed_out [of a gpu p seq l t t' unres] show ?case
    by (auto simp: handed_out_def split: option.splits)
next
  case (step_free pg a a')
  with free_releases [of a pg] free_guarded [of a pg a'] show ?case by (auto simp: local_handle_def mirrored_def)
next
  case (step_add_ref a pg a')
  with add_ref_increments [of a pg] add_ref_guarded [of a pg a'] show ?case by (auto simp: local_handle_def mirrored_def)
next
  case (step_promote pg a a')
  with promote_keeps_refs [of a pg] promote_guarded [of a pg a'] show ?case by (auto simp: local_handle_def mirrored_def)
next
  case (step_cow pg a dst h' ops a')
  with cow_copy_splits [of a pg dst] cow_copy_guarded [of a pg dst h' ops a'] show ?case
    by (auto simp: local_handle_def mirrored_def cow_split_def split: if_splits)
next
  case (step_free_sequence a gpu seq a')
  with free_sequence_drops [of a gpu seq] show ?case by auto
next
  case (step_kda a gpu seq hs a')
  with allocate_kda_state_ok [of a gpu seq] show ?case by (auto simp: kda_ready_def)
next
  case (step_zone a gpu n extra z a')
  with claim_expert_zone_grants [of a gpu n extra] show ?case by auto
next
  case (step_zone_at a gpu st n extra r a')
  with claim_expert_zone_at_ok [of a gpu st n extra] show ?case by auto
next
  case (step_zone_release a gpu st n a')
  with release_expert_zone_returns [of a gpu st n] show ?case by auto
next
  case (step_headroom c a)
  then show ?case by (simp add: headroom_step_ok)
qed

lemma on_gpu_dcp: "on_gpu gi f a = Inr a' \<Longrightarrow> dcp a' = dcp a"
  by (auto simp: on_gpu_def res_simps)

lemma on_gpu'_dcp: "on_gpu' gi f a = Inr (x, a') \<Longrightarrow> dcp a' = dcp a"
  by (auto simp: on_gpu'_def res_simps split: prod.splits)

lemma write_meta_dcp: "write_meta h f a = Inr a' \<Longrightarrow> dcp a' = dcp a"
  by (auto simp: write_meta_def Let_def res_simps)

lemma allocate_dcp: "allocate gpu p a = Inr (h, a') \<Longrightarrow> dcp a' = dcp a"
  by (auto simp: allocate_def res_simps dest: on_gpu'_dcp)

lemma cow_local_dcp:
  assumes "cow_local h dst a = Inr (h', ops, a')"
  shows "dcp a' = dcp a"
  using assms unfolding cow_local_def Let_def
  by (elim rbindE) (auto split: option.splits elim!: rbindE)

lemma cow_side_dcp:
  assumes "cow_side h a = Inr (h', ops, a')"
  shows "dcp a' = dcp a"
  using assms unfolding cow_side_def Let_def
  by (auto split: option.splits if_splits elim!: rbindE assert_thenE) (erule allocate_dcp)+

lemma cow_dcp:
  assumes "cow_copy h dst a = Inr (h', ops, a')" "\<not> dcp_enabled (dcp a)"
  shows "dcp a' = dcp a"
  using assms unfolding cow_copy_def Let_def mirrored_def
  by (auto split: if_splits elim!: assert_thenE dest: cow_local_dcp cow_side_dcp)

lemma kda_dcp:
  assumes "allocate_kda_state gpu seq a = Inr (hs, a')"
  shows "dcp a' = dcp a"
proof (cases "kda_mapped a")
  case True
  with assms show ?thesis
    unfolding allocate_kda_state_def by (auto elim!: assert_thenE dest: on_gpu'_dcp)
next
  case False
  with assms obtain h a1 where h: "allocate gpu KKdaState a = Inr (h, a1)"
    and r: "(case h of None \<Rightarrow> Inr ([], a1)
            | Some h' \<Rightarrow>
                if gpu_ptr h' = 0 then Inr ([], a1)
                else rbind (write_meta h' (\<lambda>m. m\<lparr>sequence_id := seq\<rparr>) a1)
                       (\<lambda>a2. Inr ([h'], a2))) = Inr (hs, a')"
    unfolding allocate_kda_state_def by (auto elim!: assert_thenE rbindE)
  have "dcp a1 = dcp a" by (rule allocate_dcp [OF h])
  with r show ?thesis by (cases h) (auto split: if_splits elim!: rbindE dest!: write_meta_dcp)
qed

lemma free_sequence_dcp:
  assumes "free_sequence gpu seq a = Inr a'" "\<not> dcp_enabled (dcp a)" "alloc_ok a"
  shows "dcp a' = dcp a"
proof -
  have gpu: "valid_gpu a gpu" using assms(1) by (auto simp: free_sequence_def res_simps)
  then have "nat gpu < length (gpus a)" by (auto simp: valid_gpu_def)
  from free_sequence_main_pass [OF assms(3) this assms(2)] assms(1) gpu show ?thesis
    by (auto simp: free_sequence_def res_simps Let_def dest!: on_gpu_dcp)
qed

lemma alloc_step_dcp:
  "alloc_step a a' \<Longrightarrow> \<not> dcp_enabled (dcp a) \<Longrightarrow> alloc_ok a \<Longrightarrow> dcp a' = dcp a"
proof (induction rule: alloc_step.induct)
  case (step_free pg a a')
  then show ?case
    by (auto simp: free_def mirrored_def Let_def res_simps split: option.splits dest: on_gpu_dcp)
next
  case (step_add_ref a pg a')
  then show ?case by (auto simp: add_ref_def mirrored_def Let_def res_simps split: option.splits)
next
  case (step_promote pg a a')
  then show ?case by (auto simp: promote_def mirrored_def Let_def res_simps dest: on_gpu_dcp)
qed (auto simp: allocate_unreserved_def allocate_for_sequence_def claim_expert_zone_def
      claim_expert_zone_at_def release_expert_zone_def configure_headroom_def Let_def res_simps
      dest: on_gpu_dcp on_gpu'_dcp allocate_dcp cow_dcp kda_dcp free_sequence_dcp)

lemma default_dcp_disabled [simp]: "\<not> dcp_enabled default_dcp"
  by (simp add: dcp_enabled_def default_dcp_def)

lemma reachable_inv:
  assumes "alloc_reachable L a" "layout_sane L"
  shows "alloc_ok a \<and> dcp a = default_dcp"
  using assms
proof (induction rule: alloc_reachable.induct)
  case (reach_boot a)
  then show ?case using boot_ok [of L True a] by simp
next
  case (reach_step a a')
  then show ?case using alloc_step_ok [of a a'] alloc_step_dcp [of a a'] by simp
qed

end
