(* ===== verification/Allocator_Geometry.thy ===== *)
theory Allocator_Geometry
  imports Allocator_Machine
begin

text \<open>
  Addresses. No operation of the allocator moves a region: the base pointers, strides and page
  counts that the constructor set stay as they are. With the invariant this gives memory safety:
  in every reachable state the byte ranges of any two live objects of a GPU (KV pages, side pages,
  KDA state runs, expert zones) are disjoint.
\<close>

section \<open>The geometry of a GPU\<close>

definition side_geom :: "side_pool \<Rightarrow> int \<times> int \<times> int \<times> nat \<times> bool \<times> nat" where
  "side_geom sp =
     (sp_base sp, stride_bytes sp, sp_bytes_per_page sp, sp_total sp, elastic sp, run_slabs sp)"

definition geom where
  "geom g =
     (base g, spec_base g, bytes_per_page g, initial_main_pages g, initial_spec_pages g, total g,
      side_geom (indexer_k g), side_geom (hca g), side_geom (swa g), side_geom (kda_state g))"

lemma same_frame_geom: "same_frame g g' \<Longrightarrow> geom g' = geom (g :: gpu_pool)"
  by (simp add: geom_def same_frame_gpu)

lemma geom_upd_page [simp]: "geom (upd_page i f g) = geom g"
  by (simp add: upd_page_def geom_def)

lemma side_geom_upd_page [simp]: "side_geom (upd_side_page i f sp) = side_geom sp"
  by (simp add: upd_side_page_def side_geom_def)

lemma geom_upd_side: "(\<And>sp. side_geom (f sp) = side_geom sp) \<Longrightarrow> geom (upd_side p f g) = geom g"
  by (simp add: upd_side_def geom_def side_pool_of_def put_side_def split: pool.splits)

lemma geom_upd_side_page [simp]: "geom (upd_side p (upd_side_page i f) g) = geom g"
  by (simp add: geom_upd_side)

lemma geom_put_free_list [simp]: "geom (put_free_list p xs g) = geom g"
  by (simp add: put_free_list_def geom_def)

lemma geom_side_free: "geom (upd_side p (\<lambda>sp. sp\<lparr>sp_free := xs sp\<rparr>) g) = geom g"
  by (rule geom_upd_side) (simp add: side_geom_def)

lemma geom_grants [simp]:
  "geom (count_refusal g) = geom g" "geom (record_grant st n g) = geom g"
  "geom (g\<lparr>expert_zone_runs := z, ez_stats := e\<rparr>) = geom g"
  by (simp_all add: geom_def count_refusal_def record_grant_def)

lemma rfold_kept:
  assumes "rfold f xs s = Inr s'" "\<And>x s s'. f x s = Inr s' \<Longrightarrow> P s' = P s"
  shows "P s' = P s"
  using assms(1)
proof (induction xs arbitrary: s)
  case (Cons x xs)
  then obtain s1 where "f x s = Inr s1" "rfold f xs s1 = Inr s'" by (auto simp: res_simps)
  with Cons.IH assms(2) show ?case by metis
qed simp

section \<open>No operation on the slab region leaves its frame\<close>

lemma region_frames:
  "kv_claim_slab sid seq r = Inr r' \<Longrightarrow> same_frame r r'"
  "kv_claim_side_slab pps b r = Inr (x, r') \<Longrightarrow> same_frame r r'"
  "kv_claim_side_slab_at pps sid r = Inr r' \<Longrightarrow> same_frame r r'"
  "kv_release_side_slab pps sid r = Inr r' \<Longrightarrow> same_frame r r'"
  "kv_take_specific pps i t r = Inr r' \<Longrightarrow> same_frame r r'"
  "kv_return_page pps i r = Inr r' \<Longrightarrow> same_frame r r'"
  "stamp_side_slab pps sid r = Inr r' \<Longrightarrow> same_frame r r'"
  "reset_side_slab pps sid r = Inr r' \<Longrightarrow> same_frame r r'"
  by (auto simp: kv_claim_slab_def kv_claim_side_slab_def kv_claim_side_slab_at_def
      kv_release_side_slab_def kv_take_specific_def kv_return_page_def stamp_side_slab_def
      reset_side_slab_def Let_def res_simps same_frame_def split: if_splits)

lemma kv_alloc_page_frame:
  assumes "kv_alloc_page pps seq t unres pref r = Inr (x, r')"
  shows "same_frame r r'"
  using assms unfolding kv_alloc_page_def Let_def
  by (auto simp: same_frame_def split: if_splits option.splits elim!: rbindE dest!: region_frames(1,5))

section \<open>What KV traffic leaves alone\<close>

text \<open>
  A view of a GPU's pool that page metadata, free lists and slab bookkeeping do not show in. Every operation on pages,
  sequences and KDA state keeps such a view. The geometry is one, the table of the granted expert zones another.
\<close>

definition a_view :: "(gpu_pool \<Rightarrow> 'v) \<Rightarrow> allocator \<Rightarrow> 'v list \<times> int \<times> nat" where
  "a_view P a = (map P (gpus a), slab_bytes a, pages_per_slab a)"

locale pool_view =
  fixes P :: "gpu_pool \<Rightarrow> 'v"
  assumes same_frame_view: "same_frame g g' \<Longrightarrow> P g' = P g"
    and view_upd_page [simp]: "P (upd_page i f g) = P g"
    and view_upd_side_page [simp]: "P (upd_side p (upd_side_page i f) g) = P g"
    and view_side_free: "P (upd_side p (\<lambda>sp. sp\<lparr>sp_free := xs sp\<rparr>) g) = P g"
    and view_put_free_list [simp]: "P (put_free_list p ys g) = P g"
    and view_free_slabs [simp]: "P (kv_free_slabs_update h g) = P g"
    and view_stats [simp]: "P (g\<lparr>kda_stats := k\<rparr>) = P g" "P (g\<lparr>main_reserved := m, spec_reserved := s\<rparr>) = P g"
begin

lemma view_region:
  fixes g g' :: gpu_pool
  shows "kv_claim_side_slab pps b g = Inr (x, g') \<Longrightarrow> P g' = P g"
  "kv_claim_side_slab_at pps sid g = Inr g' \<Longrightarrow> P g' = P g"
  "kv_release_side_slab pps sid g = Inr g' \<Longrightarrow> P g' = P g"
  "kv_return_page pps i g = Inr g' \<Longrightarrow> P g' = P g"
  "stamp_side_slab pps sid g = Inr g' \<Longrightarrow> P g' = P g"
  "reset_side_slab pps sid g = Inr g' \<Longrightarrow> P g' = P g"
  "kv_alloc_page pps seq t unres pref g = Inr (y, g') \<Longrightarrow> P g' = P g"
  by (blast intro: same_frame_view region_frames kv_alloc_page_frame)+

lemma view_slab_runs:
  fixes g g' :: gpu_pool
  shows "claim_side_slabs pps sids g = Inr g' \<Longrightarrow> P g' = P g"
  "release_side_slabs pps sids g = Inr g' \<Longrightarrow> P g' = P g"
proof -
  show "claim_side_slabs pps sids g = Inr g' \<Longrightarrow> P g' = P g"
    by (auto simp: claim_side_slabs_def sweep_free_slabs_def elim!: rbindE
        dest!: rfold_kept [where P = P, OF _ view_region(5)])
  show "release_side_slabs pps sids g = Inr g' \<Longrightarrow> P g' = P g"
    by (auto simp: release_side_slabs_def elim!: rbindE dest!: rfold_kept [where P = P, OF _ view_region(6)])
qed

lemma view_side_release: "side_release pps p i g = Inr g' \<Longrightarrow> P g' = P g"
  by (auto simp: side_release_def Let_def view_side_free split: option.splits if_splits
      dest!: view_slab_runs rfold_kept [where P = P, OF _ view_region(3)])

lemma view_drop_ref: "drop_ref pps i g = Inr g' \<Longrightarrow> P g' = P g"
  by (auto simp: drop_ref_def return_to_free_list_def Let_def split: if_splits dest!: view_region(4))

lemma view_drop_side_ref: "drop_side_ref pps p i g = Inr g' \<Longrightarrow> P g' = P g"
  by (auto simp: drop_side_ref_def Let_def split: option.splits if_splits dest!: view_side_release)

lemma view_allocate_side: "gpu_allocate_side pps gi p g = Inr (h, g') \<Longrightarrow> P g' = P g"
  by (auto simp: gpu_allocate_side_def Let_def view_side_free split: option.splits if_splits
      elim!: rbindE assert_thenE dest!: view_region(1))

lemma view_from_pool: "allocate_from_pool gi p n g = (h, g') \<Longrightarrow> P g' = P g"
  by (auto simp: allocate_from_pool_def Let_def split: if_splits)

lemma view_anonymous: "allocate_anonymous pps gi u g = Inr (h, g') \<Longrightarrow> P g' = P g"
  by (auto simp: allocate_anonymous_def split: option.splits elim!: rbindE dest!: view_region(7))

lemma view_allocate:
  "gpu_allocate pps gi p g = Inr (h, g') \<Longrightarrow> P g' = P g"
  "gpu_allocate_unreserved pps gi p g = Inr (h, g') \<Longrightarrow> P g' = P g"
  by (auto simp: gpu_allocate_def gpu_allocate_unreserved_def Let_def split: if_splits
      dest: view_allocate_side view_anonymous view_from_pool)

lemma view_for_sequence:
  "gpu_allocate_for_sequence pps gi p seq l t t' u g = Inr (h, g') \<Longrightarrow> P g' = P g"
  by (auto simp: gpu_allocate_for_sequence_def split: option.splits if_splits prod.splits
      elim!: rbindE assert_thenE dest!: view_region(7) view_allocate)

lemma view_claim_state: "claim_state_meta seq st g = Inr g' \<Longrightarrow> P g' = P g"
  by (auto simp: claim_state_meta_def res_simps)

lemma view_kda: "gpu_allocate_kda_mapped pps gi u n seq g = Inr (hs, g') \<Longrightarrow> P g' = P g"
  by (auto simp: gpu_allocate_kda_mapped_def Let_def split: if_splits elim!: rbindE assert_thenE
      dest!: view_slab_runs(1) rfold_kept [where P = P, OF _ view_claim_state])

lemma view_free_side: "free_sequence_side pps seq g = Inr g' \<Longrightarrow> P g' = P g"
  unfolding free_sequence_side_def
  by (erule rfold_kept, erule rfold_kept)
     (auto simp: free_sequence_side_page_def Let_def split: option.splits if_splits dest: view_drop_side_ref)

lemma a_view_put:
  assumes "P g = P (gpus a ! gi)"
  shows "a_view P (put_gpu gi g a) = a_view P a"
  using assms by (cases "gi < length (gpus a)")
    (auto simp: a_view_def put_gpu_def map_update list_update_beyond intro!: list_update_same_conv [THEN iffD2])

lemma a_view_on_gpu:
  assumes "on_gpu gi f a = Inr a'" "\<And>g g'. f g = Inr g' \<Longrightarrow> P g' = P g"
  shows "a_view P a' = a_view P a"
  using assms by (auto simp: on_gpu_def res_simps a_view_put)

lemma a_view_on_gpu':
  assumes "on_gpu' gi f a = Inr (x, a')" "\<And>g x g'. f g = Inr (x, g') \<Longrightarrow> P g' = P g"
  shows "a_view P a' = a_view P a"
  using assms by (auto simp: on_gpu'_def res_simps a_view_put split: prod.splits)

lemma a_view_on_gpus:
  assumes "on_gpus gis f a = Inr a'" "\<And>g g'. f g = Inr g' \<Longrightarrow> P g' = P g"
  shows "a_view P a' = a_view P a"
  using assms(1) unfolding on_gpus_def by (rule rfold_kept) (erule a_view_on_gpu, rule assms(2))

lemma a_view_allocate:
  "allocate gpu p a = Inr (h, a') \<Longrightarrow> a_view P a' = a_view P a"
  "allocate_unreserved gpu p a = Inr (h, a') \<Longrightarrow> a_view P a' = a_view P a"
  "allocate_for_sequence gpu p seq l t t' u a = Inr (h, a') \<Longrightarrow> a_view P a' = a_view P a"
  by (auto simp: allocate_def allocate_unreserved_def allocate_for_sequence_def elim!: assert_thenE a_view_on_gpu'
      dest: view_allocate view_for_sequence)

lemma view_drop_live: "drop_live_ref pps i g = Inr g' \<Longrightarrow> P g' = P g"
  by (auto simp: drop_live_ref_def res_simps dest: view_drop_ref)

lemma a_view_free: "free h a = Inr a' \<Longrightarrow> a_view P a' = a_view P a"
  by (auto simp: free_def Let_def split: option.splits if_splits elim!: assert_thenE
      elim: a_view_on_gpu a_view_on_gpus dest: view_drop_ref view_drop_side_ref view_drop_live)

lemma a_view_promote: "promote h a = Inr a' \<Longrightarrow> a_view P a' = a_view P a"
  by (auto simp: promote_def Let_def promote_page_def res_simps split: if_splits elim: a_view_on_gpu a_view_on_gpus)

lemma a_view_add_ref: "add_ref h a = Inr a' \<Longrightarrow> a_view P a' = a_view P a"
  by (auto simp: add_ref_def Let_def a_view_put split: if_splits option.splits elim!: assert_thenE a_view_on_gpus)

lemma a_view_write_meta: "write_meta h f a = Inr a' \<Longrightarrow> a_view P a' = a_view P a"
  by (auto simp: write_meta_def Let_def a_view_put res_simps split: option.splits)

lemma a_view_cow_local: "cow_local h dst a = Inr (h', ops, a') \<Longrightarrow> a_view P a' = a_view P a"
  unfolding cow_local_def Let_def
  by (elim rbindE) (auto split: option.splits if_splits elim!: rbindE intro!: a_view_put
      dest!: view_drop_ref view_region(7) view_allocate)

lemma a_view_cow_side:
  assumes "cow_side h a = Inr (h', ops, a')"
  shows "a_view P a' = a_view P a"
  using assms unfolding cow_side_def Let_def
  by (auto split: option.splits if_splits elim!: rbindE assert_thenE dest!: view_drop_side_ref
      intro!: trans [OF a_view_put a_view_allocate(1)])

lemma a_view_cow:
  assumes "cow_copy h dst a = Inr (h', ops, a')" "\<not> dcp_enabled (dcp a)"
  shows "a_view P a' = a_view P a"
  using assms by (auto simp: cow_copy_def Let_def mirrored_def split: if_splits elim!: assert_thenE
      dest: a_view_cow_local a_view_cow_side)

lemma a_view_kda: "allocate_kda_state gpu seq a = Inr (hs, a') \<Longrightarrow> a_view P a' = a_view P a"
  unfolding allocate_kda_state_def
  by (auto split: if_splits option.splits elim!: assert_thenE rbindE a_view_on_gpu' dest: view_kda)
     (auto dest!: a_view_allocate a_view_write_meta)

lemma a_view_headroom: "a_view P (configure_headroom c a) = a_view P a"
  by (simp add: a_view_def configure_headroom_def Let_def)

lemma a_view_free_sequence: "free_sequence gpu seq a = Inr a' \<Longrightarrow> a_view P a' = a_view P a"
proof -
  have page: "a_view P a2 = a_view P a1" if "free_sequence_page gi seq i a1 = Inr a2" for gi i a1 a2
    using that by (auto simp: free_sequence_page_def Let_def split: if_splits
        elim: a_view_on_gpu a_view_on_gpus dest: view_drop_ref view_drop_live)
  assume "free_sequence gpu seq a = Inr a'"
  then obtain a1 where a1: "rfold (free_sequence_page (nat gpu) seq) [0..<total (gpus a ! nat gpu)] a = Inr a1"
    "on_gpu (nat gpu) (free_sequence_side (pages_per_slab a) seq) a1 = Inr a'"
    by (auto simp: free_sequence_def Let_def elim!: assert_thenE rbindE)
  have "a_view P a1 = a_view P a" by (rule rfold_kept [OF a1(1)]) (rule page)
  moreover have "a_view P a' = a_view P a1" by (rule a_view_on_gpu [OF a1(2)]) (rule view_free_side)
  ultimately show ?thesis by simp
qed

end

interpretation geom_view: pool_view geom
proof
  show "geom (kv_free_slabs_update h g) = geom g" for h and g :: gpu_pool by (simp add: geom_def)
  show "geom (g\<lparr>kda_stats := k\<rparr>) = geom g" "geom (g\<lparr>main_reserved := m, spec_reserved := s\<rparr>) = geom g"
    for g :: gpu_pool and k m s by (simp_all add: geom_def)
qed (simp_all add: same_frame_geom geom_side_free)

interpretation zone_view: pool_view expert_zone_runs
  by standard (simp_all add: same_frame_gpu upd_side_def put_side_def side_pool_of_def upd_page_def put_free_list_def
      split: pool.splits)

section \<open>Expert zones keep the geometry\<close>

definition a_geom where
  "a_geom = a_view geom"

lemma geom_zones:
  "gpu_claim_expert_zone pps sb gi n e g = Inr (z, g') \<Longrightarrow> geom g' = geom g"
  "gpu_claim_expert_zone_at pps st n e g = Inr (b, g') \<Longrightarrow> geom g' = geom g"
  "gpu_release_expert_zone pps s m g = Inr g' \<Longrightarrow> geom g' = geom g"
  by (auto simp: gpu_claim_expert_zone_def gpu_claim_expert_zone_at_def gpu_release_expert_zone_def Let_def
      split: if_splits option.splits elim!: rbindE assert_thenE dest!: geom_view.view_slab_runs)

lemma a_geom_nth:
  assumes "a_geom a' = a_geom a" "gi < length (gpus a)"
  shows "gi < length (gpus a')" "geom (gpus a' ! gi) = geom (gpus a ! gi)"
proof -
  have m: "map geom (gpus a') = map geom (gpus a)" using assms(1) by (simp add: a_geom_def a_view_def)
  then show gi: "gi < length (gpus a')" using assms(2) by (metis length_map)
  show "geom (gpus a' ! gi) = geom (gpus a ! gi)"
    using arg_cong [OF m, of "\<lambda>xs. xs ! gi"] gi assms(2) by simp
qed

lemma a_geom_zones:
  "claim_expert_zone gpu n e a = Inr (z, a') \<Longrightarrow> a_geom a' = a_geom a"
  "claim_expert_zone_at gpu st n e a = Inr (b, a') \<Longrightarrow> a_geom a' = a_geom a"
  "release_expert_zone gpu st n a = Inr a' \<Longrightarrow> a_geom a' = a_geom a"
  by (auto simp: claim_expert_zone_def claim_expert_zone_at_def release_expert_zone_def a_geom_def elim!: assert_thenE
      elim: geom_view.a_view_on_gpu geom_view.a_view_on_gpu' dest: geom_zones)

lemma alloc_step_geom: "alloc_step a a' \<Longrightarrow> \<not> dcp_enabled (dcp a) \<Longrightarrow> a_geom a' = a_geom a"
  unfolding a_geom_def
  by (induction rule: alloc_step.induct)
     (simp_all add: geom_view.a_view_headroom geom_view.a_view_allocate geom_view.a_view_free geom_view.a_view_add_ref
       geom_view.a_view_promote geom_view.a_view_cow geom_view.a_view_free_sequence geom_view.a_view_kda
       a_geom_zones [unfolded a_geom_def])

section \<open>KV traffic\<close>

text \<open>The steps of the allocator's clients other than the rebalancer: no expert zone is claimed or released.\<close>

inductive kv_step :: "allocator \<Rightarrow> allocator \<Rightarrow> bool" where
  kv_allocate: "\<lbrakk>valid_gpu a gpu; p = KKdaState \<longrightarrow> \<not> kda_mapped a; allocate gpu p a = Inr (h, a')\<rbrakk> \<Longrightarrow> kv_step a a'"
| kv_unreserved: "\<lbrakk>valid_gpu a gpu; p = KKdaState \<longrightarrow> \<not> kda_mapped a; allocate_unreserved gpu p a = Inr (h, a')\<rbrakk>
    \<Longrightarrow> kv_step a a'"
| kv_for_sequence: "\<lbrakk>valid_gpu a gpu; p = KMain \<or> p = KSpeculation;
     allocate_for_sequence gpu p seq l t t' unres a = Inr (h, a')\<rbrakk> \<Longrightarrow> kv_step a a'"
| kv_free: "free pg a = Inr a' \<Longrightarrow> kv_step a a'"
| kv_add_ref: "\<lbrakk>refs a (key_of pg) \<noteq> - 1; add_ref pg a = Inr a'\<rbrakk> \<Longrightarrow> kv_step a a'"
| kv_promote: "promote pg a = Inr a' \<Longrightarrow> kv_step a a'"
| kv_cow: "\<lbrakk>handle_pool pg = KKdaState \<longrightarrow> \<not> kda_mapped a; cow_copy pg dst a = Inr (h', ops, a')\<rbrakk> \<Longrightarrow> kv_step a a'"
| kv_free_sequence: "\<lbrakk>valid_gpu a gpu; free_sequence gpu seq a = Inr a'\<rbrakk> \<Longrightarrow> kv_step a a'"
| kv_kda: "\<lbrakk>valid_gpu a gpu; kda_ready a gpu; allocate_kda_state gpu seq a = Inr (hs, a')\<rbrakk> \<Longrightarrow> kv_step a a'"
| kv_headroom: "headroom_ok c \<Longrightarrow> kv_step a (configure_headroom c a)"

lemma kv_step_alloc: "kv_step a a' \<Longrightarrow> alloc_step a a'"
  by (induction rule: kv_step.induct) (auto intro: alloc_step.intros)

lemma kv_step_zones:
  "kv_step a a' \<Longrightarrow> \<not> dcp_enabled (dcp a) \<Longrightarrow> a_view expert_zone_runs a' = a_view expert_zone_runs a"
  by (induction rule: kv_step.induct)
     (simp_all add: zone_view.a_view_headroom zone_view.a_view_allocate zone_view.a_view_free zone_view.a_view_add_ref
       zone_view.a_view_promote zone_view.a_view_cow zone_view.a_view_free_sequence zone_view.a_view_kda)

lemma reachable_geom:
  assumes "alloc_reachable L a" "layout_sane L"
  obtains a0 where "page_allocator L True = Inr a0" "a_geom a = a_geom a0"
proof -
  have "\<exists>a0. page_allocator L True = Inr a0 \<and> a_geom a = a_geom a0"
    using assms
  proof (induction rule: alloc_reachable.induct)
    case (reach_step a a')
    have "\<not> dcp_enabled (dcp a)" using reachable_inv [OF reach_step(1,4)] by simp
    with reach_step alloc_step_geom show ?case by metis
  qed blast
  with that show ?thesis by blast
qed

end
