(* ===== verification/Memory_Safety.thy ===== *)
theory Memory_Safety
  imports Allocator_Geometry
begin

text \<open>
  The byte ranges behind the handles. A GPU's memory is cut into regions (the main KV region, the
  speculation region, one region per fixed side pool); elastic side pages, KDA state runs and expert
  zones live on slabs of the main region. When the regions of the layout do not overlap, the bytes of
  two different live objects never overlap.
\<close>

section \<open>Objects and regions\<close>

datatype mem_obj = PageObj nat | SideObj pool nat | ZoneObj nat nat

datatype mem_region = RMain | RSpec | RSide pool

fun live_obj :: "gpu_pool \<Rightarrow> mem_obj \<Rightarrow> bool" where
  "live_obj g (PageObj p) \<longleftrightarrow> p < total g \<and> live g p"
| "live_obj g (SideObj pl i) \<longleftrightarrow> (case side_pool_of g pl of None \<Rightarrow> False | Some sp \<Rightarrow> side_live sp i)"
| "live_obj g (ZoneObj st n) \<longleftrightarrow> expert_zone_runs g st = Some n"

fun obj_bytes :: "int \<Rightarrow> gpu_pool \<Rightarrow> mem_obj \<Rightarrow> int set" where
  "obj_bytes sb g (PageObj p) = {page_ptr g p..<page_ptr g p + bytes_per_page g}"
| "obj_bytes sb g (SideObj pl i) =
     (case side_pool_of g pl of
        None \<Rightarrow> {}
      | Some sp \<Rightarrow> {side_ptr sp i..<side_ptr sp i + sp_bytes_per_page sp})"
| "obj_bytes sb g (ZoneObj st n) = {base g + int st * sb..<base g + int (st + n) * sb}"

fun home :: "gpu_pool \<Rightarrow> mem_obj \<Rightarrow> mem_region" where
  "home g (PageObj p) = (if p < initial_main_pages g then RMain else RSpec)"
| "home g (SideObj pl i) =
     (case side_pool_of g pl of None \<Rightarrow> RSide pl | Some sp \<Rightarrow> if elastic sp then RMain else RSide pl)"
| "home g (ZoneObj st n) = RMain"

fun extent :: "gpu_pool \<Rightarrow> mem_region \<Rightarrow> int set" where
  "extent g RMain = {base g..<base g + int (initial_main_pages g) * bytes_per_page g}"
| "extent g RSpec = {spec_base g..<spec_base g + int (initial_spec_pages g) * bytes_per_page g}"
| "extent g (RSide pl) =
     (case side_pool_of g pl of
        None \<Rightarrow> {}
      | Some sp \<Rightarrow> if elastic sp then {} else {sp_base sp..<sp_base sp + int (sp_total sp) * stride_bytes sp})"

definition apart :: "('r \<Rightarrow> int set) \<Rightarrow> bool" where
  "apart f \<longleftrightarrow> (\<forall>r r'. r \<noteq> r' \<longrightarrow> f r \<inter> f r' = {})"

text \<open>What the constructor fixes: slab-strided elastic pools on the main region, page sizes within
  their strides.\<close>

definition side_placed :: "int \<Rightarrow> gpu_pool \<Rightarrow> side_pool \<Rightarrow> bool" where
  "side_placed sb g sp \<longleftrightarrow>
     (if elastic sp
      then sp_base sp = base g \<and> stride_bytes sp = sb \<and> sp_bytes_per_page sp \<le> int (run_slabs sp) * sb
      else sp_bytes_per_page sp \<le> stride_bytes sp)"

definition geom_ok :: "nat \<Rightarrow> int \<Rightarrow> gpu_pool \<Rightarrow> bool" where
  "geom_ok pps sb g \<longleftrightarrow>
     (\<forall>pl sp. side_pool_of g pl = Some sp \<longrightarrow> side_placed sb g sp)
     \<and> (0 < pps \<longrightarrow> sb = int pps * bytes_per_page g \<and> 0 < bytes_per_page g)"

section \<open>Disjoint cells\<close>

lemma cells_disjoint:
  fixes s :: int
  assumes "i \<noteq> j" "b \<le> s"
  shows "{B + int i * s..<B + int i * s + b} \<inter> {B + int j * s..<B + int j * s + b} = {}"
proof (cases "0 < b")
  case True
  then have s: "0 \<le> s" using assms(2) by linarith
  have le: "int i' * s + s \<le> int j' * s" if "i' < j'" for i' j'
  proof -
    have "int (Suc i') * s \<le> int j' * s" using that s by (intro mult_right_mono) simp_all
    then show ?thesis by (simp add: algebra_simps)
  qed
  from assms(1) consider "i < j" | "j < i" by linarith
  then show ?thesis using assms(2) le by cases force+
qed auto

lemma runs_disjoint:
  fixes s :: int
  assumes "{i..<i + n} \<inter> {j..<j + m} = {}" "0 < n" "0 < m" "0 \<le> s"
  shows "{B + int i * s..<B + int (i + n) * s} \<inter> {B + int j * s..<B + int (j + m) * s} = {}"
proof -
  from assms(1-3) have "i + n \<le> j \<or> j + m \<le> i" by (auto simp: disjoint_iff)
  then have "int (i + n) * s \<le> int j * s \<or> int (j + m) * s \<le> int i * s"
    using assms(4) by (auto intro: mult_right_mono)
  then show ?thesis by auto
qed

lemma cell_inside:
  fixes s :: int
  assumes "i < n" "b \<le> s"
  shows "{B + int i * s..<B + int i * s + b} \<subseteq> {B..<B + int n * s}"
proof (cases "0 < b")
  case True
  then have s: "0 \<le> s" using assms(2) by linarith
  have "int (Suc i) * s \<le> int n * s" "0 \<le> int i * s" using assms(1) s by (auto intro: mult_right_mono)
  then show ?thesis using assms(2) by (auto simp: algebra_simps)
qed auto

section \<open>Slab tenants\<close>

definition run_bytes :: "int \<Rightarrow> gpu_pool \<Rightarrow> nat \<Rightarrow> nat \<Rightarrow> int set" where
  "run_bytes sb g st n = {base g + int st * sb..<base g + int (st + n) * sb}"

fun obj_lease :: "gpu_pool \<Rightarrow> mem_obj \<Rightarrow> slab_lease option" where
  "obj_lease g (PageObj p) = None"
| "obj_lease g (SideObj pl i) =
     (case side_pool_of g pl of
        None \<Rightarrow> None
      | Some sp \<Rightarrow> if elastic sp then Some (PageTenant pl, i, run_slabs sp) else None)"
| "obj_lease g (ZoneObj st n) = Some (ZoneTenant, st, n)"

lemma obj_lease_inj: "obj_lease g x = Some l \<Longrightarrow> obj_lease g y = Some l \<Longrightarrow> x = y"
  by (cases x; cases y) (auto split: option.splits if_splits)

lemma obj_lease_home:
  "home g x = RMain \<Longrightarrow> live_obj g x \<Longrightarrow> obj_lease g x \<noteq> None \<or> (\<exists>p < initial_main_pages g. x = PageObj p)"
  by (cases x) (auto split: option.splits if_splits)

lemma obj_leaseD:
  assumes geo: "geom_ok pps sb g" and x: "live_obj g x" "obj_lease g x = Some (t, st, n)"
  shows "(t, st, n) \<in> leases g" "obj_bytes sb g x \<subseteq> run_bytes sb g st n" "home g x = RMain"
proof -
  show "(t, st, n) \<in> leases g" "home g x = RMain"
    using x by (cases x; auto simp: leases_iff split: option.splits if_splits)+
  show "obj_bytes sb g x \<subseteq> run_bytes sb g st n"
  proof (cases x)
    case (SideObj pl i)
    with x obtain sp where sp: "side_pool_of g pl = Some sp" "elastic sp" "st = i" "n = run_slabs sp"
      by (auto split: option.splits if_splits)
    then have "side_placed sb g sp" using geo by (simp add: geom_ok_def)
    with sp SideObj show ?thesis by (auto simp: side_placed_def side_ptr_def run_bytes_def algebra_simps)
  qed (use x in \<open>auto simp: run_bytes_def\<close>)
qed

lemma leasesD:
  assumes ok: "gpu_ok pps g" and l: "(t, st, n) \<in> leases g"
  shows "0 < n" "st + n \<le> length (kv_slabs g)" "kv_slabs g \<noteq> []" "kv_slabbed pps g"
    "{st..<st + n} \<subseteq> side_slabs g"
proof -
  have L: "leases_ok g" using ok by (simp add: gpu_ok_def)
  with l show sub: "{st..<st + n} \<subseteq> side_slabs g" by (fastforce simp: leases_ok_def lease_slabs_def)
  have "lease_slabs (t, st, n) \<noteq> {}" using L l by (simp only: leases_ok_def) blast
  then show n: "0 < n" by (simp add: lease_slabs_def)
  then have "st + n - 1 \<in> side_slabs g" using sub by auto
  with n show "st + n \<le> length (kv_slabs g)" by (auto simp: side_slabs_def)
  with n show ne: "kv_slabs g \<noteq> []" by auto
  then show "kv_slabbed pps g" using gpu_okD(4) [OF ok] by blast
qed

lemma live_main_page:
  assumes ok: "gpu_ok pps g" and s: "kv_slabbed pps g" and p: "p < initial_main_pages g" "live g p"
  shows "p div pps \<notin> side_slabs g"
proof -
  have "initial_main_pages g \<le> total g" using ok by (simp add: gpu_ok_def pages_ok_def)
  then have "p \<notin> main_idle pps g" using main_idle_live [OF ok, of p] p by simp
  then have "p \<in> kv_pages pps g" using s p by (simp add: main_idle_def)
  then have "in_run g (p div pps)" by (simp add: kv_pages_def)
  then show ?thesis by (simp add: side_slabs_def)
qed

text \<open>A live page of the main region lies inside a slab that no tenant holds.\<close>

lemma page_in_slab:
  assumes geo: "geom_ok pps sb g" and s: "kv_slabbed pps g" and p: "p < initial_main_pages g"
  shows "obj_bytes sb g (PageObj p) \<subseteq> run_bytes sb g (p div pps) 1"
proof -
  have sb: "sb = int pps * bytes_per_page g" "0 < bytes_per_page g" and pps: "0 < pps"
    using geo s by (simp_all add: geom_ok_def kv_slabbed_def)
  have "int (p div pps * pps) \<le> int p" "int (Suc p) \<le> int (Suc (p div pps) * pps)"
    using div_times_less_eq_dividend [of p pps] dividend_less_div_times [OF pps, of p]
    by (simp_all only: of_nat_le_iff) simp
  then have "int (p div pps * pps) * bytes_per_page g \<le> int p * bytes_per_page g"
    "int (Suc p) * bytes_per_page g \<le> int (Suc (p div pps) * pps) * bytes_per_page g"
    using sb(2) by (auto intro: mult_right_mono)
  then show ?thesis using p by (auto simp: run_bytes_def page_ptr_def sb(1) algebra_simps)
qed

section \<open>Two live objects never share a byte\<close>

lemma lease_disjoint:
  assumes ok: "gpu_ok pps g" and geo: "geom_ok pps sb g" and ne: "x \<noteq> y"
    and x: "live_obj g x" "obj_lease g x = Some l" and y: "live_obj g y" "obj_lease g y = Some l'"
  shows "obj_bytes sb g x \<inter> obj_bytes sb g y = {}"
proof -
  obtain t st n t' st' n' where l: "l = (t, st, n)" "l' = (t', st', n')" by (cases l; cases l') auto
  note X = obj_leaseD [OF geo x(1) x(2) [unfolded l]] and Y = obj_leaseD [OF geo y(1) y(2) [unfolded l]]
  note LX = leasesD [OF ok X(1)] and LY = leasesD [OF ok Y(1)]
  have "(t, st, n) \<noteq> (t', st', n')" using ne obj_lease_inj x(2) y(2) l by blast
  then have "lease_slabs (t, st, n) \<inter> lease_slabs (t', st', n') = {}"
    using ok X(1) Y(1) unfolding gpu_ok_def leases_ok_def by blast
  then have "run_bytes sb g st n \<inter> run_bytes sb g st' n' = {}"
    unfolding run_bytes_def using LX LY geo
    by (intro runs_disjoint) (auto simp: lease_slabs_def geom_ok_def kv_slabbed_def)
  with X(2) Y(2) show ?thesis by blast
qed

lemma lease_page_disjoint:
  assumes ok: "gpu_ok pps g" and geo: "geom_ok pps sb g"
    and x: "live_obj g x" "obj_lease g x = Some l" and p: "p < initial_main_pages g" "live g p"
  shows "obj_bytes sb g x \<inter> obj_bytes sb g (PageObj p) = {}"
proof -
  obtain t st n where l: "l = (t, st, n)" by (cases l)
  note X = obj_leaseD [OF geo x(1) x(2) [unfolded l]]
  note LX = leasesD [OF ok X(1)]
  have "p div pps \<notin> {st..<st + n}" using live_main_page [OF ok LX(4) p] LX(5) by blast
  then have "run_bytes sb g st n \<inter> run_bytes sb g (p div pps) 1 = {}"
    unfolding run_bytes_def using LX(1,4) geo by (intro runs_disjoint) (auto simp: geom_ok_def kv_slabbed_def)
  with X(2) page_in_slab [OF geo LX(4) p(1)] show ?thesis by blast
qed

lemma page_page_disjoint:
  assumes "p \<noteq> q" "p < initial_main_pages g \<longleftrightarrow> q < initial_main_pages g"
  shows "obj_bytes sb g (PageObj p) \<inter> obj_bytes sb g (PageObj q) = {}"
proof (cases "p < initial_main_pages g")
  case True
  then show ?thesis using assms cells_disjoint [of p q "bytes_per_page g" "bytes_per_page g" "base g"]
    by (simp add: page_ptr_def)
next
  case False
  then show ?thesis
    using assms cells_disjoint [of "p - initial_main_pages g" "q - initial_main_pages g"
        "bytes_per_page g" "bytes_per_page g" "spec_base g"]
    by (simp add: page_ptr_def)
qed

lemma main_disjoint:
  assumes ok: "gpu_ok pps g" and geo: "geom_ok pps sb g" and ne: "x \<noteq> y"
    and x: "live_obj g x" "home g x = RMain" and y: "live_obj g y" "home g y = RMain"
  shows "obj_bytes sb g x \<inter> obj_bytes sb g y = {}"
proof -
  have page: "live g p" if "live_obj g (PageObj p)" for p using that by simp
  consider l l' where "obj_lease g x = Some l" "obj_lease g y = Some l'"
    | l q where "obj_lease g x = Some l" "q < initial_main_pages g" "y = PageObj q"
    | p l' where "p < initial_main_pages g" "x = PageObj p" "obj_lease g y = Some l'"
    | p q where "p < initial_main_pages g" "x = PageObj p" "q < initial_main_pages g" "y = PageObj q"
    using obj_lease_home [OF x(2,1)] obj_lease_home [OF y(2,1)] by blast
  then show ?thesis
  proof cases
    case 1
    then show ?thesis by (rule lease_disjoint [OF ok geo ne x(1) _ y(1)])
  next
    case 2
    then show ?thesis using lease_page_disjoint [OF ok geo x(1) 2(1,2)] y(1) by simp
  next
    case 3
    then show ?thesis using lease_page_disjoint [OF ok geo y(1) 3(3,1)] x(1) by (simp add: Int_commute)
  next
    case 4
    with ne show ?thesis by (simp only:) (rule page_page_disjoint, simp_all)
  qed
qed

lemma side_disjoint:
  assumes geo: "geom_ok pps sb g" and ne: "i \<noteq> j"
    and sp: "side_pool_of g pl = Some sp" "\<not> elastic sp"
  shows "obj_bytes sb g (SideObj pl i) \<inter> obj_bytes sb g (SideObj pl j) = {}"
proof -
  have "side_placed sb g sp" using geo sp(1) by (simp add: geom_ok_def)
  then show ?thesis
    using sp cells_disjoint [OF ne, of "sp_bytes_per_page sp" "stride_bytes sp" "sp_base sp"]
    by (simp add: side_placed_def side_ptr_def)
qed

text \<open>The bytes of a live object lie in its home region.\<close>

lemma main_region_bytes:
  assumes ok: "gpu_ok pps g" and geo: "geom_ok pps sb g" and x: "live_obj g x" "obj_lease g x = Some l"
  shows "obj_bytes sb g x \<subseteq> extent g RMain"
proof -
  obtain t st n where l: "l = (t, st, n)" by (cases l)
  note X = obj_leaseD [OF geo x(1) x(2) [unfolded l]]
  note LX = leasesD [OF ok X(1)]
  have sb: "sb = int pps * bytes_per_page g" "0 < bytes_per_page g" using geo LX(4) by (simp_all add: geom_ok_def kv_slabbed_def)
  have "length (kv_slabs g) * pps = initial_main_pages g"
    using gpu_okD(1) [OF ok LX(4)] by (simp add: region_ok_def region_wf_len)
  then have im: "int (initial_main_pages g) = int (length (kv_slabs g)) * int pps"
    by (metis of_nat_mult)
  have "int (st + n) * sb \<le> int (length (kv_slabs g)) * sb" "0 \<le> int st * sb"
    using LX(2) sb by (auto intro: mult_right_mono)
  then have "run_bytes sb g st n \<subseteq> extent g RMain" by (auto simp: run_bytes_def im sb(1) algebra_simps)
  with X(2) show ?thesis by blast
qed

lemma obj_in_home:
  assumes ok: "gpu_ok pps g" and geo: "geom_ok pps sb g" and x: "live_obj g x"
  shows "obj_bytes sb g x \<subseteq> extent g (home g x)"
proof (cases "obj_lease g x")
  case (Some l)
  then have "home g x = RMain" using obj_leaseD(3) [OF geo x] by (cases l) auto
  with main_region_bytes [OF ok geo x Some] show ?thesis by simp
next
  case None
  show ?thesis
  proof (cases x)
    case (PageObj p)
    have tot: "total g = initial_main_pages g + initial_spec_pages g" using ok by (simp add: gpu_ok_def pages_ok_def)
    show ?thesis
    proof (cases "p < initial_main_pages g")
      case True
      then show ?thesis using PageObj cell_inside [of p _ "bytes_per_page g" "bytes_per_page g" "base g"]
        by (simp add: page_ptr_def)
    next
      case False
      then have "p - initial_main_pages g < initial_spec_pages g" using x PageObj tot by auto
      then show ?thesis
        using PageObj False cell_inside [of "p - initial_main_pages g" _ "bytes_per_page g" "bytes_per_page g" "spec_base g"]
        by (simp add: page_ptr_def)
    qed
  next
    case (SideObj pl i)
    with x None obtain sp where sp: "side_pool_of g pl = Some sp" "\<not> elastic sp" "side_live sp i"
      by (auto split: option.splits if_splits)
    have "i < sp_total sp" using sp ok sides_okD(1) [OF _ sp(1)] by (simp add: gpu_ok_def side_pool_ok_def side_live_def)
    moreover have "sp_bytes_per_page sp \<le> stride_bytes sp"
      using geo sp by (fastforce simp: geom_ok_def side_placed_def)
    ultimately show ?thesis using SideObj sp cell_inside [of i "sp_total sp" _ "stride_bytes sp" "sp_base sp"]
      by (simp add: side_ptr_def)
  next
    case (ZoneObj st n)
    with None show ?thesis by simp
  qed
qed

theorem live_objects_disjoint:
  assumes ok: "gpu_ok pps g" and geo: "geom_ok pps sb g" and ap: "apart (extent g)"
    and x: "live_obj g x" and y: "live_obj g y" and ne: "x \<noteq> y"
  shows "obj_bytes sb g x \<inter> obj_bytes sb g y = {}"
proof (cases "home g x = home g y")
  case False
  then have "extent g (home g x) \<inter> extent g (home g y) = {}" using ap by (simp add: apart_def)
  with obj_in_home [OF ok geo x] obj_in_home [OF ok geo y] show ?thesis by blast
next
  case True
  show ?thesis
  proof (cases "home g x")
    case RMain
    with True show ?thesis using main_disjoint [OF ok geo ne x _ y] by simp
  next
    case RSpec
    with True obtain p q where "x = PageObj p" "y = PageObj q" "\<not> p < initial_main_pages g" "\<not> q < initial_main_pages g"
      by (cases x; cases y) (auto split: option.splits if_splits)
    with ne page_page_disjoint [of p q g sb] show ?thesis by simp
  next
    case (RSide pl)
    with True obtain i j where ij: "x = SideObj pl i" "y = SideObj pl j"
      by (cases x; cases y) (auto split: option.splits if_splits)
    with x RSide obtain sp where "side_pool_of g pl = Some sp" "\<not> elastic sp"
      by (auto split: option.splits if_splits)
    with side_disjoint [OF geo] ij ne show ?thesis by blast
  qed
qed

section \<open>From the layout to every reachable state\<close>

definition layout_extent :: "vram_layout \<Rightarrow> gpu_vram_layout \<Rightarrow> vram_region \<Rightarrow> mem_region \<Rightarrow> int set" where
  "layout_extent L gl rg r =
     (let cells = (\<lambda>b n s. {b..<b + int n * s}); bpp = kv_bytes_per_page L; sb = layout_slab_bytes L;
          ik = indexer_k_bytes_per_page L in
      case r of
        RMain \<Rightarrow> cells (reg_kv_main rg) (kv_main_pages gl) bpp
      | RSpec \<Rightarrow> cells (reg_kv_speculation rg) (kv_speculation_pages gl) bpp
      | RSide KIndexerK \<Rightarrow>
          if kv_slab_managed L gl \<and> 0 < ik then {}
          else cells (reg_indexer_k rg) (indexer_k_pages gl) (if 0 < sb then sb else ik)
      | RSide KHca \<Rightarrow> cells (reg_kv_hca rg) (kv_hca_pages gl) (hca_bytes_per_page L)
      | RSide KSwa \<Rightarrow> cells (reg_kv_swa rg) (kv_swa_pages gl) (swa_bytes_per_page L)
      | RSide KKdaState \<Rightarrow>
          if kda_on_gpu L gl then {}
          else cells (reg_kda_state rg) (kda_state_slots gl) (slot_bytes (kda_layout L))
      | RSide KMain \<Rightarrow> {}
      | RSide KSpeculation \<Rightarrow> {})"

definition layout_placed :: "vram_layout \<Rightarrow> bool" where
  "layout_placed L \<longleftrightarrow>
     layout_sane L
     \<and> (0 < layout_pages_per_slab L \<longrightarrow>
          layout_slab_bytes L = int (layout_pages_per_slab L) * kv_bytes_per_page L \<and> 0 < kv_bytes_per_page L)
     \<and> (\<forall>(gl, rg) \<in> set (layout_gpus L). apart (layout_extent L gl rg))"

lemma side_geom_eqD:
  assumes "geom g' = geom g" "side_pool_of g' pl = Some sp'"
  obtains sp where "side_pool_of g pl = Some sp" "side_geom sp' = side_geom sp"
  using assms by (cases pl) (auto simp: geom_def side_pool_of_def)

lemma geom_ok_mono:
  assumes "geom g' = geom g" "geom_ok pps sb g"
  shows "geom_ok pps sb g'"
proof -
  have "side_placed sb g' sp'" if sp': "side_pool_of g' pl = Some sp'" for pl sp'
  proof -
    obtain sp where "side_pool_of g pl = Some sp" and s: "side_geom sp' = side_geom sp"
      by (rule side_geom_eqD [OF assms(1) sp'])
    with assms(2) have "side_placed sb g sp" by (simp add: geom_ok_def)
    with s assms(1) show ?thesis by (simp add: side_placed_def side_geom_def geom_def)
  qed
  with assms show ?thesis by (simp add: geom_ok_def geom_def)
qed

lemma extent_geom:
  assumes "geom g' = geom g"
  shows "extent g' = extent g"
proof
  fix r show "extent g' r = extent g r"
    using assms by (cases r; (cases "(case r of RSide pl \<Rightarrow> pl | _ \<Rightarrow> KMain)")?)
      (auto simp: geom_def side_geom_def side_pool_of_def)
qed

lemma unit_slabs_cover:
  assumes "0 < layout_slab_bytes L"
  shows "per_layer_bytes (kda_layout L) \<le> int (unit_slabs_of L) * layout_slab_bytes L"
proof -
  let ?b = "per_layer_bytes (kda_layout L)" and ?s = "layout_slab_bytes L"
  have "?b + ?s - 1 = (?b + ?s - 1) div ?s * ?s + (?b + ?s - 1) mod ?s" by simp
  moreover have "(?b + ?s - 1) mod ?s < ?s" using assms by simp
  ultimately have "?b \<le> (?b + ?s - 1) div ?s * ?s" by linarith
  moreover have "(?b + ?s - 1) div ?s * ?s \<le> int (unit_slabs_of L) * ?s"
    using assms by (intro mult_right_mono) (simp_all add: unit_slabs_of_def)
  ultimately show ?thesis by linarith
qed

lemma init_gpu_placed:
  assumes L: "layout_sane L" "geometry_ok L"
    "0 < layout_pages_per_slab L \<longrightarrow>
       layout_slab_bytes L = int (layout_pages_per_slab L) * kv_bytes_per_page L \<and> 0 < kv_bytes_per_page L"
    and g: "init_gpu L gl rg = Inr g"
  shows "geom_ok (layout_pages_per_slab L) (layout_slab_bytes L) g" "extent g = layout_extent L gl rg"
proof -
  from g obtain ik kda where ik: "init_indexer L gl rg = Inr ik" and kda: "init_kda L gl rg = Inr kda"
    and eq: "g = boot_pool L gl rg ik kda"
    by (auto simp: init_gpu_def res_simps split: if_splits)
  have sb: "kv_slab_managed L gl \<Longrightarrow> 0 < layout_slab_bytes L"
    using L(1) by (simp add: layout_sane_def kv_slab_managed_def)
  have fixed: "side_placed sb' g (init_side b bpp s n)" if "s \<le> 0 \<or> bpp \<le> s" for sb' b bpp s n
    using that by (auto simp: side_placed_def init_side_def)
  have sik: "side_placed (layout_slab_bytes L) g ik"
    using ik L(2) sb fixed [of "layout_slab_bytes L" "indexer_k_bytes_per_page L"]
    by (auto simp: init_indexer_def geometry_ok_def side_placed_def elastic_side_def eq boot_pool_def Let_def
        split: if_splits)
  have skda: "side_placed (layout_slab_bytes L) g kda"
    using kda unit_slabs_cover [OF sb] fixed [of 0]
    by (auto simp: init_kda_def side_placed_def elastic_side_def eq boot_pool_def Let_def split: if_splits)
  have "side_placed (layout_slab_bytes L) g sp" if "side_pool_of g pl = Some sp" for pl sp
    using that sik skda fixed [of 0] by (cases pl) (auto simp: side_pool_of_def eq boot_pool_def Let_def)
  then show "geom_ok (layout_pages_per_slab L) (layout_slab_bytes L) g"
    using L(3) by (auto simp: geom_ok_def eq boot_pool_def Let_def)
  show "extent g = layout_extent L gl rg"
  proof
    fix r
    show "extent g r = layout_extent L gl rg r"
    proof (cases r)
      case (RSide pl)
      then show ?thesis using ik kda
        by (cases pl) (auto simp: layout_extent_def side_pool_of_def eq boot_pool_def Let_def init_indexer_def init_kda_def
            init_side_def elastic_side_def split: if_splits)
    qed (auto simp: layout_extent_def eq boot_pool_def Let_def)
  qed
qed

lemma boot_gpus_nth:
  assumes "rfold (boot_gpu L) lrs a = Inr a'"
  shows "length (gpus a') = length (gpus a) + length lrs" "slab_bytes a' = slab_bytes a"
    "pages_per_slab a' = pages_per_slab a"
    "\<forall>gi < length (gpus a'). gi < length (gpus a) \<and> gpus a' ! gi = gpus a ! gi
      \<or> (\<exists>(gl, rg) \<in> set lrs. init_gpu L gl rg = Inr (gpus a' ! gi))"
proof -
  have "length (gpus a') = length (gpus a) + length lrs \<and> slab_bytes a' = slab_bytes a
    \<and> pages_per_slab a' = pages_per_slab a
    \<and> (\<forall>gi < length (gpus a'). gi < length (gpus a) \<and> gpus a' ! gi = gpus a ! gi
      \<or> (\<exists>(gl, rg) \<in> set lrs. init_gpu L gl rg = Inr (gpus a' ! gi)))"
    using assms
  proof (induction lrs arbitrary: a)
    case (Cons lr lrs)
    then obtain a1 where a1: "boot_gpu L lr a = Inr a1" "rfold (boot_gpu L) lrs a1 = Inr a'" by (auto simp: res_simps)
    then obtain g where g: "init_gpu L (fst lr) (snd lr) = Inr g" by (auto simp: boot_gpu_def res_simps Let_def)
    then have f: "gpus a1 = gpus a @ [g]" "slab_bytes a1 = slab_bytes a" "pages_per_slab a1 = pages_per_slab a"
      using a1(1) by (auto simp: boot_gpu_def Let_def split: if_splits)
    from Cons.IH [OF a1(2)] f g show ?case by (cases lr) (auto simp: nth_append less_Suc_eq)
  qed simp
  then show "length (gpus a') = length (gpus a) + length lrs" "slab_bytes a' = slab_bytes a"
    "pages_per_slab a' = pages_per_slab a"
    "\<forall>gi < length (gpus a'). gi < length (gpus a) \<and> gpus a' ! gi = gpus a ! gi
      \<or> (\<exists>(gl, rg) \<in> set lrs. init_gpu L gl rg = Inr (gpus a' ! gi))"
    by blast+
qed

lemma reachable_placed:
  assumes L: "layout_placed L" and a: "alloc_reachable L a" and gi: "gi < length (gpus a)"
  shows "apart (extent (gpus a ! gi))" "geom_ok (pages_per_slab a) (slab_bytes a) (gpus a ! gi)"
    "gpu_ok (pages_per_slab a) (gpus a ! gi)"
proof -
  have sane: "layout_sane L" using L by (simp add: layout_placed_def)
  obtain a0 where a0: "page_allocator L True = Inr a0" and ge: "a_geom a = a_geom a0"
    by (rule reachable_geom [OF a sane])
  have geo: "geometry_ok L" and bt: "rfold (boot_gpu L) (layout_gpus L) (empty_allocator L) = Inr a0"
    using a0 by (auto simp: page_allocator_def split: if_splits)
  note B = boot_gpus_nth [OF bt]
  have sb: "slab_bytes a = layout_slab_bytes L" "pages_per_slab a = layout_pages_per_slab L"
    using ge B(2,3) by (simp_all add: a_geom_def a_view_def empty_allocator_def)
  note G = a_geom_nth [OF ge [symmetric] gi]
  obtain gl rg where lr: "(gl, rg) \<in> set (layout_gpus L)" "init_gpu L gl rg = Inr (gpus a0 ! gi)"
    using B(4) G(1) by (auto simp: empty_allocator_def)
  note P = init_gpu_placed [OF sane geo _ lr(2)]
  have slabs: "0 < layout_pages_per_slab L \<longrightarrow>
      layout_slab_bytes L = int (layout_pages_per_slab L) * kv_bytes_per_page L \<and> 0 < kv_bytes_per_page L"
    using L by (simp add: layout_placed_def)
  have "apart (layout_extent L gl rg)" using L lr(1) by (auto simp: layout_placed_def)
  then show "apart (extent (gpus a ! gi))" using P(2) [OF slabs] extent_geom [OF G(2)] by simp
  show "geom_ok (pages_per_slab a) (slab_bytes a) (gpus a ! gi)"
    using geom_ok_mono [OF G(2) [symmetric] P(1) [OF slabs]] by (simp add: sb)
  show "gpu_ok (pages_per_slab a) (gpus a ! gi)"
    using reachable_inv [OF a sane] alloc_okD [OF _ gi] by simp
qed

theorem reachable_disjoint:
  assumes L: "layout_placed L" and a: "alloc_reachable L a" and gi: "gi < length (gpus a)"
    and x: "live_obj (gpus a ! gi) x" and y: "live_obj (gpus a ! gi) y" and ne: "x \<noteq> y"
  shows "obj_bytes (slab_bytes a) (gpus a ! gi) x \<inter> obj_bytes (slab_bytes a) (gpus a ! gi) y = {}"
  using live_objects_disjoint [OF reachable_placed(3,2,1) [OF L a gi] x y ne] .

end
