(* ===== verification/Allocator_Counts.thy ===== *)
theory Allocator_Counts
  imports Memory_Safety
begin

text \<open>
  The counters that callers plan with: the free-page counter of the slab region is exact, the
  allocator refuses a page only when none is available to the caller, and the largest free run is the
  length of the longest run of unclaimed slabs.
\<close>

section \<open>The free-page counter\<close>

lemma card_slab_taken:
  assumes "slab_wf pps s" "claimed s"
  shows "card (slab_taken s) = used s"
proof -
  have "slab_taken s = {..<bump s} - set (holes s)" by (auto simp: slab_taken_def)
  moreover have "set (holes s) \<subseteq> {..<bump s}" "distinct (holes s)" "used s + length (holes s) = bump s"
    using assms by (auto simp: slab_wf_def)
  ultimately show ?thesis by (simp add: card_Diff_subset distinct_card)
qed

definition pages_of_slab :: "nat \<Rightarrow> 'a kv_region_scheme \<Rightarrow> nat \<Rightarrow> nat set" where
  "pages_of_slab pps r i = {p \<in> kv_pages pps r. p div pps = i}"

lemma pages_of_slab_card:
  assumes wf: "region_wf pps r" and i: "i < length (kv_slabs r)"
  shows "card (pages_of_slab pps r i) = (if in_run r i then used (kv_slabs r ! i) else 0)"
proof (cases "in_run r i")
  case True
  have pps: "0 < pps" by (rule region_wf_pps [OF wf])
  have cl: "claimed (kv_slabs r ! i)" using True wf in_runD by (auto simp: region_wf_def)
  note sw = region_wf_slab [OF wf i]
  have lt: "off < pps" if "off \<in> slab_taken (kv_slabs r ! i)" for off
    using that sw cl by (auto simp: slab_taken_def slab_wf_def)
  have "pages_of_slab pps r i = (\<lambda>off. i * pps + off) ` slab_taken (kv_slabs r ! i)"
  proof (intro equalityI subsetI)
    fix p assume "p \<in> pages_of_slab pps r i"
    then have "p div pps = i" "p mod pps \<in> slab_taken (kv_slabs r ! i)" by (auto simp: pages_of_slab_def kv_pages_def)
    then show "p \<in> (\<lambda>off. i * pps + off) ` slab_taken (kv_slabs r ! i)"
      by (intro image_eqI [of _ _ "p mod pps"]) (auto simp: div_mult_mod_eq)
  next
    fix p assume "p \<in> (\<lambda>off. i * pps + off) ` slab_taken (kv_slabs r ! i)"
    then obtain off where off: "p = i * pps + off" "off \<in> slab_taken (kv_slabs r ! i)" by blast
    then have "off < pps" using lt by blast
    with off True block_index_less [OF i, of off pps] region_wf_len [OF wf] show "p \<in> pages_of_slab pps r i"
      by (simp add: pages_of_slab_def kv_pages_def)
  qed
  then have "card (pages_of_slab pps r i) = card (slab_taken (kv_slabs r ! i))"
    by (simp add: card_image inj_on_def)
  with card_slab_taken [OF sw cl] True show ?thesis by simp
next
  case False
  then have "pages_of_slab pps r i = {}" by (auto simp: pages_of_slab_def kv_pages_def)
  with False show ?thesis by simp
qed

lemma card_kv_pages:
  assumes wf: "region_wf pps r"
  shows "card (kv_pages pps r) = (\<Sum>i < length (kv_slabs r). card (pages_of_slab pps r i))"
proof -
  have fin: "finite (kv_pages pps r)" by (rule finite_subset [of _ "{..<initial_main_pages r}"]) (auto simp: kv_pages_def)
  have "kv_pages pps r = (\<Union>i < length (kv_slabs r). pages_of_slab pps r i)"
    using page_slab_less [OF wf] by (auto simp: pages_of_slab_def kv_pages_def)
  also have "card \<dots> = (\<Sum>i < length (kv_slabs r). card (pages_of_slab pps r i))"
    using fin by (intro card_UN_disjoint) (auto simp: pages_of_slab_def)
  finally show ?thesis .
qed

lemma free_pages_exact:
  assumes ok: "region_ok pps r"
  shows "kv_free_pages r + int (card (kv_pages pps r)) + int pps * int (card (side_slabs r)) =
    int (initial_main_pages r) + int (length (kv_loose_free r))"
proof -
  have wf: "region_wf pps r" using ok by (simp add: region_ok_def)
  let ?n = "length (kv_slabs r)" and ?u = "\<lambda>i. used (kv_slabs r ! i)"
  have "int pps - int (?u i) + int (card (pages_of_slab pps r i)) + (if i \<in> side_slabs r then int pps else 0) = int pps"
    if i: "i < ?n" for i
  proof -
    have "\<not> claimed (kv_slabs r ! i) \<Longrightarrow> ?u i = 0 \<and> \<not> in_run r i"
      using region_wf_slab [OF wf i] in_runD(2) [of r i] wf by (auto simp: slab_wf_def region_wf_def)
    then show ?thesis
      using pages_of_slab_card [OF wf i] side_slab_full(1) [OF wf, of i] i by (auto simp: side_slabs_def)
  qed
  then have "(\<Sum>i < ?n. int pps - int (?u i) + int (card (pages_of_slab pps r i))
      + (if i \<in> side_slabs r then int pps else 0)) = (\<Sum>i < ?n. int pps)" by (intro sum.cong) auto
  moreover have "(\<Sum>i < ?n. if i \<in> side_slabs r then int pps else 0) = int pps * int (card (side_slabs r))"
  proof -
    have "{..<?n} \<inter> {i. i \<in> side_slabs r} = side_slabs r" by (auto simp: side_slabs_def)
    then show ?thesis by (simp add: sum.If_cases mult.commute)
  qed
  moreover have "slab_room pps r = (\<Sum>i < ?n. int pps - int (?u i))"
    by (simp add: slab_room_def sum_list_sum_nth atLeast0LessThan)
  moreover have "int (initial_main_pages r) = int ?n * int pps" using region_wf_len [OF wf] by (metis of_nat_mult)
  moreover have "kv_free_pages r = slab_room pps r + int (length (kv_loose_free r))"
    using wf by (simp add: region_wf_def count_wf_def)
  ultimately show ?thesis by (simp add: sum.distrib card_kv_pages [OF wf])
qed

text \<open>In a whole GPU the pages of the runs are exactly the live pages of the main region.\<close>

lemma kv_pages_live:
  assumes ok: "gpu_ok pps g" and s: "kv_slabbed pps g"
  shows "kv_pages pps g = {p. p < initial_main_pages g \<and> live g p}"
proof -
  have t: "initial_main_pages g \<le> total g" using ok by (simp add: gpu_ok_def pages_ok_def)
  show ?thesis
  proof (intro equalityI subsetI)
    fix p assume p: "p \<in> kv_pages pps g"
    then have im: "p < initial_main_pages g" by (rule kv_pages_less)
    have "loose_wf g" using gpu_okD(1) [OF ok s] by (simp add: region_ok_def region_wf_def)
    then have "p \<notin> set (kv_loose_free g)" using im by (auto simp: loose_wf_def)
    then have "p \<notin> main_idle pps g" using p s by (simp add: main_idle_def)
    moreover have "p \<notin> set (spec_free g)" using gpu_okD(7) [OF ok] im by fastforce
    moreover have "main_idle pps g \<union> set (spec_free g) = {p. p < total g \<and> \<not> live g p}"
      using ok by (simp add: gpu_ok_def pages_ok_def)
    ultimately have "live g p" using im t by fastforce
    with im show "p \<in> {p. p < initial_main_pages g \<and> live g p}" by simp
  next
    fix p assume "p \<in> {p. p < initial_main_pages g \<and> live g p}"
    then have p: "p < initial_main_pages g" "live g p" by simp_all
    then have "p \<notin> main_idle pps g" using main_idle_live [OF ok, of p] t by simp
    with p s show "p \<in> kv_pages pps g" by (simp add: main_idle_def)
  qed
qed

section \<open>When an allocation is refused\<close>

definition run_full :: "nat \<Rightarrow> gpu_pool \<Rightarrow> u64 \<Rightarrow> bool" where
  "run_full pps g seq \<longleftrightarrow>
     kv_free_slabs g = [] \<and> kv_loose_free g = []
     \<and> (\<forall>i \<in> set (run_ids g seq). used (kv_slabs g ! i) = pps)"

lemma kv_alloc_refused:
  assumes "region_ok pps g" "kv_alloc_page pps seq t unres pref g = Inr (None, g')"
  shows "\<not> unres \<and> kv_free_pages g \<le> main_reserved g \<or> run_full pps g seq"
  using kv_alloc_page_None [OF assms] by (auto simp: run_full_def)

lemma kv_alloc_reserve:
  assumes "kv_alloc_page pps seq t False pref g = Inr (Some p, g')"
  shows "main_reserved g < kv_free_pages g"
  using assms by (auto simp: kv_alloc_page_def split: if_splits)

lemma available_pages_main:
  "p = KMain \<or> p = KSpeculation \<Longrightarrow>
   gpu_available_pages pps p g =
     max 0 ((if p = KMain \<and> kv_slabbed pps g then kv_free_pages g else int (length (free_list g p)))
            - (if p = KMain then main_reserved g else spec_reserved g))"
  by (auto simp: gpu_available_pages_def gpu_free_pages_def gpu_reserved_pages_def side_pool_of_def)

theorem gpu_allocate_refusal:
  assumes ok: "gpu_ok pps g" and p: "p = KMain \<or> p = KSpeculation"
    and r: "gpu_allocate pps gi p g = Inr (h, g')"
  shows "h \<noteq> None \<Longrightarrow> 0 < gpu_available_pages pps p g"
    "h = None \<Longrightarrow> gpu_available_pages pps p g = 0
       \<or> p = KMain \<and> kv_slabbed pps g \<and> run_full pps g kAnonymousRunSeq"
proof -
  have n: "side_pool_of g p = None" using p by (auto simp: side_pool_of_def)
  have "(h \<noteq> None \<longrightarrow> 0 < gpu_available_pages pps p g)
    \<and> (h = None \<longrightarrow> gpu_available_pages pps p g = 0
       \<or> p = KMain \<and> kv_slabbed pps g \<and> run_full pps g kAnonymousRunSeq)"
  proof (cases "p = KMain \<and> kv_slabbed pps g")
    case True
    then obtain res g1 where k: "kv_alloc_page pps kAnonymousRunSeq 0 False None g = Inr (res, g1)"
      and h: "h = None \<longleftrightarrow> res = None"
      using r n by (auto simp: gpu_allocate_def allocate_anonymous_def res_simps split: option.splits)
    have reg: "region_ok pps g" using gpu_okD(1) [OF ok] True by blast
    show ?thesis
    proof (cases res)
      case None
      with kv_alloc_refused [OF reg, of kAnonymousRunSeq 0 False None g1] k h True p show ?thesis
        by (auto simp: available_pages_main)
    next
      case (Some q)
      with kv_alloc_reserve [of pps kAnonymousRunSeq 0 None g q g1] k h True p show ?thesis
        by (auto simp: available_pages_main)
    qed
  next
    case False
    then show ?thesis using r n p
      by (auto simp: gpu_allocate_def allocate_from_pool_def Let_def available_pages_main split: if_splits)
  qed
  then show "h \<noteq> None \<Longrightarrow> 0 < gpu_available_pages pps p g"
    "h = None \<Longrightarrow> gpu_available_pages pps p g = 0
       \<or> p = KMain \<and> kv_slabbed pps g \<and> run_full pps g kAnonymousRunSeq" by blast+
qed

section \<open>The largest free run\<close>

lemma largest_free_run_spec:
  assumes "kv_slabbed pps g"
  shows "\<exists>st. st + gpu_largest_free_run pps g \<le> length (kv_slabs g)
      \<and> free_run (slab_claimed g) st (gpu_largest_free_run pps g)"
    and "st + n \<le> length (kv_slabs g) \<Longrightarrow> free_run (slab_claimed g) st n \<Longrightarrow> n \<le> gpu_largest_free_run pps g"
proof -
  let ?N = "length (kv_slabs g)"
  have "free_run (slab_claimed g) ?N 0" by (auto simp: free_run_def)
  then show "\<exists>st. st + gpu_largest_free_run pps g \<le> ?N \<and> free_run (slab_claimed g) st (gpu_largest_free_run pps g)"
    using longest_run_attained [of "slab_claimed g" ?N 0 0] assms
    by (auto simp: gpu_largest_free_run_def free_run_def)
  show "st + n \<le> ?N \<Longrightarrow> free_run (slab_claimed g) st n \<Longrightarrow> n \<le> gpu_largest_free_run pps g"
    using longest_run_max [of st n ?N 0 "slab_claimed g" 0] assms by (simp add: gpu_largest_free_run_def)
qed

text \<open>A zone of \<open>n\<close> slabs is granted exactly when such a run exists and the headroom allows it.\<close>

lemma claim_zone_run:
  assumes "gpu_claim_expert_zone pps sb gi num extra g = Inr (Some z, g')"
  shows "free_run (slab_claimed g) (ez_start_slab z) (nat num)"
    "ez_start_slab z + nat num \<le> length (kv_slabs g)" "kv_slabbed pps g" "0 < num"
  using assms top_run_Some [of "slab_claimed g" "nat num" "length (kv_slabs g)" 0 "ez_start_slab z"]
  by (auto simp: gpu_claim_expert_zone_def Let_def res_simps split: if_splits option.splits)

theorem gpu_claim_expert_zone_iff:
  assumes ok: "gpu_ok pps g" and r: "gpu_claim_expert_zone pps sb gi num extra g = Inr (z, g')"
  shows "z \<noteq> None \<longleftrightarrow> kv_slabbed pps g \<and> 0 < num \<and> num \<le> int (gpu_largest_free_run pps g)
    \<and> main_reserved g + extra \<le> kv_free_pages g - num * int pps"
proof (cases z)
  case None
  have "\<not> (kv_slabbed pps g \<and> 0 < num \<and> num \<le> int (gpu_largest_free_run pps g)
    \<and> main_reserved g + extra \<le> kv_free_pages g - num * int pps)"
  proof
    assume h: "kv_slabbed pps g \<and> 0 < num \<and> num \<le> int (gpu_largest_free_run pps g)
      \<and> main_reserved g + extra \<le> kv_free_pages g - num * int pps"
    then obtain st where "st + gpu_largest_free_run pps g \<le> length (kv_slabs g)"
      "free_run (slab_claimed g) st (gpu_largest_free_run pps g)" using largest_free_run_spec(1) by blast
    moreover have "nat num \<le> gpu_largest_free_run pps g" using h by linarith
    ultimately have "st + nat num \<le> length (kv_slabs g)" "free_run (slab_claimed g) st (nat num)"
      using free_run_mono by auto
    with h None r gpu_claim_expert_zone_ok [OF ok, of sb gi num extra] show False by auto
  qed
  with None show ?thesis by blast
next
  case (Some run)
  have "zone_granted pps (ez_start_slab run) (nat num) extra g g'"
    using gpu_claim_expert_zone_ok [OF ok, of sb gi num extra] r Some by auto
  then have "main_reserved g + extra \<le> kv_free_pages g - int (nat num) * int pps"
    unfolding zone_granted_def by (elim conjE) (simp only:)
  moreover note C = claim_zone_run [OF r [unfolded Some]]
  moreover have "nat num \<le> gpu_largest_free_run pps g" using largest_free_run_spec(2) C by blast
  ultimately show ?thesis using Some by auto
qed

section \<open>The reserve\<close>

text \<open>
  The pages that stand behind a pool: an elastic side pool is served from the slabs of the main
  region, so it is the main reserve that such a claim has to leave alone.
\<close>

definition backing :: "gpu_pool \<Rightarrow> pool \<Rightarrow> pool" where
  "backing g p = (case side_pool_of g p of Some sp \<Rightarrow> if elastic sp then KMain else p | None \<Rightarrow> p)"

lemma upd_page_free [simp]: "gpu_free_pages pps q (upd_page i f g) = gpu_free_pages pps q g"
  by (simp add: upd_page_def gpu_free_pages_def side_pool_of_def kv_slabbed_def free_list_def split: pool.splits)

lemma gpu_free_main:
  "kv_slabbed pps g \<Longrightarrow> gpu_free_pages pps KMain g = kv_free_pages g"
  by (simp add: gpu_free_pages_def side_pool_of_def)

lemma slabbed_kept:
  assumes "region_ok pps g" "region_ok pps g'" "initial_main_pages g' = initial_main_pages g" "kv_slabbed pps g"
  shows "kv_slabbed pps g'"
proof -
  have "length (kv_slabs g') * pps = length (kv_slabs g) * pps"
    using assms(1-3) by (metis region_ok_def region_wf_len)
  with assms(4) show ?thesis by (auto simp: kv_slabbed_def)
qed

lemma alloc_keeps_reserve:
  assumes ok: "gpu_ok pps g" and p: "p = KMain \<or> p = KSpeculation"
    and r: "gpu_allocate pps gi p g = Inr (Some h, g')"
  shows "gpu_reserved_pages p g \<le> gpu_free_pages pps p g'"
proof (cases "p = KMain \<and> kv_slabbed pps g")
  case True
  then obtain q g1 where k: "kv_alloc_page pps kAnonymousRunSeq 0 False None g = Inr (Some q, g1)"
    and g': "g' = upd_page q (claim_meta KMain) g1"
    using r by (auto simp: gpu_allocate_def side_pool_of_def allocate_anonymous_def res_simps split: option.splits)
  have "main_reserved g < kv_free_pages g" by (rule kv_alloc_reserve [OF k])
  moreover have E: "region_ok pps g1" "alloc_effect pps kAnonymousRunSeq None q g g1"
    using kv_alloc_page_ok [OF gpu_okD(1) [OF ok], of kAnonymousRunSeq 0 False None] k True by auto
  moreover have "kv_slabbed pps g1"
    using slabbed_kept [OF gpu_okD(1) [OF ok] E(1)] E(2) True by (simp add: alloc_effect_def same_frame_def)
  moreover have "kv_free_pages g1 = kv_free_pages g - 1" using E(2) by (simp add: alloc_effect_def)
  ultimately show ?thesis using True g' by (simp add: gpu_free_main gpu_reserved_pages_def)
next
  case False
  have "side_pool_of x p = None" for x using p by (auto simp: side_pool_of_def)
  moreover have "p = KMain \<Longrightarrow> \<not> kv_slabbed pps (g\<lparr>main_free := xs\<rparr>)" for xs
    using False by (simp add: kv_slabbed_def)
  ultimately show ?thesis using r False p
    by (auto simp: gpu_allocate_def allocate_from_pool_def Let_def gpu_reserved_pages_def gpu_free_pages_def
        free_list_def put_free_list_def upd_page_def kv_slabbed_def split: if_splits)
qed

lemma side_keeps_reserve:
  assumes ok: "gpu_ok pps g" and sp: "side_pool_of g p = Some sp" "elastic sp"
    and r: "gpu_allocate_side pps gi p g = Inr (Some h, g')"
  shows "main_reserved g \<le> gpu_free_pages pps KMain g'"
proof -
  obtain sid g1 where k: "kv_claim_side_slab pps True g = Inr (Some sid, g1)"
    and g': "g' = upd_side p (upd_side_page sid (claim_meta p)) g1"
    using r sp by (auto simp: gpu_allocate_side_def res_simps Let_def split: option.splits)
  have ne: "kv_free_slabs g \<noteq> []" using k by (auto simp: kv_claim_side_slab_def)
  then have s: "kv_slabbed pps g" using gpu_okD(14) [OF ok] by blast
  from kv_claim_side_slab_ok [OF gpu_okD(1) [OF ok s], of True] k
  have "region_ok pps g1" "main_reserved g1 \<le> kv_free_pages g1" "main_reserved g1 = main_reserved g"
    and len: "initial_main_pages g1 = initial_main_pages g"
    by (auto simp: side_claim_effect_def same_frame_def)
  moreover have "kv_slabbed pps g1"
    by (rule slabbed_kept [OF gpu_okD(1) [OF ok s] calculation(1) len s])
  moreover have "kv_slabbed pps g' = kv_slabbed pps g1" "kv_free_pages g' = kv_free_pages g1"
    by (simp_all add: g' kv_slabbed_def)
  ultimately show ?thesis by (simp add: gpu_free_main)
qed

section \<open>When a copy-on-write throws\<close>

definition side_exhausted :: "nat \<Rightarrow> gpu_pool \<Rightarrow> side_pool \<Rightarrow> bool" where
  "side_exhausted pps g sp \<longleftrightarrow>
     (if elastic sp then kv_free_slabs g = [] \<or> kv_free_pages g - int pps < main_reserved g
      else sp_free sp = [])"

definition cow_exhausted :: "u64 \<Rightarrow> allocator \<Rightarrow> page_handle \<Rightarrow> bool" where
  "cow_exhausted dst a h \<longleftrightarrow>
     (let pps = pages_per_slab a; g = gpus a ! nat (gpu_idx h); old = pages g ! nat (page_idx h) in
      case side_pool_of g (handle_pool h) of
        Some sp \<Rightarrow> side_exhausted pps g sp
      | None \<Rightarrow>
          if pool_tag old = KMain \<and> kv_slabbed pps g
          then run_full pps g (if dst \<noteq> 0 then dst else sequence_id old)
          else free_list g (pool_tag old) = [])"

lemma only_asserts:
  "kv_return_page pps i r \<noteq> Inl RuntimeError" "kv_release_side_slab pps i r \<noteq> Inl RuntimeError"
  "reset_side_slab pps i r \<noteq> Inl RuntimeError"
  by (auto simp: kv_return_page_def kv_release_side_slab_def reset_side_slab_def assert_then_def Let_def)

lemma rfold_only_asserts: "(\<And>x s. f x s \<noteq> Inl e) \<Longrightarrow> rfold f xs s \<noteq> Inl e"
  by (induction xs arbitrary: s) (auto simp: rbind_def split: sum.splits)

lemma drop_ref_asserts: "drop_ref pps i g \<noteq> Inl RuntimeError" "drop_side_ref pps p i g \<noteq> Inl RuntimeError"
proof -
  show "drop_ref pps i g \<noteq> Inl RuntimeError"
    using only_asserts(1) by (auto simp: drop_ref_def return_to_free_list_def Let_def)
  have "release_side_slabs pps sids g \<noteq> Inl RuntimeError" for sids and g :: gpu_pool
    using rfold_only_asserts [where f = "reset_side_slab pps", OF only_asserts(3)] by (auto simp: release_side_slabs_def rbind_def split: sum.splits)
  moreover have "rfold (kv_release_side_slab pps) sids g \<noteq> Inl RuntimeError" for sids and g :: gpu_pool
    by (rule rfold_only_asserts [OF only_asserts(2)])
  ultimately show "drop_side_ref pps p i g \<noteq> Inl RuntimeError"
    by (auto simp: drop_side_ref_def side_release_def Let_def split: option.splits)
qed

lemma gpu_allocate_side_None:
  assumes "side_pool_of g p = Some sp" "gpu_allocate_side pps gi p g = Inr (None, g')"
  shows "side_exhausted pps g sp"
  using assms
  by (auto simp: gpu_allocate_side_def side_exhausted_def kv_claim_side_slab_def Let_def res_simps
      split: if_splits option.splits)

lemma cow_side_throws:
  assumes ok: "alloc_ok a" and gpu: "valid_gpu a (gpu_idx h)" and kda: "handle_pool h = KKdaState \<Longrightarrow> \<not> kda_mapped a"
    and sp: "side_pool_of (gpus a ! nat (gpu_idx h)) (handle_pool h) = Some sp"
    and r: "cow_side h a = Inl RuntimeError"
  shows "side_exhausted (pages_per_slab a) (gpus a ! nat (gpu_idx h)) sp"
proof -
  obtain nh a1 where al: "allocate (gpu_idx h) (handle_pool h) a = Inr (nh, a1)"
    using allocate_handed_out(1) [OF ok gpu kda] by blast
  have "nh = None"
    using r sp al drop_ref_asserts(2)
    by (auto simp: cow_side_def Let_def assert_then_def rbind_def split: if_splits option.splits sum.splits)
  with al gpu sp obtain g' where
    "gpu_allocate_side (pages_per_slab a) (nat (gpu_idx h)) (handle_pool h) (gpus a ! nat (gpu_idx h)) = Inr (None, g')"
    by (auto simp: allocate_def on_gpu'_def gpu_allocate_def res_simps)
  with sp show ?thesis by (rule gpu_allocate_side_None)
qed

lemma unreserved_None:
  assumes p: "p = KMain \<or> p = KSpeculation" and ns: "\<not> (p = KMain \<and> kv_slabbed pps g)"
    and r: "gpu_allocate_unreserved pps gi p g = Inr (None, g')"
  shows "free_list g p = []"
  using assms by (auto simp: gpu_allocate_unreserved_def side_pool_of_def allocate_from_pool_def Let_def split: if_splits)

lemma cow_local_throws:
  assumes ok: "gpu_ok (pages_per_slab a) (gpus a ! nat (gpu_idx h))"
    and p: "nat (page_idx h) < total (gpus a ! nat (gpu_idx h))" "live (gpus a ! nat (gpu_idx h)) (nat (page_idx h))"
    and sp: "side_pool_of (gpus a ! nat (gpu_idx h)) (handle_pool h) = None"
    and r: "cow_local h dst a = Inl RuntimeError"
  shows "cow_exhausted dst a h"
proof -
  define pps gi g old where "pps = pages_per_slab a" and "gi = nat (gpu_idx h)" and "g = gpus a ! gi"
    and "old = pages g ! nat (page_idx h)"
  let ?seq = "if dst \<noteq> 0 then dst else sequence_id old"
  note defs = pps_def gi_def g_def old_def
  note R = r [unfolded cow_local_def Let_def, folded gi_def pps_def, folded g_def, folded old_def]
  have G: "gpu_ok pps g" using ok by (simp add: defs)
  have tag: "pool_tag old = KMain \<or> pool_tag old = KSpeculation"
    using G p by (auto simp: gpu_ok_def pages_ok_def defs)
  show ?thesis
  proof (cases "pool_tag old = KMain \<and> kv_slabbed pps g")
    case True
    have reg: "region_ok pps g" using gpu_okD(1) [OF G] True by blast
    obtain res g1 where k: "kv_alloc_page pps ?seq (token_start old) True (prefer_slab_of pps g (nat (page_idx h))) g = Inr (res, g1)"
      using kv_alloc_page_ok [OF reg] by blast
    have "res = None"
      using R True k drop_ref_asserts(1) by (auto simp: rbind_def split: option.splits sum.splits)
    with kv_alloc_refused [OF reg] k have "run_full pps g ?seq" by blast
    with True sp show ?thesis unfolding cow_exhausted_def Let_def by (simp add: defs split: if_splits)
  next
    case False
    obtain nh g1 where k: "gpu_allocate_unreserved pps gi (pool_tag old) g = Inr (nh, g1)"
      using gpu_allocate_unreserved_ok [OF G tag] by blast
    have "nh = None"
      using R False k drop_ref_asserts(1) by (auto simp: rbind_def split: option.splits sum.splits)
    with unreserved_None [OF tag False] k have "free_list g (pool_tag old) = []" by blast
    with False sp show ?thesis unfolding cow_exhausted_def Let_def by (auto simp: defs)
  qed
qed

lemma cow_throws_exhausted:
  assumes ok: "alloc_ok a" and h: "live_handle a h" and loc: "local_handle a h"
    and kda: "handle_pool h = KKdaState \<Longrightarrow> \<not> kda_mapped a"
    and r: "cow_copy h dst a = Inl RuntimeError"
  shows "cow_exhausted dst a h"
proof -
  note D = live_handleD [OF ok h]
  have v: "valid_gpu a (gpu_idx h)" using h by (simp add: live_handle_def)
  show ?thesis
  proof (cases "side_pool_of (gpus a ! nat (gpu_idx h)) (handle_pool h)")
    case None
    note N = D(3) [OF None]
    have "\<not> mirrored a (pages (gpus a ! nat (gpu_idx h)) ! nat (page_idx h))"
      using loc None N by (auto simp: local_handle_def key_of_def)
    then have "cow_local h dst a = Inl RuntimeError"
      using r None by (auto simp: cow_copy_def Let_def assert_then_def split: if_splits)
    with cow_local_throws D(2) N None show ?thesis by blast
  next
    case (Some sp)
    have "cow_side h a = Inl RuntimeError" using r Some v by (simp add: cow_copy_def Let_def)
    from cow_side_throws [OF ok v kda Some this] Some show ?thesis by (simp add: cow_exhausted_def Let_def)
  qed
qed

section \<open>A new allocator is empty\<close>

lemma init_gpu_empty:
  assumes "init_gpu L gl rg = Inr g"
  shows "gpu_refs g q i = 0"
    "p = KMain \<or> p = KSpeculation \<Longrightarrow> gpu_free_pages (layout_pages_per_slab L) p g = int (gpu_total_pages p g)"
proof -
  from assms obtain ik kda where ik: "init_indexer L gl rg = Inr ik" and kda: "init_kda L gl rg = Inr kda"
    and mod: "kv_slab_managed L gl \<Longrightarrow> kv_main_pages gl mod layout_pages_per_slab L = 0"
    and eq: "g = boot_pool L gl rg ik kda"
    by (auto simp: init_gpu_def res_simps split: if_splits)
  have fresh: "i < length (sp_pages sp) \<Longrightarrow> refcount (sp_pages sp ! i) = 0" if "sp = ik \<or> sp = kda" for sp
    using that ik kda by (auto simp: init_indexer_def init_kda_def init_side_def elastic_side_def Let_def split: if_splits)
  show "gpu_refs g q i = 0"
    using fresh by (auto simp: gpu_refs_def eq boot_pool_sides init_side_def split: option.splits pool.splits)
  show "p = KMain \<or> p = KSpeculation \<Longrightarrow> gpu_free_pages (layout_pages_per_slab L) p g = int (gpu_total_pages p g)"
    using boot_region(3) [OF _ mod, of rg ik kda]
    by (auto simp: gpu_free_pages_def gpu_total_pages_def side_pool_of_def free_list_def eq kv_slabbed_def)
qed

end
