(* ===== verification/Allocator_Demo.thy ===== *)
theory Allocator_Demo
  imports Allocator_Counts
begin

text \<open>
  A small allocator on which the properties are exercised: one GPU with two slabs of two main
  pages each, two speculation pages, an elastic indexer pool and one page in each fixed side pool.
\<close>

definition demo_layout :: vram_layout where
  "demo_layout =
     \<lparr>layout_slab_bytes = 2, layout_pages_per_slab = 2, kv_bytes_per_page = 1,
      indexer_k_bytes_per_page = 2, hca_bytes_per_page = 1, swa_bytes_per_page = 1,
      kda_layout = \<lparr>kda_layout_enabled = False, kda_layout_mapped = False, num_layers = 0,
                     per_layer_bytes = 0, slot_bytes = 1\<rparr>,
      layout_gpus =
        [(\<lparr>kv_main_pages = 4, kv_speculation_pages = 2, indexer_k_pages = 0, kv_hca_pages = 1,
           kv_swa_pages = 1, kda_state_slots = 1, attention_host = True, gpu_admissible_ctx_tokens = 64\<rparr>,
          \<lparr>reg_kv_main = 100, reg_kv_speculation = 200, reg_indexer_k = 0, reg_kv_hca = 300,
           reg_kv_swa = 400, reg_kda_state = 500\<rparr>)]\<rparr>"

definition demo0 :: allocator where
  "demo0 = (case page_allocator demo_layout True of Inl e \<Rightarrow> empty_allocator demo_layout | Inr a \<Rightarrow> a)"

lemma demo_boot: "page_allocator demo_layout True = Inr demo0"
proof -
  have "\<not> isl (page_allocator demo_layout True)" by code_simp
  then show ?thesis by (auto simp: demo0_def split: sum.splits)
qed

lemma demo_sane: "layout_sane demo_layout"
  by (simp add: layout_sane_def demo_layout_def)

lemma demo0_reachable: "alloc_reachable demo_layout demo0"
  by (rule reach_boot [OF demo_boot])

lemma demo0_ok: "alloc_ok demo0" "dcp demo0 = default_dcp"
  using reachable_inv [OF demo0_reachable demo_sane] by simp_all

lemma demo_gpu: "valid_gpu demo0 0" "nat 0 < length (gpus demo0)"
  by code_simp+

definition taken :: "(page_handle option \<times> allocator) res \<Rightarrow> page_handle \<times> allocator" where
  "taken r = (case r of Inr (Some h, a) \<Rightarrow> (h, a) | _ \<Rightarrow> (mk_handle 0 0 0 KMain, demo0))"

lemma taken_eq: "(case r of Inr (Some h, a) \<Rightarrow> True | _ \<Rightarrow> False) \<Longrightarrow> r = Inr (Some (fst (taken r)), snd (taken r))"
  by (auto simp: taken_def split: sum.splits option.splits)

text \<open>One main page, then one speculation page.\<close>

definition demo1 :: "page_handle \<times> allocator" where
  "demo1 = taken (allocate 0 KMain demo0)"

lemma demo1_alloc: "allocate 0 KMain demo0 = Inr (Some (fst demo1), snd demo1)"
proof -
  have "case allocate 0 KMain demo0 of Inr (Some h, a) \<Rightarrow> True | _ \<Rightarrow> False" by code_simp
  then show ?thesis unfolding demo1_def by (rule taken_eq)
qed

lemma demo1_ok: "alloc_ok (snd demo1)" "refs (snd demo1) (key_of (fst demo1)) = 1"
  "live_handle (snd demo1) (fst demo1)" "local_handle (snd demo1) (fst demo1)"
proof -
  have "handed_out 0 KMain demo0 (Some (fst demo1)) (snd demo1)"
    using allocate_handed_out(1) [OF demo0_ok(1) demo_gpu(1), of KMain] demo1_alloc by auto
  then show ok: "alloc_ok (snd demo1)" and r: "refs (snd demo1) (key_of (fst demo1)) = 1"
    by (simp_all add: handed_out_def)
  have "valid_gpu (snd demo1) (gpu_idx (fst demo1))" "0 \<le> page_idx (fst demo1)" by code_simp+
  with r show "live_handle (snd demo1) (fst demo1)" by (simp add: live_handle_def)
  show "local_handle (snd demo1) (fst demo1)" by code_simp
qed

lemma demo_placed: "layout_placed demo_layout"
proof -
  have "apart (layout_extent demo_layout gl rg)" if "(gl, rg) \<in> set (layout_gpus demo_layout)" for gl rg
    unfolding apart_def
  proof (intro allI impI)
    fix r r' :: mem_region assume "r \<noteq> r'"
    with that show "layout_extent demo_layout gl rg r \<inter> layout_extent demo_layout gl rg r' = {}"
      by (cases r; cases r'; (cases "case r of RSide pl \<Rightarrow> pl | _ \<Rightarrow> KMain")?;
          (cases "case r' of RSide pl \<Rightarrow> pl | _ \<Rightarrow> KMain")?)
        (auto simp: demo_layout_def layout_extent_def kv_slab_managed_def kda_on_gpu_def Let_def)
  qed
  then show ?thesis
    using demo_sane by (auto simp: layout_placed_def) (simp_all add: demo_layout_def)
qed

lemma demo1_reachable: "alloc_reachable demo_layout (snd demo1)"
  by (rule reach_step [OF demo0_reachable step_allocate [OF demo_gpu(1) _ demo1_alloc]]) simp

text \<open>A second main page.\<close>

definition demo2 :: "page_handle \<times> allocator" where
  "demo2 = taken (allocate 0 KMain (snd demo1))"

lemma demo1_gpu: "valid_gpu (snd demo1) 0"
  by code_simp

lemma demo2_alloc: "allocate 0 KMain (snd demo1) = Inr (Some (fst demo2), snd demo2)"
proof -
  have "case allocate 0 KMain (snd demo1) of Inr (Some h, a) \<Rightarrow> True | _ \<Rightarrow> False" by code_simp
  then show ?thesis unfolding demo2_def by (rule taken_eq)
qed

lemma demo2_reachable: "alloc_reachable demo_layout (snd demo2)"
  by (rule reach_step [OF demo1_reachable step_allocate [OF demo1_gpu _ demo2_alloc]]) simp

text \<open>One speculation page.\<close>

definition demo_spec :: "page_handle \<times> allocator" where
  "demo_spec = taken (allocate 0 KSpeculation demo0)"

lemma demo_spec_alloc: "allocate 0 KSpeculation demo0 = Inr (Some (fst demo_spec), snd demo_spec)"
proof -
  have "case allocate 0 KSpeculation demo0 of Inr (Some h, a) \<Rightarrow> True | _ \<Rightarrow> False" by code_simp
  then show ?thesis unfolding demo_spec_def by (rule taken_eq)
qed

lemma demo_spec_ok: "alloc_ok (snd demo_spec)" "live_handle (snd demo_spec) (fst demo_spec)"
  "local_handle (snd demo_spec) (fst demo_spec)"
proof -
  have h: "handed_out 0 KSpeculation demo0 (Some (fst demo_spec)) (snd demo_spec)"
    using allocate_handed_out(1) [OF demo0_ok(1) demo_gpu(1), of KSpeculation] demo_spec_alloc by auto
  then show "alloc_ok (snd demo_spec)" by (simp add: handed_out_def)
  have "valid_gpu (snd demo_spec) (gpu_idx (fst demo_spec))" by code_simp
  with h show "live_handle (snd demo_spec) (fst demo_spec)" by (simp add: handed_out_def live_handle_def)
  show "local_handle (snd demo_spec) (fst demo_spec)" by code_simp
qed

section \<open>A mapped-KDA allocator and a two-GPU replicated one\<close>

definition kda_demo_layout :: vram_layout where
  "kda_demo_layout =
     demo_layout\<lparr>
       kda_layout := \<lparr>kda_layout_enabled = True, kda_layout_mapped = True, num_layers = 1,
                      per_layer_bytes = 3, slot_bytes = 1\<rparr>,
       layout_gpus := map (\<lambda>(gl, rg). (gl\<lparr>kv_main_pages := 8, kda_state_slots := 0\<rparr>, rg)) (layout_gpus demo_layout)\<rparr>"

definition kda_demo :: allocator where
  "kda_demo = (case page_allocator kda_demo_layout True of Inl e \<Rightarrow> empty_allocator kda_demo_layout | Inr a \<Rightarrow> a)"

lemma kda_demo_boot: "page_allocator kda_demo_layout True = Inr kda_demo"
proof -
  have "\<not> isl (page_allocator kda_demo_layout True)" by code_simp
  then show ?thesis by (auto simp: kda_demo_def split: sum.splits)
qed

lemma kda_demo_ok: "alloc_ok kda_demo" "valid_gpu kda_demo 0" "kda_mapped kda_demo" "kda_ready kda_demo 0"
proof -
  have "layout_sane kda_demo_layout" by (simp add: layout_sane_def kda_demo_layout_def demo_layout_def)
  then show "alloc_ok kda_demo" by (rule boot_ok(1) [OF _ kda_demo_boot])
  show "valid_gpu kda_demo 0" "kda_mapped kda_demo" "kda_ready kda_demo 0" by code_simp+
qed

definition pair_layout :: vram_layout where
  "pair_layout = demo_layout\<lparr>layout_gpus := layout_gpus demo_layout @ layout_gpus demo_layout\<rparr>"

definition pair_demo :: allocator where
  "pair_demo =
     (case page_allocator pair_layout True of
        Inl e \<Rightarrow> empty_allocator pair_layout
      | Inr a \<Rightarrow> a\<lparr>dcp := default_dcp\<lparr>dcp_size := 2, tp_gpu_indices := [0, 1]\<rparr>\<rparr>)"

lemma pair_demo_ok: "alloc_ok pair_demo"
proof -
  have "\<not> isl (page_allocator pair_layout True)" by code_simp
  then obtain a where a: "page_allocator pair_layout True = Inr a" by (cases "page_allocator pair_layout True") auto
  have "layout_sane pair_layout" by (simp add: layout_sane_def pair_layout_def demo_layout_def)
  then have "alloc_ok a" by (rule boot_ok(1) [OF _ a])
  then show "alloc_ok pair_demo" by (simp add: pair_demo_def a alloc_ok_def gpu_inv_def)
qed

end
