(* ===== verification/Replicated_Inv.thy ===== *)
theory Replicated_Inv
  imports Page_Allocator_Inv
begin

text \<open>
  Replicated KV: every tensor-parallel GPU holds the same pages at the same indices. The lockstep
  relation says that the runs of the replicated sequences and the slabs in them are identical on
  all ranks; the other slabs may differ (side tenants are claimed per rank). It is what makes the
  canonical rank's placement valid on every mirror.
\<close>

section \<open>Running an operation on several GPUs\<close>

definition only_gpus :: "nat list \<Rightarrow> allocator \<Rightarrow> allocator \<Rightarrow> bool" where
  "only_gpus gis a a' \<longleftrightarrow>
     length (gpus a') = length (gpus a) \<and> a' = a\<lparr>gpus := gpus a'\<rparr>
     \<and> (\<forall>gi. gi \<notin> set gis \<longrightarrow> gpus a' ! gi = gpus a ! gi)"

lemma only_gpus_refl [simp]: "only_gpus gis a a"
  by (simp add: only_gpus_def)

lemma only_gpus_simps:
  assumes "only_gpus gis a a'"
  shows "dcp a' = dcp a" "pages_per_slab a' = pages_per_slab a" "length (gpus a') = length (gpus a)"
    "kda_mapped a' = kda_mapped a" "kda_unit_slabs a' = kda_unit_slabs a"
  using assms unfolding only_gpus_def by (metis allocator.select_convs allocator.surjective allocator.update_convs(1))+

lemma only_gpus_trans: "only_gpus gis a b \<Longrightarrow> only_gpus gis b c \<Longrightarrow> only_gpus gis a c"
  unfolding only_gpus_def by (metis allocator.surjective allocator.update_convs(1))

lemma on_gpus_ok:
  assumes "distinct gis" "\<forall>gi \<in> set gis. gi < length (gpus a)"
    "\<forall>gi \<in> set gis. \<exists>g'. f (gpus a ! gi) = Inr g'"
  shows "\<exists>a'. on_gpus gis f a = Inr a' \<and> only_gpus gis a a'
    \<and> (\<forall>gi \<in> set gis. f (gpus a ! gi) = Inr (gpus a' ! gi))"
  using assms
proof (induction gis arbitrary: a)
  case Nil
  then show ?case by (simp add: on_gpus_def)
next
  case (Cons x xs)
  obtain g where g: "f (gpus a ! x) = Inr g" using Cons.prems(3) by auto
  let ?a1 = "put_gpu x g a"
  have keep: "gpus ?a1 ! gi = gpus a ! gi" if "gi \<noteq> x" for gi using that by simp
  have nx: "gi \<noteq> x" if "gi \<in> set xs" for gi using that Cons.prems(1) by auto
  obtain a' where a': "on_gpus xs f ?a1 = Inr a'" "only_gpus xs ?a1 a'"
    "\<forall>gi \<in> set xs. f (gpus ?a1 ! gi) = Inr (gpus a' ! gi)"
    using Cons.IH [of ?a1] Cons.prems keep [OF nx] by auto
  have "on_gpus (x # xs) f a = Inr a'"
    using a'(1) g by (simp add: on_gpus_def on_gpu_def)
  moreover have "a' = a\<lparr>gpus := gpus a'\<rparr>" "length (gpus a') = length (gpus a)"
    using a'(2) by (simp_all add: only_gpus_def put_gpu_def)
  moreover have "gpus a' ! x = g"
    using a'(2) Cons.prems(1,2) by (simp add: only_gpus_def)
  moreover have "gpus a' ! gi = gpus a ! gi" if "gi \<notin> set (x # xs)" for gi
    using a'(2) that by (simp add: only_gpus_def)
  moreover have "f (gpus a ! gi) = Inr (gpus a' ! gi)" if "gi \<in> set xs" for gi
    using bspec [OF a'(3) that] keep [OF nx [OF that]] by simp
  ultimately show ?case using g by (auto simp: only_gpus_def)
qed

section \<open>Lockstep\<close>

definition lockstep_pair :: "u64 set \<Rightarrow> 'a kv_region_scheme \<Rightarrow> 'a kv_region_scheme \<Rightarrow> bool" where
  "lockstep_pair Q r r' \<longleftrightarrow>
     (\<forall>s \<in> Q. run_ids r' s = run_ids r s
        \<and> (\<forall>i \<in> set (run_ids r s). kv_slabs r' ! i = kv_slabs r ! i))"

lemma lockstep_refl [simp]: "lockstep_pair Q r r"
  by (simp add: lockstep_pair_def)

text \<open>A slab of a replicated run.\<close>

definition in_runs :: "u64 set \<Rightarrow> 'a kv_region_scheme \<Rightarrow> nat \<Rightarrow> bool" where
  "in_runs Q r i \<longleftrightarrow> (\<exists>s \<in> Q. i \<in> set (run_ids r s))"

lemma lockstep_placeable:
  assumes "region_wf pps r" "region_wf pps r'" "lockstep_pair Q r r'" "placeable pps r p"
    "in_runs Q r (p div pps)"
  shows "placeable pps r' p"
proof -
  let ?i = "p div pps"
  obtain s where s: "s \<in> Q" "?i \<in> set (run_ids r s)" using assms(5) by (auto simp: in_runs_def)
  have s': "?i \<in> set (run_ids r' s)" and eq: "kv_slabs r' ! ?i = kv_slabs r ! ?i"
    using s assms(3) by (simp_all add: lockstep_pair_def)
  have R: "runs_wf r'" "0 < pps" using assms(2) by (simp_all add: region_wf_def slabs_wf_def)
  have "?i < length (kv_slabs r')" and "in_run r' ?i"
    using run_idsD [OF R(1) s'] by blast+
  moreover have "p < initial_main_pages r'"
    using block_index_less [OF calculation(1), of "p mod pps" pps] R(2) region_wf_len [OF assms(2)] by simp
  ultimately show ?thesis using assms(4) by (simp add: placeable_def eq)
qed

lemma placeable_run:
  assumes "region_wf pps r" "placeable pps r p"
  shows "p div pps \<in> set (run_ids r (owner_seq (kv_slabs r ! (p div pps))))"
  using assms by (simp add: placeable_def in_run_def)

text \<open>Taking the same page on two ranks, claiming the same slab on two ranks.\<close>

lemma lockstep_take:
  assumes "region_wf pps r" "region_wf pps r'" "lockstep_pair Q r r'"
    "placeable pps r p" "placeable pps r' p" "in_runs Q r (p div pps)"
    "kv_take_specific pps p t r = Inr r1" "kv_take_specific pps p t r' = Inr r1'"
  shows "lockstep_pair Q r1 r1'"
proof -
  have eq: "kv_slabs r' ! (p div pps) = kv_slabs r ! (p div pps)"
    using assms(3,6) by (auto simp: lockstep_pair_def in_runs_def)
  have r1: "kv_runs r1 = kv_runs r"
    "kv_slabs r1 = (kv_slabs r)[p div pps := take_page (p mod pps) t (kv_slabs r ! (p div pps))]"
    using kv_take_specific_ok [OF assms(1,4), of t] assms(7) by auto
  have r1': "kv_runs r1' = kv_runs r'"
    "kv_slabs r1' = (kv_slabs r')[p div pps := take_page (p mod pps) t (kv_slabs r' ! (p div pps))]"
    using kv_take_specific_ok [OF assms(2,5), of t] assms(8) by auto
  have ids: "run_ids r1 s = run_ids r s" "run_ids r1' s = run_ids r' s" for s
    by (simp_all add: run_ids_def r1(1) r1'(1))
  show ?thesis
    unfolding lockstep_pair_def ids
  proof (intro ballI conjI)
    fix s assume s: "s \<in> Q"
    then show "run_ids r' s = run_ids r s" using assms(3) by (simp add: lockstep_pair_def)
    fix i assume i: "i \<in> set (run_ids r s)"
    have runs: "runs_wf r" "runs_wf r'" using assms(1,2) by (simp_all add: region_wf_def)
    have i': "i \<in> set (run_ids r' s)" using i s assms(3) by (simp add: lockstep_pair_def)
    have "i < length (kv_slabs r)" "i < length (kv_slabs r')"
      using run_idsD(1) [OF runs(1) i] run_idsD(1) [OF runs(2) i'] by blast+
    then show "kv_slabs r1' ! i = kv_slabs r1 ! i"
      using i s assms(3) eq by (simp add: r1(2) r1'(2) nth_list_update_if lockstep_pair_def)
  qed
qed

lemma lockstep_claim:
  assumes wf: "region_wf pps r" "region_wf pps r'" and ls: "lockstep_pair Q r r'"
    and free: "sid \<in> set (kv_free_slabs r)" "sid \<in> set (kv_free_slabs r')" and seq: "seq \<in> Q"
    and cl: "kv_claim_slab sid seq r = Inr r1" "kv_claim_slab sid seq r' = Inr r1'"
  shows "lockstep_pair Q r1 r1'"
proof -
  have p: "slab_pristine (kv_slabs r ! sid)" "slab_pristine (kv_slabs r' ! sid)"
    and l: "sid < length (kv_slabs r)" "sid < length (kv_slabs r')"
    using free_slab_pristine [OF wf(1) free(1)] free_slab_pristine [OF wf(2) free(2)] by blast+
  note C = kv_claim_slab_ok [OF wf(1) free(1), of seq] kv_claim_slab_ok [OF wf(2) free(2), of seq]
  have ids: "run_ids r1 s = (if s = seq then run_ids r seq @ [sid] else run_ids r s)"
    "run_ids r1' s = (if s = seq then run_ids r' seq @ [sid] else run_ids r' s)" for s
    using C cl by auto
  have others: "kv_slabs r1 ! i = kv_slabs r ! i" "kv_slabs r1' ! i = kv_slabs r' ! i" if "i \<noteq> sid" for i
    using C cl that by auto
  have same: "kv_slabs r1' ! sid = kv_slabs r1 ! sid"
    using cl p l
    by (cases "kv_slabs r ! sid"; cases "kv_slabs r' ! sid")
       (auto simp: kv_claim_slab_def Let_def res_simps slab_pristine_def)
  show ?thesis
    unfolding lockstep_pair_def
  proof (intro ballI conjI)
    fix s assume s: "s \<in> Q"
    then show "run_ids r1' s = run_ids r1 s" using ls seq by (simp add: ids lockstep_pair_def)
    fix i assume "i \<in> set (run_ids r1 s)"
    then show "kv_slabs r1' ! i = kv_slabs r1 ! i"
      using s seq ls same others by (cases "i = sid") (auto simp: ids lockstep_pair_def split: if_splits)
  qed
qed

section \<open>Replicated placement\<close>

definition replicated_ok :: "u64 set \<Rightarrow> allocator \<Rightarrow> bool" where
  "replicated_ok Q a \<longleftrightarrow>
     (let tps = tp_gpu_indices (dcp a) in
      dcp_enabled (dcp a) \<and> tps \<noteq> [] \<and> distinct tps
      \<and> (\<forall>gi \<in> set tps. gi < length (gpus a) \<and> kv_slabbed (pages_per_slab a) (gpus a ! gi)
           \<and> lockstep_pair Q (gpus a ! hd tps) (gpus a ! gi)))"

text \<open>The same page \<open>p\<close> was taken on every rank, and the ranks are still in lockstep.\<close>

definition taken_on_all :: "u64 set \<Rightarrow> u64 \<Rightarrow> nat option \<Rightarrow> nat \<Rightarrow> allocator \<Rightarrow> allocator \<Rightarrow> bool" where
  "taken_on_all Q seq pref p a a' \<longleftrightarrow>
     (let tps = tp_gpu_indices (dcp a) in
      only_gpus tps a a'
      \<and> (\<forall>gi \<in> set tps. region_ok (pages_per_slab a) (gpus a' ! gi)
           \<and> alloc_effect (pages_per_slab a) seq pref p (gpus a ! gi) (gpus a' ! gi)
           \<and> lockstep_pair Q (gpus a' ! hd tps) (gpus a' ! gi)))"

lemma take_loose_ok:
  assumes ok: "region_ok pps (r :: gpu_pool)" and p: "p \<in> set (kv_loose_free r)"
  shows "\<exists>r'. take_loose p r = Inr r' \<and> region_ok pps r' \<and> alloc_effect pps seq pref p r r'
    \<and> kv_runs r' = kv_runs r \<and> kv_slabs r' = kv_slabs r"
proof -
  let ?r = "r\<lparr>kv_loose_free := remove1 p (kv_loose_free r), kv_free_pages := kv_free_pages r - 1\<rparr>"
  have d: "distinct (kv_loose_free r)" using ok by (simp add: region_ok_def region_wf_def loose_wf_def)
  then have "region_ok pps ?r \<and> alloc_effect pps seq pref p r ?r"
    using length_remove1_int [OF p] by (intro loose_take_ok [OF ok p]) simp_all
  then show ?thesis using p by (simp add: take_loose_def)
qed

lemma region_idle:
  assumes "region_ok pps r" "i < length (kv_slabs r)" "claimed (kv_slabs r ! i)"
  shows "0 < used (kv_slabs r ! i) \<or> i = j"
  using assms by (simp add: region_ok_def no_idle_slab_def)

lemma take_on_all_ok:
  assumes rep: "replicated_ok Q a" and reg: "\<forall>gi \<in> set (tp_gpu_indices (dcp a)). region_ok (pages_per_slab a) (gpus a ! gi)"
    and pl: "placeable (pages_per_slab a) (gpus a ! hd (tp_gpu_indices (dcp a))) p"
    and seq: "seq \<in> Q" and pref: "\<forall>ps. pref = Some ps \<longrightarrow> in_runs Q (gpus a ! hd (tp_gpu_indices (dcp a))) ps"
    and run: "p div pages_per_slab a \<in> set (run_ids (gpus a ! hd (tp_gpu_indices (dcp a))) seq)
      \<or> pref = Some (p div pages_per_slab a)"
  shows "\<exists>a'. on_gpus (tp_gpu_indices (dcp a)) (kv_take_specific (pages_per_slab a) p t) a = Inr a'
    \<and> taken_on_all Q seq pref p a a'"
proof -
  define tps pps c where "tps = tp_gpu_indices (dcp a)" and "pps = pages_per_slab a" and "c = gpus a ! hd tps"
  have R: "distinct tps" "tps \<noteq> []" "\<And>gi. gi \<in> set tps \<Longrightarrow> gi < length (gpus a)"
    "\<And>gi. gi \<in> set tps \<Longrightarrow> lockstep_pair Q c (gpus a ! gi)"
    "\<And>gi. gi \<in> set tps \<Longrightarrow> region_ok pps (gpus a ! gi)"
    using rep reg by (auto simp: replicated_ok_def tps_def pps_def c_def Let_def)
  have hd: "hd tps \<in> set tps" using R(2) by simp
  have cw: "region_wf pps c" using R(5) [OF hd] by (simp add: region_ok_def c_def)
  have inr: "in_runs Q c (p div pps)"
    using run pref seq by (auto simp: in_runs_def tps_def pps_def c_def)
  have plg: "placeable pps (gpus a ! gi) p" if "gi \<in> set tps" for gi
    using lockstep_placeable [OF cw _ R(4) [OF that] _ inr] R(5) [OF that] pl
    by (simp add: region_ok_def pps_def c_def tps_def)
  have rung: "p div pps \<in> set (run_ids (gpus a ! gi) seq) \<or> pref = Some (p div pps)" if "gi \<in> set tps" for gi
    using run R(4) [OF that] seq by (auto simp: lockstep_pair_def pps_def c_def tps_def)
  have step: "\<exists>g'. kv_take_specific pps p t (gpus a ! gi) = Inr g' \<and> region_ok pps g'
      \<and> alloc_effect pps seq pref p (gpus a ! gi) g'" if "gi \<in> set tps" for gi
    using R(5) [OF that] plg [OF that] rung [OF that] region_idle [OF R(5) [OF that]]
    by (intro take_alloc_ok) (simp_all add: region_ok_def)
  obtain a' where a': "on_gpus tps (kv_take_specific pps p t) a = Inr a'" "only_gpus tps a a'"
    "\<forall>gi \<in> set tps. kv_take_specific pps p t (gpus a ! gi) = Inr (gpus a' ! gi)"
    using on_gpus_ok [OF R(1), of a "kv_take_specific pps p t"] R(3) step by blast
  have eff: "region_ok pps (gpus a' ! gi) \<and> alloc_effect pps seq pref p (gpus a ! gi) (gpus a' ! gi)"
    if "gi \<in> set tps" for gi
    using step [OF that] a'(3) that by auto
  have "lockstep_pair Q (gpus a' ! hd tps) (gpus a' ! gi)" if g: "gi \<in> set tps" for gi
    using R(5) [OF g] bspec [OF a'(3) hd] bspec [OF a'(3) g] plg [OF hd] plg [OF g]
    by (intro lockstep_take [OF cw _ R(4) [OF g] _ _ inr]) (simp_all add: region_ok_def c_def)
  with a'(1,2) eff show ?thesis by (auto simp: taken_on_all_def tps_def pps_def Let_def)
qed

lemma claim_take_ok:
  assumes ok: "region_ok pps r" and sid: "sid \<in> set (kv_free_slabs r)"
  obtains r1 r2 where "kv_claim_slab sid seq r = Inr r1" "kv_take_specific pps (sid * pps) t r1 = Inr r2"
    "region_wf pps r1" "placeable pps r1 (sid * pps)" "sid \<in> set (run_ids r1 seq)"
    "region_ok pps r2" "alloc_effect pps seq pref (sid * pps) r r2"
proof -
  obtain r2 where r2: "rbind (kv_claim_slab sid seq r) (kv_take_specific pps (sid * pps) t) = Inr r2"
    "region_ok pps r2" "alloc_effect pps seq pref (sid * pps) r r2"
    using fresh_alloc_ok [OF ok sid] by blast
  then obtain r1 where r1: "kv_claim_slab sid seq r = Inr r1" "kv_take_specific pps (sid * pps) t r1 = Inr r2"
    by (auto elim: rbindE)
  have "region_wf pps r" using ok by (simp add: region_ok_def)
  from kv_claim_slab_ok [OF this sid, of seq] r1(1)
  have "region_wf pps r1" "placeable pps r1 (sid * pps)" "sid \<in> set (run_ids r1 seq)" by auto
  with that r1 r2 show ?thesis by blast
qed

lemma claim_on_all_ok:
  assumes rep: "replicated_ok Q a" and reg: "\<forall>gi \<in> set (tp_gpu_indices (dcp a)). region_ok (pages_per_slab a) (gpus a ! gi)"
    and free: "\<forall>gi \<in> set (tp_gpu_indices (dcp a)). sid \<in> set (kv_free_slabs (gpus a ! gi))"
    and seq: "seq \<in> Q"
  shows "\<exists>a1 a'. on_gpus (tp_gpu_indices (dcp a)) (kv_claim_slab sid seq) a = Inr a1
    \<and> on_gpus (tp_gpu_indices (dcp a)) (kv_take_specific (pages_per_slab a) (sid * pages_per_slab a) t) a1 = Inr a'
    \<and> taken_on_all Q seq pref (sid * pages_per_slab a) a a'"
proof -
  define tps pps where "tps = tp_gpu_indices (dcp a)" and "pps = pages_per_slab a"
  let ?c = "\<lambda>b. gpus b ! hd tps"
  have R: "distinct tps" "tps \<noteq> []" "\<And>gi. gi \<in> set tps \<Longrightarrow> gi < length (gpus a)"
    "\<And>gi. gi \<in> set tps \<Longrightarrow> lockstep_pair Q (?c a) (gpus a ! gi)"
    "\<And>gi. gi \<in> set tps \<Longrightarrow> region_ok pps (gpus a ! gi)"
    "\<And>gi. gi \<in> set tps \<Longrightarrow> sid \<in> set (kv_free_slabs (gpus a ! gi))"
    using rep reg free by (auto simp: replicated_ok_def tps_def pps_def Let_def)
  have hd: "hd tps \<in> set tps" using R(2) by simp
  have pps: "0 < pps" using R(5) [OF hd] region_wf_pps by (auto simp: region_ok_def)
  have "\<forall>gi \<in> set tps. \<exists>g'. kv_claim_slab sid seq (gpus a ! gi) = Inr g'"
    using claim_take_ok [OF R(5,6)] by blast
  then obtain a1 where a1: "on_gpus tps (kv_claim_slab sid seq) a = Inr a1" "only_gpus tps a a1"
    "\<forall>gi \<in> set tps. kv_claim_slab sid seq (gpus a ! gi) = Inr (gpus a1 ! gi)"
    using on_gpus_ok [OF R(1), of a "kv_claim_slab sid seq"] R(3) by blast
  have step: "\<exists>g2. kv_take_specific pps (sid * pps) t (gpus a1 ! gi) = Inr g2 \<and> region_ok pps g2
      \<and> alloc_effect pps seq pref (sid * pps) (gpus a ! gi) g2 \<and> region_wf pps (gpus a1 ! gi)
      \<and> placeable pps (gpus a1 ! gi) (sid * pps) \<and> sid \<in> set (run_ids (gpus a1 ! gi) seq)"
    if g: "gi \<in> set tps" for gi
    using claim_take_ok [OF R(5,6) [OF g], of seq t pref] bspec [OF a1(3) g] by (metis sum.inject(2))
  obtain a' where a': "on_gpus tps (kv_take_specific pps (sid * pps) t) a1 = Inr a'" "only_gpus tps a1 a'"
    "\<forall>gi \<in> set tps. kv_take_specific pps (sid * pps) t (gpus a1 ! gi) = Inr (gpus a' ! gi)"
    using on_gpus_ok [OF R(1), of a1 "kv_take_specific pps (sid * pps) t"] R(3) step only_gpus_simps(3) [OF a1(2)]
    by metis
  have "lockstep_pair Q (?c a') (gpus a' ! gi)" if g: "gi \<in> set tps" for gi
  proof -
    have wf: "region_wf pps (?c a)" "region_wf pps (gpus a ! gi)"
      using R(5) [OF hd] R(5) [OF g] by (simp_all add: region_ok_def)
    have l1: "lockstep_pair Q (?c a1) (gpus a1 ! gi)"
      by (rule lockstep_claim [OF wf R(4) [OF g] R(6) [OF hd] R(6) [OF g] seq
            bspec [OF a1(3) hd] bspec [OF a1(3) g]])
    have w: "region_wf pps (?c a1)" "region_wf pps (gpus a1 ! gi)" "placeable pps (?c a1) (sid * pps)"
      "placeable pps (gpus a1 ! gi) (sid * pps)" "sid \<in> set (run_ids (?c a1) seq)"
      using step [OF hd] step [OF g] by blast+
    have "in_runs Q (?c a1) (sid * pps div pps)"
      using w(5) seq pps by (auto simp: in_runs_def)
    from lockstep_take [OF w(1,2) l1 w(3,4) this bspec [OF a'(3) hd] bspec [OF a'(3) g]]
    show ?thesis .
  qed
  moreover have "region_ok pps (gpus a' ! gi) \<and> alloc_effect pps seq pref (sid * pps) (gpus a ! gi) (gpus a' ! gi)"
    if g: "gi \<in> set tps" for gi
    using step [OF g] bspec [OF a'(3) g] by auto
  moreover have "only_gpus tps a a'" by (rule only_gpus_trans [OF a1(2) a'(2)])
  ultimately show ?thesis using a1(1) a'(1) by (auto simp: taken_on_all_def tps_def pps_def Let_def)
qed

lemma loose_on_all_ok:
  assumes rep: "replicated_ok Q a" and reg: "\<forall>gi \<in> set (tp_gpu_indices (dcp a)). region_ok (pages_per_slab a) (gpus a ! gi)"
    and free: "\<forall>gi \<in> set (tp_gpu_indices (dcp a)). p \<in> set (kv_loose_free (gpus a ! gi))"
  shows "\<exists>a'. on_gpus (tp_gpu_indices (dcp a)) (take_loose p) a = Inr a' \<and> taken_on_all Q seq pref p a a'"
proof -
  define tps pps where "tps = tp_gpu_indices (dcp a)" and "pps = pages_per_slab a"
  have R: "distinct tps" "tps \<noteq> []" "\<And>gi. gi \<in> set tps \<Longrightarrow> gi < length (gpus a)"
    "\<And>gi. gi \<in> set tps \<Longrightarrow> lockstep_pair Q (gpus a ! hd tps) (gpus a ! gi)"
    "\<And>gi. gi \<in> set tps \<Longrightarrow> region_ok pps (gpus a ! gi)"
    "\<And>gi. gi \<in> set tps \<Longrightarrow> p \<in> set (kv_loose_free (gpus a ! gi))"
    using rep reg free by (auto simp: replicated_ok_def tps_def pps_def Let_def)
  have hd: "hd tps \<in> set tps" using R(2) by simp
  have step: "\<exists>g'. take_loose p (gpus a ! gi) = Inr g' \<and> region_ok pps g'
      \<and> alloc_effect pps seq pref p (gpus a ! gi) g' \<and> kv_runs g' = kv_runs (gpus a ! gi)
      \<and> kv_slabs g' = kv_slabs (gpus a ! gi)" if "gi \<in> set tps" for gi
    using take_loose_ok [OF R(5,6) [OF that]] .
  obtain a' where a': "on_gpus tps (take_loose p) a = Inr a'" "only_gpus tps a a'"
    "\<forall>gi \<in> set tps. take_loose p (gpus a ! gi) = Inr (gpus a' ! gi)"
    using on_gpus_ok [OF R(1), of a "take_loose p"] R(3) step by blast
  have eff: "region_ok pps (gpus a' ! gi)" "alloc_effect pps seq pref p (gpus a ! gi) (gpus a' ! gi)"
    "kv_runs (gpus a' ! gi) = kv_runs (gpus a ! gi)" "kv_slabs (gpus a' ! gi) = kv_slabs (gpus a ! gi)"
    if g: "gi \<in> set tps" for gi
    using step [OF g] bspec [OF a'(3) g] by auto
  have "lockstep_pair Q (gpus a' ! hd tps) (gpus a' ! gi)" if g: "gi \<in> set tps" for gi
    using R(4) [OF g] eff(3,4) [OF hd] eff(3,4) [OF g] by (simp add: lockstep_pair_def run_ids_def)
  with a'(1,2) eff(1,2) show ?thesis by (auto simp: taken_on_all_def tps_def pps_def Let_def)
qed

lemma tp_mirrors_all:
  assumes "tp_gpu_indices (dcp a) \<noteq> []" "P (gpus a ! hd (tp_gpu_indices (dcp a)))" "list_all P (tp_mirrors a)"
  shows "\<forall>gi \<in> set (tp_gpu_indices (dcp a)). P (gpus a ! gi)"
  using assms by (cases "tp_gpu_indices (dcp a)") (auto simp: tp_mirrors_def list_all_iff)

lemma find_SomeD: "find P xs = Some x \<Longrightarrow> x \<in> set xs \<and> P x"
  by (auto simp: find_Some_iff)

theorem kv_alloc_page_replicated_ok:
  assumes ok: "alloc_ok a" and rep: "replicated_ok Q a" and seq: "seq \<in> Q"
    and pref: "\<forall>ps. pref = Some ps \<longrightarrow> in_runs Q (gpus a ! hd (tp_gpu_indices (dcp a))) ps"
  shows "\<exists>res a'. kv_alloc_page_replicated seq t unres pref a = Inr (res, a')
    \<and> (case res of None \<Rightarrow> a' = a | Some p \<Rightarrow> taken_on_all Q seq pref p a a')"
proof -
  define tps pps c where "tps = tp_gpu_indices (dcp a)" and "pps = pages_per_slab a" and "c = gpus a ! hd tps"
  have reg: "\<forall>gi \<in> set tps. region_ok pps (gpus a ! gi)"
    using rep gpu_okD(1) [OF alloc_okD [OF ok]] by (auto simp: replicated_ok_def tps_def pps_def Let_def)
  have tps: "tps \<noteq> []" "dcp_enabled (dcp a)" using rep by (simp_all add: replicated_ok_def tps_def Let_def)
  have c: "region_ok pps c" "region_wf pps c" using reg tps by (simp_all add: c_def region_ok_def)
  note F = take_on_all_ok [OF rep, folded tps_def pps_def, folded c_def, OF reg _ seq, of _ pref t]
  have pref': "\<forall>ps. pref = Some ps \<longrightarrow> in_runs Q c ps" using pref by (simp add: c_def tps_def)
  let ?chosen = "find (\<lambda>sid. list_all (slab_free_on pps sid) (tp_mirrors a)) (rev (kv_free_slabs c))"
  let ?loose = "find (\<lambda>idx. list_all (\<lambda>mg. idx \<in> set (kv_loose_free mg)) (tp_mirrors a)) (rev (kv_loose_free c))"
  let ?take = "\<lambda>idx a'. rbind (on_gpus tps (kv_take_specific pps idx t) a') (\<lambda>a''. Inr (Some idx, a''))"
  have red: "kv_alloc_page_replicated seq t unres pref a =
      (if \<not> unres \<and> kv_free_pages c \<le> main_reserved c then Inr (None, a)
       else case kv_find_in_run pps seq t pref c of
           Some idx \<Rightarrow> ?take idx a
         | None \<Rightarrow> (case ?chosen of
             Some sid \<Rightarrow> rbind (on_gpus tps (kv_claim_slab sid seq) a) (?take (sid * pps))
           | None \<Rightarrow> (case ?loose of
               Some loose \<Rightarrow> rbind (on_gpus tps (take_loose loose) a) (\<lambda>a'. Inr (Some loose, a'))
             | None \<Rightarrow> (case kv_find_in_run_pressure pps seq c of
                 Some idx \<Rightarrow> ?take idx a | None \<Rightarrow> Inr (None, a)))))"
    unfolding c_def pps_def tps_def using tps [unfolded tps_def]
    by (simp add: kv_alloc_page_replicated_def Let_def)
  consider (refuse) "\<not> unres \<and> kv_free_pages c \<le> main_reserved c"
    | (run) p where "\<not> (\<not> unres \<and> kv_free_pages c \<le> main_reserved c)" "kv_find_in_run pps seq t pref c = Some p"
    | (slab) sid where "\<not> (\<not> unres \<and> kv_free_pages c \<le> main_reserved c)" "kv_find_in_run pps seq t pref c = None"
        "?chosen = Some sid"
    | (loose) p where "\<not> (\<not> unres \<and> kv_free_pages c \<le> main_reserved c)" "kv_find_in_run pps seq t pref c = None"
        "?chosen = None" "?loose = Some p"
    | (rest) "\<not> (\<not> unres \<and> kv_free_pages c \<le> main_reserved c)" "kv_find_in_run pps seq t pref c = None"
        "?chosen = None" "?loose = None"
    by (cases "kv_find_in_run pps seq t pref c"; cases ?chosen; cases ?loose) blast+
  then show ?thesis
  proof cases
    case refuse
    with red show ?thesis by simp
  next
    case (run p)
    note P = kv_find_in_run_SomeD [OF c(2) run(2)]
    from F [OF P(1) pref' P(2)] run red show ?thesis by auto
  next
    case (slab sid)
    have m: "sid \<in> set (kv_free_slabs c)" "list_all (slab_free_on pps sid) (tp_mirrors a)"
      using find_SomeD [OF slab(3)] by simp_all
    have "slab_free_on pps sid c"
      using m(1) c(1) rep tps(1)
      by (auto simp: slab_free_on_def region_ok_def region_wf_def free_wf_def replicated_ok_def c_def tps_def pps_def Let_def)
    from tp_mirrors_all [OF tps(1) [unfolded tps_def] this [unfolded c_def tps_def] m(2)] reg
    have "\<forall>gi \<in> set tps. sid \<in> set (kv_free_slabs (gpus a ! gi))"
      by (auto simp: slab_free_on_def region_ok_def region_wf_def free_wf_def tps_def)
    from claim_on_all_ok [OF rep reg [unfolded tps_def pps_def] this [unfolded tps_def] seq, of t pref, folded tps_def pps_def]
    show ?thesis using slab red by auto
  next
    case (loose p)
    have m: "p \<in> set (kv_loose_free c)" "list_all (\<lambda>mg. p \<in> set (kv_loose_free mg)) (tp_mirrors a)"
      using find_SomeD [OF loose(4)] by simp_all
    from tp_mirrors_all [OF tps(1) [unfolded tps_def] m(1) [unfolded c_def tps_def] m(2)]
    have "\<forall>gi \<in> set tps. p \<in> set (kv_loose_free (gpus a ! gi))" by (simp add: tps_def)
    from loose_on_all_ok [OF rep reg [unfolded tps_def pps_def] this [unfolded tps_def], of seq pref, folded tps_def]
    show ?thesis using loose red by auto
  next
    case rest
    show ?thesis
    proof (cases "kv_find_in_run_pressure pps seq c")
      case None
      with rest red show ?thesis by auto
    next
      case (Some p)
      note P = kv_find_in_run_pressure_SomeD [OF c(2) Some]
      from F [OF P(1) pref'] P(2) rest Some red show ?thesis by auto
    qed
  qed
qed

section \<open>Replicated allocation\<close>

definition refs_all :: "nat list \<Rightarrow> nat \<Rightarrow> u32 \<Rightarrow> (page_key \<Rightarrow> u32) \<Rightarrow> page_key \<Rightarrow> u32" where
  "refs_all gis p v f k =
     (case k of (gi, q, i) \<Rightarrow> if gi \<in> set gis \<and> q = None \<and> i = p then v else f k)"

lemma only_gpus_alloc:
  assumes ok: "alloc_ok a" and only: "only_gpus gis a a'" and "\<forall>gi \<in> set gis. gi < length (gpus a)"
    and g: "\<And>gi. gi \<in> set gis \<Longrightarrow> gpu_ok (pages_per_slab a) (gpus a' ! gi)
      \<and> page_frame (gpus a ! gi) (gpus a' ! gi)"
  shows "alloc_ok a'"
proof -
  note S = only_gpus_simps [OF only]
  have "gpu_inv a' (gpus a' ! gi)" if gi: "gi < length (gpus a')" for gi
  proof (cases "gi \<in> set gis")
    case True
    have "gpu_inv a (gpus a ! gi)" using ok gi S(3) by (simp add: alloc_ok_def)
    moreover have "kda_state (gpus a' ! gi) = kda_state (gpus a ! gi)"
      using page_frame_kda g [OF True] by blast
    ultimately show ?thesis using g [OF True] S by (simp add: gpu_inv_def)
  next
    case False
    then have "gpus a' ! gi = gpus a ! gi" using only by (simp add: only_gpus_def)
    moreover have "gpu_inv a (gpus a ! gi)" using ok gi S(3) by (simp add: alloc_ok_def)
    ultimately show ?thesis using S by (simp add: gpu_inv_def)
  qed
  then show ?thesis by (auto simp: alloc_ok_def in_set_conv_nth)
qed

lemma only_gpus_refs:
  assumes only: "only_gpus gis a a'" and "\<forall>gi \<in> set gis. gi < length (gpus a)"
    and g: "\<And>gi. gi \<in> set gis \<Longrightarrow> side_pool_of (gpus a' ! gi) = side_pool_of (gpus a ! gi)
      \<and> (\<exists>m. pages (gpus a' ! gi) = (pages (gpus a ! gi))[p := m] \<and> refcount m = v)
      \<and> p < length (pages (gpus a ! gi))"
  shows "refs a' = refs_all gis p v (refs a)"
proof
  fix k :: page_key
  obtain gi q i where k: "k = (gi, q, i)" by (cases k)
  have len: "length (gpus a') = length (gpus a)" using only by (simp add: only_gpus_def)
  show "refs a' k = refs_all gis p v (refs a) k"
  proof (cases "gi \<in> set gis")
    case True
    then obtain m where m: "pages (gpus a' ! gi) = (pages (gpus a ! gi))[p := m]" "refcount m = v" using g by blast
    from gpu_refs_page_upd [OF _ m(1), of q i] g [OF True] m(2) True assms(2) len
    show ?thesis by (auto simp: k refs_def refs_all_def)
  next
    case False
    then have "gpus a' ! gi = gpus a ! gi" using only by (simp add: only_gpus_def)
    with False len show ?thesis by (simp add: k refs_def refs_all_def)
  qed
qed

lemma lockstep_upd_page [simp]:
  "lockstep_pair Q (upd_page p f g) g' = lockstep_pair Q g g'"
  "lockstep_pair Q g (upd_page p f g') = lockstep_pair Q g g'"
  by (simp_all add: lockstep_pair_def run_ids_def)

text \<open>
  A replicated main page: the same index, idle before, is now live with one reference and the
  same labels on every rank.
\<close>

definition replicated_page ::
    "u64 set \<Rightarrow> u64 \<Rightarrow> u32 \<Rightarrow> u32 \<Rightarrow> allocator \<Rightarrow> page_handle \<Rightarrow> allocator \<Rightarrow> bool" where
  "replicated_page Q seq t l a h a' \<longleftrightarrow>
     (let tps = tp_gpu_indices (dcp a); p = nat (page_idx h) in
      alloc_ok a' \<and> replicated_ok Q a' \<and> dcp a' = dcp a
      \<and> gpu_idx h = int (hd tps) \<and> handle_pool h = KMain \<and> 0 \<le> page_idx h
      \<and> gpu_ptr h = page_ptr (gpus a ! hd tps) p
      \<and> (\<forall>gi \<in> set tps. refs a (gi, None, p) = 0)
      \<and> refs a' = refs_all tps p 1 (refs a)
      \<and> (\<forall>gi \<in> set tps. \<exists>m. pages (gpus a' ! gi) ! p = m \<and> replicated m \<and> pool_tag m = KMain
           \<and> sequence_id m = seq \<and> token_start m = t \<and> layer_index m = l
           \<and> token_end m = t + word_of_int (page_size_tokens (dcp a))))"

theorem allocate_replicated_main_ok:
  assumes ok: "alloc_ok a" and rep: "replicated_ok Q a" and seq: "seq \<in> Q"
  shows "\<exists>h a'. allocate_replicated seq t l KMain unres a = Inr (h, a')
    \<and> (case h of None \<Rightarrow> a' = a | Some h' \<Rightarrow> replicated_page Q seq t l a h' a')"
proof -
  define tps pps c where "tps = tp_gpu_indices (dcp a)" and "pps = pages_per_slab a" and "c = gpus a ! hd tps"
  define F where "F = claim_replicated_meta KMain seq l t (t + word_of_int (page_size_tokens (dcp a)))"
  have R: "dcp_enabled (dcp a)" "tps \<noteq> []" "distinct tps" "\<And>gi. gi \<in> set tps \<Longrightarrow> gi < length (gpus a)"
    "\<And>gi. gi \<in> set tps \<Longrightarrow> kv_slabbed pps (gpus a ! gi)"
    using rep by (simp_all add: replicated_ok_def tps_def pps_def Let_def)
  have hd: "hd tps \<in> set tps" using R(2) by simp
  obtain res a1 where r: "kv_alloc_page_replicated seq t unres None a = Inr (res, a1)"
    and c1: "case res of None \<Rightarrow> a1 = a | Some p \<Rightarrow> taken_on_all Q seq None p a a1"
    using kv_alloc_page_replicated_ok [OF ok rep seq, of None t unres] by auto
  let ?pub = "\<lambda>p. rbind (on_gpus tps (\<lambda>g. Inr (upd_page p F g)) a1)
      (\<lambda>a2. Inr (Some (mk_handle (hd tps) p (page_ptr c p) KMain), a2))"
  have red: "allocate_replicated seq t l KMain unres a =
      (case res of None \<Rightarrow> Inr (None, a1) | Some p \<Rightarrow> ?pub p)"
    unfolding c_def F_def using R(1,2) R(4,5) [OF hd] r
    unfolding tps_def pps_def by (simp add: allocate_replicated_def Let_def)
  show ?thesis
  proof (cases res)
    case None
    with red c1 show ?thesis by simp
  next
    case (Some p)
    then have T: "only_gpus tps a a1" "\<And>gi. gi \<in> set tps \<Longrightarrow> region_ok pps (gpus a1 ! gi)"
      "\<And>gi. gi \<in> set tps \<Longrightarrow> alloc_effect pps seq None p (gpus a ! gi) (gpus a1 ! gi)"
      "\<And>gi. gi \<in> set tps \<Longrightarrow> lockstep_pair Q (gpus a1 ! hd tps) (gpus a1 ! gi)"
      using c1 by (simp_all add: taken_on_all_def tps_def pps_def Let_def)
    obtain a2 where a2: "on_gpus tps (\<lambda>g. Inr (upd_page p F g)) a1 = Inr a2" "only_gpus tps a1 a2"
      "\<forall>gi \<in> set tps. Inr (upd_page p F (gpus a1 ! gi)) = (Inr (gpus a2 ! gi) :: gpu_pool res)"
      using on_gpus_ok [OF R(3), of a1 "\<lambda>g. Inr (upd_page p F g)"] R(4) only_gpus_simps(3) [OF T(1)] by auto
    have g2: "gpus a2 ! gi = upd_page p F (gpus a1 ! gi)" if "gi \<in> set tps" for gi
      using a2(3) that by auto
    have only: "only_gpus tps a a2" by (rule only_gpus_trans [OF T(1) a2(2)])
    have cl: "page_claimed pps p (F (pages (gpus a ! gi) ! p)) (gpus a ! gi) (gpus a2 ! gi)" if g: "gi \<in> set tps" for gi
      unfolding g2 [OF g]
      using alloc_okD [OF ok R(4) [OF g]] R(5) [OF g] T(2,3) [OF g]
      by (intro slabbed_claim_ok [where seq = seq and pref = None])
         (simp_all add: pps_def F_def claim_replicated_meta_def)
    have C: "gpu_ok pps (gpus a2 ! gi)" "page_frame (gpus a ! gi) (gpus a2 ! gi)" "p < length (pages (gpus a ! gi))"
      "\<not> live (gpus a ! gi) p" "pages (gpus a2 ! gi) = (pages (gpus a ! gi))[p := F (pages (gpus a ! gi) ! p)]"
      if "gi \<in> set tps" for gi
      using cl [OF that] gpu_okD(5) [OF alloc_okD [OF ok R(4) [OF that]]] by (simp_all add: page_claimed_def)
    have ok2: "alloc_ok a2"
      using C(1,2) R(4) by (intro only_gpus_alloc [OF ok only]) (simp_all add: pps_def)
    have refs: "refs a2 = refs_all tps p 1 (refs a)"
    proof (rule only_gpus_refs [OF only])
      show "\<forall>gi \<in> set tps. gi < length (gpus a)" using R(4) by blast
      show "side_pool_of (gpus a2 ! gi) = side_pool_of (gpus a ! gi)
          \<and> (\<exists>m. pages (gpus a2 ! gi) = (pages (gpus a ! gi))[p := m] \<and> refcount m = 1)
          \<and> p < length (pages (gpus a ! gi))" if "gi \<in> set tps" for gi
        using C(2,3,5) [OF that] by (auto simp: page_frame_def F_def claim_replicated_meta_def)
    qed
    have "dcp a2 = dcp a" "pages_per_slab a2 = pages_per_slab a" "length (gpus a2) = length (gpus a)"
      using only_gpus_simps [OF only] by simp_all
    then have rep2: "replicated_ok Q a2"
      using R T(4) g2 hd page_frame_slabbed [OF C(2), of _ pps]
      by (simp add: replicated_ok_def tps_def [symmetric] Let_def pps_def [symmetric])
    have idle: "refs a (gi, None, p) = 0" if "gi \<in> set tps" for gi
      using C(4) [OF that] R(4) [OF that] by (simp add: refs_def gpu_refs_def live_def)
    have "replicated_page Q seq t l a (mk_handle (hd tps) p (page_ptr c p) KMain) a2"
      using ok2 rep2 refs idle C(3,5) \<open>dcp a2 = dcp a\<close>
      by (simp add: replicated_page_def Let_def tps_def [symmetric] c_def F_def claim_replicated_meta_def label_meta_def)
    with red Some a2(1) show ?thesis by simp
  qed
qed

section \<open>Freeing a replicated page\<close>

lemma kv_return_page_eq:
  assumes ok: "region_ok pps r" and p: "p \<in> kv_pages pps r"
  defines "sid \<equiv> p div pps" and "s \<equiv> kv_slabs r ! (p div pps)"
  assumes r1: "kv_return_page pps p r = Inr r1"
  shows "if used s = 1
    then kv_runs r1 = drop_from_run sid (owner_seq s) (kv_runs r)
      \<and> (\<forall>i. i \<noteq> sid \<longrightarrow> kv_slabs r1 ! i = kv_slabs r ! i)
    else kv_runs r1 = kv_runs r \<and> kv_slabs r1 = (kv_slabs r)[sid := return_page (p mod pps) s]"
proof -
  have wf: "region_wf pps r" using ok by (simp add: region_ok_def)
  note P = kv_pages_slab [OF wf p]
  show ?thesis
    using r1 P unfolding sid_def s_def
    by (auto simp: kv_return_page_def Let_def return_page_def res_simps split: if_splits)
qed

lemma lockstep_return:
  assumes ok: "region_ok pps r" "region_ok pps r'" and ls: "lockstep_pair Q r r'"
    and p: "p \<in> kv_pages pps r" "p \<in> kv_pages pps r'" and run: "in_runs Q r (p div pps)"
    and ret: "kv_return_page pps p r = Inr r1" "kv_return_page pps p r' = Inr r1'"
  shows "lockstep_pair Q r1 r1'"
proof -
  let ?sid = "p div pps"
  have runs: "runs_wf r" "runs_wf r'" using ok by (simp_all add: region_ok_def region_wf_def)
  have eq: "kv_slabs r' ! ?sid = kv_slabs r ! ?sid" using ls run by (auto simp: lockstep_pair_def in_runs_def)
  have ids: "run_ids r' s = run_ids r s" if "s \<in> Q" for s using ls that by (simp add: lockstep_pair_def)
  have slabs: "kv_slabs r' ! i = kv_slabs r ! i" if "s \<in> Q" "i \<in> set (run_ids r s)" for s i
    using ls that by (simp add: lockstep_pair_def)
  note E = kv_return_page_eq [OF ok(1) p(1) ret(1)] kv_return_page_eq [OF ok(2) p(2) ret(2)]
  show ?thesis
  proof (cases "used (kv_slabs r ! ?sid) = 1")
    case True
    let ?o = "owner_seq (kv_slabs r ! ?sid)"
    have k: "kv_runs r1 = drop_from_run ?sid ?o (kv_runs r)" "kv_runs r1' = drop_from_run ?sid ?o (kv_runs r')"
      "\<And>i. i \<noteq> ?sid \<Longrightarrow> kv_slabs r1 ! i = kv_slabs r ! i" "\<And>i. i \<noteq> ?sid \<Longrightarrow> kv_slabs r1' ! i = kv_slabs r' ! i"
      using E True eq by simp_all
    have r1: "run_ids r1 s = (if s = ?o then removeAll ?sid (run_ids r s) else run_ids r s)"
      "run_ids r1' s = (if s = ?o then removeAll ?sid (run_ids r' s) else run_ids r' s)" for s
      using run_ids_drop [where r = r and sid = ?sid and s = ?o and t = s]
        run_ids_drop [where r = r' and sid = ?sid and s = ?o and t = s]
      by (simp_all add: run_ids_def k(1,2))
    show ?thesis
      unfolding lockstep_pair_def
    proof (intro ballI conjI)
      fix s assume s: "s \<in> Q"
      show "run_ids r1' s = run_ids r1 s" unfolding r1 ids [OF s] ..
      fix i assume i: "i \<in> set (run_ids r1 s)"
      then have i': "i \<in> set (run_ids r s)" by (auto simp: r1 split: if_splits)
      have "i \<noteq> ?sid"
        using i run_idsD(3) [OF runs(1) i'] by (auto simp: r1 split: if_splits)
      with slabs [OF s i'] show "kv_slabs r1' ! i = kv_slabs r1 ! i" by (simp add: k)
    qed
  next
    case False
    have k: "kv_runs r1 = kv_runs r" "kv_runs r1' = kv_runs r'"
      "kv_slabs r1 = (kv_slabs r)[?sid := return_page (p mod pps) (kv_slabs r ! ?sid)]"
      "kv_slabs r1' = (kv_slabs r')[?sid := return_page (p mod pps) (kv_slabs r ! ?sid)]"
      using E False eq by simp_all
    show ?thesis
      unfolding lockstep_pair_def
    proof (intro ballI conjI)
      fix s assume s: "s \<in> Q"
      then show "run_ids r1' s = run_ids r1 s" using ids by (simp add: run_ids_def k)
      fix i assume "i \<in> set (run_ids r1 s)"
      then have i: "i \<in> set (run_ids r s)" by (simp add: run_ids_def k)
      have i': "i \<in> set (run_ids r' s)" using i ids [OF s] by simp
      have "i < length (kv_slabs r)" "i < length (kv_slabs r')"
        using run_idsD(1) [OF runs(1) i] run_idsD(1) [OF runs(2) i'] by blast+
      with slabs [OF s i] show "kv_slabs r1' ! i = kv_slabs r1 ! i" by (simp add: k nth_list_update_if)
    qed
  qed
qed

lemma kv_return_loose:
  assumes "initial_main_pages r \<le> p" "kv_return_page pps p r = Inr r1"
  shows "kv_runs r1 = kv_runs r" "kv_slabs r1 = kv_slabs r"
  using assms by (auto simp: kv_return_page_def)

lemma lockstep_same_region:
  assumes "lockstep_pair Q r r'" "kv_runs r1 = kv_runs r" "kv_slabs r1 = kv_slabs r"
    "kv_runs r1' = kv_runs r'" "kv_slabs r1' = kv_slabs r'"
  shows "lockstep_pair Q r1 r1'"
  using assms by (simp add: lockstep_pair_def run_ids_def)

lemma drop_ref_region:
  assumes "drop_ref pps p g = Inr g1" "p < length (pages g)"
    "\<not> (refcount (pages g ! p) = 1 \<and> pool_tag (pages g ! p) = KMain \<and> kv_slabbed pps g)"
  shows "kv_runs g1 = kv_runs g" "kv_slabs g1 = kv_slabs g"
  using assms
  by (auto simp: drop_ref_def return_to_free_list_def Let_def put_free_list_def split: if_splits)

lemma drop_ref_returns:
  assumes "drop_ref pps p g = Inr g1" "p < length (pages g)"
    "refcount (pages g ! p) = 1" "pool_tag (pages g ! p) = KMain" "kv_slabbed pps g"
  obtains f where "kv_return_page pps p (upd_page p f g) = Inr g1"
  using assms by (auto simp: drop_ref_def return_to_free_list_def Let_def upd_page_twice)

lemma lockstep_drop:
  assumes ok: "gpu_ok pps g" "gpu_ok pps g'" and sl: "kv_slabbed pps g" "kv_slabbed pps g'"
    and ls: "lockstep_pair Q g g'" and p: "p < total g" "p < total g'" "live g p" "live g' p"
    and same: "refcount (pages g' ! p) = refcount (pages g ! p)" "pool_tag (pages g' ! p) = pool_tag (pages g ! p)"
      "p < initial_main_pages g' \<longleftrightarrow> p < initial_main_pages g"
    and run: "p < initial_main_pages g \<Longrightarrow> in_runs Q g (p div pps)"
    and d: "drop_ref pps p g = Inr g1" "drop_ref pps p g' = Inr g1'"
  shows "lockstep_pair Q g1 g1'"
proof -
  have len: "p < length (pages g)" "p < length (pages g')"
    using p gpu_okD(5) [OF ok(1)] gpu_okD(5) [OF ok(2)] by simp_all
  show ?thesis
  proof (cases "refcount (pages g ! p) = 1 \<and> pool_tag (pages g ! p) = KMain")
    case False
    then show ?thesis
      using same drop_ref_region [OF d(1) len(1)] drop_ref_region [OF d(2) len(2)]
      by (intro lockstep_same_region [OF ls]) auto
  next
    case True
    obtain f where f: "kv_return_page pps p (upd_page p f g) = Inr g1"
      using drop_ref_returns [OF d(1) len(1)] True sl by blast
    obtain f' where f': "kv_return_page pps p (upd_page p f' g') = Inr g1'"
      using drop_ref_returns [OF d(2) len(2)] True sl same by metis
    show ?thesis
    proof (cases "p < initial_main_pages g")
      case True
      have k: "p \<in> kv_pages pps g" "p \<in> kv_pages pps g'"
        using True same(3) main_idle_live(1) [OF ok(1) p(1,3)] main_idle_live(1) [OF ok(2) p(2,4)] sl
        by (auto simp: main_idle_def)
      have r: "in_runs Q (upd_page p f g) (p div pps)" using run [OF True] by (simp add: in_runs_def run_ids_def)
      show ?thesis
        using gpu_okD(1) [OF ok(1) sl(1)] gpu_okD(1) [OF ok(2) sl(2)] ls k
        by (intro lockstep_return [OF _ _ _ _ _ r f f']) simp_all
    next
      case False
      then show ?thesis
        using same(3) kv_return_loose [OF _ f] kv_return_loose [OF _ f']
        by (intro lockstep_same_region [OF ls]) simp_all
    qed
  qed
qed

text \<open>A page that is replicated: live on every rank, with the same count and the same pool.\<close>

definition mirror_page :: "u64 set \<Rightarrow> allocator \<Rightarrow> nat \<Rightarrow> bool" where
  "mirror_page Q a p \<longleftrightarrow>
     (let tps = tp_gpu_indices (dcp a); c = gpus a ! hd tps in
      (\<forall>gi \<in> set tps. let g = gpus a ! gi in
         p < total g \<and> live g p \<and> replicated (pages g ! p)
         \<and> refcount (pages g ! p) = refcount (pages c ! p) \<and> pool_tag (pages g ! p) = pool_tag (pages c ! p)
         \<and> (p < initial_main_pages g \<longleftrightarrow> p < initial_main_pages c))
      \<and> (p < initial_main_pages c \<longrightarrow> in_runs Q c (p div pages_per_slab a)))"

theorem free_replicated_ok:
  assumes ok: "alloc_ok a" and rep: "replicated_ok Q a" and mir: "mirror_page Q a (nat (page_idx h))"
    and h: "nat (gpu_idx h) \<in> set (tp_gpu_indices (dcp a))" "0 \<le> gpu_idx h" "0 \<le> page_idx h"
      "handle_pool h = KMain \<or> handle_pool h = KSpeculation"
  shows "\<exists>a'. free h a = Inr a' \<and> alloc_ok a' \<and> replicated_ok Q a'
    \<and> refs a' = refs_all (tp_gpu_indices (dcp a)) (nat (page_idx h)) (refs a (key_of h) - 1) (refs a)"
proof -
  define tps pps c p where "tps = tp_gpu_indices (dcp a)" and "pps = pages_per_slab a"
    and "c = gpus a ! hd tps" and "p = nat (page_idx h)"
  have R: "dcp_enabled (dcp a)" "tps \<noteq> []" "distinct tps" "\<And>gi. gi \<in> set tps \<Longrightarrow> gi < length (gpus a)"
    "\<And>gi. gi \<in> set tps \<Longrightarrow> kv_slabbed pps (gpus a ! gi)"
    "\<And>gi. gi \<in> set tps \<Longrightarrow> lockstep_pair Q c (gpus a ! gi)"
    using rep by (simp_all add: replicated_ok_def tps_def pps_def c_def Let_def)
  have hd: "hd tps \<in> set tps" using R(2) by simp
  have M: "p < total (gpus a ! gi)" "live (gpus a ! gi) p" "replicated (pages (gpus a ! gi) ! p)"
    "refcount (pages (gpus a ! gi) ! p) = refcount (pages c ! p)"
    "pool_tag (pages (gpus a ! gi) ! p) = pool_tag (pages c ! p)"
    "p < initial_main_pages (gpus a ! gi) \<longleftrightarrow> p < initial_main_pages c" if "gi \<in> set tps" for gi
    using mir that by (simp_all add: mirror_page_def Let_def tps_def c_def p_def)
  have run: "p < initial_main_pages c \<Longrightarrow> in_runs Q c (p div pps)"
    using mir by (simp add: mirror_page_def Let_def tps_def c_def p_def pps_def)
  have G: "gpu_ok pps (gpus a ! gi)" if "gi \<in> set tps" for gi
    using alloc_okD [OF ok R(4) [OF that]] by (simp add: pps_def)
  have step: "\<exists>g'. drop_live_ref pps p (gpus a ! gi) = Inr g'" if "gi \<in> set tps" for gi
    using drop_ref_ok [OF G [OF that] M(1,2) [OF that]] M(2) [OF that]
    by (auto simp: drop_live_ref_def live_def word_pos_iff)
  obtain a' where a': "on_gpus tps (drop_live_ref pps p) a = Inr a'" "only_gpus tps a a'"
    "\<forall>gi \<in> set tps. drop_live_ref pps p (gpus a ! gi) = Inr (gpus a' ! gi)"
    using on_gpus_ok [OF R(3), of a "drop_live_ref pps p"] R(4) step by blast
  have drop: "drop_ref pps p (gpus a ! gi) = Inr (gpus a' ! gi)" if "gi \<in> set tps" for gi
    using bspec [OF a'(3) that] by (simp add: drop_live_ref_def res_simps)
  have rel: "page_released pps p (gpus a ! gi) (gpus a' ! gi)" if "gi \<in> set tps" for gi
    using drop_ref_ok [OF G [OF that] M(1,2) [OF that]] drop [OF that] by simp
  have fr: "gpu_ok pps (gpus a' ! gi)" "page_frame (gpus a ! gi) (gpus a' ! gi)" if "gi \<in> set tps" for gi
    using rel [OF that] by (simp_all add: page_released_def)
  have ok': "alloc_ok a'" using fr R(4) by (intro only_gpus_alloc [OF ok a'(2)]) (simp_all add: pps_def)
  have refs: "refs a' = refs_all tps p (refcount (pages c ! p) - 1) (refs a)"
  proof (rule only_gpus_refs [OF a'(2)])
    show "\<forall>gi \<in> set tps. gi < length (gpus a)" using R(4) by blast
    show "side_pool_of (gpus a' ! gi) = side_pool_of (gpus a ! gi)
        \<and> (\<exists>m. pages (gpus a' ! gi) = (pages (gpus a ! gi))[p := m] \<and> refcount m = refcount (pages c ! p) - 1)
        \<and> p < length (pages (gpus a ! gi))" if g: "gi \<in> set tps" for gi
      using fr(2) [OF g] rel [OF g] M(1,4) [OF g] gpu_okD(5) [OF G [OF g]]
      by (cases "refcount (pages (gpus a ! gi) ! p) = 1") (auto simp: page_frame_def page_released_def Let_def)
  qed
  have "lockstep_pair Q (gpus a' ! hd tps) (gpus a' ! gi)" if g: "gi \<in> set tps" for gi
    using M [OF g] M(1,2) [OF hd] R(5) [OF hd] R(5,6) [OF g]
    by (intro lockstep_drop [OF G [OF hd] G [OF g] _ _ _ _ _ _ _ _ _ _ _ drop [OF hd] drop [OF g]])
       (simp_all add: c_def [symmetric] run)
  then have rep': "replicated_ok Q a'"
    using R(1-5) only_gpus_simps [OF a'(2)] page_frame_slabbed [OF fr(2), of _ pps]
    by (simp add: replicated_ok_def Let_def tps_def [symmetric] pps_def [symmetric])
  have gi: "nat (gpu_idx h) \<in> set tps" using h(1) by (simp add: tps_def)
  have "free h a = Inr a'"
    using R(1) R(4) [OF gi] M [OF gi] h a'(1)
    by (auto simp: free_def valid_gpu_def Let_def side_pool_of_def mirrored_def tps_def pps_def p_def
        live_def word_pos_iff nat_less_iff)
  moreover have "refs a (key_of h) = refcount (pages c ! p)"
    using M(1,4) [OF gi] R(4) [OF gi] h(4) gpu_okD(5) [OF G [OF gi]]
    by (auto simp: refs_def gpu_refs_def key_of_def key_pool_def p_def)
  ultimately show ?thesis using ok' rep' refs by (simp add: tps_def p_def)
qed

end
