(* ===== verification/Allocator_Properties.thy ===== *)
theory Allocator_Properties
  imports Allocator_Demo Replicated_Inv
begin

text \<open>
  The properties of the page allocator, each over the definitions of \<open>Page_Allocator\<close> and
  \<open>Page_Boot\<close>, with a witness on the small allocator of \<open>Allocator_Demo\<close>.
\<close>

section \<open>The invariant and memory safety\<close>





section \<open>Allocation\<close>

text \<open>
  C29: \<open>allocate\<close> and \<open>allocate_unreserved\<close> never fault; what they hand out had no references and has
  exactly one afterwards, no other page's count changes, and a refusal changes nothing.
\<close>

theorem allocate_fresh_page:
  assumes "alloc_ok a" "valid_gpu a gpu" "p = KKdaState \<longrightarrow> \<not> kda_mapped a"
  shows "(\<exists>h a'. allocate gpu p a = Inr (h, a') \<and> handed_out (nat gpu) p a h a')
    \<and> (\<exists>h a'. allocate_unreserved gpu p a = Inr (h, a') \<and> handed_out (nat gpu) p a h a')"
  using allocate_handed_out [OF assms(1,2), of p] assms(3) by blast

theorem allocate_fresh_page_witness:
  "(\<exists>h a'. allocate 0 KMain demo0 = Inr (h, a') \<and> handed_out 0 KMain demo0 h a')
   \<and> (\<exists>h a'. allocate_unreserved 0 KMain demo0 = Inr (h, a') \<and> handed_out 0 KMain demo0 h a')"
  using allocate_fresh_page [OF demo0_ok(1) demo_gpu(1), of KMain] by simp

text \<open>
  \<open>allocate\<close> on the main or speculation pool succeeds only when \<open>available_pages\<close> is positive, and
  refuses only when it is zero or, in the slabbed main pool, when no slab and no loose page is free and
  the anonymous run is full (all remaining free pages are holes in other sequences' slabs).
\<close>

theorem allocate_refuses_only_when_exhausted:
  assumes "alloc_ok a" "valid_gpu a gpu" "p = KMain \<or> p = KSpeculation" "allocate gpu p a = Inr (h, a')"
  shows "\<exists>n. available_pages gpu p a = Inr n \<and> (h \<noteq> None \<longrightarrow> 0 < n)
    \<and> (h = None \<longrightarrow> n = 0 \<or> p = KMain \<and> run_full (pages_per_slab a) (gpus a ! nat gpu) kAnonymousRunSeq)"
proof -
  have gi: "nat gpu < length (gpus a)" using assms(2) by (auto simp: valid_gpu_def)
  obtain g' where r: "gpu_allocate (pages_per_slab a) (nat gpu) p (gpus a ! nat gpu) = Inr (h, g')"
    using assms(2,4) by (auto simp: allocate_def on_gpu'_def res_simps)
  have av: "available_pages gpu p a = Inr (gpu_available_pages (pages_per_slab a) p (gpus a ! nat gpu))"
    using assms(2) by (simp add: available_pages_def free_pages_def reserved_pages_def gpu_available_pages_def)
  show ?thesis using gpu_allocate_refusal [OF alloc_okD [OF assms(1) gi] assms(3) r] av by auto
qed

theorem allocate_refuses_only_when_exhausted_witness:
  "\<exists>n. available_pages 0 KMain demo0 = Inr n \<and> 0 < n"
  using allocate_refuses_only_when_exhausted [OF demo0_ok(1) demo_gpu(1) _ demo1_alloc] by auto

text \<open>
  The headroom reserve is honoured (INV-4.9f): after a successful \<open>allocate\<close> the free pages of the
  pool that backs the claim, the main pool for an elastic side pool, still cover its reserve.
\<close>

theorem allocate_keeps_headroom:
  assumes "alloc_ok a" "valid_gpu a gpu"
    "p = KMain \<or> p = KSpeculation \<or> (\<exists>sp. side_pool_of (gpus a ! nat gpu) p = Some sp \<and> elastic sp)"
    "allocate gpu p a = Inr (Some h, a')"
  shows "\<exists>n. free_pages gpu (backing (gpus a ! nat gpu) p) a' = Inr n
    \<and> reserved_pages gpu (backing (gpus a ! nat gpu) p) a \<le> n"
proof -
  let ?g = "gpus a ! nat gpu" and ?pps = "pages_per_slab a"
  have gi: "nat gpu < length (gpus a)" using assms(2) by (auto simp: valid_gpu_def)
  obtain g' where r: "gpu_allocate ?pps (nat gpu) p ?g = Inr (Some h, g')" "a' = put_gpu (nat gpu) g' a"
    using assms(2,4) by (auto simp: allocate_def on_gpu'_def res_simps)
  have "gpu_reserved_pages (backing ?g p) ?g \<le> gpu_free_pages ?pps (backing ?g p) g'"
  proof (cases "p = KMain \<or> p = KSpeculation")
    case True
    then have "backing ?g p = p" by (auto simp: backing_def side_pool_of_def)
    with alloc_keeps_reserve [OF alloc_okD [OF assms(1) gi] True r(1)] show ?thesis by simp
  next
    case False
    then obtain sp where sp: "side_pool_of ?g p = Some sp" "elastic sp" using assms(3) by blast
    then have "gpu_allocate_side ?pps (nat gpu) p ?g = Inr (Some h, g')" using r(1) by (simp add: gpu_allocate_def)
    from side_keeps_reserve [OF alloc_okD [OF assms(1) gi] sp this] sp show ?thesis
      by (simp add: backing_def gpu_reserved_pages_def)
  qed
  with assms(2) gi r(2) show ?thesis by (simp add: free_pages_def reserved_pages_def)
qed

theorem allocate_keeps_headroom_witness:
  "\<exists>n. free_pages 0 (backing (gpus demo0 ! 0) KMain) (snd demo1) = Inr n
    \<and> reserved_pages 0 (backing (gpus demo0 ! 0) KMain) demo0 \<le> n"
  using allocate_keeps_headroom [OF demo0_ok(1) demo_gpu(1) _ demo1_alloc] by simp

text \<open>
  \<open>allocate_for_sequence\<close> hands out a fresh page whose metadata carries the sequence, layer and token
  range of the request and whose pointer is the address of the page index.
\<close>

theorem allocate_for_sequence_labels:
  assumes "alloc_ok a" "valid_gpu a gpu" "p = KMain \<or> p = KSpeculation"
  shows "\<exists>h a'. allocate_for_sequence gpu p seq l t t' unres a = Inr (h, a')
    \<and> handed_out (nat gpu) p a h a'
    \<and> (case h of None \<Rightarrow> True | Some h' \<Rightarrow>
         (\<exists>m. meta h' a' = Inr m \<and> sequence_id m = seq \<and> layer_index m = l \<and> token_start m = t
              \<and> token_end m = t' \<and> pool_tag m = p)
         \<and> gpu_ptr h' = page_ptr (gpus a ! nat gpu) (nat (page_idx h')))"
  by (rule allocate_for_sequence_handed_out [OF assms])

theorem allocate_for_sequence_labels_witness:
  "\<exists>h a'. allocate_for_sequence 0 KMain 7 1 0 16 False demo0 = Inr (h, a')
    \<and> handed_out 0 KMain demo0 h a'"
  using allocate_for_sequence_labels [OF demo0_ok(1) demo_gpu(1), of KMain 7 1 0 16 False] by auto

section \<open>References\<close>

text \<open>
  \<open>free\<close> of a live handle never faults and drops exactly one reference; at zero the page is back
  with its pool, so the invariant still holds.
\<close>

theorem free_drops_one_ref:
  assumes "alloc_ok a" "live_handle a h" "local_handle a h"
  shows "\<exists>a'. free h a = Inr a' \<and> alloc_ok a' \<and> refs a' = (refs a)(key_of h := refs a (key_of h) - 1)"
  by (rule free_releases [OF assms])

theorem free_drops_one_ref_witness:
  "\<exists>a'. free (fst demo1) (snd demo1) = Inr a' \<and> alloc_ok a' \<and> refs a' (key_of (fst demo1)) = 0"
  using free_drops_one_ref [OF demo1_ok(1,3,4)] demo1_ok(2) by auto

text \<open>
  \<open>add_ref\<close> adds one reference below the 32-bit limit, and a following \<open>free\<close> restores every count.
\<close>

theorem add_ref_free_roundtrip:
  assumes "alloc_ok a" "live_handle a h" "local_handle a h" "refs a (key_of h) \<noteq> - 1" "\<not> dcp_enabled (dcp a)"
  shows "\<exists>a' a''. add_ref h a = Inr a' \<and> alloc_ok a' \<and> refs a' = (refs a)(key_of h := refs a (key_of h) + 1)
    \<and> free h a' = Inr a'' \<and> alloc_ok a'' \<and> refs a'' = refs a"
proof -
  obtain a' where a': "add_ref h a = Inr a'" "alloc_ok a'" "refs a' = (refs a)(key_of h := refs a (key_of h) + 1)"
    using add_ref_increments [OF assms(1-4)] by blast
  have d: "dcp a' = dcp a" "length (gpus a') = length (gpus a)"
    using a'(1) assms(5) by (auto simp: add_ref_def mirrored_def Let_def res_simps split: option.splits)
  have "refs a (key_of h) + 1 \<noteq> 0" using assms(4) by (metis add_diff_cancel_right' diff_0)
  then have "live_handle a' h" using assms(2) a'(3) d by (simp add: live_handle_def valid_gpu_def)
  moreover have "local_handle a' h" using assms(5) d by (simp add: local_handle_def mirrored_def)
  ultimately obtain a'' where "free h a' = Inr a''" "alloc_ok a''"
    "refs a'' = (refs a')(key_of h := refs a' (key_of h) - 1)"
    using free_releases [OF a'(2)] by blast
  moreover from this(3) have "refs a'' = refs a" by (simp add: a'(3))
  ultimately show ?thesis using a' by blast
qed

theorem add_ref_free_roundtrip_witness:
  "\<exists>a' a''. add_ref (fst demo1) (snd demo1) = Inr a' \<and> free (fst demo1) a' = Inr a''
    \<and> refs a' (key_of (fst demo1)) = 2 \<and> refs a'' = refs (snd demo1)"
proof -
  have "dcp (snd demo1) = default_dcp" using reachable_inv [OF demo1_reachable demo_sane] by simp
  then show ?thesis using add_ref_free_roundtrip [OF demo1_ok(1,3,4)] demo1_ok(2) by auto
qed



text \<open>
  \<open>promote\<close> of a live speculation page retags it as a main page and changes no reference count.
\<close>

theorem promote_retags:
  assumes "alloc_ok a" "live_handle a h" "local_handle a h"
    "side_pool_of (gpus a ! nat (gpu_idx h)) (handle_pool h) = None"
    "pool_tag (pages (gpus a ! nat (gpu_idx h)) ! nat (page_idx h)) = KSpeculation"
  shows "\<exists>a'. promote h a = Inr a' \<and> alloc_ok a' \<and> refs a' = refs a
    \<and> (\<exists>m. meta h a = Inr m \<and> meta h a' = Inr (m\<lparr>pool_tag := KMain\<rparr>))"
  by (rule promote_keeps_refs [OF assms])

theorem promote_retags_witness:
  "\<exists>a'. promote (fst demo_spec) (snd demo_spec) = Inr a' \<and> alloc_ok a' \<and> refs a' = refs (snd demo_spec)"
proof -
  have "side_pool_of (gpus (snd demo_spec) ! nat (gpu_idx (fst demo_spec))) (handle_pool (fst demo_spec)) = None"
    "pool_tag (pages (gpus (snd demo_spec) ! nat (gpu_idx (fst demo_spec))) ! nat (page_idx (fst demo_spec))) = KSpeculation"
    by code_simp+
  then show ?thesis using promote_retags [OF demo_spec_ok] by blast
qed



section \<open>Whole-slab tenants\<close>

text \<open>
  C32: \<open>claim_expert_zone\<close> of \<open>n\<close> slabs never faults and succeeds exactly when the pool is slabbed, \<open>n\<close> is
  positive, a free run of \<open>n\<close> slabs exists and the claim leaves the reserve plus the extra headroom free;
  a granted zone is a fresh run of slabs at its slab address, and no page reference changes. A request on an unslabbed pool or for no
  slabs changes nothing, not even the refusal counter.
\<close>

theorem claim_expert_zone_iff_room:
  assumes "alloc_ok a" "valid_gpu a gpu"
  shows "\<exists>z a'. claim_expert_zone gpu n extra a = Inr (z, a') \<and> alloc_ok a' \<and> refs a' = refs a
    \<and> (z \<noteq> None \<longleftrightarrow> kv_slabbed (pages_per_slab a) (gpus a ! nat gpu) \<and> 0 < n
         \<and> n \<le> int (largest_free_run gpu a)
         \<and> main_reserved (gpus a ! nat gpu) + extra \<le> kv_free_pages (gpus a ! nat gpu) - n * int (pages_per_slab a))
    \<and> (\<not> kv_slabbed (pages_per_slab a) (gpus a ! nat gpu) \<or> n \<le> 0 \<longrightarrow> a' = a)
    \<and> (case z of None \<Rightarrow> True
       | Some run \<Rightarrow>
           ez_gpu_idx run = nat gpu \<and> ez_num_slabs run = nat n
           \<and> ez_base run = base (gpus a ! nat gpu) + int (ez_start_slab run) * slab_bytes a
           \<and> zone_granted (pages_per_slab a) (ez_start_slab run) (nat n) extra
               (gpus a ! nat gpu) (gpus a' ! nat gpu))"
proof -
  have gi: "nat gpu < length (gpus a)" using assms(2) by (auto simp: valid_gpu_def)
  from claim_expert_zone_grants [OF assms, of n extra] obtain z a' where
    r: "claim_expert_zone gpu n extra a = Inr (z, a')" and rest: "alloc_ok a'" "refs a' = refs a"
    "case z of None \<Rightarrow> True
       | Some run \<Rightarrow>
           ez_gpu_idx run = nat gpu \<and> ez_num_slabs run = nat n
           \<and> ez_base run = base (gpus a ! nat gpu) + int (ez_start_slab run) * slab_bytes a
           \<and> zone_granted (pages_per_slab a) (ez_start_slab run) (nat n) extra
               (gpus a ! nat gpu) (gpus a' ! nat gpu)" by blast
  obtain g' where "gpu_claim_expert_zone (pages_per_slab a) (slab_bytes a) (nat gpu) n extra (gpus a ! nat gpu) = Inr (z, g')"
    using r assms(2) by (auto simp: claim_expert_zone_def on_gpu'_def res_simps)
  note iff = gpu_claim_expert_zone_iff [OF alloc_okD [OF assms(1) gi] this]
  have "\<not> kv_slabbed (pages_per_slab a) (gpus a ! nat gpu) \<or> n \<le> 0 \<longrightarrow> a' = a"
    using r assms(2) gi by (auto simp: claim_expert_zone_def on_gpu'_def gpu_claim_expert_zone_def put_gpu_same)
  with iff r rest assms(2) show ?thesis
    by (intro exI [of _ z] exI [of _ a']) (simp add: largest_free_run_def)
qed

theorem claim_expert_zone_iff_room_witness:
  "\<exists>z a'. claim_expert_zone 0 1 0 demo0 = Inr (Some z, a') \<and> refs a' = refs demo0 \<and> ez_num_slabs z = 1"
proof -
  have "kv_slabbed (pages_per_slab demo0) (gpus demo0 ! 0)" "1 \<le> int (largest_free_run 0 demo0)"
    "main_reserved (gpus demo0 ! 0) + 0 \<le> kv_free_pages (gpus demo0 ! 0) - 1 * int (pages_per_slab demo0)"
    by code_simp+
  then show ?thesis using claim_expert_zone_iff_room [OF demo0_ok(1) demo_gpu(1), of 1 0] by auto
qed

text \<open>
  Claiming an expert zone and releasing it gives back what was taken: the free-page counter, the
  grants, the slabs of side tenants, the KV pages and all reference counts are as before.
\<close>

theorem zone_claim_release_roundtrip:
  assumes "alloc_ok a" "valid_gpu a gpu" "claim_expert_zone gpu n extra a = Inr (Some z, a1)"
  shows "\<exists>a2. release_expert_zone gpu (int (ez_start_slab z)) (int (ez_num_slabs z)) a1 = Inr a2
    \<and> alloc_ok a2 \<and> refs a2 = refs a
    \<and> (let g = gpus a ! nat gpu; g2 = gpus a2 ! nat gpu; pps = pages_per_slab a in
       kv_free_pages g2 = kv_free_pages g \<and> expert_zone_runs g2 = expert_zone_runs g
       \<and> side_slabs g2 = side_slabs g \<and> kv_pages pps g2 = kv_pages pps g
       \<and> granted_slabs (ez_stats g2) = granted_slabs (ez_stats g))"
proof -
  let ?g = "gpus a ! nat gpu" and ?g1 = "gpus a1 ! nat gpu" and ?st = "ez_start_slab z" and ?pps = "pages_per_slab a"
  have c: "alloc_ok a1" "refs a1 = refs a" "ez_num_slabs z = nat n" "zone_granted ?pps ?st (nat n) extra ?g ?g1"
    using claim_expert_zone_grants [OF assms(1,2), of n extra] assms(3) by auto
  have a1: "pages_per_slab a1 = ?pps" "length (gpus a1) = length (gpus a)"
    using assms(3) by (auto simp: claim_expert_zone_def on_gpu'_def res_simps)
  then have v: "valid_gpu a1 gpu" using assms(2) by (simp add: valid_gpu_def)
  note Z = c(4) [unfolded zone_granted_def zone_effect_def]
  obtain a2 where a2: "release_expert_zone gpu (int ?st) (int (nat n)) a1 = Inr a2" "alloc_ok a2" "refs a2 = refs a1"
    and R: "zone_returned ?pps ?st (nat n) ?g1 (gpus a2 ! nat gpu)"
    using release_expert_zone_returns [OF c(1) v, of ?st "nat n"] Z a1(1) by auto
  note R' = R [unfolded zone_returned_def zone_effect_def]
  have "expert_zone_runs (gpus a2 ! nat gpu) = expert_zone_runs ?g" using Z R' by auto
  moreover have "side_slabs (gpus a2 ! nat gpu) = side_slabs ?g" using Z R' by auto
  moreover have "kv_free_pages (gpus a2 ! nat gpu) = kv_free_pages ?g"
    "kv_pages ?pps (gpus a2 ! nat gpu) = kv_pages ?pps ?g"
    "granted_slabs (ez_stats (gpus a2 ! nat gpu)) = granted_slabs (ez_stats ?g)" using Z R' by simp_all
  ultimately show ?thesis using a2 c(2,3) by (simp add: Let_def)
qed

theorem zone_claim_release_roundtrip_witness:
  "\<exists>z a1 a2. claim_expert_zone 0 1 0 demo0 = Inr (Some z, a1)
    \<and> release_expert_zone 0 (int (ez_start_slab z)) (int (ez_num_slabs z)) a1 = Inr a2
    \<and> refs a2 = refs demo0 \<and> kv_free_pages (gpus a2 ! 0) = kv_free_pages (gpus demo0 ! 0)"
proof -
  have "case claim_expert_zone 0 1 0 demo0 of Inr (Some z, a) \<Rightarrow> True | _ \<Rightarrow> False" by code_simp
  then obtain z a1 where c: "claim_expert_zone 0 1 0 demo0 = Inr (Some z, a1)"
    by (auto split: sum.splits option.splits)
  show ?thesis using zone_claim_release_roundtrip [OF demo0_ok(1) demo_gpu(1) c] c by (auto simp: Let_def)
qed

text \<open>
  In mapped mode \<open>allocate_kda_state\<close> is all or nothing: it returns one handle per layer, each the start
  of its own run of slabs, or none, and then changes only the refusal statistics. It refuses exactly when the
  claim would eat into the reserve or no choice of that many disjoint free runs exists (the greedy scan from
  the top is optimal).
\<close>

theorem kda_state_all_or_nothing:
  assumes "alloc_ok a" "valid_gpu a gpu" "kda_mapped a" "kda_ready a gpu"
  shows "\<exists>hs a'. allocate_kda_state gpu seq a = Inr (hs, a') \<and> alloc_ok a'
    \<and> (let g = gpus a ! nat gpu; g' = gpus a' ! nat gpu; n = kda_unit_slabs a; pps = pages_per_slab a in
       (if hs = [] then kda_stats_only pps g g'
        else \<exists>sts. length sts = kda_num_layers a \<and> state_claimed pps n seq sts g g'
             \<and> hs = map (\<lambda>st. mk_handle (nat gpu) st (side_ptr (kda_state g) st) KKdaState) sts)
       \<and> (hs \<noteq> [] \<longleftrightarrow>
            main_reserved g \<le> kv_free_pages g - int (kda_num_layers a) * int n * int pps
            \<and> (\<exists>A. disjoint_runs (slab_claimed g) (length (kv_slabs g)) n A \<and> card A = kda_num_layers a)))"
proof -
  let ?g = "gpus a ! nat gpu" and ?n = "kda_unit_slabs a" and ?pps = "pages_per_slab a"
  have gi: "nat gpu < length (gpus a)" using assms(2) by (auto simp: valid_gpu_def)
  have inv: "gpu_inv a ?g" using assms(1) gi by (simp add: alloc_ok_def)
  have m: "0 < kda_num_layers a" "elastic (kda_state ?g)" "kv_slabbed ?pps ?g"
    using assms(3,4) by (simp_all add: kda_ready_def)
  have rs: "run_slabs (kda_state ?g) = ?n" using inv m by (simp add: gpu_inv_def)
  have "side_pool_of ?g KKdaState = Some (kda_state ?g)" by (simp add: side_pool_of_def)
  then have pos: "0 < ?n"
    using sides_okD(1) inv m rs by (fastforce simp: gpu_inv_def gpu_ok_def side_pool_ok_def)
  obtain hs g' where r: "gpu_allocate_kda_mapped ?pps (nat gpu) (kda_num_layers a) ?n seq ?g = Inr (hs, g')"
    and c: "if hs = [] then kda_stats_only ?pps ?g g'
       else \<exists>sts. length sts = kda_num_layers a \<and> state_claimed ?pps ?n seq sts ?g g'
            \<and> hs = map (\<lambda>st. mk_handle (nat gpu) st (side_ptr (kda_state ?g) st) KKdaState) sts"
    using gpu_allocate_kda_mapped_ok [OF alloc_okD [OF assms(1) gi] m(3,1) pos m(2) rs, of "nat gpu" seq]
    by (elim exE conjE) (rule that)
  note iff = gpu_allocate_kda_mapped_iff [OF r m(1) pos]
  have "allocate_kda_state gpu seq a = Inr (hs, put_gpu (nat gpu) g' a)"
    using r assms(2,3) by (simp add: allocate_kda_state_def on_gpu'_def)
  moreover have "alloc_ok (put_gpu (nat gpu) g' a)"
    using c kda_stats_only_alloc [OF assms(1) gi] state_claimed_alloc [OF assms(1) gi] by (auto split: if_splits)
  ultimately show ?thesis using c iff gi by (intro exI [of _ hs] exI [of _ "put_gpu (nat gpu) g' a"]) (simp add: Let_def)
qed

theorem kda_state_all_or_nothing_witness:
  "\<exists>hs a'. allocate_kda_state 0 5 kda_demo = Inr (hs, a') \<and> alloc_ok a' \<and> length hs = 1"
proof -
  obtain hs a' where r: "allocate_kda_state 0 5 kda_demo = Inr (hs, a')" and "alloc_ok a'"
    using kda_state_all_or_nothing [OF kda_demo_ok, of 5] by blast
  moreover have "case allocate_kda_state 0 5 kda_demo of Inl e \<Rightarrow> False | Inr (hs, a') \<Rightarrow> length hs = 1" by code_simp
  ultimately show ?thesis by simp
qed

section \<open>Construction\<close>

text \<open>
  A successfully constructed allocator satisfies the invariant, has one GPU per GPU of the layout, no page
  has a reference, and every page of the main and speculation pools is free. It has passed the geometry gate.
\<close>

theorem constructed_allocator_empty:
  assumes "layout_sane L" "page_allocator L has_backend = Inr a"
  shows "has_backend \<and> geometry_ok L \<and> alloc_ok a \<and> length (gpus a) = length (layout_gpus L) \<and> refs a = (\<lambda>_. 0)
    \<and> (\<forall>gpu p. valid_gpu a gpu \<and> (p = KMain \<or> p = KSpeculation) \<longrightarrow>
         (\<exists>n. total_pages gpu p a = Inr n \<and> free_pages gpu p a = Inr (int n)))"
proof -
  have b: "has_backend" "geometry_ok L" "rfold (boot_gpu L) (layout_gpus L) (empty_allocator L) = Inr a"
    using assms(2) by (auto simp: page_allocator_def split: if_splits)
  note B = boot_gpus_nth [OF b(3)]
  have g: "\<exists>gl rg. init_gpu L gl rg = Inr (gpus a ! gi)" if "gi < length (gpus a)" for gi
    using B(4) that by (fastforce simp: empty_allocator_def)
  have pps: "pages_per_slab a = layout_pages_per_slab L" using B(3) by (simp add: empty_allocator_def)
  have "refs a k = 0" for k
    using g init_gpu_empty(1) by (cases k) (fastforce simp: refs_def)
  moreover have "\<exists>n. total_pages gpu p a = Inr n \<and> free_pages gpu p a = Inr (int n)"
    if "valid_gpu a gpu" "p = KMain \<or> p = KSpeculation" for gpu p
    using that g [of "nat gpu"] init_gpu_empty(2) pps by (fastforce simp: total_pages_def free_pages_def valid_gpu_def)
  ultimately show ?thesis using b(1,2) boot_ok(1) [OF assms] B(1) by (auto simp: empty_allocator_def)
qed

theorem constructed_allocator_empty_witness:
  "alloc_ok demo0 \<and> refs demo0 = (\<lambda>_. 0)
   \<and> (\<exists>n. total_pages 0 KMain demo0 = Inr n \<and> free_pages 0 KMain demo0 = Inr (int n))"
  using constructed_allocator_empty [OF demo_sane demo_boot] demo_gpu(1) by blast

section \<open>The suppliers of pages\<close>

text \<open>
  However requests for pages of any sequences and returns of held pages are interleaved on a slab region,
  no assertion fails and no page is held twice: the held pages are always distinct.
\<close>

theorem slab_region_serves_distinct_pages:
  assumes "region_ok pps r"
  shows "\<exists>held r'. serve (region_take pps) (kv_return_page pps) rs [] r = Inr (held, r') \<and> region_ok pps r'
    \<and> distinct held \<and> (\<forall>p \<in> set held. 0 < region_count pps r' p)"
  using region_source.serve_safe [OF assms, of "[]" rs] by simp

theorem slab_region_serves_distinct_pages_witness:
  "\<exists>held r'. serve (region_take 2) (kv_return_page 2) [Take (7, 0, True, None), Take (8, 0, True, None), Give 0,
       Take (8, 16, True, None)] [] (gpus demo0 ! 0) = Inr (held, r') \<and> distinct held"
proof -
  have "kv_slabbed 2 (gpus demo0 ! 0)" "pages_per_slab demo0 = 2" by code_simp+
  then have "region_ok 2 (gpus demo0 ! 0)" using gpu_okD(1) [OF alloc_okD [OF demo0_ok(1) demo_gpu(2)]] by simp
  then show ?thesis by (metis slab_region_serves_distinct_pages)
qed

text \<open>
  The same for the page pools of a whole GPU, with the reference counts of the page table: interleaved
  \<open>allocate_for_sequence\<close> and reference drops never fault and never hand a page out twice.
\<close>

theorem page_pool_serves_distinct_pages:
  assumes "gpu_ok pps g"
  shows "\<exists>held g'. serve (pool_take pps gi) (drop_ref pps) rs [] g = Inr (held, g') \<and> gpu_ok pps g'
    \<and> distinct held \<and> (\<forall>p \<in> set held. 0 < page_count g' p)"
  using pool_source.serve_safe [OF assms, of "[]" gi rs] by simp

theorem page_pool_serves_distinct_pages_witness:
  "\<exists>held g'. serve (pool_take 2 0) (drop_ref 2) [Take (True, 7, 0, 0, 16, False), Take (False, 7, 0, 0, 16, False), Give 1] []
      (gpus demo0 ! 0) = Inr (held, g') \<and> distinct held"
proof -
  have "pages_per_slab demo0 = 2" by code_simp
  then have "gpu_ok 2 (gpus demo0 ! 0)" using alloc_okD [OF demo0_ok(1) demo_gpu(2)] by simp
  then show ?thesis by (metis page_pool_serves_distinct_pages)
qed

text \<open>
  The \<open>O(1)\<close> free-page counter of a slabbed GPU is exact: free pages, live pages of the main region and
  the pages of leased slabs add up to the region plus the loose pages.
\<close>

theorem free_page_counter_exact:
  assumes "alloc_ok a" "valid_gpu a gpu" "kv_slabbed (pages_per_slab a) (gpus a ! nat gpu)"
  shows "\<exists>n. free_pages gpu KMain a = Inr n
    \<and> n + int (card {p. p < initial_main_pages (gpus a ! nat gpu) \<and> live (gpus a ! nat gpu) p})
      + int (pages_per_slab a) * int (card (\<Union>l \<in> leases (gpus a ! nat gpu). lease_slabs l))
      = int (initial_main_pages (gpus a ! nat gpu)) + int (length (kv_loose_free (gpus a ! nat gpu)))"
proof -
  let ?g = "gpus a ! nat gpu"
  have G: "gpu_ok (pages_per_slab a) ?g" using alloc_okD [OF assms(1)] assms(2) by (auto simp: valid_gpu_def)
  have "(\<Union>l \<in> leases ?g. lease_slabs l) = side_slabs ?g" using G by (simp add: gpu_ok_def leases_ok_def)
  with free_pages_exact [OF gpu_okD(1) [OF G assms(3)]] kv_pages_live [OF G assms(3)] assms(2,3) show ?thesis
    by (simp add: free_pages_def gpu_free_main)
qed

theorem free_page_counter_exact_witness:
  "\<exists>n. free_pages 0 KMain (snd demo1) = Inr n
    \<and> n + int (card {p. p < initial_main_pages (gpus (snd demo1) ! 0) \<and> live (gpus (snd demo1) ! 0) p})
      + int (pages_per_slab (snd demo1)) * int (card (\<Union>l \<in> leases (gpus (snd demo1) ! 0). lease_slabs l))
      = int (initial_main_pages (gpus (snd demo1) ! 0)) + int (length (kv_loose_free (gpus (snd demo1) ! 0)))"
proof -
  have "kv_slabbed (pages_per_slab (snd demo1)) (gpus (snd demo1) ! nat 0)" by code_simp
  from free_page_counter_exact [OF demo1_ok(1) demo1_gpu this] show ?thesis by simp
qed

section \<open>Replicated KV\<close>

text \<open>
  With replicated KV (INV-KV-REP) a main page is allocated at the same index on every tensor-parallel
  rank: it was unreferenced on all of them, is referenced once on all of them, carries the labels of the
  request everywhere, and the ranks stay in lockstep. No assertion fails.
\<close>

theorem replicated_alloc_same_index:
  assumes "alloc_ok a" "replicated_ok Q a" "seq \<in> Q"
  shows "\<exists>h a'. allocate_main_replicated seq t l unres a = Inr (h, a')
    \<and> (case h of None \<Rightarrow> a' = a | Some h' \<Rightarrow> replicated_page Q seq t l a h' a')"
  using allocate_replicated_main_ok [OF assms] by (simp add: allocate_main_replicated_def)

lemma pair_demo_replicated: "replicated_ok {7} pair_demo"
proof -
  have f: "tp_gpu_indices (dcp pair_demo) = [0, 1]" "dcp_enabled (dcp pair_demo)" "length (gpus pair_demo) = 2"
    "kv_slabbed (pages_per_slab pair_demo) (gpus pair_demo ! 0)"
    "kv_slabbed (pages_per_slab pair_demo) (gpus pair_demo ! 1)"
    "run_ids (gpus pair_demo ! 0) 7 = []" "run_ids (gpus pair_demo ! 1) 7 = []"
    by code_simp+
  then show ?thesis by (simp add: replicated_ok_def lockstep_pair_def Let_def)
qed

theorem replicated_alloc_same_index_witness:
  "\<exists>h a'. allocate_main_replicated 7 0 0 False pair_demo = Inr (Some h, a')
    \<and> replicated_page {7} 7 0 0 pair_demo h a'"
proof -
  obtain h a' where r: "allocate_main_replicated 7 0 0 False pair_demo = Inr (h, a')"
    and c: "case h of None \<Rightarrow> a' = pair_demo | Some h' \<Rightarrow> replicated_page {7} 7 0 0 pair_demo h' a'"
    using replicated_alloc_same_index [OF pair_demo_ok pair_demo_replicated, of 7 0 0 False] by auto
  have "case allocate_main_replicated 7 0 0 False pair_demo of Inr (Some h, a) \<Rightarrow> True | _ \<Rightarrow> False" by code_simp
  then show ?thesis using r c by (cases h) auto
qed

text \<open>
  \<open>free\<close> of a replicated page drops the reference on every rank and keeps the ranks in lockstep.
\<close>

theorem replicated_free_in_lockstep:
  assumes "alloc_ok a" "replicated_ok Q a" "mirror_page Q a (nat (page_idx h))"
    "nat (gpu_idx h) \<in> set (tp_gpu_indices (dcp a))" "0 \<le> gpu_idx h" "0 \<le> page_idx h"
    "handle_pool h = KMain \<or> handle_pool h = KSpeculation"
  shows "\<exists>a'. free h a = Inr a' \<and> alloc_ok a' \<and> replicated_ok Q a'
    \<and> refs a' = refs_all (tp_gpu_indices (dcp a)) (nat (page_idx h)) (refs a (key_of h) - 1) (refs a)"
  by (rule free_replicated_ok [OF assms])

definition pair_page :: "page_handle \<times> allocator" where
  "pair_page = taken (allocate_main_replicated 7 0 0 False pair_demo)"

lemma pair_page_ok: "alloc_ok (snd pair_page)" "replicated_ok {7} (snd pair_page)"
  "mirror_page {7} (snd pair_page) (nat (page_idx (fst pair_page)))"
proof -
  have "case allocate_main_replicated 7 0 0 False pair_demo of Inr (Some h, a) \<Rightarrow> True | _ \<Rightarrow> False" by code_simp
  then have r: "allocate_main_replicated 7 0 0 False pair_demo = Inr (Some (fst pair_page), snd pair_page)"
    unfolding pair_page_def by (rule taken_eq)
  have "replicated_page {7} 7 0 0 pair_demo (fst pair_page) (snd pair_page)"
    using allocate_replicated_main_ok [OF pair_demo_ok pair_demo_replicated, of 7 0 0 False] r
    by (auto simp: allocate_main_replicated_def)
  then show "alloc_ok (snd pair_page)" "replicated_ok {7} (snd pair_page)"
    by (simp_all add: replicated_page_def Let_def)
  have "in_runs {7} (gpus (snd pair_page) ! 0) (nat (page_idx (fst pair_page)) div pages_per_slab (snd pair_page))"
    unfolding in_runs_def by code_simp
  moreover have "tp_gpu_indices (dcp (snd pair_page)) = [0, 1]" by code_simp
  moreover have "\<forall>gi \<in> set [0, 1]. let g = gpus (snd pair_page) ! gi; c = gpus (snd pair_page) ! 0; p = nat (page_idx (fst pair_page)) in
         p < total g \<and> live g p \<and> replicated (pages g ! p)
         \<and> refcount (pages g ! p) = refcount (pages c ! p) \<and> pool_tag (pages g ! p) = pool_tag (pages c ! p)
         \<and> (p < initial_main_pages g \<longleftrightarrow> p < initial_main_pages c)" by code_simp
  ultimately show "mirror_page {7} (snd pair_page) (nat (page_idx (fst pair_page)))"
    by (simp add: mirror_page_def Let_def)
qed

theorem replicated_free_in_lockstep_witness:
  "\<exists>a'. free (fst pair_page) (snd pair_page) = Inr a' \<and> alloc_ok a' \<and> replicated_ok {7} a'"
proof -
  have "nat (gpu_idx (fst pair_page)) \<in> set (tp_gpu_indices (dcp (snd pair_page)))" "0 \<le> gpu_idx (fst pair_page)"
    "0 \<le> page_idx (fst pair_page)" "handle_pool (fst pair_page) = KMain \<or> handle_pool (fst pair_page) = KSpeculation"
    by code_simp+
  from replicated_free_in_lockstep [OF pair_page_ok this] show ?thesis by blast
qed

end
