(* ===== verification/Expert_Cache.thy ===== *)
theory Expert_Cache
  imports Prelude
begin

text \<open>
  The expert weight cache of \<^verbatim>\<open>src/src/core/memory/expert_cache.{h,cpp}\<close>: per GPU three slot
  allocators (stable, spill, prefetch), the elastic zones granted at run time, and the table of
  resident experts. A device pointer is an integer address, the null pointer that \<^verbatim>\<open>reserve\<close> returns is
  \<open>None\<close>, the index \<open>-1\<close> of a failed slot allocation is \<open>None\<close>. The hash table of residents is an
  association list in insertion order; the source's results that depend on the iteration order of the
  hash table are only used as collections. The residency listener is the list of the notifications it
  has received. Logging is left out.
\<close>

unbundle bit_operations_syntax

section \<open>State\<close>

datatype expert_key = ExpertKey (layer_idx: u32) (expert_idx: u16)

instantiation expert_key :: linorder
begin

definition less_eq_expert_key :: "expert_key \<Rightarrow> expert_key \<Rightarrow> bool" where
  "less_eq_expert_key a b \<longleftrightarrow>
     layer_idx a < layer_idx b \<or> layer_idx a = layer_idx b \<and> expert_idx a \<le> expert_idx b"

definition less_expert_key :: "expert_key \<Rightarrow> expert_key \<Rightarrow> bool" where
  "less_expert_key a b \<longleftrightarrow>
     layer_idx a < layer_idx b \<or> layer_idx a = layer_idx b \<and> expert_idx a < expert_idx b"

instance
  by standard (auto simp: less_eq_expert_key_def less_expert_key_def intro: expert_key.expand)

end

datatype cache_zone = KStable | KStreaming

datatype prefill_mode = KNormal | KSpillActive

record scratch_region =
  scratch_ptr :: int
  scratch_bytes :: int

definition kGate :: u8 where "kGate = 1"
definition kUp :: u8 where "kUp = 2"
definition kDown :: u8 where "kDown = 4"
definition kAll :: u8 where "kAll = 7"

record cache_entry =
  ce_key :: expert_key
  ce_gpu :: int
  ce_zone :: cache_zone
  ce_duplicate :: bool
  in_spill_zone :: bool
  sub_components_ready :: u8
  vram_address :: int
  slot_idx :: nat
  lock_count :: u16
  elastic_zone :: int
  gate_offset :: int
  up_offset :: int
  down_offset :: int

record residency_info =
  ri_key :: expert_key
  ri_gpu :: int
  ri_zone :: cache_zone
  ri_duplicate :: bool
  ri_ready :: u8
  ri_address :: int

record expert_eviction_input =
  ei_key :: expert_key
  ei_zone :: cache_zone
  ei_duplicate :: bool
  ei_gpu :: int

record slot_alloc =
  sa_base :: int
  sa_slot_bytes :: int
  sa_total :: nat
  sa_free :: "nat list"

datatype zone_state = ZActive | ZDraining

record elastic_zone_t =
  z_id :: int
  z_base :: int
  z_bytes :: int
  z_slot_stride :: int
  z_state :: zone_state
  z_slots :: slot_alloc
  z_resident_entries :: int
  z_cookie :: int

record gpu_cache =
  stable_slots :: slot_alloc
  spill_slots :: slot_alloc
  prefetch_slots :: slot_alloc
  cmode :: prefill_mode
  scratch :: scratch_region
  residents :: "(expert_key \<times> cache_entry) list"
  duplicate_count :: int
  elastic_zones :: "elastic_zone_t list"
  next_elastic_id :: int

datatype residency_event = ResidentAdded expert_key int | ResidentRemoved expert_key int

record expert_cache =
  ec_gpus :: "gpu_cache list"
  expert_bytes :: int
  hints_valid :: bool
  elastic_generation :: u64
  listener :: "residency_event list option"
  gate_bytes :: int
  up_bytes :: int
  down_bytes :: int
  gate_weight_bytes :: int
  up_weight_bytes :: int
  down_weight_bytes :: int
  duplication_enabled :: bool

section \<open>Slot allocators\<close>

definition slot_init :: "int \<Rightarrow> int \<Rightarrow> int \<Rightarrow> slot_alloc" where
  "slot_init b bytes_per_slot zone_bytes =
     (let n = (if 0 < bytes_per_slot then nat (zone_bytes div bytes_per_slot) else 0) in
      \<lparr>sa_base = b, sa_slot_bytes = bytes_per_slot, sa_total = n, sa_free = rev [0..<n]\<rparr>)"

definition slot_init_with_count :: "int \<Rightarrow> int \<Rightarrow> int \<Rightarrow> slot_alloc" where
  "slot_init_with_count b stride count =
     (let n = (if 0 < stride \<and> 0 < count then nat count else 0) in
      \<lparr>sa_base = b, sa_slot_bytes = stride, sa_total = n, sa_free = rev [0..<n]\<rparr>)"

definition slot_allocate :: "slot_alloc \<Rightarrow> nat option \<times> slot_alloc" where
  "slot_allocate sa =
     (if sa_free sa = [] then (None, sa)
      else (Some (last (sa_free sa)), sa\<lparr>sa_free := butlast (sa_free sa)\<rparr>))"

definition slot_free :: "nat \<Rightarrow> slot_alloc \<Rightarrow> slot_alloc" where
  "slot_free i sa = sa\<lparr>sa_free := sa_free sa @ [i]\<rparr>"

definition slot_address :: "slot_alloc \<Rightarrow> nat \<Rightarrow> int" where
  "slot_address sa i = sa_base sa + int i * sa_slot_bytes sa"

section \<open>Construction\<close>

text \<open>What the constructor reads of the layout and the regions of one GPU.\<close>

record cache_layout =
  region_stable :: int
  region_streaming :: int
  stable_zone_bytes :: int
  spill_zone_bytes :: int
  prefetch_zone_bytes :: int

definition init_gpu_cache :: "int \<Rightarrow> cache_layout \<Rightarrow> gpu_cache" where
  "init_gpu_cache ebytes l =
     \<lparr>stable_slots = slot_init (region_stable l) ebytes (stable_zone_bytes l),
      spill_slots = slot_init (region_streaming l) ebytes (spill_zone_bytes l),
      prefetch_slots = slot_init (region_streaming l + spill_zone_bytes l) ebytes (prefetch_zone_bytes l),
      cmode = KNormal, scratch = \<lparr>scratch_ptr = region_streaming l, scratch_bytes = spill_zone_bytes l\<rparr>,
      residents = [], duplicate_count = 0, elastic_zones = [], next_elastic_id = 0\<rparr>"

definition expert_cache_init :: "cache_layout list \<Rightarrow> int \<Rightarrow> bool \<Rightarrow> expert_cache" where
  "expert_cache_init ls ebytes dup =
     \<lparr>ec_gpus = map (init_gpu_cache ebytes) ls, expert_bytes = ebytes, hints_valid = True,
      elastic_generation = 0, listener = None,
      gate_bytes = ebytes div 3, up_bytes = ebytes div 3,
      down_bytes = ebytes - ebytes div 3 - ebytes div 3,
      gate_weight_bytes = 0, up_weight_bytes = 0, down_weight_bytes = 0, duplication_enabled = dup\<rparr>"

text \<open>
  The second constructor: the byte counts per projection, and the weight-only ones, that the quantization
  format gives for the expert shape.
\<close>

definition expert_cache_init_quant ::
    "cache_layout list \<Rightarrow> int \<Rightarrow> bool \<Rightarrow> int \<times> int \<times> int \<Rightarrow> int \<times> int \<times> int \<Rightarrow> expert_cache" where
  "expert_cache_init_quant ls ebytes dup total_b weight_b =
     (case (total_b, weight_b) of ((g, u, d), (gw, uw, dw)) \<Rightarrow>
        (expert_cache_init ls ebytes dup)
          \<lparr>gate_bytes := g, up_bytes := u, down_bytes := d,
           gate_weight_bytes := gw, up_weight_bytes := uw, down_weight_bytes := dw\<rparr>)"

text \<open>A newly registered listener has heard nothing yet.\<close>

definition set_residency_listener :: "expert_cache \<Rightarrow> expert_cache" where
  "set_residency_listener c = c\<lparr>listener := Some []\<rparr>"

section \<open>Access\<close>

definition valid_cache_gpu :: "expert_cache \<Rightarrow> int \<Rightarrow> bool" where
  "valid_cache_gpu c gpu \<longleftrightarrow> 0 \<le> gpu \<and> gpu < int (length (ec_gpus c))"

definition gpu_state :: "expert_cache \<Rightarrow> int \<Rightarrow> gpu_cache res" where
  "gpu_state c gpu = (if valid_cache_gpu c gpu then Inr (ec_gpus c ! nat gpu) else Inl OutOfRange)"

definition put_state :: "int \<Rightarrow> gpu_cache \<Rightarrow> expert_cache \<Rightarrow> expert_cache" where
  "put_state gpu gs c = c\<lparr>ec_gpus := (ec_gpus c)[nat gpu := gs]\<rparr>"

definition notify :: "residency_event \<Rightarrow> expert_cache \<Rightarrow> expert_cache" where
  "notify ev c = (case listener c of None \<Rightarrow> c | Some evs \<Rightarrow> c\<lparr>listener := Some (evs @ [ev])\<rparr>)"

definition find_resident :: "expert_key \<Rightarrow> gpu_cache \<Rightarrow> cache_entry option" where
  "find_resident k gs = map_of (residents gs) k"

text \<open>Writing through the iterator that \<^verbatim>\<open>find\<close> returned, and erasing at it.\<close>

definition upd_resident :: "expert_key \<Rightarrow> (cache_entry \<Rightarrow> cache_entry) \<Rightarrow> gpu_cache \<Rightarrow> gpu_cache" where
  "upd_resident k f gs =
     gs\<lparr>residents := map (\<lambda>(k', e). if k' = k then (k', f e) else (k', e)) (residents gs)\<rparr>"

definition erase_resident :: "expert_key \<Rightarrow> gpu_cache \<Rightarrow> gpu_cache" where
  "erase_resident k gs = gs\<lparr>residents := filter (\<lambda>(k', e). k' \<noteq> k) (residents gs)\<rparr>"

section \<open>Reserve\<close>

definition make_entry ::
    "expert_cache \<Rightarrow> expert_key \<Rightarrow> int \<Rightarrow> cache_zone \<Rightarrow> bool \<Rightarrow> bool \<Rightarrow> int \<Rightarrow> nat \<Rightarrow> int \<Rightarrow> cache_entry" where
  "make_entry c k gpu z dup spill addr slot ez =
     \<lparr>ce_key = k, ce_gpu = gpu, ce_zone = z, ce_duplicate = dup, in_spill_zone = spill,
      sub_components_ready = 0, vram_address = addr, slot_idx = slot, lock_count = 0,
      elastic_zone = ez, gate_offset = 0, up_offset = gate_bytes c,
      down_offset = gate_bytes c + up_bytes c\<rparr>"

definition emplace_entry :: "cache_entry \<Rightarrow> gpu_cache \<Rightarrow> gpu_cache" where
  "emplace_entry e gs =
     gs\<lparr>residents := residents gs @ [(ce_key e, e)],
        duplicate_count := duplicate_count gs + (if ce_duplicate e then 1 else 0)\<rparr>"

text \<open>The elastic zones are offered in order; a draining or full zone is passed over.\<close>

fun offer_zones :: "elastic_zone_t list \<Rightarrow> (int \<times> nat \<times> int) option \<times> elastic_zone_t list" where
  "offer_zones [] = (None, [])"
| "offer_zones (z # zs) =
     (let skip = (let (r, zs') = offer_zones zs in (r, z # zs')) in
      if z_state z \<noteq> ZActive then skip
      else case slot_allocate (z_slots z) of
             (None, sa) \<Rightarrow> skip
           | (Some slot, sa) \<Rightarrow>
               (Some (z_id z, slot, slot_address sa slot),
                z\<lparr>z_slots := sa, z_resident_entries := z_resident_entries z + 1\<rparr> # zs))"

definition reserve_stable ::
    "expert_cache \<Rightarrow> expert_key \<Rightarrow> int \<Rightarrow> bool \<Rightarrow> gpu_cache \<Rightarrow> int option \<times> gpu_cache" where
  "reserve_stable c k gpu dup gs =
     (case slot_allocate (stable_slots gs) of
        (Some slot, sa) \<Rightarrow>
          (let addr = slot_address sa slot in
           (Some addr, emplace_entry (make_entry c k gpu KStable dup False addr slot (- 1)) (gs\<lparr>stable_slots := sa\<rparr>)))
      | (None, sa) \<Rightarrow>
          (case offer_zones (elastic_zones gs) of
             (None, zs) \<Rightarrow> (None, gs)
           | (Some (zid, slot, addr), zs) \<Rightarrow>
               (Some addr,
                emplace_entry (make_entry c k gpu KStable dup False addr slot zid) (gs\<lparr>elastic_zones := zs\<rparr>))))"

definition reserve_prefetch ::
    "expert_cache \<Rightarrow> expert_key \<Rightarrow> int \<Rightarrow> bool \<Rightarrow> gpu_cache \<Rightarrow> int option \<times> gpu_cache" where
  "reserve_prefetch c k gpu dup gs =
     (case slot_allocate (prefetch_slots gs) of
        (None, sa) \<Rightarrow> (None, gs)
      | (Some slot, sa) \<Rightarrow>
          (let addr = slot_address sa slot in
           (Some addr,
            emplace_entry (make_entry c k gpu KStreaming dup False addr slot (- 1)) (gs\<lparr>prefetch_slots := sa\<rparr>))))"

definition reserve_streaming ::
    "expert_cache \<Rightarrow> expert_key \<Rightarrow> int \<Rightarrow> bool \<Rightarrow> gpu_cache \<Rightarrow> int option \<times> gpu_cache" where
  "reserve_streaming c k gpu dup gs =
     (if cmode gs = KSpillActive then reserve_prefetch c k gpu dup gs
      else case slot_allocate (spill_slots gs) of
             (Some slot, sa) \<Rightarrow>
               (let addr = slot_address sa slot in
                (Some addr,
                 emplace_entry (make_entry c k gpu KStreaming dup True addr slot (- 1)) (gs\<lparr>spill_slots := sa\<rparr>)))
           | (None, sa) \<Rightarrow> reserve_prefetch c k gpu dup gs)"

definition reserve ::
    "expert_key \<Rightarrow> int \<Rightarrow> cache_zone \<Rightarrow> bool \<Rightarrow> expert_cache \<Rightarrow> (int option \<times> expert_cache) res" where
  "reserve k gpu z dup c =
     rbind (gpu_state c gpu)
       (\<lambda>gs. if find_resident k gs \<noteq> None then Inr (None, c)
             else
               let (r, gs') = (if z = KStable then reserve_stable c k gpu dup gs
                               else reserve_streaming c k gpu dup gs);
                   c' = put_state gpu gs' c
               in Inr (r, if r \<noteq> None \<and> z = KStable then notify (ResidentAdded k gpu) c' else c'))"

section \<open>Readiness and locks\<close>

definition mark_ready :: "expert_key \<Rightarrow> int \<Rightarrow> u8 \<Rightarrow> expert_cache \<Rightarrow> expert_cache res" where
  "mark_ready k gpu part c =
     rbind (gpu_state c gpu)
       (\<lambda>gs. assert_then (find_resident k gs \<noteq> None)
         (Inr (put_state gpu
           (upd_resident k (\<lambda>e. e\<lparr>sub_components_ready := sub_components_ready e OR part\<rparr>) gs) c)))"

definition mark_all_ready :: "expert_key \<Rightarrow> int \<Rightarrow> expert_cache \<Rightarrow> expert_cache res" where
  "mark_all_ready k gpu c =
     rbind (gpu_state c gpu)
       (\<lambda>gs. assert_then (find_resident k gs \<noteq> None)
         (Inr (put_state gpu (upd_resident k (\<lambda>e. e\<lparr>sub_components_ready := kAll\<rparr>) gs) c)))"

definition lock :: "expert_key \<Rightarrow> int \<Rightarrow> expert_cache \<Rightarrow> (bool \<times> expert_cache) res" where
  "lock k gpu c =
     rbind (gpu_state c gpu)
       (\<lambda>gs. case find_resident k gs of
          None \<Rightarrow> Inr (False, c)
        | Some e \<Rightarrow>
            Inr (True, put_state gpu (upd_resident k (\<lambda>e. e\<lparr>lock_count := lock_count e + 1\<rparr>) gs) c))"

definition unlock :: "expert_key \<Rightarrow> int \<Rightarrow> expert_cache \<Rightarrow> (bool \<times> expert_cache) res" where
  "unlock k gpu c =
     rbind (gpu_state c gpu)
       (\<lambda>gs. case find_resident k gs of
          None \<Rightarrow> Inr (False, c)
        | Some e \<Rightarrow>
            if lock_count e = 0 then Inr (False, c)
            else Inr (True, put_state gpu (upd_resident k (\<lambda>e. e\<lparr>lock_count := lock_count e - 1\<rparr>) gs) c))"

definition is_locked :: "expert_key \<Rightarrow> int \<Rightarrow> expert_cache \<Rightarrow> bool" where
  "is_locked k gpu c =
     (if valid_cache_gpu c gpu then
        (case find_resident k (ec_gpus c ! nat gpu) of None \<Rightarrow> False | Some e \<Rightarrow> 0 < lock_count e)
      else False)"

section \<open>Evict\<close>

definition find_elastic_zone :: "int \<Rightarrow> gpu_cache \<Rightarrow> elastic_zone_t option" where
  "find_elastic_zone zid gs = find (\<lambda>z. z_id z = zid) (elastic_zones gs)"

text \<open>Writing through the pointer that \<^verbatim>\<open>find_elastic_zone\<close> returns: the first zone with the id.\<close>

fun upd_first_zone :: "int \<Rightarrow> (elastic_zone_t \<Rightarrow> elastic_zone_t) \<Rightarrow> elastic_zone_t list \<Rightarrow> elastic_zone_t list" where
  "upd_first_zone zid f [] = []"
| "upd_first_zone zid f (z # zs) = (if z_id z = zid then f z # zs else z # upd_first_zone zid f zs)"

definition return_slot :: "cache_entry \<Rightarrow> gpu_cache \<Rightarrow> gpu_cache res" where
  "return_slot e gs =
     (if 0 \<le> elastic_zone e then
        assert_then (find_elastic_zone (elastic_zone e) gs \<noteq> None)
          (Inr (gs\<lparr>elastic_zones := upd_first_zone (elastic_zone e)
                     (\<lambda>z. z\<lparr>z_slots := slot_free (slot_idx e) (z_slots z),
                             z_resident_entries := z_resident_entries z - 1\<rparr>) (elastic_zones gs)\<rparr>))
      else if ce_zone e = KStable then Inr (gs\<lparr>stable_slots := slot_free (slot_idx e) (stable_slots gs)\<rparr>)
      else if in_spill_zone e then
        Inr (if cmode gs \<noteq> KSpillActive then gs\<lparr>spill_slots := slot_free (slot_idx e) (spill_slots gs)\<rparr> else gs)
      else Inr (gs\<lparr>prefetch_slots := slot_free (slot_idx e) (prefetch_slots gs)\<rparr>))"

definition drop_duplicate :: "cache_entry \<Rightarrow> gpu_cache \<Rightarrow> gpu_cache" where
  "drop_duplicate e gs = gs\<lparr>duplicate_count := duplicate_count gs - (if ce_duplicate e then 1 else 0)\<rparr>"

definition evict :: "expert_key \<Rightarrow> int \<Rightarrow> expert_cache \<Rightarrow> (bool \<times> expert_cache) res" where
  "evict k gpu c =
     rbind (gpu_state c gpu)
       (\<lambda>gs. case find_resident k gs of
          None \<Rightarrow> Inr (False, c)
        | Some e \<Rightarrow>
            if 0 < lock_count e then Inr (False, c)
            else rbind (return_slot e gs)
              (\<lambda>gs1.
                let c' = put_state gpu (erase_resident k (drop_duplicate e gs1)) c in
                Inr (True, if ce_zone e = KStable then notify (ResidentRemoved k gpu) c' else c')))"

section \<open>Queries\<close>

definition is_resident :: "expert_key \<Rightarrow> int \<Rightarrow> expert_cache \<Rightarrow> bool" where
  "is_resident k gpu c = (valid_cache_gpu c gpu \<and> find_resident k (ec_gpus c ! nat gpu) \<noteq> None)"

definition is_resident_any :: "expert_key \<Rightarrow> expert_cache \<Rightarrow> bool" where
  "is_resident_any k c = list_ex (\<lambda>gs. find_resident k gs \<noteq> None) (ec_gpus c)"

definition lookup :: "expert_key \<Rightarrow> int \<Rightarrow> expert_cache \<Rightarrow> cache_entry option" where
  "lookup k gpu c = (if valid_cache_gpu c gpu then find_resident k (ec_gpus c ! nat gpu) else None)"

definition resident_gpus :: "expert_key \<Rightarrow> expert_cache \<Rightarrow> nat list" where
  "resident_gpus k c = filter (\<lambda>i. find_resident k (ec_gpus c ! i) \<noteq> None) [0..<length (ec_gpus c)]"

definition info_of :: "cache_entry \<Rightarrow> residency_info" where
  "info_of e = \<lparr>ri_key = ce_key e, ri_gpu = ce_gpu e, ri_zone = ce_zone e, ri_duplicate = ce_duplicate e,
                ri_ready = sub_components_ready e, ri_address = vram_address e\<rparr>"

definition residency_snapshot :: "expert_cache \<Rightarrow> residency_info list" where
  "residency_snapshot c = concat (map (\<lambda>gs. map (\<lambda>(k, e). info_of e) (residents gs)) (ec_gpus c))"

definition residency_snapshot_gpu :: "int \<Rightarrow> expert_cache \<Rightarrow> residency_info list res" where
  "residency_snapshot_gpu gpu c =
     rbind (gpu_state c gpu) (\<lambda>gs. Inr (map (\<lambda>(k, e). info_of e) (residents gs)))"

definition eviction_input :: "int \<Rightarrow> cache_entry \<Rightarrow> expert_eviction_input" where
  "eviction_input gpu e =
     \<lparr>ei_key = ce_key e, ei_zone = ce_zone e, ei_duplicate = ce_duplicate e, ei_gpu = gpu\<rparr>"

definition eviction_inputs :: "int \<Rightarrow> expert_cache \<Rightarrow> expert_eviction_input list res" where
  "eviction_inputs gpu c =
     rbind (gpu_state c gpu) (\<lambda>gs. Inr (map (\<lambda>(k, e). eviction_input gpu e) (residents gs)))"

definition eviction_inputs_zone :: "int \<Rightarrow> cache_zone \<Rightarrow> expert_cache \<Rightarrow> expert_eviction_input list res" where
  "eviction_inputs_zone gpu z c =
     rbind (gpu_state c gpu)
       (\<lambda>gs. Inr (map (\<lambda>(k, e). eviction_input gpu e) (filter (\<lambda>(k, e). ce_zone e = z) (residents gs))))"

text \<open>The comparison of the duplicate fraction with its limit is a parameter (a quotient of doubles).\<close>

definition can_duplicate :: "(int \<Rightarrow> nat \<Rightarrow> bool) \<Rightarrow> nat \<Rightarrow> expert_cache \<Rightarrow> bool" where
  "can_duplicate below_limit gpu c =
     (if \<not> duplication_enabled c then False
      else
        let gs = ec_gpus c ! gpu;
            total = sa_total (stable_slots gs) + sa_total (spill_slots gs) + sa_total (prefetch_slots gs)
        in if total = 0 then False else below_limit (duplicate_count gs) total)"

definition free_slots :: "int \<Rightarrow> cache_zone \<Rightarrow> expert_cache \<Rightarrow> nat res" where
  "free_slots gpu z c =
     rbind (gpu_state c gpu)
       (\<lambda>gs. Inr
         (if z = KStable then
            length (sa_free (stable_slots gs))
            + sum_list (map (\<lambda>z. length (sa_free (z_slots z))) (filter (\<lambda>z. z_state z = ZActive) (elastic_zones gs)))
          else if cmode gs = KSpillActive then length (sa_free (prefetch_slots gs))
          else length (sa_free (spill_slots gs)) + length (sa_free (prefetch_slots gs))))"

definition total_slots :: "int \<Rightarrow> cache_zone \<Rightarrow> expert_cache \<Rightarrow> nat res" where
  "total_slots gpu z c =
     rbind (gpu_state c gpu)
       (\<lambda>gs. Inr
         (if z = KStable then
            sa_total (stable_slots gs)
            + sum_list (map (\<lambda>z. sa_total (z_slots z)) (filter (\<lambda>z. z_state z = ZActive) (elastic_zones gs)))
          else sa_total (spill_slots gs) + sa_total (prefetch_slots gs)))"

definition used_slots :: "int \<Rightarrow> cache_zone \<Rightarrow> expert_cache \<Rightarrow> int res" where
  "used_slots gpu z c =
     rbind (total_slots gpu z c) (\<lambda>t. rbind (free_slots gpu z c) (\<lambda>f. Inr (int t - int f)))"

definition total_resident :: "expert_cache \<Rightarrow> nat" where
  "total_resident c = sum_list (map (\<lambda>gs. length (residents gs)) (ec_gpus c))"

section \<open>Zone tags\<close>

definition cache_promote :: "expert_key \<Rightarrow> int \<Rightarrow> expert_cache \<Rightarrow> (bool \<times> expert_cache) res" where
  "cache_promote k gpu c =
     rbind (gpu_state c gpu)
       (\<lambda>gs. case find_resident k gs of
          None \<Rightarrow> Inr (False, c)
        | Some e \<Rightarrow>
            if ce_zone e \<noteq> KStreaming then Inr (False, c)
            else Inr (True, notify (ResidentAdded k gpu)
                       (put_state gpu (upd_resident k (\<lambda>e. e\<lparr>ce_zone := KStable\<rparr>) gs) c)))"

definition cache_demote :: "expert_key \<Rightarrow> int \<Rightarrow> expert_cache \<Rightarrow> (bool \<times> expert_cache) res" where
  "cache_demote k gpu c =
     rbind (gpu_state c gpu)
       (\<lambda>gs. case find_resident k gs of
          None \<Rightarrow> Inr (False, c)
        | Some e \<Rightarrow>
            if ce_zone e \<noteq> KStable then Inr (False, c)
            else Inr (True, notify (ResidentRemoved k gpu)
                       (put_state gpu (upd_resident k (\<lambda>e. e\<lparr>ce_zone := KStreaming\<rparr>) gs) c)))"

section \<open>Elastic zones\<close>

definition kExpertZoneSlotAlign :: int where
  "kExpertZoneSlotAlign = 4096"

definition zone_pad :: "int \<Rightarrow> int" where
  "zone_pad b =
     (let misalign = b mod kExpertZoneSlotAlign in if misalign = 0 then 0 else kExpertZoneSlotAlign - misalign)"

definition add_elastic_zone ::
    "int \<Rightarrow> int \<Rightarrow> int \<Rightarrow> int \<Rightarrow> int \<Rightarrow> int \<Rightarrow> expert_cache \<Rightarrow> (int \<times> expert_cache) res" where
  "add_elastic_zone gpu b bytes stride num_slots cookie c =
     rbind (gpu_state c gpu)
       (\<lambda>gs.
         assert_then (b \<noteq> 0 \<and> 0 < stride \<and> 0 < num_slots)
          (assert_then (zone_pad b + (num_slots - 1) * stride + expert_bytes c \<le> bytes)
            (let zid = next_elastic_id gs;
                 z = \<lparr>z_id = zid, z_base = b, z_bytes = bytes, z_slot_stride = stride, z_state = ZActive,
                      z_slots = slot_init_with_count (b + zone_pad b) stride num_slots,
                      z_resident_entries = 0, z_cookie = cookie\<rparr>;
                 gs' = gs\<lparr>next_elastic_id := zid + 1, elastic_zones := elastic_zones gs @ [z]\<rparr>
             in Inr (zid, (put_state gpu gs' c)\<lparr>elastic_generation := elastic_generation c + 1\<rparr>))))"

definition begin_drain_elastic_zone :: "int \<Rightarrow> int \<Rightarrow> expert_cache \<Rightarrow> (bool \<times> expert_cache) res" where
  "begin_drain_elastic_zone gpu zid c =
     rbind (gpu_state c gpu)
       (\<lambda>gs. if find_elastic_zone zid gs = None then Inr (False, c)
             else
               let gs' = gs\<lparr>elastic_zones := upd_first_zone zid (\<lambda>z. z\<lparr>z_state := ZDraining\<rparr>) (elastic_zones gs)\<rparr>
               in Inr (True, (put_state gpu gs' c)\<lparr>elastic_generation := elastic_generation c + 1\<rparr>))"

definition elastic_drain_status :: "int \<Rightarrow> int \<Rightarrow> expert_cache \<Rightarrow> (int \<times> bool) res" where
  "elastic_drain_status gpu zid c =
     rbind (gpu_state c gpu)
       (\<lambda>gs. case find_elastic_zone zid gs of
          None \<Rightarrow> Inr (0, False)
        | Some z \<Rightarrow> Inr (z_resident_entries z, z_resident_entries z = 0))"

definition elastic_zone_residents :: "int \<Rightarrow> int \<Rightarrow> expert_cache \<Rightarrow> expert_key list res" where
  "elastic_zone_residents gpu zid c =
     rbind (gpu_state c gpu)
       (\<lambda>gs. if find_elastic_zone zid gs = None then Inr []
             else Inr (sort (map fst (filter (\<lambda>(k, e). elastic_zone e = zid) (residents gs)))))"

fun remove_first_zone :: "int \<Rightarrow> elastic_zone_t list \<Rightarrow> elastic_zone_t list" where
  "remove_first_zone zid [] = []"
| "remove_first_zone zid (z # zs) = (if z_id z = zid then zs else z # remove_first_zone zid zs)"

definition remove_elastic_zone :: "int \<Rightarrow> int \<Rightarrow> expert_cache \<Rightarrow> (bool \<times> expert_cache) res" where
  "remove_elastic_zone gpu zid c =
     rbind (gpu_state c gpu)
       (\<lambda>gs. case find_elastic_zone zid gs of
          None \<Rightarrow> Inr (False, c)
        | Some z \<Rightarrow>
            if z_resident_entries z \<noteq> 0 then Inr (False, c)
            else
              let gs' = gs\<lparr>elastic_zones := remove_first_zone zid (elastic_zones gs)\<rparr>
              in Inr (True, (put_state gpu gs' c)\<lparr>elastic_generation := elastic_generation c + 1\<rparr>))"

definition elastic_zone_count :: "int \<Rightarrow> expert_cache \<Rightarrow> nat res" where
  "elastic_zone_count gpu c = rbind (gpu_state c gpu) (\<lambda>gs. Inr (length (elastic_zones gs)))"

definition elastic_zone_cookie :: "int \<Rightarrow> int \<Rightarrow> expert_cache \<Rightarrow> int res" where
  "elastic_zone_cookie gpu zid c =
     rbind (gpu_state c gpu)
       (\<lambda>gs. Inr (case find_elastic_zone zid gs of None \<Rightarrow> 0 | Some z \<Rightarrow> z_cookie z))"

section \<open>Prefill spill mode\<close>

definition spill_evictable :: "cache_entry \<Rightarrow> bool" where
  "spill_evictable e \<longleftrightarrow> ce_zone e = KStreaming \<and> in_spill_zone e \<and> lock_count e = 0"

definition enter_spill_mode :: "int \<Rightarrow> expert_cache \<Rightarrow> (scratch_region \<times> expert_cache) res" where
  "enter_spill_mode gpu c =
     rbind (gpu_state c gpu)
       (\<lambda>gs.
         assert_then (cmode gs = KNormal)
          (assert_then (list_all (\<lambda>(k, e). \<not> (in_spill_zone e \<and> 0 \<le> elastic_zone e)) (residents gs))
            (let gone = filter (\<lambda>(k, e). spill_evictable e) (residents gs);
                 gs' = gs\<lparr>residents := filter (\<lambda>(k, e). \<not> spill_evictable e) (residents gs),
                         duplicate_count := duplicate_count gs - int (length (filter (\<lambda>(k, e). ce_duplicate e) gone)),
                         spill_slots := (spill_slots gs)\<lparr>sa_free := []\<rparr>, cmode := KSpillActive\<rparr>
             in Inr (scratch gs, put_state gpu gs' c))))"

definition exit_spill_mode :: "int \<Rightarrow> expert_cache \<Rightarrow> expert_cache res" where
  "exit_spill_mode gpu c =
     rbind (gpu_state c gpu)
       (\<lambda>gs.
         assert_then (cmode gs = KSpillActive)
          (let sa = spill_slots gs in
           Inr (put_state gpu
             (gs\<lparr>spill_slots := sa\<lparr>sa_free := rev [0..<sa_total sa]\<rparr>, cmode := KNormal\<rparr>) c)))"

definition invalidate_affinity_hints :: "expert_cache \<Rightarrow> expert_cache" where
  "invalidate_affinity_hints c = c\<lparr>hints_valid := False\<rparr>"

end
