(* ===== verification/Expert_Cache_Inv.thy ===== *)
theory Expert_Cache_Inv
  imports Expert_Cache "HOL-Library.Multiset"
begin

text \<open>
  The invariant of the expert cache on one GPU: every slot of every allocator is either free or held by
  exactly one resident expert, every resident's address is the address of its slot, and the counters
  (duplicates, residents per elastic zone) are exact. Each operation keeps it, and the reserve, evict and
  elastic-zone operations change the abstract view as specified.
\<close>

section \<open>Where an entry lives\<close>

datatype placement = PStable | PSpill | PPrefetch | PZone int

definition place :: "cache_entry \<Rightarrow> placement" where
  "place e =
     (if 0 \<le> elastic_zone e then PZone (elastic_zone e)
      else if ce_zone e = KStable then PStable
      else if in_spill_zone e then PSpill else PPrefetch)"

fun alloc_at :: "gpu_cache \<Rightarrow> placement \<Rightarrow> slot_alloc option" where
  "alloc_at gs PStable = Some (stable_slots gs)"
| "alloc_at gs PSpill = Some (spill_slots gs)"
| "alloc_at gs PPrefetch = Some (prefetch_slots gs)"
| "alloc_at gs (PZone i) = map_option z_slots (find_elastic_zone i gs)"

definition placed :: "gpu_cache \<Rightarrow> placement \<Rightarrow> (expert_key \<times> cache_entry) list" where
  "placed gs pl = filter (\<lambda>(k, e). place e = pl) (residents gs)"

definition slots_at :: "gpu_cache \<Rightarrow> placement \<Rightarrow> nat list" where
  "slots_at gs pl = map (\<lambda>(k, e). slot_idx e) (placed gs pl)"

definition slot_inv :: "gpu_cache \<Rightarrow> placement \<Rightarrow> slot_alloc \<Rightarrow> bool" where
  "slot_inv gs pl sa \<longleftrightarrow>
     (if pl = PSpill \<and> cmode gs = KSpillActive
      then sa_free sa = [] \<and> mset (slots_at gs pl) \<subseteq># mset [0..<sa_total sa]
      else mset (sa_free sa) + mset (slots_at gs pl) = mset [0..<sa_total sa])"

definition keys_ok :: "gpu_cache \<Rightarrow> bool" where
  "keys_ok gs \<longleftrightarrow>
     distinct (map fst (residents gs))
     \<and> (\<forall>(k, e) \<in> set (residents gs). ce_key e = k
          \<and> (in_spill_zone e \<longrightarrow> ce_zone e = KStreaming \<and> elastic_zone e < 0))"

definition placed_ok :: "gpu_cache \<Rightarrow> bool" where
  "placed_ok gs \<longleftrightarrow>
     (\<forall>(k, e) \<in> set (residents gs).
        \<exists>sa. alloc_at gs (place e) = Some sa \<and> vram_address e = slot_address sa (slot_idx e))"

definition allocs_ok :: "gpu_cache \<Rightarrow> bool" where
  "allocs_ok gs \<longleftrightarrow> (\<forall>pl sa. alloc_at gs pl = Some sa \<longrightarrow> slot_inv gs pl sa)"

definition zones_ok :: "gpu_cache \<Rightarrow> bool" where
  "zones_ok gs \<longleftrightarrow>
     distinct (map z_id (elastic_zones gs)) \<and> 0 \<le> next_elastic_id gs
     \<and> (\<forall>z \<in> set (elastic_zones gs). 0 \<le> z_id z \<and> z_id z < next_elastic_id gs
          \<and> z_resident_entries z = int (length (slots_at gs (PZone (z_id z)))))"

definition dups_ok :: "gpu_cache \<Rightarrow> bool" where
  "dups_ok gs \<longleftrightarrow> duplicate_count gs = int (length (filter (\<lambda>(k, e). ce_duplicate e) (residents gs)))"

definition cache_ok :: "gpu_cache \<Rightarrow> bool" where
  "cache_ok gs \<longleftrightarrow> keys_ok gs \<and> placed_ok gs \<and> allocs_ok gs \<and> zones_ok gs \<and> dups_ok gs"

lemmas cache_ok_parts = cache_ok_def keys_ok_def placed_ok_def allocs_ok_def zones_ok_def dups_ok_def

section \<open>Slots\<close>

lemma slot_allocate_Some:
  assumes "slot_allocate sa = (Some i, sa')"
  shows "mset (sa_free sa) = add_mset i (mset (sa_free sa'))" "sa_base sa' = sa_base sa"
    "sa_slot_bytes sa' = sa_slot_bytes sa" "sa_total sa' = sa_total sa" "slot_address sa' = slot_address sa"
proof -
  have ne: "sa_free sa \<noteq> []" and i: "i = last (sa_free sa)" and sa': "sa' = sa\<lparr>sa_free := butlast (sa_free sa)\<rparr>"
    using assms by (auto simp: slot_allocate_def split: if_splits)
  have "mset (sa_free sa) = mset (butlast (sa_free sa) @ [last (sa_free sa)])" using ne by simp
  also have "\<dots> = add_mset i (mset (sa_free sa'))" by (simp add: i sa')
  finally show "mset (sa_free sa) = add_mset i (mset (sa_free sa'))" .
qed (use assms in \<open>auto simp: slot_allocate_def slot_address_def fun_eq_iff split: if_splits\<close>)

lemma slot_allocate_None [simp]: "slot_allocate sa = (None, sa') \<longleftrightarrow> sa_free sa = [] \<and> sa' = sa"
  by (auto simp: slot_allocate_def)

lemma slot_free_simps [simp]:
  "mset (sa_free (slot_free i sa)) = add_mset i (mset (sa_free sa))" "sa_total (slot_free i sa) = sa_total sa"
  "slot_address (slot_free i sa) = slot_address sa"
  by (simp_all add: slot_free_def slot_address_def fun_eq_iff)

lemma slots_at_cong: "residents gs' = residents gs \<Longrightarrow> slots_at gs' = slots_at gs"
  by (simp add: slots_at_def placed_def fun_eq_iff)

lemma find_resident_None: "find_resident k gs = None \<longleftrightarrow> k \<notin> fst ` set (residents gs)"
  by (simp add: find_resident_def map_of_eq_None_iff)

lemma find_resident_Some:
  "keys_ok gs \<Longrightarrow> find_resident k gs = Some e \<longleftrightarrow> (k, e) \<in> set (residents gs)"
  by (simp add: find_resident_def keys_ok_def)

section \<open>Adding an entry\<close>

text \<open>
  \<open>took e sa sa' gs gs1\<close>: the slot of \<open>e\<close> was taken from the allocator \<open>sa\<close> of its placement, and nothing
  else of the GPU changed but the resident counter of its zone.
\<close>

definition took :: "cache_entry \<Rightarrow> slot_alloc \<Rightarrow> slot_alloc \<Rightarrow> gpu_cache \<Rightarrow> gpu_cache \<Rightarrow> bool" where
  "took e sa sa' gs gs1 \<longleftrightarrow>
     alloc_at gs (place e) = Some sa \<and> slot_allocate sa = (Some (slot_idx e), sa')
     \<and> alloc_at gs1 = (alloc_at gs)(place e := Some sa')
     \<and> residents gs1 = residents gs \<and> cmode gs1 = cmode gs \<and> duplicate_count gs1 = duplicate_count gs
     \<and> next_elastic_id gs1 = next_elastic_id gs \<and> map z_id (elastic_zones gs1) = map z_id (elastic_zones gs)
     \<and> (\<forall>z \<in> set (elastic_zones gs1). z_resident_entries z =
          int (length (slots_at gs (PZone (z_id z)))) + (if PZone (z_id z) = place e then 1 else 0))"

lemma emplace_fields [simp]:
  "residents (emplace_entry e gs) = residents gs @ [(ce_key e, e)]" "cmode (emplace_entry e gs) = cmode gs"
  "elastic_zones (emplace_entry e gs) = elastic_zones gs"
  "next_elastic_id (emplace_entry e gs) = next_elastic_id gs"
  "duplicate_count (emplace_entry e gs) = duplicate_count gs + (if ce_duplicate e then 1 else 0)"
  by (simp_all add: emplace_entry_def)

lemma emplace_alloc_at [simp]: "alloc_at (emplace_entry e gs) = alloc_at gs"
proof
  fix pl show "alloc_at (emplace_entry e gs) pl = alloc_at gs pl"
    by (cases pl) (simp_all add: emplace_entry_def find_elastic_zone_def)
qed

lemma emplace_slots_at:
  "residents gs1 = residents gs \<Longrightarrow>
   slots_at (emplace_entry e gs1) pl = slots_at gs pl @ (if place e = pl then [slot_idx e] else [])"
  by (simp add: slots_at_def placed_def)

lemma emplace_ok:
  assumes ok: "cache_ok gs" and new: "find_resident (ce_key e) gs = None"
    and t: "took e sa sa' gs gs1"
    and addr: "vram_address e = slot_address sa (slot_idx e)"
    and frozen: "\<not> (place e = PSpill \<and> cmode gs = KSpillActive)"
    and spill: "in_spill_zone e \<Longrightarrow> ce_zone e = KStreaming \<and> elastic_zone e < 0"
  shows "cache_ok (emplace_entry e gs1)"
proof -
  let ?gs = "emplace_entry e gs1"
  have T: "alloc_at gs (place e) = Some sa" "slot_allocate sa = (Some (slot_idx e), sa')"
    "alloc_at gs1 = (alloc_at gs)(place e := Some sa')" "residents gs1 = residents gs" "cmode gs1 = cmode gs"
    "duplicate_count gs1 = duplicate_count gs" "next_elastic_id gs1 = next_elastic_id gs"
    "map z_id (elastic_zones gs1) = map z_id (elastic_zones gs)"
    "\<And>z. z \<in> set (elastic_zones gs1) \<Longrightarrow> z_resident_entries z =
          int (length (slots_at gs (PZone (z_id z)))) + (if PZone (z_id z) = place e then 1 else 0)"
    using t by (simp_all add: took_def)
  note S = slot_allocate_Some [OF T(2)]
  have K: "keys_ok gs" "placed_ok gs" "allocs_ok gs" "zones_ok gs" "dups_ok gs" using ok by (simp_all add: cache_ok_def)
  have "keys_ok ?gs" using K(1) new spill T(4) by (auto simp: keys_ok_def find_resident_None)
  moreover have "placed_ok ?gs"
    unfolding placed_ok_def
  proof (clarify)
    fix k e' assume "(k, e') \<in> set (residents ?gs)"
    then consider "(k, e') \<in> set (residents gs)" | "e' = e" using T(4) by auto
    then show "\<exists>sa. alloc_at ?gs (place e') = Some sa \<and> vram_address e' = slot_address sa (slot_idx e')"
    proof cases
      case 1
      then obtain sb where "alloc_at gs (place e') = Some sb" "vram_address e' = slot_address sb (slot_idx e')"
        using K(2) by (auto simp: placed_ok_def)
      then show ?thesis using T(1,3) S(5) by (cases "place e' = place e") auto
    next
      case 2
      then show ?thesis using T(3) addr S(5) by simp
    qed
  qed
  moreover have "allocs_ok ?gs"
    unfolding allocs_ok_def
  proof (intro allI impI)
    fix pl sb assume sb: "alloc_at ?gs pl = Some sb"
    show "slot_inv ?gs pl sb"
    proof (cases "pl = place e")
      case True
      then have "slot_inv gs pl sa" "sb = sa'" using K(3) T(1,3) sb by (simp_all add: allocs_ok_def)
      with True frozen S show ?thesis
        by (auto simp: slot_inv_def T(5) emplace_slots_at [OF T(4)])
    next
      case False
      then have "slot_inv gs pl sb" using K(3) T(3) sb by (simp add: allocs_ok_def)
      with False show ?thesis by (auto simp: slot_inv_def T(5) emplace_slots_at [OF T(4)])
    qed
  qed
  moreover have "zones_ok ?gs"
  proof -
    have "z_id ` set (elastic_zones gs1) = z_id ` set (elastic_zones gs)" by (metis T(8) list.set_map)
    then have "\<forall>z \<in> set (elastic_zones gs1). 0 \<le> z_id z \<and> z_id z < next_elastic_id gs"
      using K(4) by (smt (verit, best) image_iff zones_ok_def)
    then show ?thesis using K(4) T(7,8,9) by (auto simp: zones_ok_def emplace_slots_at [OF T(4)])
  qed
  moreover have "dups_ok ?gs" using K(5) T(4,6) by (simp add: dups_ok_def)
  ultimately show ?thesis by (simp add: cache_ok_def)
qed

section \<open>Elastic zones as a table\<close>

lemma find_upd_first_zone:
  assumes "\<And>z. z_id (f z) = z_id z"
  shows "find (\<lambda>z. z_id z = j) (upd_first_zone i f zs)
    = (if j = i then map_option f (find (\<lambda>z. z_id z = i) zs) else find (\<lambda>z. z_id z = j) zs)"
  using assms by (induction zs) auto

lemma upd_first_zone_ids:
  assumes "\<And>z. z_id (f z) = z_id z"
  shows "map z_id (upd_first_zone i f zs) = map z_id zs"
  using assms by (induction zs) auto

lemma upd_first_zone_mem:
  assumes "distinct (map z_id zs)" "z' \<in> set (upd_first_zone i f zs)"
  shows "(\<exists>z \<in> set zs. z_id z = i \<and> z' = f z) \<or> z' \<in> set zs \<and> z_id z' \<noteq> i"
  using assms by (induction zs) (auto split: if_splits simp: rev_image_eqI)

lemma upd_first_zone_cases:
  assumes "distinct (map z_id zs)" "z' \<in> set (upd_first_zone i f zs)"
  obtains z where "z \<in> set zs" "z_id z = i" "z' = f z" | "z' \<in> set zs" "z_id z' \<noteq> i"
  using upd_first_zone_mem [OF assms] by blast

lemma find_zone_iff:
  assumes "distinct (map z_id zs)"
  shows "find (\<lambda>z. z_id z = i) zs = Some z \<longleftrightarrow> z \<in> set zs \<and> z_id z = i"
  using assms by (induction zs) auto

lemma offer_zones_None: "offer_zones zs = (None, zs') \<Longrightarrow> z \<in> set zs \<Longrightarrow> z_state z = ZActive \<Longrightarrow> sa_free (z_slots z) = []"
  by (induction zs arbitrary: zs') (auto simp: Let_def split: prod.splits option.splits if_splits)

lemma offer_zones_Some:
  assumes "distinct (map z_id zs)" "offer_zones zs = (Some (i, slot, addr), zs')"
  shows "\<exists>z sa. find (\<lambda>z. z_id z = i) zs = Some z \<and> z_state z = ZActive
    \<and> slot_allocate (z_slots z) = (Some slot, sa) \<and> addr = slot_address sa slot
    \<and> zs' = upd_first_zone i (\<lambda>z. z\<lparr>z_slots := sa, z_resident_entries := z_resident_entries z + 1\<rparr>) zs"
  using assms
proof (induction zs arbitrary: zs')
  case (Cons z zs)
  show ?case
  proof (cases "z_state z = ZActive \<and> sa_free (z_slots z) \<noteq> []")
    case True
    then show ?thesis using Cons.prems by (auto simp: Let_def split: prod.splits option.splits if_splits)
  next
    case False
    then obtain zt where zt: "offer_zones zs = (Some (i, slot, addr), zt)" "zs' = z # zt"
      using Cons.prems(2) by (auto simp: Let_def slot_allocate_def split: prod.splits option.splits if_splits)
    with Cons.IH [OF _ zt(1)] Cons.prems(1) obtain z1 sa where
      *: "find (\<lambda>z. z_id z = i) zs = Some z1" "z_state z1 = ZActive"
        "slot_allocate (z_slots z1) = (Some slot, sa)" "addr = slot_address sa slot"
        "zt = upd_first_zone i (\<lambda>z. z\<lparr>z_slots := sa, z_resident_entries := z_resident_entries z + 1\<rparr>) zs"
      by auto
    have "z_id z \<noteq> i" using *(1) Cons.prems(1) by (auto simp: find_Some_iff)
    with * zt(2) show ?thesis by auto
  qed
qed simp

lemma placement_ext:
  "\<lbrakk>f PStable = g PStable; f PSpill = g PSpill; f PPrefetch = g PPrefetch; \<And>i. f (PZone i) = g (PZone i)\<rbrakk> \<Longrightarrow> f = g"
  by (rule ext) (metis placement.exhaust)

lemma set_zone_alloc_at:
  assumes "\<And>z. z_id (f z) = z_id z" "find_elastic_zone i gs = Some z"
  shows "alloc_at (gs\<lparr>elastic_zones := upd_first_zone i f (elastic_zones gs)\<rparr>)
    = (alloc_at gs)(PZone i := Some (z_slots (f z)))"
  by (rule placement_ext) (use assms in \<open>auto simp: find_elastic_zone_def find_upd_first_zone\<close>)

lemma set_boot_alloc_at:
  "alloc_at (gs\<lparr>stable_slots := sa\<rparr>) = (alloc_at gs)(PStable := Some sa)"
  "alloc_at (gs\<lparr>spill_slots := sa\<rparr>) = (alloc_at gs)(PSpill := Some sa)"
  "alloc_at (gs\<lparr>prefetch_slots := sa\<rparr>) = (alloc_at gs)(PPrefetch := Some sa)"
  by (rule placement_ext; simp add: find_elastic_zone_def)+

section \<open>Reserve\<close>

text \<open>What a successful reserve does: one new, unlocked, not yet ready entry.\<close>

definition reserved :: "expert_key \<Rightarrow> int \<Rightarrow> cache_zone \<Rightarrow> bool \<Rightarrow> int \<Rightarrow> cache_entry \<Rightarrow> bool" where
  "reserved k gpu z dup a e \<longleftrightarrow>
     ce_key e = k \<and> ce_gpu e = gpu \<and> ce_zone e = z \<and> ce_duplicate e = dup \<and> vram_address e = a
     \<and> sub_components_ready e = 0 \<and> lock_count e = 0"

lemma reserved_make_entry [simp]: "reserved k gpu z dup a (make_entry c k gpu z dup spill a slot ez)"
  by (simp add: reserved_def make_entry_def)

lemma place_make_entry [simp]:
  "place (make_entry c k gpu z dup spill a slot ez) =
     (if 0 \<le> ez then PZone ez else if z = KStable then PStable else if spill then PSpill else PPrefetch)"
  by (simp add: place_def make_entry_def)

lemma make_entry_fields [simp]:
  "ce_key (make_entry c k gpu z dup spill a slot ez) = k" "slot_idx (make_entry c k gpu z dup spill a slot ez) = slot"
  "vram_address (make_entry c k gpu z dup spill a slot ez) = a"
  "ce_zone (make_entry c k gpu z dup spill a slot ez) = z"
  "in_spill_zone (make_entry c k gpu z dup spill a slot ez) = spill"
  "elastic_zone (make_entry c k gpu z dup spill a slot ez) = ez"
  by (simp_all add: make_entry_def)

lemma zone_counts: "zones_ok gs \<Longrightarrow> z \<in> set (elastic_zones gs) \<Longrightarrow> z_resident_entries z = int (length (slots_at gs (PZone (z_id z))))"
  by (simp add: zones_ok_def)

lemma reserve_boot_ok:
  assumes ok: "cache_ok gs" "find_resident (ce_key e) gs = None"
    and sl: "slot_allocate sa = (Some (slot_idx e), sa')" "vram_address e = slot_address sa' (slot_idx e)"
    and at: "place e = PStable \<and> sa = stable_slots gs \<and> gs1 = gs\<lparr>stable_slots := sa'\<rparr>
      \<or> place e = PSpill \<and> sa = spill_slots gs \<and> gs1 = gs\<lparr>spill_slots := sa'\<rparr> \<and> cmode gs \<noteq> KSpillActive
      \<or> place e = PPrefetch \<and> sa = prefetch_slots gs \<and> gs1 = gs\<lparr>prefetch_slots := sa'\<rparr>"
    and spill: "in_spill_zone e \<Longrightarrow> ce_zone e = KStreaming \<and> elastic_zone e < 0"
  shows "cache_ok (emplace_entry e gs1)"
proof (rule emplace_ok [OF ok])
  have z: "zones_ok gs" using ok by (simp add: cache_ok_def)
  show "took e sa sa' gs gs1" using at sl(1) zone_counts [OF z] by (auto simp: took_def set_boot_alloc_at)
  show "vram_address e = slot_address sa (slot_idx e)" using sl(2) slot_allocate_Some(5) [OF sl(1)] by simp
  show "\<not> (place e = PSpill \<and> cmode gs = KSpillActive)" using at by auto
qed (use spill in auto)

lemma reserve_zone_ok:
  assumes ok: "cache_ok gs" "find_resident (ce_key e) gs = None"
    and off: "offer_zones (elastic_zones gs) = (Some (elastic_zone e, slot_idx e, vram_address e), zs)"
    and spill: "\<not> in_spill_zone e"
  shows "cache_ok (emplace_entry e (gs\<lparr>elastic_zones := zs\<rparr>))"
proof -
  have z: "zones_ok gs" using ok by (simp add: cache_ok_def)
  then have dist: "distinct (map z_id (elastic_zones gs))" by (simp add: zones_ok_def)
  let ?i = "elastic_zone e"
  obtain zn sa where zn: "find (\<lambda>z. z_id z = ?i) (elastic_zones gs) = Some zn"
    "slot_allocate (z_slots zn) = (Some (slot_idx e), sa)" "vram_address e = slot_address sa (slot_idx e)"
    and zs: "zs = upd_first_zone ?i (\<lambda>z. z\<lparr>z_slots := sa, z_resident_entries := z_resident_entries z + 1\<rparr>) (elastic_zones gs)"
    using offer_zones_Some [OF dist off] by auto
  have pl: "place e = PZone ?i" using zn(1) z dist by (auto simp: zones_ok_def find_zone_iff place_def)
  show ?thesis
  proof (rule emplace_ok [OF ok, where sa = "z_slots zn" and sa' = sa])
    show "vram_address e = slot_address (z_slots zn) (slot_idx e)"
      using zn(3) slot_allocate_Some(5) [OF zn(2)] by simp
    show "took e (z_slots zn) sa gs (gs\<lparr>elastic_zones := zs\<rparr>)"
      unfolding took_def
    proof (intro conjI ballI)
      show "alloc_at gs (place e) = Some (z_slots zn)" using zn(1) by (simp add: pl find_elastic_zone_def)
      show "alloc_at (gs\<lparr>elastic_zones := zs\<rparr>) = (alloc_at gs)(place e \<mapsto> sa)"
        unfolding zs pl using zn(1) by (subst set_zone_alloc_at) (auto simp: find_elastic_zone_def)
      fix z' assume "z' \<in> set (elastic_zones (gs\<lparr>elastic_zones := zs\<rparr>))"
      then have "z' \<in> set (upd_first_zone ?i (\<lambda>z. z\<lparr>z_slots := sa, z_resident_entries := z_resident_entries z + 1\<rparr>) (elastic_zones gs))"
        by (simp add: zs)
      then show "z_resident_entries z' = int (length (slots_at gs (PZone (z_id z')))) + (if PZone (z_id z') = place e then 1 else 0)"
        by (rule upd_first_zone_cases [OF dist]) (auto simp: pl zone_counts [OF z])
    qed (use zn(2) in \<open>simp_all add: zs upd_first_zone_ids\<close>)
  qed (use spill pl in auto)
qed

text \<open>The part of the GPU state that no reserve, evict or lock touches.\<close>

definition same_frame :: "gpu_cache \<Rightarrow> gpu_cache \<Rightarrow> bool" where
  "same_frame gs gs' \<longleftrightarrow>
     cmode gs' = cmode gs \<and> scratch gs' = scratch gs \<and> next_elastic_id gs' = next_elastic_id gs
     \<and> map z_id (elastic_zones gs') = map z_id (elastic_zones gs)
     \<and> map z_state (elastic_zones gs') = map z_state (elastic_zones gs)
     \<and> map z_base (elastic_zones gs') = map z_base (elastic_zones gs)
     \<and> map z_bytes (elastic_zones gs') = map z_bytes (elastic_zones gs)"

definition reserve_done ::
    "expert_key \<Rightarrow> int \<Rightarrow> cache_zone \<Rightarrow> bool \<Rightarrow> int \<Rightarrow> gpu_cache \<Rightarrow> gpu_cache \<Rightarrow> bool" where
  "reserve_done k gpu z dup a gs gs' \<longleftrightarrow>
     (\<exists>e. reserved k gpu z dup a e \<and> residents gs' = residents gs @ [(k, e)]) \<and> cache_ok gs'"

lemma reserve_prefetch_cases:
  assumes "reserve_prefetch c k gpu dup gs = (r, gs')" "cache_ok gs" "find_resident k gs = None"
  shows "r = None \<and> gs' = gs \<and> sa_free (prefetch_slots gs) = []
    \<or> (\<exists>a. r = Some a \<and> reserve_done k gpu KStreaming dup a gs gs')"
proof (cases "slot_allocate (prefetch_slots gs)")
  case (Pair o_slot sa)
  show ?thesis
  proof (cases o_slot)
    case None
    then show ?thesis using assms(1) Pair by (auto simp: reserve_prefetch_def)
  next
    case (Some slot)
    let ?e = "make_entry c k gpu KStreaming dup False (slot_address sa slot) slot (- 1)"
    have "cache_ok (emplace_entry ?e (gs\<lparr>prefetch_slots := sa\<rparr>))"
      using Pair Some assms by (intro reserve_boot_ok [where sa = "prefetch_slots gs" and sa' = sa]) auto
    then show ?thesis using assms(1) Pair Some
      by (auto simp: reserve_prefetch_def reserve_done_def Let_def intro: exI [of _ ?e])
  qed
qed

lemma reserve_streaming_cases:
  assumes "reserve_streaming c k gpu dup gs = (r, gs')" "cache_ok gs" "find_resident k gs = None"
  shows "r = None \<and> gs' = gs \<and> sa_free (prefetch_slots gs) = [] \<and> (cmode gs = KNormal \<longrightarrow> sa_free (spill_slots gs) = [])
    \<or> (\<exists>a. r = Some a \<and> reserve_done k gpu KStreaming dup a gs gs')"
proof (cases "cmode gs = KSpillActive \<or> sa_free (spill_slots gs) = []")
  case True
  then have "reserve_prefetch c k gpu dup gs = (r, gs')" using assms(1)
    by (auto simp: reserve_streaming_def slot_allocate_def split: if_splits)
  from reserve_prefetch_cases [OF this assms(2,3)] True show ?thesis by (auto simp: prefill_mode.exhaust)
next
  case False
  then obtain slot sa where sl: "slot_allocate (spill_slots gs) = (Some slot, sa)"
    by (auto simp: slot_allocate_def)
  let ?e = "make_entry c k gpu KStreaming dup True (slot_address sa slot) slot (- 1)"
  have "cache_ok (emplace_entry ?e (gs\<lparr>spill_slots := sa\<rparr>))"
    using sl False assms by (intro reserve_boot_ok [where sa = "spill_slots gs" and sa' = sa]) auto
  then show ?thesis using assms(1) sl False
    by (auto simp: reserve_streaming_def reserve_done_def Let_def intro: exI [of _ ?e])
qed

lemma reserve_stable_cases:
  assumes "reserve_stable c k gpu dup gs = (r, gs')" "cache_ok gs" "find_resident k gs = None"
  shows "r = None \<and> gs' = gs \<and> sa_free (stable_slots gs) = []
      \<and> (\<forall>z \<in> set (elastic_zones gs). z_state z = ZActive \<longrightarrow> sa_free (z_slots z) = [])
    \<or> (\<exists>a. r = Some a \<and> reserve_done k gpu KStable dup a gs gs')"
proof (cases "slot_allocate (stable_slots gs)")
  case (Pair o_slot sa)
  show ?thesis
  proof (cases o_slot)
    case (Some slot)
    let ?e = "make_entry c k gpu KStable dup False (slot_address sa slot) slot (- 1)"
    have "cache_ok (emplace_entry ?e (gs\<lparr>stable_slots := sa\<rparr>))"
      using Pair Some assms by (intro reserve_boot_ok [where sa = "stable_slots gs" and sa' = sa]) auto
    then show ?thesis using assms(1) Pair Some
      by (auto simp: reserve_stable_def reserve_done_def Let_def intro: exI [of _ ?e])
  next
    case None
    then have full: "slot_allocate (stable_slots gs) = (None, sa)" "sa_free (stable_slots gs) = []" using Pair by auto
    obtain ro zs where off: "offer_zones (elastic_zones gs) = (ro, zs)" by fastforce
    show ?thesis
    proof (cases ro)
      case None
      then show ?thesis using assms(1) full off offer_zones_None by (auto simp: reserve_stable_def)
    next
      case (Some t)
      then obtain zid slot a where t: "ro = Some (zid, slot, a)" by (cases t) auto
      let ?e = "make_entry c k gpu KStable dup False a slot zid"
      have "cache_ok (emplace_entry ?e (gs\<lparr>elastic_zones := zs\<rparr>))"
        using off t assms by (intro reserve_zone_ok) auto
      then show ?thesis using assms(1) full off t
        by (auto simp: reserve_stable_def reserve_done_def Let_def intro: exI [of _ ?e])
    qed
  qed
qed

section \<open>Removing an entry\<close>

lemma erase_mset:
  assumes "distinct (map fst xs)" "(k, e) \<in> set xs"
  shows "mset xs = add_mset (k, e) (mset (filter (\<lambda>(k', e). k' \<noteq> k) xs))"
  using assms
proof (induction xs)
  case (Cons x xs)
  show ?case
  proof (cases "x = (k, e)")
    case True
    then have "filter (\<lambda>(k', e). k' \<noteq> k) xs = xs" using True Cons.prems(1) by (force simp: filter_id_conv)
    with True show ?thesis by simp
  next
    case False
    with Cons.prems have "(k, e) \<in> set xs" "fst x \<notin> fst ` set xs" by auto
    then have "fst x \<noteq> k" by (metis fst_conv image_eqI)
    with False Cons show ?thesis by (auto split: prod.splits)
  qed
qed simp

lemma slots_at_mset: "mset (slots_at gs pl) = image_mset (\<lambda>(k, e). slot_idx e) (filter_mset (\<lambda>(k, e). place e = pl) (mset (residents gs)))"
  by (simp add: slots_at_def placed_def mset_filter)

lemma erase_slots:
  assumes "keys_ok gs" "(k, e) \<in> set (residents gs)" "residents gs' = filter (\<lambda>(k', e). k' \<noteq> k) (residents gs)"
  shows "mset (slots_at gs pl) = (if place e = pl then {#slot_idx e#} else {#}) + mset (slots_at gs' pl)"
proof -
  have R: "mset (residents gs) = add_mset (k, e) (mset (residents gs'))"
    unfolding assms(3) using assms(1,2) by (intro erase_mset) (simp_all add: keys_ok_def)
  show ?thesis unfolding slots_at_mset R by simp
qed

lemma erase_length:
  assumes "keys_ok gs" "(k, e) \<in> set (residents gs)" "residents gs' = filter (\<lambda>(k', e). k' \<noteq> k) (residents gs)"
  shows "length (slots_at gs pl) = (if place e = pl then 1 else 0) + length (slots_at gs' pl)"
  using arg_cong [OF erase_slots [OF assms, of pl], of size] by (simp split: if_splits)

definition given_back :: "cache_entry \<Rightarrow> slot_alloc \<Rightarrow> gpu_cache \<Rightarrow> gpu_cache \<Rightarrow> bool" where
  "given_back e sa gs gs1 \<longleftrightarrow>
     alloc_at gs1 = (alloc_at gs)(place e := Some
       (if place e = PSpill \<and> cmode gs = KSpillActive then sa else slot_free (slot_idx e) sa))
     \<and> residents gs1 = residents gs \<and> same_frame gs gs1 \<and> duplicate_count gs1 = duplicate_count gs
     \<and> (\<forall>z \<in> set (elastic_zones gs1). z_resident_entries z =
          int (length (slots_at gs (PZone (z_id z)))) - (if PZone (z_id z) = place e then 1 else 0))"

lemma upd_first_zone_map:
  assumes "\<And>z. g (f z) = g z" shows "map g (upd_first_zone i f zs) = map g zs"
  using assms by (induction zs) auto

lemma return_slot_gives_back:
  assumes z: "zones_ok gs" and sa: "alloc_at gs (place e) = Some sa"
  shows "\<exists>gs1. return_slot e gs = Inr gs1 \<and> given_back e sa gs gs1"
proof (cases "0 \<le> elastic_zone e")
  case True
  let ?f = "\<lambda>z. z\<lparr>z_slots := slot_free (slot_idx e) (z_slots z), z_resident_entries := z_resident_entries z - 1\<rparr>"
  let ?gs1 = "gs\<lparr>elastic_zones := upd_first_zone (elastic_zone e) ?f (elastic_zones gs)\<rparr>"
  have pl: "place e = PZone (elastic_zone e)" using True by (simp add: place_def)
  obtain zn where zn: "find_elastic_zone (elastic_zone e) gs = Some zn" "sa = z_slots zn" using sa pl by auto
  have dist: "distinct (map z_id (elastic_zones gs))" using z by (simp add: zones_ok_def)
  have "given_back e sa gs ?gs1"
    unfolding given_back_def
  proof (intro conjI ballI)
    show "alloc_at ?gs1 = (alloc_at gs)(place e \<mapsto> if place e = PSpill \<and> cmode gs = KSpillActive then sa else slot_free (slot_idx e) sa)"
      using zn by (subst set_zone_alloc_at) (auto simp: pl)
    fix z' assume "z' \<in> set (elastic_zones ?gs1)"
    then have "z' \<in> set (upd_first_zone (elastic_zone e) ?f (elastic_zones gs))" by simp
    then show "z_resident_entries z' = int (length (slots_at gs (PZone (z_id z')))) - (if PZone (z_id z') = place e then 1 else 0)"
      by (rule upd_first_zone_cases [OF dist]) (auto simp: pl zone_counts [OF z])
  qed (simp_all add: same_frame_def upd_first_zone_map)
  then show ?thesis using True zn by (auto simp: return_slot_def assert_then_def)
next
  case False
  then show ?thesis using sa zone_counts [OF z]
    by (auto simp: return_slot_def given_back_def same_frame_def place_def set_boot_alloc_at fun_eq_iff)
qed

lemma erase_ok:
  assumes ok: "cache_ok gs" and e: "(k, e) \<in> set (residents gs)"
    and sa: "alloc_at gs (place e) = Some sa" and g: "given_back e sa gs gs1"
  shows "cache_ok (erase_resident k (drop_duplicate e gs1))"
proof -
  let ?gs = "erase_resident k (drop_duplicate e gs1)"
  have K: "keys_ok gs" "placed_ok gs" "allocs_ok gs" "zones_ok gs" "dups_ok gs" using ok by (simp_all add: cache_ok_def)
  have G: "alloc_at gs1 = (alloc_at gs)(place e := Some
      (if place e = PSpill \<and> cmode gs = KSpillActive then sa else slot_free (slot_idx e) sa))"
    "residents gs1 = residents gs" "cmode gs1 = cmode gs" "duplicate_count gs1 = duplicate_count gs"
    "next_elastic_id gs1 = next_elastic_id gs" "map z_id (elastic_zones gs1) = map z_id (elastic_zones gs)"
    "\<And>z. z \<in> set (elastic_zones gs1) \<Longrightarrow> z_resident_entries z =
          int (length (slots_at gs (PZone (z_id z)))) - (if PZone (z_id z) = place e then 1 else 0)"
    using g by (simp_all add: given_back_def same_frame_def)
  have R: "residents ?gs = filter (\<lambda>(k', e). k' \<noteq> k) (residents gs)" "cmode ?gs = cmode gs"
    "elastic_zones ?gs = elastic_zones gs1" "next_elastic_id ?gs = next_elastic_id gs"
    "duplicate_count ?gs = duplicate_count gs - (if ce_duplicate e then 1 else 0)"
    using G by (simp_all add: erase_resident_def drop_duplicate_def)
  have A: "alloc_at ?gs = alloc_at gs1"
    by (rule placement_ext) (simp_all add: erase_resident_def drop_duplicate_def find_elastic_zone_def)
  note S = erase_slots [OF K(1) e R(1)]
  have "keys_ok ?gs" using K(1) by (auto simp: keys_ok_def R(1) distinct_map_filter)
  moreover have "placed_ok ?gs"
    using K(2) sa by (fastforce simp: placed_ok_def R(1) A G(1))
  moreover have "slot_inv ?gs pl sb" if "alloc_at ?gs pl = Some sb" for pl sb
  proof (cases "pl = place e")
    case True
    then have "slot_inv gs pl sa" using K(3) sa by (simp add: allocs_ok_def)
    with True that S [of pl] show ?thesis by (auto simp: slot_inv_def R(2) A G(1) subset_mset.le_add_same_cancel2 dest: mset_subset_eq_insertD split: if_splits)
  next
    case False
    then have "slot_inv gs pl sb" using K(3) that by (simp add: allocs_ok_def A G(1))
    with False S [of pl] show ?thesis by (auto simp: slot_inv_def R(2))
  qed
  then have "allocs_ok ?gs" by (simp add: allocs_ok_def)
  moreover have "zones_ok ?gs"
  proof -
    have "z_id ` set (elastic_zones gs1) = z_id ` set (elastic_zones gs)" by (metis G(6) list.set_map)
    then have "\<forall>z \<in> set (elastic_zones gs1). 0 \<le> z_id z \<and> z_id z < next_elastic_id gs"
      using K(4) by (smt (verit, best) image_iff zones_ok_def)
    then show ?thesis using K(4) G(6,7) erase_length [OF K(1) e R(1)] by (auto simp: zones_ok_def R(3,4))
  qed
  moreover have "dups_ok ?gs"
    using K(5) arg_cong [OF erase_mset [of "residents gs" k e], of "\<lambda>m. size (filter_mset (\<lambda>(k, e). ce_duplicate e) m)"] K(1) e
    by (auto simp: dups_ok_def R(1,5) keys_ok_def size_mset mset_filter [symmetric] simp del: mset_filter split: if_splits)
  ultimately show ?thesis by (simp add: cache_ok_def)
qed

section \<open>Updating an entry in place\<close>

lemma slot_inv_cong: "\<lbrakk>slots_at gs' pl = slots_at gs pl; cmode gs' = cmode gs\<rbrakk> \<Longrightarrow> slot_inv gs' pl = slot_inv gs pl"
  unfolding slot_inv_def by (intro ext) metis


definition keeps_slot :: "(cache_entry \<Rightarrow> cache_entry) \<Rightarrow> cache_entry \<Rightarrow> bool" where
  "keeps_slot f e \<longleftrightarrow>
     place (f e) = place e \<and> slot_idx (f e) = slot_idx e \<and> vram_address (f e) = vram_address e
     \<and> ce_key (f e) = ce_key e \<and> ce_duplicate (f e) = ce_duplicate e
     \<and> (in_spill_zone (f e) \<longrightarrow> ce_zone (f e) = KStreaming \<and> elastic_zone (f e) < 0)"

lemma map_upd_filter:
  assumes "\<And>e. (k, e) \<in> set xs \<Longrightarrow> P (f e) = P e \<and> g (f e) = g e"
  shows "map (\<lambda>(k, e). g e) (filter (\<lambda>(k, e). P e) (map (\<lambda>(k', e). if k' = k then (k', f e) else (k', e)) xs))
    = map (\<lambda>(k, e). g e) (filter (\<lambda>(k, e). P e) xs)"
  using assms
proof (induction xs)
  case (Cons x xs)
  then show ?case by (cases x; cases "fst x = k") auto
qed simp

lemma upd_resident_alloc_at [simp]: "alloc_at (upd_resident k f gs) = alloc_at gs"
  by (rule placement_ext) (simp_all add: upd_resident_def find_elastic_zone_def)

lemma map_fst_upd: "map fst (map (\<lambda>(k', e). if k' = k then (k', f e) else (k', e)) xs) = map fst xs"
  by (simp add: case_prod_beta if_distrib cong: if_cong)

lemma upd_resident_ok:
  assumes ok: "cache_ok gs" and f: "\<And>e. (k, e) \<in> set (residents gs) \<Longrightarrow> keeps_slot f e"
  shows "cache_ok (upd_resident k f gs)"
proof -
  let ?gs = "upd_resident k f gs"
  have K: "keys_ok gs" "placed_ok gs" "allocs_ok gs" "zones_ok gs" "dups_ok gs" using ok by (simp_all add: cache_ok_def)
  have F: "place (f e) = place e" "slot_idx (f e) = slot_idx e" "vram_address (f e) = vram_address e"
    "ce_key (f e) = ce_key e" "ce_duplicate (f e) = ce_duplicate e"
    "in_spill_zone (f e) \<Longrightarrow> ce_zone (f e) = KStreaming \<and> elastic_zone (f e) < 0"
    if "(k, e) \<in> set (residents gs)" for e using f [OF that] by (simp_all add: keeps_slot_def)
  have S: "slots_at ?gs pl = slots_at gs pl" for pl
    unfolding slots_at_def placed_def upd_resident_def by (simp add: map_upd_filter F)
  have D: "length (filter (\<lambda>(k, e). ce_duplicate e) (residents ?gs)) = length (filter (\<lambda>(k, e). ce_duplicate e) (residents gs))"
    using arg_cong [OF map_upd_filter [of k "residents gs" ce_duplicate f "\<lambda>e. ()"], of length]
    by (simp add: upd_resident_def F)
  have "keys_ok ?gs" unfolding keys_ok_def upd_resident_def
    using K(1) F by (auto simp: map_fst_upd keys_ok_def simp del: map_map split: if_splits)
  moreover have "placed_ok ?gs" unfolding placed_ok_def upd_resident_alloc_at
    using K(2) F by (fastforce simp: upd_resident_def placed_ok_def split: if_splits)
  moreover have "slot_inv ?gs pl = slot_inv gs pl" for pl
    by (rule slot_inv_cong [OF S]) (simp add: upd_resident_def)
  then have "allocs_ok ?gs" using K(3) by (simp add: allocs_ok_def)
  moreover have "zones_ok ?gs" using K(4) by (simp add: zones_ok_def S) (simp add: upd_resident_def)
  moreover have "dups_ok ?gs" using K(5) D by (simp add: dups_ok_def) (simp add: upd_resident_def)
  ultimately show ?thesis by (simp add: cache_ok_def)
qed

section \<open>Elastic zones\<close>

lemma find_append: "find P (xs @ ys) = (case find P xs of None \<Rightarrow> find P ys | Some x \<Rightarrow> Some x)"
  by (induction xs) auto

lemma add_zone_ok:
  assumes ok: "cache_ok gs" and z: "z_id z = next_elastic_id gs" "z_resident_entries z = 0"
    "mset (sa_free (z_slots z)) = mset [0..<sa_total (z_slots z)]"
  shows "cache_ok (gs\<lparr>next_elastic_id := next_elastic_id gs + 1, elastic_zones := elastic_zones gs @ [z]\<rparr>)"
proof -
  let ?gs = "gs\<lparr>next_elastic_id := next_elastic_id gs + 1, elastic_zones := elastic_zones gs @ [z]\<rparr>"
  have K: "keys_ok gs" "placed_ok gs" "allocs_ok gs" "zones_ok gs" "dups_ok gs" using ok by (simp_all add: cache_ok_def)
  let ?i = "next_elastic_id gs"
  have fresh: "find_elastic_zone ?i gs = None"
    using K(4) by (auto simp: zones_ok_def find_elastic_zone_def find_None_iff)
  have A: "alloc_at ?gs = (alloc_at gs)(PZone ?i \<mapsto> z_slots z)"
    using fresh z(1) by (intro placement_ext) (auto simp: find_elastic_zone_def find_append split: option.splits)
  have S: "slots_at ?gs = slots_at gs" by (rule slots_at_cong) simp
  have none: "slots_at gs (PZone ?i) = []"
    using K(2) fresh by (force simp: slots_at_def placed_def placed_ok_def filter_empty_conv)
  have "keys_ok ?gs" using K(1) by (simp add: keys_ok_def)
  moreover have "placed_ok ?gs" using K(2) fresh unfolding placed_ok_def A by fastforce
  moreover have "slot_inv ?gs pl = slot_inv gs pl" for pl by (rule slot_inv_cong) (simp_all add: S)
  then have "allocs_ok ?gs" using K(3) z(3) none by (auto simp: allocs_ok_def A slot_inv_def [of gs "PZone ?i"])
  moreover have "zones_ok ?gs" using K(4) z none by (auto simp: zones_ok_def S)
  moreover have "dups_ok ?gs" using K(5) by (simp add: dups_ok_def)
  ultimately show ?thesis by (simp add: cache_ok_def)
qed

lemma drain_zone_ok:
  assumes ok: "cache_ok gs"
  shows "cache_ok (gs\<lparr>elastic_zones := upd_first_zone i (\<lambda>z. z\<lparr>z_state := ZDraining\<rparr>) (elastic_zones gs)\<rparr>)"
proof -
  let ?gs = "gs\<lparr>elastic_zones := upd_first_zone i (\<lambda>z. z\<lparr>z_state := ZDraining\<rparr>) (elastic_zones gs)\<rparr>"
  have dist: "distinct (map z_id (elastic_zones gs))" using ok by (simp add: cache_ok_def zones_ok_def)
  have A: "alloc_at ?gs = alloc_at gs"
    by (rule placement_ext) (auto simp: find_elastic_zone_def find_upd_first_zone option.map_comp comp_def)
  have S: "slots_at ?gs = slots_at gs" by (rule slots_at_cong) simp
  have "zones_ok ?gs"
    using ok by (auto simp: cache_ok_def zones_ok_def S upd_first_zone_ids elim: upd_first_zone_cases [OF dist])
  moreover have "slot_inv ?gs pl = slot_inv gs pl" for pl by (rule slot_inv_cong) (simp_all add: S)
  ultimately show ?thesis using ok by (simp add: cache_ok_def keys_ok_def placed_ok_def allocs_ok_def dups_ok_def A)
qed

lemma find_remove_first_zone:
  assumes "distinct (map z_id zs)"
  shows "find (\<lambda>z. z_id z = j) (remove_first_zone i zs) = (if j = i then None else find (\<lambda>z. z_id z = j) zs)"
  using assms by (induction zs) (auto simp: find_None_iff image_iff)

lemma remove_first_zone_facts:
  "set (remove_first_zone i zs) \<subseteq> set zs" "distinct (map z_id zs) \<Longrightarrow> distinct (map z_id (remove_first_zone i zs))"
proof -
  show *: "set (remove_first_zone i zs) \<subseteq> set zs" for zs by (induction zs) auto
  show "distinct (map z_id zs) \<Longrightarrow> distinct (map z_id (remove_first_zone i zs))"
    by (induction zs) (use * in auto)
qed

lemma remove_zone_ok:
  assumes ok: "cache_ok gs" and z: "find_elastic_zone i gs = Some z" "z_resident_entries z = 0"
  shows "cache_ok (gs\<lparr>elastic_zones := remove_first_zone i (elastic_zones gs)\<rparr>)"
proof -
  let ?gs = "gs\<lparr>elastic_zones := remove_first_zone i (elastic_zones gs)\<rparr>"
  have K: "keys_ok gs" "placed_ok gs" "allocs_ok gs" "zones_ok gs" "dups_ok gs" using ok by (simp_all add: cache_ok_def)
  have dist: "distinct (map z_id (elastic_zones gs))" using K(4) by (simp add: zones_ok_def)
  have none: "slots_at gs (PZone i) = []"
    using K(4) z dist by (auto simp: zones_ok_def find_elastic_zone_def find_zone_iff)
  have A: "alloc_at ?gs = (alloc_at gs)(PZone i := None)"
    by (rule placement_ext) (auto simp: find_elastic_zone_def find_remove_first_zone [OF dist])
  have S: "slots_at ?gs = slots_at gs" by (rule slots_at_cong) simp
  have "place e \<noteq> PZone i" if "(k, e) \<in> set (residents gs)" for k e
    using none that by (auto simp: slots_at_def placed_def filter_empty_conv)
  then have "placed_ok ?gs" using K(2) unfolding placed_ok_def A by fastforce
  moreover have "slot_inv ?gs pl = slot_inv gs pl" for pl by (rule slot_inv_cong) (simp_all add: S)
  then have "allocs_ok ?gs" using K(3) by (auto simp: allocs_ok_def A)
  moreover have "zones_ok ?gs" using K(4) subsetD [OF remove_first_zone_facts(1)] remove_first_zone_facts(2)
    by (simp add: zones_ok_def S)
  ultimately show ?thesis using K(1,5) by (simp add: cache_ok_def keys_ok_def dups_ok_def)
qed

section \<open>Spill mode\<close>

lemma filter_slots:
  assumes "\<And>k e. (k, e) \<in> set (residents gs) \<Longrightarrow> \<not> Q e \<Longrightarrow> place e \<noteq> pl" "residents gs' = filter (\<lambda>(k, e). Q e) (residents gs)"
  shows "slots_at gs' pl = slots_at gs pl"
proof -
  have "filter (\<lambda>(k, e). place e = pl) (filter (\<lambda>(k, e). Q e) (residents gs)) = filter (\<lambda>(k, e). place e = pl) (residents gs)"
    unfolding filter_filter by (rule filter_cong) (use assms(1) in auto)
  then show ?thesis by (simp add: slots_at_def placed_def assms(2))
qed

lemma enter_spill_ok:
  assumes ok: "cache_ok gs" and nrm: "cmode gs = KNormal"
    and gs': "gs' = gs\<lparr>residents := filter (\<lambda>(k, e). \<not> spill_evictable e) (residents gs),
                         duplicate_count := duplicate_count gs
                           - int (length (filter (\<lambda>(k, e). ce_duplicate e) (filter (\<lambda>(k, e). spill_evictable e) (residents gs)))),
                         spill_slots := (spill_slots gs)\<lparr>sa_free := []\<rparr>, cmode := KSpillActive\<rparr>"
  shows "cache_ok gs'"
proof -
  have K: "keys_ok gs" "placed_ok gs" "allocs_ok gs" "zones_ok gs" "dups_ok gs" using ok by (simp_all add: cache_ok_def)
  have spl: "place e = PSpill" if "(k, e) \<in> set (residents gs)" "spill_evictable e" for k e
    using that K(1) by (auto simp: keys_ok_def spill_evictable_def place_def)
  have R: "residents gs' = filter (\<lambda>(k, e). \<not> spill_evictable e) (residents gs)" by (simp add: gs')
  have A: "alloc_at gs' = (alloc_at gs)(PSpill \<mapsto> (spill_slots gs)\<lparr>sa_free := []\<rparr>)"
    by (rule placement_ext) (simp_all add: gs' find_elastic_zone_def)
  have S: "slots_at gs' pl = slots_at gs pl" if "pl \<noteq> PSpill" for pl
    by (rule filter_slots [OF _ R]) (use spl that in auto)
  have "slot_inv gs PSpill (spill_slots gs)" using K(3) by (simp add: allocs_ok_def)
  then have "mset (slots_at gs PSpill) \<subseteq># mset [0..<sa_total (spill_slots gs)]"
    using nrm by (auto simp: slot_inv_def) (metis mset_subset_eq_add_right)
  moreover have "mset (slots_at gs' PSpill) \<subseteq># mset (slots_at gs PSpill)"
    unfolding slots_at_mset R by (intro image_mset_subseteq_mono multiset_filter_mono) simp
  ultimately have "slot_inv gs' PSpill ((spill_slots gs)\<lparr>sa_free := []\<rparr>)"
    by (auto simp: slot_inv_def gs' intro: subset_mset.order_trans)
  then have "allocs_ok gs'" using K(3) nrm by (auto simp: allocs_ok_def A slot_inv_def S split: if_splits)
  moreover have "keys_ok gs'" using K(1) by (auto simp: keys_ok_def R distinct_map_filter)
  moreover have "placed_ok gs'" using K(2) unfolding placed_ok_def A R by (fastforce simp: slot_address_def)
  moreover have "zones_ok gs'" using K(4) by (auto simp: zones_ok_def S gs' [THEN arg_cong, of elastic_zones] gs' [THEN arg_cong, of next_elastic_id])
  moreover have "dups_ok gs'" using K(5)
      sum_length_filter_compl [of "\<lambda>(k, e). spill_evictable e" "filter (\<lambda>(k, e). ce_duplicate e) (residents gs)"]
    by (simp add: dups_ok_def gs' case_prod_beta conj_commute)
  ultimately show ?thesis by (simp add: cache_ok_def)
qed

lemma exit_spill_ok:
  assumes ok: "cache_ok gs" and none: "\<And>k e. (k, e) \<in> set (residents gs) \<Longrightarrow> \<not> in_spill_zone e"
  shows "cache_ok (gs\<lparr>spill_slots := (spill_slots gs)\<lparr>sa_free := rev [0..<sa_total (spill_slots gs)]\<rparr>, cmode := KNormal\<rparr>)"
    (is "cache_ok ?gs")
proof -
  have K: "keys_ok gs" "placed_ok gs" "allocs_ok gs" "zones_ok gs" "dups_ok gs" using ok by (simp_all add: cache_ok_def)
  have A: "alloc_at ?gs = (alloc_at gs)(PSpill \<mapsto> (spill_slots gs)\<lparr>sa_free := rev [0..<sa_total (spill_slots gs)]\<rparr>)"
    by (rule placement_ext) (simp_all add: find_elastic_zone_def)
  have S: "slots_at ?gs = slots_at gs" by (rule slots_at_cong) simp
  have "slots_at gs PSpill = []" using none by (force simp: slots_at_def placed_def filter_empty_conv place_def split: if_splits)
  then have "allocs_ok ?gs" using K(3) by (auto simp: allocs_ok_def slot_inv_def A S split: if_splits)
  moreover have "placed_ok ?gs" using K(2) unfolding placed_ok_def A by (fastforce simp: slot_address_def)
  ultimately show ?thesis using K(1,4,5) by (simp add: cache_ok_def keys_ok_def dups_ok_def zones_ok_def S)
qed

end
