(* ===== verification/Expert_Cache_Machine.thy ===== *)
theory Expert_Cache_Machine
  imports Expert_Cache_Inv
begin

text \<open>
  The expert cache as a state machine: the geometry of its slot regions, the residency listener's view, the
  step relation over the operations of the class, and the invariant of the reachable states. Three
  operations carry a condition on the caller, without which the invariant fails (see the theorems on
  retagging and on leaving the spill mode): \<^verbatim>\<open>promote\<close> and \<^verbatim>\<open>demote\<close> are taken for experts that live in
  an elastic zone, \<^verbatim>\<open>exit_spill_mode\<close> when no expert is left in the spill slots, and a granted zone has the
  stride of the zone geometry and is disjoint from the regions in use.
\<close>

section \<open>Regions\<close>

type_synonym shape = "int \<times> int \<times> nat"

definition shape_of :: "slot_alloc \<Rightarrow> shape" where
  "shape_of sa = (sa_base sa, sa_slot_bytes sa, sa_total sa)"

definition span :: "int \<Rightarrow> shape \<Rightarrow> int set" where
  "span eb s = (case s of (b, st, n) \<Rightarrow> \<Union>i \<in> {..<n}. {b + int i * st ..< b + int i * st + eb})"

definition zone_shape :: "elastic_zone_t \<Rightarrow> int \<times> int \<times> shape" where
  "zone_shape z = (z_base z, z_bytes z, shape_of (z_slots z))"

definition geom :: "gpu_cache \<Rightarrow> shape list \<times> (int \<times> int \<times> shape) list" where
  "geom gs = ([shape_of (stable_slots gs), shape_of (spill_slots gs), shape_of (prefetch_slots gs)],
              map zone_shape (elastic_zones gs))"

definition regions :: "int \<Rightarrow> shape list \<times> (int \<times> int \<times> shape) list \<Rightarrow> int set list" where
  "regions eb g = map (span eb) (fst g) @ map (\<lambda>(b, n, s). {b ..< b + n}) (snd g)"

definition geom_ok :: "int \<Rightarrow> shape list \<times> (int \<times> int \<times> shape) list \<Rightarrow> bool" where
  "geom_ok eb g \<longleftrightarrow>
     sorted_wrt (\<lambda>A B. A \<inter> B = {}) (regions eb g)
     \<and> (\<forall>(b, st, n) \<in> set (fst g). eb \<le> st)
     \<and> (\<forall>(b, n, s) \<in> set (snd g). eb \<le> fst (snd s) \<and> span eb s \<subseteq> {b ..< b + n})"

lemma slot_free_shape [simp]: "shape_of (slot_free i sa) = shape_of sa"
  by (simp add: shape_of_def slot_free_def)

lemma slot_allocate_shape: "slot_allocate sa = (r, sa') \<Longrightarrow> shape_of sa' = shape_of sa"
  by (auto simp: slot_allocate_def shape_of_def split: if_splits)

lemma upd_free_shape [simp]: "shape_of (sa\<lparr>sa_free := f\<rparr>) = shape_of sa"
  by (simp add: shape_of_def)

lemma offer_zones_shape: "offer_zones zs = (r, zs') \<Longrightarrow> map zone_shape zs' = map zone_shape zs"
  by (induction zs arbitrary: r zs')
     (auto simp: Let_def zone_shape_def dest: slot_allocate_shape split: prod.splits option.splits if_splits)

lemma emplace_geom [simp]: "geom (emplace_entry e gs) = geom gs"
  by (simp add: geom_def emplace_entry_def)

lemma reserve_geom:
  "reserve_stable c k gpu dup gs = (r, gs') \<Longrightarrow> geom gs' = geom gs"
  "reserve_prefetch c k gpu dup gs = (r, gs') \<Longrightarrow> geom gs' = geom gs"
  "reserve_streaming c k gpu dup gs = (r, gs') \<Longrightarrow> geom gs' = geom gs"
proof -
  show "reserve_stable c k gpu dup gs = (r, gs') \<Longrightarrow> geom gs' = geom gs"
    by (auto simp: reserve_stable_def geom_def Let_def emplace_entry_def
             dest: slot_allocate_shape offer_zones_shape split: prod.splits option.splits)
  show p: "reserve_prefetch c k gpu dup gs = (r, gs') \<Longrightarrow> geom gs' = geom gs" for r gs'
    by (auto simp: reserve_prefetch_def geom_def Let_def emplace_entry_def
             dest: slot_allocate_shape split: prod.splits option.splits)
  show "reserve_streaming c k gpu dup gs = (r, gs') \<Longrightarrow> geom gs' = geom gs"
    using p by (auto simp: reserve_streaming_def geom_def Let_def emplace_entry_def
             dest: slot_allocate_shape split: prod.splits option.splits if_splits)
qed

lemma return_slot_geom: "return_slot e gs = Inr gs1 \<Longrightarrow> geom gs1 = geom gs"
  by (auto simp: return_slot_def geom_def assert_then_def zone_shape_def upd_first_zone_map [where g = zone_shape]
           split: if_splits)

lemma light_geom [simp]:
  "geom (upd_resident k f gs) = geom gs" "geom (erase_resident k gs) = geom gs" "geom (drop_duplicate e gs) = geom gs"
  "geom (gs\<lparr>residents := r\<rparr>) = geom gs" "geom (gs\<lparr>cmode := m\<rparr>) = geom gs" "geom (gs\<lparr>duplicate_count := d\<rparr>) = geom gs"
  "geom (gs\<lparr>next_elastic_id := i\<rparr>) = geom gs"
  by (simp_all add: geom_def upd_resident_def erase_resident_def drop_duplicate_def)

section \<open>Disjoint slots\<close>

definition resident_bytes :: "int \<Rightarrow> cache_entry \<Rightarrow> int set" where
  "resident_bytes eb e = {vram_address e ..< vram_address e + eb}"

lemma resident_slot:
  assumes "cache_ok gs" "(k, e) \<in> set (residents gs)"
  obtains sa where "alloc_at gs (place e) = Some sa" "vram_address e = slot_address sa (slot_idx e)" "slot_idx e < sa_total sa"
proof -
  obtain sa where sa: "alloc_at gs (place e) = Some sa" "vram_address e = slot_address sa (slot_idx e)"
    using assms by (auto simp: cache_ok_def placed_ok_def)
  have "mset (slots_at gs (place e)) \<subseteq># mset [0..<sa_total sa]"
    using assms(1) sa(1) unfolding cache_ok_def allocs_ok_def slot_inv_def
    by (metis mset_subset_eq_add_right)
  moreover have "slot_idx e \<in> set (slots_at gs (place e))" using assms(2) by (force simp: slots_at_def placed_def)
  ultimately have "slot_idx e \<in># mset [0..<sa_total sa]" by (meson mset_subset_eqD set_mset_mset in_multiset_in_set)
  then have "slot_idx e < sa_total sa" by simp
  with sa that show thesis by blast
qed

lemma slots_at_distinct:
  assumes "cache_ok gs" "alloc_at gs pl = Some sa" shows "distinct (slots_at gs pl)"
proof -
  have "mset (slots_at gs pl) \<subseteq># mset [0..<sa_total sa]"
    using assms unfolding cache_ok_def allocs_ok_def slot_inv_def by (metis mset_subset_eq_add_right)
  then have le: "count (mset (slots_at gs pl)) a \<le> count (mset [0..<sa_total sa]) a" for a by (rule mset_subset_eq_count)
  have "count (mset [0..<sa_total sa]) a \<le> 1" for a
    using distinct_count_atmost_1 [of "[0..<sa_total sa]"] by (metis distinct_upt le_numeral_extra(4) zero_le_one)
  then have "count (mset (slots_at gs pl)) a = (if a \<in> set (slots_at gs pl) then 1 else 0)" for a
    using le [of a] by (metis count_eq_zero_iff le_antisym less_one linorder_not_le order_trans set_mset_mset)
  then show ?thesis by (simp add: distinct_count_atmost_1)
qed

lemma slot_in_span: "i < sa_total sa \<Longrightarrow> {slot_address sa i ..< slot_address sa i + eb} \<subseteq> span eb (shape_of sa)"
  by (auto simp: span_def shape_of_def slot_address_def)

lemma slots_disjoint:
  assumes "i \<noteq> j" "eb \<le> sa_slot_bytes sa"
  shows "{slot_address sa i ..< slot_address sa i + eb} \<inter> {slot_address sa j ..< slot_address sa j + eb} = {}"
proof -
  have *: "slot_address sa a + eb \<le> slot_address sa b" if "a < b" "0 \<le> eb" for a b
  proof -
    have "(int a + 1) * sa_slot_bytes sa \<le> int b * sa_slot_bytes sa"
      using that assms(2) by (intro mult_right_mono) auto
    then show ?thesis using assms(2) by (simp add: slot_address_def algebra_simps)
  qed
  show ?thesis
  proof (cases "0 \<le> eb")
    case True
    then show ?thesis using * [of i j] * [of j i] assms(1) by (cases "i < j") auto
  qed auto
qed

lemma alloc_region:
  assumes "alloc_at gs pl = Some sa" "geom_ok eb (geom gs)" "zones_ok gs"
  shows "\<exists>n < length (regions eb (geom gs)). span eb (shape_of sa) \<subseteq> regions eb (geom gs) ! n
    \<and> eb \<le> sa_slot_bytes sa
    \<and> (case pl of PStable \<Rightarrow> n = 0 | PSpill \<Rightarrow> n = 1 | PPrefetch \<Rightarrow> n = 2
         | PZone i \<Rightarrow> 3 \<le> n \<and> z_id (elastic_zones gs ! (n - 3)) = i)"
proof (cases pl)
  case (PZone i)
  then obtain z where z: "find_elastic_zone i gs = Some z" "sa = z_slots z" using assms(1) by auto
  then have "z \<in> set (elastic_zones gs)" "z_id z = i"
    using assms(3) by (auto simp: zones_ok_def find_elastic_zone_def find_zone_iff)
  then obtain m where m: "m < length (elastic_zones gs)" "elastic_zones gs ! m = z" by (auto simp: in_set_conv_nth)
  have "zone_shape z \<in> set (snd (geom gs))" using m by (auto simp: geom_def)
  then have "eb \<le> sa_slot_bytes sa" "span eb (shape_of sa) \<subseteq> {z_base z ..< z_base z + z_bytes z}"
    using assms(2) z(2) by (auto simp: geom_ok_def zone_shape_def shape_of_def)
  then show ?thesis using m PZone \<open>z_id z = i\<close>
    by (intro exI [of _ "m + 3"]) (simp add: regions_def geom_def nth_append zone_shape_def)
next
  case PStable
  then show ?thesis using assms(1,2)
    by (intro exI [of _ 0]) (auto simp: geom_ok_def geom_def regions_def shape_of_def)
next
  case PSpill
  then show ?thesis using assms(1,2)
    by (intro exI [of _ 1]) (auto simp: geom_ok_def geom_def regions_def shape_of_def)
next
  case PPrefetch
  then show ?thesis using assms(1,2)
    by (intro exI [of _ 2]) (auto simp: geom_ok_def geom_def regions_def shape_of_def)
qed

lemma alloc_spans_disjoint:
  assumes "alloc_at gs pl = Some sa" "alloc_at gs pl' = Some sa'" "pl \<noteq> pl'" "geom_ok eb (geom gs)" "zones_ok gs"
  shows "span eb (shape_of sa) \<inter> span eb (shape_of sa') = {}"
proof -
  obtain n where n: "n < length (regions eb (geom gs))" "span eb (shape_of sa) \<subseteq> regions eb (geom gs) ! n"
    "case pl of PStable \<Rightarrow> n = 0 | PSpill \<Rightarrow> n = 1 | PPrefetch \<Rightarrow> n = 2
         | PZone i \<Rightarrow> 3 \<le> n \<and> z_id (elastic_zones gs ! (n - 3)) = i"
    using alloc_region [OF assms(1,4,5)] by blast
  obtain m where m: "m < length (regions eb (geom gs))" "span eb (shape_of sa') \<subseteq> regions eb (geom gs) ! m"
    "case pl' of PStable \<Rightarrow> m = 0 | PSpill \<Rightarrow> m = 1 | PPrefetch \<Rightarrow> m = 2
         | PZone i \<Rightarrow> 3 \<le> m \<and> z_id (elastic_zones gs ! (m - 3)) = i"
    using alloc_region [OF assms(2,4,5)] by blast
  have "n \<noteq> m" using n(3) m(3) assms(3) by (cases pl; cases pl') auto
  moreover have "sorted_wrt (\<lambda>A B. A \<inter> B = {}) (regions eb (geom gs))" using assms(4) by (simp add: geom_ok_def)
  ultimately have "regions eb (geom gs) ! n \<inter> regions eb (geom gs) ! m = {}"
    using n(1) m(1) sorted_wrt_nth_less [of _ "regions eb (geom gs)" n m] sorted_wrt_nth_less [of _ "regions eb (geom gs)" m n]
    by (cases "n < m") (auto simp: Int_commute)
  then show ?thesis using n(2) m(2) by blast
qed

lemma residents_disjoint:
  assumes ok: "cache_ok gs" "geom_ok eb (geom gs)"
    and e: "(k, e) \<in> set (residents gs)" "(k', e') \<in> set (residents gs)" "k \<noteq> k'"
  shows "resident_bytes eb e \<inter> resident_bytes eb e' = {}"
proof -
  have z: "zones_ok gs" using ok by (simp add: cache_ok_def)
  obtain sa where sa: "alloc_at gs (place e) = Some sa" "vram_address e = slot_address sa (slot_idx e)" "slot_idx e < sa_total sa"
    using resident_slot [OF ok(1) e(1)] .
  obtain sa' where sa': "alloc_at gs (place e') = Some sa'" "vram_address e' = slot_address sa' (slot_idx e')" "slot_idx e' < sa_total sa'"
    using resident_slot [OF ok(1) e(2)] .
  show ?thesis
  proof (cases "place e = place e'")
    case False
    then show ?thesis
      using alloc_spans_disjoint [OF sa(1) sa'(1) False ok(2) z] slot_in_span [OF sa(3), of eb] slot_in_span [OF sa'(3), of eb]
      unfolding resident_bytes_def sa(2) sa'(2) by blast
  next
    case True
    have "inj_on (\<lambda>(k, e). slot_idx e) (set (placed gs (place e)))"
      using slots_at_distinct [OF ok(1) sa(1)] by (simp add: slots_at_def distinct_map)
    moreover have "(k, e) \<in> set (placed gs (place e))" "(k', e') \<in> set (placed gs (place e))"
      using e True by (auto simp: placed_def)
    ultimately have "slot_idx e \<noteq> slot_idx e'" using e(3) by (auto dest: inj_onD [where x = "(k, e)" and y = "(k', e')"])
    moreover have "eb \<le> sa_slot_bytes sa" using alloc_region [OF sa(1) ok(2) z] by blast
    ultimately show ?thesis using slots_disjoint sa sa' True by (simp add: resident_bytes_def)
  qed
qed

section \<open>What the residency listener knows\<close>

fun mirror_ev :: "residency_event \<Rightarrow> (expert_key \<times> int) set \<Rightarrow> (expert_key \<times> int) set" where
  "mirror_ev (ResidentAdded k g) S = insert (k, g) S"
| "mirror_ev (ResidentRemoved k g) S = S - {(k, g)}"

definition mirror :: "residency_event list \<Rightarrow> (expert_key \<times> int) set" where
  "mirror evs = fold mirror_ev evs {}"

definition stable_of :: "gpu_cache \<Rightarrow> expert_key set" where
  "stable_of gs = {k. \<exists>e. (k, e) \<in> set (residents gs) \<and> ce_zone e = KStable}"

definition stable_residents :: "expert_cache \<Rightarrow> (expert_key \<times> int) set" where
  "stable_residents c = {(k, g). valid_cache_gpu c g \<and> k \<in> stable_of (ec_gpus c ! nat g)}"

definition listener_ok :: "expert_cache \<Rightarrow> bool" where
  "listener_ok c \<longleftrightarrow> (case listener c of None \<Rightarrow> True | Some evs \<Rightarrow> mirror evs = stable_residents c)"

lemma mirror_snoc [simp]: "mirror (evs @ [ev]) = mirror_ev ev (mirror evs)"
  by (simp add: mirror_def)

lemma put_state_fields [simp]:
  "listener (put_state gpu gs c) = listener c" "expert_bytes (put_state gpu gs c) = expert_bytes c"
  "elastic_generation (put_state gpu gs c) = elastic_generation c" "valid_cache_gpu (put_state gpu gs c) = valid_cache_gpu c"
  "ec_gpus (put_state gpu gs c) = (ec_gpus c)[nat gpu := gs]"
  by (simp_all add: put_state_def valid_cache_gpu_def fun_eq_iff)

lemma notify_fields [simp]:
  "ec_gpus (notify ev c) = ec_gpus c" "expert_bytes (notify ev c) = expert_bytes c"
  "elastic_generation (notify ev c) = elastic_generation c"
  by (simp_all add: notify_def split: option.split)

lemma stable_residents_put:
  assumes "valid_cache_gpu c gpu"
  shows "stable_residents (put_state gpu gs c) = {(k, g) \<in> stable_residents c. g \<noteq> gpu} \<union> (\<lambda>k. (k, gpu)) ` stable_of gs"
  using assms by (auto simp: stable_residents_def valid_cache_gpu_def nth_list_update nat_eq_iff split: if_splits)

lemma stable_residents_at:
  "valid_cache_gpu c gpu \<Longrightarrow> {k. (k, gpu) \<in> stable_residents c} = stable_of (ec_gpus c ! nat gpu)"
  by (simp add: stable_residents_def)

lemma stable_residents_same:
  assumes "valid_cache_gpu c gpu" "stable_of gs = stable_of (ec_gpus c ! nat gpu)"
  shows "stable_residents (put_state gpu gs c) = stable_residents c"
  unfolding stable_residents_put [OF assms(1)] assms(2) by (auto simp: stable_residents_def assms(1))

lemma stable_residents_gpus: "ec_gpus c' = ec_gpus c \<Longrightarrow> stable_residents c' = stable_residents c"
  by (simp add: stable_residents_def valid_cache_gpu_def)

lemma stable_residents_record [simp]:
  "stable_residents (c\<lparr>listener := l\<rparr>) = stable_residents c"
  "stable_residents (c\<lparr>elastic_generation := g\<rparr>) = stable_residents c"
  "stable_residents (c\<lparr>hints_valid := b\<rparr>) = stable_residents c"
  by (rule stable_residents_gpus, simp)+

lemma listener_same:
  assumes "listener_ok c" "valid_cache_gpu c gpu" "stable_of gs = stable_of (ec_gpus c ! nat gpu)"
  shows "listener_ok (put_state gpu gs c)"
  using assms by (simp add: listener_ok_def stable_residents_same split: option.splits)

lemma listener_added:
  assumes "listener_ok c" "valid_cache_gpu c gpu" "stable_of gs = insert k (stable_of (ec_gpus c ! nat gpu))"
  shows "listener_ok (notify (ResidentAdded k gpu) (put_state gpu gs c))"
proof -
  have "stable_residents (put_state gpu gs c) = insert (k, gpu) (stable_residents c)"
    unfolding stable_residents_put [OF assms(2)] assms(3) by (auto simp: stable_residents_def assms(2))
  then show ?thesis using assms(1)
    by (auto simp: listener_ok_def notify_def split: option.splits)
qed

lemma listener_removed:
  assumes "listener_ok c" "valid_cache_gpu c gpu" "stable_of gs = stable_of (ec_gpus c ! nat gpu) - {k}"
  shows "listener_ok (notify (ResidentRemoved k gpu) (put_state gpu gs c))"
proof -
  have "stable_residents (put_state gpu gs c) = stable_residents c - {(k, gpu)}"
    unfolding stable_residents_put [OF assms(2)] assms(3) by (auto simp: stable_residents_def assms(2))
  then show ?thesis using assms(1)
    by (auto simp: listener_ok_def notify_def split: option.splits)
qed

section \<open>The invariant and its operations\<close>

definition gpus_ok :: "expert_cache \<Rightarrow> bool" where
  "gpus_ok c \<longleftrightarrow> (\<forall>gs \<in> set (ec_gpus c). cache_ok gs \<and> geom_ok (expert_bytes c) (geom gs))"

definition cache_inv :: "expert_cache \<Rightarrow> bool" where
  "cache_inv c \<longleftrightarrow> gpus_ok c \<and> listener_ok c"

lemma gpu_state_Inr: "gpu_state c gpu = Inr gs \<longleftrightarrow> valid_cache_gpu c gpu \<and> gs = ec_gpus c ! nat gpu"
  by (auto simp: gpu_state_def)

lemma gpu_state_ok:
  assumes "cache_inv c" "gpu_state c gpu = Inr gs"
  shows "cache_ok gs" "geom_ok (expert_bytes c) (geom gs)" "valid_cache_gpu c gpu" "ec_gpus c ! nat gpu = gs"
  using assms by (auto simp: cache_inv_def gpus_ok_def gpu_state_Inr valid_cache_gpu_def)

lemma gpus_ok_put:
  assumes "gpus_ok c" "cache_ok gs" "geom_ok (expert_bytes c) (geom gs)" shows "gpus_ok (put_state gpu gs c)"
  using assms set_update_subset_insert by (fastforce simp: gpus_ok_def)

lemma gpus_ok_cong: "ec_gpus c' = ec_gpus c \<Longrightarrow> expert_bytes c' = expert_bytes c \<Longrightarrow> gpus_ok c' = gpus_ok c"
  by (simp add: gpus_ok_def)

lemma cache_inv_put_same:
  assumes "cache_inv c" "gpu_state c gpu = Inr gs" "cache_ok gs'" "geom_ok (expert_bytes c) (geom gs')" "stable_of gs' = stable_of gs"
  shows "cache_inv (put_state gpu gs' c)"
  using assms gpu_state_ok [OF assms(1,2)] by (auto simp: cache_inv_def intro: gpus_ok_put listener_same)

lemma cache_inv_put_added:
  assumes inv: "cache_inv c" and gs: "gpu_state c gpu = Inr gs" and gs': "cache_ok gs'" "geom_ok (expert_bytes c) (geom gs')"
    and st: "stable_of gs' = insert k (stable_of gs)"
  shows "cache_inv (notify (ResidentAdded k gpu) (put_state gpu gs' c))"
proof -
  have "gpus_ok (put_state gpu gs' c)" using inv gs' by (simp add: cache_inv_def gpus_ok_put)
  then have "gpus_ok (notify (ResidentAdded k gpu) (put_state gpu gs' c))" by (subst gpus_ok_cong) (simp_all add: put_state_fields)
  then show ?thesis using listener_added [of c gpu gs' k] gpu_state_ok [OF inv gs] inv st by (simp add: cache_inv_def)
qed

lemma cache_inv_put_removed:
  assumes inv: "cache_inv c" and gs: "gpu_state c gpu = Inr gs" and gs': "cache_ok gs'" "geom_ok (expert_bytes c) (geom gs')"
    and st: "stable_of gs' = stable_of gs - {k}"
  shows "cache_inv (notify (ResidentRemoved k gpu) (put_state gpu gs' c))"
proof -
  have "gpus_ok (put_state gpu gs' c)" using inv gs' by (simp add: cache_inv_def gpus_ok_put)
  then have "gpus_ok (notify (ResidentRemoved k gpu) (put_state gpu gs' c))" by (subst gpus_ok_cong) (simp_all add: put_state_fields)
  then show ?thesis using listener_removed [of c gpu gs' k] gpu_state_ok [OF inv gs] inv st by (simp add: cache_inv_def)
qed

lemma put_state_self: "gpu_state c gpu = Inr gs \<Longrightarrow> put_state gpu gs c = c"
  by (auto simp: gpu_state_Inr put_state_def)

lemma cache_inv_generation: "cache_inv (c\<lparr>elastic_generation := g\<rparr>) = cache_inv c"
  by (simp add: cache_inv_def gpus_ok_def listener_ok_def split: option.splits)

lemma stable_of_upd:
  assumes "\<And>e. (k, e) \<in> set (residents gs) \<Longrightarrow> ce_zone (f e) = ce_zone e" shows "stable_of (upd_resident k f gs) = stable_of gs"
proof -
  have "(\<exists>e. (k', e) \<in> set (residents (upd_resident k f gs)) \<and> ce_zone e = KStable)
      \<longleftrightarrow> (\<exists>e. (k', e) \<in> set (residents gs) \<and> ce_zone e = KStable)" for k'
    using assms by (cases "k' = k") (force simp: upd_resident_def split: if_splits)+
  then show ?thesis by (simp add: stable_of_def)
qed

lemma stable_of_append: "residents gs' = residents gs @ [(k, e)] \<Longrightarrow>
    stable_of gs' = (if ce_zone e = KStable then insert k (stable_of gs) else stable_of gs)"
  by (auto simp: stable_of_def)

lemma stable_of_erase:
  assumes "keys_ok gs" "(k, e) \<in> set (residents gs)" "residents gs' = filter (\<lambda>(k', e). k' \<noteq> k) (residents gs)"
  shows "stable_of gs' = (if ce_zone e = KStable then stable_of gs - {k} else stable_of gs)"
proof -
  have u: "e' = e" if "(k, e') \<in> set (residents gs)" for e'
    using that assms(1,2) by (metis find_resident_Some option.inject)
  have "stable_of gs' = stable_of gs - {k}" by (auto simp: stable_of_def assms(3))
  moreover have "k \<in> stable_of gs \<longleftrightarrow> ce_zone e = KStable" unfolding stable_of_def using assms(2) u by blast
  ultimately show ?thesis by simp
qed


text \<open>No slot left for a reserve in the zone: the elastic zones back the stable zone unless they drain.\<close>

definition zone_full :: "cache_zone \<Rightarrow> gpu_cache \<Rightarrow> bool" where
  "zone_full z gs \<longleftrightarrow>
     (if z = KStable
      then sa_free (stable_slots gs) = [] \<and> (\<forall>z \<in> set (elastic_zones gs). z_state z = ZActive \<longrightarrow> sa_free (z_slots z) = [])
      else sa_free (prefetch_slots gs) = [] \<and> (cmode gs = KNormal \<longrightarrow> sa_free (spill_slots gs) = []))"

lemma reserve_in_zone:
  assumes "(if z = KStable then reserve_stable c k gpu dup gs else reserve_streaming c k gpu dup gs) = (r, gs')"
    "cache_ok gs" "find_resident k gs = None"
  shows "r = None \<and> gs' = gs \<and> zone_full z gs \<or> (\<exists>a. r = Some a \<and> reserve_done k gpu z dup a gs gs')"
proof (cases z)
  case KStable
  then have "reserve_stable c k gpu dup gs = (r, gs')" using assms(1) by simp
  from reserve_stable_cases [OF this assms(2,3)] KStable show ?thesis by (auto simp: zone_full_def)
next
  case KStreaming
  then have "reserve_streaming c k gpu dup gs = (r, gs')" using assms(1) by simp
  from reserve_streaming_cases [OF this assms(2,3)] KStreaming show ?thesis by (auto simp: zone_full_def)
qed

lemma offer_zones_full:
  "\<forall>z \<in> set zs. z_state z = ZActive \<longrightarrow> sa_free (z_slots z) = [] \<Longrightarrow> offer_zones zs = (None, zs)"
  by (induction zs) (auto simp: slot_allocate_def Let_def)

lemma reserve_full: "zone_full z gs \<Longrightarrow> gpu_state c gpu = Inr gs \<Longrightarrow> reserve k gpu z dup c = Inr (None, c)"
  by (cases "cmode gs"; cases z)
     (simp_all add: reserve_def zone_full_def reserve_stable_def reserve_streaming_def reserve_prefetch_def Let_def
        slot_allocate_def put_state_self offer_zones_full)

lemma reserve_outcome [consumes 3]:
  assumes inv: "cache_inv c" and gs: "gpu_state c gpu = Inr gs" and r: "reserve k gpu z dup c = Inr (r, c')"
  obtains (resident) "find_resident k gs \<noteq> None" "r = None" "c' = c"
  | (full) "find_resident k gs = None" "r = None" "c' = c" "zone_full z gs"
  | (fresh) a gs' where "find_resident k gs = None" "r = Some a" "reserve_done k gpu z dup a gs gs'" "geom gs' = geom gs"
      "c' = (if z = KStable then notify (ResidentAdded k gpu) (put_state gpu gs' c) else put_state gpu gs' c)"
proof (cases "find_resident k gs")
  case (Some e)
  then show ?thesis using r gs by (intro resident) (simp_all add: reserve_def)
next
  case None
  obtain gs' where gs': "(if z = KStable then reserve_stable c k gpu dup gs else reserve_streaming c k gpu dup gs) = (r, gs')"
    "c' = (if r \<noteq> None \<and> z = KStable then notify (ResidentAdded k gpu) (put_state gpu gs' c) else put_state gpu gs' c)"
    using r gs None by (auto simp: reserve_def Let_def split: prod.splits)
  have ge: "geom gs' = geom gs" using gs'(1) reserve_geom by (auto split: if_splits)
  from reserve_in_zone [OF gs'(1) gpu_state_ok(1) [OF inv gs] None] show ?thesis
    using gs'(2) ge None put_state_self [OF gs] full fresh by auto
qed

lemma reserve_inv:
  assumes inv: "cache_inv c" and r: "reserve k gpu z dup c = Inr (r, c')"
  shows "cache_inv c'"
proof -
  obtain gs where gs: "gpu_state c gpu = Inr gs" using r by (auto simp: reserve_def elim: rbindE)
  note G = gpu_state_ok [OF inv gs]
  from inv gs r show ?thesis
  proof (cases rule: reserve_outcome)
    case (fresh a gs')
    then have ok: "cache_ok gs'" and st: "stable_of gs' = (if z = KStable then insert k (stable_of gs) else stable_of gs)"
      by (auto simp: reserve_done_def reserved_def dest: stable_of_append)
    show ?thesis
    proof (cases "z = KStable")
      case True
      then show ?thesis using fresh st G(2) cache_inv_put_added [OF inv gs ok] by simp
    next
      case False
      then show ?thesis using fresh st G cache_inv_put_same [OF inv gs ok] by simp
    qed
  qed (use inv in simp_all)
qed

lemma evict_outcome [consumes 2]:
  assumes inv: "cache_inv c" and gs: "gpu_state c gpu = Inr gs"
  obtains (absent) "find_resident k gs = None" "evict k gpu c = Inr (False, c)"
  | (locked) e where "find_resident k gs = Some e" "lock_count e \<noteq> 0" "evict k gpu c = Inr (False, c)"
  | (evicted) e sa gs1 where "find_resident k gs = Some e" "lock_count e = 0" "alloc_at gs (place e) = Some sa"
      "return_slot e gs = Inr gs1" "given_back e sa gs gs1"
      "evict k gpu c = Inr (True,
         if ce_zone e = KStable then notify (ResidentRemoved k gpu) (put_state gpu (erase_resident k (drop_duplicate e gs1)) c)
         else put_state gpu (erase_resident k (drop_duplicate e gs1)) c)"
proof (cases "find_resident k gs")
  case None
  then show ?thesis using gs by (intro absent) (simp_all add: evict_def)
next
  case (Some e)
  note G = gpu_state_ok [OF inv gs]
  have K: "keys_ok gs" "zones_ok gs" using G(1) by (simp_all add: cache_ok_def)
  show ?thesis
  proof (cases "lock_count e = 0")
    case False
    then show ?thesis using Some gs by (intro locked [of e]) (simp_all add: evict_def word_neq_0_conv)
  next
    case True
    have mem: "(k, e) \<in> set (residents gs)" using K(1) Some by (simp add: find_resident_Some)
    obtain sa where sa: "alloc_at gs (place e) = Some sa" using resident_slot [OF G(1) mem] .
    obtain gs1 where gs1: "return_slot e gs = Inr gs1" "given_back e sa gs gs1"
      using return_slot_gives_back [OF K(2) sa] by blast
    show ?thesis using True Some gs gs1 sa by (intro evicted [of e sa gs1]) (simp_all add: evict_def Let_def)
  qed
qed

lemma evict_residents:
  assumes "given_back e sa gs gs1"
  shows "residents (erase_resident k (drop_duplicate e gs1)) = filter (\<lambda>(k', e). k' \<noteq> k) (residents gs)"
  using assms by (simp add: given_back_def erase_resident_def drop_duplicate_def)

lemma find_resident_erase:
  assumes "residents gs' = filter (\<lambda>(k', e). k' \<noteq> k) (residents gs)"
  shows "find_resident k' gs' = (if k' = k then None else find_resident k' gs)"
proof -
  have "map_of (filter (\<lambda>(k', e). k' \<noteq> k) xs) k' = (if k' = k then None else map_of xs k')" for xs :: "(expert_key \<times> cache_entry) list"
    by (induction xs) auto
  then show ?thesis by (simp add: find_resident_def assms)
qed

lemma evict_inv:
  assumes inv: "cache_inv c" and r: "evict k gpu c = Inr (r, c')"
  shows "cache_inv c'"
proof -
  obtain gs where gs: "gpu_state c gpu = Inr gs" using r by (auto simp: evict_def elim: rbindE)
  note G = gpu_state_ok [OF inv gs]
  have K: "keys_ok gs" using G(1) by (simp add: cache_ok_def)
  from inv gs show ?thesis
  proof (cases rule: evict_outcome [where k = k])
    case (evicted e sa gs1)
    have mem: "(k, e) \<in> set (residents gs)" using K evicted(1) by (simp add: find_resident_Some)
    let ?gs = "erase_resident k (drop_duplicate e gs1)"
    have ok: "cache_ok ?gs" by (rule erase_ok [OF G(1) mem evicted(3,5)])
    have ge: "geom ?gs = geom gs" using return_slot_geom [OF evicted(4)] by simp
    note st = stable_of_erase [OF K mem evict_residents [OF evicted(5)]]
    show ?thesis
    proof (cases "ce_zone e = KStable")
      case True
      then show ?thesis using r evicted(6) ge st G(2) cache_inv_put_removed [OF inv gs ok, of k] by auto
    next
      case False
      then show ?thesis using r evicted(6) ge st G cache_inv_put_same [OF inv gs ok] by simp
    qed
  qed (use inv r in simp_all)
qed

lemma upd_inv:
  assumes inv: "cache_inv c" and gs: "gpu_state c gpu = Inr gs"
    and f: "\<And>e. (k, e) \<in> set (residents gs) \<Longrightarrow> keeps_slot f e \<and> ce_zone (f e) = ce_zone e"
  shows "cache_inv (put_state gpu (upd_resident k f gs) c)"
  using gpu_state_ok [OF inv gs] f by (intro cache_inv_put_same [OF inv gs] upd_resident_ok stable_of_upd) auto

lemma keeps_slot_light [simp]:
  assumes "keys_ok gs" "(k, e) \<in> set (residents gs)"
  shows "keeps_slot (\<lambda>e. e\<lparr>lock_count := g e\<rparr>) e" "keeps_slot (\<lambda>e. e\<lparr>sub_components_ready := h e\<rparr>) e"
  using assms by (auto simp: keeps_slot_def keys_ok_def place_def)

lemma lock_mark_inv:
  assumes inv: "cache_inv c"
  shows "lock k gpu c = Inr (r, c') \<Longrightarrow> cache_inv c'" "unlock k gpu c = Inr (r, c') \<Longrightarrow> cache_inv c'"
    "mark_ready k gpu part c = Inr c' \<Longrightarrow> cache_inv c'" "mark_all_ready k gpu c = Inr c' \<Longrightarrow> cache_inv c'"
proof -
  have K: "keys_ok gs" if "gpu_state c gpu = Inr gs" for gs using gpu_state_ok(1) [OF inv that] by (simp add: cache_ok_def)
  note U = upd_inv [OF inv]
  show "lock k gpu c = Inr (r, c') \<Longrightarrow> cache_inv c'"
    using inv by (auto simp: lock_def intro!: U keeps_slot_light K elim!: rbindE split: option.splits)
  show "unlock k gpu c = Inr (r, c') \<Longrightarrow> cache_inv c'"
    using inv by (auto simp: unlock_def intro!: U keeps_slot_light K elim!: rbindE split: option.splits if_splits)
  show "mark_ready k gpu part c = Inr c' \<Longrightarrow> cache_inv c'"
    using inv by (auto simp: mark_ready_def intro!: U keeps_slot_light K elim!: rbindE assert_thenE)
  show "mark_all_ready k gpu c = Inr c' \<Longrightarrow> cache_inv c'"
    using inv by (auto simp: mark_all_ready_def intro!: U keeps_slot_light K elim!: rbindE assert_thenE)
qed

section \<open>Elastic zones\<close>

lemma zone_pad_bounds: "0 \<le> zone_pad b" "zone_pad b < kExpertZoneSlotAlign" "(b + zone_pad b) mod kExpertZoneSlotAlign = 0"
proof -
  have m: "0 \<le> b mod 4096" "b mod 4096 < 4096" by simp_all
  then show "0 \<le> zone_pad b" "zone_pad b < kExpertZoneSlotAlign"
    unfolding zone_pad_def kExpertZoneSlotAlign_def Let_def by (auto simp: order_less_le)
  have "4096 dvd b - b mod 4096 + 4096" by (intro dvd_add dvd_minus_mod dvd_refl)
  moreover have "b - b mod 4096 + 4096 = b + (4096 - b mod 4096)" by simp
  ultimately have "(b + (4096 - b mod 4096)) mod 4096 = 0" by (metis mod_0_imp_dvd dvd_imp_mod_0)
  then show "(b + zone_pad b) mod kExpertZoneSlotAlign = 0"
    unfolding zone_pad_def kExpertZoneSlotAlign_def Let_def by auto
qed

lemma shape_init_with_count: "0 < st \<Longrightarrow> 0 < n \<Longrightarrow> shape_of (slot_init_with_count b st n) = (b, st, nat n)"
  by (simp add: shape_of_def slot_init_with_count_def Let_def)

lemma zone_slots_inside:
  assumes "0 < st" "0 < n" "zone_pad b + (n - 1) * st + eb \<le> bytes"
  shows "span eb (shape_of (slot_init_with_count (b + zone_pad b) st n)) \<subseteq> {b ..< b + bytes}"
proof
  fix x assume "x \<in> span eb (shape_of (slot_init_with_count (b + zone_pad b) st n))"
  then obtain i where i: "i < nat n" "b + zone_pad b + int i * st \<le> x" "x < b + zone_pad b + int i * st + eb"
    using assms by (auto simp: span_def shape_of_def slot_init_with_count_def Let_def)
  have "int i * st \<le> (n - 1) * st" using i(1) assms(1) by (intro mult_right_mono) auto
  moreover have "0 \<le> int i * st" using assms(1) by simp
  ultimately show "x \<in> {b ..< b + bytes}" using i assms(3) zone_pad_bounds(1) [of b] by auto
qed

definition grant_disjoint :: "int \<Rightarrow> int \<Rightarrow> int \<Rightarrow> expert_cache \<Rightarrow> bool" where
  "grant_disjoint gpu b bytes c \<longleftrightarrow>
     (\<forall>R \<in> set (regions (expert_bytes c) (geom (ec_gpus c ! nat gpu))). R \<inter> {b ..< b + bytes} = {})"

lemma add_zone_inv:
  assumes inv: "cache_inv c" and r: "add_elastic_zone gpu b bytes st n ck c = Inr (i, c')"
    and st: "expert_bytes c \<le> st" and dj: "grant_disjoint gpu b bytes c"
  shows "cache_inv c'"
proof -
  obtain gs where gs: "gpu_state c gpu = Inr gs" using r by (auto simp: add_elastic_zone_def elim: rbindE)
  note G = gpu_state_ok [OF inv gs]
  define z where "z = \<lparr>z_id = next_elastic_id gs, z_base = b, z_bytes = bytes, z_slot_stride = st, z_state = ZActive,
                      z_slots = slot_init_with_count (b + zone_pad b) st n, z_resident_entries = 0, z_cookie = ck\<rparr>"
  let ?gs = "gs\<lparr>next_elastic_id := next_elastic_id gs + 1, elastic_zones := elastic_zones gs @ [z]\<rparr>"
  have A: "0 < st" "0 < n" "zone_pad b + (n - 1) * st + expert_bytes c \<le> bytes"
    "c' = (put_state gpu ?gs c)\<lparr>elastic_generation := elastic_generation c + 1\<rparr>"
    using r gs by (auto simp: add_elastic_zone_def assert_then_def Let_def z_def split: if_splits)
  have "cache_ok ?gs"
    by (rule add_zone_ok [OF G(1)]) (use A in \<open>simp_all add: z_def slot_init_with_count_def Let_def\<close>)
  moreover have "geom_ok (expert_bytes c) (geom ?gs)"
  proof -
    have "geom ?gs = (fst (geom gs), snd (geom gs) @ [zone_shape z])" by (simp add: geom_def)
    moreover have "zone_shape z = (b, bytes, b + zone_pad b, st, nat n)" "expert_bytes c \<le> st"
      using A(1-3) st by (simp_all add: z_def zone_shape_def shape_init_with_count)
    moreover have "span (expert_bytes c) (b + zone_pad b, st, nat n) \<subseteq> {b ..< b + bytes}"
      using zone_slots_inside [OF A(1-3)] A(1,2) by (simp add: shape_init_with_count)
    ultimately show ?thesis using G(2,4) dj by (auto simp: geom_ok_def regions_def grant_disjoint_def sorted_wrt_append)
  qed
  moreover have "stable_of ?gs = stable_of gs" by (simp add: stable_of_def)
  ultimately show ?thesis using A(4) cache_inv_put_same [OF inv gs] by (simp add: cache_inv_generation)
qed

lemma sorted_wrt_removed:
  "sorted_wrt P (xs @ map f (remove_first_zone i zs))" if "sorted_wrt P (xs @ map f zs)"
proof -
  have "sorted_wrt P (map f (remove_first_zone i zs))" if "sorted_wrt P (map f zs)" for zs
    using that
  proof (induction zs)
    case (Cons z zs)
    then show ?case using remove_first_zone_facts(1) [of i zs] by auto
  qed simp
  then show ?thesis using that remove_first_zone_facts(1) [of i zs] by (fastforce simp: sorted_wrt_append)
qed

lemma geom_ok_remove:
  assumes "geom_ok eb (geom gs)" shows "geom_ok eb (geom (gs\<lparr>elastic_zones := remove_first_zone i (elastic_zones gs)\<rparr>))"
proof -
  let ?zs = "remove_first_zone i (elastic_zones gs)"
  have g: "geom (gs\<lparr>elastic_zones := ?zs\<rparr>) = (fst (geom gs), map zone_shape ?zs)" by (simp add: geom_def)
  have "sorted_wrt (\<lambda>A B. A \<inter> B = {}) (map (span eb) (fst (geom gs)) @ map (\<lambda>z. case zone_shape z of (b, n, s) \<Rightarrow> {b ..< b + n}) (elastic_zones gs))"
    using assms by (simp add: geom_ok_def regions_def geom_def o_def)
  from sorted_wrt_removed [OF this, of i]
  have "sorted_wrt (\<lambda>A B. A \<inter> B = {}) (regions eb (fst (geom gs), map zone_shape ?zs))" by (simp add: regions_def o_def)
  moreover have "set (map zone_shape ?zs) \<subseteq> set (snd (geom gs))"
    using remove_first_zone_facts(1) [of i "elastic_zones gs"] by (auto simp: geom_def)
  ultimately show ?thesis using assms unfolding g geom_ok_def by (metis (no_types, lifting) fst_conv snd_conv subsetD)
qed

lemma drain_inv:
  assumes inv: "cache_inv c" and r: "begin_drain_elastic_zone gpu i c = Inr (b, c')" shows "cache_inv c'"
proof -
  obtain gs where gs: "gpu_state c gpu = Inr gs" using r by (auto simp: begin_drain_elastic_zone_def elim: rbindE)
  note G = gpu_state_ok [OF inv gs]
  let ?gs = "gs\<lparr>elastic_zones := upd_first_zone i (\<lambda>z. z\<lparr>z_state := ZDraining\<rparr>) (elastic_zones gs)\<rparr>"
  have "geom ?gs = geom gs" by (simp add: geom_def upd_first_zone_map zone_shape_def)
  moreover have "stable_of ?gs = stable_of gs" by (simp add: stable_of_def)
  ultimately have "cache_inv (put_state gpu ?gs c)" using cache_inv_put_same [OF inv gs drain_zone_ok [OF G(1)]] G(2) by simp
  then show ?thesis using r gs inv by (auto simp: begin_drain_elastic_zone_def cache_inv_generation Let_def split: if_splits)
qed

lemma remove_inv:
  assumes inv: "cache_inv c" and r: "remove_elastic_zone gpu i c = Inr (b, c')" shows "cache_inv c'"
proof -
  obtain gs where gs: "gpu_state c gpu = Inr gs" using r by (auto simp: remove_elastic_zone_def elim: rbindE)
  note G = gpu_state_ok [OF inv gs]
  let ?gs = "gs\<lparr>elastic_zones := remove_first_zone i (elastic_zones gs)\<rparr>"
  show ?thesis
  proof (cases "\<exists>z. find_elastic_zone i gs = Some z \<and> z_resident_entries z = 0")
    case True
    then have "cache_ok ?gs" using remove_zone_ok [OF G(1)] by blast
    moreover have "stable_of ?gs = stable_of gs" by (simp add: stable_of_def)
    ultimately have "cache_inv (put_state gpu ?gs c)" using cache_inv_put_same [OF inv gs] geom_ok_remove [OF G(2)] by simp
    then show ?thesis using True r gs inv by (auto simp: remove_elastic_zone_def cache_inv_generation Let_def)
  next
    case False
    then show ?thesis using r gs inv by (auto simp: remove_elastic_zone_def split: option.splits)
  qed
qed

section \<open>Spill mode and zone tags\<close>

definition no_spill_resident :: "int \<Rightarrow> expert_cache \<Rightarrow> bool" where
  "no_spill_resident gpu c \<longleftrightarrow> list_all (\<lambda>(k, e). \<not> in_spill_zone e) (residents (ec_gpus c ! nat gpu))"

lemma enter_spill_inv:
  assumes inv: "cache_inv c" and r: "enter_spill_mode gpu c = Inr (s, c')" shows "cache_inv c'"
proof -
  obtain gs where gs: "gpu_state c gpu = Inr gs" using r by (auto simp: enter_spill_mode_def elim: rbindE)
  note G = gpu_state_ok [OF inv gs]
  obtain gs' where gs': "gs' = gs\<lparr>residents := filter (\<lambda>(k, e). \<not> spill_evictable e) (residents gs),
                         duplicate_count := duplicate_count gs
                           - int (length (filter (\<lambda>(k, e). ce_duplicate e) (filter (\<lambda>(k, e). spill_evictable e) (residents gs)))),
                         spill_slots := (spill_slots gs)\<lparr>sa_free := []\<rparr>, cmode := KSpillActive\<rparr>" by blast
  have n: "cmode gs = KNormal" and c': "c' = put_state gpu gs' c"
    using r gs unfolding gs' by (auto simp: enter_spill_mode_def assert_then_def Let_def split: if_splits)
  have "geom gs' = geom gs" by (simp add: gs' geom_def)
  moreover have "stable_of gs' = stable_of gs" by (auto simp: gs' stable_of_def spill_evictable_def)
  ultimately show ?thesis unfolding c' using cache_inv_put_same [OF inv gs enter_spill_ok [OF G(1) n gs']] G(2) by simp
qed

lemma exit_spill_inv:
  assumes inv: "cache_inv c" and r: "exit_spill_mode gpu c = Inr c'" and ns: "no_spill_resident gpu c" shows "cache_inv c'"
proof -
  obtain gs where gs: "gpu_state c gpu = Inr gs" using r by (auto simp: exit_spill_mode_def elim: rbindE)
  note G = gpu_state_ok [OF inv gs]
  let ?gs = "gs\<lparr>spill_slots := (spill_slots gs)\<lparr>sa_free := rev [0..<sa_total (spill_slots gs)]\<rparr>, cmode := KNormal\<rparr>"
  have c': "c' = put_state gpu ?gs c" using r gs by (auto simp: exit_spill_mode_def assert_then_def Let_def split: if_splits)
  have "cache_ok ?gs" using ns G(4) by (intro exit_spill_ok [OF G(1)]) (auto simp: no_spill_resident_def list_all_iff)
  moreover have "geom ?gs = geom gs" by (simp add: geom_def)
  moreover have "stable_of ?gs = stable_of gs" by (simp add: stable_of_def)
  ultimately show ?thesis unfolding c' using cache_inv_put_same [OF inv gs] G(2) by simp
qed

definition in_elastic_zone :: "expert_key \<Rightarrow> int \<Rightarrow> expert_cache \<Rightarrow> bool" where
  "in_elastic_zone k gpu c \<longleftrightarrow> (case lookup k gpu c of None \<Rightarrow> True | Some e \<Rightarrow> 0 \<le> elastic_zone e)"

lemma stable_of_retag:
  assumes "keys_ok gs" "(k, e) \<in> set (residents gs)"
  shows "stable_of (upd_resident k (\<lambda>e. e\<lparr>ce_zone := KStable\<rparr>) gs) = insert k (stable_of gs)"
    "stable_of (upd_resident k (\<lambda>e. e\<lparr>ce_zone := KStreaming\<rparr>) gs) = stable_of gs - {k}"
  using assms(2) by (force simp: stable_of_def upd_resident_def split: if_splits)+

lemma retag_inv:
  assumes inv: "cache_inv c" and el: "in_elastic_zone k gpu c"
  shows "cache_promote k gpu c = Inr (b, c') \<Longrightarrow> cache_inv c'" "cache_demote k gpu c = Inr (b, c') \<Longrightarrow> cache_inv c'"
proof -
  have *: "cache_ok (upd_resident k (\<lambda>e. e\<lparr>ce_zone := z\<rparr>) gs) \<and> (k, e) \<in> set (residents gs) \<and> keys_ok gs"
    if "gpu_state c gpu = Inr gs" "find_resident k gs = Some e" for gs e z
  proof -
    note G = gpu_state_ok [OF inv that(1)]
    have K: "keys_ok gs" using G(1) by (simp add: cache_ok_def)
    have mem: "(k, e) \<in> set (residents gs)" using that(2) K by (simp add: find_resident_Some)
    have "0 \<le> elastic_zone e" using el that G(3,4) by (simp add: in_elastic_zone_def lookup_def)
    moreover have "\<not> in_spill_zone e" using K mem \<open>0 \<le> elastic_zone e\<close> by (auto simp: keys_ok_def)
    ultimately have "keeps_slot (\<lambda>e. e\<lparr>ce_zone := z\<rparr>) e" by (simp add: keeps_slot_def place_def)
    then have "keeps_slot (\<lambda>e. e\<lparr>ce_zone := z\<rparr>) e'" if "(k, e') \<in> set (residents gs)" for e'
      using that mem K by (metis find_resident_Some option.inject)
    then show ?thesis using K mem upd_resident_ok [OF G(1)] by blast
  qed
  have P: "cache_inv (notify (ResidentAdded k gpu) (put_state gpu (upd_resident k (\<lambda>e. e\<lparr>ce_zone := KStable\<rparr>) gs) c))"
    and D: "cache_inv (notify (ResidentRemoved k gpu) (put_state gpu (upd_resident k (\<lambda>e. e\<lparr>ce_zone := KStreaming\<rparr>) gs) c))"
    if "gpu_state c gpu = Inr gs" "find_resident k gs = Some e" for gs e
    using * [OF that] stable_of_retag [of gs k e] gpu_state_ok(2) [OF inv that(1)]
    by (auto intro: cache_inv_put_added [OF inv that(1)] cache_inv_put_removed [OF inv that(1)])
  show "cache_promote k gpu c = Inr (b, c') \<Longrightarrow> cache_inv c'"
    using inv P by (auto simp: cache_promote_def elim!: rbindE split: option.splits if_splits)
  show "cache_demote k gpu c = Inr (b, c') \<Longrightarrow> cache_inv c'"
    using inv D by (auto simp: cache_demote_def elim!: rbindE split: option.splits if_splits)
qed

section \<open>Reachable states\<close>

inductive cache_step :: "expert_cache \<Rightarrow> expert_cache \<Rightarrow> bool" where
  step_reserve: "reserve k gpu z dup c = Inr (r, c') \<Longrightarrow> cache_step c c'"
| step_mark: "mark_ready k gpu part c = Inr c' \<Longrightarrow> cache_step c c'"
| step_mark_all: "mark_all_ready k gpu c = Inr c' \<Longrightarrow> cache_step c c'"
| step_lock: "lock k gpu c = Inr (b, c') \<Longrightarrow> cache_step c c'"
| step_unlock: "unlock k gpu c = Inr (b, c') \<Longrightarrow> cache_step c c'"
| step_evict: "evict k gpu c = Inr (b, c') \<Longrightarrow> cache_step c c'"
| step_promote: "\<lbrakk>in_elastic_zone k gpu c; cache_promote k gpu c = Inr (b, c')\<rbrakk> \<Longrightarrow> cache_step c c'"
| step_demote: "\<lbrakk>in_elastic_zone k gpu c; cache_demote k gpu c = Inr (b, c')\<rbrakk> \<Longrightarrow> cache_step c c'"
| step_add_zone: "\<lbrakk>expert_bytes c \<le> st; grant_disjoint gpu base bytes c;
    add_elastic_zone gpu base bytes st n cookie c = Inr (i, c')\<rbrakk> \<Longrightarrow> cache_step c c'"
| step_drain: "begin_drain_elastic_zone gpu i c = Inr (b, c') \<Longrightarrow> cache_step c c'"
| step_remove_zone: "remove_elastic_zone gpu i c = Inr (b, c') \<Longrightarrow> cache_step c c'"
| step_enter_spill: "enter_spill_mode gpu c = Inr (s, c') \<Longrightarrow> cache_step c c'"
| step_exit_spill: "\<lbrakk>no_spill_resident gpu c; exit_spill_mode gpu c = Inr c'\<rbrakk> \<Longrightarrow> cache_step c c'"
| step_hints: "cache_step c (invalidate_affinity_hints c)"

inductive_cases cache_stepE: "cache_step c c'"

lemma cache_step_inv: "cache_step c c' \<Longrightarrow> cache_inv c \<Longrightarrow> cache_inv c'"
proof (induction rule: cache_step.induct)
  case (step_hints c)
  then show ?case by (simp add: invalidate_affinity_hints_def cache_inv_def gpus_ok_def listener_ok_def split: option.splits)
qed (auto intro: reserve_inv evict_inv lock_mark_inv retag_inv add_zone_inv drain_inv remove_inv enter_spill_inv exit_spill_inv)

text \<open>The regions that the layout hands to the constructor.\<close>

definition cache_layout_ok :: "int \<Rightarrow> cache_layout \<Rightarrow> bool" where
  "cache_layout_ok eb l \<longleftrightarrow>
     0 < eb \<and> 0 \<le> stable_zone_bytes l \<and> 0 \<le> spill_zone_bytes l \<and> 0 \<le> prefetch_zone_bytes l
     \<and> (region_stable l + stable_zone_bytes l \<le> region_streaming l
        \<or> region_streaming l + spill_zone_bytes l + prefetch_zone_bytes l \<le> region_stable l)"

inductive cache_reachable :: "cache_layout list \<Rightarrow> int \<Rightarrow> bool \<Rightarrow> expert_cache \<Rightarrow> bool" for ls eb dup where
  cache_initial: "cache_reachable ls eb dup (set_residency_listener (expert_cache_init ls eb dup))"
| cache_next: "\<lbrakk>cache_reachable ls eb dup c; cache_step c c'\<rbrakk> \<Longrightarrow> cache_reachable ls eb dup c'"

lemma slot_init_span:
  assumes "0 < eb" "0 \<le> zb" shows "span eb (shape_of (slot_init b eb zb)) \<subseteq> {b ..< b + zb}"
proof
  fix x assume "x \<in> span eb (shape_of (slot_init b eb zb))"
  then obtain i where i: "i < nat (zb div eb)" "b + int i * eb \<le> x" "x < b + int i * eb + eb"
    using assms by (auto simp: span_def shape_of_def slot_init_def Let_def)
  have "(int i + 1) * eb \<le> zb div eb * eb" using i(1) assms(1) by (intro mult_right_mono) linarith+
  also have "\<dots> \<le> zb" using assms by (metis div_mult_mod_eq le_add_same_cancel1 pos_mod_sign)
  finally have "int i * eb + eb \<le> zb" by (simp add: algebra_simps)
  moreover have "0 \<le> int i * eb" using assms(1) by simp
  ultimately show "x \<in> {b ..< b + zb}" using i unfolding atLeastLessThan_iff by linarith
qed

lemma cache_init_gpu_ok:
  assumes "cache_layout_ok eb l"
  shows "cache_ok (init_gpu_cache eb l) \<and> geom_ok eb (geom (init_gpu_cache eb l))"
proof
  have a: "alloc_at (init_gpu_cache eb l) pl = Some sa \<Longrightarrow> mset (sa_free sa) = mset [0..<sa_total sa]" for pl sa
    by (cases pl) (auto simp: init_gpu_cache_def find_elastic_zone_def slot_init_def Let_def)
  have "slots_at (init_gpu_cache eb l) pl = []" for pl by (simp add: slots_at_def placed_def init_gpu_cache_def)
  moreover have "cmode (init_gpu_cache eb l) = KNormal" by (simp add: init_gpu_cache_def)
  ultimately have "allocs_ok (init_gpu_cache eb l)" using a by (simp add: allocs_ok_def slot_inv_def)
  then show "cache_ok (init_gpu_cache eb l)"
    by (simp add: cache_ok_def keys_ok_def placed_ok_def zones_ok_def dups_ok_def init_gpu_cache_def)
  have L: "0 < eb" "0 \<le> stable_zone_bytes l" "0 \<le> spill_zone_bytes l" "0 \<le> prefetch_zone_bytes l"
    using assms by (auto simp: cache_layout_ok_def)
  have D: "A \<inter> B = {}" if "A \<subseteq> {a ..< b}" "B \<subseteq> {c ..< d}" "b \<le> c \<or> d \<le> a" for A B :: "int set" and a b c d
    using that by (meson atLeastLessThan_iff disjoint_iff in_mono leD order_trans)
  let ?S = "span eb (shape_of (slot_init (region_stable l) eb (stable_zone_bytes l)))"
  let ?P = "span eb (shape_of (slot_init (region_streaming l) eb (spill_zone_bytes l)))"
  let ?Q = "span eb (shape_of (slot_init (region_streaming l + spill_zone_bytes l) eb (prefetch_zone_bytes l)))"
  note I = slot_init_span [OF L(1)]
  have "?S \<inter> ?P = {}" by (rule D [OF I [OF L(2)] I [OF L(3)]]) (use assms in \<open>auto simp: cache_layout_ok_def\<close>)
  moreover have "?S \<inter> ?Q = {}" by (rule D [OF I [OF L(2)] I [OF L(4)]]) (use assms in \<open>auto simp: cache_layout_ok_def\<close>)
  moreover have "?P \<inter> ?Q = {}" by (rule D [OF I [OF L(3)] I [OF L(4)]]) simp
  moreover have "fst (snd (shape_of (slot_init b eb zb))) = eb" for b zb by (simp add: shape_of_def slot_init_def Let_def)
  ultimately show "geom_ok eb (geom (init_gpu_cache eb l))"
    by (simp add: geom_ok_def geom_def regions_def init_gpu_cache_def case_prod_beta)
qed

lemma cache_reachable_inv:
  assumes "cache_reachable ls eb dup c" "list_all (cache_layout_ok eb) ls" shows "cache_inv c"
  using assms
proof (induction rule: cache_reachable.induct)
  case cache_initial
  then show ?case using cache_init_gpu_ok
    by (auto simp: cache_inv_def gpus_ok_def expert_cache_init_def set_residency_listener_def listener_ok_def mirror_def
          stable_residents_def stable_of_def valid_cache_gpu_def list_all_iff init_gpu_cache_def)
qed (auto intro: cache_step_inv)

end
