(* ===== verification/Expert_Cache_Properties.thy ===== *)
theory Expert_Cache_Properties
  imports Expert_Cache_Machine
begin

text \<open>
  The properties of the expert cache over its reachable states: memory safety of the slots, the exact
  conditions under which an expert is admitted and evicted, the capacity counters, the residency listener,
  the hand-over of an elastic zone, and the topology generation.
\<close>

section \<open>Counting and lookup lemmas\<close>

lemma gpu_state_valid: "valid_cache_gpu c gpu \<Longrightarrow> gpu_state c gpu = Inr (ec_gpus c ! nat gpu)"
  by (simp add: gpu_state_def)

lemma lookup_state: "gpu_state c gpu = Inr gs \<Longrightarrow> lookup k gpu c = find_resident k gs"
  by (auto simp: gpu_state_Inr lookup_def)

lemma lookup_valid: "lookup k gpu c = Some e \<Longrightarrow> valid_cache_gpu c gpu \<and> find_resident k (ec_gpus c ! nat gpu) = Some e"
  by (simp add: lookup_def split: if_splits)

lemma lookup_put:
  "valid_cache_gpu c gpu \<Longrightarrow> lookup k g (put_state gpu gs c) = (if g = gpu then find_resident k gs else lookup k g c)"
  by (auto simp: lookup_def valid_cache_gpu_def nth_list_update nat_eq_iff)

lemma lookup_notify [simp]: "lookup k g (notify ev c) = lookup k g c"
  by (simp add: lookup_def valid_cache_gpu_def)

lemma find_resident_append:
  assumes "residents gs' = residents gs @ [(k, e)]" "find_resident k gs = None"
  shows "find_resident k' gs' = (if k' = k then Some e else find_resident k' gs)"
  using assms by (auto simp: find_resident_def map_add_def split: option.splits)

lemma alloc_length:
  assumes "cache_ok gs" "alloc_at gs pl = Some sa" "\<not> (pl = PSpill \<and> cmode gs = KSpillActive)"
  shows "length (sa_free sa) + length (slots_at gs pl) = sa_total sa"
proof -
  have "mset (sa_free sa) + mset (slots_at gs pl) = mset [0..<sa_total sa]"
    using assms unfolding cache_ok_def allocs_ok_def slot_inv_def by metis
  from arg_cong [OF this, of size] show ?thesis by simp
qed

lemma active_zone_length:
  assumes ok: "cache_ok gs"
  shows "sum_list (map (\<lambda>z. sa_total (z_slots z)) (filter P (elastic_zones gs)))
    = sum_list (map (\<lambda>z. length (sa_free (z_slots z))) (filter P (elastic_zones gs)))
      + sum_list (map (\<lambda>z. length (slots_at gs (PZone (z_id z)))) (filter P (elastic_zones gs)))"
proof -
  have "zones_ok gs" using ok by (simp add: cache_ok_def)
  then have "alloc_at gs (PZone (z_id z)) = Some (z_slots z)" if "z \<in> set (elastic_zones gs)" for z
    using that by (simp add: zones_ok_def find_elastic_zone_def find_zone_iff [THEN iffD2])
  then have "sa_total (z_slots z) = length (sa_free (z_slots z)) + length (slots_at gs (PZone (z_id z)))"
    if "z \<in> set (elastic_zones gs)" for z
    using alloc_length [OF ok, of "PZone (z_id z)"] that by fastforce
  then show ?thesis unfolding sum_list_addf [symmetric]
    by (intro arg_cong [where f = sum_list] map_cong) auto
qed

lemma slots_at_union:
  assumes "distinct (map z_id zs)"
  shows "length (filter (\<lambda>(k, e). \<exists>z \<in> set zs. place e = PZone (z_id z)) (residents gs))
    = sum_list (map (\<lambda>z. length (slots_at gs (PZone (z_id z)))) zs)"
  using assms
proof (induction zs)
  case (Cons z zs)
  have "length (filter (\<lambda>(k, e). \<exists>z \<in> set (z # zs). place e = PZone (z_id z)) xs)
      = length (filter (\<lambda>(k, e). place e = PZone (z_id z)) xs)
        + length (filter (\<lambda>(k, e). \<exists>z \<in> set zs. place e = PZone (z_id z)) xs)" for xs :: "(expert_key \<times> cache_entry) list"
    using Cons.prems by (induction xs) (auto simp: image_iff)
  then show ?case using Cons by (simp add: slots_at_def placed_def)
qed simp

lemma free_slots_zero:
  assumes "gpu_state c gpu = Inr gs" shows "free_slots gpu z c = Inr 0 \<longleftrightarrow> zone_full z gs"
  using assms by (cases "cmode gs") (auto simp: free_slots_def zone_full_def sum_list_eq_0_iff)

lemma reserve_total: "gpu_state c gpu = Inr gs \<Longrightarrow> \<exists>r c'. reserve k gpu z d c = Inr (r, c')"
  by (simp add: reserve_def Let_def case_prod_beta)

text \<open>The free lists are last-in first-out, so giving a slot back restores the allocator exactly.\<close>

lemma slot_free_allocate: "slot_allocate sa = (Some i, sa') \<Longrightarrow> slot_free i sa' = sa"
  by (auto simp: slot_allocate_def slot_free_def split: if_splits)

lemma upd_first_zone_twice:
  assumes "\<And>z. z_id (f z) = z_id z" shows "upd_first_zone i g (upd_first_zone i f zs) = upd_first_zone i (\<lambda>z. g (f z)) zs"
  using assms by (induction zs) auto

lemma upd_first_zone_id: "find (\<lambda>z. z_id z = i) zs = Some z \<Longrightarrow> f z = z \<Longrightarrow> upd_first_zone i f zs = zs"
  by (induction zs) (auto split: if_splits)

lemma erase_emplace:
  assumes "find_resident (ce_key e) gs = None"
  shows "erase_resident (ce_key e) (drop_duplicate e (emplace_entry e gs)) = gs"
proof -
  have "filter (\<lambda>(k', e'). k' \<noteq> ce_key e) (residents gs) = residents gs"
    using assms by (force simp: find_resident_None filter_id_conv)
  then show ?thesis by (simp add: erase_resident_def drop_duplicate_def emplace_entry_def)
qed

lemma return_emplaced:
  assumes "slot_allocate sa = (Some (slot_idx e), sa')"
    "place e = PStable \<and> sa = stable_slots gs \<and> gs1 = gs\<lparr>stable_slots := sa'\<rparr>
      \<or> place e = PSpill \<and> sa = spill_slots gs \<and> gs1 = gs\<lparr>spill_slots := sa'\<rparr> \<and> cmode gs \<noteq> KSpillActive
      \<or> place e = PPrefetch \<and> sa = prefetch_slots gs \<and> gs1 = gs\<lparr>prefetch_slots := sa'\<rparr>"
  shows "return_slot e (emplace_entry e gs1) = Inr (emplace_entry e gs)"
  using assms(2) slot_free_allocate [OF assms(1)]
  by (auto simp: return_slot_def place_def emplace_entry_def split: if_splits)

lemma return_emplaced_zone:
  assumes "zones_ok gs" "offer_zones (elastic_zones gs) = (Some (elastic_zone e, slot_idx e, a), zs)"
  shows "return_slot e (emplace_entry e (gs\<lparr>elastic_zones := zs\<rparr>)) = Inr (emplace_entry e gs)"
proof -
  have dist: "distinct (map z_id (elastic_zones gs))" using assms(1) by (simp add: zones_ok_def)
  let ?i = "elastic_zone e"
  obtain z sa where z: "find (\<lambda>z. z_id z = ?i) (elastic_zones gs) = Some z" "slot_allocate (z_slots z) = (Some (slot_idx e), sa)"
    "zs = upd_first_zone ?i (\<lambda>z. z\<lparr>z_slots := sa, z_resident_entries := z_resident_entries z + 1\<rparr>) (elastic_zones gs)"
    using offer_zones_Some [OF dist assms(2)] by auto
  have "0 \<le> ?i" using z(1) assms(1) dist by (auto simp: zones_ok_def find_zone_iff)
  moreover have "find (\<lambda>z. z_id z = ?i) zs \<noteq> None" using z(1) unfolding z(3) by (subst find_upd_first_zone) auto
  moreover have "upd_first_zone ?i (\<lambda>z. z\<lparr>z_slots := slot_free (slot_idx e) (z_slots z), z_resident_entries := z_resident_entries z - 1\<rparr>) zs
      = elastic_zones gs"
    unfolding z(3) using z(1) slot_free_allocate [OF z(2)] by (subst upd_first_zone_twice) (auto intro!: upd_first_zone_id)
  ultimately show ?thesis by (simp add: return_slot_def find_elastic_zone_def emplace_entry_def)
qed

definition undone_by_evict :: "expert_key \<Rightarrow> cache_zone \<Rightarrow> gpu_cache \<Rightarrow> gpu_cache \<Rightarrow> bool" where
  "undone_by_evict k z gs gs' \<longleftrightarrow>
     (\<exists>e gs1. find_resident k gs' = Some e \<and> lock_count e = 0 \<and> ce_zone e = z \<and> return_slot e gs' = Inr gs1
        \<and> erase_resident k (drop_duplicate e gs1) = gs)"

lemma emplaced_undone:
  assumes "e = make_entry c k gpu z d spill a slot i" "find_resident k gs = None" "residents gs1 = residents gs"
    "return_slot e (emplace_entry e gs1) = Inr (emplace_entry e gs)"
  shows "undone_by_evict k z gs (emplace_entry e gs1)"
proof -
  have "find_resident k (emplace_entry e gs1) = Some e"
    using assms(1-3) by (subst find_resident_append [of _ gs k e]) simp_all
  moreover have "lock_count e = 0" by (simp add: assms(1) make_entry_def)
  ultimately show ?thesis using assms erase_emplace [of e gs] by (auto simp: undone_by_evict_def)
qed

lemma prefetch_undone:
  assumes "reserve_prefetch c k gpu d gs = (Some a, gs')" "find_resident k gs = None"
  shows "undone_by_evict k KStreaming gs gs'"
proof -
  obtain slot sa where o: "slot_allocate (prefetch_slots gs) = (Some slot, sa)"
    "gs' = emplace_entry (make_entry c k gpu KStreaming d False a slot (- 1)) (gs\<lparr>prefetch_slots := sa\<rparr>)"
    using assms(1) by (auto simp: reserve_prefetch_def Let_def split: prod.splits option.splits)
  show ?thesis unfolding o(2)
    by (rule emplaced_undone [OF refl assms(2)]) (use o(1) in \<open>simp_all add: return_emplaced\<close>)
qed

lemma streaming_undone:
  assumes r: "reserve_streaming c k gpu d gs = (Some a, gs')" and new: "find_resident k gs = None"
  shows "undone_by_evict k KStreaming gs gs'"
proof (cases "cmode gs = KSpillActive \<or> sa_free (spill_slots gs) = []")
  case True
  then show ?thesis using r by (intro prefetch_undone [OF _ new]) (auto simp: reserve_streaming_def slot_allocate_def split: if_splits)
next
  case False
  then obtain slot sa where o: "slot_allocate (spill_slots gs) = (Some slot, sa)"
    "gs' = emplace_entry (make_entry c k gpu KStreaming d True a slot (- 1)) (gs\<lparr>spill_slots := sa\<rparr>)"
    using r by (auto simp: reserve_streaming_def Let_def slot_allocate_def split: prod.splits option.splits)
  show ?thesis unfolding o(2)
    by (rule emplaced_undone [OF refl new]) (use o(1) False in \<open>simp_all add: return_emplaced\<close>)
qed

lemma stable_undone:
  assumes r: "reserve_stable c k gpu d gs = (Some a, gs')" and zok: "zones_ok gs" and new: "find_resident k gs = None"
  shows "undone_by_evict k KStable gs gs'"
proof (cases "sa_free (stable_slots gs) = []")
  case True
  then obtain i slot zs where o: "offer_zones (elastic_zones gs) = (Some (i, slot, a), zs)"
    "gs' = emplace_entry (make_entry c k gpu KStable d False a slot i) (gs\<lparr>elastic_zones := zs\<rparr>)"
    using r by (auto simp: reserve_stable_def slot_allocate_def split: prod.splits option.splits)
  show ?thesis unfolding o(2)
    by (rule emplaced_undone [OF refl new]) (use o(1) in \<open>simp_all add: return_emplaced_zone [OF zok]\<close>)
next
  case False
  then obtain slot sa where o: "slot_allocate (stable_slots gs) = (Some slot, sa)"
    "gs' = emplace_entry (make_entry c k gpu KStable d False a slot (- 1)) (gs\<lparr>stable_slots := sa\<rparr>)"
    using r by (auto simp: reserve_stable_def Let_def slot_allocate_def split: prod.splits option.splits)
  show ?thesis unfolding o(2)
    by (rule emplaced_undone [OF refl new]) (use o(1) in \<open>simp_all add: return_emplaced\<close>)
qed

lemma listener_notify [simp]: "listener (notify ev c) = map_option (\<lambda>evs. evs @ [ev]) (listener c)"
  by (simp add: notify_def split: option.split)

lemma cache_step_listener: "cache_step c c' \<Longrightarrow> listener c \<noteq> None \<Longrightarrow> listener c' \<noteq> None"
proof (induction rule: cache_step.induct)
  case (step_reserve k gpu z dup c r c')
  then show ?case by (auto simp: reserve_def Let_def elim!: rbindE split: prod.splits if_splits)
qed (auto simp: mark_ready_def mark_all_ready_def lock_def unlock_def evict_def cache_promote_def cache_demote_def
      add_elastic_zone_def begin_drain_elastic_zone_def remove_elastic_zone_def enter_spill_mode_def exit_spill_mode_def
      invalidate_affinity_hints_def Let_def elim!: rbindE assert_thenE split: option.splits if_splits)

lemma cache_reachable_listener: "cache_reachable ls eb dup c \<Longrightarrow> listener c \<noteq> None"
proof (induction rule: cache_reachable.induct)
  case cache_initial
  then show ?case by (simp add: set_residency_listener_def)
qed (rule cache_step_listener)

lemma zone_region_free:
  assumes ok: "cache_ok gs" "geom_ok eb (geom gs)" and e: "(k, e) \<in> set (residents gs)"
    and z: "z \<in> set (elastic_zones gs)" "place e \<noteq> PZone (z_id z)"
  shows "resident_bytes eb e \<inter> {z_base z ..< z_base z + z_bytes z} = {}"
proof -
  have zok: "zones_ok gs" using ok by (simp add: cache_ok_def)
  obtain sa where sa: "alloc_at gs (place e) = Some sa" "vram_address e = slot_address sa (slot_idx e)" "slot_idx e < sa_total sa"
    using resident_slot [OF ok(1) e] .
  let ?R = "regions eb (geom gs)"
  obtain n where n: "n < length ?R" "span eb (shape_of sa) \<subseteq> ?R ! n"
    "case place e of PStable \<Rightarrow> n = 0 | PSpill \<Rightarrow> n = 1 | PPrefetch \<Rightarrow> n = 2
         | PZone i \<Rightarrow> 3 \<le> n \<and> z_id (elastic_zones gs ! (n - 3)) = i"
    using alloc_region [OF sa(1) ok(2) zok] by blast
  obtain m where m: "m < length (elastic_zones gs)" "elastic_zones gs ! m = z" using z(1) by (auto simp: in_set_conv_nth)
  have r: "m + 3 < length ?R" "?R ! (m + 3) = {z_base z ..< z_base z + z_bytes z}"
    using m by (simp_all add: regions_def geom_def nth_append zone_shape_def)
  have "n \<noteq> m + 3" using n(3) z(2) m(2) by (cases "place e") auto
  moreover have "sorted_wrt (\<lambda>A B. A \<inter> B = {}) ?R" using ok(2) by (simp add: geom_ok_def)
  ultimately have "?R ! n \<inter> ?R ! (m + 3) = {}"
    using n(1) r(1) sorted_wrt_nth_less [of _ ?R n "m + 3"] sorted_wrt_nth_less [of _ ?R "m + 3" n]
    by (cases "n < m + 3") (auto simp: Int_commute)
  then show ?thesis using slot_in_span [OF sa(3), of eb] n(2) unfolding r(2) resident_bytes_def sa(2) by blast
qed

section \<open>A concrete cache\<close>

definition demo_regions :: cache_layout where
  "demo_regions = \<lparr>region_stable = 4096, region_streaming = 16384, stable_zone_bytes = 4096,
                   spill_zone_bytes = 4096, prefetch_zone_bytes = 4096\<rparr>"

definition demo_cache :: expert_cache where
  "demo_cache = set_residency_listener (expert_cache_init [demo_regions] 4096 False)"

definition from_res :: "'a res \<Rightarrow> 'a \<Rightarrow> 'a" where
  "from_res r d = (case r of Inl e \<Rightarrow> d | Inr x \<Rightarrow> x)"

definition demo_cache1 :: expert_cache where
  "demo_cache1 = snd (from_res (reserve (ExpertKey 0 1) 0 KStable False demo_cache) (None, demo_cache))"

definition demo_cache2 :: expert_cache where
  "demo_cache2 = snd (from_res (reserve (ExpertKey 0 2) 0 KStreaming False demo_cache1) (None, demo_cache1))"

definition demo_cache3 :: expert_cache where
  "demo_cache3 = snd (from_res (add_elastic_zone 0 40961 20000 4096 2 7 demo_cache2) (0, demo_cache2))"

definition demo_cache4 :: expert_cache where
  "demo_cache4 = snd (from_res (reserve (ExpertKey 0 3) 0 KStable False demo_cache3) (None, demo_cache3))"

lemma demo_layout_ok: "list_all (cache_layout_ok 4096) [demo_regions]"
  by (simp add: cache_layout_ok_def demo_regions_def)

lemma demo_reach0: "cache_reachable [demo_regions] 4096 False demo_cache"
  unfolding demo_cache_def by (rule cache_initial)

lemma demo_step1: "reserve (ExpertKey 0 1) 0 KStable False demo_cache = Inr (Some 4096, demo_cache1)"
  by code_simp

lemma demo_step2: "reserve (ExpertKey 0 2) 0 KStreaming False demo_cache1 = Inr (Some 16384, demo_cache2)"
  by code_simp

lemma demo_step3: "add_elastic_zone 0 40961 20000 4096 2 7 demo_cache2 = Inr (0, demo_cache3)"
  by code_simp

lemma demo_step4: "reserve (ExpertKey 0 3) 0 KStable False demo_cache3 = Inr (Some 45056, demo_cache4)"
  by code_simp

lemma demo_reach1: "cache_reachable [demo_regions] 4096 False demo_cache1"
  by (rule cache_next [OF demo_reach0 step_reserve [OF demo_step1]])

lemma demo_reach2: "cache_reachable [demo_regions] 4096 False demo_cache2"
  by (rule cache_next [OF demo_reach1 step_reserve [OF demo_step2]])

lemma demo_grant: "grant_disjoint 0 40961 20000 demo_cache2"
proof -
  have "geom (ec_gpus demo_cache2 ! 0) = ([(4096, 4096, 1), (16384, 4096, 1), (20480, 4096, 1)], [])" by code_simp
  moreover have "expert_bytes demo_cache2 = 4096" by code_simp
  ultimately show ?thesis by (auto simp: grant_disjoint_def regions_def span_def)
qed

lemma demo_reach3: "cache_reachable [demo_regions] 4096 False demo_cache3"
proof -
  have "expert_bytes demo_cache2 \<le> 4096" by code_simp
  then show ?thesis by (rule cache_next [OF demo_reach2 step_add_zone [OF _ demo_grant demo_step3]])
qed

lemma demo_reach4: "cache_reachable [demo_regions] 4096 False demo_cache4"
  by (rule cache_next [OF demo_reach3 step_reserve [OF demo_step4]])

section \<open>Where a resident lies\<close>

lemma lookup_resident:
  assumes "cache_inv c" "lookup k g c = Some e" shows "(k, e) \<in> set (residents (ec_gpus c ! nat g))"
proof -
  have gs: "gpu_state c g = Inr (ec_gpus c ! nat g)" using lookup_valid [OF assms(2)] gpu_state_valid by blast
  have "keys_ok (ec_gpus c ! nat g)" using gpu_state_ok(1) [OF assms(1) gs] by (simp add: cache_ok_def)
  with lookup_valid [OF assms(2)] find_resident_Some show ?thesis by blast
qed

lemma resident_region:
  assumes inv: "cache_inv c" and k: "lookup k g c = Some e"
  shows "\<exists>R \<in> set (regions (expert_bytes c) (geom (ec_gpus c ! nat g))). resident_bytes (expert_bytes c) e \<subseteq> R"
proof -
  let ?gs = "ec_gpus c ! nat g"
  have gs: "gpu_state c g = Inr ?gs" using lookup_valid [OF k] gpu_state_valid by blast
  note G = gpu_state_ok [OF inv gs]
  have Z: "zones_ok ?gs" using G(1) by (simp add: cache_ok_def)
  obtain sa where sa: "alloc_at ?gs (place e) = Some sa" "vram_address e = slot_address sa (slot_idx e)" "slot_idx e < sa_total sa"
    using resident_slot [OF G(1) lookup_resident [OF inv k]] .
  then show ?thesis
    using alloc_region [OF sa(1) G(2) Z] slot_in_span [OF sa(3), of "expert_bytes c"] unfolding resident_bytes_def sa(2)
    by (meson nth_mem order_trans)
qed

section \<open>What an eviction and a drained zone leave\<close>

lemma evict_removes:
  assumes inv: "cache_inv c" and v: "valid_cache_gpu c gpu"
  shows "\<exists>b c'. evict k gpu c = Inr (b, c')
    \<and> (b \<longleftrightarrow> is_resident k gpu c \<and> \<not> is_locked k gpu c) \<and> (\<not> b \<longrightarrow> c' = c)
    \<and> (b \<longrightarrow> (\<forall>k' g'. lookup k' g' c' = (if (k', g') = (k, gpu) then None else lookup k' g' c)))"
proof -
  let ?gs = "ec_gpus c ! nat gpu"
  have gs: "gpu_state c gpu = Inr ?gs" using v by (rule gpu_state_valid)
  from inv gs show ?thesis
  proof (cases rule: evict_outcome [where k = k])
    case (evicted e sa gs1)
    note F = find_resident_erase [OF evict_residents [OF evicted(5)]]
    show ?thesis using evicted v lookup_put [OF v] F lookup_state [OF gs]
      by (auto simp: is_resident_def is_locked_def)
  qed (use v in \<open>auto simp: is_resident_def is_locked_def word_neq_0_conv\<close>)
qed

lemma zone_drain_status:
  assumes inv: "cache_inv c" and v: "valid_cache_gpu c gpu" and z: "find_elastic_zone i (ec_gpus c ! nat gpu) = Some z"
  shows "\<exists>ks. elastic_zone_residents gpu i c = Inr ks \<and> elastic_drain_status gpu i c = Inr (int (length ks), ks = [])
    \<and> set ks = fst ` {(k, e). (k, e) \<in> set (residents (ec_gpus c ! nat gpu)) \<and> elastic_zone e = i} \<and> z_resident_entries z = int (length ks)"
proof -
  let ?gs = "ec_gpus c ! nat gpu"
  have gs: "gpu_state c gpu = Inr ?gs" using v by (rule gpu_state_valid)
  have K: "zones_ok ?gs" using gpu_state_ok(1) [OF inv gs] by (simp add: cache_ok_def)
  have m: "z \<in> set (elastic_zones ?gs)" "z_id z = i" "0 \<le> i"
    using K z by (auto simp: zones_ok_def find_elastic_zone_def find_zone_iff)
  let ?in = "filter (\<lambda>(k, e). elastic_zone e = i) (residents ?gs)"
  have "?in = placed ?gs (PZone i)" unfolding placed_def by (rule filter_cong) (use m(3) in \<open>auto simp: place_def\<close>)
  then have n: "z_resident_entries z = int (length ?in)" using zone_counts [OF K m(1)] m(2) by (simp add: slots_at_def)
  let ?ks = "sort (map fst ?in)"
  have e: "?ks = [] \<longleftrightarrow> ?in = []" unfolding length_0_conv [symmetric] by simp
  have "elastic_zone_residents gpu i c = Inr ?ks" using gs z by (simp add: elastic_zone_residents_def)
  moreover have "elastic_drain_status gpu i c = Inr (int (length ?ks), ?ks = [])"
    using gs z n unfolding e by (simp add: elastic_drain_status_def)
  moreover have "set ?ks = fst ` {(k, e). (k, e) \<in> set (residents ?gs) \<and> elastic_zone e = i}" by (auto simp: image_def)
  ultimately show ?thesis using n by (intro exI [of _ ?ks]) simp
qed

section \<open>Properties\<close>



text \<open>
  A reserve on a valid GPU never faults. It returns the null pointer exactly when the expert is already
  resident on the GPU or the zone has no free slot as \<^verbatim>\<open>free_slots\<close> reports it, and then nothing changes.
\<close>

theorem reserve_refuses_iff_full:
  assumes "cache_reachable ls eb dup c" "list_all (cache_layout_ok eb) ls" "valid_cache_gpu c gpu"
  shows "\<exists>r c'. reserve k gpu z d c = Inr (r, c')
    \<and> (r = None \<longleftrightarrow> is_resident k gpu c \<or> free_slots gpu z c = Inr 0) \<and> (r = None \<longrightarrow> c' = c)"
proof -
  have inv: "cache_inv c" using cache_reachable_inv assms(1,2) by blast
  let ?gs = "ec_gpus c ! nat gpu"
  have gs: "gpu_state c gpu = Inr ?gs" using assms(3) by (rule gpu_state_valid)
  obtain r c' where r: "reserve k gpu z d c = Inr (r, c')" using reserve_total [OF gs] by blast
  have f: "free_slots gpu z c = Inr 0 \<longleftrightarrow> zone_full z ?gs" by (rule free_slots_zero [OF gs])
  have i: "is_resident k gpu c \<longleftrightarrow> find_resident k ?gs \<noteq> None" using assms(3) by (simp add: is_resident_def)
  from inv gs r have "(r = None \<longleftrightarrow> is_resident k gpu c \<or> free_slots gpu z c = Inr 0) \<and> (r = None \<longrightarrow> c' = c)"
  proof (cases rule: reserve_outcome)
    case (fresh a gs')
    then have "\<not> zone_full z ?gs" using reserve_full [OF _ gs, of z k d] r by auto
    then show ?thesis using fresh f i by simp
  qed (use f i in simp_all)
  with r show ?thesis by blast
qed

theorem reserve_refuses_iff_full_witness:
  "\<exists>r c'. reserve (ExpertKey 0 9) 0 KStable False demo_cache1 = Inr (r, c')
    \<and> (r = None \<longleftrightarrow> is_resident (ExpertKey 0 9) 0 demo_cache1 \<or> free_slots 0 KStable demo_cache1 = Inr 0)
    \<and> (r = None \<longrightarrow> c' = demo_cache1)"
proof -
  have "valid_cache_gpu demo_cache1 0" by code_simp
  then show ?thesis by (rule reserve_refuses_iff_full [OF demo_reach1 demo_layout_ok])
qed

text \<open>
  A successful reserve adds exactly one entry: the new expert, unlocked, with no projection ready, at the
  returned address, in the requested zone; every other entry on every GPU is as before, and the address range is
  disjoint from that of every other expert on the GPU.
\<close>

theorem reserve_adds_one_entry:
  assumes "cache_reachable ls eb dup c" "list_all (cache_layout_ok eb) ls"
    "reserve k gpu z d c = Inr (Some a, c')"
  shows "\<exists>e. lookup k gpu c = None \<and> lookup k gpu c' = Some e \<and> reserved k gpu z d a e
    \<and> (\<forall>k' g'. (k', g') \<noteq> (k, gpu) \<longrightarrow> lookup k' g' c' = lookup k' g' c)
    \<and> (\<forall>k' e'. k' \<noteq> k \<and> lookup k' gpu c = Some e' \<longrightarrow>
         resident_bytes (expert_bytes c) e \<inter> resident_bytes (expert_bytes c) e' = {})"
proof -
  have inv: "cache_inv c" using cache_reachable_inv assms(1,2) by blast
  obtain gs where gs: "gpu_state c gpu = Inr gs" using assms(3) by (auto simp: reserve_def elim: rbindE)
  note G = gpu_state_ok [OF inv gs]
  from inv gs assms(3) show ?thesis
  proof (cases rule: reserve_outcome)
    case (fresh b gs')
    then obtain e where e: "reserved k gpu z d a e" "residents gs' = residents gs @ [(k, e)]" "cache_ok gs'"
      by (auto simp: reserve_done_def)
    note F = find_resident_append [OF e(2) fresh(1)]
    have L: "lookup k' g' c' = (if g' = gpu then find_resident k' gs' else lookup k' g' c)" for k' g'
      using fresh(5) lookup_put [OF G(3)] by simp
    have "resident_bytes (expert_bytes c) e \<inter> resident_bytes (expert_bytes c) e' = {}"
      if "k' \<noteq> k" "lookup k' gpu c = Some e'" for k' e'
    proof (rule residents_disjoint [OF e(3), of _ k _ k'])
      show "geom_ok (expert_bytes c) (geom gs')" using G(2) fresh(4) by simp
      have "keys_ok gs" using G(1) by (simp add: cache_ok_def)
      then show "(k', e') \<in> set (residents gs')" using that(2) lookup_state [OF gs] e(2) find_resident_Some by auto
    qed (use that e(2) in auto)
    then show ?thesis using e(1) F L fresh(1) lookup_state [OF gs] by (intro exI [of _ e]) auto
  qed auto
qed

theorem reserve_adds_one_entry_witness:
  "\<exists>e. lookup (ExpertKey 0 3) 0 demo_cache3 = None \<and> lookup (ExpertKey 0 3) 0 demo_cache4 = Some e
    \<and> reserved (ExpertKey 0 3) 0 KStable False 45056 e"
  using reserve_adds_one_entry [OF demo_reach3 demo_layout_ok demo_step4] by blast

text \<open>
  C36: Evicting right after a successful reserve succeeds and restores the state of every GPU exactly, the order
  of the free lists included; a stable expert has then been announced and withdrawn to the listener once each.
\<close>

theorem reserve_evict_roundtrip:
  assumes "cache_reachable ls eb dup c" "list_all (cache_layout_ok eb) ls"
    "reserve k gpu z d c = Inr (Some a, c1)"
  shows "\<exists>c2. evict k gpu c1 = Inr (True, c2) \<and> ec_gpus c2 = ec_gpus c \<and> elastic_generation c2 = elastic_generation c
    \<and> listener c2 = map_option (\<lambda>evs. evs @ (if z = KStable then [ResidentAdded k gpu, ResidentRemoved k gpu] else [])) (listener c)"
proof -
  have inv: "cache_inv c" using cache_reachable_inv assms(1,2) by blast
  obtain gs where gs: "gpu_state c gpu = Inr gs" using assms(3) by (auto simp: reserve_def elim: rbindE)
  note G = gpu_state_ok [OF inv gs]
  have new: "find_resident k gs = None" using assms(3) gs by (cases "find_resident k gs") (simp_all add: reserve_def)
  obtain gs' where gs': "(if z = KStable then reserve_stable c k gpu d gs else reserve_streaming c k gpu d gs) = (Some a, gs')"
    "c1 = (if z = KStable then notify (ResidentAdded k gpu) (put_state gpu gs' c) else put_state gpu gs' c)"
    using assms(3) gs new by (auto simp: reserve_def Let_def split: prod.splits)
  have "undone_by_evict k z gs gs'"
    using gs'(1) stable_undone [OF _ _ new] streaming_undone [OF _ new] G(1) by (cases z) (simp_all add: cache_ok_def)
  then obtain e gs1 where e: "find_resident k gs' = Some e" "lock_count e = 0" "ce_zone e = z" "return_slot e gs' = Inr gs1"
    "erase_resident k (drop_duplicate e gs1) = gs" by (auto simp: undone_by_evict_def)
  have "ec_gpus c1 = (ec_gpus c)[nat gpu := gs']" using gs'(2) by simp
  then have "gpu_state c1 gpu = Inr gs'" using G(3) by (simp add: gpu_state_def valid_cache_gpu_def nat_less_iff)
  then have ev: "evict k gpu c1 = Inr (True, if z = KStable then notify (ResidentRemoved k gpu) (put_state gpu gs c1) else put_state gpu gs c1)"
    using e by (simp add: evict_def Let_def)
  have "(ec_gpus c)[nat gpu := gs] = ec_gpus c" using G(4) by (metis list_update_id)
  then show ?thesis unfolding ev using gs'(2)
    by (cases "listener c") (auto simp: notify_def put_state_def)
qed

theorem reserve_evict_roundtrip_witness:
  "\<exists>c2. evict (ExpertKey 0 3) 0 demo_cache4 = Inr (True, c2) \<and> ec_gpus c2 = ec_gpus demo_cache3"
  using reserve_evict_roundtrip [OF demo_reach3 demo_layout_ok demo_step4] by blast

text \<open>
  On a valid GPU \<^verbatim>\<open>evict\<close> never faults (the assertion on the elastic zone holds). It succeeds exactly when
  the expert is resident and unlocked, and then removes that entry and no other; otherwise nothing changes.
\<close>

theorem evict_removes_unlocked:
  assumes "cache_reachable ls eb dup c" "list_all (cache_layout_ok eb) ls" "valid_cache_gpu c gpu"
  shows "\<exists>b c'. evict k gpu c = Inr (b, c')
    \<and> (b \<longleftrightarrow> is_resident k gpu c \<and> \<not> is_locked k gpu c) \<and> (\<not> b \<longrightarrow> c' = c)
    \<and> (b \<longrightarrow> (\<forall>k' g'. lookup k' g' c' = (if (k', g') = (k, gpu) then None else lookup k' g' c)))"
  by (rule evict_removes [OF cache_reachable_inv [OF assms(1,2)] assms(3)])

theorem evict_removes_unlocked_witness:
  "\<exists>b c'. evict (ExpertKey 0 1) 0 demo_cache4 = Inr (b, c')
    \<and> (b \<longleftrightarrow> is_resident (ExpertKey 0 1) 0 demo_cache4 \<and> \<not> is_locked (ExpertKey 0 1) 0 demo_cache4)"
proof -
  have "valid_cache_gpu demo_cache4 0" by code_simp
  from evict_removes_unlocked [OF demo_reach4 demo_layout_ok this] show ?thesis by blast
qed

text \<open>
  The capacity counters are exact: the used slots of the stable zone are the experts placed in the boot
  carve or in an active elastic zone, and those of the streaming zone are, outside the spill mode, the experts in
  the spill and prefetch slots. Experts in a draining zone are not counted.
\<close>

theorem used_slots_exact:
  assumes "cache_reachable ls eb dup c" "list_all (cache_layout_ok eb) ls" "valid_cache_gpu c gpu"
  shows "used_slots gpu KStable c = Inr (int (length (filter (\<lambda>(k, e). place e = PStable
      \<or> (\<exists>z \<in> set (elastic_zones (ec_gpus c ! nat gpu)). z_state z = ZActive \<and> place e = PZone (z_id z)))
        (residents (ec_gpus c ! nat gpu)))))
    \<and> (cmode (ec_gpus c ! nat gpu) = KNormal \<longrightarrow> used_slots gpu KStreaming c
        = Inr (int (length (filter (\<lambda>(k, e). place e = PSpill \<or> place e = PPrefetch) (residents (ec_gpus c ! nat gpu))))))"
proof -
  have inv: "cache_inv c" using cache_reachable_inv assms(1,2) by blast
  let ?gs = "ec_gpus c ! nat gpu"
  have gs: "gpu_state c gpu = Inr ?gs" using assms(3) by (rule gpu_state_valid)
  note G = gpu_state_ok [OF inv gs]
  let ?act = "filter (\<lambda>z. z_state z = ZActive) (elastic_zones ?gs)"
  have two: "length (filter (\<lambda>(k, e). P e \<or> Q e) xs) = length (filter (\<lambda>(k, e). P e) xs) + length (filter (\<lambda>(k, e). Q e) xs)"
    if "\<And>e. \<not> (P e \<and> Q e)" for P Q and xs :: "(expert_key \<times> cache_entry) list"
    using that by (induction xs) auto
  have at: "length (slots_at ?gs pl) = length (filter (\<lambda>(k, e). place e = pl) (residents ?gs))" for pl
    by (simp add: slots_at_def placed_def)
  have "distinct (map z_id (elastic_zones ?gs))" using G(1) by (simp add: cache_ok_def zones_ok_def)
  then have "length (filter (\<lambda>(k, e). \<exists>z \<in> set ?act. place e = PZone (z_id z)) (residents ?gs))
      = sum_list (map (\<lambda>z. length (slots_at ?gs (PZone (z_id z)))) ?act)"
    by (intro slots_at_union distinct_map_filter)
  then have "length (filter (\<lambda>(k, e). place e = PStable \<or> (\<exists>z \<in> set (elastic_zones ?gs). z_state z = ZActive \<and> place e = PZone (z_id z))) (residents ?gs))
      = length (slots_at ?gs PStable) + sum_list (map (\<lambda>z. length (slots_at ?gs (PZone (z_id z)))) ?act)"
    unfolding at by (subst two) (auto simp: Bex_def conj_ac)
  moreover have "length (filter (\<lambda>(k, e). place e = PSpill \<or> place e = PPrefetch) (residents ?gs))
      = length (slots_at ?gs PSpill) + length (slots_at ?gs PPrefetch)"
    unfolding at by (rule two) auto
  ultimately show ?thesis
    using gs active_zone_length [OF G(1), of "\<lambda>z. z_state z = ZActive"]
      alloc_length [OF G(1), of PStable] alloc_length [OF G(1), of PSpill] alloc_length [OF G(1), of PPrefetch]
    by (auto simp: used_slots_def total_slots_def free_slots_def)
qed

theorem used_slots_exact_witness: "used_slots 0 KStable demo_cache4 = Inr 2 \<and> used_slots 0 KStreaming demo_cache4 = Inr 1"
proof -
  have "valid_cache_gpu demo_cache4 0" "cmode (ec_gpus demo_cache4 ! nat 0) = KNormal"
    "length (filter (\<lambda>(k, e). place e = PStable
      \<or> (\<exists>z \<in> set (elastic_zones (ec_gpus demo_cache4 ! nat 0)). z_state z = ZActive \<and> place e = PZone (z_id z)))
        (residents (ec_gpus demo_cache4 ! nat 0))) = 2"
    "length (filter (\<lambda>(k, e). place e = PSpill \<or> place e = PPrefetch) (residents (ec_gpus demo_cache4 ! nat 0))) = 1"
    by code_simp+
  with used_slots_exact [OF demo_reach4 demo_layout_ok, of 0] show ?thesis by simp
qed

text \<open>
  The residency listener, attached at construction, mirrors the stable zone: replaying its notifications
  gives exactly the pairs of expert and GPU that are resident with the stable tag.
\<close>

theorem listener_mirrors_stable:
  assumes "cache_reachable ls eb dup c" "list_all (cache_layout_ok eb) ls"
  shows "\<exists>evs. listener c = Some evs \<and> mirror evs = {(k, g). \<exists>e. lookup k g c = Some e \<and> ce_zone e = KStable}"
proof -
  have inv: "cache_inv c" using cache_reachable_inv assms by blast
  have "k \<in> stable_of (ec_gpus c ! nat g) \<longleftrightarrow> (\<exists>e. lookup k g c = Some e \<and> ce_zone e = KStable)" if "valid_cache_gpu c g" for k g
  proof -
    have "keys_ok (ec_gpus c ! nat g)" using gpu_state_ok(1) [OF inv gpu_state_valid [OF that]] by (simp add: cache_ok_def)
    then show ?thesis using that by (simp add: stable_of_def lookup_def find_resident_Some)
  qed
  then have "stable_residents c = {(k, g). \<exists>e. lookup k g c = Some e \<and> ce_zone e = KStable}"
    unfolding stable_residents_def using lookup_valid by blast
  then show ?thesis using cache_reachable_listener [OF assms(1)] inv by (auto simp: cache_inv_def listener_ok_def)
qed

theorem listener_mirrors_stable_witness:
  "\<exists>evs. listener demo_cache4 = Some evs
    \<and> mirror evs = {(k, g). \<exists>e. lookup k g demo_cache4 = Some e \<and> ce_zone e = KStable}"
  by (rule listener_mirrors_stable [OF demo_reach4 demo_layout_ok])

text \<open>
  Hand-over of an elastic zone. The drain status counts the experts that still hold a slot of the zone, the
  zone can be removed exactly when that list is empty, and after the removal no resident expert of the GPU
  touches the granted bytes, so the slab run behind them can be given back.
\<close>

theorem drained_zone_removal:
  assumes "cache_reachable ls eb dup c" "list_all (cache_layout_ok eb) ls" "valid_cache_gpu c gpu"
    "find_elastic_zone i (ec_gpus c ! nat gpu) = Some z"
  shows "\<exists>ks. elastic_zone_residents gpu i c = Inr ks \<and> elastic_drain_status gpu i c = Inr (int (length ks), ks = [])
    \<and> (\<exists>b c'. remove_elastic_zone gpu i c = Inr (b, c') \<and> (b \<longleftrightarrow> ks = [])
        \<and> (b \<longrightarrow> (\<forall>k e. lookup k gpu c' = Some e \<longrightarrow> resident_bytes (expert_bytes c) e \<inter> {z_base z ..< z_base z + z_bytes z} = {})))"
proof -
  have inv: "cache_inv c" using cache_reachable_inv assms(1,2) by blast
  let ?gs = "ec_gpus c ! nat gpu"
  have gs: "gpu_state c gpu = Inr ?gs" using assms(3) by (rule gpu_state_valid)
  note G = gpu_state_ok [OF inv gs]
  have K: "keys_ok ?gs" "zones_ok ?gs" using G(1) by (simp_all add: cache_ok_def)
  have z: "z \<in> set (elastic_zones ?gs)" "z_id z = i" "0 \<le> i"
    using K(2) assms(4) by (auto simp: zones_ok_def find_elastic_zone_def find_zone_iff)
  obtain ks where ks: "elastic_zone_residents gpu i c = Inr ks" "elastic_drain_status gpu i c = Inr (int (length ks), ks = [])"
    "set ks = fst ` {(k, e). (k, e) \<in> set (residents ?gs) \<and> elastic_zone e = i}" "z_resident_entries z = int (length ks)"
    using zone_drain_status [OF inv assms(3,4)] by blast
  let ?c' = "(put_state gpu (?gs\<lparr>elastic_zones := remove_first_zone i (elastic_zones ?gs)\<rparr>) c)\<lparr>elastic_generation := elastic_generation c + 1\<rparr>"
  have 3: "remove_elastic_zone gpu i c = Inr (if ks = [] then (True, ?c') else (False, c))"
    using gs assms(4) ks(4) by (simp add: remove_elastic_zone_def Let_def)
  have 4: "resident_bytes (expert_bytes c) e' \<inter> {z_base z ..< z_base z + z_bytes z} = {}"
    if "ks = []" "lookup k gpu ?c' = Some e'" for k e'
  proof -
    have "lookup k gpu c = Some e'" using that(2) assms(3)
      by (simp add: lookup_def valid_cache_gpu_def find_resident_def nat_less_iff)
    then have mem: "(k, e') \<in> set (residents ?gs)" by (rule lookup_resident [OF inv])
    have "place e' \<noteq> PZone (z_id z)" using that(1) mem ks(3) z(2,3) by (auto simp: place_def)
    from zone_region_free [OF G(1,2) mem z(1) this] show ?thesis .
  qed
  show ?thesis using ks(1,2) 3 4 by (intro exI [of _ ks]) auto
qed

theorem drained_zone_removal_witness:
  "\<exists>ks. elastic_zone_residents 0 0 demo_cache3 = Inr ks \<and> elastic_drain_status 0 0 demo_cache3 = Inr (int (length ks), ks = [])"
proof -
  have v: "valid_cache_gpu demo_cache3 0" "find_elastic_zone 0 (ec_gpus demo_cache3 ! nat 0) \<noteq> None" by code_simp+
  then obtain z where "find_elastic_zone 0 (ec_gpus demo_cache3 ! nat 0) = Some z" by blast
  from drained_zone_removal [OF demo_reach3 demo_layout_ok v(1) this] show ?thesis by blast
qed

section \<open>The topology generation\<close>

definition zone_topo :: "elastic_zone_t \<Rightarrow> int \<times> zone_state \<times> int \<times> int \<times> shape" where
  "zone_topo z = (z_id z, z_state z, zone_shape z)"

definition topo :: "gpu_cache \<Rightarrow> shape list \<times> (int \<times> zone_state \<times> int \<times> int \<times> shape) list" where
  "topo gs = (fst (geom gs), map zone_topo (elastic_zones gs))"

definition topology :: "expert_cache \<Rightarrow> (shape list \<times> (int \<times> zone_state \<times> int \<times> int \<times> shape) list) list" where
  "topology c = map topo (ec_gpus c)"

inductive cache_steps :: "nat \<Rightarrow> expert_cache \<Rightarrow> expert_cache \<Rightarrow> bool" where
  steps_none: "cache_steps 0 c c"
| steps_more: "\<lbrakk>cache_steps n c c1; cache_step c1 c2\<rbrakk> \<Longrightarrow> cache_steps (Suc n) c c2"

lemma offer_zones_topo: "offer_zones zs = (r, zs') \<Longrightarrow> map zone_topo zs' = map zone_topo zs"
  by (induction zs arbitrary: r zs')
     (auto simp: Let_def zone_topo_def zone_shape_def dest: slot_allocate_shape split: prod.splits option.splits if_splits)

lemma light_topo [simp]:
  "topo (emplace_entry e gs) = topo gs" "topo (upd_resident k f gs) = topo gs"
  "topo (erase_resident k gs) = topo gs" "topo (drop_duplicate e gs) = topo gs"
  by (simp_all add: topo_def geom_def emplace_entry_def upd_resident_def erase_resident_def drop_duplicate_def)

lemma reserve_topo:
  "reserve_stable c k gpu dup gs = (r, gs') \<Longrightarrow> topo gs' = topo gs"
  "reserve_prefetch c k gpu dup gs = (r, gs') \<Longrightarrow> topo gs' = topo gs"
  "reserve_streaming c k gpu dup gs = (r, gs') \<Longrightarrow> topo gs' = topo gs"
proof -
  show "reserve_stable c k gpu dup gs = (r, gs') \<Longrightarrow> topo gs' = topo gs"
    by (auto simp: reserve_stable_def topo_def geom_def Let_def emplace_entry_def
             dest: slot_allocate_shape offer_zones_topo split: prod.splits option.splits)
  show p: "reserve_prefetch c k gpu dup gs = (r, gs') \<Longrightarrow> topo gs' = topo gs" for r gs'
    by (auto simp: reserve_prefetch_def topo_def geom_def Let_def emplace_entry_def
             dest: slot_allocate_shape split: prod.splits option.splits)
  show "reserve_streaming c k gpu dup gs = (r, gs') \<Longrightarrow> topo gs' = topo gs"
    using p by (auto simp: reserve_streaming_def topo_def geom_def Let_def emplace_entry_def
             dest: slot_allocate_shape split: prod.splits option.splits if_splits)
qed

lemma return_slot_topo: "return_slot e gs = Inr gs1 \<Longrightarrow> topo gs1 = topo gs"
  by (auto simp: return_slot_def topo_def geom_def assert_then_def zone_topo_def zone_shape_def
             upd_first_zone_map [where g = zone_topo] split: if_splits)

lemma topology_put [simp]:
  assumes "topo gs' = topo (ec_gpus c ! nat gpu)" shows "topology (put_state gpu gs' c) = topology c"
proof -
  have "(map topo (ec_gpus c))[nat gpu := topo (ec_gpus c ! nat gpu)] = map topo (ec_gpus c)"
    by (metis list_update_id map_update)
  then show ?thesis using assms by (simp add: topology_def map_update)
qed

lemma topology_notify [simp]:
  "topology (notify ev c) = topology c" "topology (c\<lparr>hints_valid := b\<rparr>) = topology c"
  by (simp_all add: topology_def)

lemma spill_topo [simp]:
  "topo (gs\<lparr>residents := r, duplicate_count := d, spill_slots := (spill_slots gs)\<lparr>sa_free := f\<rparr>, cmode := m\<rparr>) = topo gs"
  "topo (gs\<lparr>spill_slots := (spill_slots gs)\<lparr>sa_free := f\<rparr>, cmode := m\<rparr>) = topo gs"
  by (simp_all add: topo_def geom_def)

lemma cache_step_generation:
  "cache_step c c' \<Longrightarrow>
   elastic_generation c' = elastic_generation c \<and> topology c' = topology c \<or> elastic_generation c' = elastic_generation c + 1"
proof (induction rule: cache_step.induct)
  case (step_reserve k gpu z dup c r c')
  then show ?case
    by (auto simp: reserve_def gpu_state_Inr Let_def dest!: reserve_topo elim!: rbindE split: prod.splits if_splits)
next
  case (step_evict k gpu c b c')
  then show ?case
    by (auto simp: evict_def gpu_state_Inr Let_def dest!: return_slot_topo elim!: rbindE split: option.splits if_splits)
qed (auto simp: mark_ready_def mark_all_ready_def lock_def unlock_def cache_promote_def cache_demote_def
      add_elastic_zone_def begin_drain_elastic_zone_def remove_elastic_zone_def enter_spill_mode_def exit_spill_mode_def
      invalidate_affinity_hints_def gpu_state_Inr Let_def
      elim!: rbindE assert_thenE split: option.splits if_splits)

lemma cache_steps_generation:
  "cache_steps n c c' \<Longrightarrow> \<exists>m \<le> n. elastic_generation c' = elastic_generation c + of_nat m \<and> (m = 0 \<longrightarrow> topology c' = topology c)"
proof (induction rule: cache_steps.induct)
  case (steps_more n c c1 c2)
  then obtain m where m: "m \<le> n" "elastic_generation c1 = elastic_generation c + of_nat m" "m = 0 \<longrightarrow> topology c1 = topology c" by blast
  from cache_step_generation [OF steps_more.hyps(2)] show ?case
  proof (elim disjE conjE)
    assume "elastic_generation c2 = elastic_generation c1" "topology c2 = topology c1"
    then show ?thesis using m by (intro exI [of _ m]) auto
  next
    assume "elastic_generation c2 = elastic_generation c1 + 1"
    then show ?thesis using m by (intro exI [of _ "Suc m"]) (auto simp: algebra_simps)
  qed
qed simp

text \<open>The stable capacity of a GPU, as a function of its topology.\<close>

definition topo_capacity :: "shape list \<times> (int \<times> zone_state \<times> int \<times> int \<times> shape) list \<Rightarrow> nat" where
  "topo_capacity t = snd (snd (hd (fst t)))
     + sum_list (map (\<lambda>(i, st, b, n, s). snd (snd s)) (filter (\<lambda>(i, st, b, n, s). st = ZActive) (snd t)))"

lemma total_slots_topo:
  assumes "gpu_state c gpu = Inr gs" shows "total_slots gpu KStable c = Inr (topo_capacity (topo gs))"
proof -
  have "map (\<lambda>(i, st, b, n, s). snd (snd s)) (filter (\<lambda>(i, st, b, n, s). st = ZActive) (map zone_topo zs))
      = map (\<lambda>z. sa_total (z_slots z)) (filter (\<lambda>z. z_state z = ZActive) zs)" for zs
    by (induction zs) (simp_all add: zone_topo_def zone_shape_def shape_of_def)
  then show ?thesis using assms by (simp add: total_slots_def topo_capacity_def topo_def geom_def shape_of_def)
qed

text \<open>
  The topology generation is a valid stamp: if it reads the same before and after fewer than \<open>2 ^ 64\<close>
  operations, then the elastic zones, their states and address ranges, and the stable capacity that
  \<^verbatim>\<open>total_slots\<close> reports on every GPU have not changed in between.
\<close>

theorem generation_stamp_sound:
  assumes "cache_steps n c c'" "n < 2 ^ 64" "elastic_generation c' = elastic_generation c"
  shows "topology c' = topology c \<and> total_slots gpu KStable c' = total_slots gpu KStable c"
proof -
  obtain m where m: "m \<le> n" "elastic_generation c' = elastic_generation c + of_nat m" "m = 0 \<longrightarrow> topology c' = topology c"
    using cache_steps_generation [OF assms(1)] by blast
  have "of_nat m = (0 :: u64)" using m(2) assms(3) by simp
  then have "m = 0" using m(1) assms(2) by (auto simp: word_of_nat_eq_0_iff dest: dvd_imp_le)
  then have t: "topology c' = topology c" using m(3) by simp
  then have len: "valid_cache_gpu c' gpu = valid_cache_gpu c gpu"
    unfolding valid_cache_gpu_def topology_def by (metis length_map)
  have "total_slots gpu KStable c' = total_slots gpu KStable c"
  proof (cases "valid_cache_gpu c gpu")
    case True
    have "topo (ec_gpus c' ! nat gpu) = topo (ec_gpus c ! nat gpu)"
      using True len t unfolding topology_def valid_cache_gpu_def by (metis nat_less_iff nth_map)
    then show ?thesis using True len total_slots_topo [OF gpu_state_valid] by simp
  next
    case False
    then show ?thesis using len by (simp add: total_slots_def gpu_state_def)
  qed
  with t show ?thesis by simp
qed

theorem generation_stamp_sound_witness: "total_slots 0 KStable demo_cache2 = total_slots 0 KStable demo_cache"
proof -
  have "cache_steps (Suc (Suc 0)) demo_cache demo_cache2"
    by (rule steps_more [OF steps_more [OF steps_none step_reserve [OF demo_step1]] step_reserve [OF demo_step2]])
  moreover have "elastic_generation demo_cache2 = elastic_generation demo_cache" by code_simp
  ultimately show ?thesis using generation_stamp_sound [of "Suc (Suc 0)" demo_cache demo_cache2 0] by simp
qed

section \<open>Why the callers' conditions are needed\<close>

definition then_do :: "('a \<times> expert_cache) res \<Rightarrow> (expert_cache \<Rightarrow> 'b res) \<Rightarrow> 'b res" where
  "then_do r f = rbind r (\<lambda>(x, c). f c)"



end
