(* ===== verification/Expert_Lifecycle.thy ===== *)
theory Expert_Lifecycle
  imports Expert_Cache_Machine
begin

text \<open>
  The state of the expert lifecycle manager, \<^verbatim>\<open>src/src/daemon/expert_lifecycle_manager.{h,cpp}\<close>: the
  per-(expert, GPU) tier it keeps above the cache, the host tier of every expert it has seen, the interests (tokens) that
  wait, and the snapshot that other processes read; with it \<^verbatim>\<open>request_evict\<close> and the publication of a GPU tier.
  Timestamps and latency figures are left out. A null pointer or a null buffer is \<open>0\<close>; a priority, a \<^verbatim>\<open>float\<close> that is
  only compared and passed on, is its rank in the order of the floats, an integer. The interface \<open>evict_port\<close> is what a client of an eviction path may rely
  on; the lifecycle manager's \<^verbatim>\<open>request_evict\<close> provides it, and so does the function that the engine wires into the zone
  rebalancer. The other operations are in \<^verbatim>\<open>Lifecycle_Ops\<close>.
\<close>

unbundle bit_operations_syntax

section \<open>State\<close>

datatype host_tier = HCold | HLoadingToRam | HWarm

definition host_code :: "host_tier \<Rightarrow> u8" where
  "host_code t = (case t of HCold \<Rightarrow> 0 | HLoadingToRam \<Rightarrow> 1 | HWarm \<Rightarrow> 2)"

datatype gpu_tier =
  GAbsent | GReserved | GTransferring | GDraining | GPartial1 | GPartial1_2 | GHot

definition tier_code :: "gpu_tier \<Rightarrow> u8" where
  "tier_code t =
     (case t of GAbsent \<Rightarrow> 0 | GReserved \<Rightarrow> 1 | GTransferring \<Rightarrow> 2 | GDraining \<Rightarrow> 3 | GPartial1 \<Rightarrow> 4
      | GPartial1_2 \<Rightarrow> 5 | GHot \<Rightarrow> 6)"

record interest =
  in_token :: u64
  in_cmd_seq :: u32
  in_zone :: cache_zone

text \<open>The key of a GPU entry: the expert and the GPU.\<close>

type_synonym gpu_key = "expert_key \<times> int"

record pending_chain =
  pc_gpu :: int
  pc_zone :: cache_zone

record host_entry =
  he_tier :: host_tier
  nvme_token :: u64
  gpu_waiters :: "pending_chain list"

record gpu_entry =
  ge_tier :: gpu_tier
  transfer_token :: u64
  interests :: "interest list"
  ge_priority :: int
  delay_us :: int
  drain_cmd_seq :: u32
  drain_host_buf :: u64
  host_buf_ref :: "u64 option"

text \<open>What \<^verbatim>\<open>operator[]\<close> puts into the tables for a key it does not find.\<close>

definition new_gpu_entry :: gpu_entry where
  "new_gpu_entry =
     \<lparr>ge_tier = GAbsent, transfer_token = 0, interests = [], ge_priority = 0, delay_us = 0, drain_cmd_seq = 0,
      drain_host_buf = 0, host_buf_ref = None\<rparr>"

definition new_host_entry :: host_entry where
  "new_host_entry = \<lparr>he_tier = HCold, nvme_token = 0, gpu_waiters = []\<rparr>"

record completion =
  cp_token :: u64
  cp_cmd_seq :: u32
  cp_key :: expert_key
  cp_gpu :: int
  cp_success :: bool
  is_eviction :: bool

record progress_event =
  pe_key :: expert_key
  pe_gpu :: int
  pe_phase :: u8
  pe_cmd_seq :: u32

text \<open>
  The arrays of the snapshot that the manager publishes to; the bitmaps hold eight bits a byte.
\<close>

record state_snapshot =
  expert_gpu_tier :: "nat \<Rightarrow> u8"
  expert_interest_count :: "nat \<Rightarrow> u8"
  residency_bitmap :: "nat \<Rightarrow> u8"
  snap_host_tier :: "nat \<Rightarrow> u8"
  host_resident_bitmap :: "nat \<Rightarrow> u8"
  expert_host_numa :: "nat \<Rightarrow> int"
  host_numa_tier :: "nat \<Rightarrow> u8"

text \<open>The multimap from command numbers to tokens is the list of its pairs, oldest first.\<close>

record lifecycle =
  gpu_entries :: "gpu_key \<rightharpoonup> gpu_entry"
  snapshot :: "state_snapshot option"
  first_moe_layer :: u32
  num_moe_layers :: u32
  num_experts :: u32
  num_gpus :: int
  host_entries :: "expert_key \<rightharpoonup> host_entry"
  arena_load_waiters :: "expert_key \<rightharpoonup> gpu_key list"
  slot_pressure_waiters :: "gpu_key list"
  token_index :: "u64 \<rightharpoonup> gpu_key"
  cmd_seq_to_token :: "(u32 \<times> u64) list"
  pending_completions :: "completion list"
  pending_progress :: "progress_event list"
  next_token :: u64
  h2d_direct :: u64
  h2d_staged :: u64
  fetch_count_enabled :: bool

definition kMaxGpus :: nat where "kMaxGpus = 8"
definition kMaxMoeLayers :: nat where "kMaxMoeLayers = 128"
definition kMaxExperts :: nat where "kMaxExperts = 320"
definition kMaxNuma :: nat where "kMaxNuma = 8"

section \<open>Publication\<close>

definition flat_index :: "nat \<Rightarrow> nat \<Rightarrow> nat \<Rightarrow> nat" where
  "flat_index layer expert gpu = layer * kMaxExperts * kMaxGpus + expert * kMaxGpus + gpu"

text \<open>Whether the snapshot has a place for the expert, and its layer counted from the first MoE layer.\<close>

definition publishable :: "lifecycle \<Rightarrow> expert_key \<Rightarrow> int \<Rightarrow> bool" where
  "publishable l k gpu \<longleftrightarrow>
     first_moe_layer l \<le> layer_idx k \<and> unat (layer_idx k - first_moe_layer l) < kMaxMoeLayers
     \<and> unat (expert_idx k) < kMaxExperts \<and> 0 \<le> gpu \<and> gpu < int kMaxGpus"

definition snapshot_slot :: "lifecycle \<Rightarrow> expert_key \<Rightarrow> int \<Rightarrow> nat" where
  "snapshot_slot l k gpu = flat_index (unat (layer_idx k - first_moe_layer l)) (unat (expert_idx k)) (nat gpu)"

definition write_gpu_state :: "nat \<Rightarrow> gpu_tier \<Rightarrow> u32 \<Rightarrow> state_snapshot \<Rightarrow> state_snapshot" where
  "write_gpu_state flat tier num s =
     (let mask = push_bit (flat mod 8) 1 :: u8; old = residency_bitmap s (flat div 8) in
      s\<lparr>expert_gpu_tier := (expert_gpu_tier s)(flat := tier_code tier),
        expert_interest_count := (expert_interest_count s)(flat := ucast (min num 255)),
        residency_bitmap := (residency_bitmap s)(flat div 8 :=
          (if tier_code GHot \<le> tier_code tier then old OR mask else old AND NOT mask))\<rparr>)"

definition publish_gpu_state :: "expert_key \<Rightarrow> int \<Rightarrow> gpu_tier \<Rightarrow> u32 \<Rightarrow> lifecycle \<Rightarrow> lifecycle" where
  "publish_gpu_state k gpu tier num l =
     (case snapshot l of
        None \<Rightarrow> l
      | Some s \<Rightarrow>
          if \<not> publishable l k gpu then l
          else l\<lparr>snapshot := Some (write_gpu_state (snapshot_slot l k gpu) tier num s)\<rparr>)"

section \<open>Eviction\<close>

definition request_evict ::
    "expert_key \<Rightarrow> int \<Rightarrow> lifecycle \<times> expert_cache \<Rightarrow> (bool \<times> lifecycle \<times> expert_cache) res" where
  "request_evict k gpu lc =
     (case lc of (l, c) \<Rightarrow>
       case gpu_entries l (k, gpu) of
         None \<Rightarrow> rbind (evict k gpu c) (\<lambda>(ok, c'). Inr (ok, l, c'))
       | Some ge \<Rightarrow>
           if interests ge \<noteq> [] then Inr (False, l, c)
           else if ge_tier ge = GTransferring \<or> ge_tier ge = GDraining then Inr (False, l, c)
           else rbind (evict k gpu c)
             (\<lambda>(ok, c').
               if ok then
                 Inr (True,
                   publish_gpu_state k gpu GAbsent 0
                     (l\<lparr>gpu_entries := (gpu_entries l)((k, gpu) \<mapsto> ge\<lparr>ge_tier := GAbsent, transfer_token := 0, host_buf_ref := None\<rparr>)\<rparr>), c')
               else Inr (False, l, c')))"

text \<open>The eviction that the engine wires into the rebalancer: through the lifecycle manager where there is one.\<close>

definition evict_expert ::
    "expert_key \<Rightarrow> int \<Rightarrow> lifecycle option \<times> expert_cache \<Rightarrow> (bool \<times> lifecycle option \<times> expert_cache) res" where
  "evict_expert k gpu lc =
     (case lc of
        (Some l, c) \<Rightarrow> rbind (request_evict k gpu (l, c)) (\<lambda>(ok, l', c'). Inr (ok, Some l', c'))
      | (None, c) \<Rightarrow> rbind (evict k gpu c) (\<lambda>(ok, c'). Inr (ok, None, c')))"

section \<open>What a client of an eviction path relies on\<close>

text \<open>
  A call refuses and leaves the cache alone, or does exactly what the cache's \<^verbatim>\<open>evict\<close> does; the state above the cache
  (\<open>agree\<close>) keeps describing it.
\<close>

locale evict_port =
  fixes ev :: "expert_key \<Rightarrow> int \<Rightarrow> 's \<times> expert_cache \<Rightarrow> (bool \<times> 's \<times> expert_cache) res"
    and agree :: "'s \<Rightarrow> expert_cache \<Rightarrow> bool"
  assumes ev_cases: "ev k gpu (s, c) = Inr (False, s, c)
      \<or> (\<exists>ok s' c'. evict k gpu c = Inr (ok, c') \<and> ev k gpu (s, c) = Inr (ok, s', c'))
      \<or> (\<exists>e. evict k gpu c = Inl e \<and> ev k gpu (s, c) = Inl e)"
    and ev_agree: "ev k gpu (s, c) = Inr (ok, s', c') \<Longrightarrow> agree s c \<Longrightarrow> agree s' c'"
begin

lemma ev_inv:
  assumes "cache_inv c" "ev k gpu (s, c) = Inr (ok, s', c')" shows "cache_inv c'"
  using assms(2) ev_cases [of k gpu s c] evict_inv [OF assms(1)] assms(1) by auto

lemma ev_unlocked:
  assumes "ev k gpu (s, c) = Inr (ok, s', c')" "c' \<noteq> c" shows "evict k gpu c = Inr (ok, c')"
  using assms ev_cases [of k gpu s c] by auto

lemma ev_total:
  assumes "evict k gpu c = Inr (b, c1)" shows "\<exists>ok s' c'. ev k gpu (s, c) = Inr (ok, s', c') \<and> (c' = c \<or> c' = c1)"
  using assms ev_cases [of k gpu s c] by auto

end

text \<open>A tier above \<^verbatim>\<open>kAbsent\<close> describes an expert that the cache holds.\<close>

definition tiers_resident :: "lifecycle \<Rightarrow> expert_cache \<Rightarrow> bool" where
  "tiers_resident l c \<longleftrightarrow>
     (\<forall>k gpu ge. gpu_entries l (k, gpu) = Some ge \<and> ge_tier ge \<noteq> GAbsent \<longrightarrow> is_resident k gpu c)"

lemma publish_entries [simp]: "gpu_entries (publish_gpu_state k gpu t n l) = gpu_entries l"
  by (simp add: publish_gpu_state_def split: option.splits)

lemma return_slot_residents: "return_slot e gs = Inr gs1 \<Longrightarrow> residents gs1 = residents gs"
  by (auto simp: return_slot_def assert_then_def split: if_splits)

lemma is_resident_notify [simp]: "is_resident k gpu (notify v c) = is_resident k gpu c"
  by (simp add: is_resident_def valid_cache_gpu_def)

lemma is_resident_put:
  "valid_cache_gpu c gpu \<Longrightarrow> is_resident k gpu' (put_state gpu gs c)
     = (if gpu' = gpu then find_resident k gs \<noteq> None else is_resident k gpu' c)"
  by (auto simp: is_resident_def valid_cache_gpu_def put_state_def nth_list_update nat_eq_iff)

lemma evict_others:
  assumes "evict k gpu c = Inr (ok, c')" "(k', gpu') \<noteq> (k, gpu)"
  shows "is_resident k' gpu' c' = is_resident k' gpu' c"
proof (cases "c' = c")
  case False
  obtain gs where gs: "valid_cache_gpu c gpu" "gs = ec_gpus c ! nat gpu" "gpu_state c gpu = Inr gs"
    using assms(1) by (auto simp: evict_def res_simps gpu_state_Inr)
  obtain e gs1 where e: "return_slot e gs = Inr gs1"
    "c' = put_state gpu (erase_resident k (drop_duplicate e gs1)) c
     \<or> c' = notify (ResidentRemoved k gpu) (put_state gpu (erase_resident k (drop_duplicate e gs1)) c)"
    using assms(1) gs(3) False by (auto simp: evict_def Let_def res_simps split: option.splits if_splits)
  have "find_resident k' (drop_duplicate e gs1) = find_resident k' gs"
    using return_slot_residents [OF e(1)] by (simp add: find_resident_def drop_duplicate_def)
  then have "is_resident k' gpu' (put_state gpu (erase_resident k (drop_duplicate e gs1)) c) = is_resident k' gpu' c"
    using assms(2) gs(1,2) by (simp add: is_resident_put find_resident_erase [where k = k and gs = "drop_duplicate e gs1"] erase_resident_def) (simp add: is_resident_def)
  then show ?thesis using e(2) by auto
qed simp

lemma evict_refused: "evict k gpu c = Inr (False, c') \<Longrightarrow> c' = c"
  by (auto simp: evict_def Let_def res_simps split: option.splits if_splits)

interpretation lifecycle_port: evict_port request_evict tiers_resident
proof
  fix k gpu s c
  show "request_evict k gpu (s, c) = Inr (False, s, c)
      \<or> (\<exists>ok s' c'. evict k gpu c = Inr (ok, c') \<and> request_evict k gpu (s, c) = Inr (ok, s', c'))
      \<or> (\<exists>e. evict k gpu c = Inl e \<and> request_evict k gpu (s, c) = Inl e)"
    by (cases "evict k gpu c") (auto simp: request_evict_def Let_def split: option.splits)
next
  fix k gpu s c ok s' c'
  assume r: "request_evict k gpu (s, c) = Inr (ok, s', c')" and a: "tiers_resident s c"
  have keep: "tiers_resident s c1" if "evict k gpu c = Inr (b, c1)" "gpu_entries s (k, gpu) = None" for b c1
    using that a by (auto simp: tiers_resident_def) (metis evict_others option.distinct(1) prod.inject)
  have gone: "tiers_resident (publish_gpu_state k gpu GAbsent 0 (s\<lparr>gpu_entries := (gpu_entries s)((k, gpu) \<mapsto> ge)\<rparr>)) c1"
    if "evict k gpu c = Inr (b, c1)" "ge_tier ge = GAbsent" for b c1 ge
    using that a evict_others [OF that(1)] by (auto simp: tiers_resident_def split: if_splits)
  show "tiers_resident s' c'"
    using r a keep gone evict_refused [of k gpu c c']
    by (auto simp: request_evict_def res_simps split: option.splits if_splits)
qed

definition elm_agrees :: "lifecycle option \<Rightarrow> expert_cache \<Rightarrow> bool" where
  "elm_agrees l c \<longleftrightarrow> (case l of None \<Rightarrow> True | Some l' \<Rightarrow> tiers_resident l' c)"

interpretation engine_port: evict_port evict_expert elm_agrees
proof
  fix k gpu s c
  show "evict_expert k gpu (s, c) = Inr (False, s, c)
      \<or> (\<exists>ok s' c'. evict k gpu c = Inr (ok, c') \<and> evict_expert k gpu (s, c) = Inr (ok, s', c'))
      \<or> (\<exists>e. evict k gpu c = Inl e \<and> evict_expert k gpu (s, c) = Inl e)"
  proof (cases s)
    case None
    then show ?thesis by (cases "evict k gpu c") (auto simp: evict_expert_def)
  next
    case (Some l)
    then show ?thesis using lifecycle_port.ev_cases [of k gpu l c] by (auto simp: evict_expert_def)
  qed
next
  fix k gpu s c ok s' c'
  assume "evict_expert k gpu (s, c) = Inr (ok, s', c')" "elm_agrees s c"
  then show "elm_agrees s' c'"
    by (auto simp: evict_expert_def elm_agrees_def res_simps split: option.splits dest: lifecycle_port.ev_agree)
qed

end
