(* ===== verification/Transfer_Types.thy ===== *)
theory Transfer_Types
  imports Expert_Cache
begin

text \<open>
  The types that the transfer engine shares with its client, the expert lifecycle manager
  (\<^verbatim>\<open>src/src/core/transfer/transfer_engine.h\<close>): the direction of a copy and the record of a completed one.
\<close>

datatype transfer_direction = KH2D | KD2H

record transfer_completion =
  xc_token :: u64
  xc_key :: expert_key
  xc_gpu :: int
  xc_direction :: transfer_direction
  xc_bytes :: int
  xc_success :: bool

end
