(* ===== verification/Lifecycle_Ops.thy ===== *)
theory Lifecycle_Ops
  imports Expert_Lifecycle Transfer_Types
begin

text \<open>
  The operations of the expert lifecycle manager, \<^verbatim>\<open>src/src/daemon/expert_lifecycle_manager.cpp\<close>. The cache is the model of
  \<^verbatim>\<open>Expert_Cache\<close>; the other subsystems the manager calls (NVMe tier, transfer engine, NUMA manager, pinned arena and its
  loader, packed-buffer cache, host-source resolution) are the functions of the record \<open>elm_deps\<close> over a state \<open>'x\<close> of
  their own, so that an answer may depend on everything that was asked before. A reference into a table is a lookup and a
  write back. \<^verbatim>\<open>complete_interests\<close> returns the completions that its caller appends to its output vector.
\<close>

unbundle bit_operations_syntax

section \<open>The subsystems\<close>

datatype host_source_status = HsReady | HsPending | HsBackpressure | HsAbsent

record host_source =
  hs_ptr :: u64
  hs_owned_buf :: "u64 option"
  hs_pinned :: bool
  hs_status :: host_source_status
  hs_bytes :: int

record io_completion =
  nc_token :: u64
  nc_key :: expert_key
  nc_success :: bool

record arena_completion =
  al_key :: expert_key
  al_gpu :: int
  al_success :: bool

text \<open>An H2D request: destination and source address, bytes, priority, delay, and whether it needs pinned staging.\<close>

record h2d_request =
  hr_key :: gpu_key
  hr_dst :: int
  hr_src :: u64
  hr_bytes :: int
  hr_priority :: int
  hr_delay :: int
  hr_staging :: bool

record 'x nvme_ops =
  is_in_host_ram :: "expert_key \<Rightarrow> 'x \<Rightarrow> bool"
  is_inflight :: "expert_key \<Rightarrow> 'x \<Rightarrow> bool"
  is_on_nvme :: "expert_key \<Rightarrow> 'x \<Rightarrow> bool"
  host_numa_node :: "expert_key \<Rightarrow> 'x \<Rightarrow> int"
  read_expert :: "expert_key \<Rightarrow> int \<Rightarrow> 'x \<Rightarrow> u64 option \<times> 'x"
  write_expert :: "expert_key \<Rightarrow> u64 \<Rightarrow> 'x \<Rightarrow> 'x"

record 'x transfer_ops =
  enqueue_h2d :: "h2d_request \<Rightarrow> 'x \<Rightarrow> u64 option \<times> 'x"
  is_inflight_h2d :: "gpu_key \<Rightarrow> 'x \<Rightarrow> bool"
  enqueue_d2h :: "gpu_key \<Rightarrow> u64 \<Rightarrow> int \<Rightarrow> int \<Rightarrow> 'x \<Rightarrow> u64 option \<times> 'x"
  reprioritize :: "u64 \<Rightarrow> int \<Rightarrow> 'x \<Rightarrow> 'x"
  te_cancel :: "u64 \<Rightarrow> 'x \<Rightarrow> 'x"

record 'x numa_ops =
  allocate_for_gpu :: "int \<Rightarrow> int \<Rightarrow> 'x \<Rightarrow> u64 \<times> 'x"
  numa_free :: "u64 \<Rightarrow> 'x \<Rightarrow> 'x"

record 'x arena_ops =
  poll_completed :: "'x \<Rightarrow> arena_completion list \<times> 'x"
  arena_mark_ready :: "expert_key \<Rightarrow> int \<Rightarrow> 'x \<Rightarrow> 'x"
  clear_loading :: "expert_key \<Rightarrow> int \<Rightarrow> 'x \<Rightarrow> 'x"

record 'x packed_ops =
  is_passthrough :: bool
  is_mmap :: bool
  pk_release :: "expert_key \<Rightarrow> 'x \<Rightarrow> 'x"

text \<open>
  The loaded model is, layer by layer, whether a routed expert has any bundle; \<open>clear_bundle\<close> drops the packed copy in the
  expert's first bundle. The transfer engine is always there; the other pointers may be null.
\<close>

record 'x elm_deps =
  prepacked_has :: "(expert_key \<Rightarrow> bool) option"
  loaded_model :: "bool list list option"
  clear_bundle :: "expert_key \<Rightarrow> 'x \<Rightarrow> 'x"
  nvme_tier :: "'x nvme_ops option"
  transfer_engine :: "'x transfer_ops"
  numa_manager :: "'x numa_ops option"
  arena :: "'x arena_ops option"
  packed_cache :: "'x packed_ops option"
  resolve_host_source :: "expert_key \<Rightarrow> int \<Rightarrow> 'x \<Rightarrow> host_source \<times> 'x"
  emit_progress :: bool
  h2d_enqueue_observer :: "(expert_key \<Rightarrow> 'x \<Rightarrow> 'x) option"

record 'x world =
  w_elm :: lifecycle
  w_cache :: expert_cache
  w_sub :: 'x

section \<open>Access to the tables\<close>

definition entry_of :: "gpu_key \<Rightarrow> lifecycle \<Rightarrow> gpu_entry" where
  "entry_of gk l = (case gpu_entries l gk of None \<Rightarrow> new_gpu_entry | Some ge \<Rightarrow> ge)"

definition host_of :: "expert_key \<Rightarrow> lifecycle \<Rightarrow> host_entry" where
  "host_of k l = (case host_entries l k of None \<Rightarrow> new_host_entry | Some he \<Rightarrow> he)"

definition set_entry :: "gpu_key \<Rightarrow> gpu_entry \<Rightarrow> lifecycle \<Rightarrow> lifecycle" where
  "set_entry gk ge l = l\<lparr>gpu_entries := (gpu_entries l)(gk \<mapsto> ge)\<rparr>"

definition set_host :: "expert_key \<Rightarrow> host_entry \<Rightarrow> lifecycle \<Rightarrow> lifecycle" where
  "set_host k he l = l\<lparr>host_entries := (host_entries l)(k \<mapsto> he)\<rparr>"

abbreviation num_interests :: "gpu_entry \<Rightarrow> u32" where
  "num_interests ge \<equiv> word_of_nat (length (interests ge))"

text \<open>Writing an entry and publishing its tier with the number of its interests.\<close>

definition put_entry :: "gpu_key \<Rightarrow> gpu_entry \<Rightarrow> lifecycle \<Rightarrow> lifecycle" where
  "put_entry gk ge l = publish_gpu_state (fst gk) (snd gk) (ge_tier ge) (num_interests ge) (set_entry gk ge l)"

abbreviation on_elm :: "(lifecycle \<Rightarrow> lifecycle) \<Rightarrow> 'x world \<Rightarrow> 'x world" where
  "on_elm f w \<equiv> w\<lparr>w_elm := f (w_elm w)\<rparr>"

section \<open>Host tiers\<close>

definition model_has :: "bool list list \<Rightarrow> expert_key \<Rightarrow> bool" where
  "model_has layers k \<longleftrightarrow>
     (let li = unat (layer_idx k); ei = unat (expert_idx k) in
      li < length layers \<and> ei < length (layers ! li) \<and> layers ! li ! ei)"

definition compute_host_tier :: "'x elm_deps \<Rightarrow> 'x \<Rightarrow> expert_key \<Rightarrow> host_tier" where
  "compute_host_tier d x k =
     (if (case prepacked_has d of None \<Rightarrow> False | Some has \<Rightarrow> has k) then HWarm
      else if (case loaded_model d of None \<Rightarrow> False | Some layers \<Rightarrow> model_has layers k) then HWarm
      else case nvme_tier d of
             None \<Rightarrow> HCold
           | Some nv \<Rightarrow>
               if is_in_host_ram nv k x then HWarm
               else if is_inflight nv k x then HLoadingToRam
               else if is_on_nvme nv k x then HCold
               else HCold)"

definition release_packed_host_buffer :: "'x elm_deps \<Rightarrow> expert_key \<Rightarrow> 'x \<Rightarrow> 'x" where
  "release_packed_host_buffer d k x =
     (if (case prepacked_has d of None \<Rightarrow> False | Some has \<Rightarrow> has k) then x
      else if (case packed_cache d of None \<Rightarrow> False | Some pk \<Rightarrow> \<not> is_passthrough pk \<and> \<not> is_mmap pk) then x
      else
        let x1 = (case packed_cache d of None \<Rightarrow> x | Some pk \<Rightarrow> pk_release pk k x) in
        case loaded_model d of
          None \<Rightarrow> x1
        | Some layers \<Rightarrow> if model_has layers k then clear_bundle d k x1 else x1)"

definition host_publishable :: "lifecycle \<Rightarrow> expert_key \<Rightarrow> bool" where
  "host_publishable l k \<longleftrightarrow>
     first_moe_layer l \<le> layer_idx k \<and> unat (layer_idx k - first_moe_layer l) < kMaxMoeLayers
     \<and> unat (expert_idx k) < kMaxExperts"

definition host_slot :: "lifecycle \<Rightarrow> expert_key \<Rightarrow> nat" where
  "host_slot l k = unat (layer_idx k - first_moe_layer l) * kMaxExperts + unat (expert_idx k)"

definition set_bit_of :: "nat \<Rightarrow> bool \<Rightarrow> (nat \<Rightarrow> u8) \<Rightarrow> nat \<Rightarrow> u8" where
  "set_bit_of i b bm =
     (let mask = push_bit (i mod 8) 1 :: u8; old = bm (i div 8) in
      bm(i div 8 := (if b then old OR mask else old AND NOT mask)))"

text \<open>A conversion to \<^verbatim>\<open>int8_t\<close>.\<close>

definition int8_of :: "int \<Rightarrow> int" where
  "int8_of i = sint (word_of_int i :: u8)"

definition numa_of :: "'x elm_deps \<Rightarrow> 'x \<Rightarrow> expert_key \<Rightarrow> host_tier \<Rightarrow> int" where
  "numa_of d x k t =
     (if t = HWarm then
        (case nvme_tier d of
           Some nv \<Rightarrow> int8_of (host_numa_node nv k x)
         | None \<Rightarrow> (if loaded_model d \<noteq> None then 0 else - 1))
      else - 1)"

text \<open>The row of the per-node tiers of one expert: \<open>kMaxNuma\<close> bytes from \<open>base\<close>.\<close>

definition write_numa_row :: "nat \<Rightarrow> host_tier \<Rightarrow> int \<Rightarrow> (nat \<Rightarrow> u8) \<Rightarrow> nat \<Rightarrow> u8" where
  "write_numa_row row_base t numa a =
     (\<lambda>i. if row_base \<le> i \<and> i < row_base + kMaxNuma then
            (if t = HWarm \<and> 0 \<le> numa \<and> numa < int kMaxNuma
             then host_code (if int (i - row_base) = numa then HWarm else HCold)
             else 0)
          else a i)"

definition write_host_state :: "nat \<Rightarrow> host_tier \<Rightarrow> int \<Rightarrow> state_snapshot \<Rightarrow> state_snapshot" where
  "write_host_state idx t numa s =
     s\<lparr>snap_host_tier := (snap_host_tier s)(idx := host_code t),
       host_resident_bitmap := set_bit_of idx (t = HWarm) (host_resident_bitmap s),
       expert_host_numa := (expert_host_numa s)(idx := numa),
       host_numa_tier := write_numa_row (idx * kMaxNuma) t numa (host_numa_tier s)\<rparr>"

definition publish_host_state :: "'x elm_deps \<Rightarrow> 'x \<Rightarrow> expert_key \<Rightarrow> host_tier \<Rightarrow> lifecycle \<Rightarrow> lifecycle" where
  "publish_host_state d x k t l =
     (case snapshot l of
        None \<Rightarrow> l
      | Some s \<Rightarrow>
          if \<not> host_publishable l k then l
          else l\<lparr>snapshot := Some (write_host_state (host_slot l k) t (numa_of d x k t) s)\<rparr>)"

section \<open>Starting a transfer\<close>

definition defer_to_arena :: "gpu_key \<Rightarrow> lifecycle \<Rightarrow> lifecycle" where
  "defer_to_arena gk l =
     (let ws = (case arena_load_waiters l (fst gk) of None \<Rightarrow> [] | Some ws \<Rightarrow> ws) in
      l\<lparr>arena_load_waiters := (arena_load_waiters l)(fst gk \<mapsto> (if gk \<in> set ws then ws else ws @ [gk]))\<rparr>)"

definition defer_to_slot :: "gpu_key \<Rightarrow> lifecycle \<Rightarrow> lifecycle" where
  "defer_to_slot gk l =
     (if gk \<in> set (slot_pressure_waiters l) then l
      else l\<lparr>slot_pressure_waiters := slot_pressure_waiters l @ [gk]\<rparr>)"

definition h2d_request_of :: "gpu_key \<Rightarrow> gpu_entry \<Rightarrow> host_source \<Rightarrow> cache_entry \<Rightarrow> int \<Rightarrow> h2d_request" where
  "h2d_request_of gk ge hs e ebytes =
     \<lparr>hr_key = gk, hr_dst = vram_address e, hr_src = hs_ptr hs,
      hr_bytes = (if 0 < hs_bytes hs \<and> hs_bytes hs < ebytes then hs_bytes hs else ebytes),
      hr_priority = ge_priority ge, hr_delay = delay_us ge, hr_staging = (\<not> hs_pinned hs)\<rparr>"

text \<open>The transfer was accepted: the counters, the observer, the entry, the publication and the progress event.\<close>

definition started_h2d :: "'x elm_deps \<Rightarrow> gpu_key \<Rightarrow> host_source \<Rightarrow> u64 \<Rightarrow> 'x world \<Rightarrow> 'x world" where
  "started_h2d d gk hs tok w =
     (let l = w_elm w;
          ge = (entry_of gk l)\<lparr>ge_tier := GTransferring, transfer_token := tok, host_buf_ref := hs_owned_buf hs\<rparr>;
          l1 = l\<lparr>h2d_direct := h2d_direct l + (if hs_pinned hs then 1 else 0),
                 h2d_staged := h2d_staged l + (if hs_pinned hs then 0 else 1)\<rparr>;
          l2 = put_entry gk ge l1;
          l3 = (if emit_progress d \<and> interests ge \<noteq> [] then
                  l2\<lparr>pending_progress := pending_progress l2 @
                       [\<lparr>pe_key = fst gk, pe_gpu = snd gk, pe_phase = 3, pe_cmd_seq = in_cmd_seq (hd (interests ge))\<rparr>]\<rparr>
                else l2)
      in w\<lparr>w_elm := l3,
           w_sub := (case h2d_enqueue_observer d of
                       Some f \<Rightarrow> if fetch_count_enabled l then f (fst gk) (w_sub w) else w_sub w
                     | None \<Rightarrow> w_sub w)\<rparr>)"

definition joined_h2d :: "gpu_key \<Rightarrow> host_source \<Rightarrow> 'x world \<Rightarrow> 'x world" where
  "joined_h2d gk hs w =
     on_elm (\<lambda>l. put_entry gk ((entry_of gk l)\<lparr>ge_tier := GTransferring, transfer_token := 0, host_buf_ref := hs_owned_buf hs\<rparr>) l) w"

definition try_start_h2d :: "'x elm_deps \<Rightarrow> gpu_key \<Rightarrow> 'x world \<Rightarrow> bool \<times> 'x world" where
  "try_start_h2d d gk w =
     (case resolve_host_source d (fst gk) (snd gk) (w_sub w) of (hs, x) \<Rightarrow>
       let w1 = w\<lparr>w_sub := x\<rparr> in
       if hs_status hs = HsPending then (False, on_elm (defer_to_arena gk) w1)
       else if hs_status hs = HsBackpressure then (False, on_elm (defer_to_slot gk) w1)
       else if hs_ptr hs = 0 then (False, w1)
       else case lookup (fst gk) (snd gk) (w_cache w1) of
              None \<Rightarrow> (False, w1)
            | Some e \<Rightarrow>
                if vram_address e = 0 then (False, w1)
                else case enqueue_h2d (transfer_engine d)
                            (h2d_request_of gk (entry_of gk (w_elm w1)) hs e (expert_bytes (w_cache w1))) x of
                       (Some tok, x2) \<Rightarrow> (True, started_h2d d gk hs tok (w1\<lparr>w_sub := x2\<rparr>))
                     | (None, x2) \<Rightarrow>
                         if is_inflight_h2d (transfer_engine d) gk x2
                         then (True, joined_h2d gk hs (w1\<lparr>w_sub := x2\<rparr>))
                         else (False, w1\<lparr>w_sub := x2\<rparr>))"

section \<open>Completing and reverting\<close>

text \<open>Erasing one pair from the multimap.\<close>

definition erase_seq :: "u32 \<Rightarrow> u64 \<Rightarrow> lifecycle \<Rightarrow> lifecycle" where
  "erase_seq seq tok l = l\<lparr>cmd_seq_to_token := remove1 (seq, tok) (cmd_seq_to_token l)\<rparr>"

definition drop_waiters :: "gpu_key \<Rightarrow> lifecycle \<Rightarrow> lifecycle" where
  "drop_waiters gk l =
     (case host_entries l (fst gk) of
        None \<Rightarrow> l
      | Some he \<Rightarrow> set_host (fst gk) (he\<lparr>gpu_waiters := filter (\<lambda>p. pc_gpu p \<noteq> snd gk) (gpu_waiters he)\<rparr>) l)"

text \<open>What the tier of the entry asks to undo: the transfer, the drain buffer and the cache entry.\<close>

definition undo_transfer :: "'x elm_deps \<Rightarrow> gpu_entry \<Rightarrow> 'x \<Rightarrow> 'x" where
  "undo_transfer d ge x =
     (let x1 = (if ge_tier ge \<in> {GTransferring, GDraining} \<and> transfer_token ge \<noteq> 0
                then te_cancel (transfer_engine d) (transfer_token ge) x else x) in
      if ge_tier ge = GDraining \<and> drain_host_buf ge \<noteq> 0 then
        (case numa_manager d of None \<Rightarrow> x1 | Some nm \<Rightarrow> numa_free nm (drain_host_buf ge) x1)
      else x1)"

definition revert_gpu_entry :: "'x elm_deps \<Rightarrow> gpu_key \<Rightarrow> 'x world \<Rightarrow> 'x world res" where
  "revert_gpu_entry d gk w =
     (let ge = entry_of gk (w_elm w);
          ge1 = (if ge_tier ge = GDraining then ge\<lparr>drain_host_buf := 0, drain_cmd_seq := 0\<rparr> else ge)
      in rbind (if ge_tier ge \<in> {GTransferring, GReserved, GDraining} then evict (fst gk) (snd gk) (w_cache w)
                else Inr (False, w_cache w))
        (\<lambda>(ok, c).
          Inr (w\<lparr>w_elm := drop_waiters gk
                   (publish_gpu_state (fst gk) (snd gk) GAbsent 0
                     (set_entry gk (ge1\<lparr>ge_tier := GAbsent, transfer_token := 0, host_buf_ref := None\<rparr>) (w_elm w))),
                w_cache := c, w_sub := undo_transfer d ge (w_sub w)\<rparr>)))"

definition completion_of :: "gpu_key \<Rightarrow> bool \<Rightarrow> interest \<Rightarrow> completion" where
  "completion_of gk success i =
     \<lparr>cp_token = in_token i, cp_cmd_seq = in_cmd_seq i, cp_key = fst gk, cp_gpu = snd gk, cp_success = success,
      is_eviction = False\<rparr>"

definition forget_interest :: "interest \<Rightarrow> lifecycle \<Rightarrow> lifecycle" where
  "forget_interest i l =
     erase_seq (in_cmd_seq i) (in_token i) (l\<lparr>token_index := (token_index l)(in_token i := None)\<rparr>)"

definition clear_interests :: "gpu_key \<Rightarrow> lifecycle \<Rightarrow> lifecycle" where
  "clear_interests gk l =
     (let ge = entry_of gk l in set_entry gk (ge\<lparr>interests := []\<rparr>) (fold forget_interest (interests ge) l))"

definition complete_interests ::
    "'x elm_deps \<Rightarrow> gpu_key \<Rightarrow> bool \<Rightarrow> 'x world \<Rightarrow> (completion list \<times> 'x world) res" where
  "complete_interests d gk success w =
     (let cs = map (completion_of gk success) (interests (entry_of gk (w_elm w)));
          w1 = on_elm (clear_interests gk) w
      in if success then Inr (cs, w1) else rbind (revert_gpu_entry d gk w1) (\<lambda>w2. Inr (cs, w2)))"

text \<open>The form in which the operations outside \<^verbatim>\<open>poll\<close> call it: the output vector is \<^verbatim>\<open>pending_completions_\<close>.\<close>

definition push_pending :: "completion list \<Rightarrow> lifecycle \<Rightarrow> lifecycle" where
  "push_pending cs l = l\<lparr>pending_completions := pending_completions l @ cs\<rparr>"

definition fail_interests :: "'x elm_deps \<Rightarrow> gpu_key \<Rightarrow> 'x world \<Rightarrow> 'x world res" where
  "fail_interests d gk w = rbind (complete_interests d gk False w) (\<lambda>(cs, w1). Inr (on_elm (push_pending cs) w1))"

section \<open>Requests\<close>

text \<open>Reserving a slot for an absent expert whose host copy is warm, and starting its transfer.\<close>

definition reserve_and_start :: "'x elm_deps \<Rightarrow> gpu_key \<Rightarrow> cache_zone \<Rightarrow> 'x world \<Rightarrow> 'x world res" where
  "reserve_and_start d gk z w =
     rbind (reserve (fst gk) (snd gk) z False (w_cache w))
       (\<lambda>(addr, c).
         let w1 = w\<lparr>w_cache := c\<rparr> in
         case addr of
           None \<Rightarrow> fail_interests d gk w1
         | Some a \<Rightarrow>
             Inr (snd (try_start_h2d d gk
               (on_elm (\<lambda>l. put_entry gk ((entry_of gk l)\<lparr>ge_tier := GReserved\<rparr>) l) w1))))"

definition add_waiter :: "gpu_key \<Rightarrow> cache_zone \<Rightarrow> lifecycle \<Rightarrow> lifecycle" where
  "add_waiter gk z l =
     (let he = host_of (fst gk) l in
      set_host (fst gk) (he\<lparr>gpu_waiters := gpu_waiters he @ [\<lparr>pc_gpu = snd gk, pc_zone = z\<rparr>]\<rparr>) l)"

definition add_interest :: "gpu_key \<Rightarrow> interest \<Rightarrow> lifecycle \<Rightarrow> lifecycle" where
  "add_interest gk i l = (let ge = entry_of gk l in set_entry gk (ge\<lparr>interests := interests ge @ [i]\<rparr>) l)"

text \<open>The chain of an absent expert, by its host tier.\<close>

definition start_chain :: "'x elm_deps \<Rightarrow> gpu_key \<Rightarrow> cache_zone \<Rightarrow> 'x world \<Rightarrow> 'x world res" where
  "start_chain d gk z w =
     (case he_tier (host_of (fst gk) (w_elm w)) of
        HWarm \<Rightarrow> reserve_and_start d gk z w
      | HLoadingToRam \<Rightarrow> Inr (on_elm (add_waiter gk z) w)
      | HCold \<Rightarrow>
          (case nvme_tier d of
             None \<Rightarrow> fail_interests d gk w
           | Some nv \<Rightarrow>
               (case read_expert nv (fst gk) (snd gk) (w_sub w) of
                  (None, x) \<Rightarrow> fail_interests d gk (w\<lparr>w_sub := x\<rparr>)
                | (Some tok, x) \<Rightarrow>
                    if tok = 0 then
                      reserve_and_start d gk z
                        (on_elm (\<lambda>l. publish_host_state d x (fst gk) HWarm
                           (set_host (fst gk) ((host_of (fst gk) l)\<lparr>he_tier := HWarm\<rparr>) l)) (w\<lparr>w_sub := x\<rparr>))
                    else
                      Inr (on_elm (\<lambda>l. add_waiter gk z
                        (let l1 = publish_host_state d x (fst gk) HLoadingToRam
                                    (set_host (fst gk) ((host_of (fst gk) l)\<lparr>he_tier := HLoadingToRam\<rparr>) l)
                         in set_host (fst gk) ((host_of (fst gk) l1)\<lparr>nvme_token := tok\<rparr>) l1)) (w\<lparr>w_sub := x\<rparr>)))))"

text \<open>A fresh token: the tables get their entries, the host tier is computed on first access, the token is indexed.\<close>

definition open_request :: "'x elm_deps \<Rightarrow> gpu_key \<Rightarrow> u32 \<Rightarrow> 'x world \<Rightarrow> 'x world" where
  "open_request d gk seq w =
     (let l = w_elm w; tok = next_token l; he = host_of (fst gk) l;
          he1 = (if he_tier he = HCold \<and> gpu_waiters he = [] \<and> nvme_token he = 0
                 then he\<lparr>he_tier := compute_host_tier d (w_sub w) (fst gk)\<rparr> else he)
      in w\<lparr>w_elm := set_host (fst gk) he1 (set_entry gk (entry_of gk l)
             (l\<lparr>next_token := tok + 1, token_index := (token_index l)(tok \<mapsto> gk),
                cmd_seq_to_token := cmd_seq_to_token l @ [(seq, tok)]\<rparr>))\<rparr>)"

definition begin_chain :: "'x elm_deps \<Rightarrow> gpu_key \<Rightarrow> interest \<Rightarrow> int \<Rightarrow> int \<Rightarrow> 'x world \<Rightarrow> 'x world res" where
  "begin_chain d gk i prio delay w =
     start_chain d gk (in_zone i)
       (on_elm (\<lambda>l. let ge = entry_of gk l in
          set_entry gk (ge\<lparr>interests := interests ge @ [i], ge_priority := prio, delay_us := delay\<rparr>) l) w)"

definition join_transfer :: "'x elm_deps \<Rightarrow> gpu_key \<Rightarrow> interest \<Rightarrow> int \<Rightarrow> 'x world \<Rightarrow> 'x world" where
  "join_transfer d gk i prio w =
     (let ge = entry_of gk (w_elm w);
          ge1 = ge\<lparr>interests := interests ge @ [i], ge_priority := max (ge_priority ge) prio\<rparr>
      in w\<lparr>w_elm := put_entry gk ge1 (w_elm w),
           w_sub := (if ge_priority ge < prio \<and> transfer_token ge \<noteq> 0
                     then reprioritize (transfer_engine d) (transfer_token ge) prio (w_sub w) else w_sub w)\<rparr>)"

definition join_reserved :: "'x elm_deps \<Rightarrow> gpu_key \<Rightarrow> interest \<Rightarrow> int \<Rightarrow> 'x world \<Rightarrow> 'x world" where
  "join_reserved d gk i prio w =
     (let w1 = on_elm (\<lambda>l. let ge = entry_of gk l in
                 put_entry gk (ge\<lparr>interests := interests ge @ [i], ge_priority := max (ge_priority ge) prio\<rparr>) l) w
      in if he_tier (host_of (fst gk) (w_elm w1)) = HWarm then snd (try_start_h2d d gk w1) else w1)"

text \<open>
  An entry that claims residency while the cache holds nothing is healed to \<^verbatim>\<open>kAbsent\<close> and its chain restarted.
\<close>

definition heal_entry :: "gpu_key \<Rightarrow> lifecycle \<Rightarrow> lifecycle" where
  "heal_entry gk l =
     publish_gpu_state (fst gk) (snd gk) GAbsent 0
       (set_entry gk ((entry_of gk l)\<lparr>ge_tier := GAbsent, transfer_token := 0, host_buf_ref := None\<rparr>) l)"

definition answer_now :: "gpu_key \<Rightarrow> interest \<Rightarrow> bool \<Rightarrow> 'x world \<Rightarrow> 'x world" where
  "answer_now gk i success w = on_elm (push_pending [completion_of gk success i]) w"

definition ensure_resident ::
    "'x elm_deps \<Rightarrow> expert_key \<Rightarrow> int \<Rightarrow> cache_zone \<Rightarrow> u32 \<Rightarrow> int \<Rightarrow> int \<Rightarrow> 'x world \<Rightarrow> (u64 \<times> 'x world) res" where
  "ensure_resident d k gpu z seq prio delay w =
     (let gk = (k, gpu); tok = next_token (w_elm w);
          i = \<lparr>in_token = tok, in_cmd_seq = seq, in_zone = z\<rparr>;
          w1 = open_request d gk seq w
      in rbind
        (case ge_tier (entry_of gk (w_elm w1)) of
           GAbsent \<Rightarrow> begin_chain d gk i prio delay w1
         | GReserved \<Rightarrow> Inr (join_reserved d gk i prio w1)
         | GTransferring \<Rightarrow> Inr (join_transfer d gk i prio w1)
         | GDraining \<Rightarrow> Inr (answer_now gk i False w1)
         | _ \<Rightarrow> (if lookup k gpu (w_cache w1) = None then begin_chain d gk i prio delay (on_elm (heal_entry gk) w1)
                 else Inr (answer_now gk i True w1)))
        (\<lambda>w2. Inr (tok, w2)))"

section \<open>Queries\<close>

record expert_state =
  es_host :: host_tier
  es_gpu :: gpu_tier
  interest_count :: u32

definition host_state :: "'x elm_deps \<Rightarrow> expert_key \<Rightarrow> 'x world \<Rightarrow> host_tier" where
  "host_state d k w =
     (case host_entries (w_elm w) k of Some he \<Rightarrow> he_tier he | None \<Rightarrow> compute_host_tier d (w_sub w) k)"

definition expert_state_of :: "'x elm_deps \<Rightarrow> expert_key \<Rightarrow> int \<Rightarrow> 'x world \<Rightarrow> expert_state" where
  "expert_state_of d k gpu w =
     (let ht = host_state d k w in
      case gpu_entries (w_elm w) (k, gpu) of
        Some ge \<Rightarrow> \<lparr>es_host = ht, es_gpu = ge_tier ge, interest_count = num_interests ge\<rparr>
      | None \<Rightarrow>
          (let gt = (if is_resident k gpu (w_cache w) then
                       (case lookup k gpu (w_cache w) of
                          Some e \<Rightarrow> if sub_components_ready e = kAll then GHot else GReserved
                        | None \<Rightarrow> GAbsent)
                     else GAbsent)
           in \<lparr>es_host = ht, es_gpu = gt, interest_count = 0\<rparr>))"

definition find_all_by_cmd_seq :: "u32 \<Rightarrow> lifecycle \<Rightarrow> u64 list" where
  "find_all_by_cmd_seq seq l = map snd (filter (\<lambda>(s, t). s = seq) (cmd_seq_to_token l))"

definition find_by_cmd_seq :: "u32 \<Rightarrow> lifecycle \<Rightarrow> u64" where
  "find_by_cmd_seq seq l = (case find_all_by_cmd_seq seq l of [] \<Rightarrow> 0 | t # ts \<Rightarrow> t)"

section \<open>Eviction, drain and cancellation\<close>

definition elm_evict :: "expert_key \<Rightarrow> int \<Rightarrow> 'x world \<Rightarrow> (bool \<times> 'x world) res" where
  "elm_evict k gpu w =
     rbind (request_evict k gpu (w_elm w, w_cache w)) (\<lambda>(ok, l, c). Inr (ok, w\<lparr>w_elm := l, w_cache := c\<rparr>))"

definition request_drain ::
    "'x elm_deps \<Rightarrow> expert_key \<Rightarrow> int \<Rightarrow> u32 \<Rightarrow> 'x world \<Rightarrow> bool \<times> 'x world" where
  "request_drain d k gpu seq w =
     (case gpu_entries (w_elm w) (k, gpu) of
        None \<Rightarrow> (False, w)
      | Some ge \<Rightarrow>
          if ge_tier ge \<noteq> GHot then (False, w)
          else if interests ge \<noteq> [] then (False, w)
          else case (numa_manager d, nvme_tier d, lookup k gpu (w_cache w)) of
            (Some nm, Some nv, Some e) \<Rightarrow>
              if vram_address e = 0 then (False, w)
              else
                (case allocate_for_gpu nm (expert_bytes (w_cache w)) gpu (w_sub w) of (buf, x) \<Rightarrow>
                   case enqueue_d2h (transfer_engine d) (k, gpu) buf (vram_address e) (expert_bytes (w_cache w)) x of
                     (None, x1) \<Rightarrow> (False, w\<lparr>w_sub := numa_free nm buf x1\<rparr>)
                   | (Some tok, x1) \<Rightarrow>
                       (True, w\<lparr>w_sub := x1,
                         w_elm := publish_gpu_state k gpu GDraining 0 (set_entry (k, gpu)
                           (ge\<lparr>ge_tier := GDraining, transfer_token := tok, drain_cmd_seq := seq, drain_host_buf := buf\<rparr>)
                           (w_elm w))\<rparr>))
          | _ \<Rightarrow> (False, w))"

text \<open>Removing the interest of a token from its entry, with the pair of the multimap; and its unreported completion.\<close>

definition take_interest :: "gpu_key \<Rightarrow> u64 \<Rightarrow> lifecycle \<Rightarrow> lifecycle" where
  "take_interest gk tok l =
     (let ge = entry_of gk l in
      case find (\<lambda>i. in_token i = tok) (interests ge) of
        None \<Rightarrow> l
      | Some i \<Rightarrow> erase_seq (in_cmd_seq i) tok (set_entry gk (ge\<lparr>interests := remove1 i (interests ge)\<rparr>) l))"

definition retract_completion :: "u64 \<Rightarrow> lifecycle \<Rightarrow> lifecycle" where
  "retract_completion tok l = l\<lparr>pending_completions := filter (\<lambda>c. cp_token c \<noteq> tok) (pending_completions l)\<rparr>"

definition cancel :: "'x elm_deps \<Rightarrow> u64 \<Rightarrow> 'x world \<Rightarrow> 'x world res" where
  "cancel d tok w =
     (case token_index (w_elm w) tok of
        None \<Rightarrow> Inr w
      | Some gk \<Rightarrow>
          let w1 = on_elm (\<lambda>l. l\<lparr>token_index := (token_index l)(tok := None)\<rparr>) w in
          if gpu_entries (w_elm w1) gk = None then Inr w1
          else
            let w2 = on_elm (\<lambda>l. retract_completion tok (take_interest gk tok l)) w1;
                ge = entry_of gk (w_elm w2)
            in if interests ge = [] then revert_gpu_entry d gk w2
               else Inr (on_elm (publish_gpu_state (fst gk) (snd gk) (ge_tier ge) (num_interests ge)) w2))"

section \<open>Batched residency\<close>

text \<open>The victims are consumed until one of them frees a slot.\<close>

fun evict_one :: "int \<Rightarrow> expert_key list \<Rightarrow> 'x world \<Rightarrow> (expert_key list \<times> 'x world) res" where
  "evict_one gpu [] w = Inr ([], w)"
| "evict_one gpu (v # vs) w =
     rbind (elm_evict v gpu w) (\<lambda>(ok, w1). if ok then Inr (vs, w1) else evict_one gpu vs w1)"

definition ensure_one ::
    "'x elm_deps \<Rightarrow> int \<Rightarrow> u32 \<Rightarrow> int \<Rightarrow> expert_key \<times> cache_zone \<Rightarrow> expert_key list \<times> nat \<times> 'x world
     \<Rightarrow> (expert_key list \<times> nat \<times> 'x world) res" where
  "ensure_one d gpu seq prio req s =
     (case (req, s) of ((k, z), (vs, n, w)) \<Rightarrow>
       rbind (if z = KStable \<and> es_gpu (expert_state_of d k gpu w) = GAbsent
              then rbind (free_slots gpu KStable (w_cache w)) (\<lambda>m. if m \<le> 0 then evict_one gpu vs w else Inr (vs, w))
              else Inr (vs, w))
         (\<lambda>(vs1, w1). rbind (ensure_resident d k gpu z seq prio 0 w1)
           (\<lambda>(tok, w2).
             Inr (vs1, (if es_gpu (expert_state_of d k gpu w2) \<noteq> GAbsent then n + 1 else n), w2))))"

definition ensure_residents ::
    "'x elm_deps \<Rightarrow> int \<Rightarrow> (expert_key \<times> cache_zone) list \<Rightarrow> expert_key list \<Rightarrow> u32 \<Rightarrow> int \<Rightarrow> 'x world
     \<Rightarrow> (nat \<times> 'x world) res" where
  "ensure_residents d gpu reqs victims seq prio w =
     rbind (rfold (ensure_one d gpu seq prio) reqs (victims, 0, w)) (\<lambda>(vs, n, w1). Inr (n, w1))"

section \<open>Poll\<close>

record poll_result =
  pr_lifecycle :: "completion list"
  pr_progress :: "progress_event list"
  unhandled_transfers :: "transfer_completion list"
  unhandled_nvme :: "io_completion list"

abbreviation report :: "completion list \<Rightarrow> poll_result \<Rightarrow> poll_result" where
  "report cs r \<equiv> r\<lparr>pr_lifecycle := pr_lifecycle r @ cs\<rparr>"

text \<open>\<^verbatim>\<open>complete_interests\<close> with the result of the poll as its output vector.\<close>

definition complete_into ::
    "'x elm_deps \<Rightarrow> gpu_key \<Rightarrow> bool \<Rightarrow> poll_result \<times> 'x world \<Rightarrow> (poll_result \<times> 'x world) res" where
  "complete_into d gk success s =
     (case s of (r, w) \<Rightarrow> rbind (complete_interests d gk success w) (\<lambda>(cs, w1). Inr (report cs r, w1)))"

definition tier_at :: "gpu_key \<Rightarrow> lifecycle \<Rightarrow> gpu_tier option" where
  "tier_at gk l = map_option ge_tier (gpu_entries l gk)"

text \<open>\<^verbatim>\<open>host_entries_[key]\<close> as a statement: the entry is there afterwards.\<close>

definition touch_host :: "expert_key \<Rightarrow> lifecycle \<Rightarrow> lifecycle" where
  "touch_host k l = set_host k (host_of k l) l"

definition redrive :: "'x elm_deps \<Rightarrow> gpu_key \<Rightarrow> 'x world \<Rightarrow> 'x world" where
  "redrive d gk w =
     (if tier_at gk (w_elm w) = Some GReserved then snd (try_start_h2d d gk (on_elm (touch_host (fst gk)) w)) else w)"

definition wake_arena_waiter ::
    "'x elm_deps \<Rightarrow> bool \<Rightarrow> gpu_key \<Rightarrow> poll_result \<times> 'x world \<Rightarrow> (poll_result \<times> 'x world) res" where
  "wake_arena_waiter d success gk s =
     (case s of (r, w) \<Rightarrow>
       if success then Inr (r, redrive d gk w)
       else if tier_at gk (w_elm w) = Some GReserved then complete_into d gk False (r, w)
       else Inr (r, w))"

definition arena_load_done ::
    "'x elm_deps \<Rightarrow> 'x arena_ops \<Rightarrow> arena_completion \<Rightarrow> poll_result \<times> 'x world \<Rightarrow> (poll_result \<times> 'x world) res" where
  "arena_load_done d ar lc s =
     (case s of (r, w) \<Rightarrow>
       let w1 = w\<lparr>w_sub := (if al_success lc then arena_mark_ready ar else clear_loading ar) (al_key lc) (al_gpu lc) (w_sub w)\<rparr>
       in case arena_load_waiters (w_elm w1) (al_key lc) of
            None \<Rightarrow> Inr (r, w1)
          | Some ws \<Rightarrow>
              rfold (wake_arena_waiter d (al_success lc)) ws
                (r, on_elm (\<lambda>l. l\<lparr>arena_load_waiters := (arena_load_waiters l)(al_key lc := None)\<rparr>) w1))"

definition process_arena_loads :: "'x elm_deps \<Rightarrow> poll_result \<times> 'x world \<Rightarrow> (poll_result \<times> 'x world) res" where
  "process_arena_loads d s =
     (case arena d of
        None \<Rightarrow> Inr s
      | Some ar \<Rightarrow>
          (case s of (r, w) \<Rightarrow>
             case poll_completed ar (w_sub w) of
               (loads, x) \<Rightarrow> rfold (arena_load_done d ar) loads (r, w\<lparr>w_sub := x\<rparr>)))"

text \<open>
  The loops over the GPU waiters of a host entry run on iterators into its vector: an iteration that erased from the vector
  leaves the loop with invalid iterators.
\<close>

definition waiter_loop ::
    "expert_key \<Rightarrow> (pending_chain \<Rightarrow> poll_result \<times> 'x world \<Rightarrow> (poll_result \<times> 'x world) res)
     \<Rightarrow> poll_result \<times> 'x world \<Rightarrow> (poll_result \<times> 'x world) res" where
  "waiter_loop k body s =
     (let ws = gpu_waiters (host_of k (w_elm (snd s))) in
      rfold (\<lambda>p s. rbind (body p s)
               (\<lambda>s'. if gpu_waiters (host_of k (w_elm (snd s'))) = ws then Inr s' else Inl UndefinedBehaviour)) ws s)"

definition chain_waiter ::
    "'x elm_deps \<Rightarrow> expert_key \<Rightarrow> pending_chain \<Rightarrow> poll_result \<times> 'x world \<Rightarrow> (poll_result \<times> 'x world) res" where
  "chain_waiter d k p s =
     (case s of (r, w0) \<Rightarrow>
       let gk = (k, pc_gpu p); w = on_elm (\<lambda>l. set_entry gk (entry_of gk l) l) w0 in
       case ge_tier (entry_of gk (w_elm w)) of
         GAbsent \<Rightarrow>
           rbind (reserve k (pc_gpu p) (pc_zone p) False (w_cache w))
             (\<lambda>(addr, c).
               let w1 = w\<lparr>w_cache := c\<rparr> in
               case addr of
                 Some a \<Rightarrow>
                   Inr (r, snd (try_start_h2d d gk
                     (on_elm (\<lambda>l. put_entry gk ((entry_of gk l)\<lparr>ge_tier := GReserved\<rparr>) l) w1)))
               | None \<Rightarrow> complete_into d gk False (r, w1))
       | GReserved \<Rightarrow> Inr (r, snd (try_start_h2d d gk w))
       | _ \<Rightarrow> Inr (r, w))"

definition fail_waiter ::
    "'x elm_deps \<Rightarrow> expert_key \<Rightarrow> pending_chain \<Rightarrow> poll_result \<times> 'x world \<Rightarrow> (poll_result \<times> 'x world) res" where
  "fail_waiter d k p s =
     (if gpu_entries (w_elm (snd s)) (k, pc_gpu p) = None then Inr s else complete_into d (k, pc_gpu p) False s)"

definition set_host_tier :: "'x elm_deps \<Rightarrow> expert_key \<Rightarrow> host_tier \<Rightarrow> 'x world \<Rightarrow> 'x world" where
  "set_host_tier d k t w =
     on_elm (\<lambda>l. publish_host_state d (w_sub w) k t (set_host k ((host_of k l)\<lparr>he_tier := t, nvme_token := 0\<rparr>) l)) w"

definition clear_waiters :: "expert_key \<Rightarrow> lifecycle \<Rightarrow> lifecycle" where
  "clear_waiters k l = set_host k ((host_of k l)\<lparr>gpu_waiters := []\<rparr>) l"

definition nvme_done ::
    "'x elm_deps \<Rightarrow> io_completion \<Rightarrow> poll_result \<times> 'x world \<Rightarrow> (poll_result \<times> 'x world) res" where
  "nvme_done d nc s =
     (case s of (r, w) \<Rightarrow>
       case host_entries (w_elm w) (nc_key nc) of
         Some he \<Rightarrow>
           if he_tier he \<noteq> HLoadingToRam then Inr (r\<lparr>unhandled_nvme := unhandled_nvme r @ [nc]\<rparr>, w)
           else
             rbind (waiter_loop (nc_key nc)
                      ((if nc_success nc then chain_waiter else fail_waiter) d (nc_key nc))
                      (r, set_host_tier d (nc_key nc) (if nc_success nc then HWarm else HCold) w))
               (\<lambda>(r1, w1). Inr (r1, on_elm (clear_waiters (nc_key nc)) w1))
       | None \<Rightarrow> Inr (r\<lparr>unhandled_nvme := unhandled_nvme r @ [nc]\<rparr>, w))"

definition redrive_slot_waiters :: "'x elm_deps \<Rightarrow> 'x world \<Rightarrow> 'x world" where
  "redrive_slot_waiters d w =
     fold (redrive d) (slot_pressure_waiters (w_elm w)) (on_elm (\<lambda>l. l\<lparr>slot_pressure_waiters := []\<rparr>) w)"

definition h2d_done ::
    "'x elm_deps \<Rightarrow> gpu_key \<Rightarrow> bool \<Rightarrow> poll_result \<times> 'x world \<Rightarrow> (poll_result \<times> 'x world) res" where
  "h2d_done d gk success s =
     (case s of (r, w) \<Rightarrow>
       let ge = (entry_of gk (w_elm w))\<lparr>transfer_token := 0, host_buf_ref := None\<rparr> in
       if success then
         rbind (mark_all_ready (fst gk) (snd gk) (w_cache w))
           (\<lambda>c. rbind (complete_into d gk True
                   (r, w\<lparr>w_cache := c, w_elm := put_entry gk (ge\<lparr>ge_tier := GHot\<rparr>) (w_elm w),
                         w_sub := release_packed_host_buffer d (fst gk) (w_sub w)\<rparr>))
             (\<lambda>(r1, w1).
               Inr (r1, redrive_slot_waiters d (on_elm (publish_gpu_state (fst gk) (snd gk) GHot 0) w1))))
       else complete_into d gk False (r, on_elm (set_entry gk ge) w))"

definition drain_completion :: "gpu_key \<Rightarrow> u32 \<Rightarrow> bool \<Rightarrow> completion" where
  "drain_completion gk seq success =
     \<lparr>cp_token = 0, cp_cmd_seq = seq, cp_key = fst gk, cp_gpu = snd gk, cp_success = success, is_eviction = True\<rparr>"

definition d2h_done ::
    "'x elm_deps \<Rightarrow> gpu_key \<Rightarrow> bool \<Rightarrow> poll_result \<times> 'x world \<Rightarrow> (poll_result \<times> 'x world) res" where
  "d2h_done d gk success s =
     (case s of (r, w) \<Rightarrow>
       let ge = entry_of gk (w_elm w);
           x = (if success then (case nvme_tier d of None \<Rightarrow> w_sub w | Some nv \<Rightarrow> write_expert nv (fst gk) (drain_host_buf ge) (w_sub w))
                else (case numa_manager d of None \<Rightarrow> w_sub w | Some nm \<Rightarrow> numa_free nm (drain_host_buf ge) (w_sub w)))
       in rbind (evict (fst gk) (snd gk) (w_cache w))
         (\<lambda>(ok, c).
           Inr (report [drain_completion gk (drain_cmd_seq ge) success] r,
             w\<lparr>w_cache := c, w_sub := x,
               w_elm := publish_gpu_state (fst gk) (snd gk) GAbsent 0 (set_entry gk
                 (ge\<lparr>ge_tier := GAbsent, transfer_token := 0, host_buf_ref := None, drain_cmd_seq := 0, drain_host_buf := 0\<rparr>)
                 (w_elm w))\<rparr>)))"

definition transfer_done ::
    "'x elm_deps \<Rightarrow> transfer_completion \<Rightarrow> poll_result \<times> 'x world \<Rightarrow> (poll_result \<times> 'x world) res" where
  "transfer_done d xc s =
     (case s of (r, w) \<Rightarrow>
       let gk = (xc_key xc, xc_gpu xc) in
       case xc_direction xc of
         KH2D \<Rightarrow> if tier_at gk (w_elm w) = Some GTransferring then h2d_done d gk (xc_success xc) s
                else Inr (r\<lparr>unhandled_transfers := unhandled_transfers r @ [xc]\<rparr>, w)
       | KD2H \<Rightarrow> if tier_at gk (w_elm w) = Some GDraining then d2h_done d gk (xc_success xc) s
                else Inr (r\<lparr>unhandled_transfers := unhandled_transfers r @ [xc]\<rparr>, w))"

definition take_pending :: "'x world \<Rightarrow> poll_result \<times> 'x world" where
  "take_pending w =
     (\<lparr>pr_lifecycle = pending_completions (w_elm w), pr_progress = pending_progress (w_elm w),
       unhandled_transfers = [], unhandled_nvme = []\<rparr>,
      on_elm (\<lambda>l. l\<lparr>pending_completions := [], pending_progress := []\<rparr>) w)"

definition poll ::
    "'x elm_deps \<Rightarrow> transfer_completion list \<Rightarrow> io_completion list \<Rightarrow> 'x world \<Rightarrow> (poll_result \<times> 'x world) res" where
  "poll d xcs ncs w =
     rbind (process_arena_loads d (take_pending w))
       (\<lambda>s1. rbind (rfold (nvme_done d) ncs s1) (\<lambda>s2. rfold (transfer_done d) xcs s2))"

section \<open>Zone management\<close>

definition elm_move ::
    "(expert_key \<Rightarrow> int \<Rightarrow> expert_cache \<Rightarrow> (bool \<times> expert_cache) res) \<Rightarrow> expert_key \<Rightarrow> int \<Rightarrow> 'x world
     \<Rightarrow> (bool \<times> 'x world) res" where
  "elm_move mv k gpu w =
     (if (case gpu_entries (w_elm w) (k, gpu) of None \<Rightarrow> False | Some ge \<Rightarrow> ge_tier ge \<noteq> GHot) then Inr (False, w)
      else rbind (mv k gpu (w_cache w))
        (\<lambda>(ok, c). Inr (ok, (if ok then on_elm (publish_gpu_state k gpu GHot 0) else id) (w\<lparr>w_cache := c\<rparr>))))"

definition elm_promote :: "expert_key \<Rightarrow> int \<Rightarrow> 'x world \<Rightarrow> (bool \<times> 'x world) res" where
  "elm_promote = elm_move cache_promote"

definition elm_demote :: "expert_key \<Rightarrow> int \<Rightarrow> 'x world \<Rightarrow> (bool \<times> 'x world) res" where
  "elm_demote = elm_move cache_demote"

section \<open>Construction\<close>

text \<open>\<^verbatim>\<open>memset\<close> over the first \<open>n\<close> elements of an array.\<close>

definition fill_upto :: "nat \<Rightarrow> 'a \<Rightarrow> (nat \<Rightarrow> 'a) \<Rightarrow> nat \<Rightarrow> 'a" where
  "fill_upto n v a = (\<lambda>i. if i < n then v else a i)"

definition clear_active :: "nat \<Rightarrow> state_snapshot \<Rightarrow> state_snapshot" where
  "clear_active layers s =
     (let triples = layers * kMaxExperts * kMaxGpus; experts = layers * kMaxExperts in
      s\<lparr>expert_gpu_tier := fill_upto triples 0 (expert_gpu_tier s),
        expert_interest_count := fill_upto triples 0 (expert_interest_count s),
        residency_bitmap := fill_upto (triples div 8) 0 (residency_bitmap s),
        host_resident_bitmap := fill_upto (experts div 8) 0 (host_resident_bitmap s),
        snap_host_tier := fill_upto experts 0 (snap_host_tier s),
        expert_host_numa := fill_upto experts (- 1) (expert_host_numa s),
        host_numa_tier := fill_upto (experts * kMaxNuma) 0 (host_numa_tier s)\<rparr>)"

text \<open>The host side of one expert at start: only a warm expert gets its bit, its node and its cell in the row.\<close>

definition boot_host :: "nat \<Rightarrow> host_tier \<Rightarrow> int \<Rightarrow> state_snapshot \<Rightarrow> state_snapshot" where
  "boot_host idx t numa s =
     (let s1 = s\<lparr>snap_host_tier := (snap_host_tier s)(idx := host_code t)\<rparr> in
      if t = HWarm then
        s1\<lparr>host_resident_bitmap := set_bit_of idx True (host_resident_bitmap s1),
           expert_host_numa := (expert_host_numa s1)(idx := numa),
           host_numa_tier :=
             (if 0 \<le> numa \<and> numa < int kMaxNuma
              then (host_numa_tier s1)(idx * kMaxNuma + nat numa := host_code HWarm) else host_numa_tier s1)\<rparr>
      else s1)"

definition boot_tier :: "nat \<Rightarrow> gpu_tier \<Rightarrow> state_snapshot \<Rightarrow> state_snapshot" where
  "boot_tier flat t s =
     (let s1 = s\<lparr>expert_gpu_tier := (expert_gpu_tier s)(flat := tier_code t)\<rparr> in
      if t = GHot then s1\<lparr>residency_bitmap := set_bit_of flat True (residency_bitmap s1)\<rparr> else s1)"

definition boot_resident :: "'x elm_deps \<Rightarrow> 'x \<Rightarrow> residency_info \<Rightarrow> lifecycle \<Rightarrow> lifecycle" where
  "boot_resident d x ri l =
     (let k = ri_key ri; gpu = ri_gpu ri in
      if \<not> publishable l k gpu then l
      else
        let gt = (if ri_ready ri = kAll then GHot else GReserved);
            ht = compute_host_tier d x k;
            numa = (case nvme_tier d of Some nv \<Rightarrow> int8_of (host_numa_node nv k x) | None \<Rightarrow> 0);
            he = host_of k l;
            l1 = l\<lparr>snapshot := map_option (\<lambda>s. boot_host (host_slot l k) ht numa (boot_tier (snapshot_slot l k gpu) gt s)) (snapshot l)\<rparr>;
            l2 = set_entry (k, gpu) ((entry_of (k, gpu) l1)\<lparr>ge_tier := gt\<rparr>) l1
        in set_host k (if he_tier he = HCold then he\<lparr>he_tier := ht\<rparr> else he) l2)"

definition boot_warm :: "'x elm_deps \<Rightarrow> 'x \<Rightarrow> nat \<times> nat \<Rightarrow> lifecycle \<Rightarrow> lifecycle res" where
  "boot_warm d x le l =
     (case le of (layer, e) \<Rightarrow>
       let idx = layer * kMaxExperts + e;
           k = ExpertKey (word_of_nat layer + first_moe_layer l) (word_of_nat e)
       in if kMaxMoeLayers * kMaxExperts \<le> idx then Inl UndefinedBehaviour
          else Inr (l\<lparr>snapshot := map_option (\<lambda>s.
                 if snap_host_tier s idx \<noteq> 0 then s else boot_host idx (compute_host_tier d x k) 0 s) (snapshot l)\<rparr>))"

definition bootstrap_snapshot :: "'x elm_deps \<Rightarrow> expert_cache \<Rightarrow> 'x \<Rightarrow> lifecycle \<Rightarrow> lifecycle res" where
  "bootstrap_snapshot d c x l =
     (if snapshot l = None then Inr l
      else if kMaxMoeLayers < unat (num_moe_layers l) then Inl UndefinedBehaviour
      else
        rbind (rfold (\<lambda>g l. rbind (residency_snapshot_gpu g c) (\<lambda>ris. Inr (fold (boot_resident d x) ris l)))
                 (map int [0..<min (nat (num_gpus l)) kMaxGpus])
                 (l\<lparr>snapshot := map_option (clear_active (unat (num_moe_layers l))) (snapshot l)\<rparr>))
          (\<lambda>l1. if loaded_model d = None \<and> prepacked_has d = None then Inr l1
                else rfold (boot_warm d x)
                       (concat (map (\<lambda>layer. map (Pair layer) [0..<unat (num_experts l)]) [0..<unat (num_moe_layers l)])) l1))"

text \<open>The state of the constructor, before and after the bootstrap.\<close>

definition blank_elm :: "state_snapshot option \<Rightarrow> u32 \<Rightarrow> u32 \<Rightarrow> u32 \<Rightarrow> int \<Rightarrow> lifecycle" where
  "blank_elm snap first layers experts gpus =
     \<lparr>gpu_entries = Map.empty, snapshot = snap, first_moe_layer = first, num_moe_layers = layers, num_experts = experts,
      num_gpus = gpus, host_entries = Map.empty, arena_load_waiters = Map.empty, slot_pressure_waiters = [],
      token_index = Map.empty, cmd_seq_to_token = [], pending_completions = [], pending_progress = [], next_token = 1,
      h2d_direct = 0, h2d_staged = 0, fetch_count_enabled = True\<rparr>"

definition elm_init ::
    "'x elm_deps \<Rightarrow> state_snapshot option \<Rightarrow> u32 \<Rightarrow> u32 \<Rightarrow> u32 \<Rightarrow> int \<Rightarrow> expert_cache \<Rightarrow> 'x \<Rightarrow> 'x world res" where
  "elm_init d snap first layers experts gpus c x =
     rbind (bootstrap_snapshot d c x (blank_elm snap first layers experts gpus))
       (\<lambda>l. Inr \<lparr>w_elm = l, w_cache = c, w_sub = x\<rparr>)"

section \<open>The interface\<close>

definition set_fetch_count_enabled :: "bool \<Rightarrow> lifecycle \<Rightarrow> lifecycle" where
  "set_fetch_count_enabled b l = l\<lparr>fetch_count_enabled := b\<rparr>"

definition h2d_path_stats :: "lifecycle \<Rightarrow> u64 \<times> u64" where
  "h2d_path_stats l = (h2d_direct l, h2d_staged l)"

text \<open>The calls of the manager's clients, and what each reports: the completions of a poll, and the token of a request.\<close>

datatype elm_call =
    EnsureResident expert_key int cache_zone u32 int int
  | EnsureResidents int "(expert_key \<times> cache_zone) list" "expert_key list" u32 int
  | RequestEvict expert_key int
  | RequestDrain expert_key int u32
  | Cancel u64
  | Poll "transfer_completion list" "io_completion list"
  | Promote expert_key int
  | Demote expert_key int
  | SetFetchCount bool

definition elm_exec :: "'x elm_deps \<Rightarrow> elm_call \<Rightarrow> 'x world \<Rightarrow> (completion list \<times> 'x world) res" where
  "elm_exec d call w =
     (case call of
        EnsureResident k gpu z seq prio delay \<Rightarrow> rbind (ensure_resident d k gpu z seq prio delay w) (\<lambda>(tok, w1). Inr ([], w1))
      | EnsureResidents gpu reqs vs seq prio \<Rightarrow> rbind (ensure_residents d gpu reqs vs seq prio w) (\<lambda>(n, w1). Inr ([], w1))
      | RequestEvict k gpu \<Rightarrow> rbind (elm_evict k gpu w) (\<lambda>(ok, w1). Inr ([], w1))
      | RequestDrain k gpu seq \<Rightarrow> Inr ([], snd (request_drain d k gpu seq w))
      | Cancel tok \<Rightarrow> rbind (cancel d tok w) (\<lambda>w1. Inr ([], w1))
      | Poll xcs ncs \<Rightarrow> rbind (poll d xcs ncs w) (\<lambda>(r, w1). Inr (pr_lifecycle r, w1))
      | Promote k gpu \<Rightarrow> rbind (elm_promote k gpu w) (\<lambda>(ok, w1). Inr ([], w1))
      | Demote k gpu \<Rightarrow> rbind (elm_demote k gpu w) (\<lambda>(ok, w1). Inr ([], w1))
      | SetFetchCount b \<Rightarrow> Inr ([], on_elm (set_fetch_count_enabled b) w))"

end
