(* ===== verification/Lifecycle_Tokens.thy ===== *)
theory Lifecycle_Tokens
  imports Lifecycle_Ops
begin

text \<open>
  The books the lifecycle manager keeps on requests. A token is open while it waits as an interest of an entry or while its
  completion has not been handed to the client; \<open>ledger\<close> says that the tables agree on the open tokens, \<open>moves\<close> that a
  step keeps them open.
\<close>

named_theorems elm_simps \<open>how the primitive writes of the lifecycle manager act on its tables\<close>

section \<open>Views\<close>

definition ints :: "lifecycle \<Rightarrow> gpu_key \<Rightarrow> interest list" where
  "ints l = (\<lambda>gk. interests (entry_of gk l))"

definition tier :: "lifecycle \<Rightarrow> gpu_key \<Rightarrow> gpu_tier" where
  "tier l = (\<lambda>gk. ge_tier (entry_of gk l))"

definition answers :: "completion list \<Rightarrow> u64 list" where
  "answers cs = map cp_token (filter (\<lambda>c. \<not> is_eviction c) cs)"

lemma answers_append [simp]: "answers (cs @ ds) = answers cs @ answers ds"
  by (simp add: answers_def)

lemma answers_Nil [simp]: "answers [] = []"
  by (simp add: answers_def)

lemma answers_completion_of [simp]: "answers (map (completion_of gk b) is) = map in_token is"
  by (induction "is") (simp_all add: answers_def completion_of_def)

lemma answers_drain [simp]: "answers [drain_completion gk n b] = []"
  by (simp add: answers_def drain_completion_def)

lemma entry_of_set_entry [elm_simps]: "entry_of gk' (set_entry gk ge l) = (if gk' = gk then ge else entry_of gk' l)"
  by (simp add: entry_of_def set_entry_def)

lemma set_entry_fields [elm_simps]:
  "token_index (set_entry gk ge l) = token_index l" "next_token (set_entry gk ge l) = next_token l"
  "pending_completions (set_entry gk ge l) = pending_completions l" "host_entries (set_entry gk ge l) = host_entries l"
  "snapshot (set_entry gk ge l) = snapshot l" "first_moe_layer (set_entry gk ge l) = first_moe_layer l"
  "host_of k (set_entry gk ge l) = host_of k l"
  by (simp_all add: set_entry_def host_of_def)

lemma set_host_fields [elm_simps]:
  "token_index (set_host k he l) = token_index l" "next_token (set_host k he l) = next_token l"
  "pending_completions (set_host k he l) = pending_completions l" "gpu_entries (set_host k he l) = gpu_entries l"
  "snapshot (set_host k he l) = snapshot l" "first_moe_layer (set_host k he l) = first_moe_layer l"
  "entry_of gk (set_host k he l) = entry_of gk l" "host_of k' (set_host k he l) = (if k' = k then he else host_of k' l)"
  by (simp_all add: set_host_def entry_of_def host_of_def)

lemma publish_gpu_fields [elm_simps]:
  "token_index (publish_gpu_state k g t n l) = token_index l" "next_token (publish_gpu_state k g t n l) = next_token l"
  "pending_completions (publish_gpu_state k g t n l) = pending_completions l"
  "host_entries (publish_gpu_state k g t n l) = host_entries l"
  "first_moe_layer (publish_gpu_state k g t n l) = first_moe_layer l"
  "entry_of gk (publish_gpu_state k g t n l) = entry_of gk l" "host_of k' (publish_gpu_state k g t n l) = host_of k' l"
  by (cases "snapshot l"; simp add: publish_gpu_state_def entry_of_def host_of_def)+

lemma publish_host_fields [elm_simps]:
  "token_index (publish_host_state d x k t l) = token_index l" "next_token (publish_host_state d x k t l) = next_token l"
  "pending_completions (publish_host_state d x k t l) = pending_completions l"
  "host_entries (publish_host_state d x k t l) = host_entries l"
  "gpu_entries (publish_host_state d x k t l) = gpu_entries l"
  "first_moe_layer (publish_host_state d x k t l) = first_moe_layer l"
  "entry_of gk (publish_host_state d x k t l) = entry_of gk l" "host_of k' (publish_host_state d x k t l) = host_of k' l"
  by (cases "snapshot l"; simp add: publish_host_state_def entry_of_def host_of_def)+

lemma put_entry_fields [elm_simps]:
  "token_index (put_entry gk ge l) = token_index l" "next_token (put_entry gk ge l) = next_token l"
  "pending_completions (put_entry gk ge l) = pending_completions l"
  "host_entries (put_entry gk ge l) = host_entries l" "host_of k (put_entry gk ge l) = host_of k l"
  "first_moe_layer (put_entry gk ge l) = first_moe_layer l"
  "entry_of gk' (put_entry gk ge l) = (if gk' = gk then ge else entry_of gk' l)"
  by (simp_all add: put_entry_def elm_simps)

section \<open>Steps that leave the books alone\<close>

definition same_books :: "lifecycle \<Rightarrow> lifecycle \<Rightarrow> bool" where
  "same_books l l' \<longleftrightarrow>
     ints l' = ints l \<and> token_index l' = token_index l \<and> next_token l' = next_token l
     \<and> pending_completions l' = pending_completions l"

lemma same_books_refl [simp, intro]: "same_books l l"
  by (simp add: same_books_def)

lemma same_books_trans: "same_books l l1 \<Longrightarrow> same_books l1 l2 \<Longrightarrow> same_books l l2"
  by (simp add: same_books_def)

lemma set_fetch_count_books: "same_books l (set_fetch_count_enabled b l)"
  by (simp add: same_books_def set_fetch_count_enabled_def ints_def entry_of_def)

lemma ints_set_entry [elm_simps]: "ints (set_entry gk ge l) = (ints l)(gk := interests ge)"
  by (auto simp: ints_def elm_simps)

lemma ints_put_entry [elm_simps]: "ints (put_entry gk ge l) = (ints l)(gk := interests ge)"
  by (auto simp: ints_def elm_simps)

lemma ints_others [elm_simps]:
  "ints (set_host k he l) = ints l" "ints (publish_gpu_state k g t n l) = ints l"
  "ints (publish_host_state d x k ht l) = ints l"
  by (auto simp: ints_def elm_simps)

lemma entry_of_update [simp]:
  "entry_of gk (l\<lparr>pending_completions := a\<rparr>) = entry_of gk l" "entry_of gk (l\<lparr>pending_progress := b\<rparr>) = entry_of gk l"
  "entry_of gk (l\<lparr>arena_load_waiters := e\<rparr>) = entry_of gk l" "entry_of gk (l\<lparr>slot_pressure_waiters := f\<rparr>) = entry_of gk l"
  "entry_of gk (l\<lparr>token_index := g\<rparr>) = entry_of gk l" "entry_of gk (l\<lparr>cmd_seq_to_token := h\<rparr>) = entry_of gk l"
  "entry_of gk (l\<lparr>next_token := i\<rparr>) = entry_of gk l" "entry_of gk (l\<lparr>h2d_direct := j\<rparr>) = entry_of gk l"
  "entry_of gk (l\<lparr>h2d_staged := m\<rparr>) = entry_of gk l"
  "entry_of gk (l\<lparr>snapshot := n\<rparr>) = entry_of gk l"
  by (simp_all add: entry_of_def)

lemma host_of_update [simp]:
  "host_of k (l\<lparr>pending_completions := a\<rparr>) = host_of k l" "host_of k (l\<lparr>pending_progress := b\<rparr>) = host_of k l"
  "host_of k (l\<lparr>arena_load_waiters := e\<rparr>) = host_of k l" "host_of k (l\<lparr>slot_pressure_waiters := f\<rparr>) = host_of k l"
  "host_of k (l\<lparr>token_index := g\<rparr>) = host_of k l" "host_of k (l\<lparr>cmd_seq_to_token := h\<rparr>) = host_of k l"
  "host_of k (l\<lparr>next_token := i\<rparr>) = host_of k l" "host_of k (l\<lparr>h2d_direct := j\<rparr>) = host_of k l"
  "host_of k (l\<lparr>h2d_staged := m\<rparr>) = host_of k l"
  "host_of k (l\<lparr>snapshot := n\<rparr>) = host_of k l"
  by (simp_all add: host_of_def)

lemma entry_books:
  assumes "interests ge = interests (entry_of gk l)"
  shows "same_books l (set_entry gk ge l)" "same_books l (put_entry gk ge l)"
  using assms by (simp_all add: same_books_def elm_simps) (simp_all add: ints_def fun_eq_iff)

lemma try_start_cases:
  obtains (stay) x where "try_start_h2d d gk w = (False, w\<lparr>w_sub := x\<rparr>)"
  | (arena) x where "try_start_h2d d gk w = (False, on_elm (defer_to_arena gk) (w\<lparr>w_sub := x\<rparr>))"
  | (slot) x where "try_start_h2d d gk w = (False, on_elm (defer_to_slot gk) (w\<lparr>w_sub := x\<rparr>))"
  | (started) x hs tok where "lookup (fst gk) (snd gk) (w_cache w) \<noteq> None"
      "try_start_h2d d gk w = (True, started_h2d d gk hs tok (w\<lparr>w_sub := x\<rparr>))"
  | (joined) x hs where "lookup (fst gk) (snd gk) (w_cache w) \<noteq> None"
      "try_start_h2d d gk w = (True, joined_h2d gk hs (w\<lparr>w_sub := x\<rparr>))"
proof -
  obtain hs x where r: "resolve_host_source d (fst gk) (snd gk) (w_sub w) = (hs, x)" by fastforce
  note unf = try_start_h2d_def [of d gk w] r Let_def
  consider "hs_status hs = HsPending" | "hs_status hs = HsBackpressure"
    | "hs_status hs \<noteq> HsPending" "hs_status hs \<noteq> HsBackpressure" "hs_ptr hs = 0"
    | "hs_status hs \<noteq> HsPending" "hs_status hs \<noteq> HsBackpressure" "hs_ptr hs \<noteq> 0" by blast
  then show thesis
  proof cases
    case 1
    then show ?thesis by (intro arena [of x]) (simp add: unf)
  next
    case 2
    then show ?thesis by (intro slot [of x]) (simp add: unf)
  next
    case 3
    then show ?thesis by (intro stay [of x]) (simp add: unf)
  next
    case c: 4
    show ?thesis
    proof (cases "lookup (fst gk) (snd gk) (w_cache w)")
      case None
      with c show ?thesis by (intro stay [of x]) (simp add: unf)
    next
      case e: (Some e)
      obtain t x2 where q: "enqueue_h2d (transfer_engine d)
          (h2d_request_of gk (entry_of gk (w_elm w)) hs e (expert_bytes (w_cache w))) x = (t, x2)" by fastforce
      show ?thesis
      proof (cases "vram_address e = 0")
        case True
        with c e show ?thesis by (intro stay [of x]) (simp add: unf)
      next
        case False
        with c e q stay [of x2] started [of hs _ x2] joined [of hs x2] show ?thesis
          by (cases t; cases "is_inflight_h2d (transfer_engine d) gk x2") (simp_all add: unf)
      qed
    qed
  qed
qed

lemma deferred_books: "same_books l (defer_to_arena gk l)" "same_books l (defer_to_slot gk l)"
  by (simp_all add: same_books_def defer_to_arena_def defer_to_slot_def Let_def ints_def)

lemma started_books: "same_books (w_elm w) (w_elm (started_h2d d gk hs tok w))"
  by (simp add: same_books_def started_h2d_def Let_def elm_simps ints_def fun_eq_iff)

lemma joined_books: "same_books (w_elm w) (w_elm (joined_h2d gk hs w))"
  by (auto simp: same_books_def joined_h2d_def elm_simps ints_def)

lemma try_start_books: "same_books (w_elm w) (w_elm (snd (try_start_h2d d gk w)))"
  using deferred_books started_books [of "w\<lparr>w_sub := x\<rparr>" for x] joined_books [of "w\<lparr>w_sub := x\<rparr>" for x]
  by (cases rule: try_start_cases [of d gk w]) simp_all

lemma revert_books: "revert_gpu_entry d gk w = Inr w' \<Longrightarrow> same_books (w_elm w) (w_elm w')"
  by (auto simp: same_books_def revert_gpu_entry_def drop_waiters_def Let_def elm_simps ints_def res_simps
      split: option.splits if_splits)

lemma redrive_books: "same_books (w_elm w) (w_elm (redrive d gk w))"
proof -
  have "same_books (w_elm w) (touch_host k (w_elm w))" for k
    by (simp add: same_books_def touch_host_def elm_simps)
  then show ?thesis
    using try_start_books [of "on_elm (touch_host (fst gk)) w" d gk] same_books_trans by (auto simp: redrive_def)
qed

section \<open>Books\<close>

text \<open>
  The abstract form: queues \<open>f\<close> of open tokens, an index \<open>ti\<close> from a token to its queue and an outbox of answered ones;
  every token stands in one place.
\<close>

definition books :: "('g \<Rightarrow> 't list) \<Rightarrow> ('t \<rightharpoonup> 'g) \<Rightarrow> 't list \<Rightarrow> bool" where
  "books f ti out \<longleftrightarrow>
     (\<forall>g. distinct (f g)) \<and> (\<forall>g. \<forall>t \<in> set (f g). ti t = Some g) \<and> distinct out \<and> (\<forall>g. set (f g) \<inter> set out = {})"

definition open_in :: "('g \<Rightarrow> 't list) \<Rightarrow> 't list \<Rightarrow> 't set" where
  "open_in f out = (\<Union>g. set (f g)) \<union> set out"

lemma books_answer:
  assumes "books f ti out"
  shows "books (f(g := [])) (ti |` (- set (f g))) (out @ f g)" "open_in (f(g := [])) (out @ f g) = open_in f out"
proof -
  have "set (f h) \<inter> set (f g) = {}" if "h \<noteq> g" for h
    using assms that by (auto simp: books_def) (metis option.inject)
  then show "books (f(g := [])) (ti |` (- set (f g))) (out @ f g)"
    using assms by (auto simp: books_def restrict_map_def)
  show "open_in (f(g := [])) (out @ f g) = open_in f out"
    by (auto simp: open_in_def split: if_splits)
qed

lemma books_open:
  assumes "books f ti out" "t \<notin> open_in f out"
  shows "books (f(g := f g @ [t])) (ti(t \<mapsto> g)) out" "books f (ti(t \<mapsto> g)) (out @ [t])"
    "open_in (f(g := f g @ [t])) out = insert t (open_in f out)"
  using assms by (auto simp: books_def open_in_def split: if_splits)

lemma open_in_answered [simp]: "open_in f (out @ [t]) = insert t (open_in f out)"
  by (simp add: open_in_def)

lemma books_withdraw:
  assumes "books f ti out" "ti t = Some g"
  shows "books (f(g := remove1 t (f g))) (ti(t := None)) (filter (\<lambda>u. u \<noteq> t) out)"
    "open_in (f(g := remove1 t (f g))) (filter (\<lambda>u. u \<noteq> t) out) = open_in f out - {t}"
proof -
  have d: "set (remove1 t (f g)) = set (f g) - {t}" and t: "t \<notin> set (f h)" if "h \<noteq> g" for h
    using assms that by (auto simp: books_def)
  have s: "set (remove1 t (f g)) = set (f g) - {t}" using assms by (simp add: books_def)
  show "books (f(g := remove1 t (f g))) (ti(t := None)) (filter (\<lambda>u. u \<noteq> t) out)"
    using assms t s unfolding books_def by (auto simp: distinct_remove1)
  show "open_in (f(g := remove1 t (f g))) (filter (\<lambda>u. u \<noteq> t) out) = open_in f out - {t}"
    using t s by (auto simp: open_in_def split: if_splits)
qed

lemma books_index: "books f ti out \<Longrightarrow> (\<And>g t. t \<in> set (f g) \<Longrightarrow> ti' t = ti t) \<Longrightarrow> books f ti' out"
  by (auto simp: books_def)

section \<open>The ledger\<close>

definition toks :: "lifecycle \<Rightarrow> gpu_key \<Rightarrow> u64 list" where
  "toks l = (\<lambda>gk. map in_token (ints l gk))"

definition outstanding :: "completion list \<Rightarrow> lifecycle \<Rightarrow> u64 set" where
  "outstanding cs l = open_in (toks l) (answers cs)"

definition ledger :: "completion list \<Rightarrow> lifecycle \<Rightarrow> bool" where
  "ledger cs l \<longleftrightarrow>
     books (toks l) (token_index l) (answers cs) \<and> (\<forall>t \<in> outstanding cs l. t \<noteq> 0 \<and> t < next_token l)
     \<and> next_token l \<noteq> 0"

definition moves :: "completion list \<Rightarrow> lifecycle \<Rightarrow> completion list \<Rightarrow> lifecycle \<Rightarrow> bool" where
  "moves cs l cs' l' \<longleftrightarrow>
     (ledger cs l \<longrightarrow> ledger cs' l') \<and> (ledger cs l \<longrightarrow> outstanding cs' l' = outstanding cs l) \<and> next_token l' = next_token l
     \<and> set (answers cs) \<subseteq> set (answers cs')"

lemma moves_refl [simp, intro]: "moves cs l cs l"
  by (simp add: moves_def)

lemma moves_trans [trans]: "moves cs l cs1 l1 \<Longrightarrow> moves cs1 l1 cs2 l2 \<Longrightarrow> moves cs l cs2 l2"
  by (auto simp: moves_def)

lemma same_books_moves: "same_books l l' \<Longrightarrow> moves cs l cs l'"
  by (simp add: same_books_def moves_def ledger_def outstanding_def toks_def)

lemma toks_set_entry [elm_simps]: "toks (set_entry gk ge l) = (toks l)(gk := map in_token (interests ge))"
  by (auto simp: toks_def elm_simps)

lemma forget_fields:
  "ints (fold forget_interest is l) = ints l" "next_token (fold forget_interest is l) = next_token l"
  "pending_completions (fold forget_interest is l) = pending_completions l"
  "entry_of gk (fold forget_interest is l) = entry_of gk l" "host_entries (fold forget_interest is l) = host_entries l"
  "snapshot (fold forget_interest is l) = snapshot l" "first_moe_layer (fold forget_interest is l) = first_moe_layer l"
  "gpu_entries (fold forget_interest is l) = gpu_entries l"
  "token_index (fold forget_interest is l) = token_index l |` (- in_token ` set is)"
  by (induction "is" arbitrary: l)
     (simp_all add: forget_interest_def erase_seq_def ints_def restrict_map_def fun_eq_iff)

lemma clear_moves: "moves cs l (cs @ map (completion_of gk b) (ints l gk)) (clear_interests gk l)"
proof -
  have f: "toks (clear_interests gk l) = (toks l)(gk := [])"
    "token_index (clear_interests gk l) = token_index l |` (- set (toks l gk))"
    "next_token (clear_interests gk l) = next_token l"
    by (simp_all add: clear_interests_def Let_def elm_simps forget_fields toks_def ints_def fun_eq_iff)
  have a: "map in_token (ints l gk) = toks l gk" by (simp add: toks_def)
  show ?thesis
    using books_answer [of "toks l" "token_index l" "answers cs" gk]
    by (auto simp: moves_def ledger_def outstanding_def f a)
qed

lemma clear_pending: "pending_completions (clear_interests gk l) = pending_completions l"
  by (simp add: clear_interests_def Let_def elm_simps forget_fields)

lemma complete_moves:
  assumes "complete_interests d gk b w = Inr (cs', w')"
  shows "moves cs (w_elm w) (cs @ cs') (w_elm w')" "pending_completions (w_elm w') = pending_completions (w_elm w)"
proof -
  have cs: "cs' = map (completion_of gk b) (ints (w_elm w) gk)"
    using assms by (auto simp: complete_interests_def Let_def ints_def res_simps split: if_splits)
  have "same_books (clear_interests gk (w_elm w)) (w_elm w')"
    using assms revert_books [of d gk "on_elm (clear_interests gk) w"]
    by (auto simp: complete_interests_def Let_def res_simps split: if_splits)
  then show "moves cs (w_elm w) (cs @ cs') (w_elm w')" "pending_completions (w_elm w') = pending_completions (w_elm w)"
    using clear_moves [of cs "w_elm w" gk b] same_books_moves [of "clear_interests gk (w_elm w)" "w_elm w'"]
    by (auto simp: cs same_books_def clear_pending intro: moves_trans)
qed

lemma fail_moves:
  assumes "fail_interests d gk w = Inr w'"
  shows "moves (pending_completions (w_elm w)) (w_elm w) (pending_completions (w_elm w')) (w_elm w')"
proof -
  obtain cs w1 where c: "complete_interests d gk False w = Inr (cs, w1)" "w' = on_elm (push_pending cs) w1"
    using assms by (auto simp: fail_interests_def res_simps)
  have "moves cs' (w_elm w1) cs' (w_elm w')" for cs'
    using c(2) by (simp add: moves_def ledger_def outstanding_def toks_def push_pending_def ints_def)
  then show ?thesis
    using moves_trans [OF complete_moves(1) [OF c(1)]] complete_moves(2) [OF c(1)] c(2) by (simp add: push_pending_def)
qed

section \<open>Requests\<close>

text \<open>A request opens its token: as the newest interest of its entry, or answered at once.\<close>

definition opens :: "u64 \<Rightarrow> lifecycle \<Rightarrow> lifecycle \<Rightarrow> bool" where
  "opens t l l' \<longleftrightarrow>
     t = next_token l \<and> next_token l' = t + 1 \<and>
     (ledger (pending_completions l) l \<and> t + 1 \<noteq> 0 \<longrightarrow>
        ledger (pending_completions l') l' \<and> outstanding (pending_completions l') l' = insert t (outstanding (pending_completions l) l))"

definition pend_moves :: "lifecycle \<Rightarrow> lifecycle \<Rightarrow> bool" where
  "pend_moves l l' \<longleftrightarrow> moves (pending_completions l) l (pending_completions l') l'"

lemma same_books_pend: "same_books l l' \<Longrightarrow> pend_moves l l'"
  using same_books_moves [of l l'] by (simp add: pend_moves_def same_books_def)

lemma pend_moves_trans [trans]: "pend_moves l l1 \<Longrightarrow> pend_moves l1 l2 \<Longrightarrow> pend_moves l l2"
  by (auto simp: pend_moves_def intro: moves_trans)

lemma pend_moves_refl [simp, intro]: "pend_moves l l"
  by (simp add: pend_moves_def)

lemma opens_moves: "opens t l l1 \<Longrightarrow> pend_moves l1 l2 \<Longrightarrow> opens t l l2"
  by (auto simp: opens_def pend_moves_def moves_def)

lemma below_next:
  assumes "t + 1 \<noteq> (0 :: u64)" shows "t < t + 1"
  using assms by (simp add: word_less_nat_alt unatSuc add.commute)

lemma opensI:
  assumes "token_index l1 = (token_index l)(next_token l \<mapsto> gk)" "next_token l1 = next_token l + 1"
    and "toks l1 = (toks l)(gk := toks l gk @ [next_token l]) \<and> answers (pending_completions l1) = answers (pending_completions l)
         \<or> toks l1 = toks l \<and> answers (pending_completions l1) = answers (pending_completions l) @ [next_token l]"
  shows "opens (next_token l) l l1"
proof -
  let ?t = "next_token l" and ?cs = "pending_completions l" and ?cs1 = "pending_completions l1"
  { assume L: "ledger ?cs l" and n: "?t + 1 \<noteq> 0"
    have B: "books (toks l) (token_index l) (answers ?cs)" and F: "?t \<notin> open_in (toks l) (answers ?cs)"
      using L by (auto simp: ledger_def outstanding_def)
    from assms(3) have "books (toks l1) (token_index l1) (answers ?cs1)
      \<and> open_in (toks l1) (answers ?cs1) = insert ?t (open_in (toks l) (answers ?cs))"
      by (elim disjE conjE) (simp_all only: assms(1) books_open [OF B F, of gk] open_in_answered simp_thms)
    moreover have "t < ?t + 1" if "t < ?t" for t using below_next [OF n] that by simp
    ultimately have "ledger ?cs1 l1 \<and> outstanding ?cs1 l1 = insert ?t (outstanding ?cs l)"
      using L n below_next [OF n] by (auto simp: ledger_def outstanding_def assms(2)) }
  then show ?thesis by (simp add: opens_def assms(2))
qed

lemma reserve_and_start_moves:
  assumes "reserve_and_start d gk z w = Inr w'" shows "pend_moves (w_elm w) (w_elm w')"
proof -
  obtain addr c where r: "reserve (fst gk) (snd gk) z False (w_cache w) = Inr (addr, c)"
    using assms by (auto simp: reserve_and_start_def res_simps)
  show ?thesis
  proof (cases addr)
    case None
    then show ?thesis using assms r fail_moves [of d gk "w\<lparr>w_cache := c\<rparr>" w']
      by (simp add: reserve_and_start_def pend_moves_def)
  next
    case (Some a)
    let ?l1 = "put_entry gk ((entry_of gk (w_elm w))\<lparr>ge_tier := GReserved\<rparr>) (w_elm w)"
    have "same_books (w_elm w) ?l1" by (simp add: entry_books)
    then have "same_books (w_elm w) (w_elm w')"
      using Some assms r try_start_books [of "w\<lparr>w_cache := c, w_elm := ?l1\<rparr>" d gk]
      by (auto simp: reserve_and_start_def intro: same_books_trans)
    then show ?thesis by (rule same_books_pend)
  qed
qed

lemma host_books:
  "same_books l (set_host k he l)" "same_books l (publish_host_state d x k ht l)" "same_books l (publish_gpu_state k g t n l)"
  "same_books l (add_waiter gk z l)" "same_books l (heal_entry gk l)" "same_books l (touch_host k l)"
  "same_books l (clear_waiters k l)"
  by (simp_all add: same_books_def elm_simps add_waiter_def heal_entry_def touch_host_def clear_waiters_def Let_def)
     (simp_all add: ints_def fun_eq_iff)

lemma start_chain_moves:
  assumes "start_chain d gk z w = Inr w'" shows "pend_moves (w_elm w) (w_elm w')"
proof (cases "he_tier (host_of (fst gk) (w_elm w))")
  case HCold
  show ?thesis
  proof (cases "nvme_tier d")
    case None
    with HCold assms fail_moves [of d gk w w'] show ?thesis by (simp add: start_chain_def pend_moves_def)
  next
    case nv: (Some nv)
    obtain t x where rd: "read_expert nv (fst gk) (snd gk) (w_sub w) = (t, x)" by fastforce
    note unf = start_chain_def HCold nv rd
    consider "t = None" | "t = Some 0" | tok where "t = Some tok" "tok \<noteq> 0" by (metis option.exhaust)
    then show ?thesis
    proof cases
      case 1
      with assms fail_moves [of d gk "w\<lparr>w_sub := x\<rparr>" w'] show ?thesis by (simp add: unf pend_moves_def)
    next
      case 2
      let ?l1 = "publish_host_state d x (fst gk) HWarm (set_host (fst gk) ((host_of (fst gk) (w_elm w))\<lparr>he_tier := HWarm\<rparr>) (w_elm w))"
      have "pend_moves (w_elm w) ?l1" by (intro same_books_pend same_books_trans [OF host_books(1) host_books(2)])
      with 2 assms reserve_and_start_moves [of d gk z "w\<lparr>w_sub := x, w_elm := ?l1\<rparr>" w'] show ?thesis
        by (auto simp: unf intro: pend_moves_trans)
    next
      case 3
      with assms show ?thesis
        by (auto simp: unf Let_def same_books_def elm_simps add_waiter_def intro!: same_books_pend)
    qed
  qed
next
  case HLoadingToRam
  then show ?thesis using assms by (auto simp: start_chain_def intro: same_books_pend [OF host_books(4)])
next
  case HWarm
  then show ?thesis using assms reserve_and_start_moves [of d gk z w w'] by (simp add: start_chain_def)
qed

lemma open_request_fields:
  "token_index (w_elm (open_request d gk seq w)) = (token_index (w_elm w))(next_token (w_elm w) \<mapsto> gk)"
  "next_token (w_elm (open_request d gk seq w)) = next_token (w_elm w) + 1"
  "pending_completions (w_elm (open_request d gk seq w)) = pending_completions (w_elm w)"
  "entry_of gk' (w_elm (open_request d gk seq w)) = entry_of gk' (w_elm w)"
  "w_cache (open_request d gk seq w) = w_cache w" "w_sub (open_request d gk seq w) = w_sub w"
  "snapshot (w_elm (open_request d gk seq w)) = snapshot (w_elm w)"
  "first_moe_layer (w_elm (open_request d gk seq w)) = first_moe_layer (w_elm w)"
  by (simp_all add: open_request_def Let_def elm_simps)

lemma toks_open_request: "toks (w_elm (open_request d gk seq w)) = toks (w_elm w)"
  by (simp add: toks_def ints_def open_request_fields)

lemmas opened = open_request_fields toks_open_request

lemma toks_put_entry [elm_simps]: "toks (put_entry gk ge l) = (toks l)(gk := map in_token (interests ge))"
  by (auto simp: toks_def elm_simps)

lemma toks_publish [elm_simps]: "toks (publish_gpu_state k g t n l) = toks l"
  by (simp add: toks_def elm_simps)

lemma toks_entry: "map in_token (interests (entry_of gk l)) = toks l gk"
  by (simp add: toks_def ints_def)

lemma begin_chain_opens:
  assumes "begin_chain d gk i prio delay w1 = Inr w'" "in_token i = next_token l"
    and "token_index (w_elm w1) = (token_index l)(next_token l \<mapsto> gk)" "next_token (w_elm w1) = next_token l + 1"
      "toks (w_elm w1) = toks l" "pending_completions (w_elm w1) = pending_completions l"
  shows "opens (next_token l) l (w_elm w')"
proof -
  let ?ge = "(entry_of gk (w_elm w1))\<lparr>interests := interests (entry_of gk (w_elm w1)) @ [i], ge_priority := prio, delay_us := delay\<rparr>"
  let ?l2 = "set_entry gk ?ge (w_elm w1)"
  have "opens (next_token l) l ?l2"
    using assms(2-6) by (intro opensI [of _ _ gk]) (simp_all add: elm_simps toks_entry)
  moreover have "pend_moves ?l2 (w_elm w')"
    using assms(1) start_chain_moves [of d gk "in_zone i" "w1\<lparr>w_elm := ?l2\<rparr>" w'] by (simp add: begin_chain_def Let_def)
  ultimately show ?thesis by (rule opens_moves)
qed

lemma join_opens:
  assumes "in_token i = next_token l"
    and "token_index (w_elm w1) = (token_index l)(next_token l \<mapsto> gk)" "next_token (w_elm w1) = next_token l + 1"
      "toks (w_elm w1) = toks l" "pending_completions (w_elm w1) = pending_completions l"
  shows "opens (next_token l) l (w_elm (join_transfer d gk i prio w1))"
    "opens (next_token l) l (w_elm (join_reserved d gk i prio w1))"
    "opens (next_token l) l (w_elm (answer_now gk i b w1))"
proof -
  let ?ge = "(entry_of gk (w_elm w1))\<lparr>interests := interests (entry_of gk (w_elm w1)) @ [i],
               ge_priority := max (ge_priority (entry_of gk (w_elm w1))) prio\<rparr>"
  let ?l2 = "put_entry gk ?ge (w_elm w1)"
  have o: "opens (next_token l) l ?l2"
    using assms by (intro opensI [of _ _ gk]) (simp_all add: elm_simps toks_entry)
  then show "opens (next_token l) l (w_elm (join_transfer d gk i prio w1))" by (simp add: join_transfer_def Let_def)
  have "pend_moves ?l2 (w_elm (join_reserved d gk i prio w1))"
    using try_start_books [of "w1\<lparr>w_elm := ?l2\<rparr>" d gk] by (auto simp: join_reserved_def Let_def intro: same_books_pend)
  with o show "opens (next_token l) l (w_elm (join_reserved d gk i prio w1))" by (rule opens_moves)
  show "opens (next_token l) l (w_elm (answer_now gk i b w1))"
    using assms by (intro opensI [of _ _ gk])
      (simp_all add: answer_now_def push_pending_def toks_def ints_def answers_def completion_of_def)
qed

theorem ensure_resident_opens:
  assumes "ensure_resident d k gpu z seq prio delay w = Inr (tok, w')"
  shows "tok = next_token (w_elm w)" "opens tok (w_elm w) (w_elm w')"
proof -
  let ?w1 = "open_request d (k, gpu) seq w" and ?t = "next_token (w_elm w)"
  let ?i = "\<lparr>in_token = ?t, in_cmd_seq = seq, in_zone = z\<rparr>"
  show t: "tok = ?t" using assms by (auto simp: ensure_resident_def Let_def res_simps)
  have heal: "toks (heal_entry gk l) = toks l" "token_index (heal_entry gk l) = token_index l"
    "next_token (heal_entry gk l) = next_token l" "pending_completions (heal_entry gk l) = pending_completions l" for gk l
    using host_books(5) [of l gk] by (simp_all add: same_books_def toks_def)
  note B = begin_chain_opens [of d "(k, gpu)" ?i prio delay ?w1 w' "w_elm w"]
    begin_chain_opens [of d "(k, gpu)" ?i prio delay "on_elm (heal_entry (k, gpu)) ?w1" w' "w_elm w"]
  show "opens tok (w_elm w) (w_elm w')"
    using assms B join_opens [of ?i "w_elm w" ?w1 "(k, gpu)"] unfolding t
    by (auto simp: ensure_resident_def Let_def opened heal res_simps split: gpu_tier.splits if_splits)
qed

section \<open>Eviction, drain, zone management and cancellation\<close>

lemma evict_books: "elm_evict k gpu w = Inr (ok, w') \<Longrightarrow> same_books (w_elm w) (w_elm w')"
  by (auto simp: elm_evict_def request_evict_def same_books_def res_simps elm_simps publish_gpu_state_def ints_def entry_of_def
      fun_eq_iff split: option.splits if_splits)

lemma drain_books: "same_books (w_elm w) (w_elm (snd (request_drain d k gpu seq w)))"
proof -
  have "same_books (w_elm w) (publish_gpu_state k gpu GDraining 0 (set_entry (k, gpu) ge' (w_elm w)))"
    if "gpu_entries (w_elm w) (k, gpu) = Some ge" "interests ge' = interests ge" for ge ge'
    using that by (auto simp: same_books_def elm_simps ints_def entry_of_def [of "(k, gpu)" "w_elm w"])
  then show ?thesis by (simp add: request_drain_def split: option.splits prod.splits)
qed

lemma move_books: "elm_move mv k gpu w = Inr (ok, w') \<Longrightarrow> same_books (w_elm w) (w_elm w')"
  using host_books(3) by (auto simp: elm_move_def res_simps split: if_splits option.splits)

lemma map_remove1_find:
  "find (\<lambda>i. f i = t) is = Some i \<Longrightarrow> map f (remove1 i is) = remove1 t (map f is)"
  by (induction "is") (auto simp: find_Some_iff split: if_splits)

lemma find_None_token: "find (\<lambda>i. f i = t) is = None \<Longrightarrow> t \<notin> set (map f is)"
  by (auto simp: find_None_iff)

lemma toks_take_interest: "toks (take_interest gk t l) = (toks l)(gk := remove1 t (toks l gk))"
proof (cases "find (\<lambda>i. in_token i = t) (interests (entry_of gk l))")
  case None
  then have "t \<notin> set (toks l gk)" using find_None_token [OF None] toks_entry by metis
  then show ?thesis using None by (auto simp: take_interest_def Let_def remove1_idem fun_eq_iff)
next
  case (Some i)
  then show ?thesis
    using map_remove1_find [OF Some]
    by (simp add: take_interest_def Let_def erase_seq_def toks_def ints_def elm_simps fun_eq_iff)
qed

lemma take_interest_fields:
  "token_index (take_interest gk t l) = token_index l" "next_token (take_interest gk t l) = next_token l"
  "pending_completions (take_interest gk t l) = pending_completions l"
  by (simp_all add: take_interest_def Let_def erase_seq_def elm_simps split: option.split)

lemma answers_filter: "answers (filter (\<lambda>c. cp_token c \<noteq> t) cs) = filter (\<lambda>u. u \<noteq> t) (answers cs)"
  by (induction cs) (simp_all add: answers_def)

lemma retract_fields [simp]:
  "toks (retract_completion t l) = toks l" "token_index (retract_completion t l) = token_index l"
  "next_token (retract_completion t l) = next_token l"
  "pending_completions (retract_completion t l) = filter (\<lambda>c. cp_token c \<noteq> t) (pending_completions l)"
  by (simp_all add: retract_completion_def toks_def ints_def)

text \<open>A cancellation closes at most the token it names.\<close>

definition closes :: "u64 \<Rightarrow> lifecycle \<Rightarrow> lifecycle \<Rightarrow> bool" where
  "closes t l l' \<longleftrightarrow>
     next_token l' = next_token l \<and>
     (ledger (pending_completions l) l \<longrightarrow>
        ledger (pending_completions l') l' \<and> outstanding (pending_completions l') l' \<subseteq> outstanding (pending_completions l) l
        \<and> outstanding (pending_completions l) l - {t} \<subseteq> outstanding (pending_completions l') l')"

lemma closes_moves: "closes t l l1 \<Longrightarrow> same_books l1 l2 \<Longrightarrow> closes t l l2"
  using same_books_moves [of l1 l2 "pending_completions l1"] by (auto simp: closes_def moves_def same_books_def)

theorem cancel_closes:
  assumes "cancel d t w = Inr w'" shows "closes t (w_elm w) (w_elm w')"
proof (cases "token_index (w_elm w) t")
  case None
  then show ?thesis using assms by (simp add: cancel_def closes_def)
next
  case (Some gk)
  let ?l = "w_elm w" and ?l1 = "(w_elm w)\<lparr>token_index := (token_index (w_elm w))(t := None)\<rparr>"
  let ?l2 = "retract_completion t (take_interest gk t ?l1)"
  have t1: "toks ?l1 = toks ?l" by (simp add: toks_def ints_def)
  show ?thesis
  proof (cases "gpu_entries ?l gk")
    case None
    have "toks ?l gk = []" using None by (simp add: toks_def ints_def entry_of_def new_gpu_entry_def)
    then have "books (toks ?l) ((token_index ?l)(t := None)) out" if "books (toks ?l) (token_index ?l) out" for out
      using that Some by (intro books_index [OF that]) (auto simp: books_def)
    then show ?thesis
      using assms Some None by (auto simp: cancel_def closes_def ledger_def outstanding_def t1)
  next
    case e: (Some ge)
    have c: "closes t ?l ?l2"
      using books_withdraw [of "toks ?l" "token_index ?l" _ t gk] Some
      by (auto simp: closes_def ledger_def outstanding_def toks_take_interest take_interest_fields t1 answers_filter)
    show ?thesis
    proof (cases "interests (entry_of gk ?l2) = []")
      case True
      then show ?thesis
        using assms Some e c revert_books [of d gk "w\<lparr>w_elm := ?l2\<rparr>" w'] by (auto simp: cancel_def Let_def intro: closes_moves)
    next
      case False
      then show ?thesis using assms Some e closes_moves [OF c host_books(3)] by (auto simp: cancel_def Let_def)
    qed
  qed
qed

section \<open>Poll\<close>

definition poll_moves :: "poll_result \<times> 'x world \<Rightarrow> poll_result \<times> 'x world \<Rightarrow> bool" where
  "poll_moves s s' \<longleftrightarrow>
     moves (pr_lifecycle (fst s)) (w_elm (snd s)) (pr_lifecycle (fst s')) (w_elm (snd s'))
     \<and> pending_completions (w_elm (snd s')) = pending_completions (w_elm (snd s))"

lemma poll_moves_refl [simp, intro]: "poll_moves s s"
  by (simp add: poll_moves_def)

lemma poll_moves_trans [trans]: "poll_moves s s1 \<Longrightarrow> poll_moves s1 s2 \<Longrightarrow> poll_moves s s2"
  by (auto simp: poll_moves_def intro: moves_trans)

lemma poll_books: "same_books (w_elm w) (w_elm w') \<Longrightarrow> pr_lifecycle r' = pr_lifecycle r \<Longrightarrow> poll_moves (r, w) (r', w')"
  using same_books_moves by (simp add: poll_moves_def same_books_def)

lemma rfold_rel:
  assumes "rfold f xs s = Inr s'" "\<And>s. R s s" "\<And>a b c. R a b \<Longrightarrow> R b c \<Longrightarrow> R a c"
    and "\<And>x s s'. x \<in> set xs \<Longrightarrow> f x s = Inr s' \<Longrightarrow> R s s'"
  shows "R s s'"
  using assms(1,4)
proof (induction xs arbitrary: s)
  case Nil
  then show ?case using assms(2) by simp
next
  case (Cons x xs)
  then obtain s1 where s1: "f x s = Inr s1" "rfold f xs s1 = Inr s'" by (auto elim: rbindE)
  have "R s s1" using Cons.prems(2) [OF _ s1(1)] by simp
  moreover have "R s1 s'" by (rule Cons.IH [OF s1(2)], rule Cons.prems(2)) simp_all
  ultimately show ?case by (rule assms(3))
qed

lemma poll_fold:
  assumes "rfold f xs s = Inr s'" "\<And>x s s'. f x s = Inr s' \<Longrightarrow> poll_moves s s'" shows "poll_moves s s'"
  by (rule rfold_rel [where R = poll_moves, OF assms(1) poll_moves_refl]) (auto intro: poll_moves_trans assms(2))

lemma complete_into_moves: "complete_into d gk b s = Inr s' \<Longrightarrow> poll_moves s s'"
  by (auto simp: complete_into_def poll_moves_def res_simps complete_moves split: prod.splits)

lemma wake_arena_moves: "wake_arena_waiter d b gk s = Inr s' \<Longrightarrow> poll_moves s s'"
  by (auto simp: wake_arena_waiter_def intro: poll_books redrive_books complete_into_moves split: prod.splits if_splits)

lemma arena_load_moves:
  assumes "arena_load_done d ar lc s = Inr s'" shows "poll_moves s s'"
proof -
  obtain r w where s: "s = (r, w)" by fastforce
  let ?x = "(if al_success lc then arena_mark_ready ar else clear_loading ar) (al_key lc) (al_gpu lc) (w_sub w)"
  show ?thesis
  proof (cases "arena_load_waiters (w_elm w) (al_key lc)")
    case None
    then show ?thesis using assms by (auto simp: s arena_load_done_def Let_def intro: poll_books)
  next
    case (Some ws)
    let ?w = "(w\<lparr>w_sub := ?x\<rparr>)\<lparr>w_elm := (w_elm w)\<lparr>arena_load_waiters := (arena_load_waiters (w_elm w))(al_key lc := None)\<rparr>\<rparr>"
    have "rfold (wake_arena_waiter d (al_success lc)) ws (r, ?w) = Inr s'"
      using assms Some by (simp add: s arena_load_done_def Let_def)
    then have "poll_moves (r, ?w) s'" by (rule poll_fold) (rule wake_arena_moves)
    moreover have "poll_moves s (r, ?w)" by (auto simp: s same_books_def ints_def intro: poll_books)
    ultimately show ?thesis by (rule poll_moves_trans [rotated])
  qed
qed

lemma process_arena_moves: "process_arena_loads d s = Inr s' \<Longrightarrow> poll_moves s s'"
proof (cases "arena d")
  case (Some ar)
  assume p: "process_arena_loads d s = Inr s'"
  obtain r w loads x where s: "s = (r, w)" "poll_completed ar (w_sub w) = (loads, x)" by fastforce
  then have "rfold (arena_load_done d ar) loads (r, w\<lparr>w_sub := x\<rparr>) = Inr s'"
    using p Some by (simp add: process_arena_loads_def)
  then have "poll_moves (r, w\<lparr>w_sub := x\<rparr>) s'" by (rule poll_fold) (rule arena_load_moves)
  moreover have "poll_moves s (r, w\<lparr>w_sub := x\<rparr>)" by (auto simp: s intro: poll_books)
  ultimately show ?thesis by (rule poll_moves_trans [rotated])
qed (simp add: process_arena_loads_def)

lemma chain_waiter_moves:
  assumes "chain_waiter d k p s = Inr s'" shows "poll_moves s s'"
proof -
  obtain r w0 where s: "s = (r, w0)" by fastforce
  let ?gk = "(k, pc_gpu p)"
  let ?w = "on_elm (\<lambda>l. set_entry ?gk (entry_of ?gk l) l) w0"
  have m: "poll_moves s (r, ?w)" by (auto simp: s intro!: poll_books entry_books)
  have start: "same_books (w_elm ?w) (w_elm (snd (try_start_h2d d ?gk (on_elm (\<lambda>l. put_entry ?gk ((entry_of ?gk l)\<lparr>ge_tier := GReserved\<rparr>) l)
      (?w\<lparr>w_cache := c\<rparr>)))))" for c
    by (rule same_books_trans [OF _ try_start_books]) (simp add: entry_books)
  have "poll_moves (r, ?w) s'"
  proof (cases "ge_tier (entry_of ?gk (w_elm ?w)) = GAbsent")
    case True
    then obtain addr c where a: "reserve k (pc_gpu p) (pc_zone p) False (w_cache ?w) = Inr (addr, c)"
      using assms by (auto simp: s chain_waiter_def Let_def res_simps)
    show ?thesis
    proof (cases addr)
      case None
      then have "complete_into d ?gk False (r, ?w\<lparr>w_cache := c\<rparr>) = Inr s'"
        using True a assms by (simp add: s chain_waiter_def Let_def)
      then have "poll_moves (r, ?w\<lparr>w_cache := c\<rparr>) s'" by (rule complete_into_moves)
      then show ?thesis by (simp add: poll_moves_def)
    next
      case (Some a')
      then show ?thesis using True a assms start [of c] by (auto simp: s chain_waiter_def Let_def intro: poll_books)
    qed
  next
    case False
    then show ?thesis
      using assms try_start_books [of ?w d ?gk]
      by (auto simp: s chain_waiter_def Let_def intro: poll_books split: gpu_tier.splits)
  qed
  with m show ?thesis by (rule poll_moves_trans)
qed

lemma fail_waiter_moves: "fail_waiter d k p s = Inr s' \<Longrightarrow> poll_moves s s'"
  by (auto simp: fail_waiter_def intro: complete_into_moves split: if_splits)

lemma waiter_loop_moves:
  assumes "waiter_loop k body s = Inr s'" "\<And>p s s'. body p s = Inr s' \<Longrightarrow> poll_moves s s'" shows "poll_moves s s'"
  using assms(1) unfolding waiter_loop_def Let_def
  by (rule poll_fold) (auto elim!: rbindE intro: assms(2) split: if_splits)

lemma set_host_tier_books: "same_books (w_elm w) (w_elm (set_host_tier d k t w))"
  by (simp add: set_host_tier_def same_books_def elm_simps)

lemma nvme_done_moves:
  assumes "nvme_done d nc s = Inr s'" shows "poll_moves s s'"
proof -
  obtain r w where s: "s = (r, w)" by fastforce
  let ?k = "nc_key nc" and ?body = "(if nc_success nc then chain_waiter else fail_waiter) d (nc_key nc)"
  let ?w = "set_host_tier d ?k (if nc_success nc then HWarm else HCold) w"
  have body: "poll_moves s s'" if "?body p s = Inr s'" for p s s'
    using that by (auto intro: chain_waiter_moves fail_waiter_moves split: if_splits)
  have first: "poll_moves (r, w) (r, ?w)" by (rule poll_books [OF set_host_tier_books]) simp
  have loop: "poll_moves (r, w) (r1, on_elm (clear_waiters ?k) w1)"
    if "waiter_loop ?k ?body (r, ?w) = Inr (r1, w1)" for r1 w1
  proof -
    have "poll_moves (r, ?w) (r1, w1)" by (rule waiter_loop_moves [OF that]) (rule body)
    moreover have "poll_moves (r1, w1) (r1, on_elm (clear_waiters ?k) w1)" by (rule poll_books) (simp_all add: host_books)
    ultimately show ?thesis using first by (blast intro: poll_moves_trans)
  qed
  show ?thesis
    using assms loop by (auto simp: s nvme_done_def res_simps intro: poll_books split: option.splits if_splits)
qed

lemma redrive_fold_books: "same_books (w_elm w) (w_elm (fold (redrive d) gks w))"
  by (induction gks arbitrary: w) (auto intro: same_books_trans redrive_books)

lemma redrive_slots_books: "same_books (w_elm w) (w_elm (redrive_slot_waiters d w))"
  using redrive_fold_books [of "on_elm (\<lambda>l. l\<lparr>slot_pressure_waiters := []\<rparr>) w" d]
  by (simp add: redrive_slot_waiters_def same_books_def ints_def)

lemma h2d_done_moves:
  assumes "h2d_done d gk b s = Inr s'" shows "poll_moves s s'"
proof -
  obtain r w where s: "s = (r, w)" by fastforce
  let ?ge = "(entry_of gk (w_elm w))\<lparr>transfer_token := 0, host_buf_ref := None\<rparr>"
  show ?thesis
  proof (cases b)
    case True
    let ?w1 = "\<lambda>c. w\<lparr>w_cache := c, w_elm := put_entry gk (?ge\<lparr>ge_tier := GHot\<rparr>) (w_elm w),
                     w_sub := release_packed_host_buffer d (fst gk) (w_sub w)\<rparr>"
    obtain c r2 w2 where c: "complete_into d gk True (r, ?w1 c) = Inr (r2, w2)"
      "s' = (r2, redrive_slot_waiters d (on_elm (publish_gpu_state (fst gk) (snd gk) GHot 0) w2))"
      using assms True by (auto simp: s h2d_done_def Let_def res_simps)
    have "poll_moves s (r, ?w1 c)" unfolding s by (rule poll_books) (simp_all add: entry_books)
    also have "poll_moves (r, ?w1 c) (r2, w2)" by (rule complete_into_moves [OF c(1)])
    also have "poll_moves (r2, w2) s'" unfolding c(2)
      by (rule poll_books [OF same_books_trans [OF _ redrive_slots_books]]) (simp_all add: host_books)
    finally show ?thesis .
  next
    case False
    have "poll_moves s (r, on_elm (set_entry gk ?ge) w)" unfolding s by (rule poll_books) (simp_all add: entry_books)
    then show ?thesis
      using False assms complete_into_moves [of d gk False "(r, on_elm (set_entry gk ?ge) w)" s']
      by (auto simp: s h2d_done_def Let_def intro: poll_moves_trans)
  qed
qed

lemma poll_moves_evicted:
  "same_books (w_elm w) (w_elm w') \<Longrightarrow> poll_moves (r, w) (report [drain_completion gk n b] r, w')"
  by (simp add: poll_moves_def moves_def ledger_def outstanding_def same_books_def toks_def)

lemma d2h_done_moves: "d2h_done d gk b s = Inr s' \<Longrightarrow> poll_moves s s'"
  by (auto simp: d2h_done_def Let_def res_simps intro!: poll_moves_evicted same_books_trans [OF entry_books(1) host_books(3)]
      split: prod.splits)

lemma transfer_done_moves: "transfer_done d xc s = Inr s' \<Longrightarrow> poll_moves s s'"
  by (auto simp: transfer_done_def Let_def intro: h2d_done_moves d2h_done_moves poll_books
      split: prod.splits transfer_direction.splits if_splits)

theorem poll_keeps_books:
  assumes "poll d xcs ncs w = Inr (r, w')"
  shows "moves (pending_completions (w_elm w)) (w_elm w) (pr_lifecycle r) (w_elm w')" "pending_completions (w_elm w') = []"
proof -
  obtain s1 s2 where p: "process_arena_loads d (take_pending w) = Inr s1" "rfold (nvme_done d) ncs s1 = Inr s2"
    "rfold (transfer_done d) xcs s2 = Inr (r, w')" using assms by (auto simp: poll_def res_simps)
  have "poll_moves (take_pending w) (r, w')"
    using poll_moves_trans [OF process_arena_moves [OF p(1)]
        poll_moves_trans [OF poll_fold [OF p(2) nvme_done_moves] poll_fold [OF p(3) transfer_done_moves]]] by simp
  then have q: "moves (pending_completions (w_elm w)) (w_elm (snd (take_pending w))) (pr_lifecycle r) (w_elm w')"
    "pending_completions (w_elm w') = []"
    by (simp_all add: poll_moves_def take_pending_def)
  have "moves cs (w_elm w) cs (w_elm (snd (take_pending w)))" for cs
    by (simp add: moves_def ledger_def outstanding_def take_pending_def toks_def ints_def)
  with q show "moves (pending_completions (w_elm w)) (w_elm w) (pr_lifecycle r) (w_elm w')" "pending_completions (w_elm w') = []"
    by (auto intro: moves_trans)
qed

section \<open>Batches\<close>

lemma evict_one_books: "evict_one gpu vs w = Inr (vs', w') \<Longrightarrow> same_books (w_elm w) (w_elm w')"
  by (induction vs arbitrary: w) (auto simp: res_simps intro: same_books_trans evict_books split: if_splits dest: evict_books)

lemma ensure_one_opens:
  assumes "ensure_one d gpu seq prio req (vs, n, w) = Inr (vs', n', w')"
  shows "opens (next_token (w_elm w)) (w_elm w) (w_elm w')"
proof -
  obtain k z where kz: "req = (k, z)" by fastforce
  obtain vs1 w1 tok where e: "ensure_resident d k gpu z seq prio 0 w1 = Inr (tok, w')"
    "(if z = KStable \<and> es_gpu (expert_state_of d k gpu w) = GAbsent
      then rbind (free_slots gpu KStable (w_cache w)) (\<lambda>m. if m \<le> 0 then evict_one gpu vs w else Inr (vs, w))
      else Inr (vs, w)) = Inr (vs1, w1)"
    using assms unfolding kz ensure_one_def by (simp add: rbind_eq_Inr split: prod.splits) blast
  have m: "same_books (w_elm w) (w_elm w1)"
    using e(2) evict_one_books [of gpu vs w vs1 w1] by (auto simp: res_simps split: if_splits)
  have b: "pend_moves (w_elm w) (w_elm w1)" by (rule same_books_pend [OF m])
  have "next_token (w_elm w1) = next_token (w_elm w)" using m by (simp add: same_books_def)
  then show ?thesis
    using ensure_resident_opens [OF e(1)] b by (auto simp: opens_def pend_moves_def moves_def)
qed

end
