(* ===== verification/Lifecycle_Runs.thy ===== *)
theory Lifecycle_Runs
  imports Lifecycle_Tokens
begin

text \<open>
  What a call does to the open requests, and the runs of the lifecycle manager: any sequence of calls, between which the
  cache and the subsystems may change in any way.
\<close>

section \<open>One call\<close>

abbreviation open_now :: "lifecycle \<Rightarrow> u64 set" where
  "open_now l \<equiv> outstanding (pending_completions l) l"

abbreviation in_order :: "lifecycle \<Rightarrow> bool" where
  "in_order l \<equiv> ledger (pending_completions l) l"

definition fresh :: "lifecycle \<Rightarrow> lifecycle \<Rightarrow> u64 set" where
  "fresh l l' = {t. next_token l \<le> t \<and> t < next_token l'}"

text \<open>
  A call that opens \<open>n\<close> tokens, may close those of \<open>C\<close>, and answers \<open>cs\<close>.
\<close>

definition accounts :: "nat \<Rightarrow> u64 set \<Rightarrow> completion list \<Rightarrow> lifecycle \<Rightarrow> lifecycle \<Rightarrow> bool" where
  "accounts n C cs l l' \<longleftrightarrow>
     (in_order l \<and> unat (next_token l) + n < 2 ^ 64 \<longrightarrow>
        unat (next_token l') = unat (next_token l) + n \<and> in_order l' \<and> distinct (answers cs)
        \<and> set (answers cs) \<subseteq> open_now l \<and> set (answers cs) \<inter> open_now l' = {}
        \<and> open_now l' \<subseteq> open_now l \<union> fresh l l'
        \<and> (open_now l \<union> fresh l l') - C \<subseteq> open_now l' \<union> set (answers cs))"

lemma same_books_accounts: "same_books l l' \<Longrightarrow> accounts 0 {} [] l l'"
  by (simp add: accounts_def same_books_def fresh_def ledger_def outstanding_def toks_def) auto

lemma opens_accounts:
  assumes "opens t l l'" shows "accounts 1 {} [] l l'"
proof -
  { assume "in_order l" "unat (next_token l) + 1 < 2 ^ 64"
    moreover from this have u: "unat (t + 1) = unat t + 1" using assms unat_next by (simp add: opens_def)
    moreover from u have "t + 1 \<noteq> 0" by (metis add_is_0 one_neq_zero unat_0)
    moreover have "fresh l l' = {t}" using assms u by (auto simp: fresh_def opens_def word_less_nat_alt word_le_nat_alt word_unat_eq_iff)
    ultimately have "unat (next_token l') = unat (next_token l) + 1 \<and> in_order l'
        \<and> open_now l' = insert t (open_now l) \<and> fresh l l' = {t}"
      using assms by (auto simp: opens_def) }
  then show ?thesis by (auto simp: accounts_def)
qed

lemma closes_accounts: "closes t l l' \<Longrightarrow> accounts 0 {t} [] l l'"
  by (auto simp: accounts_def closes_def fresh_def)

lemma books_outbox:
  assumes "books f ti out"
  shows "books f ti []" "distinct out" "set out \<inter> open_in f [] = {}" "open_in f out = open_in f [] \<union> set out"
  using assms by (auto simp: books_def open_in_def)

lemma poll_accounts:
  assumes "poll d xcs ncs w = Inr (r, w')" shows "accounts 0 {} (pr_lifecycle r) (w_elm w) (w_elm w')"
proof -
  note m = poll_keeps_books [OF assms]
  { assume L: "ledger (pr_lifecycle r) (w_elm w')"
    have "in_order (w_elm w')" "distinct (answers (pr_lifecycle r))" "set (answers (pr_lifecycle r)) \<inter> open_now (w_elm w') = {}"
      "outstanding (pr_lifecycle r) (w_elm w') = open_now (w_elm w') \<union> set (answers (pr_lifecycle r))"
      using L books_outbox [of "toks (w_elm w')" "token_index (w_elm w')" "answers (pr_lifecycle r)"]
      by (auto simp: ledger_def outstanding_def m(2) open_in_def) }
  then show ?thesis using m(1) by (auto simp: accounts_def moves_def fresh_def)
qed

lemma fresh_split:
  "next_token l \<le> next_token l1 \<Longrightarrow> next_token l1 \<le> next_token l2 \<Longrightarrow> fresh l l2 = fresh l l1 \<union> fresh l1 l2"
  by (auto simp: fresh_def)

lemma accounts_trans:
  assumes "accounts m {} [] l l1" "accounts n {} [] l1 l2" shows "accounts (m + n) {} [] l l2"
proof -
  { assume L: "in_order l" "unat (next_token l) + (m + n) < 2 ^ 64"
    have a: "unat (next_token l1) = unat (next_token l) + m" "in_order l1" "open_now l1 = open_now l \<union> fresh l l1"
      using assms(1) L by (auto simp: accounts_def)
    have b: "unat (next_token l2) = unat (next_token l1) + n" "in_order l2" "open_now l2 = open_now l1 \<union> fresh l1 l2"
      using assms(2) L a by (auto simp: accounts_def)
    have "fresh l l2 = fresh l l1 \<union> fresh l1 l2" using a b by (intro fresh_split) (simp_all add: word_le_nat_alt)
    then have "unat (next_token l2) = unat (next_token l) + (m + n) \<and> in_order l2 \<and> open_now l2 = open_now l \<union> fresh l l2"
      using a b by auto }
  then show ?thesis by (auto simp: accounts_def)
qed

lemma ensure_residents_accounts:
  assumes "ensure_residents d gpu reqs vs seq prio w = Inr (n, w')"
  shows "accounts (length reqs) {} [] (w_elm w) (w_elm w')"
proof -
  have "accounts (length reqs) {} [] (w_elm w) (w_elm w')"
    if "rfold (ensure_one d gpu seq prio) reqs (vs, n, w) = Inr (vs', n', w')" for vs vs' n n' w w'
    using that
  proof (induction reqs arbitrary: vs n w)
    case Nil
    then show ?case by (auto intro: same_books_accounts)
  next
    case (Cons req reqs)
    then obtain vs1 n1 w1 where s: "ensure_one d gpu seq prio req (vs, n, w) = Inr (vs1, n1, w1)"
      "rfold (ensure_one d gpu seq prio) reqs (vs1, n1, w1) = Inr (vs', n', w')" by (auto simp: res_simps)
    show ?case
      using accounts_trans [OF opens_accounts [OF ensure_one_opens [OF s(1)]] Cons.IH [OF s(2)]] by simp
  qed
  then show ?thesis using assms by (auto simp: ensure_residents_def res_simps)
qed

text \<open>The requests that a call makes, and the tokens it withdraws.\<close>

definition requests :: "elm_call \<Rightarrow> nat" where
  "requests call =
     (case call of EnsureResident k gpu z seq prio delay \<Rightarrow> 1 | EnsureResidents gpu reqs vs seq prio \<Rightarrow> length reqs | _ \<Rightarrow> 0)"

definition withdrawn :: "elm_call \<Rightarrow> u64 set" where
  "withdrawn call = (case call of Cancel t \<Rightarrow> {t} | _ \<Rightarrow> {})"

lemma elm_exec_accounts:
  assumes "elm_exec d call w = Inr (cs, w')"
  shows "accounts (requests call) (withdrawn call) cs (w_elm w) (w_elm w')"
  using assms opens_accounts [OF ensure_resident_opens(2)]
  by (cases call)
     (auto simp: elm_exec_def requests_def withdrawn_def res_simps elm_promote_def elm_demote_def
       intro: ensure_residents_accounts same_books_accounts evict_books drain_books
         closes_accounts cancel_closes poll_accounts move_books same_books_accounts [OF set_fetch_count_books])

section \<open>Runs\<close>

inductive elm_run :: "'x elm_deps \<Rightarrow> 'x world \<Rightarrow> nat \<Rightarrow> completion list \<Rightarrow> u64 set \<Rightarrow> 'x world \<Rightarrow> bool"
  for d :: "'x elm_deps" and w0 :: "'x world"
where
  start: "elm_run d w0 0 [] {} w0"
| call: "elm_run d w0 n cs C w \<Longrightarrow> elm_exec d c w = Inr (ds, w')
    \<Longrightarrow> elm_run d w0 (n + requests c) (cs @ ds) (C \<union> withdrawn c) w'"
| elsewhere: "elm_run d w0 n cs C w \<Longrightarrow> elm_run d w0 n cs C (w\<lparr>w_cache := c, w_sub := x\<rparr>)"

definition issued :: "lifecycle \<Rightarrow> u64 set" where
  "issued l = {t. t \<noteq> 0 \<and> t < next_token l}"

definition quiet :: "lifecycle \<Rightarrow> bool" where
  "quiet l \<longleftrightarrow> next_token l = 1 \<and> pending_completions l = [] \<and> (\<forall>gk ge. gpu_entries l gk = Some ge \<longrightarrow> interests ge = [])"

lemma quiet_books: "quiet l \<Longrightarrow> in_order l \<and> open_now l = {} \<and> issued l = {}"
  by (auto simp: quiet_def ledger_def books_def outstanding_def open_in_def toks_def ints_def entry_of_def new_gpu_entry_def issued_def
      word_less_1 split: option.splits)

definition run_ok :: "nat \<Rightarrow> completion list \<Rightarrow> u64 set \<Rightarrow> lifecycle \<Rightarrow> bool" where
  "run_ok n cs C l \<longleftrightarrow>
     unat (next_token l) = n + 1 \<and> in_order l \<and> distinct (answers cs) \<and> set (answers cs) \<subseteq> issued l
     \<and> set (answers cs) \<inter> open_now l = {} \<and> open_now l \<subseteq> issued l \<and> issued l - C \<subseteq> open_now l \<union> set (answers cs)"

lemma issued_grows:
  assumes "next_token l \<noteq> 0" "next_token l \<le> next_token l'" shows "issued l' = issued l \<union> fresh l l'"
  using assms by (auto simp: issued_def fresh_def)

lemma run_ok_step:
  assumes "run_ok n cs C l" "accounts k D ds l l'" "n + k + 1 < 2 ^ 64"
  shows "run_ok (n + k) (cs @ ds) (C \<union> D) l'"
proof -
  have L: "in_order l" "unat (next_token l) + k < 2 ^ 64" using assms by (auto simp: run_ok_def)
  then have a: "unat (next_token l') = unat (next_token l) + k" "in_order l'" "distinct (answers ds)"
    "set (answers ds) \<subseteq> open_now l" "set (answers ds) \<inter> open_now l' = {}" "open_now l' \<subseteq> open_now l \<union> fresh l l'"
    "(open_now l \<union> fresh l l') - D \<subseteq> open_now l' \<union> set (answers ds)"
    using assms(2) by (auto simp: accounts_def)
  have i: "issued l' = issued l \<union> fresh l l'"
    using a(1) L(1) by (intro issued_grows) (auto simp: word_le_nat_alt ledger_def)
  have f: "fresh l l' \<inter> issued l = {}" by (auto simp: fresh_def issued_def)
  show ?thesis
    using assms(1) a i f unfolding run_ok_def by (simp add: subset_iff disjoint_iff) blast
qed

theorem elm_run_accounts:
  assumes "elm_run d w0 n cs C w" "quiet (w_elm w0)" "n + 1 < 2 ^ 64" shows "run_ok n cs C (w_elm w)"
  using assms(1,3)
proof induction
  case start
  show ?case using quiet_books [OF assms(2)] assms(2) by (auto simp: run_ok_def quiet_def)
next
  case (call n cs C w c ds w')
  then show ?case by (intro run_ok_step [OF call.IH elm_exec_accounts [OF call.hyps(2)]]) simp_all
next
  case (elsewhere n cs C w c x)
  then show ?case by simp
qed

end
