(* ===== verification/Lifecycle_Snapshot.thy ===== *)
theory Lifecycle_Snapshot
  imports Lifecycle_Tokens
begin

text \<open>
  The GPU side of the snapshot mirrors the tiers: the byte of every publishable (expert, GPU) pair is the code of its tier
  and its bit of the residency bitmap says whether the tier is \<^verbatim>\<open>kHot\<close>.
\<close>

unbundle bit_operations_syntax

section \<open>The slots of the arrays\<close>

lemma flat_index_inj:
  assumes "flat_index a b c = flat_index a' b' c'" "b < kMaxExperts" "b' < kMaxExperts" "c < kMaxGpus" "c' < kMaxGpus"
  shows "a = a' \<and> b = b' \<and> c = c'"
proof -
  have e: "flat_index x y z = (x * kMaxExperts + y) * kMaxGpus + z" for x y z
    by (simp add: flat_index_def algebra_simps)
  have "c = c'" "a * kMaxExperts + b = a' * kMaxExperts + b'"
    using assms(1,4,5) unfolding e by (metis block_index_mod, metis block_index_div)
  then show ?thesis using assms(2,3) by (metis block_index_mod block_index_div)
qed

lemma snapshot_slot_inj:
  assumes "publishable l k g" "publishable l k' g'" "snapshot_slot l k g = snapshot_slot l k' g'"
  shows "k = k' \<and> g = g'"
proof -
  have "unat (layer_idx k - first_moe_layer l) = unat (layer_idx k' - first_moe_layer l)
    \<and> unat (expert_idx k) = unat (expert_idx k') \<and> nat g = nat g'"
    using assms unfolding snapshot_slot_def publishable_def by (intro flat_index_inj) auto
  then have "layer_idx k = layer_idx k'" "expert_idx k = expert_idx k'" "g = g'"
    using assms(1,2) by (auto simp: publishable_def word_unat_eq_iff [symmetric] nat_eq_iff)
  then show ?thesis by (simp add: expert_key.expand)
qed

lemma bit_set_bit_of:
  "bit (set_bit_of i b bm (j div 8)) (j mod 8) = (if i = j then b else bit (bm (j div 8)) (j mod 8))"
proof -
  have m: "bit (2 ^ (i mod 8) :: u8) n \<longleftrightarrow> n = i mod 8" for i n :: nat
    using bit_exp_iff [where 'a = u8, of "i mod 8" n] by auto
  have len: "j mod 8 < LENGTH(8)" by simp
  show ?thesis
  proof (cases "i div 8 = j div 8")
    case True
    then have "i = j \<longleftrightarrow> i mod 8 = j mod 8" by (metis div_mod_decomp)
    then show ?thesis using True len
      by (auto simp: set_bit_of_def Let_def bit_or_iff bit_and_iff bit_not_iff m)
  next
    case False
    then show ?thesis by (auto simp: set_bit_of_def Let_def)
  qed
qed

lemma write_gpu_state_alt:
  "write_gpu_state flat t n s =
     s\<lparr>expert_gpu_tier := (expert_gpu_tier s)(flat := tier_code t),
       expert_interest_count := (expert_interest_count s)(flat := ucast (min n 255)),
       residency_bitmap := set_bit_of flat (t = GHot) (residency_bitmap s)\<rparr>"
  by (cases t) (simp_all add: write_gpu_state_def set_bit_of_def Let_def tier_code_def word_le_nat_alt)

section \<open>The mirror\<close>

definition shows_tier :: "state_snapshot \<Rightarrow> nat \<Rightarrow> gpu_tier \<Rightarrow> bool" where
  "shows_tier s i t \<longleftrightarrow> expert_gpu_tier s i = tier_code t \<and> (bit (residency_bitmap s (i div 8)) (i mod 8) \<longleftrightarrow> t = GHot)"

definition snap_mirrored :: "lifecycle \<Rightarrow> bool" where
  "snap_mirrored l \<longleftrightarrow>
     (case snapshot l of
        None \<Rightarrow> True
      | Some s \<Rightarrow> \<forall>k g. publishable l k g \<longrightarrow> shows_tier s (snapshot_slot l k g) (tier l (k, g)))"

lemma shows_write: "shows_tier (write_gpu_state i t n s) j u = (if i = j then t = u else shows_tier s j u)"
  by (auto simp: shows_tier_def write_gpu_state_alt bit_set_bit_of)
     (cases t; cases u; simp add: tier_code_def)+

lemmas slot_defs = publishable_def snapshot_slot_def

lemma tier_set_entry [elm_simps]: "tier (set_entry gk ge l) = (tier l)(gk := ge_tier ge)"
  by (auto simp: tier_def elm_simps)

lemma tier_put_entry [elm_simps]: "tier (put_entry gk ge l) = (tier l)(gk := ge_tier ge)"
  by (auto simp: tier_def elm_simps)

lemma tier_others [elm_simps]:
  "tier (set_host k he l) = tier l" "tier (publish_gpu_state k g t n l) = tier l"
  "tier (publish_host_state d x k ht l) = tier l"
  by (simp_all add: tier_def elm_simps)

lemma tier_update [simp]:
  "tier (l\<lparr>pending_completions := a\<rparr>) = tier l" "tier (l\<lparr>pending_progress := b\<rparr>) = tier l"
  "tier (l\<lparr>arena_load_waiters := e\<rparr>) = tier l" "tier (l\<lparr>slot_pressure_waiters := f\<rparr>) = tier l"
  "tier (l\<lparr>token_index := g\<rparr>) = tier l" "tier (l\<lparr>cmd_seq_to_token := h\<rparr>) = tier l"
  "tier (l\<lparr>next_token := i\<rparr>) = tier l" "tier (l\<lparr>h2d_direct := j\<rparr>) = tier l" "tier (l\<lparr>h2d_staged := m\<rparr>) = tier l"
  "tier (l\<lparr>snapshot := n\<rparr>) = tier l"
  by (simp_all add: tier_def)

lemma snap_mirrored_cong:
  "snapshot l' = snapshot l \<Longrightarrow> first_moe_layer l' = first_moe_layer l \<Longrightarrow> tier l' = tier l \<Longrightarrow> snap_mirrored l' = snap_mirrored l"
  by (cases "snapshot l") (simp_all add: snap_mirrored_def slot_defs)

lemma snap_mirrored_set_fetch_count: "snap_mirrored (set_fetch_count_enabled b l) = snap_mirrored l"
  by (rule snap_mirrored_cong) (simp_all add: set_fetch_count_enabled_def tier_def entry_of_def)

lemma snap_mirrored_publish:
  assumes "snap_mirrored l" "ge_tier ge = t"
  shows "snap_mirrored (publish_gpu_state (fst gk) (snd gk) t n (set_entry gk ge l))"
proof (cases "snapshot l")
  case None
  then show ?thesis by (simp add: snap_mirrored_def publish_gpu_state_def elm_simps)
next
  case (Some s)
  let ?l = "publish_gpu_state (fst gk) (snd gk) t n (set_entry gk ge l)"
  have c: "publishable ?l k g = publishable l k g" "snapshot_slot ?l k g = snapshot_slot l k g" for k g
    by (simp_all add: slot_defs elm_simps)
  have c0: "publishable (set_entry gk ge l) k g = publishable l k g"
    "snapshot_slot (set_entry gk ge l) k g = snapshot_slot l k g" for k g
    by (simp_all add: slot_defs elm_simps)
  have s: "snapshot ?l = Some (if publishable l (fst gk) (snd gk)
      then write_gpu_state (snapshot_slot l (fst gk) (snd gk)) t n s else s)"
    using Some by (simp add: publish_gpu_state_def c0 elm_simps)
  have M: "publishable l k g \<Longrightarrow> shows_tier s (snapshot_slot l k g) (tier l (k, g))" for k g
    using assms(1) Some by (simp add: snap_mirrored_def)
  have I: "(k, g) = gk" if "publishable l (fst gk) (snd gk)" "publishable l k g"
    "snapshot_slot l (fst gk) (snd gk) = snapshot_slot l k g" for k g
    using snapshot_slot_inj [OF that] by (simp add: prod_eq_iff)
  have "shows_tier (the (snapshot ?l)) (snapshot_slot l k g) (tier ?l (k, g))" if "publishable l k g" for k g
    using M [OF that] I [of k g] that assms(2) by (auto simp: s elm_simps shows_write)
  then show ?thesis unfolding snap_mirrored_def by (simp add: s c)
qed

lemma snap_mirrored_set_entry: "ge_tier ge = tier l gk \<Longrightarrow> snap_mirrored (set_entry gk ge l) = snap_mirrored l"
  by (rule snap_mirrored_cong) (simp_all add: elm_simps fun_upd_idem)

lemma snap_mirrored_put_entry: "snap_mirrored l \<Longrightarrow> snap_mirrored (put_entry gk ge l)"
  by (simp add: put_entry_def snap_mirrored_publish)

lemma snap_mirrored_set_host [simp]: "snap_mirrored (set_host k he l) = snap_mirrored l"
  by (rule snap_mirrored_cong) (simp_all add: elm_simps)

lemma snap_mirrored_republish:
  assumes "snap_mirrored l" "tier l gk = t" shows "snap_mirrored (publish_gpu_state (fst gk) (snd gk) t n l)"
proof -
  let ?ge = "entry_of gk l"
  have "snap_mirrored (publish_gpu_state (fst gk) (snd gk) t n (set_entry gk ?ge l))"
    using assms by (intro snap_mirrored_publish) (simp_all add: tier_def)
  moreover have "snap_mirrored (publish_gpu_state (fst gk) (snd gk) t n (set_entry gk ?ge l))
      = snap_mirrored (publish_gpu_state (fst gk) (snd gk) t n l)"
    by (rule snap_mirrored_cong)
       (simp_all add: elm_simps fun_upd_idem [of "tier l" gk "ge_tier (entry_of gk l)"] tier_def [of l, THEN fun_cong],
        simp add: publish_gpu_state_def slot_defs elm_simps split: option.split)
  ultimately show ?thesis by simp
qed

lemma snap_mirrored_host_state [simp]: "snap_mirrored (publish_host_state d x k t l) = snap_mirrored l"
  by (cases "snapshot l") (simp_all add: publish_host_state_def snap_mirrored_def write_host_state_def shows_tier_def slot_defs)

lemma snap_mirrored_update [simp]:
  "snap_mirrored (l\<lparr>pending_completions := a\<rparr>) = snap_mirrored l" "snap_mirrored (l\<lparr>pending_progress := b\<rparr>) = snap_mirrored l"
  "snap_mirrored (l\<lparr>arena_load_waiters := e\<rparr>) = snap_mirrored l" "snap_mirrored (l\<lparr>slot_pressure_waiters := f\<rparr>) = snap_mirrored l"
  "snap_mirrored (l\<lparr>token_index := g\<rparr>) = snap_mirrored l" "snap_mirrored (l\<lparr>cmd_seq_to_token := h\<rparr>) = snap_mirrored l"
  "snap_mirrored (l\<lparr>next_token := i\<rparr>) = snap_mirrored l" "snap_mirrored (l\<lparr>h2d_direct := j\<rparr>) = snap_mirrored l"
  "snap_mirrored (l\<lparr>h2d_staged := m\<rparr>) = snap_mirrored l"
  by (rule snap_mirrored_cong; simp)+

section \<open>Operations\<close>

lemma snap_mirrored_try_start:
  assumes "snap_mirrored (w_elm w)" shows "snap_mirrored (w_elm (snd (try_start_h2d d gk w)))"
proof (cases rule: try_start_cases [of d gk w])
  case (started x hs tok)
  then show ?thesis using assms by (auto simp: started_h2d_def Let_def intro: snap_mirrored_put_entry)
qed (use assms in \<open>auto simp: defer_to_arena_def defer_to_slot_def Let_def joined_h2d_def intro: snap_mirrored_put_entry\<close>)

lemma snap_mirrored_drop_waiters [simp]: "snap_mirrored (drop_waiters gk l) = snap_mirrored l"
  by (simp add: drop_waiters_def split: option.split)

lemma snap_mirrored_revert:
  "snap_mirrored (w_elm w) \<Longrightarrow> revert_gpu_entry d gk w = Inr w' \<Longrightarrow> snap_mirrored (w_elm w')"
  by (auto simp: revert_gpu_entry_def Let_def res_simps snap_mirrored_publish)

lemma tier_clear [elm_simps]: "tier (clear_interests gk l) = tier l"
  by (simp add: clear_interests_def Let_def tier_def elm_simps forget_fields fun_eq_iff)

lemma snap_mirrored_clear [simp]: "snap_mirrored (clear_interests gk l) = snap_mirrored l"
  by (rule snap_mirrored_cong) (simp_all add: elm_simps, simp_all add: clear_interests_def Let_def elm_simps forget_fields)

lemma snap_mirrored_complete:
  "snap_mirrored (w_elm w) \<Longrightarrow> complete_interests d gk b w = Inr (cs, w') \<Longrightarrow> snap_mirrored (w_elm w')"
  by (auto simp: complete_interests_def Let_def res_simps intro: snap_mirrored_revert [rotated] split: if_splits)

lemma snap_mirrored_fail: "snap_mirrored (w_elm w) \<Longrightarrow> fail_interests d gk w = Inr w' \<Longrightarrow> snap_mirrored (w_elm w')"
  by (auto simp: fail_interests_def push_pending_def res_simps intro: snap_mirrored_complete)

lemma snap_mirrored_reserve_start:
  assumes "snap_mirrored (w_elm w)" "reserve_and_start d gk z w = Inr w'" shows "snap_mirrored (w_elm w')"
proof -
  have "snap_mirrored (w_elm (w\<lparr>w_cache := c\<rparr>))" for c using assms(1) by simp
  then show ?thesis
    using assms by (auto simp: reserve_and_start_def Let_def res_simps intro!: snap_mirrored_try_start snap_mirrored_put_entry
        intro: snap_mirrored_fail [rotated] split: option.splits)
qed

lemma snap_mirrored_add_waiter [simp]: "snap_mirrored (add_waiter gk z l) = snap_mirrored l"
  by (simp add: add_waiter_def Let_def)

lemma snap_mirrored_start_chain:
  assumes "snap_mirrored (w_elm w)" "start_chain d gk z w = Inr w'" shows "snap_mirrored (w_elm w')"
  using assms by (auto simp: start_chain_def Let_def intro: snap_mirrored_fail [rotated] snap_mirrored_reserve_start [rotated]
      split: host_tier.splits option.splits prod.splits if_splits)

lemma snap_mirrored_begin_chain:
  assumes "snap_mirrored (w_elm w)" "begin_chain d gk i prio delay w = Inr w'" shows "snap_mirrored (w_elm w')"
  using assms(2) unfolding begin_chain_def
  by (rule snap_mirrored_start_chain [rotated]) (simp add: Let_def snap_mirrored_set_entry assms(1) tier_def)

lemma snap_mirrored_open: "snap_mirrored (w_elm (open_request d gk seq w)) = snap_mirrored (w_elm w)"
  by (rule snap_mirrored_cong) (simp_all add: opened tier_def)

lemma snap_mirrored_heal: "snap_mirrored l \<Longrightarrow> snap_mirrored (heal_entry gk l)"
  by (simp add: heal_entry_def snap_mirrored_publish)

lemma snap_mirrored_ensure:
  assumes "snap_mirrored (w_elm w)" "ensure_resident d k gpu z seq prio delay w = Inr (tok, w')" shows "snap_mirrored (w_elm w')"
proof -
  let ?w1 = "open_request d (k, gpu) seq w"
  have w1: "snap_mirrored (w_elm ?w1)" using assms(1) by (simp add: snap_mirrored_open)
  have j: "snap_mirrored (w_elm (join_reserved d gk i prio ?w1))" "snap_mirrored (w_elm (join_transfer d gk i prio ?w1))"
    "snap_mirrored (w_elm (answer_now gk i b ?w1))" for gk i b
    using w1 by (auto simp: join_reserved_def join_transfer_def answer_now_def push_pending_def Let_def
        intro!: snap_mirrored_try_start snap_mirrored_put_entry)
  have "snap_mirrored (w_elm (on_elm (heal_entry gk) ?w1))" for gk using w1 by (simp add: snap_mirrored_heal)
  then show ?thesis
    using assms(2) w1 j by (auto simp: ensure_resident_def Let_def res_simps intro: snap_mirrored_begin_chain [rotated]
        split: gpu_tier.splits if_splits)
qed

lemma snap_mirrored_evict:
  "snap_mirrored (w_elm w) \<Longrightarrow> elm_evict k gpu w = Inr (ok, w') \<Longrightarrow> snap_mirrored (w_elm w')"
  using snap_mirrored_publish [of "w_elm w" _ GAbsent "(k, gpu)" 0]
  by (auto simp: elm_evict_def request_evict_def res_simps set_entry_def split: option.splits if_splits)

lemma snap_mirrored_drain: "snap_mirrored (w_elm w) \<Longrightarrow> snap_mirrored (w_elm (snd (request_drain d k gpu seq w)))"
  using snap_mirrored_publish [of "w_elm w" _ GDraining "(k, gpu)" 0]
  by (simp add: request_drain_def split: option.split prod.split)

lemma tier_take [elm_simps]: "tier (take_interest gk t l) = tier l"
  by (simp add: take_interest_def Let_def erase_seq_def tier_def elm_simps fun_eq_iff split: option.split)

lemma snap_mirrored_take [simp]: "snap_mirrored (retract_completion t (take_interest gk t l)) = snap_mirrored l"
  by (rule snap_mirrored_cong)
     (simp_all add: retract_completion_def elm_simps, simp_all add: take_interest_def Let_def erase_seq_def elm_simps split: option.split)

lemma snap_mirrored_republish_entry:
  "snap_mirrored l \<Longrightarrow> snap_mirrored (publish_gpu_state k g (ge_tier (entry_of (k, g) l)) n l)"
  using snap_mirrored_republish [of l "(k, g)"] by (simp add: tier_def)

lemma snap_mirrored_cancel:
  assumes "snap_mirrored (w_elm w)" "cancel d t w = Inr w'" shows "snap_mirrored (w_elm w')"
  using assms
  by (auto simp: cancel_def Let_def intro!: snap_mirrored_republish_entry intro: snap_mirrored_revert [rotated]
      split: option.splits if_splits)

lemma snap_mirrored_move:
  assumes "snap_mirrored (w_elm w)" "elm_move mv k gpu w = Inr (ok, w')" "tier (w_elm w) (k, gpu) = GHot"
  shows "snap_mirrored (w_elm w')"
  using assms snap_mirrored_republish [of "w_elm w" "(k, gpu)" GHot 0] by (auto simp: elm_move_def res_simps split: if_splits)

lemma snap_mirrored_move_tracked:
  assumes "snap_mirrored (w_elm w)" "elm_move mv k gpu w = Inr (ok, w')" "gpu_entries (w_elm w) (k, gpu) \<noteq> None"
  shows "snap_mirrored (w_elm w')"
proof (cases "tier (w_elm w) (k, gpu) = GHot")
  case False
  then have "w' = w" using assms(2,3) by (auto simp: elm_move_def tier_def entry_of_def split: option.splits if_splits)
  then show ?thesis using assms(1) by simp
qed (use assms snap_mirrored_move in blast)

section \<open>Poll\<close>

definition keeps_mirror :: "poll_result \<times> 'x world \<Rightarrow> poll_result \<times> 'x world \<Rightarrow> bool" where
  "keeps_mirror s s' \<longleftrightarrow> (snap_mirrored (w_elm (snd s)) \<longrightarrow> snap_mirrored (w_elm (snd s')))"

lemma mirror_fold:
  assumes "rfold f xs s = Inr s'" "\<And>x s s'. f x s = Inr s' \<Longrightarrow> keeps_mirror s s'" shows "keeps_mirror s s'"
  by (rule rfold_rel [where R = keeps_mirror, OF assms(1)]) (auto simp: keeps_mirror_def assms(2) [unfolded keeps_mirror_def])

lemma mirror_complete_into: "complete_into d gk b s = Inr s' \<Longrightarrow> keeps_mirror s s'"
  by (auto simp: complete_into_def keeps_mirror_def res_simps intro: snap_mirrored_complete split: prod.splits)

lemma mirror_redrive: "snap_mirrored (w_elm w) \<Longrightarrow> snap_mirrored (w_elm (redrive d gk w))"
  by (auto simp: redrive_def touch_host_def intro!: snap_mirrored_try_start)

lemma mirror_redrive_fold: "snap_mirrored (w_elm w) \<Longrightarrow> snap_mirrored (w_elm (fold (redrive d) gks w))"
  by (induction gks arbitrary: w) (auto intro: mirror_redrive)

lemma mirror_wake: "wake_arena_waiter d b gk s = Inr s' \<Longrightarrow> keeps_mirror s s'"
  using mirror_complete_into [of d gk False s s']
  by (auto simp: wake_arena_waiter_def keeps_mirror_def intro: mirror_redrive split: prod.splits if_splits)

lemma mirror_arena:
  assumes "arena_load_done d ar lc s = Inr s'" shows "keeps_mirror s s'"
proof -
  have "keeps_mirror s1 s'" if "rfold (wake_arena_waiter d b) ws s1 = Inr s'" for b ws s1
    using that by (rule mirror_fold) (rule mirror_wake)
  then show ?thesis
    using assms by (fastforce simp: arena_load_done_def keeps_mirror_def Let_def split: prod.splits option.splits)
qed

lemma mirror_process: "process_arena_loads d s = Inr s' \<Longrightarrow> keeps_mirror s s'"
  using mirror_fold [of _ _ _ s'] mirror_arena
  by (fastforce simp: process_arena_loads_def keeps_mirror_def split: prod.splits option.splits)

lemma mirror_chain_waiter:
  assumes "chain_waiter d k p s = Inr s'" shows "keeps_mirror s s'"
proof -
  obtain r w0 where s: "s = (r, w0)" by fastforce
  let ?gk = "(k, pc_gpu p)"
  let ?w = "on_elm (\<lambda>l. set_entry ?gk (entry_of ?gk l) l) w0"
  { assume "snap_mirrored (w_elm w0)"
    then have m: "snap_mirrored (w_elm ?w)" "snap_mirrored (w_elm (?w\<lparr>w_cache := c\<rparr>))" for c
      by (simp_all add: snap_mirrored_set_entry tier_def)
    have t: "snap_mirrored (w_elm (snd (try_start_h2d d ?gk (on_elm (\<lambda>l. put_entry ?gk ((entry_of ?gk l)\<lparr>ge_tier := GReserved\<rparr>) l)
      (?w\<lparr>w_cache := c\<rparr>)))))" for c
      using m(1) by (intro snap_mirrored_try_start) (simp add: snap_mirrored_put_entry)
    have c: "snap_mirrored (w_elm (snd s'))" if "complete_into d ?gk False (r, ?w\<lparr>w_cache := c\<rparr>) = Inr s'" for c
      using mirror_complete_into [OF that] m(2) by (simp add: keeps_mirror_def)
    have "snap_mirrored (w_elm (snd s'))"
      using assms t c snap_mirrored_try_start [OF m(1), of d ?gk] m
      by (auto simp: s chain_waiter_def Let_def res_simps split: gpu_tier.splits option.splits) }
  then show ?thesis by (simp add: keeps_mirror_def s)
qed

lemma mirror_fail_waiter: "fail_waiter d k p s = Inr s' \<Longrightarrow> keeps_mirror s s'"
  using mirror_complete_into [of d "(k, pc_gpu p)" False s s'] by (auto simp: fail_waiter_def keeps_mirror_def split: if_splits)

lemma mirror_waiter_loop:
  assumes "waiter_loop k body s = Inr s'" "\<And>p s s'. body p s = Inr s' \<Longrightarrow> keeps_mirror s s'" shows "keeps_mirror s s'"
  using assms(1) unfolding waiter_loop_def Let_def
  by (rule mirror_fold) (auto elim!: rbindE intro: assms(2) split: if_splits)

lemma mirror_nvme:
  assumes "nvme_done d nc s = Inr s'" shows "keeps_mirror s s'"
proof -
  obtain r w where s: "s = (r, w)" by fastforce
  let ?k = "nc_key nc" and ?body = "(if nc_success nc then chain_waiter else fail_waiter) d (nc_key nc)"
  let ?w = "set_host_tier d ?k (if nc_success nc then HWarm else HCold) w"
  have "keeps_mirror (r, ?w) s1" if "waiter_loop ?k ?body (r, ?w) = Inr s1" for s1
    using that by (rule mirror_waiter_loop) (auto intro: mirror_chain_waiter mirror_fail_waiter split: if_splits)
  then show ?thesis
    using assms by (fastforce simp: s nvme_done_def keeps_mirror_def res_simps set_host_tier_def clear_waiters_def
        split: option.splits if_splits)
qed

lemma mirror_h2d:
  assumes "h2d_done d gk b s = Inr s'" shows "keeps_mirror s s'"
proof -
  obtain r w where s: "s = (r, w)" by fastforce
  let ?ge = "(entry_of gk (w_elm w))\<lparr>transfer_token := 0, host_buf_ref := None\<rparr>"
  { assume M: "snap_mirrored (w_elm w)"
    have "snap_mirrored (w_elm (snd s'))"
    proof (cases b)
      case True
      let ?w1 = "\<lambda>c. w\<lparr>w_cache := c, w_elm := put_entry gk (?ge\<lparr>ge_tier := GHot\<rparr>) (w_elm w),
                       w_sub := release_packed_host_buffer d (fst gk) (w_sub w)\<rparr>"
      obtain c r2 w2 where c: "complete_into d gk True (r, ?w1 c) = Inr (r2, w2)"
        "s' = (r2, redrive_slot_waiters d (on_elm (publish_gpu_state (fst gk) (snd gk) GHot 0) w2))"
        using assms True by (auto simp: s h2d_done_def Let_def res_simps)
      have w2: "w2 = on_elm (clear_interests gk) (?w1 c)"
        using c(1) by (auto simp: complete_into_def complete_interests_def Let_def)
      have "snap_mirrored (w_elm w2)" "tier (w_elm w2) gk = GHot"
        using M by (simp_all add: w2 snap_mirrored_put_entry elm_simps)
      then show ?thesis
        unfolding c(2) by (auto simp: redrive_slot_waiters_def intro!: mirror_redrive_fold snap_mirrored_republish)
    next
      case False
      then show ?thesis
        using assms M mirror_complete_into [of d gk False "(r, on_elm (set_entry gk ?ge) w)" s']
        by (simp add: s h2d_done_def Let_def keeps_mirror_def snap_mirrored_set_entry tier_def)
    qed }
  then show ?thesis by (simp add: keeps_mirror_def s)
qed

lemma mirror_transfer: "transfer_done d xc s = Inr s' \<Longrightarrow> keeps_mirror s s'"
  using mirror_h2d [of d "(xc_key xc, xc_gpu xc)" "xc_success xc" s s']
  by (auto simp: transfer_done_def d2h_done_def keeps_mirror_def Let_def res_simps
      intro!: snap_mirrored_publish [where gk = "(k, g)" for k g, simplified]
      split: prod.splits transfer_direction.splits if_splits)

lemma snap_mirrored_poll:
  assumes "snap_mirrored (w_elm w)" "poll d xcs ncs w = Inr (r, w')" shows "snap_mirrored (w_elm w')"
proof -
  obtain s1 s2 where p: "process_arena_loads d (take_pending w) = Inr s1" "rfold (nvme_done d) ncs s1 = Inr s2"
    "rfold (transfer_done d) xcs s2 = Inr (r, w')" using assms(2) by (auto simp: poll_def res_simps)
  have "snap_mirrored (w_elm (snd (take_pending w)))" using assms(1) by (simp add: take_pending_def)
  then show ?thesis
    using mirror_process [OF p(1)] mirror_fold [OF p(2) mirror_nvme] mirror_fold [OF p(3) mirror_transfer]
    by (simp add: keeps_mirror_def)
qed

end
