(* ===== verification/Lifecycle_Tiers.thy ===== *)
theory Lifecycle_Tiers
  imports Lifecycle_Snapshot
begin

text \<open>
  What the tiers promise: an expert above \<^verbatim>\<open>kAbsent\<close> is resident in the cache, requests wait only on entries that are
  absent, reserved or in transfer, and a request on an absent entry is queued behind a host read in flight. Every operation
  keeps this and, but for the invalidated iterators of a poll, never faults.
\<close>

section \<open>Outcomes\<close>

definition returns :: "('a \<Rightarrow> bool) \<Rightarrow> 'a res \<Rightarrow> bool" where
  "returns P m \<longleftrightarrow> (\<exists>s. m = Inr s \<and> P s)"

text \<open>Done with \<open>P\<close>, or stopped at undefined behaviour.\<close>

definition lands :: "('a \<Rightarrow> bool) \<Rightarrow> 'a res \<Rightarrow> bool" where
  "lands P m \<longleftrightarrow> (case m of Inr s \<Rightarrow> P s | Inl e \<Rightarrow> e = UndefinedBehaviour)"

lemma returns_Inr [simp]: "returns P (Inr s) = P s" "\<not> returns P (Inl e)"
  by (simp_all add: returns_def)

lemma lands_Inr [simp]: "lands P (Inr s) = P s" "lands P (Inl e) = (e = UndefinedBehaviour)"
  by (simp_all add: lands_def)

lemma returns_bind: "returns P m \<Longrightarrow> (\<And>s. P s \<Longrightarrow> returns Q (f s)) \<Longrightarrow> returns Q (rbind m f)"
  by (auto simp: returns_def)

lemma lands_bind: "lands P m \<Longrightarrow> (\<And>s. P s \<Longrightarrow> lands Q (f s)) \<Longrightarrow> lands Q (rbind m f)"
  by (cases m) simp_all

lemma returns_lands: "returns P m \<Longrightarrow> lands P m"
  by (auto simp: returns_def)

lemma returns_mono: "returns P m \<Longrightarrow> (\<And>s. P s \<Longrightarrow> Q s) \<Longrightarrow> returns Q m"
  by (auto simp: returns_def)

lemma lands_mono: "lands P m \<Longrightarrow> (\<And>s. P s \<Longrightarrow> Q s) \<Longrightarrow> lands Q m"
  by (cases m) simp_all

lemma lands_rfold:
  assumes "I xs s" "\<And>x ys s. I (x # ys) s \<Longrightarrow> x \<in> set xs \<Longrightarrow> lands (I ys) (f x s)" shows "lands (I []) (rfold f xs s)"
  using assms
proof (induction xs arbitrary: s)
  case (Cons x xs)
  have "lands (I xs) (f x s)" using Cons.prems by simp
  then have "lands (I []) (rbind (f x s) (rfold f xs))"
    by (rule lands_bind) (rule Cons.IH, simp_all add: Cons.prems(2))
  then show ?case by simp
qed simp

lemma returns_rfold:
  assumes "P s" "\<And>x s. P s \<Longrightarrow> x \<in> set xs \<Longrightarrow> returns P (f x s)" shows "returns P (rfold f xs s)"
  using assms by (induction xs arbitrary: s) (auto intro: returns_bind)

section \<open>The cache as the manager sees it\<close>

definition resident :: "expert_cache \<Rightarrow> gpu_key \<Rightarrow> bool" where
  "resident c gk = is_resident (fst gk) (snd gk) c"

definition gpus_of :: "expert_cache \<Rightarrow> int" where
  "gpus_of c = int (length (ec_gpus c))"

text \<open>A sound cache with the same GPUs, that may differ from \<open>c\<close> in the residency of \<open>gk\<close> only.\<close>

definition cache_at :: "gpu_key \<Rightarrow> expert_cache \<Rightarrow> expert_cache \<Rightarrow> bool" where
  "cache_at gk c c' \<longleftrightarrow> cache_inv c' \<and> gpus_of c' = gpus_of c \<and> (\<forall>h. h \<noteq> gk \<longrightarrow> resident c' h = resident c h)"

lemma cache_atD:
  assumes "cache_at gk c c'"
  shows "cache_inv c'" "gpus_of c' = gpus_of c" "h \<noteq> gk \<Longrightarrow> resident c' h = resident c h"
  using assms unfolding cache_at_def by blast+

lemma cache_at_refl: "cache_inv c \<Longrightarrow> cache_at gk c c"
  by (simp add: cache_at_def)

lemma gpus_of_put [simp]: "gpus_of (put_state gpu gs c) = gpus_of c" "gpus_of (notify ev c) = gpus_of c"
  by (simp_all add: gpus_of_def put_state_def)

lemma resident_put:
  "valid_cache_gpu c gpu \<Longrightarrow> resident (put_state gpu gs c) h
     = (if snd h = gpu then find_resident (fst h) gs \<noteq> None else resident c h)"
  by (simp add: resident_def is_resident_put)

lemma resident_notify [simp]: "resident (notify ev c) h = resident c h"
  by (simp add: resident_def)

lemma reserve_at:
  assumes inv: "cache_inv c" and v: "valid_cache_gpu c (snd gk)"
  shows "returns (\<lambda>(a, c'). cache_at gk c c' \<and> (a \<noteq> None \<longrightarrow> resident c' gk)) (reserve (fst gk) (snd gk) z dup c)"
proof -
  obtain gs where gs: "gpu_state c (snd gk) = Inr gs" using v by (simp add: gpu_state_def)
  obtain r c' where r: "reserve (fst gk) (snd gk) z dup c = Inr (r, c')"
    by (cases "reserve (fst gk) (snd gk) z dup c")
       (use gs in \<open>auto simp: reserve_def Let_def split: prod.splits if_splits\<close>)
  note G = gpu_state_ok [OF inv gs]
  have "cache_at gk c c' \<and> (r \<noteq> None \<longrightarrow> resident c' gk)"
    using inv gs r
  proof (cases rule: reserve_outcome)
    case (fresh a gs')
    obtain e where e: "residents gs' = residents gs @ [(fst gk, e)]" using fresh(3) by (auto simp: reserve_done_def)
    have f: "find_resident k gs' = (if k = fst gk then Some e else find_resident k gs)" for k
      using fresh(1) by (auto simp: find_resident_def e map_add_def split: option.splits)
    have "resident c' h = (if h = gk then True else resident c h)" for h
      using fresh(5) G(3,4) by (cases h; cases gk) (auto simp: resident_put f, auto simp: resident_def is_resident_def)
    moreover have "gpus_of c' = gpus_of c" using fresh(5) by simp
    ultimately show ?thesis using reserve_inv [OF inv r] by (simp add: cache_at_def)
  qed (use inv in \<open>simp_all add: cache_at_refl\<close>)
  then show ?thesis by (simp add: r)
qed

lemma evict_at:
  assumes inv: "cache_inv c" and v: "valid_cache_gpu c (snd gk)"
  shows "returns (\<lambda>(ok, c'). cache_at gk c c') (evict (fst gk) (snd gk) c)"
proof -
  obtain gs where gs: "gpu_state c (snd gk) = Inr gs" using v by (simp add: gpu_state_def)
  have "\<exists>ok c'. evict (fst gk) (snd gk) c = Inr (ok, c') \<and> gpus_of c' = gpus_of c"
    using inv gs by (cases rule: evict_outcome [where k = "fst gk"]) auto
  then obtain ok c' where e: "evict (fst gk) (snd gk) c = Inr (ok, c')" "gpus_of c' = gpus_of c" by blast
  have "resident c' h = resident c h" if "h \<noteq> gk" for h
    using evict_others [OF e(1), of "fst h" "snd h"] that by (simp add: resident_def prod_eq_iff)
  then show ?thesis using e evict_inv [OF inv e(1)] by (simp add: cache_at_def)
qed

lemma find_upd: "find_resident k' (upd_resident k f gs) = None \<longleftrightarrow> find_resident k' gs = None"
  by (simp add: find_resident_None upd_resident_def) (metis map_fst_upd list.set_map)

lemma mark_all_at:
  assumes inv: "cache_inv c" and r: "resident c gk"
  shows "returns (\<lambda>c'. cache_at gk c c' \<and> resident c' gk) (mark_all_ready (fst gk) (snd gk) c)"
proof -
  have v: "valid_cache_gpu c (snd gk)" "find_resident (fst gk) (ec_gpus c ! nat (snd gk)) \<noteq> None"
    using r by (simp_all add: resident_def is_resident_def)
  let ?c' = "put_state (snd gk) (upd_resident (fst gk) (\<lambda>e. e\<lparr>sub_components_ready := kAll\<rparr>) (ec_gpus c ! nat (snd gk))) c"
  have m: "mark_all_ready (fst gk) (snd gk) c = Inr ?c'" using v by (simp add: mark_all_ready_def gpu_state_def)
  have "resident ?c' h = resident c h" for h
    using v(1) by (simp add: resident_put find_upd) (simp add: resident_def is_resident_def)
  then show ?thesis using lock_mark_inv(4) [OF inv m] r by (simp add: m cache_at_def)
qed

lemma lookup_resident_iff: "lookup (fst gk) (snd gk) c \<noteq> None \<longleftrightarrow> resident c gk"
  by (simp add: lookup_def resident_def is_resident_def)

lemma resident_valid: "resident c gk \<Longrightarrow> valid_cache_gpu c (snd gk)"
  by (simp add: resident_def is_resident_def)

lemma valid_cong: "gpus_of c' = gpus_of c \<Longrightarrow> valid_cache_gpu c' g = valid_cache_gpu c g"
  by (simp add: valid_cache_gpu_def gpus_of_def)

section \<open>The invariant\<close>

definition hosts :: "lifecycle \<Rightarrow> expert_key \<Rightarrow> host_entry" where
  "hosts l = (\<lambda>k. host_of k l)"

text \<open>Where a request may wait: for the transfer, or for the host read that its GPU is queued behind.\<close>

definition may_wait :: "gpu_tier \<Rightarrow> host_entry \<Rightarrow> int \<Rightarrow> bool" where
  "may_wait t he g \<longleftrightarrow> t = GReserved \<or> t = GTransferring
     \<or> t = GAbsent \<and> he_tier he = HLoadingToRam \<and> g \<in> pc_gpu ` set (gpu_waiters he)"

definition tables_ok :: "gpu_key set \<Rightarrow> lifecycle \<Rightarrow> expert_cache \<Rightarrow> bool" where
  "tables_ok E l c \<longleftrightarrow>
     cache_inv c \<and> (\<forall>gk. tier l gk \<noteq> GAbsent \<longrightarrow> resident c gk)
     \<and> (\<forall>gk. gk \<notin> E \<and> ints l gk \<noteq> [] \<longrightarrow> may_wait (tier l gk) (hosts l (fst gk)) (snd gk))
     \<and> (\<forall>k. \<forall>p \<in> set (gpu_waiters (hosts l k)). valid_cache_gpu c (pc_gpu p))"

lemma tables_okI:
  assumes "cache_inv c" "\<And>gk. tier l gk \<noteq> GAbsent \<Longrightarrow> resident c gk"
    "\<And>gk. gk \<notin> E \<Longrightarrow> ints l gk \<noteq> [] \<Longrightarrow> may_wait (tier l gk) (hosts l (fst gk)) (snd gk)"
    "\<And>k p. p \<in> set (gpu_waiters (hosts l k)) \<Longrightarrow> valid_cache_gpu c (pc_gpu p)"
  shows "tables_ok E l c"
  unfolding tables_ok_def using assms by blast

lemma tables_okD:
  assumes "tables_ok E l c"
  shows "cache_inv c" "tier l gk \<noteq> GAbsent \<Longrightarrow> resident c gk"
    "gk \<notin> E \<Longrightarrow> ints l gk \<noteq> [] \<Longrightarrow> may_wait (tier l gk) (hosts l (fst gk)) (snd gk)"
    "p \<in> set (gpu_waiters (hosts l k)) \<Longrightarrow> valid_cache_gpu c (pc_gpu p)"
  using assms unfolding tables_ok_def by blast+

abbreviation ok :: "gpu_key set \<Rightarrow> 'x world \<Rightarrow> bool" where
  "ok E w \<equiv> tables_ok E (w_elm w) (w_cache w)"

lemma hosts_fields [elm_simps]:
  "hosts (set_entry gk ge l) = hosts l" "hosts (put_entry gk ge l) = hosts l" "hosts (publish_gpu_state k g t n l) = hosts l"
  "hosts (publish_host_state d x k ht l) = hosts l" "hosts (set_host k he l) = (hosts l)(k := he)"
  by (simp_all add: hosts_def elm_simps fun_eq_iff)

lemma hosts_update [simp]:
  "hosts (l\<lparr>pending_completions := a\<rparr>) = hosts l" "hosts (l\<lparr>pending_progress := b\<rparr>) = hosts l"
  "hosts (l\<lparr>arena_load_waiters := e\<rparr>) = hosts l" "hosts (l\<lparr>slot_pressure_waiters := f\<rparr>) = hosts l"
  "hosts (l\<lparr>token_index := g\<rparr>) = hosts l" "hosts (l\<lparr>cmd_seq_to_token := h\<rparr>) = hosts l"
  "hosts (l\<lparr>next_token := i\<rparr>) = hosts l" "hosts (l\<lparr>h2d_direct := j\<rparr>) = hosts l" "hosts (l\<lparr>h2d_staged := m\<rparr>) = hosts l"
  "hosts (l\<lparr>snapshot := n\<rparr>) = hosts l"
  by (simp_all add: hosts_def)

lemma ints_update [simp]:
  "ints (l\<lparr>pending_completions := a\<rparr>) = ints l" "ints (l\<lparr>pending_progress := b\<rparr>) = ints l"
  "ints (l\<lparr>arena_load_waiters := e\<rparr>) = ints l" "ints (l\<lparr>slot_pressure_waiters := f\<rparr>) = ints l"
  "ints (l\<lparr>token_index := g\<rparr>) = ints l" "ints (l\<lparr>cmd_seq_to_token := h\<rparr>) = ints l"
  "ints (l\<lparr>next_token := i\<rparr>) = ints l" "ints (l\<lparr>h2d_direct := j\<rparr>) = ints l" "ints (l\<lparr>h2d_staged := m\<rparr>) = ints l"
  "ints (l\<lparr>snapshot := n\<rparr>) = ints l"
  by (simp_all add: ints_def)

lemma tables_ok_cong:
  "tier l' = tier l \<Longrightarrow> ints l' = ints l \<Longrightarrow> hosts l' = hosts l \<Longrightarrow> tables_ok E l' c = tables_ok E l c"
  by (simp add: tables_ok_def)

lemma tables_ok_mono: "tables_ok E l c \<Longrightarrow> E \<subseteq> E' \<Longrightarrow> tables_ok E' l c"
  unfolding tables_ok_def by blast

text \<open>A change of one entry, with the cache changed there at most.\<close>

lemma ok_entry:
  assumes "tables_ok E l c" "cache_at gk c c'" "t \<noteq> GAbsent \<longrightarrow> resident c' gk"
    and "tier l' = (tier l)(gk := t)" "ints l' = (ints l)(gk := is)" "hosts l' = hosts l"
    and "is = [] \<or> t = GReserved \<or> t = GTransferring \<or> gk \<in> E'" "E \<subseteq> insert gk E'"
  shows "tables_ok E' l' c'"
proof (rule tables_okI)
  show "cache_inv c'" by (rule cache_atD [OF assms(2)])
  show "resident c' h" if "tier l' h \<noteq> GAbsent" for h
    using that assms(3,4) cache_atD(3) [OF assms(2), of h] tables_okD(2) [OF assms(1), of h] by (cases "h = gk") simp_all
  show "may_wait (tier l' h) (hosts l' (fst h)) (snd h)" if "h \<notin> E'" "ints l' h \<noteq> []" for h
  proof (cases "h = gk")
    case True
    then show ?thesis using that assms(4,5,7) by (auto simp: may_wait_def)
  next
    case False
    then have "h \<notin> E" using that assms(8) by blast
    then show ?thesis using that False assms(4-6) tables_okD(3) [OF assms(1), of h] by simp
  qed
  show "valid_cache_gpu c' (pc_gpu p)" if "p \<in> set (gpu_waiters (hosts l' k))" for k p
    using that tables_okD(4) [OF assms(1)] assms(6) valid_cong [OF cache_atD(2) [OF assms(2)]] by simp
qed

text \<open>A change of one host entry.\<close>

lemma ok_host:
  assumes "tables_ok E l c" "tier l' = tier l" "ints l' = ints l" "hosts l' = (hosts l)(k := he)"
    and "\<And>g. (k, g) \<notin> E' \<Longrightarrow> ints l (k, g) \<noteq> [] \<Longrightarrow> may_wait (tier l (k, g)) he g"
    and "\<And>p. p \<in> set (gpu_waiters he) \<Longrightarrow> valid_cache_gpu c (pc_gpu p)" "\<And>h. h \<in> E \<Longrightarrow> fst h \<noteq> k \<Longrightarrow> h \<in> E'"
  shows "tables_ok E' l' c"
proof (rule tables_okI)
  show "cache_inv c" by (rule tables_okD [OF assms(1)])
  show "resident c h" if "tier l' h \<noteq> GAbsent" for h using that assms(2) tables_okD(2) [OF assms(1), of h] by simp
  show "may_wait (tier l' h) (hosts l' (fst h)) (snd h)" if "h \<notin> E'" "ints l' h \<noteq> []" for h
  proof (cases "fst h = k")
    case True
    then show ?thesis using that assms(2-4) assms(5) [of "snd h"] by (cases h) simp
  next
    case False
    then have "h \<notin> E" using that assms(7) by blast
    then show ?thesis using that False assms(2-4) tables_okD(3) [OF assms(1), of h] by simp
  qed
  show "valid_cache_gpu c (pc_gpu p)" if "p \<in> set (gpu_waiters (hosts l' k'))" for k' p
    using that assms(4,6) tables_okD(4) [OF assms(1)] by (cases "k' = k") simp_all
qed

section \<open>Operations\<close>

lemma started_view:
  "tier (w_elm (started_h2d d gk hs tok w)) = (tier (w_elm w))(gk := GTransferring)"
  "ints (w_elm (started_h2d d gk hs tok w)) = (ints (w_elm w))(gk := ints (w_elm w) gk)"
  "hosts (w_elm (started_h2d d gk hs tok w)) = hosts (w_elm w)" "w_cache (started_h2d d gk hs tok w) = w_cache w"
  by (simp_all add: started_h2d_def Let_def elm_simps) (simp_all add: ints_def fun_eq_iff)

lemma joined_view:
  "tier (w_elm (joined_h2d gk hs w)) = (tier (w_elm w))(gk := GTransferring)"
  "ints (w_elm (joined_h2d gk hs w)) = (ints (w_elm w))(gk := ints (w_elm w) gk)"
  "hosts (w_elm (joined_h2d gk hs w)) = hosts (w_elm w)" "w_cache (joined_h2d gk hs w) = w_cache w"
  by (simp_all add: joined_h2d_def elm_simps) (simp_all add: ints_def fun_eq_iff)

lemma deferred_view:
  "tables_ok E (defer_to_arena gk l) c = tables_ok E l c" "tables_ok E (defer_to_slot gk l) c = tables_ok E l c"
  by (rule tables_ok_cong; simp add: defer_to_arena_def defer_to_slot_def Let_def)+

lemma ok_try_start:
  assumes "ok E w" shows "ok E (snd (try_start_h2d d gk w))"
proof (cases rule: try_start_cases [of d gk w])
  case (started x hs tok)
  have "ok E (started_h2d d gk hs tok (w\<lparr>w_sub := x\<rparr>))"
    unfolding started_view(4) using assms started(1)
    by (intro ok_entry [OF _ _ _ started_view(1-3), of E]) (auto simp: lookup_resident_iff [symmetric] cache_at_refl tables_okD)
  then show ?thesis using started(2) by simp
next
  case (joined x hs)
  have "ok E (joined_h2d gk hs (w\<lparr>w_sub := x\<rparr>))"
    unfolding joined_view(4) using assms joined(1)
    by (intro ok_entry [OF _ _ _ joined_view(1-3), of E]) (auto simp: lookup_resident_iff [symmetric] cache_at_refl tables_okD)
  then show ?thesis using joined(2) by simp
qed (use assms in \<open>simp_all add: deferred_view\<close>)

lemma hosts_drop_waiters:
  "hosts (drop_waiters gk l) = (hosts l)(fst gk := (hosts l (fst gk))\<lparr>gpu_waiters := filter (\<lambda>p. pc_gpu p \<noteq> snd gk) (gpu_waiters (hosts l (fst gk)))\<rparr>)"
  by (cases "host_entries l (fst gk)")
     (auto simp: drop_waiters_def elm_simps fun_eq_iff, auto simp: hosts_def host_of_def new_host_entry_def)

lemma drop_waiters_view [elm_simps]: "tier (drop_waiters gk l) = tier l" "ints (drop_waiters gk l) = ints l"
  by (simp_all add: drop_waiters_def elm_simps split: option.split)

text \<open>Reverting an entry on which nothing waits.\<close>

lemma ok_revert:
  assumes "ok E w" "ints (w_elm w) gk = []" "valid_cache_gpu (w_cache w) (snd gk)"
  shows "returns (ok (E - {gk})) (revert_gpu_entry d gk w)"
proof -
  let ?ge = "entry_of gk (w_elm w)"
  let ?f = "\<lambda>ge1. publish_gpu_state (fst gk) (snd gk) GAbsent 0 (set_entry gk ge1 (w_elm w))"
  note inv = tables_okD(1) [OF assms(1)]
  have ev: "returns (\<lambda>(b, c). cache_at gk (w_cache w) c)
      (if ge_tier ?ge \<in> {GTransferring, GReserved, GDraining} then evict (fst gk) (snd gk) (w_cache w) else Inr (False, w_cache w))"
    using evict_at [OF inv assms(3)] cache_at_refl [OF inv] by simp
  have step: "tables_ok (E - {gk}) (drop_waiters gk (?f ge1)) c"
    if "cache_at gk (w_cache w) c" "ge_tier ge1 = GAbsent" "interests ge1 = []" for c ge1
  proof -
    let ?l1 = "?f ge1"
    have l1: "tables_ok (E - {gk}) ?l1 c"
      using assms(1) that by (intro ok_entry [of E "w_elm w" "w_cache w" gk c GAbsent ?l1 "[]"]) (auto simp: elm_simps)
    have i: "ints ?l1 gk = []" using that(3) by (simp add: elm_simps)
    show ?thesis
    proof (rule ok_host [OF l1 drop_waiters_view hosts_drop_waiters])
      fix g assume a: "(fst gk, g) \<notin> E - {gk}" "ints ?l1 (fst gk, g) \<noteq> []"
      then have "g \<noteq> snd gk" using i by (cases gk) auto
      moreover have "may_wait (tier ?l1 (fst gk, g)) (hosts ?l1 (fst gk)) g"
        using tables_okD(3) [OF l1 a] by simp
      ultimately show "may_wait (tier ?l1 (fst gk, g)) ((hosts ?l1 (fst gk))\<lparr>gpu_waiters :=
          filter (\<lambda>p. pc_gpu p \<noteq> snd gk) (gpu_waiters (hosts ?l1 (fst gk)))\<rparr>) g"
        by (auto simp: may_wait_def)
    qed (use tables_okD(4) [OF l1] in auto)
  qed
  show ?thesis
    unfolding revert_gpu_entry_def Let_def
    by (rule returns_bind [OF ev]) (use assms(2) in \<open>auto split: prod.splits simp: ints_def intro!: step\<close>)
qed

lemma clear_view [elm_simps]: "ints (clear_interests gk l) = (ints l)(gk := [])" "hosts (clear_interests gk l) = hosts l"
  by (simp_all add: clear_interests_def Let_def elm_simps forget_fields) (simp add: hosts_def host_of_def forget_fields)

lemma ok_clear: "tables_ok E l c \<Longrightarrow> tables_ok (E - {gk}) (clear_interests gk l) c"
  by (rule ok_entry [of E l c gk c "tier l gk" _ "[]"]) (auto simp: elm_simps cache_at_refl dest: tables_okD)

lemma ok_complete:
  assumes "ok E w" "success \<or> valid_cache_gpu (w_cache w) (snd gk)"
  shows "returns (\<lambda>(cs, w'). ok (E - {gk}) w') (complete_interests d gk success w)"
proof -
  have c: "ok (E - {gk}) (on_elm (clear_interests gk) w)" using ok_clear [OF assms(1)] by simp
  have "returns (\<lambda>w'. ok (E - {gk}) w') (revert_gpu_entry d gk (on_elm (clear_interests gk) w))" if "\<not> success"
    using ok_revert [OF c, of gk d] assms(2) that by (simp add: elm_simps)
  then show ?thesis using c by (auto simp: complete_interests_def Let_def intro: returns_bind)
qed

lemma ok_pending [simp]: "tables_ok E (push_pending cs l) c = tables_ok E l c"
  by (rule tables_ok_cong) (simp_all add: push_pending_def)

lemma ok_fail:
  assumes "ok E w" "valid_cache_gpu (w_cache w) (snd gk)" shows "returns (ok (E - {gk})) (fail_interests d gk w)"
  unfolding fail_interests_def by (rule returns_bind [OF ok_complete [OF assms(1) disjI2 [OF assms(2)]]]) (auto split: prod.splits)

lemma ok_reserved:
  assumes "ok E w" "cache_at gk (w_cache w) c" "resident c gk"
  shows "ok (E - {gk}) (on_elm (\<lambda>l. put_entry gk ((entry_of gk l)\<lparr>ge_tier := GReserved\<rparr>) l) (w\<lparr>w_cache := c\<rparr>))"
proof -
  let ?l = "put_entry gk ((entry_of gk (w_elm w))\<lparr>ge_tier := GReserved\<rparr>) (w_elm w)"
  have "tables_ok (E - {gk}) ?l c"
    by (rule ok_entry [OF assms(1,2), where t = GReserved and ?is = "ints (w_elm w) gk"])
       (use assms(3) in \<open>auto simp: elm_simps, auto simp: ints_def\<close>)
  then show ?thesis by simp
qed

lemma cache_at_valid: "cache_at gk c c' \<Longrightarrow> valid_cache_gpu c' g = valid_cache_gpu c g"
  by (rule valid_cong) (rule cache_atD)

text \<open>The cache changed at an entry that is absent.\<close>

lemma ok_absent:
  assumes "tables_ok E l c" "cache_at gk c c'" "tier l gk = GAbsent" shows "tables_ok (insert gk E) l c'"
  by (rule ok_entry [OF assms(1,2), where t = GAbsent and ?is = "ints l gk"]) (use assms(3) in auto)

lemma ok_reserve_start:
  assumes "ok E w" "valid_cache_gpu (w_cache w) (snd gk)" "tier (w_elm w) gk = GAbsent"
  shows "returns (ok (E - {gk})) (reserve_and_start d gk z w)"
proof -
  note inv = tables_okD(1) [OF assms(1)]
  obtain a c where r: "reserve (fst gk) (snd gk) z False (w_cache w) = Inr (a, c)"
    "cache_at gk (w_cache w) c" "a \<noteq> None \<longrightarrow> resident c gk"
    using reserve_at [OF inv assms(2), of z False] by (auto simp: returns_def)
  show ?thesis
  proof (cases a)
    case None
    have "returns (ok (insert gk E - {gk})) (fail_interests d gk (w\<lparr>w_cache := c\<rparr>))"
      using ok_absent [OF assms(1) r(2) assms(3)] assms(2) r(2) by (intro ok_fail) (simp_all add: cache_at_valid)
    then show ?thesis using None r(1) by (simp add: reserve_and_start_def)
  next
    case (Some a')
    then show ?thesis
      using ok_try_start [OF ok_reserved [OF assms(1) r(2)], of d gk] r by (simp add: reserve_and_start_def)
  qed
qed

lemma add_waiter_view:
  "tier (add_waiter gk z l) = tier l" "ints (add_waiter gk z l) = ints l"
  "hosts (add_waiter gk z l) = (hosts l)(fst gk := (hosts l (fst gk))\<lparr>gpu_waiters := gpu_waiters (hosts l (fst gk)) @ [\<lparr>pc_gpu = snd gk, pc_zone = z\<rparr>]\<rparr>)"
  by (simp_all add: add_waiter_def Let_def elm_simps) (simp add: hosts_def)

lemma may_wait_more:
  "may_wait t he g \<Longrightarrow> he_tier he' = he_tier he \<Longrightarrow> set (gpu_waiters he) \<subseteq> set (gpu_waiters he') \<Longrightarrow> may_wait t he' g"
  by (auto simp: may_wait_def)

text \<open>Queueing behind a host read in flight.\<close>

lemma ok_add_waiter:
  assumes "tables_ok (insert gk E) l c" "valid_cache_gpu c (snd gk)" "tier l gk = GAbsent" "he_tier (hosts l (fst gk)) = HLoadingToRam"
  shows "tables_ok E (add_waiter gk z l) c"
proof (rule ok_host [OF assms(1) add_waiter_view])
  fix g assume a: "(fst gk, g) \<notin> E" "ints l (fst gk, g) \<noteq> []"
  show "may_wait (tier l (fst gk, g)) ((hosts l (fst gk))\<lparr>gpu_waiters := gpu_waiters (hosts l (fst gk)) @ [\<lparr>pc_gpu = snd gk, pc_zone = z\<rparr>]\<rparr>) g"
  proof (cases "g = snd gk")
    case True
    then show ?thesis using assms(3,4) by (simp add: may_wait_def)
  next
    case False
    then have "may_wait (tier l (fst gk, g)) (hosts l (fst gk)) g"
      using tables_okD(3) [OF assms(1), of "(fst gk, g)"] a by (cases gk) simp
    then show ?thesis by (rule may_wait_more) auto
  qed
qed (use assms(2) tables_okD(4) [OF assms(1)] in auto)

text \<open>A host entry that is not loading has no absent entry waiting on it, so its tier may change.\<close>

lemma ok_idle_host:
  assumes "tables_ok E l c" "he_tier (hosts l k) \<noteq> HLoadingToRam" "gpu_waiters he = gpu_waiters (hosts l k)"
    and "tier l' = tier l" "ints l' = ints l" "hosts l' = (hosts l)(k := he)"
  shows "tables_ok E l' c"
proof (rule ok_host [OF assms(1,4-6)])
  fix g assume "(k, g) \<notin> E" "ints l (k, g) \<noteq> []"
  then show "may_wait (tier l (k, g)) he g"
    using tables_okD(3) [OF assms(1), of "(k, g)"] assms(2) by (auto simp: may_wait_def)
qed (use tables_okD(4) [OF assms(1)] assms(3) in auto)

lemma ok_start_chain:
  assumes o: "ok (insert gk E) w" and v: "valid_cache_gpu (w_cache w) (snd gk)" and t: "tier (w_elm w) gk = GAbsent" and e: "gk \<notin> E"
  shows "returns (ok E) (start_chain d gk z w)"
proof -
  have E: "insert gk E - {gk} = E" using e by simp
  note R = ok_reserve_start [where E = "insert gk E" and gk = gk and d = d and z = z, unfolded E]
  note F = ok_fail [where E = "insert gk E" and gk = gk and d = d, unfolded E]
  show ?thesis
  proof (cases "he_tier (host_of (fst gk) (w_elm w))")
    case HWarm
    then show ?thesis using R [OF o v t] by (simp add: start_chain_def)
  next
    case HLoadingToRam
    then show ?thesis using ok_add_waiter [OF o v t] by (simp add: start_chain_def hosts_def)
  next
    case cold: HCold
    show ?thesis
    proof (cases "nvme_tier d")
      case None
      then show ?thesis using cold F [OF o v] by (simp add: start_chain_def)
    next
      case nv: (Some nv)
      obtain tk x where rd: "read_expert nv (fst gk) (snd gk) (w_sub w) = (tk, x)" by fastforce
      note unf = start_chain_def cold nv rd
      have ox: "ok (insert gk E) (w\<lparr>w_sub := x\<rparr>)" using o by simp
      have idle: "tables_ok (insert gk E) l' (w_cache w)"
        if "gpu_waiters he = gpu_waiters (hosts (w_elm w) (fst gk))" "tier l' = tier (w_elm w)" "ints l' = ints (w_elm w)"
          "hosts l' = (hosts (w_elm w))(fst gk := he)" for he l'
        using ok_idle_host [OF o _ that] cold by (simp add: hosts_def)
      consider "tk = None" | "tk = Some 0" | tok where "tk = Some tok" "tok \<noteq> 0" by (metis option.exhaust)
      then show ?thesis
      proof cases
        case 1
        then show ?thesis using F [OF ox] v by (simp add: unf)
      next
        case 2
        let ?l1 = "publish_host_state d x (fst gk) HWarm (set_host (fst gk) ((host_of (fst gk) (w_elm w))\<lparr>he_tier := HWarm\<rparr>) (w_elm w))"
        have "tables_ok (insert gk E) ?l1 (w_cache w)"
          by (rule idle [where he = "(host_of (fst gk) (w_elm w))\<lparr>he_tier := HWarm\<rparr>"]) (simp_all add: elm_simps, simp_all add: hosts_def)
        then show ?thesis
          using 2 R [of "w\<lparr>w_sub := x, w_elm := ?l1\<rparr>"] v t by (simp add: unf elm_simps)
      next
        case (3 tok)
        let ?l1 = "publish_host_state d x (fst gk) HLoadingToRam (set_host (fst gk) ((host_of (fst gk) (w_elm w))\<lparr>he_tier := HLoadingToRam\<rparr>) (w_elm w))"
        let ?l2 = "set_host (fst gk) ((host_of (fst gk) ?l1)\<lparr>nvme_token := tok\<rparr>) ?l1"
        have "tables_ok (insert gk E) ?l2 (w_cache w)"
          by (rule idle [where he = "(host_of (fst gk) ?l1)\<lparr>nvme_token := tok\<rparr>"])
             (simp_all add: elm_simps, simp_all add: hosts_def)
        then have "tables_ok E (add_waiter gk z ?l2) (w_cache w)"
          by (rule ok_add_waiter) (simp_all add: v t elm_simps)
        then show ?thesis using 3 by (simp add: unf Let_def)
      qed
    qed
  qed
qed

lemma ok_begin_chain:
  assumes "ok {} w" "valid_cache_gpu (w_cache w) (snd gk)" "tier (w_elm w) gk = GAbsent"
  shows "returns (ok {}) (begin_chain d gk i prio delay w)"
proof -
  let ?ge = "(entry_of gk (w_elm w))\<lparr>interests := interests (entry_of gk (w_elm w)) @ [i], ge_priority := prio, delay_us := delay\<rparr>"
  let ?l = "set_entry gk ?ge (w_elm w)"
  have "tables_ok {gk} ?l (w_cache w)"
    by (rule ok_entry [OF assms(1) cache_at_refl [OF tables_okD(1) [OF assms(1)]], where t = GAbsent and ?is = "interests ?ge"])
       (use assms(3) in \<open>auto simp: elm_simps tier_def\<close>)
  then show ?thesis
    using ok_start_chain [of gk "{}" "w\<lparr>w_elm := ?l\<rparr>" d "in_zone i"] assms by (simp add: begin_chain_def Let_def elm_simps tier_def)
qed

lemma open_request_view:
  "tier (w_elm (open_request d gk seq w)) = tier (w_elm w)" "ints (w_elm (open_request d gk seq w)) = ints (w_elm w)"
  by (simp_all add: tier_def ints_def opened)

lemma ok_open:
  assumes "ok {} w" shows "ok {} (open_request d gk seq w)"
proof -
  let ?he = "host_of (fst gk) (w_elm w)" and ?l' = "w_elm (open_request d gk seq w)"
  let ?he1 = "if he_tier ?he = HCold \<and> gpu_waiters ?he = [] \<and> nvme_token ?he = 0
              then ?he\<lparr>he_tier := compute_host_tier d (w_sub w) (fst gk)\<rparr> else ?he"
  have h: "hosts ?l' = (hosts (w_elm w))(fst gk := ?he1)"
    by (simp add: open_request_def Let_def hosts_def elm_simps fun_eq_iff)
  show ?thesis
  proof (cases "he_tier ?he = HCold \<and> gpu_waiters ?he = [] \<and> nvme_token ?he = 0")
    case True
    have "tables_ok {} ?l' (w_cache w)"
      by (rule ok_idle_host [OF assms _ _ open_request_view h]) (use True in \<open>simp_all add: hosts_def\<close>)
    then show ?thesis by (simp add: opened)
  next
    case False
    then have "hosts ?l' = hosts (w_elm w)" using h by (auto simp: hosts_def fun_eq_iff)
    then have "tables_ok {} ?l' (w_cache w) = ok {} w" by (rule tables_ok_cong [OF open_request_view])
    then show ?thesis using assms by (simp add: opened)
  qed
qed

lemma ok_put_entry:
  assumes "tables_ok E l c" "ge_tier ge = tier l gk" "interests ge = [] \<or> tier l gk = GReserved \<or> tier l gk = GTransferring"
  shows "tables_ok E (put_entry gk ge l) c"
  by (rule ok_entry [OF assms(1) cache_at_refl [OF tables_okD(1) [OF assms(1)]], where t = "tier l gk" and ?is = "interests ge"])
     (use assms tables_okD(2) [OF assms(1), of gk] in \<open>auto simp: elm_simps\<close>)

text \<open>A request on a valid GPU: the token is returned, and the invariant kept.\<close>

lemma ok_ensure:
  assumes "ok {} w" "valid_cache_gpu (w_cache w) gpu"
  shows "returns (\<lambda>(tok, w'). ok {} w') (ensure_resident d k gpu z seq prio delay w)"
proof -
  let ?gk = "(k, gpu)" and ?w1 = "open_request d (k, gpu) seq w"
  let ?i = "\<lparr>in_token = next_token (w_elm w), in_cmd_seq = seq, in_zone = z\<rparr>"
  note w1 = ok_open [OF assms(1), of d ?gk seq]
  have v: "valid_cache_gpu (w_cache ?w1) gpu" using assms(2) by (simp add: opened)
  define t where "t = ge_tier (entry_of ?gk (w_elm ?w1))"
  have tt: "tier (w_elm ?w1) ?gk = t" by (simp add: t_def tier_def)
  have "returns (ok {})
      (case t of GAbsent \<Rightarrow> begin_chain d ?gk ?i prio delay ?w1
         | GReserved \<Rightarrow> Inr (join_reserved d ?gk ?i prio ?w1)
         | GTransferring \<Rightarrow> Inr (join_transfer d ?gk ?i prio ?w1)
         | GDraining \<Rightarrow> Inr (answer_now ?gk ?i False ?w1)
         | _ \<Rightarrow> (if lookup k gpu (w_cache ?w1) = None then begin_chain d ?gk ?i prio delay (on_elm (heal_entry ?gk) ?w1)
                 else Inr (answer_now ?gk ?i True ?w1)))"
  proof -
    have a: "ok {} (answer_now ?gk ?i b ?w1)" for b using w1 by (simp add: answer_now_def)
    have stale: "returns (ok {}) (if lookup k gpu (w_cache ?w1) = None then begin_chain d ?gk ?i prio delay (on_elm (heal_entry ?gk) ?w1)
                 else Inr (answer_now ?gk ?i True ?w1))" if "t \<noteq> GAbsent"
      using a tables_okD(2) [OF w1, of ?gk] lookup_resident_iff [of ?gk "w_cache ?w1"] that tt by auto
    have j: "ok {} (join_transfer d ?gk ?i prio ?w1)" if "t = GTransferring"
      using that tt w1 by (auto simp: join_transfer_def Let_def tier_def intro!: ok_put_entry)
    have r: "ok {} (join_reserved d ?gk ?i prio ?w1)" if "t = GReserved"
      using that tt w1 by (auto simp: join_reserved_def Let_def tier_def intro!: ok_try_start ok_put_entry)
    show ?thesis using ok_begin_chain [OF w1, of ?gk d ?i prio delay] v tt a stale j r by (cases t) simp_all
  qed
  then show ?thesis unfolding ensure_resident_def Let_def t_def by (rule returns_bind) simp
qed

lemma valid_evict: "valid_cache_gpu c g \<Longrightarrow> cache_inv c \<Longrightarrow> returns (\<lambda>(ok, c'). cache_at (k, g) c c') (evict k g c)"
  using evict_at [of c "(k, g)"] by simp

lemma ok_evict:
  assumes "ok {} w" "valid_cache_gpu (w_cache w) gpu"
  shows "returns (\<lambda>(b, w'). ok {} w' \<and> gpus_of (w_cache w') = gpus_of (w_cache w)) (elm_evict k gpu w)"
proof -
  note inv = tables_okD(1) [OF assms(1)]
  obtain b c where e: "evict k gpu (w_cache w) = Inr (b, c)" "cache_at (k, gpu) (w_cache w) c"
    using valid_evict [OF assms(2) inv, of k] by (auto simp: returns_def)
  have no: "c = w_cache w" if "\<not> b" using evict_refused [of k gpu "w_cache w" c] e(1) that by simp
  show ?thesis
  proof (cases "gpu_entries (w_elm w) (k, gpu)")
    case None
    then have n: "tier (w_elm w) (k, gpu) = GAbsent" "ints (w_elm w) (k, gpu) = []"
      by (simp_all add: tier_def ints_def entry_of_def new_gpu_entry_def)
    have "tables_ok {} (w_elm w) c"
      by (rule ok_entry [OF assms(1) e(2), where t = GAbsent and ?is = "[]"]) (use n in auto)
    then show ?thesis using None e cache_atD(2) [OF e(2)] by (simp add: elm_evict_def request_evict_def)
  next
    case (Some ge)
    let ?l = "publish_gpu_state k gpu GAbsent 0 (set_entry (k, gpu) (ge\<lparr>ge_tier := GAbsent, transfer_token := 0, host_buf_ref := None\<rparr>) (w_elm w))"
    have "tables_ok {} ?l c" if "interests ge = []"
      by (rule ok_entry [OF assms(1) e(2), where t = GAbsent and ?is = "[]"]) (use that in \<open>auto simp: elm_simps\<close>)
    then show ?thesis
      using Some e no assms(1) cache_atD(2) [OF e(2)]
      by (cases b) (auto simp: elm_evict_def request_evict_def set_entry_def)
  qed
qed

lemma ok_drain:
  assumes "ok {} w" shows "ok {} (snd (request_drain d k gpu seq w))"
proof -
  have "tables_ok {} (publish_gpu_state k gpu GDraining 0 (set_entry (k, gpu) (ge\<lparr>ge_tier := GDraining, transfer_token := tok,
      drain_cmd_seq := seq, drain_host_buf := buf\<rparr>) (w_elm w))) (w_cache w)"
    if "gpu_entries (w_elm w) (k, gpu) = Some ge" "interests ge = []" "lookup k gpu (w_cache w) \<noteq> None" for ge tok buf
    by (rule ok_entry [OF assms cache_at_refl [OF tables_okD(1) [OF assms]], where t = GDraining and ?is = "[]" and gk = "(k, gpu)"])
       (use that lookup_resident_iff [of "(k, gpu)" "w_cache w"] in \<open>auto simp: elm_simps\<close>)
  then show ?thesis using assms by (auto simp: request_drain_def split: option.split prod.split)
qed

lemma take_view:
  "ints (retract_completion t (take_interest gk t l)) gk' = (if gk' = gk
     then (case find (\<lambda>i. in_token i = t) (ints l gk) of None \<Rightarrow> ints l gk | Some i \<Rightarrow> remove1 i (ints l gk)) else ints l gk')"
  "tier (retract_completion t (take_interest gk t l)) = tier l" "hosts (retract_completion t (take_interest gk t l)) = hosts l"
  by (simp_all add: retract_completion_def take_interest_def Let_def erase_seq_def elm_simps ints_def tier_def fun_eq_iff
      hosts_def split: option.split)

lemma ok_take:
  assumes "tables_ok {} l c" shows "tables_ok {} (retract_completion t (take_interest gk t l)) c"
proof (rule tables_okI)
  fix h assume "ints (retract_completion t (take_interest gk t l)) h \<noteq> []"
  then have "ints l h \<noteq> []" by (auto simp: take_view split: if_splits option.splits)
  then show "may_wait (tier (retract_completion t (take_interest gk t l)) h) (hosts (retract_completion t (take_interest gk t l)) (fst h)) (snd h)"
    using tables_okD(3) [OF assms, of h] by (simp add: take_view)
qed (use tables_okD(1,2,4) [OF assms] in \<open>auto simp: take_view\<close>)

lemma ok_publish [simp]: "tables_ok E (publish_gpu_state k g t n l) c = tables_ok E l c"
  by (rule tables_ok_cong) (simp_all add: elm_simps)

lemma ok_cancel:
  assumes "ok {} w" "\<And>gk. token_index (w_elm w) t = Some gk \<Longrightarrow> valid_cache_gpu (w_cache w) (snd gk)"
  shows "returns (ok {}) (cancel d t w)"
proof (cases "token_index (w_elm w) t")
  case None
  then show ?thesis using assms(1) by (simp add: cancel_def)
next
  case (Some gk)
  let ?l1 = "(w_elm w)\<lparr>token_index := (token_index (w_elm w))(t := None)\<rparr>"
  let ?l2 = "retract_completion t (take_interest gk t ?l1)"
  have o1: "tables_ok {} ?l1 (w_cache w)" using assms(1) tables_ok_cong [of ?l1 "w_elm w" "{}" "w_cache w"] by simp
  note o2 = ok_take [OF o1, of t gk]
  have "returns (ok {}) (revert_gpu_entry d gk (w\<lparr>w_elm := ?l2\<rparr>))" if "interests (entry_of gk ?l2) = []"
    using ok_revert [of "{}" "w\<lparr>w_elm := ?l2\<rparr>" gk d] o2 assms(2) [OF Some] that by (simp add: ints_def)
  then show ?thesis using Some o1 o2 by (simp add: cancel_def Let_def)
qed

lemma retag_at:
  assumes "cache_inv c" "valid_cache_gpu c g" "in_elastic_zone k g c" "mv = cache_promote \<or> mv = cache_demote"
  shows "returns (\<lambda>(b, c'). cache_inv c' \<and> gpus_of c' = gpus_of c \<and> (\<forall>h. resident c' h = resident c h)) (mv k g c)"
proof -
  have "\<exists>b c'. mv k g c = Inr (b, c') \<and> gpus_of c' = gpus_of c \<and> (\<forall>h. resident c' h = resident c h)"
    using assms(2,4)
    by (auto simp: cache_promote_def cache_demote_def gpu_state_def resident_put find_upd split: option.split)
       (auto simp: resident_def is_resident_def)
  then obtain b c' where m: "mv k g c = Inr (b, c')" "gpus_of c' = gpus_of c" "\<forall>h. resident c' h = resident c h" by blast
  have "cache_inv c'" using assms(4) retag_inv [OF assms(1,3)] m(1) by auto
  then show ?thesis using m by simp
qed

lemma ok_move:
  assumes "ok {} w" "valid_cache_gpu (w_cache w) g" "in_elastic_zone k g (w_cache w)" "mv = cache_promote \<or> mv = cache_demote"
  shows "returns (\<lambda>(b, w'). ok {} w') (elm_move mv k g w)"
proof -
  obtain b c where m: "mv k g (w_cache w) = Inr (b, c)" "cache_inv c" "gpus_of c = gpus_of (w_cache w)"
    "\<forall>h. resident c h = resident (w_cache w) h"
    using retag_at [OF tables_okD(1) [OF assms(1)] assms(2-4)] by (auto simp: returns_def)
  have "tables_ok {} (w_elm w) c"
    by (rule tables_okI) (use tables_okD [OF assms(1)] m(2,4) valid_cong [OF m(3)] in auto)
  then show ?thesis using assms(1) m(1) by (auto simp: elm_move_def split: option.split)
qed

section \<open>Poll\<close>

text \<open>The result of a poll on a state with the invariant.\<close>

abbreviation okp :: "gpu_key set \<Rightarrow> poll_result \<times> 'x world \<Rightarrow> bool" where
  "okp E s \<equiv> ok E (snd s)"

lemma ok_complete_into:
  assumes "okp E s" "b \<or> valid_cache_gpu (w_cache (snd s)) (snd gk)"
  shows "returns (okp (E - {gk})) (complete_into d gk b s)"
  using ok_complete [OF assms, of d] by (auto simp: complete_into_def returns_def split: prod.splits)

lemma touch_view: "tier (touch_host k l) = tier l" "ints (touch_host k l) = ints l" "hosts (touch_host k l) = hosts l"
  by (simp_all add: touch_host_def elm_simps) (simp add: hosts_def fun_eq_iff)

lemma ok_redrive: "ok E w \<Longrightarrow> ok E (redrive d gk w)"
  by (auto simp: redrive_def tables_ok_cong [OF touch_view] intro!: ok_try_start)

lemma tier_at_Some: "tier_at gk l = Some t \<Longrightarrow> tier l gk = t"
  by (auto simp: tier_at_def tier_def entry_of_def)

lemma reserved_valid: "tables_ok E l c \<Longrightarrow> tier l gk \<noteq> GAbsent \<Longrightarrow> valid_cache_gpu c (snd gk)"
  by (rule resident_valid) (rule tables_okD)

lemma ok_wake:
  assumes "okp {} s" shows "returns (okp {}) (wake_arena_waiter d b gk s)"
proof (cases "\<not> b \<and> tier_at gk (w_elm (snd s)) = Some GReserved")
  case True
  then have "valid_cache_gpu (w_cache (snd s)) (snd gk)"
    using reserved_valid [OF assms, of gk] tier_at_Some [of gk] by simp
  then show ?thesis
    using True ok_complete_into [OF assms, of False gk d] by (auto simp: wake_arena_waiter_def split: prod.splits)
next
  case False
  then show ?thesis using assms ok_redrive [OF assms, of d gk] by (auto simp: wake_arena_waiter_def split: prod.splits)
qed

lemma ok_arena_load:
  assumes "okp {} s" shows "returns (okp {}) (arena_load_done d ar lc s)"
proof -
  obtain r w where s: "s = (r, w)" by fastforce
  let ?w = "\<lambda>x. (w\<lparr>w_sub := x\<rparr>)\<lparr>w_elm := (w_elm w)\<lparr>arena_load_waiters := (arena_load_waiters (w_elm w))(al_key lc := None)\<rparr>\<rparr>"
  have "ok {} (?w x)" for x using assms tables_ok_cong [of "w_elm (?w x)" "w_elm w"] by (simp add: s)
  then have "returns (okp {}) (rfold (wake_arena_waiter d b) ws (r, ?w x))" for ws x b
    by (intro returns_rfold) (auto intro: ok_wake)
  then show ?thesis using assms by (simp add: s arena_load_done_def Let_def split: option.split)
qed

lemma ok_process:
  assumes "okp {} s" shows "returns (okp {}) (process_arena_loads d s)"
proof -
  have "returns (okp {}) (rfold (arena_load_done d ar) loads (fst s, (snd s)\<lparr>w_sub := x\<rparr>))" for ar loads x
    using assms by (intro returns_rfold) (auto intro: ok_arena_load)
  then show ?thesis using assms by (auto simp: process_arena_loads_def split: option.split prod.split)
qed

text \<open>What an operation on one entry leaves alone: the other tiers, and the host tiers.\<close>

definition frame :: "gpu_key \<Rightarrow> lifecycle \<Rightarrow> lifecycle \<Rightarrow> bool" where
  "frame gk l l' \<longleftrightarrow> (\<forall>h. h \<noteq> gk \<longrightarrow> tier l' h = tier l h) \<and> (\<forall>k. he_tier (hosts l' k) = he_tier (hosts l k))"

lemma frameI: "tier l' = (tier l)(gk := t) \<Longrightarrow> (\<And>k. he_tier (hosts l' k) = he_tier (hosts l k)) \<Longrightarrow> frame gk l l'"
  by (simp add: frame_def)

lemma frame_refl: "tier l' = tier l \<Longrightarrow> hosts l' = hosts l \<Longrightarrow> frame gk l l'"
  by (simp add: frame_def)

lemma frame_trans: "frame gk l l1 \<Longrightarrow> frame gk l1 l2 \<Longrightarrow> frame gk l l2"
  unfolding frame_def by simp

lemma frame_try_start: "frame gk (w_elm w) (w_elm (snd (try_start_h2d d gk w)))"
proof (cases rule: try_start_cases [of d gk w])
  case (started x hs tok)
  then show ?thesis by (auto simp: started_view intro!: frameI [where t = GTransferring])
next
  case (joined x hs)
  then show ?thesis by (auto simp: joined_view intro!: frameI [where t = GTransferring])
qed (auto intro!: frame_refl simp: defer_to_arena_def defer_to_slot_def Let_def)

lemma frame_revert: "revert_gpu_entry d gk w = Inr w' \<Longrightarrow> frame gk (w_elm w) (w_elm w')"
  by (auto simp: revert_gpu_entry_def Let_def res_simps elm_simps hosts_drop_waiters intro!: frameI [where t = GAbsent])

lemma frame_complete_into:
  assumes "complete_into d gk b s = Inr s'" shows "frame gk (w_elm (snd s)) (w_elm (snd s'))"
proof -
  obtain r w where s: "s = (r, w)" by fastforce
  have c: "frame gk (w_elm w) (clear_interests gk (w_elm w))" by (rule frame_refl) (simp_all add: elm_simps)
  show ?thesis
    using assms c frame_trans [OF c frame_revert [of d gk "on_elm (clear_interests gk) w", simplified]]
    by (auto simp: s complete_into_def complete_interests_def Let_def res_simps split: if_splits)
qed

lemma frame_put: "frame gk l (put_entry gk ge l)" "frame gk l (set_entry gk ge l)"
  by (rule frameI; simp add: elm_simps)+

text \<open>The absent entries of an expert on some GPUs.\<close>

definition absent_of :: "expert_key \<Rightarrow> int set \<Rightarrow> lifecycle \<Rightarrow> gpu_key set" where
  "absent_of k G l = {h. fst h = k \<and> snd h \<in> G \<and> tier l h = GAbsent}"

text \<open>A waiter of a finished host read: its chain starts, or its requests fail.\<close>

lemma ok_chain_waiter:
  assumes o: "okp E s" and v: "valid_cache_gpu (w_cache (snd s)) (pc_gpu p)"
    and e: "tier (w_elm (snd s)) (k, pc_gpu p) \<noteq> GAbsent \<Longrightarrow> (k, pc_gpu p) \<notin> E"
  shows "returns (\<lambda>s'. okp (E - {(k, pc_gpu p)}) s' \<and> frame (k, pc_gpu p) (w_elm (snd s)) (w_elm (snd s'))) (chain_waiter d k p s)"
proof -
  obtain r w0 where s: "s = (r, w0)" by fastforce
  let ?gk = "(k, pc_gpu p)"
  let ?w = "on_elm (\<lambda>l. set_entry ?gk (entry_of ?gk l) l) w0"
  have view: "tier (w_elm ?w) = tier (w_elm w0)" "ints (w_elm ?w) = ints (w_elm w0)" "hosts (w_elm ?w) = hosts (w_elm w0)"
    by (auto simp: elm_simps tier_def ints_def)
  have w: "ok E ?w" using o tables_ok_cong [OF view, of E "w_cache w0"] by (simp add: s)
  have f0: "frame ?gk (w_elm w0) (w_elm ?w)" by (simp add: frame_put)
  have vw: "valid_cache_gpu (w_cache ?w) (snd ?gk)" using v by (simp add: s)
  show ?thesis
  proof (cases "tier (w_elm w0) ?gk = GAbsent")
    case True
    then have t: "ge_tier (entry_of ?gk (w_elm ?w)) = GAbsent" by (simp add: tier_def elm_simps)
    obtain a c where c: "reserve k (pc_gpu p) (pc_zone p) False (w_cache ?w) = Inr (a, c)" "cache_at ?gk (w_cache ?w) c"
      "a \<noteq> None \<longrightarrow> resident c ?gk"
      using reserve_at [OF tables_okD(1) [OF w] vw, of "pc_zone p" False] by (auto simp: returns_def)
    show ?thesis
    proof (cases a)
      case None
      let ?s = "(r, ?w\<lparr>w_cache := c\<rparr>)"
      have "okp (insert ?gk E) ?s" using ok_absent [OF w c(2)] True by (simp add: elm_simps tier_def)
      then have "returns (okp (insert ?gk E - {?gk})) (complete_into d ?gk False ?s)"
        by (rule ok_complete_into) (use vw cache_at_valid [OF c(2)] in simp)
      then show ?thesis
        using None c(1) t frame_complete_into [of d ?gk False ?s] frame_trans [OF f0]
        by (auto simp: s chain_waiter_def Let_def returns_def)
    next
      case (Some a')
      let ?w2 = "on_elm (\<lambda>l. put_entry ?gk ((entry_of ?gk l)\<lparr>ge_tier := GReserved\<rparr>) l) (?w\<lparr>w_cache := c\<rparr>)"
      have "ok (E - {?gk}) (snd (try_start_h2d d ?gk ?w2))"
        using ok_try_start [OF ok_reserved [OF w c(2)]] c(3) Some by simp
      moreover have "frame ?gk (w_elm w0) (w_elm ?w2)" using frame_trans [OF f0 frame_put(1)] by simp
      then have "frame ?gk (w_elm w0) (w_elm (snd (try_start_h2d d ?gk ?w2)))" by (rule frame_trans [OF _ frame_try_start])
      ultimately show ?thesis using Some c(1) t by (simp add: s chain_waiter_def Let_def)
    qed
  next
    case False
    then have t: "ge_tier (entry_of ?gk (w_elm ?w)) \<noteq> GAbsent" by (simp add: tier_def elm_simps)
    have E: "E - {?gk} = E" using e False by (simp add: s)
    have "ok E (snd (try_start_h2d d ?gk ?w))" "frame ?gk (w_elm w0) (w_elm (snd (try_start_h2d d ?gk ?w)))"
      using ok_try_start [OF w] frame_trans [OF f0 frame_try_start] by auto
    then show ?thesis
      using t w f0 unfolding E by (cases "ge_tier (entry_of ?gk (w_elm ?w))") (simp_all add: s chain_waiter_def Let_def)
  qed
qed

lemma ok_fail_waiter:
  assumes o: "okp E s" and v: "valid_cache_gpu (w_cache (snd s)) (pc_gpu p)"
  shows "returns (\<lambda>s'. okp (E - {(k, pc_gpu p)}) s' \<and> frame (k, pc_gpu p) (w_elm (snd s)) (w_elm (snd s'))) (fail_waiter d k p s)"
proof (cases "gpu_entries (w_elm (snd s)) (k, pc_gpu p) = None")
  case True
  then have "ints (w_elm (snd s)) (k, pc_gpu p) = []" by (simp add: ints_def entry_of_def new_gpu_entry_def)
  then have "okp (E - {(k, pc_gpu p)}) s"
    by (intro tables_okI) (use tables_okD [OF o] in auto)
  then show ?thesis using True by (simp add: fail_waiter_def frame_refl)
next
  case False
  then show ?thesis
    using ok_complete_into [OF o, of False "(k, pc_gpu p)" d] v frame_complete_into [of d "(k, pc_gpu p)" False s]
    by (auto simp: fail_waiter_def returns_def)
qed

section \<open>Completions\<close>

lemma ok_waiter_loop:
  fixes s :: "poll_result \<times> 'x world"
  assumes o: "okp (absent_of k (pc_gpu ` set (gpu_waiters (hosts (w_elm (snd s)) k))) (w_elm (snd s))) s"
    and t: "he_tier (hosts (w_elm (snd s)) k) \<noteq> HLoadingToRam"
    and body: "\<And>E p s. okp E s \<Longrightarrow> valid_cache_gpu (w_cache (snd s)) (pc_gpu p)
        \<Longrightarrow> (tier (w_elm (snd s)) (k, pc_gpu p) \<noteq> GAbsent \<Longrightarrow> (k, pc_gpu p) \<notin> E)
        \<Longrightarrow> returns (\<lambda>s'. okp (E - {(k, pc_gpu p)}) s' \<and> frame (k, pc_gpu p) (w_elm (snd s)) (w_elm (snd s'))) (body p s)"
  shows "lands (\<lambda>s'. okp {} s' \<and> he_tier (hosts (w_elm (snd s')) k) \<noteq> HLoadingToRam) (waiter_loop k body s)"
proof -
  let ?ws = "gpu_waiters (hosts (w_elm (snd s)) k)"
  let ?J = "\<lambda>(ys :: pending_chain list) (s' :: poll_result \<times> 'x world). okp (absent_of k (pc_gpu ` set ys) (w_elm (snd s'))) s'
              \<and> he_tier (hosts (w_elm (snd s')) k) \<noteq> HLoadingToRam \<and> gpu_waiters (hosts (w_elm (snd s')) k) = ?ws"
  have step: "lands (?J ys) (rbind (body p s') (\<lambda>s''. if gpu_waiters (host_of k (w_elm (snd s''))) = ?ws then Inr s'' else Inl UndefinedBehaviour))"
    if J: "?J (p # ys) s'" and p: "p \<in> set ?ws" for p ys s'
  proof -
    let ?gk = "(k, pc_gpu p)" and ?E = "absent_of k (pc_gpu ` set (p # ys)) (w_elm (snd s'))"
    have v: "valid_cache_gpu (w_cache (snd s')) (pc_gpu p)" using J p tables_okD(4) [of ?E "w_elm (snd s')" "w_cache (snd s')" p k] by simp
    have b: "returns (\<lambda>s''. okp (?E - {?gk}) s'' \<and> frame ?gk (w_elm (snd s')) (w_elm (snd s''))) (body p s')"
      using J by (intro body v) (auto simp: absent_of_def)
    have e: "okp (absent_of k (pc_gpu ` set ys) (w_elm (snd s''))) s'' \<and> he_tier (hosts (w_elm (snd s'')) k) \<noteq> HLoadingToRam"
      if s'': "okp (?E - {?gk}) s''" "frame ?gk (w_elm (snd s')) (w_elm (snd s''))" for s''
    proof -
      have "?E - {?gk} \<subseteq> absent_of k (pc_gpu ` set ys) (w_elm (snd s''))"
        using s''(2) by (auto simp: absent_of_def frame_def)
      then have "okp (absent_of k (pc_gpu ` set ys) (w_elm (snd s''))) s''" by (rule tables_ok_mono [OF s''(1)])
      then show ?thesis using s''(2) J by (simp add: frame_def)
    qed
    show ?thesis by (rule lands_bind [OF returns_lands [OF b]]) (use e in \<open>auto simp: hosts_def\<close>)
  qed
  have "lands (?J []) (rfold (\<lambda>p s. rbind (body p s) (\<lambda>s'. if gpu_waiters (host_of k (w_elm (snd s'))) = ?ws then Inr s' else Inl UndefinedBehaviour)) ?ws s)"
  proof (rule lands_rfold [where I = ?J and xs = ?ws])
    show "?J ?ws s" using o t by simp
  qed (rule step)
  then have "lands (?J []) (waiter_loop k body s)" by (simp add: waiter_loop_def Let_def hosts_def)
  then show ?thesis by (rule lands_mono) (simp add: absent_of_def)
qed

lemma set_host_tier_view:
  "tier (w_elm (set_host_tier d k t w)) = tier (w_elm w)" "ints (w_elm (set_host_tier d k t w)) = ints (w_elm w)"
  "hosts (w_elm (set_host_tier d k t w)) = (hosts (w_elm w))(k := (hosts (w_elm w) k)\<lparr>he_tier := t, nvme_token := 0\<rparr>)"
  "w_cache (set_host_tier d k t w) = w_cache w"
  by (simp_all add: set_host_tier_def elm_simps) (simp add: hosts_def)

lemma clear_waiters_view:
  "tier (clear_waiters k l) = tier l" "ints (clear_waiters k l) = ints l"
  "hosts (clear_waiters k l) = (hosts l)(k := (hosts l k)\<lparr>gpu_waiters := []\<rparr>)"
  by (simp_all add: clear_waiters_def elm_simps) (simp add: hosts_def)

lemma ok_clear_waiters:
  assumes "tables_ok {} l c" "he_tier (hosts l k) \<noteq> HLoadingToRam" shows "tables_ok {} (clear_waiters k l) c"
proof (rule ok_host [OF assms(1) clear_waiters_view])
  fix g assume "ints l (k, g) \<noteq> []"
  then show "may_wait (tier l (k, g)) ((hosts l k)\<lparr>gpu_waiters := []\<rparr>) g"
    using tables_okD(3) [OF assms(1), of "(k, g)"] assms(2) by (auto simp: may_wait_def)
qed simp_all

lemma ok_nvme:
  assumes "okp {} s" shows "lands (okp {}) (nvme_done d nc s)"
proof -
  obtain r w where s: "s = (r, w)" by fastforce
  let ?k = "nc_key nc" and ?t = "if nc_success nc then HWarm else HCold"
  let ?w = "set_host_tier d ?k ?t w" and ?body = "(if nc_success nc then chain_waiter else fail_waiter) d ?k"
  have body: "returns (\<lambda>s'. okp (E - {(?k, pc_gpu p)}) s' \<and> frame (?k, pc_gpu p) (w_elm (snd s)) (w_elm (snd s'))) (?body p s)"
    if "okp E s" "valid_cache_gpu (w_cache (snd s)) (pc_gpu p)"
      "tier (w_elm (snd s)) (?k, pc_gpu p) \<noteq> GAbsent \<Longrightarrow> (?k, pc_gpu p) \<notin> E" for E p and s :: "poll_result \<times> 'a world"
    using ok_chain_waiter [OF that, of d] ok_fail_waiter [OF that(1,2), of ?k d] by simp
  let ?ws = "gpu_waiters (hosts (w_elm w) ?k)"
  have start: "tables_ok (absent_of ?k (pc_gpu ` set ?ws) (w_elm w)) (w_elm ?w) (w_cache w)"
  proof (rule ok_host [OF _ set_host_tier_view(1-3)])
    show "tables_ok {} (w_elm w) (w_cache w)" using assms by (simp add: s)
    fix g assume "(?k, g) \<notin> absent_of ?k (pc_gpu ` set ?ws) (w_elm w)" "ints (w_elm w) (?k, g) \<noteq> []"
    then show "may_wait (tier (w_elm w) (?k, g)) ((hosts (w_elm w) ?k)\<lparr>he_tier := ?t, nvme_token := 0\<rparr>) g"
      using tables_okD(3) [of "{}" "w_elm w" "w_cache w" "(?k, g)"] assms by (auto simp: s may_wait_def absent_of_def)
  qed (use tables_okD(4) [of "{}" "w_elm w" "w_cache w"] assms in \<open>auto simp: s\<close>)
  have loop: "lands (\<lambda>s'. okp {} s' \<and> he_tier (hosts (w_elm (snd s')) ?k) \<noteq> HLoadingToRam) (waiter_loop ?k ?body (r, ?w))"
    by (rule ok_waiter_loop [OF _ _ body]) (use start in \<open>simp_all add: set_host_tier_view absent_of_def\<close>)
  have "lands (okp {}) (rbind (waiter_loop ?k ?body (r, ?w)) (\<lambda>(r1, w1). Inr (r1, on_elm (clear_waiters ?k) w1)))"
    by (rule lands_bind [OF loop]) (auto intro: ok_clear_waiters)
  then show ?thesis using assms by (auto simp: s nvme_done_def split: option.split)
qed

lemma ok_redrive_slots:
  assumes "ok {} w" shows "ok {} (redrive_slot_waiters d w)"
proof -
  have "ok {} w' \<Longrightarrow> ok {} (fold (redrive d) gks w')" for gks w'
    by (induction gks arbitrary: w') (simp_all add: ok_redrive)
  then show ?thesis
    using assms tables_ok_cong [of "(w_elm w)\<lparr>slot_pressure_waiters := []\<rparr>" "w_elm w"] by (simp add: redrive_slot_waiters_def)
qed

lemma ok_h2d:
  assumes "okp {} s" "tier_at gk (w_elm (snd s)) = Some GTransferring" shows "returns (okp {}) (h2d_done d gk b s)"
proof -
  obtain r w where s: "s = (r, w)" by fastforce
  have o: "ok {} w" using assms(1) by (simp add: s)
  have t: "tier (w_elm w) gk = GTransferring" using tier_at_Some [OF assms(2)] by (simp add: s)
  have res: "resident (w_cache w) gk" using tables_okD(2) [OF o, of gk] t by simp
  let ?ge = "(entry_of gk (w_elm w))\<lparr>transfer_token := 0, host_buf_ref := None\<rparr>"
  show ?thesis
  proof (cases b)
    case False
    let ?l = "set_entry gk ?ge (w_elm w)"
    have "tables_ok {} ?l (w_cache w)"
      by (rule ok_entry [OF o cache_at_refl [OF tables_okD(1) [OF o]], where t = GTransferring and ?is = "interests ?ge" and gk = gk])
         (use t res in \<open>auto simp: elm_simps tier_def\<close>)
    then have "okp {} (r, w\<lparr>w_elm := ?l\<rparr>)" by simp
    then have "returns (okp ({} - {gk})) (complete_into d gk False (r, w\<lparr>w_elm := ?l\<rparr>))"
      by (rule ok_complete_into) (use resident_valid [OF res] in simp)
    then show ?thesis using False by (simp add: s h2d_done_def Let_def)
  next
    case True
    obtain c where c: "mark_all_ready (fst gk) (snd gk) (w_cache w) = Inr c" "cache_at gk (w_cache w) c" "resident c gk"
      using mark_all_at [OF tables_okD(1) [OF o] res] by (auto simp: returns_def)
    let ?w1 = "w\<lparr>w_cache := c, w_elm := put_entry gk (?ge\<lparr>ge_tier := GHot\<rparr>) (w_elm w),
                 w_sub := release_packed_host_buffer d (fst gk) (w_sub w)\<rparr>"
    have "tables_ok {gk} (put_entry gk (?ge\<lparr>ge_tier := GHot\<rparr>) (w_elm w)) c"
      by (rule ok_entry [OF o c(2), where t = GHot and ?is = "interests ?ge"]) (use c(3) in \<open>auto simp: elm_simps\<close>)
    then have "okp {gk} (r, ?w1)" by simp
    then have "returns (okp ({gk} - {gk})) (complete_into d gk True (r, ?w1))" by (rule ok_complete_into) simp
    then obtain r2 w2 where w2: "complete_into d gk True (r, ?w1) = Inr (r2, w2)" "ok {} w2" by (auto simp: returns_def)
    have p: "ok {} (on_elm (publish_gpu_state (fst gk) (snd gk) GHot 0) w2)" using w2(2) by simp
    show ?thesis using True c(1) w2(1) ok_redrive_slots [OF p, of d] by (simp add: s h2d_done_def Let_def)
  qed
qed

lemma ok_d2h:
  assumes "okp {} s" "tier_at gk (w_elm (snd s)) = Some GDraining" shows "returns (okp {}) (d2h_done d gk b s)"
proof -
  obtain r w where s: "s = (r, w)" by fastforce
  have o: "ok {} w" using assms(1) by (simp add: s)
  have t: "tier (w_elm w) gk = GDraining" using tier_at_Some [OF assms(2)] by (simp add: s)
  have i: "ints (w_elm w) gk = []" using tables_okD(3) [OF o, of gk] t by (auto simp: may_wait_def)
  obtain k c where c: "evict (fst gk) (snd gk) (w_cache w) = Inr (k, c)" "cache_at gk (w_cache w) c"
    using evict_at [OF tables_okD(1) [OF o] reserved_valid [OF o, of gk]] t by (auto simp: returns_def)
  let ?ge = "(entry_of gk (w_elm w))\<lparr>ge_tier := GAbsent, transfer_token := 0, host_buf_ref := None, drain_cmd_seq := 0, drain_host_buf := 0\<rparr>"
  have "tables_ok {} (set_entry gk ?ge (w_elm w)) c"
    by (rule ok_entry [OF o c(2), where t = GAbsent and ?is = "[]"]) (use i in \<open>auto simp: elm_simps, auto simp: ints_def\<close>)
  then show ?thesis using c(1) by (simp add: s d2h_done_def Let_def)
qed

lemma ok_transfer:
  assumes "okp {} s" shows "returns (okp {}) (transfer_done d xc s)"
  using assms ok_h2d [OF assms, of "(xc_key xc, xc_gpu xc)" d] ok_d2h [OF assms, of "(xc_key xc, xc_gpu xc)" d]
  by (auto simp: transfer_done_def Let_def split: prod.splits transfer_direction.splits)

lemma lands_fold:
  assumes "P s" "\<And>x s. P s \<Longrightarrow> lands P (f x s)" shows "lands P (rfold f xs s)"
  by (rule lands_rfold [where I = "\<lambda>ys. P"]) (use assms in auto)

lemma ok_poll:
  assumes "ok {} w" shows "lands (\<lambda>(r, w'). ok {} w') (poll d xcs ncs w)"
proof -
  have "okp {} (take_pending w)"
    using assms tables_ok_cong [of "(w_elm w)\<lparr>pending_completions := [], pending_progress := []\<rparr>" "w_elm w"]
    by (simp add: take_pending_def)
  then have "lands (okp {}) (process_arena_loads d (take_pending w))" by (rule returns_lands [OF ok_process])
  then have "lands (okp {}) (poll d xcs ncs w)"
    unfolding poll_def
    by (rule lands_bind) (rule lands_bind [OF lands_fold], assumption, rule ok_nvme, assumption,
        rule lands_fold, assumption, rule returns_lands, rule ok_transfer)
  then show ?thesis by (rule lands_mono) auto
qed

end
