(* ===== verification/Lifecycle_Calls.thy ===== *)
theory Lifecycle_Calls
  imports Lifecycle_Runs Lifecycle_Tiers
begin

text \<open>The calls of the lifecycle manager on a whole: the tiers, the snapshot and the requests.\<close>

section \<open>The cache keeps its GPUs\<close>

lemma try_start_cache [simp]: "w_cache (snd (try_start_h2d d gk w)) = w_cache w"
  by (cases rule: try_start_cases [of d gk w]) (simp_all add: started_view joined_view)

lemma gpus_reserve: "reserve k g z dup c = Inr (a, c') \<Longrightarrow> gpus_of c' = gpus_of c"
  by (auto simp: reserve_def Let_def res_simps split: prod.splits if_splits)

lemma gpus_evict: "evict k g c = Inr (b, c') \<Longrightarrow> gpus_of c' = gpus_of c"
  by (auto simp: evict_def Let_def res_simps split: option.splits if_splits)

lemma gpus_revert: "revert_gpu_entry d gk w = Inr w' \<Longrightarrow> gpus_of (w_cache w') = gpus_of (w_cache w)"
  by (auto simp: revert_gpu_entry_def Let_def res_simps dest: gpus_evict split: if_splits)

lemma gpus_fail: "fail_interests d gk w = Inr w' \<Longrightarrow> gpus_of (w_cache w') = gpus_of (w_cache w)"
  by (auto simp: fail_interests_def complete_interests_def Let_def res_simps dest: gpus_revert)

lemma gpus_reserve_start: "reserve_and_start d gk z w = Inr w' \<Longrightarrow> gpus_of (w_cache w') = gpus_of (w_cache w)"
  by (auto simp: reserve_and_start_def Let_def res_simps dest!: gpus_reserve gpus_fail split: option.splits)

lemma gpus_start_chain: "start_chain d gk z w = Inr w' \<Longrightarrow> gpus_of (w_cache w') = gpus_of (w_cache w)"
  by (auto simp: start_chain_def Let_def dest!: gpus_reserve_start gpus_fail
      split: host_tier.splits option.splits prod.splits if_splits)

lemma gpus_begin: "begin_chain d gk i p dl w = Inr w' \<Longrightarrow> gpus_of (w_cache w') = gpus_of (w_cache w)"
  by (auto simp: begin_chain_def dest: gpus_start_chain)

lemma gpus_ensure:
  assumes "ensure_resident d k gpu z seq prio delay w = Inr (tok, w')" shows "gpus_of (w_cache w') = gpus_of (w_cache w)"
  using assms gpus_begin [of d "(k, gpu)"]
  by (auto simp: ensure_resident_def Let_def opened res_simps join_reserved_def join_transfer_def answer_now_def
      split: gpu_tier.splits if_splits)

section \<open>Tiers\<close>

definition elm_inv :: "'x world \<Rightarrow> bool" where
  "elm_inv w \<longleftrightarrow> tables_ok {} (w_elm w) (w_cache w)"

text \<open>
  What a client has to see to: a GPU of the node, and for a change of zone an expert that lives in an elastic zone.
\<close>

definition call_ok :: "elm_call \<Rightarrow> 'x world \<Rightarrow> bool" where
  "call_ok call w =
     (case call of
        EnsureResident k gpu z seq prio delay \<Rightarrow> valid_cache_gpu (w_cache w) gpu
      | EnsureResidents gpu reqs vs seq prio \<Rightarrow> valid_cache_gpu (w_cache w) gpu
      | RequestEvict k gpu \<Rightarrow> valid_cache_gpu (w_cache w) gpu
      | RequestDrain k gpu seq \<Rightarrow> True
      | Cancel tok \<Rightarrow> (case token_index (w_elm w) tok of None \<Rightarrow> True | Some gk \<Rightarrow> valid_cache_gpu (w_cache w) (snd gk))
      | Poll xcs ncs \<Rightarrow> True
      | Promote k gpu \<Rightarrow> valid_cache_gpu (w_cache w) gpu \<and> in_elastic_zone k gpu (w_cache w)
      | Demote k gpu \<Rightarrow> valid_cache_gpu (w_cache w) gpu \<and> in_elastic_zone k gpu (w_cache w)
      | SetFetchCount b \<Rightarrow> True)"

lemma ok_evict_one:
  assumes "ok {} w" "valid_cache_gpu (w_cache w) gpu"
  shows "returns (\<lambda>(vs', w'). ok {} w' \<and> gpus_of (w_cache w') = gpus_of (w_cache w)) (evict_one gpu vs w)"
  using assms
proof (induction vs arbitrary: w)
  case (Cons v vs)
  obtain b w1 where w1: "elm_evict v gpu w = Inr (b, w1)" "ok {} w1" "gpus_of (w_cache w1) = gpus_of (w_cache w)"
    using ok_evict [OF Cons.prems, of v] by (auto simp: returns_def)
  show ?case
    using w1 Cons.IH [OF w1(2)] Cons.prems(2) valid_cong [OF w1(3)] by (auto simp: returns_def)
qed simp

lemma ok_ensure_one:
  assumes "ok {} w" "valid_cache_gpu (w_cache w) gpu"
  shows "returns (\<lambda>(vs', n', w'). ok {} w' \<and> valid_cache_gpu (w_cache w') gpu) (ensure_one d gpu seq prio req (vs, n, w))"
proof -
  obtain k z where r: "req = (k, z)" by fastforce
  let ?m = "if z = KStable \<and> es_gpu (expert_state_of d k gpu w) = GAbsent
      then rbind (free_slots gpu KStable (w_cache w)) (\<lambda>m. if m \<le> 0 then evict_one gpu vs w else Inr (vs, w)) else Inr (vs, w)"
  have "returns (\<lambda>(vs', w'). ok {} w' \<and> gpus_of (w_cache w') = gpus_of (w_cache w)) ?m"
    using assms ok_evict_one [OF assms, of vs] by (simp add: free_slots_def gpu_state_def)
  then obtain vs1 w1 where m: "?m = Inr (vs1, w1)" "ok {} w1" "gpus_of (w_cache w1) = gpus_of (w_cache w)"
    by (auto simp: returns_def)
  have v1: "valid_cache_gpu (w_cache w1) gpu" using assms(2) valid_cong [OF m(3)] by simp
  obtain tok w2 where e: "ensure_resident d k gpu z seq prio 0 w1 = Inr (tok, w2)" "ok {} w2"
    using ok_ensure [OF m(2) v1, of d k z seq prio 0] by (auto simp: returns_def)
  show ?thesis
    using m(1) e v1 valid_cong [OF gpus_ensure [OF e(1)]] by (simp add: ensure_one_def r)
qed

lemma ok_ensure_residents:
  assumes "ok {} w" "valid_cache_gpu (w_cache w) gpu"
  shows "returns (\<lambda>(n, w'). ok {} w') (ensure_residents d gpu reqs vs seq prio w)"
proof -
  let ?P = "\<lambda>(vs :: expert_key list, n :: nat, w). ok {} w \<and> valid_cache_gpu (w_cache w) gpu"
  have "returns ?P (rfold (ensure_one d gpu seq prio) reqs (vs, 0, w))"
    by (rule returns_rfold) (use assms ok_ensure_one in auto)
  then show ?thesis unfolding ensure_residents_def by (rule returns_bind) auto
qed

lemma poll_without_nvme:
  assumes "ok {} w" shows "returns (\<lambda>(r, w'). ok {} w') (poll d xcs [] w)"
proof -
  have "okp {} (take_pending w)"
    using assms tables_ok_cong [of "(w_elm w)\<lparr>pending_completions := [], pending_progress := []\<rparr>" "w_elm w"]
    by (simp add: take_pending_def)
  then have "returns (okp {}) (process_arena_loads d (take_pending w))" by (rule ok_process)
  then have "returns (okp {}) (poll d xcs [] w)"
    unfolding poll_def by (rule returns_bind) (simp, rule returns_rfold, assumption, rule ok_transfer)
  then show ?thesis by (rule returns_mono) auto
qed

lemma elm_exec_ok:
  assumes "elm_inv w" "call_ok call w"
  shows "returns (\<lambda>(cs, w'). elm_inv w') (elm_exec d call w)
    \<or> (\<exists>xcs ncs. call = Poll xcs ncs \<and> ncs \<noteq> [] \<and> elm_exec d call w = Inl UndefinedBehaviour)"
proof -
  have o: "ok {} w" using assms(1) by (simp add: elm_inv_def)
  have lift: "returns (\<lambda>(cs, w'). elm_inv w') (rbind m (\<lambda>(a, w1). Inr (f a, w1)))"
    if "returns (\<lambda>(a, w'). ok {} w') m" for m :: "('b \<times> 'a world) res" and f
    by (rule returns_bind [OF that]) (auto simp: elm_inv_def)
  show ?thesis
  proof (cases call)
    case (EnsureResident k gpu z seq prio delay)
    then show ?thesis using assms(2) lift [OF ok_ensure [OF o]] by (simp add: elm_exec_def call_ok_def)
  next
    case (EnsureResidents gpu reqs vs seq prio)
    then show ?thesis using assms(2) lift [OF ok_ensure_residents [OF o]] by (simp add: elm_exec_def call_ok_def)
  next
    case (RequestEvict k gpu)
    then show ?thesis
      using assms(2) lift [OF returns_mono [OF ok_evict [OF o]]] by (auto simp: elm_exec_def call_ok_def)
  next
    case (RequestDrain k gpu seq)
    then show ?thesis using ok_drain [OF o] by (simp add: elm_exec_def elm_inv_def)
  next
    case (Cancel tok)
    have "returns (ok {}) (cancel d tok w)" using Cancel assms(2) by (intro ok_cancel [OF o]) (auto simp: call_ok_def)
    then have "returns (\<lambda>(cs, w'). elm_inv w') (rbind (cancel d tok w) (\<lambda>w1. Inr ([], w1)))"
      by (rule returns_bind) (simp add: elm_inv_def)
    then show ?thesis using Cancel by (simp add: elm_exec_def)
  next
    case (Poll xcs ncs)
    show ?thesis
    proof (cases "ncs = []")
      case True
      then show ?thesis using Poll lift [OF poll_without_nvme [OF o]] by (simp add: elm_exec_def)
    next
      case False
      have "lands (\<lambda>(cs, w'). elm_inv w') (elm_exec d call w)"
        unfolding Poll elm_exec_def elm_call.case by (rule lands_bind [OF ok_poll [OF o]]) (auto simp: elm_inv_def)
      then show ?thesis using Poll False by (cases "elm_exec d call w") auto
    qed
  next
    case (Promote k gpu)
    then show ?thesis
      using assms(2) lift [OF ok_move [OF o, of gpu k cache_promote]] by (simp add: elm_exec_def call_ok_def elm_promote_def)
  next
    case (Demote k gpu)
    then show ?thesis
      using assms(2) lift [OF ok_move [OF o, of gpu k cache_demote]] by (simp add: elm_exec_def call_ok_def elm_demote_def)
  next
    case (SetFetchCount b)
    then show ?thesis
      using o tables_ok_cong [of "set_fetch_count_enabled b (w_elm w)" "w_elm w"]
      by (simp add: elm_exec_def elm_inv_def set_fetch_count_enabled_def tier_def ints_def hosts_def entry_of_def host_of_def)
  qed
qed

section \<open>The snapshot\<close>

text \<open>A change of zone asked for an expert that the manager does not track.\<close>

definition untracked_move :: "elm_call \<Rightarrow> lifecycle \<Rightarrow> bool" where
  "untracked_move call l =
     (case call of Promote k gpu \<Rightarrow> gpu_entries l (k, gpu) = None | Demote k gpu \<Rightarrow> gpu_entries l (k, gpu) = None | _ \<Rightarrow> False)"

lemma snap_mirrored_evict_one: "snap_mirrored (w_elm w) \<Longrightarrow> evict_one gpu vs w = Inr (vs', w') \<Longrightarrow> snap_mirrored (w_elm w')"
  by (induction vs arbitrary: w) (auto simp: res_simps dest: snap_mirrored_evict split: if_splits)

lemma snap_mirrored_ensure_one:
  assumes "ensure_one d gpu seq prio req s = Inr s'" "snap_mirrored (w_elm (snd (snd s)))" shows "snap_mirrored (w_elm (snd (snd s')))"
proof -
  obtain k z vs n w vs' n' w' where r: "req = (k, z)" "s = (vs, n, w)" "s' = (vs', n', w')" by (metis prod.exhaust)
  obtain vs1 w1 tok where e: "ensure_resident d k gpu z seq prio 0 w1 = Inr (tok, w')"
    "(if z = KStable \<and> es_gpu (expert_state_of d k gpu w) = GAbsent
      then rbind (free_slots gpu KStable (w_cache w)) (\<lambda>m. if m \<le> 0 then evict_one gpu vs w else Inr (vs, w))
      else Inr (vs, w)) = Inr (vs1, w1)"
    using assms(1) unfolding r ensure_one_def by (simp add: rbind_eq_Inr split: prod.splits) blast
  have "snap_mirrored (w_elm w1)"
    using e(2) assms(2) snap_mirrored_evict_one [of w gpu vs vs1 w1] by (auto simp: r res_simps split: if_splits)
  then show ?thesis using snap_mirrored_ensure [OF _ e(1)] by (simp add: r)
qed

lemma snap_mirrored_ensure_residents:
  assumes "snap_mirrored (w_elm w)" "ensure_residents d gpu reqs vs seq prio w = Inr (n, w')" shows "snap_mirrored (w_elm w')"
proof -
  obtain vs' where "rfold (ensure_one d gpu seq prio) reqs (vs, 0, w) = Inr (vs', n, w')"
    using assms(2) by (auto simp: ensure_residents_def res_simps)
  then have "snap_mirrored (w_elm (snd (snd (vs, 0 :: nat, w)))) \<longrightarrow> snap_mirrored (w_elm (snd (snd (vs', n, w'))))"
    by (rule rfold_rel [where R = "\<lambda>s s'. snap_mirrored (w_elm (snd (snd s))) \<longrightarrow> snap_mirrored (w_elm (snd (snd s')))"])
       (auto dest: snap_mirrored_ensure_one)
  then show ?thesis using assms(1) by simp
qed

lemma elm_exec_mirrored:
  assumes "snap_mirrored (w_elm w)" "elm_exec d call w = Inr (cs, w')" "\<not> untracked_move call (w_elm w)"
  shows "snap_mirrored (w_elm w')"
  using assms
  by (cases call)
     (auto simp: elm_exec_def untracked_move_def res_simps elm_promote_def elm_demote_def snap_mirrored_drain snap_mirrored_set_fetch_count
       dest: snap_mirrored_ensure snap_mirrored_ensure_residents snap_mirrored_evict snap_mirrored_cancel snap_mirrored_poll snap_mirrored_move_tracked)

end
