(* ===== verification/Lifecycle_Properties.thy ===== *)
theory Lifecycle_Properties
  imports Lifecycle_Calls Expert_Cache_Properties
begin

text \<open>
  The properties of the expert lifecycle manager, with a concrete manager on which each of them is used.
\<close>

section \<open>A concrete manager\<close>

definition blank_snapshot :: state_snapshot where
  "blank_snapshot =
     \<lparr>expert_gpu_tier = (\<lambda>_. 0), expert_interest_count = (\<lambda>_. 0), residency_bitmap = (\<lambda>_. 0), snap_host_tier = (\<lambda>_. 0),
      host_resident_bitmap = (\<lambda>_. 0), expert_host_numa = (\<lambda>_. - 1), host_numa_tier = (\<lambda>_. 0)\<rparr>"

text \<open>The subsystems have no state here; host copies are where \<open>warm\<close> says, and their source has the status \<open>st\<close>.\<close>

definition demo_deps :: "bool \<Rightarrow> host_source_status \<Rightarrow> unit elm_deps" where
  "demo_deps warm st =
     \<lparr>prepacked_has = Some (\<lambda>_. warm), loaded_model = None, clear_bundle = (\<lambda>_ x. x),
      nvme_tier = Some \<lparr>is_in_host_ram = (\<lambda>_ _. False), is_inflight = (\<lambda>_ _. True), is_on_nvme = (\<lambda>_ _. True),
        host_numa_node = (\<lambda>_ _. - 1), read_expert = (\<lambda>_ _ x. (Some 0, x)), write_expert = (\<lambda>_ _ x. x)\<rparr>,
      transfer_engine = \<lparr>enqueue_h2d = (\<lambda>_ x. (Some 5, x)), is_inflight_h2d = (\<lambda>_ _. False),
        enqueue_d2h = (\<lambda>_ _ _ _ x. (Some 6, x)), reprioritize = (\<lambda>_ _ x. x), te_cancel = (\<lambda>_ x. x)\<rparr>,
      numa_manager = None, arena = None, packed_cache = None,
      resolve_host_source = (\<lambda>_ _ x. (\<lparr>hs_ptr = (if st = HsReady then 64 else 0), hs_owned_buf = None, hs_pinned = True,
        hs_status = st, hs_bytes = 0\<rparr>, x)),
      emit_progress = True, h2d_enqueue_observer = None\<rparr>"

definition elm0 :: "unit world" where
  "elm0 = \<lparr>w_elm = blank_elm (Some blank_snapshot) 0 1 4 1, w_cache = demo_cache, w_sub = ()\<rparr>"

definition after :: "bool \<Rightarrow> host_source_status \<Rightarrow> elm_call \<Rightarrow> unit world \<Rightarrow> unit world" where
  "after warm st c w = snd (from_res (elm_exec (demo_deps warm st) c w) ([], w))"

definition ask :: elm_call where
  "ask = EnsureResident (ExpertKey 0 1) 0 KStable 9 0 0"

definition arrived :: elm_call where
  "arrived = Poll [\<lparr>xc_token = 5, xc_key = ExpertKey 0 1, xc_gpu = 0, xc_direction = KH2D, xc_bytes = 64, xc_success = True\<rparr>] []"

definition elm1 :: "unit world" where "elm1 = after True HsReady ask elm0"
definition elm2 :: "unit world" where "elm2 = after True HsReady arrived elm1"
definition elm3 :: "unit world" where "elm3 = after True HsReady ask elm2"

lemma exec_eq:
  assumes "map_sum id fst (elm_exec (demo_deps warm st) c w) = Inr cs"
  shows "elm_exec (demo_deps warm st) c w = Inr (cs, after warm st c w)"
  using assms by (cases "elm_exec (demo_deps warm st) c w") (auto simp: after_def from_res_def)

definition answer1 :: completion where
  "answer1 = \<lparr>cp_token = 1, cp_cmd_seq = 9, cp_key = ExpertKey 0 1, cp_gpu = 0, cp_success = True, is_eviction = False\<rparr>"

lemma demo_exec1: "elm_exec (demo_deps True HsReady) ask elm0 = Inr ([], elm1)"
  unfolding elm1_def by (rule exec_eq) code_simp

lemma demo_exec2: "elm_exec (demo_deps True HsReady) arrived elm1 = Inr ([answer1], elm2)"
  unfolding elm2_def by (rule exec_eq) code_simp

lemma demo_exec3: "elm_exec (demo_deps True HsReady) ask elm2 = Inr ([], elm3)"
  unfolding elm3_def by (rule exec_eq) code_simp

lemma demo_quiet: "quiet (w_elm elm0)"
  by (simp add: quiet_def elm0_def blank_elm_def)

lemma demo_run: "elm_run (demo_deps True HsReady) elm0 2 [answer1] {} elm3"
proof -
  have "elm_run (demo_deps True HsReady) elm0 (0 + requests ask) ([] @ []) ({} \<union> withdrawn ask) elm1"
    by (rule elm_run.call [OF elm_run.start demo_exec1])
  then have "elm_run (demo_deps True HsReady) elm0 (0 + requests ask + requests arrived) (([] @ []) @ [answer1])
      ({} \<union> withdrawn ask \<union> withdrawn arrived) elm2"
    by (rule elm_run.call [OF _ demo_exec2])
  then have "elm_run (demo_deps True HsReady) elm0 (0 + requests ask + requests arrived + requests ask) ((([] @ []) @ [answer1]) @ [])
      ({} \<union> withdrawn ask \<union> withdrawn arrived \<union> withdrawn ask) elm3"
    by (rule elm_run.call [OF _ demo_exec3])
  then show ?thesis by (simp add: requests_def withdrawn_def ask_def arrived_def numeral_2_eq_2)
qed

lemma demo_inv0: "elm_inv elm0"
proof -
  have "cache_inv demo_cache" using cache_reachable_inv [OF demo_reach0 demo_layout_ok] by simp
  moreover have "tier (w_elm elm0) = (\<lambda>_. GAbsent)" "ints (w_elm elm0) = (\<lambda>_. [])" "hosts (w_elm elm0) = (\<lambda>_. new_host_entry)"
    by (auto simp: elm0_def blank_elm_def tier_def ints_def hosts_def entry_of_def host_of_def new_gpu_entry_def)
  ultimately show ?thesis by (auto simp: elm_inv_def tables_ok_def new_host_entry_def elm0_def)
qed

lemma demo_inv:
  assumes "elm_inv w" "call_ok c w" "elm_exec (demo_deps warm st) c w = Inr (cs, w')" shows "elm_inv w'"
  using elm_exec_ok [OF assms(1,2), of "demo_deps warm st"] assms(3) by auto

lemma demo_inv2: "elm_inv elm1" "elm_inv elm2" "elm_inv elm3"
proof -
  show 1: "elm_inv elm1" by (rule demo_inv [OF demo_inv0 _ demo_exec1]) code_simp
  show 2: "elm_inv elm2" by (rule demo_inv [OF 1 _ demo_exec2]) code_simp
  show "elm_inv elm3" by (rule demo_inv [OF 2 _ demo_exec3]) code_simp
qed

section \<open>Requests\<close>

text \<open>
  C6: In every run of the lifecycle manager that starts without requests and makes fewer than \<open>2 ^ 64 - 1\<close> of them (calls
  of any kind in any order, the cache and the subsystems changing in between in any way), no token is answered twice, only
  issued tokens are answered, an answered token is no longer open, and every issued token that was not cancelled is either
  answered or still open, waiting at an entry or in the list of completions of the next poll: no request is lost.
\<close>

theorem requests_answered_once:
  assumes "elm_run d w0 n cs C w" "quiet (w_elm w0)" "n + 1 < 2 ^ 64"
  shows "unat (next_token (w_elm w)) = n + 1 \<and> distinct (answers cs) \<and> set (answers cs) \<subseteq> issued (w_elm w)
    \<and> set (answers cs) \<inter> outstanding (pending_completions (w_elm w)) (w_elm w) = {}
    \<and> issued (w_elm w) - C \<subseteq> set (answers cs) \<union> outstanding (pending_completions (w_elm w)) (w_elm w)"
  using elm_run_accounts [OF assms] unfolding run_ok_def by blast

lemma requests_answered_once_witness:
  "set (answers [answer1]) \<inter> outstanding (pending_completions (w_elm elm3)) (w_elm elm3) = {}
   \<and> issued (w_elm elm3) \<subseteq> {1} \<union> outstanding (pending_completions (w_elm elm3)) (w_elm elm3)"
  using requests_answered_once [OF demo_run demo_quiet] by (simp add: answers_def answer1_def)



text \<open>
  C9: The state snapshot that other processes read is an exact image of the GPU tiers: where before a call the byte of every
  (expert, GPU) pair in range is the code of its tier and its bit of the residency bitmap says \<^verbatim>\<open>kHot\<close>, so they are after
  it, for every call but a change of zone of an expert that the manager does not track.
\<close>

theorem snapshot_mirrors_tiers:
  assumes "snap_mirrored (w_elm w)" "elm_exec d call w = Inr (cs, w')" "\<not> untracked_move call (w_elm w)"
  shows "snap_mirrored (w_elm w')"
  by (rule elm_exec_mirrored [OF assms])

lemma demo_mirrored: "snap_mirrored (w_elm elm0)"
  by (auto simp: snap_mirrored_def elm0_def blank_elm_def blank_snapshot_def shows_tier_def tier_def entry_of_def new_gpu_entry_def
      tier_code_def)

lemma snapshot_mirrors_tiers_witness: "snap_mirrored (w_elm elm1) \<and> tier (w_elm elm1) (ExpertKey 0 1, 0) = GTransferring"
proof
  show "snap_mirrored (w_elm elm1)"
    by (rule snapshot_mirrors_tiers [OF demo_mirrored demo_exec1]) (simp add: untracked_move_def ask_def)
  show "tier (w_elm elm1) (ExpertKey 0 1, 0) = GTransferring" by code_simp
qed

section \<open>Cancellation after the answer\<close>

lemma hot_entry:
  assumes "elm_inv w" "tier (w_elm w) gk = GHot"
  shows "ints (w_elm w) gk = []" "resident (w_cache w) gk" "gpu_entries (w_elm w) gk \<noteq> None"
proof -
  have o: "ok {} w" using assms(1) by (simp add: elm_inv_def)
  show "resident (w_cache w) gk" using tables_okD(2) [OF o, of gk] assms(2) by simp
  show "ints (w_elm w) gk = []" using tables_okD(3) [OF o, of gk] assms(2) by (auto simp: may_wait_def)
  show "gpu_entries (w_elm w) gk \<noteq> None" using assms(2) by (auto simp: tier_def entry_of_def new_gpu_entry_def split: option.splits)
qed

lemma entry_drop [elm_simps]: "entry_of g (drop_waiters gk l) = entry_of g l"
  by (simp add: drop_waiters_def elm_simps split: option.split)

lemma cancel_hot:
  assumes "elm_inv w" "token_index (w_elm w) t = Some gk" "tier (w_elm w) gk = GHot"
  shows "\<exists>w1. cancel d t w = Inr w1 \<and> w_cache w1 = w_cache w \<and> tier (w_elm w1) gk = GAbsent \<and> ints (w_elm w1) gk = []
    \<and> he_tier (host_of (fst gk) (w_elm w1)) = he_tier (host_of (fst gk) (w_elm w))"
proof -
  note H = hot_entry [OF assms(1,3)]
  have t: "ge_tier (entry_of gk (w_elm w)) = GHot" using assms(3) by (simp add: tier_def)
  have i: "interests (entry_of gk (w_elm w)) = []" using H(1) by (simp add: ints_def)
  have h: "he_tier (host_of k (drop_waiters gk l)) = he_tier (host_of k l)" for k l
    using hosts_drop_waiters [of gk l] by (simp add: hosts_def fun_eq_iff)
  show ?thesis
    using assms(2) H(3) t i
    by (auto simp: cancel_def Let_def take_interest_def retract_completion_def revert_gpu_entry_def elm_simps h tier_def ints_def)
qed

lemma reserve_resident:
  "resident c gk \<Longrightarrow> reserve (fst gk) (snd gk) z dup c = Inr (None, c)"
  by (simp add: resident_def is_resident_def reserve_def gpu_state_def)

text \<open>A request for an expert that is resident while its entry says absent: the cache gives no second slot, so it fails.\<close>

lemma ensure_refused:
  assumes "tier (w_elm w) (k, g) = GAbsent" "ints (w_elm w) (k, g) = []" "resident (w_cache w) (k, g)"
    and warm: "he_tier (host_of k (w_elm w)) = HWarm"
  shows "\<exists>w2. ensure_resident d k g z seq prio delay w = Inr (next_token (w_elm w), w2) \<and> w_cache w2 = w_cache w
    \<and> pending_completions (w_elm w2) = pending_completions (w_elm w)
        @ [completion_of (k, g) False \<lparr>in_token = next_token (w_elm w), in_cmd_seq = seq, in_zone = z\<rparr>]"
proof -
  let ?w1 = "open_request d (k, g) seq w"
  let ?i = "\<lparr>in_token = next_token (w_elm w), in_cmd_seq = seq, in_zone = z\<rparr>"
  have e: "ge_tier (entry_of (k, g) (w_elm w)) = GAbsent" "interests (entry_of (k, g) (w_elm w)) = []"
    using assms(1,2) by (simp_all add: tier_def ints_def)
  have h: "he_tier (host_of k (w_elm ?w1)) = HWarm"
    using warm by (simp add: open_request_def Let_def elm_simps)
  define w2 where "w2 = ?w1\<lparr>w_elm := set_entry (k, g) ((entry_of (k, g) (w_elm ?w1))\<lparr>interests := [?i],
      ge_priority := prio, delay_us := delay\<rparr>) (w_elm ?w1)\<rparr>"
  have w2: "entry_of (k, g) (w_elm w2) = (entry_of (k, g) (w_elm w))\<lparr>interests := [?i], ge_priority := prio, delay_us := delay\<rparr>"
    "w_cache w2 = w_cache w" "pending_completions (w_elm w2) = pending_completions (w_elm w)"
    "he_tier (host_of k (w_elm w2)) = HWarm"
    using h by (simp_all add: w2_def elm_simps opened)
  have pd: "pending_completions (drop_waiters gk l) = pending_completions l" for gk l
    by (simp add: drop_waiters_def elm_simps split: option.split)
  have "\<exists>w3. reserve_and_start d (k, g) z w2 = Inr w3 \<and> w_cache w3 = w_cache w
      \<and> pending_completions (w_elm w3) = pending_completions (w_elm w) @ [completion_of (k, g) False ?i]"
    using reserve_resident [OF assms(3), of z False] e w2(1-3)
    by (auto simp: reserve_and_start_def fail_interests_def complete_interests_def revert_gpu_entry_def Let_def
        clear_interests_def elm_simps forget_interest_def erase_seq_def push_pending_def pd)
  moreover have "start_chain d (k, g) z w2 = reserve_and_start d (k, g) z w2" using w2(4) by (simp add: start_chain_def)
  ultimately show ?thesis
    using e by (auto simp: ensure_resident_def Let_def opened begin_chain_def w2_def)
qed

text \<open>
  C19: Cancelling a request that was already answered forgets a resident expert. A request that finds its expert hot is
  answered at once and keeps its token in the index; when that token is cancelled later, with the expert hot and nothing
  waiting on it, the entry falls to \<^verbatim>\<open>kAbsent\<close> although the cache still holds the expert, and the next request for it
  fails.
\<close>

theorem cancel_forgets_resident:
  assumes "elm_inv w" "token_index (w_elm w) t = Some (k, g)" "tier (w_elm w) (k, g) = GHot"
    "he_tier (host_of k (w_elm w)) = HWarm"
  shows "\<exists>w1 w2. cancel d t w = Inr w1 \<and> tier (w_elm w1) (k, g) = GAbsent \<and> is_resident k g (w_cache w1)
    \<and> ensure_resident d k g z seq prio delay w1 = Inr (next_token (w_elm w1), w2)
    \<and> pending_completions (w_elm w2) = pending_completions (w_elm w1)
        @ [completion_of (k, g) False \<lparr>in_token = next_token (w_elm w1), in_cmd_seq = seq, in_zone = z\<rparr>]"
proof -
  obtain w1 where w1: "cancel d t w = Inr w1" "w_cache w1 = w_cache w" "tier (w_elm w1) (k, g) = GAbsent"
    "ints (w_elm w1) (k, g) = []" "he_tier (host_of k (w_elm w1)) = HWarm"
    using cancel_hot [OF assms(1-3), of d] assms(4) by auto
  have r: "resident (w_cache w1) (k, g)" using hot_entry(2) [OF assms(1,3)] w1(2) by simp
  from ensure_refused [OF w1(3,4) r w1(5), of d z seq prio delay] show ?thesis
    using w1(1,3) r by (auto simp: resident_def)
qed

lemma cancel_forgets_resident_witness:
  "\<exists>w1 w2. cancel (demo_deps True HsReady) 2 elm3 = Inr w1 \<and> is_resident (ExpertKey 0 1) 0 (w_cache w1)
    \<and> ensure_resident (demo_deps True HsReady) (ExpertKey 0 1) 0 KStable 11 0 0 w1 = Inr (3, w2)"
proof -
  have a: "token_index (w_elm elm3) 2 = Some (ExpertKey 0 1, 0)" "tier (w_elm elm3) (ExpertKey 0 1, 0) = GHot"
    "he_tier (host_of (ExpertKey 0 1) (w_elm elm3)) = HWarm"
    by code_simp+
  obtain w1 w2 where w: "cancel (demo_deps True HsReady) 2 elm3 = Inr w1" "is_resident (ExpertKey 0 1) 0 (w_cache w1)"
    "ensure_resident (demo_deps True HsReady) (ExpertKey 0 1) 0 KStable 11 0 0 w1 = Inr (next_token (w_elm w1), w2)"
    using cancel_forgets_resident [OF demo_inv2(3) a, of "demo_deps True HsReady" KStable 11 0 0] by blast
  have "next_token (w_elm w1) = next_token (w_elm elm3)" using cancel_closes [OF w(1)] by (simp add: closes_def)
  also have "\<dots> = 3" by code_simp
  finally show ?thesis using w by auto
qed

section \<open>A failed host read\<close>

lemma host_clear: "host_of k (clear_interests gk l) = host_of k l"
  using clear_view(2) [of gk l] by (simp add: hosts_def fun_eq_iff)

lemma revert_waiters:
  assumes "revert_gpu_entry d gk w = Inr w'"
  shows "gpu_waiters (host_of (fst gk) (w_elm w')) = filter (\<lambda>q. pc_gpu q \<noteq> snd gk) (gpu_waiters (host_of (fst gk) (w_elm w)))"
proof -
  obtain ge where "w_elm w' = drop_waiters gk (publish_gpu_state (fst gk) (snd gk) GAbsent 0 (set_entry gk ge (w_elm w)))"
    using assms by (auto simp: revert_gpu_entry_def Let_def res_simps)
  then show ?thesis using hosts_drop_waiters [of gk] by (simp add: hosts_def fun_eq_iff elm_simps)
qed

definition elm_loading :: "unit world" where
  "elm_loading = after False HsReady ask elm0"

lemma demo_exec_loading: "elm_exec (demo_deps False HsReady) ask elm0 = Inr ([], elm_loading)"
  unfolding elm_loading_def by (rule exec_eq) code_simp

text \<open>
  C20: A poll that learns of a failed NVMe read while a GPU waits for it is undefined behaviour: the loop over the waiters of
  the host entry calls a routine that erases from the very vector it iterates over.
\<close>

theorem failed_read_is_undefined:
  assumes "elm_inv w" "arena d = None" "host_entries (w_elm w) (nc_key nc) = Some he" "he_tier he = HLoadingToRam"
    "gpu_waiters he = p # ps" "gpu_entries (w_elm w) (nc_key nc, pc_gpu p) \<noteq> None" "\<not> nc_success nc"
  shows "poll d xcs (nc # ncs) w = Inl UndefinedBehaviour"
proof -
  let ?k = "nc_key nc" and ?gk = "(nc_key nc, pc_gpu p)"
  obtain r w0 where tp: "take_pending w = (r, w0)" "w0 = on_elm (\<lambda>l. l\<lparr>pending_completions := [], pending_progress := []\<rparr>) w"
    by (simp add: take_pending_def)
  let ?w = "set_host_tier d ?k HCold w0"
  have o: "ok {} w0" using assms(1) tables_ok_cong [of "w_elm w0" "w_elm w"] by (simp add: elm_inv_def tp)
  have ws: "gpu_waiters (host_of ?k (w_elm ?w)) = p # ps"
    using assms(3,5) by (simp add: set_host_tier_def elm_simps tp host_of_def [of ?k "w_elm w"])
  have v: "valid_cache_gpu (w_cache w0) (pc_gpu p)"
    using tables_okD(4) [OF o, of p ?k] assms(3,5) by (simp add: tp hosts_def host_of_def)
  obtain e where ge: "gpu_entries (w_elm ?w) ?gk = Some e" using assms(6) by (auto simp: set_host_tier_def elm_simps tp)
  have "tables_ok UNIV (w_elm ?w) (w_cache w0)"
    by (rule ok_host [OF o set_host_tier_view(1-3)]) (use tables_okD(4) [OF o] in auto)
  then have "returns (okp (UNIV - {?gk})) (complete_into d ?gk False (r, ?w))"
    using v by (intro ok_complete_into) (simp_all add: set_host_tier_view)
  then obtain s' where s': "complete_into d ?gk False (r, ?w) = Inr s'" by (auto simp: returns_def)
  have "revert_gpu_entry d ?gk (on_elm (clear_interests ?gk) ?w) = Inr (snd s')"
    using s' by (auto simp: complete_into_def complete_interests_def Let_def res_simps)
  from revert_waiters [OF this] have gone: "gpu_waiters (host_of ?k (w_elm (snd s'))) = filter (\<lambda>q. pc_gpu q \<noteq> pc_gpu p) (p # ps)"
    by (simp add: host_clear ws)
  have "filter (\<lambda>q. pc_gpu q \<noteq> pc_gpu p) (p # ps) \<noteq> p # ps"
    by (metis (mono_tags, lifting) filter_id_conv list.set_intros(1))
  then have "waiter_loop ?k (fail_waiter d ?k) (r, ?w) = Inl UndefinedBehaviour"
    using s' ge gone by (simp add: waiter_loop_def Let_def ws fail_waiter_def)
  then have "nvme_done d nc (r, w0) = Inl UndefinedBehaviour"
    using assms(3,4,7) by (simp add: nvme_done_def tp)
  then show ?thesis using assms(2) by (simp add: poll_def process_arena_loads_def tp(1))
qed

lemma failed_read_is_undefined_witness:
  "poll (demo_deps False HsReady) [] [\<lparr>nc_token = 0, nc_key = ExpertKey 0 1, nc_success = False\<rparr>] elm_loading = Inl UndefinedBehaviour"
proof -
  let ?he = "\<lparr>he_tier = HLoadingToRam, nvme_token = 0, gpu_waiters = [\<lparr>pc_gpu = 0, pc_zone = KStable\<rparr>]\<rparr>"
  have i: "elm_inv elm_loading" by (rule demo_inv [OF demo_inv0 _ demo_exec_loading]) code_simp
  have h: "host_entries (w_elm elm_loading) (ExpertKey 0 1) = Some ?he" by code_simp
  have g: "tier_at (ExpertKey 0 1, 0) (w_elm elm_loading) = Some GAbsent" by code_simp
  show ?thesis
    by (rule failed_read_is_undefined [OF i, where he = ?he and p = "\<lparr>pc_gpu = 0, pc_zone = KStable\<rparr>" and ps = "[]"])
       (use h g in \<open>auto simp: demo_deps_def tier_at_def\<close>)
qed

section \<open>A source that is gone\<close>

text \<open>The concrete manager after the expert was evicted again: its host copy is known to be warm.\<close>

definition elm_warm :: "unit world" where
  "elm_warm = after True HsReady (RequestEvict (ExpertKey 0 1) 0) elm2"




end
