(* ===== verification/Lifecycle_Boot.thy ===== *)
theory Lifecycle_Boot
  imports Lifecycle_Properties
begin

text \<open>
  The constructor of the lifecycle manager over a cache that already holds experts: the bootstrap returns, and the tables
  and the snapshot it leaves are the ones that the other theorems start from.
\<close>

section \<open>One resident\<close>

text \<open>What holds while the residents are taken over, \<open>V\<close> being the pairs seen so far.\<close>

definition booting :: "expert_cache \<Rightarrow> gpu_key set \<Rightarrow> lifecycle \<Rightarrow> bool" where
  "booting c V l \<longleftrightarrow>
     snap_mirrored l \<and> ints l = (\<lambda>_. []) \<and> (\<forall>k. gpu_waiters (hosts l k) = []) \<and> next_token l = 1
     \<and> pending_completions l = [] \<and> (\<forall>gk. tier l gk \<noteq> GAbsent \<longrightarrow> gk \<in> V \<and> resident c gk)"

lemma shows_boot_host [simp]: "shows_tier (boot_host i t n s) j u = shows_tier s j u"
  by (simp add: shows_tier_def boot_host_def Let_def)

lemma shows_boot_tier:
  "shows_tier (boot_tier i t s) j u \<longleftrightarrow>
     (if i = j then t = u \<and> (bit (residency_bitmap s (i div 8)) (i mod 8) \<longrightarrow> u = GHot) else shows_tier s j u)"
  by (auto simp: shows_tier_def boot_tier_def Let_def bit_set_bit_of) (cases t; cases u; simp add: tier_code_def)+

lemma snap_mirrored_boot:
  assumes "snap_mirrored l" "publishable l k g" "tier l (k, g) = GAbsent"
  shows "snap_mirrored (set_entry (k, g) ((entry_of (k, g) l)\<lparr>ge_tier := t\<rparr>)
     (l\<lparr>snapshot := map_option (\<lambda>s. boot_host i ht n (boot_tier (snapshot_slot l k g) t s)) (snapshot l)\<rparr>))"
proof (cases "snapshot l")
  case None
  then show ?thesis by (simp add: snap_mirrored_def elm_simps)
next
  case (Some s)
  have M: "publishable l k' g' \<Longrightarrow> shows_tier s (snapshot_slot l k' g') (tier l (k', g'))" for k' g'
    using assms(1) Some by (simp add: snap_mirrored_def)
  have I: "(k', g') = (k, g)" if "publishable l k' g'" "snapshot_slot l k g = snapshot_slot l k' g'" for k' g'
    using snapshot_slot_inj [OF assms(2) that] by simp
  have p: "publishable (l\<lparr>snapshot := x\<rparr>) = publishable l" "snapshot_slot (l\<lparr>snapshot := x\<rparr>) = snapshot_slot l" for x
    by (simp_all add: slot_defs fun_eq_iff)
  show ?thesis
    using M M [OF assms(2)] I assms(3)
    by (auto simp: snap_mirrored_def Some elm_simps slot_defs shows_boot_tier) (auto simp: shows_tier_def slot_defs p)
qed

lemma boot_resident_booting:
  assumes "booting c V l" "resident c (ri_key ri, ri_gpu ri)" "(ri_key ri, ri_gpu ri) \<notin> V"
  shows "booting c (insert (ri_key ri, ri_gpu ri) V) (boot_resident d x ri l)"
proof (cases "publishable l (ri_key ri) (ri_gpu ri)")
  case False
  then show ?thesis using assms(1) by (auto simp: boot_resident_def booting_def)
next
  case True
  let ?gk = "(ri_key ri, ri_gpu ri)"
  have a: "tier l ?gk = GAbsent" using assms(1,3) by (auto simp: booting_def)
  have e: "entry_of gk (l\<lparr>snapshot := s\<rparr>) = entry_of gk l" "hosts (l\<lparr>snapshot := s\<rparr>) = hosts l" "ints (l\<lparr>snapshot := s\<rparr>) = ints l" for s gk
    by (simp_all add: entry_of_def hosts_def host_of_def ints_def)
  have h: "hosts (set_host k he l) = (hosts l)(k := he)" "hosts (set_entry gk ge l) = hosts l" for k he gk ge l
    by (auto simp: hosts_def elm_simps fun_eq_iff)
  show ?thesis
    using assms(1,2) snap_mirrored_boot [OF _ True a]
    by (auto simp: boot_resident_def True Let_def booting_def elm_simps e h fun_eq_iff)
       (auto simp: ints_def fun_eq_iff entry_of_def hosts_def)
qed

lemma boot_residents_booting:
  assumes "booting c V l" "\<And>ri. ri \<in> set ris \<Longrightarrow> resident c (ri_key ri, ri_gpu ri) \<and> (ri_key ri, ri_gpu ri) \<notin> V"
    "distinct (map (\<lambda>ri. (ri_key ri, ri_gpu ri)) ris)"
  shows "booting c (V \<union> (\<lambda>ri. (ri_key ri, ri_gpu ri)) ` set ris) (fold (boot_resident d x) ris l)"
  using assms
proof (induction ris arbitrary: V l)
  case (Cons ri ris)
  have "booting c (insert (ri_key ri, ri_gpu ri) V) (boot_resident d x ri l)"
    using Cons.prems by (intro boot_resident_booting) auto
  moreover have "resident c (ri_key r, ri_gpu r) \<and> (ri_key r, ri_gpu r) \<notin> insert (ri_key ri, ri_gpu ri) V" if "r \<in> set ris" for r
    using Cons.prems(2) [of r] Cons.prems(3) that by (auto simp: image_iff)
  ultimately show ?case using Cons.IH [of "insert (ri_key ri, ri_gpu ri) V" "boot_resident d x ri l"] Cons.prems(3) by simp
qed simp

section \<open>The residents of a GPU\<close>

text \<open>Every cache entry records the GPU it is on.\<close>

definition homed :: "expert_cache \<Rightarrow> bool" where
  "homed c \<longleftrightarrow> (\<forall>g < length (ec_gpus c). \<forall>(k, e) \<in> set (residents (ec_gpus c ! g)). ce_gpu e = int g)"

lemma residency_snapshot_gpu_ok:
  assumes "cache_inv c" "homed c" "g < length (ec_gpus c)"
  shows "\<exists>ris. residency_snapshot_gpu (int g) c = Inr ris \<and> distinct (map (\<lambda>ri. (ri_key ri, ri_gpu ri)) ris)
    \<and> (\<forall>ri \<in> set ris. ri_gpu ri = int g \<and> resident c (ri_key ri, ri_gpu ri))"
proof -
  let ?gs = "ec_gpus c ! g"
  have s: "gpu_state c (int g) = Inr ?gs" using assms(3) by (simp add: gpu_state_Inr valid_cache_gpu_def)
  have k: "keys_ok ?gs" using gpu_state_ok(1) [OF assms(1) s] by (simp add: cache_ok_def)
  have e: "ce_key e = k'" "ce_gpu e = int g" if "(k', e) \<in> set (residents ?gs)" for k' e
    using that k assms(2,3) by (auto simp: keys_ok_def homed_def)
  have r: "resident c (k', int g)" if "(k', e) \<in> set (residents ?gs)" for k' e
    using that assms(3) find_resident_None [of k' ?gs]
    by (auto simp: resident_def is_resident_def valid_cache_gpu_def) (metis fst_conv image_eqI option.exhaust)
  let ?ris = "map (\<lambda>(k, e). info_of e) (residents ?gs)"
  have "map (\<lambda>ri. (ri_key ri, ri_gpu ri)) ?ris = map (\<lambda>k. (k, int g)) (map fst (residents ?gs))"
    using e by (auto simp: info_of_def)
  moreover have "distinct (map (\<lambda>k. (k, int g)) (map fst (residents ?gs)))"
    using k by (auto simp: keys_ok_def distinct_map inj_on_def)
  ultimately have "distinct (map (\<lambda>ri. (ri_key ri, ri_gpu ri)) ?ris)" by (simp only:)
  moreover have "residency_snapshot_gpu (int g) c = Inr ?ris" using s by (simp add: residency_snapshot_gpu_def)
  moreover have "ri_gpu ri = int g \<and> resident c (ri_key ri, ri_gpu ri)" if "ri \<in> set ?ris" for ri
    using that e r by (auto simp: info_of_def)
  ultimately show ?thesis by blast
qed

lemma boot_gpus_booting:
  assumes "cache_inv c" "homed c" "n \<le> length (ec_gpus c)" "booting c {} l"
  shows "\<exists>l'. rfold (\<lambda>g l. rbind (residency_snapshot_gpu g c) (\<lambda>ris. Inr (fold (boot_resident d x) ris l))) (map int [0..<n]) l = Inr l'
    \<and> booting c {gk. snd gk < int n} l'"
  using assms(3)
proof (induction n)
  case 0
  show ?case using assms(4) by (auto simp: booting_def)
next
  case (Suc n)
  then obtain l1 where l1: "rfold (\<lambda>g l. rbind (residency_snapshot_gpu g c) (\<lambda>ris. Inr (fold (boot_resident d x) ris l))) (map int [0..<n]) l = Inr l1"
    "booting c {gk. snd gk < int n} l1" by auto
  obtain ris where r: "residency_snapshot_gpu (int n) c = Inr ris" "distinct (map (\<lambda>ri. (ri_key ri, ri_gpu ri)) ris)"
    "\<And>ri. ri \<in> set ris \<Longrightarrow> ri_gpu ri = int n \<and> resident c (ri_key ri, ri_gpu ri)"
    using residency_snapshot_gpu_ok [OF assms(1,2), of n] Suc.prems by auto
  have "booting c ({gk. snd gk < int n} \<union> (\<lambda>ri. (ri_key ri, ri_gpu ri)) ` set ris) (fold (boot_resident d x) ris l1)"
    by (rule boot_residents_booting [OF l1(2) _ r(2)]) (use r(3) in fastforce)
  then have "booting c {gk. snd gk < int (Suc n)} (fold (boot_resident d x) ris l1)"
    using r(3) by (fastforce simp: booting_def)
  then show ?case using l1(1) r(1) by (simp add: rfold_append)
qed

section \<open>The constructor\<close>

lemma boot_warm_booting:
  assumes "booting c V l" "layer < kMaxMoeLayers" "e < kMaxExperts"
  shows "\<exists>l'. boot_warm d x (layer, e) l = Inr l' \<and> booting c V l'"
proof -
  have "layer * kMaxExperts + e < kMaxMoeLayers * kMaxExperts"
    using assms(2,3) mult_le_mono1 [of "Suc layer" kMaxMoeLayers kMaxExperts] by simp
  moreover have "snap_mirrored (l\<lparr>snapshot := map_option (\<lambda>s. if p s then s else boot_host i t n s) (snapshot l)\<rparr>)" for p i t n
    using assms(1) by (cases "snapshot l") (auto simp: booting_def snap_mirrored_def slot_defs)
  ultimately show ?thesis
    using assms(1) by (simp add: boot_warm_def Let_def booting_def ints_def hosts_def entry_of_def host_of_def)
qed

lemma boot_warm_all:
  assumes "booting c V l" "layers \<le> kMaxMoeLayers" "experts \<le> kMaxExperts"
  shows "\<exists>l'. rfold (boot_warm d x) (concat (map (\<lambda>layer. map (Pair layer) [0..<experts]) [0..<layers])) l = Inr l' \<and> booting c V l'"
proof -
  let ?I = "\<lambda>xs l. booting c V l \<and> set xs \<subseteq> {0..<layers} \<times> {0..<experts}"
  have "\<exists>l'. rfold (boot_warm d x) (concat (map (\<lambda>layer. map (Pair layer) [0..<experts]) [0..<layers])) l = Inr l' \<and> ?I [] l'"
  proof (rule rfold_rule [where I = ?I])
    show "?I (concat (map (\<lambda>layer. map (Pair layer) [0..<experts]) [0..<layers])) l" using assms(1) by auto
  next
    fix y ys s assume a: "?I (y # ys) s"
    obtain la e where y: "y = (la, e)" by fastforce
    have "la < kMaxMoeLayers" "e < kMaxExperts" using a assms(2,3) by (auto simp: y)
    with a boot_warm_booting [of c V s la e d x] show "\<exists>s'. boot_warm d x y s = Inr s' \<and> ?I ys s'" by (auto simp: y)
  qed
  then show ?thesis by auto
qed

text \<open>The part of the snapshot beyond the active layers, which the bootstrap does not clear, is blank.\<close>

definition blank_beyond :: "nat \<Rightarrow> state_snapshot \<Rightarrow> bool" where
  "blank_beyond layers s \<longleftrightarrow>
     (\<forall>i \<ge> layers * kMaxExperts * kMaxGpus. expert_gpu_tier s i = 0 \<and> residency_bitmap s (i div 8) = 0)"

lemma shows_cleared: "blank_beyond layers s \<Longrightarrow> shows_tier (clear_active layers s) i GAbsent"
proof -
  assume b: "blank_beyond layers s"
  have "i < layers * kMaxExperts * kMaxGpus \<longleftrightarrow> i div 8 < layers * kMaxExperts * kMaxGpus div 8"
    by (simp add: kMaxGpus_def div_less_iff_less_mult mult.assoc)
  then show ?thesis
    using b by (cases "i < layers * kMaxExperts * kMaxGpus")
      (auto simp: shows_tier_def clear_active_def Let_def fill_upto_def tier_code_def blank_beyond_def)
qed

lemma blank_elm_fields [simp]:
  "snapshot (blank_elm snap first layers experts gpus) = snap" "num_gpus (blank_elm snap first layers experts gpus) = gpus"
  "num_moe_layers (blank_elm snap first layers experts gpus) = layers"
  "num_experts (blank_elm snap first layers experts gpus) = experts"
  by (simp_all add: blank_elm_def)

lemma blank_elm_booting:
  assumes "\<And>s. snap = Some s \<Longrightarrow> blank_beyond n s"
  shows "booting c {} ((blank_elm snap first layers experts gpus)\<lparr>snapshot := map_option (clear_active n) snap\<rparr>)"
  using assms shows_cleared [of n]
  by (cases snap)
     (auto simp: booting_def snap_mirrored_def blank_elm_def tier_def ints_def hosts_def entry_of_def host_of_def new_gpu_entry_def
       new_host_entry_def)

lemma booting_sound:
  assumes "booting c V l" "cache_inv c"
  shows "tables_ok {} l c" "quiet l" "snap_mirrored l"
proof -
  show "tables_ok {} l c" by (rule tables_okI) (use assms in \<open>auto simp: booting_def\<close>)
  have "interests ge = []" if "gpu_entries l gk = Some ge" for gk ge
  proof -
    have "ints l gk = []" using assms(1) by (simp add: booting_def)
    then show ?thesis using that by (simp add: ints_def entry_of_def)
  qed
  then show "quiet l" using assms(1) by (auto simp: quiet_def booting_def)
  show "snap_mirrored l" using assms(1) by (simp add: booting_def)
qed



end
