(* ===== verification/Expert_Zone_Math.thy ===== *)
theory Expert_Zone_Math
  imports Expert_Cache_Machine
begin

text \<open>
  The sizing of expert zones, \<^verbatim>\<open>src/src/core/memory/expert_zone_math.h\<close>: how many expert slots a run of slabs
  holds, the smallest run for a number of slots, and the search for an admissible grant. Byte counts are
  integers (they stay far below the 64-bit range). The comparison of the waste fraction with the configured
  bound is a quotient of doubles in the code; it is the parameter \<open>g_within waste capacity\<close> here, of which the
  theorems use that less waste at the same capacity is within the bound as well.
\<close>

definition align_up_i64 :: "int \<Rightarrow> int \<Rightarrow> int" where
  "align_up_i64 v a = (v + a - 1) div a * a"

record zone_geometry =
  expert_slot_bytes :: int
  g_slab_bytes :: int
  g_within :: "int \<Rightarrow> int \<Rightarrow> bool"

definition slot_stride :: "zone_geometry \<Rightarrow> int" where
  "slot_stride g = align_up_i64 (expert_slot_bytes g) kExpertZoneSlotAlign"

definition geometry_valid :: "zone_geometry \<Rightarrow> bool" where
  "geometry_valid g \<longleftrightarrow> 0 < expert_slot_bytes g \<and> 0 < g_slab_bytes g"

definition capacity_bytes :: "zone_geometry \<Rightarrow> int \<Rightarrow> int" where
  "capacity_bytes g num_slabs = num_slabs * g_slab_bytes g"

definition base_pad :: "int \<Rightarrow> int" where
  "base_pad base_misalign = (if base_misalign = 0 then 0 else kExpertZoneSlotAlign - base_misalign)"

definition slots_in :: "zone_geometry \<Rightarrow> int \<Rightarrow> int \<Rightarrow> int" where
  "slots_in g num_slabs base_misalign =
     (let usable = capacity_bytes g num_slabs - base_pad base_misalign in
      if usable < expert_slot_bytes g then 0
      else (usable - expert_slot_bytes g) div slot_stride g + 1)"

definition slabs_for_slots :: "zone_geometry \<Rightarrow> int \<Rightarrow> int \<Rightarrow> int" where
  "slabs_for_slots g num_slots base_misalign =
     (if num_slots \<le> 0 then 0
      else let need = base_pad base_misalign + (num_slots - 1) * slot_stride g + expert_slot_bytes g
           in (need + g_slab_bytes g - 1) div g_slab_bytes g)"

definition waste_bytes :: "zone_geometry \<Rightarrow> int \<Rightarrow> int \<Rightarrow> int" where
  "waste_bytes g num_slabs num_slots = capacity_bytes g num_slabs - num_slots * expert_slot_bytes g"

definition waste_within :: "zone_geometry \<Rightarrow> int \<Rightarrow> int \<Rightarrow> bool" where
  "waste_within g num_slabs num_slots = g_within g (waste_bytes g num_slabs num_slots) (capacity_bytes g num_slabs)"

definition admissible :: "zone_geometry \<Rightarrow> int \<Rightarrow> int \<Rightarrow> bool" where
  "admissible g num_slabs base_misalign =
     (let n = slots_in g num_slabs base_misalign in 1 \<le> n \<and> waste_within g num_slabs n)"

text \<open>The loop of \<^verbatim>\<open>best_fit\<close>, counting the number of slots down to one.\<close>

fun fit_down :: "zone_geometry \<Rightarrow> int \<Rightarrow> int \<Rightarrow> nat \<Rightarrow> int \<times> int" where
  "fit_down g run m 0 = (0, 0)"
| "fit_down g run m (Suc n) =
     (let s = slabs_for_slots g (int (Suc n)) m in
      if s \<le> run \<and> waste_within g s (int (Suc n)) then (int (Suc n), s) else fit_down g run m n)"

definition best_fit :: "zone_geometry \<Rightarrow> int \<Rightarrow> int \<Rightarrow> int \<times> int" where
  "best_fit g run_slabs base_misalign = fit_down g run_slabs base_misalign (nat (slots_in g run_slabs base_misalign))"

text \<open>The loop of \<^verbatim>\<open>grant_slabs\<close>, counting the slabs up to the length of the run.\<close>

function grow_slabs :: "zone_geometry \<Rightarrow> int \<Rightarrow> int \<Rightarrow> int" where
  "grow_slabs g run s =
     (if s \<le> run then (if admissible g s 1 then s else grow_slabs g run (s + 1)) else 0)"
  by pat_completeness auto
termination by (relation "measure (\<lambda>(g, run, s). nat (run + 1 - s))") auto

declare grow_slabs.simps [simp del]

definition grant_slabs :: "zone_geometry \<Rightarrow> int \<Rightarrow> int \<Rightarrow> int" where
  "grant_slabs g ask_slots run_slabs =
     (if ask_slots < 1 \<or> run_slabs < 1 then 0 else grow_slabs g run_slabs (slabs_for_slots g ask_slots 1))"

section \<open>Arithmetic\<close>

lemma le_div_iff:
  assumes "0 < b" shows "c \<le> (a :: int) div b \<longleftrightarrow> c * b \<le> a"
proof
  assume "c \<le> a div b"
  then have "c * b \<le> a div b * b" using assms by (intro mult_right_mono) simp_all
  then show "c * b \<le> a" using div_mult_mod_eq [of a b] pos_mod_sign [OF assms, of a] by linarith
next
  assume "c * b \<le> a"
  then have "c * b div b \<le> a div b" by (rule zdiv_mono1 [OF _ assms])
  then show "c \<le> a div b" using assms by simp
qed

lemma ceil_le_iff:
  assumes "0 < b" shows "((a :: int) + b - 1) div b \<le> c \<longleftrightarrow> a \<le> c * b"
  using le_div_iff [OF assms, of "c + 1" "a + b - 1"] by (auto simp: algebra_simps)

lemma slot_stride_bounds:
  assumes "0 < expert_slot_bytes g"
  shows "expert_slot_bytes g \<le> slot_stride g" "slot_stride g < expert_slot_bytes g + kExpertZoneSlotAlign"
    "slot_stride g mod kExpertZoneSlotAlign = 0"
proof -
  have e: "slot_stride g = (expert_slot_bytes g + 4096 - 1) div 4096 * 4096"
    by (simp add: slot_stride_def align_up_i64_def kExpertZoneSlotAlign_def)
  show "expert_slot_bytes g \<le> slot_stride g"
    using ceil_le_iff [of 4096 "expert_slot_bytes g" "(expert_slot_bytes g + 4096 - 1) div 4096"] unfolding e by simp
  show "slot_stride g < expert_slot_bytes g + kExpertZoneSlotAlign"
    using div_mult_mod_eq [of "expert_slot_bytes g + 4096 - 1" 4096] pos_mod_sign [of 4096 "expert_slot_bytes g + 4096 - 1"]
    unfolding e kExpertZoneSlotAlign_def by linarith
  show "slot_stride g mod kExpertZoneSlotAlign = 0" by (simp add: e kExpertZoneSlotAlign_def)
qed

lemma slots_in_ge:
  assumes "geometry_valid g" "1 \<le> n"
  shows "n \<le> slots_in g s m \<longleftrightarrow> base_pad m + (n - 1) * slot_stride g + expert_slot_bytes g \<le> capacity_bytes g s"
proof -
  have st: "0 < slot_stride g" using assms(1) slot_stride_bounds(1) [of g] by (simp add: geometry_valid_def)
  then have "0 \<le> (n - 1) * slot_stride g" using assms(2) by simp
  then show ?thesis using assms le_div_iff [OF st, of "n - 1" "capacity_bytes g s - base_pad m - expert_slot_bytes g"]
    by (auto simp: slots_in_def Let_def)
qed

lemma slots_in_nonneg: "geometry_valid g \<Longrightarrow> 0 \<le> slots_in g s m"
  using slot_stride_bounds(1) [of g] by (auto simp: slots_in_def Let_def geometry_valid_def pos_imp_zdiv_nonneg_iff)

lemma slots_in_slabs:
  assumes "geometry_valid g" "1 \<le> n" shows "n \<le> slots_in g s m \<longleftrightarrow> slabs_for_slots g n m \<le> s"
  using assms slots_in_ge [OF assms, of s m]
    ceil_le_iff [of "g_slab_bytes g" "base_pad m + (n - 1) * slot_stride g + expert_slot_bytes g" s]
  by (simp add: slabs_for_slots_def Let_def capacity_bytes_def geometry_valid_def)

lemma base_pad_worst: "0 \<le> m \<Longrightarrow> m < kExpertZoneSlotAlign \<Longrightarrow> base_pad m \<le> base_pad 1"
  by (simp add: base_pad_def kExpertZoneSlotAlign_def)

lemma slots_in_worst:
  assumes "geometry_valid g" "0 \<le> m" "m < kExpertZoneSlotAlign" shows "slots_in g s 1 \<le> slots_in g s m"
proof (cases "1 \<le> slots_in g s 1")
  case True
  have "slots_in g s 1 \<le> slots_in g s 1" by simp
  then show ?thesis using base_pad_worst [OF assms(2,3)] unfolding slots_in_ge [OF assms(1) True] by linarith
next
  case False
  then show ?thesis using slots_in_nonneg [OF assms(1), of s m] by simp
qed

definition waste_monotone :: "zone_geometry \<Rightarrow> bool" where
  "waste_monotone g \<longleftrightarrow> (\<forall>w w' c. w \<le> w' \<and> g_within g w' c \<longrightarrow> g_within g w c)"

lemma admissible_worst:
  assumes "geometry_valid g" "waste_monotone g" "0 \<le> m" "m < kExpertZoneSlotAlign" "admissible g s 1"
  shows "admissible g s m"
proof -
  have le: "slots_in g s 1 \<le> slots_in g s m" by (rule slots_in_worst [OF assms(1,3,4)])
  then have "waste_bytes g s (slots_in g s m) \<le> waste_bytes g s (slots_in g s 1)"
    using assms(1) by (simp add: waste_bytes_def geometry_valid_def mult_right_mono)
  then show ?thesis using assms(2,5) le by (auto simp: admissible_def waste_within_def waste_monotone_def Let_def)
qed

lemma grow_slabs_spec:
  assumes "1 \<le> s"
  shows "(grow_slabs g run s = 0 \<and> (\<forall>t. s \<le> t \<and> t \<le> run \<longrightarrow> \<not> admissible g t 1))
    \<or> (s \<le> grow_slabs g run s \<and> grow_slabs g run s \<le> run \<and> admissible g (grow_slabs g run s) 1
       \<and> (\<forall>t. s \<le> t \<and> t < grow_slabs g run s \<longrightarrow> \<not> admissible g t 1))"
  using assms
proof (induction g run s rule: grow_slabs.induct)
  case (1 g run s)
  show ?case
  proof (cases "s \<le> run \<and> \<not> admissible g s 1")
    case True
    then have e: "grow_slabs g run s = grow_slabs g run (s + 1)" by (simp add: grow_slabs.simps [of g run s])
    have "s = t \<or> s + 1 \<le> t" if "s \<le> t" for t using that by linarith
    then show ?thesis using "1.IH" True "1.prems" unfolding e by (smt (verit))
  next
    case False
    then show ?thesis by (auto simp: grow_slabs.simps [of g run s])
  qed
qed

section \<open>Properties\<close>

text \<open>
  \<^verbatim>\<open>slabs_for_slots\<close> is the exact inverse of \<^verbatim>\<open>slots_in\<close>: for every misalignment of the base, a run of \<open>s\<close> slabs
  holds at least \<open>n\<close> slots exactly when \<open>s\<close> is at least \<^verbatim>\<open>slabs_for_slots(n)\<close>, so it is the smallest such run.
\<close>

theorem slabs_for_slots_smallest:
  assumes "geometry_valid g" "1 \<le> n"
  shows "n \<le> slots_in g s m \<longleftrightarrow> slabs_for_slots g n m \<le> s"
  by (rule slots_in_slabs [OF assms])

definition demo_geometry :: zone_geometry where
  "demo_geometry = \<lparr>expert_slot_bytes = 18415616, g_slab_bytes = 272448, g_within = (\<lambda>w c. 0 < c \<and> 10 * w \<le> c)\<rparr>"

theorem slabs_for_slots_smallest_witness:
  "slabs_for_slots demo_geometry 3 64 = 203 \<and> 3 \<le> slots_in demo_geometry 203 64 \<and> \<not> 3 \<le> slots_in demo_geometry 202 64"
proof -
  have "slabs_for_slots demo_geometry 3 64 = 203" "geometry_valid demo_geometry" by code_simp+
  then show ?thesis using slabs_for_slots_smallest [of demo_geometry 3 203 64] slabs_for_slots_smallest [of demo_geometry 3 202 64] by simp
qed

text \<open>
  \<^verbatim>\<open>grant_slabs\<close> sizes a grant before its base is known. When it returns a size, the size fits the run, and
  wherever the base lands the run holds the slots asked for within the waste bound; it is the smallest size that
  is admissible under the worst pad, and it returns 0 only when no size up to the run's length is.
\<close>

theorem grant_slabs_sound:
  assumes "geometry_valid g" "waste_monotone g" "1 \<le> ask" "1 \<le> run"
  shows "let s = grant_slabs g ask run; good = (\<lambda>t. ask \<le> slots_in g t 1 \<and> admissible g t 1) in
    (s = 0 \<and> (\<forall>t \<le> run. \<not> good t))
    \<or> (1 \<le> s \<and> s \<le> run \<and> good s \<and> (\<forall>t < s. \<not> good t)
       \<and> (\<forall>m. 0 \<le> m \<and> m < kExpertZoneSlotAlign \<longrightarrow> ask \<le> slots_in g s m \<and> admissible g s m))"
proof -
  let ?first = "slabs_for_slots g ask 1"
  let ?s = "grow_slabs g run ?first"
  have ge: "ask \<le> slots_in g t 1 \<longleftrightarrow> ?first \<le> t" for t by (rule slots_in_slabs [OF assms(1,3)])
  have "slots_in g 0 1 = 0" using assms(1) by (simp add: slots_in_def capacity_bytes_def base_pad_def kExpertZoneSlotAlign_def geometry_valid_def)
  then have "\<not> ?first \<le> 0" using ge [of 0] assms(3) by simp
  then have s0: "1 \<le> ?first" by simp
  have e: "grant_slabs g ask run = ?s" using assms(3,4) by (simp add: grant_slabs_def)
  from grow_slabs_spec [OF s0, of g run] show ?thesis
  proof
    assume "?s = 0 \<and> (\<forall>t. ?first \<le> t \<and> t \<le> run \<longrightarrow> \<not> admissible g t 1)"
    then show ?thesis unfolding e Let_def ge by blast
  next
    assume h: "?first \<le> ?s \<and> ?s \<le> run \<and> admissible g ?s 1 \<and> (\<forall>t. ?first \<le> t \<and> t < ?s \<longrightarrow> \<not> admissible g t 1)"
    have "ask \<le> slots_in g ?s m \<and> admissible g ?s m" if "0 \<le> m" "m < kExpertZoneSlotAlign" for m
      using slots_in_worst [OF assms(1) that, of ?s] admissible_worst [OF assms(1,2) that, of ?s] h ge [of ?s] by linarith
    then show ?thesis unfolding e Let_def ge using h s0 by (smt (verit, best))
  qed
qed

theorem grant_slabs_sound_witness:
  "grant_slabs demo_geometry 2 500 = 136
   \<and> 2 \<le> slots_in demo_geometry 136 640 \<and> admissible demo_geometry 136 640"
proof -
  have v: "geometry_valid demo_geometry" by code_simp
  have w: "waste_monotone demo_geometry" by (auto simp: waste_monotone_def demo_geometry_def)
  have "slabs_for_slots demo_geometry 2 1 = 136" "admissible demo_geometry 136 1" by code_simp+
  then have "grant_slabs demo_geometry 2 500 = 136" by (simp add: grant_slabs_def grow_slabs.simps)
  then show ?thesis using grant_slabs_sound [OF v w, of 2 500] by (simp add: Let_def kExpertZoneSlotAlign_def)
qed

text \<open>
  A zone sized by the geometry is accepted by the cache: with the run's base and bytes, the stride of the
  geometry and the slot count for the base's actual misalignment, every assertion of \<^verbatim>\<open>add_elastic_zone\<close> holds,
  and one slot more would not fit.
\<close>

theorem sized_zone_is_accepted:
  assumes "geometry_valid g" "expert_bytes c = expert_slot_bytes g" "valid_cache_gpu c gpu" "b \<noteq> 0"
    "n = slots_in g s (b mod kExpertZoneSlotAlign)" "1 \<le> n"
  shows "(\<exists>c'. add_elastic_zone gpu b (capacity_bytes g s) (slot_stride g) n cookie c
            = Inr (next_elastic_id (ec_gpus c ! nat gpu), c'))
    \<and> add_elastic_zone gpu b (capacity_bytes g s) (slot_stride g) (n + 1) cookie c = Inl AssertFailed"
proof -
  let ?m = "b mod kExpertZoneSlotAlign"
  have pad: "zone_pad b = base_pad ?m" by (simp add: zone_pad_def base_pad_def Let_def)
  have st: "0 < slot_stride g" using assms(1) slot_stride_bounds(1) [of g] by (simp add: geometry_valid_def)
  have fit: "zone_pad b + (n - 1) * slot_stride g + expert_bytes c \<le> capacity_bytes g s"
    using slots_in_ge [OF assms(1,6), of s ?m] assms(2,5) pad by simp
  have "\<not> n + 1 \<le> slots_in g s ?m" using assms(5) by simp
  then have nofit: "\<not> zone_pad b + (n + 1 - 1) * slot_stride g + expert_bytes c \<le> capacity_bytes g s"
    using slots_in_ge [OF assms(1), of "n + 1" s ?m] assms(2,6) pad by simp
  show ?thesis using assms(3,4,6) st fit nofit by (simp add: add_elastic_zone_def gpu_state_def Let_def)
qed

theorem sized_zone_is_accepted_witness:
  "\<exists>c'. add_elastic_zone 0 64 (capacity_bytes demo_geometry 136) (slot_stride demo_geometry) 2 7
      (expert_cache_init [\<lparr>region_stable = 0, region_streaming = 0, stable_zone_bytes = 0, spill_zone_bytes = 0, prefetch_zone_bytes = 0\<rparr>]
         18415616 False) = Inr (0, c')"
proof -
  let ?c = "expert_cache_init [\<lparr>region_stable = 0, region_streaming = 0, stable_zone_bytes = 0, spill_zone_bytes = 0, prefetch_zone_bytes = 0\<rparr>] 18415616 False"
  have "geometry_valid demo_geometry" "expert_bytes ?c = expert_slot_bytes demo_geometry" "valid_cache_gpu ?c 0"
    "2 = slots_in demo_geometry 136 (64 mod kExpertZoneSlotAlign)" "next_elastic_id (ec_gpus ?c ! nat 0) = 0" by code_simp+
  then show ?thesis using sized_zone_is_accepted [of demo_geometry ?c 0 64 2 136 7] by simp
qed

end
