(* ===== verification/Spsc_Ring.thy ===== *)
theory Spsc_Ring
  imports Prelude
begin

text \<open>
  The single-producer single-consumer ring of \<^verbatim>\<open>src/src/daemon/spsc_ring.h\<close> with its header of
  \<^verbatim>\<open>src/src/daemon/ipc_protocol.h\<close>. The sequence numbers are 64-bit words and the slot count a 32-bit word,
  as in the code; a slot is the list of its bytes. First the operations as atomic functions, with the
  refinement of a bounded queue; then the two threads as interleaved steps, one step per access of the
  shared memory, with the fences read as program order.
\<close>

unbundle bit_operations_syntax

section \<open>The ring\<close>

type_synonym slot = "u8 list"

record ring =
  producer_seq :: u64
  consumer_seq :: u64
  slot_count :: u32
  slot_size :: u32
  slots :: "slot list"

definition ring_init :: "u32 \<Rightarrow> u32 \<Rightarrow> ring" where
  "ring_init n sz =
     \<lparr>producer_seq = 0, consumer_seq = 0, slot_count = n, slot_size = sz,
      slots = replicate (unat n) (replicate (unat sz) 0)\<rparr>"

definition ring_idx :: "ring \<Rightarrow> u64 \<Rightarrow> u32" where
  "ring_idx r s = ucast (s AND ucast (slot_count r - 1))"

definition try_write :: "slot \<Rightarrow> ring \<Rightarrow> bool \<times> ring" where
  "try_write d r =
     (let prod = producer_seq r; cns = consumer_seq r in
      if ucast (slot_count r) \<le> prod - cns then (False, r)
      else (True, r\<lparr>slots := (slots r)[unat (ring_idx r prod) := d], producer_seq := prod + 1\<rparr>))"

definition try_read :: "ring \<Rightarrow> slot option \<times> ring" where
  "try_read r =
     (let cns = consumer_seq r; prod = producer_seq r in
      if prod \<le> cns then (None, r)
      else (Some (slots r ! unat (ring_idx r cns)), r\<lparr>consumer_seq := cns + 1\<rparr>))"

text \<open>\<^verbatim>\<open>drain\<close> returns the slots it hands to the callback, in order.\<close>

definition drain_avail :: "u32 \<Rightarrow> ring \<Rightarrow> u32" where
  "drain_avail max_count r = ucast (min (ucast max_count) (producer_seq r - consumer_seq r))"

definition drain :: "u32 \<Rightarrow> ring \<Rightarrow> slot list \<times> ring" where
  "drain max_count r =
     (let cns = consumer_seq r; avail = drain_avail max_count r;
          out = map (\<lambda>i. slots r ! unat (ring_idx r (cns + of_nat i))) [0..<unat avail]
      in (out, if 0 < avail then r\<lparr>consumer_seq := cns + ucast avail\<rparr> else r))"

definition is_empty :: "ring \<Rightarrow> bool" where
  "is_empty r \<longleftrightarrow> producer_seq r = consumer_seq r"

definition is_full :: "ring \<Rightarrow> bool" where
  "is_full r \<longleftrightarrow> ucast (slot_count r) \<le> producer_seq r - consumer_seq r"

definition available :: "ring \<Rightarrow> u32" where
  "available r = ucast (producer_seq r - consumer_seq r)"

section \<open>Bounded queues\<close>

text \<open>Runs of a client: \<open>Some x\<close> writes \<open>x\<close>, \<open>None\<close> reads. The result collects what was accepted and what was read.\<close>

primrec fifo_run :: "('a \<Rightarrow> 'q \<Rightarrow> bool \<times> 'q) \<Rightarrow> ('q \<Rightarrow> 'a option \<times> 'q) \<Rightarrow> 'a option list \<Rightarrow> 'q \<Rightarrow> 'a list \<times> 'a list \<times> 'q" where
  "fifo_run enq deq [] q = ([], [], q)"
| "fifo_run enq deq (op # ops) q =
     (case op of
        Some x \<Rightarrow> (let (b, q1) = enq x q; (w, r, q2) = fifo_run enq deq ops q1 in ((if b then x # w else w), r, q2))
      | None \<Rightarrow> (let (v, q1) = deq q; (w, r, q2) = fifo_run enq deq ops q1
                in (w, (case v of None \<Rightarrow> r | Some y \<Rightarrow> y # r), q2)))"

text \<open>
  What a client of the ring relies on. The budget \<open>n\<close> of \<open>invar n q\<close> is the number of further writes that
  the invariant still allows: the sequence numbers of the ring are finite.
\<close>

locale bounded_fifo =
  fixes enq :: "'a \<Rightarrow> 'q \<Rightarrow> bool \<times> 'q"
    and deq :: "'q \<Rightarrow> 'a option \<times> 'q"
    and content :: "'q \<Rightarrow> 'a list"
    and cap :: nat
    and invar :: "nat \<Rightarrow> 'q \<Rightarrow> bool"
  assumes enq_room: "\<lbrakk>invar (Suc n) q; length (content q) < cap\<rbrakk> \<Longrightarrow>
      fst (enq x q) \<and> content (snd (enq x q)) = content q @ [x] \<and> invar n (snd (enq x q))"
    and enq_full: "\<lbrakk>invar n q; length (content q) = cap\<rbrakk> \<Longrightarrow> enq x q = (False, q)"
    and deq_some: "\<lbrakk>invar n q; content q = x # xs\<rbrakk> \<Longrightarrow>
      fst (deq q) = Some x \<and> content (snd (deq q)) = xs \<and> invar n (snd (deq q))"
    and deq_none: "\<lbrakk>invar n q; content q = []\<rbrakk> \<Longrightarrow> deq q = (None, q)"
    and invar_bound: "invar n q \<Longrightarrow> length (content q) \<le> cap"
    and invar_less: "invar (Suc n) q \<Longrightarrow> invar n q"
begin

lemma run_fifo:
  assumes "invar (length (filter (\<lambda>op. op \<noteq> None) ops)) q" "fifo_run enq deq ops q = (w, r, q')"
  shows "content q @ w = r @ content q' \<and> length (content q') \<le> cap"
  using assms
proof (induction ops arbitrary: q w r q')
  case Nil
  then show ?case using invar_bound by auto
next
  case (Cons op ops)
  show ?case
  proof (cases op)
    case (Some x)
    let ?n = "length (filter (\<lambda>op. op \<noteq> None) ops)"
    have inv: "invar (Suc ?n) q" using Cons.prems(1) Some by simp
    obtain b q1 where e: "enq x q = (b, q1)" by fastforce
    obtain w1 r1 q2 where rr: "fifo_run enq deq ops q1 = (w1, r1, q2)" by (metis prod_cases3)
    have out: "w = (if b then x # w1 else w1)" "r = r1" "q' = q2" using Cons.prems(2) Some e rr by auto
    show ?thesis
    proof (cases "length (content q) < cap")
      case True
      then have "b" "content q1 = content q @ [x]" "invar ?n q1" using enq_room [OF inv True, of x] e by auto
      then show ?thesis using Cons.IH [OF \<open>invar ?n q1\<close> rr] out by simp
    next
      case False
      then have "length (content q) = cap" using invar_bound [OF inv] by simp
      then have "\<not> b" "q1 = q" using enq_full [OF inv, of x] e by auto
      then show ?thesis using Cons.IH [of q w1 r1] invar_less [OF inv] rr out by simp
    qed
  next
    case None
    let ?n = "length (filter (\<lambda>op. op \<noteq> None) ops)"
    have inv: "invar ?n q" using Cons.prems(1) None by simp
    obtain v q1 where e: "deq q = (v, q1)" by fastforce
    obtain w1 r1 q2 where rr: "fifo_run enq deq ops q1 = (w1, r1, q2)" by (metis prod_cases3)
    have out: "w = w1" "r = (case v of None \<Rightarrow> r1 | Some y \<Rightarrow> y # r1)" "q' = q2" using Cons.prems(2) None e rr by auto
    show ?thesis
    proof (cases "content q")
      case Nil
      then have "v = None" "q1 = q" using deq_none [OF inv] e by auto
      then show ?thesis using Cons.IH [of q w1 r1] inv rr out by simp
    next
      case (Cons y ys)
      then have "v = Some y" "content q1 = ys" "invar ?n q1" using deq_some [OF inv] e by auto
      then show ?thesis using Cons.IH [OF \<open>invar ?n q1\<close> rr] out \<open>content q = y # ys\<close> by simp
    qed
  qed
qed

end

section \<open>The ring is a bounded queue\<close>

definition ring_ok :: "nat \<Rightarrow> nat \<Rightarrow> ring \<Rightarrow> bool" where
  "ring_ok k n r \<longleftrightarrow>
     k < 32 \<and> slot_count r = 2 ^ k \<and> length (slots r) = 2 ^ k
     \<and> unat (consumer_seq r) \<le> unat (producer_seq r) \<and> unat (producer_seq r) \<le> unat (consumer_seq r) + 2 ^ k
     \<and> unat (producer_seq r) + n < 2 ^ 64"

definition contents :: "ring \<Rightarrow> slot list" where
  "contents r = map (\<lambda>i. slots r ! (i mod length (slots r))) [unat (consumer_seq r)..<unat (producer_seq r)]"

lemma slot_count_unat: "k < 32 \<Longrightarrow> unat (2 ^ k :: u32) = 2 ^ k"
  using unat_of_nat [of "2 ^ k", where 'a = 32] power_strict_increasing [of k 32 "2 :: nat"]
  by (simp add: take_bit_eq_mod)

lemma ring_idx_unat:
  assumes "k < 32" "slot_count r = 2 ^ k" shows "unat (ring_idx r s) = unat s mod 2 ^ k"
proof -
  have "ucast (2 ^ k - 1 :: u32) = (mask k :: u64)"
    using assms(1) by (simp add: mask_eq_decr_exp [symmetric] ucast_mask_eq)
  then have "s AND ucast (slot_count r - 1) = take_bit k s" by (simp add: assms(2) take_bit_eq_mask)
  moreover have "unat (take_bit k s) = unat s mod 2 ^ k"
    unfolding unsigned_take_bit_eq by (rule take_bit_eq_mod)
  moreover have "unat s mod 2 ^ k < 2 ^ 32"
    using power_strict_increasing [OF assms(1), of "2 :: nat"] by (intro less_trans [OF mod_less_divisor]) simp_all
  ultimately show ?thesis by (simp add: ring_idx_def unsigned_ucast_eq take_bit_eq_mod)
qed

lemma contents_length [simp]: "length (contents r) = unat (producer_seq r) - unat (consumer_seq r)"
  by (simp add: contents_def)

lemma seq_diff: "ring_ok k n r \<Longrightarrow> unat (producer_seq r - consumer_seq r) = length (contents r)"
  by (simp add: ring_ok_def unat_sub word_le_nat_alt)

lemma slot_count_u64: "k < 32 \<Longrightarrow> slot_count r = 2 ^ k \<Longrightarrow> unat (ucast (slot_count r) :: u64) = 2 ^ k"
  using slot_count_unat [of k] power_strict_increasing [of k 64 "2 :: nat"]
  by (simp add: unsigned_ucast_eq take_bit_eq_mod)

lemma full_test: "ring_ok k n r \<Longrightarrow> ucast (slot_count r) \<le> producer_seq r - consumer_seq r \<longleftrightarrow> 2 ^ k \<le> length (contents r)"
  using seq_diff [of k n r] slot_count_u64 [of k r] by (simp add: word_le_nat_alt ring_ok_def)

lemma empty_test: "ring_ok k n r \<Longrightarrow> producer_seq r \<le> consumer_seq r \<longleftrightarrow> contents r = []"
  using contents_length [of r] by (auto simp: word_le_nat_alt ring_ok_def contents_def)

lemma mod_less_distinct:
  assumes "a < b" "b < a + m" shows "a mod m \<noteq> b mod (m :: nat)"
proof
  assume "a mod m = b mod m"
  then have "(b - a) mod m = 0" using assms(1) by (metis less_imp_le_nat mod_eq_dvd_iff_nat dvd_imp_mod_0)
  then show False using assms by (simp add: mod_less)
qed

lemma try_write_room:
  assumes ok: "ring_ok k (Suc n) r" and room: "length (contents r) < 2 ^ k"
  shows "fst (try_write d r)" "contents (snd (try_write d r)) = contents r @ [d]" "ring_ok k n (snd (try_write d r))"
proof -
  let ?p = "unat (producer_seq r)" and ?c = "unat (consumer_seq r)"
  have R: "k < 32" "slot_count r = 2 ^ k" "length (slots r) = 2 ^ k" "?c \<le> ?p" "?p + Suc n < 2 ^ 64"
    using ok by (simp_all add: ring_ok_def)
  have p1: "unat (producer_seq r + 1) = ?p + 1" using unat_next [of "producer_seq r"] R(5) by simp
  have w: "try_write d r = (True, r\<lparr>slots := (slots r)[?p mod 2 ^ k := d], producer_seq := producer_seq r + 1\<rparr>)"
    using room full_test [OF ok] by (simp add: try_write_def Let_def ring_idx_unat [OF R(1,2)])
  show "fst (try_write d r)" by (simp add: w)
  show "ring_ok k n (snd (try_write d r))" using ok room by (simp add: w ring_ok_def p1)
  have "(slots r)[?p mod 2 ^ k := d] ! (i mod 2 ^ k) = slots r ! (i mod 2 ^ k)" if "?c \<le> i" "i < ?p" for i
  proof -
    have "?p < i + 2 ^ k" using that room by simp
    then show ?thesis using mod_less_distinct [OF that(2), of "2 ^ k"] by (metis nth_list_update_neq)
  qed
  then show "contents (snd (try_write d r)) = contents r @ [d]"
    using R(3,4) by (simp add: w contents_def p1)
qed

lemma try_write_full: "ring_ok k n r \<Longrightarrow> length (contents r) = 2 ^ k \<Longrightarrow> try_write d r = (False, r)"
  using full_test [of k n r] by (simp add: try_write_def Let_def)

lemma try_read_some:
  assumes ok: "ring_ok k n r" and c: "contents r = x # xs"
  shows "fst (try_read r) = Some x" "contents (snd (try_read r)) = xs" "ring_ok k n (snd (try_read r))"
proof -
  let ?p = "unat (producer_seq r)" and ?c = "unat (consumer_seq r)"
  have R: "k < 32" "slot_count r = 2 ^ k" "length (slots r) = 2 ^ k" "?c \<le> ?p" "?p < 2 ^ 64"
    using ok by (simp_all add: ring_ok_def)
  have lt: "?c < ?p" using c contents_length [of r] by (metis length_greater_0_conv list.discI zero_less_diff)
  have c1: "unat (consumer_seq r + 1) = ?c + 1" using unat_next [of "consumer_seq r"] lt R(5) by simp
  have r: "try_read r = (Some (slots r ! (?c mod 2 ^ k)), r\<lparr>consumer_seq := consumer_seq r + 1\<rparr>)"
    using c empty_test [OF ok] by (simp add: try_read_def Let_def ring_idx_unat [OF R(1,2)])
  have "contents r = slots r ! (?c mod 2 ^ k) # map (\<lambda>i. slots r ! (i mod 2 ^ k)) [?c + 1..<?p]"
    unfolding contents_def R(3) using lt by (subst upt_conv_Cons) simp_all
  then show "fst (try_read r) = Some x" "contents (snd (try_read r)) = xs"
    using c R(3) by (simp_all add: r contents_def c1)
  show "ring_ok k n (snd (try_read r))" using ok lt by (simp add: r ring_ok_def c1)
qed

lemma try_read_none: "ring_ok k n r \<Longrightarrow> contents r = [] \<Longrightarrow> try_read r = (None, r)"
  using empty_test [of k n r] by (simp add: try_read_def Let_def)

interpretation ring_fifo: bounded_fifo try_write try_read contents "2 ^ k" "ring_ok k" for k
proof unfold_locales
  show "length (contents r) \<le> 2 ^ k" if "ring_ok k n r" for n r using that by (auto simp: ring_ok_def)
  show "ring_ok k n r" if "ring_ok k (Suc n) r" for n r using that by (auto simp: ring_ok_def)
qed (simp_all add: try_write_room try_write_full try_read_some try_read_none)

lemma drain_spec:
  assumes ok: "ring_ok k n r"
  shows "fst (drain m r) = take (unat m) (contents r)" "contents (snd (drain m r)) = drop (unat m) (contents r)"
    "ring_ok k n (snd (drain m r))"
proof -
  let ?p = "unat (producer_seq r)" and ?c = "unat (consumer_seq r)" and ?a = "min (unat m) (length (contents r))"
  have R: "k < 32" "slot_count r = 2 ^ k" "length (slots r) = 2 ^ k" "?c \<le> ?p" "?p < 2 ^ 64"
    using ok by (simp_all add: ring_ok_def)
  have m64: "unat (ucast m :: u64) = unat m" using unsigned_less [of m, where 'a = nat] by (simp add: unsigned_ucast_eq take_bit_eq_mod)
  have "unat (min (ucast m) (producer_seq r - consumer_seq r)) = ?a"
    using seq_diff [OF ok] m64 by (simp add: min_def word_le_nat_alt)
  moreover have "?a < 2 ^ 32" using unsigned_less [of m, where 'a = nat] by (simp add: min_less_iff_disj)
  ultimately have a: "unat (drain_avail m r) = ?a" by (simp add: drain_avail_def unsigned_ucast_eq take_bit_eq_mod)
  have idx: "unat (consumer_seq r + of_nat i) = ?c + i" if "i \<le> ?a" for i
  proof -
    have "i \<le> ?p - ?c" using that by simp
    then have "?c + i < 2 ^ 64" using R(4,5) by linarith
    moreover from this have "unat (of_nat i :: u64) = i" by (simp add: unat_of_nat take_bit_eq_mod)
    ultimately show ?thesis using unat_add_lem [of "consumer_seq r" "of_nat i"] by simp
  qed
  have out: "fst (drain m r) = map (\<lambda>i. slots r ! ((?c + i) mod 2 ^ k)) [0..<?a]"
    by (simp add: drain_def Let_def a ring_idx_unat [OF R(1,2)] idx)
  also have "\<dots> = take (unat m) (contents r)"
    by (rule nth_equalityI) (auto simp: contents_def R(3) nth_upt less_diff_conv2)
  finally show "fst (drain m r) = take (unat m) (contents r)" .
  have cs: "unat (consumer_seq (snd (drain m r))) = ?c + ?a"
  proof -
    have "(ucast (drain_avail m r) :: u64) = of_nat ?a" by (metis a of_nat_unat)
    moreover have "drain_avail m r = 0 \<Longrightarrow> ?a = 0" using a by (metis unat_0)
    ultimately show ?thesis using idx [of ?a] idx [of 0] by (auto simp: drain_def Let_def word_neq_0_conv [symmetric])
  qed
  have fields: "producer_seq (snd (drain m r)) = producer_seq r" "slots (snd (drain m r)) = slots r"
    "slot_count (snd (drain m r)) = slot_count r" by (simp_all add: drain_def Let_def)
  show "contents (snd (drain m r)) = drop (unat m) (contents r)"
    unfolding contents_def fields cs drop_map drop_upt by (simp add: min_def)
  show "ring_ok k n (snd (drain m r))" using ok by (auto simp: ring_ok_def fields cs)
qed

section \<open>The two threads\<close>

text \<open>
  Each thread as a program counter with its local variables. The producer of \<^verbatim>\<open>try_write\<close> has loaded both
  sequence numbers and found room (\<open>PCopying\<close>), then copied the slot (\<open>PPublishing\<close>); the consumer of
  \<^verbatim>\<open>try_read\<close> has found a slot (\<open>CReading\<close>), then copied it out (\<open>CPublishing\<close>); in \<^verbatim>\<open>drain\<close> it has handed
  the first \<open>i\<close> of \<open>avail\<close> slots to the callback (\<open>CDraining\<close>). The lists \<open>s_written\<close> and \<open>s_read\<close> record what was
  published by the producer and what was consumed.
\<close>

datatype producer_pc = PIdle | PCopying slot u64 | PPublishing slot u64

datatype consumer_pc = CIdle | CReading u64 | CPublishing slot u64 | CDraining u64 u32 u32 "slot list"

record spsc =
  s_ring :: ring
  s_prod :: producer_pc
  s_cons :: consumer_pc
  s_written :: "slot list"
  s_read :: "slot list"

definition spsc_init :: "u32 \<Rightarrow> u32 \<Rightarrow> spsc" where
  "spsc_init n sz = \<lparr>s_ring = ring_init n sz, s_prod = PIdle, s_cons = CIdle, s_written = [], s_read = []\<rparr>"

inductive spsc_step :: "spsc \<Rightarrow> spsc \<Rightarrow> bool" where
  p_start: "\<lbrakk>s_prod s = PIdle; \<not> ucast (slot_count (s_ring s)) \<le> producer_seq (s_ring s) - consumer_seq (s_ring s)\<rbrakk>
    \<Longrightarrow> spsc_step s (s\<lparr>s_prod := PCopying d (producer_seq (s_ring s))\<rparr>)"
| p_copy: "s_prod s = PCopying d p \<Longrightarrow>
    spsc_step s (s\<lparr>s_ring := (s_ring s)\<lparr>slots := (slots (s_ring s))[unat (ring_idx (s_ring s) p) := d]\<rparr>,
                    s_prod := PPublishing d p\<rparr>)"
| p_publish: "s_prod s = PPublishing d p \<Longrightarrow>
    spsc_step s (s\<lparr>s_ring := (s_ring s)\<lparr>producer_seq := p + 1\<rparr>, s_prod := PIdle, s_written := s_written s @ [d]\<rparr>)"
| c_start: "\<lbrakk>s_cons s = CIdle; \<not> producer_seq (s_ring s) \<le> consumer_seq (s_ring s)\<rbrakk> \<Longrightarrow>
    spsc_step s (s\<lparr>s_cons := CReading (consumer_seq (s_ring s))\<rparr>)"
| c_copy: "s_cons s = CReading cns \<Longrightarrow>
    spsc_step s (s\<lparr>s_cons := CPublishing (slots (s_ring s) ! unat (ring_idx (s_ring s) cns)) cns\<rparr>)"
| c_publish: "s_cons s = CPublishing d cns \<Longrightarrow>
    spsc_step s (s\<lparr>s_ring := (s_ring s)\<lparr>consumer_seq := cns + 1\<rparr>, s_cons := CIdle, s_read := s_read s @ [d]\<rparr>)"
| c_drain: "s_cons s = CIdle \<Longrightarrow>
    spsc_step s (s\<lparr>s_cons := CDraining (consumer_seq (s_ring s)) (drain_avail m (s_ring s)) 0 []\<rparr>)"
| c_callback: "\<lbrakk>s_cons s = CDraining cns avail i acc; i < avail\<rbrakk> \<Longrightarrow>
    spsc_step s (s\<lparr>s_cons := CDraining cns avail (i + 1)
                     (acc @ [slots (s_ring s) ! unat (ring_idx (s_ring s) (cns + ucast i))])\<rparr>)"
| c_drained: "\<lbrakk>s_cons s = CDraining cns avail i acc; \<not> i < avail\<rbrakk> \<Longrightarrow>
    spsc_step s (s\<lparr>s_ring := (if 0 < avail then (s_ring s)\<lparr>consumer_seq := cns + ucast avail\<rparr> else s_ring s),
                    s_cons := CIdle, s_read := s_read s @ acc\<rparr>)"

inductive spsc_reachable :: "u32 \<Rightarrow> u32 \<Rightarrow> spsc \<Rightarrow> bool" for n sz where
  spsc_start: "spsc_reachable n sz (spsc_init n sz)"
| spsc_next: "\<lbrakk>spsc_reachable n sz s; spsc_step s s'\<rbrakk> \<Longrightarrow> spsc_reachable n sz s'"

text \<open>The invariant, over the number of slots published and consumed.\<close>

definition prod_inv :: "nat \<Rightarrow> spsc \<Rightarrow> bool" where
  "prod_inv k s \<longleftrightarrow>
     (let np = length (s_written s); nc = length (s_read s) in
      case s_prod s of
        PIdle \<Rightarrow> True
      | PCopying d p \<Rightarrow> p = of_nat np \<and> np < nc + 2 ^ k
      | PPublishing d p \<Rightarrow> p = of_nat np \<and> np < nc + 2 ^ k \<and> slots (s_ring s) ! (np mod 2 ^ k) = d)"

definition cons_inv :: "spsc \<Rightarrow> bool" where
  "cons_inv s \<longleftrightarrow>
     (let np = length (s_written s); nc = length (s_read s) in
      case s_cons s of
        CIdle \<Rightarrow> True
      | CReading c \<Rightarrow> c = of_nat nc \<and> nc < np
      | CPublishing d c \<Rightarrow> c = of_nat nc \<and> nc < np \<and> d = s_written s ! nc
      | CDraining c avail i acc \<Rightarrow> c = of_nat nc \<and> nc + unat avail \<le> np \<and> i \<le> avail
          \<and> acc = take (unat i) (drop nc (s_written s)))"

definition ring_inv :: "nat \<Rightarrow> spsc \<Rightarrow> bool" where
  "ring_inv k s \<longleftrightarrow>
     (let np = length (s_written s); nc = length (s_read s); r = s_ring s in
      k < 32 \<and> slot_count r = 2 ^ k \<and> length (slots r) = 2 ^ k \<and> producer_seq r = of_nat np \<and> consumer_seq r = of_nat nc
      \<and> nc \<le> np \<and> np \<le> nc + 2 ^ k \<and> s_read s = take nc (s_written s)
      \<and> (\<forall>i. nc \<le> i \<and> i < np \<longrightarrow> slots r ! (i mod 2 ^ k) = s_written s ! i))"

definition spsc_inv :: "nat \<Rightarrow> spsc \<Rightarrow> bool" where
  "spsc_inv k s \<longleftrightarrow> ring_inv k s \<and> prod_inv k s \<and> cons_inv s"

lemmas spsc_inv_defs = spsc_inv_def ring_inv_def prod_inv_def cons_inv_def Let_def

lemma unat_of_nat64: "n < 2 ^ 64 \<Longrightarrow> unat (of_nat n :: u64) = n"
  by (simp add: unat_of_nat take_bit_eq_mod)

lemma of_nat_diff64: "\<lbrakk>c \<le> p; p < 2 ^ 64\<rbrakk> \<Longrightarrow> unat (of_nat p - of_nat c :: u64) = p - c"
  by (simp add: unat_sub word_le_nat_alt unat_of_nat64)

text \<open>What the invariant says in a state whose writes still fit the sequence numbers.\<close>

lemma spsc_facts:
  assumes "spsc_inv k s" "length (s_written s) < 2 ^ 64"
  shows "\<not> ucast (slot_count (s_ring s)) \<le> producer_seq (s_ring s) - consumer_seq (s_ring s)
      \<Longrightarrow> length (s_written s) < length (s_read s) + 2 ^ k"
    "\<not> producer_seq (s_ring s) \<le> consumer_seq (s_ring s) \<longleftrightarrow> length (s_read s) < length (s_written s)"
    "j < 2 ^ 64 \<Longrightarrow> unat (ring_idx (s_ring s) (of_nat j)) = j mod 2 ^ k"
    "length (s_read s) + unat (drain_avail m (s_ring s)) \<le> length (s_written s)"
proof -
  let ?np = "length (s_written s)" and ?nc = "length (s_read s)"
  have R: "k < 32" "slot_count (s_ring s) = 2 ^ k" "producer_seq (s_ring s) = of_nat ?np" "consumer_seq (s_ring s) = of_nat ?nc" "?nc \<le> ?np"
    using assms(1) by (simp_all add: spsc_inv_defs)
  note diff = of_nat_diff64 [OF R(5) assms(2)]
  show "?np < ?nc + 2 ^ k" if "\<not> ucast (slot_count (s_ring s)) \<le> producer_seq (s_ring s) - consumer_seq (s_ring s)"
    using that slot_count_u64 [OF R(1,2)] diff by (simp add: R(3,4) word_le_nat_alt)
  show "\<not> producer_seq (s_ring s) \<le> consumer_seq (s_ring s) \<longleftrightarrow> ?nc < ?np"
    using assms(2) R(5) unat_of_nat64 [of ?np] unat_of_nat64 [of ?nc] by (auto simp: R(3,4) word_le_nat_alt)
  show "unat (ring_idx (s_ring s) (of_nat j)) = j mod 2 ^ k" if "j < 2 ^ 64"
    using ring_idx_unat [OF R(1,2)] unat_of_nat64 [OF that] by simp
  have "unat (drain_avail m (s_ring s)) \<le> unat (min (ucast m) (producer_seq (s_ring s) - consumer_seq (s_ring s)))"
    by (simp add: drain_avail_def unsigned_ucast_eq take_bit_eq_mod)
  also have "\<dots> \<le> ?np - ?nc" using diff by (simp add: R(3,4) min_def word_le_nat_alt)
  finally show "?nc + unat (drain_avail m (s_ring s)) \<le> ?np" using R(5) by simp
qed

lemma producer_step_inv:
  assumes inv: "spsc_inv k s" and len: "length (s_written s) < 2 ^ 64"
  shows "\<lbrakk>s_prod s = PIdle; \<not> ucast (slot_count (s_ring s)) \<le> producer_seq (s_ring s) - consumer_seq (s_ring s)\<rbrakk> \<Longrightarrow>
      spsc_inv k (s\<lparr>s_prod := PCopying d (producer_seq (s_ring s))\<rparr>)"
    "s_prod s = PCopying d p \<Longrightarrow>
      spsc_inv k (s\<lparr>s_ring := (s_ring s)\<lparr>slots := (slots (s_ring s))[unat (ring_idx (s_ring s) p) := d]\<rparr>, s_prod := PPublishing d p\<rparr>)"
    "s_prod s = PPublishing d p \<Longrightarrow>
      spsc_inv k (s\<lparr>s_ring := (s_ring s)\<lparr>producer_seq := p + 1\<rparr>, s_prod := PIdle, s_written := s_written s @ [d]\<rparr>)"
proof -
  let ?np = "length (s_written s)" and ?nc = "length (s_read s)" and ?S = "slots (s_ring s)"
  show "spsc_inv k (s\<lparr>s_prod := PCopying d (producer_seq (s_ring s))\<rparr>)"
    if "s_prod s = PIdle" "\<not> ucast (slot_count (s_ring s)) \<le> producer_seq (s_ring s) - consumer_seq (s_ring s)"
    using inv spsc_facts(1) [OF inv len that(2)] by (simp add: spsc_inv_defs cong: producer_pc.case_cong consumer_pc.case_cong)
  show "spsc_inv k (s\<lparr>s_ring := (s_ring s)\<lparr>slots := ?S[unat (ring_idx (s_ring s) p) := d]\<rparr>, s_prod := PPublishing d p\<rparr>)"
    if pc: "s_prod s = PCopying d p"
  proof -
    have p: "p = of_nat ?np" "?np < ?nc + 2 ^ k" "length ?S = 2 ^ k" using inv pc by (simp_all add: spsc_inv_defs)
    have idx: "unat (ring_idx (s_ring s) p) = ?np mod 2 ^ k" using spsc_facts(3) [OF inv len len] p(1) by simp
    have "?S[?np mod 2 ^ k := d] ! (i mod 2 ^ k) = ?S ! (i mod 2 ^ k)" if i: "?nc \<le> i" "i < ?np" for i
      using mod_less_distinct [OF i(2), of "2 ^ k"] i(1) p(2) by (metis add_le_mono1 nth_list_update_neq order_less_le_trans)
    then show ?thesis using inv pc p unfolding idx by (simp add: spsc_inv_defs cong: producer_pc.case_cong consumer_pc.case_cong)
  qed
  show "spsc_inv k (s\<lparr>s_ring := (s_ring s)\<lparr>producer_seq := p + 1\<rparr>, s_prod := PIdle, s_written := s_written s @ [d]\<rparr>)"
    if pc: "s_prod s = PPublishing d p"
    using inv pc
    by (auto simp: spsc_inv_defs nth_append less_Suc_eq word_le_nat_alt split: consumer_pc.splits)
qed

lemma consumer_step_inv:
  assumes inv: "spsc_inv k s" and len: "length (s_written s) < 2 ^ 64"
  shows "\<lbrakk>s_cons s = CIdle; \<not> producer_seq (s_ring s) \<le> consumer_seq (s_ring s)\<rbrakk> \<Longrightarrow>
      spsc_inv k (s\<lparr>s_cons := CReading (consumer_seq (s_ring s))\<rparr>)"
    "s_cons s = CReading c \<Longrightarrow> spsc_inv k (s\<lparr>s_cons := CPublishing (slots (s_ring s) ! unat (ring_idx (s_ring s) c)) c\<rparr>)"
    "s_cons s = CPublishing d c \<Longrightarrow>
      spsc_inv k (s\<lparr>s_ring := (s_ring s)\<lparr>consumer_seq := c + 1\<rparr>, s_cons := CIdle, s_read := s_read s @ [d]\<rparr>)"
proof -
  let ?np = "length (s_written s)" and ?nc = "length (s_read s)"
  show "spsc_inv k (s\<lparr>s_cons := CReading (consumer_seq (s_ring s))\<rparr>)"
    if "s_cons s = CIdle" "\<not> producer_seq (s_ring s) \<le> consumer_seq (s_ring s)"
    using inv that spsc_facts(2) [OF inv len] by (simp add: spsc_inv_defs cong: producer_pc.case_cong consumer_pc.case_cong)
  show "spsc_inv k (s\<lparr>s_cons := CPublishing (slots (s_ring s) ! unat (ring_idx (s_ring s) c)) c\<rparr>)" if "s_cons s = CReading c"
  proof -
    have "c = of_nat ?nc" "?nc < ?np" using inv that by (simp_all add: spsc_inv_defs)
    then show ?thesis using inv spsc_facts(3) [OF inv len, of ?nc] len by (simp add: spsc_inv_defs cong: producer_pc.case_cong consumer_pc.case_cong)
  qed
  show "spsc_inv k (s\<lparr>s_ring := (s_ring s)\<lparr>consumer_seq := c + 1\<rparr>, s_cons := CIdle, s_read := s_read s @ [d]\<rparr>)"
    if pc: "s_cons s = CPublishing d c"
  proof -
    have "?nc < ?np" "d = s_written s ! ?nc" "s_read s = take ?nc (s_written s)" using inv pc by (simp_all add: spsc_inv_defs)
    then have "s_read s @ [d] = take (Suc ?nc) (s_written s)" by (metis take_Suc_conv_app_nth)
    then show ?thesis using inv pc by (auto simp: spsc_inv_defs split: producer_pc.splits)
  qed
qed

lemma drain_step_inv:
  assumes inv: "spsc_inv k s" and len: "length (s_written s) < 2 ^ 64"
  shows "s_cons s = CIdle \<Longrightarrow> spsc_inv k (s\<lparr>s_cons := CDraining (consumer_seq (s_ring s)) (drain_avail m (s_ring s)) 0 []\<rparr>)"
    "\<lbrakk>s_cons s = CDraining c avail i acc; i < avail\<rbrakk> \<Longrightarrow>
      spsc_inv k (s\<lparr>s_cons := CDraining c avail (i + 1) (acc @ [slots (s_ring s) ! unat (ring_idx (s_ring s) (c + ucast i))])\<rparr>)"
    "\<lbrakk>s_cons s = CDraining c avail i acc; \<not> i < avail\<rbrakk> \<Longrightarrow>
      spsc_inv k (s\<lparr>s_ring := (if 0 < avail then (s_ring s)\<lparr>consumer_seq := c + ucast avail\<rparr> else s_ring s),
                    s_cons := CIdle, s_read := s_read s @ acc\<rparr>)"
proof -
  let ?np = "length (s_written s)" and ?nc = "length (s_read s)"
  show "spsc_inv k (s\<lparr>s_cons := CDraining (consumer_seq (s_ring s)) (drain_avail m (s_ring s)) 0 []\<rparr>)" if "s_cons s = CIdle"
    using inv that spsc_facts(4) [OF inv len] by (simp add: spsc_inv_defs cong: producer_pc.case_cong consumer_pc.case_cong)
  show "spsc_inv k (s\<lparr>s_cons := CDraining c avail (i + 1) (acc @ [slots (s_ring s) ! unat (ring_idx (s_ring s) (c + ucast i))])\<rparr>)"
    if pc: "s_cons s = CDraining c avail i acc" "i < avail"
  proof -
    have C: "c = of_nat ?nc" "?nc + unat avail \<le> ?np" "acc = take (unat i) (drop ?nc (s_written s))"
      using inv pc by (simp_all add: spsc_inv_defs)
    have lt: "?nc + unat i < ?np" using C(2) pc(2) by (simp add: word_less_nat_alt)
    have "c + ucast i = of_nat (?nc + unat i)" by (simp add: C(1))
    then have "slots (s_ring s) ! unat (ring_idx (s_ring s) (c + ucast i)) = s_written s ! (?nc + unat i)"
      using spsc_facts(3) [OF inv len, of "?nc + unat i"] lt len inv by (simp add: spsc_inv_defs cong: producer_pc.case_cong consumer_pc.case_cong)
    moreover have "unat (i + 1) = Suc (unat i)" using pc(2) unat_add_lem [of i 1] unsigned_less [of avail, where 'a = nat]
      by (simp add: word_less_nat_alt)
    moreover have "i + 1 \<le> avail" using pc(2) by (simp add: inc_le)
    ultimately show ?thesis using inv pc C lt by (simp add: spsc_inv_defs take_Suc_conv_app_nth cong: producer_pc.case_cong consumer_pc.case_cong)
  qed
  show "spsc_inv k (s\<lparr>s_ring := (if 0 < avail then (s_ring s)\<lparr>consumer_seq := c + ucast avail\<rparr> else s_ring s),
                    s_cons := CIdle, s_read := s_read s @ acc\<rparr>)"
    if pc: "s_cons s = CDraining c avail i acc" "\<not> i < avail"
  proof -
    have C: "c = of_nat ?nc" "?nc + unat avail \<le> ?np" "acc = take (unat avail) (drop ?nc (s_written s))"
      using inv pc by (auto simp: spsc_inv_defs)
    have "s_read s = take ?nc (s_written s)" using inv by (simp add: spsc_inv_defs cong: producer_pc.case_cong consumer_pc.case_cong)
    then have "s_read s @ acc = take (?nc + unat avail) (s_written s)" "length acc = unat avail"
      using C by (metis take_add) (use C in simp)
    moreover have "(if 0 < avail then (s_ring s)\<lparr>consumer_seq := c + ucast avail\<rparr> else s_ring s)
        = (s_ring s)\<lparr>consumer_seq := of_nat (?nc + unat avail)\<rparr>"
      using inv C(1) by (cases "avail = 0") (simp_all add: spsc_inv_defs word_neq_0_conv [symmetric])
    ultimately show ?thesis using inv C(2) by (simp add: spsc_inv_defs cong: producer_pc.case_cong split: producer_pc.splits)
  qed
qed

lemma spsc_step_written: "spsc_step s s' \<Longrightarrow> length (s_written s) \<le> length (s_written s')"
  by (induction rule: spsc_step.induct) simp_all

lemma spsc_step_inv:
  assumes "spsc_step s s'" "spsc_inv k s" "length (s_written s) < 2 ^ 64" shows "spsc_inv k s'"
  using assms by (induction rule: spsc_step.induct) (simp_all add: producer_step_inv consumer_step_inv drain_step_inv)

lemma spsc_reachable_inv:
  assumes "spsc_reachable (2 ^ k) sz s" "k < 32" "length (s_written s) < 2 ^ 64" shows "spsc_inv k s"
  using assms
proof (induction rule: spsc_reachable.induct)
  case spsc_start
  then show ?case using slot_count_unat [of k] by (simp add: spsc_init_def ring_init_def spsc_inv_defs)
next
  case (spsc_next s s')
  then show ?case using spsc_step_written spsc_step_inv by (meson le_less_trans)
qed

section \<open>Properties\<close>

text \<open>
  The ring refines a bounded queue: for any sequence of \<^verbatim>\<open>try_write\<close> and \<^verbatim>\<open>try_read\<close> calls on a fresh ring of
  \<open>2 ^ k\<close> slots with fewer than \<open>2 ^ 64\<close> writes, the values read, followed by what is still in the ring, are the
  accepted values in the order of their writes, and the ring never holds more than \<open>2 ^ k\<close> of them.
\<close>

theorem ring_runs_fifo:
  assumes "k < 32" "length ops < 2 ^ 64" "fifo_run try_write try_read ops (ring_init (2 ^ k) sz) = (w, r, q)"
  shows "w = r @ contents q \<and> length (contents q) \<le> 2 ^ k"
proof -
  have "ring_ok k (length (filter (\<lambda>op. op \<noteq> None) ops)) (ring_init (2 ^ k) sz)"
    using assms(1,2) slot_count_unat [of k] le_less_trans [OF length_filter_le assms(2)]
    by (simp add: ring_ok_def ring_init_def)
  moreover have "contents (ring_init (2 ^ k) sz) = []" by (simp add: contents_def ring_init_def)
  ultimately show ?thesis using ring_fifo.run_fifo [OF _ assms(3)] by simp
qed

theorem ring_runs_fifo_witness:
  "case fifo_run try_write try_read [Some [1], Some [2], Some [3], None, Some [4], None, None, None] (ring_init (2 ^ 1) 1) of
     (w, r, q) \<Rightarrow> w = [[1], [2], [4]] \<and> w = r @ contents q"
proof -
  let ?ops = "[Some [1], Some [2], Some [3], None, Some [4], None, None, None] :: slot option list"
  obtain w r q where run: "fifo_run try_write try_read ?ops (ring_init (2 ^ 1) 1) = (w, r, q)" by (metis prod_cases3)
  have "fst (fifo_run try_write try_read ?ops (ring_init (2 ^ 1) 1)) = [[1], [2], [4]]" by code_simp
  then show ?thesis using ring_runs_fifo [OF _ _ run] run by simp
qed

text \<open>
  C39: The two threads may interleave at every access of the shared memory: what the consumer has taken, by single
  reads or by draining, is always a prefix of what the producer has published, with at most \<open>2 ^ k\<close> slots
  outstanding, as long as fewer than \<open>2 ^ 64\<close> slots were written.
\<close>

theorem spsc_interleaving_fifo:
  assumes "spsc_reachable (2 ^ k) sz s" "k < 32" "length (s_written s) < 2 ^ 64"
  shows "\<exists>pending. s_written s = s_read s @ pending \<and> length pending \<le> 2 ^ k"
proof -
  let ?nc = "length (s_read s)"
  have "s_read s = take ?nc (s_written s)" "length (s_written s) \<le> ?nc + 2 ^ k"
    using spsc_reachable_inv [OF assms] by (simp_all add: spsc_inv_def ring_inv_def Let_def)
  then have "s_written s = s_read s @ drop ?nc (s_written s)" by (metis append_take_drop_id)
  then show ?thesis using \<open>length (s_written s) \<le> ?nc + 2 ^ k\<close> by (intro exI [of _ "drop ?nc (s_written s)"]) simp
qed

definition demo_published :: spsc where
  "demo_published = (spsc_init (2 ^ 1) 1)
     \<lparr>s_ring := (ring_init (2 ^ 1) 1)\<lparr>slots := [[7], [0]], producer_seq := 1\<rparr>, s_written := [[7]]\<rparr>"

lemma demo_published_reachable: "spsc_reachable (2 ^ 1) 1 demo_published"
proof -
  let ?s0 = "spsc_init (2 ^ 1) 1"
  let ?s1 = "?s0\<lparr>s_prod := PCopying [7] (producer_seq (s_ring ?s0))\<rparr>"
  let ?s2 = "?s1\<lparr>s_ring := (s_ring ?s1)\<lparr>slots := (slots (s_ring ?s1))[unat (ring_idx (s_ring ?s1) 0) := [7]]\<rparr>, s_prod := PPublishing [7] 0\<rparr>"
  let ?s3 = "?s2\<lparr>s_ring := (s_ring ?s2)\<lparr>producer_seq := 0 + 1\<rparr>, s_prod := PIdle, s_written := s_written ?s2 @ [[7]]\<rparr>"
  have g1: "s_prod ?s0 = PIdle" "\<not> ucast (slot_count (s_ring ?s0)) \<le> producer_seq (s_ring ?s0) - consumer_seq (s_ring ?s0)" by code_simp+
  have g2: "s_prod ?s1 = PCopying [7] 0" by code_simp
  have g3: "s_prod ?s2 = PPublishing [7] 0" by simp
  have "spsc_reachable (2 ^ 1) 1 ?s3"
    by (rule spsc_next [OF spsc_next [OF spsc_next [OF spsc_start p_start [OF g1]] p_copy [OF g2]] p_publish [OF g3]])
  moreover have "unat (ring_idx (ring_init 2 1) 0) = 0" "replicate (unat (2 :: u32)) (replicate (unat (1 :: u32)) 0) = [[0], [0 :: u8]]" by code_simp+
  ultimately show ?thesis by (simp add: demo_published_def spsc_init_def ring_init_def)
qed

theorem spsc_interleaving_fifo_witness:
  "\<exists>pending. s_written demo_published = s_read demo_published @ pending \<and> length pending \<le> 2"
proof -
  have "length (s_written demo_published) < 2 ^ 64" by (simp add: demo_published_def)
  then show ?thesis using spsc_interleaving_fifo [OF demo_published_reachable] by simp
qed

primrec read_upto :: "nat \<Rightarrow> ring \<Rightarrow> slot list \<times> ring" where
  "read_upto 0 r = ([], r)"
| "read_upto (Suc n) r =
     (case try_read r of (None, r1) \<Rightarrow> ([], r1) | (Some d, r1) \<Rightarrow> (let (ds, r2) = read_upto n r1 in (d # ds, r2)))"

lemma read_upto_spec:
  "ring_ok k n r \<Longrightarrow> fst (read_upto m r) = take m (contents r) \<and> contents (snd (read_upto m r)) = drop m (contents r)
     \<and> ring_ok k n (snd (read_upto m r)) \<and> (\<exists>c. snd (read_upto m r) = r\<lparr>consumer_seq := c\<rparr>)"
proof (induction m arbitrary: r)
  case 0
  then show ?case by (auto intro: exI [of _ "consumer_seq r"])
next
  case (Suc m)
  obtain v r1 where v: "try_read r = (v, r1)" by fastforce
  then have u: "\<exists>c. r1 = r\<lparr>consumer_seq := c\<rparr>"
    by (auto simp: try_read_def Let_def split: if_splits intro: exI [of _ "consumer_seq r"])
  show ?case
  proof (cases "contents r")
    case Nil
    then show ?thesis using try_read_none [OF Suc.prems] Suc.prems by (auto intro: exI [of _ "consumer_seq r"])
  next
    case (Cons x xs)
    then have r1: "v = Some x" "contents r1 = xs" "ring_ok k n r1" using try_read_some [OF Suc.prems Cons] v by simp_all
    show ?thesis using Suc.IH [OF r1(3)] r1 v u Cons by (auto simp: case_prod_beta)
  qed
qed

lemma ring_contents_unique:
  assumes "ring_ok k n (r\<lparr>consumer_seq := a\<rparr>)" "ring_ok k n (r\<lparr>consumer_seq := b\<rparr>)"
    "length (contents (r\<lparr>consumer_seq := a\<rparr>)) = length (contents (r\<lparr>consumer_seq := b\<rparr>))"
  shows "a = b"
  using assms by (auto simp: ring_ok_def word_unat_eq_iff)

text \<open>
  Draining is the same as reading slot by slot: \<^verbatim>\<open>drain\<close> hands out exactly what as many calls of \<^verbatim>\<open>try_read\<close>
  return, and leaves the same ring.
\<close>

theorem drain_equals_reads:
  assumes "ring_ok k n r"
  shows "drain m r = read_upto (unat m) r"
proof -
  note D = drain_spec [OF assms, of m] and U = read_upto_spec [OF assms, of "unat m"]
  obtain c where c: "snd (read_upto (unat m) r) = r\<lparr>consumer_seq := c\<rparr>" using U by blast
  have "snd (drain m r) = r\<lparr>consumer_seq := (if 0 < drain_avail m r then consumer_seq r + ucast (drain_avail m r) else consumer_seq r)\<rparr>"
    by (simp add: drain_def Let_def)
  then obtain d where d: "snd (drain m r) = r\<lparr>consumer_seq := d\<rparr>" by blast
  have "length (contents (r\<lparr>consumer_seq := c\<rparr>)) = length (contents (r\<lparr>consumer_seq := d\<rparr>))"
    unfolding c [symmetric] d [symmetric] using D U by simp
  then have "c = d" using ring_contents_unique U D c d by metis
  then show ?thesis using D(1) U c d by (metis prod.collapse)
qed

theorem drain_equals_reads_witness:
  "drain 5 (s_ring demo_published) = read_upto 5 (s_ring demo_published)"
proof -
  have "ring_ok 1 0 (s_ring demo_published)" by (simp add: ring_ok_def demo_published_def ring_init_def)
  from drain_equals_reads [OF this, of 5] show ?thesis by simp
qed

text \<open>
  C40: Progress: when a slot is published and not yet consumed and the consumer is idle, the next three steps of
  the consumer are enabled and consume exactly that slot.
\<close>

theorem consumer_makes_progress:
  assumes "spsc_reachable (2 ^ k) sz s" "k < 32" "length (s_written s) < 2 ^ 64"
    "s_cons s = CIdle" "length (s_read s) < length (s_written s)"
  shows "\<exists>s1 s2 s3. spsc_step s s1 \<and> spsc_step s1 s2 \<and> spsc_step s2 s3
    \<and> s_cons s3 = CIdle \<and> s_written s3 = s_written s \<and> s_read s3 = s_read s @ [s_written s ! length (s_read s)]"
proof -
  let ?c = "consumer_seq (s_ring s)"
  let ?s1 = "s\<lparr>s_cons := CReading ?c\<rparr>"
  let ?d = "slots (s_ring ?s1) ! unat (ring_idx (s_ring ?s1) ?c)"
  let ?s2 = "?s1\<lparr>s_cons := CPublishing ?d ?c\<rparr>"
  let ?s3 = "?s2\<lparr>s_ring := (s_ring ?s2)\<lparr>consumer_seq := ?c + 1\<rparr>, s_cons := CIdle, s_read := s_read ?s2 @ [?d]\<rparr>"
  have inv: "spsc_inv k s" by (rule spsc_reachable_inv [OF assms(1-3)])
  have "\<not> producer_seq (s_ring s) \<le> ?c" using spsc_facts(2) [OF inv assms(3)] assms(5) by simp
  then have 1: "spsc_step s ?s1" by (rule c_start [OF assms(4)])
  have 2: "spsc_step ?s1 ?s2" by (rule c_copy) simp
  have 3: "spsc_step ?s2 ?s3" by (rule c_publish) simp
  have "unat (ring_idx (s_ring s) ?c) = length (s_read s) mod 2 ^ k"
    using inv spsc_facts(3) [OF inv assms(3), of "length (s_read s)"] assms(3,5) by (simp add: spsc_inv_def ring_inv_def Let_def)
  then have "?d = s_written s ! length (s_read s)" using inv assms(5) by (simp add: spsc_inv_def ring_inv_def Let_def)
  then have "s_cons ?s3 = CIdle \<and> s_written ?s3 = s_written s \<and> s_read ?s3 = s_read s @ [s_written s ! length (s_read s)]" by simp
  with 1 2 3 show ?thesis by blast
qed

theorem consumer_makes_progress_witness:
  "\<exists>s1 s2 s3. spsc_step demo_published s1 \<and> spsc_step s1 s2 \<and> spsc_step s2 s3 \<and> s_read s3 = [[7]]"
proof -
  have "length (s_written demo_published) < 2 ^ 64" "s_cons demo_published = CIdle"
    "length (s_read demo_published) < length (s_written demo_published)"
    "s_read demo_published = []" "s_written demo_published = [[7]]"
    by (simp_all add: demo_published_def spsc_init_def)
  then show ?thesis using consumer_makes_progress [OF demo_published_reachable] by fastforce
qed

end
