(* ===== verification/Seqlock.thy ===== *)
theory Seqlock
  imports Prelude
begin

text \<open>
  The seqlock around the state snapshot: the four helpers of \<^verbatim>\<open>src/src/daemon/ipc_protocol.h\<close> and the stackable write
  transactions of \<^verbatim>\<open>src/src/daemon/state_transaction.h\<close>. The snapshot is the sequence number and an array of cells; a
  transaction object counts its nesting and its completions in a C++ \<^verbatim>\<open>int\<close>, whose overflow is undefined behaviour, as is the
  remainder by a yield interval of zero. The spin of a reader is a partial function of the values it observes. Writer and
  reader interleave at every access of the shared memory; the fences of the source order these accesses as written.
\<close>

section \<open>The helpers\<close>

record 'v snapshot_mem =
  seqlock :: u64
  cells :: "nat \<Rightarrow> 'v"

definition seqlock_write_begin :: "'v snapshot_mem \<Rightarrow> 'v snapshot_mem" where
  "seqlock_write_begin m = m\<lparr>seqlock := seqlock m + 1\<rparr>"

definition seqlock_write_end :: "'v snapshot_mem \<Rightarrow> 'v snapshot_mem" where
  "seqlock_write_end m = m\<lparr>seqlock := seqlock m + 1\<rparr>"

text \<open>
  \<open>obs i\<close> is the sequence number that the \<open>i\<close>-th load returns; the result is the even number found and the index of
  its load.
\<close>

partial_function (option) seqlock_read_begin :: "(nat \<Rightarrow> u64) \<Rightarrow> nat \<Rightarrow> (u64 \<times> nat) option" where
  [code]: "seqlock_read_begin obs i = (if odd (obs i) then seqlock_read_begin obs (Suc i) else Some (obs i, i))"

definition seqlock_read_validate :: "'v snapshot_mem \<Rightarrow> u64 \<Rightarrow> bool" where
  "seqlock_read_validate m seq \<longleftrightarrow> seqlock m = seq"

section \<open>Transactions\<close>

record state_transaction =
  tx_counter :: int
  tx_completions :: int
  yield_interval :: int

definition new_transaction :: "int \<Rightarrow> state_transaction" where
  "new_transaction n = \<lparr>tx_counter = 0, tx_completions = 0, yield_interval = n\<rparr>"

definition tx_begin :: "state_transaction \<times> 'v snapshot_mem \<Rightarrow> (state_transaction \<times> 'v snapshot_mem) res" where
  "tx_begin s =
     (case s of (t, m) \<Rightarrow>
       if tx_counter t = 2 ^ 31 - 1 then Inl UndefinedBehaviour
       else Inr (t\<lparr>tx_counter := tx_counter t + 1\<rparr>, if tx_counter t = 0 then seqlock_write_begin m else m))"

text \<open>The result says whether the writer yields.\<close>

definition tx_end :: "state_transaction \<times> 'v snapshot_mem \<Rightarrow> (bool \<times> state_transaction \<times> 'v snapshot_mem) res" where
  "tx_end s =
     (case s of (t, m) \<Rightarrow>
       if tx_counter t = - (2 ^ 31) then Inl UndefinedBehaviour
       else
         let t1 = t\<lparr>tx_counter := tx_counter t - 1\<rparr> in
         if tx_counter t1 = 0 then
           if tx_completions t1 = 2 ^ 31 - 1 \<or> yield_interval t1 = 0 then Inl UndefinedBehaviour
           else Inr (yield_interval t1 dvd tx_completions t1 + 1, t1\<lparr>tx_completions := tx_completions t1 + 1\<rparr>, seqlock_write_end m)
         else Inr (False, t1, m))"

text \<open>Updates of the snapshot as the source writes them: a store, or a guard around a block of updates.\<close>

datatype 'v tx_update = Store nat 'v | Guarded "'v tx_update list"

definition store_cell :: "nat \<Rightarrow> 'v \<Rightarrow> 'v snapshot_mem \<Rightarrow> 'v snapshot_mem" where
  "store_cell i v m = m\<lparr>cells := (cells m)(i := v)\<rparr>"

fun run_update :: "'v tx_update \<Rightarrow> state_transaction \<times> 'v snapshot_mem \<Rightarrow> (state_transaction \<times> 'v snapshot_mem) res"
  and run_updates :: "'v tx_update list \<Rightarrow> state_transaction \<times> 'v snapshot_mem \<Rightarrow> (state_transaction \<times> 'v snapshot_mem) res" where
  "run_update (Store i v) (t, m) = Inr (t, store_cell i v m)"
| "run_update (Guarded us) s =
     rbind (tx_begin s) (\<lambda>s1. rbind (run_updates us s1) (\<lambda>s2. rbind (tx_end s2) (\<lambda>(y, s3). Inr s3)))"
| "run_updates [] s = Inr s"
| "run_updates (u # us) s = rbind (run_update u s) (run_updates us)"

text \<open>What the updates amount to: their stores in order, the guards at the top, and the depth of the nesting.\<close>

fun stores :: "'v tx_update \<Rightarrow> (nat \<times> 'v) list" and stores_of :: "'v tx_update list \<Rightarrow> (nat \<times> 'v) list" where
  "stores (Store i v) = [(i, v)]"
| "stores (Guarded us) = stores_of us"
| "stores_of [] = []"
| "stores_of (u # us) = stores u @ stores_of us"

fun nesting :: "'v tx_update \<Rightarrow> int" and nesting_of :: "'v tx_update list \<Rightarrow> int" where
  "nesting (Store i v) = 0"
| "nesting (Guarded us) = 1 + nesting_of us"
| "nesting_of [] = 0"
| "nesting_of (u # us) = max (nesting u) (nesting_of us)"

definition guards :: "'v tx_update list \<Rightarrow> nat" where
  "guards us = length (filter (\<lambda>u. case u of Store i v \<Rightarrow> False | Guarded vs \<Rightarrow> True) us)"

lemma nesting_nonneg [simp]: "0 \<le> nesting (u :: 'v tx_update)" "0 \<le> nesting_of (us :: 'v tx_update list)"
  by (induction u and us rule: nesting_nesting_of.induct) auto

lemma guards_Cons [simp]: "guards [] = 0" "guards (Store i v # us) = guards us" "guards (Guarded vs # us) = Suc (guards us)"
  by (simp_all add: guards_def)

abbreviation put_stores :: "(nat \<times> 'v) list \<Rightarrow> (nat \<Rightarrow> 'v) \<Rightarrow> nat \<Rightarrow> 'v" where
  "put_stores ss c \<equiv> fold (\<lambda>(i, v) c. c(i := v)) ss c"

text \<open>Inside a transaction the sequence number does not move; at the top every guard adds two.\<close>

definition depth_ok :: "state_transaction \<Rightarrow> int \<Rightarrow> nat \<Rightarrow> bool" where
  "depth_ok t d n \<longleftrightarrow> 0 \<le> tx_counter t \<and> yield_interval t \<noteq> 0 \<and> tx_counter t + d < 2 ^ 31
     \<and> (tx_counter t = 0 \<longrightarrow> tx_completions t + int n < 2 ^ 31)"

definition after_updates :: "'v tx_update list \<Rightarrow> state_transaction \<times> 'v snapshot_mem \<Rightarrow> state_transaction \<times> 'v snapshot_mem" where
  "after_updates us s =
     (case s of (t, m) \<Rightarrow>
       let n = (if tx_counter t = 0 then guards us else 0) in
       (t\<lparr>tx_completions := tx_completions t + int n\<rparr>,
        m\<lparr>seqlock := seqlock m + 2 * of_nat n, cells := put_stores (stores_of us) (cells m)\<rparr>))"

lemma run_updates_ok:
  fixes u :: "'v tx_update" and us :: "'v tx_update list"
  shows "depth_ok t (nesting u) (guards [u]) \<Longrightarrow> run_update u (t, m) = Inr (after_updates [u] (t, m))"
    and "depth_ok t (nesting_of us) (guards us) \<Longrightarrow> run_updates us (t, m) = Inr (after_updates us (t, m))"
proof (induction u and us arbitrary: t m and t m rule: stores_stores_of.induct)
  case (1 i v)
  then show ?case by (simp add: after_updates_def store_cell_def)
next
  case (2 us)
  let ?t = "t\<lparr>tx_counter := tx_counter t + 1\<rparr>"
  have "depth_ok ?t (nesting_of us) (guards us)" using "2.prems" by (simp add: depth_ok_def)
  moreover have "tx_counter t < 2147483647"
  proof -
    have "tx_counter t + (1 + nesting_of us) < 2147483648" using "2.prems" by (simp add: depth_ok_def)
    with nesting_nonneg(2) [of us] show ?thesis by linarith
  qed
  ultimately show ?case
    using "2.prems" "2.IH" [of ?t]
    by (auto simp: tx_begin_def tx_end_def after_updates_def depth_ok_def seqlock_write_begin_def seqlock_write_end_def Let_def)
next
  case 3
  then show ?case by (simp add: after_updates_def)
next
  case (4 u us)
  obtain t1 m1 where s1: "after_updates [u] (t, m) = (t1, m1)" by fastforce
  have n: "guards (u # us) = guards [u] + guards us" by (cases u) simp_all
  have "depth_ok t (nesting u) (guards [u])" using "4.prems" by (auto simp: depth_ok_def n)
  moreover have "depth_ok t1 (nesting_of us) (guards us)"
    using "4.prems" s1 by (auto simp: depth_ok_def n after_updates_def Let_def)
  ultimately have "run_updates (u # us) (t, m) = Inr (after_updates us (t1, m1))" using "4.IH" s1 by simp
  also have "after_updates us (t1, m1) = after_updates (u # us) (t, m)"
    using s1 by (auto simp: after_updates_def n Let_def algebra_simps)
  finally show ?case .
qed

section \<open>Readers and the writer\<close>

text \<open>
  A reader has loaded an even sequence number and collects cells, or has validated what it collected. The writer thread may
  own several transaction objects on the one snapshot.
\<close>

datatype 'v sl_reader = Idle | Reading u64 "(nat \<times> 'v) list" | Validated "(nat \<times> 'v) list"

record 'v sl_state =
  sl_mem :: "'v snapshot_mem"
  sl_txs :: "nat \<Rightarrow> state_transaction"
  sl_reader :: "'v sl_reader"

definition tx_open :: "'v sl_state \<Rightarrow> bool" where
  "tx_open s \<longleftrightarrow> (\<exists>i. 0 < tx_counter (sl_txs s i))"

text \<open>
  The writer: a transaction opens only while no other object has one open, a cell is stored only inside a transaction, and a
  transaction is closed only by the object that opened it (the guards of the source see to it).
\<close>

inductive writer_step :: "'v sl_state \<Rightarrow> 'v sl_state \<Rightarrow> bool" where
  open_tx: "(\<forall>j. j \<noteq> i \<longrightarrow> tx_counter (sl_txs s j) = 0) \<Longrightarrow> tx_begin (sl_txs s i, sl_mem s) = Inr (t, m)
    \<Longrightarrow> writer_step s (s\<lparr>sl_mem := m, sl_txs := (sl_txs s)(i := t)\<rparr>)"
| store_in: "tx_open s \<Longrightarrow> writer_step s (s\<lparr>sl_mem := store_cell i v (sl_mem s)\<rparr>)"
| close_tx: "0 < tx_counter (sl_txs s i) \<Longrightarrow> tx_end (sl_txs s i, sl_mem s) = Inr (y, t, m)
    \<Longrightarrow> writer_step s (s\<lparr>sl_mem := m, sl_txs := (sl_txs s)(i := t)\<rparr>)"

inductive reader_step :: "'v sl_state \<Rightarrow> 'v sl_state \<Rightarrow> bool" where
  cell: "sl_reader s = Reading seq vs \<Longrightarrow> reader_step s (s\<lparr>sl_reader := Reading seq (vs @ [(i, cells (sl_mem s) i)])\<rparr>)"
| valid: "sl_reader s = Reading seq vs \<Longrightarrow>
    reader_step s (s\<lparr>sl_reader := (if seqlock_read_validate (sl_mem s) seq then Validated vs else Idle)\<rparr>)"

text \<open>
  Runs: \<open>H\<close> collects the contents that the snapshot had without an open transaction since the current read began, at the load that
  ended the spin, and \<open>n\<close> counts the steps of the writer.
\<close>

definition published :: "'v sl_state \<Rightarrow> (nat \<Rightarrow> 'v) set" where
  "published s = (if tx_open s then {} else {cells (sl_mem s)})"

inductive sl_run :: "'v sl_state \<Rightarrow> (nat \<Rightarrow> 'v) set \<Rightarrow> nat \<Rightarrow> 'v sl_state \<Rightarrow> bool" for s0 where
  start: "sl_run s0 (published s0) 0 s0"
| writer: "sl_run s0 H n s \<Longrightarrow> writer_step s s' \<Longrightarrow> sl_run s0 (H \<union> published s') (Suc n) s'"
| reader: "sl_run s0 H n s \<Longrightarrow> reader_step s s' \<Longrightarrow> sl_run s0 H n s'"
| load: "sl_run s0 H n s \<Longrightarrow> seqlock_read_begin (\<lambda>i. seqlock (sl_mem s)) 0 = Some (seq, i)
    \<Longrightarrow> sl_run s0 (published s) n (s\<lparr>sl_reader := Reading seq []\<rparr>)"

text \<open>A snapshot as the engine creates it: an even sequence number, fresh transactions, no read under way.\<close>

definition sl_fresh :: "'v sl_state \<Rightarrow> bool" where
  "sl_fresh s \<longleftrightarrow> seqlock (sl_mem s) = 0 \<and> (\<forall>i. tx_counter (sl_txs s i) = 0) \<and> sl_reader s = Idle"

section \<open>The invariant\<close>

definition reader_ok :: "nat \<Rightarrow> (nat \<Rightarrow> 'v) set \<Rightarrow> 'v sl_state \<Rightarrow> bool" where
  "reader_ok q H s \<longleftrightarrow>
     (case sl_reader s of
        Idle \<Rightarrow> True
      | Reading seq vs \<Rightarrow> even seq \<and> unat seq \<le> q
          \<and> (unat seq = q \<longrightarrow> cells (sl_mem s) \<in> H \<and> (\<forall>(i, v) \<in> set vs. v = cells (sl_mem s) i))
      | Validated vs \<Rightarrow> \<exists>c \<in> H. \<forall>(i, v) \<in> set vs. v = c i)"

definition sl_inv :: "nat \<Rightarrow> (nat \<Rightarrow> 'v) set \<Rightarrow> 'v sl_state \<Rightarrow> bool" where
  "sl_inv q H s \<longleftrightarrow>
     unat (seqlock (sl_mem s)) = q \<and> (odd q \<longleftrightarrow> tx_open s) \<and> (\<forall>i. 0 \<le> tx_counter (sl_txs s i))
     \<and> (\<forall>i j. 0 < tx_counter (sl_txs s i) \<longrightarrow> i \<noteq> j \<longrightarrow> tx_counter (sl_txs s j) = 0) \<and> reader_ok q H s"

lemma unat_odd: "odd (unat (x :: u64)) \<longleftrightarrow> odd x"
  by (simp add: bit_0 [symmetric] bit_unsigned_iff)

lemma tx_begin_cases:
  assumes "tx_begin (t, m) = Inr (t', m')"
  shows "tx_counter t' = tx_counter t + 1" "m' = (if tx_counter t = 0 then seqlock_write_begin m else m)"
  using assms by (auto simp: tx_begin_def split: if_splits)

lemma tx_end_cases:
  assumes "tx_end (t, m) = Inr (y, t', m')"
  shows "tx_counter t' = tx_counter t - 1" "m' = (if tx_counter t = 1 then seqlock_write_end m else m)"
  using assms by (auto simp: tx_end_def Let_def split: if_splits)

text \<open>How a step of the writer moves the lock: not at all, into a transaction, or out of it.\<close>

lemma writer_step_cases:
  assumes "writer_step s s'" "\<forall>i. 0 \<le> tx_counter (sl_txs s i)"
    "\<forall>i j. 0 < tx_counter (sl_txs s i) \<longrightarrow> i \<noteq> j \<longrightarrow> tx_counter (sl_txs s j) = 0"
  shows "sl_reader s' = sl_reader s \<and> (\<forall>i. 0 \<le> tx_counter (sl_txs s' i))
      \<and> (\<forall>i j. 0 < tx_counter (sl_txs s' i) \<longrightarrow> i \<noteq> j \<longrightarrow> tx_counter (sl_txs s' j) = 0)
      \<and> (seqlock (sl_mem s') = seqlock (sl_mem s) \<and> tx_open s \<and> tx_open s'
         \<or> seqlock (sl_mem s') = seqlock (sl_mem s) + 1 \<and> cells (sl_mem s') = cells (sl_mem s) \<and> (tx_open s' \<longleftrightarrow> \<not> tx_open s))"
  using assms
proof cases
  case (open_tx i t m)
  note b = tx_begin_cases [OF open_tx(3)]
  have o: "tx_open s \<longleftrightarrow> 0 < tx_counter (sl_txs s i)" using open_tx(2) by (auto simp: tx_open_def)
  show ?thesis
    using assms(2) b o open_tx(2) unfolding open_tx(1)
    by (cases "tx_counter (sl_txs s i) = 0") (auto simp: seqlock_write_begin_def tx_open_def order_le_less)
next
  case (store_in i v)
  then show ?thesis using assms(2,3) by (simp add: store_cell_def tx_open_def)
next
  case (close_tx i y t m)
  note b = tx_end_cases [OF close_tx(3)]
  have z: "tx_counter (sl_txs s j) = 0" if "j \<noteq> i" for j using assms(3) [rule_format, OF close_tx(2)] that by auto
  have o: "tx_open s" using close_tx(2) by (auto simp: tx_open_def)
  show ?thesis
    using assms(2) b z o close_tx(2) unfolding close_tx(1)
    by (auto simp: seqlock_write_end_def tx_open_def)
qed

lemma reader_ok_writer:
  assumes "reader_ok q H s" "sl_reader s' = sl_reader s"
    "q' = q \<and> odd q \<or> q' = q + 1 \<and> cells (sl_mem s') = cells (sl_mem s)" "H \<subseteq> H'"
  shows "reader_ok q' H' s'"
proof (cases "sl_reader s")
  case (Reading seq vs)
  have "unat seq \<noteq> q" if "odd q" using assms(1) Reading that unat_odd [of seq] by (auto simp: reader_ok_def)
  then show ?thesis using assms Reading by (auto simp: reader_ok_def)
qed (use assms in \<open>auto simp: reader_ok_def\<close>)

lemma sl_inv_writer:
  assumes "sl_inv q H s" "writer_step s s'" "q + 1 < 2 ^ 64"
  shows "\<exists>q'. q' \<le> q + 1 \<and> sl_inv q' (H \<union> published s') s'"
proof -
  have i: "unat (seqlock (sl_mem s)) = q" "odd q \<longleftrightarrow> tx_open s" "\<forall>i. 0 \<le> tx_counter (sl_txs s i)"
    "\<forall>i j. 0 < tx_counter (sl_txs s i) \<longrightarrow> i \<noteq> j \<longrightarrow> tx_counter (sl_txs s j) = 0" "reader_ok q H s"
    using assms(1) unfolding sl_inv_def by blast+
  note w = writer_step_cases [OF assms(2) i(3,4)]
  show ?thesis
  proof (cases "tx_open s \<and> tx_open s' \<and> seqlock (sl_mem s') = seqlock (sl_mem s)")
    case True
    have "reader_ok q (H \<union> published s') s'" using i w True by (intro reader_ok_writer [OF i(5)]) auto
    then have "sl_inv q (H \<union> published s') s'" using i w True unfolding sl_inv_def by auto
    then show ?thesis by (intro exI [of _ q]) simp
  next
    case False
    then have n: "seqlock (sl_mem s') = seqlock (sl_mem s) + 1" "cells (sl_mem s') = cells (sl_mem s)" "tx_open s' \<longleftrightarrow> \<not> tx_open s"
      using w by auto
    have "unat (seqlock (sl_mem s')) = q + 1" using unat_next [of "seqlock (sl_mem s)"] i(1) assms(3) by (simp add: n(1))
    moreover have "reader_ok (q + 1) (H \<union> published s') s'" using w n by (intro reader_ok_writer [OF i(5)]) auto
    ultimately have "sl_inv (q + 1) (H \<union> published s') s'" using i w n unfolding sl_inv_def by auto
    then show ?thesis by (intro exI [of _ "q + 1"]) simp
  qed
qed

lemma sl_inv_reader:
  assumes "sl_inv q H s" "reader_step s s'" shows "sl_inv q H s'"
  using assms(2)
proof cases
  case (cell seq vs i)
  then show ?thesis using assms(1) by (auto simp: sl_inv_def tx_open_def reader_ok_def)
next
  case (valid seq vs)
  then show ?thesis using assms(1) by (auto simp: sl_inv_def tx_open_def reader_ok_def seqlock_read_validate_def)
qed

lemma sl_inv_load:
  assumes "sl_inv q H s" "even (seqlock (sl_mem s))"
  shows "sl_inv q (published s) (s\<lparr>sl_reader := Reading (seqlock (sl_mem s)) []\<rparr>)"
  using assms unat_odd [of "seqlock (sl_mem s)"] by (auto simp: sl_inv_def tx_open_def reader_ok_def published_def)

section \<open>Spinning\<close>

lemma read_begin_even: "even (obs i) \<Longrightarrow> seqlock_read_begin obs i = Some (obs i, i)"
  by (subst seqlock_read_begin.simps) simp

lemma read_begin_skips:
  assumes "\<And>k. i \<le> k \<Longrightarrow> k < j \<Longrightarrow> odd (obs k)" "i \<le> j"
  shows "seqlock_read_begin obs i = seqlock_read_begin obs j"
  using assms
proof (induction "j - i" arbitrary: i)
  case (Suc n)
  have "odd (obs i)" using Suc.hyps(2) Suc.prems(1) [of i] by simp
  then have "seqlock_read_begin obs i = seqlock_read_begin obs (Suc i)" by (subst seqlock_read_begin.simps) simp
  also have "\<dots> = seqlock_read_begin obs j" by (rule Suc.hyps(1)) (use Suc.hyps(2) Suc.prems in auto)
  finally show ?case .
qed simp

lemma read_begin_first:
  assumes ret: "seqlock_read_begin obs i = Some (seq, j)"
  shows "i \<le> j \<and> seq = obs j \<and> even seq \<and> (\<forall>k. i \<le> k \<and> k < j \<longrightarrow> odd (obs k))"
proof -
  let ?P = "\<lambda>obs i (r :: u64 \<times> nat). i \<le> snd r \<and> fst r = obs (snd r) \<and> even (fst r) \<and> (\<forall>k. i \<le> k \<and> k < snd r \<longrightarrow> odd (obs k))"
  have "?P obs i (seq, j)"
  proof (rule seqlock_read_begin.raw_induct [where P = ?P, OF _ ret])
    fix f :: "(nat \<Rightarrow> u64) \<Rightarrow> nat \<Rightarrow> (u64 \<times> nat) option" and obs i r
    assume IH: "\<And>obs i r. f obs i = Some r \<Longrightarrow> ?P obs i r"
      and eq: "(if odd (obs i) then f obs (Suc i) else Some (obs i, i)) = Some r"
    show "?P obs i r"
    proof (cases "odd (obs i)")
      case True
      then have "f obs (Suc i) = Some r" using eq by simp
      then have "?P obs (Suc i) r" by (rule IH)
      then show ?thesis using True le_eq_less_or_eq [of i] by (auto simp: Suc_le_eq)
    qed (use eq in auto)
  qed
  then show ?thesis unfolding fst_conv snd_conv .
qed

section \<open>Properties\<close>

text \<open>
  C11: The spin of a reader ends exactly when an even sequence number is ever observed, and then it returns the first one:
  every load before it saw a write in progress.
\<close>

theorem seqlock_spin_ends:
  "(seqlock_read_begin obs i \<noteq> None \<longleftrightarrow> (\<exists>j \<ge> i. even (obs j)))
   \<and> (seqlock_read_begin obs i = Some (seq, j) \<longleftrightarrow> i \<le> j \<and> seq = obs j \<and> even seq \<and> (\<forall>k \<in> {i..<j}. odd (obs k)))"
proof -
  have R: "seqlock_read_begin obs i = Some (obs j, j)" if "i \<le> j" "even (obs j)" "\<forall>k \<in> {i..<j}. odd (obs k)" for j
    using read_begin_skips [of i j obs] read_begin_even [of obs j] that by auto
  have "seqlock_read_begin obs i \<noteq> None" if "i \<le> j" "even (obs j)" for j
  proof -
    let ?Q = "\<lambda>j. i \<le> j \<and> even (obs j)"
    have "\<exists>l. ?Q l \<and> (\<forall>k < l. \<not> ?Q k)" using iffD1 [OF exists_least_iff, of ?Q] that by auto
    then obtain l where "?Q l" "\<forall>k < l. \<not> ?Q k" by auto
    then show ?thesis using R [of l] by simp
  qed
  moreover have "\<exists>j \<ge> i. even (obs j)" if "seqlock_read_begin obs i = Some r" for r
    using read_begin_first [of obs i "fst r" "snd r"] that by auto
  moreover have "i \<le> j \<and> seq = obs j \<and> even seq \<and> (\<forall>k \<in> {i..<j}. odd (obs k))" if "seqlock_read_begin obs i = Some (seq, j)"
    using read_begin_first [OF that] by auto
  ultimately show ?thesis using R [of j] by blast
qed

lemma seqlock_spin_ends_witness: "seqlock_read_begin (\<lambda>i. if i < 3 then 7 else 8) 0 = Some (8, 3)"
  using seqlock_spin_ends [of "\<lambda>i. if i < 3 then 7 else 8" 0 8 3] by auto

text \<open>
  C10: A validated read of the snapshot is consistent: whatever the writer does in between, through any number of
  transactions of any of its objects, the cells collected are all from one content that the snapshot had without an open
  transaction at some moment since the read began. Fewer than \<open>2 ^ 64 - 1\<close> steps of the writer are assumed, because the
  sequence number wraps around.
\<close>

theorem validated_read_consistent:
  assumes "sl_run s0 H n s" "sl_fresh s0" "n + 1 < 2 ^ 64" "sl_reader s = Validated vs"
  shows "\<exists>c \<in> H. \<forall>(i, v) \<in> set vs. v = c i"
proof -
  have "\<exists>q \<le> n. sl_inv q H s"
    using assms(1,3)
  proof induction
    case start
    then show ?case using assms(2) by (auto simp: sl_fresh_def sl_inv_def reader_ok_def tx_open_def)
  next
    case (writer H n s s')
    then obtain q where q: "q \<le> n" "sl_inv q H s" by auto
    obtain q' where "q' \<le> q + 1" "sl_inv q' (H \<union> published s') s'"
      using sl_inv_writer [OF q(2) writer.hyps(2)] writer.prems q(1) by auto
    then show ?case using q(1) by (intro exI [of _ q']) auto
  next
    case (reader H n s s')
    then obtain q where "q \<le> n" "sl_inv q H s" by auto
    then show ?case using sl_inv_reader [OF _ reader.hyps(2)] by blast
  next
    case (load H n s seq i)
    have "even (seqlock (sl_mem s))" "seq = seqlock (sl_mem s)" using read_begin_first [OF load.hyps(2)] by auto
    then show ?case using load sl_inv_load by auto
  qed
  then show ?thesis using assms(4) by (auto simp: sl_inv_def reader_ok_def)
qed

text \<open>A writer that stores a cell in one transaction, and a reader after it.\<close>

definition sl0 :: "int sl_state" where
  "sl0 = \<lparr>sl_mem = \<lparr>seqlock = 0, cells = (\<lambda>_. 0)\<rparr>, sl_txs = (\<lambda>_. new_transaction 16), sl_reader = Idle\<rparr>"

definition sl1 :: "int sl_state" where
  "sl1 = sl0\<lparr>sl_mem := \<lparr>seqlock = 1, cells = (\<lambda>_. 0)\<rparr>, sl_txs := (sl_txs sl0)(0 := (new_transaction 16)\<lparr>tx_counter := 1\<rparr>)\<rparr>"

definition sl2 :: "int sl_state" where
  "sl2 = sl1\<lparr>sl_mem := store_cell 3 7 (sl_mem sl1)\<rparr>"

definition sl3 :: "int sl_state" where
  "sl3 = sl2\<lparr>sl_mem := (sl_mem sl2)\<lparr>seqlock := 2\<rparr>, sl_txs := (sl_txs sl2)(0 := (new_transaction 16)\<lparr>tx_completions := 1\<rparr>)\<rparr>"

lemma demo_sl_steps: "writer_step sl0 sl1" "writer_step sl1 sl2" "writer_step sl2 sl3"
proof -
  show "writer_step sl0 sl1"
    unfolding sl1_def by (rule writer_step.open_tx) (simp_all add: sl0_def new_transaction_def tx_begin_def seqlock_write_begin_def)
  show "writer_step sl1 sl2"
    unfolding sl2_def by (rule writer_step.store_in) (auto simp: tx_open_def sl1_def intro: exI [of _ 0])
  show "writer_step sl2 sl3"
    unfolding sl3_def
    by (rule writer_step.close_tx [where y = False])
       (simp_all add: sl2_def sl1_def sl0_def new_transaction_def tx_end_def seqlock_write_end_def store_cell_def)
qed

lemma validated_read_consistent_witness:
  "\<exists>H. sl_run sl0 H 3 (sl3\<lparr>sl_reader := Validated [(3, 7)]\<rparr>) \<and> (\<exists>c \<in> H. \<forall>(i, v) \<in> set [(3, 7)]. v = c i)"
proof -
  have 3: "sl_run sl0 (((published sl0 \<union> published sl1) \<union> published sl2) \<union> published sl3) (Suc (Suc (Suc 0))) sl3"
    by (intro sl_run.writer [OF sl_run.writer [OF sl_run.writer [OF sl_run.start]]] demo_sl_steps)
  have q: "seqlock (sl_mem sl3) = 2" "cells (sl_mem sl3) 3 = 7"
    by (simp_all add: sl3_def sl2_def store_cell_def)
  have "sl_run sl0 (published sl3) 3 (sl3\<lparr>sl_reader := Reading 2 []\<rparr>)"
    using sl_run.load [OF 3, of 2 0] read_begin_even [of "\<lambda>_. 2" 0] by (simp add: q numeral_3_eq_3)
  from sl_run.reader [OF this reader_step.cell [of _ 2 "[]" 3]]
  have "sl_run sl0 (published sl3) 3 (sl3\<lparr>sl_reader := Reading 2 [(3, 7)]\<rparr>)" by (simp add: q)
  from sl_run.reader [OF this reader_step.valid [of _ 2 "[(3, 7)]"]]
  have r: "sl_run sl0 (published sl3) 3 (sl3\<lparr>sl_reader := Validated [(3, 7)]\<rparr>)" by (simp add: q seqlock_read_validate_def)
  have "sl_fresh sl0" by (simp add: sl_fresh_def sl0_def new_transaction_def)
  from validated_read_consistent [OF r this] r show ?thesis by fastforce
qed

text \<open>
  A block of updates under guards that nest in any way always returns, stores exactly the cells of the updates in
  order, closes its transactions, counts one completion a top-level guard and moves the sequence number by two for each of
  them, so that it is even again; inside a transaction the guards do not move it at all. The nesting and the completions
  have to fit an \<^verbatim>\<open>int\<close> and the yield interval must not be zero.
\<close>

theorem guarded_updates_publish:
  assumes "0 \<le> tx_counter t" "yield_interval t \<noteq> 0" "tx_counter t + nesting_of us < 2 ^ 31"
    "tx_counter t = 0 \<Longrightarrow> tx_completions t + int (guards us) < 2 ^ 31"
  shows "\<exists>t' m'. run_updates us (t, m) = Inr (t', m') \<and> tx_counter t' = tx_counter t
    \<and> cells m' = fold (\<lambda>(i, v) c. c(i := v)) (stores_of us) (cells m)
    \<and> (if tx_counter t = 0 then seqlock m' = seqlock m + 2 * of_nat (guards us) \<and> tx_completions t' = tx_completions t + int (guards us)
       else seqlock m' = seqlock m \<and> tx_completions t' = tx_completions t)"
proof -
  have "depth_ok t (nesting_of us) (guards us)" using assms by (simp add: depth_ok_def)
  from run_updates_ok(2) [OF this, of m] show ?thesis by (auto simp: after_updates_def Let_def)
qed

lemma guarded_updates_publish_witness:
  "\<exists>t' m'. run_updates [Guarded [Store 0 5, Guarded [Store 1 6]], Guarded []] (new_transaction 16, \<lparr>seqlock = 4, cells = (\<lambda>_. 0 :: int)\<rparr>)
     = Inr (t', m') \<and> seqlock m' = 8 \<and> cells m' 1 = 6"
  using guarded_updates_publish [of "new_transaction 16" "[Guarded [Store 0 5, Guarded [Store 1 6]], Guarded []]"
      "\<lparr>seqlock = 4, cells = (\<lambda>_. 0 :: int)\<rparr>"]
  by (auto simp: new_transaction_def)

text \<open>
  C12: The nesting is counted by the transaction object, not by the snapshot: a transaction that a second object opens inside
  an open transaction of the first makes the sequence number even, so that readers are let in between the writer's stores.
\<close>

theorem second_object_lets_readers_in:
  assumes "even (seqlock m)" "tx_counter a = 0" "tx_counter b = 0"
  shows "\<exists>a' b' m1 m2. tx_begin (a, m) = Inr (a', m1) \<and> odd (seqlock m1) \<and> tx_begin (b, store_cell i v m1) = Inr (b', m2)
    \<and> tx_counter a' = 1 \<and> tx_counter b' = 1 \<and> cells m2 = (cells m)(i := v)
    \<and> seqlock_read_begin (\<lambda>_. seqlock m2) 0 = Some (seqlock m2, 0)"
  using assms by (simp add: tx_begin_def seqlock_write_begin_def store_cell_def read_begin_even)

lemma second_object_lets_readers_in_witness:
  "\<exists>a' b' m1 m2. tx_begin (new_transaction 16, \<lparr>seqlock = 4, cells = (\<lambda>_. 0 :: int)\<rparr>) = Inr (a', m1)
    \<and> tx_begin (new_transaction 16, store_cell 2 9 m1) = Inr (b', m2) \<and> seqlock_read_begin (\<lambda>_. seqlock m2) 0 = Some (seqlock m2, 0)"
  using second_object_lets_readers_in [of "\<lparr>seqlock = 4, cells = (\<lambda>_. 0 :: int)\<rparr>" "new_transaction 16" "new_transaction 16" 2 9]
  by (auto simp: new_transaction_def)

end
