(* ===== verification/Transfer_Engine.thy ===== *)
theory Transfer_Engine
  imports Transfer_Types
begin

text \<open>
  The transfer engine, \<^verbatim>\<open>src/src/core/transfer/transfer_engine.{h,cpp}\<close>: the class \<^verbatim>\<open>TransferEngine\<close> that moves expert weights
  between host and GPU memory. Its hash maps are lists of pairs with distinct keys; a copy enqueued on a stream is an element of
  \<open>te_issued\<close>, its event is named by the token of the transfer. The clock and the state of the events are arguments of the
  operations that read them. \<^verbatim>\<open>std::priority_queue\<close> is the list of its elements with a function \<open>te_top\<close> that says which element is at
  the top: any one of largest priority, the standard does not say which. The order in which \<^verbatim>\<open>std::unordered_map\<close> is
  iterated is an argument of the poll. A priority, a \<^verbatim>\<open>float\<close>, is its rank in the order of the floats. Timing figures and the
  bandwidth estimate (arithmetic on doubles) are left out.
\<close>

section \<open>State\<close>

text \<open>The key under which a transfer is known while it is in flight: expert, GPU and direction.\<close>

type_synonym inflight_key = "expert_key \<times> int \<times> transfer_direction"

abbreviation gpu_of :: "inflight_key \<Rightarrow> int" where "gpu_of k \<equiv> fst (snd k)"
abbreviation dir_of :: "inflight_key \<Rightarrow> transfer_direction" where "dir_of k \<equiv> snd (snd k)"

text \<open>The arguments of an enqueue; a callback is present or not.\<close>

record transfer_request =
  rq_key :: inflight_key
  rq_dst :: int
  rq_src :: int
  rq_bytes :: int
  rq_priority :: int
  rq_delay :: int
  rq_callback :: bool
  rq_staging :: bool

record staged_transfer =
  st_token :: u64
  st_req :: transfer_request
  st_time :: int

record pending_transfer =
  pt_token :: u64
  pt_key :: inflight_key
  pt_bytes :: int
  pt_priority :: int
  pt_callback :: bool
  pt_slot :: int
  pt_cancelled :: bool

record pinned_slot =
  ps_data :: u64
  ps_size :: u64
  ps_in_use :: bool

text \<open>A copy on one of the two streams of a GPU.\<close>

record dma_copy =
  dc_token :: u64
  dc_key :: inflight_key
  dc_dst :: int
  dc_src :: int
  dc_bytes :: int

record transfer_engine_st =
  te_gpus :: nat
  te_inflight :: "(inflight_key \<times> u64) list"
  te_pending :: "pending_transfer list"
  te_staged :: "staged_transfer list list"
  staged_token_gpu :: "(u64 \<times> int) list"
  te_next_token :: u64
  min_dispatch_per_gpu :: int
  max_inflight_per_gpu :: int
  bin_thresholds :: "int list"
  staged_bin_counts :: "int list list"
  pinned_pool :: "pinned_slot list"
  te_top :: "staged_transfer list \<Rightarrow> nat"
  te_issued :: "dma_copy list"

text \<open>The constructor.\<close>

definition transfer_engine_init ::
    "nat \<Rightarrow> int \<Rightarrow> int \<Rightarrow> int list \<Rightarrow> (staged_transfer list \<Rightarrow> nat) \<Rightarrow> transfer_engine_st res" where
  "transfer_engine_init n min_d max_i thresholds pick =
     (if n = 0 then Inl InvalidArgument
      else if \<not> sorted thresholds then Inl InvalidArgument
      else Inr \<lparr>te_gpus = n, te_inflight = [], te_pending = [], te_staged = replicate n [], staged_token_gpu = [],
                te_next_token = 1, min_dispatch_per_gpu = min_d, max_inflight_per_gpu = max_i, bin_thresholds = thresholds,
                staged_bin_counts = replicate n (replicate (length thresholds + 1) 0), pinned_pool = [], te_top = pick,
                te_issued = []\<rparr>)"

section \<open>Bins and pinned slots\<close>

text \<open>\<^verbatim>\<open>upper_bound\<close> on the sorted thresholds: the first one above the priority.\<close>

definition bin_for :: "int \<Rightarrow> transfer_engine_st \<Rightarrow> nat" where
  "bin_for p e = length (takeWhile (\<lambda>t. t \<le> p) (bin_thresholds e))"

definition bump_bin :: "nat \<Rightarrow> int \<Rightarrow> int \<Rightarrow> transfer_engine_st \<Rightarrow> transfer_engine_st" where
  "bump_bin g p n e =
     (let row = staged_bin_counts e ! g; b = bin_for p e in
      e\<lparr>staged_bin_counts := (staged_bin_counts e)[g := row[b := row ! b + n]]\<rparr>)"

definition pinned_free :: "pinned_slot \<Rightarrow> bool" where
  "pinned_free s \<longleftrightarrow> \<not> ps_in_use s \<and> ps_data s \<noteq> 0"

definition acquire_pinned_slot :: "transfer_engine_st \<Rightarrow> int \<times> transfer_engine_st" where
  "acquire_pinned_slot e =
     (let i = length (takeWhile (\<lambda>s. \<not> pinned_free s) (pinned_pool e)) in
      if i < length (pinned_pool e)
      then (int i, e\<lparr>pinned_pool := (pinned_pool e)[i := (pinned_pool e ! i)\<lparr>ps_in_use := True\<rparr>]\<rparr>)
      else (- 1, e))"

definition release_pinned_slot :: "int \<Rightarrow> transfer_engine_st \<Rightarrow> transfer_engine_st" where
  "release_pinned_slot i e =
     (if 0 \<le> i \<and> i < int (length (pinned_pool e))
      then e\<lparr>pinned_pool := (pinned_pool e)[nat i := (pinned_pool e ! nat i)\<lparr>ps_in_use := False\<rparr>]\<rparr> else e)"

definition pinned_pool_free :: "transfer_engine_st \<Rightarrow> nat" where
  "pinned_pool_free e = length (filter pinned_free (pinned_pool e))"

definition pinned_pool_size :: "transfer_engine_st \<Rightarrow> nat" where
  "pinned_pool_size e = length (pinned_pool e)"

text \<open>\<open>ptrs\<close> are what \<^verbatim>\<open>host_alloc_pinned\<close> returns for each slot.\<close>

definition init_pinned_pool :: "u64 \<Rightarrow> u64 list \<Rightarrow> transfer_engine_st \<Rightarrow> transfer_engine_st" where
  "init_pinned_pool bytes ptrs e =
     (if pinned_pool e \<noteq> [] \<or> bytes = 0 then e
      else e\<lparr>pinned_pool := map (\<lambda>p. if p \<noteq> 0 then \<lparr>ps_data = p, ps_size = bytes, ps_in_use = False\<rparr>
                                      else \<lparr>ps_data = 0, ps_size = 0, ps_in_use = False\<rparr>) ptrs\<rparr>)"

section \<open>Dispatch\<close>

text \<open>
  The slot and the source of a copy: an unpinned source is first copied into a pinned slot when there is one and it is
  large enough, otherwise the copy runs from the source itself.
\<close>

definition stage_source :: "transfer_request \<Rightarrow> transfer_engine_st \<Rightarrow> int \<times> int \<times> transfer_engine_st" where
  "stage_source rq e =
     (if rq_staging rq \<and> dir_of (rq_key rq) = KH2D then
        (case acquire_pinned_slot e of (i, e1) \<Rightarrow>
          if 0 \<le> i then
            let s = pinned_pool e1 ! nat i in
            if word_of_int (rq_bytes rq) \<le> ps_size s then (i, uint (ps_data s), e1)
            else (- 1, rq_src rq, release_pinned_slot i e1)
          else (- 1, rq_src rq, e1))
      else (- 1, rq_src rq, e))"

definition launch :: "u64 \<Rightarrow> transfer_request \<Rightarrow> transfer_engine_st \<Rightarrow> transfer_engine_st" where
  "launch tok rq e =
     (case stage_source rq e of (slot, src, e1) \<Rightarrow>
       e1\<lparr>te_pending := filter (\<lambda>q. pt_token q \<noteq> tok) (te_pending e1)
            @ [\<lparr>pt_token = tok, pt_key = rq_key rq, pt_bytes = rq_bytes rq, pt_priority = rq_priority rq,
                pt_callback = rq_callback rq, pt_slot = slot, pt_cancelled = False\<rparr>],
          te_issued := te_issued e1
            @ [\<lparr>dc_token = tok, dc_key = rq_key rq, dc_dst = rq_dst rq, dc_src = src, dc_bytes = rq_bytes rq\<rparr>]\<rparr>)"

definition dispatch_staged :: "staged_transfer \<Rightarrow> transfer_engine_st \<Rightarrow> transfer_engine_st" where
  "dispatch_staged st e =
     (let e1 = launch (st_token st) (st_req st) e;
          e2 = bump_bin (nat (gpu_of (rq_key (st_req st)))) (rq_priority (st_req st)) (- 1) e1
      in e2\<lparr>staged_token_gpu := filter (\<lambda>(t, g). t \<noteq> st_token st) (staged_token_gpu e2)\<rparr>)"

section \<open>Queries\<close>

definition inflight_count :: "int \<Rightarrow> transfer_engine_st \<Rightarrow> nat" where
  "inflight_count g e = length (filter (\<lambda>(k, t). gpu_of k = g) (te_inflight e))"

definition inflight_dir_count :: "int \<Rightarrow> transfer_direction \<Rightarrow> transfer_engine_st \<Rightarrow> nat" where
  "inflight_dir_count g dir e = length (filter (\<lambda>(k, t). gpu_of k = g \<and> dir_of k = dir) (te_inflight e))"

definition is_staged :: "u64 \<Rightarrow> transfer_engine_st \<Rightarrow> bool" where
  "is_staged t e \<longleftrightarrow> t \<in> fst ` set (staged_token_gpu e)"

definition is_inflight :: "inflight_key \<Rightarrow> transfer_engine_st \<Rightarrow> bool" where
  "is_inflight k e \<longleftrightarrow> k \<in> fst ` set (te_inflight e)"

definition is_dispatched_h2d :: "expert_key \<Rightarrow> int \<Rightarrow> transfer_engine_st \<Rightarrow> bool" where
  "is_dispatched_h2d k g e =
     (case map_of (te_inflight e) (k, g, KH2D) of None \<Rightarrow> False | Some t \<Rightarrow> \<not> is_staged t e)"

definition dispatched_count :: "int \<Rightarrow> transfer_engine_st \<Rightarrow> nat" where
  "dispatched_count g e = length (filter (\<lambda>(k, t). gpu_of k = g \<and> \<not> is_staged t e) (te_inflight e))"

definition staged_count :: "int \<Rightarrow> transfer_engine_st \<Rightarrow> nat" where
  "staged_count g e = (if g < 0 \<or> int (length (te_staged e)) \<le> g then 0 else length (te_staged e ! nat g))"

definition pending_bin_counts :: "int \<Rightarrow> transfer_engine_st \<Rightarrow> int list" where
  "pending_bin_counts g e =
     (if g < 0 \<or> int (length (staged_bin_counts e)) \<le> g then replicate (length (bin_thresholds e) + 1) 0
      else fold (\<lambda>pt c. if gpu_of (pt_key pt) = g then c[bin_for (pt_priority pt) e := c ! bin_for (pt_priority pt) e + 1] else c)
             (te_pending e) (staged_bin_counts e ! nat g))"

text \<open>The event of \<^verbatim>\<open>record_h2d_barrier\<close>, as the copies it waits for: those that are on the H2D stream of the GPU by now.\<close>

definition record_h2d_barrier :: "int \<Rightarrow> transfer_engine_st \<Rightarrow> dma_copy list option" where
  "record_h2d_barrier g e =
     (if g < 0 \<or> int (te_gpus e) \<le> g then None
      else Some (filter (\<lambda>c. gpu_of (dc_key c) = g \<and> dir_of (dc_key c) = KH2D) (te_issued e)))"

section \<open>Enqueue\<close>

definition enqueue_impl :: "int \<Rightarrow> transfer_request \<Rightarrow> transfer_engine_st \<Rightarrow> (u64 option \<times> transfer_engine_st) res" where
  "enqueue_impl now rq e =
     (if is_inflight (rq_key rq) e then Inr (None, e)
      else
        let tok = te_next_token e; g = gpu_of (rq_key rq); e1 = e\<lparr>te_next_token := tok + 1\<rparr> in
        if g < 0 \<or> int (te_gpus e) \<le> g then Inl UndefinedBehaviour
        else
          let e2 = e1\<lparr>te_inflight := te_inflight e1 @ [(rq_key rq, tok)]\<rparr> in
          if rq_delay rq \<le> 0 \<and> int (inflight_count g e1) < min_dispatch_per_gpu e1 then Inr (Some tok, launch tok rq e2)
          else
            let q = te_staged e2 ! nat g in
            Inr (Some tok, bump_bin (nat g) (rq_priority rq) 1
              (e2\<lparr>te_staged := (te_staged e2)[nat g := q @ [\<lparr>st_token = tok, st_req = rq, st_time = now\<rparr>]],
                  staged_token_gpu := staged_token_gpu e2 @ [(tok, g)]\<rparr>)))"

section \<open>The staged queues\<close>

definition remove_nth :: "nat \<Rightarrow> 'a list \<Rightarrow> 'a list" where
  "remove_nth i xs = take i xs @ drop (Suc i) xs"

abbreviation st_priority :: "staged_transfer \<Rightarrow> int" where "st_priority st \<equiv> rq_priority (st_req st)"

definition set_queue :: "nat \<Rightarrow> staged_transfer list \<Rightarrow> transfer_engine_st \<Rightarrow> transfer_engine_st" where
  "set_queue g q e = e\<lparr>te_staged := (te_staged e)[g := q]\<rparr>"

text \<open>The top of a queue, and the engine without it.\<close>

definition queue_top :: "nat \<Rightarrow> transfer_engine_st \<Rightarrow> staged_transfer" where
  "queue_top g e = (let q = te_staged e ! g in q ! te_top e q)"

definition queue_pop :: "nat \<Rightarrow> transfer_engine_st \<Rightarrow> transfer_engine_st" where
  "queue_pop g e = (let q = te_staged e ! g in set_queue g (remove_nth (te_top e q) q) e)"

definition queue_push :: "nat \<Rightarrow> staged_transfer \<Rightarrow> transfer_engine_st \<Rightarrow> transfer_engine_st" where
  "queue_push g st e = set_queue g (te_staged e ! g @ [st]) e"

definition delayed :: "int \<Rightarrow> staged_transfer \<Rightarrow> bool" where
  "delayed now st \<longleftrightarrow> 0 < rq_delay (st_req st) \<and> now - st_time st < rq_delay (st_req st)"

text \<open>
  The loop of \<^verbatim>\<open>flush_staged\<close> and \<^verbatim>\<open>replenish_gpu\<close> for at most \<open>n\<close> dispatches: it stops at an empty queue, and at a top whose
  delay has not passed, which it pushes back.
\<close>

fun dispatch_upto :: "nat \<Rightarrow> nat \<Rightarrow> int \<Rightarrow> transfer_engine_st \<Rightarrow> transfer_engine_st" where
  "dispatch_upto 0 g now e = e"
| "dispatch_upto (Suc n) g now e =
     (if te_staged e ! g = [] then e
      else
        let st = queue_top g e; e1 = queue_pop g e in
        if delayed now st then queue_push g st e1 else dispatch_upto n g now (dispatch_staged st e1))"

definition replenish_gpu :: "int \<Rightarrow> nat \<Rightarrow> transfer_engine_st \<Rightarrow> transfer_engine_st" where
  "replenish_gpu now g e = dispatch_upto (nat (min_dispatch_per_gpu e - int (dispatched_count (int g) e))) g now e"

definition flush_gpu :: "int \<Rightarrow> nat \<Rightarrow> transfer_engine_st \<Rightarrow> transfer_engine_st" where
  "flush_gpu now g e = dispatch_upto (nat (max_inflight_per_gpu e - int (dispatched_count (int g) e))) g now e"

definition flush_staged :: "int \<Rightarrow> transfer_engine_st \<Rightarrow> transfer_engine_st" where
  "flush_staged now e = fold (flush_gpu now) [0..<length (te_staged e)] e"

text \<open>
  The forced dispatch: every iteration pops one element, so the length of the queue bounds the loop.
\<close>

fun dispatch_at_least :: "nat \<Rightarrow> nat \<Rightarrow> int \<Rightarrow> int \<Rightarrow> transfer_engine_st \<Rightarrow> nat \<times> transfer_engine_st" where
  "dispatch_at_least 0 g p now e = (0, e)"
| "dispatch_at_least (Suc n) g p now e =
     (if te_staged e ! g = [] \<or> st_priority (queue_top g e) < p then (0, e)
      else
        let st = queue_top g e; e1 = queue_pop g e in
        if delayed now st then (0, queue_push g st e1)
        else case dispatch_at_least n g p now (dispatch_staged st e1) of (m, e2) \<Rightarrow> (Suc m, e2))"

definition dispatch_staged_at_least :: "int \<Rightarrow> int \<Rightarrow> int \<Rightarrow> transfer_engine_st \<Rightarrow> nat \<times> transfer_engine_st" where
  "dispatch_staged_at_least g p now e =
     (if g < 0 \<or> int (length (te_staged e)) \<le> g then (0, e)
      else dispatch_at_least (length (te_staged e ! nat g)) (nat g) p now e)"

section \<open>Completion polling\<close>

datatype event_status = EvReady | EvNotReady | EvError

record te_poll_result =
  te_completed :: "transfer_completion list"
  te_fired :: "(u64 \<times> bool) list"
  te_gpus_done :: "int list"

definition find_pending :: "u64 \<Rightarrow> transfer_engine_st \<Rightarrow> pending_transfer option" where
  "find_pending t e = find (\<lambda>p. pt_token p = t) (te_pending e)"

definition erase_pending :: "u64 \<Rightarrow> transfer_engine_st \<Rightarrow> transfer_engine_st" where
  "erase_pending t e = e\<lparr>te_pending := filter (\<lambda>p. pt_token p \<noteq> t) (te_pending e)\<rparr>"

definition erase_inflight :: "inflight_key \<Rightarrow> transfer_engine_st \<Rightarrow> transfer_engine_st" where
  "erase_inflight k e = e\<lparr>te_inflight := filter (\<lambda>(k', t). k' \<noteq> k) (te_inflight e)\<rparr>"

definition completion_for :: "pending_transfer \<Rightarrow> bool \<Rightarrow> transfer_completion" where
  "completion_for pt ok =
     \<lparr>xc_token = pt_token pt, xc_key = fst (pt_key pt), xc_gpu = gpu_of (pt_key pt), xc_direction = dir_of (pt_key pt),
      xc_bytes = pt_bytes pt, xc_success = ok\<rparr>"

definition finish_transfer ::
    "u64 \<times> bool \<Rightarrow> te_poll_result \<times> transfer_engine_st \<Rightarrow> te_poll_result \<times> transfer_engine_st" where
  "finish_transfer d s =
     (case (d, s) of ((t, ok), (r, e)) \<Rightarrow>
       case find_pending t e of
         None \<Rightarrow> (r, e)
       | Some pt \<Rightarrow>
           let e1 = erase_pending t (release_pinned_slot (pt_slot pt) e) in
           if pt_cancelled pt then (r, e1)
           else (r\<lparr>te_completed := te_completed r @ [completion_for pt ok],
                   te_fired := te_fired r @ (if pt_callback pt then [(t, ok)] else []),
                   te_gpus_done := gpu_of (pt_key pt) # te_gpus_done r\<rparr>,
                 erase_inflight (pt_key pt) e1))"

text \<open>\<open>order\<close> is the order in which the map of pending transfers is iterated, \<open>status\<close> what their events report.\<close>

definition poll_completions ::
    "int \<Rightarrow> u64 list \<Rightarrow> (u64 \<Rightarrow> event_status) \<Rightarrow> transfer_engine_st \<Rightarrow> te_poll_result \<times> transfer_engine_st" where
  "poll_completions now order status e =
     (let finished = map (\<lambda>t. (t, status t = EvReady)) (filter (\<lambda>t. status t \<noteq> EvNotReady) order) in
      case fold finish_transfer finished (\<lparr>te_completed = [], te_fired = [], te_gpus_done = []\<rparr>, e) of (r, e1) \<Rightarrow>
        (r, fold (\<lambda>g e. if int g \<in> set (te_gpus_done r) then replenish_gpu now g e else e) [0..<te_gpus e1] e1))"

section \<open>Cancellation and priorities\<close>

text \<open>The elements of a queue in the order in which they are popped.\<close>

fun pop_order :: "(staged_transfer list \<Rightarrow> nat) \<Rightarrow> nat \<Rightarrow> staged_transfer list \<Rightarrow> staged_transfer list" where
  "pop_order pick 0 q = []"
| "pop_order pick (Suc n) q = (if q = [] then [] else q ! pick q # pop_order pick n (remove_nth (pick q) q))"

definition cancel_staged :: "nat \<Rightarrow> u64 \<Rightarrow> transfer_engine_st \<Rightarrow> inflight_key option \<times> transfer_engine_st" where
  "cancel_staged g t e =
     (let q = te_staged e ! g; popped = pop_order (te_top e) (length q) q in
      case find (\<lambda>st. st_token st = t) popped of
        None \<Rightarrow> (None, set_queue g popped e)
      | Some st \<Rightarrow>
          (Some (rq_key (st_req st)),
           bump_bin g (st_priority st) (- 1) (erase_inflight (rq_key (st_req st)) (set_queue g (remove1 st popped) e))))"

definition cancel_pending :: "u64 \<Rightarrow> transfer_engine_st \<Rightarrow> inflight_key option \<times> transfer_engine_st" where
  "cancel_pending t e =
     (case find_pending t e of
        None \<Rightarrow> (None, e)
      | Some pt \<Rightarrow>
          if pt_cancelled pt then (None, e)
          else (Some (pt_key pt),
                erase_inflight (pt_key pt)
                  (e\<lparr>te_pending := map (\<lambda>p. if pt_token p = t then p\<lparr>pt_cancelled := True\<rparr> else p) (te_pending e)\<rparr>)))"

definition te_cancel_transfer :: "u64 \<Rightarrow> transfer_engine_st \<Rightarrow> inflight_key option \<times> transfer_engine_st" where
  "te_cancel_transfer t e =
     (case map_of (staged_token_gpu e) t of
        None \<Rightarrow> cancel_pending t e
      | Some g \<Rightarrow>
          (case cancel_staged (nat g) t (e\<lparr>staged_token_gpu := filter (\<lambda>(t', g). t' \<noteq> t) (staged_token_gpu e)\<rparr>) of
             (None, e1) \<Rightarrow> cancel_pending t e1
           | (Some k, e1) \<Rightarrow> (Some k, e1)))"

definition raise_priority :: "nat \<Rightarrow> u64 \<Rightarrow> int \<Rightarrow> staged_transfer \<Rightarrow> bool \<times> transfer_engine_st \<Rightarrow> bool \<times> transfer_engine_st" where
  "raise_priority g t p st s =
     (case s of (updated, e) \<Rightarrow>
       if st_token st = t \<and> st_priority st < p
       then (True, queue_push g (st\<lparr>st_req := (st_req st)\<lparr>rq_priority := p\<rparr>\<rparr>) (bump_bin g p 1 (bump_bin g (st_priority st) (- 1) e)))
       else (updated, queue_push g st e))"

definition te_reprioritize :: "u64 \<Rightarrow> int \<Rightarrow> transfer_engine_st \<Rightarrow> bool \<times> transfer_engine_st" where
  "te_reprioritize t p e =
     (case map_of (staged_token_gpu e) t of
        None \<Rightarrow> (False, e)
      | Some g \<Rightarrow>
          let q = te_staged e ! nat g in
          fold (raise_priority (nat g) t p) (pop_order (te_top e) (length q) q) (False, set_queue (nat g) [] e))"

section \<open>Drain\<close>

definition dispatch_all :: "nat \<Rightarrow> transfer_engine_st \<Rightarrow> transfer_engine_st" where
  "dispatch_all g e = ((\<lambda>e. dispatch_staged (queue_top g e) (queue_pop g e)) ^^ length (te_staged e ! g)) e"

text \<open>The polls of the drain: the \<open>i\<close>-th one sees the clock, the order and the events that \<open>env i\<close> gives.\<close>

partial_function (option) drain_polls ::
    "(nat \<Rightarrow> transfer_engine_st \<Rightarrow> int \<times> u64 list \<times> (u64 \<Rightarrow> event_status)) \<Rightarrow> nat \<Rightarrow> transfer_engine_st \<Rightarrow> transfer_engine_st option" where
  "drain_polls env i e =
     (if te_pending e = [] then Some e
      else case env i e of (now, order, status) \<Rightarrow> drain_polls env (Suc i) (snd (poll_completions now order status e)))"

definition te_drain ::
    "(nat \<Rightarrow> transfer_engine_st \<Rightarrow> int \<times> u64 list \<times> (u64 \<Rightarrow> event_status)) \<Rightarrow> transfer_engine_st \<Rightarrow> transfer_engine_st option" where
  "te_drain env e = drain_polls env 0 (fold dispatch_all [0..<length (te_staged e)] e)"

end
