(* ===== verification/Transfer_Engine_Inv.thy ===== *)
theory Transfer_Engine_Inv
  imports Transfer_Engine "HOL-Library.Multiset"
begin

text \<open>
  The invariant of the transfer engine and that every operation keeps it: the map of keys in flight holds exactly the staged
  and the live pending transfers, tokens are unique, the bin counters and the pinned slots are exact.
\<close>

section \<open>Books\<close>

text \<open>The transfers of the engine as multisets, and the pairs under which they are in flight.\<close>

definition staged_ms :: "transfer_engine_st \<Rightarrow> staged_transfer multiset" where
  "staged_ms e = mset (concat (te_staged e))"

definition pend_ms :: "transfer_engine_st \<Rightarrow> pending_transfer multiset" where
  "pend_ms e = mset (te_pending e)"

abbreviation st_pair :: "staged_transfer \<Rightarrow> inflight_key \<times> u64" where
  "st_pair st \<equiv> (rq_key (st_req st), st_token st)"

abbreviation pt_pair :: "pending_transfer \<Rightarrow> inflight_key \<times> u64" where
  "pt_pair p \<equiv> (pt_key p, pt_token p)"

abbreviation live_ms :: "pending_transfer multiset \<Rightarrow> pending_transfer multiset" where
  "live_ms P \<equiv> filter_mset (\<lambda>p. \<not> pt_cancelled p) P"

definition token_ms :: "staged_transfer multiset \<Rightarrow> pending_transfer multiset \<Rightarrow> u64 multiset" where
  "token_ms S P = image_mset st_token S + image_mset pt_token P"

definition core_ok :: "staged_transfer multiset \<Rightarrow> pending_transfer multiset \<Rightarrow> (inflight_key \<times> u64) list \<Rightarrow> u64 \<Rightarrow> bool" where
  "core_ok S P I n \<longleftrightarrow>
     mset I = image_mset st_pair S + image_mset pt_pair (live_ms P) \<and> distinct (map fst I)
     \<and> (\<forall>t. count (token_ms S P) t \<le> 1) \<and> (\<forall>t \<in># token_ms S P. t < n)"

lemma core_okD:
  assumes "core_ok S P I n"
  shows "mset I = image_mset st_pair S + image_mset pt_pair (live_ms P)" "distinct (map fst I)"
    "count (token_ms S P) t \<le> 1" "t \<in># token_ms S P \<Longrightarrow> t < n"
  using assms by (auto simp: core_ok_def)

lemma erase_pair:
  assumes "distinct (map fst I)" "(k, t) \<in> set I" shows "mset (filter (\<lambda>(k', t). k' \<noteq> k) I) = mset I - {#(k, t)#}"
  using assms
proof (induction I)
  case (Cons x I)
  obtain k' t' where x: "x = (k', t')" by fastforce
  show ?case
  proof (cases "k' = k")
    case True
    then have "filter (\<lambda>(k', t). k' \<noteq> k) I = I" using Cons.prems(1) by (force simp: x filter_id_conv)
    then show ?thesis using Cons.prems True by (force simp: x)
  next
    case False
    then show ?thesis using Cons by (auto simp: x)
  qed
qed simp

lemma core_in:
  assumes "core_ok S P I n"
  shows "st \<in># S \<Longrightarrow> st_pair st \<in> set I" "p \<in># P \<Longrightarrow> \<not> pt_cancelled p \<Longrightarrow> pt_pair p \<in> set I"
  using assms by (auto simp: core_ok_def simp flip: set_mset_mset)

lemma distinct_fst_sub: "distinct (map fst I) \<Longrightarrow> distinct (map fst (filter Q I))"
  by (rule distinct_map_filter)

text \<open>A new transfer, staged or dispatched at once.\<close>

lemma core_new:
  assumes "core_ok S P I n" "k \<notin> fst ` set I" "unat n + 1 < 2 ^ 64"
  shows "rq_key (st_req st) = k \<Longrightarrow> st_token st = n \<Longrightarrow> core_ok (S + {#st#}) P (I @ [(k, n)]) (n + 1)"
    and "pt_key p = k \<Longrightarrow> pt_token p = n \<Longrightarrow> \<not> pt_cancelled p \<Longrightarrow> core_ok S (P + {#p#}) (I @ [(k, n)]) (n + 1)"
proof -
  have lt: "t < n + 1" if "t \<in># token_ms S P" for t
    using core_okD(4) [OF assms(1) that] unat_next [OF assms(3)] by (simp add: word_less_nat_alt)
  have n: "n < n + 1" using unat_next [OF assms(3)] by (simp add: word_less_nat_alt)
  have new: "n \<notin># token_ms S P" using core_okD(4) [OF assms(1)] by fastforce
  have c: "count (token_ms S P + {#n#}) t \<le> 1" for t
    using core_okD(3) [OF assms(1), of t] new by (auto simp: not_in_iff)
  { assume s: "rq_key (st_req st) = k" "st_token st = n"
    then have "token_ms (S + {#st#}) P = token_ms S P + {#n#}" by (simp add: token_ms_def)
    then show "core_ok (S + {#st#}) P (I @ [(k, n)]) (n + 1)"
      using assms(1,2) s c lt n by (auto simp: core_ok_def) }
  { assume s: "pt_key p = k" "pt_token p = n" "\<not> pt_cancelled p"
    then have "token_ms S (P + {#p#}) = token_ms S P + {#n#}" by (simp add: token_ms_def)
    then show "core_ok S (P + {#p#}) (I @ [(k, n)]) (n + 1)"
      using assms(1,2) s c lt n by (auto simp: core_ok_def) }
qed

text \<open>A staged transfer that is dispatched, one that changes in place, and one that leaves.\<close>

lemma core_dispatch:
  assumes "core_ok (add_mset st S) P I n" "pt_pair p = st_pair st" "\<not> pt_cancelled p"
  shows "core_ok S (add_mset p P) I n"
  using assms by (simp add: core_ok_def token_ms_def)

lemma core_restage:
  assumes "core_ok (add_mset st S) P I n" "st_pair st' = st_pair st" shows "core_ok (add_mset st' S) P I n"
  using assms by (simp add: core_ok_def token_ms_def)

lemma core_less:
  assumes "core_ok S' P' I n" "mset I' = image_mset st_pair S + image_mset pt_pair (live_ms P)" "distinct (map fst I')"
    "token_ms S P \<subseteq># token_ms S' P'"
  shows "core_ok S P I' n"
  using assms mset_subset_eq_count [OF assms(4)] unfolding core_ok_def
  by (meson le_trans mset_subset_eqD)

lemma core_drop_staged:
  assumes "core_ok (add_mset st S) P I n" shows "core_ok S P (filter (\<lambda>(k', t). k' \<noteq> rq_key (st_req st)) I) n"
proof (rule core_less [OF assms])
  have "st_pair st \<in> set I" using core_in(1) [OF assms] by simp
  then have "mset (filter (\<lambda>(k', t). k' \<noteq> rq_key (st_req st)) I) = mset I - {#st_pair st#}"
    by (rule erase_pair [OF core_okD(2) [OF assms]])
  also have "\<dots> = image_mset st_pair S + image_mset pt_pair (live_ms P)" using core_okD(1) [OF assms] by simp
  finally show "mset (filter (\<lambda>(k', t). k' \<noteq> rq_key (st_req st)) I) = image_mset st_pair S + image_mset pt_pair (live_ms P)" .
qed (use core_okD(2) [OF assms] in \<open>auto simp: token_ms_def distinct_fst_sub\<close>)

lemma core_finish:
  assumes "core_ok S (add_mset p P) I n"
  shows "pt_cancelled p \<Longrightarrow> core_ok S P I n"
    and "\<not> pt_cancelled p \<Longrightarrow> core_ok S P (filter (\<lambda>(k', t). k' \<noteq> pt_key p) I) n"
proof -
  show "pt_cancelled p \<Longrightarrow> core_ok S P I n"
    by (rule core_less [OF assms]) (use core_okD(1,2) [OF assms] in \<open>auto simp: token_ms_def\<close>)
  assume l: "\<not> pt_cancelled p"
  show "core_ok S P (filter (\<lambda>(k', t). k' \<noteq> pt_key p) I) n"
  proof (rule core_less [OF assms])
    have "pt_pair p \<in> set I" using core_in(2) [OF assms] l by simp
    then have "mset (filter (\<lambda>(k', t). k' \<noteq> pt_key p) I) = mset I - {#pt_pair p#}"
      by (rule erase_pair [OF core_okD(2) [OF assms]])
    also have "\<dots> = image_mset st_pair S + image_mset pt_pair (live_ms P)" using core_okD(1) [OF assms] l by simp
    finally show "mset (filter (\<lambda>(k', t). k' \<noteq> pt_key p) I) = image_mset st_pair S + image_mset pt_pair (live_ms P)" .
  qed (use core_okD(2) [OF assms] in \<open>auto simp: token_ms_def distinct_fst_sub\<close>)
qed

lemma core_cancel:
  assumes "core_ok S (add_mset p P) I n" "\<not> pt_cancelled p"
  shows "core_ok S (add_mset (p\<lparr>pt_cancelled := True\<rparr>) P) (filter (\<lambda>(k', t). k' \<noteq> pt_key p) I) n"
  using core_finish(2) [OF assms] assms(1) by (simp add: core_ok_def token_ms_def)

section \<open>Pinned slots\<close>

text \<open>\<open>L\<close> are the slots that pending transfers hold: no slot twice, and exactly those are marked in use.\<close>

definition slots_ok :: "pinned_slot list \<Rightarrow> int multiset \<Rightarrow> bool" where
  "slots_ok pool L \<longleftrightarrow>
     (\<forall>i < length pool. ps_in_use (pool ! i) \<longleftrightarrow> int i \<in># L) \<and> (\<forall>i \<ge> 0. count L i \<le> 1)
     \<and> (\<forall>i \<in># L. - 1 \<le> i \<and> i < int (length pool))"

lemma slots_none: "slots_ok pool L \<Longrightarrow> slots_ok pool (add_mset (- 1) L)"
  by (auto simp: slots_ok_def)

lemma acquire_slot:
  assumes "slots_ok (pinned_pool e) L" "acquire_pinned_slot e = (i, e1)"
  shows "i = - 1 \<and> e1 = e
    \<or> 0 \<le> i \<and> i < int (length (pinned_pool e)) \<and> pinned_free (pinned_pool e ! nat i)
       \<and> e1 = e\<lparr>pinned_pool := (pinned_pool e)[nat i := (pinned_pool e ! nat i)\<lparr>ps_in_use := True\<rparr>]\<rparr>
       \<and> slots_ok (pinned_pool e1) (add_mset i L)"
proof -
  let ?n = "length (takeWhile (\<lambda>s. \<not> pinned_free s) (pinned_pool e))"
  show ?thesis
  proof (cases "?n < length (pinned_pool e)")
    case False
    then show ?thesis using assms(2) by (simp add: acquire_pinned_slot_def)
  next
    case True
    have f: "pinned_free (pinned_pool e ! ?n)" using nth_length_takeWhile [OF True] by simp
    have i: "i = int ?n" "e1 = e\<lparr>pinned_pool := (pinned_pool e)[?n := (pinned_pool e ! ?n)\<lparr>ps_in_use := True\<rparr>]\<rparr>"
      using assms(2) True by (auto simp: acquire_pinned_slot_def Let_def)
    have new: "int ?n \<notin># L" using assms(1) True f by (auto simp: slots_ok_def pinned_free_def)
    have "slots_ok (pinned_pool e1) (add_mset i L)"
      using assms(1) True new unfolding slots_ok_def i
      by (auto simp: nth_list_update not_in_iff)
    then show ?thesis using f i True by simp
  qed
qed

lemma stage_source_ok:
  assumes "slots_ok (pinned_pool e) L" "stage_source rq e = (slot, src, e1)"
  shows "slots_ok (pinned_pool e1) (add_mset slot L) \<and> e1 = e\<lparr>pinned_pool := pinned_pool e1\<rparr>"
proof (cases "rq_staging rq \<and> dir_of (rq_key rq) = KH2D")
  case False
  then show ?thesis using assms slots_none by (auto simp: stage_source_def)
next
  case True
  obtain i e2 where a: "acquire_pinned_slot e = (i, e2)" by fastforce
  show ?thesis
  proof (cases "i = - 1")
    case True
    then have "e2 = e" using acquire_slot [OF assms(1) a] by auto
    then show ?thesis using assms a True slots_none [OF assms(1)] \<open>rq_staging rq \<and> _\<close> by (auto simp: stage_source_def)
  next
    case False
    then have i: "0 \<le> i" "i < int (length (pinned_pool e))" "pinned_free (pinned_pool e ! nat i)"
      "e2 = e\<lparr>pinned_pool := (pinned_pool e)[nat i := (pinned_pool e ! nat i)\<lparr>ps_in_use := True\<rparr>]\<rparr>"
      "slots_ok (pinned_pool e2) (add_mset i L)"
      using acquire_slot [OF assms(1) a] by auto
    have "(pinned_pool e ! nat i)\<lparr>ps_in_use := False\<rparr> = pinned_pool e ! nat i" using i(3) by (simp add: pinned_free_def)
    then have "release_pinned_slot i e2 = e" using i by (simp add: release_pinned_slot_def)
    then show ?thesis
      using assms(2) a True i slots_none [OF assms(1)] by (auto simp: stage_source_def Let_def split: if_splits)
  qed
qed

lemma release_slot_ok:
  assumes "slots_ok (pinned_pool e) (add_mset i L)" shows "slots_ok (pinned_pool (release_pinned_slot i e)) L"
proof (cases "0 \<le> i")
  case False
  then have "i = - 1" using assms by (auto simp: slots_ok_def)
  then show ?thesis using assms by (auto simp: slots_ok_def release_pinned_slot_def)
next
  case True
  have r: "i < int (length (pinned_pool e))" using assms by (auto simp: slots_ok_def)
  have "count (add_mset i L) i \<le> 1" using assms True unfolding slots_ok_def by blast
  then have n: "i \<notin># L" by (simp add: not_in_iff)
  have c: "count L j \<le> 1" if "0 \<le> j" for j
    using assms that unfolding slots_ok_def by (metis count_add_mset le_Suc_eq le_trans nat_le_linear not_less_eq_eq)
  have "ps_in_use ((pinned_pool e)[nat i := (pinned_pool e ! nat i)\<lparr>ps_in_use := False\<rparr>] ! j) \<longleftrightarrow> int j \<in># L"
    if "j < length (pinned_pool e)" for j
    using assms that n True r by (cases "j = nat i") (auto simp: slots_ok_def)
  then show ?thesis
    using assms c True r by (auto simp: slots_ok_def release_pinned_slot_def)
qed

section \<open>Queues\<close>

lemma mset_concat_update:
  "g < length xs \<Longrightarrow> mset (concat (xs[g := q])) + mset (xs ! g) = mset (concat xs) + mset q"
proof (induction xs arbitrary: g)
  case (Cons x xs)
  then show ?case by (cases g) (auto simp: ac_simps)
qed simp

lemma mset_remove_nth: "i < length xs \<Longrightarrow> mset xs = add_mset (xs ! i) (mset (remove_nth i xs))"
  unfolding remove_nth_def by (metis add_mset_add_single id_take_nth_drop mset.simps(2) mset_append union_mset_add_mset_right)

lemma staged_set_queue:
  assumes "g < length (te_staged e)" shows "staged_ms (set_queue g q e) + mset (te_staged e ! g) = staged_ms e + mset q"
  using mset_concat_update [OF assms] by (simp add: staged_ms_def set_queue_def)

lemma pop_order_mset:
  assumes "\<And>q. q \<noteq> [] \<Longrightarrow> pick q < length q" shows "mset (pop_order pick (length q) q) = mset q"
proof (induction "length q" arbitrary: q)
  case (Suc n)
  then have q: "q \<noteq> []" by auto
  have m: "mset q = add_mset (q ! pick q) (mset (remove_nth (pick q) q))" by (rule mset_remove_nth [OF assms [OF q]])
  have "length (remove_nth (pick q) q) = n" using Suc.hyps(2) assms [OF q] by (simp add: remove_nth_def)
  then show ?case using Suc.hyps(1) [of "remove_nth (pick q) q"] Suc.hyps(2) q m by (simp flip: Suc.hyps(2))
qed simp

section \<open>Bins\<close>

definition bin_row :: "int list \<Rightarrow> staged_transfer multiset \<Rightarrow> int list" where
  "bin_row ts M = map (\<lambda>b. int (size {#st \<in># M. length (takeWhile (\<lambda>t. t \<le> st_priority st) ts) = b#})) [0..<length ts + 1]"

lemma bin_row_add:
  "bin_row ts (add_mset st M) = (let b = length (takeWhile (\<lambda>t. t \<le> st_priority st) ts); row = bin_row ts M in row[b := row ! b + 1])"
  (is "?L = ?R")
proof (rule nth_equalityI)
  have b: "length (takeWhile (\<lambda>t. t \<le> st_priority st) ts) < length ts + 1" by (simp add: length_takeWhile_le le_imp_less_Suc)
  show "length ?L = length ?R" by (simp add: bin_row_def Let_def)
  fix i assume "i < length ?L"
  then show "?L ! i = ?R ! i" using b by (auto simp: bin_row_def nth_list_update Let_def nth_append)
qed

lemma bin_row_drop:
  "bin_row ts M = (let b = length (takeWhile (\<lambda>t. t \<le> st_priority st) ts); row = bin_row ts (add_mset st M) in row[b := row ! b - 1])"
proof -
  have "length (takeWhile (\<lambda>t. t \<le> st_priority st) ts) < length (bin_row ts M)"
    by (simp add: bin_row_def length_takeWhile_le le_imp_less_Suc)
  then show ?thesis unfolding bin_row_add Let_def by simp
qed

definition bins_ok :: "transfer_engine_st \<Rightarrow> bool" where
  "bins_ok e \<longleftrightarrow>
     length (staged_bin_counts e) = te_gpus e
     \<and> (\<forall>g < te_gpus e. staged_bin_counts e ! g = bin_row (bin_thresholds e) (mset (te_staged e ! g)))"

section \<open>The invariant\<close>

definition queue_law :: "(staged_transfer list \<Rightarrow> nat) \<Rightarrow> bool" where
  "queue_law pick \<longleftrightarrow> (\<forall>q. q \<noteq> [] \<longrightarrow> pick q < length q \<and> (\<forall>x \<in> set q. st_priority x \<le> st_priority (q ! pick q)))"

definition gpu_in :: "transfer_engine_st \<Rightarrow> int \<Rightarrow> bool" where
  "gpu_in e g \<longleftrightarrow> 0 \<le> g \<and> g < int (te_gpus e)"

text \<open>The copy of a pending transfer is on a stream.\<close>

definition copied :: "transfer_engine_st \<Rightarrow> pending_transfer \<Rightarrow> bool" where
  "copied e p \<longleftrightarrow> (\<exists>c \<in> set (te_issued e). dc_token c = pt_token p \<and> dc_key c = pt_key p)"

definition shape_ok :: "transfer_engine_st \<Rightarrow> bool" where
  "shape_ok e \<longleftrightarrow>
     length (te_staged e) = te_gpus e
     \<and> (\<forall>g < te_gpus e. \<forall>st \<in> set (te_staged e ! g). gpu_of (rq_key (st_req st)) = int g)
     \<and> (\<forall>p \<in> set (te_pending e). gpu_in e (gpu_of (pt_key p)) \<and> copied e p)"

definition index_ok :: "transfer_engine_st \<Rightarrow> bool" where
  "index_ok e \<longleftrightarrow> mset (staged_token_gpu e) = image_mset (\<lambda>st. (st_token st, gpu_of (rq_key (st_req st)))) (staged_ms e)"

definition te_inv :: "transfer_engine_st \<Rightarrow> bool" where
  "te_inv e \<longleftrightarrow>
     queue_law (te_top e) \<and> shape_ok e \<and> core_ok (staged_ms e) (pend_ms e) (te_inflight e) (te_next_token e)
     \<and> index_ok e \<and> bins_ok e \<and> slots_ok (pinned_pool e) (image_mset pt_slot (pend_ms e))"

lemma te_invD:
  assumes "te_inv e"
  shows "queue_law (te_top e)" "shape_ok e" "core_ok (staged_ms e) (pend_ms e) (te_inflight e) (te_next_token e)"
    "index_ok e" "bins_ok e" "slots_ok (pinned_pool e) (image_mset pt_slot (pend_ms e))"
  using assms by (simp_all add: te_inv_def)

text \<open>What no operation changes.\<close>

definition te_static :: "transfer_engine_st \<Rightarrow> transfer_engine_st \<Rightarrow> bool" where
  "te_static e e' \<longleftrightarrow>
     te_gpus e' = te_gpus e \<and> bin_thresholds e' = bin_thresholds e \<and> te_top e' = te_top e
     \<and> min_dispatch_per_gpu e' = min_dispatch_per_gpu e \<and> max_inflight_per_gpu e' = max_inflight_per_gpu e"

lemma te_static_refl [simp]: "te_static e e"
  by (simp add: te_static_def)

lemma te_static_trans: "te_static e e1 \<Longrightarrow> te_static e1 e2 \<Longrightarrow> te_static e e2"
  by (simp add: te_static_def)

text \<open>A launch under a token that no pending transfer has.\<close>

lemma launch_eq:
  assumes "slots_ok (pinned_pool e) L" "\<And>p. p \<in> set (te_pending e) \<Longrightarrow> pt_token p \<noteq> tok"
  obtains p pool c where "launch tok rq e = e\<lparr>te_pending := te_pending e @ [p], pinned_pool := pool, te_issued := te_issued e @ [c]\<rparr>"
    "pt_pair p = (rq_key rq, tok)" "\<not> pt_cancelled p" "pt_priority p = rq_priority rq" "slots_ok pool (add_mset (pt_slot p) L)"
    "dc_token c = tok" "dc_key c = rq_key rq" "dc_dst c = rq_dst rq"
proof -
  obtain slot src e1 where s: "stage_source rq e = (slot, src, e1)" by (metis prod.exhaust)
  from stage_source_ok [OF assms(1) s] obtain pool where ok: "slots_ok pool (add_mset slot L)" "e1 = e\<lparr>pinned_pool := pool\<rparr>"
    by metis
  let ?p = "\<lparr>pt_token = tok, pt_key = rq_key rq, pt_bytes = rq_bytes rq, pt_priority = rq_priority rq,
    pt_callback = rq_callback rq, pt_slot = slot, pt_cancelled = False\<rparr>"
  let ?c = "\<lparr>dc_token = tok, dc_key = rq_key rq, dc_dst = rq_dst rq, dc_src = src, dc_bytes = rq_bytes rq\<rparr>"
  have f: "filter (\<lambda>q. pt_token q \<noteq> tok) (te_pending e) = te_pending e" using assms(2) by (simp add: filter_id_conv)
  show ?thesis
    by (rule that [where p = ?p and pool = pool and c = ?c]) (simp_all add: launch_def s ok f)
qed

section \<open>Dispatching the top of a queue\<close>

lemma shape_queue:
  assumes "shape_ok e" "g < te_gpus e" "\<And>st. st \<in> set q \<Longrightarrow> gpu_of (rq_key (st_req st)) = int g"
  shows "length ((te_staged e)[g := q]) = te_gpus e"
    "\<forall>h < te_gpus e. \<forall>st \<in> set ((te_staged e)[g := q] ! h). gpu_of (rq_key (st_req st)) = int h"
  using assms by (auto simp: shape_ok_def nth_list_update)

lemma bins_row:
  assumes "bins_ok e" "g < te_gpus e" "length (te_staged e) = te_gpus e" "row = bin_row (bin_thresholds e) (mset q)"
  shows "length ((staged_bin_counts e)[g := row]) = te_gpus e"
    "\<forall>h < te_gpus e. (staged_bin_counts e)[g := row] ! h = bin_row (bin_thresholds e) (mset ((te_staged e)[g := q] ! h))"
  using assms by (auto simp: bins_ok_def nth_list_update)

lemma top_in:
  assumes "te_inv e" "g < te_gpus e" "te_staged e ! g \<noteq> []"
  shows "mset (te_staged e ! g) = add_mset (queue_top g e) (mset (remove_nth (te_top e (te_staged e ! g)) (te_staged e ! g)))"
    "queue_top g e \<in> set (te_staged e ! g)" "gpu_of (rq_key (st_req (queue_top g e))) = int g"
    "st \<in> set (te_staged e ! g) \<Longrightarrow> st_priority st \<le> st_priority (queue_top g e)"
proof -
  have l: "te_top e (te_staged e ! g) < length (te_staged e ! g)" using te_invD(1) [OF assms(1)] assms(3) by (simp add: queue_law_def)
  show "mset (te_staged e ! g) = add_mset (queue_top g e) (mset (remove_nth (te_top e (te_staged e ! g)) (te_staged e ! g)))"
    using mset_remove_nth [OF l] by (simp add: queue_top_def Let_def)
  show t: "queue_top g e \<in> set (te_staged e ! g)" using l by (simp add: queue_top_def Let_def)
  then show "gpu_of (rq_key (st_req (queue_top g e))) = int g" using te_invD(2) [OF assms(1)] assms(2) by (auto simp: shape_ok_def)
  show "st \<in> set (te_staged e ! g) \<Longrightarrow> st_priority st \<le> st_priority (queue_top g e)"
    using te_invD(1) [OF assms(1)] assms(3) by (simp add: queue_law_def queue_top_def Let_def)
qed

lemma index_drop:
  assumes "mset I = add_mset (t, g) (image_mset f S)" "t \<notin> fst ` set_mset (image_mset f S)"
  shows "mset (filter (\<lambda>(t', g). t' \<noteq> t) I) = image_mset f S"
proof -
  have "filter_mset (\<lambda>(t', g). t' \<noteq> t) (image_mset f S) = image_mset f S"
    using assms(2) by (intro filter_mset_eq_conv [THEN iffD2]) force
  then show ?thesis using assms(1) by simp
qed

text \<open>The state after the top of a queue went to the device: it left the queue and is the last pending transfer.\<close>

definition dispatched_top :: "nat \<Rightarrow> transfer_engine_st \<Rightarrow> pending_transfer \<Rightarrow> transfer_engine_st \<Rightarrow> bool" where
  "dispatched_top g e p e' \<longleftrightarrow>
     te_static e e' \<and> te_inflight e' = te_inflight e \<and> te_next_token e' = te_next_token e \<and> te_pending e' = te_pending e @ [p]
     \<and> te_staged e' = (te_staged e)[g := remove_nth (te_top e (te_staged e ! g)) (te_staged e ! g)]
     \<and> pt_pair p = st_pair (queue_top g e) \<and> pt_priority p = st_priority (queue_top g e) \<and> \<not> pt_cancelled p
     \<and> staged_token_gpu e' = filter (\<lambda>(t, g'). t \<noteq> st_token (queue_top g e)) (staged_token_gpu e)"

lemma dispatch_top:
  assumes "te_inv e" "g < te_gpus e" "te_staged e ! g \<noteq> []"
  shows "\<exists>p. dispatched_top g e p (dispatch_staged (queue_top g e) (queue_pop g e)) \<and> te_inv (dispatch_staged (queue_top g e) (queue_pop g e))"
proof -
  let ?st = "queue_top g e" and ?q = "remove_nth (te_top e (te_staged e ! g)) (te_staged e ! g)"
  let ?e' = "dispatch_staged ?st (queue_pop g e)"
  note I = te_invD [OF assms(1)] and T = top_in [OF assms]
  have len: "length (te_staged e) = te_gpus e" using I(2) by (simp add: shape_ok_def)
  have pop: "queue_pop g e = e\<lparr>te_staged := (te_staged e)[g := ?q]\<rparr>" by (simp add: queue_pop_def set_queue_def Let_def)
  have S: "staged_ms e = add_mset ?st (staged_ms (queue_pop g e))"
    using staged_set_queue [of g e ?q] assms(2) len T(1) by (simp add: queue_pop_def Let_def)
  have core: "core_ok (add_mset ?st (staged_ms (queue_pop g e))) (pend_ms e) (te_inflight e) (te_next_token e)" using I(3) S by simp
  have tok: "count (token_ms (add_mset ?st (staged_ms (queue_pop g e))) (pend_ms e)) (st_token ?st) \<le> 1" by (rule core_okD(3) [OF core])
  then have fresh: "st_token ?st \<notin># image_mset pt_token (pend_ms e)" "st_token ?st \<notin># image_mset st_token (staged_ms (queue_pop g e))"
    by (auto simp: token_ms_def simp del: set_image_mset simp flip: not_in_iff)
  have "pt_token p \<noteq> st_token ?st" if "p \<in> set (te_pending (queue_pop g e))" for p
    using fresh(1) that by (force simp: pop pend_ms_def)
  moreover have sl: "slots_ok (pinned_pool (queue_pop g e)) (image_mset pt_slot (pend_ms e))" using I(6) by (simp add: pop)
  ultimately obtain p pool c where L: "launch (st_token ?st) (st_req ?st) (queue_pop g e)
      = (queue_pop g e)\<lparr>te_pending := te_pending (queue_pop g e) @ [p], pinned_pool := pool, te_issued := te_issued (queue_pop g e) @ [c]\<rparr>"
    "pt_pair p = (rq_key (st_req ?st), st_token ?st)" "\<not> pt_cancelled p" "pt_priority p = st_priority ?st"
    "slots_ok pool (add_mset (pt_slot p) (image_mset pt_slot (pend_ms e)))" "dc_token c = st_token ?st" "dc_key c = rq_key (st_req ?st)"
    using launch_eq [OF sl, of "st_token ?st" "st_req ?st"] by metis
  let ?row = "staged_bin_counts e ! g" and ?b = "length (takeWhile (\<lambda>t. t \<le> st_priority ?st) (bin_thresholds e))"
  have E: "?e' = e\<lparr>te_staged := (te_staged e)[g := ?q], te_pending := te_pending e @ [p], pinned_pool := pool, te_issued := te_issued e @ [c],
      staged_bin_counts := (staged_bin_counts e)[g := ?row[?b := ?row ! ?b - 1]],
      staged_token_gpu := filter (\<lambda>(t, g'). t \<noteq> st_token ?st) (staged_token_gpu e)\<rparr>"
    unfolding dispatch_staged_def Let_def L(1) by (simp add: T(3) bump_bin_def bin_for_def pop Let_def)
  have d: "dispatched_top g e p ?e'" using L by (simp add: dispatched_top_def E te_static_def)
  have q: "gpu_of (rq_key (st_req st)) = int g" if "st \<in> set ?q" for st
    using that I(2) assms(2) T(1) by (auto simp: shape_ok_def) (metis insertCI set_mset_add_mset_insert set_mset_mset)
  have row: "?row[?b := ?row ! ?b - 1] = bin_row (bin_thresholds e) (mset ?q)"
    using I(5) assms(2) bin_row_drop [of "bin_thresholds e" "mset ?q" ?st] T(1) by (simp add: bins_ok_def Let_def)
  have st': "staged_ms ?e' = staged_ms (queue_pop g e)" unfolding E by (simp add: pop staged_ms_def)
  have pe: "pend_ms ?e' = add_mset p (pend_ms e)" by (simp add: E pend_ms_def)
  have "core_ok (staged_ms ?e') (pend_ms ?e') (te_inflight ?e') (te_next_token ?e')"
    using core_dispatch [OF core _ L(3)] L(2) by (simp add: st' pe) (simp add: E)
  moreover have "shape_ok ?e'"
    using shape_queue [OF I(2) assms(2) q] I(2) L(2,6,7) T(3) assms(2) by (auto simp: shape_ok_def E gpu_in_def copied_def)
  moreover have "bins_ok ?e'" using bins_row [OF I(5) assms(2) len row] by (simp add: bins_ok_def E)
  moreover have "index_ok ?e'"
  proof -
    have "mset (staged_token_gpu e) = add_mset (st_token ?st, int g)
        (image_mset (\<lambda>st. (st_token st, gpu_of (rq_key (st_req st)))) (staged_ms (queue_pop g e)))"
      using I(4) S T(3) by (simp add: index_ok_def)
    moreover have "st_token ?st \<notin> fst ` set_mset (image_mset (\<lambda>st. (st_token st, gpu_of (rq_key (st_req st)))) (staged_ms (queue_pop g e)))"
      using fresh(2) by (simp add: image_image)
    ultimately have "mset (filter (\<lambda>(t', g'). t' \<noteq> st_token ?st) (staged_token_gpu e))
        = image_mset (\<lambda>st. (st_token st, gpu_of (rq_key (st_req st)))) (staged_ms (queue_pop g e))"
      by (rule index_drop)
    then show ?thesis unfolding index_ok_def st' by (simp add: E)
  qed
  moreover have "slots_ok (pinned_pool ?e') (image_mset pt_slot (pend_ms ?e'))" using L(5) by (simp add: pe) (simp add: E)
  moreover have "queue_law (te_top ?e')" using I(1) by (simp add: E)
  ultimately have "te_inv ?e'" by (simp add: te_inv_def)
  then show ?thesis using d by blast
qed

section \<open>The loops over the queues\<close>

text \<open>Pushing a popped element back changes only the order of the queue.\<close>

lemma push_back:
  assumes "te_inv e" "g < te_gpus e" "te_staged e ! g \<noteq> []"
  shows "te_inv (queue_push g (queue_top g e) (queue_pop g e)) \<and> te_static e (queue_push g (queue_top g e) (queue_pop g e))
    \<and> mset (te_staged (queue_push g (queue_top g e) (queue_pop g e)) ! g) = mset (te_staged e ! g)"
proof -
  let ?q = "remove_nth (te_top e (te_staged e ! g)) (te_staged e ! g) @ [queue_top g e]"
  let ?e' = "queue_push g (queue_top g e) (queue_pop g e)"
  note I = te_invD [OF assms(1)] and T = top_in [OF assms]
  have len: "length (te_staged e) = te_gpus e" using I(2) by (simp add: shape_ok_def)
  have E: "?e' = e\<lparr>te_staged := (te_staged e)[g := ?q]\<rparr>"
    using assms(2) len by (simp add: queue_push_def queue_pop_def set_queue_def Let_def)
  have m: "mset ?q = mset (te_staged e ! g)" using T(1) by simp
  have "staged_ms (set_queue g ?q e) + mset (te_staged e ! g) = staged_ms e + mset (te_staged e ! g)"
    using staged_set_queue [of g e ?q] assms(2) len unfolding m by simp
  then have S: "staged_ms ?e' = staged_ms e" by (simp add: E set_queue_def)
  have q: "gpu_of (rq_key (st_req st)) = int g" if "st \<in> set ?q" for st
    using that I(2) assms(2) mset_eq_setD [OF m] by (auto simp: shape_ok_def)
  have "shape_ok ?e'" using shape_queue [where q = ?q, OF I(2) assms(2) q] I(2) unfolding E by (simp add: shape_ok_def gpu_in_def copied_def)
  moreover have "bins_ok ?e'"
    using I(5) m assms(2) len unfolding E by (simp add: bins_ok_def nth_list_update)
  moreover have "index_ok ?e'" using I(4) unfolding index_ok_def S by (simp add: E)
  moreover have "core_ok (staged_ms ?e') (pend_ms ?e') (te_inflight ?e') (te_next_token ?e')"
    using I(3) unfolding S by (simp add: E pend_ms_def)
  moreover have "slots_ok (pinned_pool ?e') (image_mset pt_slot (pend_ms ?e'))" "queue_law (te_top ?e')"
    using I(1,6) by (simp_all add: E pend_ms_def)
  ultimately have "te_inv ?e'" by (simp add: te_inv_def)
  then show ?thesis using m assms(2) len by (simp add: E te_static_def)
qed

text \<open>
  What the dispatch loops do: they move some of the transfers of one queue to the end of the pending ones, the ones that
  move have at least the priority of those that stay, and nothing is lost.
\<close>

definition moved :: "nat \<Rightarrow> transfer_engine_st \<Rightarrow> pending_transfer list \<Rightarrow> transfer_engine_st \<Rightarrow> bool" where
  "moved g e ps e' \<longleftrightarrow>
     te_static e e' \<and> te_inflight e' = te_inflight e \<and> te_next_token e' = te_next_token e \<and> te_pending e' = te_pending e @ ps
     \<and> (\<forall>h. h \<noteq> g \<longrightarrow> te_staged e' ! h = te_staged e ! h)
     \<and> image_mset st_pair (mset (te_staged e ! g)) = image_mset st_pair (mset (te_staged e' ! g)) + image_mset pt_pair (mset ps)
     \<and> (\<forall>p \<in> set ps. \<not> pt_cancelled p \<and> (\<forall>st \<in> set (te_staged e' ! g). st_priority st \<le> pt_priority p))
     \<and> set (te_staged e' ! g) \<subseteq> set (te_staged e ! g)"

lemma moved_refl: "moved g e [] e"
  by (simp add: moved_def)

lemma moved_step:
  assumes "te_inv e" "g < te_gpus e" "te_staged e ! g \<noteq> []" "dispatched_top g e p e1" "moved g e1 ps e2"
  shows "moved g e (p # ps) e2"
proof -
  note T = top_in [OF assms(1-3)]
  have len: "length (te_staged e) = te_gpus e" using te_invD(2) [OF assms(1)] by (simp add: shape_ok_def)
  have d: "te_staged e1 ! g = remove_nth (te_top e (te_staged e ! g)) (te_staged e ! g)" "\<And>h. h \<noteq> g \<Longrightarrow> te_staged e1 ! h = te_staged e ! h"
    using assms(2,4) len by (auto simp: dispatched_top_def)
  have sub: "set (te_staged e1 ! g) \<subseteq> set (te_staged e ! g)"
    unfolding d(1) by (metis T(1) set_mset_mset set_mset_add_mset_insert subset_insertI)
  have "image_mset st_pair (mset (te_staged e ! g)) = image_mset st_pair (mset (te_staged e2 ! g)) + image_mset pt_pair (mset (p # ps))"
    using assms(4,5) T(1) d(1) by (simp add: moved_def dispatched_top_def)
  then show ?thesis
    using assms(4,5) d(2) sub T(4) te_static_trans by (auto simp: moved_def dispatched_top_def subset_iff)
qed

text \<open>Why a dispatch loop stops before its limit: nothing is staged, or a delayed transfer of the highest priority is at the top.\<close>

definition nothing_due :: "int \<Rightarrow> nat \<Rightarrow> transfer_engine_st \<Rightarrow> bool" where
  "nothing_due now g e \<longleftrightarrow>
     te_staged e ! g = []
     \<or> (\<exists>st \<in> set (te_staged e ! g). delayed now st \<and> (\<forall>x \<in> set (te_staged e ! g). st_priority x \<le> st_priority st))"

lemma dispatch_upto_moves:
  assumes "te_inv e" "g < te_gpus e"
  shows "\<exists>ps. moved g e ps (dispatch_upto n g now e) \<and> te_inv (dispatch_upto n g now e) \<and> length ps \<le> n
    \<and> (length ps = n \<or> nothing_due now g (dispatch_upto n g now e))"
  using assms
proof (induction n arbitrary: e)
  case (Suc n)
  show ?case
  proof (cases "te_staged e ! g = []")
    case True
    then show ?thesis using moved_refl [of g e] Suc.prems by (auto simp: nothing_due_def)
  next
    case False
    show ?thesis
    proof (cases "delayed now (queue_top g e)")
      case True
      note P = push_back [OF Suc.prems False]
      have "moved g e [] (queue_push g (queue_top g e) (queue_pop g e))"
        using P mset_eq_setD [OF conjunct2 [OF conjunct2 [OF P]]]
        by (auto simp: moved_def) (auto simp: queue_push_def queue_pop_def set_queue_def Let_def)
      moreover have "nothing_due now g (queue_push g (queue_top g e) (queue_pop g e))"
        unfolding nothing_due_def mset_eq_setD [OF conjunct2 [OF conjunct2 [OF P]]]
        using True top_in(2,4) [OF Suc.prems False] by blast
      ultimately show ?thesis using True False P by (auto simp: Let_def)
    next
      case nd: False
      obtain p where p: "dispatched_top g e p (dispatch_staged (queue_top g e) (queue_pop g e))"
        "te_inv (dispatch_staged (queue_top g e) (queue_pop g e))"
        using dispatch_top [OF Suc.prems False] by blast
      have "g < te_gpus (dispatch_staged (queue_top g e) (queue_pop g e))"
        using p(1) Suc.prems(2) by (simp add: dispatched_top_def te_static_def)
      from Suc.IH [OF p(2) this] obtain ps where ps: "moved g (dispatch_staged (queue_top g e) (queue_pop g e)) ps (dispatch_upto (Suc n) g now e)"
        "te_inv (dispatch_upto (Suc n) g now e)" "length ps \<le> n" "length ps = n \<or> nothing_due now g (dispatch_upto (Suc n) g now e)"
        using nd False by (auto simp: Let_def)
      from moved_step [OF Suc.prems False p(1) ps(1)] ps(2-4) show ?thesis by (intro exI [of _ "p # ps"]) auto
    qed
  qed
qed (use moved_refl in auto)

text \<open>A sound engine in which some staged transfers went to the device and nothing else happened.\<close>

definition shifted :: "transfer_engine_st \<Rightarrow> transfer_engine_st \<Rightarrow> bool" where
  "shifted e e' \<longleftrightarrow>
     te_inv e' \<and> te_static e e' \<and> te_inflight e' = te_inflight e \<and> te_next_token e' = te_next_token e
     \<and> (\<exists>ps. te_pending e' = te_pending e @ ps \<and> (\<forall>p \<in> set ps. \<not> pt_cancelled p))"

lemma shifted_refl: "te_inv e \<Longrightarrow> shifted e e"
  by (simp add: shifted_def)

lemma shifted_trans: "shifted e e1 \<Longrightarrow> shifted e1 e2 \<Longrightarrow> shifted e e2"
  using te_static_trans by (fastforce simp: shifted_def)

lemma shifted_inv: "shifted e e' \<Longrightarrow> te_inv e'"
  by (simp add: shifted_def)

lemma shifted_gpus: "shifted e e' \<Longrightarrow> te_gpus e' = te_gpus e"
  by (simp add: shifted_def te_static_def)

lemma dispatch_upto_shifted: "te_inv e \<Longrightarrow> g < te_gpus e \<Longrightarrow> shifted e (dispatch_upto n g now e)"
  using dispatch_upto_moves [of e g n now] by (auto simp: shifted_def moved_def)

lemma shifted_fold:
  assumes "te_inv e" "\<And>g e. g < te_gpus e \<Longrightarrow> te_inv e \<Longrightarrow> shifted e (f g e)" "\<forall>g \<in> set gs. g < te_gpus e"
  shows "shifted e (fold f gs e)"
  using assms(1,3)
proof (induction gs arbitrary: e)
  case (Cons g gs)
  have s: "shifted e (f g e)" using assms(2) Cons.prems by simp
  have "shifted (f g e) (fold f gs (f g e))"
    using Cons.IH [OF shifted_inv [OF s]] Cons.prems(2) by (simp add: shifted_gpus [OF s])
  then show ?case using shifted_trans [OF s] by simp
qed (simp add: shifted_refl)

lemma flush_shifted: "te_inv e \<Longrightarrow> shifted e (flush_staged now e)"
  unfolding flush_staged_def
  by (rule shifted_fold) (auto simp: flush_gpu_def shape_ok_def dest: te_invD(2) intro: dispatch_upto_shifted)

lemma replenish_shifted: "te_inv e \<Longrightarrow> g < te_gpus e \<Longrightarrow> shifted e (replenish_gpu now g e)"
  unfolding replenish_gpu_def by (rule dispatch_upto_shifted)

lemma dispatched_shifted: "dispatched_top g e p e' \<Longrightarrow> te_inv e' \<Longrightarrow> shifted e e'"
  by (simp add: shifted_def dispatched_top_def)

lemma push_back_shifted:
  assumes "te_inv e" "g < te_gpus e" "te_staged e ! g \<noteq> []"
  shows "shifted e (queue_push g (queue_top g e) (queue_pop g e))"
  using push_back [OF assms] by (auto simp: shifted_def) (simp_all add: queue_push_def queue_pop_def set_queue_def Let_def)

lemma at_least_shifted:
  "te_inv e \<Longrightarrow> g < te_gpus e \<Longrightarrow> shifted e (snd (dispatch_at_least n g p now e))"
proof (induction n arbitrary: e)
  case (Suc n)
  show ?case
  proof (cases "te_staged e ! g = [] \<or> st_priority (queue_top g e) < p")
    case True
    then show ?thesis using Suc.prems by (auto simp: shifted_refl)
  next
    case False
    then have q: "te_staged e ! g \<noteq> []" by simp
    obtain pt where pt: "shifted e (dispatch_staged (queue_top g e) (queue_pop g e))"
      using dispatch_top [OF Suc.prems q] dispatched_shifted by blast
    have "shifted (dispatch_staged (queue_top g e) (queue_pop g e))
        (snd (dispatch_at_least n g p now (dispatch_staged (queue_top g e) (queue_pop g e))))"
      using Suc.IH shifted_inv [OF pt] shifted_gpus [OF pt] Suc.prems(2) by simp
    then show ?thesis using push_back_shifted [OF Suc.prems q] shifted_trans [OF pt] False by (auto simp: Let_def split: prod.splits)
  qed
qed (simp add: shifted_refl)

lemma force_shifted:
  assumes "te_inv e" shows "shifted e (snd (dispatch_staged_at_least g p now e))"
  using te_invD(2) [OF assms] assms
  by (auto simp: dispatch_staged_at_least_def shape_ok_def shifted_refl intro!: at_least_shifted)

text \<open>The drain empties the queues.\<close>

lemma dispatch_all_shifted:
  assumes "te_inv e" "g < te_gpus e"
  shows "shifted e (dispatch_all g e) \<and> te_staged (dispatch_all g e) ! g = [] \<and> (\<forall>h. h \<noteq> g \<longrightarrow> te_staged (dispatch_all g e) ! h = te_staged e ! h)"
proof -
  let ?f = "\<lambda>e. dispatch_staged (queue_top g e) (queue_pop g e)"
  have "shifted e ((?f ^^ n) e) \<and> te_staged ((?f ^^ n) e) ! g = [] \<and> (\<forall>h. h \<noteq> g \<longrightarrow> te_staged ((?f ^^ n) e) ! h = te_staged e ! h)"
    if "n = length (te_staged e ! g)" "te_inv e" "g < te_gpus e" for n e
    using that
  proof (induction n arbitrary: e)
    case (Suc n)
    then have q: "te_staged e ! g \<noteq> []" by auto
    obtain p where p: "dispatched_top g e p (?f e)" "te_inv (?f e)" using dispatch_top [OF Suc.prems(2,3) q] by blast
    have len: "g < length (te_staged e)" using te_invD(2) [OF Suc.prems(2)] Suc.prems(3) by (simp add: shape_ok_def)
    have l: "te_top e (te_staged e ! g) < length (te_staged e ! g)" using te_invD(1) [OF Suc.prems(2)] q by (simp add: queue_law_def)
    have d: "n = length (te_staged (?f e) ! g)" "g < te_gpus (?f e)" "\<And>h. h \<noteq> g \<Longrightarrow> te_staged (?f e) ! h = te_staged e ! h"
      using p(1) Suc.prems len l by (auto simp: dispatched_top_def te_static_def remove_nth_def)
    from Suc.IH [OF d(1) p(2) d(2)] d(3) show ?case
      using shifted_trans [OF dispatched_shifted [OF p]] by (simp add: funpow_Suc_right del: funpow.simps)
  qed (simp add: shifted_refl)
  then show ?thesis using assms by (simp add: dispatch_all_def)
qed

section \<open>Enqueue\<close>

lemma pending_tokens: "te_inv e \<Longrightarrow> p \<in> set (te_pending e) \<Longrightarrow> pt_token p < te_next_token e"
  using core_okD(4) [OF te_invD(3)] by (auto simp: token_ms_def pend_ms_def)

lemma enqueue_ok:
  assumes "te_inv e" "unat (te_next_token e) + 1 < 2 ^ 64" "enqueue_impl now rq e = Inr (r, e')"
  shows "te_inv e' \<and> te_static e e' \<and>
    (case r of
       None \<Rightarrow> e' = e \<and> is_inflight (rq_key rq) e
     | Some t \<Rightarrow> \<not> is_inflight (rq_key rq) e \<and> t = te_next_token e \<and> te_next_token e' = t + 1
         \<and> te_inflight e' = te_inflight e @ [(rq_key rq, t)])"
proof (cases "is_inflight (rq_key rq) e")
  case True
  then show ?thesis using assms by (simp add: enqueue_impl_def)
next
  case False
  note I = te_invD [OF assms(1)]
  let ?n = "te_next_token e" and ?g = "nat (gpu_of (rq_key rq))"
  let ?e2 = "e\<lparr>te_next_token := ?n + 1, te_inflight := te_inflight e @ [(rq_key rq, ?n)]\<rparr>"
  have g: "?g < te_gpus e" "int ?g = gpu_of (rq_key rq)" "gpu_in e (gpu_of (rq_key rq))"
    using assms(3) False by (auto simp: enqueue_impl_def Let_def gpu_in_def split: if_splits)
  have len: "length (te_staged e) = te_gpus e" using I(2) by (simp add: shape_ok_def)
  have k: "rq_key rq \<notin> fst ` set (te_inflight e)" using False by (simp add: is_inflight_def)
  note N = core_new [OF I(3) k assms(2)]
  show ?thesis
  proof (cases "rq_delay rq \<le> 0 \<and> int (inflight_count (gpu_of (rq_key rq)) e) < min_dispatch_per_gpu e")
    case True
    then have e': "r = Some ?n" "e' = launch ?n rq ?e2"
      using assms(3) False g by (auto simp: enqueue_impl_def Let_def inflight_count_def split: if_splits)
    have sl: "slots_ok (pinned_pool ?e2) (image_mset pt_slot (pend_ms e))" using I(6) by simp
    have "pt_token p \<noteq> ?n" if "p \<in> set (te_pending ?e2)" for p using pending_tokens [OF assms(1), of p] that by auto
    then obtain p pool c where L: "e' = ?e2\<lparr>te_pending := te_pending ?e2 @ [p], pinned_pool := pool, te_issued := te_issued ?e2 @ [c]\<rparr>"
      "pt_pair p = (rq_key rq, ?n)" "\<not> pt_cancelled p" "slots_ok pool (add_mset (pt_slot p) (image_mset pt_slot (pend_ms e)))"
      "dc_token c = ?n" "dc_key c = rq_key rq" using launch_eq [OF sl, of ?n rq] e'(2) by metis
    have "core_ok (staged_ms e') (pend_ms e') (te_inflight e') (te_next_token e')"
      using N(2) [of p] L(2,3) unfolding L(1) by (simp add: staged_ms_def pend_ms_def)
    moreover have "shape_ok e'" "index_ok e'" "bins_ok e'" "queue_law (te_top e')" "slots_ok (pinned_pool e') (image_mset pt_slot (pend_ms e'))"
      using I L(2,4-6) g unfolding L(1)
      by (auto simp: shape_ok_def gpu_in_def copied_def index_ok_def staged_ms_def bins_ok_def pend_ms_def)
    ultimately have "te_inv e'" by (simp add: te_inv_def)
    then show ?thesis using e'(1) False by (simp add: L(1) te_static_def)
  next
    case staged: False
    let ?st = "\<lparr>st_token = ?n, st_req = rq, st_time = now\<rparr>" and ?q = "te_staged e ! ?g"
    let ?row = "staged_bin_counts e ! ?g" and ?b = "length (takeWhile (\<lambda>t. t \<le> rq_priority rq) (bin_thresholds e))"
    have e': "r = Some ?n" "e' = ?e2\<lparr>te_staged := (te_staged e)[?g := ?q @ [?st]], staged_token_gpu := staged_token_gpu e @ [(?n, gpu_of (rq_key rq))],
        staged_bin_counts := (staged_bin_counts e)[?g := ?row[?b := ?row ! ?b + 1]]\<rparr>"
      using assms(3) False staged g by (auto simp: enqueue_impl_def Let_def inflight_count_def bump_bin_def bin_for_def split: if_splits)
    have "staged_ms (set_queue ?g (?q @ [?st]) e) + mset ?q = staged_ms e + mset (?q @ [?st])"
      using staged_set_queue [of ?g e] g(1) len by simp
    then have S: "staged_ms e' = staged_ms e + {#?st#}" by (simp add: e'(2) staged_ms_def set_queue_def)
    have row: "?row[?b := ?row ! ?b + 1] = bin_row (bin_thresholds e) (mset (?q @ [?st]))"
      using I(5) g(1) bin_row_add [of "bin_thresholds e" ?st "mset ?q"] by (simp add: bins_ok_def Let_def)
    have q: "gpu_of (rq_key (st_req st)) = int ?g" if "st \<in> set (?q @ [?st])" for st
      using that I(2) g by (auto simp: shape_ok_def)
    have "core_ok (staged_ms e') (pend_ms e') (te_inflight e') (te_next_token e')"
      using N(1) [of ?st] unfolding S by (simp add: e'(2) pend_ms_def)
    moreover have "shape_ok e'"
      using shape_queue [where q = "?q @ [?st]", OF I(2) g(1) q] I(2) by (simp add: shape_ok_def e'(2) gpu_in_def copied_def)
    moreover have "bins_ok e'" using bins_row [OF I(5) g(1) len row] by (simp add: bins_ok_def e'(2))
    moreover have "index_ok e'" using I(4) unfolding index_ok_def S by (simp add: e'(2))
    moreover have "queue_law (te_top e')" "slots_ok (pinned_pool e') (image_mset pt_slot (pend_ms e'))"
      using I(1,6) by (simp_all add: e'(2) pend_ms_def)
    ultimately have "te_inv e'" by (simp add: te_inv_def)
    then show ?thesis using e'(1) False by (simp add: e'(2) te_static_def)
  qed
qed

lemma enqueue_returns:
  assumes "gpu_in e (gpu_of (rq_key rq))" shows "\<exists>r e'. enqueue_impl now rq e = Inr (r, e')"
  using assms by (auto simp: enqueue_impl_def gpu_in_def Let_def)

section \<open>Completions\<close>

lemma find_unique:
  "distinct (map f ps) \<Longrightarrow> find (\<lambda>p. f p = t) ps = Some x \<Longrightarrow> mset ps = add_mset x (mset (filter (\<lambda>p. f p \<noteq> t) ps))"
proof (induction ps)
  case (Cons p ps)
  show ?case
  proof (cases "f p = t")
    case True
    then have "filter (\<lambda>p. f p \<noteq> t) ps = ps" using Cons.prems(1) by (auto simp: filter_id_conv image_iff)
    then show ?thesis using True Cons.prems(2) by (simp flip: mset_filter)
  next
    case False
    then show ?thesis using Cons by simp
  qed
qed simp

lemma count_distinct:
  assumes "\<And>t. count (mset xs) t \<le> 1" shows "distinct xs"
proof -
  have "count (mset xs) a = (if a \<in> set xs then 1 else 0)" for a
  proof (cases "a \<in> set xs")
    case True
    then have "count (mset xs) a \<noteq> 0" by (simp add: count_eq_zero_iff)
    then have "count (mset xs) a = 1" using assms [of a] by linarith
    then show ?thesis using True by simp
  qed (simp add: count_eq_zero_iff)
  then show ?thesis by (simp add: distinct_count_atmost_1)
qed

lemma tokens_distinct: "te_inv e \<Longrightarrow> distinct (map pt_token (te_pending e))"
proof -
  assume "te_inv e"
  then have "count (mset (map pt_token (te_pending e))) t \<le> 1" for t
    using core_okD(3) [OF te_invD(3), of e t] by (simp add: token_ms_def pend_ms_def)
  then show ?thesis by (rule count_distinct)
qed

lemma pending_unique:
  assumes "te_inv e" "find_pending t e = Some pt"
  shows "pend_ms e = add_mset pt (mset (filter (\<lambda>p. pt_token p \<noteq> t) (te_pending e)))" "pt_token pt = t" "pt \<in> set (te_pending e)"
  using assms(2) find_unique [OF tokens_distinct [OF assms(1)]] by (auto simp: find_pending_def find_Some_iff pend_ms_def)

text \<open>The tokens in flight, and the tokens that a poll reports.\<close>

definition live_tokens :: "transfer_engine_st \<Rightarrow> u64 set" where
  "live_tokens e = snd ` set (te_inflight e)"

abbreviation reported :: "te_poll_result \<Rightarrow> u64 list" where
  "reported r \<equiv> map xc_token (te_completed r)"

lemma live_tokens_eq:
  assumes "core_ok S P I n" shows "snd ` set I = st_token ` set_mset S \<union> pt_token ` {p. p \<in># P \<and> \<not> pt_cancelled p}"
proof -
  have "set_mset (mset I) = set_mset (image_mset st_pair S + image_mset pt_pair (live_ms P))" unfolding core_okD(1) [OF assms] ..
  then have "set I = st_pair ` set_mset S \<union> pt_pair ` {p. p \<in># P \<and> \<not> pt_cancelled p}" by simp
  then show ?thesis by (simp add: image_Un image_image)
qed

lemma token_once:
  assumes "core_ok S (add_mset p P) I n" shows "pt_token p \<notin> st_token ` set_mset S" "pt_token p \<notin> pt_token ` set_mset P"
proof -
  have "count (image_mset st_token S + image_mset pt_token P) (pt_token p) = 0"
    using core_okD(3) [OF assms, of "pt_token p"] by (simp add: token_ms_def)
  then have "pt_token p \<notin># image_mset st_token S + image_mset pt_token P" by (simp only: not_in_iff)
  then show "pt_token p \<notin> st_token ` set_mset S" "pt_token p \<notin> pt_token ` set_mset P" by auto
qed

lemma staged_once:
  assumes "core_ok (add_mset st S) P I n" shows "st_token st \<notin> st_token ` set_mset S" "st_token st \<notin> pt_token ` set_mset P"
proof -
  have "count (image_mset st_token S + image_mset pt_token P) (st_token st) = 0"
    using core_okD(3) [OF assms, of "st_token st"] by (simp add: token_ms_def)
  then have "st_token st \<notin># image_mset st_token S + image_mset pt_token P" by (simp only: not_in_iff)
  then show "st_token st \<notin> st_token ` set_mset S" "st_token st \<notin> pt_token ` set_mset P" by auto
qed

text \<open>What a step of the poll leaves as it was.\<close>

definition drained :: "transfer_engine_st \<Rightarrow> transfer_engine_st \<Rightarrow> bool" where
  "drained e e' \<longleftrightarrow> te_static e e' \<and> te_next_token e' = te_next_token e \<and> te_staged e' = te_staged e
     \<and> set (te_pending e') \<subseteq> set (te_pending e)"

lemma finish_ok:
  assumes "te_inv e" "finish_transfer (t, ok) (r, e) = (r', e')"
  shows "te_inv e' \<and> drained e e' \<and> t \<notin> pt_token ` set (te_pending e')
    \<and> (r' = r \<and> te_inflight e' = te_inflight e
       \<or> (\<exists>pt. pt \<in> set (te_pending e) \<and> \<not> pt_cancelled pt \<and> pt_token pt = t \<and> te_completed r' = te_completed r @ [completion_for pt ok]
            \<and> te_gpus_done r' = gpu_of (pt_key pt) # te_gpus_done r \<and> live_tokens e = insert t (live_tokens e') \<and> t \<notin> live_tokens e'))"
proof (cases "find_pending t e")
  case None
  then have "r' = r" "e' = e" using assms(2) by (simp_all add: finish_transfer_def)
  moreover have "t \<notin> pt_token ` set (te_pending e)" using None by (auto simp: find_pending_def find_None_iff)
  ultimately show ?thesis using assms(1) by (simp add: drained_def)
next
  case (Some pt)
  note I = te_invD [OF assms(1)] and U = pending_unique [OF assms(1) Some]
  let ?ps = "filter (\<lambda>p. pt_token p \<noteq> t) (te_pending e)"
  let ?e1 = "erase_pending t (release_pinned_slot (pt_slot pt) e)"
  obtain pool where r: "release_pinned_slot (pt_slot pt) e = e\<lparr>pinned_pool := pool\<rparr>" "slots_ok pool (image_mset pt_slot (mset ?ps))"
  proof -
    have "slots_ok (pinned_pool (release_pinned_slot (pt_slot pt) e)) (image_mset pt_slot (mset ?ps))"
      by (rule release_slot_ok) (use I(6) U(1) in simp)
    then show ?thesis by (intro that) (auto simp: release_pinned_slot_def)
  qed
  have E: "?e1 = e\<lparr>pinned_pool := pool, te_pending := ?ps\<rparr>" by (simp add: erase_pending_def r)
  have core: "core_ok (staged_ms e) (add_mset pt (mset ?ps)) (te_inflight e) (te_next_token e)" using I(3) U(1) by simp
  have rest: "shape_ok ?e1" "index_ok ?e1" "bins_ok ?e1" "queue_law (te_top ?e1)" "slots_ok (pinned_pool ?e1) (image_mset pt_slot (pend_ms ?e1))"
    using I r(2) unfolding E by (auto simp: shape_ok_def gpu_in_def copied_def index_ok_def staged_ms_def bins_ok_def pend_ms_def)
  have dr: "drained e ?e1" "t \<notin> pt_token ` set (te_pending ?e1)" unfolding E by (auto simp: drained_def te_static_def)
  have f: "staged_ms ?e1 = staged_ms e" "pend_ms ?e1 = mset ?ps" "te_inflight ?e1 = te_inflight e" "te_next_token ?e1 = te_next_token e"
    unfolding E by (simp_all add: staged_ms_def pend_ms_def)
  show ?thesis
  proof (cases "pt_cancelled pt")
    case True
    have "te_inv ?e1" using rest core_finish(1) [OF core True] f by (simp add: te_inv_def)
    then show ?thesis using assms(2) True Some dr f by (auto simp: finish_transfer_def Let_def)
  next
    case False
    have e': "e' = erase_inflight (pt_key pt) ?e1" using assms(2) False Some by (auto simp: finish_transfer_def Let_def)
    have c: "core_ok (staged_ms e) (mset ?ps) (filter (\<lambda>(k', t). k' \<noteq> pt_key pt) (te_inflight e)) (te_next_token e)"
      by (rule core_finish(2) [OF core False])
    have "te_inv e'"
      using rest c f by (simp add: e' te_inv_def erase_inflight_def shape_ok_def gpu_in_def copied_def index_ok_def bins_ok_def staged_ms_def pend_ms_def)
    moreover have "live_tokens e = insert t (live_tokens e')" "t \<notin> live_tokens e'"
      using live_tokens_eq [OF core] live_tokens_eq [OF c] token_once [OF core] False U(2)
      by (auto simp: live_tokens_def e' erase_inflight_def f(3))
    moreover have "drained e e'" "t \<notin> pt_token ` set (te_pending e')" using dr by (simp_all add: e' erase_inflight_def drained_def te_static_def)
    ultimately show ?thesis using assms(2) False Some U by (auto simp: finish_transfer_def Let_def)
  qed
qed

text \<open>A poll: the completed transfers leave the map, each is reported once, and no other token is touched.\<close>

definition polled :: "te_poll_result \<Rightarrow> transfer_engine_st \<Rightarrow> te_poll_result \<Rightarrow> transfer_engine_st \<Rightarrow> bool" where
  "polled r e r' e' \<longleftrightarrow>
     te_inv e' \<and> drained e e'
     \<and> (distinct (reported r) \<and> set (reported r) \<inter> live_tokens e = {}
        \<longrightarrow> distinct (reported r') \<and> set (reported r') \<inter> live_tokens e' = {}
            \<and> set (reported r') \<union> live_tokens e' = set (reported r) \<union> live_tokens e)
     \<and> (\<forall>g \<in> set (te_gpus_done r'). g \<in> set (te_gpus_done r) \<or> gpu_in e g)"

lemma drained_refl [simp]: "drained e e"
  by (simp add: drained_def)

lemma drained_trans: "drained e e1 \<Longrightarrow> drained e1 e2 \<Longrightarrow> drained e e2"
  using te_static_trans by (auto simp: drained_def)

lemma polled_refl: "te_inv e \<Longrightarrow> polled r e r e"
  by (simp add: polled_def)

lemma polled_trans:
  assumes "polled r e r1 e1" "polled r1 e1 r2 e2" shows "polled r e r2 e2"
proof -
  have "gpu_in e1 g = gpu_in e g" for g using assms(1) by (simp add: polled_def drained_def te_static_def gpu_in_def)
  then show ?thesis using assms drained_trans [of e e1 e2] unfolding polled_def by auto
qed

lemma finish_polled:
  assumes "te_inv e" "finish_transfer d (r, e) = (r', e')" shows "polled r e r' e'" "fst d \<notin> pt_token ` set (te_pending e')"
proof -
  obtain t ok where d: "d = (t, ok)" by fastforce
  note F = finish_ok [OF assms(1), of t ok r r' e', folded d, OF assms(2)]
  show "fst d \<notin> pt_token ` set (te_pending e')" using F by (simp add: d)
  from F consider "r' = r" "te_inflight e' = te_inflight e"
    | pt where "pt \<in> set (te_pending e)" "pt_token pt = t" "te_completed r' = te_completed r @ [completion_for pt ok]"
      "te_gpus_done r' = gpu_of (pt_key pt) # te_gpus_done r" "live_tokens e = insert t (live_tokens e')" "t \<notin> live_tokens e'"
    by auto
  then show "polled r e r' e'"
  proof cases
    case 1
    then show ?thesis using F by (simp add: polled_def live_tokens_def)
  next
    case (2 pt)
    have "xc_token (completion_for pt ok) = t" by (simp add: completion_for_def 2(2))
    moreover have "gpu_in e (gpu_of (pt_key pt))" using te_invD(2) [OF assms(1)] 2(1) by (simp add: shape_ok_def)
    ultimately show ?thesis using F 2(3-6) by (auto simp: polled_def)
  qed
qed

lemma finish_all:
  assumes "te_inv e" "fold finish_transfer ds (r, e) = (r', e')"
  shows "polled r e r' e'" "fst ` set ds \<inter> pt_token ` set (te_pending e') = {}"
proof -
  have "polled r e r' e' \<and> fst ` set ds \<inter> pt_token ` set (te_pending e') = {}"
    using assms
  proof (induction ds arbitrary: r e)
    case (Cons d ds)
    obtain r1 e1 where s: "finish_transfer d (r, e) = (r1, e1)" by fastforce
    note F = finish_polled [OF Cons.prems(1) s]
    have p: "polled r1 e1 r' e' \<and> fst ` set ds \<inter> pt_token ` set (te_pending e') = {}"
      using Cons.IH [of e1 r1] Cons.prems(2) s F(1) by (simp add: polled_def)
    have "set (te_pending e') \<subseteq> set (te_pending e1)" using p by (simp add: polled_def drained_def)
    then show ?case using polled_trans [OF F(1), of r' e'] p F(2) by auto
  qed (simp add: polled_refl)
  then show "polled r e r' e'" "fst ` set ds \<inter> pt_token ` set (te_pending e') = {}" by simp_all
qed

lemma shifted_live: "shifted e e' \<Longrightarrow> live_tokens e' = live_tokens e"
  by (simp add: shifted_def live_tokens_def)

end
