(* ===== verification/Transfer_Engine_Calls.thy ===== *)
theory Transfer_Engine_Calls
  imports Transfer_Engine_Inv
begin

text \<open>
  The calls of the transfer engine's clients: a poll, a cancellation, a change of priority, the pinned pool and the constructor
  keep the invariant, and what each of them does to the tokens in flight.
\<close>

section \<open>The poll\<close>

lemma poll_parts:
  assumes "te_inv e" "poll_completions now order status e = (r, e')"
  obtains e1 where "polled \<lparr>te_completed = [], te_fired = [], te_gpus_done = []\<rparr> e r e1" "shifted e1 e'"
    "fst ` set (map (\<lambda>t. (t, status t = EvReady)) (filter (\<lambda>t. status t \<noteq> EvNotReady) order)) \<inter> pt_token ` set (te_pending e1) = {}"
proof -
  let ?f = "\<lambda>g e. if int g \<in> set (te_gpus_done r) then replenish_gpu now g e else e"
  let ?ds = "map (\<lambda>t. (t, status t = EvReady)) (filter (\<lambda>t. status t \<noteq> EvNotReady) order)"
  obtain e1 where f: "fold finish_transfer ?ds (\<lparr>te_completed = [], te_fired = [], te_gpus_done = []\<rparr>, e) = (r, e1)"
    "e' = fold ?f [0..<te_gpus e1] e1"
    using assms(2) by (auto simp: poll_completions_def Let_def split: prod.splits)
  note F = finish_all [OF assms(1) f(1)]
  have i: "te_inv e1" using F(1) by (simp add: polled_def)
  have "shifted e1 e'" unfolding f(2)
    by (rule shifted_fold [OF i]) (auto intro: replenish_shifted shifted_refl)
  then show ?thesis using that F by blast
qed

lemma poll_ok:
  assumes "te_inv e" "poll_completions now order status e = (r, e')"
  shows "te_inv e'" "te_static e e'" "te_next_token e' = te_next_token e" "distinct (reported r)"
    "set (reported r) \<inter> live_tokens e' = {}" "set (reported r) \<union> live_tokens e' = live_tokens e"
proof -
  from poll_parts [OF assms] obtain e1 where P: "polled \<lparr>te_completed = [], te_fired = [], te_gpus_done = []\<rparr> e r e1" "shifted e1 e'"
    by metis
  note L = shifted_live [OF P(2)]
  show "te_inv e'" by (rule shifted_inv [OF P(2)])
  show "te_static e e'" using P te_static_trans unfolding polled_def drained_def shifted_def by blast
  show "te_next_token e' = te_next_token e" using P by (simp add: polled_def drained_def shifted_def)
  show "distinct (reported r)" using P(1) by (simp add: polled_def)
  show "set (reported r) \<inter> live_tokens e' = {}" unfolding L using P(1) by (simp add: polled_def)
  show "set (reported r) \<union> live_tokens e' = live_tokens e" unfolding L using P(1) by (simp add: polled_def)
qed

section \<open>Rewriting one queue\<close>

lemma te_inv_queue:
  assumes "te_inv e" "g < te_gpus e" "\<And>st. st \<in> set q \<Longrightarrow> gpu_of (rq_key (st_req st)) = int g"
    "e' = e\<lparr>te_staged := (te_staged e)[g := q], staged_bin_counts := (staged_bin_counts e)[g := bin_row (bin_thresholds e) (mset q)],
            staged_token_gpu := X, te_inflight := I\<rparr>"
    "core_ok (staged_ms e') (pend_ms e) I (te_next_token e)"
    "mset X = image_mset (\<lambda>st. (st_token st, gpu_of (rq_key (st_req st)))) (staged_ms e')"
  shows "te_inv e'"
proof -
  note V = te_invD [OF assms(1)]
  have len: "length (te_staged e) = te_gpus e" using V(2) by (simp add: shape_ok_def)
  have "shape_ok e'" using shape_queue [OF V(2) assms(2,3)] V(2) by (simp add: shape_ok_def assms(4) gpu_in_def copied_def)
  moreover have "bins_ok e'" using bins_row [OF V(5) assms(2) len refl] by (simp add: bins_ok_def assms(4))
  moreover have "index_ok e'" using assms(6) by (simp add: index_ok_def assms(4))
  moreover have "core_ok (staged_ms e') (pend_ms e') (te_inflight e') (te_next_token e')"
    using assms(5) by (simp add: assms(4) pend_ms_def)
  moreover have "queue_law (te_top e')" "slots_ok (pinned_pool e') (image_mset pt_slot (pend_ms e'))"
    using V(1,6) by (simp_all add: assms(4) pend_ms_def)
  ultimately show ?thesis by (simp add: te_inv_def)
qed

lemma staged_same:
  assumes "g < length (te_staged e)" "mset q' = mset q" shows "staged_ms (set_queue g q' e) = staged_ms (set_queue g q e)"
  using staged_set_queue [OF assms(1), of q'] staged_set_queue [OF assms(1), of q] assms(2) by (metis add_right_imp_eq)

lemma queue_split:
  assumes "te_inv e" "g < te_gpus e" "mset (te_staged e ! g) = add_mset st (mset q)"
  obtains S where "staged_ms e = add_mset st S" "staged_ms (set_queue g q e) = S"
    "\<And>st'. staged_ms (set_queue g (q @ [st']) e) = add_mset st' S"
    "gpu_of (rq_key (st_req st)) = int g" "\<And>x. x \<in> set q \<Longrightarrow> gpu_of (rq_key (st_req x)) = int g"
proof -
  have len: "g < length (te_staged e)" using te_invD(2) [OF assms(1)] assms(2) by (simp add: shape_ok_def)
  have s: "staged_ms e = add_mset st (staged_ms (set_queue g q e))"
    using staged_set_queue [OF len, of q] assms(3) by simp
  have p: "staged_ms (set_queue g (q @ [st']) e) = add_mset st' (staged_ms (set_queue g q e))" for st'
  proof -
    have "staged_ms (set_queue g (q @ [st']) e) + mset (te_staged e ! g) = add_mset st' (staged_ms (set_queue g q e)) + mset (te_staged e ! g)"
      using staged_set_queue [OF len, of "q @ [st']"] staged_set_queue [OF len, of q] by simp
    then show ?thesis by (rule add_right_imp_eq)
  qed
  have "set (te_staged e ! g) = insert st (set q)" using arg_cong [OF assms(3), of set_mset] by simp
  then have "gpu_of (rq_key (st_req st)) = int g" "\<And>x. x \<in> set q \<Longrightarrow> gpu_of (rq_key (st_req x)) = int g"
    using te_invD(2) [OF assms(1)] assms(2) by (auto simp: shape_ok_def)
  then show ?thesis using that s p by blast
qed

text \<open>A staged transfer leaves its queue.\<close>

lemma unstage_ok:
  assumes "te_inv e" "g < te_gpus e" "mset (te_staged e ! g) = add_mset st (mset q)"
    "e' = bump_bin g (st_priority st) (- 1) (erase_inflight (rq_key (st_req st)) (set_queue g q
            (e\<lparr>staged_token_gpu := filter (\<lambda>(t', g). t' \<noteq> st_token st) (staged_token_gpu e)\<rparr>)))"
  shows "te_inv e'" "live_tokens e = insert (st_token st) (live_tokens e')" "st_token st \<notin> live_tokens e'"
    "(rq_key (st_req st), st_token st) \<in> set (te_inflight e)"
    "te_inflight e' = filter (\<lambda>(k', t). k' \<noteq> rq_key (st_req st)) (te_inflight e)"
proof -
  note V = te_invD [OF assms(1)]
  let ?X = "filter (\<lambda>(t', g). t' \<noteq> st_token st) (staged_token_gpu e)" and ?I = "filter (\<lambda>(k', t). k' \<noteq> rq_key (st_req st)) (te_inflight e)"
  from queue_split [OF assms(1-3)] obtain S where S: "staged_ms e = add_mset st S" "staged_ms (set_queue g q e) = S"
    "gpu_of (rq_key (st_req st)) = int g" "\<And>x. x \<in> set q \<Longrightarrow> gpu_of (rq_key (st_req x)) = int g" by metis
  let ?row = "staged_bin_counts e ! g" and ?b = "length (takeWhile (\<lambda>t. t \<le> st_priority st) (bin_thresholds e))"
  have row: "?row[?b := ?row ! ?b - 1] = bin_row (bin_thresholds e) (mset q)"
    using V(5) assms(2,3) bin_row_drop [of "bin_thresholds e" "mset q" st] by (simp add: bins_ok_def Let_def)
  have e': "e' = e\<lparr>te_staged := (te_staged e)[g := q], staged_bin_counts := (staged_bin_counts e)[g := bin_row (bin_thresholds e) (mset q)],
            staged_token_gpu := ?X, te_inflight := ?I\<rparr>"
    unfolding assms(4) by (simp add: bump_bin_def erase_inflight_def set_queue_def bin_for_def Let_def row)
  have S': "staged_ms e' = S" using S(2) by (simp add: e' staged_ms_def set_queue_def)
  have core: "core_ok (add_mset st S) (pend_ms e) (te_inflight e) (te_next_token e)" using V(3) S(1) by simp
  have c: "core_ok S (pend_ms e) ?I (te_next_token e)" by (rule core_drop_staged [OF core])
  have "mset ?X = image_mset (\<lambda>st. (st_token st, gpu_of (rq_key (st_req st)))) S"
    by (rule index_drop [where g = "int g"]) (use V(4) S staged_once(1) [OF core] in \<open>auto simp: index_ok_def image_iff\<close>)
  then show "te_inv e'" by (intro te_inv_queue [OF assms(1,2) S(4) e']) (simp_all add: S' c)
  show i: "te_inflight e' = ?I" by (simp add: e')
  show "(rq_key (st_req st), st_token st) \<in> set (te_inflight e)" by (rule core_in(1) [OF core]) simp
  show "live_tokens e = insert (st_token st) (live_tokens e')" "st_token st \<notin> live_tokens e'"
    using live_tokens_eq [OF core] live_tokens_eq [OF c] staged_once [OF core] by (auto simp: live_tokens_def i)
qed

section \<open>Cancellation\<close>

lemma index_set:
  assumes "te_inv e" shows "set (staged_token_gpu e) = (\<lambda>st. (st_token st, gpu_of (rq_key (st_req st)))) ` set_mset (staged_ms e)"
proof -
  have "set_mset (mset (staged_token_gpu e)) = (\<lambda>st. (st_token st, gpu_of (rq_key (st_req st)))) ` set_mset (staged_ms e)"
    using te_invD(4) [OF assms] by (simp add: index_ok_def)
  then show ?thesis by simp
qed

lemma index_entry:
  assumes "te_inv e" "map_of (staged_token_gpu e) t = Some g"
  obtains st where "st \<in> set (te_staged e ! nat g)" "st_token st = t" "nat g < te_gpus e"
proof -
  obtain st where st: "st \<in># staged_ms e" "st_token st = t" "gpu_of (rq_key (st_req st)) = g"
    using map_of_SomeD [OF assms(2)] unfolding index_set [OF assms(1)] by auto
  then obtain q where "q \<in> set (te_staged e)" "st \<in> set q" by (auto simp: staged_ms_def)
  then obtain h where h: "h < length (te_staged e)" "st \<in> set (te_staged e ! h)" by (metis in_set_conv_nth)
  then have "g = int h" using te_invD(2) [OF assms(1)] st(3) by (auto simp: shape_ok_def)
  then show ?thesis using that [of st] st(2) h te_invD(2) [OF assms(1)] by (simp add: shape_ok_def)
qed

lemma index_none:
  assumes "te_inv e" "map_of (staged_token_gpu e) t = None" shows "t \<notin> st_token ` set_mset (staged_ms e)"
  using assms(2) unfolding map_of_eq_None_iff index_set [OF assms(1)] by (simp add: image_image)

text \<open>
  What a cancellation does: the token leaves the map of keys in flight; a transfer that is already on a stream stays
  pending, with its pinned slot.
\<close>

definition cancelled_ok :: "u64 \<Rightarrow> inflight_key option \<Rightarrow> transfer_engine_st \<Rightarrow> transfer_engine_st \<Rightarrow> bool" where
  "cancelled_ok t r e e' \<longleftrightarrow>
     te_inv e' \<and> te_static e e' \<and> te_next_token e' = te_next_token e \<and> pinned_pool e' = pinned_pool e
     \<and> map pt_token (te_pending e') = map pt_token (te_pending e) \<and> map pt_key (te_pending e') = map pt_key (te_pending e)
     \<and> map pt_slot (te_pending e') = map pt_slot (te_pending e)
     \<and> (case r of
          None \<Rightarrow> e' = e \<and> t \<notin> live_tokens e
        | Some k \<Rightarrow> (k, t) \<in> set (te_inflight e) \<and> live_tokens e = insert t (live_tokens e') \<and> t \<notin> live_tokens e'
            \<and> te_inflight e' = filter (\<lambda>(k', t). k' \<noteq> k) (te_inflight e))"

lemma live_split:
  assumes "core_ok S (add_mset p P) I n" "core_ok S (add_mset p' P) I' n'" "pt_cancelled p'" "\<not> pt_cancelled p"
  shows "snd ` set I = insert (pt_token p) (snd ` set I')" "pt_token p \<notin> snd ` set I'"
proof -
  have "{q. q \<in># add_mset p P \<and> \<not> pt_cancelled q} = insert p {q. q \<in># P \<and> \<not> pt_cancelled q}"
    "{q. q \<in># add_mset p' P \<and> \<not> pt_cancelled q} = {q. q \<in># P \<and> \<not> pt_cancelled q}" using assms(3,4) by auto
  then have l: "snd ` set I = st_token ` set_mset S \<union> pt_token ` insert p {q. q \<in># P \<and> \<not> pt_cancelled q}"
    "snd ` set I' = st_token ` set_mset S \<union> pt_token ` {q. q \<in># P \<and> \<not> pt_cancelled q}"
    using live_tokens_eq [OF assms(1)] live_tokens_eq [OF assms(2)] by simp_all
  show "snd ` set I = insert (pt_token p) (snd ` set I')" unfolding l by simp
  show "pt_token p \<notin> snd ` set I'" unfolding l using token_once [OF assms(1)] by blast
qed

lemma cancel_pending_ok:
  assumes "te_inv e" "map_of (staged_token_gpu e) t = None" "cancel_pending t e = (r, e')"
  shows "cancelled_ok t r e e'"
proof (cases "find_pending t e")
  case None
  then have "t \<notin> pt_token ` set (te_pending e)" by (auto simp: find_pending_def find_None_iff)
  then have "t \<notin> live_tokens e"
    using live_tokens_eq [OF te_invD(3) [OF assms(1)]] index_none [OF assms(1,2)] by (auto simp: live_tokens_def pend_ms_def)
  then show ?thesis using None assms(1,3) by (simp add: cancel_pending_def cancelled_ok_def)
next
  case (Some pt)
  note V = te_invD [OF assms(1)] and U = pending_unique [OF assms(1) Some]
  let ?P = "mset (filter (\<lambda>p. pt_token p \<noteq> t) (te_pending e))"
  have core: "core_ok (staged_ms e) (add_mset pt ?P) (te_inflight e) (te_next_token e)" using V(3) U(1) by simp
  show ?thesis
  proof (cases "pt_cancelled pt")
    case True
    have "t \<notin> live_tokens e"
      using live_tokens_eq [OF core] token_once [OF core] True U(2) by (auto simp: live_tokens_def)
    then show ?thesis using Some True assms(1,3) by (simp add: cancel_pending_def cancelled_ok_def)
  next
    case False
    let ?m = "\<lambda>p. if pt_token p = t then p\<lparr>pt_cancelled := True\<rparr> else p" and ?I = "filter (\<lambda>(k', t). k' \<noteq> pt_key pt) (te_inflight e)"
    have e': "r = Some (pt_key pt)" "e' = e\<lparr>te_pending := map ?m (te_pending e), te_inflight := ?I\<rparr>"
      using assms(3) Some False by (simp_all add: cancel_pending_def erase_inflight_def)
    have "image_mset ?m ?P = ?P" by (rule image_mset_cong [where g = id, simplified]) auto
    then have P': "pend_ms e' = add_mset (pt\<lparr>pt_cancelled := True\<rparr>) ?P" using arg_cong [OF U(1), of "image_mset ?m"] U(2)
      by (simp add: e'(2) pend_ms_def)
    have c: "core_ok (staged_ms e) (add_mset (pt\<lparr>pt_cancelled := True\<rparr>) ?P) ?I (te_next_token e)" by (rule core_cancel [OF core False])
    have s: "image_mset pt_slot (pend_ms e') = image_mset pt_slot (pend_ms e)" unfolding P' U(1) by simp
    have st: "staged_ms e' = staged_ms e" by (simp add: e'(2) staged_ms_def)
    have "shape_ok e'" using V(2) by (auto simp: shape_ok_def e'(2) gpu_in_def copied_def)
    moreover have "bins_ok e'" "queue_law (te_top e')" using V(1,5) by (simp_all add: bins_ok_def e'(2))
    moreover have "index_ok e'" using V(4) unfolding index_ok_def st by (simp add: e'(2))
    moreover have "core_ok (staged_ms e') (pend_ms e') (te_inflight e') (te_next_token e')" unfolding st P' using c by (simp add: e'(2))
    moreover have "slots_ok (pinned_pool e') (image_mset pt_slot (pend_ms e'))" unfolding s using V(6) by (simp add: e'(2))
    ultimately have "te_inv e'" by (simp add: te_inv_def)
    moreover have "live_tokens e = insert t (live_tokens e')" "t \<notin> live_tokens e'"
      using live_split [OF core c _ False] U(2) unfolding live_tokens_def by (simp_all add: e'(2))
    moreover have "(pt_key pt, t) \<in> set (te_inflight e)" using core_in(2) [OF core, of pt] False U(2) by simp
    ultimately show ?thesis by (simp add: cancelled_ok_def e'(1)) (simp add: e'(2) te_static_def comp_def if_distrib cong: if_cong)
  qed
qed


lemma find_remove1:
  "find P xs = Some x \<Longrightarrow> mset xs = add_mset x (mset (remove1 x xs)) \<and> P x"
  by (auto simp: find_Some_iff)

lemma cancel_staged_ok:
  assumes "te_inv e" "map_of (staged_token_gpu e) t = Some g" "te_cancel_transfer t e = (r, e')"
  shows "cancelled_ok t r e e'"
proof -
  note V = te_invD [OF assms(1)]
  let ?X = "filter (\<lambda>(t', g). t' \<noteq> t) (staged_token_gpu e)" and ?popped = "pop_order (te_top e) (length (te_staged e ! nat g)) (te_staged e ! nat g)"
  obtain st0 where st0: "st0 \<in> set (te_staged e ! nat g)" "st_token st0 = t" "nat g < te_gpus e" by (rule index_entry [OF assms(1,2)])
  have m: "mset ?popped = mset (te_staged e ! nat g)" by (rule pop_order_mset) (use V(1) in \<open>simp add: queue_law_def\<close>)
  have "st0 \<in> set ?popped" using st0(1) mset_eq_setD [OF m] by simp
  then obtain st where f: "find (\<lambda>st. st_token st = t) ?popped = Some st"
    using st0(2) by (cases "find (\<lambda>st. st_token st = t) ?popped") (auto simp: find_None_iff)
  have R: "mset (te_staged e ! nat g) = add_mset st (mset (remove1 st ?popped))" "st_token st = t"
    using find_remove1 [OF f] m by simp_all
  have e': "r = Some (rq_key (st_req st))" "e' = bump_bin (nat g) (st_priority st) (- 1) (erase_inflight (rq_key (st_req st))
      (set_queue (nat g) (remove1 st ?popped) (e\<lparr>staged_token_gpu := filter (\<lambda>(t', g). t' \<noteq> st_token st) (staged_token_gpu e)\<rparr>)))"
    using assms(2,3) f R(2) by (simp_all add: te_cancel_transfer_def cancel_staged_def Let_def)
  note K = unstage_ok [OF assms(1) st0(3) R(1) e'(2)]
  have "te_static e e' \<and> te_next_token e' = te_next_token e \<and> te_pending e' = te_pending e \<and> pinned_pool e' = pinned_pool e"
    by (simp add: e'(2) bump_bin_def erase_inflight_def set_queue_def te_static_def Let_def)
  then show ?thesis using K R(2) by (simp add: cancelled_ok_def e'(1))
qed

lemma cancel_ok:
  assumes "te_inv e" "te_cancel_transfer t e = (r, e')" shows "cancelled_ok t r e e'"
proof (cases "map_of (staged_token_gpu e) t")
  case None
  then show ?thesis using cancel_pending_ok [OF assms(1) None] assms(2) by (simp add: te_cancel_transfer_def)
qed (rule cancel_staged_ok [OF assms(1) _ assms(2)])

section \<open>Priorities\<close>

text \<open>Only the order of a queue changes.\<close>

lemma reorder_ok:
  assumes "te_inv e" "g < te_gpus e" "mset q = mset (te_staged e ! g)" shows "te_inv (set_queue g q e)"
proof -
  note V = te_invD [OF assms(1)]
  have len: "g < length (te_staged e)" using V(2) assms(2) by (simp add: shape_ok_def)
  have S: "staged_ms (set_queue g q e) = staged_ms e" using staged_same [OF len assms(3)] by (simp add: set_queue_def)
  have q: "gpu_of (rq_key (st_req st)) = int g" if "st \<in> set q" for st
    using that V(2) assms(2) mset_eq_setD [OF assms(3)] by (auto simp: shape_ok_def)
  have b: "(staged_bin_counts e)[g := bin_row (bin_thresholds e) (mset q)] = staged_bin_counts e"
    using V(5) assms(2,3) by (simp add: bins_ok_def list_update_same_conv)
  have E: "set_queue g q e = e\<lparr>te_staged := (te_staged e)[g := q], staged_bin_counts := (staged_bin_counts e)[g := bin_row (bin_thresholds e) (mset q)],
      staged_token_gpu := staged_token_gpu e, te_inflight := te_inflight e\<rparr>"
    unfolding b by (simp add: set_queue_def)
  show ?thesis by (rule te_inv_queue [OF assms(1,2) q E]) (use V(3,4) in \<open>simp_all add: S index_ok_def\<close>)
qed

lemma staged_in:
  assumes "te_inv e" "g < te_gpus e" "st \<in> set (te_staged e ! g)" shows "st \<in># staged_ms e"
  using te_invD(2) [OF assms(1)] assms(2,3) by (auto simp: staged_ms_def shape_ok_def intro!: bexI [of _ "te_staged e ! g"])

lemma same_queue:
  assumes "te_inv e" "st0 \<in> set (te_staged e ! g)" "st_token st0 = t" "g < te_gpus e" "st \<in># staged_ms e" "st_token st = t"
  shows "st = st0"
proof -
  have "st0 \<in># staged_ms e" by (rule staged_in [OF assms(1,4,2)])
  then obtain S where S: "staged_ms e = add_mset st0 S" by (rule mset_add)
  have "st_token st0 \<notin> st_token ` set_mset S" using staged_once(1) [of st0 S] te_invD(3) [OF assms(1)] unfolding S by blast
  then show ?thesis using assms(3,5,6) unfolding S by (metis image_eqI insertE set_mset_add_mset_insert)
qed

definition raised :: "u64 \<Rightarrow> int \<Rightarrow> staged_transfer \<Rightarrow> staged_transfer" where
  "raised t p st = (if st_token st = t \<and> st_priority st < p then st\<lparr>st_req := (st_req st)\<lparr>rq_priority := p\<rparr>\<rparr> else st)"

lemma raised_pair [simp]: "st_pair (raised t p st) = st_pair st"
  by (simp add: raised_def)

lemma restage_ok:
  assumes "te_inv e" "g < te_gpus e" "mset (te_staged e ! g) = add_mset st (mset q)" "st_pair st' = st_pair st"
    "mset q' = add_mset st' (mset q)"
  shows "te_inv (e\<lparr>te_staged := (te_staged e)[g := q'], staged_bin_counts := (staged_bin_counts e)[g := bin_row (bin_thresholds e) (mset q')]\<rparr>)"
    (is "te_inv ?e'")
proof -
  note V = te_invD [OF assms(1)]
  from queue_split [OF assms(1-3)] obtain S where S: "staged_ms e = add_mset st S" "\<And>st'. staged_ms (set_queue g (q @ [st']) e) = add_mset st' S"
    "gpu_of (rq_key (st_req st)) = int g" "\<And>x. x \<in> set q \<Longrightarrow> gpu_of (rq_key (st_req x)) = int g" by metis
  have len: "g < length (te_staged e)" using V(2) assms(2) by (simp add: shape_ok_def)
  have "staged_ms (set_queue g q' e) = staged_ms (set_queue g (q @ [st']) e)"
    by (rule staged_same [OF len]) (simp add: assms(5))
  then have S': "staged_ms ?e' = add_mset st' S" using S(2) by (simp add: staged_ms_def set_queue_def)
  have k: "rq_key (st_req st') = rq_key (st_req st)" "st_token st' = st_token st" using assms(4) by simp_all
  have "set q' = insert st' (set q)" using arg_cong [OF assms(5), of set_mset] by simp
  then have q': "gpu_of (rq_key (st_req x)) = int g" if "x \<in> set q'" for x using that S(3,4) k by auto
  have "core_ok (add_mset st' S) (pend_ms e) (te_inflight e) (te_next_token e)"
    using core_restage [OF V(3) [unfolded S(1)]] k by simp
  moreover have "mset (staged_token_gpu e) = image_mset (\<lambda>st. (st_token st, gpu_of (rq_key (st_req st)))) (add_mset st' S)"
    using V(4) S(1) k by (simp add: index_ok_def)
  ultimately show ?thesis
    by (intro te_inv_queue [OF assms(1,2) q', where X = "staged_token_gpu e" and I = "te_inflight e"]) (simp_all add: S')
qed

text \<open>One element of the rebuild: \<open>ys\<close> is the new queue so far, \<open>x # xs\<close> what the old one still holds.\<close>

lemma rebin:
  assumes "te_inv (set_queue g (ys @ x # xs) e)" "g < te_gpus e"
  shows "staged_bin_counts (bump_bin g p 1 (bump_bin g (st_priority x) (- 1) e)) =
    (staged_bin_counts e)[g := bin_row (bin_thresholds e) (mset (ys @ x\<lparr>st_req := (st_req x)\<lparr>rq_priority := p\<rparr>\<rparr> # xs))]"
proof -
  let ?row = "staged_bin_counts e ! g" and ?b = "length (takeWhile (\<lambda>t. t \<le> st_priority x) (bin_thresholds e))"
  let ?x' = "x\<lparr>st_req := (st_req x)\<lparr>rq_priority := p\<rparr>\<rparr>" and ?b' = "length (takeWhile (\<lambda>t. t \<le> p) (bin_thresholds e))"
  have len: "length (te_staged e) = te_gpus e" using te_invD(2) [OF assms(1)] by (simp add: shape_ok_def set_queue_def)
  have b: "?row = bin_row (bin_thresholds e) (add_mset x (mset (ys @ xs)))" "g < length (staged_bin_counts e)"
    using te_invD(5) [OF assms(1)] assms(2) len by (simp_all add: bins_ok_def set_queue_def)
  have d: "?row[?b := ?row ! ?b - 1] = bin_row (bin_thresholds e) (mset (ys @ xs))"
    unfolding b(1) using bin_row_drop [of "bin_thresholds e" "mset (ys @ xs)" x] by (simp add: Let_def)
  have a: "(bin_row (bin_thresholds e) (mset (ys @ xs)))[?b' := bin_row (bin_thresholds e) (mset (ys @ xs)) ! ?b' + 1]
      = bin_row (bin_thresholds e) (mset (ys @ ?x' # xs))"
    using bin_row_add [of "bin_thresholds e" ?x' "mset (ys @ xs)"] by (simp add: Let_def)
  show ?thesis using b(2) by (simp only: bump_bin_def bin_for_def Let_def) (simp add: d [simplified] a [simplified])
qed

lemma raise_step:
  assumes "te_inv (set_queue g (ys @ x # xs) e)" "g < te_gpus e" "te_staged e ! g = ys" "raise_priority g t p x (u, e) = (u', e1)"
  shows "te_inv (set_queue g ((ys @ [raised t p x]) @ xs) e1)" "te_staged e1 ! g = ys @ [raised t p x]"
    "te_static e e1" "te_inflight e1 = te_inflight e" "te_next_token e1 = te_next_token e" "te_pending e1 = te_pending e"
    "u' \<longleftrightarrow> u \<or> st_token x = t \<and> st_priority x < p"
proof -
  have len: "g < length (te_staged e)" using te_invD(2) [OF assms(1)] assms(2) by (simp add: shape_ok_def set_queue_def)
  have "te_inv (set_queue g ((ys @ [raised t p x]) @ xs) e1)"
  proof (cases "st_token x = t \<and> st_priority x < p")
    case False
    then have "e1 = queue_push g x e" using assms(4) by (auto simp: raise_priority_def)
    moreover have "raised t p x = x" using False by (auto simp: raised_def)
    ultimately show ?thesis using assms(1,3) len by (simp add: queue_push_def set_queue_def)
  next
    case True
    let ?x' = "x\<lparr>st_req := (st_req x)\<lparr>rq_priority := p\<rparr>\<rparr>"
    have e1: "e1 = queue_push g ?x' (bump_bin g p 1 (bump_bin g (st_priority x) (- 1) e))" "raised t p x = ?x'"
      using assms(4) True by (simp_all add: raise_priority_def raised_def)
    have "te_inv ((set_queue g (ys @ x # xs) e)\<lparr>te_staged := (te_staged (set_queue g (ys @ x # xs) e))[g := ys @ ?x' # xs],
        staged_bin_counts := (staged_bin_counts (set_queue g (ys @ x # xs) e))
          [g := bin_row (bin_thresholds (set_queue g (ys @ x # xs) e)) (mset (ys @ ?x' # xs))]\<rparr>)"
      by (rule restage_ok [OF assms(1), where st = x and q = "ys @ xs" and st' = ?x']) (use assms(2) len in \<open>simp_all add: set_queue_def\<close>)
    also have "(set_queue g (ys @ x # xs) e)\<lparr>te_staged := (te_staged (set_queue g (ys @ x # xs) e))[g := ys @ ?x' # xs],
        staged_bin_counts := (staged_bin_counts (set_queue g (ys @ x # xs) e))
          [g := bin_row (bin_thresholds (set_queue g (ys @ x # xs) e)) (mset (ys @ ?x' # xs))]\<rparr>
      = set_queue g ((ys @ [raised t p x]) @ xs) e1"
      unfolding e1 using rebin [OF assms(1,2), of p] len
      by (intro transfer_engine_st.equality) (simp_all add: set_queue_def queue_push_def bump_bin_def Let_def)
    finally show ?thesis .
  qed
  then show "te_inv (set_queue g ((ys @ [raised t p x]) @ xs) e1)" .
  show "te_staged e1 ! g = ys @ [raised t p x]" "te_static e e1" "te_inflight e1 = te_inflight e" "te_next_token e1 = te_next_token e"
    "te_pending e1 = te_pending e" "u' \<longleftrightarrow> u \<or> st_token x = t \<and> st_priority x < p"
    using assms(3,4) len
    by (auto simp: raise_priority_def raised_def queue_push_def set_queue_def bump_bin_def te_static_def Let_def split: if_splits)
qed

lemma raise_all:
  assumes "te_inv (set_queue g (ys @ xs) e)" "g < te_gpus e" "te_staged e ! g = ys" "fold (raise_priority g t p) xs (u, e) = (u', e')"
  shows "te_inv e' \<and> te_staged e' ! g = ys @ map (raised t p) xs \<and> te_static e e' \<and> te_inflight e' = te_inflight e
    \<and> te_next_token e' = te_next_token e \<and> te_pending e' = te_pending e \<and> (u' \<longleftrightarrow> u \<or> (\<exists>x \<in> set xs. st_token x = t \<and> st_priority x < p))"
  using assms
proof (induction xs arbitrary: ys u e)
  case Nil
  then have "set_queue g ys e = e" by (auto simp: set_queue_def)
  then show ?case using Nil by simp
next
  case (Cons x xs)
  obtain u1 e1 where s: "raise_priority g t p x (u, e) = (u1, e1)" by fastforce
  note R = raise_step [OF Cons.prems(1-3) s]
  have g: "g < te_gpus e1" using R(3) Cons.prems(2) by (simp add: te_static_def)
  from Cons.IH [OF R(1) g R(2)] Cons.prems(4) s show ?case
    using R(3-7) te_static_trans [OF R(3)] by auto
qed

lemma reprioritize_ok:
  assumes "te_inv e" "te_reprioritize t p e = (u, e')"
  shows "te_inv e' \<and> te_static e e' \<and> te_inflight e' = te_inflight e \<and> te_next_token e' = te_next_token e \<and> te_pending e' = te_pending e
    \<and> (u \<longleftrightarrow> (\<exists>st \<in># staged_ms e. st_token st = t \<and> st_priority st < p))"
proof (cases "map_of (staged_token_gpu e) t")
  case None
  then show ?thesis using assms index_none [OF assms(1) None] by (auto simp: te_reprioritize_def)
next
  case (Some h)
  let ?q = "te_staged e ! nat h"
  let ?xs = "pop_order (te_top e) (length ?q) ?q"
  obtain st0 where st0: "st0 \<in> set ?q" "st_token st0 = t" "nat h < te_gpus e" by (rule index_entry [OF assms(1) Some])
  have m: "mset ?xs = mset ?q" by (rule pop_order_mset) (use te_invD(1) [OF assms(1)] in \<open>simp add: queue_law_def\<close>)
  have len: "nat h < length (te_staged e)" using te_invD(2) [OF assms(1)] st0(3) by (simp add: shape_ok_def)
  have i: "te_inv (set_queue (nat h) ([] @ ?xs) (set_queue (nat h) [] e))"
    using reorder_ok [OF assms(1) st0(3) m] by (simp add: set_queue_def)
  have f: "fold (raise_priority (nat h) t p) ?xs (False, set_queue (nat h) [] e) = (u, e')"
    using assms(2) Some by (simp add: te_reprioritize_def Let_def)
  have g: "nat h < te_gpus (set_queue (nat h) [] e)" "te_staged (set_queue (nat h) [] e) ! nat h = []"
    using st0(3) len by (simp_all add: set_queue_def)
  note R = raise_all [OF i g f]
  have "(\<exists>st \<in># staged_ms e. st_token st = t \<and> st_priority st < p) \<longleftrightarrow> (\<exists>x \<in> set ?xs. st_token x = t \<and> st_priority x < p)"
    unfolding mset_eq_setD [OF m] using same_queue [OF assms(1) st0] staged_in [OF assms(1) st0(3)] st0(1) by metis
  then show ?thesis using R by (simp add: set_queue_def te_static_def)
qed

end
