(* ===== verification/Transfer_Engine_Runs.thy ===== *)
theory Transfer_Engine_Runs
  imports Transfer_Engine_Calls
begin

text \<open>
  Sequences of calls to the transfer engine, from its construction: what a run keeps, which tokens are in flight, and the drain.
\<close>

section \<open>Construction\<close>

lemma init_ok:
  assumes "transfer_engine_init n min_d max_i ts pick = Inr e" "queue_law pick"
  shows "te_inv e" "te_inflight e = []" "te_next_token e = 1" "te_gpus e = n"
proof -
  have e: "e = \<lparr>te_gpus = n, te_inflight = [], te_pending = [], te_staged = replicate n [], staged_token_gpu = [],
      te_next_token = 1, min_dispatch_per_gpu = min_d, max_inflight_per_gpu = max_i, bin_thresholds = ts,
      staged_bin_counts = replicate n (replicate (length ts + 1) 0), pinned_pool = [], te_top = pick, te_issued = []\<rparr>"
    using assms(1) by (auto simp: transfer_engine_init_def split: if_splits)
  have s: "staged_ms e = {#}" "pend_ms e = {#}" by (simp_all add: e staged_ms_def pend_ms_def)
  have "bins_ok e" by (auto simp: e bins_ok_def bin_row_def map_replicate_const simp flip: replicate_Suc)
  moreover have "shape_ok e" "queue_law (te_top e)" using assms(2) by (simp_all add: e shape_ok_def)
  moreover have "core_ok (staged_ms e) (pend_ms e) (te_inflight e) (te_next_token e)" unfolding s by (simp add: e core_ok_def token_ms_def)
  moreover have "index_ok e" "slots_ok (pinned_pool e) (image_mset pt_slot (pend_ms e))" unfolding index_ok_def s by (simp_all add: e slots_ok_def)
  ultimately show "te_inv e" by (simp add: te_inv_def)
  show "te_inflight e = []" "te_next_token e = 1" "te_gpus e = n" by (simp_all add: e)
qed

lemma slots_new:
  assumes "slots_ok [] L" "\<And>s. s \<in> set pool \<Longrightarrow> \<not> ps_in_use s" shows "slots_ok pool L"
  unfolding slots_ok_def
proof (intro conjI allI impI ballI)
  have L: "- 1 \<le> i" "i < 0" if "i \<in># L" for i using assms(1) that by (auto simp: slots_ok_def)
  show "ps_in_use (pool ! i) \<longleftrightarrow> int i \<in># L" if "i < length pool" for i using assms(2) [OF nth_mem [OF that]] L(2) [of "int i"] by auto
  show "count L i \<le> 1" if "0 \<le> i" for i using assms(1) that by (simp add: slots_ok_def)
  show "- 1 \<le> i" "i < int (length pool)" if "i \<in># L" for i using L [OF that] by auto
qed

lemma init_pool_ok:
  assumes "te_inv e"
  shows "te_inv (init_pinned_pool b ptrs e)" "te_inflight (init_pinned_pool b ptrs e) = te_inflight e"
    "te_next_token (init_pinned_pool b ptrs e) = te_next_token e" "te_static e (init_pinned_pool b ptrs e)"
proof -
  show "te_inflight (init_pinned_pool b ptrs e) = te_inflight e" "te_next_token (init_pinned_pool b ptrs e) = te_next_token e"
    "te_static e (init_pinned_pool b ptrs e)" by (simp_all add: init_pinned_pool_def te_static_def)
  show "te_inv (init_pinned_pool b ptrs e)"
  proof (cases "pinned_pool e \<noteq> [] \<or> b = 0")
    case False
    note V = te_invD [OF assms]
    have "slots_ok (pinned_pool (init_pinned_pool b ptrs e)) (image_mset pt_slot (pend_ms e))"
      by (rule slots_new) (use V(6) False in \<open>auto simp: init_pinned_pool_def\<close>)
    then show ?thesis using V False unfolding te_inv_def
      by (simp add: init_pinned_pool_def shape_ok_def gpu_in_def copied_def index_ok_def bins_ok_def staged_ms_def pend_ms_def)
  qed (use assms in \<open>auto simp: init_pinned_pool_def\<close>)
qed

section \<open>Runs\<close>

datatype te_op =
    TeEnqueue int transfer_request
  | TeCancel u64
  | TeReprioritize u64 int
  | TePoll int "u64 list" "u64 \<Rightarrow> event_status"
  | TeFlush int
  | TeForce int int int
  | TePool u64 "u64 list"

text \<open>What the clients learn: the tokens they were given, the ones reported as completed and the ones cancelled.\<close>

record te_log =
  tl_issued :: "u64 list"
  tl_reported :: "u64 list"
  tl_cancelled :: "u64 list"

fun te_step :: "te_op \<Rightarrow> te_log \<times> transfer_engine_st \<Rightarrow> (te_log \<times> transfer_engine_st) res" where
  "te_step (TeEnqueue now rq) (l, e) =
     (case enqueue_impl now rq e of
        Inl x \<Rightarrow> Inl x
      | Inr (None, e1) \<Rightarrow> Inr (l, e1)
      | Inr (Some t, e1) \<Rightarrow> Inr (l\<lparr>tl_issued := tl_issued l @ [t]\<rparr>, e1))"
| "te_step (TeCancel t) (l, e) =
     (case te_cancel_transfer t e of
        (None, e1) \<Rightarrow> Inr (l, e1)
      | (Some k, e1) \<Rightarrow> Inr (l\<lparr>tl_cancelled := tl_cancelled l @ [t]\<rparr>, e1))"
| "te_step (TeReprioritize t p) (l, e) = Inr (l, snd (te_reprioritize t p e))"
| "te_step (TePoll now order status) (l, e) =
     (case poll_completions now order status e of (r, e1) \<Rightarrow>
       Inr (l\<lparr>tl_reported := tl_reported l @ map xc_token (te_completed r)\<rparr>, e1))"
| "te_step (TeFlush now) (l, e) = Inr (l, flush_staged now e)"
| "te_step (TeForce g p now) (l, e) = Inr (l, snd (dispatch_staged_at_least g p now e))"
| "te_step (TePool b ptrs) (l, e) = Inr (l, init_pinned_pool b ptrs e)"

fun te_run :: "te_op list \<Rightarrow> te_log \<times> transfer_engine_st \<Rightarrow> (te_log \<times> transfer_engine_st) res" where
  "te_run [] s = Inr s"
| "te_run (op # ops) s = (case te_step op s of Inl x \<Rightarrow> Inl x | Inr s1 \<Rightarrow> te_run ops s1)"

definition te_log0 :: te_log where
  "te_log0 = \<lparr>tl_issued = [], tl_reported = [], tl_cancelled = []\<rparr>"

text \<open>The books: every token given out is in flight, reported or cancelled, and only one of them.\<close>

definition te_books :: "te_log \<Rightarrow> transfer_engine_st \<Rightarrow> bool" where
  "te_books l e \<longleftrightarrow>
     te_inv e \<and> distinct (tl_issued l) \<and> (\<forall>t \<in> set (tl_issued l). t < te_next_token e)
     \<and> distinct (tl_reported l @ tl_cancelled l)
     \<and> set (tl_issued l) = set (tl_reported l) \<union> set (tl_cancelled l) \<union> live_tokens e
     \<and> (set (tl_reported l) \<union> set (tl_cancelled l)) \<inter> live_tokens e = {}"

text \<open>Steps that move no token.\<close>

lemma books_keep:
  assumes "te_books l e" "te_inv e'" "live_tokens e' = live_tokens e" "te_next_token e' = te_next_token e"
  shows "te_books l e'"
  using assms by (simp add: te_books_def)

lemma books_enqueue:
  assumes "te_books l e" "unat (te_next_token e) + 1 < 2 ^ 64" "enqueue_impl now rq e = Inr (Some t, e')"
  shows "te_books (l\<lparr>tl_issued := tl_issued l @ [t]\<rparr>) e'"
proof -
  have i: "te_inv e" using assms(1) by (simp add: te_books_def)
  note E = enqueue_ok [OF i assms(2,3)]
  have live: "live_tokens e' = insert t (live_tokens e)" using E by (simp add: live_tokens_def)
  have nxt: "t = te_next_token e" "te_next_token e' = t + 1" using E by simp_all
  have lt: "x < te_next_token e'" if "x \<le> t" for x
    using that unat_next [OF assms(2)] nxt by (simp add: word_less_nat_alt word_le_nat_alt)
  have old: "x < t" if "x \<in> set (tl_issued l)" for x using assms(1) that nxt(1) by (simp add: te_books_def)
  have "t \<notin> set (tl_issued l)" using old by blast
  moreover from this have "t \<notin> set (tl_reported l) \<union> set (tl_cancelled l)" using assms(1) unfolding te_books_def by blast
  moreover have "x < te_next_token e'" if "x \<in> set (tl_issued l) \<union> {t}" for x using that old lt less_imp_le by blast
  ultimately show ?thesis using assms(1) E live unfolding te_books_def by auto
qed

lemma books_cancel:
  assumes "te_books l e" "te_cancel_transfer t e = (Some k, e')"
  shows "te_books (l\<lparr>tl_cancelled := tl_cancelled l @ [t]\<rparr>) e'"
proof -
  have i: "te_inv e" using assms(1) by (simp add: te_books_def)
  have C: "te_inv e'" "te_next_token e' = te_next_token e" "live_tokens e = insert t (live_tokens e')" "t \<notin> live_tokens e'"
    using cancel_ok [OF i assms(2)] by (simp_all add: cancelled_ok_def)
  show ?thesis using assms(1) C(1,2,4) unfolding te_books_def C(3) by auto
qed

lemma books_poll:
  assumes "te_books l e" "poll_completions now order status e = (r, e')"
  shows "te_books (l\<lparr>tl_reported := tl_reported l @ reported r\<rparr>) e'"
proof -
  have i: "te_inv e" using assms(1) by (simp add: te_books_def)
  note P = poll_ok [OF i assms(2)]
  have l: "live_tokens e = set (reported r) \<union> live_tokens e'" using P(6) by simp
  show ?thesis using assms(1) P(1,3-5) unfolding te_books_def l by auto
qed

lemma books_step:
  assumes "te_books l e" "unat (te_next_token e) + 1 < 2 ^ 64" "te_step op (l, e) = Inr (l', e')"
  shows "te_books l' e' \<and> te_static e e' \<and> (te_next_token e' = te_next_token e \<or> te_next_token e' = te_next_token e + 1)"
proof -
  have i: "te_inv e" using assms(1) by (simp add: te_books_def)
  have shift: "te_books l e1 \<and> te_static e e1 \<and> te_next_token e1 = te_next_token e" if "shifted e e1" for e1
    using that books_keep [OF assms(1)] shifted_live [OF that] by (simp add: shifted_def)
  show ?thesis
  proof (cases op)
    case (TeEnqueue now rq)
    then obtain r e1 where r: "enqueue_impl now rq e = Inr (r, e1)" using assms(3) by (cases "enqueue_impl now rq e") auto
    note E = enqueue_ok [OF i assms(2) r]
    show ?thesis
    proof (cases r)
      case None
      then show ?thesis using assms TeEnqueue r E by simp
    next
      case (Some t)
      then show ?thesis using books_enqueue [OF assms(1,2)] assms(3) TeEnqueue r E by auto
    qed
  next
    case (TeCancel t)
    obtain r e1 where r: "te_cancel_transfer t e = (r, e1)" by fastforce
    note C = cancel_ok [OF i r, unfolded cancelled_ok_def]
    show ?thesis
    proof (cases r)
      case None
      then show ?thesis using assms(1,3) TeCancel r C by auto
    next
      case (Some k)
      then show ?thesis using books_cancel [OF assms(1), of t k e1] assms(3) TeCancel r C by simp
    qed
  next
    case (TeReprioritize t p)
    obtain u e1 where r: "te_reprioritize t p e = (u, e1)" by fastforce
    have "live_tokens e1 = live_tokens e" using reprioritize_ok [OF i r] by (simp add: live_tokens_def)
    then show ?thesis using books_keep [OF assms(1)] reprioritize_ok [OF i r] assms(3) TeReprioritize r by auto
  next
    case (TePoll now order status)
    obtain r e1 where r: "poll_completions now order status e = (r, e1)" by fastforce
    then show ?thesis using books_poll [OF assms(1) r] poll_ok [OF i r] assms(3) TePoll by auto
  next
    case (TeFlush now)
    then show ?thesis using shift [OF flush_shifted [OF i]] assms(3) by auto
  next
    case (TeForce g p now)
    then show ?thesis using shift [OF force_shifted [OF i]] assms(3) by auto
  next
    case (TePool b ptrs)
    have "live_tokens (init_pinned_pool b ptrs e) = live_tokens e" using init_pool_ok [OF i] by (simp add: live_tokens_def)
    then show ?thesis using books_keep [OF assms(1)] init_pool_ok [OF i] assms(3) TePool by auto
  qed
qed

lemma books_run:
  assumes "te_books l e" "unat (te_next_token e) + length ops < 2 ^ 64" "te_run ops (l, e) = Inr (l', e')"
  shows "te_books l' e' \<and> te_static e e'"
  using assms
proof (induction ops arbitrary: l e)
  case (Cons op ops)
  then obtain l1 e1 where s: "te_step op (l, e) = Inr (l1, e1)" "te_run ops (l1, e1) = Inr (l', e')"
    by (cases "te_step op (l, e)") auto
  have b: "unat (te_next_token e) + 1 < 2 ^ 64 \<or> ops = [] \<and> unat (te_next_token e) + 1 < 2 ^ 64" using Cons.prems(2) by auto
  then have B: "te_books l1 e1" "te_static e e1" "te_next_token e1 = te_next_token e \<or> te_next_token e1 = te_next_token e + 1"
    using books_step [OF Cons.prems(1) _ s(1)] by auto
  have "unat (te_next_token e1) \<le> unat (te_next_token e) + 1" using B(3) b unat_next by fastforce
  then show ?case using Cons.IH [OF B(1) _ s(2)] te_static_trans [OF B(2)] Cons.prems(2) by auto
qed simp

lemma init_books:
  assumes "transfer_engine_init n min_d max_i ts pick = Inr e0" "queue_law pick" shows "te_books te_log0 e0"
  using init_ok [OF assms] by (simp add: te_books_def te_log0_def live_tokens_def)

lemma te_reachable:
  assumes "transfer_engine_init n min_d max_i ts pick = Inr e0" "queue_law pick" "length ops + 1 < 2 ^ 64"
    "te_run ops (te_log0, e0) = Inr (l, e)"
  shows "te_books l e" "te_static e0 e"
proof -
  note I = init_ok [OF assms(1,2)]
  from books_run [OF init_books [OF assms(1,2)] _ assms(4)] I(3) assms(3) show "te_books l e" "te_static e0 e" by simp_all
qed

end
