(* ===== verification/Transfer_Engine_Properties.thy ===== *)
theory Transfer_Engine_Properties
  imports Transfer_Engine_Runs
begin

text \<open>
  The properties of the transfer engine: accounts of the tokens, pinned slots, the rule of the flush, the counts that clients
  read, and the end of the drain.
\<close>

section \<open>Counts\<close>

lemma pend_not_staged:
  assumes "te_inv e" "p \<in># pend_ms e" shows "pt_token p \<notin> st_token ` set_mset (staged_ms e)"
proof -
  obtain P where P: "pend_ms e = add_mset p P" using assms(2) by (rule mset_add)
  show ?thesis using token_once(1) te_invD(3) [OF assms(1)] unfolding P by blast
qed

lemma is_staged_iff: "te_inv e \<Longrightarrow> is_staged t e \<longleftrightarrow> t \<in> st_token ` set_mset (staged_ms e)"
  unfolding is_staged_def by (simp add: index_set image_image)

abbreviation on_stream :: "int \<Rightarrow> pending_transfer \<Rightarrow> bool" where
  "on_stream g p \<equiv> gpu_of (pt_key p) = g \<and> \<not> pt_cancelled p"

lemma dispatched_count_eq:
  assumes "te_inv e" shows "dispatched_count g e = length (filter (on_stream g) (te_pending e))"
proof -
  let ?Q = "\<lambda>(k, t). gpu_of k = g \<and> \<not> is_staged t e"
  have s: "filter_mset ?Q (image_mset st_pair (staged_ms e)) = {#}"
    using is_staged_iff [OF assms] by (intro filter_mset_eq_mempty_iff [THEN iffD2]) auto
  have p: "filter_mset ?Q (image_mset pt_pair (live_ms (pend_ms e))) = image_mset pt_pair (filter_mset (on_stream g) (pend_ms e))"
  proof -
    have "filter_mset (\<lambda>p. ?Q (pt_pair p)) (live_ms (pend_ms e)) = filter_mset (on_stream g) (pend_ms e)"
      unfolding filter_filter_mset
      by (rule filter_mset_cong0) (use is_staged_iff [OF assms] pend_not_staged [OF assms] in auto)
    then show ?thesis by (simp add: filter_mset_image_mset)
  qed
  have "mset (filter ?Q (te_inflight e)) = image_mset pt_pair (filter_mset (on_stream g) (pend_ms e))"
    using core_okD(1) [OF te_invD(3) [OF assms]] s p by simp
  from arg_cong [OF this, of size] show ?thesis by (simp add: dispatched_count_def pend_ms_def flip: mset_filter)
qed

lemma bin_fold:
  assumes "\<And>p. f p < length c"
  shows "fold (\<lambda>p c. if Q p then c[f p := c ! f p + (1::int)] else c) ps c
    = map (\<lambda>b. c ! b + int (length (filter (\<lambda>p. Q p \<and> f p = b) ps))) [0..<length c]"
  using assms
proof (induction ps arbitrary: c)
  case (Cons p ps)
  show ?case
  proof (cases "Q p")
    case True
    have "f q < length (c[f p := c ! f p + 1])" for q using Cons.prems by simp
    note I = Cons.IH [OF this]
    have "c[f p := c ! f p + 1] ! b + int (length (filter (\<lambda>p. Q p \<and> f p = b) ps)) = c ! b + int (length (filter (\<lambda>p. Q p \<and> f p = b) (p # ps)))"
      if "b < length c" for b using that True Cons.prems [of p] by (simp add: nth_list_update)
    then show ?thesis using I True by simp
  qed (use Cons in simp)
qed (simp add: map_nth)

section \<open>The flush\<close>

abbreviation of_gpu :: "nat \<Rightarrow> pending_transfer list \<Rightarrow> pending_transfer list" where
  "of_gpu g ps \<equiv> filter (\<lambda>p. gpu_of (pt_key p) = int g) ps"

lemma dispatched_of_gpu: "te_inv e \<Longrightarrow> dispatched_count (int g) e = length (filter (\<lambda>p. \<not> pt_cancelled p) (of_gpu g (te_pending e)))"
  by (simp add: dispatched_count_eq conj_commute)

lemma moved_gpu:
  assumes "te_inv e" "g < te_gpus e" "moved g e ps e'" "p \<in> set ps" shows "gpu_of (pt_key p) = int g"
proof -
  have m: "image_mset st_pair (mset (te_staged e ! g)) = image_mset st_pair (mset (te_staged e' ! g)) + image_mset pt_pair (mset ps)"
    using assms(3) by (simp add: moved_def)
  have "pt_pair p \<in># image_mset st_pair (mset (te_staged e ! g))" unfolding m using assms(4) by simp
  then obtain st where "st \<in> set (te_staged e ! g)" "pt_key p = rq_key (st_req st)" by auto
  then show ?thesis using te_invD(2) [OF assms(1)] assms(2) by (auto simp: shape_ok_def)
qed

text \<open>What a flush may do to the part of the engine that belongs to one GPU.\<close>

definition flushed :: "int \<Rightarrow> nat \<Rightarrow> transfer_engine_st \<Rightarrow> transfer_engine_st \<Rightarrow> bool" where
  "flushed now g e e' \<longleftrightarrow>
     int (dispatched_count (int g) e') \<le> max (int (dispatched_count (int g) e)) (max_inflight_per_gpu e)
     \<and> (max_inflight_per_gpu e \<le> int (dispatched_count (int g) e') \<or> nothing_due now g e')
     \<and> (\<exists>ps. of_gpu g (te_pending e') = of_gpu g (te_pending e) @ ps
          \<and> image_mset st_pair (mset (te_staged e ! g)) = image_mset st_pair (mset (te_staged e' ! g)) + image_mset pt_pair (mset ps)
          \<and> (\<forall>p \<in> set ps. \<forall>st \<in> set (te_staged e' ! g). st_priority st \<le> pt_priority p))"

lemma flush_gpu_flushed:
  assumes "te_inv e" "g < te_gpus e" shows "flushed now g e (flush_gpu now g e)"
proof -
  let ?n = "nat (max_inflight_per_gpu e - int (dispatched_count (int g) e))" and ?e' = "flush_gpu now g e"
  from dispatch_upto_moves [OF assms, of ?n now] obtain ps where ps: "moved g e ps ?e'" "te_inv ?e'" "length ps \<le> ?n"
    "length ps = ?n \<or> nothing_due now g ?e'" unfolding flush_gpu_def by blast
  have f: "of_gpu g (te_pending ?e') = of_gpu g (te_pending e) @ ps"
    using ps(1) moved_gpu [OF assms ps(1)] by (simp add: moved_def)
  have "filter (\<lambda>p. \<not> pt_cancelled p) ps = ps" using ps(1) by (simp add: moved_def)
  then have "dispatched_count (int g) ?e' = dispatched_count (int g) e + length ps"
    unfolding dispatched_of_gpu [OF ps(2)] dispatched_of_gpu [OF assms(1)] f by simp
  then show ?thesis using ps(1,3,4) f unfolding flushed_def by (auto simp: moved_def)
qed

text \<open>The flush of another GPU leaves that part alone.\<close>

definition untouched :: "nat \<Rightarrow> transfer_engine_st \<Rightarrow> transfer_engine_st \<Rightarrow> bool" where
  "untouched g e e' \<longleftrightarrow>
     te_inv e' \<and> te_static e e' \<and> te_staged e' ! g = te_staged e ! g \<and> of_gpu g (te_pending e') = of_gpu g (te_pending e)"

lemma flush_gpu_untouched:
  assumes "te_inv e" "h < te_gpus e" "h \<noteq> g" shows "untouched g e (flush_gpu now h e)"
proof -
  from dispatch_upto_moves [OF assms(1,2)] obtain ps where ps: "moved h e ps (flush_gpu now h e)" "te_inv (flush_gpu now h e)"
    unfolding flush_gpu_def by blast
  have "of_gpu g ps = []" using moved_gpu [OF assms(1,2) ps(1)] assms(3) by (simp add: filter_empty_conv)
  then show ?thesis using ps assms(3) by (simp add: untouched_def moved_def)
qed

lemma flush_untouched:
  assumes "te_inv e" "g \<notin> set gs" "\<forall>h \<in> set gs. h < te_gpus e" shows "untouched g e (fold (flush_gpu now) gs e)"
  using assms
proof (induction gs arbitrary: e)
  case (Cons h gs)
  have u: "untouched g e (flush_gpu now h e)" using flush_gpu_untouched [of e h g] Cons.prems by simp
  then have "untouched g (flush_gpu now h e) (fold (flush_gpu now) gs (flush_gpu now h e))"
    using Cons.IH [of "flush_gpu now h e"] Cons.prems by (simp add: untouched_def te_static_def)
  then show ?case using u te_static_trans by (auto simp: untouched_def)
qed (simp add: untouched_def)

lemma untouched_count: "te_inv e \<Longrightarrow> untouched g e e' \<Longrightarrow> dispatched_count (int g) e' = dispatched_count (int g) e"
  unfolding untouched_def using dispatched_of_gpu by metis

lemma flush_staged_flushed:
  assumes "te_inv e" "g < te_gpus e" shows "flushed now g e (flush_staged now e)"
proof -
  have len: "length (te_staged e) = te_gpus e" using te_invD(2) [OF assms(1)] by (simp add: shape_ok_def)
  have split: "[0..<te_gpus e] = [0..<g] @ g # [Suc g..<te_gpus e]"
    using upt_add_eq_append [of 0 g "te_gpus e - g"] upt_conv_Cons [OF assms(2)] assms(2) by simp
  define e1 where "e1 = fold (flush_gpu now) [0..<g] e"
  define e2 where "e2 = flush_gpu now g e1"
  have E: "flush_staged now e = fold (flush_gpu now) [Suc g..<te_gpus e] e2"
    unfolding flush_staged_def len split by (simp add: e1_def e2_def)
  have u1: "untouched g e e1" unfolding e1_def by (rule flush_untouched) (use assms in auto)
  have i1: "te_inv e1" "g < te_gpus e1" "max_inflight_per_gpu e1 = max_inflight_per_gpu e" "te_gpus e1 = te_gpus e"
    using u1 assms(2) by (simp_all add: untouched_def te_static_def)
  have f: "flushed now g e1 e2" unfolding e2_def by (rule flush_gpu_flushed [OF i1(1,2)])
  have s2: "shifted e1 e2" unfolding e2_def flush_gpu_def by (rule dispatch_upto_shifted [OF i1(1,2)])
  have u2: "untouched g e2 (flush_staged now e)" unfolding E
    by (rule flush_untouched) (use shifted_inv [OF s2] shifted_gpus [OF s2] i1(4) in auto)
  show ?thesis
    using f u1 u2 i1(3) untouched_count [OF assms(1) u1] untouched_count [OF shifted_inv [OF s2] u2]
    unfolding flushed_def nothing_due_def by (simp add: untouched_def)
qed

section \<open>The drain\<close>

lemma shifted_idle:
  assumes "te_inv e" "shifted e e'" "staged_ms e = {#}" shows "te_pending e' = te_pending e" "staged_ms e' = {#}"
proof -
  obtain ps where ps: "te_pending e' = te_pending e @ ps" "\<forall>p \<in> set ps. \<not> pt_cancelled p" using assms(2) by (auto simp: shifted_def)
  have "filter_mset (\<lambda>p. \<not> pt_cancelled p) (mset ps) = mset ps" using ps(2) by (simp add: filter_mset_eq_conv)
  then have "mset (te_inflight e') = image_mset st_pair (staged_ms e') + image_mset pt_pair (live_ms (pend_ms e)) + image_mset pt_pair (mset ps)"
    using core_okD(1) [OF te_invD(3) [OF shifted_inv [OF assms(2)]]] by (simp add: pend_ms_def ps(1))
  moreover have "mset (te_inflight e) = image_mset pt_pair (live_ms (pend_ms e))"
    using core_okD(1) [OF te_invD(3) [OF assms(1)]] assms(3) by simp
  moreover have "te_inflight e' = te_inflight e" using assms(2) by (simp add: shifted_def)
  ultimately have "image_mset st_pair (staged_ms e') + image_mset pt_pair (mset ps) = {#}" by (simp add: ac_simps)
  then show "te_pending e' = te_pending e" "staged_ms e' = {#}" using ps(1) by simp_all
qed

lemma poll_idle:
  assumes "te_inv e" "staged_ms e = {#}" "poll_completions now order status e = (r, e')"
  shows "te_inv e'" "staged_ms e' = {#}" "set (te_pending e') \<subseteq> set (te_pending e)"
    "p \<in> set (te_pending e') \<Longrightarrow> pt_token p \<in> set order \<Longrightarrow> status (pt_token p) = EvNotReady"
proof -
  from poll_parts [OF assms(1,3)] obtain e1 where P: "polled \<lparr>te_completed = [], te_fired = [], te_gpus_done = []\<rparr> e r e1" "shifted e1 e'"
    "fst ` set (map (\<lambda>t. (t, status t = EvReady)) (filter (\<lambda>t. status t \<noteq> EvNotReady) order)) \<inter> pt_token ` set (te_pending e1) = {}" .
  have e1: "te_inv e1" "staged_ms e1 = {#}" "set (te_pending e1) \<subseteq> set (te_pending e)"
    using P(1) assms(2) by (simp_all add: polled_def drained_def staged_ms_def)
  note S = shifted_idle [OF e1(1) P(2) e1(2)]
  show "te_inv e'" "staged_ms e' = {#}" "set (te_pending e') \<subseteq> set (te_pending e)" using S e1(3) shifted_inv [OF P(2)] by simp_all
  show "status (pt_token p) = EvNotReady" if "p \<in> set (te_pending e')" "pt_token p \<in> set order"
    using P(3) that unfolding S(1) by (force simp: image_iff)
qed

text \<open>A device whose copies all end: a poll looks at every pending transfer, and each event is ready from some poll on.\<close>

type_synonym poll_env = "nat \<Rightarrow> transfer_engine_st \<Rightarrow> int \<times> u64 list \<times> (u64 \<Rightarrow> event_status)"

definition copies_end :: "poll_env \<Rightarrow> bool" where
  "copies_end env \<longleftrightarrow>
     (\<forall>i e. pt_token ` set (te_pending e) \<subseteq> set (fst (snd (env i e))))
     \<and> (\<forall>t. \<exists>k. \<forall>i \<ge> k. \<forall>e. snd (snd (env i e)) t \<noteq> EvNotReady)"

lemma drain_polls_end:
  assumes "\<And>i e. pt_token ` set (te_pending e) \<subseteq> set (fst (snd (env i e)))"
    "\<And>t i e. t \<in> T \<Longrightarrow> k \<le> i \<Longrightarrow> snd (snd (env i e)) t \<noteq> EvNotReady"
    "te_inv e" "staged_ms e = {#}" "pt_token ` set (te_pending e) \<subseteq> T"
  shows "\<exists>e'. drain_polls env i e = Some e' \<and> te_inv e' \<and> te_pending e' = [] \<and> staged_ms e' = {#}"
  using assms(3-5)
proof (induction "k - i" arbitrary: i e rule: less_induct)
  case less
  show ?case
  proof (cases "te_pending e = []")
    case True
    then show ?thesis using less.prems by (simp add: drain_polls.simps)
  next
    case False
    obtain now order status where n: "env i e = (now, order, status)" by (metis prod.exhaust)
    obtain r e1 where p: "poll_completions now order status e = (r, e1)" by fastforce
    note Q = poll_idle [OF less.prems(1,2) p]
    have rec: "drain_polls env i e = drain_polls env (Suc i) e1" using False n p by (simp add: drain_polls.simps)
    have sub: "pt_token ` set (te_pending e1) \<subseteq> T" using Q(3) less.prems(3) by blast
    show ?thesis
    proof (cases "i < k")
      case True
      then show ?thesis unfolding rec using less.hyps [of "Suc i" e1] Q(1,2) sub by simp
    next
      case False
      have "te_pending e1 = []"
      proof (rule ccontr)
        assume "te_pending e1 \<noteq> []"
        then obtain q where q: "q \<in> set (te_pending e1)" by (meson last_in_set)
        then have "pt_token q \<in> set order" using assms(1) [of e i] Q(3) n by auto
        then have "status (pt_token q) = EvNotReady" by (rule Q(4) [OF q])
        moreover have "status (pt_token q) \<noteq> EvNotReady" using assms(2) [of "pt_token q" i e] sub q False n by auto
        ultimately show False by simp
      qed
      then show ?thesis unfolding rec using Q(1,2) by (simp add: drain_polls.simps)
    qed
  qed
qed

lemma dispatch_all_empties:
  assumes "te_inv e" "n \<le> te_gpus e"
  shows "shifted e (fold dispatch_all [0..<n] e) \<and> (\<forall>g < n. te_staged (fold dispatch_all [0..<n] e) ! g = [])"
  using assms(2)
proof (induction n)
  case (Suc n)
  then have s: "shifted e (fold dispatch_all [0..<n] e)" "\<forall>g < n. te_staged (fold dispatch_all [0..<n] e) ! g = []" by simp_all
  have "n < te_gpus (fold dispatch_all [0..<n] e)" using shifted_gpus [OF s(1)] Suc.prems by simp
  from dispatch_all_shifted [OF shifted_inv [OF s(1)] this] show ?case
    using shifted_trans [OF s(1)] s(2) by (auto simp: less_Suc_eq)
qed (use assms in \<open>simp add: shifted_refl\<close>)

lemma drain_ends:
  assumes "te_inv e" "copies_end env"
  shows "\<exists>e'. te_drain env e = Some e' \<and> te_pending e' = [] \<and> te_inflight e' = [] \<and> staged_ms e' = {#}"
proof -
  define e1 where "e1 = fold dispatch_all [0..<length (te_staged e)] e"
  have len: "length (te_staged e) = te_gpus e" using te_invD(2) [OF assms(1)] by (simp add: shape_ok_def)
  have D: "shifted e e1" "\<forall>g < te_gpus e. te_staged e1 ! g = []"
    using dispatch_all_empties [OF assms(1), of "te_gpus e"] unfolding e1_def len by auto
  have i: "te_inv e1" "length (te_staged e1) = te_gpus e"
    using shifted_inv [OF D(1)] shifted_gpus [OF D(1)] te_invD(2) [OF shifted_inv [OF D(1)]] by (simp_all add: shape_ok_def)
  have st: "staged_ms e1 = {#}" using D(2) i(2) by (auto simp: staged_ms_def in_set_conv_nth)
  from assms(2) obtain f where f: "\<And>t i e. f t \<le> i \<Longrightarrow> snd (snd (env i e)) t \<noteq> EvNotReady"
    unfolding copies_end_def by metis
  let ?T = "pt_token ` set (te_pending e1)"
  have le: "f t \<le> Max (f ` ?T)" if "t \<in> ?T" for t using that by (intro Max_ge) auto
  from drain_polls_end [of env ?T "Max (f ` ?T)" e1 0] f le i(1) st assms(2) obtain e' where
    e': "drain_polls env 0 e1 = Some e'" "te_inv e'" "te_pending e' = []" "staged_ms e' = {#}"
    unfolding copies_end_def by (metis (no_types, lifting) dual_order.trans subset_refl)
  have "mset (te_inflight e') = {#}" using core_okD(1) [OF te_invD(3) [OF e'(2)]] e'(3,4) by (simp add: pend_ms_def)
  then show ?thesis using e' by (simp add: te_drain_def e1_def)
qed

section \<open>Cancelled copies\<close>

text \<open>A request on GPU 0 and its cancellation, \<open>n\<close> times.\<close>

definition churn :: "transfer_request \<Rightarrow> nat \<Rightarrow> te_op list" where
  "churn rq n = concat (map (\<lambda>i. [TeEnqueue 0 rq, TeCancel (word_of_nat (Suc i))]) [0..<n])"

lemma te_run_append: "te_run (xs @ ys) s = (case te_run xs s of Inl x \<Rightarrow> Inl x | Inr s1 \<Rightarrow> te_run ys s1)"
  by (induction xs arbitrary: s) (auto split: sum.splits)

definition churned :: "transfer_request \<Rightarrow> nat \<Rightarrow> transfer_engine_st \<Rightarrow> bool" where
  "churned rq n e \<longleftrightarrow> te_inv e \<and> te_inflight e = [] \<and> te_next_token e = word_of_nat (Suc n)
     \<and> map pt_key (te_pending e) = replicate n (rq_key rq)"

lemma churn_round:
  assumes "churned rq n e" "gpu_in e (gpu_of (rq_key rq))" "rq_delay rq \<le> 0" "0 < min_dispatch_per_gpu e" "n + 2 < 2 ^ 64"
  shows "\<exists>l' e'. te_run [TeEnqueue 0 rq, TeCancel (word_of_nat (Suc n))] (l, e) = Inr (l', e') \<and> churned rq (Suc n) e' \<and> te_static e e'"
proof -
  define t where "t = te_next_token e"
  let ?e2 = "e\<lparr>te_next_token := t + 1, te_inflight := [(rq_key rq, t)]\<rparr>"
  have i: "te_inv e" "te_inflight e = []" "t = word_of_nat (Suc n)" "map pt_key (te_pending e) = replicate n (rq_key rq)"
    using assms(1) by (simp_all add: churned_def t_def)
  have "unat t = Suc n" using assms(5) by (simp add: i(3) unat_of_nat take_bit_nat_eq_self del: of_nat_Suc)
  then have u: "unat (te_next_token e) + 1 < 2 ^ 64" using assms(5) by (simp add: t_def)
  have q: "enqueue_impl 0 rq e = Inr (Some t, launch t rq ?e2)"
    using assms(2-4) i(2) by (simp add: enqueue_impl_def is_inflight_def gpu_in_def inflight_count_def Let_def t_def)
  note E = enqueue_ok [OF i(1) u q]
  have tok: "pt_token p \<noteq> t" if "p \<in> set (te_pending ?e2)" for p using pending_tokens [OF i(1), of p] that by (auto simp: t_def)
  have sl: "slots_ok (pinned_pool ?e2) (image_mset pt_slot (pend_ms e))" using te_invD(6) [OF i(1)] by simp
  obtain e1 p where p: "launch t rq ?e2 = e1" "te_pending e1 = te_pending e @ [p]" "pt_key p = rq_key rq"
    by (rule launch_eq [OF sl tok, of rq]) auto
  have i1: "te_inv e1" "te_inflight e1 = [(rq_key rq, t)]" "te_next_token e1 = t + 1" "te_static e e1"
    using E i(2) unfolding p(1) by simp_all
  obtain r e3 where c: "te_cancel_transfer t e1 = (r, e3)" by fastforce
  note C = cancel_ok [OF i1(1) c, unfolded cancelled_ok_def]
  have "t \<in> live_tokens e1" by (simp add: live_tokens_def i1(2))
  then obtain k where k: "r = Some k" using C by (cases r) simp_all
  have k': "k = rq_key rq" using C i1(2) by (simp add: k)
  have "te_inflight e3 = []" "te_inv e3" "te_next_token e3 = t + 1" "te_static e1 e3" "map pt_key (te_pending e3) = map pt_key (te_pending e1)"
    using C i1 k' by (simp_all add: k)
  then have "churned rq (Suc n) e3 \<and> te_static e e3"
    using p(2,3) i(3,4) te_static_trans [OF i1(4)] by (simp add: churned_def replicate_append_same add.commute)
  moreover have "te_run [TeEnqueue 0 rq, TeCancel t] (l, e) = Inr (l\<lparr>tl_issued := tl_issued l @ [t], tl_cancelled := tl_cancelled l @ [t]\<rparr>, e3)"
    using q c k p(1) by simp
  ultimately show ?thesis unfolding i(3) by blast
qed

lemma churn_run:
  assumes "churned rq 0 e" "gpu_in e (gpu_of (rq_key rq))" "rq_delay rq \<le> 0" "0 < min_dispatch_per_gpu e" "n + 2 < 2 ^ 64"
  shows "\<exists>l' e'. te_run (churn rq n) (l, e) = Inr (l', e') \<and> churned rq n e' \<and> te_static e e'"
  using assms(5)
proof (induction n)
  case (Suc n)
  then obtain l1 e1 where r: "te_run (churn rq n) (l, e) = Inr (l1, e1)" "churned rq n e1" "te_static e e1" by auto
  have "gpu_in e1 (gpu_of (rq_key rq))" "0 < min_dispatch_per_gpu e1" using assms(2,4) r(3) by (simp_all add: te_static_def gpu_in_def)
  from churn_round [OF r(2) this(1) assms(3) this(2), of l1] Suc.prems obtain l2 e2 where
    "te_run [TeEnqueue 0 rq, TeCancel (word_of_nat (Suc n))] (l1, e1) = Inr (l2, e2)" "churned rq (Suc n) e2" "te_static e1 e2" by auto
  then show ?case using r te_static_trans [OF r(3)] by (simp add: churn_def te_run_append)
qed (use assms in \<open>simp add: churn_def\<close>)

section \<open>Facts for the properties\<close>

fun te_op_ok :: "nat \<Rightarrow> te_op \<Rightarrow> bool" where
  "te_op_ok n (TeEnqueue now rq) \<longleftrightarrow> 0 \<le> gpu_of (rq_key rq) \<and> gpu_of (rq_key rq) < int n"
| "te_op_ok n op \<longleftrightarrow> True"

lemma te_step_returns:
  assumes "te_op_ok (te_gpus e) op" "te_inv e" "unat (te_next_token e) + 1 < 2 ^ 64" shows "\<exists>l' e'. te_step op (l, e) = Inr (l', e')"
proof (cases op)
  case (TeEnqueue now rq)
  then obtain r e1 where "enqueue_impl now rq e = Inr (r, e1)" using enqueue_returns [of e rq now] assms(1) by (auto simp: gpu_in_def)
  then show ?thesis using TeEnqueue by (cases r) auto
qed (auto split: prod.splits option.splits)

lemma te_run_returns:
  assumes "\<forall>op \<in> set ops. te_op_ok n op" "te_books l e" "te_gpus e = n" "unat (te_next_token e) + length ops < 2 ^ 64"
  shows "\<exists>l' e'. te_run ops (l, e) = Inr (l', e')"
  using assms
proof (induction ops arbitrary: l e)
  case (Cons op ops)
  have b: "unat (te_next_token e) + 1 < 2 ^ 64" "te_inv e" "te_op_ok (te_gpus e) op" using Cons.prems by (auto simp: te_books_def)
  obtain l1 e1 where s: "te_step op (l, e) = Inr (l1, e1)" using te_step_returns [OF b(3,2,1)] by blast
  note B = books_step [OF Cons.prems(2) b(1) s]
  have "unat (te_next_token e1) \<le> unat (te_next_token e) + 1" using B b unat_next by fastforce
  then show ?case using Cons.IH [of l1 e1] Cons.prems B s by (auto simp: te_static_def)
qed simp

lemma inflight_tokens_distinct:
  assumes "te_inv e" shows "distinct (map snd (te_inflight e))"
proof -
  note K = core_okD [OF te_invD(3) [OF assms]]
  have "mset (map snd (te_inflight e)) = image_mset st_token (staged_ms e) + image_mset pt_token (live_ms (pend_ms e))"
    using arg_cong [OF K(1), of "image_mset snd"]
    by (simp only: mset_map image_mset_union image_mset.compositionality comp_def snd_conv)
  also have "\<dots> \<subseteq># token_ms (staged_ms e) (pend_ms e)" unfolding token_ms_def
    by (intro mset_subset_eq_mono_add image_mset_subseteq_mono multiset_filter_subset subset_mset.order_refl)
  finally have "count (mset (map snd (te_inflight e))) t \<le> 1" for t by (rule le_trans [OF mset_subset_eq_count K(3)])
  then show ?thesis by (rule count_distinct)
qed

lemma pending_bins:
  assumes "te_inv e" "g < te_gpus e"
  shows "pending_bin_counts (int g) e
      = map (\<lambda>b. int (length (filter (\<lambda>st. bin_for (st_priority st) e = b) (te_staged e ! g)))
                + int (length (filter (\<lambda>p. gpu_of (pt_key p) = int g \<and> bin_for (pt_priority p) e = b) (te_pending e))))
          [0..<length (bin_thresholds e) + 1]"
proof -
  have b: "length (staged_bin_counts e) = te_gpus e" "staged_bin_counts e ! g = bin_row (bin_thresholds e) (mset (te_staged e ! g))"
    using te_invD(5) [OF assms(1)] assms(2) by (simp_all add: bins_ok_def)
  have l: "length (staged_bin_counts e ! g) = length (bin_thresholds e) + 1" unfolding b by (simp add: bin_row_def)
  have f: "bin_for (pt_priority p) e < length (staged_bin_counts e ! g)" for p unfolding l bin_for_def by (simp add: length_takeWhile_le le_imp_less_Suc)
  have r: "staged_bin_counts e ! g ! b = int (length (filter (\<lambda>st. bin_for (st_priority st) e = b) (te_staged e ! g)))"
    if "b < length (bin_thresholds e) + 1" for b
    using that unfolding b(2) by (simp add: bin_row_def bin_for_def nth_append flip: size_mset mset_filter del: upt_Suc)
  show ?thesis using assms(2) b(1) unfolding pending_bin_counts_def
    by (simp add: bin_fold [where f = "\<lambda>p. bin_for (pt_priority p) e", OF f] l r del: upt_Suc)
qed

lemma dispatched_iff:
  assumes "te_inv e" shows "is_dispatched_h2d k g e \<longleftrightarrow> (\<exists>p \<in> set (te_pending e). pt_key p = (k, g, KH2D) \<and> \<not> pt_cancelled p)"
proof -
  note K = core_okD [OF te_invD(3) [OF assms]]
  have set: "set (te_inflight e) = st_pair ` set_mset (staged_ms e) \<union> pt_pair ` {p \<in> set (te_pending e). \<not> pt_cancelled p}"
    using arg_cong [OF K(1), of set_mset] by (simp add: pend_ms_def)
  have "is_dispatched_h2d k g e \<longleftrightarrow> (\<exists>t. map_of (te_inflight e) (k, g, KH2D) = Some t \<and> \<not> is_staged t e)"
    by (auto simp: is_dispatched_h2d_def split: option.split)
  also have "\<dots> \<longleftrightarrow> (\<exists>t. ((k, g, KH2D), t) \<in> set (te_inflight e) \<and> \<not> is_staged t e)" unfolding map_of_eq_Some_iff [OF K(2)] ..
  also have "\<dots> \<longleftrightarrow> (\<exists>p \<in> set (te_pending e). pt_key p = (k, g, KH2D) \<and> \<not> pt_cancelled p)"
    (is "?L \<longleftrightarrow> ?R")
  proof
    assume ?L
    then show ?R unfolding set is_staged_iff [OF assms] by force
  next
    assume ?R
    then obtain p where p: "p \<in> set (te_pending e)" "pt_key p = (k, g, KH2D)" "\<not> pt_cancelled p" by blast
    then have "((k, g, KH2D), pt_token p) \<in> set (te_inflight e)" unfolding set by (intro UnI2 image_eqI [of _ _ p]) simp_all
    moreover have "\<not> is_staged (pt_token p) e" unfolding is_staged_iff [OF assms] using pend_not_staged [OF assms, of p] p(1) by (simp add: pend_ms_def)
    ultimately show ?L by blast
  qed
  finally show ?thesis .
qed

section \<open>An engine for the witnesses\<close>

text \<open>A queue that pops the first of the elements with the highest priority.\<close>

definition first_max :: "staged_transfer list \<Rightarrow> nat" where
  "first_max q = length (takeWhile (\<lambda>x. \<not> (\<forall>y \<in> set q. st_priority y \<le> st_priority x)) q)"

lemma takeWhile_shorter: "\<exists>x \<in> set q. \<not> P x \<Longrightarrow> length (takeWhile P q) < length q"
  by (induction q) auto

lemma first_max_law: "queue_law first_max"
proof -
  have "first_max q < length q \<and> (\<forall>x \<in> set q. st_priority x \<le> st_priority (q ! first_max q))" if "q \<noteq> []" for q
  proof -
    let ?P = "\<lambda>x. \<not> (\<forall>y \<in> set q. st_priority y \<le> st_priority x)"
    have "Max (st_priority ` set q) \<in> st_priority ` set q" using that by (intro Max_in) auto
    then obtain x where x: "x \<in> set q" "st_priority x = Max (st_priority ` set q)" by (metis imageE)
    then have "\<exists>x \<in> set q. \<not> ?P x" by (intro bexI [of _ x]) simp_all
    then have l: "length (takeWhile ?P q) < length q" by (rule takeWhile_shorter)
    from nth_length_takeWhile [OF l] l show ?thesis unfolding first_max_def by simp
  qed
  then show ?thesis by (simp add: queue_law_def)
qed

definition demo_rq :: "nat \<Rightarrow> int \<Rightarrow> int \<Rightarrow> transfer_request" where
  "demo_rq x p delay = \<lparr>rq_key = (ExpertKey 0 (word_of_nat x), 0, KH2D), rq_dst = 4096 * int x, rq_src = 0, rq_bytes = 64,
     rq_priority = p, rq_delay = delay, rq_callback = False, rq_staging = True\<rparr>"

text \<open>One copy on the stream from a pinned slot, two staged ones of which the more urgent one is delayed, and a cancelled one.\<close>

definition demo_ops :: "te_op list" where
  "demo_ops = [TePool 64 [4096, 8192], TeEnqueue 0 (demo_rq 1 0 0), TeEnqueue 0 (demo_rq 2 1 0), TeEnqueue 0 (demo_rq 3 9 1000),
     TeEnqueue 0 (demo_rq 4 2 0), TeCancel 4, TeEnqueue 0 (demo_rq 2 1 0)]"

definition demo_engine :: transfer_engine_st where
  "demo_engine = projr (transfer_engine_init 1 1 2 [5] first_max)"

definition demo_end :: "te_log \<times> transfer_engine_st" where
  "demo_end = projr (te_run demo_ops (te_log0, demo_engine))"

lemma demo_start: "transfer_engine_init 1 1 2 [5] first_max = Inr demo_engine"
  by (simp add: demo_engine_def transfer_engine_init_def)

lemma demo_runs: "te_run demo_ops (te_log0, demo_engine) = Inr (fst demo_end, snd demo_end)"
proof -
  have "\<not> isl (te_run demo_ops (te_log0, demo_engine))" by code_simp
  then show ?thesis by (simp add: demo_end_def)
qed

lemmas demo_reached = demo_start first_max_law demo_runs

section \<open>Properties\<close>

text \<open>
  C13: Accounts. From the constructed engine every sequence of calls whose requests name GPUs of the engine returns. The tokens it
  gave out are distinct; each one is reported once, or cancelled once, or still in flight, and never two of these.
  The transfers in flight have distinct keys, and they are exactly the staged ones and the dispatched ones that were not cancelled.
\<close>

theorem transfers_accounted:
  assumes "transfer_engine_init n min_d max_i ts pick = Inr e0" "queue_law pick" "length ops + 1 < 2 ^ 64" "\<forall>op \<in> set ops. te_op_ok n op"
  shows "\<exists>l e. te_run ops (te_log0, e0) = Inr (l, e)
    \<and> distinct (tl_issued l) \<and> distinct (tl_reported l @ tl_cancelled l @ map snd (te_inflight e))
    \<and> set (tl_issued l) = set (tl_reported l @ tl_cancelled l @ map snd (te_inflight e))
    \<and> distinct (map fst (te_inflight e))
    \<and> mset (te_inflight e) = image_mset st_pair (mset (concat (te_staged e)))
                              + image_mset pt_pair (mset (filter (\<lambda>p. \<not> pt_cancelled p) (te_pending e)))"
proof -
  obtain l e where r: "te_run ops (te_log0, e0) = Inr (l, e)" using te_run_returns [OF assms(4) init_books [OF assms(1,2)]] init_ok(3,4) [OF assms(1,2)] assms(3) by auto
  note B = te_reachable [OF assms(1-3) r, unfolded te_books_def]
  have i: "te_inv e" using B by simp
  note K = core_okD [OF te_invD(3) [OF i]]
  have d: "distinct (map snd (te_inflight e))" by (rule inflight_tokens_distinct [OF i])
  show ?thesis using r B d K(1,2) by (intro exI [of _ l] exI [of _ e]) (auto simp: live_tokens_def staged_ms_def pend_ms_def)
qed

theorem transfers_accounted_witness:
  "\<exists>l e. te_run demo_ops (te_log0, demo_engine) = Inr (l, e)
    \<and> distinct (tl_issued l) \<and> distinct (tl_reported l @ tl_cancelled l @ map snd (te_inflight e))
    \<and> set (tl_issued l) = set (tl_reported l @ tl_cancelled l @ map snd (te_inflight e))
    \<and> distinct (map fst (te_inflight e))
    \<and> mset (te_inflight e) = image_mset st_pair (mset (concat (te_staged e)))
                              + image_mset pt_pair (mset (filter (\<lambda>p. \<not> pt_cancelled p) (te_pending e)))"
  by (rule transfers_accounted [OF demo_start first_max_law]) (simp_all add: demo_ops_def demo_rq_def)

text \<open>
  C14: Pinned slots. In every reachable state a pinned slot belongs to at most one transfer, and it is marked in use exactly while
  its transfer is pending, a cancelled one included: no copy is overwritten before its event completes.
\<close>

theorem pinned_slots_exclusive:
  assumes "transfer_engine_init n min_d max_i ts pick = Inr e0" "queue_law pick" "length ops + 1 < 2 ^ 64"
    "te_run ops (te_log0, e0) = Inr (l, e)"
  shows "distinct (filter (\<lambda>i. 0 \<le> i) (map pt_slot (te_pending e)))
    \<and> (\<forall>i < length (pinned_pool e). ps_in_use (pinned_pool e ! i) \<longleftrightarrow> int i \<in> set (map pt_slot (te_pending e)))
    \<and> (\<forall>p \<in> set (te_pending e). pt_slot p < int (length (pinned_pool e)))"
proof -
  have "te_inv e" using te_reachable(1) [OF assms] by (simp add: te_books_def)
  note S = te_invD(6) [OF this, unfolded slots_ok_def pend_ms_def]
  have "count (mset (filter (\<lambda>i. 0 \<le> i) (map pt_slot (te_pending e)))) i \<le> 1" for i
    using S by (cases "0 \<le> i") (simp_all add: count_eq_zero_iff)
  then have "distinct (filter (\<lambda>i. 0 \<le> i) (map pt_slot (te_pending e)))" by (rule count_distinct)
  then show ?thesis using S by auto
qed

theorem pinned_slots_exclusive_witness:
  "distinct (filter (\<lambda>i. 0 \<le> i) (map pt_slot (te_pending (snd demo_end)))) \<and> map pt_slot (te_pending (snd demo_end)) = [0]
   \<and> ps_in_use (pinned_pool (snd demo_end) ! 0) \<and> \<not> ps_in_use (pinned_pool (snd demo_end) ! 1)"
proof -
  have d: "map pt_slot (te_pending (snd demo_end)) = [0]" "length (pinned_pool (snd demo_end)) = 2" by code_simp+
  have "length demo_ops + 1 < 2 ^ 64" by (simp add: demo_ops_def)
  note R = pinned_slots_exclusive [OF demo_reached(1,2) this demo_reached(3), unfolded d]
  have "ps_in_use (pinned_pool (snd demo_end) ! i) \<longleftrightarrow> int i \<in> set [0]" if "i < 2" for i using R that by blast
  from this [of 0] this [of 1] show ?thesis using R d(1) by simp
qed

text \<open>
  C15: The flush. In every reachable state and for every GPU it raises the number of live copies at most to the cap; it stops below the
  cap only when nothing is staged or when a transfer of the highest priority is delayed, whatever is behind it; what it
  dispatches left the queue of that GPU and has at least the priority of everything that stays.
\<close>

theorem flush_fills_in_order:
  assumes "transfer_engine_init n min_d max_i ts pick = Inr e0" "queue_law pick" "length ops + 1 < 2 ^ 64"
    "te_run ops (te_log0, e0) = Inr (l, e)" "g < n"
  shows "int (dispatched_count (int g) (flush_staged now e)) \<le> max (int (dispatched_count (int g) e)) max_i
    \<and> (max_i \<le> int (dispatched_count (int g) (flush_staged now e)) \<or> nothing_due now g (flush_staged now e))
    \<and> (\<exists>ps. of_gpu g (te_pending (flush_staged now e)) = of_gpu g (te_pending e) @ ps
          \<and> image_mset st_pair (mset (te_staged e ! g))
             = image_mset st_pair (mset (te_staged (flush_staged now e) ! g)) + image_mset pt_pair (mset ps)
          \<and> (\<forall>p \<in> set ps. \<forall>st \<in> set (te_staged (flush_staged now e) ! g). st_priority st \<le> pt_priority p))"
proof -
  have i: "te_inv e" "te_static e0 e" using te_reachable [OF assms(1-4)] by (simp_all add: te_books_def)
  have m: "max_inflight_per_gpu e = max_i" "te_gpus e = n"
    using i(2) assms(1) by (auto simp: te_static_def transfer_engine_init_def split: if_splits)
  from flush_staged_flushed [OF i(1), of g now] assms(5) m show ?thesis unfolding flushed_def by simp
qed

theorem flush_fills_in_order_witness:
  "dispatched_count 0 (flush_staged 10 (snd demo_end)) = 1 \<and> nothing_due 10 0 (flush_staged 10 (snd demo_end))
   \<and> \<not> delayed 10 (te_staged (flush_staged 10 (snd demo_end)) ! 0 ! 0) \<and> dispatched_count 0 (flush_staged 2000 (snd demo_end)) = 2"
proof -
  have d: "dispatched_count 0 (flush_staged 10 (snd demo_end)) = 1" "dispatched_count 0 (flush_staged 2000 (snd demo_end)) = 2"
    "\<not> delayed 10 (te_staged (flush_staged 10 (snd demo_end)) ! 0 ! 0)" by code_simp+
  have "length demo_ops + 1 < 2 ^ 64" by (simp add: demo_ops_def)
  from flush_fills_in_order [OF demo_reached(1,2) this demo_reached(3) zero_less_one, of 10]
  have "2 \<le> int (dispatched_count (int 0) (flush_staged 10 (snd demo_end))) \<or> nothing_due 10 0 (flush_staged 10 (snd demo_end))" by blast
  then show ?thesis using d by simp
qed

text \<open>
  Counts. In every reachable state the counts per priority bin that the clients read are those of the staged and the pending
  transfers of the GPU, and a transfer is reported as dispatched exactly when its copy is on the stream and was not cancelled.
\<close>

theorem client_counts_exact:
  assumes "transfer_engine_init n min_d max_i ts pick = Inr e0" "queue_law pick" "length ops + 1 < 2 ^ 64"
    "te_run ops (te_log0, e0) = Inr (l, e)" "g < n"
  shows "pending_bin_counts (int g) e
      = map (\<lambda>b. int (length (filter (\<lambda>st. bin_for (st_priority st) e = b) (te_staged e ! g)))
                + int (length (filter (\<lambda>p. gpu_of (pt_key p) = int g \<and> bin_for (pt_priority p) e = b) (te_pending e)))) [0..<length ts + 1]
    \<and> (\<forall>k. is_dispatched_h2d k (int g) e \<longleftrightarrow> (\<exists>p \<in> set (te_pending e). pt_key p = (k, int g, KH2D) \<and> \<not> pt_cancelled p))"
proof -
  have i: "te_inv e" "te_static e0 e" using te_reachable [OF assms(1-4)] by (simp_all add: te_books_def)
  have m: "bin_thresholds e = ts" "te_gpus e = n" using i(2) assms(1) by (auto simp: te_static_def transfer_engine_init_def split: if_splits)
  show ?thesis using pending_bins [OF i(1), of g] dispatched_iff [OF i(1)] assms(5) m by simp
qed

theorem client_counts_exact_witness:
  "pending_bin_counts 0 (snd demo_end) = [2, 1] \<and> is_dispatched_h2d (ExpertKey 0 1) 0 (snd demo_end)"
proof -
  have c: "map (\<lambda>b. int (length (filter (\<lambda>st. bin_for (st_priority st) (snd demo_end) = b) (te_staged (snd demo_end) ! 0)))
      + int (length (filter (\<lambda>p. gpu_of (pt_key p) = int 0 \<and> bin_for (pt_priority p) (snd demo_end) = b) (te_pending (snd demo_end))))) [0..<length [5::int] + 1]
    = [2, 1]" "\<exists>p \<in> set (te_pending (snd demo_end)). pt_key p = (ExpertKey 0 1, int 0, KH2D) \<and> \<not> pt_cancelled p" by code_simp+
  have "length demo_ops + 1 < 2 ^ 64" by (simp add: demo_ops_def)
  note R = client_counts_exact [OF demo_reached(1,2) this demo_reached(3) zero_less_one]
  have "pending_bin_counts (int 0) (snd demo_end) = [2, 1]" using conjunct1 [OF R] c(1) by simp
  moreover have "is_dispatched_h2d (ExpertKey 0 1) (int 0) (snd demo_end)" using conjunct2 [OF R] c(2) by blast
  ultimately show ?thesis by simp
qed

text \<open>
  C17: The barrier. When a copy to a GPU of the engine is reported as dispatched, the event that \<^verbatim>\<open>record_h2d_barrier\<close> records waits for
  the copy of exactly that transfer: a consumer that checked \<^verbatim>\<open>is_dispatched_h2d\<close> first is ordered after it.
\<close>

theorem barrier_fences_dispatched:
  assumes "transfer_engine_init n min_d max_i ts pick = Inr e0" "queue_law pick" "length ops + 1 < 2 ^ 64"
    "te_run ops (te_log0, e0) = Inr (l, e)" "is_dispatched_h2d k g e"
  shows "\<exists>t cs c. map_of (te_inflight e) (k, g, KH2D) = Some t \<and> record_h2d_barrier g e = Some cs
    \<and> c \<in> set cs \<and> dc_token c = t \<and> dc_key c = (k, g, KH2D)"
proof -
  have i: "te_inv e" using te_reachable(1) [OF assms(1-4)] by (simp add: te_books_def)
  note K = core_okD [OF te_invD(3) [OF i]]
  obtain p where p: "p \<in> set (te_pending e)" "pt_key p = (k, g, KH2D)" "\<not> pt_cancelled p" using assms(5) dispatched_iff [OF i] by blast
  have "pt_pair p \<in> set (te_inflight e)" by (rule core_in(2) [OF te_invD(3) [OF i]]) (use p in \<open>simp_all add: pend_ms_def\<close>)
  then have t: "map_of (te_inflight e) (k, g, KH2D) = Some (pt_token p)" using p(2) by (simp add: K(2))
  have "gpu_in e g" "copied e p" using te_invD(2) [OF i] p(1,2) by (auto simp: shape_ok_def)
  then show ?thesis using t p(2) by (fastforce simp: record_h2d_barrier_def gpu_in_def copied_def)
qed

theorem barrier_fences_dispatched_witness:
  "\<exists>t cs c. map_of (te_inflight (snd demo_end)) (ExpertKey 0 1, 0, KH2D) = Some t \<and> record_h2d_barrier 0 (snd demo_end) = Some cs
    \<and> c \<in> set cs \<and> dc_token c = t \<and> dc_key c = (ExpertKey 0 1, 0, KH2D)"
proof (rule barrier_fences_dispatched [OF demo_reached(1,2) _ demo_reached(3)])
  show "length demo_ops + 1 < 2 ^ 64" by (simp add: demo_ops_def)
  show "is_dispatched_h2d (ExpertKey 0 1) 0 (snd demo_end)" by code_simp
qed

text \<open>
  C16: The drain. When every poll looks at all pending transfers and every event is ready from some poll on, the drain of
  every reachable state returns, and nothing is staged, pending or in flight afterwards.
\<close>

theorem drain_returns:
  assumes "transfer_engine_init n min_d max_i ts pick = Inr e0" "queue_law pick" "length ops + 1 < 2 ^ 64"
    "te_run ops (te_log0, e0) = Inr (l, e)" "copies_end env"
  shows "\<exists>e'. te_drain env e = Some e' \<and> te_pending e' = [] \<and> te_inflight e' = [] \<and> concat (te_staged e') = []"
proof -
  have "te_inv e" using te_reachable(1) [OF assms(1-4)] by (simp add: te_books_def)
  from drain_ends [OF this assms(5)] show ?thesis by (simp add: staged_ms_def)
qed

definition drain_env :: poll_env where
  "drain_env i e = (int i, map pt_token (te_pending e), (\<lambda>t. if i \<le> unat t then EvNotReady else EvReady))"

theorem drain_returns_witness:
  "\<exists>e'. te_drain drain_env (snd demo_end) = Some e' \<and> te_pending e' = [] \<and> te_inflight e' = [] \<and> concat (te_staged e') = []"
proof (rule drain_returns [OF demo_reached(1,2) _ demo_reached(3)])
  show "length demo_ops + 1 < 2 ^ 64" by (simp add: demo_ops_def)
  have "\<exists>k. \<forall>i \<ge> k. \<forall>e. snd (snd (drain_env i e)) t \<noteq> EvNotReady" for t
    by (rule exI [of _ "Suc (unat t)"]) (auto simp: drain_env_def)
  then show "copies_end drain_env" by (simp add: copies_end_def) (simp add: drain_env_def)
qed

text \<open>
  C18: The cap does not bound the copies on a stream: with a cap of one copy, \<open>n\<close> rounds of a request and its cancellation leave \<open>n\<close>
  copies of the same key pending on the GPU, for every \<open>n\<close>.
\<close>

theorem cancelled_copies_escape_cap:
  assumes "transfer_engine_init 1 1 1 ts pick = Inr e0" "queue_law pick" "gpu_of (rq_key rq) = 0" "rq_delay rq \<le> 0" "n + 2 < 2 ^ 64"
  shows "\<exists>l e. te_run (churn rq n) (te_log0, e0) = Inr (l, e) \<and> max_inflight_per_gpu e = 1 \<and> dispatched_count 0 e = 0
    \<and> map pt_key (te_pending e) = replicate n (rq_key rq)"
proof -
  note I = init_ok [OF assms(1,2)]
  have e0: "te_pending e0 = []" "min_dispatch_per_gpu e0 = 1" "max_inflight_per_gpu e0 = 1"
    using assms(1) by (auto simp: transfer_engine_init_def split: if_splits)
  have "churned rq 0 e0" "gpu_in e0 (gpu_of (rq_key rq))" using I e0 assms(3) by (simp_all add: churned_def gpu_in_def)
  from churn_run [OF this assms(4) _ assms(5), of te_log0] e0(2) obtain l e where
    "te_run (churn rq n) (te_log0, e0) = Inr (l, e)" "churned rq n e" "te_static e0 e" by auto
  then show ?thesis using e0(3) by (intro exI [of _ l] exI [of _ e]) (simp add: churned_def te_static_def dispatched_count_def)
qed

theorem cancelled_copies_escape_cap_witness:
  "\<exists>l e. te_run (churn (demo_rq 1 0 0) 5) (te_log0, projr (transfer_engine_init 1 1 1 [] first_max)) = Inr (l, e)
    \<and> max_inflight_per_gpu e = 1 \<and> dispatched_count 0 e = 0 \<and> map pt_key (te_pending e) = replicate 5 (rq_key (demo_rq 1 0 0))"
  by (rule cancelled_copies_escape_cap [where ts = "[]", OF _ first_max_law]) (simp_all add: transfer_engine_init_def demo_rq_def)

end
