(* ===== verification/Zone_Traffic.thy ===== *)
theory Zone_Traffic
  imports Expert_Lifecycle Allocator_Geometry
begin

text \<open>
  What the traffic on the cache leaves of the elastic zones. Reserving, evicting, locking and retagging experts, the spill
  mode, and the start of a drain keep the zones where they are; a draining zone stays draining and its number of residents
  never grows.
\<close>

section \<open>Zones under traffic\<close>

definition calmer :: "elastic_zone_t \<Rightarrow> elastic_zone_t \<Rightarrow> bool" where
  "calmer z z' \<longleftrightarrow>
     z_id z' = z_id z \<and> z_base z' = z_base z \<and> z_bytes z' = z_bytes z
     \<and> (z_state z = ZDraining \<longrightarrow> z_state z' = ZDraining \<and> z_resident_entries z' \<le> z_resident_entries z)"

definition gpu_calm :: "gpu_cache \<Rightarrow> gpu_cache \<Rightarrow> bool" where
  "gpu_calm gs gs' \<longleftrightarrow>
     list_all2 calmer (elastic_zones gs) (elastic_zones gs')
     \<and> fst (Expert_Cache_Machine.geom gs') = fst (Expert_Cache_Machine.geom gs)"

definition calm :: "expert_cache \<Rightarrow> expert_cache \<Rightarrow> bool" where
  "calm c c' \<longleftrightarrow> expert_bytes c' = expert_bytes c \<and> list_all2 gpu_calm (ec_gpus c) (ec_gpus c')"

lemma calmer_refl [simp, intro]: "calmer z z"
  by (simp add: calmer_def)

lemma calmer_trans: "calmer x y \<Longrightarrow> calmer y z \<Longrightarrow> calmer x z"
  by (auto simp: calmer_def)

lemma gpu_calm_refl [simp, intro]: "gpu_calm gs gs"
  by (simp add: gpu_calm_def list.rel_refl)

lemma gpu_calm_trans: "gpu_calm x y \<Longrightarrow> gpu_calm y z \<Longrightarrow> gpu_calm x z"
  unfolding gpu_calm_def using list_all2_trans [OF calmer_trans] by auto

lemma calm_refl [simp, intro]: "calm c c"
  by (simp add: calm_def list.rel_refl)

lemma calm_trans: "calm x y \<Longrightarrow> calm y z \<Longrightarrow> calm x z"
  unfolding calm_def using list_all2_trans [OF gpu_calm_trans] by auto

lemma calm_put: "gpu_state c gpu = Inr gs \<Longrightarrow> gpu_calm gs gs' \<Longrightarrow> calm c (put_state gpu gs' c)"
  by (auto simp: calm_def gpu_state_Inr put_state_def valid_cache_gpu_def list_all2_conv_all_nth nth_list_update)

lemma calm_notify [simp]: "calm c (notify v c') = calm c c'" "calm c (c'\<lparr>elastic_generation := n\<rparr>) = calm c c'"
  by (simp_all add: calm_def)

lemma calm_gpu: "calm c c' \<Longrightarrow> valid_cache_gpu c' gpu = valid_cache_gpu c gpu"
  by (auto simp: calm_def valid_cache_gpu_def dest: list_all2_lengthD)

lemma calm_nth: "calm c c' \<Longrightarrow> valid_cache_gpu c gpu \<Longrightarrow> gpu_calm (ec_gpus c ! nat gpu) (ec_gpus c' ! nat gpu)"
  by (auto simp: calm_def valid_cache_gpu_def list_all2_conv_all_nth)

lemma offer_zones_calm: "offer_zones zs = (r, zs') \<Longrightarrow> list_all2 calmer zs zs'"
proof (induction zs arbitrary: r zs')
  case (Cons z zs)
  then show ?case
    by (auto simp: Let_def calmer_def list.rel_refl split: if_splits prod.splits option.splits)
qed simp

lemma upd_first_zone_calm: "(\<And>z. calmer z (f z)) \<Longrightarrow> list_all2 calmer zs (upd_first_zone i f zs)"
  by (induction zs) (auto simp: list.rel_refl)

section \<open>Operations\<close>

lemma calm_emplace [simp]: "gpu_calm gs (emplace_entry e gs') = gpu_calm gs gs'"
  by (simp add: gpu_calm_def emplace_entry_def Expert_Cache_Machine.geom_def)

lemma reserve_gpu_calm:
  "reserve_stable c k gpu dup gs = (r, gs') \<Longrightarrow> gpu_calm gs gs'"
  "reserve_streaming c k gpu dup gs = (r, gs') \<Longrightarrow> gpu_calm gs gs'"
proof -
  have z: "list_all2 calmer (elastic_zones gs) (elastic_zones gs')"
    if "reserve_stable c k gpu dup gs = (r, gs') \<or> reserve_streaming c k gpu dup gs = (r, gs')"
    using that
    by (auto simp: reserve_stable_def reserve_streaming_def reserve_prefetch_def Let_def emplace_entry_def list.rel_refl
        split: prod.splits option.splits if_splits dest: offer_zones_calm)
  show "reserve_stable c k gpu dup gs = (r, gs') \<Longrightarrow> gpu_calm gs gs'"
    using z reserve_geom(1) [of c k gpu dup gs r gs'] by (simp add: gpu_calm_def)
  show "reserve_streaming c k gpu dup gs = (r, gs') \<Longrightarrow> gpu_calm gs gs'"
    using z reserve_geom(3) [of c k gpu dup gs r gs'] by (simp add: gpu_calm_def)
qed

lemma reserve_calm: "reserve k gpu z dup c = Inr (r, c') \<Longrightarrow> calm c c'"
  by (auto simp: reserve_def Let_def split: prod.splits if_splits elim!: rbindE)
     (erule calm_put, auto dest: reserve_gpu_calm)+

lemma return_slot_calm:
  assumes "return_slot e gs = Inr gs1" shows "gpu_calm gs gs1"
proof -
  have "list_all2 calmer (elastic_zones gs) (elastic_zones gs1)"
    using assms by (auto simp: return_slot_def assert_then_def list.rel_refl calmer_def split: if_splits
        intro!: upd_first_zone_calm)
  then show ?thesis using return_slot_geom [OF assms] by (simp add: gpu_calm_def)
qed

lemma evict_calm: "evict k gpu c = Inr (b, c') \<Longrightarrow> calm c c'"
proof -
  have "gpu_calm gs (erase_resident k (drop_duplicate e gs1))" if "return_slot e gs = Inr gs1" for e gs gs1
    using return_slot_calm [OF that]
    by (simp add: gpu_calm_def erase_resident_def drop_duplicate_def Expert_Cache_Machine.geom_def)
  then show "evict k gpu c = Inr (b, c') \<Longrightarrow> calm c c'"
    by (auto simp: evict_def Let_def split: option.splits if_splits elim!: rbindE) (erule calm_put, blast)+
qed

lemma light_calm [simp]: "gpu_calm gs (upd_resident k f gs)"
  by (simp add: gpu_calm_def upd_resident_def Expert_Cache_Machine.geom_def list.rel_refl)

lemma mark_lock_calm:
  "mark_ready k gpu part c = Inr c' \<Longrightarrow> calm c c'" "mark_all_ready k gpu c = Inr c' \<Longrightarrow> calm c c'"
  "lock k gpu c = Inr (b, c') \<Longrightarrow> calm c c'" "unlock k gpu c = Inr (b, c') \<Longrightarrow> calm c c'"
  "cache_promote k gpu c = Inr (b, c') \<Longrightarrow> calm c c'" "cache_demote k gpu c = Inr (b, c') \<Longrightarrow> calm c c'"
  by (auto simp: mark_ready_def mark_all_ready_def lock_def unlock_def cache_promote_def cache_demote_def
      split: option.splits if_splits elim!: rbindE assert_thenE)
     (erule calm_put, simp)+

lemma spill_calm:
  "enter_spill_mode gpu c = Inr (s, c') \<Longrightarrow> calm c c'" "exit_spill_mode gpu c = Inr c' \<Longrightarrow> calm c c'"
  by (auto simp: enter_spill_mode_def exit_spill_mode_def Let_def elim!: rbindE assert_thenE)
     (erule calm_put, simp add: gpu_calm_def Expert_Cache_Machine.geom_def list.rel_refl)+

lemma drain_calm: "begin_drain_elastic_zone gpu i c = Inr (b, c') \<Longrightarrow> calm c c'"
  by (auto simp: begin_drain_elastic_zone_def Let_def split: if_splits elim!: rbindE)
     (erule calm_put, auto simp: gpu_calm_def Expert_Cache_Machine.geom_def calmer_def intro!: upd_first_zone_calm)

section \<open>Serving experts\<close>

text \<open>The steps of the cache's clients other than the rebalancer: no zone is added, drained or removed.\<close>

inductive serve_step :: "expert_cache \<Rightarrow> expert_cache \<Rightarrow> bool" where
  serve_reserve: "reserve k gpu z dup c = Inr (r, c') \<Longrightarrow> serve_step c c'"
| serve_mark: "mark_ready k gpu part c = Inr c' \<Longrightarrow> serve_step c c'"
| serve_mark_all: "mark_all_ready k gpu c = Inr c' \<Longrightarrow> serve_step c c'"
| serve_lock: "lock k gpu c = Inr (b, c') \<Longrightarrow> serve_step c c'"
| serve_unlock: "unlock k gpu c = Inr (b, c') \<Longrightarrow> serve_step c c'"
| serve_evict: "evict k gpu c = Inr (b, c') \<Longrightarrow> serve_step c c'"
| serve_promote: "\<lbrakk>in_elastic_zone k gpu c; cache_promote k gpu c = Inr (b, c')\<rbrakk> \<Longrightarrow> serve_step c c'"
| serve_demote: "\<lbrakk>in_elastic_zone k gpu c; cache_demote k gpu c = Inr (b, c')\<rbrakk> \<Longrightarrow> serve_step c c'"
| serve_enter_spill: "enter_spill_mode gpu c = Inr (s, c') \<Longrightarrow> serve_step c c'"
| serve_exit_spill: "\<lbrakk>no_spill_resident gpu c; exit_spill_mode gpu c = Inr c'\<rbrakk> \<Longrightarrow> serve_step c c'"
| serve_hints: "serve_step c (invalidate_affinity_hints c)"

lemma serve_step_cache: "serve_step c c' \<Longrightarrow> cache_step c c'"
  by (induction rule: serve_step.induct) (auto intro: cache_step.intros)

lemma serve_step_inv: "serve_step c c' \<Longrightarrow> cache_inv c \<Longrightarrow> cache_inv c'"
  using serve_step_cache cache_step_inv by blast

lemma serve_step_calm: "serve_step c c' \<Longrightarrow> calm c c'"
  by (induction rule: serve_step.induct)
     (auto simp: reserve_calm evict_calm mark_lock_calm spill_calm, simp add: invalidate_affinity_hints_def calm_def list.rel_refl)

end
