(* ===== verification/Zone_Rebalancer.thy ===== *)
theory Zone_Rebalancer
  imports Expert_Zone_Math Expert_Lifecycle Page_Allocator
begin

text \<open>
  The rebalancer between KV pages and expert zones, \<^verbatim>\<open>src/src/daemon/expert_zone_rebalancer.{h,cpp}\<close>: when a run of
  slabs is lent to the expert cache and when it is taken back. It drives the page allocator, the expert cache and the
  lifecycle manager; the four together are the record \<open>node\<close>. The device surface (stream barriers, event queries, the
  dispatcher's quiesce flag, the steady clock) is a parameter of a tick, the record \<open>tick_env\<close>: a function of it also takes the
  first slab of the grant on whose behalf it is called, so that its answers may differ from call to call. A null event is
  \<open>0\<close>, an unset function \<open>None\<close>. The marks that the configuration gives as fractions of the pool are functions of the
  pool's size (the rounded product of doubles), and the waste bound, a comparison of doubles, is a predicate of the
  wasted bytes and the capacity. Integers are unbounded: slab and slot counts are far below the range of
  \<^verbatim>\<open>int\<close>. Logging is left out.
\<close>

section \<open>State\<close>

record rb_config =
  rc_enabled :: bool
  low_water_frac_slabs :: "int \<Rightarrow> int"
  high_water_frac_slabs :: "int \<Rightarrow> int"
  max_waste_within :: "int \<Rightarrow> int \<Rightarrow> bool"
  max_slots_per_grant :: int
  min_tick_interval_us :: int
  grant_cooldown_ms :: int

record rb_deps =
  has_page_allocator :: bool
  has_expert_cache :: bool
  tp_gpus :: "int list"
  geometry :: zone_geometry
  admission_transient_slabs :: int
  per_step_growth_slabs :: int
  max_concurrent_admissions :: int

record rb_stats =
  rs_grants :: int
  rs_reclaims :: int
  rs_grant_refusals :: int
  rs_forced_immediate_reclaims :: int
  rs_zone_remove_failures :: int
  rs_granted_slots :: int
  rs_granted_slabs :: int
  rs_draining_zones :: int

datatype grant_st = SActive | SDraining | SBarrier | SLeaked

record grant_rec =
  gr_start_slab :: int
  gr_num_slabs :: int
  gr_num_slots :: int
  gr_zone_ids :: "int list"
  gr_st :: grant_st
  gr_h2d_events :: "int list"
  gr_ffn_events :: "int list"

record rebalancer =
  rbdeps :: rb_deps
  rb_cfg :: rb_config
  rbstats :: rb_stats
  rb_grants :: "grant_rec list"
  eager_reclaim :: bool
  eager_demand_free_slabs :: int
  first_tick :: bool
  last_tick :: int
  min_band_slabs :: int
  low_slabs :: int
  high_slabs :: int
  marks_resolved :: bool
  grant_cooldown_ticks :: int
  grant_cooldown_left :: int

record tick_env =
  te_now :: int
  moe_quiesced :: "(int \<Rightarrow> bool) option"
  record_h2d_barrier :: "(int \<Rightarrow> int \<Rightarrow> int) option"
  record_ffn_barrier :: "(int \<Rightarrow> int \<Rightarrow> int) option"
  event_complete :: "(int \<Rightarrow> int \<Rightarrow> bool) option"
  has_destroy_event :: bool

datatype device_event = BarrierRecorded int int | EventDestroyed int int

record node =
  nd_alloc :: allocator
  nd_cache :: expert_cache
  nd_elm :: "lifecycle option"
  nd_rb :: rebalancer
  nd_log :: "device_event list"

section \<open>Queries\<close>

definition kv_fragmentation :: "int \<Rightarrow> allocator \<Rightarrow> kv_fragmentation_t res" where
  "kv_fragmentation gpu a =
     assert_then (valid_gpu a gpu) (Inr (gpu_kv_fragmentation (pages_per_slab a) (gpus a ! nat gpu)))"

definition kv_main_base :: "int \<Rightarrow> allocator \<Rightarrow> int" where
  "kv_main_base gpu a = (if valid_gpu a gpu then base (gpus a ! nat gpu) else 0)"

definition INT_MAX :: int where "INT_MAX = 2147483647"

definition rb_total_slabs :: "rb_deps \<Rightarrow> allocator \<Rightarrow> int res" where
  "rb_total_slabs d a =
     (if \<not> has_page_allocator d \<or> tp_gpus d = [] then Inr 0
      else rbind (kv_fragmentation (hd (tp_gpus d)) a) (\<lambda>f. Inr (int (total_slabs f))))"

definition min_free_slabs :: "rb_deps \<Rightarrow> allocator \<Rightarrow> int res" where
  "min_free_slabs d a =
     (if \<not> has_page_allocator d \<or> tp_gpus d = [] then Inr 0
      else rfold (\<lambda>g m. rbind (kv_fragmentation g a) (\<lambda>f. Inr (min m (int (free_slabs f))))) (tp_gpus d) INT_MAX)"

definition low_water_slabs :: "rebalancer \<Rightarrow> int" where
  "low_water_slabs rb = (if marks_resolved rb then low_slabs rb else 0)"

definition high_water_slabs :: "rebalancer \<Rightarrow> int" where
  "high_water_slabs rb = (if marks_resolved rb then high_slabs rb else 0)"

definition upfront_margin :: "rb_deps \<Rightarrow> int" where
  "upfront_margin d = admission_transient_slabs d + max 0 (per_step_growth_slabs d)"

definition grant_floor_slabs :: "rebalancer \<Rightarrow> int" where
  "grant_floor_slabs rb =
     (if \<not> marks_resolved rb then 0
      else max (high_slabs rb) (low_slabs rb + upfront_margin (rbdeps rb)))"

definition in_reclaim :: "grant_rec \<Rightarrow> bool" where
  "in_reclaim g \<longleftrightarrow> gr_st g = SDraining \<or> gr_st g = SBarrier"

definition slabs_in_reclaim :: "grant_rec list \<Rightarrow> int" where
  "slabs_in_reclaim gs = sum_list (map gr_num_slabs (filter in_reclaim gs))"

definition any_reclaim_in_flight :: "grant_rec list \<Rightarrow> bool" where
  "any_reclaim_in_flight gs = list_ex in_reclaim gs"

definition upd_stats :: "(rb_stats \<Rightarrow> rb_stats) \<Rightarrow> rebalancer \<Rightarrow> rebalancer" where
  "upd_stats f rb = rb\<lparr>rbstats := f (rbstats rb)\<rparr>"

definition refresh_draining_stat :: "rebalancer \<Rightarrow> rebalancer" where
  "refresh_draining_stat rb =
     upd_stats (\<lambda>s. s\<lparr>rs_draining_zones := int (length (filter in_reclaim (rb_grants rb)))\<rparr>) rb"

section \<open>Marks\<close>

definition disable :: "rebalancer \<Rightarrow> rebalancer" where
  "disable rb = rb\<lparr>rb_cfg := (rb_cfg rb)\<lparr>rc_enabled := False\<rparr>\<rparr>"

definition cooldown_ticks :: "rb_config \<Rightarrow> int" where
  "cooldown_ticks cfg =
     (let tick_ms = max 1 (min_tick_interval_us cfg div 1000) in
      if grant_cooldown_ms cfg \<le> 0 then 0
      else min 100000000 (max 1 (max 1 (grant_cooldown_ms cfg div tick_ms))))"

text \<open>The locals of \<^verbatim>\<open>resolve_marks\<close>, as functions of the wiring, the configuration and the pool's size.\<close>

definition two_grants :: "rb_deps \<Rightarrow> rb_config \<Rightarrow> int \<Rightarrow> int" where
  "two_grants d cfg tot =
     (let pool_cap = fst (best_fit (geometry d) tot 1);
          eff_cap = min (max_slots_per_grant cfg) pool_cap
      in if 1 \<le> eff_cap then 2 * grant_slabs (geometry d) eff_cap tot else 0)"

definition growth_slabs :: "rb_deps \<Rightarrow> int" where
  "growth_slabs d = max 0 (per_step_growth_slabs d)"

definition admission_floor :: "rb_deps \<Rightarrow> int" where
  "admission_floor d = max 1 (max_concurrent_admissions d) * (admission_transient_slabs d + growth_slabs d)"

definition min_band :: "rb_deps \<Rightarrow> rb_config \<Rightarrow> int \<Rightarrow> int" where
  "min_band d cfg tot =
     (if 0 < growth_slabs d then 2 * growth_slabs d else max (2 * admission_transient_slabs d) (two_grants d cfg tot))"

definition low_mark :: "rb_deps \<Rightarrow> rb_config \<Rightarrow> int \<Rightarrow> int" where
  "low_mark d cfg tot = max (admission_floor d) (low_water_frac_slabs cfg tot)"

definition high_mark :: "rb_deps \<Rightarrow> rb_config \<Rightarrow> int \<Rightarrow> int" where
  "high_mark d cfg tot = max (low_mark d cfg tot + min_band d cfg tot) (high_water_frac_slabs cfg tot)"

definition settle_marks :: "int \<Rightarrow> rebalancer \<Rightarrow> rebalancer" where
  "settle_marks tot rb =
     (let d = rbdeps rb; cfg = rb_cfg rb; low = low_mark d cfg tot; high = high_mark d cfg tot in
      if two_grants d cfg tot \<le> 0 then disable rb
      else
        let rb1 = rb\<lparr>min_band_slabs := min_band d cfg tot\<rparr> in
        if tot \<le> high then disable rb1
        else if tot \<le> max high (low + upfront_margin d) then disable rb1
        else rb1\<lparr>low_slabs := low, high_slabs := high, marks_resolved := True\<rparr>)"

definition resolve_marks :: "allocator \<Rightarrow> rebalancer \<Rightarrow> rebalancer res" where
  "resolve_marks a rb =
     (if marks_resolved rb \<or> \<not> rc_enabled (rb_cfg rb) then Inr rb
      else
        let rb1 = rb\<lparr>grant_cooldown_ticks := cooldown_ticks (rb_cfg rb)\<rparr> in
        rbind (rb_total_slabs (rbdeps rb) a)
         (\<lambda>tot. Inr (if tot \<le> 0 then rb1 else settle_marks tot rb1)))"

definition zero_rb_stats :: rb_stats where
  "zero_rb_stats =
     \<lparr>rs_grants = 0, rs_reclaims = 0, rs_grant_refusals = 0, rs_forced_immediate_reclaims = 0,
      rs_zone_remove_failures = 0, rs_granted_slots = 0, rs_granted_slabs = 0, rs_draining_zones = 0\<rparr>"

definition expert_zone_rebalancer :: "rb_deps \<Rightarrow> rb_config \<Rightarrow> allocator \<Rightarrow> rebalancer res" where
  "expert_zone_rebalancer deps cfg a =
     (let d = deps\<lparr>geometry := (geometry deps)\<lparr>g_within := max_waste_within cfg\<rparr>\<rparr>;
          rb = \<lparr>rbdeps = d, rb_cfg = cfg, rbstats = zero_rb_stats, rb_grants = [], eager_reclaim = False,
               eager_demand_free_slabs = 0, first_tick = True, last_tick = 0, min_band_slabs = 0, low_slabs = 0,
               high_slabs = 0, marks_resolved = False, grant_cooldown_ticks = 0, grant_cooldown_left = 0\<rparr>;
          incomplete = (\<not> has_page_allocator d \<or> \<not> has_expert_cache d \<or> tp_gpus d = []
                        \<or> \<not> geometry_valid (geometry d))
      in resolve_marks a (if rc_enabled cfg \<and> incomplete then disable rb else rb))"

section \<open>Reclaim, steps 2 to 5\<close>

definition drain_key ::
    "int \<Rightarrow> expert_key \<Rightarrow> lifecycle option \<times> expert_cache \<Rightarrow> (lifecycle option \<times> expert_cache) res" where
  "drain_key gpu k lc =
     (case lookup k gpu (snd lc) of
        None \<Rightarrow> Inr lc
      | Some e \<Rightarrow>
          if lock_count e = 0 \<and> sub_components_ready e = kAll
          then rbind (evict_expert k gpu lc) (\<lambda>(_, lc'). Inr lc')
          else Inr lc)"

definition drain_rank ::
    "int \<times> int \<Rightarrow> bool \<times> lifecycle option \<times> expert_cache \<Rightarrow> (bool \<times> lifecycle option \<times> expert_cache) res" where
  "drain_rank gz s =
     (case (gz, s) of ((gpu, zid), (drained_so_far, lc)) \<Rightarrow>
       rbind (elastic_zone_residents gpu zid (snd lc))
        (\<lambda>ks. rbind (rfold (drain_key gpu) ks lc)
          (\<lambda>lc1. rbind (elastic_drain_status gpu zid (snd lc1))
            (\<lambda>(_, drained). Inr (drained_so_far \<and> drained, lc1)))))"

definition ranks_of :: "rb_deps \<Rightarrow> grant_rec \<Rightarrow> (int \<times> int) list" where
  "ranks_of d g = zip (tp_gpus d) (gr_zone_ids g)"

definition drain_residents ::
    "rb_deps \<Rightarrow> grant_rec \<Rightarrow> lifecycle option \<times> expert_cache \<Rightarrow> (bool \<times> lifecycle option \<times> expert_cache) res" where
  "drain_residents d g lc = rfold drain_rank (ranks_of d g) (True, lc)"

definition barrier_event :: "(int \<Rightarrow> int \<Rightarrow> int) option \<Rightarrow> grant_rec \<Rightarrow> int \<Rightarrow> int" where
  "barrier_event f g gpu = (case f of None \<Rightarrow> 0 | Some rec \<Rightarrow> rec gpu (gr_start_slab g))"

definition recorded :: "int \<Rightarrow> int \<Rightarrow> device_event list" where
  "recorded gpu ev = (if ev = 0 then [] else [BarrierRecorded gpu ev])"

definition record_barriers ::
    "tick_env \<Rightarrow> rb_deps \<Rightarrow> grant_rec \<Rightarrow> device_event list \<Rightarrow> grant_rec \<times> device_event list" where
  "record_barriers e d g log =
     (let h = barrier_event (record_h2d_barrier e) g; f = barrier_event (record_ffn_barrier e) g in
      (g\<lparr>gr_h2d_events := map h (tp_gpus d), gr_ffn_events := map f (tp_gpus d)\<rparr>,
       log @ concat (map (\<lambda>gpu. recorded gpu (h gpu) @ recorded gpu (f gpu)) (tp_gpus d))))"

definition barriers_complete :: "tick_env \<Rightarrow> rb_deps \<Rightarrow> grant_rec \<Rightarrow> bool" where
  "barriers_complete e d g =
     (case event_complete e of
        None \<Rightarrow> True
      | Some complete \<Rightarrow>
          list_all (\<lambda>(gpu, ev). ev = 0 \<or> complete gpu ev) (zip (tp_gpus d) (gr_h2d_events g))
          \<and> list_all (\<lambda>(gpu, ev). ev = 0 \<or> complete gpu ev) (zip (tp_gpus d) (gr_ffn_events g)))"

definition destroyed :: "int \<Rightarrow> int \<Rightarrow> device_event list" where
  "destroyed gpu ev = (if ev = 0 then [] else [EventDestroyed gpu ev])"

definition destroy_events :: "tick_env \<Rightarrow> rb_deps \<Rightarrow> grant_rec \<Rightarrow> device_event list" where
  "destroy_events e d g =
     (if has_destroy_event e
      then concat (map (\<lambda>((gpu, h), f). destroyed gpu h @ destroyed gpu f)
                     (zip (zip (tp_gpus d) (gr_h2d_events g)) (gr_ffn_events g)))
      else [])"

definition remove_rank :: "int \<times> int \<Rightarrow> bool \<times> expert_cache \<Rightarrow> (bool \<times> expert_cache) res" where
  "remove_rank gz s =
     rbind (remove_elastic_zone (fst gz) (snd gz) (snd s)) (\<lambda>(ok, c'). Inr (fst s \<and> ok, c'))"

definition release_ranks :: "int list \<Rightarrow> int \<Rightarrow> int \<Rightarrow> allocator \<Rightarrow> allocator res" where
  "release_ranks tps start n a = rfold (\<lambda>gpu. release_expert_zone gpu start n) tps a"

definition count_reclaim :: "grant_rec \<Rightarrow> rebalancer \<Rightarrow> rebalancer" where
  "count_reclaim g rb =
     (upd_stats (\<lambda>s. s\<lparr>rs_reclaims := rs_reclaims s + 1,
                       rs_granted_slabs := rs_granted_slabs s - gr_num_slabs g,
                       rs_granted_slots := rs_granted_slots s - gr_num_slots g\<rparr>) rb)
       \<lparr>grant_cooldown_left := grant_cooldown_ticks rb\<rparr>"

text \<open>The grant is gone (\<open>None\<close>) or stays, leaked.\<close>

definition finish_reclaim :: "tick_env \<Rightarrow> grant_rec \<Rightarrow> node \<Rightarrow> (grant_rec option \<times> node) res" where
  "finish_reclaim e g nd =
     (let d = rbdeps (nd_rb nd);
          g1 = g\<lparr>gr_h2d_events := [], gr_ffn_events := []\<rparr>;
          nd1 = nd\<lparr>nd_log := nd_log nd @ destroy_events e d g\<rparr>
      in rbind (rfold remove_rank (ranks_of d g) (True, nd_cache nd1))
          (\<lambda>(all_removed, c').
            if \<not> all_removed then
              Inr (Some (g1\<lparr>gr_st := SLeaked\<rparr>),
                   nd1\<lparr>nd_cache := c',
                       nd_rb := upd_stats (\<lambda>s. s\<lparr>rs_zone_remove_failures := rs_zone_remove_failures s + 1\<rparr>) (nd_rb nd1)\<rparr>)
            else
              rbind (release_ranks (tp_gpus d) (gr_start_slab g) (gr_num_slabs g) (nd_alloc nd1))
               (\<lambda>a'. Inr (None, nd1\<lparr>nd_cache := c', nd_alloc := a', nd_rb := count_reclaim g (nd_rb nd1)\<rparr>))))"

definition finish_barrier :: "tick_env \<Rightarrow> grant_rec \<Rightarrow> node \<Rightarrow> (grant_rec option \<times> node) res" where
  "finish_barrier e g nd =
     (if barriers_complete e (rbdeps (nd_rb nd)) g then finish_reclaim e g nd else Inr (Some g, nd))"

definition advance_grant :: "tick_env \<Rightarrow> grant_rec \<Rightarrow> node \<Rightarrow> (grant_rec option \<times> node) res" where
  "advance_grant e g nd =
     (case gr_st g of
        SActive \<Rightarrow> Inr (Some g, nd)
      | SLeaked \<Rightarrow> Inr (Some g, nd)
      | SBarrier \<Rightarrow> finish_barrier e g nd
      | SDraining \<Rightarrow>
          rbind (drain_residents (rbdeps (nd_rb nd)) g (nd_elm nd, nd_cache nd))
           (\<lambda>(drained, elm', c').
             let nd1 = nd\<lparr>nd_elm := elm', nd_cache := c'\<rparr> in
             if \<not> drained then Inr (Some g, nd1)
             else if moe_quiesced e \<noteq> None \<and> \<not> the (moe_quiesced e) (gr_start_slab g) then Inr (Some g, nd1)
             else
               let (g1, log1) = record_barriers e (rbdeps (nd_rb nd1)) g (nd_log nd1)
               in finish_barrier e (g1\<lparr>gr_st := SBarrier\<rparr>) (nd1\<lparr>nd_log := log1\<rparr>)))"

fun advance_list :: "tick_env \<Rightarrow> grant_rec list \<Rightarrow> node \<Rightarrow> (grant_rec list \<times> node) res" where
  "advance_list e [] nd = Inr ([], nd)"
| "advance_list e (g # gs) nd =
     rbind (advance_grant e g nd)
       (\<lambda>(kept, nd1). rbind (advance_list e gs nd1)
         (\<lambda>(gs', nd2). Inr (case kept of None \<Rightarrow> gs' | Some g' \<Rightarrow> g' # gs', nd2)))"

definition advance_reclaims :: "tick_env \<Rightarrow> node \<Rightarrow> node res" where
  "advance_reclaims e nd =
     rbind (advance_list e (rb_grants (nd_rb nd)) nd)
       (\<lambda>(gs, nd'). Inr (nd'\<lparr>nd_rb := refresh_draining_stat ((nd_rb nd')\<lparr>rb_grants := gs\<rparr>)\<rparr>))"

section \<open>Pressure\<close>

definition begin_drains :: "(int \<times> int) list \<Rightarrow> expert_cache \<Rightarrow> expert_cache res" where
  "begin_drains rs c =
     rfold (\<lambda>(gpu, zid) c. rbind (begin_drain_elastic_zone gpu zid c) (\<lambda>(_, c'). Inr c')) rs c"

text \<open>The loop over the grants from the newest to the oldest; the argument is the reversed list.\<close>

fun start_drains ::
    "rb_deps \<Rightarrow> int \<Rightarrow> grant_rec list \<Rightarrow> int \<Rightarrow> bool \<Rightarrow> expert_cache \<Rightarrow> (grant_rec list \<times> int \<times> expert_cache) res" where
  "start_drains d target [] covered force_one c = Inr ([], covered, c)"
| "start_drains d target (g # gs) covered force_one c =
     (if target \<le> covered \<and> \<not> force_one then Inr (g # gs, covered, c)
      else if gr_st g \<noteq> SActive then
        rbind (start_drains d target gs covered force_one c) (\<lambda>(gs', cov, c'). Inr (g # gs', cov, c'))
      else
        rbind (begin_drains (ranks_of d g) c)
         (\<lambda>c1. rbind (start_drains d target gs (covered + gr_num_slabs g) False c1)
           (\<lambda>(gs', cov, c'). Inr (g\<lparr>gr_st := SDraining\<rparr> # gs', cov, c'))))"

definition pressure_check :: "int \<Rightarrow> node \<Rightarrow> node res" where
  "pressure_check avail nd =
     (let rb = nd_rb nd; low = low_water_slabs rb; high = high_water_slabs rb in
      if \<not> (avail < low \<or> eager_reclaim rb) then Inr nd
      else
        let target = (if eager_reclaim rb then max high (eager_demand_free_slabs rb) else high);
            covered = avail + slabs_in_reclaim (rb_grants rb)
        in rbind (start_drains (rbdeps rb) target (rev (rb_grants rb)) covered (eager_reclaim rb) (nd_cache nd))
            (\<lambda>(gs', cov, c').
              let rb1 = rb\<lparr>rb_grants := rev gs'\<rparr>;
                  any_active = list_ex (\<lambda>g. gr_st g = SActive) (rb_grants rb1);
                  rb2 = (if \<not> any_active \<or> target \<le> cov
                         then rb1\<lparr>eager_reclaim := False, eager_demand_free_slabs := 0\<rparr> else rb1)
              in Inr (nd\<lparr>nd_cache := c', nd_rb := rb2\<rparr>)))"

section \<open>Grant\<close>

definition count_grant_refusal :: "node \<Rightarrow> node" where
  "count_grant_refusal nd =
     nd\<lparr>nd_rb := upd_stats (\<lambda>s. s\<lparr>rs_grant_refusals := rs_grant_refusals s + 1\<rparr>) (nd_rb nd)\<rparr>"

definition rollback_partial :: "int \<Rightarrow> int \<Rightarrow> int list \<Rightarrow> (int \<times> int) list \<Rightarrow> node \<Rightarrow> node res" where
  "rollback_partial start n taken zones nd =
     rbind (rfold (\<lambda>(gpu, zid) c. rbind (remove_elastic_zone gpu zid c) (\<lambda>(_, c'). Inr c')) zones (nd_cache nd))
      (\<lambda>c'. rbind (release_ranks taken start n (nd_alloc nd))
        (\<lambda>a'. Inr (nd\<lparr>nd_cache := c', nd_alloc := a'\<rparr>)))"

text \<open>
  The mirror claims on the ranks after the first: the ranks claimed so far, whether all of them succeeded, and the
  allocator.
\<close>

fun mirror_claims ::
    "int list \<Rightarrow> int \<Rightarrow> int \<Rightarrow> int \<Rightarrow> int list \<Rightarrow> allocator \<Rightarrow> (bool \<times> int list \<times> allocator) res" where
  "mirror_claims [] start n extra taken a = Inr (True, taken, a)"
| "mirror_claims (gpu # tps) start n extra taken a =
     rbind (claim_expert_zone_at gpu start n extra a)
      (\<lambda>(ok, a1). if \<not> ok then Inr (False, taken, a1)
                   else mirror_claims tps start n extra (taken @ [gpu]) a1)"

fun add_zones ::
    "zone_geometry \<Rightarrow> int \<Rightarrow> int \<Rightarrow> int \<Rightarrow> (int \<times> int) list \<Rightarrow> (int \<times> int) list \<Rightarrow> expert_cache
       \<Rightarrow> (bool \<times> (int \<times> int) list \<times> expert_cache) res" where
  "add_zones geo start bytes n [] zones c = Inr (True, zones, c)"
| "add_zones geo start bytes n ((gpu, b) # rest) zones c =
     rbind (add_elastic_zone gpu b bytes (slot_stride geo) n start c)
      (\<lambda>(zid, c1). if zid < 0 then Inr (False, zones, c1)
                    else add_zones geo start bytes n rest (zones @ [(gpu, zid)]) c1)"

definition record_grant_rec :: "int \<Rightarrow> int \<Rightarrow> int \<Rightarrow> (int \<times> int) list \<Rightarrow> rebalancer \<Rightarrow> rebalancer" where
  "record_grant_rec start slabs n zones rb =
     (upd_stats (\<lambda>s. s\<lparr>rs_grants := rs_grants s + 1,
                       rs_granted_slabs := rs_granted_slabs s + slabs,
                       rs_granted_slots := rs_granted_slots s + n\<rparr>) rb)
       \<lparr>rb_grants := rb_grants rb @
          [\<lparr>gr_start_slab = start, gr_num_slabs = slabs, gr_num_slots = n, gr_zone_ids = map snd zones,
            gr_st = SActive, gr_h2d_events = [], gr_ffn_events = []\<rparr>]\<rparr>"

text \<open>The part of a grant after rank 0 has claimed its run: the mirrors, the cache zones, the record.\<close>

definition complete_grant :: "expert_zone_run \<Rightarrow> int \<Rightarrow> int \<Rightarrow> node \<Rightarrow> node res" where
  "complete_grant lead n extra nd =
     (let d = rbdeps (nd_rb nd); geo = geometry d; start = int (ez_start_slab lead); slabs = int (ez_num_slabs lead);
          rank0 = hd (tp_gpus d)
      in rbind (mirror_claims (tl (tp_gpus d)) start slabs extra [rank0] (nd_alloc nd))
          (\<lambda>(ok, taken, a1).
            let nd1 = nd\<lparr>nd_alloc := a1\<rparr> in
            if \<not> ok then rbind (rollback_partial start slabs taken [] nd1) (\<lambda>nd2. Inr (count_grant_refusal nd2))
            else
              let bases = (rank0, ez_base lead)
                          # map (\<lambda>g. (g, kv_main_base g a1 + start * slab_bytes a1)) (tl (tp_gpus d))
              in rbind (add_zones geo start (capacity_bytes geo slabs) n bases [] (nd_cache nd1))
                  (\<lambda>(added, zones, c1).
                    let nd2 = nd1\<lparr>nd_cache := c1\<rparr> in
                    if \<not> added then
                      rbind (rollback_partial start slabs taken zones nd2) (\<lambda>nd3. Inr (count_grant_refusal nd3))
                    else Inr (nd2\<lparr>nd_rb := record_grant_rec start slabs n zones (nd_rb nd2)\<rparr>))))"

definition give_back_lead :: "expert_zone_run \<Rightarrow> node \<Rightarrow> node res" where
  "give_back_lead lead nd =
     rbind (release_expert_zone (hd (tp_gpus (rbdeps (nd_rb nd)))) (int (ez_start_slab lead)) (int (ez_num_slabs lead))
              (nd_alloc nd))
       (\<lambda>a'. Inr (count_grant_refusal (nd\<lparr>nd_alloc := a'\<rparr>)))"

text \<open>The claim on rank 0 and the check of the run it returned.\<close>

definition place_grant :: "int \<Rightarrow> int \<Rightarrow> node \<Rightarrow> node res" where
  "place_grant slabs extra nd =
     (let d = rbdeps (nd_rb nd); geo = geometry d in
      rbind (claim_expert_zone (hd (tp_gpus d)) slabs extra (nd_alloc nd))
       (\<lambda>(lead_opt, pa1).
         let nd1 = nd\<lparr>nd_alloc := pa1\<rparr> in
         case lead_opt of
           None \<Rightarrow> Inr (count_grant_refusal nd1)
         | Some lead \<Rightarrow>
             let misalign = ez_base lead mod kExpertZoneSlotAlign;
                 n = slots_in geo (int (ez_num_slabs lead)) misalign
             in if n < 1 then give_back_lead lead nd1
                else if \<not> waste_within geo (int (ez_num_slabs lead)) n then give_back_lead lead nd1
                else complete_grant lead n extra nd1))"

definition try_grant :: "int \<Rightarrow> node \<Rightarrow> node res" where
  "try_grant avail nd =
     (let rb = nd_rb nd; d = rbdeps rb; geo = geometry d; rank0 = hd (tp_gpus d); pa = nd_alloc nd;
          floor_slabs = grant_floor_slabs rb;
          budget = min (avail - floor_slabs) INT_MAX
      in if budget \<le> 0 then Inr nd
      else
        let run = min (int (largest_free_run rank0 pa)) budget in
        if run \<le> 0 then Inr nd
        else
          let ask = min (fst (best_fit geo run 1)) (max_slots_per_grant (rb_cfg rb)) in
          if ask < 1 then Inr nd
          else
            let slabs = grant_slabs geo ask run in
            if slabs < 1 then Inr (count_grant_refusal nd)
            else place_grant slabs (floor_slabs * int (pages_per_slab pa)) nd)"

section \<open>The tick\<close>

definition grant_allowed :: "int \<Rightarrow> rebalancer \<Rightarrow> bool" where
  "grant_allowed avail rb \<longleftrightarrow>
     grant_cooldown_left rb = 0 \<and> \<not> eager_reclaim rb \<and> \<not> any_reclaim_in_flight (rb_grants rb)
     \<and> high_water_slabs rb < avail"

definition tick_body :: "tick_env \<Rightarrow> node \<Rightarrow> node res" where
  "tick_body e nd =
     rbind (advance_reclaims e nd)
      (\<lambda>nd1. rbind (rb_total_slabs (rbdeps (nd_rb nd1)) (nd_alloc nd1))
       (\<lambda>tot. if tot \<le> 0 then Inr nd1
        else rbind (min_free_slabs (rbdeps (nd_rb nd1)) (nd_alloc nd1))
         (\<lambda>av. rbind (pressure_check av nd1)
           (\<lambda>nd2. rbind (if grant_allowed av (nd_rb nd2) then try_grant av nd2 else Inr nd2)
             (\<lambda>nd3. Inr (nd3\<lparr>nd_rb := refresh_draining_stat (nd_rb nd3)\<rparr>))))))"

definition tick :: "tick_env \<Rightarrow> node \<Rightarrow> node res" where
  "tick e nd =
     (let rb = nd_rb nd in
      if \<not> rc_enabled (rb_cfg rb) then Inr nd
      else if \<not> first_tick rb \<and> te_now e - last_tick rb < min_tick_interval_us (rb_cfg rb) then Inr nd
      else
        rbind (resolve_marks (nd_alloc nd) (rb\<lparr>first_tick := False, last_tick := te_now e\<rparr>))
         (\<lambda>rb1.
           if \<not> rc_enabled (rb_cfg rb1) then Inr (nd\<lparr>nd_rb := rb1\<rparr>)
           else
             let left = grant_cooldown_left rb1;
                 rb2 = rb1\<lparr>grant_cooldown_left := (if 0 < left then left - 1 else left)\<rparr>
             in tick_body e (nd\<lparr>nd_rb := rb2\<rparr>)))"

section \<open>The refusal seam\<close>

definition note_pool_pressure_refusal :: "int \<Rightarrow> node \<Rightarrow> node res" where
  "note_pool_pressure_refusal shortfall nd =
     (let rb = nd_rb nd; d = rbdeps rb in
      if length (filter (\<lambda>g. gr_st g \<noteq> SLeaked) (rb_grants rb)) = 0 then Inr nd
      else
        let rb1 = upd_stats (\<lambda>s. s\<lparr>rs_forced_immediate_reclaims := rs_forced_immediate_reclaims s + 1\<rparr>) rb in
        rbind (rb_total_slabs d (nd_alloc nd))
         (\<lambda>tot. rbind (min_free_slabs d (nd_alloc nd))
           (\<lambda>av.
             let demand = min tot (av + max 0 shortfall + upfront_margin d);
                 grew = eager_demand_free_slabs rb < demand;
                 rb2 = rb1\<lparr>eager_reclaim := True,
                           eager_demand_free_slabs := (if grew then demand else eager_demand_free_slabs rb)\<rparr>
             in Inr (nd\<lparr>nd_rb := rb2\<rparr>))))"

end
