(* ===== verification/Zone_Lending.thy ===== *)
theory Zone_Lending
  imports Zone_Traffic Memory_Safety Zone_Rebalancer
begin

text \<open>
  The rebalancer's three calls on the allocator and its two calls on the cache that move a zone, as effects on two tables:
  \<open>runs\<close>, the slab runs lent on each GPU, and \<open>zs\<close>, the elastic zones of each GPU.
\<close>

section \<open>The allocator's side\<close>

definition runs :: "allocator \<Rightarrow> int \<Rightarrow> nat \<rightharpoonup> nat" where
  "runs a gpu = (if valid_gpu a gpu then expert_zone_runs (gpus a ! nat gpu) else Map.empty)"

lemma runs_put:
  assumes "valid_gpu a gpu" shows "runs (put_gpu (nat gpu) g a) = (runs a)(gpu := expert_zone_runs g)"
proof
  fix x show "runs (put_gpu (nat gpu) g a) x = ((runs a)(gpu := expert_zone_runs g)) x"
    using assms by (auto simp: runs_def valid_gpu_def nth_list_update nat_eq_iff)
qed

lemma runs_put_same: "valid_gpu a gpu \<Longrightarrow> expert_zone_runs g = expert_zone_runs (gpus a ! nat gpu) \<Longrightarrow>
    runs (put_gpu (nat gpu) g a) = runs a"
  by (simp add: runs_put) (simp add: runs_def fun_upd_idem)

text \<open>A sound allocator of a given layout, with the geometry it was built with.\<close>

definition keeps :: "vram_layout \<Rightarrow> allocator \<Rightarrow> allocator \<Rightarrow> bool" where
  "keeps L a a' \<longleftrightarrow> alloc_reachable L a' \<and> a_geom a' = a_geom a"

lemma keeps_trans: "keeps L a b \<Longrightarrow> keeps L b c \<Longrightarrow> keeps L a c"
  by (simp add: keeps_def)

lemma keepsI:
  assumes "layout_placed L" "alloc_reachable L a" "alloc_step a a'" shows "keeps L a a'"
proof -
  have "layout_sane L" using assms(1) by (simp add: layout_placed_def)
  then have "\<not> dcp_enabled (dcp a)" using reachable_inv [OF assms(2)] by simp
  then show ?thesis using assms(2,3) alloc_step_geom reach_step by (simp add: keeps_def)
qed

lemma keeps_gpu: "keeps L a a' \<Longrightarrow> valid_gpu a' gpu = valid_gpu a gpu"
  by (auto simp: keeps_def a_geom_def a_view_def valid_gpu_def dest: map_eq_imp_length_eq)

lemma keeps_base:
  assumes "keeps L a a'" shows "kv_main_base gpu a' = kv_main_base gpu a" "slab_bytes a' = slab_bytes a" "pages_per_slab a' = pages_per_slab a"
proof -
  have v: "valid_gpu a' gpu = valid_gpu a gpu" by (rule keeps_gpu [OF assms])
  show "slab_bytes a' = slab_bytes a" "pages_per_slab a' = pages_per_slab a" using assms by (simp_all add: keeps_def a_geom_def a_view_def)
  have "base (gpus a' ! nat gpu) = base (gpus a ! nat gpu)" if "valid_gpu a gpu"
  proof -
    have "nat gpu < length (gpus a)" using that by (auto simp: valid_gpu_def)
    moreover have "a_geom a' = a_geom a" using assms by (simp add: keeps_def)
    ultimately have "Allocator_Geometry.geom (gpus a' ! nat gpu) = Allocator_Geometry.geom (gpus a ! nat gpu)" using a_geom_nth(2) by blast
    then show ?thesis by (simp add: Allocator_Geometry.geom_def)
  qed
  then show "kv_main_base gpu a' = kv_main_base gpu a" using v by (simp add: kv_main_base_def)
qed

lemma keeps_extent:
  assumes "keeps L a a'" "valid_gpu a gpu" shows "extent (gpus a' ! nat gpu) = extent (gpus a ! nat gpu)"
proof -
  have "nat gpu < length (gpus a)" using assms(2) by (auto simp: valid_gpu_def)
  moreover have "a_geom a' = a_geom a" using assms(1) by (simp add: keeps_def)
  ultimately show ?thesis by (intro extent_geom a_geom_nth(2))
qed

lemma reachable_gpu_ok:
  assumes "layout_placed L" "alloc_reachable L a" "valid_gpu a gpu"
  shows "gpu_ok (pages_per_slab a) (gpus a ! nat gpu)"
  using reachable_inv [OF assms(2)] assms(1,3) alloc_okD [of a "nat gpu"] by (auto simp: layout_placed_def valid_gpu_def)

lemma claim_lends:
  assumes L: "layout_placed L" and a: "alloc_reachable L a" and gpu: "valid_gpu a gpu"
  shows "\<exists>r a'. claim_expert_zone gpu n extra a = Inr (r, a') \<and> keeps L a a'
    \<and> (case r of None \<Rightarrow> runs a' = runs a
       | Some z \<Rightarrow> 0 < n \<and> ez_num_slabs z = nat n
           \<and> ez_base z = kv_main_base gpu a + int (ez_start_slab z) * slab_bytes a
           \<and> runs a gpu (ez_start_slab z) = None
           \<and> runs a' = (runs a)(gpu := (runs a gpu)(ez_start_slab z \<mapsto> nat n)))"
proof -
  note G = reachable_gpu_ok [OF L a gpu]
  obtain r g' where r: "gpu_claim_expert_zone (pages_per_slab a) (slab_bytes a) (nat gpu) n extra (gpus a ! nat gpu) = Inr (r, g')"
    and c: "case r of None \<Rightarrow> g' = gpus a ! nat gpu \<or> g' = count_refusal (gpus a ! nat gpu)
       | Some z \<Rightarrow> \<exists>st. z = \<lparr>ez_gpu_idx = nat gpu, ez_start_slab = st, ez_num_slabs = nat n,
                             ez_base = base (gpus a ! nat gpu) + int st * slab_bytes a\<rparr>
           \<and> zone_granted (pages_per_slab a) st (nat n) extra (gpus a ! nat gpu) g'"
    using gpu_claim_expert_zone_ok [OF G, of "slab_bytes a" "nat gpu" n extra] by (fastforce split: option.splits)
  have run: "claim_expert_zone gpu n extra a = Inr (r, put_gpu (nat gpu) g' a)"
    using gpu r by (simp add: claim_expert_zone_def on_gpu'_def)
  show ?thesis
  proof (intro exI conjI)
    show "keeps L a (put_gpu (nat gpu) g' a)" by (rule keepsI [OF L a step_zone [OF gpu run]])
    show "case r of None \<Rightarrow> runs (put_gpu (nat gpu) g' a) = runs a
       | Some z \<Rightarrow> 0 < n \<and> ez_num_slabs z = nat n
           \<and> ez_base z = kv_main_base gpu a + int (ez_start_slab z) * slab_bytes a
           \<and> runs a gpu (ez_start_slab z) = None
           \<and> runs (put_gpu (nat gpu) g' a) = (runs a)(gpu := (runs a gpu)(ez_start_slab z \<mapsto> nat n))"
      using c gpu
      by (auto simp: runs_put zone_granted_def kv_main_base_def split: option.splits)
        (simp_all add: runs_def count_refusal_def fun_upd_idem)
  qed (rule run)
qed

lemma mirror_lends:
  assumes L: "layout_placed L" and a: "alloc_reachable L a" and gpu: "valid_gpu a gpu"
  shows "\<exists>r a'. claim_expert_zone_at gpu st n extra a = Inr (r, a') \<and> keeps L a a'
    \<and> (if r then 0 \<le> st \<and> 0 < n \<and> runs a gpu (nat st) = None
              \<and> runs a' = (runs a)(gpu := (runs a gpu)(nat st \<mapsto> nat n))
       else runs a' = runs a)"
proof -
  note G = reachable_gpu_ok [OF L a gpu]
  obtain r g' where r: "gpu_claim_expert_zone_at (pages_per_slab a) st n extra (gpus a ! nat gpu) = Inr (r, g')"
    and c: "if r then 0 \<le> st \<and> zone_granted (pages_per_slab a) (nat st) (nat n) extra (gpus a ! nat gpu) g'
      else g' = gpus a ! nat gpu \<or> g' = count_refusal (gpus a ! nat gpu)"
    using gpu_claim_expert_zone_at_ok [OF G, of st n extra] by (auto split: if_splits)
  have run: "claim_expert_zone_at gpu st n extra a = Inr (r, put_gpu (nat gpu) g' a)"
    using gpu r by (simp add: claim_expert_zone_at_def on_gpu'_def)
  show ?thesis
  proof (intro exI conjI)
    show "keeps L a (put_gpu (nat gpu) g' a)" by (rule keepsI [OF L a step_zone_at [OF gpu run]])
    show "if r then 0 \<le> st \<and> 0 < n \<and> runs a gpu (nat st) = None
              \<and> runs (put_gpu (nat gpu) g' a) = (runs a)(gpu := (runs a gpu)(nat st \<mapsto> nat n))
       else runs (put_gpu (nat gpu) g' a) = runs a"
      using c gpu
      by (auto simp: runs_put zone_granted_def split: if_splits)
        (simp_all add: runs_def count_refusal_def fun_upd_idem)
  qed (rule run)
qed

lemma release_takes_back:
  assumes L: "layout_placed L" and a: "alloc_reachable L a" and gpu: "valid_gpu a gpu"
    and st: "runs a gpu (nat st) = Some (nat n)" "0 \<le> st" "0 \<le> n"
  shows "\<exists>a'. release_expert_zone gpu st n a = Inr a' \<and> keeps L a a'
    \<and> runs a' = (runs a)(gpu := (runs a gpu)(nat st := None))"
proof -
  note G = reachable_gpu_ok [OF L a gpu]
  have z: "expert_zone_runs (gpus a ! nat gpu) (nat st) = Some (nat n)" using st gpu by (simp add: runs_def)
  obtain g' where g': "gpu_release_expert_zone (pages_per_slab a) (nat st) (nat n) (gpus a ! nat gpu) = Inr g'"
    "zone_returned (pages_per_slab a) (nat st) (nat n) (gpus a ! nat gpu) g'"
    using gpu_release_expert_zone_ok [OF G z] by blast
  have run: "release_expert_zone gpu st n a = Inr (put_gpu (nat gpu) g' a)"
    using gpu g' st by (simp add: release_expert_zone_def on_gpu_def)
  have "release_expert_zone gpu (int (nat st)) (int (nat n)) a = Inr (put_gpu (nat gpu) g' a)" using run st(2,3) by simp
  from keepsI [OF L a step_zone_release [OF gpu z this]]
  have "keeps L a (put_gpu (nat gpu) g' a)" .
  moreover have "runs (put_gpu (nat gpu) g' a) = (runs a)(gpu := (runs a gpu)(nat st := None))"
    using gpu g'(2) by (simp add: runs_put zone_returned_def) (simp add: runs_def)
  ultimately show ?thesis using run by blast
qed

lemma release_ranks_back:
  assumes L: "layout_placed L" and "alloc_reachable L a" "distinct tps" "\<forall>gpu \<in> set tps. valid_gpu a gpu"
    "\<forall>gpu \<in> set tps. runs a gpu (nat st) = Some (nat n)" "0 \<le> st" "0 \<le> n"
  shows "\<exists>a'. release_ranks tps st n a = Inr a' \<and> keeps L a a'
    \<and> runs a' = (\<lambda>gpu. if gpu \<in> set tps then (runs a gpu)(nat st := None) else runs a gpu)"
  using assms(2-5)
proof (induction tps arbitrary: a)
  case Nil
  then show ?case by (simp add: release_ranks_def keeps_def)
next
  case (Cons gpu tps)
  obtain a1 where a1: "release_expert_zone gpu st n a = Inr a1" "keeps L a a1"
    "runs a1 = (runs a)(gpu := (runs a gpu)(nat st := None))"
    using release_takes_back [OF L Cons.prems(1), of gpu st n] Cons.prems assms(6,7) by auto
  have "\<exists>a'. release_ranks tps st n a1 = Inr a' \<and> keeps L a1 a'
    \<and> runs a' = (\<lambda>gpu. if gpu \<in> set tps then (runs a1 gpu)(nat st := None) else runs a1 gpu)"
    using Cons.prems keeps_gpu [OF a1(2)] a1(2,3) by (intro Cons.IH) (auto simp: keeps_def)
  then show ?case using a1 Cons.prems(2) keeps_trans [OF a1(2)]
    by (fastforce simp: release_ranks_def fun_eq_iff)
qed

section \<open>The cache's side\<close>

definition zs :: "expert_cache \<Rightarrow> int \<Rightarrow> elastic_zone_t list" where
  "zs c gpu = (if valid_cache_gpu c gpu then elastic_zones (ec_gpus c ! nat gpu) else [])"

lemma zs_put: "valid_cache_gpu c gpu \<Longrightarrow> zs (put_state gpu gs c) = (zs c)(gpu := elastic_zones gs)"
  by (auto simp: zs_def valid_cache_gpu_def put_state_def fun_eq_iff nth_list_update nat_eq_iff)

lemma zs_generation [simp]: "zs (c\<lparr>elastic_generation := n\<rparr>) = zs c"
  by (simp add: zs_def valid_cache_gpu_def fun_eq_iff)

lemma calm_zs: "calm c c' \<Longrightarrow> list_all2 calmer (zs c gpu) (zs c' gpu)"
  using calm_nth [of c c' gpu] calm_gpu [of c c' gpu] by (simp add: zs_def gpu_calm_def)

text \<open>The carved slot regions of a GPU: those that no zone operation moves.\<close>

definition carved :: "expert_cache \<Rightarrow> int \<times> (int \<Rightarrow> shape list option)" where
  "carved c = (expert_bytes c,
     \<lambda>gpu. if valid_cache_gpu c gpu then Some (fst (Expert_Cache_Machine.geom (ec_gpus c ! nat gpu))) else None)"

lemma carved_calm: "calm c c' \<Longrightarrow> carved c' = carved c"
  using calm_nth [of c c'] calm_gpu [of c c'] by (auto simp: carved_def calm_def gpu_calm_def fun_eq_iff)

lemma carved_valid: "carved c' = carved c \<Longrightarrow> valid_cache_gpu c' gpu = valid_cache_gpu c gpu"
  by (auto simp: carved_def fun_eq_iff split: if_splits)

lemma zs_inv:
  assumes "cache_inv c" shows "distinct (map z_id (zs c gpu))" "z \<in> set (zs c gpu) \<Longrightarrow> 0 \<le> z_resident_entries z"
    "z \<in> set (zs c gpu) \<Longrightarrow> 0 \<le> z_id z"
proof -
  have "zones_ok (ec_gpus c ! nat gpu)" if "valid_cache_gpu c gpu"
    using that gpu_state_ok(1) [OF assms, of gpu] by (simp add: gpu_state_Inr cache_ok_def)
  then show "distinct (map z_id (zs c gpu))" "z \<in> set (zs c gpu) \<Longrightarrow> 0 \<le> z_resident_entries z"
    "z \<in> set (zs c gpu) \<Longrightarrow> 0 \<le> z_id z"
    by (auto simp: zs_def zones_ok_def split: if_splits)
qed

text \<open>Moving a zone moves no resident.\<close>

definition same_residents :: "expert_cache \<Rightarrow> expert_cache \<Rightarrow> bool" where
  "same_residents c c' \<longleftrightarrow> (\<forall>k gpu. lookup k gpu c' = lookup k gpu c)"

lemma same_residents_refl [simp]: "same_residents c c"
  by (simp add: same_residents_def)

lemma same_residents_trans: "same_residents x y \<Longrightarrow> same_residents y z \<Longrightarrow> same_residents x z"
  by (simp add: same_residents_def)

lemma same_residents_put:
  "valid_cache_gpu c gpu \<Longrightarrow> residents gs = residents (ec_gpus c ! nat gpu) \<Longrightarrow> same_residents c (put_state gpu gs c)"
  "same_residents c (c'\<lparr>elastic_generation := n\<rparr>) = same_residents c c'"
  by (auto simp: same_residents_def lookup_def valid_cache_gpu_def put_state_def nth_list_update find_resident_def)

lemma same_residents_elm: "same_residents c c' \<Longrightarrow> elm_agrees l c' = elm_agrees l c"
proof -
  have "is_resident k gpu c \<longleftrightarrow> lookup k gpu c \<noteq> None" for k gpu c by (simp add: is_resident_def lookup_def)
  then show "same_residents c c' \<Longrightarrow> elm_agrees l c' = elm_agrees l c"
    by (simp add: same_residents_def elm_agrees_def tiers_resident_def split: option.splits)
qed

lemma remove_first_zone_filter:
  "distinct (map z_id zl) \<Longrightarrow> remove_first_zone i zl = filter (\<lambda>z. z_id z \<noteq> i) zl"
proof (induction zl)
  case (Cons z zl)
  then have "filter (\<lambda>y. z_id y \<noteq> z_id z) zl = zl" by (intro filter_True) (force simp: image_iff)
  with Cons show ?case by auto
qed simp

lemma remove_drops:
  assumes inv: "cache_inv c" and z: "z \<in> set (zs c gpu)" "z_resident_entries z = 0"
  shows "\<exists>c'. remove_elastic_zone gpu (z_id z) c = Inr (True, c') \<and> cache_inv c' \<and> carved c' = carved c
    \<and> same_residents c c' \<and> zs c' = (zs c)(gpu := filter (\<lambda>y. z_id y \<noteq> z_id z) (zs c gpu))"
proof -
  have v: "valid_cache_gpu c gpu" using z(1) by (auto simp: zs_def split: if_splits)
  let ?gs = "ec_gpus c ! nat gpu"
  have gs: "gpu_state c gpu = Inr ?gs" using v by (simp add: gpu_state_def)
  note d = zs_inv(1) [OF inv, of gpu]
  have f: "find_elastic_zone (z_id z) ?gs = Some z"
    using z(1) v d by (simp add: find_elastic_zone_def zs_def find_zone_iff)
  let ?gs' = "?gs\<lparr>elastic_zones := remove_first_zone (z_id z) (elastic_zones ?gs)\<rparr>"
  let ?c = "(put_state gpu ?gs' c)\<lparr>elastic_generation := elastic_generation c + 1\<rparr>"
  have r: "remove_elastic_zone gpu (z_id z) c = Inr (True, ?c)"
    using gs f z(2) by (simp add: remove_elastic_zone_def Let_def)
  have "carved ?c = carved c"
    using v by (auto simp: carved_def valid_cache_gpu_def put_state_def fun_eq_iff nth_list_update nat_eq_iff
        Expert_Cache_Machine.geom_def)
  moreover have "zs ?c = (zs c)(gpu := filter (\<lambda>y. z_id y \<noteq> z_id z) (zs c gpu))"
    using v d by (simp add: zs_put) (simp add: zs_def remove_first_zone_filter)
  moreover have "same_residents c ?c" using v by (simp add: same_residents_put)
  ultimately show ?thesis using r remove_inv [OF inv r] by blast
qed

lemma add_zone_appends:
  assumes r: "add_elastic_zone gpu b bytes st n ck c = Inr (i, c')"
  shows "\<exists>z. zs c' = (zs c)(gpu := zs c gpu @ [z]) \<and> z_id z = i \<and> z_base z = b \<and> z_bytes z = bytes
    \<and> z_state z = ZActive \<and> z_resident_entries z = 0 \<and> carved c' = carved c \<and> same_residents c c' \<and> valid_cache_gpu c gpu"
proof -
  obtain gs where gs: "gpu_state c gpu = Inr gs" using r by (auto simp: add_elastic_zone_def elim: rbindE)
  then have v: "valid_cache_gpu c gpu" "gs = ec_gpus c ! nat gpu" by (simp_all add: gpu_state_Inr)
  define z where "z = \<lparr>z_id = next_elastic_id gs, z_base = b, z_bytes = bytes, z_slot_stride = st, z_state = ZActive,
                      z_slots = slot_init_with_count (b + zone_pad b) st n, z_resident_entries = 0, z_cookie = ck\<rparr>"
  let ?gs = "gs\<lparr>next_elastic_id := next_elastic_id gs + 1, elastic_zones := elastic_zones gs @ [z]\<rparr>"
  have A: "i = next_elastic_id gs" "c' = (put_state gpu ?gs c)\<lparr>elastic_generation := elastic_generation c + 1\<rparr>"
    using r gs by (auto simp: add_elastic_zone_def assert_then_def Let_def z_def split: if_splits)
  have "carved c' = carved c"
    using v by (auto simp: A(2) carved_def valid_cache_gpu_def put_state_def fun_eq_iff nth_list_update nat_eq_iff
        Expert_Cache_Machine.geom_def)
  moreover have "zs c' = (zs c)(gpu := zs c gpu @ [z])"
    unfolding A(2) using v by (simp add: zs_put) (simp add: zs_def)
  moreover have "same_residents c c'" unfolding A(2) using v by (simp add: same_residents_put)
  ultimately show ?thesis using v(1) A(1) by (intro exI [of _ z]) (simp add: z_def)
qed

end
