(* ===== verification/Zone_Rebalancer_Inv.thy ===== *)
theory Zone_Rebalancer_Inv
  imports Zone_Lending
begin

text \<open>
  The invariant that ties the rebalancer's grants to the allocator's lent runs and to the cache's elastic zones: every
  grant holds the same run of slabs on every rank and one zone per rank on exactly these bytes, every lent run and every
  zone of the cache belong to a grant, and the state of a grant says how far its zones have been drained.
\<close>

section \<open>The invariant\<close>

fun phase :: "grant_st \<Rightarrow> elastic_zone_t \<Rightarrow> bool" where
  "phase SActive z \<longleftrightarrow> True"
| "phase SDraining z \<longleftrightarrow> z_state z = ZDraining"
| "phase SBarrier z \<longleftrightarrow> z_state z = ZDraining \<and> z_resident_entries z = 0"
| "phase SLeaked z \<longleftrightarrow> False"

definition at_home :: "allocator \<Rightarrow> grant_rec \<Rightarrow> int \<Rightarrow> elastic_zone_t \<Rightarrow> bool" where
  "at_home a g gpu z \<longleftrightarrow>
     z_base z = kv_main_base gpu a + gr_start_slab g * slab_bytes a \<and> z_bytes z = gr_num_slabs g * slab_bytes a"

definition lent :: "rb_deps \<Rightarrow> allocator \<Rightarrow> grant_rec \<Rightarrow> bool" where
  "lent d a g \<longleftrightarrow>
     length (gr_zone_ids g) = length (tp_gpus d) \<and> 0 \<le> gr_start_slab g \<and> 0 < gr_num_slabs g \<and> gr_st g \<noteq> SLeaked
     \<and> (\<forall>gpu \<in> set (tp_gpus d). runs a gpu (nat (gr_start_slab g)) = Some (nat (gr_num_slabs g)))"

definition zoned :: "rb_deps \<Rightarrow> allocator \<Rightarrow> expert_cache \<Rightarrow> grant_rec \<Rightarrow> bool" where
  "zoned d a c g \<longleftrightarrow>
     (\<forall>(gpu, zid) \<in> set (ranks_of d g). \<exists>z \<in> set (zs c gpu). z_id z = zid \<and> at_home a g gpu z \<and> phase (gr_st g) z)"

definition owned :: "rb_deps \<Rightarrow> grant_rec list \<Rightarrow> allocator \<Rightarrow> int \<Rightarrow> elastic_zone_t \<Rightarrow> bool" where
  "owned d gs a gpu z \<longleftrightarrow> (\<exists>g \<in> set gs. (gpu, z_id z) \<in> set (ranks_of d g) \<and> at_home a g gpu z)"

definition accounted :: "rb_deps \<Rightarrow> grant_rec list \<Rightarrow> allocator \<Rightarrow> bool" where
  "accounted d gs a \<longleftrightarrow>
     (\<forall>gpu st n. runs a gpu st = Some n \<longrightarrow> gpu \<in> set (tp_gpus d) \<and> (\<exists>g \<in> set gs. gr_start_slab g = int st))"

definition linked :: "rb_deps \<Rightarrow> grant_rec list \<Rightarrow> allocator \<Rightarrow> expert_cache \<Rightarrow> bool" where
  "linked d gs a c \<longleftrightarrow>
     (\<forall>g \<in> set gs. lent d a g \<and> zoned d a c g) \<and> distinct (map gr_start_slab gs)
     \<and> (\<forall>gpu. \<forall>z \<in> set (zs c gpu). owned d gs a gpu z) \<and> accounted d gs a"

text \<open>What the engine wires: the ranks exist on both sides, their KV regions are aligned alike and apart from the carved
  slots, and the geometry is the one of the pool and of the cache.\<close>

definition sited :: "rb_deps \<Rightarrow> allocator \<Rightarrow> expert_cache \<Rightarrow> bool" where
  "sited d a c \<longleftrightarrow>
     has_page_allocator d \<and> has_expert_cache d \<and> tp_gpus d \<noteq> [] \<and> distinct (tp_gpus d)
     \<and> geometry_valid (geometry d) \<and> expert_bytes c = expert_slot_bytes (geometry d)
     \<and> g_slab_bytes (geometry d) = slab_bytes a
     \<and> (\<exists>m. \<forall>gpu \<in> set (tp_gpus d). kv_main_base gpu a mod kExpertZoneSlotAlign = m)
     \<and> (\<forall>gpu \<in> set (tp_gpus d).
          valid_gpu a gpu \<and> 0 < kv_main_base gpu a
          \<and> (\<exists>ss. snd (carved c) gpu = Some ss
               \<and> (\<forall>s \<in> set ss. \<forall>r. span (expert_bytes c) s \<inter> extent (gpus a ! nat gpu) r = {})))"

definition core :: "vram_layout \<Rightarrow> rb_deps \<Rightarrow> grant_rec list \<Rightarrow> allocator \<Rightarrow> expert_cache \<Rightarrow> bool" where
  "core L d gs a c \<longleftrightarrow>
     layout_placed L \<and> alloc_reachable L a \<and> cache_inv c \<and> sited d a c \<and> linked d gs a c"

lemma coreD:
  assumes "core L d gs a c"
  shows "layout_placed L" "alloc_reachable L a" "cache_inv c" "sited d a c" "linked d gs a c"
  using assms by (simp_all add: core_def)

lemma sitedD:
  assumes "sited d a c"
  shows "tp_gpus d \<noteq> []" "distinct (tp_gpus d)" "geometry_valid (geometry d)" "0 < slab_bytes a"
    "expert_bytes c = expert_slot_bytes (geometry d)" "g_slab_bytes (geometry d) = slab_bytes a"
    "\<And>gpu. gpu \<in> set (tp_gpus d) \<Longrightarrow> valid_gpu a gpu" "\<And>gpu. gpu \<in> set (tp_gpus d) \<Longrightarrow> valid_cache_gpu c gpu"
    "\<And>gpu. gpu \<in> set (tp_gpus d) \<Longrightarrow> 0 < kv_main_base gpu a"
    "\<And>gpu gpu'. gpu \<in> set (tp_gpus d) \<Longrightarrow> gpu' \<in> set (tp_gpus d) \<Longrightarrow>
       kv_main_base gpu a mod kExpertZoneSlotAlign = kv_main_base gpu' a mod kExpertZoneSlotAlign"
    "has_page_allocator d" "has_expert_cache d" "hd (tp_gpus d) \<in> set (tp_gpus d)"
proof -
  have v: "valid_cache_gpu c gpu" if "snd (carved c) gpu = Some ss" for gpu ss
    using that by (simp add: carved_def split: if_splits)
  show "\<And>gpu. gpu \<in> set (tp_gpus d) \<Longrightarrow> valid_cache_gpu c gpu" using assms v unfolding sited_def by blast
  show "\<And>gpu gpu'. gpu \<in> set (tp_gpus d) \<Longrightarrow> gpu' \<in> set (tp_gpus d) \<Longrightarrow>
       kv_main_base gpu a mod kExpertZoneSlotAlign = kv_main_base gpu' a mod kExpertZoneSlotAlign"
    using assms unfolding sited_def by metis
  show "0 < slab_bytes a" using assms unfolding sited_def geometry_valid_def by linarith
  show "hd (tp_gpus d) \<in> set (tp_gpus d)" using assms unfolding sited_def by simp
qed (use assms in \<open>unfold sited_def, blast\<close>)+

lemma list_all2_left: "list_all2 P xs ys \<Longrightarrow> x \<in> set xs \<Longrightarrow> \<exists>y \<in> set ys. P x y"
  by (induction rule: list_all2_induct) auto

lemma list_all2_right: "list_all2 P xs ys \<Longrightarrow> y \<in> set ys \<Longrightarrow> \<exists>x \<in> set xs. P x y"
  by (induction rule: list_all2_induct) auto

lemma ranks_gpu: "(gpu, zid) \<in> set (ranks_of d g) \<Longrightarrow> gpu \<in> set (tp_gpus d)"
  by (auto simp: ranks_of_def dest: set_zip_leftD)

lemma ranks_unique:
  "distinct (tp_gpus d) \<Longrightarrow> (gpu, i) \<in> set (ranks_of d g) \<Longrightarrow> (gpu, j) \<in> set (ranks_of d g) \<Longrightarrow> i = j"
  by (auto simp: ranks_of_def in_set_zip distinct_conv_nth)

lemma zone_unique:
  assumes "cache_inv c" "y \<in> set (zs c gpu)" "z \<in> set (zs c gpu)" "z_id y = z_id z" shows "y = z"
  using zs_inv(1) [OF assms(1), of gpu] assms(2-4) by (auto simp: distinct_map dest: inj_onD)

section \<open>Traffic keeps it\<close>

lemma phase_calmer: "calmer z z' \<Longrightarrow> phase st z \<Longrightarrow> 0 \<le> z_resident_entries z' \<Longrightarrow> phase st z'"
  by (cases st) (auto simp: calmer_def)

lemma sited_carved: "carved c' = carved c \<Longrightarrow> sited d a c \<Longrightarrow> sited d a c'"
proof -
  assume c: "carved c' = carved c" and s: "sited d a c"
  have "expert_bytes c' = expert_bytes c" using c by (simp add: carved_def)
  with s show "sited d a c'" unfolding sited_def c by metis
qed

lemma core_calm:
  assumes core: "core L d gs a c" and inv: "cache_inv c'" and cm: "calm c c'"
  shows "core L d gs a c'"
proof -
  note D = coreD [OF core]
  note Z = calm_zs [OF cm]
  have "zoned d a c' g" if g: "g \<in> set gs" for g
    unfolding zoned_def
  proof (clarify)
    fix gpu zid assume "(gpu, zid) \<in> set (ranks_of d g)"
    then obtain z where z: "z \<in> set (zs c gpu)" "z_id z = zid" "at_home a g gpu z" "phase (gr_st g) z"
      using D(5) g by (fastforce simp: linked_def zoned_def)
    obtain z' where z': "z' \<in> set (zs c' gpu)" "calmer z z'" using list_all2_left [OF Z z(1)] by blast
    then show "\<exists>z \<in> set (zs c' gpu). z_id z = zid \<and> at_home a g gpu z \<and> phase (gr_st g) z"
      using z phase_calmer [OF z'(2) z(4)] zs_inv(2) [OF inv z'(1)] by (auto simp: calmer_def at_home_def intro!: bexI [of _ z'])
  qed
  moreover have "owned d gs a gpu z'" if z': "z' \<in> set (zs c' gpu)" for gpu z'
  proof -
    obtain z where z: "z \<in> set (zs c gpu)" "calmer z z'" using list_all2_right [OF Z z'] by blast
    then have "owned d gs a gpu z" using D(5) by (simp add: linked_def)
    with z(2) show ?thesis by (auto simp: owned_def calmer_def at_home_def)
  qed
  ultimately show ?thesis using D inv sited_carved [OF carved_calm [OF cm] D(4)] by (simp add: core_def linked_def)
qed

lemma at_home_keeps: "keeps L a a' \<Longrightarrow> at_home a' g gpu z = at_home a g gpu z"
  by (simp add: at_home_def keeps_base)

lemma sited_keeps:
  assumes "keeps L a a'" "sited d a c" shows "sited d a' c"
proof -
  have "extent (gpus a' ! nat gpu) = extent (gpus a ! nat gpu)" if "gpu \<in> set (tp_gpus d)" for gpu
    using keeps_extent [OF assms(1) sitedD(7) [OF assms(2) that]] by simp
  with assms(2) show ?thesis
    unfolding sited_def keeps_gpu [OF assms(1)] keeps_base [OF assms(1)] by (simp del: extent.simps) metis
qed

text \<open>The allocator moves, no lent run with it.\<close>

lemma core_runs_same:
  assumes core: "core L d gs a c" and k: "keeps L a a'" and r: "runs a' = runs a"
  shows "core L d gs a' c"
proof -
  note D = coreD [OF core]
  have "lent d a' g \<and> zoned d a' c g" if "g \<in> set gs" for g
    using D(5) that r by (simp add: linked_def lent_def zoned_def at_home_keeps [OF k])
  then show ?thesis using D sited_keeps [OF k D(4)] k
    by (simp add: core_def linked_def owned_def accounted_def r at_home_keeps [OF k] keeps_def)
qed

lemma starts_unique:
  assumes "linked d gs a c" "g \<in> set gs" "g' \<in> set gs" "gr_start_slab g = gr_start_slab g'" shows "g = g'"
  using assms by (auto simp: linked_def distinct_map dest: inj_onD)

section \<open>Handing a grant back\<close>

lemma remove_ranks_drop:
  assumes "cache_inv c" "distinct (map fst rs)"
    "\<forall>(gpu, zid) \<in> set rs. \<exists>z \<in> set (zs c gpu). z_id z = zid \<and> z_resident_entries z = 0"
  shows "\<exists>c'. rfold remove_rank rs (b, c) = Inr (b, c') \<and> cache_inv c' \<and> carved c' = carved c
    \<and> same_residents c c' \<and> zs c' = (\<lambda>gpu. case map_of rs gpu of None \<Rightarrow> zs c gpu | Some zid \<Rightarrow> filter (\<lambda>z. z_id z \<noteq> zid) (zs c gpu))"
  using assms
proof (induction rs arbitrary: c)
  case (Cons r rs)
  obtain gpu zid where r: "r = (gpu, zid)" by (cases r)
  obtain z where z: "z \<in> set (zs c gpu)" "z_id z = zid" "z_resident_entries z = 0" using Cons.prems(3) r by auto
  obtain c1 where c1: "remove_elastic_zone gpu zid c = Inr (True, c1)" "cache_inv c1" "carved c1 = carved c"
    "same_residents c c1" "zs c1 = (zs c)(gpu := filter (\<lambda>y. z_id y \<noteq> zid) (zs c gpu))"
    using remove_drops [OF Cons.prems(1) z(1,3)] z(2) by auto
  have fresh: "gpu \<notin> fst ` set rs" "distinct (map fst rs)" using Cons.prems(2) r by auto
  then have "\<forall>(gpu, zid) \<in> set rs. \<exists>z \<in> set (zs c1 gpu). z_id z = zid \<and> z_resident_entries z = 0"
    using Cons.prems(3) c1(5) by (fastforce simp: image_iff)
  from Cons.IH [OF c1(2) fresh(2) this] obtain c2 where c2: "rfold remove_rank rs (b, c1) = Inr (b, c2)" "cache_inv c2"
    "carved c2 = carved c1" "same_residents c1 c2"
    "zs c2 = (\<lambda>gpu. case map_of rs gpu of None \<Rightarrow> zs c1 gpu | Some zid \<Rightarrow> filter (\<lambda>z. z_id z \<noteq> zid) (zs c1 gpu))"
    by blast
  have "map_of rs gpu = None" using fresh(1) by (simp add: map_of_eq_None_iff)
  then have "zs c2 = (\<lambda>g. case map_of (r # rs) g of None \<Rightarrow> zs c g | Some zid \<Rightarrow> filter (\<lambda>z. z_id z \<noteq> zid) (zs c g))"
    using c1(5) c2(5) r by (auto simp: fun_eq_iff split: option.splits)
  moreover have "remove_rank r (b, c) = Inr (b, c1)" using c1(1) r by (simp add: remove_rank_def)
  ultimately show ?case using c1(3) c2 same_residents_trans [OF c1(4)] by (intro exI [of _ c2]) simp
qed simp

lemma ranks_map: "distinct (tp_gpus d) \<Longrightarrow> map_of (ranks_of d g) gpu = Some zid \<longleftrightarrow> (gpu, zid) \<in> set (ranks_of d g)"
  unfolding ranks_of_def by (rule map_of_eq_Some_iff) (simp add: map_fst_zip_take)

lemma core_reclaimed:
  assumes core: "core L d (xs @ g # ys) a c" and st: "gr_st g = SBarrier"
  shows "\<exists>c' a'. rfold remove_rank (ranks_of d g) (True, c) = Inr (True, c')
    \<and> release_ranks (tp_gpus d) (gr_start_slab g) (gr_num_slabs g) a = Inr a' \<and> core L d (xs @ ys) a' c' \<and> same_residents c c'
    \<and> runs a' = (\<lambda>gpu. if gpu \<in> set (tp_gpus d) then (runs a gpu)(nat (gr_start_slab g) := None) else runs a gpu)"
proof -
  note D = coreD [OF core] note S = sitedD [OF D(4)]
  have g: "lent d a g" "zoned d a c g" using D(5) by (auto simp: linked_def)
  have "distinct (map fst (ranks_of d g))" using S(2) by (simp add: ranks_of_def map_fst_zip_take)
  moreover have "\<forall>(gpu, zid) \<in> set (ranks_of d g). \<exists>z \<in> set (zs c gpu). z_id z = zid \<and> z_resident_entries z = 0"
    using g(2) st by (fastforce simp: zoned_def)
  ultimately obtain c' where c': "rfold remove_rank (ranks_of d g) (True, c) = Inr (True, c')" "cache_inv c'" "carved c' = carved c"
      "same_residents c c'"
    and zc: "zs c' = (\<lambda>gpu. case map_of (ranks_of d g) gpu of None \<Rightarrow> zs c gpu | Some zid \<Rightarrow> filter (\<lambda>z. z_id z \<noteq> zid) (zs c gpu))"
    using remove_ranks_drop [OF D(3)] by blast
  obtain a' where a': "release_ranks (tp_gpus d) (gr_start_slab g) (gr_num_slabs g) a = Inr a'" "keeps L a a'"
    and ra: "runs a' = (\<lambda>gpu. if gpu \<in> set (tp_gpus d) then (runs a gpu)(nat (gr_start_slab g) := None) else runs a gpu)"
    using release_ranks_back [OF D(1,2) S(2), of "gr_start_slab g" "gr_num_slabs g"] g(1) S(7) by (auto simp: lent_def)
  have zmem: "z \<in> set (zs c' gpu) \<longleftrightarrow> z \<in> set (zs c gpu) \<and> (gpu, z_id z) \<notin> set (ranks_of d g)" for z gpu
    using zc ranks_unique [OF S(2)] by (auto simp: ranks_map [OF S(2), symmetric] split: option.splits)
  have other: "gr_start_slab h \<noteq> gr_start_slab g" if "h \<in> set (xs @ ys)" for h
    using D(5) that by (auto simp: linked_def rev_image_eqI)
  have "lent d a' h \<and> zoned d a' c' h" if h: "h \<in> set (xs @ ys)" for h
  proof
    have lh: "lent d a h" "zoned d a c h" using D(5) h by (auto simp: linked_def)
    have "nat (gr_start_slab h) \<noteq> nat (gr_start_slab g)" using other [OF h] lh(1) g(1) by (auto simp: lent_def)
    then show "lent d a' h" using lh(1) by (simp add: lent_def ra)
    show "zoned d a' c' h"
      unfolding zoned_def at_home_keeps [OF a'(2)]
    proof (clarify)
      fix gpu zid assume r: "(gpu, zid) \<in> set (ranks_of d h)"
      then obtain z where z: "z \<in> set (zs c gpu)" "z_id z = zid" "at_home a h gpu z" "phase (gr_st h) z"
        using lh(2) by (fastforce simp: zoned_def)
      have "(gpu, z_id z) \<notin> set (ranks_of d g)"
      proof
        assume "(gpu, z_id z) \<in> set (ranks_of d g)"
        then obtain y where y: "y \<in> set (zs c gpu)" "z_id y = z_id z" "at_home a g gpu y" using g(2) by (fastforce simp: zoned_def)
        then have "y = z" using zone_unique [OF D(3)] z(1) by blast
        then have "gr_start_slab h * slab_bytes a = gr_start_slab g * slab_bytes a" using z(3) y(3) by (simp add: at_home_def)
        then show False using other [OF h] S(4) by simp
      qed
      then show "\<exists>z \<in> set (zs c' gpu). z_id z = zid \<and> at_home a h gpu z \<and> phase (gr_st h) z" using z zmem by blast
    qed
  qed
  moreover have "owned d (xs @ ys) a' gpu z" if "z \<in> set (zs c' gpu)" for gpu z
    using that D(5) zmem [of z gpu] by (fastforce simp: linked_def owned_def at_home_keeps [OF a'(2)])
  moreover have "distinct (map gr_start_slab (xs @ ys))" using D(5) by (auto simp: linked_def)
  moreover have "accounted d (xs @ ys) a'"
    unfolding accounted_def
  proof (intro allI impI)
    fix gpu st n assume st: "runs a' gpu st = Some n"
    have "runs a gpu st = Some n" using st by (auto simp: ra split: if_splits)
    then have "gpu \<in> set (tp_gpus d) \<and> (\<exists>h \<in> set (xs @ g # ys). gr_start_slab h = int st)"
      using D(5) unfolding linked_def accounted_def by blast
    moreover have "gr_start_slab g \<noteq> int st" using st calculation by (auto simp: ra)
    ultimately show "gpu \<in> set (tp_gpus d) \<and> (\<exists>h \<in> set (xs @ ys). gr_start_slab h = int st)" by auto
  qed
  ultimately have "core L d (xs @ ys) a' c'"
    using D c' a'(2) sited_carved [OF c'(3) sited_keeps [OF a'(2) D(4)]] by (simp add: core_def linked_def keeps_def)
  then show ?thesis using c'(1,4) a'(1) ra by blast
qed

end
