(* ===== verification/Zone_Reclaim_Inv.thy ===== *)
theory Zone_Reclaim_Inv
  imports Zone_Rebalancer_Inv
begin

text \<open>The reclaim side of a tick: draining, barriers, the hand-back, and the start of new drains.\<close>

section \<open>Books\<close>

definition booked :: "rebalancer \<Rightarrow> grant_rec list \<Rightarrow> bool" where
  "booked rb gs \<longleftrightarrow>
     rs_granted_slabs (rbstats rb) = sum_list (map gr_num_slabs gs)
     \<and> rs_granted_slots (rbstats rb) = sum_list (map gr_num_slots gs)
     \<and> rs_zone_remove_failures (rbstats rb) = 0"

definition sound :: "vram_layout \<Rightarrow> grant_rec list \<Rightarrow> node \<Rightarrow> bool" where
  "sound L gs nd \<longleftrightarrow> core L (rbdeps (nd_rb nd)) gs (nd_alloc nd) (nd_cache nd) \<and> booked (nd_rb nd) gs"

text \<open>What a pass over the reclaims leaves of the rebalancer's own state.\<close>

definition rb_static where
  "rb_static rb = (rbdeps rb, rb_cfg rb, marks_resolved rb, low_slabs rb, high_slabs rb, grant_cooldown_ticks rb,
     eager_reclaim rb, eager_demand_free_slabs rb, rb_grants rb)"

definition elm_ok :: "node \<Rightarrow> bool" where
  "elm_ok nd \<longleftrightarrow> elm_agrees (nd_elm nd) (nd_cache nd)"

lemma rb_static_stats [simp]: "rb_static (upd_stats f rb) = rb_static rb" "rb_static (rb\<lparr>grant_cooldown_left := n\<rparr>) = rb_static rb"
  by (simp_all add: rb_static_def upd_stats_def)

lemma rb_static_deps: "rb_static rb' = rb_static rb \<Longrightarrow> rbdeps rb' = rbdeps rb"
  by (simp add: rb_static_def)

lemma booked_reclaim:
  "booked rb (xs @ g # ys) \<Longrightarrow> booked (count_reclaim g rb) (xs @ ys)" "rb_static (count_reclaim g rb) = rb_static rb"
  by (simp_all add: booked_def count_reclaim_def) (simp add: upd_stats_def)

section \<open>Draining residents\<close>

lemma evict_total:
  assumes "cache_inv c" "valid_cache_gpu c gpu" shows "\<exists>b c'. evict k gpu c = Inr (b, c')"
proof -
  have "gpu_state c gpu = Inr (ec_gpus c ! nat gpu)" using assms(2) by (simp add: gpu_state_def)
  with assms(1) show ?thesis by (cases rule: evict_outcome [where k = k]) auto
qed

text \<open>A step of a drain: the cache stays sound and calm, the lifecycle manager keeps agreeing with it.\<close>

definition drains :: "lifecycle option \<times> expert_cache \<Rightarrow> lifecycle option \<times> expert_cache \<Rightarrow> bool" where
  "drains lc lc' \<longleftrightarrow>
     calm (snd lc) (snd lc') \<and> (cache_inv (snd lc) \<longrightarrow> cache_inv (snd lc'))
     \<and> (elm_agrees (fst lc) (snd lc) \<longrightarrow> elm_agrees (fst lc') (snd lc'))"

lemma drains_refl [simp]: "drains lc lc"
  by (simp add: drains_def)

lemma drains_trans: "drains x y \<Longrightarrow> drains y z \<Longrightarrow> drains x z"
  by (auto simp: drains_def intro: calm_trans)

lemma drain_key_ok:
  assumes "cache_inv (snd lc)" "valid_cache_gpu (snd lc) gpu"
  shows "\<exists>lc'. drain_key gpu k lc = Inr lc' \<and> drains lc lc'"
proof -
  obtain l c where lc: "lc = (l, c)" by (cases lc)
  obtain b c1 where e: "evict k gpu c = Inr (b, c1)" using evict_total [of c gpu k] assms lc by auto
  obtain ok l' c' where ev: "evict_expert k gpu (l, c) = Inr (ok, l', c')" "c' = c \<or> c' = c1"
    using engine_port.ev_total [OF e] by blast
  have "drains lc (l', c')"
    using ev engine_port.ev_agree [OF ev(1)] engine_port.ev_inv [OF _ ev(1)] evict_calm [OF e] lc by (auto simp: drains_def)
  then show ?thesis using ev(1) lc by (auto simp: drain_key_def split: option.splits)
qed

lemma drain_keys_ok:
  assumes "cache_inv (snd lc)" "valid_cache_gpu (snd lc) gpu"
  shows "\<exists>lc'. rfold (drain_key gpu) ks lc = Inr lc' \<and> drains lc lc'"
proof (rule rfold_rule [where I = "\<lambda>_. drains lc"])
  fix k ks lc1 assume d: "drains lc lc1"
  then have "cache_inv (snd lc1)" "valid_cache_gpu (snd lc1) gpu"
    using assms calm_gpu [of "snd lc" "snd lc1"] by (auto simp: drains_def)
  then show "\<exists>lc2. drain_key gpu k lc1 = Inr lc2 \<and> drains lc lc2" using drain_key_ok drains_trans [OF d] by blast
qed simp

definition emptied :: "int \<times> int \<Rightarrow> expert_cache \<Rightarrow> bool" where
  "emptied r c \<longleftrightarrow> (\<exists>z \<in> set (zs c (fst r)). z_id z = snd r \<and> z_resident_entries z = 0)"

lemma drain_rank_ok:
  assumes "cache_inv (snd lc)" "valid_cache_gpu (snd lc) (fst r)"
  shows "\<exists>b' lc'. drain_rank r (b, lc) = Inr (b', lc') \<and> drains lc lc' \<and> (b' \<longrightarrow> b \<and> emptied r (snd lc'))"
proof -
  obtain gpu zid where r: "r = (gpu, zid)" by (cases r)
  obtain ks where ks: "elastic_zone_residents gpu zid (snd lc) = Inr ks"
    using assms r by (cases "find_elastic_zone zid (ec_gpus (snd lc) ! nat gpu)")
      (auto simp: elastic_zone_residents_def gpu_state_def)
  obtain lc1 where lc1: "rfold (drain_key gpu) ks lc = Inr lc1" "drains lc lc1" using drain_keys_ok [of lc gpu ks] assms r by auto
  then have v: "valid_cache_gpu (snd lc1) gpu" "cache_inv (snd lc1)"
    using assms r calm_gpu [of "snd lc" "snd lc1"] by (auto simp: drains_def)
  let ?gs = "ec_gpus (snd lc1) ! nat gpu"
  obtain n dr where st: "elastic_drain_status gpu zid (snd lc1) = Inr (n, dr)"
    "dr \<longrightarrow> (\<exists>z. find_elastic_zone zid ?gs = Some z \<and> z_resident_entries z = 0)"
    using v(1) by (cases "find_elastic_zone zid ?gs") (auto simp: elastic_drain_status_def gpu_state_def)
  have "dr \<longrightarrow> emptied r (snd lc1)"
    using st(2) v(1) by (auto simp: emptied_def r zs_def find_elastic_zone_def find_Some_iff intro!: bexI nth_mem)
  then show ?thesis using ks lc1 st(1) r by (auto simp: drain_rank_def)
qed

lemma drain_ranks_ok:
  assumes "cache_inv (snd lc)" "\<forall>r \<in> set rs. valid_cache_gpu (snd lc) (fst r)"
  shows "\<exists>b' lc'. rfold drain_rank rs (b, lc) = Inr (b', lc') \<and> drains lc lc'
    \<and> (b' \<longrightarrow> b \<and> (\<forall>r \<in> set rs. \<exists>c1. calm (snd lc) c1 \<and> cache_inv c1 \<and> emptied r c1 \<and> calm c1 (snd lc')))"
  using assms
proof (induction rs arbitrary: b lc)
  case Nil
  then show ?case by (simp add: drains_refl)
next
  case (Cons r rs)
  obtain b1 lc1 where 1: "drain_rank r (b, lc) = Inr (b1, lc1)" "drains lc lc1" "b1 \<longrightarrow> b \<and> emptied r (snd lc1)"
    using drain_rank_ok [OF Cons.prems(1), of r b] Cons.prems(2) by auto
  have i: "cache_inv (snd lc1)" "calm (snd lc) (snd lc1)" using 1(2) Cons.prems(1) by (auto simp: drains_def)
  have "\<forall>r \<in> set rs. valid_cache_gpu (snd lc1) (fst r)" using Cons.prems(2) calm_gpu [OF i(2)] by simp
  from Cons.IH [OF i(1) this, of b1] obtain b2 lc2 where 2: "rfold drain_rank rs (b1, lc1) = Inr (b2, lc2)" "drains lc1 lc2"
    "b2 \<longrightarrow> b1 \<and> (\<forall>r \<in> set rs. \<exists>c1. calm (snd lc1) c1 \<and> cache_inv c1 \<and> emptied r c1 \<and> calm c1 (snd lc2))" by blast
  have c2: "calm (snd lc1) (snd lc2)" using 2(2) by (simp add: drains_def)
  have "\<exists>c1. calm (snd lc) c1 \<and> cache_inv c1 \<and> emptied q c1 \<and> calm c1 (snd lc2)" if "b2" "q \<in> set (r # rs)" for q
    using that 1(3) 2(3) i c2 calm_trans [OF i(2)] by (metis set_ConsD)
  then show ?case using 1 2 drains_trans [OF 1(2) 2(2)] by (auto simp del: set_simps)
qed

section \<open>Changing the state of a grant\<close>

definition same_grant :: "grant_rec \<Rightarrow> grant_rec \<Rightarrow> bool" where
  "same_grant g g' \<longleftrightarrow>
     gr_start_slab g' = gr_start_slab g \<and> gr_num_slabs g' = gr_num_slabs g \<and> gr_num_slots g' = gr_num_slots g
     \<and> gr_zone_ids g' = gr_zone_ids g"

lemma same_grant_refl [simp]: "same_grant g g"
  by (simp add: same_grant_def)

lemma at_home_same: "same_grant g g' \<Longrightarrow> at_home a g' = at_home a g"
  by (simp add: same_grant_def at_home_def fun_eq_iff)

lemma ranks_same: "same_grant g g' \<Longrightarrow> ranks_of d g' = ranks_of d g"
  by (simp add: same_grant_def ranks_of_def)

lemma booked_same: "same_grant g g' \<Longrightarrow> booked rb (xs @ g' # ys) = booked rb (xs @ g # ys)"
  by (simp add: same_grant_def booked_def)

lemma core_replace:
  assumes core: "core L d (xs @ g # ys) a c" and s: "same_grant g g'" "gr_st g' \<noteq> SLeaked" and z: "zoned d a c g'"
  shows "core L d (xs @ g' # ys) a c"
proof -
  note D = coreD [OF core]
  have "lent d a g'" using D(5) s by (simp add: linked_def lent_def same_grant_def)
  moreover have "owned d (xs @ g' # ys) a gpu z" if "z \<in> set (zs c gpu)" for gpu z
    using D(5) that by (auto simp: linked_def owned_def ranks_same [OF s(1)] at_home_same [OF s(1)])
  moreover have "distinct (map gr_start_slab (xs @ g' # ys))" using D(5) s(1) by (simp add: linked_def same_grant_def)
  moreover have "accounted d (xs @ g' # ys) a" using D(5) s(1) by (auto simp: linked_def accounted_def same_grant_def)
  ultimately show ?thesis using D z by (auto simp: core_def linked_def)
qed

lemma emptied_phase:
  assumes core: "core L d (xs @ g # ys) a c" and st: "gr_st g = SDraining" and inv: "cache_inv c'" and cm: "calm c c'"
    and e: "\<forall>r \<in> set (ranks_of d g). \<exists>c1. calm c c1 \<and> cache_inv c1 \<and> emptied r c1 \<and> calm c1 c'"
    and g': "same_grant g g'" "gr_st g' = SBarrier"
  shows "zoned d a c' g'"
  unfolding zoned_def ranks_same [OF g'(1)] at_home_same [OF g'(1)]
proof (clarify)
  fix gpu zid assume r: "(gpu, zid) \<in> set (ranks_of d g)"
  have at: "\<exists>z \<in> set (zs c1 gpu). z_id z = zid \<and> at_home a g gpu z \<and> z_state z = ZDraining" if "calm c c1" "cache_inv c1" for c1
    using coreD(5) [OF core_calm [OF core that(2,1)]] r st by (fastforce simp: linked_def zoned_def)
  obtain c1 where c1: "calm c c1" "cache_inv c1" "emptied (gpu, zid) c1" "calm c1 c'" using e r by blast
  obtain z1 where z1: "z1 \<in> set (zs c1 gpu)" "z_id z1 = zid" "z_state z1 = ZDraining" using at [OF c1(1,2)] by blast
  then have "z_resident_entries z1 = 0" using c1(3) zone_unique [OF c1(2)] by (auto simp: emptied_def)
  moreover obtain z' where z': "z' \<in> set (zs c' gpu)" "z_id z' = zid" "at_home a g gpu z'" "z_state z' = ZDraining" using at [OF cm inv] by blast
  obtain y where "y \<in> set (zs c' gpu)" "calmer z1 y" using list_all2_left [OF calm_zs [OF c1(4)] z1(1)] by blast
  moreover from this have "y = z'" using z1(2) z'(1,2) zone_unique [OF inv] by (auto simp: calmer_def)
  ultimately have "z_resident_entries z' \<le> 0" using z1(3) by (simp add: calmer_def)
  then show "\<exists>z \<in> set (zs c' gpu). z_id z = zid \<and> at_home a g gpu z \<and> phase (gr_st g') z"
    using z' zs_inv(2) [OF inv z'(1)] g'(2) by fastforce
qed

section \<open>One pass over the reclaims\<close>

text \<open>The outcome of a pass for one grant: it stays, or the hand-back is complete and its slabs are the pool's again.\<close>

definition handed_back :: "rb_deps \<Rightarrow> grant_rec \<Rightarrow> allocator \<Rightarrow> allocator \<Rightarrow> bool" where
  "handed_back d g a a' \<longleftrightarrow>
     runs a' = (\<lambda>gpu. if gpu \<in> set (tp_gpus d) then (runs a gpu)(nat (gr_start_slab g) := None) else runs a gpu)"

definition passed :: "vram_layout \<Rightarrow> grant_rec list \<Rightarrow> grant_rec list \<Rightarrow> grant_rec \<Rightarrow> grant_rec option \<Rightarrow> node \<Rightarrow> node \<Rightarrow> bool" where
  "passed L xs ys g kept nd nd' \<longleftrightarrow>
     sound L (xs @ (case kept of None \<Rightarrow> [] | Some g' \<Rightarrow> [g']) @ ys) nd'
     \<and> rb_static (nd_rb nd') = rb_static (nd_rb nd) \<and> (elm_ok nd \<longrightarrow> elm_ok nd')
     \<and> (case kept of
          None \<Rightarrow> in_reclaim g \<and> handed_back (rbdeps (nd_rb nd)) g (nd_alloc nd) (nd_alloc nd')
        | Some g' \<Rightarrow> same_grant g g' \<and> (in_reclaim g' \<longleftrightarrow> in_reclaim g) \<and> (\<not> in_reclaim g \<longrightarrow> g' = g)
                     \<and> nd_alloc nd' = nd_alloc nd \<and> nd_rb nd' = nd_rb nd)"

lemma finish_barrier_ok:
  assumes s: "sound L (xs @ g # ys) nd" and st: "gr_st g = SBarrier"
  shows "\<exists>kept nd'. finish_barrier e g nd = Inr (kept, nd') \<and> passed L xs ys g kept nd nd'"
proof (cases "barriers_complete e (rbdeps (nd_rb nd)) g")
  case False
  then show ?thesis using s by (simp add: finish_barrier_def passed_def)
next
  case True
  let ?d = "rbdeps (nd_rb nd)"
  have core: "core L ?d (xs @ g # ys) (nd_alloc nd) (nd_cache nd)" and b: "booked (nd_rb nd) (xs @ g # ys)"
    using s by (simp_all add: sound_def)
  obtain c' a' where r: "rfold remove_rank (ranks_of ?d g) (True, nd_cache nd) = Inr (True, c')"
    "release_ranks (tp_gpus ?d) (gr_start_slab g) (gr_num_slabs g) (nd_alloc nd) = Inr a'" "core L ?d (xs @ ys) a' c'" "same_residents (nd_cache nd) c'"
    "handed_back ?d g (nd_alloc nd) a'"
    using core_reclaimed [OF core st] unfolding handed_back_def by blast
  let ?nd = "nd\<lparr>nd_log := nd_log nd @ destroy_events e ?d g, nd_cache := c', nd_alloc := a', nd_rb := count_reclaim g (nd_rb nd)\<rparr>"
  have "elm_ok nd \<longrightarrow> elm_ok ?nd" using same_residents_elm [OF r(4)] by (simp add: elm_ok_def)
  moreover have "finish_reclaim e g nd = Inr (None, ?nd)" using r(1,2) by (simp add: finish_reclaim_def Let_def)
  moreover have "rbdeps (count_reclaim g (nd_rb nd)) = ?d" using rb_static_deps [OF booked_reclaim(2)] .
  ultimately show ?thesis using True r(3,5) booked_reclaim(1) [OF b] st booked_reclaim(2) [of g "nd_rb nd"]
    by (auto simp: finish_barrier_def passed_def sound_def in_reclaim_def)
qed

lemma record_barriers_same: "record_barriers e d g log = (g', log') \<Longrightarrow> same_grant g g'"
  by (auto simp: record_barriers_def same_grant_def Let_def)

lemma advance_grant_ok:
  assumes s: "sound L (xs @ g # ys) nd"
  shows "\<exists>kept nd'. advance_grant e g nd = Inr (kept, nd') \<and> passed L xs ys g kept nd nd'"
proof (cases "gr_st g")
  case SBarrier
  then show ?thesis using finish_barrier_ok [OF s] by (simp add: advance_grant_def)
next
  case SDraining
  let ?d = "rbdeps (nd_rb nd)"
  have core: "core L ?d (xs @ g # ys) (nd_alloc nd) (nd_cache nd)" and b: "booked (nd_rb nd) (xs @ g # ys)"
    using s by (simp_all add: sound_def)
  note D = coreD [OF core]
  have "\<forall>r \<in> set (ranks_of ?d g). valid_cache_gpu (nd_cache nd) (fst r)"
    using ranks_gpu sitedD(8) [OF D(4)] by (metis prod.collapse)
  then obtain dr elm' c' where dr: "drain_residents ?d g (nd_elm nd, nd_cache nd) = Inr (dr, elm', c')"
    "drains (nd_elm nd, nd_cache nd) (elm', c')"
    "dr \<longrightarrow> (\<forall>r \<in> set (ranks_of ?d g). \<exists>c1. calm (nd_cache nd) c1 \<and> cache_inv c1 \<and> emptied r c1 \<and> calm c1 c')"
    using drain_ranks_ok [of "(nd_elm nd, nd_cache nd)" "ranks_of ?d g" True] D(3) by (auto simp: drain_residents_def)
  have c': "cache_inv c'" "calm (nd_cache nd) c'" using dr(2) D(3) by (auto simp: drains_def)
  let ?nd = "nd\<lparr>nd_elm := elm', nd_cache := c'\<rparr>"
  have s1: "sound L (xs @ g # ys) ?nd" using core_calm [OF core c'] b by (simp add: sound_def)
  have elm: "elm_ok nd \<longrightarrow> elm_ok ?nd" using dr(2) by (simp add: elm_ok_def drains_def)
  show ?thesis
  proof (cases "dr \<and> \<not> (moe_quiesced e \<noteq> None \<and> \<not> the (moe_quiesced e) (gr_start_slab g))")
    case False
    then have "advance_grant e g nd = Inr (Some g, ?nd)" using SDraining dr(1) by (auto simp: advance_grant_def Let_def)
    then show ?thesis using s1 elm by (simp add: passed_def)
  next
    case True
    obtain g1 log1 where rb: "record_barriers e ?d g (nd_log nd) = (g1, log1)" by fastforce
    let ?g = "g1\<lparr>gr_st := SBarrier\<rparr>" and ?nd2 = "?nd\<lparr>nd_log := log1\<rparr>"
    have sg: "same_grant g ?g" using record_barriers_same [OF rb] by (simp add: same_grant_def)
    have "zoned ?d (nd_alloc nd) c' ?g" using True dr(3) by (intro emptied_phase [OF core SDraining c' _ sg]) auto
    then have "sound L (xs @ ?g # ys) ?nd2"
      using core_replace [OF core_calm [OF core c'] sg] b booked_same [OF sg] by (simp add: sound_def)
    from finish_barrier_ok [OF this, of e] obtain kept nd' where k: "finish_barrier e ?g ?nd2 = Inr (kept, nd')"
      "passed L xs ys ?g kept ?nd2 nd'" by auto
    then have "advance_grant e g nd = Inr (kept, nd')" using SDraining dr(1) True rb by (auto simp: advance_grant_def Let_def)
    moreover have "passed L xs ys g kept nd nd'"
      using k(2) sg elm SDraining by (auto simp: passed_def in_reclaim_def same_grant_def elm_ok_def handed_back_def split: option.splits)
    ultimately show ?thesis by blast
  qed
qed (use s in \<open>simp_all add: advance_grant_def passed_def\<close>)

lemma advance_list_ok:
  assumes "sound L (xs @ gs) nd"
  shows "\<exists>gs' nd'. advance_list e gs nd = Inr (gs', nd') \<and> sound L (xs @ gs') nd' \<and> rb_static (nd_rb nd') = rb_static (nd_rb nd)
    \<and> (elm_ok nd \<longrightarrow> elm_ok nd') \<and> filter (\<lambda>g. \<not> in_reclaim g) gs' = filter (\<lambda>g. \<not> in_reclaim g) gs"
  using assms
proof (induction gs arbitrary: xs nd)
  case (Cons g gs)
  obtain kept nd1 where 1: "advance_grant e g nd = Inr (kept, nd1)" "passed L xs gs g kept nd nd1"
    using advance_grant_ok [OF Cons.prems] by blast
  let ?k = "case kept of None \<Rightarrow> [] | Some g' \<Rightarrow> [g']"
  have "sound L ((xs @ ?k) @ gs) nd1" using 1(2) by (simp add: passed_def)
  from Cons.IH [OF this] obtain gs' nd2 where 2: "advance_list e gs nd1 = Inr (gs', nd2)" "sound L ((xs @ ?k) @ gs') nd2"
    "rb_static (nd_rb nd2) = rb_static (nd_rb nd1)" "elm_ok nd1 \<longrightarrow> elm_ok nd2"
    "filter (\<lambda>g. \<not> in_reclaim g) gs' = filter (\<lambda>g. \<not> in_reclaim g) gs" by blast
  show ?case using 1 2 by (cases kept) (auto simp: passed_def)
qed simp

lemma advance_reclaims_ok:
  assumes s: "sound L (rb_grants (nd_rb nd)) nd"
  shows "\<exists>nd'. advance_reclaims e nd = Inr nd' \<and> sound L (rb_grants (nd_rb nd')) nd' \<and> (elm_ok nd \<longrightarrow> elm_ok nd')
    \<and> rb_static ((nd_rb nd')\<lparr>rb_grants := rb_grants (nd_rb nd)\<rparr>) = rb_static (nd_rb nd)
    \<and> filter (\<lambda>g. \<not> in_reclaim g) (rb_grants (nd_rb nd')) = filter (\<lambda>g. \<not> in_reclaim g) (rb_grants (nd_rb nd))"
proof -
  obtain gs' nd1 where 1: "advance_list e (rb_grants (nd_rb nd)) nd = Inr (gs', nd1)" "sound L gs' nd1"
    "rb_static (nd_rb nd1) = rb_static (nd_rb nd)" "elm_ok nd \<longrightarrow> elm_ok nd1"
    "filter (\<lambda>g. \<not> in_reclaim g) gs' = filter (\<lambda>g. \<not> in_reclaim g) (rb_grants (nd_rb nd))"
    using advance_list_ok [of L "[]" "rb_grants (nd_rb nd)" nd e] s by auto
  then show ?thesis
    by (auto simp: advance_reclaims_def refresh_draining_stat_def upd_stats_def sound_def booked_def elm_ok_def rb_static_def)
qed

section \<open>Starting drains\<close>

lemma upd_first_zone_hit: "distinct (map z_id zl) \<Longrightarrow> (\<And>z. z_id (f z) = z_id z) \<Longrightarrow> z \<in> set (upd_first_zone i f zl) \<Longrightarrow> z_id z = i
    \<Longrightarrow> \<exists>y \<in> set zl. z = f y"
  using upd_first_zone_mem [of zl z i f] by auto

lemma begin_drain_marks:
  assumes inv: "cache_inv c" and v: "valid_cache_gpu c gpu"
  shows "\<exists>b c'. begin_drain_elastic_zone gpu i c = Inr (b, c') \<and> calm c c' \<and> cache_inv c' \<and> same_residents c c'
    \<and> (\<forall>z \<in> set (zs c' gpu). z_id z = i \<longrightarrow> z_state z = ZDraining)"
proof -
  let ?gs = "ec_gpus c ! nat gpu"
  have gs: "gpu_state c gpu = Inr ?gs" using v by (simp add: gpu_state_def)
  obtain b c' where r: "begin_drain_elastic_zone gpu i c = Inr (b, c')"
    using gs by (cases "find_elastic_zone i ?gs") (auto simp: begin_drain_elastic_zone_def Let_def)
  have "same_residents c c' \<and> (\<forall>z \<in> set (zs c' gpu). z_id z = i \<longrightarrow> z_state z = ZDraining)"
  proof (cases "find_elastic_zone i ?gs = None")
    case True
    then have "c' = c" using r gs by (simp add: begin_drain_elastic_zone_def)
    then show ?thesis using True v by (auto simp: zs_def find_elastic_zone_def find_None_iff)
  next
    case False
    let ?f = "\<lambda>z. z\<lparr>z_state := ZDraining\<rparr>"
    let ?gs' = "?gs\<lparr>elastic_zones := upd_first_zone i ?f (elastic_zones ?gs)\<rparr>"
    have c': "c' = (put_state gpu ?gs' c)\<lparr>elastic_generation := elastic_generation c + 1\<rparr>"
      using False r gs by (auto simp: begin_drain_elastic_zone_def Let_def split: if_splits)
    have d: "distinct (map z_id (elastic_zones ?gs))" using zs_inv(1) [OF inv, of gpu] v by (simp add: zs_def)
    have "z_state z = ZDraining" if "z \<in> set (zs c' gpu)" "z_id z = i" for z
      using that upd_first_zone_hit [OF d, of ?f z i] v by (auto simp: c' zs_put)
    then show ?thesis using v by (simp add: c' same_residents_put)
  qed
  then show ?thesis using r drain_calm [OF r] drain_inv [OF inv r] by blast
qed

lemma calm_draining:
  assumes "calm c c'" "\<forall>z \<in> set (zs c gpu). z_id z = i \<longrightarrow> z_state z = ZDraining"
  shows "\<forall>z \<in> set (zs c' gpu). z_id z = i \<longrightarrow> z_state z = ZDraining"
proof (intro ballI impI)
  fix z' assume z': "z' \<in> set (zs c' gpu)" "z_id z' = i"
  obtain z where "z \<in> set (zs c gpu)" "calmer z z'" using list_all2_right [OF calm_zs [OF assms(1)] z'(1)] by blast
  with assms(2) z'(2) show "z_state z' = ZDraining" by (auto simp: calmer_def)
qed

lemma begin_drains_ok:
  assumes "cache_inv c" "\<forall>r \<in> set rs. valid_cache_gpu c (fst r)"
  shows "\<exists>c'. begin_drains rs c = Inr c' \<and> calm c c' \<and> cache_inv c' \<and> same_residents c c'
    \<and> (\<forall>(gpu, i) \<in> set rs. \<forall>z \<in> set (zs c' gpu). z_id z = i \<longrightarrow> z_state z = ZDraining)"
  using assms
proof (induction rs arbitrary: c)
  case Nil
  then show ?case by (simp add: begin_drains_def)
next
  case (Cons r rs)
  obtain gpu i where r: "r = (gpu, i)" by (cases r)
  obtain b c1 where 1: "begin_drain_elastic_zone gpu i c = Inr (b, c1)" "calm c c1" "cache_inv c1" "same_residents c c1"
    "\<forall>z \<in> set (zs c1 gpu). z_id z = i \<longrightarrow> z_state z = ZDraining"
    using begin_drain_marks [OF Cons.prems(1), of gpu i] Cons.prems(2) r by auto
  obtain c2 where 2: "begin_drains rs c1 = Inr c2" "calm c1 c2" "cache_inv c2" "same_residents c1 c2"
    "\<forall>(gpu, i) \<in> set rs. \<forall>z \<in> set (zs c2 gpu). z_id z = i \<longrightarrow> z_state z = ZDraining"
    using Cons.IH [OF 1(3)] Cons.prems(2) calm_gpu [OF 1(2)] by auto
  have "\<forall>z \<in> set (zs c2 gpu). z_id z = i \<longrightarrow> z_state z = ZDraining" by (rule calm_draining [OF 2(2) 1(5)])
  then show ?case using 1 2 r calm_trans [OF 1(2) 2(2)] same_residents_trans [OF 1(4) 2(4)]
    by (auto simp: begin_drains_def)
qed

definition drain_started :: "grant_rec \<Rightarrow> grant_rec \<Rightarrow> bool" where
  "drain_started g g' \<longleftrightarrow> g' = g \<or> gr_st g = SActive \<and> g' = g\<lparr>gr_st := SDraining\<rparr>"

lemma drain_started_simps [simp]:
  "drain_started g g" "gr_st g = SActive \<Longrightarrow> drain_started g (g\<lparr>gr_st := SDraining\<rparr>)"
  by (simp_all add: drain_started_def)

lemma slabs_in_reclaim_Cons [simp]:
  "slabs_in_reclaim (g # gs) = (if in_reclaim g then gr_num_slabs g else 0) + slabs_in_reclaim gs"
  by (simp add: slabs_in_reclaim_def)

lemma core_drain_started:
  assumes core: "core L d (xs @ g # ys) a c" and st: "gr_st g = SActive"
  shows "\<exists>c'. begin_drains (ranks_of d g) c = Inr c' \<and> same_residents c c' \<and> core L d (xs @ g\<lparr>gr_st := SDraining\<rparr> # ys) a c'"
proof -
  note D = coreD [OF core]
  have "\<forall>r \<in> set (ranks_of d g). valid_cache_gpu c (fst r)" using ranks_gpu sitedD(8) [OF D(4)] by (metis prod.collapse)
  then obtain c' where c': "begin_drains (ranks_of d g) c = Inr c'" "calm c c'" "cache_inv c'" "same_residents c c'"
    "\<forall>(gpu, i) \<in> set (ranks_of d g). \<forall>z \<in> set (zs c' gpu). z_id z = i \<longrightarrow> z_state z = ZDraining"
    using begin_drains_ok [OF D(3)] by blast
  let ?g = "g\<lparr>gr_st := SDraining\<rparr>"
  note core' = core_calm [OF core c'(3,2)]
  have sg: "same_grant g ?g" by (simp add: same_grant_def)
  have "zoned d a c' g" using coreD(5) [OF core'] by (simp add: linked_def)
  then have "zoned d a c' ?g" using c'(5) by (fastforce simp: zoned_def ranks_same [OF sg] at_home_same [OF sg])
  then show ?thesis using core_replace [OF core' sg] c'(1,4) by auto
qed

lemma start_drains_ok:
  assumes "core L d (rev gs @ ys) a c"
  shows "\<exists>gs' cov c'. start_drains d target gs covered force c = Inr (gs', cov, c') \<and> core L d (rev gs' @ ys) a c'
    \<and> same_residents c c' \<and> list_all2 drain_started gs gs'
    \<and> cov = covered + slabs_in_reclaim gs' - slabs_in_reclaim gs
    \<and> ((\<exists>g \<in> set gs'. gr_st g = SActive) \<longrightarrow> target \<le> cov \<and> (force \<longrightarrow> gs' \<noteq> gs))"
  using assms
proof (induction gs arbitrary: ys covered force c)
  case Nil
  then show ?case by (simp add: slabs_in_reclaim_def)
next
  case (Cons g gs)
  have core: "core L d (rev gs @ g # ys) a c" using Cons.prems by simp
  consider (stop) "target \<le> covered" "\<not> force" | (skip) "\<not> (target \<le> covered \<and> \<not> force)" "gr_st g \<noteq> SActive"
    | (drain) "\<not> (target \<le> covered \<and> \<not> force)" "gr_st g = SActive" by blast
  then show ?case
  proof cases
    case stop
    then show ?thesis using Cons.prems by (auto simp: list.rel_refl)
  next
    case skip
    from Cons.IH [OF core, of covered force] obtain gs' cov c' where
      "start_drains d target gs covered force c = Inr (gs', cov, c')" "core L d (rev gs' @ g # ys) a c'"
      "same_residents c c'" "list_all2 drain_started gs gs'" "cov = covered + slabs_in_reclaim gs' - slabs_in_reclaim gs"
      "(\<exists>g \<in> set gs'. gr_st g = SActive) \<longrightarrow> target \<le> cov \<and> (force \<longrightarrow> gs' \<noteq> gs)" by blast
    with skip show ?thesis by (intro exI [of _ "g # gs'"] exI) auto
  next
    case drain
    let ?g = "g\<lparr>gr_st := SDraining\<rparr>"
    obtain c1 where c1: "begin_drains (ranks_of d g) c = Inr c1" "same_residents c c1" "core L d (rev gs @ ?g # ys) a c1"
      using core_drain_started [OF core drain(2)] by blast
    from Cons.IH [OF c1(3), of "covered + gr_num_slabs g" False] obtain gs' cov c' where
      2: "start_drains d target gs (covered + gr_num_slabs g) False c1 = Inr (gs', cov, c')" "core L d (rev gs' @ ?g # ys) a c'"
      "same_residents c1 c'" "list_all2 drain_started gs gs'" "cov = covered + gr_num_slabs g + slabs_in_reclaim gs' - slabs_in_reclaim gs"
      "(\<exists>g \<in> set gs'. gr_st g = SActive) \<longrightarrow> target \<le> cov" by blast
    have "?g \<noteq> g" using drain(2) by (metis grant_rec.select_convs(5) grant_rec.surjective grant_rec.update_convs(5) grant_st.distinct(1))
    with drain c1 2 same_residents_trans [OF c1(2) 2(3)] show ?thesis
      by (intro exI [of _ "?g # gs'"] exI) (auto simp: in_reclaim_def)
  qed
qed

end
