(* ===== verification/Zone_Grant_Inv.thy ===== *)
theory Zone_Grant_Inv
  imports Zone_Reclaim_Inv
begin

text \<open>The grant side of a tick: the lead claim, the mirrors, the cache zones, and the roll-back of a partial grant.\<close>

section \<open>Pressure\<close>

lemma drain_started_same: "drain_started g g' \<Longrightarrow> same_grant g g'"
  by (auto simp: drain_started_def same_grant_def)

lemma booked_drain_started: "list_all2 drain_started gs gs' \<Longrightarrow> booked rb gs' = booked rb gs"
proof (induction arbitrary: rb rule: list_all2_induct)
  case (Cons g gs g' gs')
  have "map gr_num_slabs gs' = map gr_num_slabs gs" "map gr_num_slots gs' = map gr_num_slots gs"
    using Cons(2) by (induction rule: list_all2_induct) (auto simp: drain_started_def)
  then show ?case using drain_started_same [OF Cons(1)] by (simp add: booked_def same_grant_def)
qed simp

text \<open>What the pressure check leaves of the rebalancer's own state.\<close>

definition rb_fixed where
  "rb_fixed rb = (rbdeps rb, rb_cfg rb, rbstats rb, marks_resolved rb, low_slabs rb, high_slabs rb,
     grant_cooldown_ticks rb, grant_cooldown_left rb)"

lemma pressure_check_ok:
  assumes s: "sound L (rb_grants (nd_rb nd)) nd"
  shows "\<exists>nd'. pressure_check av nd = Inr nd' \<and> sound L (rb_grants (nd_rb nd')) nd' \<and> (elm_ok nd \<longrightarrow> elm_ok nd')
    \<and> nd_alloc nd' = nd_alloc nd \<and> list_all2 drain_started (rb_grants (nd_rb nd)) (rb_grants (nd_rb nd'))
    \<and> rb_fixed (nd_rb nd') = rb_fixed (nd_rb nd)"
proof (cases "av < low_water_slabs (nd_rb nd) \<or> eager_reclaim (nd_rb nd)")
  case False
  then show ?thesis using s
    by (intro exI [of _ nd]) (auto simp: pressure_check_def Let_def list.rel_refl)
next
  case True
  let ?rb = "nd_rb nd" let ?d = "rbdeps ?rb"
  let ?target = "if eager_reclaim ?rb then max (high_water_slabs ?rb) (eager_demand_free_slabs ?rb) else high_water_slabs ?rb"
  let ?cov = "av + slabs_in_reclaim (rb_grants ?rb)"
  have core: "core L ?d (rev (rev (rb_grants ?rb)) @ []) (nd_alloc nd) (nd_cache nd)" using s by (simp add: sound_def)
  obtain gs' cov c' where r: "start_drains ?d ?target (rev (rb_grants ?rb)) ?cov (eager_reclaim ?rb) (nd_cache nd) = Inr (gs', cov, c')"
    "core L ?d (rev gs') (nd_alloc nd) c'" "same_residents (nd_cache nd) c'" "list_all2 drain_started (rev (rb_grants ?rb)) gs'"
    using start_drains_ok [OF core, of ?target ?cov "eager_reclaim ?rb"] by auto
  have l: "list_all2 drain_started (rb_grants ?rb) (rev gs')" using r(4) list_all2_rev1 by blast
  have b: "booked ?rb (rev gs')" using s booked_drain_started [OF l] by (simp add: sound_def)
  show ?thesis
    using True r(1,2) l b same_residents_elm [OF r(3)]
    by (auto simp: pressure_check_def Let_def sound_def elm_ok_def booked_def rb_fixed_def)
qed

section \<open>Bytes of a new run\<close>

lemma lent_zone:
  assumes L: "layout_placed L" and a: "alloc_reachable L a" and gpu: "valid_gpu a gpu" and st: "runs a gpu st = Some n"
  shows "{kv_main_base gpu a + int st * slab_bytes a ..< kv_main_base gpu a + int (st + n) * slab_bytes a} \<subseteq> extent (gpus a ! nat gpu) RMain"
proof -
  have gi: "nat gpu < length (gpus a)" using gpu by (auto simp: valid_gpu_def)
  have "live_obj (gpus a ! nat gpu) (ZoneObj st n)" using st gpu by (simp add: runs_def)
  from obj_in_home [OF reachable_placed(3,2) [OF L a gi] this] gpu show ?thesis by (simp add: kv_main_base_def)
qed

lemma lent_zones_apart:
  assumes L: "layout_placed L" and a: "alloc_reachable L a" and gpu: "valid_gpu a gpu"
    and st: "runs a gpu st = Some n" "runs a gpu st' = Some n'" "st \<noteq> st'"
  shows "{kv_main_base gpu a + int st * slab_bytes a ..< kv_main_base gpu a + int (st + n) * slab_bytes a}
    \<inter> {kv_main_base gpu a + int st' * slab_bytes a ..< kv_main_base gpu a + int (st' + n') * slab_bytes a} = {}"
proof -
  have gi: "nat gpu < length (gpus a)" using gpu by (auto simp: valid_gpu_def)
  have "live_obj (gpus a ! nat gpu) (ZoneObj st n)" "live_obj (gpus a ! nat gpu) (ZoneObj st' n')"
    using st gpu by (simp_all add: runs_def)
  from reachable_disjoint [OF L a gi this] st(3) gpu show ?thesis by (simp add: kv_main_base_def)
qed

text \<open>A run that a new zone may take: apart from the carved slots and from the zones of the GPU.\<close>

definition clear_of :: "expert_cache \<Rightarrow> int \<Rightarrow> int set \<Rightarrow> bool" where
  "clear_of c gpu B \<longleftrightarrow>
     (\<exists>ss. snd (carved c) gpu = Some ss \<and> (\<forall>s \<in> set ss. span (expert_bytes c) s \<inter> B = {}))
     \<and> (\<forall>z \<in> set (zs c gpu). {z_base z ..< z_base z + z_bytes z} \<inter> B = {})"

lemma clear_of_disjoint:
  assumes "clear_of c gpu {b ..< b + bytes}" shows "grant_disjoint gpu b bytes c"
proof -
  have "valid_cache_gpu c gpu" using assms by (auto simp: clear_of_def carved_def split: if_splits)
  then show ?thesis using assms
    by (auto simp: grant_disjoint_def clear_of_def carved_def regions_def zs_def Expert_Cache_Machine.geom_def zone_shape_def)
qed

lemma clear_of_grant:
  assumes core: "core L d gs a c" and gpu: "gpu \<in> set (tp_gpus d)" and k: "keeps L a a'"
    and old: "\<And>g. g \<in> set gs \<Longrightarrow> runs a' gpu (nat (gr_start_slab g)) = runs a gpu (nat (gr_start_slab g))"
    and new: "runs a gpu st = None" "runs a' gpu st = Some n"
  shows "clear_of c gpu {kv_main_base gpu a + int st * slab_bytes a ..< kv_main_base gpu a + int (st + n) * slab_bytes a}"
proof -
  note D = coreD [OF core] note S = sitedD [OF D(4)]
  let ?B = "{kv_main_base gpu a + int st * slab_bytes a ..< kv_main_base gpu a + int (st + n) * slab_bytes a}"
  have a': "alloc_reachable L a'" "valid_gpu a' gpu" using k keeps_gpu [OF k] S(7) [OF gpu] by (simp_all add: keeps_def)
  note B = keeps_base(1) [OF k, of gpu] keeps_base(2,3) [OF k]
  have "?B \<subseteq> extent (gpus a ! nat gpu) RMain"
    using lent_zone [OF D(1) a' new(2)] keeps_extent [OF k S(7) [OF gpu]] B by simp
  moreover obtain ss where ss: "snd (carved c) gpu = Some ss"
    "\<forall>s \<in> set ss. span (expert_bytes c) s \<inter> extent (gpus a ! nat gpu) RMain = {}"
    using D(4) gpu unfolding sited_def by blast
  ultimately have "\<forall>s \<in> set ss. span (expert_bytes c) s \<inter> ?B = {}" by blast
  moreover have "{z_base z ..< z_base z + z_bytes z} \<inter> ?B = {}" if z: "z \<in> set (zs c gpu)" for z
  proof -
    obtain g where g: "g \<in> set gs" "at_home a g gpu z" using D(5) z unfolding linked_def owned_def by blast
    then have lg: "lent d a g" using D(5) by (simp add: linked_def)
    let ?s = "nat (gr_start_slab g)" and ?n = "nat (gr_num_slabs g)"
    have r: "runs a gpu ?s = Some ?n" "0 \<le> gr_start_slab g" "0 < gr_num_slabs g" using lg gpu by (auto simp: lent_def)
    then have "?s \<noteq> st" using new(1) by auto
    from lent_zones_apart [OF D(1) a' _ new(2) this, of ?n] r old [OF g(1)] B
    have "{kv_main_base gpu a + int ?s * slab_bytes a ..< kv_main_base gpu a + int (?s + ?n) * slab_bytes a} \<inter> ?B = {}" by simp
    moreover have "z_base z = kv_main_base gpu a + int ?s * slab_bytes a"
      "z_base z + z_bytes z = kv_main_base gpu a + int (?s + ?n) * slab_bytes a"
      using g(2) r(2,3) by (simp_all add: at_home_def distrib_right)
    ultimately show ?thesis by simp
  qed
  ultimately show ?thesis using ss(1) by (auto simp: clear_of_def)
qed

section \<open>The zones of a grant\<close>

definition fits :: "zone_geometry \<Rightarrow> int \<Rightarrow> int \<Rightarrow> expert_cache \<Rightarrow> int \<times> int \<Rightarrow> bool" where
  "fits geo n bytes c gb \<longleftrightarrow>
     (case gb of (gpu, b) \<Rightarrow>
        b \<noteq> 0 \<and> 0 < n \<and> 0 < slot_stride geo \<and> expert_bytes c \<le> slot_stride geo
        \<and> zone_pad b + (n - 1) * slot_stride geo + expert_bytes c \<le> bytes \<and> clear_of c gpu {b ..< b + bytes})"

lemma fits_cong:
  "carved c' = carved c \<Longrightarrow> zs c' (fst gb) = zs c (fst gb) \<Longrightarrow> fits geo n bytes c' gb = fits geo n bytes c gb"
proof -
  assume c: "carved c' = carved c" and z: "zs c' (fst gb) = zs c (fst gb)"
  have "expert_bytes c' = expert_bytes c" using c by (simp add: carved_def)
  then show ?thesis using z by (cases gb) (simp add: fits_def clear_of_def c)
qed

lemma add_zone_fits:
  assumes inv: "cache_inv c" and f: "fits geo n bytes c (gpu, b)"
  shows "\<exists>zid c'. add_elastic_zone gpu b bytes (slot_stride geo) n ck c = Inr (zid, c') \<and> 0 \<le> zid \<and> cache_inv c'"
proof -
  have v: "valid_cache_gpu c gpu" using f by (auto simp: fits_def clear_of_def carved_def split: if_splits)
  let ?gs = "ec_gpus c ! nat gpu"
  have gs: "gpu_state c gpu = Inr ?gs" using v by (simp add: gpu_state_def)
  have "0 \<le> next_elastic_id ?gs" using gpu_state_ok(1) [OF inv gs] by (simp add: cache_ok_def zones_ok_def)
  moreover obtain c' where r: "add_elastic_zone gpu b bytes (slot_stride geo) n ck c = Inr (next_elastic_id ?gs, c')"
    using gs f by (auto simp: add_elastic_zone_def fits_def Let_def)
  moreover have "cache_inv c'" using f clear_of_disjoint by (intro add_zone_inv [OF inv r]) (auto simp: fits_def)
  ultimately show ?thesis by blast
qed

lemma add_zones_ok:
  assumes "cache_inv c" "distinct (map fst bases)" "\<forall>gb \<in> set bases. fits geo n bytes c gb"
  shows "\<exists>zones c'. add_zones geo start bytes n bases acc c = Inr (True, acc @ zones, c') \<and> map fst zones = map fst bases
    \<and> cache_inv c' \<and> carved c' = carved c \<and> same_residents c c'
    \<and> (\<forall>gpu. gpu \<notin> fst ` set bases \<longrightarrow> zs c' gpu = zs c gpu)
    \<and> (\<forall>(gpu, b) \<in> set bases. \<exists>z. zs c' gpu = zs c gpu @ [z] \<and> (gpu, z_id z) \<in> set zones \<and> z_base z = b \<and> z_bytes z = bytes)"
  using assms
proof (induction bases arbitrary: acc c)
  case (Cons gb bases)
  obtain gpu b where gb: "gb = (gpu, b)" by (cases gb)
  obtain zid c1 where 1: "add_elastic_zone gpu b bytes (slot_stride geo) n start c = Inr (zid, c1)" "0 \<le> zid" "cache_inv c1"
    using add_zone_fits [OF Cons.prems(1), of geo n bytes gpu b start] Cons.prems(3) gb by auto
  obtain z where z: "zs c1 = (zs c)(gpu := zs c gpu @ [z])" "z_id z = zid" "z_base z = b" "z_bytes z = bytes"
    "carved c1 = carved c" "same_residents c c1"
    using add_zone_appends [OF 1(1)] by blast
  have fresh: "gpu \<notin> fst ` set bases" "distinct (map fst bases)" using Cons.prems(2) gb by auto
  have "fits geo n bytes c1 x" if "x \<in> set bases" for x
    using that Cons.prems(3) fresh(1) z(1) fits_cong [OF z(5), of x] by (auto simp: image_iff)
  then obtain zones c2 where 2: "add_zones geo start bytes n bases (acc @ [(gpu, zid)]) c1 = Inr (True, (acc @ [(gpu, zid)]) @ zones, c2)"
    "map fst zones = map fst bases" "cache_inv c2" "carved c2 = carved c1" "same_residents c1 c2"
    "\<forall>gpu. gpu \<notin> fst ` set bases \<longrightarrow> zs c2 gpu = zs c1 gpu"
    "\<forall>(gpu, b) \<in> set bases. \<exists>z. zs c2 gpu = zs c1 gpu @ [z] \<and> (gpu, z_id z) \<in> set zones \<and> z_base z = b \<and> z_bytes z = bytes"
    using Cons.IH [OF 1(3) fresh(2), of "acc @ [(gpu, zid)]"] by blast
  have "zs c2 gpu = zs c gpu @ [z]" using 2(6) fresh(1) z(1) by simp
  moreover have "zs c1 g = zs c g" if "(g, x) \<in> set bases" for g x using that fresh(1) z(1) by (auto simp: image_iff)
  ultimately show ?case using 1 2 z gb same_residents_trans [OF z(6) 2(5)]
    by (intro exI [of _ "(gpu, zid) # zones"] exI [of _ c2]) (fastforce simp: image_iff)
qed simp

section \<open>Mirrors\<close>

definition lends :: "int set \<Rightarrow> nat \<Rightarrow> nat \<Rightarrow> (int \<Rightarrow> nat \<rightharpoonup> nat) \<Rightarrow> int \<Rightarrow> nat \<rightharpoonup> nat" where
  "lends S st n R = (\<lambda>gpu. if gpu \<in> S then (R gpu)(st \<mapsto> n) else R gpu)"

lemma mirror_claims_ok:
  assumes L: "layout_placed L" and "alloc_reachable L a" "distinct (taken @ tps)" "\<forall>gpu \<in> set (taken @ tps). valid_gpu a gpu"
    "runs a = lends (set taken) st n R" "\<forall>gpu \<in> set taken. R gpu st = None"
  shows "\<exists>ok taken' a'. mirror_claims tps (int st) (int n) extra taken a = Inr (ok, taken', a') \<and> keeps L a a'
    \<and> runs a' = lends (set taken') st n R \<and> (\<forall>gpu \<in> set taken'. R gpu st = None) \<and> distinct taken'
    \<and> set taken' \<subseteq> set (taken @ tps) \<and> (ok \<longrightarrow> taken' = taken @ tps)"
  using assms(2-6)
proof (induction tps arbitrary: taken a)
  case Nil
  then show ?case by (intro exI [of _ True]) (simp add: keeps_def)
next
  case (Cons gpu tps)
  have v: "valid_gpu a gpu" using Cons.prems(3) by simp
  obtain r a1 where 1: "claim_expert_zone_at gpu (int st) (int n) extra a = Inr (r, a1)" "keeps L a a1"
    "if r then runs a gpu st = None \<and> runs a1 = (runs a)(gpu := (runs a gpu)(st \<mapsto> n)) else runs a1 = runs a"
    using mirror_lends [OF L Cons.prems(1) v, of "int st" "int n" extra] unfolding nat_int by metis
  show ?case
  proof (cases r)
    case False
    then show ?thesis using 1 Cons.prems by (intro exI [of _ False] exI [of _ taken] exI [of _ a1]) auto
  next
    case True
    have nt: "gpu \<notin> set taken" using Cons.prems(2) by auto
    have "runs a1 = lends (set (taken @ [gpu])) st n R" "R gpu st = None"
      using True 1(3) Cons.prems(4) nt by (auto simp: lends_def fun_eq_iff)
    then have "\<exists>ok taken' a'. mirror_claims tps (int st) (int n) extra (taken @ [gpu]) a1 = Inr (ok, taken', a') \<and> keeps L a1 a'
      \<and> runs a' = lends (set taken') st n R \<and> (\<forall>gpu \<in> set taken'. R gpu st = None) \<and> distinct taken'
      \<and> set taken' \<subseteq> set ((taken @ [gpu]) @ tps) \<and> (ok \<longrightarrow> taken' = (taken @ [gpu]) @ tps)"
      using Cons.prems 1(2) keeps_gpu [OF 1(2)] by (intro Cons.IH) (auto simp: keeps_def)
    then show ?thesis using True 1(1) keeps_trans [OF 1(2)] by fastforce
  qed
qed

lemma unlend:
  "\<forall>gpu \<in> S. R gpu st = None \<Longrightarrow> (\<lambda>gpu. if gpu \<in> S then (lends S st n R gpu)(st := None) else lends S st n R gpu) = R"
  by (auto simp: lends_def fun_eq_iff)

lemma rollback_ok:
  assumes L: "layout_placed L" and a: "alloc_reachable L (nd_alloc nd)" and t: "distinct taken" "\<forall>gpu \<in> set taken. valid_gpu (nd_alloc nd) gpu"
    and r: "runs (nd_alloc nd) = lends (set taken) st n R" "\<forall>gpu \<in> set taken. R gpu st = None"
  shows "\<exists>a'. rollback_partial (int st) (int n) taken [] nd = Inr (nd\<lparr>nd_alloc := a'\<rparr>) \<and> keeps L (nd_alloc nd) a' \<and> runs a' = R"
proof -
  have "\<forall>gpu \<in> set taken. runs (nd_alloc nd) gpu (nat (int st)) = Some (nat (int n))" using r(1) by (simp add: lends_def)
  from release_ranks_back [OF L a t this] obtain a' where a': "release_ranks taken (int st) (int n) (nd_alloc nd) = Inr a'"
    "keeps L (nd_alloc nd) a'" "runs a' = R"
    using unlend [where S = "set taken" and R = R and st = st and n = n] r(2)
    unfolding nat_int r(1) int_nat_eq by auto
  then show ?thesis by (intro exI [of _ a']) (simp add: rollback_partial_def)
qed

section \<open>A complete grant\<close>

definition new_grant :: "int \<Rightarrow> int \<Rightarrow> int \<Rightarrow> (int \<times> int) list \<Rightarrow> grant_rec" where
  "new_grant start slabs n zones =
     \<lparr>gr_start_slab = start, gr_num_slabs = slabs, gr_num_slots = n, gr_zone_ids = map snd zones,
      gr_st = SActive, gr_h2d_events = [], gr_ffn_events = []\<rparr>"

lemma new_grant_simps [simp]:
  "gr_start_slab (new_grant st m n zones) = st" "gr_num_slabs (new_grant st m n zones) = m"
  "gr_num_slots (new_grant st m n zones) = n" "gr_zone_ids (new_grant st m n zones) = map snd zones"
  "gr_st (new_grant st m n zones) = SActive"
  by (simp_all add: new_grant_def)

lemma new_grant_ranks: "map fst zones = tp_gpus d \<Longrightarrow> ranks_of d (new_grant st m n zones) = zones"
  by (metis new_grant_simps(4) ranks_of_def zip_map_fst_snd)

lemma core_granted:
  assumes core: "core L d gs a c" and k: "keeps L a a'" and n: "0 < n"
    and r: "runs a' = lends (set (tp_gpus d)) st n (runs a)" "\<forall>gpu \<in> set (tp_gpus d). runs a gpu st = None"
    and c': "cache_inv c'" "carved c' = carved c" and zones: "map fst zones = tp_gpus d"
    and zo: "\<forall>gpu. gpu \<notin> set (tp_gpus d) \<longrightarrow> zs c' gpu = zs c gpu"
    and zn: "\<forall>gpu \<in> set (tp_gpus d). \<exists>z. zs c' gpu = zs c gpu @ [z] \<and> (gpu, z_id z) \<in> set zones
      \<and> z_base z = kv_main_base gpu a + int st * slab_bytes a \<and> z_bytes z = int n * slab_bytes a"
  shows "core L d (gs @ [new_grant (int st) (int n) slots zones]) a' c'"
proof -
  note D = coreD [OF core] note S = sitedD [OF D(4)]
  let ?g = "new_grant (int st) (int n) slots zones"
  note R = new_grant_ranks [OF zones, of "int st" "int n" slots]
  have old: "nat (gr_start_slab g) \<noteq> st" if "g \<in> set gs" for g
    using D(5) that r(2) S(13) by (fastforce simp: linked_def lent_def)
  have "lent d a' g \<and> zoned d a' c' g" if g: "g \<in> set gs" for g
  proof
    have lg: "lent d a g" "zoned d a c g" using D(5) g by (auto simp: linked_def)
    show "lent d a' g" using lg(1) old [OF g] by (simp add: lent_def r(1) lends_def)
    have sub: "set (zs c gpu) \<subseteq> set (zs c' gpu)" for gpu
    proof (cases "gpu \<in> set (tp_gpus d)")
      case True
      then obtain z where "zs c' gpu = zs c gpu @ [z]" using zn by blast
      then show ?thesis by auto
    qed (simp add: zo)
    have "\<exists>z \<in> set (zs c' gpu). z_id z = zid \<and> at_home a g gpu z \<and> phase (gr_st g) z" if "(gpu, zid) \<in> set (ranks_of d g)" for gpu zid
      using bspec [OF lg(2) [unfolded zoned_def] that] sub [of gpu] by auto
    then show "zoned d a' c' g" by (auto simp: zoned_def at_home_keeps [OF k])
  qed
  moreover have "lent d a' ?g" using n r(1) arg_cong [OF zones, of length]
    by (simp add: lent_def lends_def)
  moreover have at: "at_home a' ?g gpu z" if "z_base z = kv_main_base gpu a + int st * slab_bytes a" "z_bytes z = int n * slab_bytes a" for gpu z
    using that by (simp add: at_home_def keeps_base [OF k])
  moreover have uniq: "i = j" if "(gpu, i) \<in> set zones" "(gpu, j) \<in> set zones" for gpu i j
    using ranks_unique [OF S(2), of gpu i ?g j] that R by simp
  have "zoned d a' c' ?g"
    unfolding zoned_def R
  proof (clarify)
    fix gpu zid assume z: "(gpu, zid) \<in> set zones"
    then have "gpu \<in> set (tp_gpus d)" using ranks_gpu [of gpu zid d ?g] R by simp
    with zn obtain y where "zs c' gpu = zs c gpu @ [y]" "(gpu, z_id y) \<in> set zones"
      "z_base y = kv_main_base gpu a + int st * slab_bytes a" "z_bytes y = int n * slab_bytes a" by blast
    then show "\<exists>z \<in> set (zs c' gpu). z_id z = zid \<and> at_home a' ?g gpu z \<and> phase (gr_st ?g) z"
      using uniq [OF z] at by (intro bexI [of _ y]) auto
  qed
  moreover have "owned d (gs @ [?g]) a' gpu z" if z: "z \<in> set (zs c' gpu)" for gpu z
  proof (cases "z \<in> set (zs c gpu)")
    case True
    then have "owned d gs a gpu z" using D(5) by (simp add: linked_def)
    then show ?thesis by (auto simp: owned_def at_home_keeps [OF k])
  next
    case False
    then have "gpu \<in> set (tp_gpus d)" using z zo by metis
    with zn obtain y where "zs c' gpu = zs c gpu @ [y]" "(gpu, z_id y) \<in> set zones"
      "z_base y = kv_main_base gpu a + int st * slab_bytes a" "z_bytes y = int n * slab_bytes a" by blast
    then show ?thesis using z False at R by (auto simp: owned_def)
  qed
  moreover have "int st \<notin> gr_start_slab ` set gs" using old by force
  then have "distinct (map gr_start_slab (gs @ [?g]))" using D(5) by (simp add: linked_def)
  moreover have "accounted d gs a" using D(5) by (simp add: linked_def)
  then have "accounted d (gs @ [?g]) a'"
    unfolding accounted_def r(1) lends_def by (auto split: if_splits) (metis option.exhaust)
  ultimately have "linked d (gs @ [?g]) a' c'" unfolding linked_def by auto
  then show ?thesis using D(1) c'(1) k sited_carved [OF c'(2) sited_keeps [OF k D(4)]] by (simp add: core_def keeps_def)
qed

text \<open>The two outcomes of a grant attempt.\<close>

definition grant_refused :: "vram_layout \<Rightarrow> node \<Rightarrow> node \<Rightarrow> bool" where
  "grant_refused L nd nd' \<longleftrightarrow>
     (\<exists>a'. keeps L (nd_alloc nd) a' \<and> runs a' = runs (nd_alloc nd) \<and> nd' = count_grant_refusal (nd\<lparr>nd_alloc := a'\<rparr>))"

definition granted :: "vram_layout \<Rightarrow> int \<Rightarrow> int \<Rightarrow> node \<Rightarrow> node \<Rightarrow> bool" where
  "granted L slabs extra nd nd' \<longleftrightarrow>
     (\<exists>st slots zones a' c'.
        nd' = nd\<lparr>nd_alloc := a', nd_cache := c', nd_rb := record_grant_rec (int st) slabs slots zones (nd_rb nd)\<rparr>
        \<and> 0 < slabs \<and> 0 < slots \<and> keeps L (nd_alloc nd) a' \<and> same_residents (nd_cache nd) c'
        \<and> runs a' = lends (set (tp_gpus (rbdeps (nd_rb nd)))) st (nat slabs) (runs (nd_alloc nd))
        \<and> (\<forall>gpu \<in> set (tp_gpus (rbdeps (nd_rb nd))). runs (nd_alloc nd) gpu st = None))
     \<and> sound L (rb_grants (nd_rb nd')) nd'"

lemma grant_refused_sound:
  "grant_refused L nd nd' \<Longrightarrow> sound L (rb_grants (nd_rb nd)) nd \<Longrightarrow> sound L (rb_grants (nd_rb nd')) nd'"
  by (auto simp: grant_refused_def sound_def count_grant_refusal_def upd_stats_def booked_def intro: core_runs_same)

lemma zone_pad_base: "zone_pad b = base_pad (b mod kExpertZoneSlotAlign)"
  by (simp add: zone_pad_def base_pad_def Let_def)

lemma complete_grant_ok:
  assumes s: "sound L (rb_grants (nd_rb nd)) nd" and d: "d = rbdeps (nd_rb nd)" and a: "a = nd_alloc nd"
    and k: "keeps L a a1" and r: "runs a1 = lends {hd (tp_gpus d)} st n (runs a)" "runs a (hd (tp_gpus d)) st = None"
    and lead: "ez_start_slab lead = st" "ez_num_slabs lead = n"
      "ez_base lead = kv_main_base (hd (tp_gpus d)) a + int st * slab_bytes a" "0 < n"
    and slots: "slots = slots_in (geometry d) (int n) (ez_base lead mod kExpertZoneSlotAlign)" "1 \<le> slots"
  shows "\<exists>nd'. complete_grant lead slots extra (nd\<lparr>nd_alloc := a1\<rparr>) = Inr nd' \<and> (grant_refused L nd nd' \<or> granted L (int n) extra nd nd')"
proof -
  let ?tps = "tp_gpus d" and ?geo = "geometry d"
  have core: "core L d (rb_grants (nd_rb nd)) a (nd_cache nd)" and bk: "booked (nd_rb nd) (rb_grants (nd_rb nd))"
    using s d a by (simp_all add: sound_def)
  note D = coreD [OF core] note S = sitedD [OF D(4)]
  obtain t0 ts where tps: "?tps = t0 # ts" using S(1) by (cases ?tps) auto
  have "alloc_reachable L a1" "\<forall>gpu \<in> set ([t0] @ ts). valid_gpu a1 gpu"
    using k keeps_gpu [OF k] S(7) tps by (auto simp: keeps_def)
  then obtain ok taken a2 where m: "mirror_claims ts (int st) (int n) extra [t0] a1 = Inr (ok, taken, a2)" "keeps L a1 a2"
    "runs a2 = lends (set taken) st n (runs a)" "\<forall>gpu \<in> set taken. runs a gpu st = None" "distinct taken"
    "set taken \<subseteq> set ?tps" "ok \<longrightarrow> taken = ?tps"
    using mirror_claims_ok [OF D(1), of a1 "[t0]" ts st n "runs a" extra] S(2) r tps by auto
  note k2 = keeps_trans [OF k m(2)]
  show ?thesis
  proof (cases ok)
    case False
    let ?nd = "nd\<lparr>nd_alloc := a2\<rparr>"
    have "\<forall>gpu \<in> set taken. valid_gpu (nd_alloc ?nd) gpu" using keeps_gpu [OF k2] S(7) m(6) by auto
    then obtain a3 where "rollback_partial (int st) (int n) taken [] ?nd = Inr (?nd\<lparr>nd_alloc := a3\<rparr>)" "keeps L a2 a3" "runs a3 = runs a"
      using rollback_ok [OF D(1), of ?nd taken st n "runs a"] k2 m(3-5) by (auto simp: keeps_def)
    then have "complete_grant lead slots extra (nd\<lparr>nd_alloc := a1\<rparr>) = Inr (count_grant_refusal (nd\<lparr>nd_alloc := a3\<rparr>))"
      "keeps L a a3" "runs a3 = runs a"
      using False m(1) lead d tps keeps_trans [OF k2] by (simp_all add: complete_grant_def)
    then show ?thesis using a by (auto simp: grant_refused_def)
  next
    case True
    let ?B = "\<lambda>g. kv_main_base g a + int st * slab_bytes a"
    let ?bases = "map (\<lambda>g. (g, ?B g)) ?tps"
    have bases: "(t0, ez_base lead) # map (\<lambda>g. (g, kv_main_base g a2 + int st * slab_bytes a2)) ts = ?bases"
      using tps lead(3) keeps_base(1,2) [OF k2] by simp
    have ra: "runs a2 = lends (set ?tps) st n (runs a)" "\<forall>gpu \<in> set ?tps. runs a gpu st = None" using m True by auto
    have cap: "capacity_bytes ?geo (int n) = int n * slab_bytes a" using S(6) by (simp add: capacity_bytes_def)
    have fit: "fits ?geo slots (capacity_bytes ?geo (int n)) (nd_cache nd) (gpu, ?B gpu)" if g: "gpu \<in> set ?tps" for gpu
    proof -
      have al: "?B gpu mod kExpertZoneSlotAlign = ez_base lead mod kExpertZoneSlotAlign"
        using S(10) [OF g S(13)] unfolding lead(3) by (metis mod_add_left_eq)
      have st: "expert_slot_bytes ?geo \<le> slot_stride ?geo" "0 < expert_slot_bytes ?geo"
        using S(3) slot_stride_bounds(1) [of ?geo] by (auto simp: geometry_valid_def)
      have "base_pad (ez_base lead mod kExpertZoneSlotAlign) + (slots - 1) * slot_stride ?geo + expert_slot_bytes ?geo \<le> capacity_bytes ?geo (int n)"
        using slots_in_ge [OF S(3) slots(2), of "int n" "ez_base lead mod kExpertZoneSlotAlign"] unfolding slots(1) [symmetric] by simp
      then have pad: "zone_pad (?B gpu) + (slots - 1) * slot_stride ?geo + expert_slot_bytes ?geo \<le> capacity_bytes ?geo (int n)"
        by (simp add: zone_pad_base al)
      have old: "runs a2 gpu (nat (gr_start_slab h)) = runs a gpu (nat (gr_start_slab h))" if "h \<in> set (rb_grants (nd_rb nd))" for h
        using D(5) that ra g by (auto simp: linked_def lent_def lends_def)
      have "clear_of (nd_cache nd) gpu {?B gpu ..< kv_main_base gpu a + int (st + n) * slab_bytes a}"
        using ra g by (intro clear_of_grant [OF core g k2 old]) (auto simp: lends_def)
      then have "clear_of (nd_cache nd) gpu {?B gpu ..< ?B gpu + capacity_bytes ?geo (int n)}"
        by (simp add: cap distrib_right add.assoc)
      moreover have "0 < ?B gpu" using S(9) [OF g] S(4) by (simp add: add_pos_nonneg)
      ultimately show ?thesis using pad st slots(2) S(5) by (auto simp: fits_def)
    qed
    obtain zones c2 where z: "add_zones ?geo (int st) (capacity_bytes ?geo (int n)) slots ?bases [] (nd_cache nd) = Inr (True, zones, c2)"
      "map fst zones = ?tps" "cache_inv c2" "carved c2 = carved (nd_cache nd)" "same_residents (nd_cache nd) c2"
      "\<forall>gpu. gpu \<notin> set ?tps \<longrightarrow> zs c2 gpu = zs (nd_cache nd) gpu"
      "\<forall>(gpu, b) \<in> set ?bases. \<exists>z. zs c2 gpu = zs (nd_cache nd) gpu @ [z] \<and> (gpu, z_id z) \<in> set zones \<and> z_base z = b
        \<and> z_bytes z = capacity_bytes ?geo (int n)"
      using add_zones_ok [OF D(3), of ?bases ?geo slots "capacity_bytes ?geo (int n)" "int st" "[]"] fit S(2)
      by (auto simp: o_def image_iff)
    let ?nd = "nd\<lparr>nd_alloc := a2, nd_cache := c2, nd_rb := record_grant_rec (int st) (int n) slots zones (nd_rb nd)\<rparr>"
    have run: "complete_grant lead slots extra (nd\<lparr>nd_alloc := a1\<rparr>) = Inr ?nd"
      using True m(1) z(1) lead(1,2) d tps bases unfolding complete_grant_def Let_def by (simp del: add_zones.simps list.map)
    have "core L d (rb_grants (nd_rb nd) @ [new_grant (int st) (int n) slots zones]) a2 c2"
      using z(7) cap by (intro core_granted [OF core k2 lead(4) ra z(3,4,2,6)]) auto
    then have "sound L (rb_grants (nd_rb ?nd)) ?nd"
      using bk d by (simp add: sound_def record_grant_rec_def new_grant_def upd_stats_def booked_def)
    then have "granted L (int n) extra nd ?nd"
      unfolding granted_def using lead(4) slots(2) k2 z(5) ra a d
      by (intro conjI exI [of _ st] exI [of _ slots] exI [of _ zones] exI [of _ a2] exI [of _ c2]) auto
    then show ?thesis using run by blast
  qed
qed

end
