(* ===== verification/Zone_Tick.thy ===== *)
theory Zone_Tick
  imports Zone_Grant_Inv
begin

text \<open>A whole tick of the rebalancer, and the refusal seam: neither faults, and both keep the invariant.\<close>

section \<open>A grant attempt\<close>

definition grant_attempt :: "vram_layout \<Rightarrow> node \<Rightarrow> node \<Rightarrow> bool" where
  "grant_attempt L nd nd' \<longleftrightarrow> nd' = nd \<or> grant_refused L nd nd' \<or> (\<exists>n extra. granted L n extra nd nd')"

lemma give_back_refuses:
  assumes L: "layout_placed L" and a: "alloc_reachable L (nd_alloc nd)" and d: "tps = tp_gpus (rbdeps (nd_rb nd))"
    and gpu: "valid_gpu (nd_alloc nd) (hd tps)" and k: "keeps L (nd_alloc nd) a1"
    and r: "runs a1 = (runs (nd_alloc nd))(hd tps := (runs (nd_alloc nd) (hd tps))(ez_start_slab lead \<mapsto> ez_num_slabs lead))"
      "runs (nd_alloc nd) (hd tps) (ez_start_slab lead) = None"
  shows "\<exists>nd'. give_back_lead lead (nd\<lparr>nd_alloc := a1\<rparr>) = Inr nd' \<and> grant_refused L nd nd'"
proof -
  have "alloc_reachable L a1" "valid_gpu a1 (hd tps)" using k gpu keeps_gpu [OF k] by (auto simp: keeps_def)
  then obtain a2 where a2: "release_expert_zone (hd tps) (int (ez_start_slab lead)) (int (ez_num_slabs lead)) a1 = Inr a2"
    "keeps L a1 a2" "runs a2 = (runs a1)(hd tps := (runs a1 (hd tps))(ez_start_slab lead := None))"
    using release_takes_back [OF L, of a1 "hd tps" "int (ez_start_slab lead)" "int (ez_num_slabs lead)"] r(1) by auto
  have "runs a2 = runs (nd_alloc nd)" using a2(3) r by (auto simp: fun_eq_iff)
  then show ?thesis using a2(1) keeps_trans [OF k a2(2)] d by (auto simp: give_back_lead_def grant_refused_def)
qed

lemma refuse_unclaimed:
  "keeps L (nd_alloc nd) a' \<Longrightarrow> runs a' = runs (nd_alloc nd) \<Longrightarrow> grant_refused L nd (count_grant_refusal (nd\<lparr>nd_alloc := a'\<rparr>))"
  by (auto simp: grant_refused_def)

lemma place_grant_ok:
  assumes s: "sound L (rb_grants (nd_rb nd)) nd"
  shows "\<exists>nd'. place_grant n extra nd = Inr nd' \<and> (grant_refused L nd nd' \<or> granted L n extra nd nd')"
proof -
  let ?d = "rbdeps (nd_rb nd)" let ?tps = "tp_gpus ?d" let ?a = "nd_alloc nd"
  have core: "core L ?d (rb_grants (nd_rb nd)) ?a (nd_cache nd)" using s by (simp add: sound_def)
  note D = coreD [OF core] note S = sitedD [OF D(4)]
  obtain r a1 where r: "claim_expert_zone (hd ?tps) n extra ?a = Inr (r, a1)" "keeps L ?a a1"
    "case r of None \<Rightarrow> runs a1 = runs ?a
     | Some z \<Rightarrow> 0 < n \<and> ez_num_slabs z = nat n
         \<and> ez_base z = kv_main_base (hd ?tps) ?a + int (ez_start_slab z) * slab_bytes ?a
         \<and> runs ?a (hd ?tps) (ez_start_slab z) = None
         \<and> runs a1 = (runs ?a)(hd ?tps := (runs ?a (hd ?tps))(ez_start_slab z \<mapsto> nat n))"
    using claim_lends [OF D(1,2) S(7) [OF S(13)]] by blast
  show ?thesis
  proof (cases r)
    case None
    then show ?thesis using r refuse_unclaimed by (auto simp: place_grant_def)
  next
    case (Some z)
    let ?slots = "slots_in (geometry ?d) (int (ez_num_slabs z)) (ez_base z mod kExpertZoneSlotAlign)"
    have z: "0 < ez_num_slabs z" "ez_base z = kv_main_base (hd ?tps) ?a + int (ez_start_slab z) * slab_bytes ?a"
      "runs ?a (hd ?tps) (ez_start_slab z) = None" "int (ez_num_slabs z) = n"
      "runs a1 = (runs ?a)(hd ?tps := (runs ?a (hd ?tps))(ez_start_slab z \<mapsto> ez_num_slabs z))" using r(3) Some by auto
    have l: "runs a1 = lends {hd ?tps} (ez_start_slab z) (ez_num_slabs z) (runs ?a)" using z(5) by (auto simp: lends_def fun_eq_iff)
    obtain nd' where "give_back_lead z (nd\<lparr>nd_alloc := a1\<rparr>) = Inr nd'" "grant_refused L nd nd'"
      using give_back_refuses [OF D(1,2) refl S(7) [OF S(13)] r(2) z(5,3)] by blast
    moreover have "\<exists>nd'. complete_grant z ?slots extra (nd\<lparr>nd_alloc := a1\<rparr>) = Inr nd' \<and> (grant_refused L nd nd' \<or> granted L n extra nd nd')"
      if "1 \<le> ?slots"
      using complete_grant_ok [OF s refl refl r(2) l z(3) refl refl z(2,1) refl that] unfolding z(4) .
    ultimately show ?thesis using r(1) Some by (auto simp: place_grant_def Let_def not_less)
  qed
qed

lemma try_grant_ok:
  assumes s: "sound L (rb_grants (nd_rb nd)) nd"
  shows "\<exists>nd'. try_grant av nd = Inr nd' \<and> grant_attempt L nd nd'"
proof -
  have "alloc_reachable L (nd_alloc nd)" using s by (auto simp: sound_def core_def)
  then have self: "grant_refused L nd (count_grant_refusal nd)" using refuse_unclaimed [of L nd "nd_alloc nd"] by (simp add: keeps_def)
  have place: "\<exists>nd'. place_grant n extra nd = Inr nd' \<and> grant_attempt L nd nd'" for n extra
    using place_grant_ok [OF s, of n extra] by (auto simp: grant_attempt_def)
  show ?thesis unfolding try_grant_def Let_def using self place by (auto simp: grant_attempt_def)
qed

lemma grant_attempt_ok:
  assumes "grant_attempt L nd nd'" "sound L (rb_grants (nd_rb nd)) nd"
  shows "sound L (rb_grants (nd_rb nd')) nd'" "elm_ok nd \<Longrightarrow> elm_ok nd'"
proof -
  show "sound L (rb_grants (nd_rb nd')) nd'" using assms grant_refused_sound by (auto simp: grant_attempt_def granted_def)
  show "elm_ok nd'" if "elm_ok nd"
    using assms(1) that same_residents_elm
    by (auto simp: grant_attempt_def granted_def grant_refused_def elm_ok_def count_grant_refusal_def)
qed

section \<open>Queries and marks\<close>

lemma kv_fragmentation_total: "valid_gpu a gpu \<Longrightarrow> \<exists>f. kv_fragmentation gpu a = Inr f"
  by (simp add: kv_fragmentation_def)

lemma rb_total_slabs_total:
  assumes "sited d a c" shows "\<exists>n. rb_total_slabs d a = Inr n"
proof -
  obtain f where "kv_fragmentation (hd (tp_gpus d)) a = Inr f"
    using kv_fragmentation_total [OF sitedD(7) [OF assms sitedD(13) [OF assms]]] by blast
  then show ?thesis by (simp add: rb_total_slabs_def)
qed

lemma min_free_slabs_total:
  assumes "sited d a c" shows "\<exists>n. min_free_slabs d a = Inr n"
proof -
  have "\<exists>n. rfold (\<lambda>g m. rbind (kv_fragmentation g a) (\<lambda>f. Inr (min m (int (free_slabs f))))) gpus m = Inr n"
    if "set gpus \<subseteq> set (tp_gpus d)" for gpus m
    using that
  proof (induction gpus arbitrary: m)
    case (Cons g gpus)
    then obtain f where "kv_fragmentation g a = Inr f" using kv_fragmentation_total sitedD(7) [OF assms] by fastforce
    with Cons show ?case by simp
  qed simp
  then show ?thesis by (simp add: min_free_slabs_def)
qed

text \<open>What settling the marks leaves alone.\<close>

definition rb_books where
  "rb_books rb = (rbdeps rb, rbstats rb, rb_grants rb, eager_reclaim rb, eager_demand_free_slabs rb, grant_cooldown_left rb)"

lemma resolve_marks_ok:
  assumes "sited (rbdeps rb) a c" shows "\<exists>rb'. resolve_marks a rb = Inr rb' \<and> rb_books rb' = rb_books rb"
proof -
  obtain n where "rb_total_slabs (rbdeps rb) a = Inr n" using rb_total_slabs_total [OF assms] by blast
  then show ?thesis by (simp add: resolve_marks_def settle_marks_def Let_def disable_def rb_books_def)
qed

section \<open>The tick\<close>

lemma sound_books:
  "sound L gs nd \<Longrightarrow> rb_books rb = rb_books (nd_rb nd) \<Longrightarrow> sound L gs (nd\<lparr>nd_rb := rb\<rparr>)"
  "sound L gs (nd\<lparr>nd_rb := refresh_draining_stat (nd_rb nd)\<rparr>) = sound L gs nd"
  by (auto simp: sound_def booked_def rb_books_def refresh_draining_stat_def upd_stats_def)

lemma sound_sited: "sound L gs nd \<Longrightarrow> sited (rbdeps (nd_rb nd)) (nd_alloc nd) (nd_cache nd)"
  by (simp add: sound_def core_def)

lemma tick_body_ok:
  assumes "sound L (rb_grants (nd_rb nd)) nd"
  shows "\<exists>nd'. tick_body e nd = Inr nd' \<and> sound L (rb_grants (nd_rb nd')) nd' \<and> (elm_ok nd \<longrightarrow> elm_ok nd')"
proof -
  obtain nd1 where 1: "advance_reclaims e nd = Inr nd1" "sound L (rb_grants (nd_rb nd1)) nd1" "elm_ok nd \<longrightarrow> elm_ok nd1"
    using advance_reclaims_ok [OF assms] by blast
  note sited = sound_sited [OF 1(2)]
  obtain tot where tot: "rb_total_slabs (rbdeps (nd_rb nd1)) (nd_alloc nd1) = Inr tot" using rb_total_slabs_total [OF sited] by blast
  obtain av where av: "min_free_slabs (rbdeps (nd_rb nd1)) (nd_alloc nd1) = Inr av" using min_free_slabs_total [OF sited] by blast
  obtain nd2 where 2: "pressure_check av nd1 = Inr nd2" "sound L (rb_grants (nd_rb nd2)) nd2" "elm_ok nd1 \<longrightarrow> elm_ok nd2"
    using pressure_check_ok [OF 1(2)] by blast
  obtain nd3 where 3: "try_grant av nd2 = Inr nd3" "sound L (rb_grants (nd_rb nd3)) nd3" "elm_ok nd2 \<longrightarrow> elm_ok nd3"
    using try_grant_ok [OF 2(2), of av] grant_attempt_ok [OF _ 2(2)] by blast
  have el: "elm_ok (x\<lparr>nd_rb := r\<rparr>) = elm_ok x" "rb_grants (refresh_draining_stat r) = rb_grants r" for x r
    by (simp_all add: elm_ok_def refresh_draining_stat_def upd_stats_def)
  show ?thesis
    using 1 2 3 by (simp add: tick_body_def tot av sound_books(2) el)
qed

lemma tick_ok:
  assumes s: "sound L (rb_grants (nd_rb nd)) nd"
  shows "\<exists>nd'. tick e nd = Inr nd' \<and> sound L (rb_grants (nd_rb nd')) nd' \<and> (elm_ok nd \<longrightarrow> elm_ok nd')"
proof -
  let ?rb = "(nd_rb nd)\<lparr>first_tick := False, last_tick := te_now e\<rparr>"
  obtain rb1 where r: "resolve_marks (nd_alloc nd) ?rb = Inr rb1" "rb_books rb1 = rb_books ?rb"
    using resolve_marks_ok [of ?rb] sound_sited [OF s] by auto
  let ?rb2 = "rb1\<lparr>grant_cooldown_left := (if 0 < grant_cooldown_left rb1 then grant_cooldown_left rb1 - 1 else grant_cooldown_left rb1)\<rparr>"
  have g: "rb_grants rb1 = rb_grants (nd_rb nd)" using r(2) by (simp add: rb_books_def)
  have s1: "sound L (rb_grants rb1) (nd\<lparr>nd_rb := rb1\<rparr>)" "sound L (rb_grants ?rb2) (nd\<lparr>nd_rb := ?rb2\<rparr>)"
    using s g r(2) by (auto simp: sound_def booked_def rb_books_def)
  show ?thesis using s s1(1) r(1) tick_body_ok [of L "nd\<lparr>nd_rb := ?rb2\<rparr>" e] s1(2)
    by (simp add: tick_def Let_def elm_ok_def)
qed

section \<open>The refusal seam\<close>

lemma note_pool_pressure_refusal_ok:
  assumes s: "sound L (rb_grants (nd_rb nd)) nd"
  shows "\<exists>nd'. note_pool_pressure_refusal n nd = Inr nd' \<and> sound L (rb_grants (nd_rb nd')) nd' \<and> (elm_ok nd \<longrightarrow> elm_ok nd')"
proof -
  obtain tot av where "rb_total_slabs (rbdeps (nd_rb nd)) (nd_alloc nd) = Inr tot"
    "min_free_slabs (rbdeps (nd_rb nd)) (nd_alloc nd) = Inr av"
    using rb_total_slabs_total min_free_slabs_total sound_sited [OF s] by blast
  then show ?thesis using s
    by (auto simp: note_pool_pressure_refusal_def Let_def sound_def booked_def upd_stats_def elm_ok_def)
qed

end
