(* ===== verification/Node_Machine.thy ===== *)
theory Node_Machine
  imports Zone_Tick Expert_Cache_Properties
begin

text \<open>
  The three components on one node: KV traffic on the page allocator, expert traffic on the cache and the lifecycle
  manager, ticks of the rebalancer and refused admissions, in any order. The daemon loop runs them one at a time.
\<close>

section \<open>The machine\<close>

inductive node_step :: "node \<Rightarrow> node \<Rightarrow> bool" where
  node_kv: "kv_step (nd_alloc nd) a' \<Longrightarrow> node_step nd (nd\<lparr>nd_alloc := a'\<rparr>)"
| node_serve: "serve_step (nd_cache nd) c' \<Longrightarrow> node_step nd (nd\<lparr>nd_cache := c', nd_elm := l'\<rparr>)"
| node_tick: "tick e nd = Inr nd' \<Longrightarrow> node_step nd nd'"
| node_refusal: "note_pool_pressure_refusal n nd = Inr nd' \<Longrightarrow> node_step nd nd'"

text \<open>The engine builds the allocator and the cache, and the rebalancer over the two.\<close>

inductive node_boot ::
    "vram_layout \<Rightarrow> cache_layout list \<Rightarrow> int \<Rightarrow> bool \<Rightarrow> rb_deps \<Rightarrow> rb_config \<Rightarrow> node \<Rightarrow> bool" for L ls eb dup deps cfg where
  boot: "\<lbrakk>page_allocator L True = Inr a; c = set_residency_listener (expert_cache_init ls eb dup);
     expert_zone_rebalancer deps cfg a = Inr rb; sited (rbdeps rb) a c\<rbrakk>
    \<Longrightarrow> node_boot L ls eb dup deps cfg \<lparr>nd_alloc = a, nd_cache = c, nd_elm = l, nd_rb = rb, nd_log = []\<rparr>"

inductive node_reachable ::
    "vram_layout \<Rightarrow> cache_layout list \<Rightarrow> int \<Rightarrow> bool \<Rightarrow> rb_deps \<Rightarrow> rb_config \<Rightarrow> node \<Rightarrow> bool" for L ls eb dup deps cfg where
  node_initial: "node_boot L ls eb dup deps cfg nd \<Longrightarrow> node_reachable L ls eb dup deps cfg nd"
| node_next: "\<lbrakk>node_reachable L ls eb dup deps cfg nd; node_step nd nd'\<rbrakk> \<Longrightarrow> node_reachable L ls eb dup deps cfg nd'"

definition node_layout_ok :: "vram_layout \<Rightarrow> cache_layout list \<Rightarrow> int \<Rightarrow> bool" where
  "node_layout_ok L ls eb \<longleftrightarrow> layout_placed L \<and> list_all (cache_layout_ok eb) ls"

inductive_cases node_bootE: "node_boot L ls eb dup deps cfg nd"

section \<open>Its invariant\<close>

definition node_ok :: "vram_layout \<Rightarrow> node \<Rightarrow> bool" where
  "node_ok L nd \<longleftrightarrow> sound L (rb_grants (nd_rb nd)) nd"

lemma boot_zones: "zs (set_residency_listener (expert_cache_init ls eb dup)) gpu = []"
  by (auto simp: zs_def set_residency_listener_def expert_cache_init_def init_gpu_cache_def valid_cache_gpu_def)

lemma boot_runs:
  assumes "page_allocator L True = Inr a" shows "runs a gpu = Map.empty"
proof -
  have r: "rfold (boot_gpu L) (layout_gpus L) (empty_allocator L) = Inr a"
    using assms by (auto simp: page_allocator_def split: if_splits)
  have "expert_zone_runs (gpus a ! gi) = Map.empty" if gi: "gi < length (gpus a)" for gi
  proof -
    obtain gl rg where "init_gpu L gl rg = Inr (gpus a ! gi)"
      using boot_gpus_nth(4) [OF r] gi by (fastforce simp: empty_allocator_def)
    then obtain ik kda where "boot_pool L gl rg ik kda = gpus a ! gi" by (auto simp: init_gpu_def res_simps split: if_splits)
    from this [symmetric] show ?thesis by simp
  qed
  then show ?thesis by (auto simp: runs_def valid_gpu_def)
qed

lemma boot_books:
  assumes "expert_zone_rebalancer deps cfg a = Inr rb" shows "rb_grants rb = []" "rbstats rb = zero_rb_stats"
  using assms
  by (auto simp: expert_zone_rebalancer_def resolve_marks_def settle_marks_def disable_def Let_def rbind_def
      split: sum.splits if_splits)

lemma node_ok_boot:
  assumes "node_layout_ok L ls eb" "node_boot L ls eb dup deps cfg nd" shows "node_ok L nd"
proof -
  obtain a c rb l where nd: "nd = \<lparr>nd_alloc = a, nd_cache = c, nd_elm = l, nd_rb = rb, nd_log = []\<rparr>"
    and a: "page_allocator L True = Inr a" and c: "c = set_residency_listener (expert_cache_init ls eb dup)"
    and rb: "expert_zone_rebalancer deps cfg a = Inr rb" and s: "sited (rbdeps rb) a c"
    using assms(2) by (elim node_bootE) blast
  have "alloc_reachable L a" using a by (rule alloc_reachable.intros)
  moreover have "cache_inv c" using cache_reachable_inv [OF cache_initial] assms(1) c by (simp add: node_layout_ok_def)
  moreover have "linked (rbdeps rb) [] a c" by (simp add: linked_def accounted_def c boot_zones boot_runs [OF a])
  ultimately show ?thesis using assms(1) s boot_books [OF rb]
    by (simp add: nd node_ok_def sound_def core_def booked_def zero_rb_stats_def node_layout_ok_def)
qed

lemma kv_step_keeps:
  assumes "layout_placed L" "alloc_reachable L a" "kv_step a a'" shows "keeps L a a'" "runs a' = runs a"
proof -
  show k: "keeps L a a'" using keepsI [OF assms(1,2) kv_step_alloc [OF assms(3)]] .
  have "\<not> dcp_enabled (dcp a)" using reachable_inv [OF assms(2)] assms(1) by (simp add: layout_placed_def)
  from kv_step_zones [OF assms(3) this]
  have "map expert_zone_runs (gpus a') = map expert_zone_runs (gpus a)" by (simp add: a_view_def)
  then have "expert_zone_runs (gpus a' ! nat gpu) = expert_zone_runs (gpus a ! nat gpu)" if "valid_gpu a gpu" for gpu
    using that by (metis length_map nth_map valid_gpu_def nat_less_iff)
  then show "runs a' = runs a" using keeps_gpu [OF k] by (simp add: fun_eq_iff runs_def)
qed

lemma node_ok_step:
  assumes "node_step nd nd'" "node_ok L nd" shows "node_ok L nd'"
  using assms
proof (induction rule: node_step.induct)
  case (node_kv nd a')
  then have core: "core L (rbdeps (nd_rb nd)) (rb_grants (nd_rb nd)) (nd_alloc nd) (nd_cache nd)" by (simp add: node_ok_def sound_def)
  note D = coreD [OF core]
  from core_runs_same [OF core kv_step_keeps [OF D(1,2) node_kv(1)]] node_kv(2) show ?case by (simp add: node_ok_def sound_def)
next
  case (node_serve nd c' l')
  have core: "core L (rbdeps (nd_rb nd)) (rb_grants (nd_rb nd)) (nd_alloc nd) (nd_cache nd)" using node_serve(2) by (simp add: node_ok_def sound_def)
  from core_calm [OF core serve_step_inv [OF node_serve(1) coreD(3) [OF core]] serve_step_calm [OF node_serve(1)]] node_serve(2)
  show ?case by (simp add: node_ok_def sound_def)
next
  case (node_tick e nd nd')
  then show ?case using tick_ok [of L nd e] by (auto simp: node_ok_def)
next
  case (node_refusal n nd nd')
  then show ?case using note_pool_pressure_refusal_ok [of L nd n] by (auto simp: node_ok_def)
qed

lemma node_reachable_ok:
  assumes "node_reachable L ls eb dup deps cfg nd" "node_layout_ok L ls eb" shows "node_ok L nd"
  using assms by (induction rule: node_reachable.induct) (auto intro: node_ok_boot node_ok_step)

section \<open>KV pages and experts do not overlap\<close>

lemma zone_resident_home:
  assumes core: "core L d gs a c" and z: "z \<in> set (zs c gpu)"
  shows "\<exists>st n. runs a gpu st = Some n
    \<and> {z_base z ..< z_base z + z_bytes z} = obj_bytes (slab_bytes a) (gpus a ! nat gpu) (ZoneObj st n)"
proof -
  note D = coreD [OF core]
  obtain g where g: "g \<in> set gs" "(gpu, z_id z) \<in> set (ranks_of d g)" "at_home a g gpu z"
    using D(5) z unfolding linked_def owned_def by blast
  have gpu: "gpu \<in> set (tp_gpus d)" by (rule ranks_gpu [OF g(2)])
  have "lent d a g" using D(5) g(1) by (simp add: linked_def)
  then have "runs a gpu (nat (gr_start_slab g)) = Some (nat (gr_num_slabs g))" "0 \<le> gr_start_slab g" "0 < gr_num_slabs g"
    using gpu by (auto simp: lent_def)
  then show ?thesis using g(3) sitedD(7) [OF D(4) gpu]
    by (intro exI conjI) (assumption, simp add: at_home_def kv_main_base_def distrib_right add.assoc)
qed

text \<open>A resident lies in a carved region or in a zone.\<close>

lemma resident_where:
  assumes inv: "cache_inv c" and k: "lookup k gpu c = Some e"
  obtains s ss where "snd (carved c) gpu = Some ss" "s \<in> set ss" "resident_bytes (expert_bytes c) e \<subseteq> span (expert_bytes c) s"
    | z where "z \<in> set (zs c gpu)" "resident_bytes (expert_bytes c) e \<subseteq> {z_base z ..< z_base z + z_bytes z}"
proof -
  have v: "valid_cache_gpu c gpu" using lookup_valid [OF k] by blast
  let ?G = "Expert_Cache_Machine.geom (ec_gpus c ! nat gpu)"
  obtain R where R: "R \<in> set (regions (expert_bytes c) ?G)" "resident_bytes (expert_bytes c) e \<subseteq> R"
    using resident_region [OF inv k] by blast
  have "snd ?G = map zone_shape (zs c gpu)" "snd (carved c) gpu = Some (fst ?G)"
    using v by (simp_all add: Expert_Cache_Machine.geom_def zs_def carved_def)
  with R that show ?thesis unfolding regions_def by (fastforce simp: zone_shape_def)
qed

lemma resident_clear:
  assumes "cache_inv c" "lookup k gpu c = Some e" "clear_of c gpu B" shows "resident_bytes (expert_bytes c) e \<inter> B = {}"
proof (cases rule: resident_where [OF assms(1,2)])
  case (1 s ss)
  then show ?thesis using assms(3) by (fastforce simp: clear_of_def)
next
  case (2 z)
  then have "{z_base z ..< z_base z + z_bytes z} \<inter> B = {}" using assms(3) by (simp add: clear_of_def)
  with 2(2) show ?thesis by blast
qed

lemma resident_apart:
  assumes ok: "node_ok L nd" and gpu: "gpu \<in> set (tp_gpus (rbdeps (nd_rb nd)))" and k: "lookup k gpu (nd_cache nd) = Some e"
    and x: "live_obj (gpus (nd_alloc nd) ! nat gpu) x" "\<And>st n. x \<noteq> ZoneObj st n"
  shows "obj_bytes (slab_bytes (nd_alloc nd)) (gpus (nd_alloc nd) ! nat gpu) x
    \<inter> resident_bytes (expert_bytes (nd_cache nd)) e = {}"
proof -
  let ?a = "nd_alloc nd" and ?c = "nd_cache nd" and ?d = "rbdeps (nd_rb nd)"
  have core: "core L ?d (rb_grants (nd_rb nd)) ?a ?c" using ok by (simp add: node_ok_def sound_def)
  note D = coreD [OF core] note S = sitedD [OF D(4)]
  have v: "valid_gpu ?a gpu" using S(7) gpu by blast
  then have gi: "nat gpu < length (gpus ?a)" by (auto simp: valid_gpu_def)
  show ?thesis
  proof (cases rule: resident_where [OF D(3) k])
    case (1 s ss)
    have "\<forall>r. span (expert_bytes ?c) s \<inter> extent (gpus ?a ! nat gpu) r = {}" using D(4) gpu 1(1,2) unfolding sited_def by fastforce
    moreover have "obj_bytes (slab_bytes ?a) (gpus ?a ! nat gpu) x \<subseteq> extent (gpus ?a ! nat gpu) (home (gpus ?a ! nat gpu) x)"
      using obj_in_home [OF reachable_placed(3,2) [OF D(1,2) gi] x(1)] .
    ultimately show ?thesis using 1(3) by blast
  next
    case (2 z)
    obtain st n where z: "runs ?a gpu st = Some n"
      "{z_base z ..< z_base z + z_bytes z} = obj_bytes (slab_bytes ?a) (gpus ?a ! nat gpu) (ZoneObj st n)"
      using zone_resident_home [OF core 2(1)] by blast
    then have "live_obj (gpus ?a ! nat gpu) (ZoneObj st n)" using v by (simp add: runs_def)
    from reachable_disjoint [OF D(1,2) gi x(1) this x(2)] 2(2) show ?thesis unfolding z(2) [symmetric] by blast
  qed
qed

end
