(* ===== verification/Node_Demo.thy ===== *)
theory Node_Demo
  imports Node_Machine Allocator_Demo
begin

text \<open>
  A node with two ranks on which the properties are exercised: eight slabs of one page frame each on both GPUs, experts of
  4096 bytes, marks of two and four slabs.
\<close>

definition node_layout :: vram_layout where
  "node_layout =
     demo_layout\<lparr>layout_slab_bytes := 4096, kv_bytes_per_page := 2048, indexer_k_bytes_per_page := 4096,
       layout_gpus :=
         (let gl = \<lparr>kv_main_pages = 16, kv_speculation_pages = 2, indexer_k_pages = 0, kv_hca_pages = 1, kv_swa_pages = 1,
                     kda_state_slots = 1, attention_host = True, gpu_admissible_ctx_tokens = 64\<rparr>;
              rg = \<lparr>reg_kv_main = 40960, reg_kv_speculation = 100000, reg_indexer_k = 0, reg_kv_hca = 110000,
                     reg_kv_swa = 120000, reg_kda_state = 130000\<rparr>
          in [(gl, rg), (gl, rg)])\<rparr>"

definition node_deps :: rb_deps where
  "node_deps =
     \<lparr>has_page_allocator = True, has_expert_cache = True, tp_gpus = [0, 1],
      geometry = \<lparr>expert_slot_bytes = 4096, g_slab_bytes = 4096, g_within = (\<lambda>w c. False)\<rparr>,
      admission_transient_slabs = 1, per_step_growth_slabs = 1, max_concurrent_admissions = 1\<rparr>"

definition node_config :: rb_config where
  "node_config =
     \<lparr>rc_enabled = True, low_water_frac_slabs = (\<lambda>n. 0), high_water_frac_slabs = (\<lambda>n. 0),
      max_waste_within = (\<lambda>w c. 2 * w \<le> c), max_slots_per_grant = 1, min_tick_interval_us = 1000, grant_cooldown_ms = 0\<rparr>"

definition node_alloc0 :: allocator where
  "node_alloc0 = (case page_allocator node_layout True of Inl e \<Rightarrow> empty_allocator node_layout | Inr a \<Rightarrow> a)"

definition node_cache0 :: expert_cache where
  "node_cache0 = set_residency_listener (expert_cache_init [demo_regions, demo_regions] 4096 False)"

definition no_rebalancer :: rebalancer where
  "no_rebalancer =
     \<lparr>rbdeps = node_deps, rb_cfg = node_config, rbstats = zero_rb_stats, rb_grants = [], eager_reclaim = False,
      eager_demand_free_slabs = 0, first_tick = True, last_tick = 0, min_band_slabs = 0, low_slabs = 0, high_slabs = 0,
      marks_resolved = False, grant_cooldown_ticks = 0, grant_cooldown_left = 0\<rparr>"

definition node_rb0 :: rebalancer where
  "node_rb0 = from_res (expert_zone_rebalancer node_deps node_config node_alloc0) no_rebalancer"

definition node0 :: node where
  "node0 = \<lparr>nd_alloc = node_alloc0, nd_cache = node_cache0, nd_elm = None, nd_rb = node_rb0, nd_log = []\<rparr>"

text \<open>An idle device: nothing runs, every event is complete.\<close>

definition demo_env :: "int \<Rightarrow> tick_env" where
  "demo_env t = \<lparr>te_now = t, moe_quiesced = None, record_h2d_barrier = None, record_ffn_barrier = None,
     event_complete = None, has_destroy_event = False\<rparr>"

definition node1 :: node where "node1 = from_res (tick (demo_env 0) node0) node0"

definition node2 :: node where
  "node2 = node1\<lparr>nd_cache := snd (from_res (reserve (ExpertKey 0 1) 0 KStable False (nd_cache node1)) (None, nd_cache node1))\<rparr>"

definition node3 :: node where
  "node3 = node2\<lparr>nd_cache := snd (from_res (reserve (ExpertKey 0 2) 0 KStable False (nd_cache node2)) (None, nd_cache node2))\<rparr>"

definition node4 :: node where
  "node4 = node3\<lparr>nd_alloc := snd (from_res (allocate 0 KMain (nd_alloc node3)) (None, nd_alloc node3))\<rparr>"

lemma from_res_eq: "\<not> isl r \<Longrightarrow> r = Inr (from_res r d)"
  by (cases r) (simp_all add: from_res_def)

lemma from_res_pair: "\<not> isl r \<Longrightarrow> \<exists>x. r = Inr (x, snd (from_res r d))"
  by (cases r) (auto simp: from_res_def)

lemma node_placed: "layout_placed node_layout"
proof -
  have "apart (layout_extent node_layout gl rg)" if "(gl, rg) \<in> set (layout_gpus node_layout)" for gl rg
    unfolding apart_def
  proof (intro allI impI)
    fix r r' :: mem_region assume "r \<noteq> r'"
    with that show "layout_extent node_layout gl rg r \<inter> layout_extent node_layout gl rg r' = {}"
      by (cases r; cases r'; (cases "case r of RSide pl \<Rightarrow> pl | _ \<Rightarrow> KMain")?;
          (cases "case r' of RSide pl \<Rightarrow> pl | _ \<Rightarrow> KMain")?)
        (auto simp: node_layout_def demo_layout_def layout_extent_def kv_slab_managed_def kda_on_gpu_def Let_def)
  qed
  moreover have "layout_sane node_layout" by (simp add: layout_sane_def node_layout_def demo_layout_def Let_def)
  ultimately show ?thesis
    by (auto simp: layout_placed_def) (simp_all add: node_layout_def demo_layout_def)
qed

lemma node_boots:
  "page_allocator node_layout True = Inr node_alloc0"
  "expert_zone_rebalancer node_deps node_config node_alloc0 = Inr node_rb0"
proof -
  have "\<not> isl (page_allocator node_layout True)" by code_simp
  then show "page_allocator node_layout True = Inr node_alloc0" by (auto simp: node_alloc0_def split: sum.splits)
  have "\<not> isl (expert_zone_rebalancer node_deps node_config node_alloc0)" by code_simp
  then show "expert_zone_rebalancer node_deps node_config node_alloc0 = Inr node_rb0" unfolding node_rb0_def by (rule from_res_eq)
qed

lemma node_tps: "tp_gpus (rbdeps node_rb0) = [0, 1]"
  by code_simp

lemma node_sited: "sited (rbdeps node_rb0) node_alloc0 node_cache0"
proof -
  have base: "kv_main_base 0 node_alloc0 = 40960" "kv_main_base 1 node_alloc0 = 40960" "valid_gpu node_alloc0 0" "valid_gpu node_alloc0 1"
    by code_simp+
  have g: "has_page_allocator (rbdeps node_rb0)" "has_expert_cache (rbdeps node_rb0)" "geometry_valid (geometry (rbdeps node_rb0))"
    "expert_bytes node_cache0 = expert_slot_bytes (geometry (rbdeps node_rb0))"
    "g_slab_bytes (geometry (rbdeps node_rb0)) = slab_bytes node_alloc0" by code_simp+
  have c: "snd (carved node_cache0) 0 = Some [(4096, 4096, 1), (16384, 4096, 1), (20480, 4096, 1)]"
    "snd (carved node_cache0) 1 = Some [(4096, 4096, 1), (16384, 4096, 1), (20480, 4096, 1)]" "expert_bytes node_cache0 = 4096" by code_simp+
  let ?above = "\<lambda>g pl. case side_pool_of g pl of None \<Rightarrow> True | Some sp \<Rightarrow> elastic sp \<or> 40960 \<le> sp_base sp"
  have all: "list_all (\<lambda>g. 40960 \<le> base g \<and> 40960 \<le> spec_base g
      \<and> list_all (?above g) [KMain, KSpeculation, KIndexerK, KHca, KSwa, KKdaState]) (gpus node_alloc0)" "length (gpus node_alloc0) = 2"
    by code_simp+
  have up: "extent (gpus node_alloc0 ! gi) r \<subseteq> {40960..}" if "gi = 0 \<or> gi = 1" for gi r
  proof -
    let ?g = "gpus node_alloc0 ! gi"
    have "?g \<in> set (gpus node_alloc0)" using all(2) that by auto
    then have b: "40960 \<le> base ?g" "40960 \<le> spec_base ?g" and pl: "?above ?g pl" for pl
      using all(1) by (cases pl; auto simp only: list_all_iff list.set insert_iff)+
    show ?thesis
    proof (cases r)
      case (RSide pl)
      with pl [of pl] show ?thesis by (auto split: option.splits)
    qed (use b in auto)
  qed
  have low: "span 4096 (b, 4096, 1) \<subseteq> {..<40960}" if "b \<le> 20480" for b using that by (auto simp: span_def)
  have off: "span 4096 (b, 4096, 1) \<inter> extent (gpus node_alloc0 ! gi) r = {}" if "gi = 0 \<or> gi = 1" "b \<le> 20480" for gi r b
    using up [OF that(1), of r] low [OF that(2)] by fastforce
  have "\<forall>s \<in> set [(4096, 4096, 1), (16384, 4096, 1), (20480, 4096, 1)]. \<forall>r. span 4096 s \<inter> extent (gpus node_alloc0 ! nat gpu) r = {}"
    if "gpu = 0 \<or> gpu = 1" for gpu
  proof -
    have "nat gpu = 0 \<or> nat gpu = 1" using that by auto
    from off [OF this] show ?thesis by (simp del: extent.simps One_nat_def)
  qed
  then have "\<exists>ss. snd (carved node_cache0) gpu = Some ss \<and> (\<forall>s \<in> set ss. \<forall>r. span 4096 s \<inter> extent (gpus node_alloc0 ! nat gpu) r = {})"
    if "gpu = 0 \<or> gpu = 1" for gpu using that c(1,2) by metis
  then show ?thesis unfolding sited_def node_tps using base g c(3) by (simp del: extent.simps)
qed

lemma node0_reachable: "node_reachable node_layout [demo_regions, demo_regions] 4096 False node_deps node_config node0"
  unfolding node0_def using node_boots node_sited by (auto intro!: node_initial boot simp: node_cache0_def)

lemma node_layouts_ok: "node_layout_ok node_layout [demo_regions, demo_regions] 4096"
  using node_placed by (simp add: node_layout_ok_def cache_layout_ok_def demo_regions_def)

lemma node1_tick: "tick (demo_env 0) node0 = Inr node1"
  unfolding node1_def by (rule from_res_eq) code_simp

lemma node1_reachable: "node_reachable node_layout [demo_regions, demo_regions] 4096 False node_deps node_config node1"
  by (rule node_next [OF node0_reachable node_tick [OF node1_tick]])

lemma demo_serve:
  assumes "node_reachable L ls eb dup deps cfg nd" "\<not> isl (reserve k gpu z dp (nd_cache nd))"
  shows "node_reachable L ls eb dup deps cfg (nd\<lparr>nd_cache := snd (from_res (reserve k gpu z dp (nd_cache nd)) x)\<rparr>)"
proof -
  obtain r where "reserve k gpu z dp (nd_cache nd) = Inr (r, snd (from_res (reserve k gpu z dp (nd_cache nd)) x))"
    using from_res_pair [OF assms(2)] by blast
  from node_next [OF assms(1) node_serve [OF serve_reserve [OF this], of "nd_elm nd"]] show ?thesis by simp
qed

lemma node3_reachable: "node_reachable node_layout [demo_regions, demo_regions] 4096 False node_deps node_config node3"
proof -
  have "\<not> isl (reserve (ExpertKey 0 1) 0 KStable False (nd_cache node1))" "\<not> isl (reserve (ExpertKey 0 2) 0 KStable False (nd_cache node2))"
    by code_simp+
  then show ?thesis unfolding node3_def node2_def by (intro demo_serve node1_reachable) (simp_all add: node2_def)
qed

lemma node4_reachable: "node_reachable node_layout [demo_regions, demo_regions] 4096 False node_deps node_config node4"
proof -
  have "\<not> isl (allocate 0 KMain (nd_alloc node3))" "valid_gpu (nd_alloc node3) 0" by code_simp+
  then obtain r where "allocate 0 KMain (nd_alloc node3) = Inr (r, nd_alloc node4)" "valid_gpu (nd_alloc node3) 0"
    using from_res_pair [of "allocate 0 KMain (nd_alloc node3)" "(None, nd_alloc node3)"] by (auto simp: node4_def)
  then have "kv_step (nd_alloc node3) (nd_alloc node4)" by (auto intro: kv_allocate)
  from node_next [OF node3_reachable node_kv [OF this]] show ?thesis by (simp add: node4_def)
qed

end
