(* ===== verification/Node_Properties.thy ===== *)
theory Node_Properties
  imports Node_Demo
begin

text \<open>The properties of the node: the page allocator, the expert cache and the rebalancer that moves slabs between them.\<close>

section \<open>Helper lemmas\<close>

lemma node_core:
  assumes "node_reachable L ls eb dup deps cfg nd" "node_layout_ok L ls eb"
  shows "sound L (rb_grants (nd_rb nd)) nd" "core L (rbdeps (nd_rb nd)) (rb_grants (nd_rb nd)) (nd_alloc nd) (nd_cache nd)"
  using node_reachable_ok [OF assms] by (simp_all add: node_ok_def sound_def)

lemma lent_iff_grant:
  assumes core: "core L d gs a c" and gpu: "gpu \<in> set (tp_gpus d)"
  shows "runs a gpu st = Some n \<longleftrightarrow> (\<exists>g \<in> set gs. gr_start_slab g = int st \<and> gr_num_slabs g = int n)"
proof
  note D = coreD [OF core]
  have l: "runs a gpu (nat (gr_start_slab g)) = Some (nat (gr_num_slabs g))" "0 < gr_num_slabs g" if "g \<in> set gs" for g
    using D(5) that gpu by (auto simp: linked_def lent_def)
  {
    assume r: "runs a gpu st = Some n"
    then obtain g where g: "g \<in> set gs" "gr_start_slab g = int st" using D(5) unfolding linked_def accounted_def by blast
    then have "gr_num_slabs g = int n" using l [OF g(1)] r by simp
    with g show "\<exists>g \<in> set gs. gr_start_slab g = int st \<and> gr_num_slabs g = int n" by blast
  }
  assume "\<exists>g \<in> set gs. gr_start_slab g = int st \<and> gr_num_slabs g = int n"
  then show "runs a gpu st = Some n" using l by fastforce
qed

section \<open>Memory safety of the node\<close>



section \<open>The rebalancer's books\<close>

text \<open>
  C4: In every reachable state the runs of slabs that the allocator has lent on a rank are exactly the runs of the
  rebalancer's grants: no slab is lent without a grant and no grant is without its slabs, on any rank.
\<close>

theorem lent_runs_are_grants:
  assumes "node_reachable L ls eb dup deps cfg nd" "node_layout_ok L ls eb" "gpu \<in> set (tp_gpus (rbdeps (nd_rb nd)))"
  shows "runs (nd_alloc nd) gpu st = Some n \<longleftrightarrow>
    (\<exists>g \<in> set (rb_grants (nd_rb nd)). gr_start_slab g = int st \<and> gr_num_slabs g = int n)"
  by (rule lent_iff_grant [OF node_core(2) [OF assms(1,2)] assms(3)])

theorem lent_runs_are_grants_witness:
  "runs (nd_alloc node4) 1 6 = Some 2 \<and> map gr_start_slab (rb_grants (nd_rb node4)) = [6]"
proof -
  have "1 \<in> set (tp_gpus (rbdeps (nd_rb node4)))" by code_simp
  moreover have g: "map gr_start_slab (rb_grants (nd_rb node4)) = [6]" "map gr_num_slabs (rb_grants (nd_rb node4)) = [2]" by code_simp+
  ultimately show ?thesis using lent_runs_are_grants [OF node4_reachable node_layouts_ok, of 1 6 2] by (auto simp: map_eq_Cons_conv)
qed

text \<open>
  C5: The elastic zones of the cache are the grants' zones: every zone lies on exactly the slabs of one grant, and every
  grant has its zone on every rank, draining from the moment the grant is being reclaimed and empty from the moment its
  barriers are recorded. No grant is ever leaked.
\<close>

theorem zones_are_grants:
  assumes "node_reachable L ls eb dup deps cfg nd" "node_layout_ok L ls eb"
  shows "(\<forall>gpu. \<forall>z \<in> set (zs (nd_cache nd) gpu).
            \<exists>g \<in> set (rb_grants (nd_rb nd)). (gpu, z_id z) \<in> set (ranks_of (rbdeps (nd_rb nd)) g) \<and> at_home (nd_alloc nd) g gpu z)
    \<and> (\<forall>g \<in> set (rb_grants (nd_rb nd)). \<forall>(gpu, zid) \<in> set (ranks_of (rbdeps (nd_rb nd)) g).
            \<exists>z \<in> set (zs (nd_cache nd) gpu). z_id z = zid \<and> at_home (nd_alloc nd) g gpu z \<and> phase (gr_st g) z)
    \<and> (\<forall>g \<in> set (rb_grants (nd_rb nd)). gr_st g \<noteq> SLeaked \<and> map fst (ranks_of (rbdeps (nd_rb nd)) g) = tp_gpus (rbdeps (nd_rb nd)))"
proof -
  note D = coreD(5) [OF node_core(2) [OF assms]]
  have "map fst (ranks_of (rbdeps (nd_rb nd)) g) = tp_gpus (rbdeps (nd_rb nd))" if "lent (rbdeps (nd_rb nd)) (nd_alloc nd) g" for g
    using that by (simp add: lent_def ranks_of_def)
  then show ?thesis using D by (auto simp: linked_def owned_def zoned_def lent_def)
qed

theorem zones_are_grants_witness:
  "(\<exists>g \<in> set (rb_grants (nd_rb node4)). \<exists>z \<in> set (zs (nd_cache node4) 0). at_home (nd_alloc node4) g 0 z) \<and> length (rb_grants (nd_rb node4)) = 1"
proof -
  have z: "length (zs (nd_cache node4) 0) = 1" "length (rb_grants (nd_rb node4)) = 1" by code_simp+
  then obtain z where "z \<in> set (zs (nd_cache node4) 0)" by (cases "zs (nd_cache node4) 0") auto
  then show ?thesis using z(2) zones_are_grants [OF node4_reachable node_layouts_ok] by blast
qed

text \<open>
  The rebalancer's counters are exact in every reachable state: the granted slabs and slots are the sums over its
  grants, and the count of zones that could not be removed stays zero.
\<close>

theorem rebalancer_books_exact:
  assumes "node_reachable L ls eb dup deps cfg nd" "node_layout_ok L ls eb"
  shows "rs_granted_slabs (rbstats (nd_rb nd)) = sum_list (map gr_num_slabs (rb_grants (nd_rb nd)))
    \<and> rs_granted_slots (rbstats (nd_rb nd)) = sum_list (map gr_num_slots (rb_grants (nd_rb nd)))
    \<and> rs_zone_remove_failures (rbstats (nd_rb nd)) = 0"
  using node_core(1) [OF assms] by (simp add: sound_def booked_def)

theorem rebalancer_books_exact_witness:
  "rs_granted_slabs (rbstats (nd_rb node4)) = 2 \<and> rs_zone_remove_failures (rbstats (nd_rb node4)) = 0"
proof -
  have "map gr_num_slabs (rb_grants (nd_rb node4)) = [2]" by code_simp
  then show ?thesis using rebalancer_books_exact [OF node4_reachable node_layouts_ok] by simp
qed

section \<open>The tick\<close>



text \<open>
  C23: A grant is all or nothing. An attempt never faults and moves no resident expert; either no run, no zone and no
  record changes, or one new run of slabs, free before on every rank, is lent on every rank and on no other GPU, with one
  new record and a zone on the run's bytes on every rank.
\<close>

theorem grant_all_or_nothing:
  assumes "node_reachable L ls eb dup deps cfg nd" "node_layout_ok L ls eb"
  shows "\<exists>nd'. try_grant av nd = Inr nd' \<and> same_residents (nd_cache nd) (nd_cache nd')
    \<and> (runs (nd_alloc nd') = runs (nd_alloc nd) \<and> nd_cache nd' = nd_cache nd \<and> rb_grants (nd_rb nd') = rb_grants (nd_rb nd)
       \<or> (\<exists>st n g. 0 < n \<and> gr_start_slab g = int st \<and> gr_num_slabs g = int n \<and> rb_grants (nd_rb nd') = rb_grants (nd_rb nd) @ [g]
            \<and> (\<forall>gpu. if gpu \<in> set (tp_gpus (rbdeps (nd_rb nd)))
                 then runs (nd_alloc nd) gpu st = None \<and> runs (nd_alloc nd') gpu = (runs (nd_alloc nd) gpu)(st \<mapsto> n)
                   \<and> (\<exists>z \<in> set (zs (nd_cache nd') gpu). (gpu, z_id z) \<in> set (ranks_of (rbdeps (nd_rb nd)) g) \<and> at_home (nd_alloc nd') g gpu z)
                 else runs (nd_alloc nd') gpu = runs (nd_alloc nd) gpu)))"
proof -
  note s = node_core(1) [OF assms]
  obtain nd' where t: "try_grant av nd = Inr nd'" "grant_attempt L nd nd'" using try_grant_ok [OF s] by blast
  consider "nd' = nd" | "grant_refused L nd nd'" | m extra where "granted L m extra nd nd'" using t(2) unfolding grant_attempt_def by blast
  then show ?thesis
  proof cases
    case 2
    then show ?thesis using t(1) by (auto simp: grant_refused_def count_grant_refusal_def upd_stats_def)
  next
    case 3
    obtain st slots zones a' c' where g: "nd' = nd\<lparr>nd_alloc := a', nd_cache := c', nd_rb := record_grant_rec (int st) m slots zones (nd_rb nd)\<rparr>"
      "0 < m" "same_residents (nd_cache nd) c'" "runs a' = lends (set (tp_gpus (rbdeps (nd_rb nd)))) st (nat m) (runs (nd_alloc nd))"
      "\<forall>gpu \<in> set (tp_gpus (rbdeps (nd_rb nd))). runs (nd_alloc nd) gpu st = None" and s': "sound L (rb_grants (nd_rb nd')) nd'"
      using 3 unfolding granted_def by blast
    let ?g = "new_grant (int st) m slots zones" and ?d = "rbdeps (nd_rb nd)"
    have gs: "rb_grants (nd_rb nd') = rb_grants (nd_rb nd) @ [?g]" "rbdeps (nd_rb nd') = ?d"
      by (simp_all add: g(1) record_grant_rec_def new_grant_def upd_stats_def)
    have l: "lent ?d (nd_alloc nd') ?g" "zoned ?d (nd_alloc nd') (nd_cache nd') ?g"
      using s' gs by (auto simp: sound_def core_def linked_def)
    have z: "\<exists>z \<in> set (zs (nd_cache nd') gpu). (gpu, z_id z) \<in> set (ranks_of ?d ?g) \<and> at_home (nd_alloc nd') ?g gpu z"
      if "gpu \<in> set (tp_gpus ?d)" for gpu
    proof -
      have "map fst (ranks_of ?d ?g) = tp_gpus ?d" using l(1) by (simp add: lent_def ranks_of_def)
      then have "gpu \<in> fst ` set (ranks_of ?d ?g)" using that by (metis list.set_map)
      then obtain zid where "(gpu, zid) \<in> set (ranks_of ?d ?g)" by auto
      with l(2) show ?thesis unfolding zoned_def by fastforce
    qed
    have "rb_grants (nd_rb nd') = rb_grants (nd_rb nd) @ [?g]
      \<and> (\<forall>gpu. if gpu \<in> set (tp_gpus ?d)
           then runs (nd_alloc nd) gpu st = None \<and> runs (nd_alloc nd') gpu = (runs (nd_alloc nd) gpu)(st \<mapsto> nat m)
             \<and> (\<exists>z \<in> set (zs (nd_cache nd') gpu). (gpu, z_id z) \<in> set (ranks_of ?d ?g) \<and> at_home (nd_alloc nd') ?g gpu z)
           else runs (nd_alloc nd') gpu = runs (nd_alloc nd) gpu)"
      using z gs(1) g(5) by (simp add: g(1,4) lends_def)
    moreover have "0 < nat m" "gr_start_slab ?g = int st" "gr_num_slabs ?g = int (nat m)" "same_residents (nd_cache nd) (nd_cache nd')"
      using g(1,2,3) by simp_all
    ultimately show ?thesis using t(1) by blast
  qed (use t(1) in simp)
qed

theorem grant_all_or_nothing_witness:
  "\<exists>nd'. try_grant 8 node0 = Inr nd' \<and> length (rb_grants (nd_rb nd')) = 1 \<and> (\<exists>st n. runs (nd_alloc nd') 0 st = Some n \<and> runs (nd_alloc nd') 1 st = Some n)"
proof -
  have "map_sum id (\<lambda>nd'. length (rb_grants (nd_rb nd'))) (try_grant 8 node0) = Inr 1" "rb_grants (nd_rb node0) = []"
    "set (tp_gpus (rbdeps (nd_rb node0))) = {0, 1}" by code_simp+
  then show ?thesis using grant_all_or_nothing [OF node0_reachable node_layouts_ok, of 8] by (auto split: if_splits) (metis fun_upd_same)
qed

end
