(* ===== verification/Zone_Drain.thy ===== *)
theory Zone_Drain
  imports Node_Machine
begin

text \<open>A drain of a zone whose residents are idle empties it in one pass.\<close>

section \<open>Idle experts\<close>

text \<open>The lifecycle manager has no claim on the expert.\<close>

definition unclaimed :: "lifecycle option \<Rightarrow> expert_key \<Rightarrow> int \<Rightarrow> bool" where
  "unclaimed l k gpu \<longleftrightarrow>
     (case l of None \<Rightarrow> True
      | Some l' \<Rightarrow> (case gpu_entries l' (k, gpu) of None \<Rightarrow> True
          | Some ge \<Rightarrow> interests ge = [] \<and> ge_tier ge \<noteq> GTransferring \<and> ge_tier ge \<noteq> GDraining))"

definition idle :: "lifecycle option \<Rightarrow> int \<Rightarrow> expert_key \<Rightarrow> cache_entry \<Rightarrow> bool" where
  "idle l gpu k e \<longleftrightarrow> lock_count e = 0 \<and> sub_components_ready e = kAll \<and> unclaimed l k gpu"

definition dropped :: "int \<Rightarrow> expert_key set \<Rightarrow> lifecycle option \<times> expert_cache \<Rightarrow> lifecycle option \<times> expert_cache \<Rightarrow> bool" where
  "dropped gpu K lc lc' \<longleftrightarrow>
     (\<forall>k g. lookup k g (snd lc') = (if g = gpu \<and> k \<in> K then None else lookup k g (snd lc)))
     \<and> (\<forall>k g. unclaimed (fst lc) k g \<longrightarrow> unclaimed (fst lc') k g)"

lemma evict_expert_idle:
  assumes inv: "cache_inv c" and v: "valid_cache_gpu c gpu" and k: "lookup k gpu c = Some e" "idle l gpu k e"
  shows "\<exists>l' c'. evict_expert k gpu (l, c) = Inr (True, l', c') \<and> dropped gpu {k} (l, c) (l', c')"
proof -
  have "is_resident k gpu c" "\<not> is_locked k gpu c"
    using k(2) lookup_valid [OF k(1)] by (auto simp: is_resident_def is_locked_def idle_def)
  then obtain c' where e: "evict k gpu c = Inr (True, c')"
    "\<forall>k' g'. lookup k' g' c' = (if (k', g') = (k, gpu) then None else lookup k' g' c)"
    using evict_removes [OF inv v, of k] by auto
  show ?thesis
  proof (cases l)
    case None
    then show ?thesis using e by (auto simp: evict_expert_def dropped_def)
  next
    case (Some l1)
    then show ?thesis using e k(2)
      by (cases "gpu_entries l1 (k, gpu)") (auto simp: evict_expert_def request_evict_def dropped_def idle_def unclaimed_def)
  qed
qed

lemma drain_key_idle:
  assumes "cache_inv (snd lc)" "valid_cache_gpu (snd lc) gpu" "\<forall>e. lookup k gpu (snd lc) = Some e \<longrightarrow> idle (fst lc) gpu k e"
  shows "\<exists>lc'. drain_key gpu k lc = Inr lc' \<and> dropped gpu {k} lc lc'"
proof (cases "lookup k gpu (snd lc)")
  case None
  then show ?thesis by (auto simp: drain_key_def dropped_def)
next
  case (Some e)
  then have i: "idle (fst lc) gpu k e" using assms(3) by blast
  obtain l c where lc: "lc = (l, c)" by (cases lc)
  obtain l' c' where "evict_expert k gpu (l, c) = Inr (True, l', c')" "dropped gpu {k} (l, c) (l', c')"
    using evict_expert_idle [of c gpu k e l] assms(1,2) Some i lc by auto
  then show ?thesis using Some i lc by (auto simp: drain_key_def idle_def)
qed

lemma drain_keys_idle:
  assumes "cache_inv (snd lc)" "valid_cache_gpu (snd lc) gpu" "\<forall>k \<in> set ks. \<forall>e. lookup k gpu (snd lc) = Some e \<longrightarrow> idle (fst lc) gpu k e"
  shows "\<exists>lc'. rfold (drain_key gpu) ks lc = Inr lc' \<and> dropped gpu (set ks) lc lc'"
  using assms
proof (induction ks arbitrary: lc)
  case (Cons k ks)
  obtain lc1 where 1: "drain_key gpu k lc = Inr lc1" "dropped gpu {k} lc lc1" using drain_key_idle [OF Cons.prems(1,2), of k] Cons.prems(3) by auto
  have "drains lc lc1" using drain_key_ok [OF Cons.prems(1,2), of k] 1(1) by auto
  then have c1: "cache_inv (snd lc1)" "valid_cache_gpu (snd lc1) gpu" using Cons.prems(1,2) calm_gpu [of "snd lc" "snd lc1"] by (auto simp: drains_def)
  have "\<forall>k \<in> set ks. \<forall>e. lookup k gpu (snd lc1) = Some e \<longrightarrow> idle (fst lc1) gpu k e"
    using Cons.prems(3) 1(2) by (auto simp: dropped_def idle_def split: if_splits)
  from Cons.IH [OF c1 this] obtain lc2 where "rfold (drain_key gpu) ks lc1 = Inr lc2" "dropped gpu (set ks) lc1 lc2" by blast
  with 1 show ?case by (auto simp: dropped_def)
qed (simp add: dropped_def)

section \<open>Zones of idle experts\<close>

definition idle_zone :: "lifecycle option \<times> expert_cache \<Rightarrow> int \<times> int \<Rightarrow> bool" where
  "idle_zone lc r \<longleftrightarrow>
     (\<forall>k e. lookup k (fst r) (snd lc) = Some e \<and> elastic_zone e = snd r \<longrightarrow> idle (fst lc) (fst r) k e)"

lemma dropped_idle_zone: "dropped gpu K lc lc' \<Longrightarrow> idle_zone lc r \<Longrightarrow> idle_zone lc' r"
  by (auto simp: dropped_def idle_zone_def idle_def split: if_splits)

lemma zs_find: "valid_cache_gpu c gpu \<Longrightarrow> z_id ` set (zs c gpu) = {i. find_elastic_zone i (ec_gpus c ! nat gpu) \<noteq> None}"
  by (auto simp: zs_def find_elastic_zone_def find_None_iff)

lemma calm_ids: "calm c c' \<Longrightarrow> z_id ` set (zs c' gpu) = z_id ` set (zs c gpu)"
  by (drule calm_zs [of _ _ gpu], induction rule: list_all2_induct) (auto simp: calmer_def)

lemma zone_found: "valid_cache_gpu c gpu \<Longrightarrow> zid \<in> z_id ` set (zs c gpu) \<Longrightarrow> \<exists>z. find_elastic_zone zid (ec_gpus c ! nat gpu) = Some z"
  using zs_find [of c gpu] by auto

lemma drain_rank_idle:
  assumes inv: "cache_inv (snd lc)" and v: "valid_cache_gpu (snd lc) gpu" and z: "zid \<in> z_id ` set (zs (snd lc) gpu)"
    and i: "idle_zone lc (gpu, zid)"
  shows "\<exists>K lc'. drain_rank (gpu, zid) (b, lc) = Inr (b, lc') \<and> dropped gpu K lc lc' \<and> drains lc lc'"
proof -
  obtain z0 where z0: "find_elastic_zone zid (ec_gpus (snd lc) ! nat gpu) = Some z0" using z zone_found [OF v] by blast
  obtain ks where ks: "elastic_zone_residents gpu zid (snd lc) = Inr ks"
    "set ks = fst ` {(k, e). (k, e) \<in> set (residents (ec_gpus (snd lc) ! nat gpu)) \<and> elastic_zone e = zid}"
    using zone_drain_status [OF inv v z0] by blast
  have res: "(k, e) \<in> set (residents (ec_gpus c ! nat gpu)) \<longleftrightarrow> lookup k gpu c = Some e" if "cache_inv c" "valid_cache_gpu c gpu" for c k e
  proof -
    have gs: "gpu_state c gpu = Inr (ec_gpus c ! nat gpu)" using that(2) by (rule gpu_state_valid)
    then have "keys_ok (ec_gpus c ! nat gpu)" using gpu_state_ok(1) [OF that(1)] by (auto simp: cache_ok_def)
    with find_resident_Some lookup_state [OF gs] show ?thesis by metis
  qed
  have "\<forall>k \<in> set ks. \<forall>e. lookup k gpu (snd lc) = Some e \<longrightarrow> idle (fst lc) gpu k e"
    using i ks(2) res [OF inv v] by (auto simp: idle_zone_def)
  from drain_keys_idle [OF inv v this] obtain lc1 where 1: "rfold (drain_key gpu) ks lc = Inr lc1" "dropped gpu (set ks) lc lc1" by blast
  have d: "drains lc lc1" using drain_keys_ok [OF inv v, of ks] 1(1) by auto
  then have c1: "cache_inv (snd lc1)" "valid_cache_gpu (snd lc1) gpu" using inv v calm_gpu [of "snd lc" "snd lc1"] by (auto simp: drains_def)
  have "zid \<in> z_id ` set (zs (snd lc1) gpu)" using z d calm_ids [of "snd lc" "snd lc1" gpu] by (simp add: drains_def)
  then obtain z1 where z1: "find_elastic_zone zid (ec_gpus (snd lc1) ! nat gpu) = Some z1" using zone_found [OF c1(2)] by blast
  obtain ks1 where ks1: "elastic_drain_status gpu zid (snd lc1) = Inr (int (length ks1), ks1 = [])"
    "set ks1 = fst ` {(k, e). (k, e) \<in> set (residents (ec_gpus (snd lc1) ! nat gpu)) \<and> elastic_zone e = zid}"
    using zone_drain_status [OF c1 z1] by blast
  have "\<not> (lookup k gpu (snd lc1) = Some e \<and> elastic_zone e = zid)" for k e
  proof
    assume a: "lookup k gpu (snd lc1) = Some e \<and> elastic_zone e = zid"
    then have "k \<notin> set ks" "lookup k gpu (snd lc) = Some e" using 1(2) unfolding dropped_def by (metis option.distinct(1))+
    moreover from this a have "(k, e) \<in> {(k, e). (k, e) \<in> set (residents (ec_gpus (snd lc) ! nat gpu)) \<and> elastic_zone e = zid}"
      using res [OF inv v, of k e] by simp
    ultimately show False unfolding ks(2) by force
  qed
  then have "set ks1 = {}" using ks1(2) res [OF c1] by auto
  then have "ks1 = []" by simp
  then show ?thesis using ks(1) 1 ks1(1) d by (auto simp: drain_rank_def)
qed

lemma drain_ranks_idle:
  assumes "cache_inv (snd lc)"
    "\<forall>(gpu, zid) \<in> set rs. valid_cache_gpu (snd lc) gpu \<and> zid \<in> z_id ` set (zs (snd lc) gpu) \<and> idle_zone lc (gpu, zid)"
  shows "\<exists>lc'. rfold drain_rank rs (b, lc) = Inr (b, lc')"
  using assms
proof (induction rs arbitrary: lc)
  case (Cons r rs)
  obtain gpu zid where r: "r = (gpu, zid)" by (cases r)
  obtain K lc1 where 1: "drain_rank (gpu, zid) (b, lc) = Inr (b, lc1)" "dropped gpu K lc lc1" "drains lc lc1"
    using drain_rank_idle [OF Cons.prems(1), of gpu zid b] Cons.prems(2) r by auto
  have inv: "cache_inv (snd lc1)" "calm (snd lc) (snd lc1)" using 1(3) Cons.prems(1) by (auto simp: drains_def)
  have "\<forall>(g, i) \<in> set rs. valid_cache_gpu (snd lc1) g \<and> i \<in> z_id ` set (zs (snd lc1) g) \<and> idle_zone lc1 (g, i)"
    using Cons.prems(2) dropped_idle_zone [OF 1(2)] calm_gpu [OF inv(2)] by (auto simp: calm_ids [OF inv(2)])
  from Cons.IH [OF inv(1) this] 1(1) r show ?case by auto
qed simp

end
