(* ===== verification/Zone_Cycle.thy ===== *)
theory Zone_Cycle
  imports Node_Properties Zone_Drain
begin

text \<open>The life of a grant: the marks, the start of a drain under pressure, the hand-back, and what a drain does to the
  lifecycle manager.\<close>

section \<open>Demo states\<close>

definition node_refused :: node where
  "node_refused = from_res (note_pool_pressure_refusal 3 node1) node1"

definition node_draining :: node where
  "node_draining = from_res (tick (demo_env 1000) node_refused) node_refused"

lemma node_refused_reachable: "node_reachable node_layout [demo_regions, demo_regions] 4096 False node_deps node_config node_refused"
proof -
  have "note_pool_pressure_refusal 3 node1 = Inr node_refused" unfolding node_refused_def by (rule from_res_eq) code_simp
  from node_next [OF node1_reachable node_refusal [OF this]] show ?thesis .
qed

lemma node_draining_tick: "tick (demo_env 1000) node_refused = Inr node_draining"
  unfolding node_draining_def by (rule from_res_eq) code_simp

lemma node_draining_reachable: "node_reachable node_layout [demo_regions, demo_regions] 4096 False node_deps node_config node_draining"
  by (rule node_next [OF node_refused_reachable node_tick [OF node_draining_tick]])

section \<open>The hand-back\<close>

definition quiesced :: "tick_env \<Rightarrow> grant_rec \<Rightarrow> bool" where
  "quiesced e g \<longleftrightarrow> (case moe_quiesced e of None \<Rightarrow> True | Some f \<Rightarrow> f (gr_start_slab g))"

lemma barriers_complete_st [simp]: "barriers_complete e d (g\<lparr>gr_st := st\<rparr>) = barriers_complete e d g"
  by (simp add: barriers_complete_def split: option.split)

lemma advance_completes:
  assumes "advance_grant e g nd = Inr (None, nd')"
  shows "gr_st g = SBarrier \<and> barriers_complete e (rbdeps (nd_rb nd)) g
    \<or> gr_st g = SDraining \<and> quiesced e g \<and> barriers_complete e (rbdeps (nd_rb nd)) (fst (record_barriers e (rbdeps (nd_rb nd)) g []))"
proof (cases "gr_st g")
  case SBarrier
  then show ?thesis using assms by (auto simp: advance_grant_def finish_barrier_def split: if_splits)
next
  case SDraining
  have fst: "fst (record_barriers e d g log) = fst (record_barriers e d g [])" for d log by (simp add: record_barriers_def Let_def)
  show ?thesis
    using assms SDraining fst [of "rbdeps (nd_rb nd)"]
    by (auto simp: advance_grant_def finish_barrier_def quiesced_def Let_def rbind_eq_Inr
        split: if_splits prod.splits option.splits) (metis fst_conv)+
qed (use assms in \<open>simp_all add: advance_grant_def\<close>)

lemma reachable_keeps:
  assumes "layout_sane L" "alloc_reachable L a" "alloc_reachable L a'" shows "keeps L a a'"
proof -
  obtain a0 where "page_allocator L True = Inr a0" "a_geom a = a_geom a0" using reachable_geom [OF assms(2,1)] .
  moreover obtain a1 where "page_allocator L True = Inr a1" "a_geom a' = a_geom a1" using reachable_geom [OF assms(3,1)] .
  ultimately show ?thesis using assms(3) by (simp add: keeps_def)
qed

lemma handed_back_clear:
  assumes before: "core L d (xs @ g # ys) a c" and after: "core L d (xs @ ys) a' c'" and hb: "handed_back d g a a'"
    and gpu: "gpu \<in> set (tp_gpus d)" and k: "lookup k gpu c' = Some e"
  shows "resident_bytes (expert_bytes c') e \<inter>
    {kv_main_base gpu a' + gr_start_slab g * slab_bytes a' ..< kv_main_base gpu a' + (gr_start_slab g + gr_num_slabs g) * slab_bytes a'} = {}"
proof -
  note D = coreD [OF before] note D' = coreD [OF after]
  let ?st = "nat (gr_start_slab g)" and ?n = "nat (gr_num_slabs g)"
  have g: "lent d a g" using D(5) by (auto simp: linked_def)
  have k': "keeps L a' a" using reachable_keeps [OF _ D'(2) D(2)] D(1) by (simp add: layout_placed_def)
  have old: "runs a gpu (nat (gr_start_slab h)) = runs a' gpu (nat (gr_start_slab h))" if h: "h \<in> set (xs @ ys)" for h
  proof -
    have "gr_start_slab h \<noteq> gr_start_slab g" using D(5) h by (auto simp: linked_def rev_image_eqI)
    moreover have "0 \<le> gr_start_slab h" using D'(5) h by (auto simp: linked_def lent_def)
    ultimately have "nat (gr_start_slab h) \<noteq> nat (gr_start_slab g)" using g by (auto simp: lent_def)
    then show ?thesis using hb gpu by (simp add: handed_back_def)
  qed
  have "runs a' gpu ?st = None" "runs a gpu ?st = Some ?n" using hb gpu g by (simp_all add: handed_back_def lent_def)
  from resident_clear [OF D'(3) k clear_of_grant [OF after gpu k' old this]]
  show ?thesis using g by (simp add: lent_def)
qed



section \<open>Pressure\<close>

definition pressure_target :: "rebalancer \<Rightarrow> int" where
  "pressure_target rb = (if eager_reclaim rb then max (high_water_slabs rb) (eager_demand_free_slabs rb) else high_water_slabs rb)"

lemma slabs_in_reclaim_rev [simp]: "slabs_in_reclaim (rev gs) = slabs_in_reclaim gs"
  by (simp add: slabs_in_reclaim_def rev_filter [symmetric] rev_map [symmetric] sum_list_rev)

text \<open>
  C26: Under pressure (free slabs below the low mark, or a refused admission waiting) the check starts enough drains: it never
  faults, touches neither the allocator nor a resident expert, only turns active grants to draining, and afterwards either
  every grant is being drained or the free slabs and those on their way back reach the target. A refused admission starts
  at least one drain if any grant is active, and its request is then settled.
\<close>

theorem pressure_covers_target:
  assumes "node_reachable L ls eb dup deps cfg nd" "node_layout_ok L ls eb" "av < low_water_slabs (nd_rb nd) \<or> eager_reclaim (nd_rb nd)"
  shows "\<exists>nd'. pressure_check av nd = Inr nd' \<and> nd_alloc nd' = nd_alloc nd \<and> same_residents (nd_cache nd) (nd_cache nd')
    \<and> list_all2 drain_started (rb_grants (nd_rb nd)) (rb_grants (nd_rb nd'))
    \<and> ((\<exists>g \<in> set (rb_grants (nd_rb nd')). gr_st g = SActive) \<longrightarrow>
         pressure_target (nd_rb nd) \<le> av + slabs_in_reclaim (rb_grants (nd_rb nd'))
         \<and> (eager_reclaim (nd_rb nd) \<longrightarrow> rb_grants (nd_rb nd') \<noteq> rb_grants (nd_rb nd)))
    \<and> \<not> eager_reclaim (nd_rb nd')"
proof -
  let ?rb = "nd_rb nd" let ?d = "rbdeps ?rb" let ?cov = "av + slabs_in_reclaim (rb_grants ?rb)"
  have core: "core L ?d (rev (rev (rb_grants ?rb)) @ []) (nd_alloc nd) (nd_cache nd)" using node_core(2) [OF assms(1,2)] by simp
  obtain gs' cov c' where r: "start_drains ?d (pressure_target ?rb) (rev (rb_grants ?rb)) ?cov (eager_reclaim ?rb) (nd_cache nd) = Inr (gs', cov, c')"
    "same_residents (nd_cache nd) c'" "list_all2 drain_started (rev (rb_grants ?rb)) gs'"
    "cov = ?cov + slabs_in_reclaim gs' - slabs_in_reclaim (rev (rb_grants ?rb))"
    "(\<exists>g \<in> set gs'. gr_st g = SActive) \<longrightarrow> pressure_target ?rb \<le> cov \<and> (eager_reclaim ?rb \<longrightarrow> gs' \<noteq> rev (rb_grants ?rb))"
    using start_drains_ok [OF core, of "pressure_target ?rb" ?cov "eager_reclaim ?rb"] by blast
  have l: "list_all2 drain_started (rb_grants ?rb) (rev gs')" using r(3) list_all2_rev1 by blast
  have rv: "rev gs' = rb_grants ?rb \<longleftrightarrow> gs' = rev (rb_grants ?rb)" by (metis rev_rev_ident)
  let ?done = "(\<forall>g \<in> set gs'. gr_st g \<noteq> SActive) \<or> pressure_target ?rb \<le> cov"
  have dn: ?done using r(5) by blast
  have "pressure_check av nd = Inr (nd\<lparr>nd_cache := c', nd_rb := ?rb\<lparr>rb_grants := rev gs', eager_reclaim := False, eager_demand_free_slabs := 0\<rparr>\<rparr>)"
    using assms(3) r(1) dn by (auto simp: pressure_check_def pressure_target_def Let_def list_ex_iff)
  then show ?thesis using r(2,4,5) l rv by auto
qed

theorem pressure_covers_target_witness:
  "\<exists>nd'. pressure_check 6 node_refused = Inr nd' \<and> nd_alloc nd' = nd_alloc node_refused \<and> \<not> eager_reclaim (nd_rb nd')"
proof -
  have "eager_reclaim (nd_rb node_refused)" by code_simp
  then show ?thesis using pressure_covers_target [OF node_refused_reachable node_layouts_ok, of 6] by blast
qed

section \<open>Marks\<close>



section \<open>Idle zones come back\<close>

lemma finish_reclaim_leaks: "finish_reclaim e g nd = Inr (Some g', nd') \<Longrightarrow> gr_st g' = SLeaked"
  by (auto simp: finish_reclaim_def Let_def rbind_eq_Inr split: if_splits)

definition events_done :: "tick_env \<Rightarrow> bool" where
  "events_done e \<longleftrightarrow> (case event_complete e of None \<Rightarrow> True | Some f \<Rightarrow> \<forall>gpu ev. f gpu ev)"

lemma events_done_barriers: "events_done e \<Longrightarrow> barriers_complete e d g"
  by (auto simp: events_done_def barriers_complete_def list_all_iff split: option.splits)



section \<open>The lifecycle manager\<close>

text \<open>
  Draining goes through the lifecycle manager: if before a tick every expert the manager holds in a GPU tier is resident
  in the cache, it still is after the tick, whatever the tick evicted.
\<close>

theorem tick_keeps_tiers:
  assumes "node_reachable L ls eb dup deps cfg nd" "node_layout_ok L ls eb" "tick e nd = Inr nd'"
    "elm_agrees (nd_elm nd) (nd_cache nd)"
  shows "elm_agrees (nd_elm nd') (nd_cache nd')"
  using tick_ok [OF node_core(1) [OF assms(1,2)], of e] assms(3,4) by (auto simp: elm_ok_def)

theorem tick_keeps_tiers_witness:
  "elm_agrees (nd_elm node_draining) (nd_cache node_draining)"
proof -
  have "nd_elm node_refused = None" by code_simp
  then have "elm_agrees (nd_elm node_refused) (nd_cache node_refused)" by (simp add: elm_agrees_def)
  from tick_keeps_tiers [OF node_refused_reachable node_layouts_ok node_draining_tick this] show ?thesis .
qed

section \<open>Ranks with different alignment\<close>

definition skew_layout :: vram_layout where
  "skew_layout = node_layout\<lparr>layout_gpus :=
     (case layout_gpus node_layout of
        [(g0, r0), (g1, r1)] \<Rightarrow> [(g0, r0), (g1, r1\<lparr>reg_kv_main := reg_kv_main r1 + 256\<rparr>)] | gs \<Rightarrow> gs)\<rparr>"

definition skew_alloc :: allocator where
  "skew_alloc = from_res (page_allocator skew_layout True) (empty_allocator skew_layout)"

definition skew_node :: node where
  "skew_node = node0\<lparr>nd_alloc := skew_alloc\<rparr>"


end
