(* ===== verification/Spec2Isabelle.thy ===== *)
theory Spec2Isabelle
  imports Kv_Shard Allocator_Properties Expert_Cache_Properties Lifecycle_Boot Expert_Zone_Math Spsc_Ring Seqlock Transfer_Engine_Properties Zone_Cycle
begin

text \<open>
  \<^bold>\<open>LayerStoRm memory core: a verification development.\<close>

  LayerStoRm serves mixture-of-experts models from several GPUs. Its daemon keeps three kinds of long-lived
  device memory apart: the paged KV cache of the running sequences, the side pools (indexer keys,
  compressed caches, recurrent KDA state), and the weights of the routed experts. They share one region of
  slabs per GPU, and a bad decision in the bookkeeping lets two owners write the same bytes. This development models
  that bookkeeping, the sizing arithmetic around it and the ring through which the daemon's threads talk.

  \<^bold>\<open>Parts of the program and their theories.\<close>

  \<^item> \<^emph>\<open>Conventions\<close> (\<^verbatim>\<open>Prelude\<close>). A failed \<^verbatim>\<open>assert\<close>, an out-of-range access and a thrown exception are values
    of the type \<^verbatim>\<open>fault\<close>; an operation that may fault returns \<^verbatim>\<open>fault + result\<close>. Operations pass their state explicitly.
    Fixed-width integers of the source are words where wrap-around is observable (reference
    counts, token positions, sequence numbers, generations) and integers where the value is a size or an address.

  \<^item> \<^emph>\<open>Page allocator\<close> (\<^verbatim>\<open>src/src/core/memory/page_allocator.{h,cpp}\<close>). \<^verbatim>\<open>Kv_Slabs\<close> is the slab region of one GPU
    (\<^verbatim>\<open>kv_claim_slab\<close> to \<^verbatim>\<open>kv_alloc_page\<close>, runs per sequence, holes, loose pages, whole-slab tenants); \<^verbatim>\<open>Page_Pool\<close> the
    pools of one GPU (\<^verbatim>\<open>GpuPool\<close>: page metadata, free lists, side pools, KDA runs, expert-zone grants);
    \<^verbatim>\<open>Page_Allocator\<close> the class \<^verbatim>\<open>PageAllocator\<close> over all GPUs (allocation, reference counts, promotion, copy-on-write,
    replication in lockstep over the tensor-parallel ranks, context-parallel routing, freeing a sequence);
    \<^verbatim>\<open>Page_Boot\<close> its constructor over the layout records of \<^verbatim>\<open>vram_allocator.h\<close>. The device copies that copy-on-write
    issues are returned as a list.

  \<^item> \<^emph>\<open>KV shard arithmetic\<close> (\<^verbatim>\<open>src/src/daemon/kv_shard_math.h\<close>): \<^verbatim>\<open>Kv_Shard\<close>, on 32-bit words as in the code.

  \<^item> \<^emph>\<open>Expert cache\<close> (\<^verbatim>\<open>src/src/core/memory/expert_cache.{h,cpp}\<close>): \<^verbatim>\<open>Expert_Cache\<close>, the whole class with its slot
    allocators, elastic zones, spill mode and the residency listener.

  \<^item> \<^emph>\<open>Expert zone sizing\<close> (\<^verbatim>\<open>src/src/core/memory/expert_zone_math.h\<close>): \<^verbatim>\<open>Expert_Zone_Math\<close>.

  \<^item> \<^emph>\<open>Ring\<close> (\<^verbatim>\<open>src/src/daemon/spsc_ring.h\<close>): \<^verbatim>\<open>Spsc_Ring\<close>, the operations and the two threads interleaved at every
    access of the shared memory.

  \<^item> \<^emph>\<open>Zone rebalancer\<close> (\<^verbatim>\<open>src/src/daemon/expert_zone_rebalancer.{h,cpp}\<close>): \<^verbatim>\<open>Zone_Rebalancer\<close>, the class
    \<^verbatim>\<open>ExpertZoneRebalancer\<close> from its constructor to \<^verbatim>\<open>tick\<close> and \<^verbatim>\<open>note_pool_pressure_refusal\<close>, over the record \<open>node\<close> of
    allocator, cache, lifecycle manager and rebalancer. Stream barriers, event queries, the quiesce flag and the clock are
    parameters of a tick.

  \<^item> \<^emph>\<open>Expert lifecycle manager\<close> (\<^verbatim>\<open>src/src/daemon/expert_lifecycle_manager.{h,cpp}\<close>): \<^verbatim>\<open>Expert_Lifecycle\<close> has its tables, the
    state snapshot, \<^verbatim>\<open>request_evict\<close> and the publication of a GPU tier; \<^verbatim>\<open>Lifecycle_Ops\<close> all other operations, from the
    constructor with its bootstrap of the snapshot to \<^verbatim>\<open>ensure_resident\<close>, \<^verbatim>\<open>cancel\<close> and \<^verbatim>\<open>poll\<close>, and the datatype \<open>elm_call\<close> of the
    calls. The subsystems it drives (NVMe tier, transfer engine, NUMA manager, pinned arena and loader, packed-buffer
    cache, host-source resolution) are functions of the record \<open>elm_deps\<close> over an arbitrary state of their own.

  \<^item> \<^emph>\<open>Transfer engine\<close> (\<^verbatim>\<open>src/src/core/transfer/transfer_engine.{h,cpp}\<close>): \<^verbatim>\<open>Transfer_Types\<close> has the types it shares with the lifecycle
    manager, \<^verbatim>\<open>Transfer_Engine\<close> the class \<^verbatim>\<open>TransferEngine\<close>: dedup, staging queues, pinned slots, flush, polling, cancellation,
    priorities, the stream barrier and the drain. The events, the clock and the choice of a priority queue between equal priorities are parameters.

  \<^item> \<^emph>\<open>Snapshot seqlock\<close> (\<^verbatim>\<open>src/src/daemon/ipc_protocol.h\<close>, \<^verbatim>\<open>src/src/daemon/state_transaction.h\<close>): \<^verbatim>\<open>Seqlock\<close>, the helpers, the stackable
    write transactions and a reader interleaved with the writer at every access.

  \<^bold>\<open>How the parts interact.\<close> The page allocator owns the slab region. The rebalancer of the daemon borrows a run of
  slabs from it (\<^verbatim>\<open>claim_expert_zone\<close>), sizes the slots of the run with the zone geometry and hands it to the expert cache
  (\<^verbatim>\<open>add_elastic_zone\<close>); the way back is drain (through the lifecycle manager), remove and \<^verbatim>\<open>release_expert_zone\<close>.
  \<^verbatim>\<open>Node_Machine\<close> joins them: KV traffic, expert traffic, ticks and refusals in any order.

  \<^bold>\<open>What is proved.\<close>

  \<^item> \<^verbatim>\<open>Kv_Slabs_Inv\<close>, \<^verbatim>\<open>Slab_Runs\<close>, \<^verbatim>\<open>Page_Pool_Inv\<close>, \<^verbatim>\<open>Side_Pools_Inv\<close>, \<^verbatim>\<open>Slab_Tenants_Inv\<close>, \<^verbatim>\<open>Page_Allocator_Inv\<close>,
    \<^verbatim>\<open>Free_Sequence_Inv\<close>, \<^verbatim>\<open>Replicated_Inv\<close>, \<^verbatim>\<open>Page_Boot_Inv\<close>: the invariants layer by layer and that every operation keeps
    them. \<^verbatim>\<open>Page_Source\<close> states what a client of a page source relies on as a locale; the slab region, the pool of a GPU and the side
    pools are its interpretations.

  \<^item> \<^verbatim>\<open>Allocator_Machine\<close>, \<^verbatim>\<open>Allocator_Geometry\<close>, \<^verbatim>\<open>Memory_Safety\<close>, \<^verbatim>\<open>Allocator_Counts\<close>, \<^verbatim>\<open>Allocator_Properties\<close>: the
    allocator as a transition system, memory safety of its reachable states, exact counters, and the functional behaviour
    of every operation on success and refusal; \<^verbatim>\<open>Allocator_Demo\<close> holds the concrete allocators of the witnesses.

  \<^item> \<^verbatim>\<open>Expert_Cache_Inv\<close>, \<^verbatim>\<open>Expert_Cache_Machine\<close>, \<^verbatim>\<open>Expert_Cache_Properties\<close>: the cache as a transition system; slots of
    residents are disjoint, counters and listener exact, reserve and evict inverse, a drained zone is safe to give
    back, the topology generation a sound stamp. The step relation lets \<^verbatim>\<open>promote\<close>, \<^verbatim>\<open>demote\<close> and \<^verbatim>\<open>exit_spill_mode\<close> run only under
    conditions that the code does not check; two theorems show what goes wrong without them.

  \<^item> \<^verbatim>\<open>Lifecycle_Tokens\<close>, \<^verbatim>\<open>Lifecycle_Runs\<close>: the accounts of the request tokens through every operation and every run: each
    request is answered at most once and none is lost. \<^verbatim>\<open>Lifecycle_Tiers\<close>, \<^verbatim>\<open>Lifecycle_Calls\<close>: tiers stay backed by the cache and
    every call returns. \<^verbatim>\<open>Lifecycle_Snapshot\<close>: the published arrays are the image of the tiers. \<^verbatim>\<open>Lifecycle_Properties\<close>: the
    properties, and three theorems on paths that go wrong (a late cancel, a failed NVMe read, an absent source).
    \<^verbatim>\<open>Lifecycle_Boot\<close>: the constructor establishes what these theorems start from.

  \<^item> \<^verbatim>\<open>Seqlock\<close>: a validated read is consistent, the spin of a reader ends, nested guards publish exactly their stores; a theorem
    shows that two transaction objects on one snapshot must not nest.

  \<^item> \<^verbatim>\<open>Transfer_Engine_Inv\<close>, \<^verbatim>\<open>Transfer_Engine_Calls\<close>, \<^verbatim>\<open>Transfer_Engine_Runs\<close>: the books of the transfer engine (keys in flight, tokens,
    bins, pinned slots) and that every call keeps them. \<^verbatim>\<open>Transfer_Engine_Properties\<close>: every token is accounted for, slots are exclusive,
    the flush respects cap and priorities, the barrier covers what is dispatched, the drain ends; a theorem shows that cancelled copies
    escape the cap.

  \<^item> \<^verbatim>\<open>Spsc_Ring\<close>: refinement of a bounded queue (a locale and its interpretation), safety and progress of the interleaved
    threads.

  \<^item> \<^verbatim>\<open>Zone_Traffic\<close>, \<^verbatim>\<open>Zone_Lending\<close>: what traffic leaves of the zones and of the lent runs, and what claims, releases and
    zone operations do to them. \<^verbatim>\<open>Zone_Rebalancer_Inv\<close>, \<^verbatim>\<open>Zone_Reclaim_Inv\<close>, \<^verbatim>\<open>Zone_Grant_Inv\<close>, \<^verbatim>\<open>Zone_Tick\<close>: the invariant that ties
    grants, lent runs and zones, through reclaims, grants with their roll-backs and whole ticks. \<^verbatim>\<open>Node_Machine\<close>,
    \<^verbatim>\<open>Node_Properties\<close>, \<^verbatim>\<open>Zone_Drain\<close>, \<^verbatim>\<open>Zone_Cycle\<close>: the node as a transition system; experts and KV pages never overlap,
    ticks never fault, grants are all or nothing, slabs come back only behind the barriers and do come back once the experts are
    idle. The engine's wiring is the hypothesis \<open>sited\<close>: the ranks exist on both sides, their KV regions are aligned alike
    and apart from the carved expert slots; a theorem shows what goes wrong when they are not aligned alike.
    \<^verbatim>\<open>Node_Demo\<close> holds the concrete node of the witnesses.

  \<^bold>\<open>Bounds.\<close> No definition uses fuel: loops are structural recursions or terminate by a measure; the spin of a seqlock reader and the polls
  of the transfer engine's drain, which may run for ever, are partial functions. The transfer engine's theorems hold for fewer than \<open>2 ^ 64 - 1\<close> calls. The seqlock theorem holds for fewer than \<open>2 ^ 64 - 1\<close> steps of the writer. The ring theorems
  hold for fewer than \<open>2 ^ 64\<close> writes, because \<^verbatim>\<open>try_read\<close> compares the sequence numbers without wrap-around. The
  generation stamp holds for fewer than \<open>2 ^ 64\<close> steps. Sizes in bytes are unbounded integers.

  \<^bold>\<open>Not modelled.\<close> Device memory contents and copies, CUDA calls, logging; arithmetic on doubles (the duplicate fraction of the cache,
  the waste fraction of the zone sizing and the fractional marks of the rebalancer are parameters); the budget arithmetic of the VRAM layout, whose
  results enter as layout records; weak memory orders below the fences of the ring; the timestamps and latency figures of the
  lifecycle manager and the subsystems it drives other than the transfer engine; the figures of the transfer engine; the engine, dispatcher and attention code that call these components; vendored numerical kernels.
\<close>

section \<open>Properties that span components\<close>

text \<open>
  C34: The reader-side shard arithmetic agrees with the writer: \<open>owner_rank\<close> is the rank to which the
  allocator routes a token, and when a page size divides the chunk size all tokens of a page go to the rank
  that \<open>page_owner_rank\<close> names for the page.
\<close>

theorem shard_math_matches_routing:
  assumes "1 < d" "0 < m" "0 < b" "m * b < 2 ^ 31" "d < 2 ^ 31" "unat tok < 2 ^ 31"
    "dcp_size cfg = int d" "dcp_chunk_size cfg = int (m * b)"
  shows "owner_rank tok (int (m * b)) (int d) = dcp_rank_for_token tok cfg
    \<and> dcp_rank_for_token tok cfg = page_owner_rank (int (unat tok div b)) (int m) (int d)"
proof -
  have "unat tok div (m * b) = unat tok div b div m" by (metis div_mult2_eq mult.commute)
  then show ?thesis
    using assms owner_rank_nat [of "m * b" d tok] page_owner_rank_nat [of m d "unat tok div b"]
    by (simp add: dcp_rank_for_token_def owner_rank_def)
qed

theorem shard_math_matches_routing_witness:
  "owner_rank 37 32 2 = dcp_rank_for_token 37 (default_dcp\<lparr>dcp_size := 2, dcp_chunk_size := 32\<rparr>)
   \<and> dcp_rank_for_token 37 (default_dcp\<lparr>dcp_size := 2, dcp_chunk_size := 32\<rparr>) = page_owner_rank 2 2 2"
  using shard_math_matches_routing [of 2 2 16 37 "default_dcp\<lparr>dcp_size := 2, dcp_chunk_size := 32\<rparr>"] by simp

end
